(* ===== verification/Prelude.thy ===== *)
theory Prelude
  imports Main "HOL-Library.Word"
begin

text \<open>
  Shared vocabulary of the development.

  \<^item> Results: a Rust \<open>Result\<close> is a sum, \<open>Err e\<close> on the left and \<open>Ok v\<close> on the right;
    \<open>rbind\<close> is the \<open>?\<close> operator.
  \<^item> Bytes and machine integers: \<open>u8\<close> to \<open>u64\<close> are words; \<open>usize\<close> is a natural number
    with the 64-bit bound written out by \<open>checked_add_usize\<close>.
  \<^item> Little-endian encoding of integers, with both round trips.
  \<^item> Slices of byte buffers, and the lemmas that cut a concatenation of fields at known
    offsets (collection \<open>slice_simps\<close>).
\<close>

section \<open>Collections\<close>

named_theorems slice_simps \<open>cutting a concatenation of fields at a known offset\<close>
named_theorems codec_simps \<open>lengths and inverses of the integer codecs\<close>
named_theorems policy_simps \<open>values of the numeric policy constants\<close>

section \<open>Results\<close>

abbreviation Ok :: "'a \<Rightarrow> 'e + 'a" where "Ok \<equiv> Inr"
abbreviation Err :: "'e \<Rightarrow> 'e + 'a" where "Err \<equiv> Inl"

definition rbind :: "'e + 'a \<Rightarrow> ('a \<Rightarrow> 'e + 'b) \<Rightarrow> 'e + 'b" where
  "rbind r f = (case r of Inl e \<Rightarrow> Inl e | Inr v \<Rightarrow> f v)"

definition ok_or :: "'a option \<Rightarrow> 'e \<Rightarrow> 'e + 'a" where
  "ok_or m e = (case m of None \<Rightarrow> Inl e | Some v \<Rightarrow> Inr v)"

lemma rbind_simps [simp]:
  "rbind (Err e) f = Err e"
  "rbind (Ok v) f = f v"
  by (simp_all add: rbind_def)

lemma ok_or_simps [simp]:
  "ok_or None e = Err e"
  "ok_or (Some v) e = Ok v"
  by (simp_all add: ok_or_def)

lemma rbind_eq_Ok [simp]: "rbind r f = Ok w \<longleftrightarrow> (\<exists>v. r = Ok v \<and> f v = Ok w)"
  by (cases r) auto

lemma rbind_eq_Err: "rbind r f = Err e \<longleftrightarrow> r = Err e \<or> (\<exists>v. r = Ok v \<and> f v = Err e)"
  by (cases r) auto

lemma ok_or_eq_Ok [simp]: "ok_or m e = Ok v \<longleftrightarrow> m = Some v"
  by (cases m) auto

lemma rbind_assoc: "rbind (rbind r f) g = rbind r (\<lambda>v. rbind (f v) g)"
  by (cases r) auto

section \<open>Machine integers\<close>

type_synonym u8 = "8 word"
type_synonym u16 = "16 word"
type_synonym u32 = "32 word"
type_synonym u64 = "64 word"
type_synonym bytes = "u8 list"

definition usize_limit :: nat where
  "usize_limit = 2 ^ 64"

definition checked_add_usize :: "nat \<Rightarrow> nat \<Rightarrow> nat option" where
  "checked_add_usize a b = (if a + b < usize_limit then Some (a + b) else None)"

definition checked_add_u64 :: "u64 \<Rightarrow> u64 \<Rightarrow> u64 option" where
  "checked_add_u64 a b = (if unat a + unat b < 2 ^ 64 then Some (a + b) else None)"

definition checked_sub_u64 :: "u64 \<Rightarrow> u64 \<Rightarrow> u64 option" where
  "checked_sub_u64 a b = (if b \<le> a then Some (a - b) else None)"

definition checked_mul_u64 :: "u64 \<Rightarrow> u64 \<Rightarrow> u64 option" where
  "checked_mul_u64 a b = (if unat a * unat b < 2 ^ 64 then Some (a * b) else None)"

definition saturating_add_u64 :: "u64 \<Rightarrow> u64 \<Rightarrow> u64" where
  "saturating_add_u64 a b = (if unat a + unat b < 2 ^ 64 then a + b else - 1)"

definition saturating_sub_u64 :: "u64 \<Rightarrow> u64 \<Rightarrow> u64" where
  "saturating_sub_u64 a b = (if b \<le> a then a - b else 0)"

text \<open>\<open>u64::div_ceil\<close>: the quotient rounded up, computed without an intermediate overflow.\<close>

definition div_ceil_u64 :: "u64 \<Rightarrow> u64 \<Rightarrow> u64" where
  "div_ceil_u64 a b = (if a mod b = 0 then a div b else a div b + 1)"

lemma checked_add_usize_eq_Some [simp]:
  "checked_add_usize a b = Some c \<longleftrightarrow> c = a + b \<and> a + b < usize_limit"
  by (auto simp: checked_add_usize_def)

lemma checked_add_u64_SomeD:
  "checked_add_u64 a b = Some c \<Longrightarrow> unat c = unat a + unat b"
  by (auto simp: checked_add_u64_def unat_word_ariths split: if_splits)

lemma checked_add_u64_Some:
  "unat a + unat b < 2 ^ 64 \<Longrightarrow> checked_add_u64 a b = Some (a + b)"
  by (simp add: checked_add_u64_def)

lemma checked_mul_u64_SomeD:
  "checked_mul_u64 a b = Some c \<Longrightarrow> unat c = unat a * unat b"
  by (auto simp: checked_mul_u64_def unat_word_ariths split: if_splits)

lemma checked_sub_u64_SomeD:
  "checked_sub_u64 a b = Some c \<Longrightarrow> unat c = unat a - unat b \<and> unat b \<le> unat a"
  by (auto simp: checked_sub_u64_def unat_sub word_le_nat_alt split: if_splits)

lemma unat_saturating_sub_u64: "unat (saturating_sub_u64 a b) = unat a - unat b"
  by (auto simp: saturating_sub_u64_def unat_sub word_le_nat_alt)

lemma unat_saturating_add_u64:
  "unat (saturating_add_u64 a b) = min (2 ^ 64 - 1) (unat a + unat b)"
proof (cases "unat a + unat b < 2 ^ 64")
  case True
  then show ?thesis by (simp add: saturating_add_u64_def unat_word_ariths)
next
  case False
  have "unat (- 1 :: u64) = 2 ^ 64 - 1"
    by (simp add: unsigned_minus_1_eq_mask mask_eq_exp_minus_1)
  with False show ?thesis by (simp add: saturating_add_u64_def)
qed

lemma word_eq_of_nat: "unat w = n \<Longrightarrow> w = word_of_nat n"
  by auto

lemma unat_word_of_nat_u64: "n < 2 ^ 64 \<Longrightarrow> unat (word_of_nat n :: u64) = n"
  by (simp add: unat_of_nat)

lemma unat_word_of_nat_u32: "n < 2 ^ 32 \<Longrightarrow> unat (word_of_nat n :: u32) = n"
  by (simp add: unat_of_nat)

lemma unat_word_of_nat_u16: "n < 2 ^ 16 \<Longrightarrow> unat (word_of_nat n :: u16) = n"
  by (simp add: unat_of_nat)

lemma unat_ucast_u64_u32: "unat w < 2 ^ 32 \<Longrightarrow> unat (ucast (w :: u64) :: u32) = unat w"
proof -
  have "unat (ucast (w :: u64) :: u32) = unat w mod 2 ^ 32"
    by transfer (simp add: take_bit_eq_mod nat_mod_distrib)
  then show "unat w < 2 ^ 32 \<Longrightarrow> ?thesis" by simp
qed

lemma unat_ucast_u32_u64 [simp]: "unat (ucast (w :: u32) :: u64) = unat w"
  by transfer simp

lemma unat_u8_less [simp]: "unat (w :: u8) < 256"
  using unsigned_less [of w] by simp

lemma unat_u16_less [simp]: "unat (w :: u16) < 65536"
  using unsigned_less [of w] by simp

lemma unat_u32_less [simp]: "unat (w :: u32) < 4294967296"
  using unsigned_less [of w] by simp

lemma unat_u64_less [simp]: "unat (w :: u64) < 18446744073709551616"
  using unsigned_less [of w] by simp

section \<open>Little-endian integers\<close>

text \<open>
  \<open>le_bytes n v\<close> is the \<open>n\<close>-byte little-endian encoding of \<open>v\<close> (the low \<open>8 n\<close> bits),
  \<open>le_nat\<close> reads any byte string as a little-endian number. They are inverse in both
  directions; \<open>to_le_bytes\<close> and \<open>from_le_bytes\<close> of the Rust integer types are these at
  widths 2, 4 and 8.
\<close>

fun le_bytes :: "nat \<Rightarrow> nat \<Rightarrow> bytes" where
  "le_bytes 0 v = []"
| "le_bytes (Suc n) v = word_of_nat v # le_bytes n (v div 256)"

fun le_nat :: "bytes \<Rightarrow> nat" where
  "le_nat [] = 0"
| "le_nat (b # bs) = unat b + 256 * le_nat bs"

lemma length_le_bytes [simp, codec_simps]: "length (le_bytes n v) = n"
  by (induction n arbitrary: v) auto

lemma unat_word_of_nat_u8: "unat (word_of_nat v :: u8) = v mod 256"
  by (simp add: unat_of_nat)

lemma le_nat_le_bytes: "le_nat (le_bytes n v) = v mod 256 ^ n"
proof (induction n arbitrary: v)
  case 0
  then show ?case by simp
next
  case (Suc n)
  then show ?case
    by (simp add: unat_word_of_nat_u8 mod_mult2_eq)
qed

lemma le_nat_less: "le_nat bs < 256 ^ length bs"
proof (induction bs)
  case Nil
  then show ?case by simp
next
  case (Cons b bs)
  have "unat b < 256" by simp
  then have "unat b + 256 * le_nat bs < 256 * (le_nat bs + 1)" by simp
  also have "\<dots> \<le> 256 * 256 ^ length bs"
    using Cons by (intro mult_le_mono2) simp
  finally show ?case by simp
qed

lemma le_bytes_le_nat: "le_bytes (length bs) (le_nat bs) = bs"
proof (induction bs)
  case Nil
  then show ?case by simp
next
  case (Cons b bs)
  have "word_of_nat (unat b + 256 * le_nat bs) = b"
    by (metis unat_word_of_nat_u8 mod_mult_self2 mod_less unat_u8_less of_nat_unat word_unat_eq_iff)
  moreover have "(unat b + 256 * le_nat bs) div 256 = le_nat bs"
    by simp
  ultimately show ?case using Cons by simp
qed

definition le16 :: "u16 \<Rightarrow> bytes" where "le16 w = le_bytes 2 (unat w)"
definition le32 :: "u32 \<Rightarrow> bytes" where "le32 w = le_bytes 4 (unat w)"
definition le64 :: "u64 \<Rightarrow> bytes" where "le64 w = le_bytes 8 (unat w)"

definition from_le16 :: "bytes \<Rightarrow> u16" where "from_le16 bs = word_of_nat (le_nat bs)"
definition from_le32 :: "bytes \<Rightarrow> u32" where "from_le32 bs = word_of_nat (le_nat bs)"
definition from_le64 :: "bytes \<Rightarrow> u64" where "from_le64 bs = word_of_nat (le_nat bs)"

lemma length_le [simp, codec_simps]:
  "length (le16 a) = 2" "length (le32 b) = 4" "length (le64 c) = 8"
  by (simp_all add: le16_def le32_def le64_def)

lemma from_le_le [simp, codec_simps]:
  "from_le16 (le16 a) = a" "from_le32 (le32 b) = b" "from_le64 (le64 c) = c"
  by (simp_all add: le16_def le32_def le64_def from_le16_def from_le32_def from_le64_def
      le_nat_le_bytes)

lemma le_from_le [codec_simps]:
  "length bs = 2 \<Longrightarrow> le16 (from_le16 bs) = bs"
  "length bs = 4 \<Longrightarrow> le32 (from_le32 bs) = bs"
  "length bs = 8 \<Longrightarrow> le64 (from_le64 bs) = bs"
  using le_nat_less [of bs] le_bytes_le_nat [of bs]
  by (simp_all add: le16_def le32_def le64_def from_le16_def from_le32_def from_le64_def
      unat_of_nat)

lemma le_inject [simp]:
  "le16 a = le16 a' \<longleftrightarrow> a = a'" "le32 b = le32 b' \<longleftrightarrow> b = b'" "le64 c = le64 c' \<longleftrightarrow> c = c'"
  by (metis from_le_le(1)) (metis from_le_le(2), metis from_le_le(3))

section \<open>Byte strings and slices\<close>

definition ascii :: "string \<Rightarrow> bytes" where
  "ascii s = map of_char s"

lemma length_ascii [simp]: "length (ascii s) = length s"
  by (simp add: ascii_def)

text \<open>\<open>&xs[i..j]\<close>, used where the source has checked \<open>i \<le> j \<le> xs.len()\<close>.\<close>

definition slice :: "'a list \<Rightarrow> nat \<Rightarrow> nat \<Rightarrow> 'a list" where
  "slice xs i j = take (j - i) (drop i xs)"

lemma length_slice [simp]: "length (slice xs i j) = min (j - i) (length xs - i)"
  by (simp add: slice_def min.commute)

lemma slice_append_left [slice_simps]:
  "j \<le> length xs \<Longrightarrow> slice (xs @ ys) i j = slice xs i j"
  by (simp add: slice_def)

lemma slice_append_right [slice_simps]:
  "length xs \<le> i \<Longrightarrow> slice (xs @ ys) i j = slice ys (i - length xs) (j - length xs)"
  by (simp add: slice_def)

lemma slice_all [slice_simps]: "i = 0 \<Longrightarrow> j = length xs \<Longrightarrow> slice xs i j = xs"
  by (simp add: slice_def)

lemma slice_Cons [slice_simps]: "0 < i \<Longrightarrow> slice (x # xs) i j = slice xs (i - 1) (j - 1)"
  by (cases i) (simp_all add: slice_def)

lemma slice_slice:
  "a \<le> b \<Longrightarrow> i + b \<le> j \<Longrightarrow> slice (slice xs i j) a b = slice xs (i + a) (i + b)"
  by (simp add: slice_def take_drop drop_drop min_def add.commute)

lemma slice_take: "j \<le> n \<Longrightarrow> slice (take n xs) i j = slice xs i j"
  by (simp only: slice_def drop_take take_take) (simp add: min_absorb1)

lemma slice_join: "i \<le> j \<Longrightarrow> j \<le> k \<Longrightarrow> slice xs i j @ slice xs j k = slice xs i k"
proof -
  assume ij: "i \<le> j" and jk: "j \<le> k"
  have "slice xs i k = take ((j - i) + (k - j)) (drop i xs)"
    using ij jk by (simp add: slice_def)
  also have "\<dots> = take (j - i) (drop i xs) @ take (k - j) (drop (j - i) (drop i xs))"
    by (rule take_add)
  also have "\<dots> = slice xs i j @ slice xs j k"
    using ij by (simp add: slice_def)
  finally show ?thesis by simp
qed

lemma slice_zero_take: "slice xs 0 n = take n xs"
  by (simp add: slice_def)

lemma slice_join_assoc:
  "i \<le> j \<Longrightarrow> j \<le> k \<Longrightarrow> slice xs i j @ slice xs j k @ r = slice xs i k @ r"
  by (simp add: slice_join flip: append_assoc)

lemmas slice_joins = slice_join slice_join_assoc

lemma length_slice_in: "i \<le> j \<Longrightarrow> j \<le> length xs \<Longrightarrow> length (slice xs i j) = j - i"
  by simp

definition u16_at :: "bytes \<Rightarrow> nat \<Rightarrow> u16" where
  "u16_at data offset = from_le16 (slice data offset (offset + 2))"

definition u32_at :: "bytes \<Rightarrow> nat \<Rightarrow> u32" where
  "u32_at data offset = from_le32 (slice data offset (offset + 4))"

definition u64_at :: "bytes \<Rightarrow> nat \<Rightarrow> u64" where
  "u64_at data offset = from_le64 (slice data offset (offset + 8))"

lemma le_at:
  "offset + 2 \<le> length data \<Longrightarrow> le16 (u16_at data offset) = slice data offset (offset + 2)"
  "offset + 4 \<le> length data \<Longrightarrow> le32 (u32_at data offset) = slice data offset (offset + 4)"
  "offset + 8 \<le> length data \<Longrightarrow> le64 (u64_at data offset) = slice data offset (offset + 8)"
  by (simp_all add: u16_at_def u32_at_def u64_at_def le_from_le)

lemma at_take:
  "offset + 2 \<le> n \<Longrightarrow> u16_at (take n data) offset = u16_at data offset"
  "offset + 4 \<le> n \<Longrightarrow> u32_at (take n data) offset = u32_at data offset"
  "offset + 8 \<le> n \<Longrightarrow> u64_at (take n data) offset = u64_at data offset"
  by (simp_all add: u16_at_def u32_at_def u64_at_def slice_take)

end
