(* ===== verification/Crypto_Policy.thy ===== *)
theory Crypto_Policy
  imports Prelude
begin

text \<open>
  \<open>crypto/error.rs\<close>, \<open>crypto/policy.rs\<close>, \<open>crypto/envelope/length.rs\<close> and
  \<open>crypto/envelope/range.rs\<close>: the error values of the crypto code, the limits of the TDENC2
  format with their validators, and the length arithmetic of an envelope at the widths of the
  source (\<open>u32\<close>, \<open>u64\<close>).
\<close>

section \<open>Errors\<close>

datatype crypto_error_code =
    VaultLocked | KeyRequired | WrongKeyOrCorrupt | UnsupportedVersion | HeaderInvalid
  | PolicyRejected | KdfLimitExceeded | AuthFailed | Truncated | SizeOverflow | TelegramLimit
  | TempPolicyBlocked | RecoveryRequired | InternalError | IoError

datatype crypto_error = Crypto_Error (ce_code: crypto_error_code) (ce_message: string)

type_synonym 'a crypto_result = "crypto_error + 'a"

text \<open>Decimal formatting, for the messages built with \<open>format!\<close>.\<close>

fun show_nat :: "nat \<Rightarrow> string" where
  "show_nat n = (if n < 10 then [char_of (48 + n)] else show_nat (n div 10) @ [char_of (48 + n mod 10)])"

declare show_nat.simps [simp del]

definition vault_locked :: crypto_error where
  "vault_locked = Crypto_Error VaultLocked ''Vault is locked''"

definition key_required :: crypto_error where
  "key_required = Crypto_Error KeyRequired ''Key is required to decrypt this file''"

definition wrong_key_or_corrupt :: crypto_error where
  "wrong_key_or_corrupt = Crypto_Error WrongKeyOrCorrupt ''Wrong key or corrupt data''"

definition unsupported_version :: "u16 \<Rightarrow> crypto_error" where
  "unsupported_version version =
     Crypto_Error UnsupportedVersion (''Unsupported envelope version: '' @ show_nat (unat version))"

definition header_invalid :: "string \<Rightarrow> crypto_error" where
  "header_invalid detail = Crypto_Error HeaderInvalid detail"

definition auth_failed :: crypto_error where
  "auth_failed = Crypto_Error AuthFailed ''Authentication failed''"

definition truncated :: crypto_error where
  "truncated = Crypto_Error Truncated ''Data truncated''"

definition size_overflow :: crypto_error where
  "size_overflow = Crypto_Error SizeOverflow ''Size overflow''"

definition telegram_limit :: crypto_error where
  "telegram_limit = Crypto_Error TelegramLimit ''File exceeds Telegram size limit after encryption''"

definition internal :: "string \<Rightarrow> crypto_error" where
  "internal msg = Crypto_Error InternalError msg"

section \<open>Limits of the format\<close>

definition MAGIC :: bytes where "MAGIC = ascii ''TDENC2''"
definition EXPERIMENTAL_TDENC1_MAGIC :: bytes where "EXPERIMENTAL_TDENC1_MAGIC = ascii ''TDENC1''"
definition FORMAT_VERSION :: u16 where "FORMAT_VERSION = 2"
definition CIPHER_SUITE_XCHACHA20_POLY1305 :: u16 where "CIPHER_SUITE_XCHACHA20_POLY1305 = 1"
definition AEAD_TAG_LENGTH :: nat where [policy_simps]: "AEAD_TAG_LENGTH = 16"
definition DEFAULT_CHUNK_SIZE :: u32 where "DEFAULT_CHUNK_SIZE = 1048576"
definition MIN_CHUNK_SIZE :: u32 where "MIN_CHUNK_SIZE = 65536"
definition MAX_CHUNK_SIZE :: u32 where "MAX_CHUNK_SIZE = 16777216"
definition MAX_KEY_SLOTS :: nat where [policy_simps]: "MAX_KEY_SLOTS = 8"
definition MAX_HEADER_LENGTH :: nat where [policy_simps]: "MAX_HEADER_LENGTH = 65536"
definition MAX_METADATA_LENGTH :: nat where [policy_simps]: "MAX_METADATA_LENGTH = 65536"
definition CORE_HEADER_SIZE :: nat where [policy_simps]: "CORE_HEADER_SIZE = 98"
definition CORE_PREFIX_SIZE :: nat where [policy_simps]: "CORE_PREFIX_SIZE = 66"
definition FINAL_RECORD_PLAINTEXT_SIZE :: nat where [policy_simps]: "FINAL_RECORD_PLAINTEXT_SIZE = 52"
definition FINAL_RECORD_CIPHERTEXT_SIZE :: nat where
  [policy_simps]: "FINAL_RECORD_CIPHERTEXT_SIZE = FINAL_RECORD_PLAINTEXT_SIZE + AEAD_TAG_LENGTH"
definition KEY_SLOT_SIZE :: nat where [policy_simps]: "KEY_SLOT_SIZE = 104"
definition FINAL_RECORD_NONCE_INDEX :: u64 where "FINAL_RECORD_NONCE_INDEX = 18446744073709551614"
definition METADATA_NONCE_INDEX :: u64 where "METADATA_NONCE_INDEX = 18446744073709551615"
definition ARGON2_MEMORY_FLOOR_KIB :: u32 where "ARGON2_MEMORY_FLOOR_KIB = 65536"
definition ARGON2_MEMORY_CEILING_KIB :: u32 where "ARGON2_MEMORY_CEILING_KIB = 262144"
definition ARGON2_ITERATIONS_FLOOR :: u32 where "ARGON2_ITERATIONS_FLOOR = 3"
definition ARGON2_ITERATIONS_CEILING :: u32 where "ARGON2_ITERATIONS_CEILING = 100"
definition ARGON2_PARALLELISM_FLOOR :: u32 where "ARGON2_PARALLELISM_FLOOR = 1"
definition ARGON2_PARALLELISM_CEILING :: u32 where "ARGON2_PARALLELISM_CEILING = 8"
definition TELEGRAM_MAX_FILE_SIZE :: u64 where "TELEGRAM_MAX_FILE_SIZE = 2000000000"
definition MAX_CIPHERTEXT_SIZE :: u64 where "MAX_CIPHERTEXT_SIZE = TELEGRAM_MAX_FILE_SIZE"

datatype slot_kind = Vault | Passphrase | RecoveryKey

fun slot_kind_u8 :: "slot_kind \<Rightarrow> u8" where
  "slot_kind_u8 Vault = 1"
| "slot_kind_u8 Passphrase = 2"
| "slot_kind_u8 RecoveryKey = 3"

datatype kdf_algorithm = Argon2id | HkdfSha256

fun kdf_algorithm_u16 :: "kdf_algorithm \<Rightarrow> u16" where
  "kdf_algorithm_u16 Argon2id = 1"
| "kdf_algorithm_u16 HkdfSha256 = 2"

record crypto_feature_flags =
  core_available :: bool
  mode_alpha :: bool
  upload_enabled :: bool
  read_enabled :: bool
  share_enabled :: bool
  migration_enabled :: bool

definition default_feature_flags :: crypto_feature_flags where
  "default_feature_flags =
     \<lparr>core_available = True, mode_alpha = True, upload_enabled = True, read_enabled = True,
      share_enabled = False, migration_enabled = False\<rparr>"

definition validate_argon2_params :: "u32 \<Rightarrow> u32 \<Rightarrow> u32 \<Rightarrow> (u32 \<times> u32 \<times> u32) crypto_result" where
  "validate_argon2_params memory_kib iterations parallelism =
     (if \<not> (ARGON2_MEMORY_FLOOR_KIB \<le> memory_kib \<and> memory_kib \<le> ARGON2_MEMORY_CEILING_KIB)
       \<or> \<not> (ARGON2_ITERATIONS_FLOOR \<le> iterations \<and> iterations \<le> ARGON2_ITERATIONS_CEILING)
       \<or> \<not> (ARGON2_PARALLELISM_FLOOR \<le> parallelism \<and> parallelism \<le> ARGON2_PARALLELISM_CEILING)
      then Err (Crypto_Error PolicyRejected
                  ''Argon2 parameters are outside the approved policy range'')
      else Ok (memory_kib, iterations, parallelism))"

definition validate_chunk_size :: "u32 \<Rightarrow> u32 crypto_result" where
  "validate_chunk_size chunk =
     (if \<not> (MIN_CHUNK_SIZE \<le> chunk \<and> chunk \<le> MAX_CHUNK_SIZE)
      then Err (Crypto_Error PolicyRejected
             (''Chunk size '' @ show_nat (unat chunk) @ '' outside range ['' @
              show_nat (unat MIN_CHUNK_SIZE) @ '', '' @ show_nat (unat MAX_CHUNK_SIZE) @ '']''))
      else Ok chunk)"

lemma validate_chunk_size_Ok [simp]:
  "validate_chunk_size chunk = Ok v \<longleftrightarrow> v = chunk \<and> 65536 \<le> unat chunk \<and> unat chunk \<le> 16777216"
  by (auto simp: validate_chunk_size_def MIN_CHUNK_SIZE_def MAX_CHUNK_SIZE_def word_le_nat_alt)

lemma validate_argon2_params_Ok:
  "validate_argon2_params m i p = Ok v \<longleftrightarrow>
     v = (m, i, p) \<and> 65536 \<le> unat m \<and> unat m \<le> 262144 \<and> 3 \<le> unat i \<and> unat i \<le> 100
     \<and> 1 \<le> unat p \<and> unat p \<le> 8"
  by (auto simp: validate_argon2_params_def word_le_nat_alt
      ARGON2_MEMORY_FLOOR_KIB_def ARGON2_MEMORY_CEILING_KIB_def ARGON2_ITERATIONS_FLOOR_def
      ARGON2_ITERATIONS_CEILING_def ARGON2_PARALLELISM_FLOOR_def ARGON2_PARALLELISM_CEILING_def)

lemma validate_argon2_writer_params [simp]:
  "validate_argon2_params ARGON2_MEMORY_FLOOR_KIB ARGON2_ITERATIONS_FLOOR ARGON2_PARALLELISM_FLOOR
     = Ok (ARGON2_MEMORY_FLOOR_KIB, ARGON2_ITERATIONS_FLOOR, ARGON2_PARALLELISM_FLOOR)"
  by (simp add: validate_argon2_params_Ok ARGON2_MEMORY_FLOOR_KIB_def ARGON2_ITERATIONS_FLOOR_def
      ARGON2_PARALLELISM_FLOOR_def)

section \<open>Envelope length\<close>

definition calculate_chunk_count :: "u64 \<Rightarrow> u32 \<Rightarrow> u32" where
  "calculate_chunk_count plaintext_length chunk_size =
     (if plaintext_length = 0 then 0
      else ucast (div_ceil_u64 plaintext_length (ucast chunk_size)))"

definition calculate_ciphertext_length :: "u64 \<Rightarrow> u32 \<Rightarrow> u32 \<Rightarrow> u64 crypto_result" where
  "calculate_ciphertext_length plaintext_length chunk_size complete_header_length =
     rbind (validate_chunk_size chunk_size) (\<lambda>_.
     let header_length = unat complete_header_length in
     if \<not> (CORE_HEADER_SIZE \<le> header_length \<and> header_length \<le> MAX_HEADER_LENGTH)
     then Err (header_invalid ''Complete header length is outside policy'')
     else
       let chunk_count = ucast (calculate_chunk_count plaintext_length chunk_size) :: u64 in
       rbind (ok_or (checked_mul_u64 chunk_count (of_nat AEAD_TAG_LENGTH)) size_overflow) (\<lambda>chunk_tags.
       rbind (ok_or (checked_add_u64 (ucast complete_header_length) plaintext_length) size_overflow) (\<lambda>t1.
       rbind (ok_or (checked_add_u64 t1 chunk_tags) size_overflow) (\<lambda>t2.
       rbind (ok_or (checked_add_u64 t2 (of_nat FINAL_RECORD_CIPHERTEXT_SIZE)) size_overflow) (\<lambda>total.
       if MAX_CIPHERTEXT_SIZE < total then Err telegram_limit else Ok total)))))"

section \<open>Byte ranges of an envelope\<close>

definition plaintext_range_to_ciphertext_records ::
  "u64 \<Rightarrow> u64 \<Rightarrow> u32 \<Rightarrow> u64 \<Rightarrow> (u32 \<times> u32) crypto_result" where
  "plaintext_range_to_ciphertext_records range_start range_end chunk_size total_plaintext_length =
     (if range_end < range_start then Err (header_invalid ''Invalid range: start > end'')
      else if total_plaintext_length \<le> range_end
      then Err (header_invalid ''Range exceeds file length'')
      else let cs = ucast chunk_size :: u64 in
        Ok (ucast (range_start div cs), ucast (range_end div cs)))"

definition chunk_ciphertext_offset :: "u32 \<Rightarrow> u32 \<Rightarrow> u64 \<Rightarrow> u64 crypto_result" where
  "chunk_ciphertext_offset chunk_index chunk_size plaintext_length =
     (let cs = ucast chunk_size :: u64; tag_size = of_nat AEAD_TAG_LENGTH :: u64;
          full_chunks = plaintext_length div cs; remaining = plaintext_length mod cs in
      if (ucast chunk_index :: u64) < full_chunks
      then Ok (ucast chunk_index * (cs + tag_size))
      else if (ucast chunk_index :: u64) = full_chunks \<and> 0 < remaining
      then Ok (full_chunks * (cs + tag_size))
      else Err (header_invalid ''Chunk index out of range''))"

definition data_ciphertext_size :: "u64 \<Rightarrow> u32 \<Rightarrow> u64 crypto_result" where
  "data_ciphertext_size plaintext_length chunk_size =
     (let cs = ucast chunk_size :: u64; tag_size = of_nat AEAD_TAG_LENGTH :: u64 in
      if plaintext_length = 0 then Ok 0
      else
        let full_chunks = plaintext_length div cs; remaining = plaintext_length mod cs;
            tags = (if 0 < remaining then full_chunks + 1 else full_chunks)
        in Ok (plaintext_length + tags * tag_size))"

definition total_envelope_size :: "u32 \<Rightarrow> u64 \<Rightarrow> u64 crypto_result" where
  "total_envelope_size header_length data_ct_size =
     rbind (ok_or (checked_add_u64 (ucast header_length) data_ct_size) size_overflow) (\<lambda>t.
     ok_or (checked_add_u64 t (of_nat FINAL_RECORD_CIPHERTEXT_SIZE)) size_overflow)"

section \<open>The length arithmetic over natural numbers\<close>

text \<open>
  \<open>ceil_div\<close> and \<open>envelope_length\<close> are the specification: unbounded arithmetic. The lemmas
  say that the word arithmetic of the source computes exactly these values whenever it
  succeeds.
\<close>

definition ceil_div :: "nat \<Rightarrow> nat \<Rightarrow> nat" where
  "ceil_div a b = a div b + (if a mod b = 0 then 0 else 1)"

definition envelope_length :: "nat \<Rightarrow> nat \<Rightarrow> nat \<Rightarrow> nat" where
  "envelope_length plain chunk header = header + plain + 16 * ceil_div plain chunk + 68"

text \<open>Plaintext bytes of record \<open>i\<close>: full records and a possibly short last one.\<close>

definition record_plain :: "nat \<Rightarrow> nat \<Rightarrow> nat \<Rightarrow> nat" where
  "record_plain plain chunk i = min chunk (plain - i * chunk)"

lemma ceil_div_0 [simp]: "ceil_div 0 b = 0"
  by (cases b) (simp_all add: ceil_div_def)

lemma less_ceil_div_iff: "0 < b \<Longrightarrow> i < ceil_div a b \<longleftrightarrow> i * b < a"
proof -
  assume b: "0 < b"
  define q r where "q = a div b" and "r = a mod b"
  have a: "a = q * b + r" and r: "r < b"
    using b by (simp_all add: q_def r_def)
  show ?thesis
  proof (cases "r = 0")
    case True
    then show ?thesis using a b by (simp add: ceil_div_def q_def [symmetric] r_def [symmetric])
  next
    case False
    have "i * b < a \<longleftrightarrow> i \<le> q"
    proof
      assume "i * b < a"
      then have "i * b < Suc q * b" using a r by simp
      then show "i \<le> q" by (simp only: mult_less_cancel2 less_Suc_eq_le)
    next
      assume "i \<le> q"
      then have "i * b \<le> q * b" by (rule mult_le_mono1)
      then show "i * b < a" unfolding a using False by linarith
    qed
    then show ?thesis using False by (simp add: ceil_div_def q_def [symmetric] r_def [symmetric] less_Suc_eq_le)
  qed
qed

lemma ceil_div_le: "0 < b \<Longrightarrow> ceil_div a b \<le> a"
  using less_ceil_div_iff [of b a a] by (cases "ceil_div a b \<le> a") auto

lemma nat_eq_by_less: "(\<And>j. j < m \<longleftrightarrow> j < n) \<Longrightarrow> m = (n :: nat)"
  by (metis less_irrefl nat_neq_iff)

lemma ceil_div_step: "0 < b \<Longrightarrow> ceil_div (a - i * b) b = ceil_div a b - i"
proof (rule nat_eq_by_less)
  fix j
  assume b: "0 < b"
  have "j < ceil_div (a - i * b) b \<longleftrightarrow> j * b < a - i * b"
    using b by (rule less_ceil_div_iff)
  also have "\<dots> \<longleftrightarrow> (i + j) * b < a"
    by (auto simp: add_mult_distrib)
  also have "\<dots> \<longleftrightarrow> i + j < ceil_div a b"
    using b by (simp only: less_ceil_div_iff)
  finally show "j < ceil_div (a - i * b) b \<longleftrightarrow> j < ceil_div a b - i" by auto
qed

lemma unat_div_ceil_u64:
  "unat b \<noteq> 0 \<Longrightarrow> unat (div_ceil_u64 a b) = ceil_div (unat a) (unat b)"
proof -
  assume b: "unat b \<noteq> 0"
  have "unat (a div b + 1) = unat a div unat b + 1" if "unat a mod unat b \<noteq> 0"
  proof -
    have "0 < unat b" using b by simp
    then have "ceil_div (unat a) (unat b) \<le> unat a" by (rule ceil_div_le)
    then have "unat a div unat b + 1 < 2 ^ 64"
      using that unat_u64_less [of a] by (simp add: ceil_div_def del: unat_u64_less)
    then show ?thesis by (simp add: unat_word_ariths unat_div)
  qed
  moreover have "a mod b = 0 \<longleftrightarrow> unat a mod unat b = 0"
    by (metis unat_eq_zero unat_mod)
  ultimately show ?thesis
    using b by (simp add: div_ceil_u64_def ceil_div_def unat_div)
qed

lemma unat_calculate_chunk_count:
  assumes "unat chunk_size \<noteq> 0" and "ceil_div (unat len) (unat chunk_size) < 2 ^ 32"
  shows "unat (calculate_chunk_count len chunk_size) = ceil_div (unat len) (unat chunk_size)"
proof (cases "len = 0")
  case True
  then show ?thesis by (simp add: calculate_chunk_count_def)
next
  case False
  have "unat (ucast (w :: u64) :: u32) = unat w mod 2 ^ 32" for w
    by transfer (simp add: take_bit_eq_mod nat_mod_distrib)
  then show ?thesis
    using False assms unat_div_ceil_u64 [of "ucast chunk_size" len]
    by (simp add: calculate_chunk_count_def)
qed

lemma calculate_ciphertext_length_cases:
  "calculate_ciphertext_length len cs hl = Ok tot \<longleftrightarrow>
     65536 \<le> unat cs \<and> unat cs \<le> 16777216 \<and> 98 \<le> unat hl \<and> unat hl \<le> 65536 \<and>
     unat hl + unat len + 16 * unat (calculate_chunk_count len cs) + 68 \<le> 2000000000 \<and>
     unat tot = unat hl + unat len + 16 * unat (calculate_chunk_count len cs) + 68"
  (is "?l \<longleftrightarrow> ?r")
proof
  assume ?l
  then show ?r
    by (auto simp: calculate_ciphertext_length_def Let_def policy_simps MAX_CIPHERTEXT_SIZE_def
        TELEGRAM_MAX_FILE_SIZE_def not_less word_le_nat_alt split: if_splits
        dest!: checked_mul_u64_SomeD checked_add_u64_SomeD)
next
  assume r: ?r
  let ?n = "calculate_chunk_count len cs"
  have m: "checked_mul_u64 (ucast ?n) 16 = Some (ucast ?n * 16)"
    and um: "unat (ucast ?n * 16 :: u64) = 16 * unat ?n"
    using r by (simp_all add: checked_mul_u64_def unat_word_ariths)
  have a1: "checked_add_u64 (ucast hl) len = Some (ucast hl + len)"
    and u1: "unat (ucast hl + len) = unat hl + unat len"
    using r by (simp_all add: checked_add_u64_def unat_word_ariths)
  have a2: "checked_add_u64 (ucast hl + len) (ucast ?n * 16) = Some (ucast hl + len + ucast ?n * 16)"
    and u2: "unat (ucast hl + len + ucast ?n * 16) = unat hl + unat len + 16 * unat ?n"
    using r by (simp_all add: checked_add_u64_def unat_word_ariths)
  have a3: "checked_add_u64 (ucast hl + len + ucast ?n * 16) 68
      = Some (ucast hl + len + ucast ?n * 16 + 68)"
    and u3: "unat (ucast hl + len + ucast ?n * 16 + 68) = unat tot"
    using r by (simp_all add: checked_add_u64_def unat_word_ariths)
  have t: "ucast hl + len + ucast ?n * 16 + 68 = tot"
    using u3 by (simp add: word_unat_eq_iff)
  have "\<not> MAX_CIPHERTEXT_SIZE < tot"
    using r by (simp add: MAX_CIPHERTEXT_SIZE_def TELEGRAM_MAX_FILE_SIZE_def word_less_nat_alt)
  then show ?l
    using r m a1 a2 a3 t
    by (simp add: calculate_ciphertext_length_def Let_def policy_simps)
qed

lemma chunk_count_when_sized:
  assumes "calculate_ciphertext_length len cs hl = Ok tot"
  shows "unat (calculate_chunk_count len cs) = ceil_div (unat len) (unat cs)"
proof -
  from assms have r: "65536 \<le> unat cs" "unat len \<le> 2000000000"
    by (simp_all add: calculate_ciphertext_length_cases)
  then have "ceil_div (unat len) (unat cs) \<le> unat len" by (intro ceil_div_le) simp
  with r have "ceil_div (unat len) (unat cs) < 2 ^ 32" by simp
  moreover have "unat cs \<noteq> 0" using r by simp
  ultimately show ?thesis by (rule unat_calculate_chunk_count [rotated])
qed

end
