(* ===== verification/Crypto_Prims.thy ===== *)
theory Crypto_Prims
  imports Crypto_Policy
begin

text \<open>
  The cryptographic primitives the code takes from third-party crates (\<open>chacha20poly1305\<close>,
  \<open>hkdf\<close>, \<open>hmac\<close>, \<open>sha2\<close>, \<open>argon2\<close>) are a parameter: a record of functions that every
  definition using them takes as its first argument. \<open>prims_ok\<close> collects what their
  documentation states and the code relies on: lengths, totality on the sizes used, and that
  sealing and opening are inverse for one key, nonce and associated data. \<open>demo_prims\<close> is a
  concrete (and cryptographically worthless) instance that shows the hypotheses can hold.

  The rest of the theory is \<open>crypto/kdf.rs\<close>.
\<close>

record prims =
  key_ok :: "bytes \<Rightarrow> bool"
  aead_seal :: "bytes \<Rightarrow> bytes \<Rightarrow> bytes \<Rightarrow> bytes \<Rightarrow> bytes option"
  aead_open :: "bytes \<Rightarrow> bytes \<Rightarrow> bytes \<Rightarrow> bytes \<Rightarrow> bytes option"
  hkdf_expand :: "bytes option \<Rightarrow> bytes \<Rightarrow> bytes \<Rightarrow> nat \<Rightarrow> string + bytes"
  hmac_sha256 :: "bytes \<Rightarrow> bytes \<Rightarrow> bytes option"
  sha256 :: "bytes \<Rightarrow> bytes"
  argon2_params_new :: "u32 \<Rightarrow> u32 \<Rightarrow> u32 \<Rightarrow> string + unit"
  argon2_hash :: "bytes \<Rightarrow> bytes \<Rightarrow> u32 \<Rightarrow> u32 \<Rightarrow> u32 \<Rightarrow> string + bytes"

definition prims_ok :: "prims \<Rightarrow> bool" where
  "prims_ok P \<longleftrightarrow>
     (\<forall>k. length k = 32 \<longrightarrow> key_ok P k) \<and>
     (\<forall>k n a m. length k = 32 \<and> length n = 24 \<and> length m < 2 ^ 32 \<longrightarrow>
        (\<exists>c. aead_seal P k n a m = Some c \<and> length c = length m + 16)) \<and>
     (\<forall>k n a m c. aead_seal P k n a m = Some c \<longleftrightarrow> aead_open P k n a c = Some m) \<and>
     (\<forall>k n a m c. aead_seal P k n a m = Some c \<longrightarrow> length c = length m + 16) \<and>
     (\<forall>s i d. \<exists>k. hkdf_expand P s i d 32 = Ok k \<and> length k = 32) \<and>
     (\<forall>k m. \<exists>t. hmac_sha256 P k m = Some t \<and> length t = 32) \<and>
     (\<forall>m. length (sha256 P m) = 32) \<and>
     (\<forall>m i p. (\<exists>v. validate_argon2_params m i p = Ok v) \<longrightarrow> argon2_params_new P m i p = Ok ()) \<and>
     (\<forall>pw s m i p. (\<exists>v. validate_argon2_params m i p = Ok v) \<and> length s = 16 \<and> length pw < 2 ^ 32 \<longrightarrow>
        (\<exists>k. argon2_hash P pw s m i p = Ok k \<and> length k = 32))"

lemma prims_okD:
  assumes "prims_ok P"
  shows prims_key_ok: "length k = 32 \<Longrightarrow> key_ok P k"
    and prims_seal_total: "length k = 32 \<Longrightarrow> length n = 24 \<Longrightarrow> length m < 2 ^ 32 \<Longrightarrow>
      \<exists>c. aead_seal P k n a m = Some c \<and> length c = length m + 16"
    and prims_open_iff: "aead_open P k n a c = Some m \<longleftrightarrow> aead_seal P k n a m = Some c"
    and prims_seal_length: "aead_seal P k n a m = Some c \<Longrightarrow> length c = length m + 16"
    and prims_hkdf: "\<exists>k. hkdf_expand P s i d 32 = Ok k \<and> length k = 32"
    and prims_hmac: "\<exists>t. hmac_sha256 P k m = Some t \<and> length t = 32"
    and prims_sha: "length (sha256 P m) = 32"
    and prims_argon_params: "validate_argon2_params mem it par = Ok v \<Longrightarrow> argon2_params_new P mem it par = Ok ()"
    and prims_argon: "validate_argon2_params mem it par = Ok v \<Longrightarrow> length s' = 16 \<Longrightarrow> length pw < 2 ^ 32 \<Longrightarrow>
      \<exists>k. argon2_hash P pw s' mem it par = Ok k \<and> length k = 32"
  using assms unfolding prims_ok_def by meson+

section \<open>A concrete instance\<close>

definition demo_tag :: "bytes \<Rightarrow> bytes \<Rightarrow> bytes \<Rightarrow> bytes \<Rightarrow> bytes" where
  "demo_tag k n a m = replicate 16 (sum_list k + sum_list n + sum_list a + sum_list m)"

definition demo_prims :: prims where
  "demo_prims = \<lparr>
     key_ok = (\<lambda>k. length k = 32),
     aead_seal = (\<lambda>k n a m. Some (m @ demo_tag k n a m)),
     aead_open = (\<lambda>k n a c. let m = take (length c - 16) c in
        if 16 \<le> length c \<and> drop (length c - 16) c = demo_tag k n a m then Some m else None),
     hkdf_expand = (\<lambda>s i d n. Ok (replicate n (sum_list d))),
     hmac_sha256 = (\<lambda>k m. Some (replicate 32 (sum_list k + sum_list m))),
     sha256 = (\<lambda>m. replicate 32 (sum_list m)),
     argon2_params_new = (\<lambda>_ _ _. Ok ()),
     argon2_hash = (\<lambda>pw s _ _ _. Ok (replicate 32 (sum_list pw + sum_list s)))\<rparr>"

lemma demo_prims_ok: "prims_ok demo_prims"
proof -
  have iff: "aead_seal demo_prims k n a m = Some c \<longleftrightarrow> aead_open demo_prims k n a c = Some m"
    for k n a m c
  proof
    assume "aead_seal demo_prims k n a m = Some c"
    then show "aead_open demo_prims k n a c = Some m"
      by (auto simp: demo_prims_def demo_tag_def)
  next
    assume o: "aead_open demo_prims k n a c = Some m"
    then have m: "m = take (length c - 16) c" and t: "drop (length c - 16) c = demo_tag k n a m"
      by (auto simp: demo_prims_def Let_def split: if_splits)
    from m t have "c = m @ demo_tag k n a m" by (metis append_take_drop_id)
    then show "aead_seal demo_prims k n a m = Some c" by (simp add: demo_prims_def)
  qed
  have len: "aead_seal demo_prims k n a m = Some c \<longrightarrow> length c = length m + 16" for k n a m c
    by (auto simp: demo_prims_def demo_tag_def)
  have seal: "\<exists>c. aead_seal demo_prims k n a m = Some c \<and> length c = length m + 16" for k n a m
    by (simp add: demo_prims_def demo_tag_def)
  show ?thesis
    unfolding prims_ok_def
    by (intro conjI allI impI iff len [rule_format] seal)
      (simp_all add: demo_prims_def)
qed

section \<open>Key derivation (kdf.rs)\<close>

definition VAULT_KEK :: bytes where "VAULT_KEK = ascii ''telegram-drive:vault-kek:v2''"
definition FILE_WRAP :: bytes where "FILE_WRAP = ascii ''telegram-drive:file-wrap:v2''"
definition METADATA_ENC :: bytes where "METADATA_ENC = ascii ''telegram-drive:metadata-enc:v2''"
definition CONTENT_ENC :: bytes where "CONTENT_ENC = ascii ''telegram-drive:content-enc:v2''"
definition HEADER_AUTH :: bytes where "HEADER_AUTH = ascii ''telegram-drive:header-auth:v2''"
definition RECOVERY_EXPORT :: bytes where "RECOVERY_EXPORT = ascii ''telegram-drive:recovery-export:v2''"

definition derive_passphrase_key ::
  "prims \<Rightarrow> bytes \<Rightarrow> bytes \<Rightarrow> u32 \<Rightarrow> u32 \<Rightarrow> u32 \<Rightarrow> bytes crypto_result" where
  "derive_passphrase_key P passphrase salt memory_kib iterations parallelism =
     rbind (validate_argon2_params memory_kib iterations parallelism) (\<lambda>(m, i, p).
     case argon2_params_new P m i p of
       Inl e \<Rightarrow> Err (internal (''Invalid Argon2 params: '' @ e))
     | Inr _ \<Rightarrow>
         (case argon2_hash P passphrase salt m i p of
            Inl e \<Rightarrow> Err (internal (''Argon2 hash failed: '' @ e))
          | Inr output \<Rightarrow> Ok output))"

definition derive_domain_key :: "prims \<Rightarrow> bytes \<Rightarrow> bytes \<Rightarrow> nat \<Rightarrow> bytes crypto_result" where
  "derive_domain_key P ikm domain output_len =
     (case hkdf_expand P None ikm domain output_len of
        Inl e \<Rightarrow> Err (internal (''HKDF expand failed: '' @ e))
      | Inr output \<Rightarrow> Ok output)"

definition derive_domain_key_32 :: "prims \<Rightarrow> bytes \<Rightarrow> bytes \<Rightarrow> bytes crypto_result" where
  "derive_domain_key_32 P ikm domain = derive_domain_key P ikm domain 32"

definition file_wrap_info :: "bytes \<Rightarrow> u8 \<Rightarrow> u8 \<Rightarrow> bytes" where
  "file_wrap_info file_uuid slot_kind slot_id = FILE_WRAP @ file_uuid @ [slot_kind] @ [slot_id]"

definition derive_file_wrapping_key ::
  "prims \<Rightarrow> bytes \<Rightarrow> bytes \<Rightarrow> bytes \<Rightarrow> u8 \<Rightarrow> u8 \<Rightarrow> bytes crypto_result" where
  "derive_file_wrapping_key P master_key file_uuid salt slot_kind slot_id =
     (case hkdf_expand P (Some salt) master_key (file_wrap_info file_uuid slot_kind slot_id) 32 of
        Inl _ \<Rightarrow> Err (internal ''File wrapping-key derivation failed'')
      | Inr output \<Rightarrow> Ok output)"

lemma derive_domain_key_32_Ok:
  "prims_ok P \<Longrightarrow> \<exists>k. derive_domain_key_32 P ikm domain = Ok k \<and> length k = 32"
  using prims_hkdf [of P None ikm domain] by (auto simp: derive_domain_key_32_def derive_domain_key_def)

lemma derive_passphrase_key_length:
  "prims_ok P \<Longrightarrow> length salt = 16 \<Longrightarrow> length pw < 2 ^ 32 \<Longrightarrow>
   derive_passphrase_key P pw salt m i p = Ok k \<Longrightarrow> length k = 32"
  using prims_argon [of P m i p "(m, i, p)" salt pw]
  by (auto simp: derive_passphrase_key_def validate_argon2_params_Ok split: sum.splits prod.splits)

lemma derive_passphrase_key_total:
  "prims_ok P \<Longrightarrow> length salt = 16 \<Longrightarrow> length pw < 2 ^ 32 \<Longrightarrow> validate_argon2_params m i p = Ok v \<Longrightarrow>
   \<exists>k. derive_passphrase_key P pw salt m i p = Ok k \<and> length k = 32"
  using prims_argon [of P m i p v salt pw] prims_argon_params [of P m i p v]
  by (auto simp: derive_passphrase_key_def validate_argon2_params_Ok)

end
