(* ===== verification/Key_Slot.thy ===== *)
theory Key_Slot
  imports Crypto_Prims
begin

text \<open>
  \<open>crypto/envelope/key_slot.rs\<close>: wrapping a file's data key (DEK) into a key slot. The random
  wrapping nonce of \<open>wrap_dek\<close> is an argument. The lemmas say that unwrapping is the exact
  inverse of wrapping under the same context, and that the associated data determines every
  field of the slot it binds.
\<close>

definition SLOT_AAD_DOMAIN :: bytes where
  "SLOT_AAD_DOMAIN = ascii ''telegram-drive:tdenc2:key-slot''"

record key_slot_context =
  ctx_file_uuid :: bytes
  ctx_format_version :: u16

definition build_slot_aad ::
  "key_slot_context \<Rightarrow> u8 \<Rightarrow> u8 \<Rightarrow> u16 \<Rightarrow> u32 \<Rightarrow> u32 \<Rightarrow> u32 \<Rightarrow> bytes \<Rightarrow> bytes" where
  "build_slot_aad ctx kind slot_id kdf memory_kib iterations parallelism salt =
     SLOT_AAD_DOMAIN @ le16 (ctx_format_version ctx) @ ctx_file_uuid ctx @ [kind] @ [slot_id] @
     le16 kdf @ le32 memory_kib @ le32 iterations @ le32 parallelism @ salt"

definition wrap_dek_with_nonce ::
  "prims \<Rightarrow> key_slot_context \<Rightarrow> bytes \<Rightarrow> bytes \<Rightarrow> u8 \<Rightarrow> u8 \<Rightarrow> u16 \<Rightarrow> u32 \<Rightarrow> u32 \<Rightarrow> u32 \<Rightarrow> bytes \<Rightarrow>
   bytes \<Rightarrow> bytes crypto_result" where
  "wrap_dek_with_nonce P ctx dek wrapping_key kind slot_id kdf memory_kib iterations parallelism
       salt wrap_nonce =
     (if \<not> key_ok P wrapping_key then Err (internal ''Invalid wrapping key'')
      else
        let aad = build_slot_aad ctx kind slot_id kdf memory_kib iterations parallelism salt in
        case aead_seal P wrapping_key wrap_nonce aad dek of
          None \<Rightarrow> Err (internal ''DEK wrap failed'')
        | Some ciphertext \<Rightarrow>
            if length ciphertext \<noteq> 48 then Err (internal ''Unexpected wrapped DEK length'')
            else Ok ciphertext)"

definition wrap_dek ::
  "prims \<Rightarrow> bytes \<Rightarrow> key_slot_context \<Rightarrow> bytes \<Rightarrow> bytes \<Rightarrow> u8 \<Rightarrow> u8 \<Rightarrow> u16 \<Rightarrow> u32 \<Rightarrow> u32 \<Rightarrow> u32 \<Rightarrow>
   bytes \<Rightarrow> (bytes \<times> bytes) crypto_result" where
  "wrap_dek P random_nonce ctx dek wrapping_key kind slot_id kdf memory_kib iterations parallelism salt =
     rbind (wrap_dek_with_nonce P ctx dek wrapping_key kind slot_id kdf memory_kib iterations
              parallelism salt random_nonce)
       (\<lambda>wrapped. Ok (wrapped, random_nonce))"

definition unwrap_dek ::
  "prims \<Rightarrow> key_slot_context \<Rightarrow> bytes \<Rightarrow> bytes \<Rightarrow> bytes \<Rightarrow> u8 \<Rightarrow> u8 \<Rightarrow> u16 \<Rightarrow> u32 \<Rightarrow> u32 \<Rightarrow> u32 \<Rightarrow>
   bytes \<Rightarrow> bytes crypto_result" where
  "unwrap_dek P ctx wrapped_dek wrap_nonce wrapping_key kind slot_id kdf memory_kib iterations
       parallelism salt =
     (if \<not> key_ok P wrapping_key then Err (internal ''Invalid wrapping key'')
      else
        let aad = build_slot_aad ctx kind slot_id kdf memory_kib iterations parallelism salt in
        case aead_open P wrapping_key wrap_nonce aad wrapped_dek of
          None \<Rightarrow> Err wrong_key_or_corrupt
        | Some plaintext \<Rightarrow>
            if length plaintext \<noteq> 32 then Err wrong_key_or_corrupt else Ok plaintext)"

section \<open>Properties\<close>

text \<open>unwrapping a slot yields a key exactly when the stored bytes are the wrapping of that
  key under the same wrapping key, nonce and slot context: the two routines are inverse, and no
  other stored value is accepted.\<close>

theorem unwrap_iff_wrap:
  assumes "prims_ok P" and "length wrapping_key = 32" and "length dek = 32"
  shows "unwrap_dek P ctx w nonce wrapping_key kind sid kdf m i p salt = Ok dek \<longleftrightarrow>
         wrap_dek_with_nonce P ctx dek wrapping_key kind sid kdf m i p salt nonce = Ok w"
proof -
  let ?aad = "build_slot_aad ctx kind sid kdf m i p salt"
  have k: "key_ok P wrapping_key" using assms by (simp add: prims_key_ok)
  have "unwrap_dek P ctx w nonce wrapping_key kind sid kdf m i p salt = Ok dek \<longleftrightarrow>
      aead_open P wrapping_key nonce ?aad w = Some dek"
    using k assms(3) by (auto simp: unwrap_dek_def Let_def split: option.splits)
  also have "\<dots> \<longleftrightarrow> aead_seal P wrapping_key nonce ?aad dek = Some w"
    using assms(1) by (rule prims_open_iff)
  also have "\<dots> \<longleftrightarrow> wrap_dek_with_nonce P ctx dek wrapping_key kind sid kdf m i p salt nonce = Ok w"
    using k assms(3) prims_seal_length [OF assms(1), of wrapping_key nonce ?aad dek]
    by (auto simp: wrap_dek_with_nonce_def Let_def split: option.splits)
  finally show ?thesis .
qed

definition demo_slot_context :: key_slot_context where
  "demo_slot_context = \<lparr>ctx_file_uuid = replicate 16 7, ctx_format_version = 2\<rparr>"

theorem unwrap_iff_wrap_witness:
  "\<exists>w. wrap_dek_with_nonce demo_prims demo_slot_context (replicate 32 9) (replicate 32 1) 1 0 2 0 0 0
          (replicate 16 3) (replicate 24 5) = Ok w \<and>
       unwrap_dek demo_prims demo_slot_context w (replicate 24 5) (replicate 32 1) 1 0 2 0 0 0
          (replicate 16 3) = Ok (replicate 32 9)"
proof -
  have "\<exists>w. wrap_dek_with_nonce demo_prims demo_slot_context (replicate 32 9) (replicate 32 1) 1 0 2 0 0 0
          (replicate 16 3) (replicate 24 5) = Ok w"
    by (simp add: wrap_dek_with_nonce_def demo_prims_def demo_tag_def Let_def)
  then obtain w where w: "wrap_dek_with_nonce demo_prims demo_slot_context (replicate 32 9)
      (replicate 32 1) 1 0 2 0 0 0 (replicate 16 3) (replicate 24 5) = Ok w" ..
  then have "unwrap_dek demo_prims demo_slot_context w (replicate 24 5) (replicate 32 1) 1 0 2 0 0 0
      (replicate 16 3) = Ok (replicate 32 9)"
    by (subst unwrap_iff_wrap) (simp_all add: demo_prims_ok)
  with w show ?thesis by blast
qed

text \<open>the associated data of a slot determines the format version, the file, the slot kind
  and id, the KDF with its cost parameters and the salt: two slots that differ in any of these
  are sealed under different associated data.\<close>

theorem slot_aad_binds_all_fields:
  assumes "length (ctx_file_uuid c) = 16" and "length (ctx_file_uuid c') = 16"
    and "build_slot_aad c kind sid kdf m i p salt = build_slot_aad c' kind' sid' kdf' m' i' p' salt'"
  shows "c = c' \<and> kind = kind' \<and> sid = sid' \<and> kdf = kdf' \<and> m = m' \<and> i = i' \<and> p = p' \<and> salt = salt'"
proof -
  have "le16 (ctx_format_version c) = le16 (ctx_format_version c')
    \<and> ctx_file_uuid c = ctx_file_uuid c' \<and> kind = kind' \<and> sid = sid' \<and> le16 kdf = le16 kdf'
    \<and> le32 m = le32 m' \<and> le32 i = le32 i' \<and> le32 p = le32 p' \<and> salt = salt'"
    using assms by (simp add: build_slot_aad_def)
  then show ?thesis by simp
qed

theorem slot_aad_binds_all_fields_witness:
  "build_slot_aad demo_slot_context 1 0 2 0 0 0 (replicate 16 3) \<noteq>
   build_slot_aad demo_slot_context 1 1 2 0 0 0 (replicate 16 3)"
  using slot_aad_binds_all_fields [of demo_slot_context demo_slot_context 1 0 2 0 0 0
      "replicate 16 3" 1 1 2 0 0 0 "replicate 16 3"]
  by (auto simp: demo_slot_context_def)

end
