(* ===== verification/Codec.thy ===== *)
theory Codec
  imports Prelude
begin

text \<open>
  The interface of a fixed-width binary record: an encoder that may refuse a value, a decoder
  that reads the record from the front of a buffer, a validity predicate on values and a
  condition on the bytes that follow. The envelope core header, the key slots and the vault and
  recovery headers are interpretations; each has to prove both round trips, and gets in return
  the exact description of the decoder and the injectivity of the format.
\<close>

locale framed_codec =
  fixes enc :: "'a \<Rightarrow> 'e + bytes"
    and dec :: "bytes \<Rightarrow> 'd + 'a"
    and valid :: "'a \<Rightarrow> bool"
    and tail :: "'a \<Rightarrow> bytes \<Rightarrow> bool"
    and width :: nat
  assumes enc_width: "valid x \<Longrightarrow> enc x = Ok bs \<Longrightarrow> length bs = width"
    and dec_enc: "valid x \<Longrightarrow> enc x = Ok bs \<Longrightarrow> tail x rest \<Longrightarrow> dec (bs @ rest) = Ok x"
    and enc_dec: "dec bs = Ok x \<Longrightarrow> valid x \<and> enc x = Ok (take width bs) \<and> tail x (drop width bs)"
begin

lemma dec_iff: "dec bs = Ok x \<longleftrightarrow> valid x \<and> enc x = Ok (take width bs) \<and> tail x (drop width bs)"
  using enc_dec dec_enc [of x "take width bs" "drop width bs"] by auto

lemma enc_inj: "valid x \<Longrightarrow> valid y \<Longrightarrow> enc x = Ok bs \<Longrightarrow> enc y = Ok bs \<Longrightarrow> tail x r \<Longrightarrow> tail y r \<Longrightarrow> x = y"
  using dec_enc [of x bs r] dec_enc [of y bs r] by simp

lemma dec_prefix_determined: "dec a = Ok x \<Longrightarrow> dec b = Ok x \<Longrightarrow> take width a = take width b"
  by (simp add: dec_iff)

lemma dec_width: "dec bs = Ok x \<Longrightarrow> width \<le> length bs"
  using enc_dec [of bs x] enc_width [of x "take width bs"] by auto

lemma dec_tail_swap: "dec (bs @ r) = Ok x \<Longrightarrow> length bs = width \<Longrightarrow> tail x r' \<Longrightarrow> dec (bs @ r') = Ok x"
  by (simp add: dec_iff)

end

text \<open>A record that may be followed by anything.\<close>

locale prefix_codec = framed_codec enc dec valid "\<lambda>_ _. True" width
  for enc :: "'a \<Rightarrow> 'e + bytes" and dec :: "bytes \<Rightarrow> 'd + 'a" and valid :: "'a \<Rightarrow> bool" and width :: nat
begin

lemma dec_prefix_only: "dec bs = Ok x \<Longrightarrow> take width bs = take width bs' \<Longrightarrow> dec bs' = Ok x"
  by (simp add: dec_iff)

lemma enc_injective: "valid x \<Longrightarrow> valid y \<Longrightarrow> enc x = Ok bs \<Longrightarrow> enc y = Ok bs \<Longrightarrow> x = y"
  by (rule enc_inj) auto

end

end
