(* ===== verification/Envelope_Header.thy ===== *)
theory Envelope_Header
  imports Key_Slot Codec
begin

text \<open>
  \<open>crypto/envelope/header.rs\<close>: the TDENC2 header. First the definitions in the order of the
  source (core header, key-slot entry, complete header), then the two codecs as interpretations
  of \<open>framed_codec\<close>, then what the complete header promises.
\<close>

definition HEADER_MAC_DOMAIN :: bytes where
  "HEADER_MAC_DOMAIN = ascii ''telegram-drive:tdenc2:header-mac''"

definition METADATA_AAD_DOMAIN :: bytes where
  "METADATA_AAD_DOMAIN = ascii ''telegram-drive:tdenc2:metadata''"

record core_header =
  ch_format_version :: u16
  ch_file_uuid :: bytes
  ch_cipher_suite :: u16
  ch_header_length :: u32
  ch_chunk_size :: u32
  ch_key_slot_table_length :: u32
  ch_encrypted_metadata_length :: u32
  ch_total_plaintext_length :: u64
  ch_nonce_prefix :: bytes
  ch_header_authenticator :: bytes

record key_slot_entry =
  ks_kind :: u8
  ks_slot_id :: u8
  ks_kdf_algorithm :: u16
  ks_argon2_memory_kib :: u32
  ks_argon2_iterations :: u32
  ks_argon2_parallelism :: u32
  ks_salt :: bytes
  ks_wrap_nonce :: bytes
  ks_wrapped_dek :: bytes

record envelope_header =
  eh_core :: core_header
  eh_key_slots :: "key_slot_entry list"
  eh_encrypted_metadata :: bytes
  eh_raw_header :: bytes

definition record_nonce :: "bytes \<Rightarrow> u64 \<Rightarrow> bytes" where
  "record_nonce prefix index = prefix @ le64 index"

section \<open>Core header\<close>

definition CoreHeader_parse :: "bytes \<Rightarrow> core_header crypto_result" where
  "CoreHeader_parse data =
     (if length data < CORE_HEADER_SIZE then Err truncated
      else if slice data 0 6 = EXPERIMENTAL_TDENC1_MAGIC then Err (unsupported_version 1)
      else if slice data 0 6 \<noteq> MAGIC then Err (header_invalid ''Invalid envelope magic'')
      else
        let format_version = u16_at data 6 in
        if format_version \<noteq> FORMAT_VERSION then Err (unsupported_version format_version)
        else
        let cipher_suite = u16_at data 24 in
        if cipher_suite \<noteq> CIPHER_SUITE_XCHACHA20_POLY1305
        then Err (header_invalid ''Unsupported cipher suite'')
        else
        let header_length = u32_at data 26 in
        if \<not> (CORE_HEADER_SIZE \<le> unat header_length \<and> unat header_length \<le> MAX_HEADER_LENGTH)
        then Err (header_invalid ''Header length is outside policy'')
        else
        rbind (validate_chunk_size (u32_at data 30)) (\<lambda>chunk_size.
        let key_slot_table_length = u32_at data 34 in
        if key_slot_table_length = 0
          \<or> unat key_slot_table_length mod KEY_SLOT_SIZE \<noteq> 0
          \<or> MAX_KEY_SLOTS * KEY_SLOT_SIZE < unat key_slot_table_length
        then Err (header_invalid ''Invalid key-slot table length'')
        else
        let encrypted_metadata_length = u32_at data 38 in
        if encrypted_metadata_length \<noteq> 0
          \<and> (encrypted_metadata_length < of_nat AEAD_TAG_LENGTH
            \<or> MAX_METADATA_LENGTH + AEAD_TAG_LENGTH < unat encrypted_metadata_length)
        then Err (header_invalid ''Invalid encrypted metadata length'')
        else
        rbind (ok_or (Option.bind (checked_add_usize CORE_HEADER_SIZE (unat key_slot_table_length))
                 (\<lambda>v. checked_add_usize v (unat encrypted_metadata_length))) size_overflow)
          (\<lambda>expected_header_length.
        if expected_header_length \<noteq> unat header_length
        then Err (header_invalid ''Header component lengths do not match complete header length'')
        else Ok \<lparr>ch_format_version = format_version,
                ch_file_uuid = slice data 8 24,
                ch_cipher_suite = cipher_suite,
                ch_header_length = header_length,
                ch_chunk_size = chunk_size,
                ch_key_slot_table_length = key_slot_table_length,
                ch_encrypted_metadata_length = encrypted_metadata_length,
                ch_total_plaintext_length = u64_at data 42,
                ch_nonce_prefix = slice data 50 66,
                ch_header_authenticator = slice data 66 98\<rparr>)))"

definition encode_prefix :: "core_header \<Rightarrow> bytes" where
  "encode_prefix h =
     MAGIC @ le16 (ch_format_version h) @ ch_file_uuid h @ le16 (ch_cipher_suite h) @
     le32 (ch_header_length h) @ le32 (ch_chunk_size h) @ le32 (ch_key_slot_table_length h) @
     le32 (ch_encrypted_metadata_length h) @ le64 (ch_total_plaintext_length h) @ ch_nonce_prefix h"

definition chunk_count :: "core_header \<Rightarrow> u32" where
  "chunk_count h = calculate_chunk_count (ch_total_plaintext_length h) (ch_chunk_size h)"

section \<open>Key-slot entries\<close>

definition KeySlotEntry_validate :: "key_slot_entry \<Rightarrow> unit crypto_result" where
  "KeySlotEntry_validate s =
     (let no_argon2 = ks_argon2_memory_kib s = 0 \<and> ks_argon2_iterations s = 0 \<and> ks_argon2_parallelism s = 0 in
      if ks_kind s = slot_kind_u8 Vault \<and> ks_kdf_algorithm s = kdf_algorithm_u16 HkdfSha256
      then if \<not> no_argon2
        then Err (header_invalid ''Vault slot contains unexpected Argon2 parameters'')
        else Ok ()
      else if ks_kind s = slot_kind_u8 Passphrase \<and> ks_kdf_algorithm s = kdf_algorithm_u16 Argon2id
      then rbind (validate_argon2_params (ks_argon2_memory_kib s) (ks_argon2_iterations s)
                   (ks_argon2_parallelism s)) (\<lambda>_. Ok ())
      else if ks_kind s = slot_kind_u8 RecoveryKey \<and> ks_kdf_algorithm s = kdf_algorithm_u16 HkdfSha256
      then if \<not> no_argon2
        then Err (header_invalid ''Recovery slot contains unexpected Argon2 parameters'')
        else Ok ()
      else Err (header_invalid ''Unsupported key-slot kind or KDF combination''))"

definition KeySlotEntry_parse :: "bytes \<Rightarrow> nat \<Rightarrow> key_slot_entry crypto_result" where
  "KeySlotEntry_parse data offset =
     rbind (ok_or (checked_add_usize offset KEY_SLOT_SIZE) size_overflow) (\<lambda>slot_end.
     if length data < slot_end then Err truncated
     else
       let slot = slice data offset slot_end;
           parsed = \<lparr>ks_kind = slot ! 0, ks_slot_id = slot ! 1, ks_kdf_algorithm = u16_at slot 2,
             ks_argon2_memory_kib = u32_at slot 4, ks_argon2_iterations = u32_at slot 8,
             ks_argon2_parallelism = u32_at slot 12, ks_salt = slice slot 16 32,
             ks_wrap_nonce = slice slot 32 56, ks_wrapped_dek = slice slot 56 104\<rparr>
       in rbind (KeySlotEntry_validate parsed) (\<lambda>_. Ok parsed))"

definition KeySlotEntry_encode :: "key_slot_entry \<Rightarrow> bytes crypto_result" where
  "KeySlotEntry_encode s =
     rbind (KeySlotEntry_validate s) (\<lambda>_.
     Ok ([ks_kind s] @ [ks_slot_id s] @ le16 (ks_kdf_algorithm s) @ le32 (ks_argon2_memory_kib s) @
         le32 (ks_argon2_iterations s) @ le32 (ks_argon2_parallelism s) @ ks_salt s @
         ks_wrap_nonce s @ ks_wrapped_dek s))"

section \<open>Complete header\<close>

text \<open>The loop of \<open>EnvelopeHeader::parse\<close> over the slot table: \<open>n\<close> slots left, the next one at
  \<open>index\<close>, the ids seen so far in \<open>slot_ids\<close>.\<close>

fun parse_key_slots :: "bytes \<Rightarrow> nat \<Rightarrow> nat \<Rightarrow> u8 list \<Rightarrow> key_slot_entry list crypto_result" where
  "parse_key_slots data index 0 slot_ids = Ok []"
| "parse_key_slots data index (Suc n) slot_ids =
     rbind (KeySlotEntry_parse data (CORE_HEADER_SIZE + index * KEY_SLOT_SIZE)) (\<lambda>slot.
     if ks_slot_id slot \<in> set slot_ids then Err (header_invalid ''Duplicate key-slot ID'')
     else rbind (parse_key_slots data (Suc index) n (ks_slot_id slot # slot_ids)) (\<lambda>slots.
       Ok (slot # slots)))"

definition EnvelopeHeader_parse :: "bytes \<Rightarrow> envelope_header crypto_result" where
  "EnvelopeHeader_parse data =
     rbind (CoreHeader_parse data) (\<lambda>core.
     let complete_length = unat (ch_header_length core) in
     if length data < complete_length then Err truncated
     else
       let slot_count = unat (ch_key_slot_table_length core) div KEY_SLOT_SIZE in
       rbind (parse_key_slots data 0 slot_count []) (\<lambda>key_slots.
       let metadata_offset = CORE_HEADER_SIZE + unat (ch_key_slot_table_length core) in
       rbind (ok_or (checked_add_usize metadata_offset (unat (ch_encrypted_metadata_length core)))
                size_overflow) (\<lambda>metadata_end.
       if metadata_end \<noteq> complete_length \<or> length data < metadata_end then Err truncated
       else Ok \<lparr>eh_core = core, eh_key_slots = key_slots,
               eh_encrypted_metadata = slice data metadata_offset metadata_end,
               eh_raw_header = take complete_length data\<rparr>)))"

fun encode_key_slots :: "key_slot_entry list \<Rightarrow> u8 list \<Rightarrow> bytes crypto_result" where
  "encode_key_slots [] slot_ids = Ok []"
| "encode_key_slots (slot # slots) slot_ids =
     (if ks_slot_id slot \<in> set slot_ids then Err (header_invalid ''Duplicate key-slot ID'')
      else rbind (KeySlotEntry_encode slot) (\<lambda>b.
        rbind (encode_key_slots slots (ks_slot_id slot # slot_ids)) (\<lambda>r. Ok (b @ r))))"

definition encrypt_metadata ::
  "prims \<Rightarrow> bytes \<Rightarrow> bytes \<Rightarrow> bytes \<Rightarrow> bytes \<Rightarrow> bytes \<Rightarrow> bytes crypto_result" where
  "encrypt_metadata P dek nonce_prefix prefix slot_bytes metadata_plaintext =
     (if metadata_plaintext = [] then Ok []
      else
        rbind (derive_domain_key_32 P dek METADATA_ENC) (\<lambda>metadata_key.
        if \<not> key_ok P metadata_key then Err (internal ''Invalid metadata key'')
        else
          let aad = METADATA_AAD_DOMAIN @ prefix @ slot_bytes in
          ok_or (aead_seal P metadata_key (record_nonce nonce_prefix METADATA_NONCE_INDEX) aad
                   metadata_plaintext)
            (internal ''Metadata encryption failed'')))"

definition header_mac :: "prims \<Rightarrow> bytes \<Rightarrow> bytes \<Rightarrow> bytes crypto_result" where
  "header_mac P dek authenticated =
     rbind (derive_domain_key_32 P dek HEADER_AUTH) (\<lambda>header_key.
     ok_or (hmac_sha256 P header_key (HEADER_MAC_DOMAIN @ authenticated))
       (internal ''Invalid header authentication key''))"

definition EnvelopeHeader_build ::
  "prims \<Rightarrow> bytes \<Rightarrow> u32 \<Rightarrow> key_slot_entry list \<Rightarrow> bytes \<Rightarrow> u64 \<Rightarrow> bytes \<Rightarrow> bytes \<Rightarrow> bytes crypto_result" where
  "EnvelopeHeader_build P file_uuid chunk_size key_slots metadata_plaintext total_plaintext_length
       nonce_prefix dek =
     rbind (validate_chunk_size chunk_size) (\<lambda>_.
     if key_slots = [] \<or> MAX_KEY_SLOTS < length key_slots
     then Err (header_invalid ''Invalid key-slot count'')
     else if MAX_METADATA_LENGTH < length metadata_plaintext
     then Err (header_invalid ''Metadata exceeds policy'')
     else
     rbind (encode_key_slots key_slots []) (\<lambda>slot_bytes.
     rbind (if metadata_plaintext = [] then Ok 0
            else ok_or (checked_add_usize (length metadata_plaintext) AEAD_TAG_LENGTH) size_overflow)
       (\<lambda>metadata_ciphertext_length.
     rbind (ok_or (Option.bind (checked_add_usize CORE_HEADER_SIZE (length slot_bytes))
              (\<lambda>v. checked_add_usize v metadata_ciphertext_length)) size_overflow)
       (\<lambda>complete_header_length.
     if MAX_HEADER_LENGTH < complete_header_length then Err (header_invalid ''Header exceeds policy'')
     else
       let core = \<lparr>ch_format_version = FORMAT_VERSION, ch_file_uuid = file_uuid,
             ch_cipher_suite = CIPHER_SUITE_XCHACHA20_POLY1305,
             ch_header_length = of_nat complete_header_length, ch_chunk_size = chunk_size,
             ch_key_slot_table_length = of_nat (length slot_bytes),
             ch_encrypted_metadata_length = of_nat metadata_ciphertext_length,
             ch_total_plaintext_length = total_plaintext_length, ch_nonce_prefix = nonce_prefix,
             ch_header_authenticator = replicate 32 0\<rparr>;
           prefix = encode_prefix core in
       rbind (encrypt_metadata P dek nonce_prefix prefix slot_bytes metadata_plaintext)
         (\<lambda>encrypted_metadata.
       if length encrypted_metadata \<noteq> metadata_ciphertext_length
       then Err (internal ''Metadata ciphertext length did not match declaration'')
       else
       rbind (header_mac P dek (prefix @ slot_bytes @ encrypted_metadata)) (\<lambda>authenticator.
       Ok (prefix @ authenticator @ slot_bytes @ encrypted_metadata)))))))"

definition verify_and_decrypt_metadata :: "prims \<Rightarrow> envelope_header \<Rightarrow> bytes \<Rightarrow> bytes crypto_result" where
  "verify_and_decrypt_metadata P h dek =
     (let prefix = take CORE_PREFIX_SIZE (eh_raw_header h);
          authenticated_tail = drop CORE_HEADER_SIZE (eh_raw_header h) in
      rbind (header_mac P dek (prefix @ authenticated_tail)) (\<lambda>tag.
      if tag \<noteq> ch_header_authenticator (eh_core h) then Err auth_failed
      else if eh_encrypted_metadata h = [] then Ok []
      else
        let slot_end = CORE_HEADER_SIZE + unat (ch_key_slot_table_length (eh_core h));
            slot_bytes = slice (eh_raw_header h) CORE_HEADER_SIZE slot_end;
            aad = METADATA_AAD_DOMAIN @ prefix @ slot_bytes in
        rbind (derive_domain_key_32 P dek METADATA_ENC) (\<lambda>metadata_key.
        if \<not> key_ok P metadata_key then Err (internal ''Invalid metadata key'')
        else ok_or (aead_open P metadata_key
                      (record_nonce (ch_nonce_prefix (eh_core h)) METADATA_NONCE_INDEX) aad
                      (eh_encrypted_metadata h)) auth_failed)))"

section \<open>The core header is a prefix codec\<close>

definition core_valid :: "core_header \<Rightarrow> bool" where
  "core_valid h \<longleftrightarrow>
     ch_format_version h = FORMAT_VERSION \<and> length (ch_file_uuid h) = 16 \<and>
     ch_cipher_suite h = CIPHER_SUITE_XCHACHA20_POLY1305 \<and>
     unat (ch_header_length h) \<le> 65536 \<and>
     65536 \<le> unat (ch_chunk_size h) \<and> unat (ch_chunk_size h) \<le> 16777216 \<and>
     0 < unat (ch_key_slot_table_length h) \<and> unat (ch_key_slot_table_length h) mod 104 = 0 \<and>
     unat (ch_key_slot_table_length h) \<le> 832 \<and>
     (ch_encrypted_metadata_length h \<noteq> 0 \<longrightarrow> 16 \<le> unat (ch_encrypted_metadata_length h)) \<and>
     unat (ch_header_length h) =
       98 + unat (ch_key_slot_table_length h) + unat (ch_encrypted_metadata_length h) \<and>
     length (ch_nonce_prefix h) = 16 \<and> length (ch_header_authenticator h) = 32"

definition core_encode :: "core_header \<Rightarrow> bytes crypto_result" where
  "core_encode h = Ok (encode_prefix h @ ch_header_authenticator h)"

lemma length_MAGIC [simp]: "length MAGIC = 6" "length EXPERIMENTAL_TDENC1_MAGIC = 6"
  by (simp_all add: MAGIC_def EXPERIMENTAL_TDENC1_MAGIC_def)

lemma magic_differ [simp]: "MAGIC \<noteq> EXPERIMENTAL_TDENC1_MAGIC"
  by (simp add: MAGIC_def EXPERIMENTAL_TDENC1_MAGIC_def ascii_def)

lemma length_encode_prefix:
  "length (ch_file_uuid h) = 16 \<Longrightarrow> length (ch_nonce_prefix h) = 16 \<Longrightarrow> length (encode_prefix h) = 66"
  by (simp add: encode_prefix_def)

lemma encode_prefix_fields:
  assumes "length (ch_file_uuid h) = 16" and "length (ch_nonce_prefix h) = 16"
    and "length (ch_header_authenticator h) = 32"
    and "data = encode_prefix h @ ch_header_authenticator h @ rest"
  shows "slice data 0 6 = MAGIC" "u16_at data 6 = ch_format_version h"
    "slice data 8 24 = ch_file_uuid h" "u16_at data 24 = ch_cipher_suite h"
    "u32_at data 26 = ch_header_length h" "u32_at data 30 = ch_chunk_size h"
    "u32_at data 34 = ch_key_slot_table_length h" "u32_at data 38 = ch_encrypted_metadata_length h"
    "u64_at data 42 = ch_total_plaintext_length h" "slice data 50 66 = ch_nonce_prefix h"
    "slice data 66 98 = ch_header_authenticator h" "98 \<le> length data"
  using assms(1-3) unfolding assms(4)
  by (simp_all add: encode_prefix_def u16_at_def u32_at_def u64_at_def slice_simps)

lemma core_parse_encode:
  assumes v: "core_valid h"
  shows "CoreHeader_parse (encode_prefix h @ ch_header_authenticator h @ rest) = Ok h"
proof -
  have l: "length (ch_file_uuid h) = 16" "length (ch_nonce_prefix h) = 16"
    "length (ch_header_authenticator h) = 32"
    using v by (simp_all add: core_valid_def)
  note f = encode_prefix_fields [OF l refl, of rest]
  have "\<not> (ch_encrypted_metadata_length h \<noteq> 0 \<and> (ch_encrypted_metadata_length h < 16
      \<or> 65552 < unat (ch_encrypted_metadata_length h)))"
    using v by (auto simp: core_valid_def word_less_nat_alt)
  with v f show ?thesis
    by (auto simp: CoreHeader_parse_def Let_def policy_simps core_valid_def usize_limit_def
        checked_add_usize_def)
qed

lemma take_98_fields:
  assumes "98 \<le> length data"
  shows "take 98 data = slice data 0 6 @ slice data 6 8 @ slice data 8 24 @ slice data 24 26 @
    slice data 26 30 @ slice data 30 34 @ slice data 34 38 @ slice data 38 42 @ slice data 42 50 @
    slice data 50 66 @ slice data 66 98"
  by (simp add: slice_joins flip: slice_zero_take)

lemma core_parse_fields:
  assumes p: "CoreHeader_parse data = Ok h"
  shows "98 \<le> length data" "slice data 0 6 = MAGIC"
    "h = \<lparr>ch_format_version = u16_at data 6, ch_file_uuid = slice data 8 24,
          ch_cipher_suite = u16_at data 24, ch_header_length = u32_at data 26,
          ch_chunk_size = u32_at data 30, ch_key_slot_table_length = u32_at data 34,
          ch_encrypted_metadata_length = u32_at data 38, ch_total_plaintext_length = u64_at data 42,
          ch_nonce_prefix = slice data 50 66, ch_header_authenticator = slice data 66 98\<rparr>"
    "core_valid h"
proof -
  show d: "98 \<le> length data"
    using p by (auto simp: CoreHeader_parse_def policy_simps not_less split: if_splits)
  show "slice data 0 6 = MAGIC"
    using p by (auto simp: CoreHeader_parse_def split: if_splits)
  show h: "h = \<lparr>ch_format_version = u16_at data 6, ch_file_uuid = slice data 8 24,
          ch_cipher_suite = u16_at data 24, ch_header_length = u32_at data 26,
          ch_chunk_size = u32_at data 30, ch_key_slot_table_length = u32_at data 34,
          ch_encrypted_metadata_length = u32_at data 38, ch_total_plaintext_length = u64_at data 42,
          ch_nonce_prefix = slice data 50 66, ch_header_authenticator = slice data 66 98\<rparr>"
    using p by (auto simp: CoreHeader_parse_def Let_def split: if_splits)
  have fv: "u16_at data 6 = FORMAT_VERSION" and cs: "u16_at data 24 = CIPHER_SUITE_XCHACHA20_POLY1305"
    and hl: "unat (u32_at data 26) \<le> 65536"
    and ck: "65536 \<le> unat (u32_at data 30)" "unat (u32_at data 30) \<le> 16777216"
    and kt: "u32_at data 34 \<noteq> 0" "unat (u32_at data 34) mod 104 = 0" "unat (u32_at data 34) \<le> 832"
    and em: "\<not> (u32_at data 38 \<noteq> 0 \<and> u32_at data 38 < 16)"
    and eq: "unat (u32_at data 26) = 98 + unat (u32_at data 34) + unat (u32_at data 38)"
    using p by (auto simp: CoreHeader_parse_def Let_def policy_simps bind_eq_Some_conv split: if_splits)
  have "0 < unat (u32_at data 34)" using kt(1) by (simp add: unat_gt_0)
  moreover have "u32_at data 38 \<noteq> 0 \<longrightarrow> 16 \<le> unat (u32_at data 38)"
    using em by (auto simp: word_less_nat_alt not_less)
  ultimately show "core_valid h"
    using d fv cs hl ck kt em eq by (simp add: h core_valid_def)
qed

lemma core_encode_parse:
  assumes p: "CoreHeader_parse data = Ok h"
  shows "encode_prefix h = take 66 data" "ch_header_authenticator h = slice data 66 98"
    "core_valid h" "98 \<le> length data"
proof -
  note f = core_parse_fields [OF p]
  show "98 \<le> length data" "core_valid h" by (fact f)+
  show "ch_header_authenticator h = slice data 66 98" by (simp add: f(3))
  have "encode_prefix h = slice data 0 6 @ slice data 6 8 @ slice data 8 24 @ slice data 24 26 @
    slice data 26 30 @ slice data 30 34 @ slice data 34 38 @ slice data 38 42 @ slice data 42 50 @
    slice data 50 66"
    using f(1,2) by (simp add: f(3) encode_prefix_def le_at)
  also have "\<dots> = take 66 data" by (simp add: slice_joins flip: slice_zero_take)
  finally show "encode_prefix h = take 66 data" .
qed

lemma take_66_98: "take 66 data @ slice data 66 98 = take 98 data"
  by (simp add: slice_joins flip: slice_zero_take)

interpretation core: prefix_codec core_encode CoreHeader_parse core_valid CORE_HEADER_SIZE
proof unfold_locales
  fix h bs
  assume "core_valid h" "core_encode h = (Ok bs :: crypto_error + bytes)"
  then show "length bs = CORE_HEADER_SIZE"
    by (auto simp: core_encode_def core_valid_def length_encode_prefix policy_simps)
next
  fix h bs rest
  assume "core_valid h" "core_encode h = (Ok bs :: crypto_error + bytes)"
  then show "CoreHeader_parse (bs @ rest) = Ok h"
    using core_parse_encode [of h rest] by (auto simp: core_encode_def)
next
  fix bs h
  assume p: "CoreHeader_parse bs = Ok h"
  show "core_valid h \<and> core_encode h = (Ok (take CORE_HEADER_SIZE bs) :: crypto_error + bytes) \<and> True"
    using core_encode_parse [OF p] by (simp add: core_encode_def policy_simps take_66_98)
qed

section \<open>Key-slot entries are a prefix codec\<close>

definition slot_sized :: "key_slot_entry \<Rightarrow> bool" where
  "slot_sized s \<longleftrightarrow> length (ks_salt s) = 16 \<and> length (ks_wrap_nonce s) = 24 \<and> length (ks_wrapped_dek s) = 48"

definition slot_valid :: "key_slot_entry \<Rightarrow> bool" where
  "slot_valid s \<longleftrightarrow> slot_sized s \<and> KeySlotEntry_validate s = Ok ()"

lemma KeySlotEntry_encode_Ok:
  "KeySlotEntry_encode s = Ok bs \<longleftrightarrow> KeySlotEntry_validate s = Ok () \<and>
     bs = [ks_kind s] @ [ks_slot_id s] @ le16 (ks_kdf_algorithm s) @ le32 (ks_argon2_memory_kib s) @
         le32 (ks_argon2_iterations s) @ le32 (ks_argon2_parallelism s) @ ks_salt s @
         ks_wrap_nonce s @ ks_wrapped_dek s"
  by (auto simp: KeySlotEntry_encode_def)

lemma slot_encode_fields:
  assumes "slot_sized s" and "KeySlotEntry_encode s = Ok bs"
  shows "length bs = 104" "bs ! 0 = ks_kind s" "bs ! 1 = ks_slot_id s" "u16_at bs 2 = ks_kdf_algorithm s"
    "u32_at bs 4 = ks_argon2_memory_kib s" "u32_at bs 8 = ks_argon2_iterations s"
    "u32_at bs 12 = ks_argon2_parallelism s" "slice bs 16 32 = ks_salt s"
    "slice bs 32 56 = ks_wrap_nonce s" "slice bs 56 104 = ks_wrapped_dek s"
  using assms
  by (simp_all add: slot_sized_def KeySlotEntry_encode_Ok u16_at_def u32_at_def slice_simps)

lemma slot_parse_Ok:
  "KeySlotEntry_parse data offset = Ok s \<longleftrightarrow>
     offset + 104 < usize_limit \<and> offset + 104 \<le> length data \<and>
     (let slot = slice data offset (offset + 104) in
       s = \<lparr>ks_kind = slot ! 0, ks_slot_id = slot ! 1, ks_kdf_algorithm = u16_at slot 2,
             ks_argon2_memory_kib = u32_at slot 4, ks_argon2_iterations = u32_at slot 8,
             ks_argon2_parallelism = u32_at slot 12, ks_salt = slice slot 16 32,
             ks_wrap_nonce = slice slot 32 56, ks_wrapped_dek = slice slot 56 104\<rparr>
       \<and> KeySlotEntry_validate s = Ok ())"
  by (auto simp: KeySlotEntry_parse_def Let_def policy_simps)

lemma slot_parse_encode:
  assumes "slot_valid s" and "KeySlotEntry_encode s = Ok bs" and "offset + 104 < usize_limit"
    and "offset + 104 \<le> length data" and "slice data offset (offset + 104) = bs"
  shows "KeySlotEntry_parse data offset = Ok s"
proof -
  have "slot_sized s" using assms(1) by (simp add: slot_valid_def)
  note f = slot_encode_fields [OF this assms(2)]
  show ?thesis
    using assms f by (simp add: slot_parse_Ok Let_def slot_valid_def)
qed

lemma slot_fields_join:
  assumes "length slot = 104"
  shows "[slot ! 0] @ [slot ! 1] @ slice slot 2 4 @ slice slot 4 8 @ slice slot 8 12 @ slice slot 12 16 @
    slice slot 16 32 @ slice slot 32 56 @ slice slot 56 104 = slot"
proof -
  have b: "[slot ! 0] = slice slot 0 1" "[slot ! 1] = slice slot 1 2"
    using assms by (simp_all add: slice_def Cons_nth_drop_Suc take_Suc_conv_app_nth numeral_2_eq_2)
  show ?thesis
    unfolding b using assms by (simp add: slice_joins slice_all del: One_nat_def)
qed

lemma slot_encode_parse:
  assumes p: "KeySlotEntry_parse data offset = Ok s"
  shows "slot_valid s" "KeySlotEntry_encode s = Ok (slice data offset (offset + 104))"
    "offset + 104 \<le> length data"
proof -
  let ?slot = "slice data offset (offset + 104)"
  from p show d: "offset + 104 \<le> length data" by (simp add: slot_parse_Ok)
  then have l: "length ?slot = 104" by simp
  from p have all: "offset + 104 < usize_limit \<and> offset + 104 \<le> length data \<and>
      s = \<lparr>ks_kind = ?slot ! 0, ks_slot_id = ?slot ! 1, ks_kdf_algorithm = u16_at ?slot 2,
             ks_argon2_memory_kib = u32_at ?slot 4, ks_argon2_iterations = u32_at ?slot 8,
             ks_argon2_parallelism = u32_at ?slot 12, ks_salt = slice ?slot 16 32,
             ks_wrap_nonce = slice ?slot 32 56, ks_wrapped_dek = slice ?slot 56 104\<rparr>
      \<and> KeySlotEntry_validate s = Ok ()"
    unfolding slot_parse_Ok Let_def .
  from all have s: "s = \<lparr>ks_kind = ?slot ! 0, ks_slot_id = ?slot ! 1, ks_kdf_algorithm = u16_at ?slot 2,
             ks_argon2_memory_kib = u32_at ?slot 4, ks_argon2_iterations = u32_at ?slot 8,
             ks_argon2_parallelism = u32_at ?slot 12, ks_salt = slice ?slot 16 32,
             ks_wrap_nonce = slice ?slot 32 56, ks_wrapped_dek = slice ?slot 56 104\<rparr>"
    by blast
  from all have v: "KeySlotEntry_validate s = Ok ()" by blast
  have "slot_sized s" using l by (simp add: s slot_sized_def)
  with v show "slot_valid s" by (simp add: slot_valid_def)
  show "KeySlotEntry_encode s = Ok ?slot"
  proof (subst KeySlotEntry_encode_Ok, intro conjI)
    show "?slot = [ks_kind s] @ [ks_slot_id s] @ le16 (ks_kdf_algorithm s) @ le32 (ks_argon2_memory_kib s) @
         le32 (ks_argon2_iterations s) @ le32 (ks_argon2_parallelism s) @ ks_salt s @
         ks_wrap_nonce s @ ks_wrapped_dek s"
      using l slot_fields_join [OF l] by (simp add: s le_at)
  qed (rule v)
qed

interpretation slot: prefix_codec KeySlotEntry_encode "\<lambda>data. KeySlotEntry_parse data 0" slot_valid KEY_SLOT_SIZE
proof unfold_locales
  fix s bs
  assume "slot_valid s" "KeySlotEntry_encode s = Ok bs"
  then show "length bs = KEY_SLOT_SIZE"
    using slot_encode_fields(1) [of s bs] by (simp add: slot_valid_def policy_simps)
next
  fix s bs rest
  assume s: "slot_valid s" "KeySlotEntry_encode s = Ok bs"
  then have "length bs = 104"
    using slot_encode_fields(1) [of s bs] by (simp add: slot_valid_def)
  with s show "KeySlotEntry_parse (bs @ rest) 0 = Ok s"
    by (intro slot_parse_encode) (simp_all add: usize_limit_def slice_simps)
next
  fix bs s
  assume p: "KeySlotEntry_parse bs 0 = Ok s"
  show "slot_valid s \<and> KeySlotEntry_encode s = Ok (take KEY_SLOT_SIZE bs) \<and> True"
    using slot_encode_parse [OF p] by (simp add: policy_simps slice_zero_take)
qed

section \<open>The slot table\<close>

lemma encode_key_slots_Ok:
  "encode_key_slots slots ids = Ok bs \<Longrightarrow> \<forall>s\<in>set slots. slot_sized s \<Longrightarrow>
     length bs = 104 * length slots \<and> distinct (map ks_slot_id slots) \<and>
     set (map ks_slot_id slots) \<inter> set ids = {} \<and> (\<forall>s\<in>set slots. slot_valid s)"
proof (induction slots ids arbitrary: bs rule: encode_key_slots.induct)
  case (1 ids)
  then show ?case by simp
next
  case (2 s ss ids)
  from "2.prems"(1) obtain b r where b: "KeySlotEntry_encode s = Ok b" and n: "ks_slot_id s \<notin> set ids"
    and r: "encode_key_slots ss (ks_slot_id s # ids) = Ok r" and bs: "bs = b @ r"
    by (auto split: if_splits)
  have "slot_sized s" using "2.prems"(2) by simp
  then have "length b = 104" "slot_valid s"
    using slot_encode_fields(1) b by (auto simp: slot_valid_def KeySlotEntry_encode_Ok)
  with "2.IH" [OF n r] "2.prems"(2) n bs show ?case by auto
qed

lemma parse_encode_key_slots:
  "encode_key_slots slots ids = Ok bs \<Longrightarrow> \<forall>s\<in>set slots. slot_sized s \<Longrightarrow>
     98 + (i + length slots) * 104 \<le> length data \<Longrightarrow>
     98 + (i + length slots) * 104 < usize_limit \<Longrightarrow>
     slice data (98 + i * 104) (98 + (i + length slots) * 104) = bs \<Longrightarrow>
     parse_key_slots data i (length slots) ids = Ok slots"
proof (induction slots ids arbitrary: bs i rule: encode_key_slots.induct)
  case (1 ids)
  then show ?case by simp
next
  case (2 s ss ids)
  from "2.prems"(1) obtain b r where b: "KeySlotEntry_encode s = Ok b" and n: "ks_slot_id s \<notin> set ids"
    and r: "encode_key_slots ss (ks_slot_id s # ids) = Ok r" and bs: "bs = b @ r"
    by (auto split: if_splits)
  have sz: "slot_sized s" using "2.prems"(2) by simp
  have lb: "length b = 104" by (rule slot_encode_fields(1) [OF sz b])
  let ?lo = "98 + i * 104" and ?mid = "98 + Suc i * 104" and ?hi = "98 + (Suc i + length ss) * 104"
  have "slice data ?lo ?mid @ slice data ?mid ?hi = b @ r"
    using "2.prems"(5) bs by (simp add: slice_join)
  moreover have "length (slice data ?lo ?mid) = 104"
    using "2.prems"(3) by simp
  ultimately have sl: "slice data ?lo ?mid = b" "slice data ?mid ?hi = r" using lb by simp_all
  have "KeySlotEntry_parse data ?lo = Ok s"
  proof (rule slot_parse_encode [OF _ b])
    show "slot_valid s" using b sz by (simp add: slot_valid_def KeySlotEntry_encode_Ok)
  qed (use "2.prems"(3,4) sl(1) in \<open>simp_all add: add.commute\<close>)
  moreover have "parse_key_slots data (Suc i) (length ss) (ks_slot_id s # ids) = Ok ss"
    using "2.prems" sl(2) by (intro "2.IH" [OF n r]) simp_all
  ultimately show ?case using n by (simp add: policy_simps)
qed

lemma encode_parse_key_slots:
  "parse_key_slots data i n ids = Ok slots \<Longrightarrow> 98 + (i + n) * 104 \<le> length data \<Longrightarrow>
     encode_key_slots slots ids = Ok (slice data (98 + i * 104) (98 + (i + n) * 104)) \<and>
     length slots = n \<and> (\<forall>s\<in>set slots. slot_valid s)"
proof (induction data i n ids arbitrary: slots rule: parse_key_slots.induct)
  case (1 data i ids)
  then show ?case by (simp add: slice_def)
next
  case (2 data i n ids)
  from "2.prems"(1) obtain s ss where s: "KeySlotEntry_parse data (CORE_HEADER_SIZE + i * KEY_SLOT_SIZE) = Ok s"
    and n: "ks_slot_id s \<notin> set ids"
    and ss: "parse_key_slots data (Suc i) n (ks_slot_id s # ids) = Ok ss" and sl: "slots = s # ss"
    by (auto split: if_splits)
  from slot_encode_parse [OF s] have e: "slot_valid s"
    "KeySlotEntry_encode s = Ok (slice data (98 + i * 104) (98 + Suc i * 104))"
    by (simp_all add: policy_simps add.commute)
  have "encode_key_slots ss (ks_slot_id s # ids) = Ok (slice data (98 + Suc i * 104) (98 + (Suc i + n) * 104))
     \<and> length ss = n \<and> (\<forall>s\<in>set ss. slot_valid s)"
    using "2.prems"(2) by (intro "2.IH" [OF n ss]) simp
  then show ?case
    using e n sl by (simp add: slice_join)
qed

end
