(* ===== verification/Header_Contract.thy ===== *)
theory Header_Contract
  imports Envelope_Header
begin

text \<open>
  What the complete TDENC2 header promises: a built header parses back to the values it was
  built from and its metadata decrypts, the bytes of an accepted and authenticated header
  are determined by its fields (as \<open>build\<close> writes them, or with a sealed empty metadata record), and every accepted header is inside policy.
\<close>

lemma build_OkE:
  assumes ok: "prims_ok P" and uuid: "length file_uuid = 16" and np: "length nonce_prefix = 16"
    and sized: "\<forall>s\<in>set key_slots. slot_sized s"
    and b: "EnvelopeHeader_build P file_uuid chunk key_slots meta plain nonce_prefix dek = Ok out"
  obtains core slot_bytes em where
    "out = encode_prefix core @ ch_header_authenticator core @ slot_bytes @ em"
    "core_valid core" "encode_key_slots key_slots [] = Ok slot_bytes"
    "unat (ch_key_slot_table_length core) = length slot_bytes"
    "unat (ch_encrypted_metadata_length core) = length em"
    "ch_file_uuid core = file_uuid" "ch_chunk_size core = chunk"
    "ch_total_plaintext_length core = plain" "ch_nonce_prefix core = nonce_prefix"
    "encrypt_metadata P dek nonce_prefix (encode_prefix core) slot_bytes meta = Ok em"
    "header_mac P dek (encode_prefix core @ slot_bytes @ em) = Ok (ch_header_authenticator core)"
    "key_slots \<noteq> []" "length key_slots \<le> 8"
proof -
  let ?mlen = "if meta = [] then 0 else length meta + 16"
  from b obtain slot_bytes em auth where
      ck: "65536 \<le> unat chunk" "unat chunk \<le> 16777216"
    and ne: "key_slots \<noteq> []" and few: "length key_slots \<le> 8" and ml: "length meta \<le> 65536"
    and sb: "encode_key_slots key_slots [] = Ok slot_bytes"
    and le: "98 + length slot_bytes + ?mlen \<le> 65536"
    and em: "encrypt_metadata P dek nonce_prefix (encode_prefix
        \<lparr>ch_format_version = FORMAT_VERSION, ch_file_uuid = file_uuid,
         ch_cipher_suite = CIPHER_SUITE_XCHACHA20_POLY1305,
         ch_header_length = of_nat (98 + length slot_bytes + ?mlen), ch_chunk_size = chunk,
         ch_key_slot_table_length = of_nat (length slot_bytes),
         ch_encrypted_metadata_length = of_nat ?mlen, ch_total_plaintext_length = plain,
         ch_nonce_prefix = nonce_prefix, ch_header_authenticator = replicate 32 0\<rparr>) slot_bytes meta = Ok em"
    and lem: "length em = ?mlen"
    and mac: "header_mac P dek (encode_prefix
        \<lparr>ch_format_version = FORMAT_VERSION, ch_file_uuid = file_uuid,
         ch_cipher_suite = CIPHER_SUITE_XCHACHA20_POLY1305,
         ch_header_length = of_nat (98 + length slot_bytes + ?mlen), ch_chunk_size = chunk,
         ch_key_slot_table_length = of_nat (length slot_bytes),
         ch_encrypted_metadata_length = of_nat ?mlen, ch_total_plaintext_length = plain,
         ch_nonce_prefix = nonce_prefix, ch_header_authenticator = replicate 32 0\<rparr> @ slot_bytes @ em) = Ok auth"
    and out: "out = encode_prefix
        \<lparr>ch_format_version = FORMAT_VERSION, ch_file_uuid = file_uuid,
         ch_cipher_suite = CIPHER_SUITE_XCHACHA20_POLY1305,
         ch_header_length = of_nat (98 + length slot_bytes + ?mlen), ch_chunk_size = chunk,
         ch_key_slot_table_length = of_nat (length slot_bytes),
         ch_encrypted_metadata_length = of_nat ?mlen, ch_total_plaintext_length = plain,
         ch_nonce_prefix = nonce_prefix, ch_header_authenticator = replicate 32 0\<rparr> @ auth @ slot_bytes @ em"
    unfolding EnvelopeHeader_build_def Let_def policy_simps
    by (auto simp: bind_eq_Some_conv not_less split: if_splits)
  define core where "core = \<lparr>ch_format_version = FORMAT_VERSION, ch_file_uuid = file_uuid,
         ch_cipher_suite = CIPHER_SUITE_XCHACHA20_POLY1305,
         ch_header_length = of_nat (98 + length slot_bytes + ?mlen), ch_chunk_size = chunk,
         ch_key_slot_table_length = of_nat (length slot_bytes),
         ch_encrypted_metadata_length = of_nat ?mlen, ch_total_plaintext_length = plain,
         ch_nonce_prefix = nonce_prefix, ch_header_authenticator = auth\<rparr>"
  have pre: "encode_prefix core = encode_prefix (core\<lparr>ch_header_authenticator := replicate 32 0\<rparr>)"
    by (simp add: encode_prefix_def)
  have la: "length auth = 32"
    using mac derive_domain_key_32_Ok [OF ok] prims_hmac [OF ok]
    by (auto simp: header_mac_def) (metis option.sel)
  have lsb: "length slot_bytes = 104 * length key_slots"
    using encode_key_slots_Ok [OF sb sized] by simp
  have h1: "unat (ch_header_length core) = 98 + length slot_bytes + ?mlen"
    unfolding core_def core_header.simps using le by (intro unat_word_of_nat_u32) simp
  have h2: "unat (ch_key_slot_table_length core) = length slot_bytes"
    unfolding core_def core_header.simps using le by (intro unat_word_of_nat_u32) simp
  have h3: "unat (ch_encrypted_metadata_length core) = length em"
    unfolding core_def core_header.simps using le lem by (simp add: unat_word_of_nat_u32)
  have v: "core_valid core"
    using h1 h2 h3 le lem lsb ne few ck la uuid np
    by (auto simp: core_valid_def core_def)
  show ?thesis
  proof (rule that)
    show "out = encode_prefix core @ ch_header_authenticator core @ slot_bytes @ em"
      using out pre by (simp add: core_def)
    show "encrypt_metadata P dek nonce_prefix (encode_prefix core) slot_bytes meta = Ok em"
      using em pre by (simp add: core_def)
    show "header_mac P dek (encode_prefix core @ slot_bytes @ em) = Ok (ch_header_authenticator core)"
      using mac pre by (simp add: core_def)
  qed (use v sb h2 h3 ne few in \<open>simp_all add: core_def\<close>)
qed

lemma EnvelopeHeader_parse_Ok:
  "EnvelopeHeader_parse data = Ok h \<longleftrightarrow>
     (\<exists>core slots. CoreHeader_parse data = Ok core \<and> unat (ch_header_length core) \<le> length data \<and>
        parse_key_slots data 0 (unat (ch_key_slot_table_length core) div 104) [] = Ok slots \<and>
        h = \<lparr>eh_core = core, eh_key_slots = slots,
             eh_encrypted_metadata =
               slice data (98 + unat (ch_key_slot_table_length core)) (unat (ch_header_length core)),
             eh_raw_header = take (unat (ch_header_length core)) data\<rparr>)"
  (is "?l \<longleftrightarrow> ?r")
proof
  assume ?l
  then show ?r
    by (auto simp: EnvelopeHeader_parse_def Let_def policy_simps not_less split: if_splits)
next
  assume ?r
  then obtain core slots where c: "CoreHeader_parse data = Ok core" and l: "unat (ch_header_length core) \<le> length data"
    and s: "parse_key_slots data 0 (unat (ch_key_slot_table_length core) div 104) [] = Ok slots"
    and h: "h = \<lparr>eh_core = core, eh_key_slots = slots,
             eh_encrypted_metadata =
               slice data (98 + unat (ch_key_slot_table_length core)) (unat (ch_header_length core)),
             eh_raw_header = take (unat (ch_header_length core)) data\<rparr>" by blast
  have v: "core_valid core" using core_parse_fields(4) [OF c] .
  then have "98 + unat (ch_key_slot_table_length core) + unat (ch_encrypted_metadata_length core)
      = unat (ch_header_length core)" "unat (ch_header_length core) \<le> 65536"
    by (simp_all add: core_valid_def)
  then show ?l
    using c l s h by (simp add: EnvelopeHeader_parse_def Let_def policy_simps usize_limit_def)
qed

lemma header_layout:
  assumes "core_valid core" and "unat (ch_key_slot_table_length core) = length slot_bytes"
    and "unat (ch_encrypted_metadata_length core) = length em"
    and "data = encode_prefix core @ ch_header_authenticator core @ slot_bytes @ em @ body"
  shows "unat (ch_header_length core) = 98 + length slot_bytes + length em"
    "slice data 98 (98 + length slot_bytes) = slot_bytes"
    "slice data (98 + length slot_bytes) (98 + length slot_bytes + length em) = em"
    "take (98 + length slot_bytes + length em) data =
       encode_prefix core @ ch_header_authenticator core @ slot_bytes @ em"
    "take 66 data = encode_prefix core"
    "drop 98 (take (98 + length slot_bytes + length em) data) = slot_bytes @ em"
    "98 + length slot_bytes + length em \<le> length data"
proof -
  from assms(1) have l: "length (encode_prefix core) = 66" "length (ch_header_authenticator core) = 32"
    by (simp_all add: core_valid_def length_encode_prefix)
  show "unat (ch_header_length core) = 98 + length slot_bytes + length em"
    using assms(1-3) by (simp add: core_valid_def)
  show "slice data 98 (98 + length slot_bytes) = slot_bytes"
    "slice data (98 + length slot_bytes) (98 + length slot_bytes + length em) = em"
    using l by (simp_all add: assms(4) slice_simps)
  show "take (98 + length slot_bytes + length em) data =
       encode_prefix core @ ch_header_authenticator core @ slot_bytes @ em"
    "take 66 data = encode_prefix core"
    "drop 98 (take (98 + length slot_bytes + length em) data) = slot_bytes @ em"
    "98 + length slot_bytes + length em \<le> length data"
    using l by (simp_all add: assms(4))
qed

lemma verify_layout:
  assumes "core_valid core" and "unat (ch_key_slot_table_length core) = length slot_bytes"
    and "unat (ch_encrypted_metadata_length core) = length em"
    and "raw = encode_prefix core @ ch_header_authenticator core @ slot_bytes @ em"
  shows "verify_and_decrypt_metadata P \<lparr>eh_core = core, eh_key_slots = slots,
            eh_encrypted_metadata = em, eh_raw_header = raw\<rparr> dek =
     rbind (header_mac P dek (encode_prefix core @ slot_bytes @ em)) (\<lambda>tag.
      if tag \<noteq> ch_header_authenticator core then Err auth_failed
      else if em = [] then Ok []
      else rbind (derive_domain_key_32 P dek METADATA_ENC) (\<lambda>metadata_key.
        if \<not> key_ok P metadata_key then Err (internal ''Invalid metadata key'')
        else ok_or (aead_open P metadata_key (record_nonce (ch_nonce_prefix core) METADATA_NONCE_INDEX)
                      (METADATA_AAD_DOMAIN @ encode_prefix core @ slot_bytes) em) auth_failed))"
proof -
  have l: "length (encode_prefix core) = 66" "length (ch_header_authenticator core) = 32"
    using assms(1) by (simp_all add: core_valid_def length_encode_prefix)
  have r: "take 66 raw = encode_prefix core" "drop 98 raw = slot_bytes @ em"
    "slice raw 98 (98 + length slot_bytes) = slot_bytes"
    using l by (simp_all add: assms(4) slice_simps)
  show ?thesis
    unfolding verify_and_decrypt_metadata_def Let_def policy_simps envelope_header.simps r assms(2) ..
qed

lemma decrypt_metadata_iff:
  assumes ok: "prims_ok P" and v: "core_valid core"
  shows "(if em = [] then Ok []
      else rbind (derive_domain_key_32 P dek METADATA_ENC) (\<lambda>metadata_key.
        if \<not> key_ok P metadata_key then Err (internal ''Invalid metadata key'')
        else ok_or (aead_open P metadata_key (record_nonce (ch_nonce_prefix core) METADATA_NONCE_INDEX)
                      (METADATA_AAD_DOMAIN @ encode_prefix core @ slot_bytes) em) auth_failed)) = Ok meta
    \<and> (meta = [] \<longrightarrow> em = []) \<longleftrightarrow>
    encrypt_metadata P dek (ch_nonce_prefix core) (encode_prefix core) slot_bytes meta = Ok em
    \<and> (em = [] \<longrightarrow> meta = [])"
proof -
  obtain k where k: "derive_domain_key_32 P dek METADATA_ENC = Ok k" and lk: "length k = 32"
    using derive_domain_key_32_Ok [OF ok] by blast
  have "key_ok P k" using ok lk by (rule prims_key_ok)
  then show ?thesis
    using k prims_seal_length [OF ok, of k] by (auto simp: encrypt_metadata_def Let_def prims_open_iff [OF ok])
qed

lemma parse_layout:
  assumes v: "core_valid core" and sb: "encode_key_slots slots [] = Ok slot_bytes"
    and sized: "\<forall>s\<in>set slots. slot_sized s"
    and kt: "unat (ch_key_slot_table_length core) = length slot_bytes"
    and em: "unat (ch_encrypted_metadata_length core) = length em"
    and data: "data = encode_prefix core @ ch_header_authenticator core @ slot_bytes @ em @ body"
  shows "EnvelopeHeader_parse data = Ok \<lparr>eh_core = core, eh_key_slots = slots,
     eh_encrypted_metadata = em,
     eh_raw_header = encode_prefix core @ ch_header_authenticator core @ slot_bytes @ em\<rparr>"
proof -
  note L = header_layout [OF v kt em data]
  have lsb: "length slot_bytes = 104 * length slots"
    using encode_key_slots_Ok [OF sb sized] by simp
  have ub: "unat (ch_header_length core) \<le> 65536" using v by (simp add: core_valid_def)
  have "CoreHeader_parse data = Ok core"
    using core_parse_encode [OF v] by (simp add: data)
  moreover have "parse_key_slots data 0 (length slots) [] = Ok slots"
    using L ub lsb by (intro parse_encode_key_slots [OF sb sized]) (simp_all add: usize_limit_def mult.commute)
  ultimately show ?thesis
    using L lsb kt by (simp add: EnvelopeHeader_parse_Ok)
qed

lemma build_parses:
  assumes "prims_ok P" and "length file_uuid = 16" and "length nonce_prefix = 16"
    and "\<forall>s\<in>set key_slots. slot_sized s"
    and "EnvelopeHeader_build P file_uuid chunk key_slots meta plain nonce_prefix dek = Ok out"
  shows "\<exists>h. EnvelopeHeader_parse (out @ body) = Ok h \<and> eh_raw_header h = out \<and>
     eh_key_slots h = key_slots \<and> ch_file_uuid (eh_core h) = file_uuid \<and>
     ch_chunk_size (eh_core h) = chunk \<and> ch_total_plaintext_length (eh_core h) = plain \<and>
     ch_nonce_prefix (eh_core h) = nonce_prefix \<and> unat (ch_header_length (eh_core h)) = length out \<and>
     verify_and_decrypt_metadata P h dek = Ok meta"
proof -
  obtain core slot_bytes em where
    out: "out = encode_prefix core @ ch_header_authenticator core @ slot_bytes @ em"
    and v: "core_valid core" and sb: "encode_key_slots key_slots [] = Ok slot_bytes"
    and kt: "unat (ch_key_slot_table_length core) = length slot_bytes"
    and eml: "unat (ch_encrypted_metadata_length core) = length em"
    and f: "ch_file_uuid core = file_uuid" "ch_chunk_size core = chunk"
    "ch_total_plaintext_length core = plain" "ch_nonce_prefix core = nonce_prefix"
    and em: "encrypt_metadata P dek nonce_prefix (encode_prefix core) slot_bytes meta = Ok em"
    and mac: "header_mac P dek (encode_prefix core @ slot_bytes @ em) = Ok (ch_header_authenticator core)"
    using build_OkE [OF assms] by metis
  let ?h = "\<lparr>eh_core = core, eh_key_slots = key_slots, eh_encrypted_metadata = em,
     eh_raw_header = encode_prefix core @ ch_header_authenticator core @ slot_bytes @ em\<rparr>"
  have p: "EnvelopeHeader_parse (out @ body) = Ok ?h"
    by (rule parse_layout [OF v sb assms(4) kt eml]) (simp add: out)
  have "em = [] \<longrightarrow> meta = []"
    using em prims_seal_length [OF assms(1)] by (fastforce simp: encrypt_metadata_def Let_def split: if_splits)
  then have "verify_and_decrypt_metadata P ?h dek = Ok meta"
    using decrypt_metadata_iff [OF assms(1) v, where em = em and slot_bytes = slot_bytes and dek = dek and meta = meta]
      em f(4) by (simp add: verify_layout [OF v kt eml refl] mac)
  moreover have "unat (ch_header_length core) = length out"
    using header_layout(1) [OF v kt eml refl] v out
    by (simp add: core_valid_def length_encode_prefix)
  ultimately show ?thesis using p f out by auto
qed

text \<open>a header built from a set of slots and metadata parses back, whatever follows it, to
  the same slots, identity, chunk size, length and nonce prefix; its raw bytes are the built
  ones, and under the same data key its metadata decrypts to the original.\<close>

theorem build_parse_roundtrip:
  assumes "prims_ok P" and "length file_uuid = 16" and "length nonce_prefix = 16"
    and "\<forall>s\<in>set key_slots. slot_sized s"
    and "EnvelopeHeader_build P file_uuid chunk key_slots meta plain nonce_prefix dek = Ok out"
  shows "\<exists>h. EnvelopeHeader_parse (out @ body) = Ok h \<and> eh_raw_header h = out \<and>
     eh_key_slots h = key_slots \<and> ch_file_uuid (eh_core h) = file_uuid \<and>
     ch_chunk_size (eh_core h) = chunk \<and> ch_total_plaintext_length (eh_core h) = plain \<and>
     ch_nonce_prefix (eh_core h) = nonce_prefix \<and> unat (ch_header_length (eh_core h)) = length out \<and>
     verify_and_decrypt_metadata P h dek = Ok meta"
  using assms by (rule build_parses)

definition demo_slot :: key_slot_entry where
  "demo_slot = \<lparr>ks_kind = 1, ks_slot_id = 0, ks_kdf_algorithm = 2, ks_argon2_memory_kib = 0,
     ks_argon2_iterations = 0, ks_argon2_parallelism = 0, ks_salt = replicate 16 3,
     ks_wrap_nonce = replicate 24 5, ks_wrapped_dek = replicate 48 9\<rparr>"

lemma demo_slot_sized: "slot_sized demo_slot"
  by (simp add: slot_sized_def demo_slot_def)

lemma encode_key_slots_total:
  "(\<exists>bs. encode_key_slots slots ids = Ok bs) \<longleftrightarrow>
     (\<forall>s\<in>set slots. KeySlotEntry_validate s = Ok ()) \<and> distinct (map ks_slot_id slots) \<and>
     set (map ks_slot_id slots) \<inter> set ids = {}"
proof (induction slots ids rule: encode_key_slots.induct)
  case (1 ids)
  then show ?case by simp
next
  case (2 s ss ids)
  show ?case
  proof (cases "ks_slot_id s \<in> set ids")
    case True
    then show ?thesis by simp
  next
    case False
    from "2.IH" [OF this] show ?thesis
      using False by (auto simp: KeySlotEntry_encode_Ok)
  qed
qed

lemma header_mac_total:
  assumes "prims_ok P"
  shows "\<exists>t. header_mac P dek x = Ok t \<and> length t = 32"
proof -
  obtain k where "derive_domain_key_32 P dek HEADER_AUTH = Ok k"
    using derive_domain_key_32_Ok [OF assms] by blast
  then show ?thesis using prims_hmac [OF assms] by (auto simp: header_mac_def)
qed

lemma encrypt_metadata_Nil [simp]: "encrypt_metadata P dek np prefix sb [] = Ok []"
  by (simp add: encrypt_metadata_def)

lemma encrypt_metadata_total:
  assumes "prims_ok P" and "length nonce_prefix = 16" and "length meta \<le> 65536"
  shows "\<exists>em. encrypt_metadata P dek nonce_prefix prefix sb meta = Ok em
    \<and> length em = (if meta = [] then 0 else length meta + 16)"
proof -
  obtain k where k: "derive_domain_key_32 P dek METADATA_ENC = Ok k" "length k = 32"
    using derive_domain_key_32_Ok [OF assms(1)] by blast
  have "length (record_nonce nonce_prefix METADATA_NONCE_INDEX) = 24"
    using assms(2) by (simp add: record_nonce_def)
  then obtain c where "aead_seal P k (record_nonce nonce_prefix METADATA_NONCE_INDEX)
      (METADATA_AAD_DOMAIN @ prefix @ sb) meta = Some c" "length c = length meta + 16"
    using prims_seal_total [OF assms(1) k(2), of _ meta] assms(3) by fastforce
  then show ?thesis using k prims_key_ok [OF assms(1) k(2)]
    by (simp add: encrypt_metadata_def Let_def)
qed

lemma build_total:
  assumes ok: "prims_ok P" and np: "length nonce_prefix = 16"
    and sized: "\<forall>s\<in>set key_slots. slot_sized s"
  shows "(\<exists>out. EnvelopeHeader_build P file_uuid chunk key_slots meta plain nonce_prefix dek = Ok out) \<longleftrightarrow>
     65536 \<le> unat chunk \<and> unat chunk \<le> 16777216 \<and> key_slots \<noteq> [] \<and> length key_slots \<le> 8 \<and>
     (\<forall>s\<in>set key_slots. KeySlotEntry_validate s = Ok ()) \<and> distinct (map ks_slot_id key_slots) \<and>
     98 + 104 * length key_slots + (if meta = [] then 0 else length meta + 16) \<le> 65536"
  (is "?l \<longleftrightarrow> ?r")
proof
  assume ?l
  then obtain sb where sb: "encode_key_slots key_slots [] = Ok sb"
    and rest: "65536 \<le> unat chunk" "unat chunk \<le> 16777216" "key_slots \<noteq> []" "length key_slots \<le> 8"
      "98 + length sb + (if meta = [] then 0 else length meta + 16) \<le> 65536"
    by (auto simp: EnvelopeHeader_build_def Let_def policy_simps bind_eq_Some_conv not_less split: if_splits)
  have "length sb = 104 * length key_slots" using encode_key_slots_Ok [OF sb sized] by simp
  moreover have "(\<forall>s\<in>set key_slots. KeySlotEntry_validate s = Ok ()) \<and> distinct (map ks_slot_id key_slots)"
    using encode_key_slots_total [of key_slots "[]"] sb by simp
  ultimately show ?r using rest by simp
next
  assume r: ?r
  then obtain sb where sb: "encode_key_slots key_slots [] = Ok sb"
    using encode_key_slots_total [of key_slots "[]"] by auto
  have lsb: "length sb = 104 * length key_slots" using encode_key_slots_Ok [OF sb sized] by simp
  have lm: "length meta \<le> 65536" using r by (auto split: if_splits)
  obtain E where E: "\<And>prefix. encrypt_metadata P dek nonce_prefix prefix sb meta = Ok (E prefix)"
      "\<And>prefix. length (E prefix) = (if meta = [] then 0 else length meta + 16)"
    using encrypt_metadata_total [OF ok np lm, of dek _ sb] by metis
  obtain M where M: "\<And>x. header_mac P dek x = Ok (M x)"
    using header_mac_total [OF ok, of dek] by metis
  from r sb lsb show ?l
    by (cases "meta = []")
      (simp_all add: EnvelopeHeader_build_def Let_def policy_simps usize_limit_def
        checked_add_usize_def E M)
qed

text \<open>\<open>build\<close> succeeds exactly inside the policy: a valid chunk size, one to eight valid slots
  with distinct ids, and metadata for which the complete header fits 64 KiB. In particular the
  metadata bound of the policy file (64 KiB of plaintext) is never reached: the header bound is
  tighter.\<close>

theorem build_succeeds_iff_policy:
  assumes "prims_ok P" and "length nonce_prefix = 16" and "\<forall>s\<in>set key_slots. slot_sized s"
  shows "(\<exists>out. EnvelopeHeader_build P file_uuid chunk key_slots meta plain nonce_prefix dek = Ok out) \<longleftrightarrow>
     unat MIN_CHUNK_SIZE \<le> unat chunk \<and> unat chunk \<le> unat MAX_CHUNK_SIZE \<and>
     key_slots \<noteq> [] \<and> length key_slots \<le> MAX_KEY_SLOTS \<and>
     (\<forall>s\<in>set key_slots. KeySlotEntry_validate s = Ok ()) \<and> distinct (map ks_slot_id key_slots) \<and>
     CORE_HEADER_SIZE + KEY_SLOT_SIZE * length key_slots +
       (if meta = [] then 0 else length meta + AEAD_TAG_LENGTH) \<le> MAX_HEADER_LENGTH"
  using build_total [OF assms] by (simp add: policy_simps MIN_CHUNK_SIZE_def MAX_CHUNK_SIZE_def)

lemma demo_slot_validate: "KeySlotEntry_validate demo_slot = Ok ()"
  by (simp add: KeySlotEntry_validate_def demo_slot_def)

theorem build_succeeds_iff_policy_witness:
  "(\<exists>out. EnvelopeHeader_build demo_prims (replicate 16 7) 65536 [demo_slot] (replicate 65318 1) 70000
      (replicate 16 8) (replicate 32 4) = Ok out) \<and>
   \<not> (\<exists>out. EnvelopeHeader_build demo_prims (replicate 16 7) 65536 [demo_slot] (replicate 65319 1) 70000
      (replicate 16 8) (replicate 32 4) = Ok out)"
  by (simp add: build_succeeds_iff_policy demo_prims_ok demo_slot_sized demo_slot_validate policy_simps
      MIN_CHUNK_SIZE_def MAX_CHUNK_SIZE_def del: replicate.simps)

lemma demo_build_Ok:
  "\<exists>out. EnvelopeHeader_build demo_prims (replicate 16 7) 65536 [demo_slot] [1, 2, 3] plain
     (replicate 16 8) (replicate 32 4) = Ok out"
  by (simp add: build_total demo_prims_ok demo_slot_sized demo_slot_validate)

theorem build_parse_roundtrip_witness:
  "\<exists>out h. EnvelopeHeader_build demo_prims (replicate 16 7) 65536 [demo_slot] [1, 2, 3] 70000
       (replicate 16 8) (replicate 32 4) = Ok out \<and>
     EnvelopeHeader_parse (out @ [0, 0]) = Ok h \<and>
     verify_and_decrypt_metadata demo_prims h (replicate 32 4) = Ok [1, 2, 3]"
proof -
  obtain out where out: "EnvelopeHeader_build demo_prims (replicate 16 7) 65536 [demo_slot] [1, 2, 3]
      70000 (replicate 16 8) (replicate 32 4) = Ok out"
    using demo_build_Ok by blast
  have "\<exists>h. EnvelopeHeader_parse (out @ [0, 0]) = Ok h \<and>
      verify_and_decrypt_metadata demo_prims h (replicate 32 4) = Ok [1, 2, 3]"
    using build_parse_roundtrip [OF demo_prims_ok _ _ _ out, of "[0, 0]"] demo_slot_sized by auto
  with out show ?thesis by blast
qed

lemma accepted_layout:
  assumes p: "EnvelopeHeader_parse data = Ok h"
  obtains slot_bytes where "core_valid (eh_core h)"
    "encode_key_slots (eh_key_slots h) [] = Ok slot_bytes"
    "\<forall>s\<in>set (eh_key_slots h). slot_valid s"
    "unat (ch_key_slot_table_length (eh_core h)) = length slot_bytes"
    "unat (ch_encrypted_metadata_length (eh_core h)) = length (eh_encrypted_metadata h)"
    "eh_raw_header h = encode_prefix (eh_core h) @ ch_header_authenticator (eh_core h) @ slot_bytes
       @ eh_encrypted_metadata h"
    "eh_raw_header h = take (unat (ch_header_length (eh_core h))) data"
    "length (eh_key_slots h) * 104 = length slot_bytes"
    "unat (ch_header_length (eh_core h)) \<le> length data"
proof -
  from p obtain core slots where c: "CoreHeader_parse data = Ok core"
    and le: "unat (ch_header_length core) \<le> length data"
    and s: "parse_key_slots data 0 (unat (ch_key_slot_table_length core) div 104) [] = Ok slots"
    and h: "h = \<lparr>eh_core = core, eh_key_slots = slots,
             eh_encrypted_metadata =
               slice data (98 + unat (ch_key_slot_table_length core)) (unat (ch_header_length core)),
             eh_raw_header = take (unat (ch_header_length core)) data\<rparr>"
    by (auto simp: EnvelopeHeader_parse_Ok)
  note C = core_encode_parse [OF c]
  let ?k = "unat (ch_key_slot_table_length core)" and ?m = "unat (ch_encrypted_metadata_length core)"
  have hl: "unat (ch_header_length core) = 98 + ?k + ?m" and k: "?k mod 104 = 0"
    using C(3) by (simp_all add: core_valid_def)
  have k2: "(?k div 104) * 104 = ?k" using k by auto
  have sl: "encode_key_slots slots [] = Ok (slice data 98 (98 + ?k))" "length slots = ?k div 104"
    "\<forall>s\<in>set slots. slot_valid s"
    using encode_parse_key_slots [OF s] le hl k2 by simp_all
  have raw: "take (98 + ?k + ?m) data =
      encode_prefix core @ ch_header_authenticator core @ slice data 98 (98 + ?k) @ slice data (98 + ?k) (98 + ?k + ?m)"
    by (simp add: C(1,2) slice_joins flip: slice_zero_take)
  show ?thesis
    by (rule that [of "slice data 98 (98 + ?k)"])
      (use C(3) sl raw hl le k2 in \<open>simp_all add: h\<close>)
qed

lemma header_mac_length: "prims_ok P \<Longrightarrow> header_mac P dek x = Ok t \<Longrightarrow> length t = 32"
  using header_mac_total [of P dek x] by auto

lemma build_intro:
  assumes "65536 \<le> unat chunk" and "unat chunk \<le> 16777216" and "key_slots \<noteq> []"
    and "length key_slots \<le> 8" and "length meta \<le> 65536"
    and "encode_key_slots key_slots [] = Ok sb"
    and ml: "ml = (if meta = [] then 0 else length meta + 16)" and "98 + length sb + ml \<le> 65536"
    and c0: "c0 = \<lparr>ch_format_version = FORMAT_VERSION, ch_file_uuid = file_uuid,
       ch_cipher_suite = CIPHER_SUITE_XCHACHA20_POLY1305,
       ch_header_length = of_nat (98 + length sb + ml), ch_chunk_size = chunk,
       ch_key_slot_table_length = of_nat (length sb), ch_encrypted_metadata_length = of_nat ml,
       ch_total_plaintext_length = plain, ch_nonce_prefix = nonce_prefix,
       ch_header_authenticator = replicate 32 0\<rparr>"
    and em: "encrypt_metadata P dek nonce_prefix (encode_prefix c0) sb meta = Ok em"
    and lem: "length em = ml"
    and mac: "header_mac P dek (encode_prefix c0 @ sb @ em) = Ok t"
  shows "EnvelopeHeader_build P file_uuid chunk key_slots meta plain nonce_prefix dek
    = Ok (encode_prefix c0 @ t @ sb @ em)"
proof -
  have m: "(if meta = [] then Ok 0 else ok_or (checked_add_usize (length meta) AEAD_TAG_LENGTH) size_overflow)
      = (Ok ml :: nat crypto_result)"
    using assms(5) ml by (simp add: policy_simps usize_limit_def)
  have c: "ok_or (Option.bind (checked_add_usize CORE_HEADER_SIZE (length sb))
      (\<lambda>v. checked_add_usize v ml)) size_overflow = Ok (98 + length sb + ml)"
    using assms(8) by (simp add: policy_simps usize_limit_def checked_add_usize_def)
  show ?thesis
    unfolding EnvelopeHeader_build_def Let_def assms(6) rbind_simps m c c0 [symmetric] em mac
    using assms(1-5,8) lem by (simp add: policy_simps)
qed

lemma accepted_header_built:
  assumes ok: "prims_ok P" and p: "EnvelopeHeader_parse data = Ok h"
    and v: "verify_and_decrypt_metadata P h dek = Ok meta"
    and ne: "meta = [] \<longrightarrow> eh_encrypted_metadata h = []"
  shows "EnvelopeHeader_build P (ch_file_uuid (eh_core h)) (ch_chunk_size (eh_core h)) (eh_key_slots h)
      meta (ch_total_plaintext_length (eh_core h)) (ch_nonce_prefix (eh_core h)) dek
    = Ok (take (unat (ch_header_length (eh_core h))) data)"
proof -
  let ?c = "eh_core h" and ?em = "eh_encrypted_metadata h"
  obtain sb where cv: "core_valid ?c" and sb: "encode_key_slots (eh_key_slots h) [] = Ok sb"
    and kt: "unat (ch_key_slot_table_length ?c) = length sb"
    and eml: "unat (ch_encrypted_metadata_length ?c) = length ?em"
    and raw: "eh_raw_header h = encode_prefix ?c @ ch_header_authenticator ?c @ sb @ ?em"
    and raw2: "eh_raw_header h = take (unat (ch_header_length ?c)) data"
    and n: "length (eh_key_slots h) * 104 = length sb"
    using accepted_layout [OF p] by metis
  have hv: "h = \<lparr>eh_core = ?c, eh_key_slots = eh_key_slots h, eh_encrypted_metadata = ?em,
      eh_raw_header = eh_raw_header h\<rparr>" by simp
  note V = verify_layout [OF cv kt eml raw, of P "eh_key_slots h" dek, folded hv]
  have mac: "header_mac P dek (encode_prefix ?c @ sb @ ?em) = Ok (ch_header_authenticator ?c)"
    using v unfolding V by (auto split: if_splits)
  have "encrypt_metadata P dek (ch_nonce_prefix ?c) (encode_prefix ?c) sb meta = Ok ?em
      \<and> (?em = [] \<longrightarrow> meta = [])"
    using decrypt_metadata_iff [OF ok cv, of ?em dek sb meta] v ne mac unfolding V by simp
  then have em: "encrypt_metadata P dek (ch_nonce_prefix ?c) (encode_prefix ?c) sb meta = Ok ?em"
    and nil: "?em = [] \<longrightarrow> meta = []" by simp_all
  let ?ml = "if meta = [] then 0 else length meta + 16"
  have "length meta \<le> 65536 \<Longrightarrow> length ?em = ?ml"
    using encrypt_metadata_total [OF ok _, of "ch_nonce_prefix ?c" meta dek "encode_prefix ?c" sb] em cv
    by (auto simp: core_valid_def)
  moreover have "length ?em = ?ml"
    using em prims_seal_length [OF ok] by (fastforce simp: encrypt_metadata_def Let_def split: if_splits)
  ultimately have lem: "length ?em = ?ml" by simp
  have hl: "unat (ch_header_length ?c) = 98 + length sb + ?ml" and le: "98 + length sb + ?ml \<le> 65536"
    using cv kt eml lem by (simp_all add: core_valid_def)
  have sizes: "eh_key_slots h \<noteq> []" "length (eh_key_slots h) \<le> 8" "length meta \<le> 65536"
    using cv kt n le by (auto simp: core_valid_def split: if_splits)
  let ?zeroed = "\<lparr>ch_format_version = FORMAT_VERSION, ch_file_uuid = ch_file_uuid ?c,
       ch_cipher_suite = CIPHER_SUITE_XCHACHA20_POLY1305,
       ch_header_length = of_nat (98 + length sb + ?ml), ch_chunk_size = ch_chunk_size ?c,
       ch_key_slot_table_length = of_nat (length sb), ch_encrypted_metadata_length = of_nat ?ml,
       ch_total_plaintext_length = ch_total_plaintext_length ?c,
       ch_nonce_prefix = ch_nonce_prefix ?c, ch_header_authenticator = replicate 32 0\<rparr>"
  have pre: "encode_prefix ?zeroed = encode_prefix ?c"
    using cv word_eq_of_nat [OF hl] word_eq_of_nat [OF kt] word_eq_of_nat [OF eml] lem
    unfolding encode_prefix_def core_header.simps by (simp only: core_valid_def)
  have "EnvelopeHeader_build P (ch_file_uuid ?c) (ch_chunk_size ?c) (eh_key_slots h) meta
      (ch_total_plaintext_length ?c) (ch_nonce_prefix ?c) dek
    = Ok (encode_prefix ?zeroed @ ch_header_authenticator ?c @ sb @ ?em)"
    by (rule build_intro [OF _ _ sizes sb refl le refl])
      (use cv em mac lem in \<open>simp_all only: pre core_valid_def\<close>)
  then show ?thesis using raw raw2 by (simp only: pre)
qed

text \<open>The header that \<open>build\<close> never writes: its metadata record is there and seals nothing.\<close>

definition empty_record_header :: "prims \<Rightarrow> bytes \<Rightarrow> core_header \<Rightarrow> key_slot_entry list \<Rightarrow> bytes \<Rightarrow> bool" where
  "empty_record_header P dek core slots raw \<longleftrightarrow>
     (\<exists>sb k em. encode_key_slots slots [] = Ok sb \<and> derive_domain_key_32 P dek METADATA_ENC = Ok k \<and>
        aead_seal P k (record_nonce (ch_nonce_prefix core) METADATA_NONCE_INDEX)
          (METADATA_AAD_DOMAIN @ encode_prefix core @ sb) [] = Some em \<and> length em = 16 \<and>
        header_mac P dek (encode_prefix core @ sb @ em) = Ok (ch_header_authenticator core) \<and>
        raw = encode_prefix core @ ch_header_authenticator core @ sb @ em)"

lemma accepted_header_empty_record:
  assumes ok: "prims_ok P" and p: "EnvelopeHeader_parse data = Ok h"
    and v: "verify_and_decrypt_metadata P h dek = Ok []" and ne: "eh_encrypted_metadata h \<noteq> []"
  shows "empty_record_header P dek (eh_core h) (eh_key_slots h) (take (unat (ch_header_length (eh_core h))) data)"
proof -
  let ?c = "eh_core h" and ?em = "eh_encrypted_metadata h"
  obtain sb where cv: "core_valid ?c" and sb: "encode_key_slots (eh_key_slots h) [] = Ok sb"
    and kt: "unat (ch_key_slot_table_length ?c) = length sb"
    and eml: "unat (ch_encrypted_metadata_length ?c) = length ?em"
    and raw: "eh_raw_header h = encode_prefix ?c @ ch_header_authenticator ?c @ sb @ ?em"
    and raw2: "eh_raw_header h = take (unat (ch_header_length ?c)) data"
    using accepted_layout [OF p] by metis
  have hv: "h = \<lparr>eh_core = ?c, eh_key_slots = eh_key_slots h, eh_encrypted_metadata = ?em,
      eh_raw_header = eh_raw_header h\<rparr>" by simp
  note V = verify_layout [OF cv kt eml raw, of P "eh_key_slots h" dek, folded hv]
  have mac: "header_mac P dek (encode_prefix ?c @ sb @ ?em) = Ok (ch_header_authenticator ?c)"
    using v unfolding V by (auto split: if_splits)
  obtain k where k: "derive_domain_key_32 P dek METADATA_ENC = Ok k" "length k = 32"
    using derive_domain_key_32_Ok [OF ok] by blast
  have "aead_open P k (record_nonce (ch_nonce_prefix ?c) METADATA_NONCE_INDEX)
      (METADATA_AAD_DOMAIN @ encode_prefix ?c @ sb) ?em = Some []"
    using v ne mac k prims_key_ok [OF ok k(2)] unfolding V by (auto split: if_splits)
  then have seal: "aead_seal P k (record_nonce (ch_nonce_prefix ?c) METADATA_NONCE_INDEX)
      (METADATA_AAD_DOMAIN @ encode_prefix ?c @ sb) [] = Some ?em" by (simp add: prims_open_iff [OF ok])
  then have "length ?em = 16" using prims_seal_length [OF ok] by force
  then show ?thesis
    unfolding empty_record_header_def raw2 [symmetric] using sb k(1) seal mac raw by blast
qed

text \<open>C6: a header that is accepted and authenticated under a data key is determined byte by byte by its own
  slots, fields and decrypted metadata: it is the one \<open>build\<close> produces from them or, when its metadata is
  empty but has a record all the same, which \<open>build\<close> never writes, the same layout with the sealed empty
  record. No other byte string carries the same authenticated header.\<close>

theorem accepted_header_is_canonical:
  assumes "prims_ok P" and "EnvelopeHeader_parse data = Ok h" and "verify_and_decrypt_metadata P h dek = Ok meta"
  shows "if meta = [] \<and> eh_encrypted_metadata h \<noteq> []
    then empty_record_header P dek (eh_core h) (eh_key_slots h) (take (unat (ch_header_length (eh_core h))) data)
    else EnvelopeHeader_build P (ch_file_uuid (eh_core h)) (ch_chunk_size (eh_core h)) (eh_key_slots h)
        meta (ch_total_plaintext_length (eh_core h)) (ch_nonce_prefix (eh_core h)) dek
      = Ok (take (unat (ch_header_length (eh_core h))) data)"
  using accepted_header_built [OF assms] accepted_header_empty_record [OF assms(1,2)] assms(3) by auto

theorem accepted_header_is_canonical_witness:
  "\<exists>data h. EnvelopeHeader_parse data = Ok h \<and>
     verify_and_decrypt_metadata demo_prims h (replicate 32 4) = Ok [1, 2, 3] \<and>
     EnvelopeHeader_build demo_prims (ch_file_uuid (eh_core h)) (ch_chunk_size (eh_core h))
       (eh_key_slots h) [1, 2, 3] (ch_total_plaintext_length (eh_core h))
       (ch_nonce_prefix (eh_core h)) (replicate 32 4) = Ok (take (unat (ch_header_length (eh_core h))) data)"
proof -
  obtain out where out: "EnvelopeHeader_build demo_prims (replicate 16 7) 65536 [demo_slot] [1, 2, 3]
      70000 (replicate 16 8) (replicate 32 4) = Ok out"
    using demo_build_Ok by blast
  obtain h where h: "EnvelopeHeader_parse (out @ []) = Ok h"
      "verify_and_decrypt_metadata demo_prims h (replicate 32 4) = Ok [1, 2, 3]"
    using build_parses [OF demo_prims_ok _ _ _ out, of "[]"] demo_slot_sized by auto
  from accepted_header_is_canonical [OF demo_prims_ok h] h show ?thesis by auto
qed

end
