(* ===== verification/Envelope_Body.thy ===== *)
theory Envelope_Body
  imports Header_Contract
begin

text \<open>
  The body of a TDENC2 envelope as a specification: what the records of a plaintext are, with
  no buffers and no I/O. \<open>content_ctx\<close> holds the header values that every record is bound to;
  \<open>records_from\<close> is the concatenation of the sealed chunks of a plaintext, \<open>final_record\<close> the
  sealed trailer. The encrypting and the decrypting reader are related to these in their own
  theories.
\<close>

definition CHUNK_AAD_DOMAIN :: bytes where
  "CHUNK_AAD_DOMAIN = ascii ''telegram-drive:tdenc2:chunk''"

definition FINAL_AAD_DOMAIN :: bytes where
  "FINAL_AAD_DOMAIN = ascii ''telegram-drive:tdenc2:final''"

record content_ctx =
  cc_content_key :: bytes
  cc_file_uuid :: bytes
  cc_header_authenticator :: bytes
  cc_nonce_prefix :: bytes
  cc_chunk_size :: u32
  cc_total :: u64
  cc_chunk_count :: u32

definition chunk_aad_of :: "content_ctx \<Rightarrow> u64 \<Rightarrow> u64 \<Rightarrow> u32 \<Rightarrow> bytes" where
  "chunk_aad_of c chunk_index plaintext_offset len =
     CHUNK_AAD_DOMAIN @ le16 FORMAT_VERSION @ cc_file_uuid c @ cc_header_authenticator c @
     le64 chunk_index @ le64 plaintext_offset @ le32 len @ le64 (cc_total c)"

definition final_aad_of :: "content_ctx \<Rightarrow> bytes" where
  "final_aad_of c =
     FINAL_AAD_DOMAIN @ le16 FORMAT_VERSION @ cc_file_uuid c @ cc_header_authenticator c @
     le32 (cc_chunk_count c) @ le64 (cc_total c)"

definition final_plaintext :: "prims \<Rightarrow> content_ctx \<Rightarrow> bytes \<Rightarrow> bytes" where
  "final_plaintext P c plain =
     le32 (cc_chunk_count c) @ le64 (cc_total c) @ sha256 P plain @ replicate 8 0"

text \<open>A header context the code can reach: fixed-size fields, a chunk size in range, the exact
  number of chunks, and an envelope that fits Telegram's limit.\<close>

definition ctx_ok :: "content_ctx \<Rightarrow> bool" where
  "ctx_ok c \<longleftrightarrow> length (cc_content_key c) = 32 \<and> length (cc_nonce_prefix c) = 16 \<and>
     65536 \<le> unat (cc_chunk_size c) \<and> unat (cc_chunk_size c) \<le> 16777216 \<and>
     unat (cc_total c) \<le> 2000000000 \<and>
     unat (cc_chunk_count c) = ceil_div (unat (cc_total c)) (unat (cc_chunk_size c))"

definition seal_content :: "prims \<Rightarrow> content_ctx \<Rightarrow> u64 \<Rightarrow> bytes \<Rightarrow> bytes \<Rightarrow> bytes" where
  "seal_content P c nonce_index aad m =
     (case aead_seal P (cc_content_key c) (record_nonce (cc_nonce_prefix c) nonce_index) aad m of
        None \<Rightarrow> [] | Some ct \<Rightarrow> ct)"

text \<open>Record \<open>i\<close>, which holds the plaintext \<open>m\<close> found at byte \<open>i * chunk_size\<close>.\<close>

definition record_at :: "prims \<Rightarrow> content_ctx \<Rightarrow> nat \<Rightarrow> bytes \<Rightarrow> bytes" where
  "record_at P c i m = seal_content P c (of_nat i)
     (chunk_aad_of c (of_nat i) (of_nat (i * unat (cc_chunk_size c))) (of_nat (length m))) m"

function records_from :: "prims \<Rightarrow> content_ctx \<Rightarrow> nat \<Rightarrow> bytes \<Rightarrow> bytes" where
  "records_from P c i plain =
     (if plain = [] \<or> unat (cc_chunk_size c) = 0 then []
      else record_at P c i (take (unat (cc_chunk_size c)) plain) @
           records_from P c (Suc i) (drop (unat (cc_chunk_size c)) plain))"
  by auto
termination by (relation "measure (\<lambda>(P, c, i, plain). length plain)") auto

declare records_from.simps [simp del]

definition final_record :: "prims \<Rightarrow> content_ctx \<Rightarrow> bytes \<Rightarrow> bytes" where
  "final_record P c plain =
     seal_content P c FINAL_RECORD_NONCE_INDEX (final_aad_of c) (final_plaintext P c plain)"

definition envelope_body :: "prims \<Rightarrow> content_ctx \<Rightarrow> bytes \<Rightarrow> bytes" where
  "envelope_body P c plain = records_from P c 0 plain @ final_record P c plain"

section \<open>Sealing\<close>

lemma records_from_Nil [simp]: "records_from P c i [] = []"
  by (simp add: records_from.simps)

lemma length_record_nonce: "length np = 16 \<Longrightarrow> length (record_nonce np i) = 24"
  by (simp add: record_nonce_def)

lemma seal_content_Some:
  assumes "prims_ok P" and "ctx_ok c" and "length m < 2 ^ 32"
  shows "aead_seal P (cc_content_key c) (record_nonce (cc_nonce_prefix c) n) aad m
      = Some (seal_content P c n aad m)"
    and "length (seal_content P c n aad m) = length m + 16"
proof -
  obtain ct where "aead_seal P (cc_content_key c) (record_nonce (cc_nonce_prefix c) n) aad m = Some ct"
    "length ct = length m + 16"
    using prims_seal_total [OF assms(1) _ _ assms(3)] assms(2) length_record_nonce
    by (metis ctx_ok_def)
  then show "aead_seal P (cc_content_key c) (record_nonce (cc_nonce_prefix c) n) aad m
      = Some (seal_content P c n aad m)"
    "length (seal_content P c n aad m) = length m + 16"
    by (simp_all add: seal_content_def)
qed

lemma open_content_iff:
  assumes "prims_ok P" and "ctx_ok c" and "length m < 2 ^ 32"
  shows "aead_open P (cc_content_key c) (record_nonce (cc_nonce_prefix c) n) aad ct = Some m
    \<longleftrightarrow> ct = seal_content P c n aad m"
  using seal_content_Some(1) [OF assms] by (auto simp: prims_open_iff [OF assms(1)])

lemma length_record_at:
  "prims_ok P \<Longrightarrow> ctx_ok c \<Longrightarrow> length m \<le> unat (cc_chunk_size c) \<Longrightarrow> length (record_at P c i m) = length m + 16"
  by (simp add: record_at_def seal_content_Some ctx_ok_def)

lemma length_final_plaintext: "prims_ok P \<Longrightarrow> length (final_plaintext P c plain) = 52"
  by (simp add: final_plaintext_def prims_sha)

lemma length_final_record:
  "prims_ok P \<Longrightarrow> ctx_ok c \<Longrightarrow> length (final_record P c plain) = 68"
  by (simp add: final_record_def seal_content_Some length_final_plaintext)

section \<open>The record sequence\<close>

lemma records_from_unfold:
  "0 < unat (cc_chunk_size c) \<Longrightarrow> plain \<noteq> [] \<Longrightarrow>
   records_from P c i plain = record_at P c i (take (unat (cc_chunk_size c)) plain) @
     records_from P c (Suc i) (drop (unat (cc_chunk_size c)) plain)"
  by (subst records_from.simps) simp

lemma records_from_one:
  "0 < unat (cc_chunk_size c) \<Longrightarrow> m \<noteq> [] \<Longrightarrow> length m \<le> unat (cc_chunk_size c) \<Longrightarrow>
   records_from P c i m = record_at P c i m"
  by (simp add: records_from_unfold)

text \<open>Appending after a whole number of chunks appends records.\<close>

lemma records_from_append:
  assumes "0 < unat (cc_chunk_size c)" and "length a = n * unat (cc_chunk_size c)"
  shows "records_from P c i (a @ b) = records_from P c i a @ records_from P c (i + n) b"
  using assms(2)
proof (induction n arbitrary: i a)
  case 0
  then show ?case by simp
next
  case (Suc n)
  let ?k = "unat (cc_chunk_size c)"
  have len: "?k \<le> length a" "a \<noteq> []" using Suc.prems assms(1) by auto
  have "length (drop ?k a) = n * ?k" using Suc.prems by simp
  note IH = Suc.IH [OF this, of "Suc i"]
  show ?case
    using len assms(1) IH by (simp add: records_from_unfold [of c "a @ b"] records_from_unfold [of c a])
qed

lemma length_records_from:
  assumes "prims_ok P" and "ctx_ok c"
  shows "length (records_from P c i plain) = length plain + 16 * ceil_div (length plain) (unat (cc_chunk_size c))"
proof (induction plain arbitrary: i rule: length_induct)
  case (1 plain)
  let ?k = "unat (cc_chunk_size c)"
  have k: "0 < ?k" using assms(2) by (simp add: ctx_ok_def)
  show ?case
  proof (cases "plain = []")
    case True
    then show ?thesis by simp
  next
    case False
    have IH: "length (records_from P c (Suc i) (drop ?k plain)) =
        (length plain - ?k) + 16 * ceil_div (length plain - ?k) ?k"
      using 1 [rule_format, of "drop ?k plain"] False k by simp
    have "ceil_div (length plain - ?k) ?k = ceil_div (length plain) ?k - 1"
      using ceil_div_step [OF k, of "length plain" 1] by simp
    moreover have "0 < ceil_div (length plain) ?k"
      using False k by (simp add: less_ceil_div_iff)
    moreover have "length (record_at P c i (take ?k plain)) = min (length plain) ?k + 16"
      using assms by (simp add: length_record_at)
    ultimately show ?thesis
      using IH False k by (simp add: records_from_unfold)
  qed
qed

lemma length_envelope_body:
  assumes "prims_ok P" and "ctx_ok c"
  shows "length (envelope_body P c plain) =
    length plain + 16 * ceil_div (length plain) (unat (cc_chunk_size c)) + 68"
  using assms by (simp add: envelope_body_def length_records_from length_final_record)

end
