(* ===== verification/Decrypt_Reader.thy ===== *)
theory Decrypt_Reader
  imports Envelope_Body
begin

text \<open>
  \<open>crypto/envelope/decrypt_reader.rs\<close>: the incremental decoder of an envelope body. A method that
  takes \<open>&mut self\<close> returns its result together with the state, also when it fails. The hasher is
  the bytes it has been fed. The second half is the interface of a decoder that may be fed in
  fragments, with \<open>feed\<close> as its interpretation.
\<close>

record decrypt_reader =
  dr_header :: envelope_header
  dr_content_key :: bytes
  dr_metadata_plaintext :: bytes
  dr_plaintext_position :: u64
  dr_chunk_index :: u32
  dr_plaintext_hasher :: bytes
  dr_final_record_verified :: bool
  dr_buffer :: bytes

abbreviation dr_core :: "decrypt_reader \<Rightarrow> core_header" where
  "dr_core r \<equiv> eh_core (dr_header r)"

definition DecryptReader_new :: "prims \<Rightarrow> bytes \<Rightarrow> bytes \<Rightarrow> decrypt_reader crypto_result" where
  "DecryptReader_new P header_bytes dek =
     rbind (EnvelopeHeader_parse header_bytes) (\<lambda>header.
     rbind (verify_and_decrypt_metadata P header dek) (\<lambda>metadata_plaintext.
     rbind (derive_domain_key_32 P dek CONTENT_ENC) (\<lambda>content_key.
     Ok \<lparr>dr_header = header, dr_content_key = content_key,
         dr_metadata_plaintext = metadata_plaintext, dr_plaintext_position = 0,
         dr_chunk_index = 0, dr_plaintext_hasher = [], dr_final_record_verified = False,
         dr_buffer = []\<rparr>)))"

definition reader_nonce :: "decrypt_reader \<Rightarrow> u64 \<Rightarrow> bytes" where
  "reader_nonce r index = ch_nonce_prefix (dr_core r) @ le64 index"

definition reader_chunk_aad :: "decrypt_reader \<Rightarrow> u64 \<Rightarrow> u64 \<Rightarrow> u32 \<Rightarrow> bytes" where
  "reader_chunk_aad r chunk_index plaintext_offset len =
     CHUNK_AAD_DOMAIN @ le16 FORMAT_VERSION @ ch_file_uuid (dr_core r) @
     ch_header_authenticator (dr_core r) @ le64 chunk_index @ le64 plaintext_offset @ le32 len @
     le64 (ch_total_plaintext_length (dr_core r))"

definition reader_final_aad :: "decrypt_reader \<Rightarrow> bytes" where
  "reader_final_aad r =
     FINAL_AAD_DOMAIN @ le16 FORMAT_VERSION @ ch_file_uuid (dr_core r) @
     ch_header_authenticator (dr_core r) @ le32 (chunk_count (dr_core r)) @
     le64 (ch_total_plaintext_length (dr_core r))"

definition decrypt_chunk_at :: "prims \<Rightarrow> decrypt_reader \<Rightarrow> u32 \<Rightarrow> bytes \<Rightarrow> bytes crypto_result" where
  "decrypt_chunk_at P r chunk_index ciphertext =
     (if chunk_count (dr_core r) \<le> chunk_index then Err (header_invalid ''Chunk index out of range'')
      else
        let plaintext_offset = (ucast chunk_index :: u64) * ucast (ch_chunk_size (dr_core r));
            plaintext_length =
              unat (min (saturating_sub_u64 (ch_total_plaintext_length (dr_core r)) plaintext_offset)
                     (ucast (ch_chunk_size (dr_core r)))) in
        if length ciphertext \<noteq> plaintext_length + AEAD_TAG_LENGTH then Err truncated
        else if \<not> key_ok P (dr_content_key r) then Err (internal ''Invalid content key'')
        else
          case aead_open P (dr_content_key r) (reader_nonce r (ucast chunk_index))
                 (reader_chunk_aad r (ucast chunk_index) plaintext_offset (of_nat plaintext_length))
                 ciphertext of
            None \<Rightarrow> Err auth_failed
          | Some plaintext \<Rightarrow>
              if length plaintext \<noteq> plaintext_length then Err auth_failed else Ok plaintext)"

definition next_plaintext_length :: "decrypt_reader \<Rightarrow> nat" where
  "next_plaintext_length r =
     unat (min (saturating_sub_u64 (ch_total_plaintext_length (dr_core r)) (dr_plaintext_position r))
            (ucast (ch_chunk_size (dr_core r))))"

definition decrypt_next_chunk ::
  "prims \<Rightarrow> decrypt_reader \<Rightarrow> bytes \<Rightarrow> nat \<Rightarrow> bytes crypto_result \<times> decrypt_reader" where
  "decrypt_next_chunk P r ciphertext plaintext_length =
     (if \<not> key_ok P (dr_content_key r) then (Err (internal ''Invalid content key''), r)
      else
        case aead_open P (dr_content_key r) (reader_nonce r (ucast (dr_chunk_index r)))
               (reader_chunk_aad r (ucast (dr_chunk_index r)) (dr_plaintext_position r)
                  (of_nat plaintext_length)) ciphertext of
          None \<Rightarrow> (Err auth_failed, r)
        | Some plaintext \<Rightarrow>
            if length plaintext \<noteq> plaintext_length then (Err auth_failed, r)
            else (Ok plaintext,
                  r\<lparr>dr_plaintext_hasher := dr_plaintext_hasher r @ plaintext,
                    dr_plaintext_position := dr_plaintext_position r + of_nat (length plaintext),
                    dr_chunk_index := dr_chunk_index r + 1\<rparr>))"

definition verify_final_record ::
  "prims \<Rightarrow> decrypt_reader \<Rightarrow> bytes \<Rightarrow> unit crypto_result \<times> decrypt_reader" where
  "verify_final_record P r ciphertext =
     (if \<not> key_ok P (dr_content_key r) then (Err (internal ''Invalid content key''), r)
      else
        case aead_open P (dr_content_key r) (reader_nonce r FINAL_RECORD_NONCE_INDEX)
               (reader_final_aad r) ciphertext of
          None \<Rightarrow> (Err auth_failed, r)
        | Some plaintext \<Rightarrow>
            if length plaintext \<noteq> FINAL_RECORD_PLAINTEXT_SIZE then (Err auth_failed, r)
            else
              let recorded_chunk_count = from_le32 (slice plaintext 0 4);
                  recorded_length = from_le64 (slice plaintext 4 12) in
              if recorded_chunk_count \<noteq> chunk_count (dr_core r)
                \<or> recorded_length \<noteq> ch_total_plaintext_length (dr_core r)
                \<or> dr_chunk_index r \<noteq> recorded_chunk_count
                \<or> dr_plaintext_position r \<noteq> recorded_length
                \<or> (\<exists>b\<in>set (slice plaintext 44 52). b \<noteq> 0)
              then (Err auth_failed, r)
              else
                let expected_digest = sha256 P (dr_plaintext_hasher r) in
                if slice plaintext 12 44 \<noteq> expected_digest then (Err auth_failed, r)
                else (Ok (), r\<lparr>dr_final_record_verified := True\<rparr>))"

lemma decrypt_next_chunk_buffer:
  "decrypt_next_chunk P r ct n = (res, r') \<Longrightarrow> dr_buffer r' = dr_buffer r \<and> dr_header r' = dr_header r
    \<and> dr_content_key r' = dr_content_key r \<and> dr_final_record_verified r' = dr_final_record_verified r"
  by (auto simp: decrypt_next_chunk_def split: if_splits option.splits)

text \<open>The \<open>while\<close> loop of \<open>feed\<close>: \<open>Inl\<close> an error, \<open>Inr (complete, out)\<close> the plaintext so far and
  whether every data record has been read (otherwise \<open>feed\<close> returns early).\<close>

function feed_loop ::
  "prims \<Rightarrow> decrypt_reader \<Rightarrow> bytes \<Rightarrow> (bool \<times> bytes) crypto_result \<times> decrypt_reader" where
  "feed_loop P r plaintext_output =
     (if dr_chunk_index r < chunk_count (dr_core r) then
        case checked_add_usize (next_plaintext_length r) AEAD_TAG_LENGTH of
          None \<Rightarrow> (Err size_overflow, r)
        | Some ciphertext_length \<Rightarrow>
            if length (dr_buffer r) < ciphertext_length then (Ok (False, plaintext_output), r)
            else
              let rec = take ciphertext_length (dr_buffer r) in
              (case decrypt_next_chunk P (r\<lparr>dr_buffer := drop ciphertext_length (dr_buffer r)\<rparr>)
                      rec (next_plaintext_length r) of
                 (Inl e, r') \<Rightarrow> (Err e, r')
               | (Inr plaintext, r') \<Rightarrow> feed_loop P r' (plaintext_output @ plaintext))
      else (Ok (True, plaintext_output), r))"
  by auto

termination
  by (relation "measure (\<lambda>(P, r, out). length (dr_buffer r))")
    (auto simp: policy_simps dest!: decrypt_next_chunk_buffer [OF sym])

declare feed_loop.simps [simp del]

text \<open>What follows the loop, once every data record has been read.\<close>

definition feed_tail :: "prims \<Rightarrow> decrypt_reader \<Rightarrow> bytes \<Rightarrow> bytes crypto_result \<times> decrypt_reader" where
  "feed_tail P r plaintext_output =
     (if FINAL_RECORD_CIPHERTEXT_SIZE \<le> length (dr_buffer r) then
        let final_rec = take FINAL_RECORD_CIPHERTEXT_SIZE (dr_buffer r) in
        (case verify_final_record P
                (r\<lparr>dr_buffer := drop FINAL_RECORD_CIPHERTEXT_SIZE (dr_buffer r)\<rparr>) final_rec of
           (Inl e, r') \<Rightarrow> (Err e, r')
         | (Inr _, r') \<Rightarrow>
             if dr_buffer r' \<noteq> []
             then (Err (header_invalid ''Trailing bytes after final record''), r')
             else (Ok plaintext_output, r'))
      else (Ok plaintext_output, r))"

definition feed :: "prims \<Rightarrow> decrypt_reader \<Rightarrow> bytes \<Rightarrow> bytes crypto_result \<times> decrypt_reader" where
  "feed P r ciphertext_body =
     (if dr_final_record_verified r then
        if ciphertext_body = [] then (Ok [], r)
        else (Err (header_invalid ''Trailing bytes after final record''), r)
      else
        case feed_loop P (r\<lparr>dr_buffer := dr_buffer r @ ciphertext_body\<rparr>) [] of
          (Inl e, r') \<Rightarrow> (Err e, r')
        | (Inr (complete, out), r') \<Rightarrow> if complete then feed_tail P r' out else (Ok out, r'))"

definition finish :: "decrypt_reader \<Rightarrow> unit crypto_result" where
  "finish r =
     (if \<not> dr_final_record_verified r \<or> dr_buffer r \<noteq> [] then Err truncated else Ok ())"

section \<open>Decoders that may be fed in fragments\<close>

text \<open>What a caller relies on when it feeds a decoder whatever the network delivers: feeding two
  fragments succeeds exactly when feeding their concatenation does, with the same output and the
  same final state. \<open>settled\<close> is the state between two calls.\<close>

locale fragment_decoder =
  fixes feed :: "'s \<Rightarrow> bytes \<Rightarrow> ('e + bytes) \<times> 's" and settled :: "'s \<Rightarrow> bool"
  assumes feed_nil: "settled s \<Longrightarrow> feed s [] = (Ok [], s)"
    and feed_settled: "settled s \<Longrightarrow> feed s a = (Ok out, s') \<Longrightarrow> settled s'"
    and feed_append: "settled s \<Longrightarrow> feed s (a @ b) = (Ok out, s') \<longleftrightarrow>
      (\<exists>x s1 y. feed s a = (Ok x, s1) \<and> feed s1 b = (Ok y, s') \<and> out = x @ y)"
begin

fun feed_all :: "'s \<Rightarrow> bytes list \<Rightarrow> ('e + bytes) \<times> 's" where
  "feed_all s [] = (Ok [], s)"
| "feed_all s (a # as) =
     (case feed s a of
        (Inl e, s') \<Rightarrow> (Err e, s')
      | (Inr x, s') \<Rightarrow>
          (case feed_all s' as of
             (Inl e, s'') \<Rightarrow> (Err e, s'')
           | (Inr y, s'') \<Rightarrow> (Ok (x @ y), s'')))"

lemma feed_all_Cons_Ok:
  "feed_all s (a # as) = (Ok out, s') \<longleftrightarrow>
     (\<exists>x s1 y. feed s a = (Ok x, s1) \<and> feed_all s1 as = (Ok y, s') \<and> out = x @ y)"
  by (auto split: prod.splits sum.splits)

theorem fragments_irrelevant:
  "settled s \<Longrightarrow> feed_all s as = (Ok out, s') \<longleftrightarrow> feed s (concat as) = (Ok out, s')"
proof (induction as arbitrary: s out)
  case Nil
  then show ?case by (auto simp: feed_nil)
next
  case (Cons a as)
  show ?case
    unfolding feed_all_Cons_Ok concat.simps feed_append [OF Cons.prems]
    using Cons.IH feed_settled [OF Cons.prems] by blast
qed

lemma prefix_accepted:
  "settled s \<Longrightarrow> feed s (a @ b) = (Ok out, s') \<Longrightarrow> \<exists>x s1. feed s a = (Ok x, s1) \<and> take (length x) out = x"
  by (auto simp: feed_append)

end

section \<open>The loop and the buffer\<close>

abbreviation buffered :: "decrypt_reader \<Rightarrow> bytes \<Rightarrow> decrypt_reader" where
  "buffered r x \<equiv> r\<lparr>dr_buffer := dr_buffer r @ x\<rparr>"

lemma decrypt_next_chunk_frame:
  "decrypt_next_chunk P (r\<lparr>dr_buffer := B\<rparr>) ct n =
     (fst (decrypt_next_chunk P r ct n), (snd (decrypt_next_chunk P r ct n))\<lparr>dr_buffer := B\<rparr>)"
  by (simp add: decrypt_next_chunk_def reader_nonce_def reader_chunk_aad_def split: option.split)

lemma verify_final_record_frame:
  "verify_final_record P (r\<lparr>dr_buffer := B\<rparr>) ct =
     (fst (verify_final_record P r ct), (snd (verify_final_record P r ct))\<lparr>dr_buffer := B\<rparr>)"
  by (simp add: verify_final_record_def reader_nonce_def reader_final_aad_def Let_def split: option.split)

lemma verify_final_record_state:
  "verify_final_record P r ct = (res, r') \<Longrightarrow>
     dr_buffer r' = dr_buffer r \<and> (res = Ok () \<longrightarrow> r' = r\<lparr>dr_final_record_verified := True\<rparr>)"
  by (auto simp: verify_final_record_def Let_def split: if_splits option.splits)

lemma next_plaintext_length_buffer [simp]:
  "next_plaintext_length (r\<lparr>dr_buffer := B\<rparr>) = next_plaintext_length r"
  by (simp add: next_plaintext_length_def)

lemma next_plaintext_length_less: "next_plaintext_length r < 2 ^ 32"
proof -
  have "next_plaintext_length r \<le> unat (ucast (ch_chunk_size (dr_core r)) :: u64)"
    unfolding next_plaintext_length_def by (meson min.cobounded2 word_le_nat_alt)
  then show ?thesis using unat_u32_less [of "ch_chunk_size (dr_core r)"] by (simp del: unat_u32_less)
qed

abbreviation record_length :: "decrypt_reader \<Rightarrow> nat" where
  "record_length r \<equiv> next_plaintext_length r + 16"

text \<open>The three ways an iteration can go; the checked addition never fails.\<close>

lemma loop_complete:
  "\<not> dr_chunk_index r < chunk_count (dr_core r) \<Longrightarrow> feed_loop P r out = (Ok (True, out), r)"
  by (subst feed_loop.simps) simp

lemma loop_wait:
  "dr_chunk_index r < chunk_count (dr_core r) \<Longrightarrow> length (dr_buffer r) < record_length r \<Longrightarrow>
   feed_loop P r out = (Ok (False, out), r)"
  using next_plaintext_length_less [of r]
  by (subst feed_loop.simps) (simp add: checked_add_usize_def policy_simps usize_limit_def)

lemma loop_record:
  "dr_chunk_index r < chunk_count (dr_core r) \<Longrightarrow> record_length r \<le> length (dr_buffer r) \<Longrightarrow>
   feed_loop P r out =
     (case decrypt_next_chunk P (r\<lparr>dr_buffer := drop (record_length r) (dr_buffer r)\<rparr>)
             (take (record_length r) (dr_buffer r)) (next_plaintext_length r) of
        (Inl e, r') \<Rightarrow> (Err e, r')
      | (Inr plaintext, r') \<Rightarrow> feed_loop P r' (out @ plaintext))"
  using next_plaintext_length_less [of r]
  by (subst feed_loop.simps) (simp add: checked_add_usize_def policy_simps usize_limit_def Let_def)

lemma loop_induct [case_names complete wait step]:
  assumes "\<And>r out. \<not> dr_chunk_index r < chunk_count (dr_core r) \<Longrightarrow> Q r out"
    and "\<And>r out. dr_chunk_index r < chunk_count (dr_core r) \<Longrightarrow> length (dr_buffer r) < record_length r \<Longrightarrow> Q r out"
    and "\<And>r out. dr_chunk_index r < chunk_count (dr_core r) \<Longrightarrow> record_length r \<le> length (dr_buffer r) \<Longrightarrow>
      (\<And>r1 out1. length (dr_buffer r1) < length (dr_buffer r) \<Longrightarrow> Q r1 out1) \<Longrightarrow> Q r out"
  shows "Q r out"
proof (induction "length (dr_buffer r)" arbitrary: r out rule: less_induct)
  case less
  consider "\<not> dr_chunk_index r < chunk_count (dr_core r)"
    | "dr_chunk_index r < chunk_count (dr_core r)" "length (dr_buffer r) < record_length r"
    | "dr_chunk_index r < chunk_count (dr_core r)" "record_length r \<le> length (dr_buffer r)"
    by fastforce
  then show ?case using assms(1,2) assms(3) [OF _ _ less] by cases blast+
qed

lemma loop_frame:
  "feed_loop P r out = (res, r') \<Longrightarrow> dr_final_record_verified r' = dr_final_record_verified r
    \<and> dr_header r' = dr_header r \<and> dr_content_key r' = dr_content_key r"
proof (induction r out rule: loop_induct)
  case (step r out)
  obtain d r1 where d: "decrypt_next_chunk P (r\<lparr>dr_buffer := drop (record_length r) (dr_buffer r)\<rparr>)
        (take (record_length r) (dr_buffer r)) (next_plaintext_length r) = (d, r1)" by fastforce
  note F = decrypt_next_chunk_buffer [OF d]
  show ?case
  proof (cases d)
    case (Inl e)
    then show ?thesis using step.prems d F loop_record [OF step.hyps(1,2)] by simp
  next
    case (Inr pt)
    then show ?thesis
      using step.prems d F loop_record [OF step.hyps(1,2)] step.hyps(2) step.IH [of r1 "out @ pt"] by simp
  qed
qed (simp_all add: loop_complete loop_wait)

lemma loop_acc:
  "feed_loop P r out = (case feed_loop P r [] of
     (Inl e, r') \<Rightarrow> (Err e, r') | (Inr (b, x), r') \<Rightarrow> (Ok (b, out @ x), r'))"
proof (induction r out rule: loop_induct)
  case (step r out)
  obtain d r1 where d: "decrypt_next_chunk P (r\<lparr>dr_buffer := drop (record_length r) (dr_buffer r)\<rparr>)
        (take (record_length r) (dr_buffer r)) (next_plaintext_length r) = (d, r1)" by fastforce
  note F = decrypt_next_chunk_buffer [OF d]
  show ?case
  proof (cases d)
    case (Inl e)
    then show ?thesis using d by (simp add: loop_record [OF step.hyps(1,2)])
  next
    case (Inr pt)
    have less: "length (dr_buffer r1) < length (dr_buffer r)" using F step.hyps(2) by simp
    show ?thesis
      using d Inr step.IH [OF less, of "out @ pt"] step.IH [OF less, of pt]
      by (simp add: loop_record [OF step.hyps(1,2)] split: prod.splits sum.splits)
  qed
qed (simp_all add: loop_complete loop_wait)

text \<open>More bytes after the buffer: the loop first does what it would have done without them.\<close>

lemma loop_more:
  "feed_loop P (buffered r x) out = (case feed_loop P r out of
     (Inl e, r') \<Rightarrow> (Err e, buffered r' x) | (Inr (b, o'), r') \<Rightarrow> feed_loop P (buffered r' x) o')"
proof (induction r out rule: loop_induct)
  case (step r out)
  obtain d r1 where d: "decrypt_next_chunk P (r\<lparr>dr_buffer := drop (record_length r) (dr_buffer r)\<rparr>)
        (take (record_length r) (dr_buffer r)) (next_plaintext_length r) = (d, r1)" by fastforce
  note F = decrypt_next_chunk_buffer [OF d]
  have "decrypt_next_chunk P (r\<lparr>dr_buffer := drop (record_length r) (dr_buffer r) @ x\<rparr>)
        (take (record_length r) (dr_buffer r)) (next_plaintext_length r) = (d, buffered r1 x)"
    using decrypt_next_chunk_frame [where P = P and r = "r\<lparr>dr_buffer := drop (record_length r) (dr_buffer r)\<rparr>"
        and B = "drop (record_length r) (dr_buffer r) @ x"] d F by simp
  then have m: "feed_loop P (buffered r x) out = (case d of
      Inl e \<Rightarrow> (Err e, buffered r1 x) | Inr pt \<Rightarrow> feed_loop P (buffered r1 x) (out @ pt))"
    using loop_record [of "buffered r x" P out] step.hyps(1,2) by simp
  have less: "length (dr_buffer r1) < length (dr_buffer r)" using F step.hyps(2) by simp
  show ?case
    using d m step.IH [OF less] by (cases d) (simp_all add: loop_record [OF step.hyps(1,2)])
qed (simp_all add: loop_complete loop_wait)

lemma loop_stable:
  "feed_loop P r out = (Ok (b, o'), r') \<Longrightarrow> feed_loop P r' x = (Ok (b, x), r')"
proof (induction r out rule: loop_induct)
  case (step r out)
  obtain d r1 where d: "decrypt_next_chunk P (r\<lparr>dr_buffer := drop (record_length r) (dr_buffer r)\<rparr>)
        (take (record_length r) (dr_buffer r)) (next_plaintext_length r) = (d, r1)" by fastforce
  note F = decrypt_next_chunk_buffer [OF d]
  have less: "length (dr_buffer r1) < length (dr_buffer r)" using F step.hyps(2) by simp
  show ?case
    using d step.prems step.IH [OF less] loop_record [OF step.hyps(1,2), of P out] by (cases d) simp_all
qed (auto simp: loop_complete loop_wait)

section \<open>The decoder is fragment invariant\<close>

definition settled :: "prims \<Rightarrow> decrypt_reader \<Rightarrow> bool" where
  "settled P r \<longleftrightarrow> feed P r [] = (Ok [], r)"

lemma feed_settled:
  assumes "feed P r a = (Ok out, r')"
  shows "settled P r'"
proof (cases "dr_final_record_verified r")
  case True
  then have "r' = r" using assms by (auto simp: feed_def split: if_splits)
  then show ?thesis using True by (simp add: settled_def feed_def)
next
  case False
  obtain b o1 r1 where l: "feed_loop P (buffered r a) [] = (Ok (b, o1), r1)"
    and t: "(if b then feed_tail P r1 o1 else (Ok o1, r1)) = (Ok out, r')"
    using assms False by (auto simp: feed_def split: sum.splits prod.splits)
  have v: "\<not> dr_final_record_verified r1" using loop_frame [OF l] False by simp
  have st: "feed_loop P r1 [] = (Ok (b, []), r1)" by (rule loop_stable [OF l])
  show ?thesis
  proof (cases "b \<and> 68 \<le> length (dr_buffer r1)")
    case True
    then have "dr_final_record_verified r'"
      using t by (auto simp: feed_tail_def Let_def policy_simps split: prod.splits sum.splits if_splits
          dest!: verify_final_record_state)
    then show ?thesis by (simp add: settled_def feed_def)
  next
    case False
    then have "r' = r1" using t by (auto simp: feed_tail_def policy_simps split: if_splits)
    then show ?thesis using v st False by (auto simp: settled_def feed_def feed_tail_def policy_simps)
  qed
qed

lemma loop_True:
  "feed_loop P r out = (Ok (True, o'), r') \<Longrightarrow> \<not> dr_chunk_index r' < chunk_count (dr_core r')"
proof (induction r out rule: loop_induct)
  case (step r out)
  obtain d r1 where d: "decrypt_next_chunk P (r\<lparr>dr_buffer := drop (record_length r) (dr_buffer r)\<rparr>)
        (take (record_length r) (dr_buffer r)) (next_plaintext_length r) = (d, r1)" by fastforce
  note F = decrypt_next_chunk_buffer [OF d]
  have less: "length (dr_buffer r1) < length (dr_buffer r)" using F step.hyps(2) by simp
  show ?case
    using d step.prems step.IH [OF less] loop_record [OF step.hyps(1,2), of P out] by (cases d) simp_all
qed (auto simp: loop_complete loop_wait)

lemma feed_tail_Ok: "feed_tail P r o1 = (Ok out, r') \<longleftrightarrow> feed_tail P r [] = (Ok [], r') \<and> out = o1"
  by (auto simp: feed_tail_def Let_def split: prod.splits sum.splits if_splits)

lemma feed_unverified:
  "\<not> dr_final_record_verified r \<Longrightarrow> feed_loop P (buffered r a) [] = (Ok (c, o1), r1) \<Longrightarrow>
   feed P r a = (Ok out, r') \<longleftrightarrow>
     out = o1 \<and> (if c then feed_tail P r1 [] = (Ok [], r') else r1 = r')"
  using feed_tail_Ok [of P r1 o1 out r'] by (auto simp: feed_def)

lemma feed_unverified_Err:
  "\<not> dr_final_record_verified r \<Longrightarrow> feed_loop P (buffered r a) [] = (Err e, r1) \<Longrightarrow>
   feed P r a = (Err e, r1)"
  by (simp add: feed_def)

lemma feed_tail_more:
  assumes "68 \<le> length (dr_buffer r)"
  shows "feed_tail P (buffered r b) [] = (Ok [], r') \<longleftrightarrow>
    (\<exists>r1. feed_tail P r [] = (Ok [], r1) \<and> b = [] \<and> r' = r1)"
proof -
  let ?t = "take 68 (dr_buffer r)" and ?d = "drop 68 (dr_buffer r)"
  obtain res r2 where v: "verify_final_record P (r\<lparr>dr_buffer := ?d\<rparr>) ?t = (res, r2)" by fastforce
  have v2: "verify_final_record P (r\<lparr>dr_buffer := ?d @ b\<rparr>) ?t = (res, buffered r2 b)"
    using verify_final_record_frame [where P = P and r = "r\<lparr>dr_buffer := ?d\<rparr>" and B = "?d @ b" and ct = ?t]
      v verify_final_record_state [OF v] by simp
  show ?thesis
    using assms v v2
    by (cases res) (auto simp: feed_tail_def policy_simps Let_def)
qed

lemma feed_tail_verified:
  "feed_tail P r out = (Ok out, r1) \<Longrightarrow> 68 \<le> length (dr_buffer r) \<Longrightarrow> dr_final_record_verified r1"
  by (auto simp: feed_tail_def Let_def policy_simps split: prod.splits sum.splits if_splits
      dest!: verify_final_record_state)

lemma feed_append:
  "feed P r (a @ b) = (Ok out, r') \<longleftrightarrow>
     (\<exists>x r1 y. feed P r a = (Ok x, r1) \<and> feed P r1 b = (Ok y, r') \<and> out = x @ y)"
proof (cases "dr_final_record_verified r")
  case True
  then show ?thesis by (auto simp: feed_def split: if_splits)
next
  case False
  obtain res r1 where l: "feed_loop P (buffered r a) [] = (res, r1)" by fastforce
  have v: "\<not> dr_final_record_verified r1" using loop_frame [OF l] False by simp
  have m: "feed_loop P (buffered r (a @ b)) [] = (case res of
      Inl e \<Rightarrow> (Err e, buffered r1 b) | Inr (c, o') \<Rightarrow> feed_loop P (buffered r1 b) o')"
    using loop_more [of P "buffered r a" b "[]"] l by simp
  show ?thesis
  proof (cases res)
    case (Inl e)
    then show ?thesis using l m False by (simp add: feed_unverified_Err)
  next
    case (Inr co)
    obtain c o1 where co: "res = Ok (c, o1)" using Inr by (cases co) auto
    note fa = feed_unverified [OF False l [unfolded co]]
    show ?thesis
    proof (cases "c \<and> 68 \<le> length (dr_buffer r1)")
      case nt: False
      have fa': "feed P r a = (Ok x, r3) \<longleftrightarrow> x = o1 \<and> r3 = r1" for x r3
        using fa nt by (auto simp: feed_tail_def policy_simps)
      obtain res2 r2 where l2: "feed_loop P (buffered r1 b) [] = (res2, r2)" by fastforce
      have l3: "feed_loop P (buffered r (a @ b)) [] = (case res2 of
          Inl e \<Rightarrow> (Err e, r2) | Inr (c2, y) \<Rightarrow> (Ok (c2, o1 @ y), r2))"
        using m co loop_acc [of P "buffered r1 b" o1] l2 by (auto split: sum.splits)
      show ?thesis
      proof (cases res2)
        case (Inl e)
        then show ?thesis using l2 l3 v False fa' by (auto simp: feed_unverified_Err)
      next
        case (Inr cy)
        obtain c2 y2 where cy: "res2 = Ok (c2, y2)" using Inr by (cases cy) auto
        show ?thesis
          using feed_unverified [OF v l2 [unfolded cy]] feed_unverified [OF False, of P "a @ b" c2 "o1 @ y2" r2]
            l3 cy fa' by auto
      qed
    next
      case tail: True
      have "\<not> dr_chunk_index r1 < chunk_count (dr_core r1)"
        using loop_True l co tail by simp
      then have "feed_loop P (buffered r (a @ b)) [] = (Ok (True, o1), buffered r1 b)"
        using m co loop_complete [of "buffered r1 b"] by simp
      note fab = feed_unverified [OF False this, of out r']
      have "feed P r3 b = (Ok y, r') \<longleftrightarrow> b = [] \<and> y = [] \<and> r3 = r'" if "feed_tail P r1 [] = (Ok [], r3)" for r3 y
        using feed_tail_verified [OF that] tail by (auto simp: feed_def)
      then show ?thesis using fab fa tail feed_tail_more [of r1 P b r'] by auto
    qed
  qed
qed

interpretation decoder: fragment_decoder "feed P" "settled P" for P
  by unfold_locales (simp_all add: settled_def feed_append feed_settled [unfolded settled_def])

end
