(* ===== verification/Encrypt_Reader.thy ===== *)
theory Encrypt_Reader
  imports Envelope_Body
begin

text \<open>
  \<open>crypto/envelope/encrypt_reader.rs\<close>: the encryption session and the \<open>AsyncRead\<close> adapter that
  turns a plaintext source into an envelope.

  The plaintext source is the type parameter \<open>R: AsyncRead\<close> of the code, so it is a parameter
  here: a function \<open>inner\<close> that, polled with a buffer capacity in a state, returns an outcome and
  its next state. What the code relies on is \<open>source_ok\<close>. The SHA-256 hasher is the bytes it has
  been fed. \<open>poll_read\<close> is the source's loop: \<open>poll_step\<close> is one iteration (\<open>None\<close> continues),
  and the recursion is shown to end for every source and every reader state.
\<close>

section \<open>The session\<close>

record encryption_session =
  es_file_uuid :: bytes
  es_dek :: bytes
  es_content_key :: bytes
  es_nonce_prefix :: bytes
  es_chunk_size :: u32
  es_total_plaintext_length :: u64
  es_chunk_count :: u32
  es_header_bytes :: bytes
  es_metadata_ct_length :: nat
  es_total_ciphertext_length :: u64
  es_header_authenticator :: bytes

definition new_with_keys ::
  "prims \<Rightarrow> u64 \<Rightarrow> key_slot_entry list \<Rightarrow> bytes \<Rightarrow> bytes \<Rightarrow> bytes \<Rightarrow> bytes \<Rightarrow>
   encryption_session crypto_result" where
  "new_with_keys P plaintext_length key_slots metadata_plaintext dek file_uuid nonce_prefix =
     (let chunk_size = DEFAULT_CHUNK_SIZE in
      rbind (EnvelopeHeader_build P file_uuid chunk_size key_slots metadata_plaintext
               plaintext_length nonce_prefix dek) (\<lambda>header_bytes.
      rbind (EnvelopeHeader_parse header_bytes) (\<lambda>parsed.
      rbind (verify_and_decrypt_metadata P parsed dek) (\<lambda>_.
      rbind (calculate_ciphertext_length plaintext_length chunk_size (of_nat (length header_bytes)))
        (\<lambda>total_ciphertext_length.
      rbind (derive_domain_key_32 P dek CONTENT_ENC) (\<lambda>content_key.
      Ok \<lparr>es_file_uuid = file_uuid, es_dek = dek, es_content_key = content_key,
          es_nonce_prefix = nonce_prefix, es_chunk_size = chunk_size,
          es_total_plaintext_length = plaintext_length,
          es_chunk_count = calculate_chunk_count plaintext_length chunk_size,
          es_header_bytes = header_bytes,
          es_metadata_ct_length = unat (ch_encrypted_metadata_length (eh_core parsed)),
          es_total_ciphertext_length = total_ciphertext_length,
          es_header_authenticator = ch_header_authenticator (eh_core parsed)\<rparr>))))))"

definition from_header :: "prims \<Rightarrow> bytes \<Rightarrow> bytes \<Rightarrow> encryption_session crypto_result" where
  "from_header P header_bytes dek =
     rbind (EnvelopeHeader_parse header_bytes) (\<lambda>parsed.
     rbind (verify_and_decrypt_metadata P parsed dek) (\<lambda>_.
     let chunk_size = ch_chunk_size (eh_core parsed) in
     rbind (validate_chunk_size chunk_size) (\<lambda>_.
     let plaintext_length = ch_total_plaintext_length (eh_core parsed) in
     rbind (calculate_ciphertext_length plaintext_length chunk_size (of_nat (length header_bytes)))
       (\<lambda>total_ciphertext_length.
     rbind (derive_domain_key_32 P dek CONTENT_ENC) (\<lambda>content_key.
     Ok \<lparr>es_file_uuid = ch_file_uuid (eh_core parsed), es_dek = dek, es_content_key = content_key,
         es_nonce_prefix = ch_nonce_prefix (eh_core parsed), es_chunk_size = chunk_size,
         es_total_plaintext_length = plaintext_length,
         es_chunk_count = calculate_chunk_count plaintext_length chunk_size,
         es_header_bytes = header_bytes,
         es_metadata_ct_length = unat (ch_encrypted_metadata_length (eh_core parsed)),
         es_total_ciphertext_length = total_ciphertext_length,
         es_header_authenticator = ch_header_authenticator (eh_core parsed)\<rparr>)))))"

definition session_nonce :: "encryption_session \<Rightarrow> u64 \<Rightarrow> bytes" where
  "session_nonce s index = es_nonce_prefix s @ le64 index"

definition session_chunk_aad :: "encryption_session \<Rightarrow> u64 \<Rightarrow> u64 \<Rightarrow> u32 \<Rightarrow> bytes" where
  "session_chunk_aad s chunk_index plaintext_offset len =
     CHUNK_AAD_DOMAIN @ le16 FORMAT_VERSION @ es_file_uuid s @ es_header_authenticator s @
     le64 chunk_index @ le64 plaintext_offset @ le32 len @ le64 (es_total_plaintext_length s)"

definition session_final_aad :: "encryption_session \<Rightarrow> bytes" where
  "session_final_aad s =
     FINAL_AAD_DOMAIN @ le16 FORMAT_VERSION @ es_file_uuid s @ es_header_authenticator s @
     le32 (es_chunk_count s) @ le64 (es_total_plaintext_length s)"

section \<open>The reader\<close>

datatype io_kind = UnexpectedEof | InvalidData | Other

datatype io_error = Io_Error io_kind string

datatype 'a poll = Pending | Ready 'a

type_synonym 'r source = "'r \<Rightarrow> nat \<Rightarrow> (io_error + bytes) poll \<times> 'r"

text \<open>A \<open>ReadBuf\<close> of capacity \<open>cap\<close> never holds more than \<open>cap\<close> bytes, whatever the source
  does.\<close>

definition poll_inner :: "'r source \<Rightarrow> 'r \<Rightarrow> nat \<Rightarrow> (io_error + bytes) poll \<times> 'r" where
  "poll_inner inner r cap =
     (case inner r cap of
        (Ready (Inr bs), r') \<Rightarrow> (Ready (Inr (take cap bs)), r')
      | other \<Rightarrow> other)"

datatype encrypt_state = EmittingHeader | ReadingChunk | CheckingEof | EmittingFinalRecord | Done

record 'r encrypting_reader =
  er_inner :: 'r
  er_session :: encryption_session
  er_state :: encrypt_state
  er_output :: bytes
  er_output_position :: nat
  er_plaintext_chunk :: bytes
  er_plaintext_chunk_filled :: nat
  er_chunk_index :: u64
  er_plaintext_read :: u64
  er_plaintext_hasher :: bytes
  er_ciphertext_emitted :: u64

definition EncryptingReader_new :: "'r \<Rightarrow> encryption_session \<Rightarrow> 'r encrypting_reader" where
  "EncryptingReader_new inner session =
     \<lparr>er_inner = inner, er_session = session, er_state = EmittingHeader, er_output = [],
      er_output_position = 0, er_plaintext_chunk = [], er_plaintext_chunk_filled = 0,
      er_chunk_index = 0, er_plaintext_read = 0, er_plaintext_hasher = [],
      er_ciphertext_emitted = 0\<rparr>"

definition queue_output :: "'r encrypting_reader \<Rightarrow> bytes \<Rightarrow> 'r encrypting_reader" where
  "queue_output er bs =
     er\<lparr>er_ciphertext_emitted := saturating_add_u64 (er_ciphertext_emitted er) (of_nat (length bs)),
        er_output := bs, er_output_position := 0\<rparr>"

definition encrypt_ready_chunk ::
  "prims \<Rightarrow> 'r encrypting_reader \<Rightarrow> (io_error + unit) \<times> 'r encrypting_reader" where
  "encrypt_ready_chunk P er =
     (let s = er_session er; len = er_plaintext_chunk_filled er;
          msg = take len (er_plaintext_chunk er) in
      if \<not> key_ok P (es_content_key s) then (Err (Io_Error Other ''Invalid content key''), er)
      else
        let er1 = er\<lparr>er_plaintext_hasher := er_plaintext_hasher er @ msg\<rparr>;
            aad = session_chunk_aad s (er_chunk_index er) (er_plaintext_read er) (of_nat len) in
        case aead_seal P (es_content_key s) (session_nonce s (er_chunk_index er)) aad msg of
          None \<Rightarrow> (Err (Io_Error Other ''Content encryption failed''), er1)
        | Some ciphertext \<Rightarrow>
            (Ok (), queue_output
               (er1\<lparr>er_plaintext_read := er_plaintext_read er + of_nat len,
                    er_chunk_index := er_chunk_index er + 1,
                    er_plaintext_chunk := [], er_plaintext_chunk_filled := 0\<rparr>) ciphertext))"

definition build_final_record :: "prims \<Rightarrow> 'r encrypting_reader \<Rightarrow> io_error + bytes" where
  "build_final_record P er =
     (let s = er_session er;
          digest = sha256 P (er_plaintext_hasher er);
          plaintext = le32 (es_chunk_count s) @ le64 (es_total_plaintext_length s) @ digest @ replicate 8 0 in
      if \<not> key_ok P (es_content_key s) then Err (Io_Error Other ''Invalid content key'')
      else ok_or (aead_seal P (es_content_key s) (session_nonce s FINAL_RECORD_NONCE_INDEX)
                    (session_final_aad s) plaintext)
             (Io_Error Other ''Final record encryption failed''))"

text \<open>The buffer prepared for the next chunk when none is under way.\<close>

definition prepare_chunk :: "'r encrypting_reader \<Rightarrow> 'r encrypting_reader" where
  "prepare_chunk er =
     (if er_plaintext_chunk er = [] then
        let remaining = es_total_plaintext_length (er_session er) - er_plaintext_read er;
            target = unat (min remaining (ucast (es_chunk_size (er_session er)))) in
        er\<lparr>er_plaintext_chunk := replicate target 0, er_plaintext_chunk_filled := 0\<rparr>
      else er)"

text \<open>The source writes its bytes into the buffer from the filled position on.\<close>

definition fill_chunk :: "'r encrypting_reader \<Rightarrow> bytes \<Rightarrow> 'r encrypting_reader" where
  "fill_chunk er bs =
     (let start = er_plaintext_chunk_filled er in
      er\<lparr>er_plaintext_chunk := take start (er_plaintext_chunk er) @ bs @
            drop (start + length bs) (er_plaintext_chunk er),
         er_plaintext_chunk_filled := start + length bs\<rparr>)"

text \<open>What the \<open>ReadingChunk\<close> arm does with the bytes the source delivered.\<close>

definition accept_plaintext ::
  "prims \<Rightarrow> 'r encrypting_reader \<Rightarrow> bytes \<Rightarrow> 'r encrypting_reader \<times> (io_error + bytes) poll option" where
  "accept_plaintext P er bs =
     (if bs = []
      then (er, Some (Ready (Err (Io_Error UnexpectedEof
              ''Plaintext source became shorter during encryption''))))
      else
        let er1 = fill_chunk er bs in
        if er_plaintext_chunk_filled er1 = length (er_plaintext_chunk er1)
        then (case encrypt_ready_chunk P er1 of
                (Inl e, er2) \<Rightarrow> (er2, Some (Ready (Err e)))
              | (Inr _, er2) \<Rightarrow> (er2, None))
        else (er1, None))"

definition poll_step ::
  "prims \<Rightarrow> 'r source \<Rightarrow> nat \<Rightarrow> 'r encrypting_reader \<Rightarrow>
   'r encrypting_reader \<times> (io_error + bytes) poll option" where
  "poll_step P inner remaining er =
     (if er_output_position er < length (er_output er) then
        let available = length (er_output er) - er_output_position er;
            count = min available remaining;
            out = slice (er_output er) (er_output_position er) (er_output_position er + count);
            er1 = er\<lparr>er_output_position := er_output_position er + count\<rparr>;
            er2 = (if er_output_position er1 = length (er_output er1)
                   then er1\<lparr>er_output := [], er_output_position := 0\<rparr> else er1)
        in (er2, Some (Ready (Ok out)))
      else
        case er_state er of
          EmittingHeader \<Rightarrow>
            ((queue_output er (es_header_bytes (er_session er)))\<lparr>er_state := ReadingChunk\<rparr>, None)
        | ReadingChunk \<Rightarrow>
            if es_total_plaintext_length (er_session er) \<le> er_plaintext_read er
            then (er\<lparr>er_state := CheckingEof\<rparr>, None)
            else
              let er1 = prepare_chunk er in
              (case poll_inner inner (er_inner er1)
                      (length (er_plaintext_chunk er1) - er_plaintext_chunk_filled er1) of
                 (Pending, r') \<Rightarrow> (er1\<lparr>er_inner := r'\<rparr>, Some Pending)
               | (Ready (Inl e), r') \<Rightarrow> (er1\<lparr>er_inner := r'\<rparr>, Some (Ready (Err e)))
               | (Ready (Inr bs), r') \<Rightarrow> accept_plaintext P (er1\<lparr>er_inner := r'\<rparr>) bs)
        | CheckingEof \<Rightarrow>
            (case poll_inner inner (er_inner er) 1 of
               (Pending, r') \<Rightarrow> (er\<lparr>er_inner := r'\<rparr>, Some Pending)
             | (Ready (Inl e), r') \<Rightarrow> (er\<lparr>er_inner := r'\<rparr>, Some (Ready (Err e)))
             | (Ready (Inr bs), r') \<Rightarrow>
                 if bs \<noteq> []
                 then (er\<lparr>er_inner := r'\<rparr>, Some (Ready (Err (Io_Error InvalidData
                         ''Plaintext source became longer during encryption''))))
                 else (er\<lparr>er_inner := r', er_state := EmittingFinalRecord\<rparr>, None))
        | EmittingFinalRecord \<Rightarrow>
            (case build_final_record P er of
               Inl e \<Rightarrow> (er, Some (Ready (Err e)))
             | Inr final_rec \<Rightarrow>
                 if saturating_add_u64 (er_ciphertext_emitted er) (of_nat (length final_rec))
                      \<noteq> es_total_ciphertext_length (er_session er)
                 then (er, Some (Ready (Err (Io_Error InvalidData
                         ''Emitted ciphertext length differs from declared length''))))
                 else ((queue_output er final_rec)\<lparr>er_state := Done\<rparr>, None))
        | Done \<Rightarrow> (er, Some (Ready (Ok []))))"

section \<open>The poll loop ends\<close>

fun state_rank :: "encrypt_state \<Rightarrow> nat" where
  "state_rank EmittingHeader = 4"
| "state_rank ReadingChunk = 3"
| "state_rank CheckingEof = 2"
| "state_rank EmittingFinalRecord = 1"
| "state_rank Done = 0"

text \<open>Within the reading state: first get rid of a buffer larger than what is left to read (only
  reachable in an arbitrary state), then the unread plaintext shrinks, then the unfilled part of
  the buffer.\<close>

definition unread :: "'r encrypting_reader \<Rightarrow> nat" where
  "unread er = unat (es_total_plaintext_length (er_session er)) - unat (er_plaintext_read er)"

definition oversized :: "'r encrypting_reader \<Rightarrow> nat" where
  "oversized er = (if length (er_plaintext_chunk er) \<le> unread er then 0 else 1)"

definition unfilled :: "'r encrypting_reader \<Rightarrow> nat" where
  "unfilled er = (if er_plaintext_chunk er = [] then 2 ^ 64
                  else length (er_plaintext_chunk er) - er_plaintext_chunk_filled er)"

definition poll_order :: "('r encrypting_reader \<times> 'r encrypting_reader) set" where
  "poll_order = measures [\<lambda>er. state_rank (er_state er), oversized, unread, unfilled]"

lemma wf_poll_order: "wf poll_order"
  by (simp add: poll_order_def)

lemma poll_inner_bound: "poll_inner inner r cap = (Ready (Ok bs), r') \<Longrightarrow> length bs \<le> cap"
  by (auto simp: poll_inner_def split: prod.splits poll.splits sum.splits)

lemma fill_chunk_fields [simp]:
  "er_session (fill_chunk er bs) = er_session er" "er_state (fill_chunk er bs) = er_state er"
  "er_plaintext_read (fill_chunk er bs) = er_plaintext_read er"
  "er_plaintext_hasher (fill_chunk er bs) = er_plaintext_hasher er"
  "er_inner (fill_chunk er bs) = er_inner er" "er_output (fill_chunk er bs) = er_output er"
  "er_output_position (fill_chunk er bs) = er_output_position er"
  "er_chunk_index (fill_chunk er bs) = er_chunk_index er"
  "er_ciphertext_emitted (fill_chunk er bs) = er_ciphertext_emitted er"
  "er_plaintext_chunk_filled (fill_chunk er bs) = er_plaintext_chunk_filled er + length bs"
  by (simp_all add: fill_chunk_def Let_def)

lemma length_fill_chunk:
  "er_plaintext_chunk_filled er + length bs \<le> length (er_plaintext_chunk er) \<Longrightarrow>
   length (er_plaintext_chunk (fill_chunk er bs)) = length (er_plaintext_chunk er)"
  by (simp add: fill_chunk_def Let_def)

lemma accept_decreases:
  assumes a: "accept_plaintext P er bs = (er', None)"
    and st: "er_state er = ReadingChunk" and ne: "er_plaintext_chunk er \<noteq> []"
    and room: "length bs \<le> length (er_plaintext_chunk er) - er_plaintext_chunk_filled er"
  shows "er_state er' = ReadingChunk \<and> (oversized er', oversized er) \<in> less_than \<or>
     er_state er' = ReadingChunk \<and> oversized er' = oversized er \<and>
       (unread er' < unread er \<or> unread er' = unread er \<and> unfilled er' < unfilled er)"
proof -
  let ?c = "er_plaintext_chunk er" and ?f = "er_plaintext_chunk_filled er"
  let ?er1 = "fill_chunk er bs"
  have bs: "bs \<noteq> []" using a by (auto simp: accept_plaintext_def)
  then have fl: "?f + length bs \<le> length ?c" and lb: "0 < length bs" using room by (cases bs; simp)+
  note len = length_fill_chunk [OF fl]
  then have ne1: "er_plaintext_chunk ?er1 \<noteq> []" using ne by (metis length_0_conv)
  show ?thesis
  proof (cases "?f + length bs = length ?c")
    case False
    then have er': "er' = ?er1" using a bs len by (simp add: accept_plaintext_def Let_def)
    show ?thesis
      using len ne1 ne fl lb st
      by (simp add: er' oversized_def unread_def unfilled_def del: length_greater_0_conv)
  next
    case True
    then have "encrypt_ready_chunk P ?er1 = (Ok (), er')"
      using a bs len by (simp add: accept_plaintext_def Let_def split: prod.splits sum.splits)
    then have f: "er_state er' = ReadingChunk" "er_session er' = er_session er" "er_plaintext_chunk er' = []"
      "er_plaintext_read er' = er_plaintext_read er + of_nat (length ?c)"
      using st True
      by (auto simp: encrypt_ready_chunk_def queue_output_def Let_def split: if_splits option.splits)
    have o: "oversized er' = 0" using f by (simp add: oversized_def)
    show ?thesis
    proof (cases "length ?c \<le> unread er")
      case True
      let ?t = "unat (es_total_plaintext_length (er_session er))" and ?r = "unat (er_plaintext_read er)"
      have c: "0 < length ?c" using ne by simp
      have le: "?r + length ?c \<le> ?t" using True c unfolding unread_def by linarith
      then have "?r + length ?c < 2 ^ 64"
        using unat_u64_less [of "es_total_plaintext_length (er_session er)"] by (simp del: unat_u64_less)
      then have "unat (er_plaintext_read er') = ?r + length ?c"
        by (simp add: f unat_word_ariths unat_of_nat)
      then have "unread er' < unread er" using le f c by (simp add: unread_def del: length_greater_0_conv)
      then show ?thesis using o f True by (simp add: oversized_def)
    next
      case False
      then show ?thesis using o f by (simp add: oversized_def)
    qed
  qed
qed

lemma prepare_chunk_fields [simp]:
  "er_session (prepare_chunk er) = er_session er" "er_state (prepare_chunk er) = er_state er"
  "er_plaintext_read (prepare_chunk er) = er_plaintext_read er"
  "er_plaintext_hasher (prepare_chunk er) = er_plaintext_hasher er"
  "er_inner (prepare_chunk er) = er_inner er" "er_output (prepare_chunk er) = er_output er"
  "er_output_position (prepare_chunk er) = er_output_position er"
  "er_chunk_index (prepare_chunk er) = er_chunk_index er"
  "er_ciphertext_emitted (prepare_chunk er) = er_ciphertext_emitted er"
  by (simp_all add: prepare_chunk_def Let_def)

lemma prepare_chunk_order:
  assumes "\<not> es_total_plaintext_length (er_session er) \<le> er_plaintext_read er"
  shows "unread (prepare_chunk er) = unread er \<and> oversized (prepare_chunk er) = oversized er
    \<and> unfilled (prepare_chunk er) \<le> unfilled er"
proof -
  let ?t = "es_total_plaintext_length (er_session er)"
  have u: "unat (?t - er_plaintext_read er) = unread er"
    using assms by (simp add: unread_def unat_sub)
  have le: "unat (min (?t - er_plaintext_read er) k) \<le> unread er" for k
    using u by (metis min.cobounded1 word_le_nat_alt)
  moreover have "unat (min (?t - er_plaintext_read er) k) \<le> 2 ^ 64" for k
    using unat_u64_less [of "min (?t - er_plaintext_read er) k"] by (simp del: unat_u64_less)
  ultimately show ?thesis
    by (simp add: prepare_chunk_def Let_def oversized_def unread_def unfilled_def)
qed

lemma accept_None_room:
  assumes "poll_inner inner r cap = (Ready (Ok bs), r')" and "accept_plaintext P er bs = (er', None)"
    and "cap = length (er_plaintext_chunk er) - er_plaintext_chunk_filled er"
  shows "er_plaintext_chunk er \<noteq> [] \<and> length bs \<le> length (er_plaintext_chunk er) - er_plaintext_chunk_filled er"
  using assms poll_inner_bound [OF assms(1)] by (auto simp: accept_plaintext_def)

lemma poll_step_decreases: "poll_step P inner n er = (er', None) \<Longrightarrow> (er', er) \<in> poll_order"
proof (cases "er_state er")
  case ReadingChunk
  assume step: "poll_step P inner n er = (er', None)"
  then have out: "\<not> er_output_position er < length (er_output er)"
    by (auto simp: poll_step_def Let_def)
  show ?thesis
  proof (cases "es_total_plaintext_length (er_session er) \<le> er_plaintext_read er")
    case True
    then show ?thesis using step out ReadingChunk by (auto simp: poll_step_def poll_order_def)
  next
    case False
    let ?er1 = "prepare_chunk er"
    obtain bs r' where p: "poll_inner inner (er_inner ?er1)
        (length (er_plaintext_chunk ?er1) - er_plaintext_chunk_filled ?er1) = (Ready (Ok bs), r')"
      and a: "accept_plaintext P (?er1\<lparr>er_inner := r'\<rparr>) bs = (er', None)"
      using step out ReadingChunk False
      by (auto simp: poll_step_def Let_def split: prod.splits poll.splits sum.splits)
    have room: "er_plaintext_chunk ?er1 \<noteq> []"
      "length bs \<le> length (er_plaintext_chunk ?er1) - er_plaintext_chunk_filled ?er1"
      using accept_None_room [OF p a] by simp_all
    have frame: "oversized (?er1\<lparr>er_inner := r'\<rparr>) = oversized ?er1" "unread (?er1\<lparr>er_inner := r'\<rparr>) = unread ?er1"
      "unfilled (?er1\<lparr>er_inner := r'\<rparr>) = unfilled ?er1"
      by (simp_all add: oversized_def unread_def unfilled_def)
    show ?thesis
      using accept_decreases [OF a] room ReadingChunk prepare_chunk_order [OF False]
      unfolding frame by (auto simp: poll_order_def)
  qed
qed (auto simp: poll_step_def poll_order_def Let_def queue_output_def
      split: if_splits prod.splits poll.splits sum.splits)

function poll_read ::
  "prims \<Rightarrow> 'r source \<Rightarrow> nat \<Rightarrow> 'r encrypting_reader \<Rightarrow>
   (io_error + bytes) poll \<times> 'r encrypting_reader" where
  "poll_read P inner remaining er =
     (case poll_step P inner remaining er of
        (er', None) \<Rightarrow> poll_read P inner remaining er'
      | (er', Some result) \<Rightarrow> (result, er'))"
  by auto
termination
  by (relation "inv_image poll_order (\<lambda>(P, inner, remaining, er). er)")
    (auto simp: wf_poll_order intro: poll_step_decreases [OF sym])

declare poll_read.simps [simp del]

end
