(* ===== verification/Encrypt_Contract.thy ===== *)
theory Encrypt_Contract
  imports Encrypt_Reader
begin

text \<open>
  What the encrypting reader promises. \<open>er_inv\<close> relates a reader that has handed out the bytes
  \<open>emitted\<close> to the plaintext its source delivers; every iteration of the poll loop keeps it, so
  the reader emits the envelope of exactly the bytes it read and completes only when they are as
  many as the header announced. A second part shows that polling makes progress.
\<close>

section \<open>The assumptions on the plaintext source\<close>

text \<open>\<open>content r\<close> is what the source still has to deliver. The law is the documentation of
  \<open>AsyncRead::poll_read\<close>: it never delivers more than the capacity, and a successful read of
  nothing into a non-empty buffer means the end of the source.\<close>

definition source_ok :: "'r source \<Rightarrow> ('r \<Rightarrow> bytes) \<Rightarrow> bool" where
  "source_ok inner content \<longleftrightarrow>
     (\<forall>r cap. case inner r cap of
        (Ready (Inr bs), r') \<Rightarrow> length bs \<le> cap \<and> content r = bs @ content r' \<and>
          (bs = [] \<and> 0 < cap \<longrightarrow> content r = [])
      | (_, r') \<Rightarrow> content r' = content r)"

lemma source_read:
  assumes "source_ok inner content" and "poll_inner inner r cap = (Ready (Ok bs), r')"
  shows "length bs \<le> cap \<and> content r = bs @ content r' \<and> (bs = [] \<and> 0 < cap \<longrightarrow> content r = [])"
proof -
  obtain o' where i: "inner r cap = (o', r')" using assms(2)
    by (auto simp: poll_inner_def split: prod.splits poll.splits sum.splits)
  from assms(1) have "case inner r cap of
        (Ready (Inr bs), r') \<Rightarrow> length bs \<le> cap \<and> content r = bs @ content r' \<and>
          (bs = [] \<and> 0 < cap \<longrightarrow> content r = [])
      | (_, r') \<Rightarrow> content r' = content r" by (simp add: source_ok_def)
  then show ?thesis using assms(2) i
    by (auto simp: poll_inner_def split: poll.splits sum.splits)
qed

lemma source_other:
  assumes "source_ok inner content"
  shows "poll_inner inner r cap = (Pending, r') \<Longrightarrow> inner r cap = (Pending, r') \<and> content r' = content r"
    and "poll_inner inner r cap = (Ready (Err e), r') \<Longrightarrow>
      inner r cap = (Ready (Err e), r') \<and> content r' = content r"
proof -
  have "case inner r cap of
        (Ready (Inr bs), r') \<Rightarrow> length bs \<le> cap \<and> content r = bs @ content r' \<and>
          (bs = [] \<and> 0 < cap \<longrightarrow> content r = [])
      | (_, r') \<Rightarrow> content r' = content r" using assms by (simp add: source_ok_def)
  then show "poll_inner inner r cap = (Pending, r') \<Longrightarrow> inner r cap = (Pending, r') \<and> content r' = content r"
    "poll_inner inner r cap = (Ready (Err e), r') \<Longrightarrow>
      inner r cap = (Ready (Err e), r') \<and> content r' = content r"
    by (auto simp: poll_inner_def split: prod.splits poll.splits sum.splits)
qed

section \<open>The session as a record context\<close>

definition session_ctx :: "encryption_session \<Rightarrow> content_ctx" where
  "session_ctx s = \<lparr>cc_content_key = es_content_key s, cc_file_uuid = es_file_uuid s,
     cc_header_authenticator = es_header_authenticator s, cc_nonce_prefix = es_nonce_prefix s,
     cc_chunk_size = es_chunk_size s, cc_total = es_total_plaintext_length s,
     cc_chunk_count = es_chunk_count s\<rparr>"

definition session_ok :: "encryption_session \<Rightarrow> bool" where
  "session_ok s \<longleftrightarrow> ctx_ok (session_ctx s) \<and> es_header_bytes s \<noteq> [] \<and>
     length (es_header_bytes s) \<le> 65536 \<and>
     unat (es_total_ciphertext_length s) = envelope_length (unat (es_total_plaintext_length s))
       (unat (es_chunk_size s)) (length (es_header_bytes s))"

definition session_envelope :: "prims \<Rightarrow> encryption_session \<Rightarrow> bytes \<Rightarrow> bytes" where
  "session_envelope P s plain = es_header_bytes s @ envelope_body P (session_ctx s) plain"

lemma session_ctx_simps [simp]:
  "cc_content_key (session_ctx s) = es_content_key s" "cc_nonce_prefix (session_ctx s) = es_nonce_prefix s"
  "cc_chunk_size (session_ctx s) = es_chunk_size s" "cc_total (session_ctx s) = es_total_plaintext_length s"
  "cc_chunk_count (session_ctx s) = es_chunk_count s" "cc_file_uuid (session_ctx s) = es_file_uuid s"
  "cc_header_authenticator (session_ctx s) = es_header_authenticator s"
  by (simp_all add: session_ctx_def)

lemma session_bindings:
  "session_nonce s i = record_nonce (es_nonce_prefix s) i"
  "session_chunk_aad s i off len = chunk_aad_of (session_ctx s) i off len"
  "session_final_aad s = final_aad_of (session_ctx s)"
  by (simp_all add: session_nonce_def record_nonce_def session_chunk_aad_def chunk_aad_of_def
      session_final_aad_def final_aad_of_def)

lemma length_session_envelope:
  "prims_ok P \<Longrightarrow> session_ok s \<Longrightarrow> length plain = unat (es_total_plaintext_length s) \<Longrightarrow>
   length (session_envelope P s plain) = unat (es_total_ciphertext_length s)"
  by (simp add: session_envelope_def session_ok_def length_envelope_body envelope_length_def)

section \<open>One chunk and the final record\<close>

lemma encrypt_ready_chunk_Ok:
  assumes "prims_ok P" and "session_ok (er_session er)"
    and "er_plaintext_chunk_filled er = length (er_plaintext_chunk er)"
    and "length (er_plaintext_chunk er) \<le> unat (es_chunk_size (er_session er))"
    and "er_chunk_index er = of_nat i"
    and "er_plaintext_read er = of_nat (i * unat (es_chunk_size (er_session er)))"
  shows "encrypt_ready_chunk P er = (Ok (), queue_output
     (er\<lparr>er_plaintext_hasher := er_plaintext_hasher er @ er_plaintext_chunk er,
         er_plaintext_read := er_plaintext_read er + of_nat (length (er_plaintext_chunk er)),
         er_chunk_index := er_chunk_index er + 1,
         er_plaintext_chunk := [], er_plaintext_chunk_filled := 0\<rparr>)
     (record_at P (session_ctx (er_session er)) i (er_plaintext_chunk er)))"
proof -
  let ?s = "er_session er" and ?m = "er_plaintext_chunk er"
  have c: "ctx_ok (session_ctx ?s)" using assms(2) by (simp add: session_ok_def)
  then have "length ?m < 2 ^ 32" "key_ok P (es_content_key ?s)"
    using assms(1,4) by (simp_all add: ctx_ok_def prims_key_ok)
  then show ?thesis
    using seal_content_Some(1) [OF assms(1) c, of ?m] assms(3,5,6)
    by (simp add: encrypt_ready_chunk_def Let_def session_bindings record_at_def del: of_nat_mult)
qed

lemma build_final_record_Ok:
  assumes "prims_ok P" and "session_ok (er_session er)"
  shows "build_final_record P er = Ok (final_record P (session_ctx (er_session er)) (er_plaintext_hasher er))"
proof -
  let ?s = "er_session er"
  have c: "ctx_ok (session_ctx ?s)" using assms(2) by (simp add: session_ok_def)
  then have k: "key_ok P (es_content_key ?s)"
    using assms(1) by (simp add: ctx_ok_def prims_key_ok)
  have "length (final_plaintext P (session_ctx ?s) (er_plaintext_hasher er)) < 2 ^ 32"
    using assms(1) by (simp add: length_final_plaintext)
  then show ?thesis
    using seal_content_Some(1) [OF assms(1) c] k
    by (simp add: build_final_record_def Let_def session_bindings final_record_def final_plaintext_def)
qed

section \<open>The invariant\<close>

definition queued :: "prims \<Rightarrow> 'r encrypting_reader \<Rightarrow> bytes" where
  "queued P er =
     (let s = er_session er; c = session_ctx s; done_so_far = er_plaintext_hasher er in
      case er_state er of
        EmittingHeader \<Rightarrow> []
      | Done \<Rightarrow> es_header_bytes s @ records_from P c 0 done_so_far @ final_record P c done_so_far
      | _ \<Rightarrow> es_header_bytes s @ records_from P c 0 done_so_far)"

text \<open>The plaintext side: what has been hashed, what is in the chunk buffer and what the source
  still holds make up the plaintext, and the counters and the state agree with them.\<close>

definition plain_inv :: "('r \<Rightarrow> bytes) \<Rightarrow> bytes \<Rightarrow> 'r encrypting_reader \<Rightarrow> bool" where
  "plain_inv content plain er \<longleftrightarrow>
     (let s = er_session er; k = unat (es_chunk_size s); total' = unat (es_total_plaintext_length s);
          n = length (er_plaintext_hasher er) in
      session_ok s \<and>
      plain = er_plaintext_hasher er @ take (er_plaintext_chunk_filled er) (er_plaintext_chunk er)
        @ content (er_inner er) \<and>
      unat (er_plaintext_read er) = n \<and> n \<le> total' \<and>
      (n < total' \<longrightarrow> n = unat (er_chunk_index er) * k) \<and> unat (er_chunk_index er) \<le> n \<and>
      (er_plaintext_chunk er = [] \<longrightarrow> er_plaintext_chunk_filled er = 0) \<and>
      (er_plaintext_chunk er \<noteq> [] \<longrightarrow> n < total' \<and> er_state er = ReadingChunk \<and>
         er_plaintext_chunk_filled er < length (er_plaintext_chunk er) \<and>
         length (er_plaintext_chunk er) = min k (total' - n)) \<and>
      (er_state er = EmittingHeader \<longrightarrow> n = 0) \<and>
      (er_state er \<in> {CheckingEof, EmittingFinalRecord, Done} \<longrightarrow> n = total') \<and>
      (er_state er \<in> {EmittingFinalRecord, Done} \<longrightarrow> content (er_inner er) = []))"

text \<open>The output side: what was handed out and what is still in the output buffer is what has been
  queued.\<close>

definition output_inv :: "prims \<Rightarrow> 'r encrypting_reader \<Rightarrow> bytes \<Rightarrow> bool" where
  "output_inv P er emitted \<longleftrightarrow>
     emitted @ drop (er_output_position er) (er_output er) = queued P er \<and>
     unat (er_ciphertext_emitted er) = length (queued P er)"

definition er_inv ::
  "prims \<Rightarrow> ('r \<Rightarrow> bytes) \<Rightarrow> bytes \<Rightarrow> 'r encrypting_reader \<Rightarrow> bytes \<Rightarrow> bool" where
  "er_inv P content plain er emitted \<longleftrightarrow> plain_inv content plain er \<and> output_inv P er emitted"

lemma er_inv_new: "session_ok s \<Longrightarrow> er_inv P content (content r) (EncryptingReader_new r s) []"
  by (simp add: er_inv_def plain_inv_def output_inv_def EncryptingReader_new_def queued_def Let_def)

lemma plain_inv_session: "plain_inv content plain er \<Longrightarrow> session_ok (er_session er)"
  by (simp add: plain_inv_def Let_def)

lemma er_inv_session: "er_inv P content plain er emitted \<Longrightarrow> session_ok (er_session er)"
  unfolding er_inv_def by (blast intro: plain_inv_session)

lemma plain_inv_chunk:
  "plain_inv content plain er \<Longrightarrow> er_plaintext_chunk er \<noteq> [] \<Longrightarrow>
   er_plaintext_chunk_filled er < length (er_plaintext_chunk er)"
  unfolding plain_inv_def Let_def by blast

lemma plain_inv_readingI:
  assumes "session_ok (er_session er)" and "er_state er = ReadingChunk"
    and "plain = er_plaintext_hasher er @ take (er_plaintext_chunk_filled er) (er_plaintext_chunk er)
        @ content (er_inner er)"
    and "unat (er_plaintext_read er) = length (er_plaintext_hasher er)"
    and "length (er_plaintext_hasher er) \<le> unat (es_total_plaintext_length (er_session er))"
    and "length (er_plaintext_hasher er) < unat (es_total_plaintext_length (er_session er)) \<Longrightarrow>
      length (er_plaintext_hasher er) = unat (er_chunk_index er) * unat (es_chunk_size (er_session er))"
    and "unat (er_chunk_index er) \<le> length (er_plaintext_hasher er)"
    and "er_plaintext_chunk er = [] \<and> er_plaintext_chunk_filled er = 0 \<or>
      length (er_plaintext_hasher er) < unat (es_total_plaintext_length (er_session er)) \<and>
      er_plaintext_chunk_filled er < length (er_plaintext_chunk er) \<and>
      length (er_plaintext_chunk er) = min (unat (es_chunk_size (er_session er)))
        (unat (es_total_plaintext_length (er_session er)) - length (er_plaintext_hasher er))"
  shows "plain_inv content plain er"
  unfolding plain_inv_def Let_def using assms by auto

lemma plain_inv_readingD:
  assumes "plain_inv content plain er" and "er_plaintext_chunk er \<noteq> []"
  shows "unat (er_plaintext_read er) = length (er_plaintext_hasher er)"
    and "length (er_plaintext_hasher er) < unat (es_total_plaintext_length (er_session er))"
    and "length (er_plaintext_hasher er) = unat (er_chunk_index er) * unat (es_chunk_size (er_session er))"
    and "unat (er_chunk_index er) \<le> length (er_plaintext_hasher er)"
    and "er_state er = ReadingChunk"
    and "er_plaintext_chunk_filled er < length (er_plaintext_chunk er)"
    and "length (er_plaintext_chunk er) = min (unat (es_chunk_size (er_session er)))
        (unat (es_total_plaintext_length (er_session er)) - length (er_plaintext_hasher er))"
  using assms unfolding plain_inv_def Let_def by blast+

text \<open>The plaintext side does not depend on the output buffer or on the source's identity.\<close>

lemma plain_inv_frame:
  "plain_inv content plain er \<Longrightarrow>
   er_session er' = er_session er \<Longrightarrow> er_plaintext_hasher er' = er_plaintext_hasher er \<Longrightarrow>
   er_plaintext_chunk er' = er_plaintext_chunk er \<Longrightarrow>
   er_plaintext_chunk_filled er' = er_plaintext_chunk_filled er \<Longrightarrow>
   content (er_inner er') = content (er_inner er) \<Longrightarrow>
   er_plaintext_read er' = er_plaintext_read er \<Longrightarrow> er_chunk_index er' = er_chunk_index er \<Longrightarrow>
   er_state er' = er_state er \<Longrightarrow> plain_inv content plain er'"
  by (simp add: plain_inv_def)

lemma queued_frame:
  "er_session er' = er_session er \<Longrightarrow> er_plaintext_hasher er' = er_plaintext_hasher er \<Longrightarrow>
   er_state er' = er_state er \<Longrightarrow> queued P er' = queued P er"
  by (simp add: queued_def)

lemma queued_length:
  assumes "prims_ok P" and "session_ok (er_session er)"
    and "length (er_plaintext_hasher er) \<le> unat (es_total_plaintext_length (er_session er))"
  shows "length (queued P er) + 65536 + 16777216 + 84 < 2 ^ 64"
proof -
  let ?s = "er_session er" and ?n = "length (er_plaintext_hasher er)"
  have c: "ctx_ok (session_ctx ?s)" and h: "length (es_header_bytes ?s) \<le> 65536"
    using assms(2) by (simp_all add: session_ok_def)
  from c have "0 < unat (es_chunk_size ?s)" by (simp add: ctx_ok_def)
  then have "ceil_div ?n (unat (es_chunk_size ?s)) \<le> ?n" by (rule ceil_div_le)
  moreover have "?n \<le> 2000000000" using c assms(3) by (simp add: ctx_ok_def)
  ultimately show ?thesis
    using length_records_from [OF assms(1) c, of 0 "er_plaintext_hasher er"] h
      length_final_record [OF assms(1) c, of "er_plaintext_hasher er"]
    by (cases "er_state er") (simp_all add: queued_def Let_def)
qed

section \<open>Every iteration keeps the invariant\<close>

lemma queue_output_emitted:
  "unat (er_ciphertext_emitted er) + length bs < 2 ^ 64 \<Longrightarrow>
   unat (er_ciphertext_emitted (queue_output er bs)) = unat (er_ciphertext_emitted er) + length bs"
  by (simp add: queue_output_def unat_saturating_add_u64 unat_word_of_nat_u64)

lemma queue_output_fields [simp]:
  "er_session (queue_output er bs) = er_session er" "er_state (queue_output er bs) = er_state er"
  "er_plaintext_chunk (queue_output er bs) = er_plaintext_chunk er"
  "er_plaintext_chunk_filled (queue_output er bs) = er_plaintext_chunk_filled er"
  "er_inner (queue_output er bs) = er_inner er" "er_chunk_index (queue_output er bs) = er_chunk_index er"
  "er_plaintext_read (queue_output er bs) = er_plaintext_read er"
  "er_plaintext_hasher (queue_output er bs) = er_plaintext_hasher er"
  "er_output (queue_output er bs) = bs" "er_output_position (queue_output er bs) = 0"
  by (simp_all add: queue_output_def)

lemma inv_emit:
  assumes inv: "er_inv P content plain er emitted" and pos: "er_output_position er < length (er_output er)"
    and step: "poll_step P inner n er = (er', r)"
  shows "\<exists>bs. r = Some (Ready (Ok bs)) \<and> er_inv P content plain er' (emitted @ bs) \<and> length bs \<le> n
    \<and> (0 < n \<longrightarrow> bs \<noteq> [])"
proof -
  let ?o = "er_output er" and ?p = "er_output_position er"
  define cnt where "cnt = min (length ?o - ?p) n"
  let ?bs = "slice ?o ?p (?p + cnt)"
  let ?er1 = "er\<lparr>er_output_position := ?p + cnt\<rparr>"
  have r: "r = Some (Ready (Ok ?bs))"
    and er': "er' = (if ?p + cnt = length ?o then ?er1\<lparr>er_output := [], er_output_position := 0\<rparr> else ?er1)"
    using step pos by (auto simp: poll_step_def Let_def cnt_def)
  have d: "?bs @ drop (?p + cnt) ?o = drop ?p ?o"
    by (simp add: slice_def) (metis append_take_drop_id drop_drop add.commute)
  have d': "drop (er_output_position er') (er_output er') = drop (?p + cnt) ?o"
    by (simp add: er')
  have q: "queued P er' = queued P er" by (rule queued_frame) (simp_all add: er')
  have "er_ciphertext_emitted er' = er_ciphertext_emitted er" by (simp add: er')
  then have "output_inv P er' (emitted @ ?bs)"
    using inv d' d q by (simp add: er_inv_def output_inv_def)
  moreover have "plain_inv content plain er'"
    using inv unfolding er_inv_def by (rule conjE) (erule plain_inv_frame, simp_all add: er')
  moreover have "length ?bs = cnt" using pos by (simp add: cnt_def)
  moreover from this have "length ?bs \<le> n \<and> (0 < n \<longrightarrow> 0 < length ?bs)" using pos by (simp add: cnt_def)
  ultimately show ?thesis using r unfolding er_inv_def length_greater_0_conv by blast
qed

lemma output_inv_queue:
  assumes "output_inv P er emitted" and "\<not> er_output_position er < length (er_output er)"
    and "queued P er' = queued P er @ bs" and "length (queued P er) + length bs < 2 ^ 64"
    and "er_output er' = bs" and "er_output_position er' = 0"
    and "er_ciphertext_emitted er' = er_ciphertext_emitted (queue_output er bs)"
  shows "output_inv P er' emitted"
  using assms by (simp add: output_inv_def queue_output_emitted)

lemma inv_header:
  assumes inv: "er_inv P content plain er emitted"
    and out: "\<not> er_output_position er < length (er_output er)"
    and st: "er_state er = EmittingHeader"
  shows "er_inv P content plain
    ((queue_output er (es_header_bytes (er_session er)))\<lparr>er_state := ReadingChunk\<rparr>) emitted"
    (is "er_inv P content plain ?er' emitted")
proof -
  have n: "er_plaintext_hasher er = []" using inv st by (simp add: er_inv_def plain_inv_def Let_def)
  have h: "length (es_header_bytes (er_session er)) \<le> 65536"
    using er_inv_session [OF inv] by (simp add: session_ok_def)
  have q: "queued P er = []" using st by (simp add: queued_def)
  have q': "queued P ?er' = es_header_bytes (er_session er)" using n by (simp add: queued_def Let_def)
  have "output_inv P er emitted" using inv by (simp add: er_inv_def)
  then have "output_inv P ?er' emitted"
    by (rule output_inv_queue [OF _ out, where bs = "es_header_bytes (er_session er)"])
      (use h in \<open>simp_all only: q q', simp_all\<close>)
  moreover have "plain_inv content plain ?er'"
    using inv st n by (simp add: er_inv_def plain_inv_def Let_def)
  ultimately show ?thesis by (simp add: er_inv_def)
qed

lemma inv_checking:
  assumes inv: "er_inv P content plain er emitted" and "er_state er = ReadingChunk"
    and "es_total_plaintext_length (er_session er) \<le> er_plaintext_read er"
  shows "er_inv P content plain (er\<lparr>er_state := CheckingEof\<rparr>) emitted"
proof -
  have "plain_inv content plain (er\<lparr>er_state := CheckingEof\<rparr>)"
    using assms by (auto simp: er_inv_def plain_inv_def Let_def word_le_nat_alt)
  moreover have "output_inv P (er\<lparr>er_state := CheckingEof\<rparr>) emitted"
    using assms by (simp add: er_inv_def output_inv_def queued_def)
  ultimately show ?thesis by (simp add: er_inv_def)
qed

lemma inv_prepare:
  assumes inv: "er_inv P content plain er emitted" and st: "er_state er = ReadingChunk"
    and lt: "\<not> es_total_plaintext_length (er_session er) \<le> er_plaintext_read er"
  shows "er_inv P content plain (prepare_chunk er) emitted
    \<and> er_plaintext_chunk_filled (prepare_chunk er) < length (er_plaintext_chunk (prepare_chunk er))"
proof (cases "er_plaintext_chunk er = []")
  case False
  then have "prepare_chunk er = er" by (simp add: prepare_chunk_def)
  then show ?thesis using inv False plain_inv_chunk unfolding er_inv_def by auto
next
  case True
  let ?s = "er_session er"
  let ?rem = "es_total_plaintext_length ?s - er_plaintext_read er"
  let ?tgt = "min (unat (es_chunk_size ?s))
      (unat (es_total_plaintext_length ?s) - unat (er_plaintext_read er))"
  have rem: "unat ?rem = unat (es_total_plaintext_length ?s) - unat (er_plaintext_read er)"
    using lt by (simp add: unat_sub)
  have tgt: "unat (min ?rem (ucast (es_chunk_size ?s))) = ?tgt"
    unfolding rem [symmetric] by (simp add: min_def word_le_nat_alt)
  have k: "0 < unat (es_chunk_size ?s)"
    using er_inv_session [OF inv] by (simp add: session_ok_def ctx_ok_def)
  have lt2: "unat (er_plaintext_read er) < unat (es_total_plaintext_length ?s)"
    using lt by (simp add: word_le_nat_alt)
  have q: "queued P (prepare_chunk er) = queued P er" by (simp add: queued_def)
  have c: "er_plaintext_chunk (prepare_chunk er) = replicate ?tgt 0"
    "er_plaintext_chunk_filled (prepare_chunk er) = 0"
    unfolding tgt [symmetric] using True by (simp_all add: prepare_chunk_def Let_def)
  have pos: "0 < ?tgt" using k lt2 by simp
  have "output_inv P (prepare_chunk er) emitted"
    using inv q by (simp add: er_inv_def output_inv_def)
  moreover have "plain_inv content plain (prepare_chunk er)"
    using inv st True c pos lt2 by (simp add: er_inv_def plain_inv_def Let_def)
  ultimately show ?thesis using c pos by (simp add: er_inv_def)
qed

lemma inv_inner:
  "er_inv P content plain er emitted \<Longrightarrow> content r = content (er_inner er) \<Longrightarrow>
   er_inv P content plain (er\<lparr>er_inner := r\<rparr>) emitted"
  by (auto simp: er_inv_def output_inv_def queued_def elim: plain_inv_frame)

lemma fill_chunk_taken:
  "er_plaintext_chunk_filled er + length bs \<le> length (er_plaintext_chunk er) \<Longrightarrow>
   take (er_plaintext_chunk_filled er + length bs) (er_plaintext_chunk (fill_chunk er bs))
     = take (er_plaintext_chunk_filled er) (er_plaintext_chunk er) @ bs"
  by (simp add: fill_chunk_def Let_def)

text \<open>The bytes the source delivered while a chunk buffer was under way.\<close>

lemma inv_accept:
  assumes P: "prims_ok P" and inv: "er_inv P content (pre @ content r) er emitted"
    and pre: "pre = er_plaintext_hasher er @ take (er_plaintext_chunk_filled er) (er_plaintext_chunk er)"
    and out: "\<not> er_output_position er < length (er_output er)"
    and room: "length bs \<le> length (er_plaintext_chunk er) - er_plaintext_chunk_filled er"
    and ne: "er_plaintext_chunk er \<noteq> []" and bs: "bs \<noteq> []"
  shows "\<exists>er'. accept_plaintext P (er\<lparr>er_inner := r'\<rparr>) bs = (er', None) \<and>
    (content r = bs @ content r' \<longrightarrow> er_inv P content (pre @ content r) er' emitted)"
proof -
  let ?s = "er_session er" and ?n = "length (er_plaintext_hasher er)" and ?c = "er_plaintext_chunk er"
  let ?k = "unat (es_chunk_size ?s)" and ?t = "unat (es_total_plaintext_length ?s)"
  let ?i = "unat (er_chunk_index er)" and ?f = "er_plaintext_chunk_filled er"
  let ?er1 = "fill_chunk (er\<lparr>er_inner := r'\<rparr>) bs"
  have pl: "plain_inv content (pre @ content r) er" and ou: "output_inv P er emitted"
    using inv by (simp_all add: er_inv_def)
  have s: "session_ok ?s" using pl by (rule plain_inv_session)
  have I: "unat (er_plaintext_read er) = ?n" "?n < ?t" "?n = ?i * ?k" "?i \<le> ?n" "er_state er = ReadingChunk"
      "?f < length ?c" "length ?c = min ?k (?t - ?n)"
    using plain_inv_readingD [OF pl ne] by auto
  have fl: "?f + length bs \<le> length ?c" using room I(6) by simp
  have len1: "length (er_plaintext_chunk ?er1) = length ?c" using length_fill_chunk [of "er\<lparr>er_inner := r'\<rparr>" bs] fl by simp
  have tk: "take (?f + length bs) (er_plaintext_chunk ?er1) = take ?f ?c @ bs"
    using fill_chunk_taken [of "er\<lparr>er_inner := r'\<rparr>" bs] fl by simp
  have ne1: "er_plaintext_chunk ?er1 \<noteq> []" using len1 ne by (metis length_0_conv)
  have pl1: "plain_inv content (pre @ content r) ?er1"
    if "?f + length bs \<noteq> length ?c" "content r = bs @ content r'"
  proof (rule plain_inv_readingI)
    show "pre @ content r = er_plaintext_hasher ?er1 @
        take (er_plaintext_chunk_filled ?er1) (er_plaintext_chunk ?er1) @ content (er_inner ?er1)"
      using that(2) by (simp add: pre tk)
    have "?f + length bs < length ?c" using fl that(1) by simp
    then show "er_plaintext_chunk ?er1 = [] \<and> er_plaintext_chunk_filled ?er1 = 0 \<or>
      length (er_plaintext_hasher ?er1) < unat (es_total_plaintext_length (er_session ?er1)) \<and>
      er_plaintext_chunk_filled ?er1 < length (er_plaintext_chunk ?er1) \<and>
      length (er_plaintext_chunk ?er1) = min (unat (es_chunk_size (er_session ?er1)))
        (unat (es_total_plaintext_length (er_session ?er1)) - length (er_plaintext_hasher ?er1))"
      unfolding len1 using I(2,7) by simp
  qed (use s I in simp_all)
  have ou1: "output_inv P ?er1 emitted"
    using ou by (simp add: output_inv_def queued_def)
  show ?thesis
  proof (cases "?f + length bs = length ?c")
    case False
    then have "accept_plaintext P (er\<lparr>er_inner := r'\<rparr>) bs = (?er1, None)"
      using bs len1 by (simp add: accept_plaintext_def Let_def)
    then show ?thesis using pl1 ou1 False by (auto simp: er_inv_def)
  next
    case True
    let ?m = "er_plaintext_chunk ?er1"
    let ?er2 = "?er1\<lparr>er_plaintext_hasher := er_plaintext_hasher er @ ?m,
         er_plaintext_read := er_plaintext_read er + of_nat (length ?m),
         er_chunk_index := er_chunk_index er + 1,
         er_plaintext_chunk := [], er_plaintext_chunk_filled := 0\<rparr>"
    let ?ct = "record_at P (session_ctx ?s) ?i ?m"
    have m: "?m = take ?f ?c @ bs" using tk True len1 by simp
    have c: "ctx_ok (session_ctx ?s)" using s by (simp add: session_ok_def)
    have k: "0 < ?k" "?k \<le> 16777216" "?t \<le> 2000000000" using c by (simp_all add: ctx_ok_def)
    have rw: "er_plaintext_read er = of_nat (?i * ?k)"
      by (rule word_eq_of_nat) (use I in simp)
    have "encrypt_ready_chunk P ?er1 = (Ok (), queue_output ?er2 ?ct)"
      by (subst encrypt_ready_chunk_Ok [OF P, of ?er1 ?i])
        (use s I(7) True len1 rw in \<open>simp_all only: fill_chunk_fields encrypting_reader.simps, simp_all\<close>)
    then have acc: "accept_plaintext P (er\<lparr>er_inner := r'\<rparr>) bs = (queue_output ?er2 ?ct, None)"
      using bs len1 True by (simp add: accept_plaintext_def Let_def)
    have rd: "unat (er_plaintext_read er + of_nat (length ?m)) = ?n + length ?m"
      using I len1 k by (simp add: unat_word_ariths unat_of_nat)
    have "?i + 1 < 18446744073709551616" using I(2,4) k(3) by linarith
    then have ix: "unat (er_chunk_index er + 1) = ?i + 1"
      by (simp add: unat_word_ariths)
    have "0 < length ?c" using ne by simp
    then have grow: "?i + 1 \<le> ?n + length ?m" using I(4) len1 by linarith
    have full: "?n + length ?m < ?t \<Longrightarrow> ?n + length ?m = (?i + 1) * ?k"
      using I len1 by (simp add: algebra_simps)
    have fin: "?n + length ?m \<le> ?t" using I len1 by simp
    have mk: "?m \<noteq> []" "length ?m \<le> ?k" using I len1 ne1 by simp_all
    have recs: "records_from P (session_ctx ?s) 0 (er_plaintext_hasher er @ ?m)
        = records_from P (session_ctx ?s) 0 (er_plaintext_hasher er) @ ?ct"
      using records_from_append [of "session_ctx ?s" "er_plaintext_hasher er" ?i P 0 ?m]
        records_from_one [of "session_ctx ?s" ?m P ?i] I k mk by simp
    have q: "queued P (queue_output ?er2 ?ct) = queued P er @ ?ct"
      using I(5) recs by (simp add: queued_def Let_def)
    have "length (queued P er) + length ?ct < 2 ^ 64"
      using queued_length [OF P s] I(2) length_record_at [OF P c, of ?m ?i] mk k by simp
    then have "output_inv P (queue_output ?er2 ?ct) emitted"
      by (intro output_inv_queue [OF ou out q]) (simp_all add: queue_output_def)
    moreover have "plain_inv content (pre @ content r) (queue_output ?er2 ?ct)"
      if "content r = bs @ content r'"
    proof (rule plain_inv_readingI)
      show "pre @ content r = er_plaintext_hasher (queue_output ?er2 ?ct) @
          take (er_plaintext_chunk_filled (queue_output ?er2 ?ct))
            (er_plaintext_chunk (queue_output ?er2 ?ct)) @ content (er_inner (queue_output ?er2 ?ct))"
        using that by (simp add: pre m)
    qed (use s I(5) rd ix grow full fin in simp_all)
    ultimately show ?thesis using acc by (auto simp: er_inv_def)
  qed
qed

section \<open>The result of one iteration\<close>

definition source_shorter :: io_error where
  "source_shorter = Io_Error UnexpectedEof ''Plaintext source became shorter during encryption''"

definition source_longer :: io_error where
  "source_longer = Io_Error InvalidData ''Plaintext source became longer during encryption''"

text \<open>The possible outcomes of an iteration, and so of a poll, in a state satisfying the
  invariant.\<close>

definition outcome_ok ::
  "prims \<Rightarrow> 'r source \<Rightarrow> ('r \<Rightarrow> bytes) \<Rightarrow> nat \<Rightarrow> bytes \<Rightarrow> bytes \<Rightarrow> encryption_session \<Rightarrow>
   (io_error + bytes) poll \<Rightarrow> 'r encrypting_reader \<Rightarrow> bool" where
  "outcome_ok P inner content n plain emitted s result er' \<longleftrightarrow>
     (case result of
        Pending \<Rightarrow> er_inv P content plain er' emitted \<and> er_session er' = s \<and> (\<exists>r cap. fst (inner r cap) = Pending)
      | Ready (Inr bs) \<Rightarrow> er_inv P content plain er' (emitted @ bs) \<and> er_session er' = s \<and> length bs \<le> n \<and>
          (0 < n \<and> bs = [] \<longrightarrow> er_state er' = Done \<and> \<not> er_output_position er' < length (er_output er'))
      | Ready (Inl e) \<Rightarrow>
          (\<exists>r cap. fst (inner r cap) = Ready (Err e)) \<or>
          e = source_shorter \<and> length plain < unat (es_total_plaintext_length s) \<or>
          e = source_longer \<and> unat (es_total_plaintext_length s) < length plain)"

lemma accept_session:
  assumes "accept_plaintext P er bs = (er', r)"
  shows "er_session er' = er_session er"
proof -
  have "er_session (snd (encrypt_ready_chunk P x)) = er_session x" for x
    by (simp add: encrypt_ready_chunk_def Let_def split: option.split)
  then have "er_session er2 = er_session er" if "encrypt_ready_chunk P (fill_chunk er bs) = (o', er2)" for o' er2
    using that by (metis snd_conv fill_chunk_fields(1))
  then show ?thesis using assms
    by (auto simp: accept_plaintext_def Let_def split: if_splits prod.splits sum.splits)
qed

lemma inv_reading_step:
  assumes P: "prims_ok P" and src: "source_ok inner content" and inv: "er_inv P content plain er emitted"
    and out: "\<not> er_output_position er < length (er_output er)" and st: "er_state er = ReadingChunk"
    and step: "poll_step P inner n er = (er', r)"
  shows "case r of None \<Rightarrow> er_inv P content plain er' emitted \<and> er_session er' = er_session er
    | Some result \<Rightarrow> outcome_ok P inner content n plain emitted (er_session er) result er'"
proof (cases "es_total_plaintext_length (er_session er) \<le> er_plaintext_read er")
  case True
  then have "er' = er\<lparr>er_state := CheckingEof\<rparr>" "r = None"
    using step out st by (auto simp: poll_step_def)
  then show ?thesis using inv_checking [OF inv st True] by simp
next
  case False
  let ?er1 = "prepare_chunk er"
  let ?cap = "length (er_plaintext_chunk ?er1) - er_plaintext_chunk_filled ?er1"
  have inv1: "er_inv P content plain ?er1 emitted"
    and fl: "er_plaintext_chunk_filled ?er1 < length (er_plaintext_chunk ?er1)"
    using inv_prepare [OF inv st False] by simp_all
  obtain o' r' where p: "poll_inner inner (er_inner er) ?cap = (o', r')" by fastforce
  show ?thesis
  proof (cases o')
    case Pending
    then have "er' = ?er1\<lparr>er_inner := r'\<rparr>" "r = Some Pending"
      using step out st False p by (auto simp: poll_step_def Let_def)
    moreover have i: "inner (er_inner er) ?cap = (Pending, r')" "content r' = content (er_inner er)"
      using source_other(1) [OF src] p Pending by simp_all
    moreover have "\<exists>r cap. fst (inner r cap) = Pending" using i(1) by (metis fst_conv)
    ultimately show ?thesis using inv_inner [OF inv1, of r'] by (simp add: outcome_ok_def)
  next
    case (Ready res)
    show ?thesis
    proof (cases res)
      case (Inl e)
      then have "r = Some (Ready (Err e))"
        using step out st False p Ready by (auto simp: poll_step_def Let_def)
      moreover have "fst (inner (er_inner er) ?cap) = Ready (Err e)"
        using source_other(2) [OF src] p Ready Inl by simp
      then have "\<exists>r cap. fst (inner r cap) = Ready (Err e)" by blast
      ultimately show ?thesis by (simp add: outcome_ok_def)
    next
      case (Inr bs)
      have p2: "poll_inner inner (er_inner er) ?cap = (Ready (Ok bs), r')" using p Ready Inr by simp
      have cap: "0 < ?cap" using fl by simp
      have rd: "length bs \<le> ?cap" "content (er_inner er) = bs @ content r'"
        "bs = [] \<Longrightarrow> content (er_inner er) = []"
        using source_read [OF src p2] cap by blast+
      have acc: "accept_plaintext P (?er1\<lparr>er_inner := r'\<rparr>) bs = (er', r)"
        using step out st False p Ready Inr by (simp add: poll_step_def Let_def)
      let ?pre = "er_plaintext_hasher ?er1 @ take (er_plaintext_chunk_filled ?er1) (er_plaintext_chunk ?er1)"
      have pl: "plain_inv content plain ?er1" using inv1 by (simp add: er_inv_def)
      then have plain: "plain = ?pre @ content (er_inner er)"
        by (simp add: plain_inv_def Let_def)
      show ?thesis
      proof (cases "bs = []")
        case True
        have "er_plaintext_chunk ?er1 \<noteq> []" using fl by auto
        then have "length (er_plaintext_hasher ?er1) < unat (es_total_plaintext_length (er_session er))"
          "length (er_plaintext_chunk ?er1) \<le> unat (es_total_plaintext_length (er_session er)) - length (er_plaintext_hasher ?er1)"
          using plain_inv_readingD [OF pl] by auto
        then have "length plain < unat (es_total_plaintext_length (er_session er))"
          using plain rd(3) True fl by simp
        moreover have "r = Some (Ready (Err source_shorter))"
          using acc True by (auto simp: accept_plaintext_def source_shorter_def)
        ultimately show ?thesis by (simp add: outcome_ok_def)
      next
        case False
        have "er_plaintext_chunk ?er1 \<noteq> []" using fl by auto
        then obtain er2 where a2: "accept_plaintext P (?er1\<lparr>er_inner := r'\<rparr>) bs = (er2, None)"
            "er_inv P content plain er2 emitted"
          using inv_accept [OF P, of content ?pre "er_inner er" ?er1 emitted bs r'] inv1 out rd False
          unfolding plain by auto
        have "er_session er2 = er_session er"
          using accept_session [OF a2(1)] by simp
        then show ?thesis using a2 acc by simp
      qed
    qed
  qed
qed

end
