(* ===== verification/Encrypt_Run.thy ===== *)
theory Encrypt_Run
  imports Encrypt_Contract
begin

text \<open>
  Whole polls and whole reads. \<open>drive\<close> is a caller that polls the reader with a sequence of
  buffer capacities, keeps what it is given, polls again after \<open>Pending\<close> and stops at the first
  error. The properties at the end say what such a caller gets.
\<close>

section \<open>One poll\<close>

lemma inv_step:
  assumes P: "prims_ok P" and src: "source_ok inner content" and inv: "er_inv P content plain er emitted"
    and step: "poll_step P inner n er = (er', r)"
  shows "case r of None \<Rightarrow> er_inv P content plain er' emitted \<and> er_session er' = er_session er
    | Some result \<Rightarrow> outcome_ok P inner content n plain emitted (er_session er) result er'"
proof (cases "er_output_position er < length (er_output er)")
  case True
  have "er_session er' = er_session er" using step True by (auto simp: poll_step_def Let_def)
  then show ?thesis using inv_emit [OF inv True step] by (auto simp: outcome_ok_def)
next
  case out: False
  let ?s = "er_session er"
  have pl: "plain_inv content plain er" and ou: "output_inv P er emitted"
    using inv by (simp_all add: er_inv_def)
  have s: "session_ok ?s" using pl by (rule plain_inv_session)
  show ?thesis
  proof (cases "er_state er")
    case EmittingHeader
    then have "er' = (queue_output er (es_header_bytes ?s))\<lparr>er_state := ReadingChunk\<rparr>" "r = None"
      using step out by (auto simp: poll_step_def)
    then show ?thesis using inv_header [OF inv out EmittingHeader] by simp
  next
    case ReadingChunk
    then show ?thesis using inv_reading_step [OF P src inv out _ step] by simp
  next
    case CheckingEof
    have ch: "er_plaintext_chunk er = []" using plain_inv_readingD(5) [OF pl] CheckingEof by auto
    have h: "length (er_plaintext_hasher er) = unat (es_total_plaintext_length ?s)"
      "plain = er_plaintext_hasher er @ content (er_inner er)"
      using pl CheckingEof ch by (simp_all add: plain_inv_def Let_def)
    obtain o' r' where p: "poll_inner inner (er_inner er) 1 = (o', r')" by fastforce
    show ?thesis
    proof (cases o')
      case Pending
      then have "er' = er\<lparr>er_inner := r'\<rparr>" "r = Some Pending"
        using step out CheckingEof p by (auto simp: poll_step_def)
      moreover have i: "inner (er_inner er) 1 = (Pending, r')" "content r' = content (er_inner er)"
        using source_other(1) [OF src] p Pending by simp_all
      moreover have "\<exists>r cap. fst (inner r cap) = Pending" using i(1) by (metis fst_conv)
      ultimately show ?thesis using inv_inner [OF inv, of r'] by (simp add: outcome_ok_def)
    next
      case (Ready res)
      show ?thesis
      proof (cases res)
        case (Inl e)
        then have "r = Some (Ready (Err e))"
          using step out CheckingEof p Ready by (auto simp: poll_step_def)
        moreover have "fst (inner (er_inner er) 1) = Ready (Err e)"
          using source_other(2) [OF src] p Ready Inl by simp
        then have "\<exists>r cap. fst (inner r cap) = Ready (Err e)" by blast
        ultimately show ?thesis by (simp add: outcome_ok_def)
      next
        case (Inr bs)
        have rd: "content (er_inner er) = bs @ content r'" "bs = [] \<longrightarrow> content (er_inner er) = []"
          using source_read [OF src, of "er_inner er" 1 bs r'] p Ready Inr by auto
        show ?thesis
        proof (cases "bs = []")
          case False
          then have "r = Some (Ready (Err source_longer))"
            using step out CheckingEof p Ready Inr by (auto simp: poll_step_def source_longer_def)
          moreover have "unat (es_total_plaintext_length ?s) < length plain"
            using False rd h by simp
          ultimately show ?thesis by (simp add: outcome_ok_def)
        next
          case True
          have r: "er' = er\<lparr>er_inner := r', er_state := EmittingFinalRecord\<rparr>" "r = None"
            using step out CheckingEof p Ready Inr True by (simp_all add: poll_step_def)
          have "content r' = []" "content (er_inner er) = []" using True rd by auto
          then have "plain_inv content plain er'" using pl r CheckingEof ch
            by (simp add: plain_inv_def Let_def)
          moreover have "output_inv P er' emitted"
            using ou r CheckingEof by (simp add: output_inv_def queued_def)
          ultimately show ?thesis using r by (simp add: er_inv_def)
        qed
      qed
    qed
  next
    case EmittingFinalRecord
    have ch: "er_plaintext_chunk er = []" using plain_inv_readingD(5) [OF pl] EmittingFinalRecord by auto
    have h: "length (er_plaintext_hasher er) = unat (es_total_plaintext_length ?s)"
      using pl EmittingFinalRecord by (simp add: plain_inv_def Let_def)
    let ?fr = "final_record P (session_ctx ?s) (er_plaintext_hasher er)"
    have b: "build_final_record P er = Ok ?fr" using build_final_record_Ok [OF P s] .
    have c: "ctx_ok (session_ctx ?s)" using s by (simp add: session_ok_def)
    have lf: "length ?fr = 68" using length_final_record [OF P c] .
    have q: "length (queued P er) + 68 = unat (es_total_ciphertext_length ?s)"
      using EmittingFinalRecord h s length_records_from [OF P c, of 0 "er_plaintext_hasher er"]
      by (simp add: queued_def Let_def session_ok_def envelope_length_def)
    have small: "length (queued P er) + 68 < 2 ^ 64"
      using queued_length [OF P s] h by simp
    have em: "unat (er_ciphertext_emitted er) = length (queued P er)"
      using ou by (simp add: output_inv_def)
    have "unat (saturating_add_u64 (er_ciphertext_emitted er) (of_nat (length ?fr)))
        = unat (es_total_ciphertext_length ?s)"
      using em small q lf by (simp add: unat_saturating_add_u64 del: unat_u64_less)
    then have "saturating_add_u64 (er_ciphertext_emitted er) (of_nat (length ?fr))
        = es_total_ciphertext_length ?s" by (simp only: word_unat_eq_iff)
    then have r: "er' = (queue_output er ?fr)\<lparr>er_state := Done\<rparr>" "r = None"
      using step out EmittingFinalRecord b by (auto simp: poll_step_def)
    have "plain_inv content plain er'" using pl r EmittingFinalRecord ch
      by (simp add: plain_inv_def Let_def)
    moreover have q': "queued P er' = queued P er @ ?fr"
      using r EmittingFinalRecord by (simp add: queued_def Let_def)
    have "output_inv P er' emitted"
      by (rule output_inv_queue [OF ou out q']) (use small lf r in \<open>simp_all add: queue_output_def\<close>)
    ultimately show ?thesis using r by (simp add: er_inv_def)
  next
    case Done
    then have "er' = er" "r = Some (Ready (Ok []))"
      using step out by (auto simp: poll_step_def)
    then show ?thesis using inv out Done unfolding outcome_ok_def
      by simp
  qed
qed

lemma poll_read_ok:
  "prims_ok P \<Longrightarrow> source_ok inner content \<Longrightarrow> er_inv P content plain er emitted \<Longrightarrow>
   outcome_ok P inner content n plain emitted (er_session er) (fst (poll_read P inner n er))
     (snd (poll_read P inner n er))"
proof (induction P inner n er rule: poll_read.induct)
  case (1 P inner n er)
  obtain er1 r where step: "poll_step P inner n er = (er1, r)" by fastforce
  note S = inv_step [OF 1(2-4) step]
  show ?case
  proof (cases r)
    case None
    then have "poll_read P inner n er = poll_read P inner n er1"
      using step by (subst poll_read.simps) simp
    then show ?thesis using S "1.IH" [OF _ None 1(2,3), of er1] step None by fastforce
  next
    case (Some result)
    then have "poll_read P inner n er = (result, er1)"
      using step by (subst poll_read.simps) simp
    then show ?thesis using S Some by simp
  qed
qed

section \<open>A caller's run\<close>

fun drive ::
  "prims \<Rightarrow> 'r source \<Rightarrow> nat list \<Rightarrow> 'r encrypting_reader \<Rightarrow> bytes \<times> io_error option \<times> 'r encrypting_reader" where
  "drive P inner [] er = ([], None, er)"
| "drive P inner (n # ns) er =
     (case poll_read P inner n er of
        (Pending, er') \<Rightarrow> drive P inner ns er'
      | (Ready (Inl e), er') \<Rightarrow> ([], Some e, er')
      | (Ready (Inr bs), er') \<Rightarrow>
          (case drive P inner ns er' of (out, e, er'') \<Rightarrow> (bs @ out, e, er'')))"

definition completed :: "'r encrypting_reader \<Rightarrow> bool" where
  "completed er \<longleftrightarrow> er_state er = Done \<and> \<not> er_output_position er < length (er_output er)"

lemma poll_read_completed: "completed er \<Longrightarrow> poll_read P inner n er = (Ready (Ok []), er)"
  by (subst poll_read.simps) (simp add: poll_step_def completed_def)

lemma drive_completed: "completed er \<Longrightarrow> drive P inner ns er = ([], None, er)"
  by (induction ns) (simp_all add: poll_read_completed)

definition run_error :: "'r source \<Rightarrow> bytes \<Rightarrow> encryption_session \<Rightarrow> io_error \<Rightarrow> bool" where
  "run_error inner plain s e \<longleftrightarrow>
     (\<exists>r cap. fst (inner r cap) = Ready (Err e)) \<or>
     e = source_shorter \<and> length plain < unat (es_total_plaintext_length s) \<or>
     e = source_longer \<and> unat (es_total_plaintext_length s) < length plain"

lemma drive_ok:
  assumes P: "prims_ok P" and src: "source_ok inner content"
  shows "er_inv P content plain er emitted \<Longrightarrow> drive P inner ns er = (out, e, er') \<Longrightarrow>
     (case e of
        None \<Rightarrow> er_inv P content plain er' (emitted @ out) \<and> er_session er' = er_session er
      | Some err \<Rightarrow> run_error inner plain (er_session er) err) \<and>
     (\<exists>er''. er_inv P content plain er'' (emitted @ out) \<and> er_session er'' = er_session er)"
proof (induction ns arbitrary: er emitted out)
  case Nil
  then show ?case by auto
next
  case (Cons n ns)
  obtain o' er1 where p: "poll_read P inner n er = (o', er1)" by fastforce
  have O: "outcome_ok P inner content n plain emitted (er_session er) o' er1"
    using poll_read_ok [OF P src Cons.prems(1), of n] p by simp
  show ?case
  proof (cases o')
    case Pending
    then have "er_inv P content plain er1 emitted" "er_session er1 = er_session er"
      using O by (simp_all add: outcome_ok_def)
    then show ?thesis using Cons.IH [of er1 emitted out] Cons.prems(2) p Pending
      by (simp split: option.splits)
  next
    case (Ready res)
    show ?thesis
    proof (cases res)
      case (Inl err)
      then have "out = []" "e = Some err" using Cons.prems(2) p Ready by simp_all
      then show ?thesis using O Ready Inl Cons.prems(1) by (auto simp: outcome_ok_def run_error_def)
    next
      case (Inr bs)
      obtain out1 where o1: "drive P inner ns er1 = (out1, e, er')" "out = bs @ out1"
        using Cons.prems(2) p Ready Inr by (auto split: prod.splits)
      have "er_inv P content plain er1 (emitted @ bs)" "er_session er1 = er_session er"
        using O Ready Inr by (simp_all add: outcome_ok_def)
      then show ?thesis using Cons.IH [of er1 "emitted @ bs" out1] o1
        by (simp split: option.splits)
    qed
  qed
qed

text \<open>With a source that always has an answer, every poll with room hands out at least one byte
  until everything has been handed out.\<close>

definition source_ready :: "'r source \<Rightarrow> bool" where
  "source_ready inner \<longleftrightarrow> (\<forall>r cap. \<exists>bs. fst (inner r cap) = Ready (Ok bs))"

lemma drive_progress:
  assumes P: "prims_ok P" and src: "source_ok inner content" and rdy: "source_ready inner"
  shows "er_inv P content plain er emitted \<Longrightarrow> \<forall>n\<in>set ns. 0 < n \<Longrightarrow>
     drive P inner ns er = (out, None, er') \<Longrightarrow> completed er' \<or> length ns \<le> length out"
proof (induction ns arbitrary: er emitted out)
  case Nil
  then show ?case by auto
next
  case (Cons n ns)
  obtain o' er1 where p: "poll_read P inner n er = (o', er1)" by fastforce
  have O: "outcome_ok P inner content n plain emitted (er_session er) o' er1"
    using poll_read_ok [OF P src Cons.prems(1), of n] p by simp
  have "o' \<noteq> Pending" using O rdy by (auto simp: outcome_ok_def source_ready_def) (metis poll.distinct(1))
  then obtain bs out1 where o': "o' = Ready (Ok bs)" and o1: "drive P inner ns er1 = (out1, None, er')"
      "out = bs @ out1"
    using Cons.prems(3) p by (auto split: poll.splits sum.splits prod.splits)
  have inv1: "er_inv P content plain er1 (emitted @ bs)"
    and e: "bs = [] \<Longrightarrow> completed er1"
    using O o' Cons.prems(2) by (simp_all add: outcome_ok_def completed_def)
  show ?case
  proof (cases "bs = []")
    case True
    then show ?thesis using e drive_completed [of er1 P inner ns] o1 by simp
  next
    case False
    then have "Suc 0 \<le> length bs" by (cases bs) simp_all
    moreover have "completed er' \<or> length ns \<le> length out1"
      by (rule Cons.IH [OF inv1 _ o1(1)]) (use Cons.prems(2) in simp)
    ultimately show ?thesis using o1(2) by auto
  qed
qed

lemma completed_exact:
  assumes "er_inv P content plain er out" and "completed er"
  shows "length plain = unat (es_total_plaintext_length (er_session er))
    \<and> out = session_envelope P (er_session er) plain"
proof -
  from assms have pl: "plain_inv content plain er" and ou: "output_inv P er out"
    and st: "er_state er = Done" by (simp_all add: er_inv_def completed_def)
  have ch: "er_plaintext_chunk er = []" using plain_inv_readingD(5) [OF pl] st by auto
  have h: "plain = er_plaintext_hasher er" "length plain = unat (es_total_plaintext_length (er_session er))"
    using pl st ch by (simp_all add: plain_inv_def Let_def)
  then show ?thesis
    using ou assms(2) st by (simp add: output_inv_def queued_def Let_def completed_def session_envelope_def envelope_body_def)
qed

section \<open>The sessions the code opens\<close>

lemma session_okI:
  assumes P: "prims_ok P" and k: "derive_domain_key_32 P dek CONTENT_ENC = Ok ck"
    and len: "calculate_ciphertext_length plain cs (of_nat (length hb)) = Ok tot"
    and hb: "length hb < 2 ^ 32" and np: "length (es_nonce_prefix s) = 16"
    and s: "es_content_key s = ck" "es_chunk_size s = cs" "es_total_plaintext_length s = plain"
      "es_chunk_count s = calculate_chunk_count plain cs" "es_header_bytes s = hb"
      "es_total_ciphertext_length s = tot"
  shows "session_ok s"
proof -
  have lk: "length ck = 32" using derive_domain_key_32_Ok [OF P, of dek CONTENT_ENC] k by auto
  have u: "unat (word_of_nat (length hb) :: u32) = length hb" using hb by (rule unat_word_of_nat_u32)
  note L = chunk_count_when_sized [OF len]
  note C = len [unfolded calculate_ciphertext_length_cases u L]
  from C have b: "hb \<noteq> []" by auto
  show ?thesis
    using C L lk np s b by (simp add: session_ok_def ctx_ok_def session_ctx_def envelope_length_def)
qed

text \<open>A session as the code obtains it: built for a new upload from fixed-size arrays, or continued
  from the header of an earlier one.\<close>

definition opened_session :: "prims \<Rightarrow> encryption_session \<Rightarrow> bool" where
  "opened_session P s \<longleftrightarrow>
     (\<exists>len slots meta dek uuid np. new_with_keys P len slots meta dek uuid np = Ok s \<and>
        length uuid = 16 \<and> length np = 16 \<and> (\<forall>x\<in>set slots. slot_sized x)) \<or>
     (\<exists>hb dek. from_header P hb dek = Ok s \<and> length hb < 2 ^ 32)"

lemma from_header_resumes:
  assumes P: "prims_ok P" and len: "length uuid = 16" "length np = 16" and sl: "\<forall>x\<in>set slots. slot_sized x"
    and n: "new_with_keys P plain slots meta dek uuid np = Ok s"
  shows "from_header P (es_header_bytes s) dek = Ok s \<and> length (es_header_bytes s) < 2 ^ 32"
proof -
  obtain hb h m tot ck where b: "EnvelopeHeader_build P uuid DEFAULT_CHUNK_SIZE slots meta plain np dek = Ok hb"
    and h: "EnvelopeHeader_parse hb = Ok h" and v: "verify_and_decrypt_metadata P h dek = Ok m"
    and t: "calculate_ciphertext_length plain DEFAULT_CHUNK_SIZE (of_nat (length hb)) = Ok tot"
    and k: "derive_domain_key_32 P dek CONTENT_ENC = Ok ck"
    and s: "s = \<lparr>es_file_uuid = uuid, es_dek = dek, es_content_key = ck,
          es_nonce_prefix = np, es_chunk_size = DEFAULT_CHUNK_SIZE,
          es_total_plaintext_length = plain,
          es_chunk_count = calculate_chunk_count plain DEFAULT_CHUNK_SIZE,
          es_header_bytes = hb,
          es_metadata_ct_length = unat (ch_encrypted_metadata_length (eh_core h)),
          es_total_ciphertext_length = tot,
          es_header_authenticator = ch_header_authenticator (eh_core h)\<rparr>"
    using n by (auto simp: new_with_keys_def Let_def)
  have p: "ch_file_uuid (eh_core h) = uuid" "ch_chunk_size (eh_core h) = DEFAULT_CHUNK_SIZE"
    "ch_total_plaintext_length (eh_core h) = plain" "ch_nonce_prefix (eh_core h) = np"
    "unat (ch_header_length (eh_core h)) = length hb"
    using build_parses [OF P len sl b, of "[]"] h by auto
  have "unat (ch_header_length (eh_core h)) < 2 ^ 32" using unat_u32_less by simp
  then have "length hb < 2 ^ 32" by (simp only: p)
  moreover have "from_header P hb dek = Ok s"
    using h v t k by (simp add: from_header_def Let_def p s DEFAULT_CHUNK_SIZE_def)
  ultimately show ?thesis by (simp add: s)
qed

lemma from_header_ok:
  assumes P: "prims_ok P" and hb: "length hb < 2 ^ 32" and f: "from_header P hb dek = Ok s"
  shows "session_ok s"
proof -
  obtain h tot ck where h: "EnvelopeHeader_parse hb = Ok h"
    and t: "calculate_ciphertext_length (ch_total_plaintext_length (eh_core h)) (ch_chunk_size (eh_core h))
      (of_nat (length hb)) = Ok tot"
    and k: "derive_domain_key_32 P dek CONTENT_ENC = Ok ck"
    and s: "es_content_key s = ck" "es_chunk_size s = ch_chunk_size (eh_core h)"
      "es_total_plaintext_length s = ch_total_plaintext_length (eh_core h)"
      "es_chunk_count s = calculate_chunk_count (ch_total_plaintext_length (eh_core h)) (ch_chunk_size (eh_core h))"
      "es_header_bytes s = hb" "es_total_ciphertext_length s = tot"
      "es_nonce_prefix s = ch_nonce_prefix (eh_core h)"
    using f by (auto simp: from_header_def Let_def)
  have "core_valid (eh_core h)" using accepted_layout [OF h] by metis
  then have "length (es_nonce_prefix s) = 16" using s by (simp add: core_valid_def)
  then show ?thesis using session_okI [OF P k t hb] s by blast
qed

lemma opened_session_ok: "prims_ok P \<Longrightarrow> opened_session P s \<Longrightarrow> session_ok s"
  unfolding opened_session_def using from_header_resumes from_header_ok by meson

definition demo_session :: encryption_session where
  "demo_session = (case new_with_keys demo_prims 70000 [demo_slot] [1, 2, 3] (replicate 32 4)
     (replicate 16 7) (replicate 16 8) of Inr s \<Rightarrow> s)"

lemma demo_session_new:
  "new_with_keys demo_prims 70000 [demo_slot] [1, 2, 3] (replicate 32 4) (replicate 16 7) (replicate 16 8)
     = Ok demo_session"
  "es_total_plaintext_length demo_session = 70000"
proof -
  obtain hb where b: "EnvelopeHeader_build demo_prims (replicate 16 7) DEFAULT_CHUNK_SIZE [demo_slot] [1, 2, 3]
      70000 (replicate 16 8) (replicate 32 4) = Ok hb"
    using build_total [OF demo_prims_ok, of "replicate 16 8" "[demo_slot]" "replicate 16 7" DEFAULT_CHUNK_SIZE
        "[1, 2, 3]" 70000 "replicate 32 4"] demo_slot_sized demo_slot_validate
    by (auto simp: DEFAULT_CHUNK_SIZE_def)
  obtain h where h: "EnvelopeHeader_parse (hb @ []) = Ok h"
      "verify_and_decrypt_metadata demo_prims h (replicate 32 4) = Ok [1, 2, 3]"
      "unat (ch_header_length (eh_core h)) = length hb"
    using build_parses [OF demo_prims_ok _ _ _ b, of "[]"] demo_slot_sized by auto
  have "core_valid (eh_core h)" using accepted_layout [OF h(1)] by metis
  then have hl: "98 \<le> length hb" "length hb \<le> 65536" using h(3) by (simp_all add: core_valid_def)
  obtain k where k: "derive_domain_key_32 demo_prims (replicate 32 4) CONTENT_ENC = Ok k"
    using derive_domain_key_32_Ok [OF demo_prims_ok] by blast
  obtain t' :: u64 where t': "unat t' = length hb + 70084"
    using unat_word_of_nat_u64 [of "length hb + 70084"] hl by auto
  have "\<exists>t. calculate_ciphertext_length 70000 DEFAULT_CHUNK_SIZE (word_of_nat (length hb)) = Ok t"
    unfolding calculate_ciphertext_length_cases
    by (rule exI [of _ t'])
      (use hl t' in \<open>simp add: DEFAULT_CHUNK_SIZE_def unat_word_of_nat_u32
        calculate_chunk_count_def div_ceil_u64_def\<close>)
  then obtain t where t: "calculate_ciphertext_length 70000 DEFAULT_CHUNK_SIZE (word_of_nat (length hb)) = Ok t" ..
  have "\<exists>s. new_with_keys demo_prims 70000 [demo_slot] [1, 2, 3] (replicate 32 4) (replicate 16 7)
      (replicate 16 8) = Ok s \<and> es_total_plaintext_length s = 70000"
    using b h k t by (simp add: new_with_keys_def Let_def)
  then show "new_with_keys demo_prims 70000 [demo_slot] [1, 2, 3] (replicate 32 4) (replicate 16 7)
      (replicate 16 8) = Ok demo_session" "es_total_plaintext_length demo_session = 70000"
    unfolding demo_session_def by auto
qed

lemma demo_session_opened: "opened_session demo_prims demo_session"
  unfolding opened_session_def
  by (intro disjI1 exI conjI, rule demo_session_new(1)) (simp_all add: demo_slot_sized)

section \<open>Properties\<close>

text \<open>when the reader has handed out everything, its source held exactly the announced number
  of bytes and what was handed out is the header, the sealed records of the source and the sealed
  final record, of the length announced to Telegram. This holds for every pattern of short reads,
  \<open>Pending\<close> answers and buffer sizes.\<close>

theorem encrypt_emits_envelope:
  assumes "prims_ok P" and "source_ok inner content" and "opened_session P s"
    and "drive P inner caps (EncryptingReader_new r s) = (out, None, er')" and "completed er'"
  shows "length (content r) = unat (es_total_plaintext_length s)
    \<and> out = session_envelope P s (content r)
    \<and> length out = unat (es_total_ciphertext_length s)"
proof -
  note so = opened_session_ok [OF assms(1,3)]
  have "er_inv P content (content r) er' ([] @ out) \<and> er_session er' = s"
    using drive_ok [OF assms(1,2) er_inv_new [OF so] assms(4)]
    by (simp add: EncryptingReader_new_def)
  then show ?thesis
    using completed_exact [of P content "content r" er' out] assms(5)
      length_session_envelope [OF assms(1) so, of "content r"] by simp
qed

text \<open>A source that hands out a byte string in pieces of at most four bytes.\<close>

definition piece_source :: "bytes source" where
  "piece_source r cap = (Ready (Ok (take (min cap 4) r)), drop (min cap 4) r)"

lemma piece_source_ok: "source_ok piece_source (\<lambda>r. r)"
  by (auto simp: source_ok_def piece_source_def)

lemma piece_source_ready: "source_ready piece_source"
  by (simp add: source_ready_def piece_source_def)

lemma er_inv_emitted_less:
  assumes P: "prims_ok P" and inv: "er_inv P content plain er emitted" and nc: "\<not> completed er"
  shows "length emitted < unat (es_total_ciphertext_length (er_session er))"
proof -
  let ?s = "er_session er" and ?k = "unat (es_chunk_size (er_session er))"
  let ?n = "length (er_plaintext_hasher er)" and ?t = "unat (es_total_plaintext_length (er_session er))"
  have pl: "plain_inv content plain er" and ou: "output_inv P er emitted"
    using inv by (simp_all add: er_inv_def)
  have s: "session_ok ?s" using pl by (rule plain_inv_session)
  then have c: "ctx_ok (session_ctx ?s)" by (simp add: session_ok_def)
  have n: "?n \<le> ?t" using pl by (simp add: plain_inv_def Let_def)
  have k: "0 < ?k" using c by (simp add: ctx_ok_def)
  have mono: "ceil_div ?n ?k \<le> ceil_div ?t ?k"
    by (rule ccontr) (use n k in \<open>metis less_ceil_div_iff not_le less_irrefl order_less_le_trans\<close>)
  have tot: "unat (es_total_ciphertext_length ?s) = length (es_header_bytes ?s) + ?t + 16 * ceil_div ?t ?k + 68"
    using s by (simp add: session_ok_def envelope_length_def)
  note lr = length_records_from [OF P c, of 0 "er_plaintext_hasher er"]
  note lf = length_final_record [OF P c, of "er_plaintext_hasher er"]
  have le: "length emitted + length (drop (er_output_position er) (er_output er)) = length (queued P er)"
    using ou by (metis output_inv_def length_append)
  show ?thesis
  proof (cases "er_state er = Done")
    case True
    then have "0 < length (drop (er_output_position er) (er_output er))"
      using nc by (simp add: completed_def)
    moreover have "length (queued P er) \<le> unat (es_total_ciphertext_length ?s)"
      using True n mono tot lr lf by (simp add: queued_def Let_def)
    ultimately show ?thesis using le by linarith
  next
    case False
    then have "length (queued P er) < unat (es_total_ciphertext_length ?s)"
      using n mono tot lr by (cases "er_state er") (simp_all add: queued_def Let_def)
    then show ?thesis using le by linarith
  qed
qed

lemma drive_new:
  assumes "prims_ok P" and "source_ok inner content" and "opened_session P s"
    and "drive P inner caps (EncryptingReader_new r s) = (out, e, er')"
  shows "case e of
        None \<Rightarrow> er_inv P content (content r) er' out \<and> er_session er' = s
      | Some err \<Rightarrow> run_error inner (content r) s err"
    and "length out \<le> unat (es_total_ciphertext_length s)"
proof -
  note so = opened_session_ok [OF assms(1,3)]
  note D = drive_ok [OF assms(1,2) er_inv_new [OF so, of P content r] assms(4)]
  show "case e of
        None \<Rightarrow> er_inv P content (content r) er' out \<and> er_session er' = s
      | Some err \<Rightarrow> run_error inner (content r) s err"
    using D by (simp add: EncryptingReader_new_def split: option.splits)
  obtain er'' where e: "er_inv P content (content r) er'' out" "er_session er'' = s"
    using D by (auto simp: EncryptingReader_new_def)
  show "length out \<le> unat (es_total_ciphertext_length s)"
  proof (cases "completed er''")
    case True
    then show ?thesis using completed_exact [OF e(1)] length_session_envelope [OF assms(1) so] e(2) by simp
  next
    case False
    then show ?thesis using er_inv_emitted_less [OF assms(1) e(1)] e(2) by simp
  qed
qed

lemma drive_ready:
  assumes P: "prims_ok P" and src: "source_ok inner content" "source_ready inner" and s: "opened_session P s"
    and caps: "\<forall>n\<in>set caps. 0 < n" "unat (es_total_ciphertext_length s) \<le> length caps"
    and d: "drive P inner caps (EncryptingReader_new r s) = (out, e, er')"
  shows "(length (content r) = unat (es_total_plaintext_length s) \<longrightarrow> e = None \<and> completed er') \<and>
    (length (content r) < unat (es_total_plaintext_length s) \<longrightarrow> e = Some source_shorter) \<and>
    (unat (es_total_plaintext_length s) < length (content r) \<longrightarrow> e = Some source_longer)"
proof -
  note so = opened_session_ok [OF P s]
  note D = drive_new(1) [OF P src(1) s d]
  have fin: "completed er' \<and> length (content r) = unat (es_total_plaintext_length s)" if "e = None"
  proof -
    have inv: "er_inv P content (content r) er' out" "er_session er' = s" using D that by simp_all
    have "completed er' \<or> length caps \<le> length out"
      using drive_progress [OF P src er_inv_new [OF so] caps(1)] d that by blast
    then have "completed er'" using er_inv_emitted_less [OF P inv(1)] inv(2) caps(2) by fastforce
    then show ?thesis using completed_exact [OF inv(1)] inv(2) by simp
  qed
  show ?thesis
  proof (cases e)
    case None
    then show ?thesis using fin by simp
  next
    case (Some err)
    have "\<not> (\<exists>r cap. fst (inner r cap) = Ready (Err err))"
      using src(2) by (simp add: source_ready_def) (metis poll.inject sum.distinct(1))
    then show ?thesis using D Some by (auto simp: run_error_def)
  qed
qed

lemma demo_drive:
  "\<exists>out er'. drive demo_prims piece_source (replicate (unat (es_total_ciphertext_length demo_session)) 5)
     (EncryptingReader_new (replicate 70000 1) demo_session) = (out, None, er') \<and> completed er'"
proof -
  obtain out e er' where d: "drive demo_prims piece_source
      (replicate (unat (es_total_ciphertext_length demo_session)) 5)
      (EncryptingReader_new (replicate 70000 1) demo_session) = (out, e, er')"
    using prod_cases3 by blast
  then show ?thesis
    using drive_ready [OF demo_prims_ok piece_source_ok piece_source_ready demo_session_opened _ _ d]
    by (simp add: demo_session_new(2) del: replicate.simps)
qed

theorem encrypt_emits_envelope_witness:
  "\<exists>caps out er'. drive demo_prims piece_source caps (EncryptingReader_new (replicate 70000 1) demo_session)
      = (out, None, er') \<and> completed er' \<and> out = session_envelope demo_prims demo_session (replicate 70000 1)"
  using demo_drive encrypt_emits_envelope [OF demo_prims_ok piece_source_ok demo_session_opened] by blast

text \<open>with a source that always answers, polling with non-empty buffers as often as there are
  bytes to send ends: a source of the announced length yields the complete envelope, a shorter
  one the error \<open>UnexpectedEof\<close>, a longer one \<open>InvalidData\<close>.\<close>

theorem encrypt_run_ends:
  assumes "prims_ok P" and "source_ok inner content" and "source_ready inner" and "opened_session P s"
    and "\<forall>n\<in>set caps. 0 < n" and "unat (es_total_ciphertext_length s) \<le> length caps"
    and "drive P inner caps (EncryptingReader_new r s) = (out, e, er')"
  shows "(length (content r) = unat (es_total_plaintext_length s) \<longrightarrow> e = None \<and> completed er') \<and>
    (length (content r) < unat (es_total_plaintext_length s) \<longrightarrow> e = Some source_shorter) \<and>
    (unat (es_total_plaintext_length s) < length (content r) \<longrightarrow> e = Some source_longer)"
  using assms by (rule drive_ready)

theorem encrypt_run_ends_witness:
  "\<exists>out er'. drive demo_prims piece_source (replicate (unat (es_total_ciphertext_length demo_session)) 5)
     (EncryptingReader_new (replicate 69999 1) demo_session) = (out, Some source_shorter, er')"
proof -
  obtain out e er' where d: "drive demo_prims piece_source
      (replicate (unat (es_total_ciphertext_length demo_session)) 5)
      (EncryptingReader_new (replicate 69999 1) demo_session) = (out, e, er')"
    using prod_cases3 by blast
  then show ?thesis
    using encrypt_run_ends [OF demo_prims_ok piece_source_ok piece_source_ready demo_session_opened _ _ d]
    by (simp add: demo_session_new(2) del: replicate.simps)
qed

text \<open>an interrupted upload continues with the same session: opening a session from the header
  of an earlier one gives back that very session, so the parts already sent stay valid.\<close>

theorem from_header_restores_session:
  assumes "prims_ok P" and "length uuid = 16" and "length np = 16" and "\<forall>x\<in>set slots. slot_sized x"
    and "new_with_keys P plain slots meta dek uuid np = Ok s"
  shows "from_header P (es_header_bytes s) dek = Ok s"
  using from_header_resumes [OF assms] by simp

theorem from_header_restores_session_witness:
  "from_header demo_prims (es_header_bytes demo_session) (replicate 32 4) = Ok demo_session"
  by (rule from_header_restores_session [OF demo_prims_ok _ _ _ demo_session_new(1)])
    (simp_all add: demo_slot_sized)

text \<open>no nonce is used twice under one content key: the nonces of the data records, of the final
  record and of the metadata record of a session are pairwise different.\<close>

theorem session_nonces_distinct:
  "distinct (map (session_nonce s) (METADATA_NONCE_INDEX # FINAL_RECORD_NONCE_INDEX #
     map of_nat [0..<unat (es_chunk_count s)]))"
proof -
  have inj: "session_nonce s i = session_nonce s j \<longleftrightarrow> i = j" for i j
    by (simp add: session_nonce_def)
  let ?idx = "METADATA_NONCE_INDEX # FINAL_RECORD_NONCE_INDEX # map of_nat [0..<unat (es_chunk_count s)] :: u64 list"
  have c: "unat (es_chunk_count s) \<le> 4294967295"
    using unat_u32_less [of "es_chunk_count s"] by (simp del: unat_u32_less)
  have u: "i < unat (es_chunk_count s) \<Longrightarrow> unat (of_nat i :: u64) = i" for i
    using c by (intro unat_word_of_nat_u64) simp
  have "inj_on (of_nat :: nat \<Rightarrow> u64) {0..<unat (es_chunk_count s)}"
    by (rule inj_onI) (metis u atLeastLessThan_iff)
  moreover have "of_nat i \<noteq> METADATA_NONCE_INDEX \<and> of_nat i \<noteq> FINAL_RECORD_NONCE_INDEX"
    if "i < unat (es_chunk_count s)" for i
    using u [OF that] that c by (auto simp: METADATA_NONCE_INDEX_def FINAL_RECORD_NONCE_INDEX_def)
  ultimately have "distinct ?idx"
    by (auto simp: distinct_map METADATA_NONCE_INDEX_def FINAL_RECORD_NONCE_INDEX_def)
  then show ?thesis by (simp only: distinct_map) (simp add: inj_on_def inj)
qed

end
