(* ===== verification/Envelope_Layout.thy ===== *)
theory Envelope_Layout
  imports Crypto_Policy
begin

text \<open>
  What \<open>length.rs\<close> and \<open>range.rs\<close> promise about an envelope's layout: the ciphertext length
  is exact and bounded, the record range of a plaintext range covers it, record offsets are the
  prefix sums of the record sizes, and the two independent size computations agree.
\<close>

section \<open>Sums of record sizes\<close>

lemma record_plain_full: "0 < b \<Longrightarrow> j < a div b \<Longrightarrow> record_plain a b j = b"
proof -
  assume "0 < b" "j < a div b"
  then have "Suc j * b \<le> a" by (simp only: Suc_le_eq [symmetric] less_eq_div_iff_mult_less_eq)
  then show ?thesis by (simp add: record_plain_def)
qed

lemma sum_full_records: "0 < b \<Longrightarrow> i \<le> a div b \<Longrightarrow> (\<Sum>j<i. record_plain a b j + t) = i * (b + t)"
proof (induction i)
  case 0
  then show ?case by simp
next
  case (Suc i)
  then show ?case by (simp add: record_plain_full)
qed

lemma sum_all_records:
  assumes b: "0 < b"
  shows "(\<Sum>j<ceil_div a b. record_plain a b j + t) = a + ceil_div a b * t"
proof (cases "a mod b = 0")
  case True
  then have "ceil_div a b = a div b" by (simp add: ceil_div_def)
  then show ?thesis
    using True b sum_full_records [OF b, of "a div b" a t]
    by (simp add: algebra_simps) (metis True add.right_neutral div_mult_mod_eq mult.commute)
next
  case False
  then have n: "ceil_div a b = Suc (a div b)" by (simp add: ceil_div_def)
  have "record_plain a b (a div b) = a mod b"
    using b by (simp add: record_plain_def minus_div_mult_eq_mod less_imp_le)
  then have "(\<Sum>j<ceil_div a b. record_plain a b j + t) = a div b * (b + t) + (a mod b + t)"
    using b sum_full_records [OF b, of "a div b" a t] n by simp
  also have "\<dots> = a + ceil_div a b * t"
    by (simp add: n algebra_simps)
  finally show ?thesis .
qed

section \<open>Properties\<close>

text \<open>\<open>calculate_ciphertext_length\<close> succeeds exactly when the chunk size and header length
  are inside policy and the envelope fits Telegram's limit, and then returns the exact length
  (no wrap-around and no truncation of the chunk count).\<close>

theorem ciphertext_length_exact:
  "calculate_ciphertext_length len cs hl = Ok tot \<longleftrightarrow>
     65536 \<le> unat cs \<and> unat cs \<le> 16777216 \<and> 98 \<le> unat hl \<and> unat hl \<le> 65536 \<and>
     envelope_length (unat len) (unat cs) (unat hl) \<le> 2000000000 \<and>
     unat tot = envelope_length (unat len) (unat cs) (unat hl)"
  (is "?l \<longleftrightarrow> ?r")
proof
  assume l: ?l
  then show ?r
    using chunk_count_when_sized [OF l] by (simp add: calculate_ciphertext_length_cases envelope_length_def)
next
  assume r: ?r
  then have "ceil_div (unat len) (unat cs) \<le> unat len" by (intro ceil_div_le) simp
  with r have "ceil_div (unat len) (unat cs) < 2 ^ 32" by (simp add: envelope_length_def)
  with r have "unat (calculate_chunk_count len cs) = ceil_div (unat len) (unat cs)"
    by (intro unat_calculate_chunk_count) auto
  with r show ?l by (simp add: calculate_ciphertext_length_cases envelope_length_def)
qed

text \<open>the records returned for an inclusive plaintext range are records of the file and hold
  every byte of the range, and no record outside the range's own first and last is fetched.\<close>

theorem range_records_cover:
  assumes "plaintext_range_to_ciphertext_records s e cs len = Ok (f, l)"
    and "0 < unat cs" and "ceil_div (unat len) (unat cs) \<le> 2 ^ 32"
  shows "unat f = unat s div unat cs \<and> unat l = unat e div unat cs
    \<and> unat l < ceil_div (unat len) (unat cs)
    \<and> {unat s..unat e} \<subseteq> {unat f * unat cs..<Suc (unat l) * unat cs}"
proof -
  from assms(1) have se: "unat s \<le> unat e" "unat e < unat len"
    and fl: "f = ucast (s div ucast cs)" "l = ucast (e div ucast cs)"
    by (auto simp: plaintext_range_to_ciphertext_records_def Let_def not_less not_le
        word_le_nat_alt word_less_nat_alt split: if_splits)
  have e: "unat e div unat cs < ceil_div (unat len) (unat cs)"
    using se(2) assms(2) by (simp add: less_ceil_div_iff) (meson div_times_less_eq_dividend le_less_trans)
  have s: "unat s div unat cs \<le> unat e div unat cs"
    using se(1) by (rule div_le_mono)
  from e s assms(3) have small: "unat (e div ucast cs) < 2 ^ 32" "unat (s div ucast cs) < 2 ^ 32"
    by (simp_all add: unat_div)
  have f: "unat f = unat s div unat cs" and l: "unat l = unat e div unat cs"
    using small by (simp_all add: fl unat_ucast_u64_u32 unat_div del: unat_ucast_u32_u64) (simp_all add: unat_div)
  have "unat f * unat cs \<le> unat s" by (simp add: f)
  moreover have "unat e < Suc (unat l) * unat cs"
    unfolding l using dividend_less_div_times [OF assms(2), of "unat e"] by simp
  ultimately have "{unat s..unat e} \<subseteq> {unat f * unat cs..<Suc (unat l) * unat cs}"
    by (auto intro: order_trans)
  with e f l show ?thesis by simp
qed

theorem range_records_cover_witness:
  "plaintext_range_to_ciphertext_records 70000 140000 65536 200000 = Ok (1, 2) \<and>
   {70000..140000} \<subseteq> {65536..<3 * 65536 :: nat}"
proof -
  have h: "plaintext_range_to_ciphertext_records 70000 140000 65536 200000 = Ok (1, 2)"
    by (simp add: plaintext_range_to_ciphertext_records_def)
  have "ceil_div (unat (200000 :: u64)) (unat (65536 :: u32)) \<le> 2 ^ 32"
    by (simp add: ceil_div_def)
  with range_records_cover [OF h] h show ?thesis by simp
qed

text \<open>the offset of a record inside the data region is the sum of the sizes (plaintext plus
  16-byte tag) of the records before it; an index beyond the last record is refused.\<close>

theorem chunk_offset_is_prefix_sum:
  assumes "0 < unat cs" and "unat len + 16 * ceil_div (unat len) (unat cs) < 2 ^ 64"
  shows "chunk_ciphertext_offset i cs len =
    (if unat i < ceil_div (unat len) (unat cs)
     then Ok (word_of_nat (\<Sum>j<unat i. record_plain (unat len) (unat cs) j + 16))
     else Err (header_invalid ''Chunk index out of range''))"
proof -
  let ?q = "unat len div unat cs"
  have q: "unat (len div ucast cs) = ?q" and r: "unat (len mod ucast cs) = unat len mod unat cs"
    by (simp_all add: unat_div unat_mod)
  have rec: "(word_of_nat n :: u64) * (ucast cs + 16) =
      word_of_nat (\<Sum>j<n. record_plain (unat len) (unat cs) j + 16)" if "n \<le> ?q" for n
    using sum_full_records [OF assms(1) that, of 16]
    by simp
  have i: "(ucast i :: u64) = word_of_nat (unat i)" by (rule word_eq_of_nat) simp
  have lenq: "len div ucast cs = word_of_nat ?q" using q by (rule word_eq_of_nat)
  have r0: "0 < len mod ucast cs \<longleftrightarrow> unat len mod unat cs \<noteq> 0"
    using r by (simp add: word_less_nat_alt)
  have off: "(ucast i :: u64) * (ucast cs + 16) =
      word_of_nat (\<Sum>j<unat i. record_plain (unat len) (unat cs) j + 16)" if "unat i \<le> ?q"
    by (subst i) (rule rec [OF that])
  have n: "ceil_div (unat len) (unat cs) = (if unat len mod unat cs = 0 then ?q else Suc ?q)"
    by (simp add: ceil_div_def)
  consider "unat i < ?q" | "unat i = ?q" | "?q < unat i" by linarith
  then show ?thesis
  proof cases
    case 1
    then have "(ucast i :: u64) < len div ucast cs" by (simp add: word_less_nat_alt q)
    then show ?thesis using 1 off n
      by (simp add: chunk_ciphertext_offset_def Let_def policy_simps)
  next
    case 2
    then have eq: "len div ucast cs = (ucast i :: u64)" by (simp add: word_unat_eq_iff q)
    show ?thesis
      using 2 off r0 n by (simp add: chunk_ciphertext_offset_def Let_def policy_simps eq)
  next
    case 3
    then have "\<not> (ucast i :: u64) < len div ucast cs" "(ucast i :: u64) \<noteq> len div ucast cs"
      by (auto simp: word_less_nat_alt q word_unat_eq_iff)
    then show ?thesis using 3 n
      by (simp add: chunk_ciphertext_offset_def Let_def policy_simps)
  qed
qed

theorem chunk_offset_is_prefix_sum_witness:
  "chunk_ciphertext_offset 2 65536 200000 = Ok 131104 \<and>
   chunk_ciphertext_offset 4 65536 200000 = Err (header_invalid ''Chunk index out of range'')"
proof -
  have two: "(\<Sum>j<2. f j) = f 0 + f 1" for f :: "nat \<Rightarrow> nat"
    by (simp add: numeral_2_eq_2)
  have c: "ceil_div (unat (200000 :: u64)) (unat (65536 :: u32)) = 4" "ceil_div 200000 65536 = 4"
    by (simp_all add: ceil_div_def)
  have h: "0 < unat (65536 :: u32)"
    "unat (200000 :: u64) + 16 * ceil_div (unat (200000 :: u64)) (unat (65536 :: u32)) < 2 ^ 64"
    by (simp_all only: c) simp_all
  show ?thesis
    using chunk_offset_is_prefix_sum [OF h, of 2] chunk_offset_is_prefix_sum [OF h, of 4]
    by (simp add: c two record_plain_def)
qed

lemma data_ciphertext_size_exact:
  assumes "0 < unat cs" and "unat len + 16 * ceil_div (unat len) (unat cs) < 2 ^ 64"
  shows "data_ciphertext_size len cs = Ok (word_of_nat (unat len + 16 * ceil_div (unat len) (unat cs)))"
proof (cases "len = 0")
  case True
  then show ?thesis by (simp add: data_ciphertext_size_def Let_def)
next
  case False
  have r0: "0 < len mod ucast cs \<longleftrightarrow> unat len mod unat cs \<noteq> 0"
    by (simp add: word_less_nat_alt unat_mod)
  have lenq: "len div ucast cs = word_of_nat (unat len div unat cs)"
    by (rule word_eq_of_nat) (simp add: unat_div)
  show ?thesis
    using False r0 by (simp add: data_ciphertext_size_def Let_def policy_simps ceil_div_def lenq)
qed

text \<open>the size from the parsed header (\<open>total_envelope_size\<close> over \<open>data_ciphertext_size\<close>)
  is the length the writer declares (\<open>calculate_ciphertext_length\<close>).\<close>

theorem envelope_sizes_agree:
  assumes "calculate_ciphertext_length len cs hl = Ok tot"
  shows "rbind (data_ciphertext_size len cs) (total_envelope_size hl) = Ok tot"
proof -
  let ?n = "ceil_div (unat len) (unat cs)"
  from assms have r: "0 < unat cs" "unat hl + unat len + 16 * ?n + 68 \<le> 2000000000"
    "unat tot = unat hl + unat len + 16 * ?n + 68"
    using chunk_count_when_sized [OF assms]
    by (simp_all add: calculate_ciphertext_length_cases)
  let ?d = "word_of_nat (unat len + 16 * ?n) :: u64"
  have d: "data_ciphertext_size len cs = Ok ?d"
    using r by (intro data_ciphertext_size_exact) auto
  have ud: "unat ?d = unat len + 16 * ?n"
    using r by (intro unat_word_of_nat_u64) simp
  have a: "checked_add_u64 (ucast hl) ?d = Some (ucast hl + ?d)"
    and ua: "unat (ucast hl + ?d) = unat hl + unat len + 16 * ?n"
    using r ud by (simp_all add: checked_add_u64_def unat_word_ariths)
  have b: "checked_add_u64 (ucast hl + ?d) 68 = Some (ucast hl + ?d + 68)"
    and ub: "unat (ucast hl + ?d + 68) = unat tot"
    using r ua by (simp_all add: checked_add_u64_def unat_word_ariths)
  show ?thesis
    using d a b ub by (simp add: total_envelope_size_def policy_simps word_unat_eq_iff)
qed

theorem envelope_sizes_agree_witness:
  "rbind (data_ciphertext_size 200000 65536) (total_envelope_size 98) = Ok 200230"
  by (rule envelope_sizes_agree)
    (simp add: ciphertext_length_exact envelope_length_def ceil_div_def)

end
