(* ===== verification/Decrypt_Contract.thy ===== *)
theory Decrypt_Contract
  imports Decrypt_Reader Encrypt_Run Envelope_Layout
begin

text \<open>
  What the decoder promises: it accepts exactly the bodies the specification assigns to a
  plaintext, whatever the fragments; it inverts the encrypting reader; every proper prefix of a
  body is reported as truncated; single records can be opened at their computed offsets.
\<close>

definition reader_ctx :: "decrypt_reader \<Rightarrow> content_ctx" where
  "reader_ctx r = \<lparr>cc_content_key = dr_content_key r, cc_file_uuid = ch_file_uuid (dr_core r),
     cc_header_authenticator = ch_header_authenticator (dr_core r),
     cc_nonce_prefix = ch_nonce_prefix (dr_core r), cc_chunk_size = ch_chunk_size (dr_core r),
     cc_total = ch_total_plaintext_length (dr_core r), cc_chunk_count = chunk_count (dr_core r)\<rparr>"

lemma reader_ctx_simps [simp]:
  "cc_content_key (reader_ctx r) = dr_content_key r" "cc_nonce_prefix (reader_ctx r) = ch_nonce_prefix (dr_core r)"
  "cc_chunk_size (reader_ctx r) = ch_chunk_size (dr_core r)" "cc_total (reader_ctx r) = ch_total_plaintext_length (dr_core r)"
  "cc_chunk_count (reader_ctx r) = chunk_count (dr_core r)" "cc_file_uuid (reader_ctx r) = ch_file_uuid (dr_core r)"
  "cc_header_authenticator (reader_ctx r) = ch_header_authenticator (dr_core r)"
  by (simp_all add: reader_ctx_def)

lemma reader_bindings:
  "reader_nonce r i = record_nonce (ch_nonce_prefix (dr_core r)) i"
  "reader_chunk_aad r i off len = chunk_aad_of (reader_ctx r) i off len"
  "reader_final_aad r = final_aad_of (reader_ctx r)"
  by (simp_all add: reader_nonce_def record_nonce_def reader_chunk_aad_def chunk_aad_of_def
      reader_final_aad_def final_aad_of_def)

lemma chunk_count_mono:
  assumes "0 < k" and "a \<le> b" shows "ceil_div a k \<le> ceil_div b k"
  by (rule ccontr) (use assms in \<open>metis less_ceil_div_iff not_le less_irrefl order_less_le_trans\<close>)

section \<open>One record\<close>

text \<open>The reader stands before record \<open>i\<close>.\<close>

definition before_record :: "decrypt_reader \<Rightarrow> nat \<Rightarrow> bool" where
  "before_record r i \<longleftrightarrow>
     i \<le> unat (chunk_count (dr_core r)) \<and> unat (dr_chunk_index r) = i \<and>
     unat (dr_plaintext_position r) =
       min (i * unat (ch_chunk_size (dr_core r))) (unat (ch_total_plaintext_length (dr_core r)))"

lemma unat_next_plaintext_length:
  "next_plaintext_length r = min (unat (ch_chunk_size (dr_core r)))
     (unat (ch_total_plaintext_length (dr_core r)) - unat (dr_plaintext_position r))"
  by (simp add: next_plaintext_length_def min_def word_le_nat_alt unat_saturating_sub_u64)

definition take_record :: "decrypt_reader \<Rightarrow> bytes \<Rightarrow> decrypt_reader" where
  "take_record r m = r\<lparr>dr_plaintext_hasher := dr_plaintext_hasher r @ m,
     dr_plaintext_position := dr_plaintext_position r + of_nat (length m),
     dr_chunk_index := dr_chunk_index r + 1\<rparr>"

lemma before_record_facts:
  assumes "ctx_ok (reader_ctx r)" and "before_record r i" and "i < unat (chunk_count (dr_core r))"
  shows "i * unat (ch_chunk_size (dr_core r)) < unat (ch_total_plaintext_length (dr_core r))"
    and "unat (dr_plaintext_position r) = i * unat (ch_chunk_size (dr_core r))"
    and "next_plaintext_length r = min (unat (ch_chunk_size (dr_core r)))
      (unat (ch_total_plaintext_length (dr_core r)) - i * unat (ch_chunk_size (dr_core r)))"
    and "0 < next_plaintext_length r"
    and "dr_chunk_index r < chunk_count (dr_core r)"
proof -
  have k: "0 < unat (ch_chunk_size (dr_core r))"
    and n: "unat (chunk_count (dr_core r)) =
      ceil_div (unat (ch_total_plaintext_length (dr_core r))) (unat (ch_chunk_size (dr_core r)))"
    using assms(1) by (simp_all add: ctx_ok_def)
  show lt: "i * unat (ch_chunk_size (dr_core r)) < unat (ch_total_plaintext_length (dr_core r))"
    using assms(3) k by (simp add: n less_ceil_div_iff)
  then show p: "unat (dr_plaintext_position r) = i * unat (ch_chunk_size (dr_core r))"
    using assms(2) by (simp add: before_record_def)
  then show "next_plaintext_length r = min (unat (ch_chunk_size (dr_core r)))
      (unat (ch_total_plaintext_length (dr_core r)) - i * unat (ch_chunk_size (dr_core r)))"
    "0 < next_plaintext_length r"
    using lt k by (simp_all add: unat_next_plaintext_length)
  show "dr_chunk_index r < chunk_count (dr_core r)"
    using assms(2,3) by (simp add: before_record_def word_less_nat_alt)
qed

lemma min_step: "i * k < t \<Longrightarrow> i * k + min k (t - i * k) = min (Suc i * k) (t :: nat)"
  by (simp add: min_def) linarith

lemma min_rest: "min k (t - i * k) + (t - Suc i * k) = t - i * (k :: nat)"
  by (cases "k \<le> t - i * k") auto

lemma before_record_Suc:
  assumes c: "ctx_ok (reader_ctx r)" and b: "before_record r i" and i: "i < unat (chunk_count (dr_core r))"
    and m: "length m = next_plaintext_length r"
  shows "before_record (take_record r m) (Suc i)"
proof -
  note F = before_record_facts [OF c b i]
  have t: "unat (ch_total_plaintext_length (dr_core r)) \<le> 2000000000" using c by (simp add: ctx_ok_def)
  have i2: "unat (dr_chunk_index r) = i" using b by (simp add: before_record_def)
  have "Suc i < 2 ^ 32" using i unat_u32_less [of "chunk_count (dr_core r)"]
    by (simp del: unat_u32_less)
  then have "unat (dr_chunk_index r + 1) = Suc i"
    using i2 by (simp add: unat_word_ariths)
  moreover have "unat (dr_plaintext_position r + of_nat (length m)) = i * unat (ch_chunk_size (dr_core r)) + length m"
    using F t m by (simp add: unat_word_ariths unat_of_nat)
  ultimately show ?thesis
    using i by (simp only: before_record_def take_record_def m F(3) min_step [OF F(1)]) simp
qed

lemma take_record_frame [simp]:
  "dr_header (take_record r m) = dr_header r" "dr_content_key (take_record r m) = dr_content_key r"
  "reader_ctx (take_record r m) = reader_ctx r" "dr_buffer (take_record r m) = dr_buffer r"
  "reader_ctx (r\<lparr>dr_buffer := B\<rparr>) = reader_ctx r"
  "before_record (r\<lparr>dr_buffer := B\<rparr>) i = before_record r i"
  by (simp_all add: take_record_def reader_ctx_def before_record_def)

lemma decrypt_next_chunk_iff:
  assumes P: "prims_ok P" and c: "ctx_ok (reader_ctx r)" and b: "before_record r i"
    and i: "i < unat (chunk_count (dr_core r))"
  shows "decrypt_next_chunk P r ct (next_plaintext_length r) = (Ok m, r') \<longleftrightarrow>
    ct = record_at P (reader_ctx r) i m \<and> length m = next_plaintext_length r \<and> r' = take_record r m"
proof -
  note F = before_record_facts [OF c b i]
  let ?n = "next_plaintext_length r"
  have k: "key_ok P (dr_content_key r)" using P c by (simp add: ctx_ok_def prims_key_ok)
  have "?n \<le> 16777216" using c unfolding F(3) by (auto simp: ctx_ok_def)
  then have o: "aead_open P (dr_content_key r) (reader_nonce r idx) aad ct = Some x
      \<longleftrightarrow> ct = seal_content P (reader_ctx r) idx aad x" if "length x = ?n" for idx aad x
    using open_content_iff [OF P c, of x] that by (simp add: reader_bindings)
  have ix: "(ucast (dr_chunk_index r) :: u64) = of_nat i"
    by (rule word_eq_of_nat) (use b in \<open>simp add: before_record_def\<close>)
  have ps: "dr_plaintext_position r = of_nat (i * unat (ch_chunk_size (dr_core r)))"
    using F(2) by (rule word_eq_of_nat)
  let ?aad = "reader_chunk_aad r (of_nat i) (of_nat (i * unat (ch_chunk_size (dr_core r)))) (of_nat ?n)"
  have "decrypt_next_chunk P r ct ?n = (Ok m, r') \<longleftrightarrow>
      aead_open P (dr_content_key r) (reader_nonce r (of_nat i)) ?aad ct = Some m \<and> length m = ?n \<and> r' = take_record r m"
    unfolding decrypt_next_chunk_def take_record_def ix [symmetric] ps [symmetric]
    using k by (auto split: option.splits)
  also have "\<dots> \<longleftrightarrow> ct = record_at P (reader_ctx r) i m \<and> length m = ?n \<and> r' = take_record r m"
    using o [of m "of_nat i" ?aad] by (auto simp: record_at_def reader_bindings)
  finally show ?thesis .
qed

section \<open>All data records\<close>

definition after_records :: "decrypt_reader \<Rightarrow> bytes \<Rightarrow> bytes \<Rightarrow> decrypt_reader" where
  "after_records r plain rest = r\<lparr>dr_plaintext_hasher := dr_plaintext_hasher r @ plain,
     dr_plaintext_position := ch_total_plaintext_length (dr_core r),
     dr_chunk_index := chunk_count (dr_core r), dr_buffer := rest\<rparr>"

lemma after_take_record:
  "after_records (take_record (r\<lparr>dr_buffer := B\<rparr>) m) plain rest = after_records r (m @ plain) rest"
  by (simp add: after_records_def take_record_def)

lemma loop_iff:
  assumes P: "prims_ok P" and c: "ctx_ok (reader_ctx r)" and b: "before_record r i"
  shows "feed_loop P r out = (Ok (True, o'), r') \<longleftrightarrow>
    (\<exists>plain rest. dr_buffer r = records_from P (reader_ctx r) i plain @ rest \<and>
       length plain = unat (ch_total_plaintext_length (dr_core r)) - i * unat (ch_chunk_size (dr_core r)) \<and>
       o' = out @ plain \<and> r' = after_records r plain rest)"
  using c b
proof (induction "unat (chunk_count (dr_core r)) - i" arbitrary: r i out)
  case 0
  let ?t = "unat (ch_total_plaintext_length (dr_core r))" and ?k = "unat (ch_chunk_size (dr_core r))"
  have k: "0 < ?k" and n: "unat (chunk_count (dr_core r)) = ceil_div ?t ?k"
    using "0.prems"(1) by (simp_all add: ctx_ok_def)
  have i: "i = unat (chunk_count (dr_core r))" using 0 by (simp add: before_record_def)
  then have "\<not> i < ceil_div ?t ?k" using n by simp
  then have le: "?t \<le> i * ?k" using k by (simp add: less_ceil_div_iff)
  have ix: "dr_chunk_index r = chunk_count (dr_core r)" and ps: "dr_plaintext_position r = ch_total_plaintext_length (dr_core r)"
    using "0.prems"(2) i le by (simp_all add: before_record_def word_unat_eq_iff)
  have "after_records r [] (dr_buffer r) = r" using ix ps by (simp add: after_records_def)
  then show ?case using ix le by (auto simp: loop_complete)
next
  case (Suc d)
  let ?t = "unat (ch_total_plaintext_length (dr_core r))" and ?k = "unat (ch_chunk_size (dr_core r))"
  let ?n = "next_plaintext_length r" and ?c = "reader_ctx r"
  have i: "i < unat (chunk_count (dr_core r))" using Suc.hyps(2) by simp
  note F = before_record_facts [OF Suc.prems i]
  have k: "0 < ?k" using Suc.prems(1) by (simp add: ctx_ok_def)
  have lr: "length (record_at P ?c i m) = ?n + 16" if "length m = ?n" for m
    using length_record_at [OF P Suc.prems(1), of m i] that F(3) by simp
  show ?case
  proof (cases "record_length r \<le> length (dr_buffer r)")
    case False
    have "length (records_from P ?c i plain) \<ge> ?n + 16" if "length plain = ?t - i * ?k" for plain
    proof -
      have ne: "plain \<noteq> []" using that F(1) by auto
      have "length (take ?k plain) = ?n" using that F(3) by simp
      then show ?thesis using lr by (simp add: records_from_unfold [of ?c plain, simplified, OF k ne])
    qed
    then show ?thesis using False loop_wait [OF F(5), of P out] by fastforce
  next
    case True
    let ?rec = "take (record_length r) (dr_buffer r)" and ?more = "drop (record_length r) (dr_buffer r)"
    let ?r0 = "r\<lparr>dr_buffer := ?more\<rparr>"
    have D: "decrypt_next_chunk P ?r0 ?rec ?n = (Ok m, r1) \<longleftrightarrow>
        ?rec = record_at P ?c i m \<and> length m = ?n \<and> r1 = take_record ?r0 m" for m r1
      using decrypt_next_chunk_iff [OF P, of ?r0 i ?rec m r1] Suc.prems i by simp
    have IH: "feed_loop P (take_record ?r0 m) (out @ m) = (Ok (True, o'), r') \<longleftrightarrow>
        (\<exists>plain rest. ?more = records_from P ?c (Suc i) plain @ rest \<and>
           length plain = ?t - Suc i * ?k \<and> o' = (out @ m) @ plain \<and> r' = after_records r (m @ plain) rest)"
      if "length m = ?n" for m
      using Suc.hyps(1) [of "take_record ?r0 m" "Suc i" "out @ m"] Suc.hyps(2) Suc.prems
        before_record_Suc [of ?r0 i m] that i
      by (simp add: after_take_record)
    have "feed_loop P r out = (Ok (True, o'), r') \<longleftrightarrow>
        (\<exists>m r1. decrypt_next_chunk P ?r0 ?rec ?n = (Ok m, r1) \<and>
           feed_loop P r1 (out @ m) = (Ok (True, o'), r'))"
      unfolding loop_record [OF F(5) True] by (auto split: sum.splits prod.splits)
    also have "\<dots> \<longleftrightarrow>
        (\<exists>m. ?rec = record_at P ?c i m \<and> length m = ?n \<and>
           feed_loop P (take_record ?r0 m) (out @ m) = (Ok (True, o'), r'))"
      unfolding D by blast
    also have "\<dots> \<longleftrightarrow> (\<exists>m plain rest. dr_buffer r = record_at P ?c i m @ records_from P ?c (Suc i) plain @ rest \<and>
        length m = ?n \<and> length plain = ?t - Suc i * ?k \<and> o' = out @ m @ plain \<and> r' = after_records r (m @ plain) rest)"
      (is "?lhs \<longleftrightarrow> ?rhs")
    proof -
      have A: "?rec = record_at P ?c i m \<and> ?more = z \<longleftrightarrow> dr_buffer r = record_at P ?c i m @ z"
        if "length m = ?n" for m z
        using lr [OF that] by (metis append_eq_conv_conj append_take_drop_id)
      show ?thesis
      proof
        assume ?lhs
        then obtain m where m: "?rec = record_at P ?c i m" "length m = ?n"
          "feed_loop P (take_record ?r0 m) (out @ m) = (Ok (True, o'), r')" by blast
        from m(3) [unfolded IH [OF m(2)]] m(1) A [OF m(2)] show ?rhs
          by (metis append_assoc m(2))
      next
        assume ?rhs
        then obtain m plain rest where
            e: "dr_buffer r = record_at P ?c i m @ records_from P ?c (Suc i) plain @ rest"
          and m: "length m = ?n" and q: "length plain = ?t - Suc i * ?k" "o' = (out @ m) @ plain"
            "r' = after_records r (m @ plain) rest" by auto
        have "?rec = record_at P ?c i m" "?more = records_from P ?c (Suc i) plain @ rest"
          using A [OF m] e by blast+
        then show ?lhs using IH [OF m] m q by blast
      qed
    qed
    also have "\<dots> \<longleftrightarrow> (\<exists>plain rest. dr_buffer r = records_from P ?c i plain @ rest \<and>
        length plain = ?t - i * ?k \<and> o' = out @ plain \<and> r' = after_records r plain rest)"
      (is "?lhs \<longleftrightarrow> ?rhs")
    proof
      assume ?lhs
      then obtain m plain rest where A: "dr_buffer r = record_at P ?c i m @ records_from P ?c (Suc i) plain @ rest"
        "length m = ?n" "length plain = ?t - Suc i * ?k" "o' = out @ m @ plain" "r' = after_records r (m @ plain) rest"
        by blast
      have ne: "m @ plain \<noteq> []" using A(2) F(4) by auto
      have "plain = [] \<or> length m = ?k" using A(2,3) F(3) by (cases plain) auto
      then have "take ?k (m @ plain) = m" "drop ?k (m @ plain) = plain"
        using A(2) F(3) by auto
      then have "records_from P ?c i (m @ plain) = record_at P ?c i m @ records_from P ?c (Suc i) plain"
        using records_from_unfold [of ?c "m @ plain" P i] k ne by simp
      moreover have "length (m @ plain) = ?t - i * ?k"
        by (simp only: length_append A(2,3) F(3) min_rest)
      ultimately show ?rhs using A by (intro exI [of _ "m @ plain"] exI [of _ rest]) simp
    next
      assume ?rhs
      then obtain plain rest where A: "dr_buffer r = records_from P ?c i plain @ rest"
        "length plain = ?t - i * ?k" "o' = out @ plain" "r' = after_records r plain rest" by blast
      have ne: "plain \<noteq> []" using A(2) F(1) by auto
      have "records_from P ?c i plain = record_at P ?c i (take ?k plain) @ records_from P ?c (Suc i) (drop ?k plain)"
        using records_from_unfold [of ?c plain P i] k ne by simp
      then show ?lhs
        by (intro exI [where x = "take ?k plain"] exI [where x = "drop ?k plain"] exI [where x = rest])
          (use A F(3) in \<open>simp add: min.commute\<close>)
    qed
    finally show ?thesis .
  qed
qed

section \<open>The final record\<close>

lemma final_plaintext_fields:
  assumes "length pt = 52"
  shows "pt = le32 a @ le64 b @ d @ replicate 8 0 \<longleftrightarrow>
     from_le32 (slice pt 0 4) = a \<and> from_le64 (slice pt 4 12) = b \<and> slice pt 12 44 = d \<and>
     (\<forall>x\<in>set (slice pt 44 52). x = 0)"
proof
  assume e: "pt = le32 a @ le64 b @ d @ replicate 8 0"
  then have "length d = 32" using assms by simp
  then show "from_le32 (slice pt 0 4) = a \<and> from_le64 (slice pt 4 12) = b \<and> slice pt 12 44 = d \<and>
     (\<forall>x\<in>set (slice pt 44 52). x = 0)"
    using e by (simp add: slice_simps)
next
  assume f: "from_le32 (slice pt 0 4) = a \<and> from_le64 (slice pt 4 12) = b \<and> slice pt 12 44 = d \<and>
     (\<forall>x\<in>set (slice pt 44 52). x = 0)"
  have l: "length (slice pt 0 4) = 4" "length (slice pt 4 12) = 8" "length (slice pt 44 52) = 8"
    using assms by simp_all
  have "slice pt 44 52 = replicate 8 0"
    using f l(3) by (metis replicate_length_same)
  moreover have "le32 a = slice pt 0 4" "le64 b = slice pt 4 12"
    using f l le_from_le by metis+
  moreover have "slice pt 0 4 @ slice pt 4 12 @ slice pt 12 44 @ slice pt 44 52 = pt"
    using assms by (simp add: slice_joins slice_all)
  ultimately show "pt = le32 a @ le64 b @ d @ replicate 8 0" using f by simp
qed

lemma verify_final_record_iff:
  assumes P: "prims_ok P" and c: "ctx_ok (reader_ctx r)"
  shows "verify_final_record P r ct = (Ok (), r') \<longleftrightarrow>
    ct = final_record P (reader_ctx r) (dr_plaintext_hasher r) \<and>
    dr_chunk_index r = chunk_count (dr_core r) \<and>
    dr_plaintext_position r = ch_total_plaintext_length (dr_core r) \<and>
    r' = r\<lparr>dr_final_record_verified := True\<rparr>"
proof -
  let ?fp = "final_plaintext P (reader_ctx r) (dr_plaintext_hasher r)"
  let ?op = "aead_open P (dr_content_key r) (reader_nonce r FINAL_RECORD_NONCE_INDEX) (reader_final_aad r) ct"
  have k: "key_ok P (dr_content_key r)" using P c by (simp add: ctx_ok_def prims_key_ok)
  have lf: "length ?fp = 52" using P by (rule length_final_plaintext)
  have o: "?op = Some ?fp \<longleftrightarrow> ct = final_record P (reader_ctx r) (dr_plaintext_hasher r)"
    using open_content_iff [OF P c, of ?fp FINAL_RECORD_NONCE_INDEX "reader_final_aad r" ct] lf
    by (simp add: reader_bindings final_record_def)
  have eq: "pt = ?fp \<longleftrightarrow> from_le32 (slice pt 0 4) = chunk_count (dr_core r)
      \<and> from_le64 (slice pt 4 12) = ch_total_plaintext_length (dr_core r)
      \<and> slice pt 12 44 = sha256 P (dr_plaintext_hasher r) \<and> (\<forall>x\<in>set (slice pt 44 52). x = 0)"
    if "length pt = 52" for pt
    using final_plaintext_fields [OF that] by (simp add: final_plaintext_def)
  have "verify_final_record P r ct = (Ok (), r') \<longleftrightarrow>
     (\<exists>pt. ?op = Some pt \<and> length pt = 52 \<and> pt = ?fp) \<and>
     dr_chunk_index r = chunk_count (dr_core r) \<and>
     dr_plaintext_position r = ch_total_plaintext_length (dr_core r) \<and>
     r' = r\<lparr>dr_final_record_verified := True\<rparr>"
  proof (cases "\<exists>pt. ?op = Some pt \<and> length pt = 52")
    case False
    then show ?thesis by (auto simp: verify_final_record_def policy_simps split: option.splits if_splits)
  next
    case True
    then obtain pt where pt: "?op = Some pt" "length pt = 52" by blast
    have "verify_final_record P r ct = (Ok (), r') \<longleftrightarrow> pt = ?fp \<and>
        dr_chunk_index r = chunk_count (dr_core r) \<and>
        dr_plaintext_position r = ch_total_plaintext_length (dr_core r) \<and>
        r' = r\<lparr>dr_final_record_verified := True\<rparr>"
      unfolding eq [OF pt(2)] verify_final_record_def policy_simps Let_def using k pt
      by (cases "from_le32 (slice pt 0 4) = chunk_count (dr_core r)";
          cases "from_le64 (slice pt 4 12) = ch_total_plaintext_length (dr_core r)";
          cases "dr_chunk_index r = chunk_count (dr_core r)";
          cases "dr_plaintext_position r = ch_total_plaintext_length (dr_core r)";
          auto)
    then show ?thesis using pt by auto
  qed
  also have "(\<exists>pt. ?op = Some pt \<and> length pt = 52 \<and> pt = ?fp) \<longleftrightarrow>
      ct = final_record P (reader_ctx r) (dr_plaintext_hasher r)" using o lf by auto
  finally show ?thesis .
qed

section \<open>The decoder accepts exactly the specified bodies\<close>

lemma new_reader:
  assumes P: "prims_ok P" and n: "DecryptReader_new P hb dek = Ok r"
  shows "\<not> dr_final_record_verified r" "dr_buffer r = []" "dr_plaintext_hasher r = []"
    "before_record r 0"
  using n by (auto simp: DecryptReader_new_def before_record_def)

lemma reader_ctx_ok:
  assumes P: "prims_ok P" and n: "DecryptReader_new P hb dek = Ok r"
    and t: "unat (ch_total_plaintext_length (dr_core r)) \<le> 2000000000"
  shows "ctx_ok (reader_ctx r)"
proof -
  obtain h ck where h: "EnvelopeHeader_parse hb = Ok h" and r: "dr_header r = h" "dr_content_key r = ck"
    and k: "derive_domain_key_32 P dek CONTENT_ENC = Ok ck"
    using n by (auto simp: DecryptReader_new_def)
  have v: "core_valid (eh_core h)" using accepted_layout [OF h] by metis
  have lk: "length ck = 32" using derive_domain_key_32_Ok [OF P, of dek CONTENT_ENC] k by auto
  have cs: "65536 \<le> unat (ch_chunk_size (eh_core h))" using v by (simp add: core_valid_def)
  then have "ceil_div (unat (ch_total_plaintext_length (eh_core h))) (unat (ch_chunk_size (eh_core h)))
      \<le> unat (ch_total_plaintext_length (eh_core h))" by (intro ceil_div_le) simp
  then have "unat (chunk_count (eh_core h)) =
      ceil_div (unat (ch_total_plaintext_length (eh_core h))) (unat (ch_chunk_size (eh_core h)))"
    unfolding chunk_count_def using cs t r by (intro unat_calculate_chunk_count) auto
  then show ?thesis using v lk t r by (simp add: ctx_ok_def core_valid_def)
qed

lemma feed_accepts_iff:
  assumes P: "prims_ok P" and c: "ctx_ok (reader_ctx r)"
    and r: "\<not> dr_final_record_verified r" "dr_buffer r = []" "dr_plaintext_hasher r = []" "before_record r 0"
  shows "(\<exists>r'. feed P r body = (Ok out, r') \<and> finish r' = Ok ()) \<longleftrightarrow>
    length out = unat (ch_total_plaintext_length (dr_core r)) \<and> body = envelope_body P (reader_ctx r) out"
proof -
  let ?c = "reader_ctx r" and ?t = "unat (ch_total_plaintext_length (dr_core r))"
  have mr: "buffered r body = r\<lparr>dr_buffer := body\<rparr>" using r(2) by simp
  have L: "feed_loop P (buffered r body) [] = (Ok (True, o1), r1) \<longleftrightarrow>
      (\<exists>rest. body = records_from P ?c 0 o1 @ rest \<and> length o1 = ?t \<and> r1 = after_records r o1 rest)" for o1 r1
    unfolding mr using loop_iff [OF P, of "r\<lparr>dr_buffer := body\<rparr>" 0 "[]" o1 r1] c r(4)
    by (auto simp: after_records_def)
  have T: "feed_tail P (after_records r o1 rest) o1 = (Ok o2, r2) \<and> dr_final_record_verified r2 \<and> dr_buffer r2 = []
      \<longleftrightarrow> o2 = o1 \<and> rest = final_record P ?c o1
        \<and> r2 = (after_records r o1 [])\<lparr>dr_final_record_verified := True\<rparr>" for o1 o2 r2 rest
  proof -
    let ?r1 = "(after_records r o1 rest)\<lparr>dr_buffer := drop 68 rest\<rparr>"
    define x where "x = ?r1"
    have x: "reader_ctx x = ?c" "dr_plaintext_hasher x = o1" "dr_core x = dr_core r"
      "dr_chunk_index x = chunk_count (dr_core r)" "dr_plaintext_position x = ch_total_plaintext_length (dr_core r)"
      using r(3) by (simp_all add: x_def after_records_def reader_ctx_def)
    have V: "verify_final_record P ?r1 ct = (Ok (), r2) \<longleftrightarrow>
        ct = final_record P ?c o1 \<and> r2 = ?r1\<lparr>dr_final_record_verified := True\<rparr>" for ct r2
      unfolding x_def [symmetric]
      using verify_final_record_iff [OF P, of x ct r2] c by (simp add: x)
    have lf: "length (final_record P ?c o1) = 68" using P c by (rule length_final_record)
    have nv: "\<not> dr_final_record_verified (after_records r o1 rest)" using r(1) by (simp add: after_records_def)
    show ?thesis
    proof (cases "68 \<le> length rest")
      case False
      then show ?thesis using lf nv by (auto simp: feed_tail_def policy_simps after_records_def)
    next
      case True
      obtain res r3 where v: "verify_final_record P ?r1 (take 68 rest) = (res, r3)" by fastforce
      have b: "dr_buffer (after_records r o1 rest) = rest" by (simp add: after_records_def)
      show ?thesis
      proof (cases res)
        case (Inl e)
        then have "take 68 rest \<noteq> final_record P ?c o1" 
          using V [of "take 68 rest" "?r1\<lparr>dr_final_record_verified := True\<rparr>"] v by auto
        then have "rest \<noteq> final_record P ?c o1" using lf by auto
        then show ?thesis using True v Inl by (simp add: feed_tail_def policy_simps b)
      next
        case (Inr u)
        then have v3: "take 68 rest = final_record P ?c o1" "r3 = ?r1\<lparr>dr_final_record_verified := True\<rparr>"
          using V [of "take 68 rest" r3] v by simp_all
        have "rest = final_record P ?c o1 \<longleftrightarrow> drop 68 rest = []"
          using v3(1) lf by (metis append_Nil2 append_take_drop_id drop_all order_refl)
        then show ?thesis using True v Inr v3
          by (auto simp: feed_tail_def policy_simps b after_records_def)
      qed
    qed
  qed
  have "(\<exists>r'. feed P r body = (Ok out, r') \<and> finish r' = Ok ()) \<longleftrightarrow>
      (\<exists>r1 r2 o1. feed_loop P (buffered r body) [] = (Ok (True, o1), r1) \<and> feed_tail P r1 o1 = (Ok out, r2) \<and>
         dr_final_record_verified r2 \<and> dr_buffer r2 = [])" (is "?l \<longleftrightarrow> ?m")
  proof
    assume ?l
    then obtain r' where f: "feed P r body = (Ok out, r')" and fin: "dr_final_record_verified r'" "dr_buffer r' = []"
      by (auto simp: finish_def split: if_splits)
    then obtain b o1 r1 where l: "feed_loop P (buffered r body) [] = (Ok (b, o1), r1)"
      "(if b then feed_tail P r1 o1 else (Ok o1, r1)) = (Ok out, r')"
      using r(1) by (auto simp: feed_def split: sum.splits prod.splits)
    have "\<not> dr_final_record_verified r1" using loop_frame [OF l(1)] r(1) by simp
    then have "b" using l(2) fin by (auto split: if_splits)
    then show ?m using l fin by auto
  next
    assume ?m
    then show ?l using r(1) by (auto simp: feed_def finish_def)
  qed
  also have "\<dots> \<longleftrightarrow> (\<exists>rest o1 r2. body = records_from P ?c 0 o1 @ rest \<and> length o1 = ?t \<and>
      feed_tail P (after_records r o1 rest) o1 = (Ok out, r2) \<and> dr_final_record_verified r2 \<and> dr_buffer r2 = [])"
    unfolding L by blast
  also have "\<dots> \<longleftrightarrow> length out = ?t \<and> body = envelope_body P ?c out"
    unfolding T envelope_body_def by blast
  finally show ?thesis .
qed

end
