(* ===== verification/Envelope_Stream.thy ===== *)
theory Envelope_Stream
  imports Decrypt_Contract
begin

text \<open>
  The two readers together: the properties of the decoder as a caller sees them (any fragments,
  truncation, seeking by record) and the round trip of a whole file.
\<close>

section \<open>Before the first fragment\<close>

lemma new_settled:
  assumes "prims_ok P" and "DecryptReader_new P hb dek = Ok r"
  shows "settled P r"
proof -
  note N = new_reader [OF assms]
  have e: "r\<lparr>dr_buffer := []\<rparr> = r" using N(2) by simp
  show ?thesis
  proof (cases "dr_chunk_index r < chunk_count (dr_core r)")
    case True
    then show ?thesis using N loop_wait [of r P "[]"]
      by (simp add: settled_def feed_def e)
  next
    case False
    then show ?thesis using N loop_complete [of r P "[]"]
      by (simp add: settled_def feed_def feed_tail_def policy_simps e)
  qed
qed

lemma feed_all_accepts_iff:
  assumes P: "prims_ok P" and n: "DecryptReader_new P hb dek = Ok r"
    and t: "unat (ch_total_plaintext_length (dr_core r)) \<le> 2000000000"
  shows "(\<exists>r'. decoder.feed_all P r frags = (Ok out, r') \<and> finish r' = Ok ()) \<longleftrightarrow>
    length out = unat (ch_total_plaintext_length (dr_core r)) \<and>
    concat frags = envelope_body P (reader_ctx r) out"
  unfolding decoder.fragments_irrelevant [OF new_settled [OF P n]]
  by (rule feed_accepts_iff [OF P reader_ctx_ok [OF P n t] new_reader [OF P n]])

lemma finish_cases: "finish r = Ok () \<or> finish r = Err truncated"
  by (simp add: finish_def)

lemma feed_all_prefix:
  assumes P: "prims_ok P" and n: "DecryptReader_new P hb dek = Ok r"
    and t: "unat (ch_total_plaintext_length (dr_core r)) \<le> 2000000000"
    and l: "length plain = unat (ch_total_plaintext_length (dr_core r))"
    and b: "concat frags @ missing = envelope_body P (reader_ctx r) plain" and m: "missing \<noteq> []"
  shows "\<exists>out r'. decoder.feed_all P r frags = (Ok out, r') \<and> take (length out) plain = out \<and>
    finish r' = Err truncated"
proof -
  note st = new_settled [OF P n]
  obtain r2 where f: "decoder.feed_all P r [concat frags @ missing] = (Ok plain, r2)" "finish r2 = Ok ()"
    using feed_all_accepts_iff [OF P n t, of "[concat frags @ missing]" plain] l b by auto
  then have "feed P r (concat frags @ missing) = (Ok plain, r2)"
    unfolding decoder.fragments_irrelevant [OF st] by simp
  then obtain x r1 y where x: "feed P r (concat frags) = (Ok x, r1)" "feed P r1 missing = (Ok y, r2)" "plain = x @ y"
    by (auto simp: feed_append)
  have "\<not> dr_final_record_verified r1" using x(2) m by (auto simp: feed_def)
  then have "finish r1 = Err truncated" by (simp add: finish_def)
  then show ?thesis using x decoder.fragments_irrelevant [OF st] by fastforce
qed

section \<open>One record by its index\<close>

lemma decrypt_chunk_at_iff:
  assumes P: "prims_ok P" and c: "ctx_ok (reader_ctx r)" and i: "unat i < unat (chunk_count (dr_core r))"
  shows "decrypt_chunk_at P r i ct = Ok m \<longleftrightarrow>
    length m = record_plain (unat (ch_total_plaintext_length (dr_core r))) (unat (ch_chunk_size (dr_core r))) (unat i)
    \<and> ct = record_at P (reader_ctx r) (unat i) m"
proof -
  let ?k = "unat (ch_chunk_size (dr_core r))" and ?t = "unat (ch_total_plaintext_length (dr_core r))"
  let ?off = "(ucast i :: u64) * ucast (ch_chunk_size (dr_core r))"
  let ?len = "unat (min (saturating_sub_u64 (ch_total_plaintext_length (dr_core r)) ?off)
                     (ucast (ch_chunk_size (dr_core r))))"
  have k: "0 < ?k" "?k \<le> 16777216" and n: "unat (chunk_count (dr_core r)) = ceil_div ?t ?k" and t: "?t \<le> 2000000000"
    using c by (simp_all add: ctx_ok_def)
  have key: "key_ok P (dr_content_key r)" using P c by (simp add: ctx_ok_def prims_key_ok)
  have lt: "unat i * ?k < ?t" using i k by (simp add: n less_ceil_div_iff)
  have uo: "unat ?off = unat i * ?k" using lt t by (simp add: unat_word_ariths)
  have off: "?off = of_nat (unat i * ?k)" using uo by (rule word_eq_of_nat)
  have len: "?len = record_plain ?t ?k (unat i)"
    by (simp add: record_plain_def min_def word_le_nat_alt unat_saturating_sub_u64 uo)
  have ix: "(ucast i :: u64) = of_nat (unat i)" by (rule word_eq_of_nat) simp
  have small: "record_plain ?t ?k (unat i) \<le> 16777216" using k by (simp add: record_plain_def)
  have ni: "\<not> chunk_count (dr_core r) \<le> i" using i by (simp add: word_le_nat_alt)
  let ?n = "record_plain ?t ?k (unat i)"
  let ?aad = "reader_chunk_aad r (of_nat (unat i)) (of_nat (unat i * ?k)) (of_nat ?n)"
  have o: "aead_open P (dr_content_key r) (reader_nonce r (of_nat (unat i))) ?aad ct = Some m
      \<longleftrightarrow> ct = record_at P (reader_ctx r) (unat i) m" if "length m = ?n"
    using open_content_iff [OF P c, of m "of_nat (unat i)" ?aad ct] that small
    by (simp add: reader_bindings record_at_def)
  have lr: "length (record_at P (reader_ctx r) (unat i) m) = ?n + 16" if "length m = ?n"
    using length_record_at [OF P c, of m "unat i"] that by (simp add: record_plain_def)
  have "decrypt_chunk_at P r i ct = Ok m \<longleftrightarrow> length ct = ?n + 16 \<and>
      aead_open P (dr_content_key r) (reader_nonce r (of_nat (unat i))) ?aad ct = Some m \<and> length m = ?n"
    unfolding decrypt_chunk_at_def Let_def len unfolding off unfolding ix
    using ni key by (auto simp: policy_simps split: option.splits)
  then show ?thesis using o lr by blast
qed

lemma records_from_split:
  assumes P: "prims_ok P" and c: "ctx_ok c" and i: "i * unat (cc_chunk_size c) < length plain"
  shows "\<exists>pre post. records_from P c 0 plain =
      pre @ record_at P c i (take (unat (cc_chunk_size c)) (drop (i * unat (cc_chunk_size c)) plain)) @ post
    \<and> length pre = i * (unat (cc_chunk_size c) + 16)"
proof -
  let ?k = "unat (cc_chunk_size c)"
  have k: "0 < ?k" using c by (simp add: ctx_ok_def)
  let ?a = "take (i * ?k) plain" and ?b = "drop (i * ?k) plain"
  have la: "length ?a = i * ?k" using i by simp
  have "records_from P c 0 plain = records_from P c 0 ?a @ records_from P c i ?b"
    using records_from_append [OF k la, of P 0 ?b] by simp
  moreover have "records_from P c i ?b = record_at P c i (take ?k ?b) @ records_from P c (Suc i) (drop ?k ?b)"
    using i k by (intro records_from_unfold) auto
  moreover have "length (records_from P c 0 ?a) = i * (?k + 16)"
    using length_records_from [OF P c, of 0 ?a] la k by (simp add: ceil_div_def algebra_simps)
  ultimately show ?thesis
    by (intro exI [where x = "records_from P c 0 ?a"] exI [where x = "records_from P c (Suc i) (drop ?k ?b)"]) simp
qed

lemma chunk_offset_value:
  assumes "chunk_ciphertext_offset i cs len = Ok off" and "unat cs \<le> 16777216"
  shows "unat off = unat i * (unat cs + 16)"
proof -
  have off: "off = ucast i * (ucast cs + 16)"
    using assms(1) by (auto simp: chunk_ciphertext_offset_def Let_def policy_simps split: if_splits)
  have i: "unat i \<le> 4294967295" and c: "unat cs \<le> 16777216"
    using unat_u32_less [of i] assms(2) by (simp_all del: unat_u32_less)
  have s: "unat (ucast cs + 16 :: u64) = unat cs + 16" using c by (simp add: unat_word_ariths)
  have "unat i * (unat cs + 16) \<le> 4294967295 * (16777216 + 16)" using i c by (intro mult_le_mono) simp_all
  then have "unat i * (unat cs + 16) < 2 ^ 64" by simp
  then show ?thesis unfolding off by (simp add: unat_word_ariths(2) s)
qed

lemma seek_record:
  assumes P: "prims_ok P" and n: "DecryptReader_new P hb dek = Ok r"
    and t: "unat (ch_total_plaintext_length (dr_core r)) \<le> 2000000000"
    and l: "length plain = unat (ch_total_plaintext_length (dr_core r))"
    and o: "chunk_ciphertext_offset i (ch_chunk_size (dr_core r)) (ch_total_plaintext_length (dr_core r)) = Ok off"
    and i: "unat i < unat (chunk_count (dr_core r))"
    and m: "m = slice plain (unat i * unat (ch_chunk_size (dr_core r)))
              (unat i * unat (ch_chunk_size (dr_core r)) + unat (ch_chunk_size (dr_core r)))"
  shows "decrypt_chunk_at P r i
     (slice (envelope_body P (reader_ctx r) plain) (unat off) (unat off + length m + 16)) = Ok m"
proof -
  let ?k = "unat (ch_chunk_size (dr_core r))" and ?c = "reader_ctx r"
  have c: "ctx_ok ?c" using reader_ctx_ok [OF P n t] .
  have k: "0 < ?k" "?k \<le> 16777216" using c by (simp_all add: ctx_ok_def)
  have lt: "unat i * ?k < length plain" using i c k by (simp add: ctx_ok_def less_ceil_div_iff l)
  obtain pre post where s: "records_from P ?c 0 plain =
      pre @ record_at P ?c (unat i) (take ?k (drop (unat i * ?k) plain)) @ post" "length pre = unat i * (?k + 16)"
    using records_from_split [OF P c, of "unat i" plain] lt by auto
  have m2: "take ?k (drop (unat i * ?k) plain) = m" by (simp add: m slice_def)
  have uo: "unat off = length pre" using chunk_offset_value [OF o k(2)] s(2) by simp
  have lm: "length m \<le> ?k" by (simp flip: m2)
  have lr: "length (record_at P ?c (unat i) m) = length m + 16"
    using length_record_at [OF P c] lm by simp
  have "envelope_body P ?c plain = pre @ record_at P ?c (unat i) m @ post @ final_record P ?c plain"
    by (simp add: envelope_body_def s(1) m2)
  then have "slice (envelope_body P ?c plain) (unat off) (unat off + length m + 16) = record_at P ?c (unat i) m"
    using lr by (simp add: uo slice_def)
  moreover have "length m = record_plain (length plain) ?k (unat i)"
    by (simp add: record_plain_def min.commute flip: m2)
  ultimately show ?thesis using decrypt_chunk_at_iff [OF P c i] l by simp
qed

section \<open>A whole file\<close>

lemma parse_prefix:
  assumes p: "EnvelopeHeader_parse hb = Ok h" and l: "unat (ch_header_length (eh_core h)) = length hb"
  shows "EnvelopeHeader_parse (hb @ body) = Ok h"
proof -
  obtain sb where A: "core_valid (eh_core h)" "encode_key_slots (eh_key_slots h) [] = Ok sb"
    "\<forall>s\<in>set (eh_key_slots h). slot_valid s"
    "unat (ch_key_slot_table_length (eh_core h)) = length sb"
    "unat (ch_encrypted_metadata_length (eh_core h)) = length (eh_encrypted_metadata h)"
    "eh_raw_header h = encode_prefix (eh_core h) @ ch_header_authenticator (eh_core h) @ sb @ eh_encrypted_metadata h"
    "eh_raw_header h = take (unat (ch_header_length (eh_core h))) hb"
    using accepted_layout [OF p] by metis
  have raw: "hb = eh_raw_header h" using A(7) l by simp
  have "EnvelopeHeader_parse (hb @ body) = Ok \<lparr>eh_core = eh_core h, eh_key_slots = eh_key_slots h,
     eh_encrypted_metadata = eh_encrypted_metadata h,
     eh_raw_header = encode_prefix (eh_core h) @ ch_header_authenticator (eh_core h) @ sb @ eh_encrypted_metadata h\<rparr>"
    by (rule parse_layout [OF A(1,2) _ A(4,5)]) (use A(3) in \<open>simp_all add: slot_valid_def raw A(6)\<close>)
  then show ?thesis by (simp flip: A(6))
qed

lemma session_reader:
  assumes P: "prims_ok P" and len: "length uuid = 16" "length np = 16" and sl: "\<forall>x\<in>set slots. slot_sized x"
    and n: "new_with_keys P plain_len slots meta dek uuid np = Ok s"
  shows "\<exists>r. DecryptReader_new P (es_header_bytes s @ body) dek = Ok r \<and> reader_ctx r = session_ctx s \<and>
     dr_metadata_plaintext r = meta \<and> ch_total_plaintext_length (dr_core r) = plain_len \<and>
     unat (ch_header_length (dr_core r)) = length (es_header_bytes s) \<and> unat plain_len \<le> 2000000000"
proof -
  obtain hb h m tot ck where b: "EnvelopeHeader_build P uuid DEFAULT_CHUNK_SIZE slots meta plain_len np dek = Ok hb"
    and h: "EnvelopeHeader_parse hb = Ok h" and v: "verify_and_decrypt_metadata P h dek = Ok m"
    and t: "calculate_ciphertext_length plain_len DEFAULT_CHUNK_SIZE (of_nat (length hb)) = Ok tot"
    and k: "derive_domain_key_32 P dek CONTENT_ENC = Ok ck"
    and s: "s = \<lparr>es_file_uuid = uuid, es_dek = dek, es_content_key = ck,
          es_nonce_prefix = np, es_chunk_size = DEFAULT_CHUNK_SIZE,
          es_total_plaintext_length = plain_len,
          es_chunk_count = calculate_chunk_count plain_len DEFAULT_CHUNK_SIZE,
          es_header_bytes = hb,
          es_metadata_ct_length = unat (ch_encrypted_metadata_length (eh_core h)),
          es_total_ciphertext_length = tot,
          es_header_authenticator = ch_header_authenticator (eh_core h)\<rparr>"
    using n by (auto simp: new_with_keys_def Let_def)
  have p: "ch_file_uuid (eh_core h) = uuid" "ch_chunk_size (eh_core h) = DEFAULT_CHUNK_SIZE"
    "ch_total_plaintext_length (eh_core h) = plain_len" "ch_nonce_prefix (eh_core h) = np"
    "unat (ch_header_length (eh_core h)) = length hb" "verify_and_decrypt_metadata P h dek = Ok meta"
    using build_parses [OF P len sl b, of "[]"] h by auto
  have u: "unat plain_len \<le> 2000000000" using t by (simp add: calculate_ciphertext_length_cases)
  have "EnvelopeHeader_parse (hb @ body) = Ok h" using h p(5) by (rule parse_prefix)
  then have "DecryptReader_new P (es_header_bytes s @ body) dek = Ok \<lparr>dr_header = h, dr_content_key = ck,
         dr_metadata_plaintext = meta, dr_plaintext_position = 0,
         dr_chunk_index = 0, dr_plaintext_hasher = [], dr_final_record_verified = False,
         dr_buffer = []\<rparr>" using p(6) k by (simp add: DecryptReader_new_def s)
  then show ?thesis using p u by (simp add: reader_ctx_def session_ctx_def s chunk_count_def)
qed

section \<open>Properties\<close>

text \<open>C2: whatever the fragments, the decoder delivers a plaintext and reports completion exactly when
  the plaintext has the length of the authenticated header and the bytes fed are its sealed body:
  no other byte string, reordering, extension or shortening is accepted.\<close>

theorem decoder_accepts_exactly:
  assumes "prims_ok P" and "DecryptReader_new P hb dek = Ok r"
    and "unat (ch_total_plaintext_length (dr_core r)) \<le> unat MAX_CIPHERTEXT_SIZE"
  shows "(\<exists>r'. decoder.feed_all P r frags = (Ok out, r') \<and> finish r' = Ok ()) \<longleftrightarrow>
    length out = unat (ch_total_plaintext_length (dr_core r)) \<and>
    concat frags = envelope_body P (reader_ctx r) out"
  by (rule feed_all_accepts_iff [OF assms(1,2)])
    (use assms(3) in \<open>simp add: MAX_CIPHERTEXT_SIZE_def TELEGRAM_MAX_FILE_SIZE_def\<close>)

lemma demo_reader:
  "\<exists>r. DecryptReader_new demo_prims (es_header_bytes demo_session) (replicate 32 4) = Ok r \<and>
     reader_ctx r = session_ctx demo_session \<and> ch_total_plaintext_length (dr_core r) = 70000"
  using session_reader [OF demo_prims_ok _ _ _ demo_session_new(1), of "[]"] demo_slot_sized by auto

theorem decoder_accepts_exactly_witness:
  "\<exists>r frags. DecryptReader_new demo_prims (es_header_bytes demo_session) (replicate 32 4) = Ok r \<and>
     (\<exists>r'. decoder.feed_all demo_prims r frags = (Ok (replicate 70000 1), r') \<and> finish r' = Ok ())"
proof -
  obtain r where r: "DecryptReader_new demo_prims (es_header_bytes demo_session) (replicate 32 4) = Ok r"
    "ch_total_plaintext_length (dr_core r) = 70000" using demo_reader by blast
  show ?thesis
    by (rule exI [where x = r], rule exI [where x = "[envelope_body demo_prims (reader_ctx r) (replicate 70000 1)]"])
      (use decoder_accepts_exactly [OF demo_prims_ok r(1),
          of "[envelope_body demo_prims (reader_ctx r) (replicate 70000 1)]" "replicate 70000 1"] r
        in \<open>simp add: MAX_CIPHERTEXT_SIZE_def TELEGRAM_MAX_FILE_SIZE_def
          del: replicate.simps decoder.feed_all.simps\<close>)
qed

text \<open>a body that stops early is never taken for a file: the decoder hands out a prefix of the
  plaintext and \<open>finish\<close> reports truncation.\<close>

theorem truncated_body_detected:
  assumes "prims_ok P" and "DecryptReader_new P hb dek = Ok r"
    and "unat (ch_total_plaintext_length (dr_core r)) \<le> unat MAX_CIPHERTEXT_SIZE"
    and "length plain = unat (ch_total_plaintext_length (dr_core r))"
    and "concat frags @ missing = envelope_body P (reader_ctx r) plain" and "missing \<noteq> []"
  shows "\<exists>out r'. decoder.feed_all P r frags = (Ok out, r') \<and> take (length out) plain = out \<and>
    finish r' = Err truncated"
  by (rule feed_all_prefix [OF assms(1,2) _ assms(4-6)])
    (use assms(3) in \<open>simp add: MAX_CIPHERTEXT_SIZE_def TELEGRAM_MAX_FILE_SIZE_def\<close>)

theorem truncated_body_detected_witness:
  "\<exists>r body out r'. DecryptReader_new demo_prims (es_header_bytes demo_session) (replicate 32 4) = Ok r \<and>
     decoder.feed_all demo_prims r [body] = (Ok out, r') \<and> finish r' = Err truncated"
proof -
  obtain r where r: "DecryptReader_new demo_prims (es_header_bytes demo_session) (replicate 32 4) = Ok r"
    "ch_total_plaintext_length (dr_core r) = 70000" "reader_ctx r = session_ctx demo_session"
    using demo_reader by blast
  let ?b = "envelope_body demo_prims (reader_ctx r) (replicate 70000 1)"
  have "ctx_ok (reader_ctx r)"
    using opened_session_ok [OF demo_prims_ok demo_session_opened] r(3) by (simp add: session_ok_def)
  then have "68 \<le> length ?b" using length_envelope_body [OF demo_prims_ok] by simp
  then have ne: "drop (length ?b - 1) ?b \<noteq> []" by simp
  have "\<exists>out r'. decoder.feed_all demo_prims r [take (length ?b - 1) ?b] = (Ok out, r') \<and>
      take (length out) (replicate 70000 1) = out \<and> finish r' = Err truncated"
    by (rule truncated_body_detected [OF demo_prims_ok r(1) _ _ _ ne])
      (simp_all add: r(2) MAX_CIPHERTEXT_SIZE_def TELEGRAM_MAX_FILE_SIZE_def del: replicate.simps)
  then show ?thesis using r(1) by blast
qed

text \<open>seeking: record \<open>i\<close>, cut out of the body at the offset that \<open>chunk_ciphertext_offset\<close>
  computes, opens to exactly the plaintext bytes from \<open>i * chunk_size\<close> on.\<close>

theorem seek_opens_record:
  assumes "prims_ok P" and "DecryptReader_new P hb dek = Ok r"
    and "unat (ch_total_plaintext_length (dr_core r)) \<le> unat MAX_CIPHERTEXT_SIZE"
    and "length plain = unat (ch_total_plaintext_length (dr_core r))"
    and "chunk_ciphertext_offset i (ch_chunk_size (dr_core r)) (ch_total_plaintext_length (dr_core r)) = Ok off"
    and "unat i < unat (chunk_count (dr_core r))"
    and "m = slice plain (unat i * unat (ch_chunk_size (dr_core r)))
              (unat i * unat (ch_chunk_size (dr_core r)) + unat (ch_chunk_size (dr_core r)))"
  shows "decrypt_chunk_at P r i
     (slice (envelope_body P (reader_ctx r) plain) (unat off) (unat off + length m + 16)) = Ok m"
  by (rule seek_record [OF assms(1,2) _ assms(4-7)])
    (use assms(3) in \<open>simp add: MAX_CIPHERTEXT_SIZE_def TELEGRAM_MAX_FILE_SIZE_def\<close>)

lemma new_with_keys_chunk_size:
  "new_with_keys P len slots meta dek uuid np = Ok s \<Longrightarrow> es_chunk_size s = DEFAULT_CHUNK_SIZE"
  by (auto simp: new_with_keys_def Let_def)

theorem seek_opens_record_witness:
  "\<exists>r off. DecryptReader_new demo_prims (es_header_bytes demo_session) (replicate 32 4) = Ok r \<and>
     chunk_ciphertext_offset 0 (ch_chunk_size (dr_core r)) 70000 = Ok off \<and>
     decrypt_chunk_at demo_prims r 0 (slice (envelope_body demo_prims (reader_ctx r) (replicate 70000 1))
       (unat off) (unat off + 70000 + 16)) = Ok (replicate 70000 1)"
proof -
  obtain r where r: "DecryptReader_new demo_prims (es_header_bytes demo_session) (replicate 32 4) = Ok r"
    "ch_total_plaintext_length (dr_core r) = 70000" "reader_ctx r = session_ctx demo_session"
    using demo_reader by blast
  have "cc_chunk_size (reader_ctx r) = es_chunk_size demo_session" by (simp add: r(3))
  moreover have "es_chunk_size demo_session = DEFAULT_CHUNK_SIZE"
    by (rule new_with_keys_chunk_size [OF demo_session_new(1)])
  ultimately have cs: "ch_chunk_size (dr_core r) = DEFAULT_CHUNK_SIZE" by simp
  have o: "chunk_ciphertext_offset 0 (ch_chunk_size (dr_core r)) (ch_total_plaintext_length (dr_core r)) = Ok 0"
    by (simp add: chunk_ciphertext_offset_def Let_def r(2) cs DEFAULT_CHUNK_SIZE_def)
  have i: "unat (0 :: u32) < unat (chunk_count (dr_core r))"
    by (simp add: chunk_count_def calculate_chunk_count_def div_ceil_u64_def r(2) cs DEFAULT_CHUNK_SIZE_def)
  have m: "replicate 70000 1 = slice (replicate 70000 1) (unat (0 :: u32) * unat (ch_chunk_size (dr_core r)))
      (unat (0 :: u32) * unat (ch_chunk_size (dr_core r)) + unat (ch_chunk_size (dr_core r)))"
    by (simp add: slice_def cs DEFAULT_CHUNK_SIZE_def del: replicate.simps)
  have "decrypt_chunk_at demo_prims r 0 (slice (envelope_body demo_prims (reader_ctx r) (replicate 70000 1))
       (unat (0 :: u64)) (unat (0 :: u64) + length (replicate 70000 (1 :: u8)) + 16)) = Ok (replicate 70000 1)"
    by (rule seek_opens_record [OF demo_prims_ok r(1) _ _ o i m])
      (simp_all add: r(2) MAX_CIPHERTEXT_SIZE_def TELEGRAM_MAX_FILE_SIZE_def del: replicate.simps)
  then show ?thesis using r o by (intro exI [where x = r] exI [where x = "0 :: u64"]) (simp del: replicate.simps)
qed

text \<open>C1: a whole file: what the encrypting reader emits for a source opens under the same data key,
  gives back the metadata, and its body, cut into any fragments, decodes to the source's bytes.\<close>

theorem encrypt_decrypt_roundtrip:
  assumes "prims_ok P" and "length uuid = 16" and "length np = 16" and "\<forall>x\<in>set slots. slot_sized x"
    and "new_with_keys P len slots meta dek uuid np = Ok s" and "source_ok inner content"
    and "drive P inner caps (EncryptingReader_new src s) = (envelope, None, er')" and "completed er'"
  shows "\<exists>r. DecryptReader_new P envelope dek = Ok r \<and> dr_metadata_plaintext r = meta \<and>
    (\<forall>frags. concat frags = drop (unat (ch_header_length (dr_core r))) envelope \<longrightarrow>
       (\<exists>r'. decoder.feed_all P r frags = (Ok (content src), r') \<and> finish r' = Ok ()))"
proof -
  have op: "opened_session P s" using assms(2-5) unfolding opened_session_def by blast
  note so = opened_session_ok [OF assms(1) op]
  have "er_inv P content (content src) er' envelope \<and> er_session er' = s"
    using drive_new(1) [OF assms(1,6) op assms(7)] by simp
  then have f: "length (content src) = unat (es_total_plaintext_length s)"
    "envelope = es_header_bytes s @ envelope_body P (session_ctx s) (content src)"
    using completed_exact [of P content "content src" er' envelope] assms(8) by (simp_all add: session_envelope_def)
  obtain r where r: "DecryptReader_new P envelope dek = Ok r" "reader_ctx r = session_ctx s"
    "dr_metadata_plaintext r = meta" "ch_total_plaintext_length (dr_core r) = len"
    "unat (ch_header_length (dr_core r)) = length (es_header_bytes s)" "unat len \<le> 2000000000"
    using session_reader [OF assms(1-5)] f(2) by blast
  have "cc_total (reader_ctx r) = es_total_plaintext_length s" by (simp add: r(2))
  then have "len = es_total_plaintext_length s" by (simp add: r(4))
  then show ?thesis
    using r f feed_all_accepts_iff [OF assms(1) r(1), of _ "content src"] by auto
qed

theorem encrypt_decrypt_roundtrip_witness:
  "\<exists>envelope r r'. DecryptReader_new demo_prims envelope (replicate 32 4) = Ok r \<and> dr_metadata_plaintext r = [1, 2, 3] \<and>
     decoder.feed_all demo_prims r [drop (unat (ch_header_length (dr_core r))) envelope] = (Ok (replicate 70000 1), r')"
proof -
  obtain envelope er' where d: "drive demo_prims piece_source
      (replicate (unat (es_total_ciphertext_length demo_session)) 5)
      (EncryptingReader_new (replicate 70000 1) demo_session) = (envelope, None, er')" "completed er'"
    using demo_drive by blast
  obtain r where r: "DecryptReader_new demo_prims envelope (replicate 32 4) = Ok r" "dr_metadata_plaintext r = [1, 2, 3]"
    "\<forall>frags. concat frags = drop (unat (ch_header_length (dr_core r))) envelope \<longrightarrow>
       (\<exists>r'. decoder.feed_all demo_prims r frags = (Ok (replicate 70000 1), r') \<and> finish r' = Ok ())"
    using encrypt_decrypt_roundtrip [OF demo_prims_ok _ _ _ demo_session_new(1) piece_source_ok d] demo_slot_sized
    by auto
  have "\<exists>r'. decoder.feed_all demo_prims r [drop (unat (ch_header_length (dr_core r))) envelope] = (Ok (replicate 70000 1), r')
      \<and> finish r' = Ok ()" by (rule r(3) [rule_format]) simp
  then show ?thesis using r(1,2) by blast
qed

end
