(* ===== verification/Ordered_Map.thy ===== *)
theory Ordered_Map
  imports Prelude
begin

text \<open>
  Key-value containers. The code uses \<open>BTreeMap\<close> where iteration order matters (file trees)
  and \<open>HashMap\<close> where it does not (sessions, operation handles, holds, vault profiles). Both
  are modelled by an association list with strictly increasing keys: for a \<open>BTreeMap\<close> the
  list order is the iteration order of the Rust map, for a \<open>HashMap\<close> the order is never
  observed by the model.

  The locale \<open>kv_map\<close> is the interface its clients rely on; it is interpreted on the
  association lists at the end of the theory.
\<close>

section \<open>Strictly sorted association lists\<close>

type_synonym ('k, 'v) btree = "('k \<times> 'v) list"

definition bt_ok :: "('k::linorder, 'v) btree \<Rightarrow> bool" where
  "bt_ok m \<longleftrightarrow> sorted_wrt (<) (map fst m)"

definition bt_get :: "('k, 'v) btree \<Rightarrow> 'k \<Rightarrow> 'v option" where
  "bt_get m k = map_of m k"

definition bt_contains :: "('k, 'v) btree \<Rightarrow> 'k \<Rightarrow> bool" where
  "bt_contains m k \<longleftrightarrow> bt_get m k \<noteq> None"

fun bt_insert :: "'k::linorder \<Rightarrow> 'v \<Rightarrow> ('k, 'v) btree \<Rightarrow> ('k, 'v) btree" where
  "bt_insert k v [] = [(k, v)]"
| "bt_insert k v ((k', v') # m) =
     (if k < k' then (k, v) # (k', v') # m
      else if k = k' then (k, v) # m
      else (k', v') # bt_insert k v m)"

definition bt_remove :: "'k \<Rightarrow> ('k, 'v) btree \<Rightarrow> ('k, 'v) btree" where
  "bt_remove k m = filter (\<lambda>kv. fst kv \<noteq> k) m"

definition bt_retain :: "('k \<Rightarrow> 'v \<Rightarrow> bool) \<Rightarrow> ('k, 'v) btree \<Rightarrow> ('k, 'v) btree" where
  "bt_retain p m = filter (\<lambda>(k, v). p k v) m"

definition bt_keys :: "('k, 'v) btree \<Rightarrow> 'k list" where
  "bt_keys m = map fst m"

definition bt_values :: "('k, 'v) btree \<Rightarrow> 'v list" where
  "bt_values m = map snd m"

lemma bt_ok_Nil [simp]: "bt_ok []"
  by (simp add: bt_ok_def)

lemma bt_ok_Cons [simp]:
  "bt_ok ((k, v) # m) \<longleftrightarrow> (\<forall>k' \<in> set (bt_keys m). k < k') \<and> bt_ok m"
  by (simp add: bt_ok_def bt_keys_def)

lemma bt_keys_simps [simp]:
  "bt_keys [] = []" "bt_keys ((k, v) # m) = k # bt_keys m" "length (bt_keys m) = length m"
  by (simp_all add: bt_keys_def)

lemma bt_get_simps [simp]:
  "bt_get [] k = None"
  "bt_get ((k', v') # m) k = (if k' = k then Some v' else bt_get m k)"
  by (simp_all add: bt_get_def)

lemma bt_get_None_iff: "bt_get m k = None \<longleftrightarrow> k \<notin> set (bt_keys m)"
  by (simp add: bt_get_def bt_keys_def map_of_eq_None_iff)

lemma bt_contains_iff: "bt_contains m k \<longleftrightarrow> k \<in> set (bt_keys m)"
  using bt_get_None_iff [of m k] by (auto simp: bt_contains_def)

lemma bt_keys_insert [simp]: "set (bt_keys (bt_insert k v m)) = insert k (set (bt_keys m))"
  by (induction k v m rule: bt_insert.induct) auto

lemma bt_get_insert [simp]: "bt_get (bt_insert k v m) k' = (if k' = k then Some v else bt_get m k')"
  by (induction k v m rule: bt_insert.induct) auto

lemma bt_ok_insert [simp]: "bt_ok m \<Longrightarrow> bt_ok (bt_insert k v m)"
  by (induction k v m rule: bt_insert.induct) (auto simp del: bt_keys_insert simp add: bt_keys_insert)

lemma set_bt_insert_subset: "set (bt_insert k v m) \<subseteq> insert (k, v) (set m)"
  by (induction k v m rule: bt_insert.induct) auto

lemma bt_remove_simps [simp]:
  "bt_remove k [] = []"
  "bt_remove k ((k', v') # m) = (if k' = k then bt_remove k m else (k', v') # bt_remove k m)"
  by (auto simp: bt_remove_def)

lemma bt_keys_remove [simp]: "set (bt_keys (bt_remove k m)) = set (bt_keys m) - {k}"
  by (auto simp: bt_keys_def bt_remove_def)

lemma bt_get_remove [simp]: "bt_get (bt_remove k m) k' = (if k' = k then None else bt_get m k')"
  by (induction m) auto

lemma bt_ok_filter [simp]: "bt_ok m \<Longrightarrow> bt_ok (filter p m)"
  by (simp add: bt_ok_def sorted_wrt_filter sorted_wrt_map)

lemma bt_ok_remove [simp]: "bt_ok m \<Longrightarrow> bt_ok (bt_remove k m)"
  by (simp add: bt_remove_def)

lemma bt_ok_retain [simp]: "bt_ok m \<Longrightarrow> bt_ok (bt_retain p m)"
  by (simp add: bt_retain_def)

lemma bt_ok_distinct: "bt_ok m \<Longrightarrow> distinct (bt_keys m)"
  by (simp add: bt_ok_def bt_keys_def strict_sorted_iff)

lemma bt_get_retain:
  "bt_ok m \<Longrightarrow> bt_get (bt_retain p m) k =
     (case bt_get m k of Some v \<Rightarrow> if p k v then Some v else None | None \<Rightarrow> None)"
proof (induction m)
  case Nil
  then show ?case by (simp add: bt_retain_def)
next
  case (Cons kv m)
  obtain k' v' where kv: "kv = (k', v')" by (cases kv)
  with Cons have "k' \<notin> set (bt_keys m)" and IH: "bt_get (bt_retain p m) k =
     (case bt_get m k of Some v \<Rightarrow> if p k v then Some v else None | None \<Rightarrow> None)" by auto
  then have "bt_get m k' = None" by (simp add: bt_get_None_iff)
  with kv IH show ?case by (auto simp: bt_retain_def split: option.splits)
qed

lemma bt_get_in_set: "bt_get m k = Some v \<Longrightarrow> (k, v) \<in> set m"
  by (simp add: bt_get_def map_of_SomeD)

lemma bt_in_set_get: "bt_ok m \<Longrightarrow> (k, v) \<in> set m \<Longrightarrow> bt_get m k = Some v"
  using bt_ok_distinct [of m] by (simp add: bt_get_def bt_keys_def)

lemma bt_ext: "bt_ok m \<Longrightarrow> bt_ok m' \<Longrightarrow> (\<And>k. bt_get m k = bt_get m' k) \<Longrightarrow> m = m'"
proof (rule map_sorted_distinct_set_unique [where f = fst])
  assume ok: "bt_ok m" "bt_ok m'" and eq: "\<And>k. bt_get m k = bt_get m' k"
  have "(k, v) \<in> set m \<longleftrightarrow> (k, v) \<in> set m'" for k v
    using ok eq by (metis bt_get_in_set bt_in_set_get)
  then show set_eq: "set m = set m'" by auto
  show "inj_on fst (set m \<union> set m')"
    using ok bt_ok_distinct [of m] bt_ok_distinct [of m'] set_eq
    by (simp add: bt_keys_def distinct_map)
qed (auto simp: bt_ok_def strict_sorted_iff)

lemma bt_length_insert_fresh: "bt_get m k = None \<Longrightarrow> length (bt_insert k v m) = Suc (length m)"
  by (induction k v m rule: bt_insert.induct) (auto split: if_splits)

lemma bt_remove_absent: "k \<notin> set (bt_keys m) \<Longrightarrow> bt_remove k m = m"
  by (induction m) auto

lemma bt_insert_remove_fresh: "bt_ok m \<Longrightarrow> bt_get m k = None \<Longrightarrow> bt_remove k (bt_insert k v m) = m"
  by (rule bt_ext) auto

section \<open>The interface of a key-value container\<close>

locale kv_map =
  fixes get :: "'m \<Rightarrow> 'k \<Rightarrow> 'v option"
    and put :: "'k \<Rightarrow> 'v \<Rightarrow> 'm \<Rightarrow> 'm"
    and del :: "'k \<Rightarrow> 'm \<Rightarrow> 'm"
    and invar :: "'m \<Rightarrow> bool"
  assumes get_put: "invar m \<Longrightarrow> get (put k v m) k' = (if k' = k then Some v else get m k')"
    and get_del: "invar m \<Longrightarrow> get (del k m) k' = (if k' = k then None else get m k')"
    and invar_put: "invar m \<Longrightarrow> invar (put k v m)"
    and invar_del: "invar m \<Longrightarrow> invar (del k m)"
    and extensional: "invar m \<Longrightarrow> invar m' \<Longrightarrow> (\<And>k. get m k = get m' k) \<Longrightarrow> m = m'"
begin

lemma put_put_same: "invar m \<Longrightarrow> put k w (put k v m) = put k w m"
  by (rule extensional) (auto simp: get_put invar_put)

lemma put_commute: "invar m \<Longrightarrow> k \<noteq> k' \<Longrightarrow> put k v (put k' v' m) = put k' v' (put k v m)"
  by (rule extensional) (auto simp: get_put invar_put)

lemma del_put: "invar m \<Longrightarrow> get m k = None \<Longrightarrow> del k (put k v m) = m"
  by (rule extensional) (auto simp: get_put get_del invar_put invar_del)

lemma del_commute: "invar m \<Longrightarrow> del k (del k' m) = del k' (del k m)"
  by (rule extensional) (auto simp: get_del invar_del)

lemma del_put_other: "invar m \<Longrightarrow> k \<noteq> k' \<Longrightarrow> del k (put k' v m) = put k' v (del k m)"
  by (rule extensional) (auto simp: get_put get_del invar_put invar_del)

lemma put_present: "invar m \<Longrightarrow> get m k = Some v \<Longrightarrow> put k v m = m"
  by (rule extensional) (auto simp: get_put invar_put)

end

interpretation bt: kv_map bt_get bt_insert bt_remove bt_ok
  by unfold_locales (auto intro: bt_ext)

end
