(* ===== verification/Vault_Codec.thy ===== *)
theory Vault_Codec
  imports Crypto_Prims Codec Ordered_Map "HOL-Library.List_Lexorder"
begin

text \<open>
  The byte formats of the key vault: the header and payload of the vault file
  (\<open>crypto/vault/file.rs\<close>) and the recovery bundle (\<open>crypto/vault/export.rs\<close>).

  Profile identifiers are Rust strings, modelled by their UTF-8 bytes (so that the ordering of
  the list type is the ordering of the strings); \<open>utf8_valid\<close> is \<open>std::str::from_utf8\<close>.
  The random salt and nonce are arguments.
\<close>

section \<open>UTF-8\<close>

definition cont :: "u8 \<Rightarrow> bool" where "cont b \<longleftrightarrow> 128 \<le> b \<and> b \<le> 191"

fun utf8_valid :: "bytes \<Rightarrow> bool" where
  "utf8_valid [] = True"
| "utf8_valid (a # s) =
     (if a < 128 then utf8_valid s
      else if 194 \<le> a \<and> a \<le> 223 then
        (case s of b # s' \<Rightarrow> cont b \<and> utf8_valid s' | _ \<Rightarrow> False)
      else if 224 \<le> a \<and> a \<le> 239 then
        (case s of b # c # s' \<Rightarrow>
           cont b \<and> cont c \<and> (a = 224 \<longrightarrow> 160 \<le> b) \<and> (a = 237 \<longrightarrow> b \<le> 159) \<and> utf8_valid s'
         | _ \<Rightarrow> False)
      else if 240 \<le> a \<and> a \<le> 244 then
        (case s of b # c # d # s' \<Rightarrow>
           cont b \<and> cont c \<and> cont d \<and> (a = 240 \<longrightarrow> 144 \<le> b) \<and> (a = 244 \<longrightarrow> b \<le> 143) \<and> utf8_valid s'
         | _ \<Rightarrow> False)
      else False)"

section \<open>The vault file header\<close>

definition VAULT_MAGIC :: bytes where "VAULT_MAGIC = ascii ''TDVLT2''"
definition VAULT_VERSION :: u16 where "VAULT_VERSION = 2"
definition VAULT_AAD_DOMAIN :: bytes where "VAULT_AAD_DOMAIN = ascii ''telegram-drive:persistent-vault:v2''"
definition VAULT_HEADER_SIZE :: nat where [policy_simps]: "VAULT_HEADER_SIZE = 64"
definition MAX_VAULT_CIPHERTEXT :: nat where [policy_simps]: "MAX_VAULT_CIPHERTEXT = 1048576"
definition PAYLOAD_MAGIC :: bytes where "PAYLOAD_MAGIC = ascii ''TDVPL2''"
definition MAX_PROFILES :: nat where [policy_simps]: "MAX_PROFILES = 64"
definition MAX_PROFILE_ID_BYTES :: nat where [policy_simps]: "MAX_PROFILE_ID_BYTES = 128"

record vault_file_header =
  vh_memory_kib :: u32
  vh_iterations :: u32
  vh_parallelism :: u32
  vh_salt :: bytes
  vh_nonce :: bytes
  vh_ciphertext_length :: nat

definition encode_header :: "vault_file_header \<Rightarrow> bytes" where
  "encode_header h =
     VAULT_MAGIC @ le16 VAULT_VERSION @ le32 (vh_memory_kib h) @ le32 (vh_iterations h) @
     le32 (vh_parallelism h) @ vh_salt h @ vh_nonce h @ le32 (of_nat (vh_ciphertext_length h))"

definition parse_header :: "bytes \<Rightarrow> vault_file_header crypto_result" where
  "parse_header bs =
     (if length bs < VAULT_HEADER_SIZE + AEAD_TAG_LENGTH then Err truncated
      else if slice bs 0 6 \<noteq> VAULT_MAGIC then Err (header_invalid ''Invalid vault magic'')
      else
        let version = u16_at bs 6 in
        if version \<noteq> VAULT_VERSION then Err (unsupported_version version)
        else
        rbind (validate_argon2_params (u32_at bs 8) (u32_at bs 12) (u32_at bs 16)) (\<lambda>_.
        let ciphertext_length = unat (u32_at bs 60) in
        if \<not> (AEAD_TAG_LENGTH \<le> ciphertext_length \<and> ciphertext_length \<le> MAX_VAULT_CIPHERTEXT)
          \<or> length bs \<noteq> VAULT_HEADER_SIZE + ciphertext_length
        then Err (header_invalid ''Invalid vault ciphertext length'')
        else Ok \<lparr>vh_memory_kib = u32_at bs 8, vh_iterations = u32_at bs 12,
                vh_parallelism = u32_at bs 16, vh_salt = slice bs 20 36,
                vh_nonce = slice bs 36 60, vh_ciphertext_length = ciphertext_length\<rparr>))"

section \<open>The recovery bundle\<close>

definition RECOVERY_MAGIC :: bytes where "RECOVERY_MAGIC = ascii ''TDREC2''"
definition RECOVERY_VERSION :: u16 where "RECOVERY_VERSION = 2"
definition RECOVERY_AAD_DOMAIN :: bytes where "RECOVERY_AAD_DOMAIN = ascii ''telegram-drive:recovery-bundle:v2''"
definition RECOVERY_HEADER_SIZE :: nat where [policy_simps]: "RECOVERY_HEADER_SIZE = 64"
definition MAX_RECOVERY_PAYLOAD :: nat where [policy_simps]: "MAX_RECOVERY_PAYLOAD = 1048576"

definition policy_rejected :: "string \<Rightarrow> crypto_error" where
  "policy_rejected msg = Crypto_Error PolicyRejected msg"

definition recovery_encode_header :: "bytes \<Rightarrow> bytes \<Rightarrow> u32 \<Rightarrow> bytes" where
  "recovery_encode_header salt nonce ciphertext_length =
     RECOVERY_MAGIC @ le16 RECOVERY_VERSION @ le32 ARGON2_MEMORY_FLOOR_KIB @
     le32 ARGON2_ITERATIONS_FLOOR @ le32 ARGON2_PARALLELISM_FLOOR @ salt @ nonce @
     le32 ciphertext_length"

definition create_recovery_bundle ::
  "prims \<Rightarrow> bytes \<Rightarrow> bytes \<Rightarrow> bytes \<Rightarrow> bytes \<Rightarrow> bytes crypto_result" where
  "create_recovery_bundle P salt nonce payload recovery_passphrase =
     (if payload = [] \<or> MAX_RECOVERY_PAYLOAD < length payload
      then Err (policy_rejected ''Recovery payload is outside policy'')
      else if length recovery_passphrase < 8
      then Err (policy_rejected ''Recovery passphrase is too short'')
      else
      rbind (derive_passphrase_key P recovery_passphrase salt ARGON2_MEMORY_FLOOR_KIB
               ARGON2_ITERATIONS_FLOOR ARGON2_PARALLELISM_FLOOR) (\<lambda>key.
      rbind (ok_or (checked_add_usize (length payload) AEAD_TAG_LENGTH) size_overflow) (\<lambda>ciphertext_length.
      let header = recovery_encode_header salt nonce (of_nat ciphertext_length) in
      if \<not> key_ok P key then Err (internal ''Invalid recovery key'')
      else
      rbind (ok_or (aead_seal P key nonce (RECOVERY_AAD_DOMAIN @ header) payload)
               (internal ''Recovery export encryption failed'')) (\<lambda>ciphertext.
      if length ciphertext \<noteq> ciphertext_length
      then Err (internal ''Recovery ciphertext length mismatch'')
      else Ok (header @ ciphertext)))))"

definition import_recovery_bundle :: "prims \<Rightarrow> bytes \<Rightarrow> bytes \<Rightarrow> bytes crypto_result" where
  "import_recovery_bundle P bundle recovery_passphrase =
     (if length bundle < RECOVERY_HEADER_SIZE + AEAD_TAG_LENGTH then Err truncated
      else if slice bundle 0 6 \<noteq> RECOVERY_MAGIC then Err (header_invalid ''Invalid recovery magic'')
      else
        let version = u16_at bundle 6 in
        if version \<noteq> RECOVERY_VERSION then Err (unsupported_version version)
        else
        let memory = u32_at bundle 8; iterations = u32_at bundle 12; parallelism = u32_at bundle 16 in
        rbind (validate_argon2_params memory iterations parallelism) (\<lambda>_.
        let salt = slice bundle 20 36; nonce = slice bundle 36 60;
            ciphertext_length = unat (u32_at bundle 60) in
        if \<not> (AEAD_TAG_LENGTH \<le> ciphertext_length \<and>
               ciphertext_length \<le> MAX_RECOVERY_PAYLOAD + AEAD_TAG_LENGTH)
          \<or> length bundle \<noteq> RECOVERY_HEADER_SIZE + ciphertext_length
        then Err (header_invalid ''Invalid recovery ciphertext length'')
        else
        rbind (derive_passphrase_key P recovery_passphrase salt memory iterations parallelism) (\<lambda>key.
        let header = take RECOVERY_HEADER_SIZE bundle; aad = RECOVERY_AAD_DOMAIN @ header in
        if \<not> key_ok P key then Err (internal ''Invalid recovery key'')
        else ok_or (aead_open P key nonce aad (drop RECOVERY_HEADER_SIZE bundle))
               wrong_key_or_corrupt)))"

section \<open>The vault payload\<close>

type_synonym profiles = "(bytes, bytes) btree"

fun serialize_profiles :: "profiles \<Rightarrow> bytes crypto_result" where
  "serialize_profiles [] = Ok []"
| "serialize_profiles ((pid, key) # ps) =
     (if pid = [] \<or> MAX_PROFILE_ID_BYTES < length pid
      then Err (policy_rejected ''Invalid encryption profile identifier'')
      else rbind (serialize_profiles ps) (\<lambda>rest. Ok (le16 (of_nat (length pid)) @ pid @ key @ rest)))"

definition serialize_material :: "u64 \<Rightarrow> bytes \<Rightarrow> profiles \<Rightarrow> bytes crypto_result" where
  "serialize_material created_at vault_key profiles =
     (if MAX_PROFILES < length profiles then Err (policy_rejected ''Too many encryption profiles'')
      else rbind (serialize_profiles profiles) (\<lambda>ps.
        Ok (PAYLOAD_MAGIC @ le64 created_at @ vault_key @ le16 (of_nat (length profiles)) @ ps)))"

fun parse_profiles :: "bytes \<Rightarrow> nat \<Rightarrow> nat \<Rightarrow> profiles \<Rightarrow> (nat \<times> profiles) crypto_result" where
  "parse_profiles payload cursor 0 profiles = Ok (cursor, profiles)"
| "parse_profiles payload cursor (Suc n) profiles =
     rbind (ok_or (checked_add_usize cursor 2) size_overflow) (\<lambda>length_end.
     if length payload < length_end then Err truncated
     else
     let id_length = unat (from_le16 (slice payload cursor length_end)) in
     if id_length = 0 \<or> MAX_PROFILE_ID_BYTES < id_length then Err wrong_key_or_corrupt
     else
     rbind (ok_or (checked_add_usize length_end id_length) size_overflow) (\<lambda>id_end.
     rbind (ok_or (checked_add_usize id_end 32) size_overflow) (\<lambda>key_end.
     if length payload < key_end then Err truncated
     else
     let profile_id = slice payload length_end id_end in
     if \<not> utf8_valid profile_id then Err wrong_key_or_corrupt
     else if bt_contains profiles profile_id then Err wrong_key_or_corrupt
     else parse_profiles payload key_end n
            (bt_insert profile_id (slice payload id_end key_end) profiles))))"

definition parse_payload :: "bytes \<Rightarrow> (u64 \<times> bytes \<times> profiles) crypto_result" where
  "parse_payload payload =
     (if length payload < 48 \<or> slice payload 0 6 \<noteq> PAYLOAD_MAGIC then Err wrong_key_or_corrupt
      else
        let created_at = u64_at payload 6; vault_key = slice payload 14 46;
            count = unat (u16_at payload 46) in
        if MAX_PROFILES < count then Err wrong_key_or_corrupt
        else rbind (parse_profiles payload 48 count []) (\<lambda>(cursor, profiles).
          if cursor \<noteq> length payload then Err (header_invalid ''Trailing bytes in vault payload'')
          else Ok (created_at, vault_key, profiles)))"

section \<open>The common 64-byte header shape\<close>

lemma hdr64_fields:
  assumes "length mg = 6" and "length salt = 16" and "length nonce = 24"
    and "bs = mg @ le16 v @ le32 a @ le32 b @ le32 c @ salt @ nonce @ le32 l @ rest"
  shows "slice bs 0 6 = mg" "u16_at bs 6 = v" "u32_at bs 8 = a" "u32_at bs 12 = b" "u32_at bs 16 = c"
    "slice bs 20 36 = salt" "slice bs 36 60 = nonce" "u32_at bs 60 = l"
    "length bs = 64 + length rest"
    "take 64 bs = mg @ le16 v @ le32 a @ le32 b @ le32 c @ salt @ nonce @ le32 l" "drop 64 bs = rest"
  using assms(1-3) by (simp_all add: assms(4) u16_at_def u32_at_def slice_simps)

lemma hdr64_join:
  assumes "64 \<le> length bs"
  shows "slice bs 0 6 @ le16 (u16_at bs 6) @ le32 (u32_at bs 8) @ le32 (u32_at bs 12) @ le32 (u32_at bs 16) @
    slice bs 20 36 @ slice bs 36 60 @ le32 (u32_at bs 60) = take 64 bs"
  using assms by (simp add: le_at slice_joins flip: slice_zero_take)

definition vault_header_valid :: "vault_file_header \<Rightarrow> bool" where
  "vault_header_valid h \<longleftrightarrow>
     (\<exists>v. validate_argon2_params (vh_memory_kib h) (vh_iterations h) (vh_parallelism h) = Ok v) \<and>
     length (vh_salt h) = 16 \<and> length (vh_nonce h) = 24 \<and>
     16 \<le> vh_ciphertext_length h \<and> vh_ciphertext_length h \<le> 1048576"

lemma parse_encode_header:
  assumes v: "vault_header_valid h" and t: "length rest = vh_ciphertext_length h"
  shows "parse_header (encode_header h @ rest) = Ok h"
proof -
  have "length VAULT_MAGIC = 6" by (simp add: VAULT_MAGIC_def)
  note F = hdr64_fields [OF this, of "vh_salt h" "vh_nonce h" "encode_header h @ rest" VAULT_VERSION
      "vh_memory_kib h" "vh_iterations h" "vh_parallelism h" "of_nat (vh_ciphertext_length h)" rest]
  have u: "unat (of_nat (vh_ciphertext_length h) :: u32) = vh_ciphertext_length h"
    using v by (intro unat_word_of_nat_u32) (simp add: vault_header_valid_def)
  obtain w where w: "validate_argon2_params (vh_memory_kib h) (vh_iterations h) (vh_parallelism h) = Ok w"
    using v by (auto simp: vault_header_valid_def)
  show ?thesis
    using v t u w F by (simp add: vault_header_valid_def encode_header_def parse_header_def Let_def policy_simps)
qed

lemma encode_parse_header:
  assumes p: "parse_header bs = Ok h"
  shows "vault_header_valid h \<and> encode_header h = take 64 bs \<and> length (drop 64 bs) = vh_ciphertext_length h"
proof -
  from p obtain w where l: "80 \<le> length bs" and mg: "slice bs 0 6 = VAULT_MAGIC" and ve: "u16_at bs 6 = VAULT_VERSION"
    and w: "validate_argon2_params (u32_at bs 8) (u32_at bs 12) (u32_at bs 16) = Ok w"
    and c: "16 \<le> unat (u32_at bs 60)" "unat (u32_at bs 60) \<le> 1048576" "length bs = 64 + unat (u32_at bs 60)"
    and h: "h = \<lparr>vh_memory_kib = u32_at bs 8, vh_iterations = u32_at bs 12,
                vh_parallelism = u32_at bs 16, vh_salt = slice bs 20 36,
                vh_nonce = slice bs 36 60, vh_ciphertext_length = unat (u32_at bs 60)\<rparr>"
    by (auto simp: parse_header_def Let_def policy_simps not_less split: if_splits)
  have "encode_header h = take 64 bs"
    using hdr64_join [of bs] l mg ve by (simp add: encode_header_def h)
  then show ?thesis using l w c by (cases w) (auto simp: vault_header_valid_def h)
qed

text \<open>The vault header is a framed codec: the bytes after it must have the announced length.\<close>

interpretation vault_header: framed_codec "\<lambda>h. Ok (encode_header h)" parse_header vault_header_valid
  "\<lambda>h rest. length rest = vh_ciphertext_length h" VAULT_HEADER_SIZE
proof
  show "length bs = VAULT_HEADER_SIZE" if "vault_header_valid x" "Ok (encode_header x) = Ok bs" for x bs
    using that by (auto simp: vault_header_valid_def encode_header_def VAULT_MAGIC_def policy_simps)
  show "parse_header (bs @ rest) = Ok x"
    if "vault_header_valid x" "Ok (encode_header x) = Ok bs" "length rest = vh_ciphertext_length x" for x bs rest
    using parse_encode_header that by auto
  show "vault_header_valid x \<and> Ok (encode_header x) = Ok (take VAULT_HEADER_SIZE bs) \<and>
      length (drop VAULT_HEADER_SIZE bs) = vh_ciphertext_length x" if "parse_header bs = Ok x" for bs x
    using encode_parse_header [OF that] by (simp add: policy_simps)
qed

section \<open>The payload round trip\<close>

definition profiles_ok :: "profiles \<Rightarrow> bool" where
  "profiles_ok ps \<longleftrightarrow> bt_ok ps \<and>
     (\<forall>(pid, key) \<in> set ps. pid \<noteq> [] \<and> length pid \<le> 128 \<and> utf8_valid pid \<and> length key = 32)"

lemma bt_ok_append:
  "bt_ok (a @ b) \<longleftrightarrow> bt_ok a \<and> bt_ok b \<and> (\<forall>x\<in>set (bt_keys a). \<forall>y\<in>set (bt_keys b). x < y)"
  by (simp add: bt_ok_def bt_keys_def sorted_wrt_append)

lemma bt_keys_append [simp]: "bt_keys (a @ b) = bt_keys a @ bt_keys b"
  by (simp add: bt_keys_def)

lemma bt_insert_last: "bt_ok (a @ [(k, v)]) \<Longrightarrow> bt_insert k v a = a @ [(k, v)]"
  by (induction a) (auto simp: bt_ok_append dest: less_asym)

lemma parse_profiles_step:
  assumes "cursor + 2 + n + 32 \<le> length payload" and "cursor + 2 + n + 32 < usize_limit"
    and "unat (from_le16 (slice payload cursor (cursor + 2))) = n" and "n \<noteq> 0" and "n \<le> 128"
    and "slice payload (cursor + 2) (cursor + 2 + n) = pid" and "utf8_valid pid" and "\<not> bt_contains acc pid"
    and "slice payload (cursor + 2 + n) (cursor + 2 + n + 32) = key"
  shows "parse_profiles payload cursor (Suc m) acc
    = parse_profiles payload (cursor + 2 + n + 32) m (bt_insert pid key acc)"
  using assms by (simp add: checked_add_usize_def Let_def policy_simps)

lemma serialize_profiles_Ok:
  "profiles_ok ps \<Longrightarrow> \<exists>bs. serialize_profiles ps = Ok bs \<and> length bs \<le> 162 * length ps"
  by (induction ps rule: serialize_profiles.induct) (auto simp: profiles_ok_def policy_simps)

lemma parse_serialize_profiles:
  "profiles_ok (acc @ ps) \<Longrightarrow> serialize_profiles ps = Ok bs \<Longrightarrow> length pre + length bs + length post < usize_limit \<Longrightarrow>
   parse_profiles (pre @ bs @ post) (length pre) (length ps) acc = Ok (length pre + length bs, acc @ ps)"
proof (induction ps arbitrary: acc pre bs)
  case Nil
  then show ?case by simp
next
  case (Cons pk ps)
  obtain pid key where pk: "pk = (pid, key)" by (cases pk)
  obtain rest where r: "serialize_profiles ps = Ok rest" and id: "pid \<noteq> []" "length pid \<le> 128"
    and bs: "bs = le16 (of_nat (length pid)) @ pid @ key @ rest"
    using Cons.prems(2) by (auto simp: pk policy_simps split: if_splits)
  have ok: "utf8_valid pid" "length key = 32" "bt_ok (acc @ [(pid, key)] @ ps)"
    using Cons.prems(1) by (simp_all add: profiles_ok_def pk)
  have u: "unat (of_nat (length pid) :: u16) = length pid"
    using id by (intro unat_word_of_nat_u16) simp
  have fresh: "\<not> bt_contains acc pid"
    using ok(3) by (auto simp: bt_contains_iff bt_ok_append)
  have ins: "bt_insert pid key acc = acc @ [(pid, key)]"
    using ok(3) by (intro bt_insert_last) (auto simp: bt_ok_append)
  let ?pl = "pre @ bs @ post" and ?n = "length pre"
  have s: "slice ?pl ?n (?n + 2) = le16 (of_nat (length pid))"
    "slice ?pl (?n + 2) (?n + 2 + length pid) = pid"
    "slice ?pl (?n + 2 + length pid) (?n + 2 + length pid + 32) = key"
    using ok by (simp_all add: bs slice_simps)
  have len: "?n + 2 + length pid + 32 \<le> length ?pl" using ok by (simp add: bs)
  have IH: "parse_profiles ((pre @ le16 (of_nat (length pid)) @ pid @ key) @ rest @ post)
      (length (pre @ le16 (of_nat (length pid)) @ pid @ key)) (length ps) (acc @ [(pid, key)])
    = Ok (length (pre @ le16 (of_nat (length pid)) @ pid @ key) + length rest, (acc @ [(pid, key)]) @ ps)"
    by (rule Cons.IH) (use Cons.prems r in \<open>simp_all add: pk bs\<close>)
  have e: "(pre @ le16 (of_nat (length pid)) @ pid @ key) @ rest @ post = ?pl"
    "length (pre @ le16 (of_nat (length pid)) @ pid @ key) = ?n + 2 + length pid + 32"
    using ok by (simp_all add: bs)
  have step: "parse_profiles ?pl ?n (Suc (length ps)) acc
      = parse_profiles ?pl (?n + 2 + length pid + 32) (length ps) (acc @ [(pid, key)])"
    unfolding ins [symmetric]
    by (rule parse_profiles_step) (use id ok u fresh len s Cons.prems(3) in \<open>simp_all add: bs\<close>)
  have "parse_profiles ?pl ?n (length (pk # ps)) acc =
      Ok (?n + 2 + length pid + 32 + length rest, (acc @ [(pid, key)]) @ ps)"
    unfolding list.size(4) add_Suc_right add_0_right step using IH [unfolded e] .
  then show ?case using ok by (simp add: pk bs del: parse_profiles.simps)
qed

lemma payload_roundtrip:
  assumes k: "length vault_key = 32" and ps: "profiles_ok profiles" and few: "length profiles \<le> 64"
  shows "\<exists>payload. serialize_material created_at vault_key profiles = Ok payload \<and> payload \<noteq> [] \<and>
    length payload \<le> 10416 \<and> parse_payload payload = Ok (created_at, vault_key, profiles)"
proof -
  obtain bs where bs: "serialize_profiles profiles = Ok bs" "length bs \<le> 162 * length profiles"
    using serialize_profiles_Ok [OF ps] by blast
  have lm: "length PAYLOAD_MAGIC = 6" by (simp add: PAYLOAD_MAGIC_def)
  have u: "unat (of_nat (length profiles) :: u16) = length profiles"
    using few by (intro unat_word_of_nat_u16) simp
  let ?pre = "PAYLOAD_MAGIC @ le64 created_at @ vault_key @ le16 (of_nat (length profiles))"
  let ?p = "?pre @ bs @ []"
  have lp: "length ?pre = 48" using k lm by simp
  have bound: "length bs \<le> 10368" using bs(2) few by simp
  have "parse_profiles ?p (length ?pre) (length profiles) [] = Ok (length ?pre + length bs, [] @ profiles)"
    by (rule parse_serialize_profiles) (use ps bs bound lp in \<open>simp_all add: usize_limit_def\<close>)
  then have pp: "parse_profiles ?p 48 (length profiles) [] = Ok (48 + length bs, profiles)"
    by (simp only: lp) simp
  have f: "slice ?p 0 6 = PAYLOAD_MAGIC" "u64_at ?p 6 = created_at" "slice ?p 14 46 = vault_key"
    "u16_at ?p 46 = of_nat (length profiles)"
    using k lm by (simp_all add: u64_at_def u16_at_def slice_simps)
  have "parse_payload ?p = Ok (created_at, vault_key, profiles)"
    unfolding parse_payload_def Let_def f u pp using few k lm by (simp add: policy_simps)
  moreover have "serialize_material created_at vault_key profiles = Ok ?p"
    using few bs by (simp add: serialize_material_def policy_simps)
  moreover have "?p \<noteq> []" "length ?p \<le> 10416" using lp bound by auto
  ultimately show ?thesis by blast
qed

section \<open>The recovery bundle round trip\<close>

lemma recovery_bundle_roundtrip:
  assumes P: "prims_ok P" and l: "length salt = 16" "length nonce = 24" "length pw < 2 ^ 32" and p8: "8 \<le> length pw"
    and pl: "payload \<noteq> []" "length payload \<le> 1048576"
  shows "\<exists>bundle. create_recovery_bundle P salt nonce payload pw = Ok bundle \<and>
    import_recovery_bundle P bundle pw = Ok payload"
proof -
  obtain key where key: "derive_passphrase_key P pw salt ARGON2_MEMORY_FLOOR_KIB
      ARGON2_ITERATIONS_FLOOR ARGON2_PARALLELISM_FLOOR = Ok key" "length key = 32"
    using derive_passphrase_key_total [OF P l(1,3)] validate_argon2_writer_params by blast
  have k: "key_ok P key" using P key(2) by (rule prims_key_ok)
  let ?n = "length payload + 16"
  let ?h = "recovery_encode_header salt nonce (of_nat ?n)"
  obtain ct where ct: "aead_seal P key nonce (RECOVERY_AAD_DOMAIN @ ?h) payload = Some ct" "length ct = ?n"
    using prims_seal_total [OF P key(2) l(2), of payload] pl by fastforce
  have c: "create_recovery_bundle P salt nonce payload pw = Ok (?h @ ct)"
    using pl p8 key k ct
    by (simp add: create_recovery_bundle_def policy_simps Let_def usize_limit_def checked_add_usize_def
        del: of_nat_add of_nat_Suc)
  have "length RECOVERY_MAGIC = 6" by (simp add: RECOVERY_MAGIC_def)
  note F = hdr64_fields [OF this l(1,2), of "?h @ ct" RECOVERY_VERSION ARGON2_MEMORY_FLOOR_KIB
      ARGON2_ITERATIONS_FLOOR ARGON2_PARALLELISM_FLOOR "of_nat ?n" ct]
  have h: "?h @ ct = RECOVERY_MAGIC @ le16 RECOVERY_VERSION @ le32 ARGON2_MEMORY_FLOOR_KIB @
     le32 ARGON2_ITERATIONS_FLOOR @ le32 ARGON2_PARALLELISM_FLOOR @ salt @ nonce @ le32 (of_nat ?n) @ ct"
    by (simp add: recovery_encode_header_def)
  have h2: "?h = RECOVERY_MAGIC @ le16 RECOVERY_VERSION @ le32 ARGON2_MEMORY_FLOOR_KIB @
     le32 ARGON2_ITERATIONS_FLOOR @ le32 ARGON2_PARALLELISM_FLOOR @ salt @ nonce @ le32 (of_nat ?n)"
    by (simp add: recovery_encode_header_def)
  note F' = F [OF h, folded h2]
  have u: "unat (of_nat ?n :: u32) = ?n" using pl by (intro unat_word_of_nat_u32) simp
  have o: "aead_open P key nonce (RECOVERY_AAD_DOMAIN @ ?h) ct = Some payload"
    using ct(1) by (simp add: prims_open_iff [OF P])
  have "import_recovery_bundle P (?h @ ct) pw = Ok payload"
    unfolding import_recovery_bundle_def Let_def policy_simps F' u ct(2)
    using pl key k o by (simp add: policy_simps)
  with c show ?thesis by blast
qed

end
