(* ===== verification/Vault_Disk.thy ===== *)
theory Vault_Disk
  imports Vault_Codec "HOL-Library.Char_ord"
begin

text \<open>
  The files of the key vault and the two ways \<open>crypto/vault/file.rs\<close> touches them.

  Writing is modelled with a fault oracle and a history: every file-system call either fails with
  the oracle's message or appends the next disk state, newest first, so that a property of all
  elements of the history is a property of every point at which the process may be killed.
  Reading is modelled with a view: the \<open>k\<close>-th read call sees \<open>view k\<close>, an I/O error or the
  disk at that moment, so other programs may change the files between two calls.
\<close>

record disk_file =
  df_bytes :: bytes
  df_modified :: "nat option"
  df_device :: nat
  df_inode :: nat

record vault_disk =
  vd_primary :: "disk_file option"
  vd_backup :: "disk_file option"
  vd_part :: "disk_file option"
  vd_archives :: "(string \<times> bytes) list"

definition io_error_of :: "string \<Rightarrow> crypto_error" where
  "io_error_of msg = Crypto_Error IoError (''IO error: '' @ msg)"

section \<open>Writing\<close>

datatype fs_site = CreateDir | OpenPart | WritePart | SyncPart | RemoveBackup | RenameToBackup
  | RenameToPrimary | RestoreBackup | CleanupBackup | OpenSource | OpenArchive | WriteArchive | SyncArchive | ListArchives

record fs_faults =
  ff_fail :: "fs_site \<Rightarrow> string option"
  ff_partial :: nat
  ff_new_file :: "bytes \<Rightarrow> disk_file"
  ff_stamp :: string
  ff_removes :: "string \<Rightarrow> bool"

type_synonym history = "vault_disk list"

definition fs_call ::
  "fs_faults \<Rightarrow> fs_site \<Rightarrow> (vault_disk \<Rightarrow> vault_disk) \<Rightarrow> history \<Rightarrow> unit crypto_result \<times> history" where
  "fs_call f site g h =
     (case ff_fail f site of
        Some msg \<Rightarrow> (Err (io_error_of msg), h)
      | None \<Rightarrow> (Ok (), g (hd h) # h))"

definition and_then ::
  "unit crypto_result \<times> history \<Rightarrow> (history \<Rightarrow> unit crypto_result \<times> history) \<Rightarrow> unit crypto_result \<times> history" where
  "and_then rh k = (case rh of (Inl e, h) \<Rightarrow> (Err e, h) | (Inr _, h) \<Rightarrow> k h)"

text \<open>\<open>write_all\<close>: on failure some prefix may have reached the file.\<close>

definition write_part :: "fs_faults \<Rightarrow> bytes \<Rightarrow> history \<Rightarrow> unit crypto_result \<times> history" where
  "write_part f bs h =
     (case ff_fail f WritePart of
        Some msg \<Rightarrow> (Err (io_error_of msg),
          (hd h)\<lparr>vd_part := Some (ff_new_file f (take (ff_partial f) bs))\<rparr> # h)
      | None \<Rightarrow> (Ok (), (hd h)\<lparr>vd_part := Some (ff_new_file f bs)\<rparr> # h))"

definition move_to_backup :: "fs_faults \<Rightarrow> history \<Rightarrow> unit crypto_result \<times> history" where
  "move_to_backup f h =
     (if vd_primary (hd h) = None then (Ok (), h)
      else
        and_then
          (if vd_backup (hd h) \<noteq> None then fs_call f RemoveBackup (\<lambda>d. d\<lparr>vd_backup := None\<rparr>) h
           else (Ok (), h))
          (fs_call f RenameToBackup (\<lambda>d. d\<lparr>vd_backup := vd_primary d, vd_primary := None\<rparr>)))"

definition disk_atomic_write :: "fs_faults \<Rightarrow> bytes \<Rightarrow> history \<Rightarrow> unit crypto_result \<times> history" where
  "disk_atomic_write f bs h =
     and_then (fs_call f CreateDir (\<lambda>d. d) h) (\<lambda>h.
     and_then (fs_call f OpenPart (\<lambda>d. d\<lparr>vd_part := Some (ff_new_file f [])\<rparr>) h) (\<lambda>h.
     and_then (write_part f bs h) (\<lambda>h.
     and_then (fs_call f SyncPart (\<lambda>d. d) h) (\<lambda>h.
     and_then (move_to_backup f h) (\<lambda>h.
     case fs_call f RenameToPrimary (\<lambda>d. d\<lparr>vd_primary := vd_part d, vd_part := None\<rparr>) h of
       (Inl e, h) \<Rightarrow>
         (Err e,
          if vd_backup (hd h) \<noteq> None \<and> vd_primary (hd h) = None
          then snd (fs_call f RestoreBackup (\<lambda>d. d\<lparr>vd_primary := vd_backup d, vd_backup := None\<rparr>) h)
          else h)
     | (Inr _, h) \<Rightarrow>
         (Ok (),
          if vd_backup (hd h) \<noteq> None
          then snd (fs_call f CleanupBackup (\<lambda>d. d\<lparr>vd_backup := None\<rparr>) h)
          else h))))))"

text \<open>What a reader that prefers the primary file finds.\<close>

definition readable :: "vault_disk \<Rightarrow> disk_file option" where
  "readable d = (case vd_primary d of Some x \<Rightarrow> Some x | None \<Rightarrow> vd_backup d)"

definition MAX_REPLACED_VAULT_ARCHIVES :: nat where
  [policy_simps]: "MAX_REPLACED_VAULT_ARCHIVES = 5"

text \<open>The archives beside the vault, by the time stamp of their name, sorted. An archive that cannot
  be removed is skipped.\<close>

definition prune_archives :: "fs_faults \<Rightarrow> (string \<times> bytes) list \<Rightarrow> (string \<times> bytes) list" where
  "prune_archives f as =
     (let surplus = length as - MAX_REPLACED_VAULT_ARCHIVES in
      filter (\<lambda>(name, _). \<not> ff_removes f name) (take surplus as) @ drop surplus as)"

definition copy_to_archive :: "fs_faults \<Rightarrow> bytes \<Rightarrow> history \<Rightarrow> unit crypto_result \<times> history" where
  "copy_to_archive f bs h =
     (let put = (\<lambda>x d. d\<lparr>vd_archives := bt_insert (ff_stamp f) x (vd_archives d)\<rparr>) in
      case ff_fail f WriteArchive of
        Some msg \<Rightarrow> (Err (io_error_of msg), put (take (ff_partial f) bs) (hd h) # h)
      | None \<Rightarrow> (Ok (), put bs (hd h) # h))"

definition archive_before_replacement_disk :: "fs_faults \<Rightarrow> history \<Rightarrow> unit crypto_result \<times> history" where
  "archive_before_replacement_disk f h =
     (case readable (hd h) of
        None \<Rightarrow> (Ok (), h)
      | Some source \<Rightarrow>
          and_then (fs_call f OpenSource (\<lambda>d. d) h) (\<lambda>h.
          if bt_contains (vd_archives (hd h)) (ff_stamp f)
          then (Err (io_error_of ''File exists''), h)
          else
          and_then (fs_call f OpenArchive
            (\<lambda>d. d\<lparr>vd_archives := bt_insert (ff_stamp f) [] (vd_archives d)\<rparr>) h) (\<lambda>h.
          and_then (copy_to_archive f (df_bytes source) h) (\<lambda>h.
          and_then (fs_call f SyncArchive (\<lambda>d. d) h) (\<lambda>h.
          and_then (fs_call f ListArchives (\<lambda>d. d) h) (\<lambda>h.
          (Ok (), (hd h)\<lparr>vd_archives := prune_archives f (vd_archives (hd h))\<rparr> # h)))))))"

lemma fs_call_simps:
  "ff_fail f site = None \<Longrightarrow> fs_call f site g h = (Ok (), g (hd h) # h)"
  "ff_fail f site = Some msg \<Longrightarrow> fs_call f site g h = (Err (io_error_of msg), h)"
  by (simp_all add: fs_call_def)

lemma and_then_simps [simp]:
  "and_then (Err e, h) k = (Err e, h)" "and_then (Ok u, h) k = k h"
  by (simp_all add: and_then_def)

section \<open>The replacement is atomic for a reader\<close>

text \<open>A triple for file-system actions: from \<open>I\<close>, success reaches \<open>Q\<close> and failure \<open>E\<close>.\<close>

definition triple ::
  "(history \<Rightarrow> bool) \<Rightarrow> (history \<Rightarrow> unit crypto_result \<times> history) \<Rightarrow> (history \<Rightarrow> bool) \<Rightarrow> (history \<Rightarrow> bool) \<Rightarrow> bool" where
  "triple I act Q E \<longleftrightarrow>
     (\<forall>h. I h \<longrightarrow> (case act h of (Inl e, h') \<Rightarrow> E h' | (Inr _, h') \<Rightarrow> Q h'))"

lemma triple_and_then:
  "triple I a Q E \<Longrightarrow> triple Q b R E \<Longrightarrow> triple I (\<lambda>h. and_then (a h) b) R E"
  by (fastforce simp: triple_def and_then_def split: prod.splits sum.splits)

lemma triple_call:
  assumes "\<And>h. I h \<Longrightarrow> Q (g (hd h) # h)"
  shows "triple I (fs_call f site g) Q I"
  using assms by (auto simp: triple_def fs_call_def split: option.splits)

lemma triple_weaken:
  "triple I' a Q' E' \<Longrightarrow> (\<And>h. I h \<Longrightarrow> I' h) \<Longrightarrow> (\<And>h. Q' h \<Longrightarrow> Q h) \<Longrightarrow> (\<And>h. E' h \<Longrightarrow> E h) \<Longrightarrow> triple I a Q E"
  by (fastforce simp: triple_def split: prod.splits sum.splits)

text \<open>Every disk state of the history reads as the old file or as the new one.\<close>

definition safe_history :: "disk_file option \<Rightarrow> disk_file \<Rightarrow> history \<Rightarrow> bool" where
  "safe_history old new h \<longleftrightarrow> h \<noteq> [] \<and> (\<forall>d\<in>set h. readable d \<in> {old, Some new})"

definition untouched :: "disk_file option \<Rightarrow> disk_file \<Rightarrow> history \<Rightarrow> bool" where
  "untouched old new h \<longleftrightarrow> safe_history old new h \<and> readable (hd h) = old"

definition staged :: "disk_file option \<Rightarrow> disk_file \<Rightarrow> history \<Rightarrow> bool" where
  "staged old new h \<longleftrightarrow> untouched old new h \<and> vd_part (hd h) = Some new"

lemma untouched_step:
  "untouched old new h \<Longrightarrow> readable (g (hd h)) = readable (hd h) \<Longrightarrow> untouched old new (g (hd h) # h)"
  by (simp add: untouched_def safe_history_def)

lemma readable_part [simp]: "readable (d\<lparr>vd_part := x\<rparr>) = readable d"
  "readable (d\<lparr>vd_archives := a\<rparr>) = readable d"
  by (auto simp: readable_def split: option.split)

lemma write_part_triple:
  "triple (untouched old (ff_new_file f bs)) (write_part f bs) (staged old (ff_new_file f bs))
     (untouched old (ff_new_file f bs))"
  by (auto simp: triple_def write_part_def staged_def untouched_def safe_history_def split: option.splits)

lemma move_to_backup_triple:
  "triple (staged old new) (move_to_backup f) (\<lambda>h. staged old new h \<and> vd_primary (hd h) = None) (untouched old new)"
proof -
  let ?I = "\<lambda>h. staged old new h \<and> vd_primary (hd h) \<noteq> None"
  let ?a = "\<lambda>h. if vd_backup (hd h) \<noteq> None then fs_call f RemoveBackup (\<lambda>d. d\<lparr>vd_backup := None\<rparr>) h else (Ok (), h)"
  have "triple ?I (fs_call f RemoveBackup (\<lambda>d. d\<lparr>vd_backup := None\<rparr>)) ?I ?I"
    by (rule triple_call) (auto simp: staged_def untouched_def safe_history_def readable_def split: option.splits)
  then have a: "triple ?I ?a ?I ?I" by (auto simp: triple_def)
  have b: "triple ?I (fs_call f RenameToBackup (\<lambda>d. d\<lparr>vd_backup := vd_primary d, vd_primary := None\<rparr>))
      (\<lambda>h. staged old new h \<and> vd_primary (hd h) = None) ?I"
    by (rule triple_call) (auto simp: staged_def untouched_def safe_history_def readable_def split: option.splits)
  note ab = triple_and_then [OF a b]
  show ?thesis
    unfolding triple_def
  proof (intro allI impI)
    fix h assume st: "staged old new h"
    show "case move_to_backup f h of (Inl e, h') \<Rightarrow> untouched old new h'
      | (Inr _, h') \<Rightarrow> staged old new h' \<and> vd_primary (hd h') = None"
    proof (cases "vd_primary (hd h) = None")
      case True
      then show ?thesis using st by (simp add: move_to_backup_def)
    next
      case False
      have "case move_to_backup f h of (Inl e, h') \<Rightarrow> ?I h'
        | (Inr _, h') \<Rightarrow> staged old new h' \<and> vd_primary (hd h') = None"
        using ab [unfolded triple_def, rule_format, of h] st False by (simp add: move_to_backup_def)
      then show ?thesis by (auto simp: staged_def split: prod.splits sum.splits)
    qed
  qed
qed

lemma rename_triple:
  "triple (\<lambda>h. staged old new h \<and> vd_primary (hd h) = None)
    (\<lambda>h. case fs_call f RenameToPrimary (\<lambda>d. d\<lparr>vd_primary := vd_part d, vd_part := None\<rparr>) h of
       (Inl e, h) \<Rightarrow>
         (Err e,
          if vd_backup (hd h) \<noteq> None \<and> vd_primary (hd h) = None
          then snd (fs_call f RestoreBackup (\<lambda>d. d\<lparr>vd_primary := vd_backup d, vd_backup := None\<rparr>) h)
          else h)
     | (Inr _, h) \<Rightarrow>
         (Ok (),
          if vd_backup (hd h) \<noteq> None
          then snd (fs_call f CleanupBackup (\<lambda>d. d\<lparr>vd_backup := None\<rparr>) h)
          else h))
    (\<lambda>h. safe_history old new h \<and> readable (hd h) = Some new) (untouched old new)"
  by (cases "ff_fail f RenameToPrimary"; cases "ff_fail f RestoreBackup"; cases "ff_fail f CleanupBackup")
    (auto simp: triple_def fs_call_simps staged_def untouched_def safe_history_def readable_def split: option.splits)

lemma disk_atomic_write_triple:
  "triple (untouched old (ff_new_file f bs)) (disk_atomic_write f bs)
     (\<lambda>h. safe_history old (ff_new_file f bs) h \<and> readable (hd h) = Some (ff_new_file f bs))
     (untouched old (ff_new_file f bs))"
proof -
  let ?n = "ff_new_file f bs"
  have 1: "triple (untouched old ?n) (fs_call f CreateDir (\<lambda>d. d)) (untouched old ?n) (untouched old ?n)"
    by (rule triple_call) (rule untouched_step, simp_all)
  have 2: "triple (untouched old ?n) (fs_call f OpenPart (\<lambda>d. d\<lparr>vd_part := Some (ff_new_file f [])\<rparr>))
      (untouched old ?n) (untouched old ?n)"
    by (rule triple_call) (rule untouched_step, simp_all)
  have 4: "triple (staged old ?n) (fs_call f SyncPart (\<lambda>d. d)) (staged old ?n) (untouched old ?n)"
    by (rule triple_weaken [OF triple_call [where I = "staged old ?n" and Q = "staged old ?n"]])
      (auto simp: staged_def untouched_def safe_history_def)
  show ?thesis
    using triple_and_then [OF 1 triple_and_then [OF 2 triple_and_then [OF write_part_triple
      triple_and_then [OF 4 triple_and_then [OF move_to_backup_triple rename_triple]]]]]
    unfolding disk_atomic_write_def .
qed

lemma disk_atomic_write_safe:
  assumes "safe_history old (ff_new_file f bs) h" and "readable (hd h) = old"
    and w: "disk_atomic_write f bs h = (r, h')"
  shows "safe_history old (ff_new_file f bs) h' \<and>
    readable (hd h') = (case r of Inl _ \<Rightarrow> old | Inr _ \<Rightarrow> Some (ff_new_file f bs))"
proof -
  have "untouched old (ff_new_file f bs) h" using assms(1,2) by (simp add: untouched_def)
  then show ?thesis
    using disk_atomic_write_triple [of old f bs, unfolded triple_def, rule_format, of h] w
    by (cases r) (simp_all add: untouched_def)
qed

lemma archive_triple:
  "triple (untouched old new) (archive_before_replacement_disk f) (untouched old new) (untouched old new)"
proof -
  let ?I = "untouched old new"
  have c: "triple ?I (fs_call f site g) ?I ?I" if "\<And>d. readable (g d) = readable d" for site g
    by (rule triple_call) (use that in \<open>auto intro: untouched_step\<close>)
  have w: "triple ?I (copy_to_archive f bs) ?I ?I" for bs
    by (auto simp: triple_def copy_to_archive_def untouched_def safe_history_def Let_def split: option.splits)
  have p: "triple ?I (\<lambda>h. (Ok (), (hd h)\<lparr>vd_archives := prune_archives f (vd_archives (hd h))\<rparr> # h)) ?I ?I"
    by (simp add: triple_def untouched_def safe_history_def)
  have "triple ?I (\<lambda>h. and_then (fs_call f OpenArchive
            (\<lambda>d. d\<lparr>vd_archives := bt_insert (ff_stamp f) [] (vd_archives d)\<rparr>) h) (\<lambda>h.
          and_then (copy_to_archive f bs h) (\<lambda>h.
          and_then (fs_call f SyncArchive (\<lambda>d. d) h) (\<lambda>h.
          and_then (fs_call f ListArchives (\<lambda>d. d) h) (\<lambda>h.
          (Ok (), (hd h)\<lparr>vd_archives := prune_archives f (vd_archives (hd h))\<rparr> # h)))))) ?I ?I" for bs
    by (intro triple_and_then [OF c] triple_and_then [OF w] p) simp_all
  then have "triple ?I (\<lambda>h. if bt_contains (vd_archives (hd h)) (ff_stamp f) then (Err (io_error_of ''File exists''), h)
          else and_then (fs_call f OpenArchive
            (\<lambda>d. d\<lparr>vd_archives := bt_insert (ff_stamp f) [] (vd_archives d)\<rparr>) h) (\<lambda>h.
          and_then (copy_to_archive f bs h) (\<lambda>h.
          and_then (fs_call f SyncArchive (\<lambda>d. d) h) (\<lambda>h.
          and_then (fs_call f ListArchives (\<lambda>d. d) h) (\<lambda>h.
          (Ok (), (hd h)\<lparr>vd_archives := prune_archives f (vd_archives (hd h))\<rparr> # h)))))) ?I ?I" for bs
    by (simp add: triple_def)
  note a = triple_and_then [OF c [where site = OpenSource and g = "\<lambda>d. d"] this]
  show ?thesis
    unfolding triple_def
  proof (intro allI impI)
    fix h assume u: "?I h"
    show "case archive_before_replacement_disk f h of (Inl e, h') \<Rightarrow> ?I h' | (Inr _, h') \<Rightarrow> ?I h'"
      using a [unfolded triple_def, rule_format, OF _ u] u
      by (cases "readable (hd h)") (simp_all add: archive_before_replacement_disk_def)
  qed
qed

end
