(* ===== verification/Vault_File.thy ===== *)
theory Vault_File
  imports Vault_Disk
begin

text \<open>
  \<open>crypto/vault/file.rs\<close>: the passphrase-protected vault. The state is the record \<open>file_vault\<close>;
  operations take it together with the disk history (see \<open>Vault_Disk\<close>) and return the result,
  the new state and the new history. Random values and the clock are the record \<open>entropy\<close>.
  \<open>HashMap\<close> profiles are kept sorted, which is the order in which the code serializes them.
\<close>

section \<open>State\<close>

datatype vault_capture = CaptureCreate | CaptureRead | CaptureReplace | CaptureResident

record file_identity =
  fi_length :: nat
  fi_modified :: "nat option"
  fi_device :: nat
  fi_inode :: nat

record file_fingerprint =
  fp_identity :: file_identity
  fp_digest :: "bytes option"

record file_capture =
  fc_primary :: "file_fingerprint option"
  fc_backup :: "file_fingerprint option"
  fc_bytes :: "bytes option"
  fc_access :: vault_capture

record preparation_storage =
  pr_capture :: "file_capture option"
  pr_pending :: "bytes option"
  pr_archive :: bool

record file_vault =
  fv_unlocked :: bool
  fv_vault_key :: "bytes option"
  fv_unlock_key :: "bytes option"
  fv_vault_salt :: "bytes option"
  fv_profiles :: profiles
  fv_created_at :: u64
  fv_preparation :: "preparation_storage option"

record entropy =
  en_key :: bytes
  en_salt :: bytes
  en_nonce :: bytes
  en_now :: u64

definition FileVault_new :: file_vault where
  "FileVault_new = \<lparr>fv_unlocked = False, fv_vault_key = None, fv_unlock_key = None,
     fv_vault_salt = None, fv_profiles = [], fv_created_at = 0, fv_preparation = None\<rparr>"

section \<open>Reading the files\<close>

datatype vault_path = PrimaryPath | BackupPath

fun file_at :: "vault_path \<Rightarrow> vault_disk \<Rightarrow> disk_file option" where
  "file_at PrimaryPath d = vd_primary d"
| "file_at BackupPath d = vd_backup d"

type_synonym disk_view = "nat \<Rightarrow> crypto_error + vault_disk"

definition capture_file :: "vault_path \<Rightarrow> disk_view \<Rightarrow> nat \<Rightarrow> bytes option crypto_result" where
  "capture_file path view k =
     rbind (view k) (\<lambda>d. case file_at path d of
        None \<Rightarrow> Ok None
      | Some x \<Rightarrow>
          let bs = take (VAULT_HEADER_SIZE + MAX_VAULT_CIPHERTEXT + 1) (df_bytes x) in
          if VAULT_HEADER_SIZE + MAX_VAULT_CIPHERTEXT < length bs
          then Err (header_invalid ''Vault file exceeds policy'')
          else Ok (Some bs))"

definition identity_of :: "disk_file \<Rightarrow> file_identity" where
  "identity_of x = \<lparr>fi_length = length (df_bytes x), fi_modified = df_modified x,
     fi_device = df_device x, fi_inode = df_inode x\<rparr>"

definition file_identity_at :: "vault_path \<Rightarrow> disk_view \<Rightarrow> nat \<Rightarrow> file_identity option crypto_result" where
  "file_identity_at path view k = rbind (view k) (\<lambda>d. Ok (map_option identity_of (file_at path d)))"

definition vault_changed :: "string \<Rightarrow> crypto_error" where
  "vault_changed what = policy_rejected (''VAULT_CHANGED: '' @ what)"

definition fingerprint :: "prims \<Rightarrow> vault_path \<Rightarrow> bool \<Rightarrow> disk_view \<Rightarrow> nat \<Rightarrow> file_fingerprint option crypto_result" where
  "fingerprint P path hash view k =
     rbind (file_identity_at path view k) (\<lambda>identity. case identity of
        None \<Rightarrow> Ok None
      | Some identity \<Rightarrow>
          if hash then
            rbind (view (k + 1)) (\<lambda>d. case file_at path d of
                None \<Rightarrow> Err (io_error_of ''No such file or directory'')
              | Some x \<Rightarrow>
                  rbind (file_identity_at path view (k + 2)) (\<lambda>again.
                  if again \<noteq> Some identity
                  then Err (vault_changed ''Vault file changed during capture'')
                  else Ok (Some \<lparr>fp_identity = identity, fp_digest = Some (sha256 P (df_bytes x))\<rparr>)))
          else Ok (Some \<lparr>fp_identity = identity, fp_digest = None\<rparr>))"

definition matches_fingerprint ::
  "prims \<Rightarrow> vault_path \<Rightarrow> file_fingerprint option \<Rightarrow> disk_view \<Rightarrow> nat \<Rightarrow> bool crypto_result" where
  "matches_fingerprint P path expected view k =
     rbind (file_identity_at path view k) (\<lambda>now.
     if now \<noteq> map_option fp_identity expected then Ok False
     else
       rbind (fingerprint P path (case expected of None \<Rightarrow> False | Some x \<Rightarrow> fp_digest x \<noteq> None) view (k + 1))
         (\<lambda>current. Ok (current = expected)))"

definition captured_bytes :: "file_vault \<Rightarrow> disk_view \<Rightarrow> bytes crypto_result" where
  "captured_bytes v view =
     rbind (case fv_preparation v of
        Some preparation \<Rightarrow> Ok (Option.bind (pr_capture preparation) fc_bytes)
      | None \<Rightarrow>
          rbind (capture_file PrimaryPath view 0) (\<lambda>primary. case primary of
            Some bs \<Rightarrow> Ok (Some bs)
          | None \<Rightarrow> capture_file BackupPath view 1))
     (\<lambda>bs. ok_or bs (Crypto_Error KeyRequired ''Vault does not exist''))"

definition vault_exists :: "file_vault \<Rightarrow> disk_view \<Rightarrow> bool" where
  "vault_exists v view =
     (case fv_preparation v of
        Some preparation \<Rightarrow>
          (case pr_capture preparation of
             None \<Rightarrow> False
           | Some capture \<Rightarrow> fc_primary capture \<noteq> None \<or> fc_backup capture \<noteq> None)
      | None \<Rightarrow>
          (case view 0 of Inl _ \<Rightarrow> False | Inr d \<Rightarrow> vd_primary d \<noteq> None) \<or>
          (case view 1 of Inl _ \<Rightarrow> False | Inr d \<Rightarrow> vd_backup d \<noteq> None))"

section \<open>Persisting\<close>

definition serialize_payload :: "file_vault \<Rightarrow> bytes crypto_result" where
  "serialize_payload v =
     rbind (ok_or (fv_vault_key v) vault_locked) (\<lambda>vault_key.
     serialize_material (fv_created_at v) vault_key (fv_profiles v))"

definition encrypt_payload_with_key :: "prims \<Rightarrow> bytes \<Rightarrow> bytes \<Rightarrow> bytes \<Rightarrow> bytes \<Rightarrow> bytes crypto_result" where
  "encrypt_payload_with_key P nonce payload unlock_key salt =
     rbind (ok_or (checked_add_usize (length payload) AEAD_TAG_LENGTH) size_overflow) (\<lambda>ciphertext_length.
     let header = \<lparr>vh_memory_kib = ARGON2_MEMORY_FLOOR_KIB, vh_iterations = ARGON2_ITERATIONS_FLOOR,
           vh_parallelism = ARGON2_PARALLELISM_FLOOR, vh_salt = salt, vh_nonce = nonce,
           vh_ciphertext_length = ciphertext_length\<rparr>;
         header_bytes = encode_header header in
     if \<not> key_ok P unlock_key then Err (internal ''Invalid vault unlock key'')
     else
     rbind (ok_or (aead_seal P unlock_key nonce (VAULT_AAD_DOMAIN @ header_bytes) payload)
              (internal ''Vault encryption failed'')) (\<lambda>ciphertext.
     if length ciphertext \<noteq> ciphertext_length then Err (internal ''Vault ciphertext length mismatch'')
     else Ok (header_bytes @ ciphertext)))"

type_synonym 'a vault_action = "file_vault \<Rightarrow> history \<Rightarrow> 'a crypto_result \<times> file_vault \<times> history"

definition atomic_write :: "fs_faults \<Rightarrow> bytes \<Rightarrow> unit vault_action" where
  "atomic_write f bs v h =
     (case fv_preparation v of
        Some preparation \<Rightarrow> (Ok (), v\<lparr>fv_preparation := Some (preparation\<lparr>pr_pending := Some bs\<rparr>)\<rparr>, h)
      | None \<Rightarrow> (case disk_atomic_write f bs h of (r, h') \<Rightarrow> (r, v, h')))"

definition archive_before_replacement :: "fs_faults \<Rightarrow> unit vault_action" where
  "archive_before_replacement f v h =
     (case fv_preparation v of
        Some preparation \<Rightarrow> (Ok (), v\<lparr>fv_preparation := Some (preparation\<lparr>pr_archive := True\<rparr>)\<rparr>, h)
      | None \<Rightarrow> (case archive_before_replacement_disk f h of (r, h') \<Rightarrow> (r, v, h')))"

definition persist_unlocked :: "prims \<Rightarrow> entropy \<Rightarrow> fs_faults \<Rightarrow> unit vault_action" where
  "persist_unlocked P en f v h =
     (case rbind (ok_or (fv_unlock_key v) vault_locked) (\<lambda>unlock_key.
           rbind (ok_or (fv_vault_salt v) (internal ''Missing vault salt'')) (\<lambda>salt.
           rbind (serialize_payload v) (\<lambda>payload.
           encrypt_payload_with_key P (en_nonce en) payload unlock_key salt))) of
        Inl e \<Rightarrow> (Err e, v, h)
      | Inr bs \<Rightarrow> atomic_write f bs v h)"

definition replace_material ::
  "prims \<Rightarrow> entropy \<Rightarrow> fs_faults \<Rightarrow> u64 \<Rightarrow> bytes \<Rightarrow> profiles \<Rightarrow> bytes \<Rightarrow> bytes \<Rightarrow> unit vault_action" where
  "replace_material P en f created_at vault_key profiles unlock_key salt v h =
     (let v1 = v\<lparr>fv_created_at := created_at, fv_vault_key := Some vault_key, fv_profiles := profiles,
                fv_unlock_key := Some unlock_key, fv_vault_salt := Some salt, fv_unlocked := True\<rparr> in
      case persist_unlocked P en f v1 h of
        (Inl e, v2, h') \<Rightarrow>
          (Err e,
           v2\<lparr>fv_created_at := fv_created_at v, fv_vault_key := fv_vault_key v,
              fv_profiles := fv_profiles v, fv_unlock_key := fv_unlock_key v,
              fv_vault_salt := fv_vault_salt v, fv_unlocked := fv_unlocked v\<rparr>, h')
      | (Inr _, v2, h') \<Rightarrow> (Ok (), v2, h'))"

section \<open>Operations\<close>

definition lock_vault :: "file_vault \<Rightarrow> file_vault" where
  "lock_vault v = v\<lparr>fv_unlocked := False, fv_vault_key := None, fv_unlock_key := None,
     fv_vault_salt := None, fv_profiles := []\<rparr>"

definition derive_writer_key :: "prims \<Rightarrow> bytes \<Rightarrow> bytes \<Rightarrow> bytes crypto_result" where
  "derive_writer_key P passphrase salt =
     derive_passphrase_key P passphrase salt ARGON2_MEMORY_FLOOR_KIB ARGON2_ITERATIONS_FLOOR
       ARGON2_PARALLELISM_FLOOR"

definition create_vault :: "prims \<Rightarrow> entropy \<Rightarrow> fs_faults \<Rightarrow> disk_view \<Rightarrow> bytes \<Rightarrow> unit vault_action" where
  "create_vault P en f view passphrase v h =
     (if vault_exists v view then (Err (policy_rejected ''A vault already exists''), v, h)
      else if length passphrase < 8
      then (Err (policy_rejected ''Vault passphrase is too short''), v, h)
      else
        let v1 = v\<lparr>fv_created_at := en_now en, fv_vault_key := Some (en_key en), fv_profiles := []\<rparr> in
        case derive_writer_key P passphrase (en_salt en) of
          Inl e \<Rightarrow> (Err e, v1, h)
        | Inr unlock_key \<Rightarrow>
            let v2 = v1\<lparr>fv_unlock_key := Some unlock_key, fv_vault_salt := Some (en_salt en),
                        fv_unlocked := True\<rparr> in
            (case persist_unlocked P en f v2 h of
               (Inl e, v3, h') \<Rightarrow> (Err e, lock_vault v3, h')
             | (Inr _, v3, h') \<Rightarrow> (Ok (), v3, h')))"

definition unlock_vault :: "prims \<Rightarrow> disk_view \<Rightarrow> bytes \<Rightarrow> file_vault \<Rightarrow> unit crypto_result \<times> file_vault" where
  "unlock_vault P view passphrase v =
     (case rbind (captured_bytes v view) (\<lambda>bs.
           rbind (parse_header bs) (\<lambda>header.
           rbind (derive_passphrase_key P passphrase (vh_salt header) (vh_memory_kib header)
                    (vh_iterations header) (vh_parallelism header)) (\<lambda>unlock_key.
           let aad = VAULT_AAD_DOMAIN @ take VAULT_HEADER_SIZE bs in
           if \<not> key_ok P unlock_key then Err (internal ''Invalid vault unlock key'')
           else
           rbind (ok_or (aead_open P unlock_key (vh_nonce header) aad (drop VAULT_HEADER_SIZE bs))
                    wrong_key_or_corrupt) (\<lambda>payload.
           rbind (parse_payload payload) (\<lambda>(created_at, vault_key, profiles).
           Ok (created_at, vault_key, profiles, unlock_key, vh_salt header)))))) of
        Inl e \<Rightarrow> (Err e, v)
      | Inr (created_at, vault_key, profiles, unlock_key, salt) \<Rightarrow>
          (Ok (), v\<lparr>fv_created_at := created_at, fv_vault_key := Some vault_key,
                    fv_profiles := profiles, fv_unlock_key := Some unlock_key,
                    fv_vault_salt := Some salt, fv_unlocked := True\<rparr>))"

definition wrapping_key :: "file_vault \<Rightarrow> bytes crypto_result" where
  "wrapping_key v =
     (if \<not> fv_unlocked v then Err vault_locked else ok_or (fv_vault_key v) vault_locked)"

definition save_profile ::
  "prims \<Rightarrow> entropy \<Rightarrow> fs_faults \<Rightarrow> bytes \<Rightarrow> bytes \<Rightarrow> unit vault_action" where
  "save_profile P en f profile_id key v h =
     (if \<not> fv_unlocked v then (Err vault_locked, v, h)
      else if profile_id = [] \<or> MAX_PROFILE_ID_BYTES < length profile_id
      then (Err (policy_rejected ''Invalid profile identifier''), v, h)
      else persist_unlocked P en f
             (v\<lparr>fv_profiles := bt_insert profile_id key (fv_profiles v)\<rparr>) h)"

definition load_wrapping_key :: "file_vault \<Rightarrow> bytes \<Rightarrow> bytes crypto_result" where
  "load_wrapping_key v profile_id =
     (if \<not> fv_unlocked v then Err vault_locked
      else ok_or (bt_get (fv_profiles v) profile_id) key_required)"

definition change_passphrase :: "prims \<Rightarrow> entropy \<Rightarrow> fs_faults \<Rightarrow> bytes \<Rightarrow> unit vault_action" where
  "change_passphrase P en f new_passphrase v h =
     (if \<not> fv_unlocked v then (Err vault_locked, v, h)
      else if length new_passphrase < 8 \<or> 1024 < length new_passphrase
      then (Err (policy_rejected ''Vault passphrase must be between 8 and 1024 bytes''), v, h)
      else
        case rbind (derive_writer_key P new_passphrase (en_salt en)) (\<lambda>new_unlock_key.
             rbind (serialize_payload v) (\<lambda>payload.
             rbind (encrypt_payload_with_key P (en_nonce en) payload new_unlock_key (en_salt en)) (\<lambda>bs.
             Ok (new_unlock_key, bs)))) of
          Inl e \<Rightarrow> (Err e, v, h)
        | Inr (new_unlock_key, bs) \<Rightarrow>
            (case atomic_write f bs v h of
               (Inl e, v', h') \<Rightarrow> (Err e, v', h')
             | (Inr _, v', h') \<Rightarrow>
                 (Ok (), v'\<lparr>fv_unlock_key := Some new_unlock_key, fv_vault_salt := Some (en_salt en)\<rparr>, h')))"

definition export_bundle :: "prims \<Rightarrow> entropy \<Rightarrow> bytes \<Rightarrow> file_vault \<Rightarrow> bytes crypto_result" where
  "export_bundle P en recovery_passphrase v =
     (if \<not> fv_unlocked v then Err vault_locked
      else rbind (serialize_payload v) (\<lambda>payload.
        create_recovery_bundle P (en_salt en) (en_nonce en) payload recovery_passphrase))"

record recovery_verification =
  matches_vault_key :: bool
  missing_profiles :: nat

definition is_complete :: "recovery_verification \<Rightarrow> bool" where
  "is_complete r \<longleftrightarrow> matches_vault_key r \<and> missing_profiles r = 0"

definition compare_with_unlocked ::
  "file_vault \<Rightarrow> bytes \<Rightarrow> profiles \<Rightarrow> recovery_verification crypto_result" where
  "compare_with_unlocked v bundle_key bundle_profiles =
     rbind (ok_or (fv_vault_key v) vault_locked) (\<lambda>vault_key.
     Ok \<lparr>matches_vault_key = (vault_key = bundle_key),
         missing_profiles =
           length (filter (\<lambda>(profile_id, key). bt_get bundle_profiles profile_id \<noteq> Some key) (fv_profiles v))\<rparr>)"

definition verify_bundle :: "prims \<Rightarrow> bytes \<Rightarrow> bytes \<Rightarrow> file_vault \<Rightarrow> recovery_verification crypto_result" where
  "verify_bundle P bundle recovery_passphrase v =
     (if \<not> fv_unlocked v then Err vault_locked
      else
        rbind (import_recovery_bundle P bundle recovery_passphrase) (\<lambda>payload.
        rbind (parse_payload payload) (\<lambda>(_, bundle_key, bundle_profiles).
        compare_with_unlocked v bundle_key bundle_profiles)))"

definition import_bundle ::
  "prims \<Rightarrow> entropy \<Rightarrow> fs_faults \<Rightarrow> bytes \<Rightarrow> bytes \<Rightarrow> bytes option \<Rightarrow> bool \<Rightarrow> unit vault_action" where
  "import_bundle P en f bundle recovery_passphrase vault_passphrase allow_key_replacement v h =
     (case rbind (import_recovery_bundle P bundle recovery_passphrase) (\<lambda>payload.
           rbind (parse_payload payload) (\<lambda>(created_at, bundle_key, bundle_profiles).
           rbind (if fv_unlocked v \<and> \<not> allow_key_replacement
                  then rbind (compare_with_unlocked v bundle_key bundle_profiles) (\<lambda>comparison.
                    if \<not> is_complete comparison
                    then Err (policy_rejected ''[RECOVERY_BUNDLE_MISMATCH] This recovery bundle does not contain every key the current vault uses. Importing it would make files protected by the missing keys unreadable.'')
                    else Ok ())
                  else Ok ()) (\<lambda>_.
           rbind (case vault_passphrase of
               Some passphrase \<Rightarrow>
                 if length passphrase < 8 \<or> 1024 < length passphrase
                 then Err (policy_rejected ''Vault passphrase must be between 8 and 1024 bytes'')
                 else rbind (derive_writer_key P passphrase (en_salt en)) (\<lambda>unlock_key.
                   Ok (unlock_key, en_salt en))
             | None \<Rightarrow>
                 (case (if fv_unlocked v then fv_unlock_key v else None, fv_vault_salt v) of
                    (Some unlock_key, Some salt) \<Rightarrow> Ok (unlock_key, salt)
                  | _ \<Rightarrow> Err (Crypto_Error KeyRequired ''[RECOVERY_VAULT_PASSPHRASE_REQUIRED] Choose the passphrase that will unlock the restored vault'')))
             (\<lambda>(unlock_key, salt). Ok (created_at, bundle_key, bundle_profiles, unlock_key, salt))))) of
        Inl e \<Rightarrow> (Err e, v, h)
      | Inr (created_at, bundle_key, bundle_profiles, unlock_key, salt) \<Rightarrow>
          (case archive_before_replacement f v h of
             (Inl e, v', h') \<Rightarrow> (Err e, v', h')
           | (Inr _, v', h') \<Rightarrow>
               replace_material P en f created_at bundle_key bundle_profiles unlock_key salt v' h'))"

definition material_fingerprint :: "prims \<Rightarrow> file_vault \<Rightarrow> bytes crypto_result" where
  "material_fingerprint P v = rbind (serialize_payload v) (\<lambda>payload. Ok (sha256 P payload))"

definition VAULT_IDENTITY_DOMAIN :: bytes where
  "VAULT_IDENTITY_DOMAIN = ascii ''telegram-drive:vault-identity:v1''"

definition hex_digit :: "nat \<Rightarrow> char" where
  "hex_digit n = (if n < 10 then char_of (48 + n) else char_of (87 + n))"

definition vault_identity :: "prims \<Rightarrow> file_vault \<Rightarrow> string crypto_result" where
  "vault_identity P v =
     rbind (ok_or (if fv_unlocked v then fv_vault_key v else None) vault_locked) (\<lambda>vault_key.
     Ok (concat (map (\<lambda>b. [hex_digit (unat b div 16), hex_digit (unat b mod 16)])
           (take 8 (sha256 P (VAULT_IDENTITY_DOMAIN @ vault_key))))))"

section \<open>Prepared operations\<close>

text \<open>A preparation is a copy of the vault that keeps writes in memory; \<open>commit_prepared\<close> writes
  them only if the files are the captured ones.\<close>

definition preparation_snapshot :: "file_vault \<Rightarrow> file_vault crypto_result" where
  "preparation_snapshot v =
     (if fv_preparation v \<noteq> None then Err (internal ''Nested vault preparation'')
      else Ok (v\<lparr>fv_preparation := Some \<lparr>pr_capture = None, pr_pending = None, pr_archive = False\<rparr>\<rparr>))"

definition capture_read :: "prims \<Rightarrow> disk_view \<Rightarrow> file_capture crypto_result" where
  "capture_read P view =
     rbind (file_identity_at PrimaryPath view 0) (\<lambda>first.
     let has_primary = first \<noteq> None; selected = (if has_primary then PrimaryPath else BackupPath) in
     rbind (file_identity_at selected view 1) (\<lambda>identity.
     rbind (capture_file selected view 2) (\<lambda>bs.
     rbind (file_identity_at selected view 3) (\<lambda>again.
     if again \<noteq> identity then Err (vault_changed ''Vault changed during capture'')
     else
     rbind (case (bs, identity) of
        (Some x, Some i) \<Rightarrow> Ok (Some \<lparr>fp_identity = i, fp_digest = Some (sha256 P x)\<rparr>)
      | (None, None) \<Rightarrow> Ok None
      | _ \<Rightarrow> Err (vault_changed ''Vault changed during capture'')) (\<lambda>selected_fingerprint.
     rbind (fingerprint P (if has_primary then BackupPath else PrimaryPath) False view 4) (\<lambda>other.
     Ok \<lparr>fc_primary = (if has_primary then selected_fingerprint else other),
         fc_backup = (if has_primary then other else selected_fingerprint),
         fc_bytes = bs, fc_access = CaptureRead\<rparr>))))))"

definition capture_preparation_files ::
  "prims \<Rightarrow> disk_view \<Rightarrow> vault_capture \<Rightarrow> file_vault \<Rightarrow> unit crypto_result \<times> file_vault" where
  "capture_preparation_files P view access v =
     (case (if access = CaptureResident
            then Ok \<lparr>fc_primary = None, fc_backup = None, fc_bytes = None, fc_access = access\<rparr>
            else if access = CaptureRead then capture_read P view
            else
              rbind (file_identity_at PrimaryPath view 0) (\<lambda>first.
              let has_primary = first \<noteq> None in
              rbind (fingerprint P PrimaryPath (access = CaptureReplace \<and> has_primary) view 1) (\<lambda>p.
              rbind (fingerprint P BackupPath (access = CaptureReplace \<and> \<not> has_primary) view 4) (\<lambda>b.
              Ok \<lparr>fc_primary = p, fc_backup = b, fc_bytes = None, fc_access = access\<rparr>)))) of
        Inl e \<Rightarrow> (Err e, v)
      | Inr capture \<Rightarrow>
          (case fv_preparation v of
             None \<Rightarrow> (Err (internal ''Missing preparation''), v)
           | Some preparation \<Rightarrow>
               (Ok (), v\<lparr>fv_preparation := Some (preparation\<lparr>pr_capture := Some capture\<rparr>)\<rparr>)))"

definition commit_prepared :: "prims \<Rightarrow> fs_faults \<Rightarrow> disk_view \<Rightarrow> unit vault_action" where
  "commit_prepared P f view v h =
     (case fv_preparation v of
        None \<Rightarrow> (Err (internal ''Vault was not prepared''), v, h)
      | Some preparation \<Rightarrow>
          let v1 = v\<lparr>fv_preparation := None\<rparr> in
          case pr_capture preparation of
            None \<Rightarrow> (Err (internal ''Preparation disk input was not captured''), v1, h)
          | Some capture \<Rightarrow>
              if fc_access capture = CaptureResident
              then (Err (internal ''Read-only preparation cannot commit''), v1, h)
              else
                (case rbind (matches_fingerprint P PrimaryPath (fc_primary capture) view 0) (\<lambda>p.
                      if \<not> p then Ok False
                      else matches_fingerprint P BackupPath (fc_backup capture) view 4) of
                   Inl e \<Rightarrow> (Err e, v1, h)
                 | Inr same \<Rightarrow>
                     if \<not> same
                     then (Err (vault_changed ''Vault files changed during preparation''), v1, h)
                     else
                       (case pr_pending preparation of
                          None \<Rightarrow> (Ok (), v1, h)
                        | Some bs \<Rightarrow>
                            (case (if pr_archive preparation then archive_before_replacement f v1 h
                                   else (Ok (), v1, h)) of
                               (Inl e, v2, h2) \<Rightarrow> (Err e, v2, h2)
                             | (Inr _, v2, h2) \<Rightarrow> atomic_write f bs v2 h2))))"

section \<open>Operations of the settings page (preparation.rs)\<close>

datatype vault_operation =
    OpCreate bytes
  | OpUnlock bytes
  | OpChange (op_current: bytes) (op_replacement: bytes)
  | OpExport bytes
  | OpVerify bytes bytes
  | OpImport (op_bundle: bytes) (op_recovery: bytes) (op_vault_passphrase: "bytes option")
      (op_allow_replacement: bool) (op_replace_existing: bool)

fun disk_access :: "vault_operation \<Rightarrow> vault_capture" where
  "disk_access (OpCreate _) = CaptureCreate"
| "disk_access (OpUnlock _) = CaptureRead"
| "disk_access (OpChange _ _) = CaptureRead"
| "disk_access (OpImport _ _ _ _ _) = CaptureReplace"
| "disk_access (OpExport _) = CaptureResident"
| "disk_access (OpVerify _ _) = CaptureResident"

fun requires_unlocked :: "vault_operation \<Rightarrow> bool" where
  "requires_unlocked (OpChange _ _) = True"
| "requires_unlocked (OpExport _) = True"
| "requires_unlocked (OpVerify _ _) = True"
| "requires_unlocked (OpImport _ _ None _ _) = True"
| "requires_unlocked _ = False"

datatype vault_value = VUnit | VSession u64 | VBundle bytes | VVerification recovery_verification

text \<open>\<open>prepare\<close> works on a captured snapshot, so it neither reads nor writes the disk.\<close>

definition no_disk :: disk_view where
  "no_disk = (\<lambda>_. Err (internal ''A preparation does not read the disk''))"

definition prepare ::
  "prims \<Rightarrow> entropy \<Rightarrow> fs_faults \<Rightarrow> file_vault \<Rightarrow> vault_operation \<Rightarrow> (file_vault \<times> vault_value) crypto_result" where
  "prepare P en f vault op =
     (case op of
        OpCreate passphrase \<Rightarrow>
          (case create_vault P en f no_disk passphrase vault [] of
             (r, v, _) \<Rightarrow> rbind r (\<lambda>_. Ok (v, VUnit)))
      | OpUnlock passphrase \<Rightarrow>
          (case unlock_vault P no_disk passphrase vault of (r, v) \<Rightarrow> rbind r (\<lambda>_. Ok (v, VUnit)))
      | OpChange current replacement \<Rightarrow>
          rbind (material_fingerprint P vault) (\<lambda>material.
          case unlock_vault P no_disk current vault of
            (r, v) \<Rightarrow>
              rbind r (\<lambda>_.
              rbind (material_fingerprint P v) (\<lambda>again.
              if again \<noteq> material then Err wrong_key_or_corrupt
              else
                case change_passphrase P en f replacement v [] of
                  (r2, v2, _) \<Rightarrow> rbind r2 (\<lambda>_. Ok (v2, VUnit)))))
      | OpExport passphrase \<Rightarrow> rbind (export_bundle P en passphrase vault) (\<lambda>b. Ok (vault, VBundle b))
      | OpVerify bundle passphrase \<Rightarrow>
          rbind (verify_bundle P bundle passphrase vault) (\<lambda>r. Ok (vault, VVerification r))
      | OpImport bundle recovery vault_passphrase allow_replacement replace_existing \<Rightarrow>
          if vault_exists vault no_disk \<and> \<not> replace_existing
          then Err (policy_rejected ''[RECOVERY_CONFIRMATION_REQUIRED] Import would replace the existing vault'')
          else
            (case import_bundle P en f bundle recovery vault_passphrase allow_replacement vault [] of
               (r, v, _) \<Rightarrow> rbind r (\<lambda>_. Ok (v, VUnit))))"

end
