(* ===== verification/Vault_Contract.thy ===== *)
theory Vault_Contract
  imports Vault_File
begin

text \<open>
  What the vault promises: a reader of the files always finds the old or the new vault, whatever
  is written opens again with the passphrase it was written for, a failed import changes
  nothing, an import without confirmation never loses a key, and a prepared write is refused
  when the files are not the ones it was prepared from.
\<close>

section \<open>Well-formed material\<close>

definition material_ok :: "file_vault \<Rightarrow> bool" where
  "material_ok v \<longleftrightarrow> profiles_ok (fv_profiles v) \<and> length (fv_profiles v) \<le> 64 \<and>
     (\<forall>k. fv_vault_key v = Some k \<longrightarrow> length k = 32)"

definition entropy_ok :: "entropy \<Rightarrow> bool" where
  "entropy_ok en \<longleftrightarrow> length (en_key en) = 32 \<and> length (en_salt en) = 16 \<and> length (en_nonce en) = 24"

lemma serialize_payload_Ok:
  assumes "material_ok v" and "fv_vault_key v = Some k"
  shows "\<exists>payload. serialize_payload v = Ok payload \<and> payload \<noteq> [] \<and> length payload \<le> 10416 \<and>
    parse_payload payload = Ok (fv_created_at v, k, fv_profiles v)"
  using payload_roundtrip [of k "fv_profiles v" "fv_created_at v"] assms
  by (auto simp: material_ok_def serialize_payload_def)

lemma derive_writer_key_Ok:
  assumes "prims_ok P" and "length salt = 16" and "length pw < 2 ^ 32"
  shows "\<exists>k. derive_writer_key P pw salt = Ok k \<and> length k = 32"
  using derive_passphrase_key_total [OF assms] validate_argon2_writer_params
  by (auto simp: derive_writer_key_def)

section \<open>What is written opens again\<close>

lemma encrypt_payload_Ok:
  assumes P: "prims_ok P" and l: "length nonce = 24" "length uk = 32" "length salt = 16"
    and pl: "length payload \<le> 10416"
  shows "\<exists>bs. encrypt_payload_with_key P nonce payload uk salt = Ok bs \<and> length bs \<le> 10496 \<and>
    parse_header bs = Ok \<lparr>vh_memory_kib = ARGON2_MEMORY_FLOOR_KIB, vh_iterations = ARGON2_ITERATIONS_FLOOR,
      vh_parallelism = ARGON2_PARALLELISM_FLOOR, vh_salt = salt, vh_nonce = nonce,
      vh_ciphertext_length = length payload + 16\<rparr> \<and>
    aead_open P uk nonce (VAULT_AAD_DOMAIN @ take 64 bs) (drop 64 bs) = Some payload"
proof -
  let ?h = "\<lparr>vh_memory_kib = ARGON2_MEMORY_FLOOR_KIB, vh_iterations = ARGON2_ITERATIONS_FLOOR,
      vh_parallelism = ARGON2_PARALLELISM_FLOOR, vh_salt = salt, vh_nonce = nonce,
      vh_ciphertext_length = length payload + 16\<rparr>"
  have v: "vault_header_valid ?h"
    using l pl by (auto simp: vault_header_valid_def)
  have k: "key_ok P uk" using P l(2) by (rule prims_key_ok)
  obtain ct where ct: "aead_seal P uk nonce (VAULT_AAD_DOMAIN @ encode_header ?h) payload = Some ct"
    "length ct = length payload + 16"
    using prims_seal_total [OF P l(2,1), of payload] pl by fastforce
  have lh: "length (encode_header ?h) = 64"
    using vault_header.enc_width [OF v refl] by (simp add: policy_simps)
  have "parse_header (encode_header ?h @ ct) = Ok ?h" using parse_encode_header [OF v] ct(2) by simp
  moreover have "encrypt_payload_with_key P nonce payload uk salt = Ok (encode_header ?h @ ct)"
    using k ct pl by (simp add: encrypt_payload_with_key_def Let_def policy_simps usize_limit_def checked_add_usize_def)
  moreover have "aead_open P uk nonce (VAULT_AAD_DOMAIN @ encode_header ?h) ct = Some payload"
    using ct(1) by (simp add: prims_open_iff [OF P])
  ultimately show ?thesis using lh ct(2) pl by (intro exI [where x = "encode_header ?h @ ct"]) simp
qed

text \<open>\<open>opens_as P bs pw v\<close>: unlocking a vault file \<open>bs\<close> with \<open>pw\<close> yields the material of \<open>v\<close>.\<close>

definition sees :: "disk_view \<Rightarrow> bytes \<Rightarrow> bool" where
  "sees view bs \<longleftrightarrow> (\<exists>d x. (\<forall>k. view k = Ok d) \<and> readable d = Some x \<and> df_bytes x = bs)"

lemma captured_bytes_sees:
  assumes "sees view bs" and "fv_preparation v = None" and "length bs \<le> 10496"
  shows "captured_bytes v view = Ok bs"
proof -
  obtain d x where v: "\<And>k. view k = Ok d" and r: "readable d = Some x" "df_bytes x = bs"
    using assms(1) by (auto simp: sees_def)
  show ?thesis
    using v r assms(2,3) by (cases "vd_primary d")
      (auto simp: captured_bytes_def capture_file_def readable_def policy_simps Let_def)
qed

lemma unlock_written:
  assumes P: "prims_ok P" and en: "length nonce = 24" "length salt = 16" and m: "material_ok v" "fv_vault_key v = Some key"
    and pw: "length pw < 2 ^ 32" and d: "derive_writer_key P pw salt = Ok uk"
  shows "\<exists>payload bs. serialize_payload v = Ok payload \<and>
    encrypt_payload_with_key P nonce payload uk salt = Ok bs \<and>
    (\<forall>view w. sees view bs \<and> fv_preparation w = None \<longrightarrow>
      unlock_vault P view pw w = (Ok (), w\<lparr>fv_created_at := fv_created_at v, fv_vault_key := Some key,
         fv_profiles := fv_profiles v, fv_unlock_key := Some uk, fv_vault_salt := Some salt, fv_unlocked := True\<rparr>))"
proof -
  obtain payload where pl: "serialize_payload v = Ok payload" "length payload \<le> 10416"
      "parse_payload payload = Ok (fv_created_at v, key, fv_profiles v)"
    using serialize_payload_Ok [OF m] by blast
  have lk: "length uk = 32" using derive_writer_key_Ok [OF P en(2) pw] d by simp
  then have k: "key_ok P uk" using P prims_key_ok by blast
  obtain bs where bs: "encrypt_payload_with_key P nonce payload uk salt = Ok bs" "length bs \<le> 10496"
    "parse_header bs = Ok \<lparr>vh_memory_kib = ARGON2_MEMORY_FLOOR_KIB, vh_iterations = ARGON2_ITERATIONS_FLOOR,
      vh_parallelism = ARGON2_PARALLELISM_FLOOR, vh_salt = salt, vh_nonce = nonce,
      vh_ciphertext_length = length payload + 16\<rparr>"
    "aead_open P uk nonce (VAULT_AAD_DOMAIN @ take 64 bs) (drop 64 bs) = Some payload"
    using encrypt_payload_Ok [OF P en(1) lk en(2) pl(2)] by blast
  have "unlock_vault P view pw w = (Ok (), w\<lparr>fv_created_at := fv_created_at v, fv_vault_key := Some key,
         fv_profiles := fv_profiles v, fv_unlock_key := Some uk, fv_vault_salt := Some salt, fv_unlocked := True\<rparr>)"
    if "sees view bs" "fv_preparation w = None" for view w
    using captured_bytes_sees [OF that bs(2)] bs d k pl
    by (simp add: unlock_vault_def derive_writer_key_def policy_simps Let_def)
  with pl bs show ?thesis by blast
qed

section \<open>The disk side of a write\<close>

definition disk_kept :: "vault_disk \<Rightarrow> disk_file \<Rightarrow> history \<Rightarrow> bool" where
  "disk_kept d new h \<longleftrightarrow> h \<noteq> [] \<and> (\<forall>d'\<in>set h. readable d' = readable d \<or> readable d' = Some new)"

lemma atomic_write_disk:
  assumes "fv_preparation v = None" and "atomic_write f bs v [d] = (r, v', h')"
  shows "v' = v \<and> disk_kept d (ff_new_file f bs) h' \<and>
    readable (hd h') = (if r = Ok () then Some (ff_new_file f bs) else readable d)"
proof -
  have w: "disk_atomic_write f bs [d] = (r, h')" and v: "v' = v"
    using assms by (auto simp: atomic_write_def split: prod.splits)
  have "safe_history (readable d) (ff_new_file f bs) [d]" by (simp add: safe_history_def)
  from disk_atomic_write_safe [OF this _ w] v show ?thesis
    by (cases r) (auto simp: safe_history_def disk_kept_def)
qed

section \<open>Properties\<close>

text \<open>C8: replacing the vault file is atomic for every reader and every crash point: whatever
  file-system calls fail, each disk state on the way reads as the old vault or as the new one; an
  error leaves the old one, success the new one.\<close>

theorem vault_write_is_atomic:
  assumes "fv_preparation v = None" and "atomic_write f bs v [d] = (r, v', h')"
  shows "v' = v \<and> h' \<noteq> [] \<and>
    (\<forall>d'\<in>set h'. readable d' = readable d \<or> readable d' = Some (ff_new_file f bs)) \<and>
    readable (hd h') = (if r = Ok () then Some (ff_new_file f bs) else readable d)"
  using atomic_write_disk [OF assms] by (auto simp: disk_kept_def)

definition demo_file :: "bytes \<Rightarrow> disk_file" where
  "demo_file bs = \<lparr>df_bytes = bs, df_modified = Some 7, df_device = 1, df_inode = 9\<rparr>"

definition demo_faults :: "fs_site option \<Rightarrow> fs_faults" where
  "demo_faults bad = \<lparr>ff_fail = (\<lambda>site. if Some site = bad then Some ''disk full'' else None),
     ff_partial = 1, ff_new_file = demo_file, ff_stamp = ''20240101T000000000Z'',
     ff_removes = (\<lambda>_. True)\<rparr>"

definition demo_disk :: vault_disk where
  "demo_disk = \<lparr>vd_primary = Some (demo_file [1, 2]), vd_backup = None, vd_part = None, vd_archives = []\<rparr>"

theorem vault_write_is_atomic_witness:
  "\<exists>h. atomic_write (demo_faults (Some RenameToPrimary)) [3, 4] FileVault_new [demo_disk]
      = (Err (io_error_of ''disk full''), FileVault_new, h) \<and> readable (hd h) = Some (demo_file [1, 2])"
proof -
  obtain r v' h where w: "atomic_write (demo_faults (Some RenameToPrimary)) [3, 4] FileVault_new [demo_disk] = (r, v', h)"
    using prod_cases3 by blast
  then have "r = Err (io_error_of ''disk full'')"
    by (auto simp: atomic_write_def FileVault_new_def disk_atomic_write_def demo_faults_def fs_call_def
        write_part_def move_to_backup_def demo_disk_def)
  then show ?thesis
    using vault_write_is_atomic [OF _ w] w by (simp add: FileVault_new_def demo_disk_def readable_def)
qed

section \<open>Creating, changing, exporting, importing\<close>

definition faithful_files :: "fs_faults \<Rightarrow> bool" where
  "faithful_files f \<longleftrightarrow> (\<forall>bs. df_bytes (ff_new_file f bs) = bs)"

lemma written_sees:
  assumes "faithful_files f" and "readable (hd h') = Some (ff_new_file f bs)" and "\<forall>k. view k = Ok (hd h')"
  shows "sees view bs"
  using assms by (auto simp: sees_def faithful_files_def)

text \<open>A persisted vault opens again, under the passphrase its unlock key was derived from, as the very
  state in memory.\<close>

lemma persisted_unlocks:
  assumes P: "prims_ok P" and en: "length (en_nonce en) = 24" "length salt = 16" and f: "faithful_files f"
    and v: "material_ok v" "fv_preparation v = None" "fv_unlocked v" "fv_vault_salt v = Some salt"
      "fv_unlock_key v = Some uk"
    and pw: "length pw < 2 ^ 32" and d: "derive_writer_key P pw salt = Ok uk"
    and p: "persist_unlocked P en f v [disk] = (Ok (), v', h')" and view: "\<forall>k. view k = Ok (hd h')"
  shows "v' = v \<and> unlock_vault P view pw FileVault_new = (Ok (), v')"
proof -
  obtain payload bs where pl: "serialize_payload v = Ok payload"
    and bs: "encrypt_payload_with_key P (en_nonce en) payload uk salt = Ok bs"
    and w: "atomic_write f bs v [disk] = (Ok (), v', h')"
    using p v(4,5) by (auto simp: persist_unlocked_def split: sum.splits)
  obtain key where key: "fv_vault_key v = Some key" using pl by (auto simp: serialize_payload_def)
  have A: "v' = v" "readable (hd h') = Some (ff_new_file f bs)" using atomic_write_disk [OF v(2) w] by simp_all
  have "unlock_vault P view pw FileVault_new = (Ok (), FileVault_new\<lparr>fv_created_at := fv_created_at v,
      fv_vault_key := Some key, fv_profiles := fv_profiles v, fv_unlock_key := Some uk,
      fv_vault_salt := Some salt, fv_unlocked := True\<rparr>)"
    using unlock_written [OF P en v(1) key pw d] pl bs written_sees [OF f A(2) view]
    by (auto simp: FileVault_new_def)
  also have "FileVault_new\<lparr>fv_created_at := fv_created_at v,
      fv_vault_key := Some key, fv_profiles := fv_profiles v, fv_unlock_key := Some uk,
      fv_vault_salt := Some salt, fv_unlocked := True\<rparr> = v'"
    using v key A(1) by (cases v) (simp add: FileVault_new_def)
  finally show ?thesis using A(1) by simp
qed

lemma create_unlocks:
  assumes P: "prims_ok P" and en: "entropy_ok en" and f: "faithful_files f"
    and v: "fv_preparation v = None" and pw: "length pw < 2 ^ 32"
    and c: "create_vault P en f view0 pw v [disk] = (Ok (), v', h')" and view: "\<forall>k. view k = Ok (hd h')"
  shows "unlock_vault P view pw FileVault_new = (Ok (), v') \<and> fv_vault_key v' = Some (en_key en) \<and> material_ok v'"
proof -
  obtain uk where d: "derive_writer_key P pw (en_salt en) = Ok uk"
    using derive_writer_key_Ok [OF P _ pw, of "en_salt en"] en by (auto simp: entropy_ok_def)
  let ?v2 = "v\<lparr>fv_created_at := en_now en, fv_vault_key := Some (en_key en), fv_profiles := [],
      fv_unlock_key := Some uk, fv_vault_salt := Some (en_salt en), fv_unlocked := True\<rparr>"
  have p: "persist_unlocked P en f ?v2 [disk] = (Ok (), v', h')"
    using c d by (auto simp: create_vault_def Let_def split: if_splits prod.splits sum.splits)
  have "material_ok ?v2" using en by (simp add: material_ok_def profiles_ok_def entropy_ok_def)
  from persisted_unlocks [OF P _ _ f this _ _ _ _ pw d p view] show ?thesis
    using en v \<open>material_ok ?v2\<close> by (simp add: entropy_ok_def)
qed

lemma change_unlocks:
  assumes P: "prims_ok P" and en: "entropy_ok en" and f: "faithful_files f"
    and v: "material_ok v" "fv_preparation v = None"
    and c: "change_passphrase P en f pw v [disk] = (Ok (), v', h')" and view: "\<forall>k. view k = Ok (hd h')"
  shows "unlock_vault P view pw FileVault_new = (Ok (), v') \<and> fv_vault_key v' = fv_vault_key v \<and>
    fv_profiles v' = fv_profiles v"
proof -
  have u: "fv_unlocked v" and pw: "length pw < 2 ^ 32"
    using c by (auto simp: change_passphrase_def split: if_splits)
  obtain uk where d: "derive_writer_key P pw (en_salt en) = Ok uk"
    using derive_writer_key_Ok [OF P _ pw, of "en_salt en"] en by (auto simp: entropy_ok_def)
  obtain payload bs v1 where pl: "serialize_payload v = Ok payload"
    and bs: "encrypt_payload_with_key P (en_nonce en) payload uk (en_salt en) = Ok bs"
    and w: "atomic_write f bs v [disk] = (Ok (), v1, h')"
    and v': "v' = v1\<lparr>fv_unlock_key := Some uk, fv_vault_salt := Some (en_salt en)\<rparr>"
    using c d by (auto simp: change_passphrase_def split: if_splits sum.splits prod.splits)
  obtain key where key: "fv_vault_key v = Some key" using pl by (auto simp: serialize_payload_def)
  have A: "v1 = v" "readable (hd h') = Some (ff_new_file f bs)" using atomic_write_disk [OF v(2) w] by simp_all
  have "unlock_vault P view pw FileVault_new = (Ok (), FileVault_new\<lparr>fv_created_at := fv_created_at v,
      fv_vault_key := Some key, fv_profiles := fv_profiles v, fv_unlock_key := Some uk,
      fv_vault_salt := Some (en_salt en), fv_unlocked := True\<rparr>)"
    using unlock_written [OF P _ _ v(1) key pw d, of "en_nonce en"] en pl bs written_sees [OF f A(2) view]
    by (auto simp: FileVault_new_def entropy_ok_def)
  also have "FileVault_new\<lparr>fv_created_at := fv_created_at v,
      fv_vault_key := Some key, fv_profiles := fv_profiles v, fv_unlock_key := Some uk,
      fv_vault_salt := Some (en_salt en), fv_unlocked := True\<rparr> = v'"
    using v key A(1) u by (cases v) (simp add: FileVault_new_def v')
  finally show ?thesis by (simp add: v' A(1))
qed

lemma export_imports:
  assumes P: "prims_ok P" and en: "entropy_ok en" and v: "material_ok v"
    and e: "export_bundle P en rp v = Ok bun" and rp: "length rp < 2 ^ 32"
  shows "\<exists>payload key. import_recovery_bundle P bun rp = Ok payload \<and> fv_vault_key v = Some key \<and>
    parse_payload payload = Ok (fv_created_at v, key, fv_profiles v)"
proof -
  obtain payload where pl: "serialize_payload v = Ok payload"
    and c: "create_recovery_bundle P (en_salt en) (en_nonce en) payload rp = Ok bun"
    using e by (auto simp: export_bundle_def split: if_splits)
  obtain key where key: "fv_vault_key v = Some key" using pl by (auto simp: serialize_payload_def)
  have "parse_payload payload = Ok (fv_created_at v, key, fv_profiles v)" "payload \<noteq> []" "length payload \<le> 1048576"
    using serialize_payload_Ok [OF v key] pl by auto
  moreover have "8 \<le> length rp" using c by (auto simp: create_recovery_bundle_def split: if_splits)
  ultimately show ?thesis
    using recovery_bundle_roundtrip [OF P, of "en_salt en" "en_nonce en" rp payload] en rp c key
    by (auto simp: entropy_ok_def)
qed

lemma import_Ok_material:
  assumes i: "import_recovery_bundle P bun rp = Ok payload" "parse_payload payload = Ok (ca, key, ps)"
    and imp: "import_bundle P en f bun rp vp allow v h = (r, v', h')"
  shows "(r = Ok () \<longrightarrow> fv_vault_key v' = Some key \<and> fv_profiles v' = ps \<and> fv_unlocked v' \<and>
      (fv_unlocked v \<and> \<not> allow \<longrightarrow> (\<exists>c. compare_with_unlocked v key ps = Ok c \<and> is_complete c)))"
  using imp i
  by (auto simp: import_bundle_def replace_material_def persist_unlocked_def Let_def atomic_write_def
      archive_before_replacement_def split: sum.splits prod.splits if_splits option.splits)

lemma is_complete_iff:
  assumes "compare_with_unlocked v key ps = Ok c"
  shows "is_complete c \<longleftrightarrow> fv_vault_key v = Some key \<and>
    (\<forall>(pid, k)\<in>set (fv_profiles v). bt_get ps pid = Some k)"
  using assms by (auto simp: compare_with_unlocked_def is_complete_def filter_empty_conv)

lemma own_material_complete:
  assumes "material_ok v" and "fv_vault_key v = Some key"
  shows "\<exists>c. compare_with_unlocked v key (fv_profiles v) = Ok c \<and> is_complete c"
proof -
  obtain c where c: "compare_with_unlocked v key (fv_profiles v) = Ok c"
    using assms(2) by (simp add: compare_with_unlocked_def)
  have "bt_ok (fv_profiles v)" using assms(1) by (simp add: material_ok_def profiles_ok_def)
  then have "is_complete c" using is_complete_iff [OF c] assms(2) by (auto simp: bt_in_set_get)
  with c show ?thesis by blast
qed

lemma import_failed:
  assumes v: "fv_preparation v = None"
    and imp: "import_bundle P en f bun rp vp allow v [d] = (Err e, v', h')"
  shows "v' = v \<and> readable (hd h') = readable d"
proof -
  have u0: "untouched (readable d) new [d]" for new by (simp add: untouched_def safe_history_def)
  obtain r1 h1 where a: "archive_before_replacement_disk f [d] = (r1, h1)" by fastforce
  have u1: "untouched (readable d) new h1" for new
    using archive_triple [of "readable d" new f, unfolded triple_def, rule_format, OF u0] a by (cases r1) simp_all
  have rd1: "readable (hd h1) = readable d" using u1 [of "demo_file []"] by (simp add: untouched_def)
  have wr: "readable (hd h2) = readable d" if "disk_atomic_write f bs h1 = (Err e2, h2)" for bs e2 h2
    using disk_atomic_write_safe [of "readable d" f bs h1 "Err e2" h2] u1 [of "ff_new_file f bs"] that
    by (simp add: untouched_def)
  from imp consider "v' = v" "h' = [d]"
    | "r1 = Err e" "v' = v" "h' = h1"
    | ca key ps uk salt where "r1 = Ok ()" "replace_material P en f ca key ps uk salt v h1 = (Err e, v', h')"
    using v a by (auto simp: import_bundle_def archive_before_replacement_def split: sum.splits prod.splits)
  then show ?thesis
  proof cases
    case 3
    then show ?thesis
      using v rd1 by (auto simp: replace_material_def persist_unlocked_def atomic_write_def Let_def
          split: sum.splits prod.splits dest: wr)
  qed (use rd1 in auto)
qed

text \<open>C7: a vault that was created under a passphrase opens with it again, from whatever the disk
  holds after the write, as exactly the state in memory.\<close>

theorem created_vault_reopens:
  assumes "prims_ok P" and "entropy_ok en" and "faithful_files f" and "fv_preparation v = None"
    and "length pw < 2 ^ 32" and "create_vault P en f view0 pw v [disk] = (Ok (), v', h')"
    and "\<forall>k. view k = Ok (hd h')"
  shows "unlock_vault P view pw FileVault_new = (Ok (), v') \<and> wrapping_key v' = Ok (en_key en)"
proof -
  from create_unlocks [OF assms] have u: "unlock_vault P view pw FileVault_new = (Ok (), v')"
    and k: "fv_vault_key v' = Some (en_key en)" by simp_all
  from u have "fv_unlocked v'" by (auto simp: unlock_vault_def split: sum.splits prod.splits)
  with u k show ?thesis by (simp add: wrapping_key_def)
qed

definition demo_entropy :: entropy where
  "demo_entropy = \<lparr>en_key = replicate 32 5, en_salt = replicate 16 6, en_nonce = replicate 24 7, en_now = 1000\<rparr>"

definition empty_disk :: vault_disk where
  "empty_disk = \<lparr>vd_primary = None, vd_backup = None, vd_part = None, vd_archives = []\<rparr>"

lemma demo_entropy_ok: "entropy_ok demo_entropy"
  by (simp add: entropy_ok_def demo_entropy_def)

lemma demo_faithful: "faithful_files (demo_faults x)"
  by (simp add: faithful_files_def demo_faults_def demo_file_def)

lemma atomic_write_no_faults:
  "fv_preparation v = None \<Longrightarrow> \<exists>h'. atomic_write (demo_faults None) bs v [d] = (Ok (), v, h')"
  by (auto simp: atomic_write_def disk_atomic_write_def demo_faults_def fs_call_def write_part_def
      move_to_backup_def)

lemma demo_create:
  "\<exists>v' h'. create_vault demo_prims demo_entropy (demo_faults None) (\<lambda>_. Ok empty_disk) (replicate 8 65)
     FileVault_new [empty_disk] = (Ok (), v', h') \<and> material_ok v' \<and> fv_unlocked v' \<and>
     fv_preparation v' = None \<and> fv_vault_key v' = Some (replicate 32 5)"
proof -
  have l: "length (en_salt demo_entropy) = 16" "length (en_nonce demo_entropy) = 24" by (simp_all add: demo_entropy_def)
  obtain uk where d: "derive_writer_key demo_prims (replicate 8 65) (en_salt demo_entropy) = Ok uk"
    using derive_writer_key_Ok [OF demo_prims_ok l(1), of "replicate 8 65"] by auto
  let ?v2 = "FileVault_new\<lparr>fv_created_at := en_now demo_entropy, fv_vault_key := Some (en_key demo_entropy), fv_profiles := [],
      fv_unlock_key := Some uk, fv_vault_salt := Some (en_salt demo_entropy), fv_unlocked := True\<rparr>"
  have m: "material_ok ?v2" by (simp add: material_ok_def profiles_ok_def demo_entropy_def)
  obtain payload bs where pl: "serialize_payload ?v2 = Ok payload"
    "encrypt_payload_with_key demo_prims (en_nonce demo_entropy) payload uk (en_salt demo_entropy) = Ok bs"
    using unlock_written [OF demo_prims_ok l(2,1) m _ _ d] by auto
  obtain h' where "atomic_write (demo_faults None) bs ?v2 [empty_disk] = (Ok (), ?v2, h')"
    using atomic_write_no_faults [of ?v2 bs empty_disk] by (auto simp: FileVault_new_def)
  then have "persist_unlocked demo_prims demo_entropy (demo_faults None) ?v2 [empty_disk] = (Ok (), ?v2, h')"
    using pl by (simp add: persist_unlocked_def)
  then have "create_vault demo_prims demo_entropy (demo_faults None) (\<lambda>_. Ok empty_disk) (replicate 8 65)
     FileVault_new [empty_disk] = (Ok (), ?v2, h')"
    using d by (simp add: create_vault_def vault_exists_def FileVault_new_def empty_disk_def)
  then show ?thesis using m by (auto simp: FileVault_new_def demo_entropy_def)
qed

theorem created_vault_reopens_witness:
  "\<exists>v' h'. create_vault demo_prims demo_entropy (demo_faults None) (\<lambda>_. Ok empty_disk) (replicate 8 65)
     FileVault_new [empty_disk] = (Ok (), v', h') \<and>
     unlock_vault demo_prims (\<lambda>_. Ok (hd h')) (replicate 8 65) FileVault_new = (Ok (), v')"
proof -
  obtain v' h' where c: "create_vault demo_prims demo_entropy (demo_faults None) (\<lambda>_. Ok empty_disk)
      (replicate 8 65) FileVault_new [empty_disk] = (Ok (), v', h')" using demo_create by blast
  then show ?thesis
    using created_vault_reopens [OF demo_prims_ok demo_entropy_ok demo_faithful _ _ c]
    by (auto simp: FileVault_new_def)
qed

text \<open>after a change of passphrase the vault on disk opens with the new passphrase and holds the
  same vault key and profile keys.\<close>

theorem changed_passphrase_reopens:
  assumes "prims_ok P" and "entropy_ok en" and "faithful_files f" and "material_ok v"
    and "fv_preparation v = None" and "change_passphrase P en f pw v [disk] = (Ok (), v', h')"
    and "\<forall>k. view k = Ok (hd h')"
  shows "unlock_vault P view pw FileVault_new = (Ok (), v') \<and> fv_vault_key v' = fv_vault_key v \<and>
    fv_profiles v' = fv_profiles v"
  using assms by (rule change_unlocks)

lemma demo_change:
  assumes "material_ok v" and "fv_unlocked v" and "fv_preparation v = None" and "fv_vault_key v = Some key"
  shows "\<exists>v' h'. change_passphrase demo_prims demo_entropy (demo_faults None) (replicate 9 66) v [d] = (Ok (), v', h')"
proof -
  have l: "length (en_salt demo_entropy) = 16" "length (en_nonce demo_entropy) = 24" by (simp_all add: demo_entropy_def)
  obtain uk where dk: "derive_writer_key demo_prims (replicate 9 66) (en_salt demo_entropy) = Ok uk"
    using derive_writer_key_Ok [OF demo_prims_ok l(1), of "replicate 9 66"] by auto
  obtain payload bs where pl: "serialize_payload v = Ok payload"
    "encrypt_payload_with_key demo_prims (en_nonce demo_entropy) payload uk (en_salt demo_entropy) = Ok bs"
    using unlock_written [OF demo_prims_ok l(2,1) assms(1,4) _ dk] by auto
  obtain h' where "atomic_write (demo_faults None) bs v [d] = (Ok (), v, h')"
    using atomic_write_no_faults [OF assms(3)] by blast
  then show ?thesis using assms dk pl by (simp add: change_passphrase_def)
qed

theorem changed_passphrase_reopens_witness:
  "\<exists>v v' h'. change_passphrase demo_prims demo_entropy (demo_faults None) (replicate 9 66) v [demo_disk]
      = (Ok (), v', h') \<and>
     unlock_vault demo_prims (\<lambda>_. Ok (hd h')) (replicate 9 66) FileVault_new = (Ok (), v') \<and>
     fv_vault_key v' = Some (replicate 32 5)"
proof -
  obtain v where v: "material_ok v" "fv_unlocked v" "fv_preparation v = None" "fv_vault_key v = Some (replicate 32 5)"
    using demo_create by blast
  obtain v' h' where c: "change_passphrase demo_prims demo_entropy (demo_faults None) (replicate 9 66) v [demo_disk]
      = (Ok (), v', h')" using demo_change [OF v] by blast
  with changed_passphrase_reopens [OF demo_prims_ok demo_entropy_ok demo_faithful v(1,3) c, of "\<lambda>_. Ok (hd h')"] v(4)
  show ?thesis by fastforce
qed

text \<open>a recovery bundle restores the vault it was exported from: imported anywhere under a new
  passphrase, it brings back the vault key and every profile key.\<close>

theorem recovery_restores_vault:
  assumes "prims_ok P" and "entropy_ok en" and "material_ok v" and "length rp < 2 ^ 32"
    and "export_bundle P en rp v = Ok bun"
    and "import_bundle P en' f bun rp vp allow w h = (Ok (), w', h')"
  shows "fv_vault_key w' = fv_vault_key v \<and> fv_profiles w' = fv_profiles v \<and> fv_unlocked w'"
  using export_imports [OF assms(1-3,5,4)] import_Ok_material [OF _ _ assms(6)] by auto

lemma demo_import:
  assumes i: "import_recovery_bundle demo_prims bun rp = Ok payload" "parse_payload payload = Ok (ca, key, ps)"
    and ps: "profiles_ok ps" "length ps \<le> 64" "length key = 32"
    and v0: "fv_preparation v0 = None" "fv_unlocked v0 \<Longrightarrow> compare_with_unlocked v0 key ps = Ok c \<and> is_complete c"
  shows "\<exists>w' h'. import_bundle demo_prims demo_entropy (demo_faults None) bun rp (Some (replicate 9 66)) False
     v0 [empty_disk] = (Ok (), w', h')"
proof -
  have l: "length (en_salt demo_entropy) = 16" "length (en_nonce demo_entropy) = 24" by (simp_all add: demo_entropy_def)
  obtain uk where dk: "derive_writer_key demo_prims (replicate 9 66) (en_salt demo_entropy) = Ok uk"
    using derive_writer_key_Ok [OF demo_prims_ok l(1), of "replicate 9 66"] by auto
  let ?v = "v0\<lparr>fv_created_at := ca, fv_vault_key := Some key, fv_profiles := ps,
      fv_unlock_key := Some uk, fv_vault_salt := Some (en_salt demo_entropy), fv_unlocked := True\<rparr>"
  have m: "material_ok ?v" using ps by (simp add: material_ok_def)
  obtain payload2 bs where pl: "serialize_payload ?v = Ok payload2"
    "encrypt_payload_with_key demo_prims (en_nonce demo_entropy) payload2 uk (en_salt demo_entropy) = Ok bs"
    using unlock_written [OF demo_prims_ok l(2,1) m _ _ dk] by auto
  obtain h' where w: "atomic_write (demo_faults None) bs ?v [empty_disk] = (Ok (), ?v, h')"
    using atomic_write_no_faults [of ?v bs empty_disk] v0(1) by auto
  have a: "archive_before_replacement (demo_faults None) v0 [empty_disk] = (Ok (), v0, [empty_disk])"
    using v0(1) by (simp add: archive_before_replacement_def archive_before_replacement_disk_def
        empty_disk_def readable_def)
  show ?thesis using i dk pl w a v0(2)
    by (auto simp: import_bundle_def replace_material_def persist_unlocked_def Let_def)
qed

lemma demo_export:
  assumes "material_ok v" and "fv_unlocked v" and "fv_vault_key v = Some key"
  shows "\<exists>bun. export_bundle demo_prims demo_entropy (replicate 8 67) v = Ok bun"
proof -
  obtain payload where pl: "serialize_payload v = Ok payload" "payload \<noteq> []" "length payload \<le> 10416"
    using serialize_payload_Ok [OF assms(1,3)] by blast
  then show ?thesis
    using recovery_bundle_roundtrip [OF demo_prims_ok, of "en_salt demo_entropy" "en_nonce demo_entropy" "replicate 8 67" payload] assms(2)
    by (auto simp: export_bundle_def demo_entropy_def)
qed

theorem recovery_restores_vault_witness:
  "\<exists>v bun w' h'. fv_vault_key v = Some (replicate 32 5) \<and>
     export_bundle demo_prims demo_entropy (replicate 8 67) v = Ok bun \<and>
     import_bundle demo_prims demo_entropy (demo_faults None) bun (replicate 8 67) (Some (replicate 9 66)) False
       FileVault_new [empty_disk] = (Ok (), w', h') \<and> fv_vault_key w' = Some (replicate 32 5)"
proof -
  obtain v where v: "material_ok v" "fv_unlocked v" "fv_vault_key v = Some (replicate 32 5)"
    using demo_create by blast
  obtain bun where b: "export_bundle demo_prims demo_entropy (replicate 8 67) v = Ok bun"
    using demo_export [OF v] by blast
  have l: "length (replicate 8 (67 :: u8)) < 2 ^ 32" by simp
  obtain payload key where p: "import_recovery_bundle demo_prims bun (replicate 8 67) = Ok payload"
    "fv_vault_key v = Some key" "parse_payload payload = Ok (fv_created_at v, key, fv_profiles v)"
    using export_imports [OF demo_prims_ok demo_entropy_ok v(1) b l] by blast
  have "length key = 32" "profiles_ok (fv_profiles v)" "length (fv_profiles v) \<le> 64"
    using v(1) p(2) by (simp_all add: material_ok_def)
  then obtain w' h' where i: "import_bundle demo_prims demo_entropy (demo_faults None) bun (replicate 8 67)
      (Some (replicate 9 66)) False FileVault_new [empty_disk] = (Ok (), w', h')"
    using demo_import [OF p(1,3), of FileVault_new] by (auto simp: FileVault_new_def)
  from recovery_restores_vault [OF demo_prims_ok demo_entropy_ok v(1) l b i] v(3) b i show ?thesis by metis
qed

text \<open>a bundle just exported verifies as complete against the vault it came from.\<close>

theorem exported_bundle_verifies:
  assumes "prims_ok P" and "entropy_ok en" and "material_ok v" and "length rp < 2 ^ 32"
    and "export_bundle P en rp v = Ok bun"
  shows "\<exists>r. verify_bundle P bun rp v = Ok r \<and> is_complete r"
proof -
  obtain payload key where p: "import_recovery_bundle P bun rp = Ok payload"
    "fv_vault_key v = Some key" "parse_payload payload = Ok (fv_created_at v, key, fv_profiles v)"
    using export_imports [OF assms(1-3,5,4)] by blast
  have u: "fv_unlocked v" using assms(5) by (auto simp: export_bundle_def split: if_splits)
  obtain c where c: "compare_with_unlocked v key (fv_profiles v) = Ok c" "is_complete c"
    using own_material_complete [OF assms(3) p(2)] by blast
  then show ?thesis using p u c by (simp add: verify_bundle_def)
qed

theorem exported_bundle_verifies_witness:
  "\<exists>v bun r. export_bundle demo_prims demo_entropy (replicate 8 67) v = Ok bun \<and>
     verify_bundle demo_prims bun (replicate 8 67) v = Ok r \<and> is_complete r"
proof -
  obtain v where v: "material_ok v" "fv_unlocked v" "fv_vault_key v = Some (replicate 32 5)"
    using demo_create by blast
  obtain bun where b: "export_bundle demo_prims demo_entropy (replicate 8 67) v = Ok bun"
    using demo_export [OF v] by blast
  from exported_bundle_verifies [OF demo_prims_ok demo_entropy_ok v(1) _ b] b show ?thesis by auto
qed

text \<open>C9: importing into an unlocked vault without confirming a key replacement never loses a key:
  when it succeeds, the vault key and every profile key the vault held are still there.\<close>

theorem import_keeps_keys:
  assumes "fv_unlocked v" and "bt_ok (fv_profiles v)"
    and "import_bundle P en f bun rp vp False v h = (Ok (), v', h')"
  shows "fv_vault_key v' = fv_vault_key v \<and>
    (\<forall>pid k. bt_get (fv_profiles v) pid = Some k \<longrightarrow> bt_get (fv_profiles v') pid = Some k)"
proof -
  obtain payload ca key ps where i: "import_recovery_bundle P bun rp = Ok payload" "parse_payload payload = Ok (ca, key, ps)"
    using assms(3) by (auto simp: import_bundle_def split: sum.splits)
  obtain c where c: "compare_with_unlocked v key ps = Ok c" "is_complete c"
    "fv_vault_key v' = Some key" "fv_profiles v' = ps"
    using import_Ok_material [OF i assms(3)] assms(1) by auto
  then show ?thesis using is_complete_iff [OF c(1)] by (auto dest: bt_get_in_set)
qed

theorem import_keeps_keys_witness:
  "\<exists>v bun v' h'. import_bundle demo_prims demo_entropy (demo_faults None) bun (replicate 8 67)
      (Some (replicate 9 66)) False v [empty_disk] = (Ok (), v', h') \<and>
     fv_unlocked v \<and> fv_vault_key v' = Some (replicate 32 5)"
proof -
  obtain v where v: "material_ok v" "fv_unlocked v" "fv_preparation v = None" "fv_vault_key v = Some (replicate 32 5)"
    using demo_create by blast
  obtain bun where b: "export_bundle demo_prims demo_entropy (replicate 8 67) v = Ok bun"
    using demo_export [OF v(1,2,4)] by blast
  have l: "length (replicate 8 (67 :: u8)) < 2 ^ 32" by simp
  obtain payload key where p: "import_recovery_bundle demo_prims bun (replicate 8 67) = Ok payload"
    "fv_vault_key v = Some key" "parse_payload payload = Ok (fv_created_at v, key, fv_profiles v)"
    using export_imports [OF demo_prims_ok demo_entropy_ok v(1) b l] by blast
  obtain c where c: "compare_with_unlocked v key (fv_profiles v) = Ok c \<and> is_complete c"
    using own_material_complete [OF v(1) p(2)] by blast
  have o: "profiles_ok (fv_profiles v)" "length (fv_profiles v) \<le> 64" "length key = 32"
    using v(1) p(2) by (simp_all add: material_ok_def)
  then obtain v' h' where i: "import_bundle demo_prims demo_entropy (demo_faults None) bun (replicate 8 67)
      (Some (replicate 9 66)) False v [empty_disk] = (Ok (), v', h')"
    using demo_import [OF p(1,3) _ _ _ v(3) c] by blast
  have "bt_ok (fv_profiles v)" using o(1) by (simp add: profiles_ok_def)
  from import_keeps_keys [OF v(2) this i] i v show ?thesis by metis
qed

text \<open>a failed import changes nothing: the vault in memory keeps its keys and lock state and the
  disk still reads as the old vault.\<close>

theorem failed_import_changes_nothing:
  assumes "fv_preparation v = None"
    and "import_bundle P en f bun rp vp allow v [d] = (Err e, v', h')"
  shows "v' = v \<and> readable (hd h') = readable d"
  using assms by (rule import_failed)

theorem failed_import_changes_nothing_witness:
  "\<exists>h'. import_bundle demo_prims demo_entropy (demo_faults None) [] [] None True FileVault_new [demo_disk]
      = (Err truncated, FileVault_new, h') \<and> readable (hd h') = Some (demo_file [1, 2])"
proof -
  obtain r v' h' where i: "import_bundle demo_prims demo_entropy (demo_faults None) [] [] None True FileVault_new [demo_disk]
      = (r, v', h')" using prod_cases3 by blast
  then have "r = Err truncated"
    by (auto simp: import_bundle_def import_recovery_bundle_def policy_simps)
  then show ?thesis
    using failed_import_changes_nothing [OF _ i [unfolded \<open>r = Err truncated\<close>]] i
    by (simp add: FileVault_new_def demo_disk_def readable_def)
qed

text \<open>a prepared write is refused, and the disk not touched, when at commit time the vault file
  or its backup no longer has the identity (size, modification time, device, inode) captured before
  the work began.\<close>

theorem commit_refuses_changed_files:
  assumes "fv_preparation v = Some pr" and "pr_capture pr = Some cap" and "fc_access cap \<noteq> CaptureResident"
    and "\<forall>k. view k = Ok d"
    and "map_option identity_of (vd_primary d) \<noteq> map_option fp_identity (fc_primary cap) \<or>
      map_option identity_of (vd_backup d) \<noteq> map_option fp_identity (fc_backup cap)"
  shows "commit_prepared P f view v h =
    (Err (vault_changed ''Vault files changed during preparation''), v\<lparr>fv_preparation := None\<rparr>, h)"
proof -
  have m: "\<exists>b. matches_fingerprint P path x view k = Ok b \<and> (b \<longrightarrow> map_option identity_of (file_at path d) = map_option fp_identity x)"
    for path x k
    using assms(4) by (auto simp: matches_fingerprint_def file_identity_at_def fingerprint_def split: option.splits)
  obtain p where p: "matches_fingerprint P PrimaryPath (fc_primary cap) view 0 = Ok p"
    "p \<longrightarrow> map_option identity_of (vd_primary d) = map_option fp_identity (fc_primary cap)"
    using m [of PrimaryPath "fc_primary cap" 0] by auto
  obtain b where b: "matches_fingerprint P BackupPath (fc_backup cap) view 4 = Ok b"
    "b \<longrightarrow> map_option identity_of (vd_backup d) = map_option fp_identity (fc_backup cap)"
    using m [of BackupPath "fc_backup cap" 4] by auto
  show ?thesis
    using assms(1-3,5) p b by (auto simp: commit_prepared_def Let_def)
qed

theorem commit_refuses_changed_files_witness:
  "commit_prepared demo_prims (demo_faults None) (\<lambda>_. Ok demo_disk)
     (FileVault_new\<lparr>fv_preparation := Some \<lparr>pr_capture = Some \<lparr>fc_primary = None, fc_backup = None,
        fc_bytes = None, fc_access = CaptureCreate\<rparr>, pr_pending = Some [3], pr_archive = False\<rparr>\<rparr>) [demo_disk] =
   (Err (vault_changed ''Vault files changed during preparation''), FileVault_new, [demo_disk])"
  using commit_refuses_changed_files [where P = demo_prims and f = "demo_faults None" and h = "[demo_disk]"
      and view = "\<lambda>_. Ok demo_disk" and d = demo_disk
      and v = "FileVault_new\<lparr>fv_preparation := Some \<lparr>pr_capture = Some \<lparr>fc_primary = None, fc_backup = None,
        fc_bytes = None, fc_access = CaptureCreate\<rparr>, pr_pending = Some [3], pr_archive = False\<rparr>\<rparr>"]
  by (simp add: demo_disk_def FileVault_new_def)

section \<open>Saving a profile key\<close>

text \<open>a refused save leaves its mark: a sixty-fifth profile is refused, but its key stays in
  memory, and from then on the vault can neither be exported nor get a new passphrase until it is
  locked.\<close>

theorem refused_profile_blocks_vault:
  assumes "fv_unlocked v" and "fv_vault_key v \<noteq> None" and "fv_unlock_key v \<noteq> None"
    and "fv_vault_salt v \<noteq> None" and "length (fv_profiles v) = 64"
    and "bt_get (fv_profiles v) pid = None" and "pid \<noteq> []" and "length pid \<le> 128"
    and "save_profile P en f pid key v h = (r, v', h')"
  shows "r = Err (policy_rejected ''Too many encryption profiles'') \<and> h' = h \<and>
    load_wrapping_key v' pid = Ok key \<and>
    export_bundle P en' rp v' = Err (policy_rejected ''Too many encryption profiles'') \<and>
    fst (change_passphrase P en' f' pw v' h') \<noteq> Ok ()"
proof -
  let ?v = "v\<lparr>fv_profiles := bt_insert pid key (fv_profiles v)\<rparr>"
  have s: "serialize_payload ?v = Err (policy_rejected ''Too many encryption profiles'')"
    using assms(2,5) bt_length_insert_fresh [OF assms(6), of key]
    by (auto simp: serialize_payload_def serialize_material_def policy_simps)
  then have "persist_unlocked P en f ?v h = (Err (policy_rejected ''Too many encryption profiles''), ?v, h)"
    using assms(3,4) by (auto simp: persist_unlocked_def)
  then have r: "r = Err (policy_rejected ''Too many encryption profiles'')" "v' = ?v" "h' = h"
    using assms by (simp_all add: save_profile_def policy_simps)
  show ?thesis
    using r s assms(1) by (auto simp: load_wrapping_key_def export_bundle_def change_passphrase_def split: sum.splits)
qed

definition full_vault :: file_vault where
  "full_vault = FileVault_new\<lparr>fv_unlocked := True, fv_vault_key := Some (replicate 32 1),
     fv_unlock_key := Some (replicate 32 2), fv_vault_salt := Some (replicate 16 3),
     fv_profiles := map (\<lambda>i. ([of_nat i], replicate 32 4)) [0..<64]\<rparr>"

theorem refused_profile_blocks_vault_witness:
  "\<exists>v'. save_profile demo_prims demo_entropy (demo_faults None) [200] (replicate 32 9) full_vault [empty_disk]
      = (Err (policy_rejected ''Too many encryption profiles''), v', [empty_disk]) \<and>
     load_wrapping_key v' [200] = Ok (replicate 32 9) \<and>
     export_bundle demo_prims demo_entropy (replicate 8 67) v' = Err (policy_rejected ''Too many encryption profiles'')"
proof -
  obtain r v' h' where s: "save_profile demo_prims demo_entropy (demo_faults None) [200] (replicate 32 9)
      full_vault [empty_disk] = (r, v', h')" using prod_cases3 by blast
  have "bt_get (fv_profiles full_vault) [200] = None"
    by (simp add: full_vault_def bt_get_None_iff bt_keys_def upt_rec)
  from refused_profile_blocks_vault [OF _ _ _ _ _ this _ _ s] s show ?thesis
    by (simp add: full_vault_def)
qed

end
