(* ===== verification/Crypto_State.thy ===== *)
theory Crypto_State
  imports Vault_Contract
begin

text \<open>
  \<open>crypto/state.rs\<close>: the shared state behind every encryption command. The record
  \<open>crypto_state\<close> is \<open>CryptoStateInner\<close> with the two effects the operations have beside it: the
  stored permit of the auto-lock \<open>Notify\<close> and the number of times the local search index was
  invalidated. Every operation runs under the mutex, so it is one function; a vault operation
  releases the mutex while the key is derived, so it is three: \<open>begin_operation\<close> takes a ticket,
  \<open>prepare_operation\<close> works on the snapshot, \<open>finish_operation\<close> publishes. The clock is an
  argument in nanoseconds and random handles are a stream of draws. The mutex is never poisoned
  (no code panics while holding it), and the \<open>native-e2e\<close> fixtures are left out.
\<close>

section \<open>State\<close>

datatype operation_class = Upload | Download | Preview | MediaStream | Archive | Share | Admin

record operation_info =
  oi_session :: u64
  oi_created_at :: nat
  oi_class :: operation_class

record prompt_secret =
  ps_created_at :: nat
  ps_secret :: bytes

record crypto_state =
  cs_revision :: u64
  cs_vault :: file_vault
  cs_session :: "u64 option"
  cs_sessions :: "(u64, bytes) btree"
  cs_handles :: "(u64, operation_info) btree"
  cs_prompts :: "(u64, prompt_secret) btree"
  cs_features :: crypto_feature_flags
  cs_timeout :: "nat option"
  cs_last_activity :: nat
  cs_locked :: bool
  cs_permit :: bool
  cs_invalidations :: nat

definition seconds :: "nat \<Rightarrow> nat" where "seconds n = n * 1000000000"

definition PROMPT_SECRET_TTL :: nat where "PROMPT_SECRET_TTL = seconds (5 * 60)"
definition MEDIA_OPERATION_TTL :: nat where "MEDIA_OPERATION_TTL = seconds (4 * 60 * 60)"

definition CryptoState_new :: "file_vault \<Rightarrow> nat \<Rightarrow> crypto_state" where
  "CryptoState_new vault now =
     \<lparr>cs_revision = 0, cs_vault = vault, cs_session = None, cs_sessions = [], cs_handles = [],
      cs_prompts = [], cs_features = default_feature_flags, cs_timeout = Some (seconds (15 * 60)),
      cs_last_activity = now, cs_locked = True, cs_permit = False, cs_invalidations = 0\<rparr>"

definition signal_auto_lock_change :: "crypto_state \<Rightarrow> crypto_state" where
  "signal_auto_lock_change cs = cs\<lparr>cs_permit := True\<rparr>"

definition invalidate_search :: "crypto_state \<Rightarrow> crypto_state" where
  "invalidate_search cs = cs\<lparr>cs_invalidations := cs_invalidations cs + 1\<rparr>"

definition lock_inner :: "crypto_state \<Rightarrow> crypto_state" where
  "lock_inner cs = cs\<lparr>cs_revision := cs_revision cs + 1, cs_vault := lock_vault (cs_vault cs),
     cs_session := None, cs_sessions := [], cs_handles := [], cs_prompts := [], cs_locked := True\<rparr>"

definition auto_lock_due :: "nat \<Rightarrow> crypto_state \<Rightarrow> bool" where
  "auto_lock_due now cs =
     (case cs_timeout cs of None \<Rightarrow> False | Some timeout \<Rightarrow> timeout \<le> now - cs_last_activity cs)"

text \<open>The loop that draws handles. It may draw for ever, which is the value \<open>None\<close>.\<close>

partial_function (option) new_unique_handle :: "(u64, 'a) btree \<Rightarrow> (nat \<Rightarrow> u64) \<Rightarrow> nat \<Rightarrow> u64 option" where
  "new_unique_handle existing draws i =
     (let candidate = draws i in
      if candidate \<noteq> 0 \<and> \<not> bt_contains existing candidate then Some candidate
      else new_unique_handle existing draws (Suc i))"

section \<open>Vault operations\<close>

datatype operation_kind = KindCreate | KindUnlock | KindChange | KindExport | KindVerify | KindImport

fun operation_kind_of :: "vault_operation \<Rightarrow> operation_kind" where
  "operation_kind_of (OpCreate _) = KindCreate"
| "operation_kind_of (OpUnlock _) = KindUnlock"
| "operation_kind_of (OpChange _ _) = KindChange"
| "operation_kind_of (OpExport _) = KindExport"
| "operation_kind_of (OpVerify _ _) = KindVerify"
| "operation_kind_of (OpImport _ _ _ _ _) = KindImport"

record vault_ticket =
  vt_operation :: vault_operation
  vt_revision :: u64
  vt_session :: "u64 option"
  vt_snapshot :: file_vault

definition begin_operation :: "vault_operation \<Rightarrow> crypto_state \<Rightarrow> vault_ticket crypto_result" where
  "begin_operation op cs =
     (if requires_unlocked op \<and> cs_locked cs
      then
        if operation_kind_of op = KindImport
        then Err (Crypto_Error KeyRequired ''[RECOVERY_VAULT_PASSPHRASE_REQUIRED] Choose the passphrase that will unlock the restored vault'')
        else Err vault_locked
      else
        rbind (preparation_snapshot (cs_vault cs)) (\<lambda>snapshot.
        Ok \<lparr>vt_operation = op, vt_revision = cs_revision cs, vt_session = cs_session cs,
            vt_snapshot = snapshot\<rparr>))"

definition prepare_operation ::
  "prims \<Rightarrow> entropy \<Rightarrow> fs_faults \<Rightarrow> disk_view \<Rightarrow> vault_ticket \<Rightarrow> (file_vault \<times> vault_value) crypto_result" where
  "prepare_operation P en f view ticket =
     (case capture_preparation_files P view (disk_access (vt_operation ticket)) (vt_snapshot ticket) of
        (Inl e, _) \<Rightarrow> Err e
      | (Inr _, snapshot) \<Rightarrow> prepare P en f snapshot (vt_operation ticket))"

text \<open>The publication under the mutex: the new session, vault and revision.\<close>

definition publish ::
  "operation_kind \<Rightarrow> (nat \<Rightarrow> u64) \<Rightarrow> file_vault \<Rightarrow> vault_value \<Rightarrow> crypto_state \<Rightarrow>
   (vault_value crypto_result \<times> crypto_state) option" where
  "publish kind draws vault value cs =
     (case kind of
        KindChange \<Rightarrow>
          Some (Ok VUnit, cs\<lparr>cs_vault := vault, cs_revision := cs_revision cs + 1\<rparr>)
      | KindExport \<Rightarrow> Some (Ok value, cs)
      | KindVerify \<Rightarrow> Some (Ok value, cs)
      | _ \<Rightarrow>
          Option.bind (new_unique_handle (cs_sessions cs) draws 0) (\<lambda>session_id.
          case wrapping_key vault of
            Inl e \<Rightarrow> Some (Err e, cs)
          | Inr key \<Rightarrow>
              let kept = (if kind = KindImport then [] else cs_sessions cs) in
              Some (Ok (VSession session_id),
                cs\<lparr>cs_sessions := bt_insert session_id key kept, cs_session := Some session_id,
                   cs_locked := False, cs_vault := vault, cs_revision := cs_revision cs + 1\<rparr>)))"

text \<open>What follows a publication: activity, search invalidation, the signal.\<close>

definition settle ::
  "operation_kind \<Rightarrow> nat \<Rightarrow> vault_value crypto_result \<times> crypto_state \<Rightarrow> vault_value crypto_result \<times> crypto_state" where
  "settle kind now rc =
     (case rc of
        (Inl e, cs) \<Rightarrow> (Err e, cs)
      | (Inr value, cs) \<Rightarrow>
          let cs1 = cs\<lparr>cs_last_activity := now\<rparr>;
              cs2 = (if kind = KindCreate \<or> kind = KindUnlock \<or> kind = KindImport
                     then invalidate_search cs1 else cs1)
          in (Ok value, signal_auto_lock_change cs2))"

definition finish_operation ::
  "prims \<Rightarrow> fs_faults \<Rightarrow> disk_view \<Rightarrow> nat \<Rightarrow> (nat \<Rightarrow> u64) \<Rightarrow> vault_ticket \<Rightarrow>
   file_vault \<times> vault_value \<Rightarrow> crypto_state \<Rightarrow> history \<Rightarrow>
   (vault_value crypto_result \<times> crypto_state \<times> history) option" where
  "finish_operation P f view now draws ticket prepared cs h =
     (let op = vt_operation ticket; kind = operation_kind_of op in
      if cs_revision cs \<noteq> vt_revision ticket \<or> cs_session cs \<noteq> vt_session ticket \<or>
         (requires_unlocked op \<and> cs_locked cs)
      then Some (Err (vault_changed ''Vault state changed during preparation''), cs, h)
      else if requires_unlocked op \<and> auto_lock_due now cs
      then Some (Err vault_locked, signal_auto_lock_change (invalidate_search (lock_inner cs)), h)
      else
        case (if kind = KindExport \<or> kind = KindVerify then (Ok (), fst prepared, h)
              else commit_prepared P f view (fst prepared) h) of
          (Inl e, _, h') \<Rightarrow> Some (Err e, cs, h')
        | (Inr _, vault, h') \<Rightarrow>
            map_option (\<lambda>rc. case settle kind now rc of (r, cs') \<Rightarrow> (r, cs', h'))
              (publish kind draws vault (snd prepared) cs))"

section \<open>Sessions and operation handles\<close>

definition lock_state :: "crypto_state \<Rightarrow> crypto_state" where
  "lock_state cs = signal_auto_lock_change (invalidate_search (lock_inner cs))"

definition validate_session :: "u64 \<Rightarrow> crypto_state \<Rightarrow> unit crypto_result" where
  "validate_session session_id cs =
     (if cs_locked cs \<or> cs_session cs \<noteq> Some session_id then Err vault_locked
      else if \<not> bt_contains (cs_sessions cs) session_id then Err vault_locked
      else Ok ())"

definition retain_live_handles :: "nat \<Rightarrow> crypto_state \<Rightarrow> crypto_state" where
  "retain_live_handles now cs = cs\<lparr>cs_handles := bt_retain (\<lambda>_ operation.
     oi_class operation \<noteq> MediaStream \<or> now - oi_created_at operation \<le> MEDIA_OPERATION_TTL) (cs_handles cs)\<rparr>"

definition create_operation_handle ::
  "nat \<Rightarrow> (nat \<Rightarrow> u64) \<Rightarrow> u64 \<Rightarrow> operation_class \<Rightarrow> crypto_state \<Rightarrow> (u64 crypto_result \<times> crypto_state) option" where
  "create_operation_handle now draws session_id class cs =
     (if cs_locked cs \<or> cs_session cs \<noteq> Some session_id then Some (Err vault_locked, cs)
      else
        let cs1 = retain_live_handles now cs in
        Option.bind (new_unique_handle (cs_handles cs1) draws 0) (\<lambda>handle.
        Some (Ok handle, cs1\<lparr>cs_handles := bt_insert handle
           \<lparr>oi_session = session_id, oi_created_at = now, oi_class = class\<rparr> (cs_handles cs1)\<rparr>)))"

definition operation_wrapping_key ::
  "nat \<Rightarrow> u64 \<Rightarrow> operation_class \<Rightarrow> crypto_state \<Rightarrow> bytes crypto_result \<times> crypto_state" where
  "operation_wrapping_key now handle class cs =
     (if cs_locked cs then (Err vault_locked, cs)
      else
        let cs1 = retain_live_handles now cs in
        case bt_get (cs_handles cs1) handle of
          None \<Rightarrow> (Err vault_locked, cs1)
        | Some operation \<Rightarrow>
            if oi_class operation \<noteq> class \<or> cs_session cs1 \<noteq> Some (oi_session operation)
            then (Err vault_locked, cs1)
            else
              (case bt_get (cs_sessions cs1) (oi_session operation) of
                 None \<Rightarrow> (Err vault_locked, cs1)
               | Some key \<Rightarrow> (Ok key, signal_auto_lock_change (cs1\<lparr>cs_last_activity := now\<rparr>))))"

definition validate_operation :: "nat \<Rightarrow> u64 \<Rightarrow> operation_class \<Rightarrow> crypto_state \<Rightarrow> unit crypto_result" where
  "validate_operation now handle class cs =
     rbind (ok_or (bt_get (cs_handles cs) handle) vault_locked) (\<lambda>operation.
     if cs_locked cs \<or> oi_class operation \<noteq> class \<or> cs_session cs \<noteq> Some (oi_session operation)
        \<or> \<not> bt_contains (cs_sessions cs) (oi_session operation)
        \<or> (class = MediaStream \<and> MEDIA_OPERATION_TTL < now - oi_created_at operation)
     then Err vault_locked else Ok ())"

definition revoke_operation_handle :: "u64 \<Rightarrow> crypto_state \<Rightarrow> crypto_state" where
  "revoke_operation_handle handle cs = cs\<lparr>cs_handles := bt_remove handle (cs_handles cs)\<rparr>"

definition get_wrapping_key :: "u64 \<Rightarrow> crypto_state \<Rightarrow> bytes crypto_result" where
  "get_wrapping_key session_id cs =
     (if cs_locked cs then Err vault_locked else ok_or (bt_get (cs_sessions cs) session_id) vault_locked)"

definition current_credential :: "crypto_state \<Rightarrow> (u64 \<times> bytes) crypto_result" where
  "current_credential cs =
     (if cs_locked cs then Err vault_locked
      else rbind (ok_or (cs_session cs) vault_locked) (\<lambda>session_id.
           ok_or (map_option (Pair session_id) (bt_get (cs_sessions cs) session_id)) vault_locked))"

definition get_current_wrapping_key :: "crypto_state \<Rightarrow> bytes crypto_result" where
  "get_current_wrapping_key cs = rbind (current_credential cs) (\<lambda>(_, key). Ok key)"

definition with_current_session :: "u64 \<Rightarrow> (unit \<Rightarrow> 'a) \<Rightarrow> crypto_state \<Rightarrow> 'a crypto_result" where
  "with_current_session session_id operation cs =
     (if cs_locked cs \<or> cs_session cs \<noteq> Some session_id \<or> \<not> bt_contains (cs_sessions cs) session_id
      then Err vault_locked else Ok (operation ()))"

definition current_session :: "crypto_state \<Rightarrow> u64 option" where
  "current_session cs = (if cs_locked cs then None else cs_session cs)"

definition state_vault_identity :: "prims \<Rightarrow> crypto_state \<Rightarrow> string option" where
  "state_vault_identity P cs =
     (if cs_locked cs then None
      else case vault_identity P (cs_vault cs) of Inl _ \<Rightarrow> None | Inr s \<Rightarrow> Some s)"

section \<open>Prompt secrets\<close>

definition prompt_expired :: crypto_error where
  "prompt_expired = Crypto_Error KeyRequired ''Passphrase prompt expired or was already used''"

definition stage_prompt_secret ::
  "nat \<Rightarrow> (nat \<Rightarrow> u64) \<Rightarrow> bytes \<Rightarrow> crypto_state \<Rightarrow> (u64 crypto_result \<times> crypto_state) option" where
  "stage_prompt_secret now draws secret cs =
     (if length secret < 8 \<or> 1024 < length secret
      then Some (Err (policy_rejected ''File passphrase must be between 8 and 1024 bytes''), cs)
      else
        let cs1 = cs\<lparr>cs_prompts := bt_retain (\<lambda>_ entry. now - ps_created_at entry \<le> PROMPT_SECRET_TTL) (cs_prompts cs)\<rparr> in
        Option.bind (new_unique_handle (cs_prompts cs1) draws 0) (\<lambda>handle.
        Some (Ok handle, cs1\<lparr>cs_prompts := bt_insert handle
          \<lparr>ps_created_at = now, ps_secret = secret\<rparr> (cs_prompts cs1)\<rparr>)))"

definition consume_prompt_secret :: "nat \<Rightarrow> u64 \<Rightarrow> crypto_state \<Rightarrow> bytes crypto_result \<times> crypto_state" where
  "consume_prompt_secret now handle cs =
     (case bt_get (cs_prompts cs) handle of
        None \<Rightarrow> (Err prompt_expired, cs)
      | Some entry \<Rightarrow>
          let cs1 = cs\<lparr>cs_prompts := bt_remove handle (cs_prompts cs)\<rparr> in
          if PROMPT_SECRET_TTL < now - ps_created_at entry then (Err prompt_expired, cs1)
          else (Ok (ps_secret entry), cs1))"

section \<open>Features and auto-lock\<close>

definition set_features :: "crypto_feature_flags \<Rightarrow> crypto_state \<Rightarrow> crypto_state" where
  "set_features features cs = cs\<lparr>cs_features := features, cs_revision := cs_revision cs + 1\<rparr>"

definition set_auto_lock_timeout :: "nat option \<Rightarrow> crypto_state \<Rightarrow> crypto_state" where
  "set_auto_lock_timeout timeout cs = signal_auto_lock_change (cs\<lparr>cs_timeout := timeout\<rparr>)"

definition next_auto_lock_deadline :: "crypto_state \<Rightarrow> nat option" where
  "next_auto_lock_deadline cs =
     (if cs_locked cs then None else map_option (\<lambda>timeout. cs_last_activity cs + timeout) (cs_timeout cs))"

definition lock_if_auto_lock_due :: "nat \<Rightarrow> crypto_state \<Rightarrow> bool \<times> crypto_state" where
  "lock_if_auto_lock_due now cs =
     (if \<not> cs_locked cs \<and> auto_lock_due now cs
      then (True, signal_auto_lock_change (invalidate_search (lock_inner cs)))
      else (False, cs))"

definition record_activity :: "nat \<Rightarrow> crypto_state \<Rightarrow> bool \<times> crypto_state" where
  "record_activity now cs =
     (if cs_locked cs then (False, cs)
      else if auto_lock_due now cs
      then (True, signal_auto_lock_change (invalidate_search (lock_inner cs)))
      else (False, signal_auto_lock_change (cs\<lparr>cs_last_activity := now\<rparr>)))"

text \<open>The supervisor \<open>wait_until_auto_locked\<close> wakes either because its timer reached the deadline it
  read, or because the permit of a change is there to consume; \<open>True\<close> ends its loop.\<close>

datatype supervisor_wake = DeadlineReached | AutoLockChanged

definition supervisor_step :: "nat \<Rightarrow> supervisor_wake \<Rightarrow> crypto_state \<Rightarrow> bool \<times> crypto_state" where
  "supervisor_step now wake cs =
     (case wake of
        DeadlineReached \<Rightarrow> lock_if_auto_lock_due now cs
      | AutoLockChanged \<Rightarrow> (False, cs\<lparr>cs_permit := False\<rparr>))"

end
