(* ===== verification/Session_Contract.thy ===== *)
theory Session_Contract
  imports Crypto_State
begin

text \<open>
  What the shared encryption state promises, over every interleaving of its operations: a locked
  state holds no session, capability or key and answers none, a vault operation whose ticket is stale publishes nothing,
  capabilities expire, prompts are used once, and the deadlines of the auto-lock.
\<close>

section \<open>Drawing handles\<close>

lemma new_unique_handle_fresh:
  assumes "new_unique_handle existing draws i = Some c"
  shows "c \<noteq> 0 \<and> bt_get existing c = None \<and> (\<exists>j\<ge>i. draws j = c)"
  by (rule new_unique_handle.raw_induct [OF _ assms])
    (fastforce simp: Let_def bt_contains_def split: if_splits dest: Suc_leD)

lemma new_unique_handle_returns:
  assumes "draws (i + n) \<noteq> 0" and "bt_get existing (draws (i + n)) = None"
  shows "\<exists>c. new_unique_handle existing draws i = Some c"
  using assms
proof (induction n arbitrary: i)
  case 0
  then show ?case by (subst new_unique_handle.simps) (simp add: bt_contains_def)
next
  case (Suc n)
  have "\<exists>c. new_unique_handle existing draws (Suc i) = Some c"
    by (rule Suc.IH) (use Suc.prems in simp_all)
  then show ?case by (subst new_unique_handle.simps) (simp add: Let_def)
qed

section \<open>The system: shared state, disk and operations in flight\<close>

record vault_system =
  sys_state :: crypto_state
  sys_disk :: history
  sys_tickets :: "vault_ticket list"
  sys_prepared :: "(vault_ticket \<times> file_vault \<times> vault_value) list"

inductive sys_step :: "prims \<Rightarrow> vault_system \<Rightarrow> vault_system \<Rightarrow> bool" for P where
  begin_vault: "begin_operation op (sys_state s) = Ok ticket \<Longrightarrow>
    sys_step P s (s\<lparr>sys_tickets := ticket # sys_tickets s\<rparr>)"
| prepare_vault: "ticket \<in> set (sys_tickets s) \<Longrightarrow> prepare_operation P en f view ticket = Ok p \<Longrightarrow>
    sys_step P s (s\<lparr>sys_prepared := (ticket, p) # sys_prepared s\<rparr>)"
| finish_vault: "(ticket, p) \<in> set (sys_prepared s) \<Longrightarrow>
    finish_operation P f view now draws ticket p (sys_state s) (sys_disk s) = Some (r, cs, h) \<Longrightarrow>
    sys_step P s (s\<lparr>sys_state := cs, sys_disk := h, sys_prepared := remove1 (ticket, p) (sys_prepared s)\<rparr>)"
| lock: "sys_step P s (s\<lparr>sys_state := lock_state (sys_state s)\<rparr>)"
| open_handle: "create_operation_handle now draws sid class (sys_state s) = Some (r, cs) \<Longrightarrow>
    sys_step P s (s\<lparr>sys_state := cs\<rparr>)"
| use_handle: "operation_wrapping_key now handle class (sys_state s) = (r, cs) \<Longrightarrow>
    sys_step P s (s\<lparr>sys_state := cs\<rparr>)"
| revoke: "sys_step P s (s\<lparr>sys_state := revoke_operation_handle handle (sys_state s)\<rparr>)"
| stage: "stage_prompt_secret now draws secret (sys_state s) = Some (r, cs) \<Longrightarrow>
    sys_step P s (s\<lparr>sys_state := cs\<rparr>)"
| consume: "consume_prompt_secret now handle (sys_state s) = (r, cs) \<Longrightarrow>
    sys_step P s (s\<lparr>sys_state := cs\<rparr>)"
| features: "sys_step P s (s\<lparr>sys_state := set_features flags (sys_state s)\<rparr>)"
| timeout: "sys_step P s (s\<lparr>sys_state := set_auto_lock_timeout limit (sys_state s)\<rparr>)"
| activity: "record_activity now (sys_state s) = (b, cs) \<Longrightarrow> sys_step P s (s\<lparr>sys_state := cs\<rparr>)"
| supervisor: "supervisor_step now wake (sys_state s) = (b, cs) \<Longrightarrow> sys_step P s (s\<lparr>sys_state := cs\<rparr>)"
| other_disk: "sys_step P s (s\<lparr>sys_disk := d # sys_disk s\<rparr>)"

definition sys_start :: "nat \<Rightarrow> vault_disk \<Rightarrow> vault_system" where
  "sys_start now d = \<lparr>sys_state = CryptoState_new FileVault_new now, sys_disk = [d],
     sys_tickets = [], sys_prepared = []\<rparr>"

inductive sys_reachable :: "prims \<Rightarrow> vault_system \<Rightarrow> bool" for P where
  start: "sys_reachable P (sys_start now d)"
| step: "sys_reachable P s \<Longrightarrow> sys_step P s s' \<Longrightarrow> sys_reachable P s'"

text \<open>A run, counting the steps that changed the revision.\<close>

inductive sys_run :: "prims \<Rightarrow> vault_system \<Rightarrow> nat \<Rightarrow> vault_system \<Rightarrow> bool" for P where
  refl: "sys_run P s 0 s"
| step: "sys_run P s n s' \<Longrightarrow> sys_step P s' s'' \<Longrightarrow>
    sys_run P s (if cs_revision (sys_state s'') = cs_revision (sys_state s') then n else Suc n) s''"

inductive_cases sys_stepE: "sys_step P s s'"

lemmas state_defs = lock_state_def lock_inner_def signal_auto_lock_change_def invalidate_search_def
  retain_live_handles_def revoke_operation_handle_def set_features_def set_auto_lock_timeout_def
  record_activity_def supervisor_step_def lock_if_auto_lock_due_def

section \<open>What a prepared vault is\<close>

lemma commit_prepared_vault:
  "commit_prepared P f view v h = (Ok (), v', h') \<Longrightarrow> v' = v\<lparr>fv_preparation := None\<rparr>"
  by (auto simp: commit_prepared_def archive_before_replacement_def atomic_write_def Let_def
      split: option.splits sum.splits if_splits prod.splits)

lemma persist_keeps: "persist_unlocked P en f v h = (r, v', h') \<Longrightarrow>
    fv_unlocked v' = fv_unlocked v \<and> fv_vault_key v' = fv_vault_key v"
  by (auto simp: persist_unlocked_def atomic_write_def split: sum.splits option.splits prod.splits)

lemma create_open:
  assumes "create_vault P en f view pw v h = (Ok (), v', h')"
  shows "fv_unlocked v' \<and> fv_vault_key v' \<noteq> None"
  using assms by (auto simp: create_vault_def Let_def dest!: persist_keeps split: if_splits sum.splits prod.splits)

lemma unlock_open:
  assumes "unlock_vault P view pw v = (Ok (), v')"
  shows "fv_unlocked v' \<and> fv_vault_key v' \<noteq> None"
  using assms by (auto simp: unlock_vault_def split: sum.splits prod.splits)

lemma change_open:
  assumes "change_passphrase P en f pw v h = (Ok (), v', h')"
  shows "fv_unlocked v' \<and> fv_vault_key v' \<noteq> None"
  using assms by (auto simp: change_passphrase_def atomic_write_def serialize_payload_def
      split: if_splits sum.splits prod.splits option.splits)

lemma replace_open:
  assumes "replace_material P en f ca key ps uk salt v h = (Ok (), v', h')"
  shows "fv_unlocked v' \<and> fv_vault_key v' \<noteq> None"
  using assms by (auto simp: replace_material_def Let_def dest!: persist_keeps split: sum.splits prod.splits)

lemma import_open:
  assumes "import_bundle P en f bun rp vp allow v h = (Ok (), v', h')"
  shows "fv_unlocked v' \<and> fv_vault_key v' \<noteq> None"
  using assms by (auto simp: import_bundle_def dest!: replace_open split: sum.splits prod.splits)

definition publishes :: "vault_operation \<Rightarrow> bool" where
  "publishes op \<longleftrightarrow> operation_kind_of op \<noteq> KindExport \<and> operation_kind_of op \<noteq> KindVerify"

lemma prepare_open:
  assumes "prepare P en f v op = Ok (v', value)" and "publishes op"
  shows "fv_unlocked v' \<and> fv_vault_key v' \<noteq> None"
proof (cases op)
  case (OpCreate x)
  obtain r v1 h1 where "create_vault P en f no_disk x v [] = (r, v1, h1)" using prod_cases3 by blast
  then show ?thesis using assms OpCreate create_open by (auto simp: prepare_def)
next
  case (OpUnlock x)
  obtain r v1 where "unlock_vault P no_disk x v = (r, v1)" by fastforce
  then show ?thesis using assms OpUnlock unlock_open by (auto simp: prepare_def)
next
  case (OpChange x y)
  obtain r v1 where u: "unlock_vault P no_disk x v = (r, v1)" by fastforce
  obtain r2 v2 h2 where "change_passphrase P en f y v1 [] = (r2, v2, h2)" using prod_cases3 by blast
  then show ?thesis using assms OpChange change_open u by (auto simp: prepare_def split: if_splits)
next
  case (OpImport b rp vp allow again)
  obtain r v1 h1 where "import_bundle P en f b rp vp allow v [] = (r, v1, h1)" using prod_cases3 by blast
  then show ?thesis using assms OpImport import_open by (auto simp: prepare_def split: if_splits)
qed (use assms in \<open>simp_all add: publishes_def\<close>)

definition prepared_ok :: "vault_ticket \<times> file_vault \<times> vault_value \<Rightarrow> bool" where
  "prepared_ok tp \<longleftrightarrow> (case tp of (ticket, v, _) \<Rightarrow>
     publishes (vt_operation ticket) \<longrightarrow> fv_unlocked v \<and> fv_vault_key v \<noteq> None)"

lemma prepare_operation_ok:
  "prepare_operation P en f view ticket = Ok p \<Longrightarrow> prepared_ok (ticket, p)"
  using prepare_open by (fastforce simp: prepare_operation_def prepared_ok_def split: prod.splits sum.splits)

section \<open>The invariant\<close>

definition state_inv :: "crypto_state \<Rightarrow> bool" where
  "state_inv cs \<longleftrightarrow>
     bt_ok (cs_sessions cs) \<and> bt_ok (cs_handles cs) \<and> bt_ok (cs_prompts cs) \<and>
     fv_preparation (cs_vault cs) = None \<and>
     (if cs_locked cs
      then cs_session cs = None \<and> cs_sessions cs = [] \<and> cs_handles cs = [] \<and>
        \<not> fv_unlocked (cs_vault cs) \<and> fv_vault_key (cs_vault cs) = None \<and>
        fv_unlock_key (cs_vault cs) = None \<and> fv_profiles (cs_vault cs) = []
      else fv_unlocked (cs_vault cs) \<and> fv_vault_key (cs_vault cs) \<noteq> None \<and>
        (\<exists>sid. cs_session cs = Some sid \<and> bt_contains (cs_sessions cs) sid))"

lemma state_inv_new: "state_inv (CryptoState_new FileVault_new now)"
  by (simp add: state_inv_def CryptoState_new_def FileVault_new_def)

lemma state_inv_lock: "state_inv cs \<Longrightarrow> state_inv (lock_inner cs)"
  by (simp add: state_inv_def lock_inner_def lock_vault_def)

lemma state_inv_effects [simp]:
  "state_inv (cs\<lparr>cs_permit := b\<rparr>) = state_inv cs"
  "state_inv (cs\<lparr>cs_invalidations := n\<rparr>) = state_inv cs"
  "state_inv (cs\<lparr>cs_last_activity := t\<rparr>) = state_inv cs"
  "state_inv (cs\<lparr>cs_timeout := l\<rparr>) = state_inv cs"
  "state_inv (cs\<lparr>cs_features := fl, cs_revision := rv\<rparr>) = state_inv cs"
  "state_inv (signal_auto_lock_change cs) = state_inv cs"
  "state_inv (invalidate_search cs) = state_inv cs"
  by (simp_all add: state_inv_def signal_auto_lock_change_def invalidate_search_def)

lemma state_inv_handles:
  assumes "state_inv cs" and "bt_ok hs" and "cs_locked cs \<Longrightarrow> hs = []"
  shows "state_inv (cs\<lparr>cs_handles := hs\<rparr>)"
  using assms by (auto simp: state_inv_def)

lemma state_inv_prompts: "state_inv cs \<Longrightarrow> bt_ok ps \<Longrightarrow> state_inv (cs\<lparr>cs_prompts := ps\<rparr>)"
  by (simp add: state_inv_def)

lemma state_inv_retain: "state_inv cs \<Longrightarrow> state_inv (retain_live_handles now cs)"
  unfolding retain_live_handles_def by (rule state_inv_handles) (auto simp: state_inv_def bt_retain_def)

lemma publish_inv:
  assumes inv: "state_inv cs" and v: "fv_preparation v = None" "publishes op \<Longrightarrow> fv_unlocked v \<and> fv_vault_key v \<noteq> None"
    and l: "requires_unlocked op \<Longrightarrow> \<not> cs_locked cs"
    and p: "publish (operation_kind_of op) draws v value cs = Some (r, cs')"
  shows "state_inv cs' \<and> (\<exists>x. r = Ok x)"
  using assms
  by (cases op) (auto simp: publish_def publishes_def state_inv_def wrapping_key_def Let_def bt_contains_def
      split: sum.splits bind_splits)

lemma finish_operation_cases:
  assumes "finish_operation P f view now draws ticket prepared cs h = Some (r, cs', h')"
  obtains (stale) "r = Err (vault_changed ''Vault state changed during preparation'')" "cs' = cs" "h' = h"
  | (expired) "requires_unlocked (vt_operation ticket)" "auto_lock_due now cs"
      "r = Err vault_locked" "cs' = lock_state cs" "h' = h"
  | (refused) e v1 where "publishes (vt_operation ticket)" "commit_prepared P f view (fst prepared) h = (Err e, v1, h')"
      "r = Err e" "cs' = cs"
  | (published) v1 r1 cs1 where
      "cs_revision cs = vt_revision ticket" "cs_session cs = vt_session ticket"
      "requires_unlocked (vt_operation ticket) \<Longrightarrow> \<not> cs_locked cs \<and> \<not> auto_lock_due now cs"
      "if publishes (vt_operation ticket) then commit_prepared P f view (fst prepared) h = (Ok (), v1, h')
       else v1 = fst prepared \<and> h' = h"
      "publish (operation_kind_of (vt_operation ticket)) draws v1 (snd prepared) cs = Some (r1, cs1)"
      "settle (operation_kind_of (vt_operation ticket)) now (r1, cs1) = (r, cs')"
proof -
  let ?op = "vt_operation ticket"
  let ?kind = "operation_kind_of ?op"
  let ?commit = "if publishes ?op then commit_prepared P f view (fst prepared) h else (Ok (), fst prepared, h)"
  obtain r0 v0 h0 where c: "?commit = (r0, v0, h0)" using prod_cases3 by blast
  have pb: "(?kind = KindExport \<or> ?kind = KindVerify) = (\<not> publishes ?op)" by (auto simp: publishes_def)
  note f = assms [unfolded finish_operation_def Let_def pb if_not_P if_cancel]
  have c': "(if \<not> publishes ?op then (Ok (), fst prepared, h) else commit_prepared P f view (fst prepared) h) = (r0, v0, h0)"
    using c by (cases "publishes ?op") simp_all
  consider "cs_revision cs \<noteq> vt_revision ticket \<or> cs_session cs \<noteq> vt_session ticket \<or> (requires_unlocked ?op \<and> cs_locked cs)"
    | "\<not> (cs_revision cs \<noteq> vt_revision ticket \<or> cs_session cs \<noteq> vt_session ticket \<or> (requires_unlocked ?op \<and> cs_locked cs))"
      "requires_unlocked ?op \<and> auto_lock_due now cs"
    | "\<not> (cs_revision cs \<noteq> vt_revision ticket \<or> cs_session cs \<noteq> vt_session ticket \<or> (requires_unlocked ?op \<and> cs_locked cs))"
      "\<not> (requires_unlocked ?op \<and> auto_lock_due now cs)"
    by blast
  then show thesis
  proof cases
    case 1
    then show thesis using f by (intro stale) simp_all
  next
    case 2
    then show thesis using f by (intro expired) (simp_all add: lock_state_def)
  next
    case 3
    have rest: "(case (r0, v0, h0) of (Inl e, _, h') \<Rightarrow> Some (Err e, cs, h')
        | (Inr _, vault, h') \<Rightarrow> map_option (\<lambda>rc. case settle ?kind now rc of (r, cs') \<Rightarrow> (r, cs', h'))
            (publish ?kind draws vault (snd prepared) cs)) = Some (r, cs', h')"
      using f unfolding if_not_P [OF 3(1)] if_not_P [OF 3(2)] c' .
    show thesis
    proof (cases r0)
      case (Inl e)
      then show thesis using rest c by (intro refused) (auto split: if_splits)
    next
      case (Inr u)
      then obtain r1 cs1 where "publish ?kind draws v0 (snd prepared) cs = Some (r1, cs1)"
        "settle ?kind now (r1, cs1) = (r, cs')" "h' = h0"
        using rest Inr by (auto simp: case_prod_unfold prod_eq_iff)
      then show thesis using 3 c Inr by (intro published) (auto split: if_splits)
    qed
  qed
qed

lemma settle_state_inv: "settle kind now (r1, cs1) = (r, cs') \<Longrightarrow> state_inv cs' = state_inv cs1"
  by (auto simp: settle_def Let_def split: sum.splits if_splits)

lemma state_inv_lock_state: "state_inv cs \<Longrightarrow> state_inv (lock_state cs)"
  by (simp add: lock_state_def state_inv_lock)

lemma finish_inv:
  assumes inv: "state_inv cs" and p: "prepared_ok (ticket, prepared)"
    and f: "finish_operation P f view now draws ticket prepared cs h = Some (r, cs', h')"
  shows "state_inv cs'"
  using f
proof (cases rule: finish_operation_cases)
  case (published v1 r1 cs1)
  show ?thesis
  proof (cases "publishes (vt_operation ticket)")
    case True
    then have "v1 = fst prepared\<lparr>fv_preparation := None\<rparr>"
      using published(4) commit_prepared_vault by simp
    then have "state_inv cs1"
      using publish_inv [OF inv _ _ _ published(5)] published(3) p True
      by (auto simp: prepared_ok_def split: prod.splits)
    then show ?thesis using settle_state_inv [OF published(6)] by simp
  next
    case False
    then have "cs1 = cs" using published(5) by (auto simp: publishes_def publish_def)
    then show ?thesis using inv settle_state_inv [OF published(6)] by simp
  qed
qed (use inv state_inv_lock_state in simp_all)

definition sys_inv :: "vault_system \<Rightarrow> bool" where
  "sys_inv s \<longleftrightarrow> state_inv (sys_state s) \<and> (\<forall>tp\<in>set (sys_prepared s). prepared_ok tp)"

lemma sys_inv_state: "sys_inv s \<Longrightarrow> state_inv cs \<Longrightarrow> sys_inv (s\<lparr>sys_state := cs\<rparr>)"
  by (simp add: sys_inv_def)

lemma sys_step_inv:
  assumes "sys_step P s s'" and "sys_inv s"
  shows "sys_inv s'"
  using assms
proof (induction rule: sys_step.induct)
  case (begin_vault op s ticket)
  then show ?case by (simp add: sys_inv_def)
next
  case (prepare_vault ticket s en f view p)
  then show ?case using prepare_operation_ok by (simp add: sys_inv_def)
next
  case (finish_vault ticket p s f view now draws r cs h)
  then have "state_inv cs" using finish_inv [OF _ _ finish_vault(2)] unfolding sys_inv_def by blast
  then show ?case using finish_vault(3) by (auto simp: sys_inv_def dest: notin_set_remove1)
next
  case (lock s)
  then show ?case by (auto intro!: sys_inv_state state_inv_lock_state simp: sys_inv_def)
next
  case (open_handle now draws sid cls s r cs)
  then have inv: "state_inv (sys_state s)" by (simp add: sys_inv_def)
  from open_handle(1) have "state_inv cs"
    using inv state_inv_retain [OF inv, of now]
    by (auto simp: create_operation_handle_def Let_def state_inv_def retain_live_handles_def split: if_splits bind_splits)
  then show ?case by (rule sys_inv_state [OF open_handle(2)])
next
  case (use_handle now handle cls s r cs)
  then have inv: "state_inv (sys_state s)" by (simp add: sys_inv_def)
  from use_handle(1) have "state_inv cs"
    using inv state_inv_retain [OF inv, of now]
    by (auto simp: operation_wrapping_key_def Let_def split: if_splits option.splits)
  then show ?case by (rule sys_inv_state [OF use_handle(2)])
next
  case (revoke s handle)
  then show ?case
    by (auto intro!: sys_inv_state simp: sys_inv_def revoke_operation_handle_def state_inv_def)
next
  case (stage now draws secret s r cs)
  then have "state_inv cs"
    by (auto simp: stage_prompt_secret_def sys_inv_def Let_def intro!: state_inv_prompts
        split: if_splits bind_splits) (auto simp: state_inv_def)
  then show ?case by (rule sys_inv_state [OF stage(2)])
next
  case (consume now handle s r cs)
  then have "state_inv cs"
    by (auto simp: consume_prompt_secret_def sys_inv_def Let_def intro!: state_inv_prompts
        split: if_splits option.splits) (auto simp: state_inv_def)
  then show ?case by (rule sys_inv_state [OF consume(2)])
next
  case (activity now s b cs)
  then have "state_inv cs" by (auto simp: record_activity_def sys_inv_def state_inv_lock split: if_splits)
  then show ?case by (rule sys_inv_state [OF activity(2)])
next
  case (supervisor now wake s b cs)
  then have "state_inv cs"
    by (auto simp: supervisor_step_def lock_if_auto_lock_due_def sys_inv_def state_inv_lock
        split: if_splits supervisor_wake.splits)
  then show ?case by (rule sys_inv_state [OF supervisor(2)])
qed (auto simp: sys_inv_def set_features_def set_auto_lock_timeout_def)

lemma sys_reachable_inv: "sys_reachable P s \<Longrightarrow> sys_inv s"
proof (induction rule: sys_reachable.induct)
  case (start now d)
  then show ?case by (simp add: sys_inv_def sys_start_def state_inv_new)
qed (rule sys_step_inv)

lemma reachable_state_inv: "sys_reachable P s \<Longrightarrow> state_inv (sys_state s)"
  using sys_reachable_inv by (auto simp: sys_inv_def)

section \<open>Properties\<close>

text \<open>A step that locks the state also drops the passphrases entered for single operations.\<close>

lemma locking_drops_prompts:
  assumes "sys_step P s s'" and "state_inv (sys_state s)" and "\<not> cs_locked (sys_state s)" and "cs_locked (sys_state s')"
  shows "cs_prompts (sys_state s') = []"
  using assms
proof (induction rule: sys_step.induct)
  case (finish_vault ticket p s f view now draws r cs h)
  from finish_vault(2) show ?case
  proof (cases rule: finish_operation_cases)
    case expired
    then show ?thesis by (simp add: state_defs)
  next
    case (published v1 r1 cs1)
    have "cs_locked cs = cs_locked cs1"
      using published(6) by (auto simp: settle_def Let_def state_defs split: sum.splits if_splits)
    moreover have "\<not> cs_locked cs1"
      using published(5) finish_vault(4) by (cases "vt_operation ticket")
        (auto simp: publish_def Let_def split: bind_splits sum.splits)
    ultimately show ?thesis using finish_vault(5) by simp
  qed (use finish_vault(4,5) in simp_all)
next
  case (open_handle now draws sid cls s r cs)
  then show ?case by (auto simp: create_operation_handle_def Let_def state_defs split: if_splits bind_splits)
next
  case (use_handle now handle cls s r cs)
  then show ?case by (auto simp: operation_wrapping_key_def Let_def state_defs split: if_splits option.splits)
next
  case (stage now draws secret s r cs)
  then show ?case by (auto simp: stage_prompt_secret_def Let_def split: if_splits bind_splits)
next
  case (consume now handle s r cs)
  then show ?case by (auto simp: consume_prompt_secret_def Let_def split: if_splits option.splits)
next
  case (supervisor now wake s b cs)
  then show ?case by (auto simp: state_defs split: if_splits supervisor_wake.splits)
qed (auto simp: state_defs split: if_splits)

text \<open>C10: in every reachable state, whatever operations ran in whatever order, a locked state holds no
  session, no wrapping key of one, no capability and no key or profile of the vault, and answers none; a
  step that locks leaves no entered passphrase either. An unlocked state answers its current session with
  the key of that session.\<close>

theorem locked_state_answers_no_key:
  assumes "sys_reachable P s" and "cs = sys_state s"
  shows "(cs_locked cs \<longrightarrow>
      cs_session cs = None \<and> cs_sessions cs = [] \<and> cs_handles cs = [] \<and> \<not> fv_unlocked (cs_vault cs) \<and>
      fv_vault_key (cs_vault cs) = None \<and> fv_unlock_key (cs_vault cs) = None \<and> fv_profiles (cs_vault cs) = [] \<and>
      (\<forall>sid. get_wrapping_key sid cs = Err vault_locked \<and> validate_session sid cs = Err vault_locked) \<and>
      (\<forall>now handle class. fst (operation_wrapping_key now handle class cs) = Err vault_locked \<and>
         validate_operation now handle class cs = Err vault_locked)) \<and>
    (\<not> cs_locked cs \<longrightarrow>
      (\<exists>sid key. current_credential cs = Ok (sid, key) \<and> validate_session sid cs = Ok () \<and>
         get_wrapping_key sid cs = Ok key \<and> cs_session cs = Some sid \<and> bt_get (cs_sessions cs) sid = Some key)) \<and>
    (\<forall>s'. sys_step P s s' \<and> \<not> cs_locked cs \<and> cs_locked (sys_state s') \<longrightarrow> cs_prompts (sys_state s') = [])"
proof -
  have inv: "state_inv cs" using reachable_state_inv [OF assms(1)] assms(2) by simp
  have p: "\<forall>s'. sys_step P s s' \<and> \<not> cs_locked cs \<and> cs_locked (sys_state s') \<longrightarrow> cs_prompts (sys_state s') = []"
    using locking_drops_prompts inv assms(2) by blast
  show ?thesis
  proof (cases "cs_locked cs")
    case True
    then show ?thesis
      using inv by (simp add: state_inv_def get_wrapping_key_def validate_session_def
          operation_wrapping_key_def validate_operation_def)
  next
    case False
    then obtain sid key where "cs_session cs = Some sid" "bt_get (cs_sessions cs) sid = Some key"
      using inv by (auto simp: state_inv_def bt_contains_def)
    then show ?thesis using False p
      by (auto simp: current_credential_def validate_session_def get_wrapping_key_def bt_contains_def)
  qed
qed

text \<open>Every step moves the revision by at most one, so fewer than \<open>2 ^ 64\<close> of them are told apart.\<close>

lemma publish_revision:
  "publish kind draws v value cs = Some (r, cs') \<Longrightarrow> cs_revision cs' \<in> {cs_revision cs, cs_revision cs + 1}"
  by (cases kind) (auto simp: publish_def Let_def split: bind_splits sum.splits)

lemma settle_revision: "settle kind now (r1, cs1) = (r, cs') \<Longrightarrow> cs_revision cs' = cs_revision cs1"
  by (auto simp: settle_def Let_def signal_auto_lock_change_def invalidate_search_def split: sum.splits if_splits)

lemma step_revision:
  assumes "sys_step P s s'"
  shows "cs_revision (sys_state s') \<in> {cs_revision (sys_state s), cs_revision (sys_state s) + 1}"
  using assms
proof (induction rule: sys_step.induct)
  case (finish_vault ticket p s f view now draws r cs h)
  from finish_vault(2) show ?case
  proof (cases rule: finish_operation_cases)
    case (published v1 r1 cs1)
    then show ?thesis using publish_revision settle_revision [OF published(6)] by fastforce
  qed (simp_all add: state_defs)
qed (auto simp: state_defs create_operation_handle_def operation_wrapping_key_def stage_prompt_secret_def
    consume_prompt_secret_def Let_def split: if_splits option.splits supervisor_wake.splits bind_splits)

lemma run_revision: "sys_run P s n s' \<Longrightarrow> cs_revision (sys_state s') = cs_revision (sys_state s) + of_nat n"
proof (induction rule: sys_run.induct)
  case (step s n s' s'')
  then show ?case using step_revision [OF step(2)] by auto
qed simp

text \<open>C11: a vault operation whose ticket went stale publishes nothing: if anything that moves the
  revision (a lock, another publication, a change of the feature flags) happened since it began, it is
  refused and neither the state nor the disk changes.\<close>

theorem stale_operation_refused:
  assumes "begin_operation op (sys_state s) = Ok ticket" and "sys_run P s n s'"
    and "0 < n" and "n < 2 ^ 64"
  shows "finish_operation P f view now draws ticket prepared (sys_state s') h =
    Some (Err (vault_changed ''Vault state changed during preparation''), sys_state s', h)"
proof -
  have "vt_revision ticket = cs_revision (sys_state s)"
    using assms(1) by (auto simp: begin_operation_def split: if_splits)
  moreover have "(of_nat n :: u64) \<noteq> 0"
    using assms(3,4) by (simp add: word_of_nat_eq_0_iff nat_dvd_not_less)
  ultimately show ?thesis using run_revision [OF assms(2)] by (simp add: finish_operation_def)
qed

theorem stale_operation_refused_witness:
  "\<exists>ticket. begin_operation (OpCreate [1]) (sys_state (sys_start 0 empty_disk)) = Ok ticket \<and>
     finish_operation demo_prims (demo_faults None) (\<lambda>_. Ok empty_disk) 1 (\<lambda>_. 7) ticket (FileVault_new, VUnit)
       (lock_state (sys_state (sys_start 0 empty_disk))) [empty_disk] =
     Some (Err (vault_changed ''Vault state changed during preparation''),
       lock_state (sys_state (sys_start 0 empty_disk)), [empty_disk])"
proof -
  let ?s = "sys_start 0 empty_disk"
  let ?s' = "?s\<lparr>sys_state := lock_state (sys_state ?s)\<rparr>"
  obtain ticket where t: "begin_operation (OpCreate [1]) (sys_state ?s) = Ok ticket"
    by (simp add: begin_operation_def sys_start_def CryptoState_new_def preparation_snapshot_def FileVault_new_def)
  have "cs_revision (sys_state ?s') \<noteq> cs_revision (sys_state ?s)"
    by (simp add: lock_state_def lock_inner_def signal_auto_lock_change_def invalidate_search_def)
  then have "sys_run demo_prims ?s 1 ?s'"
    using sys_run.step [OF sys_run.refl sys_step.lock, of demo_prims ?s] by simp
  from stale_operation_refused [OF t this, of "demo_faults None" "\<lambda>_. Ok empty_disk" 1 "\<lambda>_. 7" "(FileVault_new, VUnit)" "[empty_disk]"] t
  show ?thesis by simp
qed

text \<open>checking a capability in flight and resolving it agree: \<open>validate_operation\<close> accepts a handle
  exactly when \<open>operation_wrapping_key\<close> hands out a key for it, and then that is the key of the current
  session.\<close>

theorem capability_check_agrees:
  assumes "sys_reachable P s" and "cs = sys_state s"
  shows "(validate_operation now handle class cs = Ok () \<longleftrightarrow>
      (\<exists>key. fst (operation_wrapping_key now handle class cs) = Ok key)) \<and>
    (\<forall>key. fst (operation_wrapping_key now handle class cs) = Ok key \<longrightarrow> get_current_wrapping_key cs = Ok key)"
proof -
  have ok: "bt_ok (cs_handles cs)" using reachable_state_inv [OF assms(1)] assms(2) by (simp add: state_inv_def)
  then show ?thesis
    by (cases "bt_get (cs_handles cs) handle")
      (auto simp: validate_operation_def operation_wrapping_key_def retain_live_handles_def Let_def
        bt_get_retain bt_contains_def get_current_wrapping_key_def current_credential_def split: option.splits)
qed

lemma create_prepared:
  assumes pr: "fv_preparation v = Some pr" and c: "create_vault P en f view pw v h = (Ok (), v', h')"
  obtains uk payload bs where "derive_writer_key P pw (en_salt en) = Ok uk"
    "v' = v\<lparr>fv_created_at := en_now en, fv_vault_key := Some (en_key en), fv_profiles := [],
      fv_unlock_key := Some uk, fv_vault_salt := Some (en_salt en), fv_unlocked := True,
      fv_preparation := Some (pr\<lparr>pr_pending := Some bs\<rparr>)\<rparr>"
    "serialize_payload v' = Ok payload"
    "encrypt_payload_with_key P (en_nonce en) payload uk (en_salt en) = Ok bs"
  using c pr by (auto simp: create_vault_def persist_unlocked_def atomic_write_def Let_def serialize_payload_def
      split: if_splits sum.splits prod.splits)

lemma capture_keeps:
  "capture_preparation_files P view access v = (Ok (), v') \<Longrightarrow> \<exists>pr cap. fv_preparation v = Some pr \<and>
     v' = v\<lparr>fv_preparation := Some (pr\<lparr>pr_capture := Some cap\<rparr>)\<rparr>"
  by (auto simp: capture_preparation_files_def Let_def split: sum.splits option.splits if_splits)

text \<open>C12: creating a vault through the shared state is durable: once the operation is published, its
  session answers with the vault key and the file on disk opens under the passphrase to that same
  key.\<close>

theorem published_vault_reopens:
  assumes P: "prims_ok P" and en: "entropy_ok en" and f: "faithful_files f'" and pw: "length pw < 2 ^ 32"
    and b: "begin_operation (OpCreate pw) cs = Ok ticket"
    and p: "prepare_operation P en f view ticket = Ok prepared"
    and fin: "finish_operation P f' view' now draws ticket prepared cs' [d] = Some (Ok value, cs2, h')"
    and after: "\<forall>k. view2 k = Ok (hd h')"
  shows "\<exists>sid v. value = VSession sid \<and> get_wrapping_key sid cs2 = Ok (en_key en) \<and>
    unlock_vault P view2 pw FileVault_new = (Ok (), v) \<and> wrapping_key v = Ok (en_key en)"
proof -
  obtain snap where t: "vt_operation ticket = OpCreate pw"
    "vt_snapshot ticket = snap" "\<exists>pr. fv_preparation snap = Some pr \<and> \<not> pr_archive pr"
    using b by (auto simp: begin_operation_def preparation_snapshot_def split: if_splits)
  obtain w where w: "capture_preparation_files P view CaptureCreate snap = (Ok (), w)"
    "prepare P en f w (OpCreate pw) = Ok prepared"
    using p t by (auto simp: prepare_operation_def split: prod.splits sum.splits)
  obtain pr where pr: "fv_preparation w = Some pr" "\<not> pr_archive pr"
    using capture_keeps [OF w(1)] t(3) by auto
  obtain v1 h1 where cr: "create_vault P en f no_disk pw w [] = (Ok (), v1, h1)" "prepared = (v1, VUnit)"
  proof -
    obtain r v1 h1 where "create_vault P en f no_disk pw w [] = (r, v1, h1)" using prod_cases3 by blast
    then show thesis using w(2) that by (auto simp: prepare_def)
  qed
  obtain uk payload bs where v1: "derive_writer_key P pw (en_salt en) = Ok uk"
    "v1 = w\<lparr>fv_created_at := en_now en, fv_vault_key := Some (en_key en), fv_profiles := [],
      fv_unlock_key := Some uk, fv_vault_salt := Some (en_salt en), fv_unlocked := True,
      fv_preparation := Some (pr\<lparr>pr_pending := Some bs\<rparr>)\<rparr>"
    "serialize_payload v1 = Ok payload"
    "encrypt_payload_with_key P (en_nonce en) payload uk (en_salt en) = Ok bs"
    using create_prepared [OF pr(1) cr(1)] by blast
  have m: "material_ok v1" "fv_vault_key v1 = Some (en_key en)"
    using en v1(2) by (simp_all add: material_ok_def profiles_ok_def entropy_ok_def)
  from fin obtain v2 r1 cs1 where c: "commit_prepared P f' view' v1 [d] = (Ok (), v2, h')"
    and pub: "publish KindCreate draws v2 VUnit cs' = Some (r1, cs1)" "settle KindCreate now (r1, cs1) = (Ok value, cs2)"
    using t(1) cr(2) by (cases rule: finish_operation_cases) (auto simp: publishes_def)
  have v2: "v2 = v1\<lparr>fv_preparation := None\<rparr>" using commit_prepared_vault [OF c] .
  have "disk_atomic_write f' bs [d] = (Ok (), h')"
    using c v1(2) pr(2) by (auto simp: commit_prepared_def atomic_write_def Let_def
        split: option.splits sum.splits if_splits prod.splits)
  then have "readable (hd h') = Some (ff_new_file f' bs)"
    using disk_atomic_write_safe [of "readable d" f' bs "[d]" "Ok ()" h'] by (simp add: safe_history_def)
  then have sees: "sees view2 bs" using written_sees [OF f] after by blast
  have "unlock_vault P view2 pw FileVault_new = (Ok (), FileVault_new\<lparr>fv_created_at := fv_created_at v1,
      fv_vault_key := Some (en_key en), fv_profiles := fv_profiles v1, fv_unlock_key := Some uk,
      fv_vault_salt := Some (en_salt en), fv_unlocked := True\<rparr>)"
    using unlock_written [OF P _ _ m pw v1(1), of "en_nonce en"] en v1(3,4) sees
    by (auto simp: FileVault_new_def entropy_ok_def)
  moreover have "\<exists>sid. value = VSession sid \<and> get_wrapping_key sid cs2 = Ok (en_key en)"
    using pub v2 v1(2) by (auto simp: publish_def settle_def Let_def wrapping_key_def get_wrapping_key_def
        signal_auto_lock_change_def invalidate_search_def split: bind_splits)
  ultimately show ?thesis by (auto simp: wrapping_key_def)
qed

definition demo_capture :: file_capture where
  "demo_capture = \<lparr>fc_primary = None, fc_backup = None, fc_bytes = None, fc_access = CaptureCreate\<rparr>"

lemma demo_handle: "new_unique_handle [] (\<lambda>_. 7) i = Some 7"
  by (subst new_unique_handle.simps) (simp add: bt_contains_def Let_def)

lemma demo_publication:
  "\<exists>ticket prepared cs2 h'. begin_operation (OpCreate (replicate 8 65)) (CryptoState_new FileVault_new 0) = Ok ticket \<and>
     prepare_operation demo_prims demo_entropy (demo_faults None) (\<lambda>_. Ok empty_disk) ticket = Ok prepared \<and>
     finish_operation demo_prims (demo_faults None) (\<lambda>_. Ok empty_disk) 5 (\<lambda>_. 7) ticket prepared
       (CryptoState_new FileVault_new 0) [empty_disk] = Some (Ok (VSession 7), cs2, h')"
proof -
  let ?cs = "CryptoState_new FileVault_new 0"
  let ?snap = "FileVault_new\<lparr>fv_preparation := Some \<lparr>pr_capture = None, pr_pending = None, pr_archive = False\<rparr>\<rparr>"
  let ?w = "FileVault_new\<lparr>fv_preparation := Some \<lparr>pr_capture = Some demo_capture, pr_pending = None, pr_archive = False\<rparr>\<rparr>"
  let ?pw = "replicate 8 (65 :: u8)"
  let ?ticket = "\<lparr>vt_operation = OpCreate ?pw, vt_revision = 0, vt_session = None, vt_snapshot = ?snap\<rparr>"
  have b: "begin_operation (OpCreate ?pw) ?cs = Ok ?ticket"
    by (simp add: begin_operation_def preparation_snapshot_def CryptoState_new_def FileVault_new_def)
  have l: "length (en_salt demo_entropy) = 16" "length (en_nonce demo_entropy) = 24" by (simp_all add: demo_entropy_def)
  obtain uk where d: "derive_writer_key demo_prims ?pw (en_salt demo_entropy) = Ok uk"
    using derive_writer_key_Ok [OF demo_prims_ok l(1), of ?pw] by auto
  let ?v2 = "?w\<lparr>fv_created_at := en_now demo_entropy, fv_vault_key := Some (en_key demo_entropy), fv_profiles := [],
      fv_unlock_key := Some uk, fv_vault_salt := Some (en_salt demo_entropy), fv_unlocked := True\<rparr>"
  have m: "material_ok ?v2" by (simp add: material_ok_def profiles_ok_def demo_entropy_def)
  obtain payload bs where pl: "serialize_payload ?v2 = Ok payload"
    "encrypt_payload_with_key demo_prims (en_nonce demo_entropy) payload uk (en_salt demo_entropy) = Ok bs"
    using unlock_written [OF demo_prims_ok l(2,1) m _ _ d] by auto
  let ?v3 = "?v2\<lparr>fv_preparation := Some \<lparr>pr_capture = Some demo_capture, pr_pending = Some bs, pr_archive = False\<rparr>\<rparr>"
  have cap: "capture_preparation_files demo_prims (\<lambda>_. Ok empty_disk) CaptureCreate ?snap = (Ok (), ?w)"
    by (simp add: capture_preparation_files_def file_identity_at_def fingerprint_def empty_disk_def demo_capture_def
        FileVault_new_def Let_def)
  have "persist_unlocked demo_prims demo_entropy (demo_faults None) ?v2 [] = (Ok (), ?v3, [])"
    using pl by (simp add: persist_unlocked_def atomic_write_def)
  then have "create_vault demo_prims demo_entropy (demo_faults None) no_disk ?pw ?w [] = (Ok (), ?v3, [])"
    using d by (simp add: create_vault_def vault_exists_def demo_capture_def FileVault_new_def)
  then have p: "prepare_operation demo_prims demo_entropy (demo_faults None) (\<lambda>_. Ok empty_disk) ?ticket = Ok (?v3, VUnit)"
    using cap by (simp add: prepare_operation_def prepare_def)
  obtain h' where "atomic_write (demo_faults None) bs (?v3\<lparr>fv_preparation := None\<rparr>) [empty_disk]
      = (Ok (), ?v3\<lparr>fv_preparation := None\<rparr>, h')"
    using atomic_write_no_faults [of "?v3\<lparr>fv_preparation := None\<rparr>" bs empty_disk] by auto
  then have "commit_prepared demo_prims (demo_faults None) (\<lambda>_. Ok empty_disk) ?v3 [empty_disk]
      = (Ok (), ?v3\<lparr>fv_preparation := None\<rparr>, h')"
    by (simp add: commit_prepared_def demo_capture_def matches_fingerprint_def file_identity_at_def fingerprint_def
        empty_disk_def FileVault_new_def)
  then have "\<exists>cs2. finish_operation demo_prims (demo_faults None) (\<lambda>_. Ok empty_disk) 5 (\<lambda>_. 7) ?ticket (?v3, VUnit)
      ?cs [empty_disk] = Some (Ok (VSession 7), cs2, h')"
    by (simp add: finish_operation_def publish_def settle_def demo_handle wrapping_key_def CryptoState_new_def
        FileVault_new_def)
  with b p show ?thesis by blast
qed

theorem published_vault_reopens_witness:
  "\<exists>ticket prepared cs2 h' v.
     finish_operation demo_prims (demo_faults None) (\<lambda>_. Ok empty_disk) 5 (\<lambda>_. 7) ticket prepared
       (CryptoState_new FileVault_new 0) [empty_disk] = Some (Ok (VSession 7), cs2, h') \<and>
     get_wrapping_key 7 cs2 = Ok (replicate 32 5) \<and>
     unlock_vault demo_prims (\<lambda>_. Ok (hd h')) (replicate 8 65) FileVault_new = (Ok (), v) \<and>
     wrapping_key v = Ok (replicate 32 5)"
proof -
  obtain ticket prepared cs2 h' where d:
    "begin_operation (OpCreate (replicate 8 65)) (CryptoState_new FileVault_new 0) = Ok ticket"
    "prepare_operation demo_prims demo_entropy (demo_faults None) (\<lambda>_. Ok empty_disk) ticket = Ok prepared"
    "finish_operation demo_prims (demo_faults None) (\<lambda>_. Ok empty_disk) 5 (\<lambda>_. 7) ticket prepared
       (CryptoState_new FileVault_new 0) [empty_disk] = Some (Ok (VSession 7), cs2, h')"
    using demo_publication by blast
  have k: "en_key demo_entropy = replicate 32 5" by (simp add: demo_entropy_def)
  from published_vault_reopens [OF demo_prims_ok demo_entropy_ok demo_faithful _ d, of "\<lambda>_. Ok (hd h')"] k
  obtain v where "get_wrapping_key 7 cs2 = Ok (replicate 32 5)"
    "unlock_vault demo_prims (\<lambda>_. Ok (hd h')) (replicate 8 65) FileVault_new = (Ok (), v)"
    "wrapping_key v = Ok (replicate 32 5)" by auto
  with d(3) show ?thesis by blast
qed

text \<open>A vault is created: the state is unlocked.\<close>

lemma demo_unlocked_reachable: "\<exists>s. sys_reachable demo_prims s \<and> \<not> cs_locked (sys_state s)"
proof -
  obtain ticket prepared cs2 h' where d:
    "begin_operation (OpCreate (replicate 8 65)) (CryptoState_new FileVault_new 0) = Ok ticket"
    "prepare_operation demo_prims demo_entropy (demo_faults None) (\<lambda>_. Ok empty_disk) ticket = Ok prepared"
    "finish_operation demo_prims (demo_faults None) (\<lambda>_. Ok empty_disk) 5 (\<lambda>_. 7) ticket prepared
       (CryptoState_new FileVault_new 0) [empty_disk] = Some (Ok (VSession 7), cs2, h')"
    using demo_publication by blast
  let ?s0 = "sys_start 0 empty_disk"
  let ?s1 = "?s0\<lparr>sys_tickets := [ticket]\<rparr>"
  let ?s2 = "?s1\<lparr>sys_prepared := [(ticket, prepared)]\<rparr>"
  let ?s3 = "?s2\<lparr>sys_state := cs2, sys_disk := h', sys_prepared := []\<rparr>"
  have f: "sys_state ?s0 = CryptoState_new FileVault_new 0" "sys_disk ?s0 = [empty_disk]" "sys_tickets ?s0 = []"
    "sys_prepared ?s0 = []" by (simp_all add: sys_start_def)
  have "sys_reachable demo_prims ?s0" by (rule sys_reachable.start)
  then have "sys_reachable demo_prims ?s1"
    by (rule sys_reachable.step) (use sys_step.begin_vault [of _ ?s0] d(1) f in simp)
  then have "sys_reachable demo_prims ?s2"
    by (rule sys_reachable.step) (use sys_step.prepare_vault [of _ ?s1] d(2) f in simp)
  then have "sys_reachable demo_prims ?s3"
    by (rule sys_reachable.step) (use sys_step.finish_vault [of _ _ ?s2] d(3) f in simp)
  moreover have "\<not> cs_locked cs2"
    using d(3)
  proof (cases rule: finish_operation_cases)
    case (published v1 r1 cs1)
    have "vt_operation ticket = OpCreate (replicate 8 65)"
      using d(1) by (auto simp: begin_operation_def preparation_snapshot_def split: if_splits)
    moreover have "\<exists>x. r1 = Ok x" using published(6) by (auto simp: settle_def Let_def split: sum.splits if_splits)
    ultimately have "\<not> cs_locked cs1"
      using published(5) by (auto simp: publish_def Let_def split: bind_splits sum.splits)
    then show ?thesis using published(6) by (auto simp: settle_def Let_def state_defs split: sum.splits if_splits)
  qed simp_all
  ultimately show ?thesis by force
qed

theorem locked_state_answers_no_key_witness:
  "\<exists>s. sys_reachable demo_prims s \<and> \<not> cs_locked (sys_state s) \<and> cs_locked (lock_state (sys_state s)) \<and>
     cs_sessions (lock_state (sys_state s)) = [] \<and>
     fst (operation_wrapping_key 3 9 Upload (lock_state (sys_state s))) = Err vault_locked"
proof -
  obtain s where s: "sys_reachable demo_prims s" "\<not> cs_locked (sys_state s)" using demo_unlocked_reachable by blast
  let ?s = "s\<lparr>sys_state := lock_state (sys_state s)\<rparr>"
  have r: "sys_reachable demo_prims ?s" by (rule sys_reachable.step [OF s(1) sys_step.lock])
  have l: "cs_locked (lock_state (sys_state s))" by (simp add: state_defs)
  from locked_state_answers_no_key [OF r HOL.refl] l show ?thesis using s by (intro exI [of _ s]) simp
qed

theorem capability_check_agrees_witness:
  "validate_operation 3 9 Upload (CryptoState_new FileVault_new 0) = Ok () \<longleftrightarrow>
     (\<exists>key. fst (operation_wrapping_key 3 9 Upload (CryptoState_new FileVault_new 0)) = Ok key)"
proof -
  have r: "sys_reachable demo_prims (sys_start 0 empty_disk)" by (rule sys_reachable.start)
  have c: "sys_state (sys_start 0 empty_disk) = CryptoState_new FileVault_new 0" by (simp add: sys_start_def)
  from capability_check_agrees [OF r c [symmetric]] show ?thesis by blast
qed

text \<open>C13: a failed vault operation leaves nothing behind: when \<open>finish_operation\<close> reports an error, the
  state is as before or locked by the overdue auto-lock, and the disk reads as before.\<close>

theorem failed_operation_leaves_nothing:
  assumes "sys_reachable P s" and "(ticket, prepared) \<in> set (sys_prepared s)"
    and "finish_operation P f view now draws ticket prepared (sys_state s) [d] = Some (Err e, cs', h')"
  shows "(cs' = sys_state s \<or>
      cs' = lock_state (sys_state s) \<and> auto_lock_due now (sys_state s) \<and> e = vault_locked) \<and>
    readable (hd h') = readable d"
  using assms(3)
proof (cases rule: finish_operation_cases)
  case (refused e1 v1)
  have u: "untouched (readable d) new [d]" for new by (simp add: untouched_def safe_history_def)
  have w: "readable (hd h2) = readable d" if "untouched (readable d) (ff_new_file f bs) h1" "disk_atomic_write f bs h1 = (Err e2, h2)"
    for bs e2 h1 h2
    using disk_atomic_write_safe [of "readable d" f bs h1 "Err e2" h2] that by (simp add: untouched_def)
  have a: "case archive_before_replacement_disk f [d] of (Inl e, h') \<Rightarrow> untouched (readable d) new h'
      | (Inr _, h') \<Rightarrow> untouched (readable d) new h'" for new
    using archive_triple [of "readable d" new f, unfolded triple_def, rule_format, OF u] .
  obtain r2 h2 where a2: "archive_before_replacement_disk f [d] = (r2, h2)" by fastforce
  have u2: "untouched (readable d) new h2" for new using a [of new] a2 by (cases r2) simp_all
  have "readable (hd h') = readable d"
    using refused(2) a2 u2 [of "demo_file []", unfolded untouched_def]
    by (auto simp: commit_prepared_def archive_before_replacement_def atomic_write_def Let_def
        split: option.splits sum.splits if_splits prod.splits dest: w [OF u] w [OF u2])
  then show ?thesis using refused by simp
next
  case (published v1 r1 cs1)
  have inv: "state_inv (sys_state s)" "prepared_ok (ticket, prepared)"
    using sys_reachable_inv [OF assms(1)] assms(2) by (auto simp: sys_inv_def)
  have "\<exists>x. r1 = Ok x"
  proof (cases "publishes (vt_operation ticket)")
    case True
    then have "v1 = fst prepared\<lparr>fv_preparation := None\<rparr>" using published(4) commit_prepared_vault by simp
    then show ?thesis
      using publish_inv [OF inv(1) _ _ _ published(5)] published(3) inv(2) True
      by (auto simp: prepared_ok_def split: prod.splits)
  next
    case False
    then show ?thesis using published(5) by (auto simp: publishes_def publish_def)
  qed
  then show ?thesis using published(6) by (auto simp: settle_def Let_def)
qed simp_all

lemma demo_run:
  "\<exists>s ticket prepared. sys_reachable demo_prims s \<and> (ticket, prepared) \<in> set (sys_prepared s) \<and>
     vt_revision ticket = 0 \<and> sys_state s = lock_state (CryptoState_new FileVault_new 0)"
proof -
  let ?s0 = "sys_start 0 empty_disk"
  obtain ticket prepared where d: "begin_operation (OpCreate (replicate 8 65)) (CryptoState_new FileVault_new 0) = Ok ticket"
    "prepare_operation demo_prims demo_entropy (demo_faults None) (\<lambda>_. Ok empty_disk) ticket = Ok prepared"
    using demo_publication by blast
  have s0: "sys_state ?s0 = CryptoState_new FileVault_new 0" by (simp add: sys_start_def)
  let ?s1 = "?s0\<lparr>sys_tickets := ticket # sys_tickets ?s0\<rparr>"
  let ?s2 = "?s1\<lparr>sys_prepared := (ticket, prepared) # sys_prepared ?s1\<rparr>"
  let ?s3 = "?s2\<lparr>sys_state := lock_state (sys_state ?s2)\<rparr>"
  have "sys_reachable demo_prims ?s1"
    using sys_reachable.step [OF sys_reachable.start sys_step.begin_vault [OF d(1) [folded s0]]] .
  then have "sys_reachable demo_prims ?s2"
    using sys_reachable.step [OF _ sys_step.prepare_vault [OF _ d(2)], of ?s1] by simp
  then have "sys_reachable demo_prims ?s3" by (rule sys_reachable.step [OF _ sys_step.lock])
  moreover have "vt_revision ticket = 0"
    using d(1) by (auto simp: begin_operation_def CryptoState_new_def preparation_snapshot_def FileVault_new_def)
  ultimately show ?thesis by (intro exI [where x = ?s3] exI [where x = ticket] exI [where x = prepared]) (simp add: s0)
qed

theorem failed_operation_leaves_nothing_witness:
  "\<exists>s ticket prepared e cs' h'. sys_reachable demo_prims s \<and>
     finish_operation demo_prims (demo_faults None) (\<lambda>_. Ok empty_disk) 5 (\<lambda>_. 7) ticket prepared
       (sys_state s) [demo_disk] = Some (Err e, cs', h') \<and>
     readable (hd h') = Some (demo_file [1, 2])"
proof -
  obtain s ticket prepared where r: "sys_reachable demo_prims s" "(ticket, prepared) \<in> set (sys_prepared s)"
    "vt_revision ticket = 0" "sys_state s = lock_state (CryptoState_new FileVault_new 0)"
    using demo_run by blast
  have f: "finish_operation demo_prims (demo_faults None) (\<lambda>_. Ok empty_disk) 5 (\<lambda>_. 7) ticket prepared
       (sys_state s) [demo_disk] = Some (Err (vault_changed ''Vault state changed during preparation''), sys_state s, [demo_disk])"
    using r(3,4) by (simp add: finish_operation_def lock_state_def lock_inner_def signal_auto_lock_change_def
        invalidate_search_def CryptoState_new_def)
  have "readable demo_disk = Some (demo_file [1, 2])" by (simp add: demo_disk_def readable_def)
  with failed_operation_leaves_nothing [OF r(1,2) f] have "readable (hd [demo_disk]) = Some (demo_file [1, 2])"
    by metis
  with f r(1) show ?thesis by blast
qed

text \<open>a staged passphrase is handed out once and only within five minutes: its handle yields it at
  the first request in time, and nothing at any later one.\<close>

theorem prompt_secret_used_once:
  assumes "sys_reachable P s" and "stage_prompt_secret t0 draws secret (sys_state s) = Some (Ok handle, cs1)"
  shows "\<exists>cs2. consume_prompt_secret t1 handle cs1 =
      (if t1 - t0 \<le> 300000000000 then Ok secret else Err prompt_expired, cs2) \<and>
    (\<forall>t2. consume_prompt_secret t2 handle cs2 = (Err prompt_expired, cs2))"
  using assms(2)
  by (auto simp: stage_prompt_secret_def consume_prompt_secret_def Let_def PROMPT_SECRET_TTL_def seconds_def
      split: if_splits bind_splits)

theorem prompt_secret_used_once_witness:
  "\<exists>cs1 cs2. stage_prompt_secret 10 (\<lambda>_. 7) (replicate 8 1) (CryptoState_new FileVault_new 0) = Some (Ok 7, cs1) \<and>
     consume_prompt_secret 20 7 cs1 = (Ok (replicate 8 1), cs2) \<and>
     consume_prompt_secret 30 7 cs2 = (Err prompt_expired, cs2)"
proof -
  have r: "sys_reachable demo_prims (sys_start 0 empty_disk)" by (rule sys_reachable.start)
  obtain cs1 where st: "stage_prompt_secret 10 (\<lambda>_. 7) (replicate 8 1) (sys_state (sys_start 0 empty_disk)) = Some (Ok 7, cs1)"
    by (simp add: stage_prompt_secret_def sys_start_def CryptoState_new_def demo_handle bt_retain_def)
  have c: "sys_state (sys_start 0 empty_disk) = CryptoState_new FileVault_new 0" by (simp add: sys_start_def)
  from prompt_secret_used_once [OF r st, of 20] st c show ?thesis by auto
qed

text \<open>the auto-lock acts exactly at its deadline: for an unlocked state the supervisor's check and a
  recorded activity lock when, and only when, the announced deadline has come, and without a deadline
  never.\<close>

theorem auto_lock_at_deadline:
  assumes "\<not> cs_locked cs" and "cs_last_activity cs \<le> now"
  shows "fst (lock_if_auto_lock_due now cs) = (\<exists>t. next_auto_lock_deadline cs = Some t \<and> t \<le> now) \<and>
    fst (record_activity now cs) = fst (lock_if_auto_lock_due now cs) \<and>
    cs_locked (snd (lock_if_auto_lock_due now cs)) = fst (lock_if_auto_lock_due now cs) \<and>
    cs_locked (snd (record_activity now cs)) = fst (record_activity now cs)"
  using assms
  by (auto simp: state_defs next_auto_lock_deadline_def auto_lock_due_def split: option.splits)

definition demo_open :: crypto_state where
  "demo_open = (CryptoState_new FileVault_new 0)\<lparr>cs_locked := False, cs_session := Some 7,
     cs_sessions := [(7, replicate 32 5)],
     cs_handles := [(9, \<lparr>oi_session = 7, oi_created_at = 0, oi_class = MediaStream\<rparr>)]\<rparr>"

theorem auto_lock_at_deadline_witness:
  "fst (lock_if_auto_lock_due (seconds 899) demo_open) = False \<and>
   fst (lock_if_auto_lock_due (seconds 900) demo_open) = True"
proof -
  have d: "\<not> cs_locked demo_open" "cs_last_activity demo_open = 0" "next_auto_lock_deadline demo_open = Some (seconds 900)"
    by (simp_all add: demo_open_def next_auto_lock_deadline_def CryptoState_new_def)
  show ?thesis
    using auto_lock_at_deadline [OF d(1), of "seconds 899"] auto_lock_at_deadline [OF d(1), of "seconds 900"] d
    by (simp add: seconds_def)
qed

text \<open>a media request revives a vault whose deadline has passed: where a recorded activity locks the
  overdue vault, resolving a live capability answers with the key and moves the deadline on.\<close>

theorem capability_revives_overdue_vault:
  assumes "\<not> cs_locked cs" and "auto_lock_due now cs" and "cs_timeout cs \<noteq> Some 0"
    and "bt_ok (cs_handles cs)" and "validate_operation now handle class cs = Ok ()"
  shows "cs_locked (snd (record_activity now cs)) \<and>
    (\<exists>key cs'. operation_wrapping_key now handle class cs = (Ok key, cs') \<and>
       \<not> cs_locked cs' \<and> \<not> auto_lock_due now cs')"
  using assms
  by (auto simp: state_defs operation_wrapping_key_def validate_operation_def bt_get_retain bt_contains_def
      auto_lock_due_def Let_def split: option.splits if_splits)

theorem capability_revives_overdue_vault_witness:
  "cs_locked (snd (record_activity (seconds 3600) demo_open)) \<and>
   (\<exists>key cs'. operation_wrapping_key (seconds 3600) 9 MediaStream demo_open = (Ok key, cs') \<and> \<not> cs_locked cs')"
proof -
  have "validate_operation (seconds 3600) 9 MediaStream demo_open = Ok ()"
    by (simp add: demo_open_def validate_operation_def CryptoState_new_def bt_contains_def MEDIA_OPERATION_TTL_def seconds_def)
  moreover have "\<not> cs_locked demo_open" "auto_lock_due (seconds 3600) demo_open" "cs_timeout demo_open \<noteq> Some 0"
    "bt_ok (cs_handles demo_open)"
    by (simp_all add: demo_open_def CryptoState_new_def auto_lock_due_def seconds_def)
  ultimately show ?thesis using capability_revives_overdue_vault by blast
qed

end
