(* ===== verification/Path_Text.thy ===== *)
theory Path_Text
  imports Prelude "HOL-Library.List_Lexorder" "HOL-Library.Char_ord"
begin

text \<open>
  Rust strings where their characters matter: a text is its list of Unicode scalar values. The
  lexicographic order of these lists is the byte order of the UTF-8 strings, so sorted Rust
  strings are sorted lists. The functions are those of the Rust standard library the modelled
  code calls.
\<close>

type_synonym path = "nat list"

definition us :: "string \<Rightarrow> path" where "us s = map of_char s"

definition SLASH :: nat where "SLASH = 47"
definition BACKSLASH :: nat where "BACKSLASH = 92"
definition DOT :: nat where "DOT = 46"
definition STAR :: nat where "STAR = 42"
definition QUESTION :: nat where "QUESTION = 63"

lemmas char_codes = SLASH_def BACKSLASH_def DOT_def STAR_def QUESTION_def

fun utf8_width :: "nat \<Rightarrow> nat" where
  "utf8_width c = (if c < 128 then 1 else if c < 2048 then 2 else if c < 65536 then 3 else 4)"

definition utf8_length :: "path \<Rightarrow> nat" where
  "utf8_length s = sum_list (map utf8_width s)"

definition is_control :: "nat \<Rightarrow> bool" where
  "is_control c \<longleftrightarrow> c < 32 \<or> 127 \<le> c \<and> c < 160"

definition is_whitespace :: "nat \<Rightarrow> bool" where
  "is_whitespace c \<longleftrightarrow> 9 \<le> c \<and> c \<le> 13 \<or> c = 32 \<or> c = 133 \<or> c = 160 \<or> c = 5760 \<or>
     8192 \<le> c \<and> c \<le> 8202 \<or> c = 8232 \<or> c = 8233 \<or> c = 8239 \<or> c = 8287 \<or> c = 12288"

definition trim :: "path \<Rightarrow> path" where
  "trim s = rev (dropWhile is_whitespace (rev (dropWhile is_whitespace s)))"

definition starts_with :: "path \<Rightarrow> path \<Rightarrow> bool" where
  "starts_with s p \<longleftrightarrow> take (length p) s = p"

definition ends_with :: "path \<Rightarrow> path \<Rightarrow> bool" where
  "ends_with s p \<longleftrightarrow> length p \<le> length s \<and> drop (length s - length p) s = p"

text \<open>\<open>split\<close> on a character: always at least one piece.\<close>

fun split_on :: "nat \<Rightarrow> path \<Rightarrow> path list" where
  "split_on c [] = [[]]"
| "split_on c (x # s) =
     (if x = c then [] # split_on c s
      else case split_on c s of [] \<Rightarrow> [[x]] | p # ps \<Rightarrow> (x # p) # ps)"

text \<open>\<open>rsplit(c).next()\<close>: the last piece.\<close>

definition last_piece :: "nat \<Rightarrow> path \<Rightarrow> path" where
  "last_piece c s = last (split_on c s)"

lemma split_on_nonempty [simp]: "split_on c s \<noteq> []"
  by (induction s) (auto split: list.splits)

lemma split_on_pieces: "p \<in> set (split_on c s) \<Longrightarrow> c \<notin> set p \<and> set p \<subseteq> set s"
proof (induction s arbitrary: p)
  case (Cons x s)
  then show ?case by (cases "split_on c s") (fastforce split: if_splits)+
qed simp

lemma split_on_absent: "c \<notin> set s \<Longrightarrow> split_on c s = [s]"
  by (induction s) auto

lemma split_on_append: "split_on c (s @ c # t) = split_on c s @ split_on c t"
proof (induction s)
  case (Cons x s)
  then show ?case by (cases "split_on c s") auto
qed simp

lemma last_piece_append [simp]: "last_piece c (s @ c # t) = last_piece c t"
  by (simp add: last_piece_def split_on_append)

lemma trim_trim [simp]: "trim (trim s) = trim s"
proof -
  let ?t = "rev (dropWhile is_whitespace (rev (dropWhile is_whitespace s)))"
  have d: "dropWhile is_whitespace ?t = ?t"
  proof (cases ?t)
    case Nil
    then show ?thesis by (simp only: dropWhile.simps)
  next
    case (Cons x xs)
    obtain u where u: "dropWhile is_whitespace s = ?t @ u"
      using takeWhile_dropWhile_id [of is_whitespace "rev (dropWhile is_whitespace s)"]
      by (metis rev_append rev_rev_ident)
    then have "hd (dropWhile is_whitespace s) = x" "dropWhile is_whitespace s \<noteq> []" using Cons by simp_all
    then have "\<not> is_whitespace x" using hd_dropWhile by blast
    then show ?thesis using Cons by simp
  qed
  have "dropWhile is_whitespace (rev ?t) = rev ?t" by (simp add: dropWhile_idem)
  then show ?thesis unfolding trim_def d by simp
qed

lemma set_trim: "set (trim s) \<subseteq> set s"
  unfolding trim_def by (metis set_dropWhileD set_rev subsetI)

end
