(* ===== verification/Sync_Planner.thy ===== *)
theory Sync_Planner
  imports Ordered_Map Path_Text
begin

text \<open>
  \<open>sync_engine/planner.rs\<close>: the three-way comparison of the local tree, the Telegram tree and the
  recorded tree of a mapping, the policy that restricts the resulting operations to a direction,
  and the mass-deletion guard. A path is its list of Unicode scalar values (their lexicographic
  order is the byte order of the Rust strings); hashes and states are character strings.
\<close>

section \<open>Trees and operations\<close>


record tree_entry =
  te_path :: path
  te_hash :: string
  te_size :: u64
  te_modified :: "int option"
  te_message :: "int option"

type_synonym file_tree = "(path, tree_entry) btree"

record synced_entry =
  se_path :: path
  se_local_hash :: "string option"
  se_remote_hash :: "string option"
  se_size :: u64
  se_local_mtime :: "int option"
  se_remote_date :: "int option"
  se_message :: "int option"
  se_status :: string

type_synonym synced_tree = "(path, synced_entry) btree"

datatype sync_operation =
    OpUpload (op_path: path) (op_local: tree_entry)
  | OpDownload (op_path: path) (op_remote: tree_entry) (op_keep_both: bool)
      (op_expected_local: "string option")
  | OpDeleteLocal (op_path: path) (op_expected_hash: string)
  | OpDeleteRemote (op_path: path) (op_message: int) (op_expected_hash: string)
  | OpConflict (op_path: path)
  | OpSkip (op_path: path)

fun is_delete :: "sync_operation \<Rightarrow> bool" where
  "is_delete (OpDeleteLocal _ _) = True"
| "is_delete (OpDeleteRemote _ _ _) = True"
| "is_delete _ = False"

datatype sync_error = MassDeletionProtection (deletes: nat) (synced_files: nat)

section \<open>Baselines that need no transfer\<close>

definition adopted_entry :: "path \<Rightarrow> tree_entry \<Rightarrow> tree_entry \<Rightarrow> synced_entry" where
  "adopted_entry p l r =
     \<lparr>se_path = p, se_local_hash = Some (te_hash l), se_remote_hash = Some (te_hash r),
      se_size = te_size l, se_local_mtime = te_modified l, se_remote_date = te_modified r,
      se_message = te_message r, se_status = ''synced''\<rparr>"

text \<open>One round of the loop: the baseline for a local file, if it is adopted.\<close>

definition adoption :: "file_tree \<Rightarrow> synced_tree \<Rightarrow> path \<Rightarrow> tree_entry \<Rightarrow> synced_entry option" where
  "adoption remote synced p l =
     (case bt_get remote p of
        None \<Rightarrow> None
      | Some r \<Rightarrow>
          let adoptable = (case bt_get synced p of
                None \<Rightarrow> True
              | Some previous \<Rightarrow> se_status previous = ''conflict'' \<and>
                  se_local_hash previous = Some (te_hash l) \<and>
                  se_remote_hash previous = Some (te_hash r)) in
          if \<not> adoptable then None
          else if te_size l \<noteq> te_size r then None
          else Some (adopted_entry p l r))"

fun adopt_matching_files :: "file_tree \<Rightarrow> file_tree \<Rightarrow> synced_tree \<Rightarrow> path list \<times> synced_tree" where
  "adopt_matching_files [] remote synced = ([], synced)"
| "adopt_matching_files ((p, l) # local) remote synced =
     (case adoption remote synced p l of
        None \<Rightarrow> adopt_matching_files local remote synced
      | Some entry \<Rightarrow>
          case adopt_matching_files local remote (bt_insert p entry synced) of
            (adopted, synced') \<Rightarrow> (p # adopted, synced'))"

text \<open>One entry of \<open>resume_interrupted_uploads\<close>: the completed entry, if there is one.\<close>

definition resumed_entry :: "file_tree \<Rightarrow> file_tree \<Rightarrow> path \<Rightarrow> synced_entry \<Rightarrow> synced_entry option" where
  "resumed_entry local remote p previous =
     (if se_status previous \<noteq> ''syncing'' \<or> se_message previous = None then None
      else
        case (bt_get local p, bt_get remote p) of
          (Some l, Some r) \<Rightarrow>
            if te_message r \<noteq> se_message previous \<or> se_local_hash previous \<noteq> Some (te_hash l) then None
            else Some (previous\<lparr>se_remote_hash := Some (te_hash r), se_remote_date := te_modified r,
                                se_status := ''synced''\<rparr>)
        | _ \<Rightarrow> None)"

fun resume_interrupted_uploads :: "file_tree \<Rightarrow> file_tree \<Rightarrow> synced_tree \<Rightarrow> path list \<times> synced_tree" where
  "resume_interrupted_uploads local remote [] = ([], [])"
| "resume_interrupted_uploads local remote ((p, previous) # synced) =
     (case resume_interrupted_uploads local remote synced of
        (resumed, synced') \<Rightarrow>
          (case resumed_entry local remote p previous of
             None \<Rightarrow> (resumed, (p, previous) # synced')
           | Some entry \<Rightarrow> (p # resumed, (p, entry) # synced')))"

section \<open>The plan\<close>

text \<open>The choice the user made for a conflict: \<open>None\<close> when the state is not a resolution, \<open>Some None\<close>
  when the chosen copy is gone.\<close>

definition resolution ::
  "path \<Rightarrow> tree_entry option \<Rightarrow> tree_entry option \<Rightarrow> synced_entry \<Rightarrow> sync_operation option option" where
  "resolution p l r previous =
     (if se_status previous = ''keep_local'' then Some (map_option (OpUpload p) l)
      else if se_status previous = ''keep_remote''
      then Some (map_option (\<lambda>remote. OpDownload p remote False (map_option te_hash l)) r)
      else if se_status previous = ''keep_both''
      then Some (case (l, r) of
             (_, Some remote) \<Rightarrow> Some (OpDownload p remote (l \<noteq> None) None)
           | (Some local, None) \<Rightarrow> Some (OpUpload p local)
           | (None, None) \<Rightarrow> None)
      else None)"

definition compare_copies ::
  "path \<Rightarrow> tree_entry option \<Rightarrow> tree_entry option \<Rightarrow> synced_entry option \<Rightarrow> sync_operation option" where
  "compare_copies p l r s =
     (case (l, r, s) of
        (Some local, None, None) \<Rightarrow> Some (OpUpload p local)
      | (None, Some remote, None) \<Rightarrow> Some (OpDownload p remote False None)
      | (Some local, Some remote, None) \<Rightarrow>
          if te_hash local = te_hash remote then Some (OpSkip p) else Some (OpConflict p)
      | (Some local, None, Some previous) \<Rightarrow>
          if se_remote_hash previous = None
          then
            if se_status previous = ''skipped'' \<and> se_local_hash previous = Some (te_hash local)
            then Some (OpSkip p) else Some (OpUpload p local)
          else if se_local_hash previous \<noteq> Some (te_hash local) then Some (OpConflict p)
          else Some (OpDeleteLocal p (te_hash local))
      | (None, Some remote, Some previous) \<Rightarrow>
          if se_local_hash previous = None then Some (OpDownload p remote False None)
          else if se_remote_hash previous \<noteq> Some (te_hash remote) then Some (OpConflict p)
          else
            (case te_message remote of
               None \<Rightarrow> Some (OpConflict p)
             | Some message \<Rightarrow> Some (OpDeleteRemote p message (te_hash remote)))
      | (Some local, Some remote, Some previous) \<Rightarrow>
          let local_changed = se_local_hash previous \<noteq> Some (te_hash local);
              remote_changed = se_remote_hash previous \<noteq> Some (te_hash remote) in
          Some (if \<not> local_changed \<and> \<not> remote_changed then OpSkip p
                else if local_changed \<and> \<not> remote_changed then OpUpload p local
                else if \<not> local_changed \<and> remote_changed
                then OpDownload p remote False (Some (te_hash local))
                else if te_hash local = te_hash remote then OpSkip p
                else OpConflict p)
      | (None, None, _) \<Rightarrow> None)"

definition plan_path :: "file_tree \<Rightarrow> file_tree \<Rightarrow> synced_tree \<Rightarrow> path \<Rightarrow> sync_operation option" where
  "plan_path local remote synced p =
     (let l = bt_get local p; r = bt_get remote p; s = bt_get synced p in
      case Option.bind s (resolution p l r) of
        Some choice \<Rightarrow>
          if l \<noteq> None \<or> r \<noteq> None
          then Some (case choice of None \<Rightarrow> OpConflict p | Some operation \<Rightarrow> operation)
          else None
      | None \<Rightarrow>
          if (case s of None \<Rightarrow> False | Some previous \<Rightarrow> se_status previous = ''conflict'') \<and> (l \<noteq> None \<or> r \<noteq> None)
          then Some (OpConflict p)
          else compare_copies p l r s)"

definition all_paths :: "file_tree \<Rightarrow> file_tree \<Rightarrow> synced_tree \<Rightarrow> path list" where
  "all_paths local remote synced =
     bt_keys (fold (\<lambda>p m. bt_insert p () m) (bt_keys local @ bt_keys remote @ bt_keys synced) [])"

definition plan_unchecked :: "file_tree \<Rightarrow> file_tree \<Rightarrow> synced_tree \<Rightarrow> sync_operation list" where
  "plan_unchecked local remote synced =
     List.map_filter (plan_path local remote synced) (all_paths local remote synced)"

section \<open>Directions and deletions\<close>

definition chosen_by_user :: "synced_tree \<Rightarrow> path \<Rightarrow> bool" where
  "chosen_by_user synced p =
     (case bt_get synced p of
        None \<Rightarrow> False
      | Some previous \<Rightarrow>
          se_status previous = ''keep_local'' \<or> se_status previous = ''keep_remote'' \<or>
          se_status previous = ''keep_both'')"

definition redirect :: "file_tree \<Rightarrow> file_tree \<Rightarrow> string \<Rightarrow> sync_operation \<Rightarrow> sync_operation" where
  "redirect local remote direction operation =
     (if direction = ''upload_only'' then
        (case operation of
           OpDeleteLocal p _ \<Rightarrow>
             (case bt_get local p of Some l \<Rightarrow> OpUpload p l | None \<Rightarrow> OpSkip p)
         | OpDownload p _ _ _ \<Rightarrow> OpSkip p
         | OpConflict p \<Rightarrow>
             (case bt_get local p of
                Some l \<Rightarrow> if bt_get remote p = None then OpUpload p l else operation
              | None \<Rightarrow> operation)
         | _ \<Rightarrow> operation)
      else if direction = ''download_only'' then
        (case operation of
           OpDeleteRemote p _ _ \<Rightarrow>
             (case bt_get remote p of Some r \<Rightarrow> OpDownload p r False None | None \<Rightarrow> OpSkip p)
         | OpUpload p _ \<Rightarrow> OpSkip p
         | OpConflict p \<Rightarrow>
             (case bt_get remote p of
                Some r \<Rightarrow> if bt_get local p = None then OpDownload p r False None else operation
              | None \<Rightarrow> operation)
         | _ \<Rightarrow> operation)
      else operation)"

definition withhold_delete :: "bool \<Rightarrow> sync_operation \<Rightarrow> sync_operation" where
  "withhold_delete propagate_deletions operation =
     (if \<not> propagate_deletions \<and> is_delete operation then OpSkip (op_path operation) else operation)"

definition operations_for_policy ::
  "file_tree \<Rightarrow> file_tree \<Rightarrow> synced_tree \<Rightarrow> string \<Rightarrow> bool \<Rightarrow> sync_operation list" where
  "operations_for_policy local remote synced direction propagate_deletions =
     map (withhold_delete propagate_deletions)
       (map (\<lambda>operation. if chosen_by_user synced (op_path operation) then operation
                         else redirect local remote direction operation)
          (plan_unchecked local remote synced))"

definition enforce_mass_deletion ::
  "sync_operation list \<Rightarrow> synced_tree \<Rightarrow> sync_error + sync_operation list" where
  "enforce_mass_deletion operations synced =
     (let deletes = length (filter is_delete operations) in
      if synced \<noteq> [] \<and> length synced < min (deletes * 2) (2 ^ 64 - 1)
      then Err (MassDeletionProtection deletes (length synced))
      else Ok operations)"

definition plan_for_policy ::
  "file_tree \<Rightarrow> file_tree \<Rightarrow> synced_tree \<Rightarrow> string \<Rightarrow> bool \<Rightarrow> sync_error + sync_operation list" where
  "plan_for_policy local remote synced direction propagate_deletions =
     enforce_mass_deletion (operations_for_policy local remote synced direction propagate_deletions) synced"

definition plan :: "file_tree \<Rightarrow> file_tree \<Rightarrow> synced_tree \<Rightarrow> sync_error + sync_operation list" where
  "plan local remote synced = enforce_mass_deletion (plan_unchecked local remote synced) synced"

definition plan_for_direction ::
  "file_tree \<Rightarrow> file_tree \<Rightarrow> synced_tree \<Rightarrow> string \<Rightarrow> sync_error + sync_operation list" where
  "plan_for_direction local remote synced direction =
     plan_for_policy local remote synced direction True"

end
