(* ===== verification/Sync_Policy.thy ===== *)
theory Sync_Policy
  imports Path_Text
begin

text \<open>
  \<open>sync_engine/policy.rs\<close>: the preferences of a mapping, their validation, the ignore patterns and
  the wildcard matcher. The matcher computes one row of a table per pattern character; it is
  proved to decide the recursive definition of a wildcard match.
\<close>

section \<open>The wildcard matcher\<close>

text \<open>One row for \<open>*\<close>: \<open>current[i] = previous[i] || current[i - 1]\<close>; \<open>before\<close> is \<open>current[i - 1]\<close>.\<close>

fun star_row :: "bool \<Rightarrow> bool list \<Rightarrow> bool list" where
  "star_row before [] = []"
| "star_row before (b # previous) = (b \<or> before) # star_row (b \<or> before) previous"

definition char_row :: "nat \<Rightarrow> path \<Rightarrow> bool list \<Rightarrow> bool list" where
  "char_row c v previous = False # map2 (\<lambda>x b. b \<and> (c = QUESTION \<or> c = x)) v previous"

definition wildcard_row :: "path \<Rightarrow> nat \<Rightarrow> bool list \<Rightarrow> bool list" where
  "wildcard_row v c previous = (if c = STAR then star_row False previous else char_row c v previous)"

definition wildcard_match :: "path \<Rightarrow> path \<Rightarrow> bool" where
  "wildcard_match pattern v =
     fold (wildcard_row v) pattern (True # replicate (length v) False) ! length v"

section \<open>Ignore patterns\<close>

text \<open>Each \<open>/\<close> of the path with the text before it.\<close>

fun directory_prefixes :: "path \<Rightarrow> path \<Rightarrow> path list" where
  "directory_prefixes seen [] = []"
| "directory_prefixes seen (c # s) =
     (if c = SLASH then [seen] else []) @ directory_prefixes (seen @ [c]) s"

definition matches_ignore_pattern :: "path \<Rightarrow> path \<Rightarrow> bool" where
  "matches_ignore_pattern pattern relative_path =
     (if pattern \<noteq> [] \<and> last pattern = SLASH
      then
        let directory_pattern = butlast pattern in
        \<exists>before \<in> set (directory_prefixes [] relative_path).
          wildcard_match directory_pattern before \<or>
          (SLASH \<notin> set directory_pattern \<and>
           wildcard_match directory_pattern (last_piece SLASH before))
      else
        wildcard_match pattern relative_path \<or>
        (SLASH \<notin> set pattern \<and> wildcard_match pattern (last_piece SLASH relative_path)))"

record sync_preferences =
  sp_ignore_patterns :: "path list"
  sp_propagate_deletions :: bool
  sp_pause_on_conflicts :: bool
  sp_adopt_matching_files :: bool

definition default_preferences :: sync_preferences where
  "default_preferences = \<lparr>sp_ignore_patterns = [us ''.git/'', us ''node_modules/'', us ''.DS_Store''],
     sp_propagate_deletions = False, sp_pause_on_conflicts = True, sp_adopt_matching_files = False\<rparr>"

definition staging_suffix :: path where "staging_suffix = us ''.td-sync-tmp''"

definition ignores :: "sync_preferences \<Rightarrow> path \<Rightarrow> bool" where
  "ignores prefs relative_path \<longleftrightarrow>
     ends_with relative_path staging_suffix \<or>
     (\<exists>pattern \<in> set (sp_ignore_patterns prefs). matches_ignore_pattern pattern relative_path)"

section \<open>Validation\<close>

text \<open>The loop over the patterns: each is trimmed and checked, the first offence is reported.\<close>

fun check_patterns :: "path list \<Rightarrow> string + path list" where
  "check_patterns [] = Ok []"
| "check_patterns (raw # patterns) =
     (let pattern = trim raw in
      if 256 < utf8_length pattern \<or> (\<exists>c\<in>set pattern. is_control c)
      then Err ''Each ignore pattern must contain at most 256 printable bytes''
      else if starts_with pattern [SLASH] \<or> BACKSLASH \<in> set pattern \<or>
        (\<exists>part \<in> set (split_on SLASH pattern). part = us ''..'' \<or> part = us ''.'')
      then Err ''Ignore patterns must be relative paths using / separators''
      else rbind (check_patterns patterns) (\<lambda>rest. Ok (pattern # rest)))"

definition validated :: "sync_preferences \<Rightarrow> string + sync_preferences" where
  "validated prefs =
     (if 128 < length (sp_ignore_patterns prefs) then Err ''Use at most 128 ignore patterns''
      else
        rbind (check_patterns (sp_ignore_patterns prefs)) (\<lambda>patterns.
        Ok (prefs\<lparr>sp_ignore_patterns :=
              remdups_adj (sort (filter (\<lambda>pattern. pattern \<noteq> []) patterns))\<rparr>)))"

section \<open>The reference matcher\<close>

fun glob :: "path \<Rightarrow> path \<Rightarrow> bool" where
  "glob [] v \<longleftrightarrow> v = []"
| "glob (c # p) v \<longleftrightarrow>
     (if c = STAR then \<exists>k\<le>length v. glob p (drop k v)
      else (case v of [] \<Rightarrow> False | x # v' \<Rightarrow> (c = QUESTION \<or> c = x) \<and> glob p v'))"

lemma ex_le_Suc: "(\<exists>k\<le>Suc n. P k) \<longleftrightarrow> P 0 \<or> (\<exists>k\<le>n. P (Suc k))"
  by (metis Suc_le_mono not0_implies_Suc zero_le)

lemma glob_append: "glob (p @ q) v \<longleftrightarrow> (\<exists>k\<le>length v. glob p (take k v) \<and> glob q (drop k v))"
proof (induction p arbitrary: v)
  case Nil
  show ?case by (auto intro: exI [where x = 0])
next
  case (Cons c p)
  show ?case
  proof (cases "c = STAR")
    case False
    then show ?thesis
      by (cases v) (simp_all only: append_Cons glob.simps Cons.IH length_Cons ex_le_Suc, auto)
  next
    case True
    have "glob ((c # p) @ q) v \<longleftrightarrow>
        (\<exists>j\<le>length v. \<exists>k\<le>length v - j. glob p (drop j (take (j + k) v)) \<and> glob q (drop (j + k) v))"
      using True by (simp add: Cons.IH take_drop add.commute)
    also have "\<dots> \<longleftrightarrow> (\<exists>m\<le>length v. (\<exists>j\<le>m. glob p (drop j (take m v))) \<and> glob q (drop m v))"
      (is "?a \<longleftrightarrow> ?b")
    proof
      assume ?a
      then obtain j k where "j \<le> length v" "k \<le> length v - j" "glob p (drop j (take (j + k) v))" "glob q (drop (j + k) v)"
        by blast
      moreover from this(1,2) have "j + k \<le> length v" "j \<le> j + k" by simp_all
      ultimately show ?b by blast
    next
      assume ?b
      then obtain m j where "m \<le> length v" "j \<le> m" "glob p (drop j (take m v))" "glob q (drop m v)" by blast
      then show ?a by (intro exI [where x = j] conjI exI [where x = "m - j"]) auto
    qed
    also have "\<dots> \<longleftrightarrow> (\<exists>m\<le>length v. glob (c # p) (take m v) \<and> glob q (drop m v))"
    proof -
      have "glob (c # p) (take m v) \<longleftrightarrow> (\<exists>j\<le>m. glob p (drop j (take m v)))" if "m \<le> length v" for m
        using True that by (simp add: min_absorb2)
      then show ?thesis by blast
    qed
    finally show ?thesis .
  qed
qed

definition glob_row :: "path \<Rightarrow> path \<Rightarrow> bool list" where
  "glob_row p v = map (\<lambda>i. glob p (take i v)) [0..<Suc (length v)]"

lemma length_glob_row [simp]: "length (glob_row p v) = Suc (length v)"
  by (simp add: glob_row_def)

lemma length_star_row [simp]: "length (star_row b bs) = length bs"
  by (induction b bs rule: star_row.induct) simp_all

lemma star_row_nth: "i < length bs \<Longrightarrow> star_row b bs ! i \<longleftrightarrow> b \<or> (\<exists>j\<le>i. bs ! j)"
proof (induction b bs arbitrary: i rule: star_row.induct)
  case (2 b0 b bs)
  show ?case
  proof (cases i)
    case (Suc n)
    then show ?thesis using 2 by (auto simp: ex_le_Suc)
  qed auto
qed simp

lemma glob_star: "glob [STAR] v"
  by (auto intro: exI [where x = "length v"])

lemma glob_single:
  "c \<noteq> STAR \<Longrightarrow> glob [c] v \<longleftrightarrow> (\<exists>x. v = [x] \<and> (c = QUESTION \<or> c = x))"
  by (auto split: list.splits)

lemma glob_snoc:
  assumes "c \<noteq> STAR"
  shows "glob (p @ [c]) (v @ [x]) \<longleftrightarrow> glob p v \<and> (c = QUESTION \<or> c = x)"
proof
  assume "glob (p @ [c]) (v @ [x])"
  then obtain k where k: "k \<le> length (v @ [x])" "glob p (take k (v @ [x]))" "glob [c] (drop k (v @ [x]))"
    unfolding glob_append by blast
  obtain y where y: "drop k (v @ [x]) = [y]" "c = QUESTION \<or> c = y" using k(3) glob_single [OF assms] by blast
  have "length (drop k (v @ [x])) = 1" using y by simp
  then have "k = length v" using k(1) by simp
  then show "glob p v \<and> (c = QUESTION \<or> c = x)" using k(2) y by simp
next
  assume r: "glob p v \<and> (c = QUESTION \<or> c = x)"
  then have "glob [c] [x]" using glob_single [OF assms, of "[x]"] by blast
  with r have "glob p (take (length v) (v @ [x])) \<and> glob [c] (drop (length v) (v @ [x]))"
    by (simp del: glob.simps)
  then show "glob (p @ [c]) (v @ [x])" unfolding glob_append by (intro exI [where x = "length v"]) (simp del: glob.simps)
qed

lemma wildcard_row_glob: "wildcard_row v c (glob_row p v) = glob_row (p @ [c]) v"
proof (rule nth_equalityI)
  show "length (wildcard_row v c (glob_row p v)) = length (glob_row (p @ [c]) v)"
    by (simp add: wildcard_row_def char_row_def glob_row_def)
next
  fix i assume "i < length (wildcard_row v c (glob_row p v))"
  then have i: "i \<le> length v" by (auto simp: wildcard_row_def char_row_def glob_row_def split: if_splits)
  have r: "glob_row q v ! j = glob q (take j v)" if "j \<le> length v" for q j
    using that by (simp add: glob_row_def del: upt_Suc)
  show "wildcard_row v c (glob_row p v) ! i = glob_row (p @ [c]) v ! i"
  proof (cases "c = STAR")
    case True
    have "wildcard_row v c (glob_row p v) ! i \<longleftrightarrow> (\<exists>j\<le>i. glob p (take j v))"
      using True i r by (simp add: wildcard_row_def star_row_nth length_glob_row) (meson le_trans)
    also have "\<dots> \<longleftrightarrow> glob (p @ [c]) (take i v)"
      using True i by (simp add: glob_append glob_star min_absorb2 min_absorb1 del: glob.simps cong: conj_cong)
    finally show ?thesis using r i by simp
  next
    case False
    show ?thesis
    proof (cases i)
      case 0
      then show ?thesis using False by (simp add: wildcard_row_def char_row_def r glob_append)
    next
      case (Suc n)
      then have n: "n < length v" using i by simp
      have t: "take i v = take n v @ [v ! n]" using n Suc by (simp add: take_Suc_conv_app_nth)
      have "wildcard_row v c (glob_row p v) ! i \<longleftrightarrow> glob p (take n v) \<and> (c = QUESTION \<or> c = v ! n)"
        using False n Suc r [of n p] by (simp add: wildcard_row_def char_row_def)
      also have "\<dots> \<longleftrightarrow> glob (p @ [c]) (take n v @ [v ! n])"
        using glob_snoc [OF False] by simp
      finally show ?thesis using r [OF i] t by simp
    qed
  qed
qed

lemma wildcard_rows: "fold (wildcard_row v) p (glob_row q v) = glob_row (q @ p) v"
  by (induction p arbitrary: q) (simp_all add: wildcard_row_glob)

lemma glob_row_Nil: "glob_row [] v = True # replicate (length v) False"
  by (auto simp: glob_row_def nth_Cons' intro!: nth_equalityI simp del: upt_Suc)

text \<open>C17: the table-driven matcher decides the recursive definition of a wildcard match, for every
  pattern and value.\<close>

theorem wildcard_match_is_glob: "wildcard_match pattern v \<longleftrightarrow> glob pattern v"
  by (simp add: wildcard_match_def glob_row_Nil [symmetric] wildcard_rows) (simp add: glob_row_def del: upt_Suc)

section \<open>What validation guarantees\<close>

definition clean_pattern :: "path \<Rightarrow> bool" where
  "clean_pattern p \<longleftrightarrow> p \<noteq> [] \<and> trim p = p \<and> utf8_length p \<le> 256 \<and> (\<forall>c\<in>set p. \<not> is_control c) \<and>
     \<not> starts_with p [SLASH] \<and> BACKSLASH \<notin> set p \<and>
     us ''..'' \<notin> set (split_on SLASH p) \<and> us ''.'' \<notin> set (split_on SLASH p)"

definition clean_preferences :: "sync_preferences \<Rightarrow> bool" where
  "clean_preferences prefs \<longleftrightarrow> length (sp_ignore_patterns prefs) \<le> 128 \<and>
     sorted_wrt (<) (sp_ignore_patterns prefs) \<and> (\<forall>p\<in>set (sp_ignore_patterns prefs). clean_pattern p)"

lemma check_patterns_Ok:
  "check_patterns raws = Ok ps \<Longrightarrow> length ps = length raws \<and> (\<forall>p\<in>set ps. p \<noteq> [] \<longrightarrow> clean_pattern p)"
  by (induction raws arbitrary: ps) (auto simp: Let_def clean_pattern_def not_less split: if_splits)

lemma check_patterns_clean: "\<forall>p\<in>set ps. clean_pattern p \<Longrightarrow> check_patterns ps = Ok ps"
  by (induction ps) (auto simp: Let_def clean_pattern_def)

lemma remdups_adj_strict: "sorted xs \<Longrightarrow> sorted_wrt (<) (remdups_adj xs)"
  by (induction xs rule: remdups_adj.induct) (auto simp: less_le dest: antisym split: if_splits)

lemma remdups_adj_id: "sorted_wrt (<) xs \<Longrightarrow> remdups_adj xs = (xs :: path list)"
  by (induction xs rule: remdups_adj.induct) auto

text \<open>C18: validation returns clean preferences: at most 128 distinct sorted patterns, each a trimmed
  relative path without control characters; clean preferences pass unchanged, so validating twice is
  validating once.\<close>

theorem validated_preferences:
  assumes "validated prefs = Ok prefs'"
  shows "clean_preferences prefs' \<and> validated prefs' = Ok prefs'"
proof -
  obtain ps where ps: "check_patterns (sp_ignore_patterns prefs) = Ok ps" "length (sp_ignore_patterns prefs) \<le> 128"
    "prefs' = prefs\<lparr>sp_ignore_patterns := remdups_adj (sort (filter (\<lambda>p. p \<noteq> []) ps))\<rparr>"
    using assms by (auto simp: validated_def split: if_splits)
  let ?qs = "remdups_adj (sort (filter (\<lambda>p. p \<noteq> []) ps))"
  have c: "\<forall>p\<in>set ?qs. clean_pattern p" using check_patterns_Ok [OF ps(1)] by simp
  have s: "sorted_wrt (<) ?qs" by (rule remdups_adj_strict) simp
  have "length ?qs \<le> length (filter (\<lambda>p. p \<noteq> []) ps)" using remdups_adj_length [of "sort (filter (\<lambda>p. p \<noteq> []) ps)"] by simp
  also have "\<dots> \<le> 128" using ps(2) check_patterns_Ok [OF ps(1)] length_filter_le [of _ ps] by (metis le_trans)
  finally have l: "length ?qs \<le> 128" .
  have "filter (\<lambda>p. p \<noteq> []) ?qs = ?qs" using c by (auto simp: filter_id_conv clean_pattern_def)
  moreover have "sort ?qs = ?qs" using s by (simp add: sorted_sort_id strict_sorted_iff)
  ultimately have "validated prefs' = Ok prefs'"
    using l c ps(3) remdups_adj_id [OF s] by (simp add: validated_def check_patterns_clean)
  then show ?thesis using c s l ps(3) by (simp add: clean_preferences_def)
qed

theorem validated_preferences_witness:
  "clean_preferences (default_preferences\<lparr>sp_ignore_patterns := [us ''a'', us ''b'']\<rparr>)"
proof -
  have "validated (default_preferences\<lparr>sp_ignore_patterns := [us ''b '', us ''a'', us '' '', us ''b'']\<rparr>)
      = Ok (default_preferences\<lparr>sp_ignore_patterns := [us ''a'', us ''b'']\<rparr>)"
    by (simp add: validated_def us_def trim_def is_whitespace_def utf8_length_def is_control_def
        starts_with_def char_codes default_preferences_def Let_def)
  from validated_preferences [OF this] show ?thesis by blast
qed

section \<open>Ignored directories\<close>

lemma directory_prefixes_append:
  "directory_prefixes seen (s @ t) = directory_prefixes seen s @ directory_prefixes (seen @ s) t"
  by (induction s arbitrary: seen) simp_all

text \<open>an ignored directory is ignored with everything below it: once a directory pattern matches a
  path, it matches every longer path, and the engine's own staging files are always ignored.\<close>

theorem ignored_directory_is_closed:
  "(matches_ignore_pattern (p @ [SLASH]) s \<longrightarrow> matches_ignore_pattern (p @ [SLASH]) (s @ t)) \<and>
   (wildcard_match p s \<longrightarrow> matches_ignore_pattern (p @ [SLASH]) (s @ [SLASH] @ t)) \<and>
   ignores prefs (s @ staging_suffix)"
  by (auto simp: matches_ignore_pattern_def directory_prefixes_append Let_def ignores_def ends_with_def)

end
