(* ===== verification/Text_Tools.thy ===== *)
theory Text_Tools
  imports Path_Text
begin

text \<open>
  The string functions of the Rust standard library that several components call: decimal
  printing and parsing, ASCII case, searching for a pattern, and the stem and extension of a
  file name. Unicode lower-casing (\<open>to_lowercase\<close>) is a table of the standard library; the
  definitions that use it take it as the argument \<open>lower\<close>.
\<close>

type_synonym str = path

section \<open>Decimal numbers\<close>

fun digits :: "nat \<Rightarrow> string" where
  "digits n = (if n < 10 then [char_of (48 + n)] else digits (n div 10) @ [char_of (48 + n mod 10)])"

declare digits.simps [simp del]

definition show_int :: "int \<Rightarrow> string" where
  "show_int i = (if i < 0 then CHR ''-'' # digits (nat (- i)) else digits (nat i))"

definition is_ascii_digit :: "nat \<Rightarrow> bool" where
  "is_ascii_digit c \<longleftrightarrow> 48 \<le> c \<and> c \<le> 57"

definition decimal_value :: "path \<Rightarrow> nat" where
  "decimal_value s = fold (\<lambda>c n. 10 * n + (c - 48)) s 0"

text \<open>\<open>str::parse\<close> for an unsigned type: an optional plus sign, then decimal digits within the limit.\<close>

definition parse_unsigned :: "nat \<Rightarrow> path \<Rightarrow> nat option" where
  "parse_unsigned limit s =
     (let ds = (if starts_with s (us ''+'') then drop 1 s else s) in
      if ds = [] \<or> \<not> list_all is_ascii_digit ds \<or> limit < decimal_value ds then None
      else Some (decimal_value ds))"

text \<open>\<open>str::parse::<i32>\<close>: the sign may also be a minus, then the limit is one larger.\<close>

definition parse_i32 :: "path \<Rightarrow> int option" where
  "parse_i32 s =
     (if starts_with s (us ''-'')
      then (let ds = drop 1 s in
            if ds = [] \<or> \<not> list_all is_ascii_digit ds \<or> 2 ^ 31 < decimal_value ds then None
            else Some (- int (decimal_value ds)))
      else map_option int (parse_unsigned (2 ^ 31 - 1) s))"

lemma digits_nonempty [simp]: "digits n \<noteq> []"
  by (subst digits.simps) simp

lemma digit_code: "n < 10 \<Longrightarrow> (of_char (char_of (48 + n) :: char) :: nat) = 48 + n"
  by (simp add: of_char_of)

lemma separator_codes: "(of_char CHR ''-'' :: nat) = 45" "(of_char CHR '':'' :: nat) = 58" "(of_char CHR '')'' :: nat) = 41"
  by simp_all

lemma digits_chars: "c \<in> set (digits n) \<Longrightarrow> 48 \<le> (of_char c :: nat) \<and> (of_char c :: nat) \<le> 57"
proof (induction n rule: digits.induct)
  case (1 n)
  then show ?case by (subst (asm) (2) digits.simps) (auto simp: digit_code split: if_splits)
qed

fun undigits :: "nat \<Rightarrow> string \<Rightarrow> nat" where
  "undigits a [] = a"
| "undigits a (c # s) = undigits (10 * a + (of_char c - 48)) s"

lemma undigits_append: "undigits a (s @ t) = undigits (undigits a s) t"
  by (induction a s rule: undigits.induct) simp_all

lemma undigits_digits: "undigits 0 (digits n) = n"
proof (induction n rule: digits.induct)
  case (1 n)
  then show ?case by (subst digits.simps) (simp add: undigits_append digit_code)
qed

lemma digits_inj: "digits m = digits n \<Longrightarrow> m = n"
  using undigits_digits by metis

lemma digits_free: "CHR ''-'' \<notin> set (digits n)" "CHR '':'' \<notin> set (digits n)" "CHR '')'' \<notin> set (digits n)"
  using digits_chars [of "CHR ''-''" n] digits_chars [of "CHR '':''" n] digits_chars [of "CHR '')''" n]
  unfolding separator_codes by auto

lemma show_int_inj: "show_int i = show_int j \<Longrightarrow> i = j"
proof -
  assume e: "show_int i = show_int j"
  have "\<not> (i < 0 \<and> 0 \<le> j)" "\<not> (j < 0 \<and> 0 \<le> i)"
    using e digits_free(1) [of "nat i"] digits_free(1) [of "nat j"] unfolding show_int_def
    by (metis list.set_intros(1) not_less)+
  then show ?thesis using e by (auto simp: show_int_def dest: digits_inj split: if_splits)
qed

lemma show_int_chars: "CHR '':'' \<notin> set (show_int i)" "CHR '')'' \<notin> set (show_int i)"
  by (auto simp: show_int_def digits_free)

lemma us_inj [simp]: "us s = us t \<longleftrightarrow> s = t"
  unfolding us_def by (rule inj_map_eq_map) (simp add: inj_on_def)

lemma us_append [simp]: "us (s @ t) = us s @ us t"
  by (simp add: us_def)

lemma us_digits: "list_all is_ascii_digit (us (digits n))"
  using digits_chars by (auto simp: us_def list_all_iff is_ascii_digit_def)

lemma decimal_value_us: "fold (\<lambda>c n. 10 * n + (c - 48)) (us s) a = undigits a s"
  by (induction a s rule: undigits.induct) (simp_all add: us_def)

lemma decimal_digits [simp]: "decimal_value (us (digits n)) = n"
  unfolding decimal_value_def decimal_value_us by (rule undigits_digits)

lemma digits_no_sign: "us (digits n) = c # s \<Longrightarrow> c \<noteq> 43 \<and> c \<noteq> 45"
  using us_digits [of n] by (auto simp: is_ascii_digit_def)

lemma parse_unsigned_digits: "n \<le> limit \<Longrightarrow> parse_unsigned limit (us (digits n)) = Some n"
proof -
  assume l: "n \<le> limit"
  obtain c s where cs: "us (digits n) = c # s"
    using digits_nonempty [of n] unfolding us_def by (cases "digits n") simp_all
  have "\<not> starts_with (us (digits n)) (us ''+'')"
    using digits_no_sign [OF cs] cs by (auto simp: starts_with_def us_def)
  moreover have "us (digits n) \<noteq> []" using cs by simp
  ultimately show ?thesis using l us_digits [of n] unfolding parse_unsigned_def by simp
qed

section \<open>Searching\<close>

fun find_text :: "path \<Rightarrow> path \<Rightarrow> nat option" where
  "find_text s pattern =
     (if starts_with s pattern then Some 0
      else case s of [] \<Rightarrow> None | _ # t \<Rightarrow> map_option Suc (find_text t pattern))"

declare find_text.simps [simp del]

definition contains_text :: "path \<Rightarrow> path \<Rightarrow> bool" where
  "contains_text s pattern \<longleftrightarrow> find_text s pattern \<noteq> None"

definition to_ascii_uppercase :: "path \<Rightarrow> path" where
  "to_ascii_uppercase s = map (\<lambda>c. if 97 \<le> c \<and> c \<le> 122 then c - 32 else c) s"

lemma find_text_Some:
  "find_text s p = Some i \<Longrightarrow> starts_with (drop i s) p \<and> (\<forall>j<i. \<not> starts_with (drop j s) p)"
proof (induction s arbitrary: i)
  case Nil
  then show ?case by (subst (asm) find_text.simps) (auto split: if_splits)
next
  case (Cons x s)
  show ?case
  proof (cases "starts_with (x # s) p")
    case True
    then show ?thesis using Cons.prems by (subst (asm) find_text.simps) auto
  next
    case False
    then obtain k where "find_text s p = Some k" "i = Suc k"
      using Cons.prems by (subst (asm) find_text.simps) auto
    then show ?thesis using Cons.IH False by (auto simp: less_Suc_eq_0_disj)
  qed
qed

lemma all_le_Suc: "(\<forall>j\<le>Suc n. P j) \<longleftrightarrow> P 0 \<and> (\<forall>j\<le>n. P (Suc j))"
proof
  assume a: "P 0 \<and> (\<forall>j\<le>n. P (Suc j))"
  show "\<forall>j\<le>Suc n. P j"
  proof (intro allI impI)
    fix j assume "j \<le> Suc n"
    then show "P j" using a by (cases j) simp_all
  qed
qed simp

lemma find_text_None: "find_text s p = None \<longleftrightarrow> (\<forall>j\<le>length s. \<not> starts_with (drop j s) p)"
proof (induction s)
  case Nil
  then show ?case by (subst find_text.simps) simp
next
  case (Cons x s)
  have "find_text (x # s) p = None \<longleftrightarrow> \<not> starts_with (x # s) p \<and> find_text s p = None"
    by (subst find_text.simps) simp
  also have "\<dots> \<longleftrightarrow> (\<forall>j\<le>length (x # s). \<not> starts_with (drop j (x # s)) p)"
    unfolding Cons.IH by (simp add: all_le_Suc)
  finally show ?case .
qed

lemma contains_text_iff: "contains_text s p \<longleftrightarrow> (\<exists>u v. s = u @ p @ v)"
proof
  assume "contains_text s p"
  then obtain i where "starts_with (drop i s) p"
    unfolding contains_text_def using find_text_Some by blast
  then have "drop i s = p @ drop (length p) (drop i s)"
    unfolding starts_with_def by (metis append_take_drop_id)
  then show "\<exists>u v. s = u @ p @ v" by (metis append_take_drop_id)
next
  assume "\<exists>u v. s = u @ p @ v"
  then obtain u v where s: "s = u @ p @ v" by blast
  then have "starts_with (drop (length u) s) p" "length u \<le> length s" by (auto simp: starts_with_def)
  then show "contains_text s p" unfolding contains_text_def using find_text_None by blast
qed

section \<open>File names\<close>

text \<open>The last dot of a name, unless it is its first character, splits stem and extension.\<close>

definition name_split :: "path \<Rightarrow> path \<times> path option" where
  "name_split name =
     (let extension = last_piece DOT name; stem = take (length name - length extension - 1) name in
      if DOT \<notin> set name \<or> stem = [] then (name, None) else (stem, Some extension))"

lemma split_last_piece: "c \<in> set s \<Longrightarrow> s = take (length s - length (last_piece c s) - 1) s @ c # last_piece c s"
proof -
  assume "c \<in> set s"
  then obtain u v where s: "s = u @ c # v" and v: "c \<notin> set v" by (metis split_list_last)
  have "last_piece c s = v" unfolding s last_piece_append by (simp add: last_piece_def split_on_absent [OF v])
  then show ?thesis unfolding s by simp
qed

lemma name_split_join:
  "name_split name = (stem, Some extension) \<Longrightarrow> name = stem @ DOT # extension"
  "name_split name = (stem, None) \<Longrightarrow> name = stem"
  using split_last_piece [of DOT name] by (auto simp: name_split_def Let_def split: if_splits)

section \<open>Paths\<close>

datatype component = RootDir | CurDir | ParentDir | Normal path

fun piece_component :: "path \<Rightarrow> component list" where
  "piece_component p = (if p = [] \<or> p = us ''.'' then [] else if p = us ''..'' then [ParentDir] else [Normal p])"

text \<open>\<open>Path::components\<close>: repeated separators and inner dots vanish, a leading dot stays.\<close>

definition path_components :: "path \<Rightarrow> component list" where
  "path_components p =
     (case split_on SLASH p of
        [] \<Rightarrow> []
      | first # rest \<Rightarrow>
          (if starts_with p [SLASH] then [RootDir]
           else if first = us ''.'' then [CurDir] else piece_component first) @
          concat (map piece_component rest))"

fun is_normal :: "component \<Rightarrow> bool" where
  "is_normal (Normal _) = True"
| "is_normal _ = False"

fun normal_name :: "component \<Rightarrow> path" where
  "normal_name (Normal n) = n"
| "normal_name _ = []"

text \<open>\<open>Path::file_name\<close>, and the path as text.\<close>

definition place_name :: "component list \<Rightarrow> path option" where
  "place_name p =
     (if p = [] then None else case last p of Normal n \<Rightarrow> Some n | _ \<Rightarrow> None)"

definition file_name :: "path \<Rightarrow> path option" where
  "file_name p = place_name (path_components p)"

fun component_text :: "component \<Rightarrow> path" where
  "component_text RootDir = []"
| "component_text CurDir = us ''.''"
| "component_text ParentDir = us ''..''"
| "component_text (Normal n) = n"

fun join_components :: "component list \<Rightarrow> path" where
  "join_components [] = []"
| "join_components (c # cs) = SLASH # component_text c @ join_components cs"

fun render_place :: "component list \<Rightarrow> path" where
  "render_place [] = []"
| "render_place [RootDir] = [SLASH]"
| "render_place (RootDir # cs) = join_components cs"
| "render_place (c # cs) = component_text c @ join_components cs"

text \<open>The components of a text: only the first can be the root or a dot, names are plain.\<close>

definition plain_name :: "path \<Rightarrow> bool" where
  "plain_name n \<longleftrightarrow> n \<noteq> [] \<and> SLASH \<notin> set n \<and> n \<noteq> us ''.'' \<and> n \<noteq> us ''..''"

fun inner_component :: "component \<Rightarrow> bool" where
  "inner_component (Normal n) = plain_name n"
| "inner_component c = (c = ParentDir)"

definition place_ok :: "component list \<Rightarrow> bool" where
  "place_ok p \<longleftrightarrow>
     (case p of [] \<Rightarrow> True
      | c # cs \<Rightarrow> (c \<in> {RootDir, CurDir} \<or> inner_component c) \<and> list_all inner_component cs)"

lemma dots_plain: "SLASH \<notin> set (us ''.'')" "SLASH \<notin> set (us ''..'')" "us ''.'' \<noteq> []" "us ''..'' \<noteq> []"
  "us ''.'' \<noteq> us ''..''"
  by (simp_all add: us_def SLASH_def)

lemma piece_of_inner [simp]: "inner_component c \<Longrightarrow> piece_component (component_text c) = [c]"
  using dots_plain by (cases c) (auto simp: plain_name_def)

lemma inner_text: "inner_component c \<Longrightarrow> component_text c \<noteq> [] \<and> SLASH \<notin> set (component_text c) \<and> component_text c \<noteq> us ''.''"
  using dots_plain by (cases c) (auto simp: plain_name_def)

lemma pieces_inner: "SLASH \<notin> set p \<Longrightarrow> list_all inner_component (piece_component p)"
  by (auto simp: plain_name_def)

lemma place_ok_inner: "list_all inner_component p \<Longrightarrow> place_ok p"
  by (cases p) (auto simp: place_ok_def)

lemma place_ok_head: "c \<in> {RootDir, CurDir} \<Longrightarrow> list_all inner_component p \<Longrightarrow> place_ok (c # p)"
  by (simp add: place_ok_def)

lemma path_components_ok: "place_ok (path_components p)"
proof -
  obtain first rest where s: "split_on SLASH p = first # rest"
    using split_on_nonempty [of SLASH p] by (cases "split_on SLASH p") auto
  have n: "SLASH \<notin> set q" if "q \<in> set (first # rest)" for q
    using split_on_pieces [of q SLASH p] that unfolding s by blast
  have r: "list_all inner_component (concat (map piece_component rest))"
    using n pieces_inner by (auto simp: list_all_iff simp del: piece_component.simps)
  have f: "list_all inner_component (piece_component first)" using n pieces_inner by simp
  show ?thesis
    using place_ok_inner [OF r] place_ok_inner [of "piece_component first @ concat (map piece_component rest)"]
      place_ok_head [OF _ r] f r
    unfolding path_components_def s by (simp del: piece_component.simps)
qed

lemma split_join: "list_all inner_component cs \<Longrightarrow> SLASH \<notin> set t \<Longrightarrow>
    split_on SLASH (t @ join_components cs) = t # map component_text cs"
proof (induction cs arbitrary: t)
  case Nil
  then show ?case by (simp add: split_on_absent)
next
  case (Cons c cs)
  then show ?case using inner_text [of c] by (simp add: split_on_append split_on_absent)
qed

lemma concat_pieces: "list_all inner_component cs \<Longrightarrow> concat (map piece_component (map component_text cs)) = cs"
  by (induction cs) (simp_all del: piece_component.simps)

lemma components_render: "place_ok p \<Longrightarrow> path_components (render_place p) = p"
proof (cases p)
  case Nil
  then show ?thesis by (simp add: path_components_def starts_with_def us_def)
next
  case (Cons c cs)
  assume ok: "place_ok p"
  then have cs: "list_all inner_component cs" by (simp add: place_ok_def Cons)
  show ?thesis
  proof (cases "c = RootDir")
    case True
    show ?thesis
    proof (cases cs)
      case Nil
      then show ?thesis unfolding Cons True
        by (simp add: path_components_def starts_with_def SLASH_def)
    next
      case (Cons d ds)
      have j: "join_components (d # ds) = [] @ join_components (d # ds)" by simp
      have "split_on SLASH (join_components (d # ds)) = [] # map component_text (d # ds)"
        by (subst j, rule split_join) (use cs Cons in simp_all)
      moreover have "starts_with (join_components (d # ds)) [SLASH]" by (simp add: starts_with_def)
      ultimately show ?thesis
        using concat_pieces [OF cs] unfolding \<open>p = c # cs\<close> True Cons path_components_def
        by (simp del: join_components.simps piece_component.simps)
    qed
  next
    case False
    let ?t = "component_text c"
    have t: "SLASH \<notin> set ?t" "?t \<noteq> []"
      using ok dots_plain inner_text [of c] False by (auto simp: place_ok_def Cons)
    have r: "render_place (c # cs) = ?t @ join_components cs" using False by (cases c) simp_all
    have "\<not> starts_with (?t @ join_components cs) [SLASH]"
      using t by (cases ?t) (auto simp: starts_with_def)
    moreover have "(if ?t = us ''.'' then [CurDir] else piece_component ?t) = [c]"
      using ok False inner_text [of c] by (auto simp: place_ok_def Cons simp del: piece_component.simps)
    ultimately show ?thesis
      using concat_pieces [OF cs] unfolding Cons r path_components_def split_join [OF cs t(1)]
      by (simp del: piece_component.simps)
  qed
qed

end
