(* ===== verification/Sync_Remote.thy ===== *)
theory Sync_Remote
  imports Sync_Planner Sync_Policy Text_Tools
begin

text \<open>
  The Telegram side of a mapping (\<open>sync_engine/mod.rs\<close>): which path a file message occupies, its
  fingerprint, and the tree built from all messages of a channel. Two messages that claim one
  path stop the mapping. The SHA-256 digest in hexadecimal is the parameter \<open>hex_digest\<close>.
\<close>

section \<open>Messages\<close>

record remote_file =
  rf_message :: int
  rf_caption :: path
  rf_document_name :: "path option"
  rf_media :: int
  rf_size :: u64
  rf_created :: int
  rf_edited :: "int option"
  rf_sync_path :: "path option"
  rf_plaintext_size :: "u64 option"

definition MAX_REMOTE_FILES :: nat where "MAX_REMOTE_FILES = 50000"

definition show_option :: "int option \<Rightarrow> string" where
  "show_option v = (case v of None \<Rightarrow> ''None'' | Some i \<Rightarrow> ''Some('' @ show_int i @ '')'')"

definition photo_file_name :: "int \<Rightarrow> path" where
  "photo_file_name message_id = us (''Photo-'' @ show_int message_id @ ''.jpg'')"

definition to_ascii_lowercase :: "path \<Rightarrow> path" where
  "to_ascii_lowercase s = map (\<lambda>c. if 65 \<le> c \<and> c \<le> 90 then c + 32 else c) s"

definition suspected_envelope :: "path \<Rightarrow> path \<Rightarrow> bool" where
  "suspected_envelope document_name caption \<longleftrightarrow>
     caption = us ''TDENC2'' \<or> ends_with (to_ascii_lowercase document_name) (us ''.tdenc'')"

definition is_protected :: "remote_file \<Rightarrow> bool" where
  "is_protected f = suspected_envelope (case rf_document_name f of None \<Rightarrow> [] | Some n \<Rightarrow> n) (rf_caption f)"

definition is_safe_relative :: "path \<Rightarrow> bool" where
  "is_safe_relative p \<longleftrightarrow> p \<noteq> [] \<and> \<not> starts_with p [SLASH] \<and> BACKSLASH \<notin> set p \<and> 0 \<notin> set p \<and>
     (\<forall>component\<in>set (split_on SLASH p). component \<noteq> [] \<and> component \<noteq> us ''.'' \<and> component \<noteq> us ''..'')"

type_synonym known_paths = "(int, path) btree"

definition known_message_paths :: "synced_tree \<Rightarrow> known_paths" where
  "known_message_paths synced =
     fold (\<lambda>(_, entry) m. case se_message entry of None \<Rightarrow> m | Some i \<Rightarrow> bt_insert i (se_path entry) m) synced []"

definition remote_relative_path :: "remote_file \<Rightarrow> known_paths \<Rightarrow> path option" where
  "remote_relative_path f known =
     (case bt_get known (rf_message f) of
        Some p \<Rightarrow> Some p
      | None \<Rightarrow>
          if is_protected f
          then (case rf_sync_path f of None \<Rightarrow> None | Some p \<Rightarrow> if is_safe_relative p then Some p else None)
          else if is_safe_relative (rf_caption f) then Some (rf_caption f)
          else
            let name = (case rf_document_name f of None \<Rightarrow> photo_file_name (rf_message f) | Some n \<Rightarrow> n) in
            if is_safe_relative name then Some name else None)"

definition fingerprint_text :: "u64 \<Rightarrow> int \<Rightarrow> int option \<Rightarrow> int \<Rightarrow> int \<Rightarrow> string" where
  "fingerprint_text file_size created_at edited_at message_id media_id =
     show_int (uint file_size) @ '':'' @ show_int created_at @ '':'' @ show_option edited_at @ '':'' @
     show_int message_id @ '':'' @ show_int media_id"

definition remote_fingerprint ::
  "(string \<Rightarrow> string) \<Rightarrow> u64 \<Rightarrow> int \<Rightarrow> int option \<Rightarrow> int \<Rightarrow> int \<Rightarrow> string" where
  "remote_fingerprint hex_digest file_size created_at edited_at message_id media_id =
     ''v2:'' @ hex_digest (fingerprint_text file_size created_at edited_at message_id media_id)"

definition remote_tree_entry :: "(string \<Rightarrow> string) \<Rightarrow> remote_file \<Rightarrow> path \<Rightarrow> tree_entry" where
  "remote_tree_entry hex_digest f p =
     \<lparr>te_path = p,
      te_hash = remote_fingerprint hex_digest (rf_size f) (rf_created f) (rf_edited f) (rf_message f) (rf_media f),
      te_size = (case rf_plaintext_size f of None \<Rightarrow> rf_size f | Some n \<Rightarrow> n),
      te_modified = Some (case rf_edited f of None \<Rightarrow> rf_created f | Some t \<Rightarrow> t),
      te_message = Some (rf_message f)\<rparr>"

section \<open>The remote tree\<close>

datatype scan_error =
    DuplicatePath path int int
  | TooManyFiles

definition insert_remote_file ::
  "(string \<Rightarrow> string) \<Rightarrow> remote_file \<Rightarrow> known_paths \<Rightarrow> sync_preferences \<Rightarrow> file_tree \<Rightarrow> scan_error + file_tree" where
  "insert_remote_file hex_digest f known prefs tree =
     (case remote_relative_path f known of
        None \<Rightarrow> Ok tree
      | Some p \<Rightarrow>
          (case bt_get tree p of
             Some existing \<Rightarrow>
               if ignores prefs p then Ok tree
               else Err (DuplicatePath p (case te_message existing of None \<Rightarrow> 0 | Some i \<Rightarrow> i) (rf_message f))
           | None \<Rightarrow> Ok (bt_insert p (remote_tree_entry hex_digest f p) tree)))"

fun insert_remote_files ::
  "(string \<Rightarrow> string) \<Rightarrow> known_paths \<Rightarrow> sync_preferences \<Rightarrow> remote_file list \<Rightarrow> file_tree \<Rightarrow> scan_error + file_tree" where
  "insert_remote_files hex_digest known prefs [] tree = Ok tree"
| "insert_remote_files hex_digest known prefs (f # files) tree =
     rbind (insert_remote_file hex_digest f known prefs tree) (\<lambda>tree'.
     insert_remote_files hex_digest known prefs files tree')"

definition build_remote_tree ::
  "(string \<Rightarrow> string) \<Rightarrow> remote_file list \<Rightarrow> synced_tree \<Rightarrow> sync_preferences \<Rightarrow> scan_error + file_tree" where
  "build_remote_tree hex_digest files synced prefs =
     (if MAX_REMOTE_FILES < length files then Err TooManyFiles
      else insert_remote_files hex_digest (known_message_paths synced) prefs files [])"

text \<open>The entries of the messages a cycle uploaded, at the paths they were planned for.\<close>

definition uploaded_tree :: "(string \<Rightarrow> string) \<Rightarrow> (path \<times> int) list \<Rightarrow> remote_file list \<Rightarrow> file_tree" where
  "uploaded_tree hex_digest uploads files =
     fold (\<lambda>f tree. case find (\<lambda>(_, message_id). message_id = rf_message f) uploads of
            None \<Rightarrow> tree
          | Some (p, _) \<Rightarrow> bt_insert p (remote_tree_entry hex_digest f p) tree) files []"

section \<open>The fingerprint tells versions apart\<close>

lemma show_option_inj: "show_option x = show_option y \<Longrightarrow> x = y"
  by (cases x; cases y) (auto simp: show_option_def dest: show_int_inj)

lemma show_option_chars: "CHR '':'' \<notin> set (show_option x)"
  using show_int_chars by (auto simp: show_option_def split: option.splits)

lemma append_separator: "c \<notin> set a \<Longrightarrow> c \<notin> set b \<Longrightarrow> a @ c # s = b @ c # t \<Longrightarrow> a = b \<and> s = t"
proof (induction a arbitrary: b)
  case Nil
  then show ?case by (cases b) auto
next
  case (Cons x a)
  then show ?case by (cases b) auto
qed

text \<open>a remote fingerprint binds everything it is made of: two files with the same fingerprint text
  have the same size, dates, message and media.\<close>

theorem fingerprint_text_binds:
  assumes "fingerprint_text s1 c1 e1 m1 d1 = fingerprint_text s2 c2 e2 m2 d2"
  shows "s1 = s2 \<and> c1 = c2 \<and> e1 = e2 \<and> m1 = m2 \<and> d1 = d2"
  using assms
  by (auto simp: fingerprint_text_def simp flip: word_uint_eq_iff dest!: append_separator [OF show_int_chars(1) show_int_chars(1)]
      append_separator [OF show_option_chars show_option_chars] show_int_inj show_option_inj)

theorem fingerprint_text_binds_witness:
  "fingerprint_text 3 1700000000 None 5 9 \<noteq> fingerprint_text 3 1700000000 (Some 1700000001) 5 9"
  using fingerprint_text_binds by blast

section \<open>The tree is unambiguous\<close>

lemma insert_files_keep:
  assumes "insert_remote_files hx known prefs files tree = Ok tree'" and "bt_get tree p = Some e"
  shows "bt_get tree' p = Some e"
  using assms
  by (induction files arbitrary: tree) (fastforce simp: insert_remote_file_def split: option.splits if_splits)+

lemma insert_files_ok:
  "insert_remote_files hx known prefs files tree = Ok tree' \<Longrightarrow> bt_ok tree \<Longrightarrow> bt_ok tree'"
  by (induction files arbitrary: tree) (auto simp: insert_remote_file_def split: option.splits if_splits)

lemma insert_files_source:
  assumes "insert_remote_files hx known prefs files tree = Ok tree'" and "bt_get tree' p = Some e"
  shows "bt_get tree p = Some e \<or>
    (\<exists>f\<in>set files. remote_relative_path f known = Some p \<and> e = remote_tree_entry hx f p)"
  using assms
proof (induction files arbitrary: tree)
  case (Cons f files)
  then obtain t where t: "insert_remote_file hx f known prefs tree = Ok t" "insert_remote_files hx known prefs files t = Ok tree'"
    by auto
  from Cons.IH [OF t(2) Cons.prems(2)] t(1) show ?case
    by (auto simp: insert_remote_file_def split: option.splits if_splits)
qed simp

lemma insert_files_all:
  assumes "insert_remote_files hx known prefs files tree = Ok tree'" and "f \<in> set files"
    and "remote_relative_path f known = Some p" and "\<not> ignores prefs p"
  shows "bt_get tree' p = Some (remote_tree_entry hx f p)"
  using assms(1,2)
proof (induction files arbitrary: tree)
  case (Cons g files)
  then obtain t where t: "insert_remote_file hx g known prefs tree = Ok t" "insert_remote_files hx known prefs files t = Ok tree'"
    by auto
  show ?case
  proof (cases "g = f")
    case True
    then have "bt_get t p = Some (remote_tree_entry hx f p)"
      using t(1) assms(3,4) by (auto simp: insert_remote_file_def split: option.splits if_splits)
    then show ?thesis by (rule insert_files_keep [OF t(2)])
  next
    case False
    then show ?thesis using Cons.IH [OF t(2)] Cons.prems(2) by simp
  qed
qed simp

text \<open>C16: a remote tree is unambiguous: when a channel is accepted, every file message whose path is not
  ignored is the one entry at its path, and every entry is one of the messages; so two messages at one
  path, or more messages than the limit, are refused.\<close>

theorem remote_tree_unambiguous:
  assumes "build_remote_tree hex_digest files synced prefs = Ok tree"
  shows "length files \<le> 50000 \<and> bt_ok tree \<and>
    (\<forall>p e. bt_get tree p = Some e \<longrightarrow>
      (\<exists>f\<in>set files. remote_relative_path f (known_message_paths synced) = Some p \<and>
         e = remote_tree_entry hex_digest f p)) \<and>
    (\<forall>f\<in>set files. \<forall>p. remote_relative_path f (known_message_paths synced) = Some p \<and> \<not> ignores prefs p \<longrightarrow>
      bt_get tree p = Some (remote_tree_entry hex_digest f p))"
proof -
  have b: "insert_remote_files hex_digest (known_message_paths synced) prefs files [] = Ok tree" "length files \<le> 50000"
    using assms by (auto simp: build_remote_tree_def MAX_REMOTE_FILES_def split: if_splits)
  show ?thesis
    using b(2) insert_files_ok [OF b(1)] insert_files_source [OF b(1)] insert_files_all [OF b(1)] by auto
qed

definition demo_file_message :: remote_file where
  "demo_file_message = \<lparr>rf_message = 7, rf_caption = us ''a/b'', rf_document_name = Some (us ''b''), rf_media = 9,
     rf_size = 3, rf_created = 5, rf_edited = None, rf_sync_path = None, rf_plaintext_size = None\<rparr>"

theorem remote_tree_unambiguous_witness:
  "\<exists>tree. build_remote_tree (\<lambda>s. s) [demo_file_message] [] default_preferences = Ok tree \<and> bt_ok tree"
proof -
  have "remote_relative_path demo_file_message [] = Some (us ''a/b'')"
    by (simp add: remote_relative_path_def demo_file_message_def is_protected_def suspected_envelope_def us_def
        to_ascii_lowercase_def ends_with_def is_safe_relative_def starts_with_def char_codes)
  then have "build_remote_tree (\<lambda>s. s) [demo_file_message] [] default_preferences
      = Ok [(us ''a/b'', remote_tree_entry (\<lambda>s. s) demo_file_message (us ''a/b''))]"
    by (simp add: build_remote_tree_def known_message_paths_def insert_remote_file_def MAX_REMOTE_FILES_def)
  from remote_tree_unambiguous [OF this] this show ?thesis by blast
qed

end
