(* ===== verification/Sync_Contract.thy ===== *)
theory Sync_Contract
  imports Sync_Planner
begin

text \<open>
  What the planner promises: an operation never destroys a version of a file that was not the
  recorded one, a direction is kept, deletions are opt-in and bounded, and every path gets at
  most one operation.
\<close>

section \<open>The paths of a plan\<close>

lemma bt_ok_collect: "bt_ok m \<Longrightarrow> bt_ok (fold (\<lambda>p m. bt_insert p v m) ps m)"
  by (induction ps arbitrary: m) simp_all

lemma bt_keys_collect: "set (bt_keys (fold (\<lambda>p m. bt_insert p v m) ps m)) = set ps \<union> set (bt_keys m)"
  by (induction ps arbitrary: m) auto

lemma all_paths_set:
  "set (all_paths l r s) = set (bt_keys l) \<union> set (bt_keys r) \<union> set (bt_keys s)"
  by (auto simp: all_paths_def bt_keys_collect)

lemma all_paths_sorted: "sorted_wrt (<) (all_paths l r s)"
  using bt_ok_collect [OF bt_ok_Nil, of "()" "bt_keys l @ bt_keys r @ bt_keys s"]
  unfolding all_paths_def bt_ok_def bt_keys_def .

lemma plan_path_path: "plan_path l r s p = Some operation \<Longrightarrow> op_path operation = p"
  by (auto simp: plan_path_def compare_copies_def resolution_def Let_def
      split: option.splits if_splits bind_splits)

lemma redirect_path [simp]: "op_path (redirect l r d operation) = op_path operation"
  by (auto simp: redirect_def split: sync_operation.splits option.splits)

lemma withhold_path [simp]: "op_path (withhold_delete b operation) = op_path operation"
  by (simp add: withhold_delete_def)

lemma set_plan_unchecked:
  "operation \<in> set (plan_unchecked l r s) \<longleftrightarrow> (\<exists>p\<in>set (all_paths l r s). plan_path l r s p = Some operation)"
  by (force simp: plan_unchecked_def List.map_filter_def image_iff)

lemma plan_unchecked_paths:
  "map op_path (plan_unchecked l r s) = filter (\<lambda>p. plan_path l r s p \<noteq> None) (all_paths l r s)"
proof -
  have "map op_path (List.map_filter (plan_path l r s) ps) = filter (\<lambda>p. plan_path l r s p \<noteq> None) ps" for ps
    by (induction ps) (auto simp: List.map_filter_simps dest: plan_path_path split: option.splits)
  then show ?thesis by (simp add: plan_unchecked_def)
qed

lemma operations_paths:
  "map op_path (operations_for_policy l r s d b) = map op_path (plan_unchecked l r s)"
  by (simp add: operations_for_policy_def o_def)

lemma plan_path_present:
  assumes "plan_path l r s p = Some operation"
  shows "bt_get l p \<noteq> None \<or> bt_get r p \<noteq> None"
  using assms by (auto simp: plan_path_def compare_copies_def Let_def split: option.splits if_splits)

section \<open>Justified operations\<close>

text \<open>An operation is justified when what it removes or replaces is exactly the recorded version, so
  nothing that was edited since the last cycle is lost.\<close>

fun justified :: "file_tree \<Rightarrow> file_tree \<Rightarrow> synced_tree \<Rightarrow> sync_operation \<Rightarrow> bool" where
  "justified l r s (OpUpload p le) \<longleftrightarrow> bt_get l p = Some le \<and>
     (\<forall>re. bt_get r p = Some re \<longrightarrow> (\<exists>e. bt_get s p = Some e \<and> se_remote_hash e = Some (te_hash re)))"
| "justified l r s (OpDownload p re both expected) \<longleftrightarrow> bt_get r p = Some re \<and> \<not> both \<and>
     expected = map_option te_hash (bt_get l p) \<and>
     (\<forall>le. bt_get l p = Some le \<longrightarrow> (\<exists>e. bt_get s p = Some e \<and> se_local_hash e = Some (te_hash le)))"
| "justified l r s (OpDeleteLocal p h) \<longleftrightarrow> bt_get r p = None \<and>
     (\<exists>le e. bt_get l p = Some le \<and> h = te_hash le \<and> bt_get s p = Some e \<and> se_local_hash e = Some h \<and>
        se_remote_hash e \<noteq> None)"
| "justified l r s (OpDeleteRemote p m h) \<longleftrightarrow> bt_get l p = None \<and>
     (\<exists>re e. bt_get r p = Some re \<and> te_message re = Some m \<and> h = te_hash re \<and> bt_get s p = Some e \<and>
        se_remote_hash e = Some h \<and> se_local_hash e \<noteq> None)"
| "justified l r s (OpConflict p) \<longleftrightarrow> True"
| "justified l r s (OpSkip p) \<longleftrightarrow> True"

lemma plan_path_automatic:
  assumes "\<not> chosen_by_user s p"
  shows "plan_path l r s p =
    (if (case bt_get s p of None \<Rightarrow> False | Some e \<Rightarrow> se_status e = ''conflict'') \<and>
        (bt_get l p \<noteq> None \<or> bt_get r p \<noteq> None)
     then Some (OpConflict p) else compare_copies p (bt_get l p) (bt_get r p) (bt_get s p))"
  using assms by (auto simp: plan_path_def chosen_by_user_def resolution_def Let_def split: option.splits)

lemma compare_justified:
  assumes "compare_copies p (bt_get l p) (bt_get r p) (bt_get s p) = Some operation"
  shows "justified l r s operation"
  using assms by (auto simp: compare_copies_def Let_def split: option.splits if_splits)

lemma plan_justified:
  assumes "operation \<in> set (plan_unchecked l r s)" and "\<not> chosen_by_user s (op_path operation)"
  shows "justified l r s operation"
proof -
  obtain p where p: "plan_path l r s p = Some operation" using assms(1) by (auto simp: set_plan_unchecked)
  with plan_path_path assms(2) have "\<not> chosen_by_user s p" by fastforce
  from plan_path_automatic [OF this, of l r] p show ?thesis
    using compare_justified by (auto split: if_splits)
qed

lemma redirect_justified:
  "justified l r s operation \<Longrightarrow> justified l r s (redirect l r d operation)"
  by (cases operation) (auto simp: redirect_def split: option.splits)

lemma withhold_justified:
  "justified l r s operation \<Longrightarrow> justified l r s (withhold_delete b operation)"
  by (simp add: withhold_delete_def)

section \<open>Properties\<close>

text \<open>C14: the planner never loses an edit: whatever the direction and policy, an operation the user did
  not choose replaces or deletes a copy only when that copy is still the recorded one, and deletes it
  only when its counterpart, once recorded, is gone.\<close>

theorem plan_never_loses_edit:
  assumes "operation \<in> set (operations_for_policy l r s direction propagate)"
    and "\<not> chosen_by_user s (op_path operation)"
  shows "justified l r s operation"
proof -
  obtain o1 where o1: "o1 \<in> set (plan_unchecked l r s)"
    "operation = withhold_delete propagate (if chosen_by_user s (op_path o1) then o1 else redirect l r direction o1)"
    using assms(1) by (auto simp: operations_for_policy_def)
  then have "\<not> chosen_by_user s (op_path o1)" using assms(2) by (auto split: if_splits)
  with o1 plan_justified show ?thesis by (auto intro!: withhold_justified redirect_justified)
qed

definition demo_entry :: "string \<Rightarrow> int option \<Rightarrow> tree_entry" where
  "demo_entry h m = \<lparr>te_path = [97], te_hash = h, te_size = 3, te_modified = None, te_message = m\<rparr>"

definition demo_synced :: "string \<Rightarrow> string \<Rightarrow> synced_entry" where
  "demo_synced lh rh = \<lparr>se_path = [97], se_local_hash = Some lh, se_remote_hash = Some rh, se_size = 3,
     se_local_mtime = None, se_remote_date = None, se_message = Some 5, se_status = ''synced''\<rparr>"

theorem plan_never_loses_edit_witness:
  "justified [] [([97], demo_entry ''r'' (Some 5))] [([97], demo_synced ''l'' ''r'')]
     (OpDeleteRemote [97] 5 ''r'')"
proof (rule plan_never_loses_edit)
  show "OpDeleteRemote [97] 5 ''r'' \<in> set (operations_for_policy [] [([97], demo_entry ''r'' (Some 5))]
      [([97], demo_synced ''l'' ''r'')] ''bidirectional'' True)"
    by (simp add: operations_for_policy_def plan_unchecked_def all_paths_def List.map_filter_simps plan_path_def
        compare_copies_def resolution_def demo_entry_def demo_synced_def redirect_def withhold_delete_def
        chosen_by_user_def)
qed (simp add: chosen_by_user_def demo_synced_def)

text \<open>a direction is one: an upload-only plan neither downloads nor deletes local files, a
  download-only plan neither uploads nor deletes Telegram files, save where the user chose; and without
  the opt-in to propagate deletions no plan deletes anything.\<close>

theorem plan_keeps_direction:
  assumes "operation \<in> set (operations_for_policy l r s direction propagate)"
  shows "(direction = ''upload_only'' \<and> \<not> chosen_by_user s (op_path operation) \<longrightarrow>
      (\<forall>p re both e h. operation \<noteq> OpDownload p re both e \<and> operation \<noteq> OpDeleteLocal p h)) \<and>
    (direction = ''download_only'' \<and> \<not> chosen_by_user s (op_path operation) \<longrightarrow>
      (\<forall>p le m h. operation \<noteq> OpUpload p le \<and> operation \<noteq> OpDeleteRemote p m h)) \<and>
    (\<not> propagate \<longrightarrow> \<not> is_delete operation)"
proof -
  obtain o1 where o1: "operation = withhold_delete propagate
      (if chosen_by_user s (op_path o1) then o1 else redirect l r direction o1)"
    using assms by (auto simp: operations_for_policy_def)
  have w: "\<not> propagate \<longrightarrow> \<not> is_delete (withhold_delete propagate o2)" for o2
    by (simp add: withhold_delete_def)
  have "\<not> chosen_by_user s (op_path operation) \<Longrightarrow> operation = withhold_delete propagate (redirect l r direction o1)"
    using o1 by (auto split: if_splits)
  then show ?thesis
    using o1 w by (cases o1) (auto simp: redirect_def withhold_delete_def split: option.splits if_splits)
qed

theorem plan_keeps_direction_witness:
  "\<not> is_delete (OpSkip [97])"
proof -
  have "OpSkip [97] \<in> set (operations_for_policy [] [([97], demo_entry ''r'' (Some 5))]
      [([97], demo_synced ''l'' ''r'')] ''bidirectional'' False)"
    by (simp add: operations_for_policy_def plan_unchecked_def all_paths_def List.map_filter_simps plan_path_def
        compare_copies_def resolution_def demo_entry_def demo_synced_def redirect_def withhold_delete_def
        chosen_by_user_def)
  from plan_keeps_direction [OF this] show ?thesis by blast
qed

lemma delete_path_recorded:
  assumes "operation \<in> set (operations_for_policy l r s d b)" and "is_delete operation"
  shows "op_path operation \<in> set (bt_keys s)"
proof -
  obtain o1 where o1: "o1 \<in> set (plan_unchecked l r s)"
    "operation = withhold_delete b (if chosen_by_user s (op_path o1) then o1 else redirect l r d o1)"
    using assms(1) by (auto simp: operations_for_policy_def)
  show ?thesis
  proof (cases "chosen_by_user s (op_path o1)")
    case True
    then have "bt_get s (op_path operation) \<noteq> None"
      using o1(2) by (auto simp: chosen_by_user_def split: option.splits)
    then show ?thesis by (simp add: bt_get_None_iff)
  next
    case False
    then have "justified l r s operation" using plan_justified [OF o1(1)] o1(2)
      by (auto intro!: withhold_justified redirect_justified)
    then have "bt_get s (op_path operation) \<noteq> None" using assms(2) by (cases operation) auto
    then show ?thesis by (simp add: bt_get_None_iff)
  qed
qed

lemma operations_sorted: "sorted_wrt (<) (map op_path (operations_for_policy l r s d b))"
  by (simp add: operations_paths plan_unchecked_paths sorted_wrt_filter all_paths_sorted)

lemma deletes_bounded: "length (filter is_delete (operations_for_policy l r s d b)) \<le> length s"
proof -
  let ?ds = "map op_path (filter is_delete (operations_for_policy l r s d b))"
  have "distinct (map op_path (operations_for_policy l r s d b))"
    using operations_sorted [of l r s d b] by (simp add: strict_sorted_iff)
  then have "distinct ?ds" by (simp add: distinct_map_filter)
  moreover have "set ?ds \<subseteq> set (bt_keys s)" using delete_path_recorded by auto
  ultimately have "length ?ds \<le> card (set (bt_keys s))"
    using card_mono [of "set (bt_keys s)" "set ?ds"] distinct_card [of ?ds] by (metis List.finite_set)
  also have "\<dots> \<le> length s" using card_length [of "bt_keys s"] by simp
  finally show ?thesis by simp
qed

text \<open>C15: the mass-deletion guard: a plan is handed to execution exactly when at most half of the
  recorded files would be deleted by it; a refused plan reports both numbers.\<close>

theorem mass_deletion_bounded:
  assumes "length s < 2 ^ 64 - 1"
  shows "plan_for_policy l r s direction propagate =
    (let ops = operations_for_policy l r s direction propagate;
         n = length (filter is_delete ops) in
     if 2 * n \<le> length s then Ok ops else Err (MassDeletionProtection n (length s)))"
  using deletes_bounded [of l r s direction propagate] assms
  by (auto simp: plan_for_policy_def enforce_mass_deletion_def Let_def min_def)

theorem mass_deletion_bounded_witness:
  "plan_for_policy [] [([97], demo_entry ''r'' (Some 5))] [([97], demo_synced ''l'' ''r'')] ''bidirectional'' True
    = Err (MassDeletionProtection 1 1)"
  by (subst mass_deletion_bounded)
    (simp_all add: operations_for_policy_def plan_unchecked_def all_paths_def List.map_filter_simps plan_path_def
        compare_copies_def resolution_def demo_entry_def demo_synced_def redirect_def withhold_delete_def
        chosen_by_user_def Let_def)

text \<open>a plan has one operation for each path, in the order of the paths, and none for a path that
  neither tree has.\<close>

theorem plan_one_operation_per_path:
  "sorted_wrt (<) (map op_path (operations_for_policy l r s direction propagate)) \<and>
   set (map op_path (operations_for_policy l r s direction propagate)) \<subseteq> set (bt_keys l) \<union> set (bt_keys r)"
proof
  show "sorted_wrt (<) (map op_path (operations_for_policy l r s direction propagate))"
    by (rule operations_sorted)
  show "set (map op_path (operations_for_policy l r s direction propagate)) \<subseteq> set (bt_keys l) \<union> set (bt_keys r)"
    unfolding operations_paths plan_unchecked_paths
    using plan_path_present by (fastforce simp: bt_get_None_iff)
qed

section \<open>Baselines\<close>

lemma adoption_local: "bt_get s p = bt_get s' p \<Longrightarrow> adoption r s p le = adoption r s' p le"
  by (auto simp: adoption_def split: option.split)

lemma adopt_spec:
  assumes "bt_ok l" and "adopt_matching_files l r s = (ps, s')"
  shows "(p \<in> set ps \<longleftrightarrow> (\<exists>le. bt_get l p = Some le \<and> adoption r s p le \<noteq> None)) \<and>
    bt_get s' p = (case Option.bind (bt_get l p) (adoption r s p) of None \<Rightarrow> bt_get s p | Some e \<Rightarrow> Some e)"
  using assms
proof (induction l r s arbitrary: ps s' rule: adopt_matching_files.induct)
  case (2 q l local remote synced)
  have ok: "bt_ok local" "bt_get local q = None"
    using 2(3) by (auto simp: bt_get_None_iff)
  show ?case
  proof (cases "adoption remote synced q l")
    case None
    then have "adopt_matching_files local remote synced = (ps, s')" using 2(4) by simp
    from 2(1) [OF None ok(1) this] show ?thesis using None ok(2) by auto
  next
    case (Some e)
    obtain ps1 where r: "adopt_matching_files local remote (bt_insert q e synced) = (ps1, s')" "ps = q # ps1"
      using 2(4) Some by (auto split: prod.splits)
    have "adoption remote (bt_insert q e synced) p le = adoption remote synced p le" if "p \<noteq> q" for le
      using that by (intro adoption_local) simp
    then show ?thesis using 2(2) [OF Some ok(1) r(1)] r(2) Some ok(2)
      by (cases "p = q") (auto split: option.splits bind_splits)
  qed
qed simp

lemma resume_spec:
  assumes "bt_ok s" and "resume_interrupted_uploads l r s = (ps, s')"
  shows "(p \<in> set ps \<longleftrightarrow> (\<exists>e. bt_get s p = Some e \<and> resumed_entry l r p e \<noteq> None)) \<and> bt_keys s' = bt_keys s \<and>
    bt_get s' p = (case Option.bind (bt_get s p) (resumed_entry l r p) of None \<Rightarrow> bt_get s p | Some e \<Rightarrow> Some e)"
  using assms
proof (induction l r s arbitrary: ps s' rule: resume_interrupted_uploads.induct)
  case (2 l r q e synced)
  have ok: "bt_ok synced" "bt_get synced q = None" using 2(2) by (auto simp: bt_get_None_iff)
  obtain ps1 s1 where r: "resume_interrupted_uploads l r synced = (ps1, s1)" by fastforce
  from 2(1) [OF ok(1) r] 2(3) r ok(2) show ?case by (auto split: option.splits)
qed (simp add: bt_keys_def)

text \<open>adopting and resuming settle: a path that was adopted or whose interrupted upload was completed
  needs no operation any more, and every other record is left as it was.\<close>

theorem baselined_paths_settled:
  assumes "bt_ok l" and "bt_ok s" and "resume_interrupted_uploads l r s = (resumed, s1)"
    and "adopt_matching_files l r s1 = (adopted, s2)"
  shows "(p \<in> set resumed \<union> set adopted \<longrightarrow> plan_path l r s2 p = Some (OpSkip p)) \<and>
    (p \<notin> set resumed \<union> set adopted \<longrightarrow> bt_get s2 p = bt_get s p)"
proof -
  note R = resume_spec [OF assms(2,3), of p] and A = adopt_spec [OF assms(1,4), of p]
  have "\<exists>le re e. bt_get l p = Some le \<and> bt_get r p = Some re \<and> bt_get s2 p = Some e \<and> se_status e = ''synced'' \<and>
      se_local_hash e = Some (te_hash le) \<and> se_remote_hash e = Some (te_hash re)"
    if m: "p \<in> set resumed \<union> set adopted"
  proof (cases "p \<in> set adopted")
    case True
    then show ?thesis using A by (auto simp: adoption_def adopted_entry_def Let_def split: option.splits if_splits)
  next
    case False
    then obtain e e' where e: "bt_get s p = Some e" "resumed_entry l r p e = Some e'" "bt_get s1 p = Some e'"
      using m R by (auto split: option.splits)
    have "bt_get s2 p = Some e'" using A False e(3) by (auto split: option.splits bind_splits)
    then show ?thesis using e(2) by (auto simp: resumed_entry_def split: option.splits if_splits)
  qed
  moreover have "p \<notin> set resumed \<union> set adopted \<longrightarrow> bt_get s2 p = bt_get s p"
    using R A by (auto split: option.splits bind_splits)
  ultimately show ?thesis
    by (auto simp: plan_path_def resolution_def compare_copies_def Let_def)
qed

theorem baselined_paths_settled_witness:
  "plan_path [([97], demo_entry ''l'' None)] [([97], demo_entry ''r'' (Some 5))]
     [([97], adopted_entry [97] (demo_entry ''l'' None) (demo_entry ''r'' (Some 5)))] [97] = Some (OpSkip [97])"
proof -
  let ?l = "[([97], demo_entry ''l'' None)]" and ?r = "[([97], demo_entry ''r'' (Some 5))]"
  have "resume_interrupted_uploads ?l ?r [] = ([], [])" by simp
  moreover have "adopt_matching_files ?l ?r [] =
      ([[97]], [([97], adopted_entry [97] (demo_entry ''l'' None) (demo_entry ''r'' (Some 5)))])"
    by (simp add: adoption_def demo_entry_def)
  ultimately show ?thesis
    using baselined_paths_settled [of ?l "[]" ?r "[]" "[]" "[[97]]" _ "[97]"] by simp
qed

end
