(* ===== verification/Sync_State.thy ===== *)
theory Sync_State
  imports Sync_Remote Sync_Contract
begin

text \<open>
  The rows of the \<open>sync_state\<close> table for one mapping (\<open>sync_engine/mod.rs\<close>): a \<open>synced_tree\<close>, and the
  SQL statements the engine runs on it. A function that writes returns its statements in order;
  \<open>run_statements\<close> applies them and stops at the first that fails.
\<close>

section \<open>The rows of a mapping\<close>

definition RACY_MTIME_WINDOW_SECS :: int where "RACY_MTIME_WINDOW_SECS = 2"

definition settled_mtime :: "int option \<Rightarrow> int \<Rightarrow> int option" where
  "settled_mtime modified_at now =
     (case modified_at of
        None \<Rightarrow> None
      | Some t \<Rightarrow> if RACY_MTIME_WINDOW_SECS \<le> now - t then Some t else None)"

text \<open>A size is stored as \<open>i64\<close> and read back as \<open>max(0)\<close>.\<close>

definition stored_size :: "u64 \<Rightarrow> u64" where
  "stored_size n = (if n < 0x8000000000000000 then n else 0)"

datatype db_statement =
    UpsertState path "tree_entry option" "tree_entry option" string
  | DeleteState path
  | SetStateStatus path string
  | RefreshMetadata tree_entry

definition state_row :: "int \<Rightarrow> path \<Rightarrow> tree_entry option \<Rightarrow> tree_entry option \<Rightarrow> string \<Rightarrow> synced_entry" where
  "state_row now p l r status =
     \<lparr>se_path = p, se_local_hash = map_option te_hash l, se_remote_hash = map_option te_hash r,
      se_size = (case (l, r) of (Some e, _) \<Rightarrow> stored_size (te_size e)
                 | (None, Some e) \<Rightarrow> stored_size (te_size e) | (None, None) \<Rightarrow> 0),
      se_local_mtime = settled_mtime (Option.bind l te_modified) now,
      se_remote_date = Option.bind r te_modified,
      se_message = Option.bind r te_message, se_status = status\<rparr>"

fun exec_statement :: "int \<Rightarrow> db_statement \<Rightarrow> synced_tree \<Rightarrow> synced_tree" where
  "exec_statement now (UpsertState p l r status) db = bt_insert p (state_row now p l r status) db"
| "exec_statement now (DeleteState p) db = bt_remove p db"
| "exec_statement now (SetStateStatus p status) db =
     (case bt_get db p of None \<Rightarrow> db | Some row \<Rightarrow> bt_insert p (row\<lparr>se_status := status\<rparr>) db)"
| "exec_statement now (RefreshMetadata e) db =
     (case bt_get db (te_path e) of
        None \<Rightarrow> db
      | Some row \<Rightarrow>
          if se_local_hash row = Some (te_hash e) \<and> se_status row = ''synced''
          then bt_insert (te_path e) (row\<lparr>se_size := stored_size (te_size e), se_local_mtime := te_modified e\<rparr>) db
          else db)"

text \<open>\<open>fault k = Some msg\<close>: the \<open>k\<close>-th statement fails with \<open>msg\<close>.\<close>

fun run_statements ::
  "(nat \<Rightarrow> string option) \<Rightarrow> int \<Rightarrow> db_statement list \<Rightarrow> synced_tree \<Rightarrow> (string + unit) \<times> synced_tree" where
  "run_statements fault now [] db = (Ok (), db)"
| "run_statements fault now (q # qs) db =
     (case fault 0 of
        Some msg \<Rightarrow> (Err msg, db)
      | None \<Rightarrow> run_statements (\<lambda>k. fault (Suc k)) now qs (exec_statement now q db))"

end
