(* ===== verification/Sync_Scan.thy ===== *)
theory Sync_Scan
  imports Sync_State
begin

text \<open>
  The local side of a mapping (\<open>scan_local\<close> in \<open>sync_engine/mod.rs\<close>): the walk over the mapped folder
  with its ignore rules, and the scan that hashes each file or, for an unchanged size and
  modification time, reuses the hash recorded for it. The folder is a tree of nodes; what the
  operating system answers for a node (its name, metadata, content hash, or an error) is part of it.
\<close>

section \<open>The walk\<close>

text \<open>A name that is not valid UTF-8 is only known by its lossy conversion.\<close>

datatype os_name = Utf8 (lossy: path) | NotUtf8 (lossy: path)

record file_metadata =
  fm_len :: u64
  fm_modified :: "int option"

datatype disk_node =
    DiskFile os_name "string + file_metadata" "string + string"
  | DiskDir os_name "disk_node list"
  | DiskBroken os_name string
  | DiskOther os_name

fun join_path :: "path list \<Rightarrow> path" where
  "join_path [] = []"
| "join_path [p] = p"
| "join_path (p # q # ps) = p @ SLASH # join_path (q # ps)"

definition lossy_path :: "os_name list \<Rightarrow> path" where
  "lossy_path names = join_path (map lossy names)"

record walked =
  wk_names :: "os_name list"
  wk_metadata :: "string + file_metadata"
  wk_hash :: "string + string"

definition keep_entry :: "sync_preferences \<Rightarrow> os_name list \<Rightarrow> bool \<Rightarrow> bool" where
  "keep_entry prefs names is_dir \<longleftrightarrow>
     \<not> (ignores prefs (lossy_path names) \<or> is_dir \<and> ignores prefs (lossy_path names @ [SLASH]))"

text \<open>The regular files and errors the walk yields, in its order. A directory that cannot be opened
  yields an error; a link or special file is not followed and yields nothing to scan.\<close>

fun walk_node :: "sync_preferences \<Rightarrow> os_name list \<Rightarrow> disk_node \<Rightarrow> (string + walked) list" where
  "walk_node prefs dir (DiskFile n metadata h) =
     (if keep_entry prefs (dir @ [n]) False
      then [Inr \<lparr>wk_names = dir @ [n], wk_metadata = metadata, wk_hash = h\<rparr>] else [])"
| "walk_node prefs dir (DiskDir n nodes) =
     (if keep_entry prefs (dir @ [n]) True
      then concat (map (walk_node prefs (dir @ [n])) nodes) else [])"
| "walk_node prefs dir (DiskBroken n e) = (if keep_entry prefs (dir @ [n]) True then [Err e] else [])"
| "walk_node prefs dir (DiskOther n) = []"

definition walk_root :: "sync_preferences \<Rightarrow> disk_node list \<Rightarrow> (string + walked) list" where
  "walk_root prefs nodes = concat (map (walk_node prefs []) nodes)"

section \<open>The scan\<close>

datatype local_scan_mode = HashEveryFile | ReuseRecordedHashes

record recorded_local_file =
  rl_size :: u64
  rl_modified :: "int option"
  rl_hash :: string

definition recorded_local_file_of :: "synced_entry \<Rightarrow> recorded_local_file option" where
  "recorded_local_file_of entry =
     (if se_status entry = ''synced'' then
        (case se_local_hash entry of
           None \<Rightarrow> None
         | Some h \<Rightarrow> if h = [] then None
             else Some \<lparr>rl_size = se_size entry, rl_modified = se_local_mtime entry, rl_hash = h\<rparr>)
      else None)"

definition recorded_local_files :: "synced_tree \<Rightarrow> (path, recorded_local_file) btree" where
  "recorded_local_files synced =
     fold (\<lambda>(_, entry) m. case recorded_local_file_of entry of None \<Rightarrow> m
                          | Some r \<Rightarrow> bt_insert (se_path entry) r m) synced []"

record local_scan =
  ls_tree :: file_tree
  ls_hashed :: nat
  ls_reused :: nat
  ls_refresh :: "tree_entry list"

definition metadata_matches :: "int \<Rightarrow> recorded_local_file option \<Rightarrow> file_metadata \<Rightarrow> bool" where
  "metadata_matches now previous metadata =
     (case previous of
        None \<Rightarrow> False
      | Some r \<Rightarrow> rl_size r = fm_len metadata \<and> rl_modified r \<noteq> None \<and>
          rl_modified r = settled_mtime (fm_modified metadata) now)"

definition reuses_hash :: "int \<Rightarrow> local_scan_mode \<Rightarrow> recorded_local_file option \<Rightarrow> file_metadata \<Rightarrow> bool" where
  "reuses_hash now mode previous metadata \<longleftrightarrow>
     mode = ReuseRecordedHashes \<and> metadata_matches now previous metadata"

definition hash_of_file ::
  "int \<Rightarrow> local_scan_mode \<Rightarrow> recorded_local_file option \<Rightarrow> file_metadata \<Rightarrow> string + string \<Rightarrow> string + string" where
  "hash_of_file now mode previous metadata content_hash =
     (case previous of
        Some r \<Rightarrow> if reuses_hash now mode previous metadata then Ok (rl_hash r) else content_hash
      | None \<Rightarrow> content_hash)"

definition scan_file ::
  "int \<Rightarrow> local_scan_mode \<Rightarrow> (path, recorded_local_file) btree \<Rightarrow> path \<Rightarrow> file_metadata \<Rightarrow> string + string \<Rightarrow>
   local_scan \<Rightarrow> string + local_scan" where
  "scan_file now mode recorded p metadata content_hash scan =
     (let previous = bt_get recorded p; reuse = reuses_hash now mode previous metadata in
      rbind (hash_of_file now mode previous metadata content_hash) (\<lambda>h.
      let entry = \<lparr>te_path = p, te_hash = h, te_size = fm_len metadata, te_modified = fm_modified metadata,
                   te_message = None\<rparr>;
          stale = ((case previous of None \<Rightarrow> False | Some r \<Rightarrow> rl_hash r = h) \<and>
                   \<not> metadata_matches now previous metadata \<and> settled_mtime (fm_modified metadata) now \<noteq> None) in
      Ok \<lparr>ls_tree = bt_insert p entry (ls_tree scan),
          ls_hashed = ls_hashed scan + (if reuse then 0 else 1),
          ls_reused = ls_reused scan + (if reuse then 1 else 0),
          ls_refresh = ls_refresh scan @ (if stale then [entry] else [])\<rparr>))"

definition utf8_path :: "os_name list \<Rightarrow> path option" where
  "utf8_path names =
     (if list_all (\<lambda>n. case n of Utf8 _ \<Rightarrow> True | NotUtf8 _ \<Rightarrow> False) names then Some (lossy_path names) else None)"

definition is_staging :: "os_name list \<Rightarrow> bool" where
  "is_staging names = ends_with (lossy (last names)) staging_suffix"

fun scan_entries ::
  "int \<Rightarrow> local_scan_mode \<Rightarrow> (path, recorded_local_file) btree \<Rightarrow> (string + walked) list \<Rightarrow> local_scan \<Rightarrow>
   string + local_scan" where
  "scan_entries now mode recorded [] scan = Ok scan"
| "scan_entries now mode recorded (Inl e # entries) scan = Err e"
| "scan_entries now mode recorded (Inr w # entries) scan =
     (if is_staging (wk_names w) then scan_entries now mode recorded entries scan
      else
        rbind (ok_or (utf8_path (wk_names w))
                ''Folder contains a non-UTF-8 filename that cannot be represented safely'') (\<lambda>p.
        rbind (wk_metadata w) (\<lambda>metadata.
        rbind (scan_file now mode recorded p metadata (wk_hash w) scan) (\<lambda>scan'.
        scan_entries now mode recorded entries scan'))))"

definition scan_local ::
  "int \<Rightarrow> local_scan_mode \<Rightarrow> sync_preferences \<Rightarrow> synced_tree option \<Rightarrow> string + disk_node list \<Rightarrow> string + local_scan" where
  "scan_local now mode prefs synced root =
     rbind root (\<lambda>nodes.
     scan_entries now mode (case synced of None \<Rightarrow> [] | Some t \<Rightarrow> recorded_local_files t) (walk_root prefs nodes)
       \<lparr>ls_tree = [], ls_hashed = 0, ls_reused = 0, ls_refresh = []\<rparr>)"

end
