(* ===== verification/Sync_Cycle.thy ===== *)
theory Sync_Cycle
  imports Sync_Scan
begin

text \<open>
  One reconciliation cycle of a mapping (\<open>sync_engine/mod.rs\<close>): the preparation with its
  bookkeeping, the recording of the results of its operations, and the cleanup of the messages
  its uploads replaced.
\<close>

section \<open>Preparing a cycle\<close>

definition retain_tree_paths ::
  "sync_preferences \<Rightarrow> file_tree \<Rightarrow> file_tree \<Rightarrow> synced_tree \<Rightarrow> file_tree \<times> file_tree \<times> synced_tree" where
  "retain_tree_paths prefs l r s =
     (bt_retain (\<lambda>p _. \<not> ignores prefs p) l, bt_retain (\<lambda>p _. \<not> ignores prefs p) r,
      bt_retain (\<lambda>p _. \<not> ignores prefs p) s)"

record prepared_cycle =
  pc_local :: file_tree
  pc_remote :: file_tree
  pc_synced :: synced_tree
  pc_operations :: "sync_operation list"
  pc_conflicts :: nat
  pc_baselined :: "path list"

fun is_conflict :: "sync_operation \<Rightarrow> bool" where
  "is_conflict (OpConflict _) = True"
| "is_conflict _ = False"

fun is_skip :: "sync_operation \<Rightarrow> bool" where
  "is_skip (OpSkip _) = True"
| "is_skip _ = False"

definition prepare_reconciliation ::
  "sync_preferences \<Rightarrow> string \<Rightarrow> local_scan \<Rightarrow> synced_tree \<Rightarrow> file_tree \<Rightarrow>
   (sync_error + prepared_cycle) \<times> db_statement list" where
  "prepare_reconciliation prefs direction scan synced remote =
     (case retain_tree_paths prefs (ls_tree scan) remote synced of (l, r, s) \<Rightarrow>
      let vanished = filter (\<lambda>p. \<not> bt_contains l p \<and> \<not> bt_contains r p) (bt_keys s) in
      case resume_interrupted_uploads l r s of (resumed, s1) \<Rightarrow>
      case (if sp_adopt_matching_files prefs then adopt_matching_files l r s1 else ([], s1)) of (adopted, s2) \<Rightarrow>
      let baselined = resumed @ adopted;
          writes = map DeleteState vanished @
            map (\<lambda>p. UpsertState p (bt_get l p) (bt_get r p) ''synced'') baselined @
            map RefreshMetadata (filter (\<lambda>e. bt_contains l (te_path e)) (ls_refresh scan)) in
      case plan_for_policy l r s2 direction (sp_propagate_deletions prefs) of
        Inl e \<Rightarrow> (Err e, writes)
      | Inr operations \<Rightarrow>
          let conflicts = filter is_conflict operations in
          (Ok \<lparr>pc_local = l, pc_remote = r, pc_synced = s2, pc_operations = operations,
               pc_conflicts = length conflicts, pc_baselined = baselined\<rparr>,
           writes @ map (\<lambda>operation. let p = op_path operation in
              if bt_contains s2 p then SetStateStatus p ''conflict''
              else UpsertState p (bt_get l p) (bt_get r p) ''conflict'') conflicts))"

text \<open>What a successful preparation consists of.\<close>

lemma prepare_OkE:
  assumes "prepare_reconciliation prefs direction scan synced remote = (Ok prepared, writes)"
  obtains resumed s1 adopted where
    "pc_local prepared = bt_retain (\<lambda>p _. \<not> ignores prefs p) (ls_tree scan)"
    "pc_remote prepared = bt_retain (\<lambda>p _. \<not> ignores prefs p) remote"
    "resume_interrupted_uploads (pc_local prepared) (pc_remote prepared)
       (bt_retain (\<lambda>p _. \<not> ignores prefs p) synced) = (resumed, s1)"
    "(if sp_adopt_matching_files prefs then adopt_matching_files (pc_local prepared) (pc_remote prepared) s1
      else ([], s1)) = (adopted, pc_synced prepared)"
    "pc_baselined prepared = resumed @ adopted"
    "pc_operations prepared = operations_for_policy (pc_local prepared) (pc_remote prepared) (pc_synced prepared)
       direction (sp_propagate_deletions prefs)"
    "plan_for_policy (pc_local prepared) (pc_remote prepared) (pc_synced prepared) direction
       (sp_propagate_deletions prefs) = Ok (pc_operations prepared)"
    "pc_conflicts prepared = length (filter is_conflict (pc_operations prepared))"
    "writes = map DeleteState (filter (\<lambda>p. \<not> bt_contains (pc_local prepared) p \<and> \<not> bt_contains (pc_remote prepared) p)
         (bt_keys (bt_retain (\<lambda>p _. \<not> ignores prefs p) synced))) @
       map (\<lambda>p. UpsertState p (bt_get (pc_local prepared) p) (bt_get (pc_remote prepared) p) ''synced'') (pc_baselined prepared) @
       map RefreshMetadata (filter (\<lambda>e. bt_contains (pc_local prepared) (te_path e)) (ls_refresh scan)) @
       map (\<lambda>operation. let p = op_path operation in
         if bt_contains (pc_synced prepared) p then SetStateStatus p ''conflict''
         else UpsertState p (bt_get (pc_local prepared) p) (bt_get (pc_remote prepared) p) ''conflict'')
         (filter is_conflict (pc_operations prepared))"
  using assms
  by (auto simp: prepare_reconciliation_def retain_tree_paths_def plan_for_policy_def enforce_mass_deletion_def Let_def
      split: prod.splits sum.splits if_splits)

definition actionable_operations :: "sync_operation list \<Rightarrow> nat" where
  "actionable_operations operations =
     length (filter (\<lambda>operation. \<not> (is_skip operation \<or> is_conflict operation)) operations)"

definition drop_settled_skips :: "prepared_cycle \<Rightarrow> prepared_cycle" where
  "drop_settled_skips prepared =
     prepared\<lparr>pc_operations := filter (\<lambda>operation.
        \<not> is_skip operation \<or> \<not> bt_contains (pc_synced prepared) (op_path operation) \<or>
        (case (bt_get (pc_local prepared) (op_path operation), bt_get (pc_remote prepared) (op_path operation),
               bt_get (pc_synced prepared) (op_path operation)) of
           (Some l, Some r, Some previous) \<Rightarrow>
             se_local_hash previous \<noteq> Some (te_hash l) \<or> se_remote_hash previous \<noteq> Some (te_hash r)
         | _ \<Rightarrow> False)) (pc_operations prepared)\<rparr>"

section \<open>Recording results\<close>

record execution_result =
  xr_path :: path
  xr_action :: string
  xr_success :: bool
  xr_detail :: "string option"
  xr_message :: "int option"
  xr_local_hash :: "string option"

fun action_of :: "sync_operation \<Rightarrow> string" where
  "action_of (OpUpload _ _) = ''upload''"
| "action_of (OpDownload _ _ both _) = (if both then ''keep_both'' else ''download'')"
| "action_of (OpDeleteLocal _ _) = ''delete_local''"
| "action_of (OpDeleteRemote _ _ _) = ''delete_remote''"
| "action_of (OpConflict _) = ''conflict''"
| "action_of (OpSkip _) = ''skip''"

definition journal_upload :: "path \<Rightarrow> tree_entry \<Rightarrow> int \<Rightarrow> db_statement" where
  "journal_upload p local_entry message_id =
     UpsertState p (Some local_entry) (Some (local_entry\<lparr>te_message := Some message_id, te_hash := []\<rparr>)) ''syncing''"

definition journal_uploads :: "file_tree \<Rightarrow> execution_result list \<Rightarrow> db_statement list \<times> (path \<times> int) list" where
  "journal_uploads local results =
     (let done_uploads = List.map_filter (\<lambda>result.
            if xr_success result \<and> xr_action result = ''upload''
            then (case (xr_message result, bt_get local (xr_path result)) of
                    (Some message_id, Some entry) \<Rightarrow> Some (xr_path result, entry, message_id)
                  | _ \<Rightarrow> None)
            else None) results in
      (map (\<lambda>(p, entry, message_id). journal_upload p entry message_id) done_uploads,
       map (\<lambda>(p, entry, message_id). (p, message_id)) done_uploads))"

definition contains_text :: "string \<Rightarrow> string \<Rightarrow> bool" where
  "contains_text s t \<longleftrightarrow> (\<exists>k\<le>length s. take (length t) (drop k s) = t)"

definition failure_status :: "execution_result \<Rightarrow> string" where
  "failure_status result =
     (let detail = (\<lambda>t. case xr_detail result of None \<Rightarrow> False | Some d \<Rightarrow> contains_text d t) in
      if xr_action result = ''conflict'' then ''conflict''
      else if detail ''VAULT_LOCKED'' then ''paused_vault''
      else if xr_action result = ''upload'' \<and> (detail ''Telegram sync limit'' \<or> detail ''Telegram size limit'')
      then ''skipped'' else ''error'')"

definition record_result :: "prepared_cycle \<Rightarrow> file_tree \<Rightarrow> execution_result \<Rightarrow> db_statement list" where
  "record_result prepared uploaded result =
     (let p = xr_path result; l = bt_get (pc_local prepared) p; r = bt_get (pc_remote prepared) p in
      if \<not> xr_success result then
        (if bt_contains (pc_synced prepared) p then [SetStateStatus p (failure_status result)]
         else [UpsertState p l r (failure_status result)])
      else if xr_action result = ''upload'' then
        (case bt_get uploaded p of None \<Rightarrow> [] | Some e \<Rightarrow> [UpsertState p l (Some e) ''synced''])
      else if xr_action result = ''download'' then
        [UpsertState p
          (case (xr_local_hash result, r) of
             (Some h, Some e) \<Rightarrow> Some (e\<lparr>te_hash := h, te_message := None, te_modified := None\<rparr>)
           | _ \<Rightarrow> None) r ''synced'']
      else if xr_action result = ''delete_local'' \<or> xr_action result = ''delete_remote'' then [DeleteState p]
      else if l = None \<and> r = None then [DeleteState p]
      else [UpsertState p l r ''synced''])"

definition record_results :: "prepared_cycle \<Rightarrow> execution_result list \<Rightarrow> file_tree \<Rightarrow> db_statement list" where
  "record_results prepared results uploaded = concat (map (record_result prepared uploaded) results)"

section \<open>Cleaning up replaced messages\<close>

datatype cleanup_action = DeleteOld | AlreadyGone | PreserveOld

fun cleanup_action_of :: "bool \<Rightarrow> bool \<Rightarrow> bool \<Rightarrow> cleanup_action" where
  "cleanup_action_of False _ _ = AlreadyGone"
| "cleanup_action_of True True True = DeleteOld"
| "cleanup_action_of True _ _ = PreserveOld"

record pending_cleanup =
  pn_path :: path
  pn_old :: int
  pn_new :: int
  pn_old_hash :: "string option"

definition journal_cleanup :: "file_tree \<Rightarrow> execution_result list \<Rightarrow> pending_cleanup list \<Rightarrow> pending_cleanup list" where
  "journal_cleanup remote results pending =
     fold (\<lambda>result pending.
       if xr_success result \<and> xr_action result = ''upload'' then
         (case (Option.bind (bt_get remote (xr_path result)) te_message, xr_message result) of
            (Some old, Some new) \<Rightarrow>
              if old \<noteq> new then
                let item = \<lparr>pn_path = xr_path result, pn_old = old, pn_new = new,
                            pn_old_hash = map_option te_hash (bt_get remote (xr_path result))\<rparr> in
                if item \<in> set pending then pending else pending @ [item]
              else pending
          | _ \<Rightarrow> pending)
       else pending) results pending"

end
