(* ===== verification/Scan_Contract.thy ===== *)
theory Scan_Contract
  imports Sync_Cycle
begin

text \<open>
  What the local scan guarantees: the incremental scan agrees with the full one for every folder whose
  rows were recorded while they were current and whose later writes left a trace, and the scan reports
  exactly the files the ignore rules keep. Two properties pin down where these guarantees end: a row
  recorded later than its file was hashed, and a directory ignored by name.
\<close>

section \<open>Incremental and full scans\<close>

text \<open>What the proof has to reach: wherever the incremental scan reuses a hash, it is the hash of the file.\<close>

definition reuse_sound :: "int \<Rightarrow> (path, recorded_local_file) btree \<Rightarrow> (string + walked) list \<Rightarrow> bool" where
  "reuse_sound now recorded entries \<longleftrightarrow>
     (\<forall>w p metadata r. Inr w \<in> set entries \<and> utf8_path (wk_names w) = Some p \<and> wk_metadata w = Ok metadata \<and>
        bt_get recorded p = Some r \<and> metadata_matches now (Some r) metadata \<longrightarrow> wk_hash w = Ok (rl_hash r))"

lemma reuse_sound_simps [simp]:
  "reuse_sound now recorded []"
  "reuse_sound now recorded (Inl e # entries) = reuse_sound now recorded entries"
  "reuse_sound now recorded (Inr w # entries) \<longleftrightarrow>
     (\<forall>p metadata r. utf8_path (wk_names w) = Some p \<and> wk_metadata w = Ok metadata \<and>
        bt_get recorded p = Some r \<and> metadata_matches now (Some r) metadata \<longrightarrow> wk_hash w = Ok (rl_hash r)) \<and>
     reuse_sound now recorded entries"
  by (auto simp: reuse_sound_def)

definition scan_view :: "local_scan \<Rightarrow> file_tree \<times> tree_entry list \<times> nat" where
  "scan_view s = (ls_tree s, ls_refresh s, ls_hashed s + ls_reused s)"

lemma scan_file_modes:
  assumes "\<And>r. bt_get recorded p = Some r \<Longrightarrow> metadata_matches now (Some r) metadata \<Longrightarrow> h = Ok (rl_hash r)"
    and "scan_view s = scan_view s'"
  shows "map_sum id scan_view (scan_file now mode recorded p metadata h s) =
    map_sum id scan_view (scan_file now mode' recorded p metadata h s')"
proof -
  have "hash_of_file now mode (bt_get recorded p) metadata h = hash_of_file now mode' (bt_get recorded p) metadata h"
    using assms(1) by (cases "bt_get recorded p") (auto simp: hash_of_file_def reuses_hash_def)
  then show ?thesis using assms(2)
    by (cases "hash_of_file now mode' (bt_get recorded p) metadata h") (auto simp: scan_file_def scan_view_def Let_def)
qed

lemma scan_entries_modes:
  assumes "reuse_sound now recorded entries" and "scan_view s = scan_view s'"
  shows "map_sum id scan_view (scan_entries now mode recorded entries s) =
    map_sum id scan_view (scan_entries now mode' recorded entries s')"
  using assms
proof (induction now mode recorded entries s arbitrary: s' rule: scan_entries.induct)
  case (3 now mode recorded w entries s)
  have t: "reuse_sound now recorded entries" using 3(3) by (auto simp: reuse_sound_def)
  show ?case
  proof (cases "is_staging (wk_names w)")
    case True
    then show ?thesis using 3(1) [OF True t 3(4)] by simp
  next
    case ns: False
    show ?thesis
    proof (cases "utf8_path (wk_names w)")
      case (Some p)
      show ?thesis
      proof (cases "wk_metadata w")
        case (Inr metadata)
        let ?a = "scan_file now mode recorded p metadata (wk_hash w) s"
        let ?b = "scan_file now mode' recorded p metadata (wk_hash w) s'"
        have ab: "map_sum id scan_view ?a = map_sum id scan_view ?b"
          using 3(3) Some Inr by (intro scan_file_modes 3(4)) (auto simp: reuse_sound_def)
        show ?thesis
        proof (cases ?a)
          case (Inl e)
          then show ?thesis using ab ns Some Inr by (cases ?b) auto
        next
          case a: (Inr s1)
          then obtain s2 where b: "?b = Inr s2" "scan_view s1 = scan_view s2" using ab by (cases ?b) auto
          show ?thesis
            using 3(2) [OF ns t b(2)] ns Some Inr a b(1) by simp
        qed
      qed (use ns Some in simp)
    qed (use ns in simp)
  qed
qed simp_all

definition demo_metadata :: file_metadata where
  "demo_metadata = \<lparr>fm_len = 3, fm_modified = Some 100\<rparr>"

definition demo_row :: synced_entry where
  "demo_row = \<lparr>se_path = us ''a'', se_local_hash = Some ''h'', se_remote_hash = Some ''r'', se_size = 3,
     se_local_mtime = Some 100, se_remote_date = None, se_message = Some 7, se_status = ''synced''\<rparr>"

definition demo_nodes :: "disk_node list" where
  "demo_nodes = [DiskFile (Utf8 (us ''a'')) (Ok demo_metadata) (Ok ''h''),
     DiskDir (Utf8 (us ''d'')) [DiskFile (Utf8 (us ''b'')) (Ok demo_metadata) (Ok ''k'')]]"

definition no_ignores :: sync_preferences where
  "no_ignores = default_preferences\<lparr>sp_ignore_patterns := []\<rparr>"

lemma walk_demo_nodes: "walk_root no_ignores demo_nodes =
    [Inr \<lparr>wk_names = [Utf8 (us ''a'')], wk_metadata = Ok demo_metadata, wk_hash = Ok ''h''\<rparr>,
     Inr \<lparr>wk_names = [Utf8 (us ''d''), Utf8 (us ''b'')], wk_metadata = Ok demo_metadata, wk_hash = Ok ''k''\<rparr>]"
  by (simp add: walk_root_def demo_nodes_def keep_entry_def lossy_path_def ignores_def no_ignores_def
      ends_with_def staging_suffix_def us_def SLASH_def)

section \<open>When a recorded hash is current\<close>

text \<open>What happened to a file: its writes in the order they were made, each with the instant in milliseconds, the
  modification time the file system stamped, in seconds, and the size and the content hash it left. A
  program may stamp what it likes (restoring an old time, say), the stamp of an ordinary write is the
  second it was made in.\<close>

record file_write =
  fw_at :: int
  fw_stamp :: int
  fw_size :: u64
  fw_hash :: string

text \<open>A row recorded at instant \<open>t\<close> while the file was as the write \<open>w\<close> left it, and what a scan of the
  file finds when \<open>w\<close> was the last write.\<close>

definition recorded_from :: "int \<Rightarrow> file_write \<Rightarrow> recorded_local_file \<Rightarrow> bool" where
  "recorded_from t w r \<longleftrightarrow> rl_size r = stored_size (fw_size w) \<and> rl_hash r = fw_hash w \<and>
     rl_modified r = settled_mtime (Some (fw_stamp w)) (t div 1000)"

definition shows_write :: "file_write \<Rightarrow> file_metadata \<Rightarrow> string + string \<Rightarrow> bool" where
  "shows_write w metadata h \<longleftrightarrow> fm_len metadata = fw_size w \<and> h = Ok (fw_hash w) \<and>
     (case fm_modified metadata of None \<Rightarrow> True | Some m \<Rightarrow> m = fw_stamp w)"

text \<open>The history of a scanned file and its row: the row was recorded from some write, and every write since then
  has changed the size or was stamped with its own second.\<close>

definition has_history :: "recorded_local_file \<Rightarrow> file_metadata \<Rightarrow> string + string \<Rightarrow> bool" where
  "has_history r metadata h \<longleftrightarrow> (\<exists>w later t. recorded_from t w r \<and> shows_write (last (w # later)) metadata h \<and>
     (\<forall>x\<in>set later. t < fw_at x \<and> (fw_size x \<noteq> rl_size r \<or> fw_stamp x = fw_at x div 1000)))"

text \<open>Both statements that record a modification time, run while the file is as the scan found it, leave such
  a row: the cycle's row for a synchronized file, and the refreshed one of a file whose time has settled.\<close>

lemma state_row_recorded:
  assumes "te_hash e = fw_hash w" and "te_size e = fw_size w" and "te_modified e = Some (fw_stamp w)"
    and "recorded_local_file_of (state_row (t div 1000) p (Some e) r ''synced'') = Some row"
  shows "recorded_from t w row"
  using assms by (auto simp: recorded_from_def recorded_local_file_of_def state_row_def split: if_splits option.splits)

lemma refreshed_row_recorded:
  assumes "te_hash e = fw_hash w" and "te_size e = fw_size w" and "te_modified e = Some (fw_stamp w)"
    and "settled_mtime (te_modified e) (t div 1000) \<noteq> None"
    and "bt_get db (te_path e) = Some old" and "se_local_hash old = Some (te_hash e)" and "se_status old = ''synced''"
    and "Option.bind (bt_get (exec_statement now (RefreshMetadata e) db) (te_path e)) recorded_local_file_of = Some row"
  shows "recorded_from t w row"
  using assms by (auto simp: recorded_from_def recorded_local_file_of_def settled_mtime_def split: if_splits)

lemma settled_second: "2 \<le> (t :: int) div 1000 - m \<Longrightarrow> t < t' \<Longrightarrow> t' div 1000 \<noteq> m"
  using zdiv_mono1 [of t t' 1000] by simp

text \<open>So a reused hash is the hash of the file.\<close>

lemma history_reuse:
  assumes "has_history r metadata h" and "metadata_matches now (Some r) metadata"
  shows "h = Ok (rl_hash r)"
proof -
  obtain w later t where H: "recorded_from t w r" "shows_write (last (w # later)) metadata h"
      "\<forall>x\<in>set later. t < fw_at x \<and> (fw_size x \<noteq> rl_size r \<or> fw_stamp x = fw_at x div 1000)"
    using assms(1) unfolding has_history_def by blast
  obtain m where m: "rl_modified r = Some m" "fm_modified metadata = Some m" and size: "fm_len metadata = rl_size r"
    using assms(2) by (auto simp: metadata_matches_def settled_mtime_def split: option.splits if_splits)
  have "2 \<le> t div 1000 - m"
    using H(1) m(1) by (auto simp: recorded_from_def settled_mtime_def RACY_MTIME_WINDOW_SECS_def split: if_splits)
  then have "fw_at x div 1000 \<noteq> m" if "x \<in> set later" for x
    using H(3) that settled_second by blast
  moreover have "fw_size (last later) = rl_size r" "fw_stamp (last later) = m" if "later \<noteq> []"
    using H(2) m size that by (simp_all add: shows_write_def)
  ultimately have "later = []" using H(3) last_in_set by (metis (full_types))
  then show ?thesis using H(1,2) by (simp add: shows_write_def recorded_from_def)
qed

text \<open>C19: the incremental scan agrees with the full one. Take any folder in which the files that have a row can
  be read and each has a history as above: its row was written from what the file held at that moment, and
  every later write changed the size or left the modification time of its own second. Then both modes fail
  alike or return the same tree, the same rows to refresh, and account for the same number of files.\<close>

theorem incremental_scan_agrees:
  assumes "\<And>nodes w p metadata r. root = Ok nodes \<Longrightarrow> Inr w \<in> set (walk_root prefs nodes) \<Longrightarrow>
      utf8_path (wk_names w) = Some p \<Longrightarrow> wk_metadata w = Ok metadata \<Longrightarrow>
      bt_get (recorded_local_files synced) p = Some r \<Longrightarrow> has_history r metadata (wk_hash w)"
  shows "map_sum id scan_view (scan_local now ReuseRecordedHashes prefs (Some synced) root) =
    map_sum id scan_view (scan_local now HashEveryFile prefs (Some synced) root)"
proof (cases root)
  case (Inr nodes)
  have "reuse_sound now (recorded_local_files synced) (walk_root prefs nodes)"
    unfolding reuse_sound_def using assms [OF Inr] history_reuse by blast
  then show ?thesis using Inr by (auto simp: scan_local_def intro!: scan_entries_modes)
qed (simp add: scan_local_def)

text \<open>Two recorded files: \<open>a\<close> is as its row says, \<open>d/b\<close> was rewritten with the same size since.\<close>

definition demo_old_row :: synced_entry where
  "demo_old_row = demo_row\<lparr>se_path := us ''d/b'', se_local_hash := Some ''old'', se_local_mtime := Some 50\<rparr>"

theorem incremental_scan_agrees_witness:
  "map_sum id scan_view (scan_local 200 ReuseRecordedHashes no_ignores
      (Some [(us ''a'', demo_row), (us ''d/b'', demo_old_row)]) (Ok demo_nodes)) =
    map_sum id scan_view (scan_local 200 HashEveryFile no_ignores
      (Some [(us ''a'', demo_row), (us ''d/b'', demo_old_row)]) (Ok demo_nodes))"
proof (rule incremental_scan_agrees)
  fix nodes :: "disk_node list" and w p metadata r
  assume nodes: "(Ok demo_nodes :: string + disk_node list) = Ok nodes" and w: "Inr w \<in> set (walk_root no_ignores nodes)"
    and p: "utf8_path (wk_names w) = Some p" "wk_metadata w = Ok metadata"
    and r: "bt_get (recorded_local_files [(us ''a'', demo_row), (us ''d/b'', demo_old_row)]) p = Some r"
  have rows: "recorded_local_files [(us ''a'', demo_row), (us ''d/b'', demo_old_row)] =
      [(us ''a'', \<lparr>rl_size = 3, rl_modified = Some 100, rl_hash = ''h''\<rparr>),
       (us ''d/b'', \<lparr>rl_size = 3, rl_modified = Some 50, rl_hash = ''old''\<rparr>)]"
    by (simp add: recorded_local_files_def recorded_local_file_of_def demo_row_def demo_old_row_def us_def)
  let ?a = "\<lparr>fw_at = 100500, fw_stamp = 100, fw_size = 3, fw_hash = ''h''\<rparr>"
  let ?old = "\<lparr>fw_at = 50500, fw_stamp = 50, fw_size = 3, fw_hash = ''old''\<rparr>"
  let ?b = "\<lparr>fw_at = 100500, fw_stamp = 100, fw_size = 3, fw_hash = ''k''\<rparr>"
  have "has_history \<lparr>rl_size = 3, rl_modified = Some 100, rl_hash = ''h''\<rparr> demo_metadata (Ok ''h'')"
    unfolding has_history_def by (rule exI [of _ ?a], rule exI [of _ "[]"], rule exI [of _ 150000])
      (simp add: recorded_from_def shows_write_def stored_size_def settled_mtime_def RACY_MTIME_WINDOW_SECS_def demo_metadata_def)
  moreover have "has_history \<lparr>rl_size = 3, rl_modified = Some 50, rl_hash = ''old''\<rparr> demo_metadata (Ok ''k'')"
    unfolding has_history_def by (rule exI [of _ ?old], rule exI [of _ "[?b]"], rule exI [of _ 60000])
      (simp add: recorded_from_def shows_write_def stored_size_def settled_mtime_def RACY_MTIME_WINDOW_SECS_def demo_metadata_def)
  ultimately show "has_history r metadata (wk_hash w)"
    using nodes w p r [unfolded rows] by (auto simp: walk_demo_nodes utf8_path_def lossy_path_def us_def SLASH_def)
qed

text \<open>the guard is applied when the row is written, not when the file was hashed: for a file modified in
  the very second it was scanned, whose time had not settled then, a row written two seconds later
  records the time all the same, and the next incremental scan trusts the hash whatever the file holds.\<close>

theorem late_record_defeats_guard:
  assumes "te_modified e = Some m" and "te_hash e \<noteq> []" and "te_size e < 0x8000000000000000"
    and "settled_mtime (Some m) scanned = None"
    and "m + 2 \<le> recorded_at" and "recorded_at \<le> now"
    and "fm_len metadata = te_size e" and "fm_modified metadata = Some m"
  shows "hash_of_file now ReuseRecordedHashes
      (recorded_local_file_of (state_row recorded_at p (Some e) r ''synced'')) metadata content = Ok (te_hash e)"
  using assms by (auto simp: hash_of_file_def reuses_hash_def metadata_matches_def recorded_local_file_of_def
      state_row_def settled_mtime_def RACY_MTIME_WINDOW_SECS_def stored_size_def)

theorem late_record_defeats_guard_witness:
  "settled_mtime (Some 10) 10 = None \<and>
   hash_of_file 40 ReuseRecordedHashes (recorded_local_file_of (state_row 13 (us ''a'')
       (Some \<lparr>te_path = us ''a'', te_hash = ''old'', te_size = 3, te_modified = Some 10, te_message = None\<rparr>) None ''synced''))
     \<lparr>fm_len = 3, fm_modified = Some 10\<rparr> (Ok ''new'') = Ok ''old''"
  using late_record_defeats_guard [of "\<lparr>te_path = us ''a'', te_hash = ''old'', te_size = 3, te_modified = Some 10, te_message = None\<rparr>"
      10 10 13 40 "\<lparr>fm_len = 3, fm_modified = Some 10\<rparr>" "us ''a''" None "Ok ''new''"]
  by (simp add: settled_mtime_def RACY_MTIME_WINDOW_SECS_def)

section \<open>What the scan reports\<close>

text \<open>A regular file on the disk, by the names on the way to it.\<close>

inductive file_at :: "disk_node list \<Rightarrow> os_name list \<Rightarrow> bool" where
  here: "DiskFile n metadata h \<in> set nodes \<Longrightarrow> file_at nodes [n]"
| below: "DiskDir n sub \<in> set nodes \<Longrightarrow> file_at sub names \<Longrightarrow> file_at nodes (n # names)"

definition kept :: "sync_preferences \<Rightarrow> os_name list \<Rightarrow> os_name list \<Rightarrow> bool" where
  "kept prefs dir names \<longleftrightarrow> keep_entry prefs (dir @ names) False \<and>
     (\<forall>k. 0 < k \<and> k < length names \<longrightarrow> keep_entry prefs (dir @ take k names) True)"

lemma kept_single [simp]: "kept prefs dir [n] \<longleftrightarrow> keep_entry prefs (dir @ [n]) False"
  by (auto simp: kept_def)

lemma all_from_one: "0 < m \<Longrightarrow> (\<forall>k. 0 < k \<and> k < Suc m \<longrightarrow> P k) \<longleftrightarrow> P 1 \<and> (\<forall>k. 0 < k \<and> k < m \<longrightarrow> P (Suc k))"
proof (rule iffI)
  assume a: "P 1 \<and> (\<forall>k. 0 < k \<and> k < m \<longrightarrow> P (Suc k))"
  show "\<forall>k. 0 < k \<and> k < Suc m \<longrightarrow> P k"
  proof (intro allI impI)
    fix k assume k: "0 < k \<and> k < Suc m"
    show "P k"
    proof (cases k)
      case (Suc k')
      then show ?thesis using a k by (cases k') auto
    qed (use k in simp)
  qed
qed auto

lemma kept_Cons: "names \<noteq> [] \<Longrightarrow> kept prefs dir (n # names) \<longleftrightarrow>
    keep_entry prefs (dir @ [n]) True \<and> kept prefs (dir @ [n]) names"
  unfolding kept_def using all_from_one [of "length names" "\<lambda>k. keep_entry prefs (dir @ take k (n # names)) True"]
  by (auto simp del: all_simps)

lemma file_at_nonempty: "file_at nodes names \<Longrightarrow> names \<noteq> []"
  by (induction rule: file_at.induct) auto

lemma file_at_mono: "file_at nodes names \<Longrightarrow> set nodes \<subseteq> set nodes' \<Longrightarrow> file_at nodes' names"
  by (induction rule: file_at.induct) (auto intro: file_at.intros)

lemma walk_node_sound:
  "Inr w \<in> set (walk_node prefs dir node) \<Longrightarrow>
     \<exists>names. wk_names w = dir @ names \<and> file_at [node] names \<and> kept prefs dir names"
proof (induction prefs dir node rule: walk_node.induct)
  case (1 prefs dir n metadata h)
  then have "wk_names w = dir @ [n]" "kept prefs dir [n]" by (auto split: if_splits)
  then show ?case by (meson file_at.here list.set_intros(1))
next
  case (2 prefs dir n nodes)
  then obtain node where node: "keep_entry prefs (dir @ [n]) True" "node \<in> set nodes"
      "Inr w \<in> set (walk_node prefs (dir @ [n]) node)" by (auto split: if_splits)
  from 2(1) [OF this] obtain names where names: "wk_names w = (dir @ [n]) @ names" "file_at [node] names"
      "kept prefs (dir @ [n]) names" by blast
  have "file_at nodes names" using file_at_mono [OF names(2)] node(2) by simp
  then have "file_at [DiskDir n nodes] (n # names)" by (auto intro: file_at.below)
  moreover have "kept prefs dir (n # names)"
    using kept_Cons [OF file_at_nonempty [OF names(2)]] names(3) node(1) by simp
  ultimately show ?case using names(1) by (intro exI [of _ "n # names"]) simp
qed (auto split: if_splits)

lemma walk_node_complete:
  "file_at nodes names \<Longrightarrow> kept prefs dir names \<Longrightarrow>
     \<exists>node\<in>set nodes. \<exists>w. Inr w \<in> set (walk_node prefs dir node) \<and> wk_names w = dir @ names"
proof (induction arbitrary: dir rule: file_at.induct)
  case (here n metadata h nodes)
  then show ?case by (intro bexI [OF _ here(1)]) simp
next
  case (below n sub nodes names)
  have k: "keep_entry prefs (dir @ [n]) True" "kept prefs (dir @ [n]) names"
    using below(4) kept_Cons [OF file_at_nonempty [OF below(2)]] by auto
  from below(3) [OF k(2)] k(1) show ?case by (intro bexI [OF _ below(1)]) auto
qed

lemma walk_root_sound:
  assumes "Inr w \<in> set (walk_root prefs nodes)"
  shows "file_at nodes (wk_names w) \<and> kept prefs [] (wk_names w)"
proof -
  obtain node where w: "node \<in> set nodes" "Inr w \<in> set (walk_node prefs [] node)"
    using assms by (auto simp: walk_root_def)
  from walk_node_sound [OF w(2)] w(1) show ?thesis
    using file_at_mono [of "[node]" "wk_names w" nodes] by auto
qed

lemma walk_root_complete:
  "file_at nodes names \<Longrightarrow> kept prefs [] names \<Longrightarrow> \<exists>w. Inr w \<in> set (walk_root prefs nodes) \<and> wk_names w = names"
  using walk_node_complete [of nodes names prefs "[]"] by (auto simp: walk_root_def)

lemma scan_file_tree:
  "scan_file now mode recorded p metadata h s = Ok s' \<Longrightarrow> \<exists>e. ls_tree s' = bt_insert p e (ls_tree s)"
  by (auto simp: scan_file_def Let_def)

lemma scan_entries_tree:
  assumes "scan_entries now mode recorded entries s = Ok s'" and "bt_ok (ls_tree s)"
  shows "bt_ok (ls_tree s') \<and> set (bt_keys (ls_tree s')) = set (bt_keys (ls_tree s)) \<union>
    {p. \<exists>w. Inr w \<in> set entries \<and> \<not> is_staging (wk_names w) \<and> utf8_path (wk_names w) = Some p}"
  using assms
proof (induction now mode recorded entries s rule: scan_entries.induct)
  case (3 now mode recorded w entries s)
  show ?case
  proof (cases "is_staging (wk_names w)")
    case True
    then show ?thesis using 3(1) [OF True] 3(3,4) by auto
  next
    case ns: False
    obtain p metadata s1 where s1: "utf8_path (wk_names w) = Some p"
        "scan_file now mode recorded p metadata (wk_hash w) s = Ok s1"
        "scan_entries now mode recorded entries s1 = Ok s'"
      using 3(3) ns by auto
    obtain e where e: "ls_tree s1 = bt_insert p e (ls_tree s)" using scan_file_tree [OF s1(2)] by blast
    show ?thesis using 3(2) [OF ns s1(3)] 3(4) e s1(1) ns by auto
  qed
qed simp_all

text \<open>a successful scan reports exactly the files on the disk that have a Unicode path, are not staging
  files and neither are ignored themselves nor lie below an ignored directory; the ignore rules
  applied to the tree afterwards remove nothing more from it.\<close>

theorem scan_reports_kept_files:
  assumes "scan_local now mode prefs synced (Ok nodes) = Ok scan"
  shows "bt_ok (ls_tree scan) \<and>
    set (bt_keys (ls_tree scan)) = {p. \<exists>names. file_at nodes names \<and> kept prefs [] names \<and>
      \<not> is_staging names \<and> utf8_path names = Some p} \<and>
    bt_retain (\<lambda>p _. \<not> ignores prefs p) (ls_tree scan) = ls_tree scan"
proof -
  let ?t = "ls_tree scan"
  note s = scan_entries_tree [OF assms [unfolded scan_local_def, simplified], simplified]
  have keys: "set (bt_keys ?t) = {p. \<exists>names. file_at nodes names \<and> kept prefs [] names \<and>
      \<not> is_staging names \<and> utf8_path names = Some p}"
    using s walk_root_sound walk_root_complete by fastforce
  have "\<not> ignores prefs p" if "p \<in> set (bt_keys ?t)" for p
    using that unfolding keys by (auto simp: kept_def keep_entry_def utf8_path_def split: if_splits)
  then have "bt_retain (\<lambda>p _. \<not> ignores prefs p) ?t = ?t"
    by (fastforce simp: bt_retain_def bt_keys_def filter_id_conv image_iff)
  then show ?thesis using s keys by blast
qed

theorem scan_reports_kept_files_witness:
  "\<exists>scan. scan_local 200 HashEveryFile no_ignores None (Ok demo_nodes) = Ok scan \<and>
     set (bt_keys (ls_tree scan)) = {p. \<exists>names. file_at demo_nodes names \<and> kept no_ignores [] names \<and>
      \<not> is_staging names \<and> utf8_path names = Some p} \<and> us ''d/b'' \<in> set (bt_keys (ls_tree scan))"
proof -
  obtain scan where s: "scan_local 200 HashEveryFile no_ignores None (Ok demo_nodes) = Ok scan"
      "us ''d/b'' \<in> set (bt_keys (ls_tree scan))"
    by (simp add: scan_local_def walk_demo_nodes is_staging_def ends_with_def staging_suffix_def us_def utf8_path_def
        lossy_path_def SLASH_def scan_file_def hash_of_file_def Let_def)
  then show ?thesis using scan_reports_kept_files [OF s(1)] by blast
qed

section \<open>Directories ignored by name\<close>

fun node_ok :: "disk_node \<Rightarrow> bool" where
  "node_ok (DiskFile n _ _) \<longleftrightarrow> SLASH \<notin> set (lossy n)"
| "node_ok (DiskDir n nodes) \<longleftrightarrow> SLASH \<notin> set (lossy n) \<and> list_all node_ok nodes"
| "node_ok (DiskBroken n _) \<longleftrightarrow> SLASH \<notin> set (lossy n)"
| "node_ok (DiskOther n) \<longleftrightarrow> SLASH \<notin> set (lossy n)"

lemma file_at_first: "file_at nodes names \<Longrightarrow> list_all node_ok nodes \<Longrightarrow>
    \<exists>n rest. names = n # rest \<and> SLASH \<notin> set (lossy n)"
  by (induction rule: file_at.induct) (auto simp: list_all_iff)

text \<open>A directory whose name is ignored is not walked, whatever lies below it.\<close>

lemma ignored_directory_not_scanned:
  assumes "ignores prefs d" and "SLASH \<notin> set d" and "list_all node_ok nodes"
    and "scan_local now mode prefs synced (Ok nodes) = Ok scan"
  shows "bt_get (ls_tree scan) (d @ SLASH # f) = None"
proof (rule ccontr)
  assume "bt_get (ls_tree scan) (d @ SLASH # f) \<noteq> None"
  then have "d @ SLASH # f \<in> set (bt_keys (ls_tree scan))" by (simp add: bt_get_None_iff)
  then obtain w where w: "Inr w \<in> set (walk_root prefs nodes)" "utf8_path (wk_names w) = Some (d @ SLASH # f)"
    using scan_entries_tree [OF assms(4) [unfolded scan_local_def, simplified], simplified] by auto
  obtain names where names: "file_at nodes names" "kept prefs [] names"
      "join_path (map lossy names) = d @ SLASH # f"
    using walk_root_sound [OF w(1)] w(2) by (simp add: utf8_path_def lossy_path_def split: if_splits)
  obtain n rest where n: "names = n # rest" "SLASH \<notin> set (lossy n)"
    using file_at_first [OF names(1) assms(3)] by blast
  have slash: "SLASH \<in> set (join_path (map lossy names))" using names(3) by simp
  obtain n' rest' where rest: "rest = n' # rest'"
    using slash n by (cases rest) auto
  then have "rest \<noteq> []" by simp
  have "lossy n @ SLASH # join_path (map lossy rest) = d @ SLASH # f"
    using names(3) n(1) rest by simp
  from append_separator [OF n(2) assms(2) this] have "lossy n = d" by simp
  moreover have "keep_entry prefs [n] True" using names(2) kept_Cons [OF \<open>rest \<noteq> []\<close>, of prefs "[]"] n(1) by simp
  ultimately show False using assms(1) by (simp add: keep_entry_def lossy_path_def)
qed

lemma prepared_decision:
  assumes "bt_ok synced" and "bt_ok (ls_tree scan)" and "bt_ok remote"
    and "prepare_reconciliation prefs direction scan synced remote = (Ok prepared, writes)"
    and "\<not> ignores prefs p"
    and "bt_get synced p = Some e" and "se_status e = ''synced''"
  shows "bt_get (pc_local prepared) p = bt_get (ls_tree scan) p \<and> bt_get (pc_remote prepared) p = bt_get remote p \<and>
    bt_get (pc_synced prepared) p = Some e \<and>
    pc_operations prepared = operations_for_policy (pc_local prepared) (pc_remote prepared) (pc_synced prepared)
      direction (sp_propagate_deletions prefs)"
proof -
  obtain resumed s1 adopted where P:
    "pc_local prepared = bt_retain (\<lambda>p _. \<not> ignores prefs p) (ls_tree scan)"
    "pc_remote prepared = bt_retain (\<lambda>p _. \<not> ignores prefs p) remote"
    "resume_interrupted_uploads (pc_local prepared) (pc_remote prepared)
       (bt_retain (\<lambda>p _. \<not> ignores prefs p) synced) = (resumed, s1)"
    "(if sp_adopt_matching_files prefs then adopt_matching_files (pc_local prepared) (pc_remote prepared) s1
      else ([], s1)) = (adopted, pc_synced prepared)"
    "pc_operations prepared = operations_for_policy (pc_local prepared) (pc_remote prepared) (pc_synced prepared)
       direction (sp_propagate_deletions prefs)"
    by (rule prepare_OkE [OF assms(4)], rule that, assumption+)
  have l: "bt_ok (pc_local prepared)" "bt_get (pc_local prepared) p = bt_get (ls_tree scan) p"
      "bt_get (pc_remote prepared) p = bt_get remote p"
    using assms(2,3,5) by (auto simp: P(1,2) bt_get_retain split: option.splits)
  have "bt_get s1 p = Some e"
    using resume_spec [OF bt_ok_retain [OF assms(1)] P(3), of p] assms(1,5-7)
    by (auto simp: bt_get_retain resumed_entry_def)
  then have "bt_get (pc_synced prepared) p = Some e"
    using P(4) adopt_spec [OF l(1), of "pc_remote prepared" s1 adopted "pc_synced prepared" p] assms(7)
    by (auto simp: adoption_def split: if_splits option.splits bind_splits)
  then show ?thesis using l P(5) by simp
qed

text \<open>the walk skips a directory whose name is ignored, but the trees are filtered by path alone: a
  recorded file below such a directory stays in the remote and the recorded tree and is missing locally, so
  with deletions propagated the cycle plans to delete its Telegram copy although the file is still on the disk.\<close>

theorem ignored_directory_deletes_remote:
  assumes "ignores prefs d" and "SLASH \<notin> set d" and "\<not> ignores prefs (d @ SLASH # f)"
    and "list_all node_ok nodes" and "scan_local now mode prefs (Some synced) (Ok nodes) = Ok scan"
    and "bt_ok synced" and "bt_ok remote" and "bt_get synced (d @ SLASH # f) = Some e" and "se_status e = ''synced''"
    and "se_local_hash e \<noteq> None" and "se_remote_hash e = Some (te_hash r)"
    and "bt_get remote (d @ SLASH # f) = Some r" and "te_message r = Some i"
    and "sp_propagate_deletions prefs" and "direction \<noteq> ''download_only''"
    and "prepare_reconciliation prefs direction scan synced remote = (Ok prepared, writes)"
  shows "OpDeleteRemote (d @ SLASH # f) i (te_hash r) \<in> set (pc_operations prepared)"
proof -
  let ?p = "d @ SLASH # f" and ?o = "OpDeleteRemote (d @ SLASH # f) i (te_hash r)"
  let ?l = "pc_local prepared" and ?r = "pc_remote prepared" and ?s = "pc_synced prepared"
  have ok: "bt_ok (ls_tree scan)" using scan_entries_tree [OF assms(5) [unfolded scan_local_def, simplified]] by simp
  note P = prepared_decision [OF assms(6) ok assms(7,16,3,8,9)]
  have "plan_path ?l ?r ?s ?p = Some ?o"
    using P assms(8-13) ignored_directory_not_scanned [OF assms(1,2,4,5), of f]
    by (simp add: plan_path_def resolution_def compare_copies_def)
  moreover have "\<not> chosen_by_user ?s ?p" using P assms(9) by (simp add: chosen_by_user_def)
  moreover have "?p \<in> set (all_paths ?l ?r ?s)"
    using P assms(12) by (simp add: all_paths_set bt_contains_def flip: bt_contains_iff)
  ultimately show ?thesis using P assms(14,15)
    by (force simp: operations_for_policy_def set_plan_unchecked redirect_def withhold_delete_def image_iff)
qed

definition name_ignored :: sync_preferences where
  "name_ignored = \<lparr>sp_ignore_patterns = [us ''b''], sp_propagate_deletions = True, sp_pause_on_conflicts = True,
     sp_adopt_matching_files = False\<rparr>"

definition demo_recorded :: "path \<Rightarrow> synced_entry" where
  "demo_recorded p = \<lparr>se_path = p, se_local_hash = Some ''h'', se_remote_hash = Some ''r'', se_size = 3,
     se_local_mtime = Some 100, se_remote_date = None, se_message = Some 7, se_status = ''synced''\<rparr>"

definition demo_message :: "path \<Rightarrow> tree_entry" where
  "demo_message p = \<lparr>te_path = p, te_hash = ''r'', te_size = 3, te_modified = None, te_message = Some 7\<rparr>"

lemma name_ignored_facts:
  "ignores name_ignored (us ''b'')" "\<not> ignores name_ignored (us ''b/x'')" "\<not> ignores name_ignored (us ''c'')"
  by (simp_all add: ignores_def name_ignored_def ends_with_def staging_suffix_def us_def matches_ignore_pattern_def
      wildcard_match_def wildcard_row_def char_row_def last_piece_def char_codes)

text \<open>The folder holds \<open>b/x\<close> and \<open>c\<close>, both recorded and unchanged; \<open>b\<close> is ignored by name.\<close>

definition demo_synced :: synced_tree where
  "demo_synced = [(us ''b/x'', demo_recorded (us ''b/x'')), (us ''c'', demo_recorded (us ''c''))]"

definition demo_remote :: file_tree where
  "demo_remote = [(us ''b/x'', demo_message (us ''b/x'')), (us ''c'', demo_message (us ''c''))]"

definition demo_folder :: "disk_node list" where
  "demo_folder = [DiskDir (Utf8 (us ''b'')) [DiskFile (Utf8 (us ''x'')) (Ok demo_metadata) (Ok ''h'')],
     DiskFile (Utf8 (us ''c'')) (Ok demo_metadata) (Ok ''h'')]"

definition demo_scan :: local_scan where
  "demo_scan = \<lparr>ls_tree = [(us ''c'', \<lparr>te_path = us ''c'', te_hash = ''h'', te_size = 3, te_modified = Some 100,
     te_message = None\<rparr>)], ls_hashed = 1, ls_reused = 0, ls_refresh = []\<rparr>"

lemma demo_scan: "scan_local 200 HashEveryFile name_ignored (Some demo_synced) (Ok demo_folder) = Ok demo_scan"
proof -
  have "walk_root name_ignored demo_folder =
      [Inr \<lparr>wk_names = [Utf8 (us ''c'')], wk_metadata = Ok demo_metadata, wk_hash = Ok ''h''\<rparr>]"
    using name_ignored_facts by (simp add: walk_root_def demo_folder_def keep_entry_def lossy_path_def)
  then show ?thesis
    by (simp add: scan_local_def is_staging_def ends_with_def staging_suffix_def us_def utf8_path_def lossy_path_def
        scan_file_def hash_of_file_def reuses_hash_def Let_def demo_synced_def demo_recorded_def recorded_local_files_def
        recorded_local_file_of_def demo_metadata_def metadata_matches_def settled_mtime_def RACY_MTIME_WINDOW_SECS_def
        SLASH_def demo_scan_def)
qed

lemma demo_prepared: "\<exists>prepared writes.
    prepare_reconciliation name_ignored ''two_way'' demo_scan demo_synced demo_remote = (Ok prepared, writes)"
proof -
  have "retain_tree_paths name_ignored (ls_tree demo_scan) demo_remote demo_synced = (ls_tree demo_scan, demo_remote, demo_synced)"
    using name_ignored_facts
    by (simp add: retain_tree_paths_def bt_retain_def demo_scan_def demo_remote_def demo_synced_def)
  moreover have "resume_interrupted_uploads (ls_tree demo_scan) demo_remote demo_synced = ([], demo_synced)"
    by (simp add: demo_synced_def resumed_entry_def demo_recorded_def)
  moreover have "\<exists>operations. plan_for_policy (ls_tree demo_scan) demo_remote demo_synced ''two_way'' True = Ok operations"
    by (simp add: demo_synced_def demo_recorded_def demo_remote_def demo_message_def demo_scan_def us_def
        plan_for_policy_def operations_for_policy_def plan_unchecked_def all_paths_def plan_path_def Let_def
        resolution_def compare_copies_def redirect_def chosen_by_user_def enforce_mass_deletion_def
        withhold_delete_def List.map_filter_def)
  ultimately show ?thesis
    by (auto simp: prepare_reconciliation_def name_ignored_def Let_def)
qed

theorem ignored_directory_deletes_remote_witness:
  "\<exists>prepared writes.
     scan_local 200 HashEveryFile name_ignored (Some demo_synced) (Ok demo_folder) = Ok demo_scan \<and>
     file_at demo_folder [Utf8 (us ''b''), Utf8 (us ''x'')] \<and>
     prepare_reconciliation name_ignored ''two_way'' demo_scan demo_synced demo_remote = (Ok prepared, writes) \<and>
     OpDeleteRemote (us ''b/x'') 7 ''r'' \<in> set (pc_operations prepared)"
proof -
  obtain prepared writes where p:
      "prepare_reconciliation name_ignored ''two_way'' demo_scan demo_synced demo_remote = (Ok prepared, writes)"
    using demo_prepared by blast
  have path: "us ''b'' @ SLASH # us ''x'' = us ''b/x''" by (simp add: us_def SLASH_def)
  have "list_all node_ok demo_folder" by (simp add: demo_folder_def us_def SLASH_def)
  moreover have "bt_ok demo_synced" "bt_ok demo_remote"
    "bt_get demo_synced (us ''b/x'') = Some (demo_recorded (us ''b/x''))"
    "bt_get demo_remote (us ''b/x'') = Some (demo_message (us ''b/x''))"
    by (simp_all add: demo_synced_def demo_remote_def us_def)
  ultimately have "OpDeleteRemote (us ''b/x'') 7 ''r'' \<in> set (pc_operations prepared)"
    using ignored_directory_deletes_remote [of name_ignored "us ''b''" "us ''x''" demo_folder 200 HashEveryFile demo_synced
        demo_scan demo_remote "demo_recorded (us ''b/x'')" "demo_message (us ''b/x'')" 7 "''two_way''" prepared writes]
      name_ignored_facts demo_scan p
    by (simp add: path us_def SLASH_def demo_recorded_def demo_message_def name_ignored_def)
  moreover have "file_at demo_folder [Utf8 (us ''b''), Utf8 (us ''x'')]"
    unfolding demo_folder_def by (rule file_at.below, simp, rule file_at.here, simp)
  ultimately show ?thesis using p demo_scan by blast
qed

end
