(* ===== verification/Sync_Execute.thy ===== *)
theory Sync_Execute
  imports Sync_Cycle
begin

text \<open>
  The execution of one planned operation (\<open>sync_engine/executor.rs\<close>): the paths an operation may
  touch, the checks that precede each destructive step, and the steps themselves in their order. What
  the file system, Telegram and the account guard answer is a record; what an operation does to the
  world is the list of its effects. Paths are Unix paths.
\<close>

section \<open>Paths below the mapped folder\<close>

text \<open>What the file system says of absolute paths, given as their names from the root.\<close>

record fs_view =
  fs_exists :: "path list \<Rightarrow> bool"
  fs_canonical :: "path list \<Rightarrow> string + path list"

fun existing_ancestor :: "fs_view \<Rightarrow> path list \<Rightarrow> nat \<Rightarrow> path list option" where
  "existing_ancestor F candidate 0 = (if fs_exists F [] then Some [] else None)"
| "existing_ancestor F candidate (Suc n) =
     (if fs_exists F (take (Suc n) candidate) then Some (take (Suc n) candidate)
      else existing_ancestor F candidate n)"

definition safe_local_path :: "fs_view \<Rightarrow> path list \<Rightarrow> path \<Rightarrow> string + path list" where
  "safe_local_path F root relative_path =
     (if \<not> list_all is_normal (path_components relative_path) then Err ''Unsafe sync path''
      else
        rbind (fs_canonical F root) (\<lambda>canonical_root.
        let candidate = canonical_root @ map normal_name (path_components relative_path) in
        rbind (ok_or (existing_ancestor F candidate (length candidate)) ''Unsafe sync path'') (\<lambda>ancestor.
        rbind (fs_canonical F ancestor) (\<lambda>canonical_ancestor.
        if take (length canonical_root) canonical_ancestor \<noteq> canonical_root
        then Err ''Sync path escapes the mapped folder through a symbolic link''
        else Ok candidate))))"

definition strip_prefix :: "path \<Rightarrow> path \<Rightarrow> path option" where
  "strip_prefix p s = (if starts_with s p then Some (drop (length p) s) else None)"

definition windows_reserved :: "path \<Rightarrow> bool" where
  "windows_reserved name =
     (let stem = to_ascii_uppercase (hd (split_on DOT name)) in
      stem \<in> {us ''CON'', us ''PRN'', us ''AUX'', us ''NUL''} \<or>
      (case (case strip_prefix (us ''COM'') stem of Some n \<Rightarrow> Some n | None \<Rightarrow> strip_prefix (us ''LPT'') stem) of
         None \<Rightarrow> False
       | Some number \<Rightarrow> (case parse_unsigned 255 number of None \<Rightarrow> False | Some n \<Rightarrow> 1 \<le> n \<and> n \<le> 9)))"

definition forbidden_character :: "nat \<Rightarrow> bool" where
  "forbidden_character c \<longleftrightarrow> is_control c \<or> c \<in> set (us (''<>:'' @ [char_of (34 :: nat)] @ ''/|?*'')) \<or> c = BACKSLASH"

definition portable_name :: "path \<Rightarrow> bool" where
  "portable_name name \<longleftrightarrow>
     \<not> (name = [] \<or> ends_with name [DOT] \<or> ends_with name [32] \<or> windows_reserved name \<or>
        list_ex forbidden_character name)"

fun check_components :: "component list \<Rightarrow> string + unit" where
  "check_components [] = Ok ()"
| "check_components (Normal name # cs) =
     (if portable_name name then check_components cs
      else Err ''Telegram path cannot be represented portably on Windows, macOS, and Linux'')"
| "check_components (_ # cs) = Err ''Unsafe sync path''"

definition validate_portable_relative_path :: "path \<Rightarrow> string + unit" where
  "validate_portable_relative_path p = check_components (path_components p)"

definition safe_download_path :: "fs_view \<Rightarrow> path list \<Rightarrow> path \<Rightarrow> string + path list" where
  "safe_download_path F root p =
     rbind (validate_portable_relative_path p) (\<lambda>_. safe_local_path F root p)"

definition conflict_path :: "path \<Rightarrow> path list \<Rightarrow> path list" where
  "conflict_path suffix p =
     (case name_split (last p) of
        (stem, Some extension) \<Rightarrow> butlast p @ [stem @ us ''.remote-conflict-'' @ suffix @ DOT # extension]
      | (stem, None) \<Rightarrow> butlast p @ [stem @ us ''.remote-conflict-'' @ suffix])"

definition temporary_download_path :: "path list \<Rightarrow> string + path list" where
  "temporary_download_path destination =
     (if destination = [] then Err ''Invalid destination filename''
      else Ok (butlast destination @ [last destination @ staging_suffix]))"

definition TELEGRAM_MAX_FILE_BYTES :: u64 where "TELEGRAM_MAX_FILE_BYTES = 2000000000"

definition validate_upload_size :: "u64 \<Rightarrow> string + unit" where
  "validate_upload_size n =
     (if TELEGRAM_MAX_FILE_BYTES < n
      then Err (''Skipped: file is '' @ show_int (uint n) @ '' bytes; Telegram sync limit is '' @
        show_int (uint TELEGRAM_MAX_FILE_BYTES) @ '' bytes'')
      else Ok ())"

section \<open>Effects\<close>

datatype effect =
    SentFile (sent_message: int)
  | Journaled db_statement
  | DeletedMessage int
  | RenamedMessage int path
  | RemovedLocal "path list"
  | ReservedTemporary "path list"
  | RemovedTemporary "path list"
  | Published "path list"

text \<open>Each step answers a result; effects are in the order they happen.\<close>

type_synonym 'a steps = "(string + 'a) \<times> effect list"

definition sbind :: "'a steps \<Rightarrow> ('a \<Rightarrow> 'b steps) \<Rightarrow> 'b steps" where
  "sbind m k = (case m of (Inl e, es) \<Rightarrow> (Err e, es) | (Inr v, es) \<Rightarrow> (case k v of (r, es') \<Rightarrow> (r, es @ es')))"

definition answer :: "string + 'a \<Rightarrow> 'a steps" where "answer r = (r, [])"

definition act :: "string + 'a \<Rightarrow> effect list \<Rightarrow> 'a steps" where
  "act r es = (case r of Inl e \<Rightarrow> (Err e, []) | Inr v \<Rightarrow> (Ok v, es))"

lemma sbind_simps [simp]:
  "sbind (Inl e, es) k = (Err e, es)"
  "sbind (Inr v, es) k = (fst (k v), es @ snd (k v))"
  by (simp_all add: sbind_def split: prod.splits)

lemma act_simps [simp]: "act (Inl e) es = (Err e, [])" "act (Inr v) es = (Ok v, es)"
  by (simp_all add: act_def)

lemma answer_simps [simp]: "answer r = (r, [])"
  by (simp add: answer_def)

text \<open>Answers during an operation, one field per call.\<close>

record upload_env =
  ue_is_file :: bool
  ue_metadata :: "string + u64"
  ue_upload :: "string + int \<times> bool"
  ue_current_hash :: "string + string"
  ue_discard :: "string + unit"
  ue_account :: "string + unit"
  ue_journal :: "string + unit"
  ue_rename :: "string + unit"

record local_check =
  lc_hash :: "string + string"
  lc_exists :: "string + bool"

record download_env =
  de_account :: "string + unit"
  de_create_dir :: "string + unit"
  de_reserve :: "string + unit"
  de_transfer :: "string + unit"
  de_account_after :: "string + unit"
  de_hash :: "string + string"
  de_local :: local_check
  de_account_last :: "string + unit"
  de_replace :: "string + unit"

record remote_check =
  rc_account :: "string + unit"
  rc_client :: "string + unit"
  rc_fingerprint :: "string + string option"
  rc_account_after :: "string + unit"

definition verify_local_precondition :: "local_check \<Rightarrow> string option \<Rightarrow> string + unit" where
  "verify_local_precondition C expected =
     (case expected of
        Some h \<Rightarrow>
          rbind (lc_hash C) (\<lambda>actual.
          if actual \<noteq> h then Err ''Local file changed after sync planning; destructive operation was cancelled''
          else Ok ())
      | None \<Rightarrow>
          rbind (lc_exists C) (\<lambda>there.
          if there then Err ''A local file appeared after sync planning; overwrite was cancelled'' else Ok ()))"

definition verify_remote_precondition :: "remote_check \<Rightarrow> string \<Rightarrow> string + unit" where
  "verify_remote_precondition C expected =
     rbind (rc_account C) (\<lambda>_.
     rbind (rc_client C) (\<lambda>_.
     rbind (rc_fingerprint C) (\<lambda>message.
     rbind (ok_or message ''The remote file disappeared after planning; deletion was cancelled'') (\<lambda>actual.
     if actual \<noteq> expected then Err ''The remote file changed after planning; deletion was cancelled''
     else rc_account_after C))))"

section \<open>Uploads and downloads\<close>

text \<open>The upload branch of \<open>execute\<close>. Besides its result it tells the message id that was noted.\<close>

definition discard_changed :: "upload_env \<Rightarrow> int \<Rightarrow> (unit \<times> int option) steps" where
  "discard_changed E message_id =
     (Err ''Local file changed during upload; uploaded attempt was discarded and will be retried'',
      case ue_discard E of Inl _ \<Rightarrow> [] | Inr _ \<Rightarrow> [DeletedMessage message_id])"

definition journal_and_rename :: "upload_env \<Rightarrow> path \<Rightarrow> tree_entry \<Rightarrow> int \<Rightarrow> bool \<Rightarrow> unit steps" where
  "journal_and_rename E p local message_id protected =
     (case act (ue_journal E) [Journaled (journal_upload p local message_id)] of (_, es) \<Rightarrow>
        if protected then (Ok (), es)
        else case act (ue_rename E) [RenamedMessage message_id p] of (r, es') \<Rightarrow> (r, es @ es'))"

definition upload_steps ::
  "fs_view \<Rightarrow> path list \<Rightarrow> upload_env \<Rightarrow> path \<Rightarrow> tree_entry \<Rightarrow> (string + unit) \<times> int option \<times> effect list" where
  "upload_steps F root E p local =
     (case rbind (validate_upload_size (te_size local)) (\<lambda>_.
           rbind (safe_local_path F root p) (\<lambda>_.
           if \<not> ue_is_file E then Err ''Local file disappeared before upload''
           else rbind (ue_metadata E) (\<lambda>len. rbind (validate_upload_size len) (\<lambda>_. ue_upload E)))) of
        Inl e \<Rightarrow> (Err e, None, [])
      | Inr (message_id, protected) \<Rightarrow>
          (case ue_current_hash E of
             Inl e \<Rightarrow> (Err e, None, [SentFile message_id])
           | Inr current \<Rightarrow>
               if current \<noteq> te_hash local
               then (case discard_changed E message_id of (r, es) \<Rightarrow>
                       (map_sum id (\<lambda>_. ()) r, None, SentFile message_id # es))
               else
                 (case ue_account E of
                    Inl e \<Rightarrow> (Err e, None, [SentFile message_id])
                  | Inr _ \<Rightarrow>
                      (case journal_and_rename E p local message_id protected of (r, es) \<Rightarrow>
                         (r, Some message_id, SentFile message_id # es)))))"

text \<open>After the staging file is reserved, every failure up to the hash removes it; a failure to hash it or
  to rename it leaves it.\<close>

definition cleaned :: "path list \<Rightarrow> string + 'a \<Rightarrow> 'a steps" where
  "cleaned temporary r = (case r of Inl e \<Rightarrow> (Err e, [RemovedTemporary temporary]) | Inr v \<Rightarrow> (Ok v, []))"

definition download_steps :: "download_env \<Rightarrow> path list \<Rightarrow> string option \<Rightarrow> string steps" where
  "download_steps E destination expected =
     sbind (answer (de_account E)) (\<lambda>_.
     sbind (answer (de_create_dir E)) (\<lambda>_.
     sbind (answer (temporary_download_path destination)) (\<lambda>temporary.
     sbind (act (de_reserve E) [ReservedTemporary temporary]) (\<lambda>_.
     sbind (cleaned temporary (de_transfer E)) (\<lambda>_.
     sbind (cleaned temporary (de_account_after E)) (\<lambda>_.
     sbind (answer (de_hash E)) (\<lambda>published_hash.
     sbind (cleaned temporary (verify_local_precondition (de_local E) expected)) (\<lambda>_.
     sbind (cleaned temporary (de_account_last E)) (\<lambda>_.
     sbind (act (de_replace E) [Published destination]) (\<lambda>_.
     (Ok published_hash, [])))))))))))"

section \<open>One operation\<close>

record exec_env =
  ex_ready :: "string + unit"
  ex_fs :: fs_view
  ex_upload :: upload_env
  ex_download :: download_env
  ex_suffix :: path
  ex_local :: local_check
  ex_account :: "string + unit"
  ex_remove :: "string + unit"
  ex_remote :: remote_check
  ex_delete :: "string + unit"

definition run_operation ::
  "path list \<Rightarrow> exec_env \<Rightarrow> sync_operation \<Rightarrow> (string + unit) \<times> int option \<times> string option \<times> effect list" where
  "run_operation root X operation =
     (case ex_ready X of
        Inl e \<Rightarrow> (Err e, None, None, [])
      | Inr _ \<Rightarrow>
         (case operation of
            OpUpload p local \<Rightarrow>
              (case upload_steps (ex_fs X) root (ex_upload X) p local of (r, m, es) \<Rightarrow> (r, m, None, es))
          | OpDownload p remote keep_both expected \<Rightarrow>
              (if te_message remote = None then (Err ''Remote file has no Telegram message id'', None, None, [])
               else
                 (case safe_download_path (ex_fs X) root p of
                    Inl e \<Rightarrow> (Err e, None, None, [])
                  | Inr destination \<Rightarrow>
                      (case download_steps (ex_download X)
                              (if keep_both then conflict_path (ex_suffix X) destination else destination)
                              (if keep_both then None else expected) of
                         (Inl e, es) \<Rightarrow> (Err e, None, None, es)
                       | (Inr h, es) \<Rightarrow> (Ok (), None, if keep_both then None else Some h, es))))
          | OpDeleteLocal p expected \<Rightarrow>
              (case sbind (answer (safe_local_path (ex_fs X) root p)) (\<lambda>file_path.
                    sbind (answer (verify_local_precondition (ex_local X) (Some expected))) (\<lambda>_.
                    sbind (answer (ex_account X)) (\<lambda>_.
                    act (ex_remove X) [RemovedLocal file_path]))) of
                 (r, es) \<Rightarrow> (r, None, None, es))
          | OpDeleteRemote p message expected \<Rightarrow>
              (case sbind (answer (verify_remote_precondition (ex_remote X) expected)) (\<lambda>_.
                    act (ex_delete X) [DeletedMessage message]) of
                 (r, es) \<Rightarrow> (r, None, None, es))
          | OpConflict p \<Rightarrow> (Err ''Conflict requires user resolution'', None, None, [])
          | OpSkip p \<Rightarrow> (Ok (), None, None, [])))"

definition execution_result_of ::
  "sync_operation \<Rightarrow> (string + unit) \<times> int option \<times> string option \<times> effect list \<Rightarrow> execution_result" where
  "execution_result_of operation outcome =
     (case outcome of (r, m, h, _) \<Rightarrow>
        \<lparr>xr_path = op_path operation, xr_action = action_of operation,
         xr_success = (case r of Inl _ \<Rightarrow> False | Inr _ \<Rightarrow> True),
         xr_detail = (case r of Inl e \<Rightarrow> Some e | Inr _ \<Rightarrow> None), xr_message = m, xr_local_hash = h\<rparr>)"

definition execute ::
  "path list \<Rightarrow> (exec_env \<times> sync_operation) list \<Rightarrow> execution_result list \<times> effect list" where
  "execute root operations =
     (map (\<lambda>(X, operation). execution_result_of operation (run_operation root X operation)) operations,
      concat (map (\<lambda>(X, operation). snd (snd (snd (run_operation root X operation)))) operations))"

end
