(* ===== verification/Sync_Reconcile.thy ===== *)
theory Sync_Reconcile
  imports Sync_Execute
begin

text \<open>
  A whole reconciliation of one mapping (\<open>reconcile_pair\<close> in \<open>sync_engine/mod.rs\<close>): pending cleanup,
  remote scan, preparation, the two reasons to pause, execution, and the bookkeeping afterwards, each
  of which can fail. The state is the mapping's rows and its list of pending cleanups; what Telegram,
  the account guard, the disk and the database answer is the environment.
\<close>

section \<open>Pending cleanup\<close>

text \<open>The messages found for an item: whether the old one exists and its fingerprint, whether the new one
  exists with media.\<close>

record cleanup_view =
  cv_account :: "string + unit"
  cv_messages :: "string + unit"
  cv_old_exists :: bool
  cv_old_fingerprint :: "string option"
  cv_new_exists :: bool
  cv_account_delete :: "string + unit"
  cv_delete :: "string + unit"
  cv_status :: "string + unit"
  cv_account_after :: "string + unit"

definition old_unchanged :: "cleanup_view \<Rightarrow> pending_cleanup \<Rightarrow> bool" where
  "old_unchanged V item \<longleftrightarrow>
     cv_old_exists V \<and>
     (case (cv_old_fingerprint V, pn_old_hash item) of
        (Some actual, Some expected) \<Rightarrow> actual = expected
      | _ \<Rightarrow> False)"

text \<open>One item: whether the old message was preserved, the statement run on the rows, the effects.\<close>

definition cleanup_item :: "cleanup_view \<Rightarrow> pending_cleanup \<Rightarrow> (string + bool) \<times> db_statement list \<times> effect list" where
  "cleanup_item V item =
     (case rbind (cv_account V) (\<lambda>_. cv_messages V) of
        Inl e \<Rightarrow> (Err e, [], [])
      | Inr _ \<Rightarrow>
          (case cleanup_action_of (cv_old_exists V) (cv_new_exists V) (old_unchanged V item) of
             DeleteOld \<Rightarrow>
               (case rbind (cv_account_delete V) (\<lambda>_. cv_delete V) of
                  Inl e \<Rightarrow> (Err e, [], [])
                | Inr _ \<Rightarrow> (rbind (cv_account_after V) (\<lambda>_. Ok False), [], [DeletedMessage (pn_old item)]))
           | PreserveOld \<Rightarrow>
               (case cv_status V of
                  Inl e \<Rightarrow> (Err e, [], [])
                | Inr _ \<Rightarrow>
                    (rbind (cv_account_after V) (\<lambda>_. Ok True), [SetStateStatus (pn_path item) ''conflict''], []))
           | AlreadyGone \<Rightarrow> (rbind (cv_account_after V) (\<lambda>_. Ok False), [], [])))"

text \<open>The loop with everything it does; the pending list returned is the one last saved.\<close>

fun retry_pending_cleanup ::
  "(pending_cleanup \<Rightarrow> cleanup_view) \<Rightarrow> pending_cleanup list \<Rightarrow>
   (string + unit) \<times> pending_cleanup list \<times> db_statement list \<times> effect list" where
  "retry_pending_cleanup view [] = (Ok (), [], [], [])"
| "retry_pending_cleanup view (item # pending) =
     (case cleanup_item (view item) item of
        (Inl e, qs, es) \<Rightarrow> (Err e, item # pending, qs, es)
      | (Inr True, qs, es) \<Rightarrow>
          (Err ''A previous remote file changed or its replacement disappeared before cleanup. Both available copies were preserved; review the conflict'', pending, qs, es)
      | (Inr False, qs, es) \<Rightarrow>
          (case retry_pending_cleanup view pending of (r, pending', qs', es') \<Rightarrow> (r, pending', qs @ qs', es @ es')))"

section \<open>One reconciliation\<close>

record mapping =
  mp_rows :: synced_tree
  mp_pending :: "pending_cleanup list"

record cycle_env =
  ce_account :: "string + unit"
  ce_cleanup :: "pending_cleanup \<Rightarrow> cleanup_view"
  ce_remote :: "synced_tree \<Rightarrow> string + file_tree"
  ce_account_scanned :: "string + unit"
  ce_scan :: "synced_tree \<Rightarrow> string + local_scan"
  ce_prepare_fault :: "nat \<Rightarrow> string option"
  ce_protection :: "string + unit"
  ce_root :: "path list"
  ce_exec :: "sync_operation \<Rightarrow> exec_env"
  ce_account_executed :: "string + unit"
  ce_journal_fault :: "nat \<Rightarrow> string option"
  ce_cleanup_after :: "pending_cleanup \<Rightarrow> cleanup_view"
  ce_account_cleaned :: "string + unit"
  ce_uploaded :: "(path \<times> int) list \<Rightarrow> file_tree"
  ce_record_fault :: "nat \<Rightarrow> string option"
  ce_now :: int

record cycle_report =
  cr_pending :: nat
  cr_conflicts :: nat
  cr_reason :: "string option"

fun journaled :: "effect list \<Rightarrow> db_statement list" where
  "journaled [] = []"
| "journaled (Journaled q # es) = q # journaled es"
| "journaled (_ # es) = journaled es"

definition show_sync_error :: "sync_error \<Rightarrow> string" where
  "show_sync_error e = (case e of MassDeletionProtection n s \<Rightarrow>
     ''mass deletion protection stopped '' @ show_int (int n) @ '' deletes across '' @ show_int (int s) @ '' synced files'')"

definition failed_operations :: "execution_result list \<Rightarrow> execution_result list" where
  "failed_operations results = filter (\<lambda>x. \<not> xr_success x \<and> xr_action x \<noteq> ''conflict'') results"

definition finish_cycle ::
  "cycle_env \<Rightarrow> prepared_cycle \<Rightarrow> execution_result list \<Rightarrow> mapping \<Rightarrow>
   (string + cycle_report) \<times> mapping \<times> effect list" where
  "finish_cycle E prepared results M =
     (case ce_account_executed E of
        Inl e \<Rightarrow> (Err e, M, [])
      | Inr _ \<Rightarrow>
        let M1 = M\<lparr>mp_pending := journal_cleanup (pc_remote prepared) results (mp_pending M)\<rparr> in
        case journal_uploads (pc_local prepared) results of (journal, uploads) \<Rightarrow>
        case run_statements (ce_journal_fault E) (ce_now E) journal (mp_rows M1) of
          (Inl e, db) \<Rightarrow> (Err e, M1\<lparr>mp_rows := db\<rparr>, [])
        | (Inr _, db) \<Rightarrow>
          (case retry_pending_cleanup (ce_cleanup_after E) (mp_pending M1) of (r, pending, qs, es) \<Rightarrow>
           let M2 = \<lparr>mp_rows = fold (exec_statement (ce_now E)) qs db, mp_pending = pending\<rparr> in
           case rbind r (\<lambda>_. ce_account_cleaned E) of
             Inl e \<Rightarrow> (Err e, M2, es)
           | Inr _ \<Rightarrow>
             (case run_statements (ce_record_fault E) (ce_now E)
                     (record_results prepared results (ce_uploaded E uploads)) (mp_rows M2) of
                (Inl e, db') \<Rightarrow> (Err e, M2\<lparr>mp_rows := db'\<rparr>, es)
              | (Inr _, db') \<Rightarrow>
                  (Ok \<lparr>cr_pending = length (failed_operations results), cr_conflicts = pc_conflicts prepared,
                       cr_reason = (case failed_operations results of [] \<Rightarrow> None | x # _ \<Rightarrow> xr_detail x)\<rparr>,
                   M2\<lparr>mp_rows := db'\<rparr>, es))))"

definition run_prepared ::
  "cycle_env \<Rightarrow> prepared_cycle \<Rightarrow> mapping \<Rightarrow> (string + cycle_report) \<times> mapping \<times> effect list" where
  "run_prepared E prepared M =
     (let prepared1 = drop_settled_skips prepared in
      case execute (ce_root E) (map (\<lambda>operation. (ce_exec E operation, operation)) (pc_operations prepared1)) of
        (results, es) \<Rightarrow>
      case finish_cycle E prepared1 results
             (M\<lparr>mp_rows := fold (exec_statement (ce_now E)) (journaled es) (mp_rows M)\<rparr>) of
        (r, M', es') \<Rightarrow> (r, M', es @ es'))"

definition is_upload :: "sync_operation \<Rightarrow> bool" where
  "is_upload operation = (case operation of OpUpload _ _ \<Rightarrow> True | _ \<Rightarrow> False)"

text \<open>The reasons not to execute what was prepared, in the order they are checked.\<close>

definition pause_reason :: "sync_preferences \<Rightarrow> cycle_env \<Rightarrow> prepared_cycle \<Rightarrow> string option" where
  "pause_reason prefs E prepared =
     (if sp_pause_on_conflicts prefs \<and> 0 < pc_conflicts prepared
      then Some ''Paused because this mapping has conflicts; review them before continuing''
      else if list_ex is_upload (pc_operations prepared)
      then (case ce_protection E of Inl reason \<Rightarrow> Some reason | Inr _ \<Rightarrow> None)
      else None)"

definition reconcile_pair ::
  "sync_preferences \<Rightarrow> string \<Rightarrow> cycle_env \<Rightarrow> mapping \<Rightarrow> (string + cycle_report) \<times> mapping \<times> effect list" where
  "reconcile_pair prefs direction E M =
     (case ce_account E of
        Inl e \<Rightarrow> (Err e, M, [])
      | Inr _ \<Rightarrow>
        case retry_pending_cleanup (ce_cleanup E) (mp_pending M) of (r, pending, qs, es) \<Rightarrow>
        let M1 = \<lparr>mp_rows = fold (exec_statement (ce_now E)) qs (mp_rows M), mp_pending = pending\<rparr>;
            synced = mp_rows M1 in
        case rbind r (\<lambda>_. rbind (ce_remote E synced) (\<lambda>remote.
             rbind (ce_account_scanned E) (\<lambda>_. rbind (ce_scan E synced) (\<lambda>scan. Ok (remote, scan))))) of
          Inl e \<Rightarrow> (Err e, M1, es)
        | Inr (remote, scan) \<Rightarrow>
          (case prepare_reconciliation prefs direction scan synced remote of (outcome, writes) \<Rightarrow>
           case run_statements (ce_prepare_fault E) (ce_now E) writes synced of
             (Inl e, db) \<Rightarrow> (Err e, M1\<lparr>mp_rows := db\<rparr>, es)
           | (Inr _, db) \<Rightarrow>
             (case outcome of
                Inl e \<Rightarrow> (Err (show_sync_error e), M1\<lparr>mp_rows := db\<rparr>, es)
              | Inr prepared \<Rightarrow>
                (case pause_reason prefs E prepared of
                   Some reason \<Rightarrow>
                     (Ok \<lparr>cr_pending = actionable_operations (pc_operations prepared),
                          cr_conflicts = pc_conflicts prepared, cr_reason = Some reason\<rparr>,
                      M1\<lparr>mp_rows := db\<rparr>, es)
                 | None \<Rightarrow>
                   (case run_prepared E prepared (M1\<lparr>mp_rows := db\<rparr>) of
                      (r', M', es') \<Rightarrow> (r', M', es @ es'))))))"

end
