(* ===== verification/Sync_Converge.thy ===== *)
theory Sync_Converge
  imports Sync_Cycle
begin

text \<open>
  A cycle whose operations all succeed settles its mapping: the next cycle, scanning what the
  operations left behind, has nothing to do. The argument is path by path: the planner looks only
  at the three entries of a path, and every recorded row is quiet for the copies it describes.
\<close>

section \<open>The decision for one path\<close>

definition plan_at :: "path \<Rightarrow> tree_entry option \<Rightarrow> tree_entry option \<Rightarrow> synced_entry option \<Rightarrow> sync_operation option" where
  "plan_at p l r s =
     (case Option.bind s (resolution p l r) of
        Some choice \<Rightarrow>
          if l \<noteq> None \<or> r \<noteq> None
          then Some (case choice of None \<Rightarrow> OpConflict p | Some operation \<Rightarrow> operation)
          else None
      | None \<Rightarrow>
          if (case s of None \<Rightarrow> False | Some previous \<Rightarrow> se_status previous = ''conflict'') \<and> (l \<noteq> None \<or> r \<noteq> None)
          then Some (OpConflict p)
          else compare_copies p l r s)"

lemma plan_path_at: "plan_path l r s p = plan_at p (bt_get l p) (bt_get r p) (bt_get s p)"
  by (simp add: plan_path_def plan_at_def Let_def)

definition redirect_at :: "string \<Rightarrow> tree_entry option \<Rightarrow> tree_entry option \<Rightarrow> sync_operation \<Rightarrow> sync_operation" where
  "redirect_at d l r operation =
     redirect (case l of None \<Rightarrow> [] | Some e \<Rightarrow> [(op_path operation, e)])
              (case r of None \<Rightarrow> [] | Some e \<Rightarrow> [(op_path operation, e)]) d operation"

lemma redirect_at_eq:
  "redirect l r d operation = redirect_at d (bt_get l (op_path operation)) (bt_get r (op_path operation)) operation"
  by (cases operation) (auto simp: redirect_at_def redirect_def split: option.splits)

definition user_choice :: "synced_entry option \<Rightarrow> bool" where
  "user_choice s = (case s of None \<Rightarrow> False | Some e \<Rightarrow>
     se_status e = ''keep_local'' \<or> se_status e = ''keep_remote'' \<or> se_status e = ''keep_both'')"

lemma chosen_by_user_at: "chosen_by_user s p = user_choice (bt_get s p)"
  by (simp add: chosen_by_user_def user_choice_def)

definition policy_at ::
  "string \<Rightarrow> bool \<Rightarrow> path \<Rightarrow> tree_entry option \<Rightarrow> tree_entry option \<Rightarrow> synced_entry option \<Rightarrow> sync_operation option" where
  "policy_at d b p l r s =
     map_option (\<lambda>operation. withhold_delete b (if user_choice s then operation else redirect_at d l r operation))
       (plan_at p l r s)"

lemma image_of_some:
  assumes "\<And>y. y \<in> S \<longleftrightarrow> (\<exists>p\<in>A. g p = Some y)"
  shows "x \<in> f ` S \<longleftrightarrow> (\<exists>p\<in>A. map_option f (g p) = Some x)"
proof
  assume "x \<in> f ` S"
  then show "\<exists>p\<in>A. map_option f (g p) = Some x" using assms by fastforce
next
  assume "\<exists>p\<in>A. map_option f (g p) = Some x"
  then obtain p z where "p \<in> A" "g p = Some z" "x = f z" by auto
  then show "x \<in> f ` S" using assms by blast
qed

lemma operations_at:
  "operation \<in> set (operations_for_policy l r s d b) \<longleftrightarrow>
     (\<exists>p\<in>set (all_paths l r s). policy_at d b p (bt_get l p) (bt_get r p) (bt_get s p) = Some operation)"
proof -
  have "policy_at d b p (bt_get l p) (bt_get r p) (bt_get s p) =
      map_option (\<lambda>o1. withhold_delete b (if chosen_by_user s (op_path o1) then o1 else redirect l r d o1)) (plan_path l r s p)" for p
    using plan_path_path [of l r s p]
    by (cases "plan_path l r s p") (auto simp: policy_at_def plan_path_at [symmetric] chosen_by_user_at redirect_at_eq)
  moreover have "set (operations_for_policy l r s d b) =
      (\<lambda>o1. withhold_delete b (if chosen_by_user s (op_path o1) then o1 else redirect l r d o1)) ` set (plan_unchecked l r s)"
    by (simp add: operations_for_policy_def image_image)
  ultimately show ?thesis by (simp only: image_of_some [OF set_plan_unchecked])
qed

lemma policy_at_path: "policy_at d b p l r s = Some operation \<Longrightarrow> op_path operation = p"
proof -
  assume a: "policy_at d b p l r s = Some operation"
  then obtain o1 where o1: "plan_at p l r s = Some o1" by (auto simp: policy_at_def)
  then have "op_path o1 = p"
    by (auto simp: plan_at_def compare_copies_def resolution_def Let_def split: option.splits if_splits bind_splits)
  then show ?thesis using a o1 by (auto simp: policy_at_def redirect_at_def)
qed

section \<open>Quiet paths\<close>

text \<open>A path is quiet when the next cycle has nothing to execute for it.\<close>

definition differs :: "tree_entry option \<Rightarrow> tree_entry option \<Rightarrow> synced_entry option \<Rightarrow> bool" where
  "differs l r s = (case (l, r, s) of
     (Some l, Some r, Some e) \<Rightarrow> se_local_hash e \<noteq> Some (te_hash l) \<or> se_remote_hash e \<noteq> Some (te_hash r)
   | _ \<Rightarrow> False)"

definition quiet :: "string \<Rightarrow> bool \<Rightarrow> path \<Rightarrow> tree_entry option \<Rightarrow> tree_entry option \<Rightarrow> synced_entry option \<Rightarrow> bool" where
  "quiet d b p l r s \<longleftrightarrow>
     policy_at d b p l r s = None \<or>
     policy_at d b p l r s = Some (OpSkip p) \<and> s \<noteq> None \<and> \<not> differs l r s"

lemma quiet_absent: "quiet d b p None None s"
  by (auto simp: quiet_def policy_at_def plan_at_def compare_copies_def split: option.splits bind_splits)

definition plain_status :: "string \<Rightarrow> bool" where
  "plain_status st \<longleftrightarrow> st \<noteq> ''conflict'' \<and> st \<noteq> ''keep_local'' \<and> st \<noteq> ''keep_remote'' \<and> st \<noteq> ''keep_both''"

lemma plan_at_plain:
  assumes "\<And>e. s = Some e \<Longrightarrow> plain_status (se_status e)"
  shows "plan_at p l r s = compare_copies p l r s" and "\<not> user_choice s"
  using assms by (auto simp: plan_at_def plain_status_def resolution_def user_choice_def split: option.splits bind_splits)

lemma policy_at_plain:
  assumes "\<And>e. s = Some e \<Longrightarrow> plain_status (se_status e)"
  shows "policy_at d b p l r s = map_option (\<lambda>operation. withhold_delete b (redirect_at d l r operation)) (compare_copies p l r s)"
  using plan_at_plain [OF assms] by (simp add: policy_at_def)

lemma quiet_recorded:
  assumes "plain_status (se_status e)" and "se_local_hash e = Some (te_hash l)" and "se_remote_hash e = Some (te_hash r)"
  shows "quiet d b p (Some l) (Some r) (Some e)"
proof -
  have "policy_at d b p (Some l) (Some r) (Some e) =
      map_option (\<lambda>operation. withhold_delete b (redirect_at d (Some l) (Some r) operation)) (compare_copies p (Some l) (Some r) (Some e))"
    by (rule policy_at_plain) (use assms(1) in simp)
  then show ?thesis
    using assms(2,3) by (simp add: quiet_def compare_copies_def redirect_at_def redirect_def withhold_delete_def differs_def)
qed

lemma chosen_operation:
  assumes "plan_at p l r (Some e) = Some operation" and "user_choice (Some e)"
  shows "\<not> is_delete operation \<and> \<not> is_skip operation"
  using assms by (auto simp: plan_at_def resolution_def user_choice_def split: option.splits if_splits)

lemma skipped_status:
  assumes "policy_at d b p l r (Some e) = Some (OpSkip p)"
  shows "plain_status (se_status e)"
proof (rule ccontr)
  assume n: "\<not> plain_status (se_status e)"
  show False
  proof (cases "user_choice (Some e)")
    case True
    obtain operation where o: "plan_at p l r (Some e) = Some operation" "withhold_delete b operation = OpSkip p"
      using assms True by (auto simp: policy_at_def)
    then show ?thesis using chosen_operation [OF o(1) True] by (auto simp: withhold_delete_def split: if_splits)
  next
    case False
    then have "se_status e = ''conflict''" "resolution p l r e = None"
      using n by (auto simp: user_choice_def plain_status_def resolution_def)
    then show ?thesis using assms False
      by (auto simp: policy_at_def plan_at_def withhold_delete_def redirect_at_def redirect_def compare_copies_def
          split: option.splits if_splits)
  qed
qed

text \<open>The planner looks at hashes, presence, messages and status only.\<close>

definition same_copy :: "tree_entry option \<Rightarrow> tree_entry option \<Rightarrow> bool" where
  "same_copy x y \<longleftrightarrow>
     map_option (\<lambda>e. (te_hash e, te_size e, te_message e)) x = map_option (\<lambda>e. (te_hash e, te_size e, te_message e)) y"

definition same_row :: "synced_entry option \<Rightarrow> synced_entry option \<Rightarrow> bool" where
  "same_row x y \<longleftrightarrow> map_option (\<lambda>e. (se_local_hash e, se_remote_hash e, se_message e, se_status e)) x =
     map_option (\<lambda>e. (se_local_hash e, se_remote_hash e, se_message e, se_status e)) y"

lemma same_row_refl [simp]: "same_row x x" by (simp add: same_row_def)
lemma same_copy_refl [simp]: "same_copy x x" by (simp add: same_copy_def)

lemma same_simps [simp]:
  "same_copy None y \<longleftrightarrow> y = None" "same_copy x None \<longleftrightarrow> x = None"
  "same_row None y' \<longleftrightarrow> y' = None" "same_row x' None \<longleftrightarrow> x' = None"
  by (auto simp: same_copy_def same_row_def)

lemma one_sided_local:
  assumes "te_hash x' = te_hash x" and "se_local_hash e' = se_local_hash e" and "se_remote_hash e' = se_remote_hash e"
    and "se_status e' = se_status e"
    and "map_option (\<lambda>operation. withhold_delete b (redirect_at d (Some x) None operation)) (compare_copies p (Some x) None (Some e)) = Some (OpSkip p)"
  shows "map_option (\<lambda>operation. withhold_delete b (redirect_at d (Some x') None operation)) (compare_copies p (Some x') None (Some e')) = Some (OpSkip p)"
  using assms
  by (cases "se_remote_hash e = None"; cases "se_local_hash e = Some (te_hash x)"; cases "se_status e = ''skipped''";
      cases "d = ''upload_only''"; cases "d = ''download_only''"; cases b)
     (simp_all add: compare_copies_def redirect_at_def redirect_def withhold_delete_def)

lemma one_sided_remote:
  assumes "te_hash x' = te_hash x" and "te_message x' = te_message x" and "se_local_hash e' = se_local_hash e"
    and "se_remote_hash e' = se_remote_hash e"
    and "map_option (\<lambda>operation. withhold_delete b (redirect_at d None (Some x) operation)) (compare_copies p None (Some x) (Some e)) = Some (OpSkip p)"
  shows "map_option (\<lambda>operation. withhold_delete b (redirect_at d None (Some x') operation)) (compare_copies p None (Some x') (Some e')) = Some (OpSkip p)"
  using assms
  by (cases "se_local_hash e = None"; cases "se_remote_hash e = Some (te_hash x)"; cases "te_message x";
      cases "d = ''upload_only''"; cases "d = ''download_only''"; cases b)
     (simp_all add: compare_copies_def redirect_at_def redirect_def withhold_delete_def)

lemma quiet_same:
  assumes "policy_at d b p l r s = Some (OpSkip p)" and "s \<noteq> None" and "\<not> differs l r s"
    and "same_copy l l'" and "same_copy r r'" and "same_row s s'"
  shows "quiet d b p l' r' s'"
proof -
  obtain e where e: "s = Some e" "plain_status (se_status e)" using assms(1,2) skipped_status by fastforce
  obtain e' where e': "s' = Some e'" "se_local_hash e' = se_local_hash e" "se_remote_hash e' = se_remote_hash e"
      "se_status e' = se_status e" "se_message e' = se_message e"
    using assms(6) e(1) by (cases s') (auto simp: same_row_def)
  have A: "map_option (\<lambda>operation. withhold_delete b (redirect_at d l r operation)) (compare_copies p l r (Some e)) = Some (OpSkip p)"
    using policy_at_plain [of "Some e" d b p l r] assms(1) e by simp
  have B: "policy_at d b p l' r' (Some e') =
      map_option (\<lambda>operation. withhold_delete b (redirect_at d l' r' operation)) (compare_copies p l' r' (Some e'))"
    by (rule policy_at_plain) (use e e' in simp)
  have P: "policy_at d b p l' r' (Some e') = Some (OpSkip p)" if one: "l = None \<or> r = None" "\<not> (l = None \<and> r = None)"
  proof (cases l)
    case None
    then obtain y y' where y: "r = Some y" "r' = Some y'" "l' = None" "te_hash y' = te_hash y" "te_message y' = te_message y"
      using one(2) assms(4,5) by (cases r; cases r') (auto simp: same_copy_def)
    have "map_option (\<lambda>operation. withhold_delete b (redirect_at d None (Some y') operation))
        (compare_copies p None (Some y') (Some e')) = Some (OpSkip p)"
      by (rule one_sided_remote [OF y(4,5) e'(2,3)]) (use A y(1) None in simp)
    then show ?thesis using B y(2,3) by simp
  next
    case (Some x)
    then obtain x' where x: "r = None" "r' = None" "l' = Some x'" "te_hash x' = te_hash x"
      using one(1) assms(4,5) by (cases l') (auto simp: same_copy_def)
    have "map_option (\<lambda>operation. withhold_delete b (redirect_at d (Some x') None operation))
        (compare_copies p (Some x') None (Some e')) = Some (OpSkip p)"
      by (rule one_sided_local [OF x(4) e'(2,3,4)]) (use A x(1) Some in simp)
    then show ?thesis using B x(2,3) by simp
  qed
  consider "l = None \<and> r = None" | x y where "l = Some x" "r = Some y" | "l = None \<or> r = None" "\<not> (l = None \<and> r = None)"
    by (cases l; cases r) auto
  then show ?thesis
  proof cases
    case 1
    then show ?thesis using assms(4,5) quiet_absent by simp
  next
    case (2 x y)
    then obtain x' y' where "l' = Some x'" "r' = Some y'" "te_hash x' = te_hash x" "te_hash y' = te_hash y"
      using assms(4,5) by (cases l'; cases r') (auto simp: same_copy_def)
    then show ?thesis using 2 assms(3) e e' quiet_recorded [of e' x' y'] by (simp add: differs_def)
  next
    case 3
    then have "\<not> differs l' r' s'" using assms(4,5) by (auto simp: differs_def split: option.splits)
    then show ?thesis using P [OF 3] e'(1) by (simp add: quiet_def)
  qed
qed

section \<open>Statements act on one row\<close>

fun stmt_path :: "db_statement \<Rightarrow> path" where
  "stmt_path (UpsertState p l r status) = p"
| "stmt_path (DeleteState p) = p"
| "stmt_path (SetStateStatus p status) = p"
| "stmt_path (RefreshMetadata e) = te_path e"

definition row_after :: "int \<Rightarrow> db_statement \<Rightarrow> synced_entry option \<Rightarrow> synced_entry option" where
  "row_after now q row =
     bt_get (exec_statement now q (case row of None \<Rightarrow> [] | Some e \<Rightarrow> [(stmt_path q, e)])) (stmt_path q)"

lemma row_after_simps [simp]:
  "row_after now (UpsertState p l r status) row = Some (state_row now p l r status)"
  "row_after now (DeleteState p) row = None"
  by (cases row; simp add: row_after_def)+

lemma exec_at:
  "bt_get (exec_statement now q db) p = (if stmt_path q = p then row_after now q (bt_get db p) else bt_get db p)"
  by (cases q; cases "bt_get db p") (auto simp: row_after_def split: option.splits)

lemma exec_fold_at:
  "bt_get (fold (exec_statement now) qs db) p = fold (row_after now) (filter (\<lambda>q. stmt_path q = p) qs) (bt_get db p)"
  by (induction qs arbitrary: db) (auto simp: exec_at)

lemma exec_fold_ok: "bt_ok db \<Longrightarrow> bt_ok (fold (exec_statement now) qs db)"
proof (induction qs arbitrary: db)
  case (Cons q qs)
  have "bt_ok (exec_statement now q db)" using Cons.prems by (cases q) (auto split: option.splits)
  then show ?case using Cons.IH by simp
qed simp

lemma fold_upserts:
  assumes "set qs \<subseteq> {UpsertState p l r status}" and "qs \<noteq> []"
  shows "fold (row_after now) qs row = Some (state_row now p l r status)"
  using assms
proof (induction qs arbitrary: row)
  case (Cons q qs)
  then show ?case by (cases "qs = []") auto
qed simp

lemma refresh_same_row: "same_row (row_after now (RefreshMetadata e) row) row"
  by (cases row) (simp_all add: row_after_def same_row_def)

lemma fold_refreshes:
  assumes "\<And>q. q \<in> set qs \<Longrightarrow> \<exists>e. q = RefreshMetadata e"
  shows "same_row (fold (row_after now) qs row) row"
  using assms
proof (induction qs arbitrary: row)
  case (Cons q qs)
  obtain e where "q = RefreshMetadata e" using Cons.prems by fastforce
  moreover have "same_row (fold (row_after now) qs (row_after now q row)) (row_after now q row)"
    using Cons by simp
  ultimately show ?case using refresh_same_row [of now e row] by (simp add: same_row_def)
qed simp

section \<open>The rows after a preparation\<close>

lemma adoption_Some: "adoption r s p x = Some a \<Longrightarrow> \<exists>y. bt_get r p = Some y \<and> a = adopted_entry p x y"
  by (auto simp: adoption_def Let_def split: option.splits if_splits)

lemma baselined_row:
  assumes "bt_ok l" and "bt_ok s" and "resume_interrupted_uploads l r s = (resumed, s1)"
    and "(if b then adopt_matching_files l r s1 else ([], s1)) = (adopted, s2)"
    and "p \<in> set resumed \<union> set adopted"
  shows "\<exists>x y e. bt_get l p = Some x \<and> bt_get r p = Some y \<and> bt_get s2 p = Some e \<and> se_status e = ''synced'' \<and>
    se_local_hash e = Some (te_hash x) \<and> se_remote_hash e = Some (te_hash y) \<and> se_message e = te_message y"
proof (cases "p \<in> set adopted")
  case True
  then have "b" "adopt_matching_files l r s1 = (adopted, s2)" using assms(4) by (auto split: if_splits)
  note A = adopt_spec [OF assms(1) this(2), of p]
  obtain x a where x: "bt_get l p = Some x" "adoption r s1 p x = Some a" using A True by auto
  then have "bt_get s2 p = Some a" using A by simp
  then show ?thesis using x(1) adoption_Some [OF x(2)] by (auto simp: adopted_entry_def)
next
  case False
  note R = resume_spec [OF assms(2,3), of p]
  then obtain e e' where e: "bt_get s p = Some e" "resumed_entry l r p e = Some e'" "bt_get s1 p = Some e'"
    using assms(5) False by (auto split: option.splits)
  have "bt_get s2 p = Some e'"
  proof (cases b)
    case True
    then show ?thesis using assms(4) adopt_spec [OF assms(1), of r s1 adopted s2 p] False e(3)
      by (auto split: option.splits bind_splits)
  qed (use assms(4) e(3) in simp)
  then show ?thesis using e(2) by (auto simp: resumed_entry_def split: option.splits if_splits)
qed

lemma not_baselined_row:
  assumes "bt_ok l" and "bt_ok s" and "resume_interrupted_uploads l r s = (resumed, s1)"
    and "(if b then adopt_matching_files l r s1 else ([], s1)) = (adopted, s2)"
    and "p \<notin> set resumed \<union> set adopted"
  shows "bt_get s2 p = bt_get s p"
proof -
  have s1: "bt_get s1 p = bt_get s p"
    using resume_spec [OF assms(2,3), of p] assms(5) by (auto split: option.splits bind_splits)
  show ?thesis
  proof (cases b)
    case True
    then show ?thesis using assms(4,5) adopt_spec [OF assms(1), of r s1 adopted s2 p] s1
      by (auto split: option.splits bind_splits)
  qed (use assms(4) s1 in simp)
qed

lemma prepared_rows:
  assumes "bt_ok synced" and "bt_ok (ls_tree scan)"
    and "prepare_reconciliation prefs direction scan synced remote = (Ok prepared, writes)"
    and "pc_conflicts prepared = 0" and "\<not> ignores prefs p"
    and "bt_get (pc_local prepared) p \<noteq> None \<or> bt_get (pc_remote prepared) p \<noteq> None"
  shows "same_row (bt_get (fold (exec_statement now) writes synced) p) (bt_get (pc_synced prepared) p)"
proof -
  obtain resumed s1 adopted where P:
    "pc_local prepared = bt_retain (\<lambda>p _. \<not> ignores prefs p) (ls_tree scan)"
    "resume_interrupted_uploads (pc_local prepared) (pc_remote prepared) (bt_retain (\<lambda>p _. \<not> ignores prefs p) synced) = (resumed, s1)"
    "(if sp_adopt_matching_files prefs then adopt_matching_files (pc_local prepared) (pc_remote prepared) s1 else ([], s1)) =
      (adopted, pc_synced prepared)"
    "pc_baselined prepared = resumed @ adopted"
    "pc_conflicts prepared = length (filter is_conflict (pc_operations prepared))"
    "writes = map DeleteState (filter (\<lambda>p. \<not> bt_contains (pc_local prepared) p \<and> \<not> bt_contains (pc_remote prepared) p)
         (bt_keys (bt_retain (\<lambda>p _. \<not> ignores prefs p) synced))) @
       map (\<lambda>p. UpsertState p (bt_get (pc_local prepared) p) (bt_get (pc_remote prepared) p) ''synced'') (pc_baselined prepared) @
       map RefreshMetadata (filter (\<lambda>e. bt_contains (pc_local prepared) (te_path e)) (ls_refresh scan)) @
       map (\<lambda>operation. let p = op_path operation in
         if bt_contains (pc_synced prepared) p then SetStateStatus p ''conflict''
         else UpsertState p (bt_get (pc_local prepared) p) (bt_get (pc_remote prepared) p) ''conflict'')
         (filter is_conflict (pc_operations prepared))"
    by (rule prepare_OkE [OF assms(3)], rule that, assumption+)
  let ?l = "pc_local prepared" and ?r = "pc_remote prepared" and ?s = "bt_retain (\<lambda>p _. \<not> ignores prefs p) synced"
  have ok: "bt_ok ?l" "bt_ok ?s" using assms(1,2) P(1) by simp_all
  let ?U = "filter (\<lambda>q. stmt_path q = p) (map (\<lambda>p. UpsertState p (bt_get ?l p) (bt_get ?r p) ''synced'') (resumed @ adopted))"
  let ?R = "filter (\<lambda>q. stmt_path q = p) (map RefreshMetadata (filter (\<lambda>e. bt_contains ?l (te_path e)) (ls_refresh scan)))"
  have noconf: "filter is_conflict (pc_operations prepared) = []" using P(5) assms(4) by simp
  have f: "filter (\<lambda>q. stmt_path q = p) writes = ?U @ ?R"
    using P(4,6) assms(6) by (simp add: noconf filter_map o_def bt_contains_def)
      (auto simp: filter_empty_conv)
  have R: "same_row (fold (row_after now) ?R row) row" for row
    by (rule fold_refreshes) auto
  have "same_row (fold (row_after now) ?U (bt_get synced p)) (bt_get (pc_synced prepared) p)"
  proof (cases "p \<in> set resumed \<union> set adopted")
    case True
    obtain x y e where "bt_get ?l p = Some x" "bt_get ?r p = Some y" "bt_get (pc_synced prepared) p = Some e"
      "se_status e = ''synced''" "se_local_hash e = Some (te_hash x)" "se_remote_hash e = Some (te_hash y)" "se_message e = te_message y"
      using baselined_row [OF ok P(2,3) True] by blast
    moreover have "fold (row_after now) ?U (bt_get synced p) = Some (state_row now p (bt_get ?l p) (bt_get ?r p) ''synced'')"
      by (rule fold_upserts) (use True in \<open>auto simp: filter_empty_conv\<close>)
    ultimately show ?thesis by (simp add: same_row_def state_row_def)
  next
    case False
    then have "?U = []" by (auto simp: filter_empty_conv)
    moreover have "bt_get (pc_synced prepared) p = bt_get synced p"
      using not_baselined_row [OF ok P(2,3) False] assms(1,5) by (auto simp: bt_get_retain split: option.splits)
    ultimately show ?thesis by simp
  qed
  then show ?thesis using R [of "fold (row_after now) ?U (bt_get synced p)"]
    by (simp add: exec_fold_at f same_row_def)
qed

section \<open>The rows after recording the results\<close>

text \<open>The result of an operation, and what the world looks like after it.\<close>

definition succeeded :: "(sync_operation \<Rightarrow> execution_result) \<Rightarrow> sync_operation \<Rightarrow> bool" where
  "succeeded f operation \<longleftrightarrow> xr_path (f operation) = op_path operation \<and>
     xr_action (f operation) = action_of operation \<and> xr_success (f operation)"

definition world_after ::
  "file_tree \<Rightarrow> execution_result \<Rightarrow> sync_operation \<Rightarrow> tree_entry option \<Rightarrow> tree_entry option \<Rightarrow>
   tree_entry option \<Rightarrow> tree_entry option \<Rightarrow> bool" where
  "world_after uploaded result operation l r l' r' =
     (case operation of
        OpUpload p local \<Rightarrow>
          map_option te_hash l' = Some (te_hash local) \<and>
          (\<exists>e. r' = Some e \<and> te_message e \<noteq> None \<and> te_message e = xr_message result \<and>
             (\<forall>u. bt_get uploaded p = Some u \<longrightarrow> te_hash u = te_hash e))
      | OpDownload p remote keep_both expected \<Rightarrow>
          map_option te_hash l' = xr_local_hash result \<and> l' \<noteq> None \<and> same_copy r r'
      | OpDeleteLocal p expected \<Rightarrow> l' = None \<and> same_copy r r'
      | OpDeleteRemote p message expected \<Rightarrow> same_copy l l' \<and> r' = None
      | OpConflict p \<Rightarrow> True
      | OpSkip p \<Rightarrow> same_copy l l' \<and> same_copy r r')"

definition performed :: "sync_operation list \<Rightarrow> path \<Rightarrow> sync_operation option" where
  "performed operations p = find (\<lambda>operation. op_path operation = p) operations"

lemma performed_Some:
  "performed operations p = Some operation \<Longrightarrow> operation \<in> set operations \<and> op_path operation = p"
  by (auto simp: performed_def find_Some_iff)

lemma performed_None: "performed operations p = None \<longleftrightarrow> (\<forall>operation\<in>set operations. op_path operation \<noteq> p)"
  by (auto simp: performed_def find_None_iff)

lemma record_result_paths: "q \<in> set (record_result prepared uploaded result) \<Longrightarrow> stmt_path q = xr_path result"
  by (auto simp: record_result_def Let_def split: if_splits option.splits)

lemma record_filter:
  assumes "distinct (map op_path operations)" and "\<And>operation. operation \<in> set operations \<Longrightarrow> succeeded f operation"
  shows "filter (\<lambda>q. stmt_path q = p) (record_results prepared (map f operations) uploaded) =
    (case performed operations p of None \<Rightarrow> [] | Some operation \<Rightarrow> record_result prepared uploaded (f operation))"
  using assms
proof (induction operations)
  case (Cons x xs)
  have x: "xr_path (f x) = op_path x" using Cons.prems(2) by (simp add: succeeded_def)
  have "filter (\<lambda>q. stmt_path q = p) (record_result prepared uploaded (f x)) =
      (if op_path x = p then record_result prepared uploaded (f x) else [])"
    using record_result_paths [of _ prepared uploaded "f x"] x by (auto simp: filter_id_conv filter_empty_conv)
  moreover have "performed xs p = None" if "op_path x = p"
    using Cons.prems(1) that unfolding performed_None by (metis distinct.simps(2) image_eqI list.set_map list.simps(9))
  ultimately show ?case using Cons by (auto simp: record_results_def performed_def)
qed (simp add: record_results_def performed_def)

lemma set_map_filter: "set (List.map_filter g xs) = {y. \<exists>x\<in>set xs. g x = Some y}"
  by (induction xs) (auto simp: List.map_filter_simps split: option.splits)

lemma journal_statements:
  "q \<in> set (fst (journal_uploads local results)) \<longleftrightarrow>
     (\<exists>x\<in>set results. \<exists>e i. xr_success x \<and> xr_action x = ''upload'' \<and> xr_message x = Some i \<and>
        bt_get local (xr_path x) = Some e \<and> q = journal_upload (xr_path x) e i)"
proof -
  have g: "(if xr_success x \<and> xr_action x = ''upload''
       then (case (xr_message x, bt_get local (xr_path x)) of
               (Some i, Some e) \<Rightarrow> Some (xr_path x, e, i) | _ \<Rightarrow> None)
       else None) = Some y \<longleftrightarrow>
     (\<exists>e i. xr_success x \<and> xr_action x = ''upload'' \<and> xr_message x = Some i \<and> bt_get local (xr_path x) = Some e \<and>
        y = (xr_path x, e, i))" for x y
    by (auto split: option.splits)
  show ?thesis by (auto simp: journal_uploads_def Let_def set_map_filter g image_iff)
qed

lemma journal_at:
  assumes "distinct (map op_path operations)" and "\<And>operation. operation \<in> set operations \<Longrightarrow> succeeded f operation"
    and "set J \<subseteq> set (fst (journal_uploads local (map f operations)))"
    and "q \<in> set (filter (\<lambda>q. stmt_path q = p) J)"
  shows "\<exists>entry e i. performed operations p = Some (OpUpload p entry) \<and> bt_get local p = Some e \<and>
    xr_message (f (OpUpload p entry)) = Some i \<and> q = journal_upload p e i"
proof -
  have "q \<in> set (fst (journal_uploads local (map f operations)))" "stmt_path q = p" using assms(3,4) by auto
  then obtain operation e i where o: "operation \<in> set operations" "q = journal_upload (xr_path (f operation)) e i"
      "xr_action (f operation) = ''upload''" "xr_message (f operation) = Some i"
      "bt_get local (xr_path (f operation)) = Some e" "stmt_path q = p"
    unfolding journal_statements by auto
  note c = assms(2) [OF o(1), unfolded succeeded_def]
  have path: "op_path operation = p" using o(2,6) c by (simp add: journal_upload_def)
  obtain entry where u: "operation = OpUpload p entry"
    using o(3) c path by (cases operation) (auto split: if_splits)
  have "performed operations p = Some operation"
  proof (cases "performed operations p")
    case None
    then show ?thesis using o(1) path by (simp add: performed_None)
  next
    case (Some other)
    then have "other \<in> set operations" "op_path other = p" using performed_Some by blast+
    then have "other = operation" using o(1) path assms(1) by (auto simp: distinct_map dest: inj_onD)
    then show ?thesis using Some by simp
  qed
  then show ?thesis using u o(2,4,5) path c by auto
qed

definition recording ::
  "(sync_operation \<Rightarrow> execution_result) \<Rightarrow> file_tree \<Rightarrow> prepared_cycle \<Rightarrow> sync_operation list \<Rightarrow> db_statement list \<Rightarrow> db_statement list" where
  "recording f uploaded prepared operations J =
     J @ fst (journal_uploads (pc_local prepared) (map f operations)) @ record_results prepared (map f operations) uploaded"

definition recorded_run ::
  "(sync_operation \<Rightarrow> execution_result) \<Rightarrow> prepared_cycle \<Rightarrow> sync_operation list \<Rightarrow> db_statement list \<Rightarrow> bool" where
  "recorded_run f prepared operations J \<longleftrightarrow> distinct (map op_path operations) \<and>
     (\<forall>operation\<in>set operations. succeeded f operation) \<and>
     set J \<subseteq> set (fst (journal_uploads (pc_local prepared) (map f operations)))"

lemma journal_filter:
  assumes "recorded_run f prepared operations J"
    and "q \<in> set (filter (\<lambda>q. stmt_path q = p) (J @ fst (journal_uploads (pc_local prepared) (map f operations))))"
  shows "\<exists>entry e i. performed operations p = Some (OpUpload p entry) \<and> bt_get (pc_local prepared) p = Some e \<and>
       xr_message (f (OpUpload p entry)) = Some i \<and> q = journal_upload p e i"
proof -
  note R = assms(1) [unfolded recorded_run_def]
  have "set (J @ fst (journal_uploads (pc_local prepared) (map f operations)))
      \<subseteq> set (fst (journal_uploads (pc_local prepared) (map f operations)))" using R by simp
  from journal_at [OF _ _ this assms(2)] R show ?thesis by blast
qed

lemma recording_split:
  assumes "recorded_run f prepared operations J"
  shows "filter (\<lambda>q. stmt_path q = p) (recording f uploaded prepared operations J) =
    filter (\<lambda>q. stmt_path q = p) (J @ fst (journal_uploads (pc_local prepared) (map f operations))) @
    (case performed operations p of None \<Rightarrow> [] | Some operation \<Rightarrow> record_result prepared uploaded (f operation))"
  using record_filter [of operations f p prepared uploaded] assms
  by (simp add: recording_def recorded_run_def)

lemma recording_untouched:
  assumes "recorded_run f prepared operations J" and "performed operations p = None"
  shows "filter (\<lambda>q. stmt_path q = p) (recording f uploaded prepared operations J) = []"
proof -
  let ?J = "filter (\<lambda>q. stmt_path q = p) (J @ fst (journal_uploads (pc_local prepared) (map f operations)))"
  have "q \<notin> set ?J" for q using journal_filter [OF assms(1), of q p] assms(2) by fastforce
  then have "?J = []" by (meson last_in_set)
  then show ?thesis using recording_split [OF assms(1)] assms(2) by simp
qed

lemma recording_other:
  assumes "recorded_run f prepared operations J" and "performed operations p = Some operation"
    and "action_of operation \<noteq> ''upload''"
  shows "filter (\<lambda>q. stmt_path q = p) (recording f uploaded prepared operations J) =
    record_result prepared uploaded (f operation)"
proof -
  let ?J = "filter (\<lambda>q. stmt_path q = p) (J @ fst (journal_uploads (pc_local prepared) (map f operations)))"
  have "q \<notin> set ?J" for q using journal_filter [OF assms(1), of q p] assms(2,3) by fastforce
  then have "?J = []" by (meson last_in_set)
  then show ?thesis using recording_split [OF assms(1)] assms(2) by simp
qed

lemma recording_upload:
  assumes "recorded_run f prepared operations J" and "performed operations p = Some (OpUpload p entry)"
    and "bt_get (pc_local prepared) p = Some entry" and "xr_message (f (OpUpload p entry)) = Some i"
  shows "fold (row_after now) (filter (\<lambda>q. stmt_path q = p) (recording f uploaded prepared operations J)) row =
    Some (case bt_get uploaded p of
       None \<Rightarrow> state_row now p (Some entry) (Some (entry\<lparr>te_message := Some i, te_hash := []\<rparr>)) ''syncing''
     | Some u \<Rightarrow> state_row now p (Some entry) (Some u) ''synced'')"
proof -
  let ?J = "filter (\<lambda>q. stmt_path q = p) (J @ fst (journal_uploads (pc_local prepared) (map f operations)))"
  have o: "OpUpload p entry \<in> set operations" using performed_Some [OF assms(2)] by simp
  then have S: "xr_path (f (OpUpload p entry)) = p" "xr_action (f (OpUpload p entry)) = ''upload''"
      "xr_success (f (OpUpload p entry))"
    using assms(1) by (auto simp: recorded_run_def succeeded_def)
  have "journal_upload p entry i \<in> set (fst (journal_uploads (pc_local prepared) (map f operations)))"
    unfolding journal_statements using o S assms(3,4) by (intro bexI [of _ "f (OpUpload p entry)"]) auto
  then have "journal_upload p entry i \<in> set ?J" by (simp add: journal_upload_def)
  then have "?J \<noteq> []" by (metis empty_iff list.set(1))
  moreover have "set ?J \<subseteq> {journal_upload p entry i}"
    using journal_filter [OF assms(1), of _ p] assms(2-4) by fastforce
  ultimately have J: "fold (row_after now) ?J row =
      Some (state_row now p (Some entry) (Some (entry\<lparr>te_message := Some i, te_hash := []\<rparr>)) ''syncing'')"
    unfolding journal_upload_def by (intro fold_upserts)
  have "record_result prepared uploaded (f (OpUpload p entry)) =
      (case bt_get uploaded p of None \<Rightarrow> [] | Some u \<Rightarrow> [UpsertState p (Some entry) (Some u) ''synced''])"
    using S assms(3) by (simp add: record_result_def split: option.split)
  then show ?thesis using recording_split [OF assms(1), of p uploaded] assms(2) J by (simp split: option.split)
qed

section \<open>What the plan says of an operation\<close>

text \<open>A download next to the local copy, for a conflict the user answered with \<open>keep_both\<close>: the copy is a new
  local file, which the next cycle finds and uploads.\<close>

fun keeps_both :: "sync_operation \<Rightarrow> bool" where
  "keeps_both (OpDownload p remote both expected) = both"
| "keeps_both operation = False"

lemma policy_at_shape:
  assumes "policy_at d b p l r s = Some operation"
  shows "(\<forall>q x. operation = OpUpload q x \<longrightarrow> q = p \<and> l = Some x) \<and>
    (\<forall>q y both ex. operation = OpDownload q y both ex \<longrightarrow> q = p \<and> r = Some y) \<and>
    (\<forall>q h. operation = OpDeleteLocal q h \<longrightarrow> q = p \<and> r = None) \<and>
    (\<forall>q m h. operation = OpDeleteRemote q m h \<longrightarrow> q = p \<and> l = None)"
proof -
  have plan: "(\<forall>q x. o1 = OpUpload q x \<longrightarrow> q = p \<and> l = Some x) \<and>
    (\<forall>q y both ex. o1 = OpDownload q y both ex \<longrightarrow> q = p \<and> r = Some y) \<and>
    (\<forall>q h. o1 = OpDeleteLocal q h \<longrightarrow> q = p \<and> r = None) \<and>
    (\<forall>q m h. o1 = OpDeleteRemote q m h \<longrightarrow> q = p \<and> l = None) \<and> op_path o1 = p" if "plan_at p l r s = Some o1" for o1
    using that by (auto simp: plan_at_def compare_copies_def resolution_def Let_def split: option.splits if_splits bind_splits)
  obtain o1 where o1: "plan_at p l r s = Some o1"
      "operation = withhold_delete b (if user_choice s then o1 else redirect_at d l r o1)"
    using assms by (auto simp: policy_at_def)
  show ?thesis
    using plan [OF o1(1)] o1(2)
    by (cases o1) (auto simp: withhold_delete_def redirect_at_def redirect_def split: if_splits option.splits)
qed

lemma policy_at_exists: "l \<noteq> None \<or> r \<noteq> None \<Longrightarrow> policy_at d b p l r s \<noteq> None"
  by (auto simp: policy_at_def plan_at_def compare_copies_def Let_def split: option.splits)

lemma policy_at_present: "policy_at d b p l r s \<noteq> None \<Longrightarrow> l \<noteq> None \<or> r \<noteq> None"
  by (auto simp: policy_at_def plan_at_def compare_copies_def split: option.splits if_splits)

lemma skip_new_local:
  assumes "policy_at d b p (Some x) None None = Some (OpSkip p)"
    and "se_remote_hash e = None" and "se_status e = ''synced''"
  shows "quiet d b p (Some x') None (Some e)"
proof -
  have "d = ''download_only''"
    using assms(1)
    by (cases "d = ''upload_only''"; cases "d = ''download_only''")
       (simp_all add: policy_at_def plan_at_def user_choice_def compare_copies_def redirect_at_def redirect_def withhold_delete_def)
  moreover have "policy_at d b p (Some x') None (Some e) =
      map_option (\<lambda>operation. withhold_delete b (redirect_at d (Some x') None operation)) (compare_copies p (Some x') None (Some e))"
    by (rule policy_at_plain) (use assms(3) in \<open>simp add: plain_status_def\<close>)
  ultimately show ?thesis using assms(2,3)
    by (simp add: quiet_def compare_copies_def redirect_at_def redirect_def withhold_delete_def differs_def)
qed

lemma skip_new_remote:
  assumes "policy_at d b p None (Some y) None = Some (OpSkip p)"
    and "se_local_hash e = None" and "se_status e = ''synced''"
  shows "quiet d b p None (Some y') (Some e)"
proof -
  have "d = ''upload_only''"
    using assms(1)
    by (cases "d = ''upload_only''"; cases "d = ''download_only''")
       (simp_all add: policy_at_def plan_at_def user_choice_def compare_copies_def redirect_at_def redirect_def withhold_delete_def)
  moreover have "policy_at d b p None (Some y') (Some e) =
      map_option (\<lambda>operation. withhold_delete b (redirect_at d None (Some y') operation)) (compare_copies p None (Some y') (Some e))"
    by (rule policy_at_plain) (use assms(3) in \<open>simp add: plain_status_def\<close>)
  ultimately show ?thesis using assms(2,3)
    by (simp add: quiet_def compare_copies_def redirect_at_def redirect_def withhold_delete_def differs_def)
qed

section \<open>One path through two cycles\<close>

definition resumable :: "tree_entry option \<Rightarrow> tree_entry option \<Rightarrow> synced_entry option \<Rightarrow> bool" where
  "resumable l r s = (case (l, r, s) of
     (Some x, Some y, Some e) \<Rightarrow> se_status e = ''syncing'' \<and> se_message e \<noteq> None \<and> te_message y = se_message e \<and>
       se_local_hash e = Some (te_hash x)
   | _ \<Rightarrow> False)"

lemma dropped_operation:
  assumes "operation \<in> set (pc_operations prepared)" and "operation \<notin> set (pc_operations (drop_settled_skips prepared))"
  shows "is_skip operation \<and> bt_get (pc_synced prepared) (op_path operation) \<noteq> None \<and>
    \<not> differs (bt_get (pc_local prepared) (op_path operation)) (bt_get (pc_remote prepared) (op_path operation))
        (bt_get (pc_synced prepared) (op_path operation))"
  using assms by (auto simp: drop_settled_skips_def bt_contains_def differs_def split: option.splits)

lemma kept_skip:
  assumes "operation \<in> set (pc_operations (drop_settled_skips prepared))" and "is_skip operation"
    and "bt_get (pc_synced prepared) (op_path operation) \<noteq> None"
  shows "differs (bt_get (pc_local prepared) (op_path operation)) (bt_get (pc_remote prepared) (op_path operation))
        (bt_get (pc_synced prepared) (op_path operation))"
  using assms by (auto simp: drop_settled_skips_def bt_contains_def differs_def split: option.splits)

lemma path_settles:
  fixes prepared d b p
  defines "L \<equiv> bt_get (pc_local prepared) p" and "R \<equiv> bt_get (pc_remote prepared) p" and "S \<equiv> bt_get (pc_synced prepared) p"
    and "operations \<equiv> pc_operations (drop_settled_skips prepared)"
  assumes run: "recorded_run f prepared operations J"
    and plan: "pc_operations prepared = operations_for_policy (pc_local prepared) (pc_remote prepared) (pc_synced prepared) d b"
    and calm: "\<forall>operation\<in>set (pc_operations prepared). \<not> is_conflict operation"
    and single: "\<forall>operation\<in>set (pc_operations prepared). \<not> keeps_both operation"
    and before: "L \<noteq> None \<or> R \<noteq> None \<Longrightarrow> same_row row S"
    and after: "row' = fold (row_after now) (filter (\<lambda>q. stmt_path q = p) (recording f uploaded prepared operations J)) row"
    and world: "case performed operations p of None \<Rightarrow> same_copy L l' \<and> same_copy R r'
      | Some operation \<Rightarrow> world_after uploaded (f operation) operation L R l' r'"
  shows "quiet d b p l' r' row' \<or> resumable l' r' row'"
proof (cases "performed operations p")
  case None
  then have w: "same_copy L l'" "same_copy R r'" using world by simp_all
  show ?thesis
  proof (cases "L = None \<and> R = None")
    case True
    then show ?thesis using w quiet_absent by simp
  next
    case False
    then obtain operation where o: "policy_at d b p L R S = Some operation" using policy_at_exists [of L R] by fastforce
    have "p \<in> set (all_paths (pc_local prepared) (pc_remote prepared) (pc_synced prepared))"
      using False by (auto simp: all_paths_set L_def R_def bt_get_None_iff)
    then have m: "operation \<in> set (pc_operations prepared)"
      using o unfolding plan operations_at L_def R_def S_def by blast
    have path: "op_path operation = p" using policy_at_path [OF o] .
    then have "operation \<notin> set operations" using None by (auto simp: performed_None)
    then have dropped: "is_skip operation" "S \<noteq> None" "\<not> differs L R S"
      using dropped_operation [OF m] path by (simp_all add: operations_def L_def R_def S_def)
    then have "operation = OpSkip p" using path by (cases operation) auto
    moreover have "row' = row" using after recording_untouched [OF run None] by simp
    ultimately show ?thesis
      using quiet_same [OF _ dropped(2,3) w, of d b p row'] o before False by (simp add: same_row_def)
  qed
next
  case (Some operation)
  have o: "operation \<in> set operations" "op_path operation = p" using performed_Some [OF Some] by blast+
  then have m: "operation \<in> set (pc_operations prepared)" by (simp add: operations_def drop_settled_skips_def)
  then have pol: "policy_at d b p L R S = Some operation"
    unfolding plan operations_at L_def R_def S_def using o(2) policy_at_path by metis
  note shape = policy_at_shape [OF pol]
  have w: "world_after uploaded (f operation) operation L R l' r'" using world Some by simp
  have suc: "succeeded f operation" using run o(1) by (simp add: recorded_run_def)
  have other: "row' = fold (row_after now) (record_result prepared uploaded (f operation)) row"
    if "action_of operation \<noteq> ''upload''"
    using after recording_other [OF run Some that] by simp
  show ?thesis
  proof (cases operation)
    case (OpUpload q x)
    then have x: "q = p" "L = Some x" using shape by auto
    obtain e i x' where e: "r' = Some e" "te_message e = Some i" "xr_message (f operation) = Some i" "l' = Some x'"
        "te_hash x' = te_hash x" "\<And>u. bt_get uploaded p = Some u \<Longrightarrow> te_hash u = te_hash e"
      using w OpUpload x(1) by (auto simp: world_after_def)
    have "row' = Some (case bt_get uploaded p of
         None \<Rightarrow> state_row now p (Some x) (Some (x\<lparr>te_message := Some i, te_hash := []\<rparr>)) ''syncing''
       | Some u \<Rightarrow> state_row now p (Some x) (Some u) ''synced'')"
      using recording_upload [OF run, of p x i now uploaded row] Some OpUpload x e(3) after by (simp add: L_def)
    then show ?thesis using e
      by (cases "bt_get uploaded p") (auto simp: resumable_def state_row_def intro!: quiet_recorded simp: plain_status_def)
  next
    case (OpDownload q y both ex)
    then have y: "q = p" "R = Some y" "\<not> both" using shape single m by auto
    have w': "xr_local_hash (f operation) = map_option te_hash l'" "l' \<noteq> None" "same_copy R r'"
      using w OpDownload by (simp_all add: world_after_def)
    obtain x' where e: "l' = Some x'" "xr_local_hash (f operation) = Some (te_hash x')" using w'(1,2) by auto
    obtain y' where e': "r' = Some y'" "te_hash y' = te_hash y" using w'(3) y(2) by (cases r') (auto simp: same_copy_def)
    have "row' = Some (state_row now p (Some (y\<lparr>te_hash := te_hash x', te_message := None, te_modified := None\<rparr>)) (Some y) ''synced'')"
      using other suc OpDownload y e(2) by (simp add: record_result_def succeeded_def R_def Let_def)
    then show ?thesis using e e' by (auto simp: state_row_def plain_status_def intro!: quiet_recorded)
  next
    case (OpDeleteLocal q h)
    then show ?thesis using shape w quiet_absent by (auto simp: world_after_def)
  next
    case (OpDeleteRemote q i h)
    then show ?thesis using shape w quiet_absent by (auto simp: world_after_def)
  next
    case (OpConflict q)
    then show ?thesis using calm m by auto
  next
    case (OpSkip q)
    then have q: "q = p" "same_copy L l'" "same_copy R r'" using o(2) w by (auto simp: world_after_def)
    have present: "L \<noteq> None \<or> R \<noteq> None" using policy_at_present pol by fastforce
    then have row': "row' = Some (state_row now p L R ''synced'')"
      using other suc OpSkip q(1) by (auto simp: record_result_def succeeded_def L_def R_def Let_def)
    consider x y where "L = Some x" "R = Some y" | x where "L = Some x" "R = None" | y where "L = None" "R = Some y"
      using present by (cases L; cases R) auto
    then show ?thesis
    proof cases
      case (1 x y)
      then obtain x' y' where "l' = Some x'" "r' = Some y'" "te_hash x' = te_hash x" "te_hash y' = te_hash y"
        using q(2,3) by (cases l'; cases r') (auto simp: same_copy_def)
      then show ?thesis using 1 row' by (auto simp: state_row_def plain_status_def intro!: quiet_recorded)
    next
      case (2 x)
      have "S = None" using kept_skip [of operation prepared] o OpSkip q(1) 2 by (fastforce simp: operations_def L_def R_def S_def differs_def)
      moreover obtain x' where "l' = Some x'" "r' = None" using 2 q(2,3) by (cases l') (auto simp: same_copy_def)
      ultimately show ?thesis using 2 row' pol OpSkip q(1)
          skip_new_local [of d b p x "state_row now p L R ''synced''" x'] by (simp add: state_row_def)
    next
      case (3 y)
      have "S = None" using kept_skip [of operation prepared] o OpSkip q(1) 3 by (fastforce simp: operations_def L_def R_def S_def differs_def)
      moreover obtain y' where "r' = Some y'" "l' = None" using 3 q(2,3) by (cases r') (auto simp: same_copy_def)
      ultimately show ?thesis using 3 row' pol OpSkip q(1)
          skip_new_remote [of d b p y "state_row now p L R ''synced''" y'] by (simp add: state_row_def)
    qed
  qed
qed

section \<open>The next cycle\<close>

lemma drop_differs:
  "pc_operations (drop_settled_skips prepared) = filter (\<lambda>operation. \<not> is_skip operation \<or>
     \<not> bt_contains (pc_synced prepared) (op_path operation) \<or>
     differs (bt_get (pc_local prepared) (op_path operation)) (bt_get (pc_remote prepared) (op_path operation))
       (bt_get (pc_synced prepared) (op_path operation))) (pc_operations prepared)"
  by (simp add: drop_settled_skips_def differs_def)

lemma calm_preparation:
  fixes prefs scan synced remote
  defines "keep \<equiv> (\<lambda>p (_ :: tree_entry). \<not> ignores prefs p)" and "keeps \<equiv> (\<lambda>p (_ :: synced_entry). \<not> ignores prefs p)"
  assumes "resume_interrupted_uploads (bt_retain keep (ls_tree scan)) (bt_retain keep remote) (bt_retain keeps synced) = (resumed, s1)"
    and "(if sp_adopt_matching_files prefs then adopt_matching_files (bt_retain keep (ls_tree scan)) (bt_retain keep remote) s1
      else ([], s1)) = (adopted, s2)"
    and "\<And>operation. operation \<in> set (operations_for_policy (bt_retain keep (ls_tree scan)) (bt_retain keep remote) s2 d
        (sp_propagate_deletions prefs)) \<Longrightarrow>
      is_skip operation \<and> bt_get s2 (op_path operation) \<noteq> None \<and>
      \<not> differs (bt_get (bt_retain keep (ls_tree scan)) (op_path operation))
          (bt_get (bt_retain keep remote) (op_path operation)) (bt_get s2 (op_path operation))"
  shows "\<exists>next writes'. prepare_reconciliation prefs d scan synced remote = (Ok next, writes') \<and>
    pc_conflicts next = 0 \<and> pc_operations (drop_settled_skips next) = []"
proof -
  let ?l = "bt_retain keep (ls_tree scan)" and ?r = "bt_retain keep remote"
  let ?ops = "operations_for_policy ?l ?r s2 d (sp_propagate_deletions prefs)"
  have "\<not> is_delete operation" "\<not> is_conflict operation" if "operation \<in> set ?ops" for operation
    using assms(5) [OF that] by (cases operation; simp)+
  then have none: "filter is_delete ?ops = []" "filter is_conflict ?ops = []" by (simp_all add: filter_empty_conv)
  then have "plan_for_policy ?l ?r s2 d (sp_propagate_deletions prefs) = Ok ?ops"
    by (simp add: plan_for_policy_def enforce_mass_deletion_def Let_def)
  moreover have "retain_tree_paths prefs (ls_tree scan) remote synced = (?l, ?r, bt_retain keeps synced)"
    by (simp add: retain_tree_paths_def keep_def keeps_def)
  ultimately obtain writes' where "prepare_reconciliation prefs d scan synced remote =
      (Ok \<lparr>pc_local = ?l, pc_remote = ?r, pc_synced = s2, pc_operations = ?ops, pc_conflicts = 0,
           pc_baselined = resumed @ adopted\<rparr>, writes')"
    using assms(3,4) none(2) by (simp add: prepare_reconciliation_def Let_def)
  moreover have "filter (\<lambda>operation. \<not> is_skip operation \<or> \<not> bt_contains s2 (op_path operation) \<or>
      differs (bt_get ?l (op_path operation)) (bt_get ?r (op_path operation)) (bt_get s2 (op_path operation))) ?ops = []"
    using assms(5) by (auto simp: filter_empty_conv bt_contains_def)
  ultimately show ?thesis
    by (simp add: drop_differs)
qed

text \<open>A cycle settles its mapping: if it kept no second copy, every operation it executed succeeded and the next cycle finds the
  trees those operations leave, then, whatever was interrupted between journaling an upload and reading it
  back, the next preparation succeeds with no conflict and nothing left to execute.\<close>

lemma successful_cycle_settles:
  assumes "bt_ok synced" and "bt_ok (ls_tree scan)"
    and "prepare_reconciliation prefs d scan synced remote = (Ok prepared, writes)" and "pc_conflicts prepared = 0"
    and "\<forall>operation\<in>set (pc_operations prepared). \<not> keeps_both operation"
    and "\<forall>operation\<in>set (pc_operations (drop_settled_skips prepared)). succeeded f operation"
    and "set J \<subseteq> set (fst (journal_uploads (pc_local prepared) (map f (pc_operations (drop_settled_skips prepared)))))"
    and "db = fold (exec_statement now) (writes @ recording f uploaded prepared (pc_operations (drop_settled_skips prepared)) J) synced"
    and "bt_ok (ls_tree scan')" and "bt_ok remote'"
    and "\<forall>p. \<not> ignores prefs p \<longrightarrow> (case performed (pc_operations (drop_settled_skips prepared)) p of
        None \<Rightarrow> same_copy (bt_get (pc_local prepared) p) (bt_get (ls_tree scan') p) \<and>
          same_copy (bt_get (pc_remote prepared) p) (bt_get remote' p)
      | Some operation \<Rightarrow> world_after uploaded (f operation) operation (bt_get (pc_local prepared) p)
          (bt_get (pc_remote prepared) p) (bt_get (ls_tree scan') p) (bt_get remote' p))"
  shows "\<exists>next writes'. prepare_reconciliation prefs d scan' db remote' = (Ok next, writes') \<and>
    pc_conflicts next = 0 \<and> pc_operations (drop_settled_skips next) = []"
proof -
  let ?keep = "\<lambda>p (_ :: tree_entry). \<not> ignores prefs p"
  let ?keeps = "\<lambda>p (_ :: synced_entry). \<not> ignores prefs p"
  let ?b = "sp_propagate_deletions prefs" and ?ops = "pc_operations (drop_settled_skips prepared)"
  obtain resumed s1 adopted where P:
    "pc_local prepared = bt_retain ?keep (ls_tree scan)"
    "resume_interrupted_uploads (pc_local prepared) (pc_remote prepared) (bt_retain ?keeps synced) = (resumed, s1)"
    "(if sp_adopt_matching_files prefs then adopt_matching_files (pc_local prepared) (pc_remote prepared) s1 else ([], s1)) =
      (adopted, pc_synced prepared)"
    "pc_operations prepared = operations_for_policy (pc_local prepared) (pc_remote prepared) (pc_synced prepared) d ?b"
    "pc_conflicts prepared = length (filter is_conflict (pc_operations prepared))"
    by (rule prepare_OkE [OF assms(3)], rule that, assumption+)
  have okL: "bt_ok (pc_local prepared)" "bt_ok (bt_retain ?keeps synced)" using P(1) assms(1,2) by simp_all
  have run: "recorded_run f prepared ?ops J"
  proof -
    have "distinct (map op_path (pc_operations prepared))"
      using operations_sorted [of "pc_local prepared" "pc_remote prepared" "pc_synced prepared" d ?b] P(4)
      by (simp add: strict_sorted_iff)
    then have "distinct (map op_path ?ops)"
      by (simp add: drop_settled_skips_def distinct_map_filter)
    then show ?thesis using assms(6,7) by (simp add: recorded_run_def)
  qed
  have calm: "\<forall>operation\<in>set (pc_operations prepared). \<not> is_conflict operation"
    using P(5) assms(4) by (simp add: filter_empty_conv)
  have dbok: "bt_ok db" using assms(1,8) by (simp add: exec_fold_ok)
  let ?l = "bt_retain ?keep (ls_tree scan')" and ?r = "bt_retain ?keep remote'" and ?s = "bt_retain ?keeps db"
  have ok: "bt_ok ?l" "bt_ok ?s" using assms(9) dbok by simp_all
  obtain resumed' s1' where r': "resume_interrupted_uploads ?l ?r ?s = (resumed', s1')" by fastforce
  obtain adopted' s2' where a': "(if sp_adopt_matching_files prefs then adopt_matching_files ?l ?r s1' else ([], s1')) = (adopted', s2')"
    by fastforce
  have quiet: "quiet d ?b p (bt_get ?l p) (bt_get ?r p) (bt_get s2' p)" if present: "bt_get ?l p \<noteq> None \<or> bt_get ?r p \<noteq> None" for p
  proof (cases "p \<in> set resumed' \<union> set adopted'")
    case True
    then show ?thesis using baselined_row [OF ok r' a' True] by (auto simp: plain_status_def intro!: quiet_recorded)
  next
    case False
    have kept: "\<not> ignores prefs p" using present assms(9,10) by (auto simp: bt_get_retain split: option.splits if_splits)
    then have eq: "bt_get ?l p = bt_get (ls_tree scan') p" "bt_get ?r p = bt_get remote' p" "bt_get ?s p = bt_get db p"
      using assms(9,10) dbok by (auto simp: bt_get_retain split: option.splits)
    have "quiet d ?b p (bt_get ?l p) (bt_get ?r p) (bt_get db p) \<or> resumable (bt_get ?l p) (bt_get ?r p) (bt_get db p)"
      unfolding eq
    proof (rule path_settles [OF run P(4) calm assms(5)])
      show "same_row (bt_get (fold (exec_statement now) writes synced) p) (bt_get (pc_synced prepared) p)"
        if "bt_get (pc_local prepared) p \<noteq> None \<or> bt_get (pc_remote prepared) p \<noteq> None"
        using prepared_rows [OF assms(1,2,3,4) kept that] .
      show "bt_get db p = fold (row_after now) (filter (\<lambda>q. stmt_path q = p) (recording f uploaded prepared ?ops J))
          (bt_get (fold (exec_statement now) writes synced) p)"
        using assms(8) by (simp add: exec_fold_at)
      show "case performed ?ops p of
          None \<Rightarrow> same_copy (bt_get (pc_local prepared) p) (bt_get (ls_tree scan') p) \<and>
            same_copy (bt_get (pc_remote prepared) p) (bt_get remote' p)
        | Some operation \<Rightarrow> world_after uploaded (f operation) operation (bt_get (pc_local prepared) p)
            (bt_get (pc_remote prepared) p) (bt_get (ls_tree scan') p) (bt_get remote' p)"
        using assms(11) kept by simp
    qed
    moreover have "\<not> resumable (bt_get ?l p) (bt_get ?r p) (bt_get ?s p)"
      using resume_spec [OF ok(2) r', of p] False
      by (auto simp: resumable_def resumed_entry_def split: option.splits)
    ultimately show ?thesis using eq(3) not_baselined_row [OF ok r' a' False] by simp
  qed
  show ?thesis
  proof (rule calm_preparation [OF r' a'])
    fix operation
    assume "operation \<in> set (operations_for_policy ?l ?r s2' d ?b)"
    then obtain p where p: "policy_at d ?b p (bt_get ?l p) (bt_get ?r p) (bt_get s2' p) = Some operation"
      by (auto simp: operations_at)
    then have "bt_get ?l p \<noteq> None \<or> bt_get ?r p \<noteq> None" using policy_at_present by fastforce
    from quiet [OF this] p show "is_skip operation \<and> bt_get s2' (op_path operation) \<noteq> None \<and>
        \<not> differs (bt_get ?l (op_path operation)) (bt_get ?r (op_path operation)) (bt_get s2' (op_path operation))"
      by (auto simp: quiet_def)
  qed
qed

section \<open>A new file, uploaded but not read back\<close>

definition new_file :: tree_entry where
  "new_file = \<lparr>te_path = us ''a'', te_hash = ''l'', te_size = 3, te_modified = None, te_message = None\<rparr>"

definition sent_file :: tree_entry where
  "sent_file = \<lparr>te_path = us ''a'', te_hash = ''v2:r'', te_size = 3, te_modified = Some 70, te_message = Some 9\<rparr>"

definition new_scan :: local_scan where
  "new_scan = \<lparr>ls_tree = [(us ''a'', new_file)], ls_hashed = 1, ls_reused = 0, ls_refresh = []\<rparr>"

definition keep_all :: sync_preferences where
  "keep_all = \<lparr>sp_ignore_patterns = [], sp_propagate_deletions = False, sp_pause_on_conflicts = True,
     sp_adopt_matching_files = False\<rparr>"

definition first_cycle :: prepared_cycle where
  "first_cycle = \<lparr>pc_local = [(us ''a'', new_file)], pc_remote = [], pc_synced = [],
     pc_operations = [OpUpload (us ''a'') new_file], pc_conflicts = 0, pc_baselined = []\<rparr>"

definition sent_result :: "sync_operation \<Rightarrow> execution_result" where
  "sent_result operation = \<lparr>xr_path = op_path operation, xr_action = action_of operation, xr_success = True,
     xr_detail = None, xr_message = Some 9, xr_local_hash = None\<rparr>"

lemma first_cycle: "prepare_reconciliation keep_all ''two_way'' new_scan [] [] = (Ok first_cycle, [])"
proof -
  have ign: "\<not> ignores keep_all (us ''a'')"
    by (simp add: ignores_def keep_all_def ends_with_def staging_suffix_def us_def)
  have r: "retain_tree_paths keep_all (ls_tree new_scan) [] [] = ([(us ''a'', new_file)], [], [])"
    using ign by (simp add: retain_tree_paths_def bt_retain_def new_scan_def)
  have ops: "operations_for_policy [(us ''a'', new_file)] [] [] ''two_way'' False = [OpUpload (us ''a'') new_file]"
    by (simp add: operations_for_policy_def plan_unchecked_def all_paths_def plan_path_def compare_copies_def
        redirect_def chosen_by_user_def withhold_delete_def List.map_filter_simps)
  have p: "plan_for_policy [(us ''a'', new_file)] [] [] ''two_way'' False = Ok [OpUpload (us ''a'') new_file]"
    unfolding plan_for_policy_def ops by (simp add: enforce_mass_deletion_def)
  have k: "sp_propagate_deletions keep_all = False" "sp_adopt_matching_files keep_all = False"
    by (simp_all add: keep_all_def)
  show ?thesis
    unfolding prepare_reconciliation_def r k by (simp add: p first_cycle_def new_scan_def)
qed

lemma first_fields:
  "pc_local first_cycle = [(us ''a'', new_file)]" "pc_remote first_cycle = []" "pc_synced first_cycle = []"
  "pc_conflicts first_cycle = 0" "pc_operations first_cycle = [OpUpload (us ''a'') new_file]"
  by (simp_all add: first_cycle_def)

lemma first_operations: "pc_operations (drop_settled_skips first_cycle) = [OpUpload (us ''a'') new_file]"
  unfolding drop_differs first_fields by simp

end
