(* ===== verification/Execute_Contract.thy ===== *)
theory Execute_Contract
  imports Sync_Execute
begin

text \<open>
  What executing an operation guarantees: nothing is removed, replaced or deleted unless the copy is the
  one the plan saw, an upload counts only when the file still has the planned content, paths stay
  inside the mapped folder. Two properties pin down failures the code leaves behind: a staging file
  after a failed hash or rename, and a mapping stopped by an upload whose renaming failed.
\<close>

section \<open>Effects are justified\<close>

lemmas step_defs = sbind_def answer_def act_def cleaned_def

lemma download_published:
  assumes "download_steps E destination expected = (r, es)" and "Published f \<in> set es"
  shows "f = destination \<and> verify_local_precondition (de_local E) expected = Ok () \<and> (\<exists>h. r = Ok h \<and> de_hash E = Ok h)"
  using assms by (auto simp: download_steps_def step_defs split: sum.splits prod.splits)

lemma download_effects:
  assumes "download_steps E destination expected = (r, es)" and "x \<in> set es"
  shows "\<exists>f. x = Published f \<or> x = ReservedTemporary f \<or> x = RemovedTemporary f"
  using assms by (auto simp: download_steps_def step_defs split: sum.splits prod.splits)

lemma upload_effects:
  assumes "upload_steps F root E p local = (r, m, es)" and "x \<in> set es"
  shows "\<exists>i. ue_upload E = Ok (i, True) \<or> ue_upload E = Ok (i, False)"
    and "x = DeletedMessage i \<Longrightarrow> SentFile i \<in> set es"
    and "x \<noteq> RemovedLocal f" and "x \<noteq> Published f"
  using assms
  by (auto simp: upload_steps_def discard_changed_def journal_and_rename_def act_def
      split: sum.splits prod.splits if_splits bool.splits)

lemma verify_local_Some: "verify_local_precondition C (Some h) = Ok () \<longleftrightarrow> lc_hash C = Ok h"
  by (cases "lc_hash C") (auto simp: verify_local_precondition_def)

lemma verify_local_None: "verify_local_precondition C None = Ok () \<longleftrightarrow> lc_exists C = Ok False"
  by (cases "lc_exists C") (auto simp: verify_local_precondition_def)

lemma verify_remote_Ok: "verify_remote_precondition C h = Ok () \<Longrightarrow> rc_fingerprint C = Ok (Some h)"
  by (auto simp: verify_remote_precondition_def split: if_splits)

text \<open>C20: nothing is destroyed unless it is still what the plan saw. A local file is removed only by a planned
  local deletion, inside the mapped folder and with the planned hash; a file is put in place only by a
  planned download, at the planned path over the planned content or where no file exists; a message is
  deleted only if its fingerprint is the planned one or the same operation has just sent it.\<close>

theorem destructive_steps_justified:
  assumes "run_operation root X operation = (r, m, h, es)"
  shows "(\<forall>f. RemovedLocal f \<in> set es \<longrightarrow> (\<exists>p expected. operation = OpDeleteLocal p expected \<and>
      safe_local_path (ex_fs X) root p = Ok f \<and> lc_hash (ex_local X) = Ok expected)) \<and>
    (\<forall>f. Published f \<in> set es \<longrightarrow> (\<exists>p remote keep_both expected destination.
      operation = OpDownload p remote keep_both expected \<and> safe_download_path (ex_fs X) root p = Ok destination \<and>
      f = (if keep_both then conflict_path (ex_suffix X) destination else destination) \<and>
      (case if keep_both then None else expected of
         None \<Rightarrow> lc_exists (de_local (ex_download X)) = Ok False
       | Some known \<Rightarrow> lc_hash (de_local (ex_download X)) = Ok known) \<and> r = Ok ())) \<and>
    (\<forall>i. DeletedMessage i \<in> set es \<longrightarrow> SentFile i \<in> set es \<or>
      (\<exists>p expected. operation = OpDeleteRemote p i expected \<and> rc_fingerprint (ex_remote X) = Ok (Some expected)))"
proof (cases "ex_ready X")
  case (Inl e)
  then show ?thesis using assms by (auto simp: run_operation_def)
next
  case ready: (Inr u)
  show ?thesis
  proof (cases operation)
    case (OpUpload p local)
    then obtain m' where u: "upload_steps (ex_fs X) root (ex_upload X) p local = (r, m', es)"
      using assms ready by (auto simp: run_operation_def split: prod.splits)
    from upload_effects [OF u] show ?thesis by blast
  next
    case (OpDownload p remote keep_both expected)
    show ?thesis
    proof (cases "te_message remote = None \<or> (\<exists>e. safe_download_path (ex_fs X) root p = Err e)")
      case True
      then show ?thesis using assms ready OpDownload by (auto simp: run_operation_def split: if_splits)
    next
      case False
      then obtain d where d: "safe_download_path (ex_fs X) root p = Ok d" "te_message remote \<noteq> None"
        by (cases "safe_download_path (ex_fs X) root p") auto
      let ?d = "if keep_both then conflict_path (ex_suffix X) d else d" and ?e = "if keep_both then None else expected"
      obtain r' where r': "download_steps (ex_download X) ?d ?e = (r', es)" "\<And>v. r' = Ok v \<Longrightarrow> r = Ok ()"
        using assms ready OpDownload d by (auto simp: run_operation_def split: sum.splits prod.splits)
      have "Published f \<in> set es \<Longrightarrow> f = ?d \<and> verify_local_precondition (de_local (ex_download X)) ?e = Ok () \<and> r = Ok ()" for f
        using download_published [OF r'(1)] r'(2) by blast
      moreover have "RemovedLocal f \<notin> set es" "DeletedMessage i \<notin> set es" for f i
        using download_effects [OF r'(1)] by blast+
      ultimately show ?thesis using OpDownload d(1)
        by (cases ?e) (auto simp: verify_local_None verify_local_Some split: if_splits)
    qed
  next
    case (OpDeleteRemote p i expected)
    then show ?thesis using assms ready
      by (cases "verify_remote_precondition (ex_remote X) expected"; cases "ex_delete X")
         (auto simp: run_operation_def verify_remote_Ok)
  next
    case (OpDeleteLocal p expected)
    show ?thesis
    proof (cases "safe_local_path (ex_fs X) root p")
      case f: (Inr f)
      show ?thesis
      proof (cases "lc_hash (ex_local X) = Ok expected")
        case True
        then have "verify_local_precondition (ex_local X) (Some expected) = Ok ()"
          by (simp add: verify_local_Some)
        then show ?thesis using assms ready OpDeleteLocal f True
          by (cases "ex_account X"; cases "ex_remove X") (auto simp: run_operation_def)
      next
        case False
        then obtain e where "verify_local_precondition (ex_local X) (Some expected) = Err e"
          using verify_local_Some [of "ex_local X" expected]
          by (cases "verify_local_precondition (ex_local X) (Some expected)") auto
        then show ?thesis using assms ready OpDeleteLocal f by (auto simp: run_operation_def)
      qed
    qed (use assms ready OpDeleteLocal in \<open>auto simp: run_operation_def\<close>)
  qed (use assms ready in \<open>auto simp: run_operation_def\<close>)
qed

section \<open>Uploads\<close>

lemma upload_noted:
  assumes "upload_steps F root E p local = (r, Some i, es)"
  shows "ue_current_hash E = Ok (te_hash local) \<and> (\<exists>protected. ue_upload E = Ok (i, protected))"
  using assms by (auto simp: upload_steps_def split: sum.splits prod.splits if_splits)

text \<open>an upload succeeds exactly when the file is within the size limit before and at the transfer, is a file
  inside the mapped folder, still has the planned content afterwards and, unless protected, could be
  renamed to its path; it then noted the message it sent. Content that changed meanwhile is never
  noted, and the message sent for it is deleted again unless the deletion itself fails.\<close>

theorem upload_success_is_verified:
  assumes "upload_steps F root E p local = (r, m, es)"
  shows "(r = Ok () \<longleftrightarrow> (\<exists>f len i protected. te_size local \<le> TELEGRAM_MAX_FILE_BYTES \<and> safe_local_path F root p = Ok f \<and>
      ue_is_file E \<and> ue_metadata E = Ok len \<and> len \<le> TELEGRAM_MAX_FILE_BYTES \<and> ue_upload E = Ok (i, protected) \<and>
      ue_current_hash E = Ok (te_hash local) \<and> ue_account E = Ok () \<and> (protected \<or> ue_rename E = Ok ()) \<and> m = Some i)) \<and>
    (m \<noteq> None \<longrightarrow> ue_current_hash E = Ok (te_hash local)) \<and>
    (\<forall>i. SentFile i \<in> set es \<and> (\<exists>current. ue_current_hash E = Ok current \<and> current \<noteq> te_hash local) \<longrightarrow>
      m = None \<and> (DeletedMessage i \<in> set es \<longleftrightarrow> ue_discard E = Ok ()))"
proof -
  let ?send = "rbind (validate_upload_size (te_size local)) (\<lambda>_.
      rbind (safe_local_path F root p) (\<lambda>_.
      if \<not> ue_is_file E then Err ''Local file disappeared before upload''
      else rbind (ue_metadata E) (\<lambda>len. rbind (validate_upload_size len) (\<lambda>_. ue_upload E))))"
  have size: "validate_upload_size n = Ok () \<longleftrightarrow> n \<le> TELEGRAM_MAX_FILE_BYTES" for n
    by (auto simp: validate_upload_size_def)
  have send: "?send = Ok (i, protected) \<longleftrightarrow> te_size local \<le> TELEGRAM_MAX_FILE_BYTES \<and>
      (\<exists>f. safe_local_path F root p = Ok f) \<and> ue_is_file E \<and>
      (\<exists>len. ue_metadata E = Ok len \<and> len \<le> TELEGRAM_MAX_FILE_BYTES) \<and> ue_upload E = Ok (i, protected)" for i protected
    by (auto simp: size)
  show ?thesis
  proof (cases ?send)
    case (Inl e)
    then have "r = Err e \<and> m = None \<and> es = []" using assms by (simp only: upload_steps_def sum.case) simp
    moreover have "\<nexists>i protected. ?send = Ok (i, protected)" using Inl by simp
    ultimately show ?thesis unfolding send by (auto 0 3)
  next
    case (Inr ip)
    obtain i protected where ip: "ip = (i, protected)" by fastforce
    have step: "upload_steps F root E p local = (case ue_current_hash E of
             Inl e \<Rightarrow> (Err e, None, [SentFile i])
           | Inr current \<Rightarrow>
               if current \<noteq> te_hash local
               then (case discard_changed E i of (r, es) \<Rightarrow> (map_sum id (\<lambda>_. ()) r, None, SentFile i # es))
               else (case ue_account E of
                    Inl e \<Rightarrow> (Err e, None, [SentFile i])
                  | Inr _ \<Rightarrow> (case journal_and_rename E p local i protected of (r, es) \<Rightarrow> (r, Some i, SentFile i # es))))"
      unfolding upload_steps_def Inr ip by (simp only: sum.case prod.case)
    have S: "te_size local \<le> TELEGRAM_MAX_FILE_BYTES" "\<exists>f. safe_local_path F root p = Ok f" "ue_is_file E"
        "\<exists>len. ue_metadata E = Ok len \<and> len \<le> TELEGRAM_MAX_FILE_BYTES" "ue_upload E = Ok (i, protected)"
      using send [of i protected] Inr ip by blast+
    show ?thesis
      using assms [unfolded step] S
      by (cases "ue_current_hash E"; cases "ue_account E"; cases "ue_journal E"; cases "ue_rename E"; cases "ue_discard E")
         (auto simp: discard_changed_def journal_and_rename_def split: if_splits)
  qed
qed

section \<open>Paths\<close>

lemma piece_component_normal:
  "Normal n \<in> set (piece_component q) \<Longrightarrow> n = q \<and> n \<noteq> [] \<and> n \<noteq> us ''.'' \<and> n \<noteq> us ''..''"
  by (auto split: if_splits)

lemma path_components_normal:
  assumes "Normal n \<in> set (path_components p)"
  shows "n \<noteq> [] \<and> n \<noteq> us ''.'' \<and> n \<noteq> us ''..'' \<and> SLASH \<notin> set n"
proof -
  obtain q where q: "q \<in> set (split_on SLASH p)" "Normal n \<in> set (piece_component q)"
    using assms by (cases "split_on SLASH p") (auto simp: path_components_def simp del: piece_component.simps split: if_splits)
  then show ?thesis using piece_component_normal [OF q(2)] split_on_pieces [OF q(1)] by blast
qed

lemma existing_ancestor_spec:
  assumes "existing_ancestor F candidate n = Some a" and "n \<le> length candidate"
  shows "\<exists>k\<le>n. a = take k candidate \<and> fs_exists F a \<and> (\<forall>j. k < j \<and> j \<le> n \<longrightarrow> \<not> fs_exists F (take j candidate))"
  using assms
proof (induction n)
  case (Suc n)
  show ?case
  proof (cases "fs_exists F (take (Suc n) candidate)")
    case True
    then show ?thesis using Suc(2) by auto
  next
    case False
    then obtain k where "k \<le> n" "a = take k candidate" "fs_exists F a"
        "\<forall>j. k < j \<and> j \<le> n \<longrightarrow> \<not> fs_exists F (take j candidate)"
      using Suc by auto
    then show ?thesis using False by (intro exI [of _ k]) (auto simp: le_Suc_eq)
  qed
qed (auto split: if_splits)

text \<open>C21: a path the engine touches lies below the canonical mapped folder, name by name without dots or
  separators, and the deepest part of it that exists resolves, links included, to a place below that
  folder; a download's names are moreover valid on every platform.\<close>

theorem safe_path_stays_inside:
  assumes "safe_local_path F root p = Ok f"
  shows "\<exists>base names k rest. fs_canonical F root = Ok base \<and> f = base @ names \<and>
      (\<forall>n\<in>set names. n \<noteq> [] \<and> n \<noteq> us ''.'' \<and> n \<noteq> us ''..'' \<and> SLASH \<notin> set n) \<and>
      fs_exists F (take k f) \<and> (\<forall>j. k < j \<and> j \<le> length f \<longrightarrow> \<not> fs_exists F (take j f)) \<and>
      fs_canonical F (take k f) = Ok (base @ rest) \<and>
      (validate_portable_relative_path p = Ok () \<longrightarrow> (\<forall>n\<in>set names. portable_name n))"
proof -
  obtain base a c where B: "fs_canonical F root = Ok base" "f = base @ map normal_name (path_components p)"
      "existing_ancestor F f (length f) = Some a" "fs_canonical F a = Ok c" "take (length base) c = base"
      "list_all is_normal (path_components p)"
    using assms by (auto simp: safe_local_path_def Let_def split: if_splits)
  obtain k where k: "a = take k f" "fs_exists F a" "\<forall>j. k < j \<and> j \<le> length f \<longrightarrow> \<not> fs_exists F (take j f)"
    using existing_ancestor_spec [OF B(3)] by auto
  have names: "Normal (normal_name c') = c'" if "c' \<in> set (path_components p)" for c'
  proof -
    have "is_normal c'" using that B(6) by (simp add: list_all_iff)
    then show ?thesis by (cases c') simp_all
  qed
  have "\<forall>n\<in>set (map normal_name (path_components p)). n \<noteq> [] \<and> n \<noteq> us ''.'' \<and> n \<noteq> us ''..'' \<and> SLASH \<notin> set n"
    using names path_components_normal [of "normal_name _" p] by simp
  moreover have "check_components cs = Ok () \<Longrightarrow> \<forall>n\<in>set (map normal_name cs). portable_name n" for cs
    by (induction cs rule: check_components.induct) (auto split: if_splits)
  moreover have "c = base @ drop (length base) c" using B(5) by (metis append_take_drop_id)
  ultimately show ?thesis using B(1,2,4) k unfolding validate_portable_relative_path_def by metis
qed

section \<open>Staging files\<close>

definition staged :: "effect list \<Rightarrow> path list \<Rightarrow> bool" where
  "staged es t \<longleftrightarrow> ReservedTemporary t \<in> set es \<and> RemovedTemporary t \<notin> set es \<and> \<not> (\<exists>d. Published d \<in> set es)"

text \<open>a failed download removes its staging file except in two cases, a failure to hash it and a failure to
  put it in place; then the file stays, and as long as it does every later download to the same path
  is refused at its reservation without any effect.\<close>

theorem staging_file_left_behind:
  assumes "download_steps E destination expected = (r, es)" and "temporary_download_path destination = Ok t"
  shows "(staged es t \<longleftrightarrow> de_account E = Ok () \<and> de_create_dir E = Ok () \<and> de_reserve E = Ok () \<and>
      de_transfer E = Ok () \<and> de_account_after E = Ok () \<and>
      ((\<exists>e. de_hash E = Err e \<and> r = Err e) \<or>
       (\<exists>h e. de_hash E = Ok h \<and> verify_local_precondition (de_local E) expected = Ok () \<and>
         de_account_last E = Ok () \<and> de_replace E = Err e \<and> r = Err e))) \<and>
    (de_account E' = Ok () \<and> de_create_dir E' = Ok () \<and> de_reserve E' = Err busy \<longrightarrow>
      download_steps E' destination expected' = (Err busy, []))"
proof -
  have "staged es t \<longleftrightarrow> de_account E = Ok () \<and> de_create_dir E = Ok () \<and> de_reserve E = Ok () \<and>
      de_transfer E = Ok () \<and> de_account_after E = Ok () \<and>
      ((\<exists>e. de_hash E = Err e \<and> r = Err e) \<or>
       (\<exists>h e. de_hash E = Ok h \<and> verify_local_precondition (de_local E) expected = Ok () \<and>
         de_account_last E = Ok () \<and> de_replace E = Err e \<and> r = Err e))"
    using assms(1) [symmetric] assms(2)
    by (cases "de_account E"; cases "de_create_dir E"; cases "de_reserve E"; cases "de_transfer E";
        cases "de_account_after E"; cases "de_hash E"; cases "verify_local_precondition (de_local E) expected";
        cases "de_account_last E"; cases "de_replace E")
       (auto simp: download_steps_def cleaned_def staged_def)
  moreover have "de_account E' = Ok () \<and> de_create_dir E' = Ok () \<and> de_reserve E' = Err busy \<longrightarrow>
      download_steps E' destination expected' = (Err busy, [])"
    using assms(2) by (auto simp: download_steps_def)
  ultimately show ?thesis by blast
qed

section \<open>An upload that cannot be renamed\<close>

lemma known_paths_source:
  assumes "bt_get (fold (\<lambda>(_, e) m. case se_message e of None \<Rightarrow> m | Some k \<Rightarrow> bt_insert k (se_path e) m) s m) i = Some q"
  shows "bt_get m i = Some q \<or> (\<exists>x\<in>set s. se_message (snd x) = Some i \<and> se_path (snd x) = q)"
  using assms by (induction s arbitrary: m) (force split: option.splits if_splits)+

lemma known_paths_keep:
  assumes "bt_get m i \<noteq> None"
  shows "bt_get (fold (\<lambda>(_, e) m. case se_message e of None \<Rightarrow> m | Some k \<Rightarrow> bt_insert k (se_path e) m) s m) i \<noteq> None"
  using assms by (induction s arbitrary: m) (auto split: option.splits)

lemma known_paths_present:
  assumes "(k, e) \<in> set s" and "se_message e = Some i"
  shows "bt_get (fold (\<lambda>(_, e) m. case se_message e of None \<Rightarrow> m | Some k \<Rightarrow> bt_insert k (se_path e) m) s m) i \<noteq> None"
  using assms
proof (induction s arbitrary: m)
  case (Cons x s)
  show ?case
  proof (cases "x = (k, e)")
    case True
    then show ?thesis using Cons.prems(2) known_paths_keep [of "bt_insert i (se_path e) m" i s] by simp
  next
    case False
    then have "(k, e) \<in> set s" using Cons.prems(1) by auto
    from Cons.IH [OF this Cons.prems(2)] show ?thesis by simp
  qed
qed simp

lemma known_message_path:
  assumes "bt_ok db" and "bt_get db p = Some row" and "se_message row = Some i" and "se_path row = p"
    and "\<And>p' row'. p' \<noteq> p \<Longrightarrow> bt_get db p' = Some row' \<Longrightarrow> se_message row' \<noteq> Some i"
  shows "bt_get (known_message_paths db) i = Some p"
proof -
  obtain q where q: "bt_get (known_message_paths db) i = Some q"
    using known_paths_present [OF bt_get_in_set [OF assms(2)] assms(3), of "[]"] by (auto simp: known_message_paths_def)
  then obtain x where x: "x \<in> set db" "se_message (snd x) = Some i" "se_path (snd x) = q"
    using known_paths_source [of db "[]" i q] by (auto simp: known_message_paths_def)
  then have "bt_get db (fst x) = Some (snd x)" using bt_in_set_get [OF assms(1)] by (cases x) auto
  then have "fst x = p" using assms(5) x(2) by blast
  with \<open>bt_get db (fst x) = _\<close> assms(2,4) x(3) q show ?thesis by simp
qed

lemma unknown_message:
  assumes "bt_ok db" and "\<And>p row. bt_get db p = Some row \<Longrightarrow> se_message row \<noteq> Some j"
  shows "bt_get (known_message_paths db) j = None"
proof (rule ccontr)
  assume "bt_get (known_message_paths db) j \<noteq> None"
  then obtain x where x: "x \<in> set db" "se_message (snd x) = Some j"
    using known_paths_source [of db "[]" j] by (auto simp: known_message_paths_def)
  then show False using assms(2) bt_in_set_get [OF assms(1)] by (metis prod.collapse)
qed

text \<open>when an updated file is uploaded and journaled but its message cannot be renamed, the failed result
  keeps the new message as the row's message and nothing registers the replaced one for cleanup; as
  long as both messages exist, the old one with the path as its caption, every scan of the channel is
  refused, so the mapping stops syncing.\<close>

theorem failed_rename_blocks_mapping:
  assumes "upload_steps F root E p local = (Err e, Some i, es)" and "Journaled q \<in> set es"
    and "result = execution_result_of (OpUpload p local) (Err e, Some i, None, es)"
    and "bt_contains (pc_synced prepared) p"
    and "bt_ok db" and "db' = fold (exec_statement now) (q # record_result prepared uploaded result) db"
    and "\<forall>p' row. p' \<noteq> p \<and> bt_get db p' = Some row \<longrightarrow> se_message row \<noteq> Some i \<and> se_message row \<noteq> Some j"
    and "old \<in> set files" and "rf_message old = j" and "j \<noteq> i" and "\<not> is_protected old"
    and "rf_caption old = p" and "is_safe_relative p" and "new \<in> set files" and "rf_message new = i"
    and "\<not> ignores prefs p"
  shows "journal_cleanup remote [result] pending = pending \<and> (\<exists>err. build_remote_tree hex_digest files db' prefs = Err err)"
proof -
  have q: "q = journal_upload p local i"
    using assms(1,2) by (auto simp: upload_steps_def discard_changed_def journal_and_rename_def act_def
        split: sum.splits prod.splits if_splits)
  have res: "xr_path result = p" "\<not> xr_success result" "xr_action result = ''upload''"
    using assms(3) by (simp_all add: execution_result_of_def)
  let ?row = "state_row now p (Some local) (Some (local\<lparr>te_message := Some i, te_hash := []\<rparr>)) ''syncing''"
  have db': "db' = bt_insert p (?row\<lparr>se_status := failure_status result\<rparr>) (bt_insert p ?row db)"
    using assms(4,6) res by (simp add: q journal_upload_def record_result_def Let_def)
  have row: "bt_get db' p = Some (?row\<lparr>se_status := failure_status result\<rparr>)" "bt_ok db'"
    using assms(5) by (simp_all add: db')
  have other: "se_message row' \<noteq> Some i \<and> se_message row' \<noteq> Some j" if "p' \<noteq> p" "bt_get db' p' = Some row'" for p' row'
    using that assms(7) by (auto simp: db')
  have known: "bt_get (known_message_paths db') i = Some p" "bt_get (known_message_paths db') j = None"
  proof -
    show "bt_get (known_message_paths db') i = Some p"
      by (rule known_message_path [OF row(2,1)]) (use other in \<open>auto simp: state_row_def\<close>)
    show "bt_get (known_message_paths db') j = None"
    proof (rule unknown_message [OF row(2)])
      fix p' row'
      assume "bt_get db' p' = Some row'"
      then show "se_message row' \<noteq> Some j"
        using other row(1) assms(10) by (cases "p' = p") (auto simp: state_row_def)
    qed
  qed
  have "remote_relative_path old (known_message_paths db') = Some p" "remote_relative_path new (known_message_paths db') = Some p"
    using known assms(9,11-13,15) by (simp_all add: remote_relative_path_def)
  then have "build_remote_tree hex_digest files db' prefs \<noteq> Ok tree" for tree
    using insert_files_all [of hex_digest "known_message_paths db'" prefs files "[]" tree old p]
      insert_files_all [of hex_digest "known_message_paths db'" prefs files "[]" tree new p] assms(8-10,14-16)
    by (auto simp: build_remote_tree_def remote_tree_entry_def split: if_splits)
  then have "\<exists>err. build_remote_tree hex_digest files db' prefs = Err err"
    by (cases "build_remote_tree hex_digest files db' prefs") auto
  moreover have "journal_cleanup remote [result] pending = pending" using res(2) by (simp add: journal_cleanup_def)
  ultimately show ?thesis by blast
qed

section \<open>Concrete operations\<close>

definition plain_disk :: fs_view where
  "plain_disk = \<lparr>fs_exists = \<lambda>_. True, fs_canonical = Ok\<rparr>"

definition demo_upload :: upload_env where
  "demo_upload = \<lparr>ue_is_file = True, ue_metadata = Ok 3, ue_upload = Ok (9, False), ue_current_hash = Ok ''l'',
     ue_discard = Ok (), ue_account = Ok (), ue_journal = Ok (), ue_rename = Ok ()\<rparr>"

definition demo_download :: download_env where
  "demo_download = \<lparr>de_account = Ok (), de_create_dir = Ok (), de_reserve = Ok (), de_transfer = Ok (),
     de_account_after = Ok (), de_hash = Ok ''n'', de_local = \<lparr>lc_hash = Ok ''l'', lc_exists = Ok True\<rparr>,
     de_account_last = Ok (), de_replace = Ok ()\<rparr>"

definition demo_env :: exec_env where
  "demo_env = \<lparr>ex_ready = Ok (), ex_fs = plain_disk, ex_upload = demo_upload, ex_download = demo_download,
     ex_suffix = us ''01234567'', ex_local = \<lparr>lc_hash = Ok ''l'', lc_exists = Ok True\<rparr>, ex_account = Ok (),
     ex_remove = Ok (), ex_remote = \<lparr>rc_account = Ok (), rc_client = Ok (), rc_fingerprint = Ok (Some ''r''),
     rc_account_after = Ok ()\<rparr>, ex_delete = Ok ()\<rparr>"

lemma demo_path: "safe_local_path plain_disk [us ''m''] (us ''a'') = Ok [us ''m'', us ''a'']"
  by (simp add: safe_local_path_def path_components_def us_def SLASH_def starts_with_def plain_disk_def)

theorem destructive_steps_justified_witness:
  "RemovedLocal [us ''m'', us ''a''] \<in> set (snd (snd (snd (run_operation [us ''m''] demo_env (OpDeleteLocal (us ''a'') ''l''))))) \<and>
   safe_local_path plain_disk [us ''m''] (us ''a'') = Ok [us ''m'', us ''a'']"
proof -
  have r: "run_operation [us ''m''] demo_env (OpDeleteLocal (us ''a'') ''l'') =
      (Ok (), None, None, [RemovedLocal [us ''m'', us ''a'']])"
    by (simp add: run_operation_def demo_env_def demo_path verify_local_precondition_def)
  then show ?thesis using destructive_steps_justified [OF r] by (simp add: demo_env_def)
qed

definition demo_local :: tree_entry where
  "demo_local = \<lparr>te_path = us ''a'', te_hash = ''l'', te_size = 3, te_modified = None, te_message = None\<rparr>"

theorem upload_success_is_verified_witness:
  "fst (upload_steps plain_disk [us ''m''] demo_upload (us ''a'') demo_local) = Ok () \<and>
   ue_current_hash demo_upload = Ok (te_hash demo_local)"
proof -
  let ?J = "Journaled (journal_upload (us ''a'') demo_local 9)"
  have r: "upload_steps plain_disk [us ''m''] demo_upload (us ''a'') demo_local =
      (Ok (), Some 9, [SentFile 9, ?J, RenamedMessage 9 (us ''a'')])"
    by (simp add: upload_steps_def demo_upload_def demo_local_def demo_path validate_upload_size_def
        TELEGRAM_MAX_FILE_BYTES_def journal_and_rename_def)
  then show ?thesis using upload_success_is_verified [OF r, THEN conjunct2, THEN conjunct1] by simp
qed

theorem safe_path_stays_inside_witness:
  "\<exists>base names. fs_canonical plain_disk [us ''m''] = Ok base \<and> [us ''m'', us ''a''] = base @ names"
  using safe_path_stays_inside [OF demo_path] by blast

theorem staging_file_left_behind_witness:
  "staged (snd (download_steps (demo_download\<lparr>de_hash := Err ''read error''\<rparr>) [us ''a''] None)) (us ''a.td-sync-tmp'' # []) \<and>
   download_steps (demo_download\<lparr>de_reserve := Err ''exists''\<rparr>) [us ''a''] None = (Err ''exists'', [])"
proof -
  have t: "temporary_download_path [us ''a''] = Ok [us ''a.td-sync-tmp'']"
    by (simp add: temporary_download_path_def staging_suffix_def us_def)
  show ?thesis
    using staging_file_left_behind [OF surjective_pairing t, of "demo_download\<lparr>de_hash := Err ''read error''\<rparr>" None
        "demo_download\<lparr>de_reserve := Err ''exists''\<rparr>" "''exists''" None]
    by (auto simp: demo_download_def download_steps_def cleaned_def t)
qed

definition old_message :: remote_file where
  "old_message = \<lparr>rf_message = 7, rf_caption = us ''a'', rf_document_name = Some (us ''a''), rf_media = 1, rf_size = 3,
     rf_created = 1, rf_edited = None, rf_sync_path = None, rf_plaintext_size = None\<rparr>"

definition recorded_row :: synced_entry where
  "recorded_row = \<lparr>se_path = us ''a'', se_local_hash = Some ''k'', se_remote_hash = Some ''r'', se_size = 3,
     se_local_mtime = None, se_remote_date = None, se_message = Some 7, se_status = ''synced''\<rparr>"

definition edited_cycle :: prepared_cycle where
  "edited_cycle = \<lparr>pc_local = [(us ''a'', demo_local)], pc_remote = [], pc_synced = [(us ''a'', recorded_row)],
     pc_operations = [OpUpload (us ''a'') demo_local], pc_conflicts = 0, pc_baselined = []\<rparr>"

theorem failed_rename_blocks_mapping_witness:
  "\<exists>es q. upload_steps plain_disk [us ''m''] (demo_upload\<lparr>ue_rename := Err ''FLOOD_WAIT''\<rparr>) (us ''a'') demo_local =
       (Err ''FLOOD_WAIT'', Some 9, es) \<and> Journaled q \<in> set es \<and>
     (\<exists>err. build_remote_tree (\<lambda>s. s) [old_message, old_message\<lparr>rf_message := 9, rf_caption := []\<rparr>]
       (fold (exec_statement 50) (q # record_result edited_cycle []
          (execution_result_of (OpUpload (us ''a'') demo_local) (Err ''FLOOD_WAIT'', Some 9, None, es))) [(us ''a'', recorded_row)])
       default_preferences = Err err)"
proof -
  let ?q = "journal_upload (us ''a'') demo_local 9"
  have u: "upload_steps plain_disk [us ''m''] (demo_upload\<lparr>ue_rename := Err ''FLOOD_WAIT''\<rparr>) (us ''a'') demo_local =
      (Err ''FLOOD_WAIT'', Some 9, [SentFile 9, Journaled ?q])"
    by (simp add: upload_steps_def demo_upload_def demo_local_def demo_path validate_upload_size_def
        TELEGRAM_MAX_FILE_BYTES_def journal_and_rename_def)
  have p: "is_safe_relative (us ''a'')" "\<not> is_protected old_message" "\<not> ignores default_preferences (us ''a'')"
    by (simp_all add: is_safe_relative_def us_def char_codes starts_with_def old_message_def is_protected_def
        suspected_envelope_def to_ascii_lowercase_def ends_with_def ignores_def default_preferences_def staging_suffix_def
        matches_ignore_pattern_def wildcard_match_def wildcard_row_def char_row_def last_piece_def)
  have "\<exists>err. build_remote_tree (\<lambda>s. s) [old_message, old_message\<lparr>rf_message := 9, rf_caption := []\<rparr>]
       (fold (exec_statement 50) (?q # record_result edited_cycle []
          (execution_result_of (OpUpload (us ''a'') demo_local) (Err ''FLOOD_WAIT'', Some 9, None, [SentFile 9, Journaled ?q])))
         [(us ''a'', recorded_row)]) default_preferences = Err err"
    by (rule failed_rename_blocks_mapping [OF u _ refl _ _ refl, where j = 7 and old = old_message
          and new = "old_message\<lparr>rf_message := 9, rf_caption := []\<rparr>", THEN conjunct2])
       (use p in \<open>auto simp: edited_cycle_def bt_contains_def recorded_row_def old_message_def\<close>)
  then show ?thesis using u by auto
qed

end
