(* ===== verification/Reconcile_Contract.thy ===== *)
theory Reconcile_Contract
  imports Sync_Reconcile Sync_Converge Execute_Contract
begin

text \<open>
  What a whole reconciliation guarantees: cleanup deletes only messages that were replaced, a paused
  mapping executes nothing, at most half of the recorded files are removed, and a reconciliation that
  succeeded leaves the next one nothing to do.
\<close>

section \<open>Cleanup\<close>

lemma cleanup_item_cases:
  assumes "cleanup_item V item = (r, qs, es)"
  shows "(qs = [] \<or> qs = [SetStateStatus (pn_path item) ''conflict'']) \<and>
    (es = [] \<or> es = [DeletedMessage (pn_old item)] \<and> cv_old_exists V \<and> cv_new_exists V \<and> old_unchanged V item) \<and>
    (r = Ok False \<longrightarrow> qs = [] \<and> (es = [DeletedMessage (pn_old item)] \<or> \<not> cv_old_exists V)) \<and>
    (r = Ok True \<longrightarrow> qs = [SetStateStatus (pn_path item) ''conflict''] \<and> es = [])"
  using assms
  by (cases "cv_old_exists V"; cases "cv_new_exists V"; cases "old_unchanged V item")
     (auto simp: cleanup_item_def split: sum.splits)

text \<open>C23: cleanup deletes a message only if it is the replaced one of a pending item, its replacement exists and
  it still has the recorded fingerprint; an item leaves the list only when its message was deleted,
  was gone already, or was kept with its path marked as a conflict; if all goes well the list is empty.\<close>

theorem cleanup_deletes_only_replaced:
  assumes "retry_pending_cleanup view pending = (r, pending', qs, es)"
  shows "(\<forall>x\<in>set es. \<exists>item\<in>set pending. x = DeletedMessage (pn_old item) \<and> cv_new_exists (view item) \<and>
      cv_old_fingerprint (view item) = pn_old_hash item) \<and>
    (\<exists>handled. pending = handled @ pending' \<and> (\<forall>item\<in>set handled. DeletedMessage (pn_old item) \<in> set es \<or>
      \<not> cv_old_exists (view item) \<or> SetStateStatus (pn_path item) ''conflict'' \<in> set qs)) \<and>
    (r = Ok () \<longrightarrow> pending' = [] \<and> qs = [])"
  using assms
proof (induction pending arbitrary: r pending' qs es)
  case (Cons item pending)
  obtain r1 qs1 es1 where one: "cleanup_item (view item) item = (r1, qs1, es1)" by (metis prod_cases3)
  note C = cleanup_item_cases [OF one]
  have fp: "cv_old_fingerprint (view item) = pn_old_hash item" if "old_unchanged (view item) item"
    using that by (auto simp: old_unchanged_def split: option.splits)
  show ?case
  proof (cases r1)
    case (Inl e)
    then show ?thesis using Cons.prems one C fp by auto
  next
    case (Inr preserved)
    show ?thesis
    proof (cases preserved)
      case True
      then show ?thesis using Cons.prems one C Inr by (intro conjI exI [of _ "[item]"]) auto
    next
      case False
      obtain r2 p2 qs2 es2 where rest: "retry_pending_cleanup view pending = (r2, p2, qs2, es2)" by (metis prod_cases4)
      have eq: "r = r2" "pending' = p2" "qs = qs1 @ qs2" "es = es1 @ es2"
        using Cons.prems one Inr False rest by auto
      have "r1 = Ok False" using Inr False by simp
      from Cons.IH [OF rest]
      have IH: "(\<forall>x\<in>set es2. \<exists>item\<in>set pending. x = DeletedMessage (pn_old item) \<and> cv_new_exists (view item) \<and>
          cv_old_fingerprint (view item) = pn_old_hash item)"
        "\<exists>handled. pending = handled @ p2 \<and> (\<forall>item\<in>set handled. DeletedMessage (pn_old item) \<in> set es2 \<or>
          \<not> cv_old_exists (view item) \<or> SetStateStatus (pn_path item) ''conflict'' \<in> set qs2)"
        "r2 = Ok () \<longrightarrow> p2 = [] \<and> qs2 = []"
        by blast+
      then obtain handled where h: "pending = handled @ p2" "\<forall>item\<in>set handled. DeletedMessage (pn_old item) \<in> set es2 \<or>
          \<not> cv_old_exists (view item) \<or> SetStateStatus (pn_path item) ''conflict'' \<in> set qs2" by blast
      show ?thesis
        using IH(1,3) h C fp eq \<open>r1 = Ok False\<close> by (intro conjI exI [of _ "item # handled"]) auto
    qed
  qed
qed simp

lemma retry_Ok:
  assumes "retry_pending_cleanup view pending = (Ok (), pending', qs, es)"
  shows "pending' = [] \<and> qs = []"
  using assms
proof (induction pending arbitrary: pending' qs es)
  case (Cons item pending)
  obtain r1 qs1 es1 where one: "cleanup_item (view item) item = (r1, qs1, es1)" by (metis prod_cases3)
  show ?case using Cons one cleanup_item_cases [OF one]
    by (auto split: sum.splits bool.splits prod.splits)
qed simp

lemma retry_statements:
  assumes "retry_pending_cleanup view pending = (r, pending', qs, es)" and "q \<in> set qs"
  shows "\<exists>p. q = SetStateStatus p ''conflict''"
  using assms
proof (induction pending arbitrary: r pending' qs es)
  case (Cons item pending)
  obtain r1 qs1 es1 where one: "cleanup_item (view item) item = (r1, qs1, es1)" by (metis prod_cases3)
  show ?case using Cons one cleanup_item_cases [OF one]
    by (auto split: sum.splits bool.splits prod.splits)
qed simp

lemma retry_effects:
  assumes "retry_pending_cleanup view pending = (r, pending', qs, es)" and "x \<in> set es"
  shows "\<exists>i. x = DeletedMessage i"
  using assms
proof (induction pending arbitrary: r pending' qs es)
  case (Cons item pending)
  obtain r1 qs1 es1 where one: "cleanup_item (view item) item = (r1, qs1, es1)" by (metis prod_cases3)
  show ?case using Cons one cleanup_item_cases [OF one]
    by (auto split: sum.splits bool.splits prod.splits)
qed simp

section \<open>The course of a reconciliation\<close>

lemma reconcile_course:
  assumes "reconcile_pair prefs d E M = (r, M', es)"
    and "retry_pending_cleanup (ce_cleanup E) (mp_pending M) = (rc, pending, qs, es0)"
    and "M1 = \<lparr>mp_rows = fold (exec_statement (ce_now E)) qs (mp_rows M), mp_pending = pending\<rparr>"
  shows "es = [] \<or> es = es0 \<or>
    (\<exists>remote scan prepared writes db es1. rc = Ok () \<and> ce_remote E (mp_rows M1) = Ok remote \<and>
       ce_scan E (mp_rows M1) = Ok scan \<and>
       prepare_reconciliation prefs d scan (mp_rows M1) remote = (Ok prepared, writes) \<and>
       run_statements (ce_prepare_fault E) (ce_now E) writes (mp_rows M1) = (Ok (), db) \<and>
       pause_reason prefs E prepared = None \<and>
       run_prepared E prepared (M1\<lparr>mp_rows := db\<rparr>) = (r, M', es1) \<and> es = es0 @ es1)"
proof (cases "ce_account E")
  case (Inl e)
  then show ?thesis using assms(1) by (simp add: reconcile_pair_def)
next
  case acc: (Inr u)
  let ?gate = "rbind rc (\<lambda>_. rbind (ce_remote E (mp_rows M1)) (\<lambda>remote.
      rbind (ce_account_scanned E) (\<lambda>_. rbind (ce_scan E (mp_rows M1)) (\<lambda>scan. Ok (remote, scan)))))"
  show ?thesis
  proof (cases ?gate)
    case (Inl e)
    then show ?thesis using assms acc by (simp add: reconcile_pair_def Let_def)
  next
    case (Inr rs)
    obtain remote scan where rs: "rs = (remote, scan)" by fastforce
    have gate: "rc = Ok ()" "ce_remote E (mp_rows M1) = Ok remote" "ce_scan E (mp_rows M1) = Ok scan"
      using Inr rs by auto
    obtain outcome writes where prep: "prepare_reconciliation prefs d scan (mp_rows M1) remote = (outcome, writes)"
      by fastforce
    obtain r2 db where run: "run_statements (ce_prepare_fault E) (ce_now E) writes (mp_rows M1) = (r2, db)" by fastforce
    show ?thesis
    proof (cases r2)
      case (Inl e)
      then show ?thesis using assms acc Inr rs prep run by (simp add: reconcile_pair_def Let_def)
    next
      case r2: (Inr v)
      show ?thesis
      proof (cases outcome)
        case (Inl e)
        then show ?thesis using assms acc Inr rs prep run r2 by (simp add: reconcile_pair_def Let_def)
      next
        case out: (Inr prepared)
        show ?thesis
        proof (cases "pause_reason prefs E prepared")
          case (Some reason)
          then show ?thesis using assms acc Inr rs prep run r2 out by (simp add: reconcile_pair_def Let_def)
        next
          case None
          obtain r3 M3 es1 where rp: "run_prepared E prepared (M1\<lparr>mp_rows := db\<rparr>) = (r3, M3, es1)" by (metis prod_cases3)
          have "r = r3" "M' = M3" "es = es0 @ es1"
            using assms acc Inr rs prep run r2 out None rp by (simp_all add: reconcile_pair_def Let_def)
          then show ?thesis using gate prep run r2 out None rp by auto
        qed
      qed
    qed
  qed
qed

section \<open>Removals\<close>

fun is_removal :: "effect \<Rightarrow> bool" where
  "is_removal (RemovedLocal f) = True"
| "is_removal _ = False"

lemma run_operation_removals:
  "length (filter is_removal (snd (snd (snd (run_operation root X operation))))) \<le> (if is_delete operation then 1 else 0)"
proof (cases "ex_ready X")
  case (Inr u)
  have up: "filter is_removal es = []" if "upload_steps F root E p local = (r, m, es)" for F E p local r m es
    using upload_effects(3) [OF that] by (auto simp: filter_empty_conv elim!: is_removal.elims)
  have down: "filter is_removal es = []" if "download_steps E destination expected = (r, es)" for E destination expected r es
    using download_effects [OF that] by (fastforce simp: filter_empty_conv elim!: is_removal.elims)
  show ?thesis
  proof (cases operation)
    case (OpUpload p local)
    then show ?thesis using Inr up by (auto simp: run_operation_def split: prod.splits)
  next
    case (OpDownload p remote keep_both expected)
    then show ?thesis using Inr down by (auto simp: run_operation_def split: prod.splits sum.splits)
  qed (use Inr in \<open>auto simp: run_operation_def sbind_def answer_def act_def split: sum.splits prod.splits\<close>)
qed (simp add: run_operation_def)

lemma execute_removals:
  "length (filter is_removal (snd (execute root (map (\<lambda>operation. (X operation, operation)) operations)))) \<le>
     length (filter is_delete operations)"
proof (induction operations)
  case (Cons operation operations)
  then show ?case using run_operation_removals [of root "X operation" operation]
    by (auto simp: execute_def split: if_splits)
qed (simp add: execute_def)

lemma finish_effects:
  assumes "finish_cycle E prepared results M = (r, M', es)"
  shows "filter is_removal es = []"
proof -
  obtain rc pending qs es1 where "retry_pending_cleanup (ce_cleanup_after E)
      (journal_cleanup (pc_remote prepared) results (mp_pending M)) = (rc, pending, qs, es1)" by (metis prod_cases4)
  moreover have "filter is_removal es1 = []"
    using retry_effects [OF calculation] by (fastforce simp: filter_empty_conv)
  ultimately show ?thesis using assms
    by (auto simp: finish_cycle_def Let_def split: sum.splits prod.splits)
qed

lemma length_bt_insert_present: "bt_get m k \<noteq> None \<Longrightarrow> bt_ok m \<Longrightarrow> length (bt_insert k v m) = length m"
  by (induction m) (auto split: if_splits simp: bt_get_None_iff, meson less_asym)

lemma length_set_status:
  assumes "bt_ok db" and "\<And>q. q \<in> set qs \<Longrightarrow> \<exists>p. q = SetStateStatus p status"
  shows "length (fold (exec_statement now) qs db) = length db"
  using assms
proof (induction qs arbitrary: db)
  case (Cons q qs)
  then obtain p where q: "q = SetStateStatus p status" by fastforce
  have "length (exec_statement now q db) = length db"
    using Cons.prems(1) q by (auto simp: length_bt_insert_present split: option.splits)
  moreover have "bt_ok (exec_statement now q db)" using exec_fold_ok [OF Cons.prems(1), of now "[q]"] by simp
  ultimately show ?case using Cons by simp
qed simp

lemma length_filter_filter: "length (filter P (filter Q xs)) \<le> length (filter P xs)"
  by (induction xs) auto

lemma plan_bounded:
  assumes "plan_for_policy l r s d b = Ok operations" and "length s < 2 ^ 63"
  shows "2 * length (filter is_delete operations) \<le> length s"
  using assms deletes_bounded [of l r s d b]
  by (auto simp: plan_for_policy_def enforce_mass_deletion_def Let_def min_def split: if_splits)

text \<open>whatever happens during a reconciliation, it removes at most half as many local files as the mapping
  has recorded, unless the mapping adopts files in the same cycle.\<close>

theorem reconcile_removes_at_most_half:
  assumes "reconcile_pair prefs d E M = (r, M', es)" and "bt_ok (mp_rows M)" and "length (mp_rows M) < 2 ^ 63"
    and "\<not> sp_adopt_matching_files prefs"
  shows "2 * length (filter is_removal es) \<le> length (mp_rows M)"
proof -
  obtain rc pending qs es0 where retry: "retry_pending_cleanup (ce_cleanup E) (mp_pending M) = (rc, pending, qs, es0)"
    by (metis prod_cases4)
  let ?M1 = "\<lparr>mp_rows = fold (exec_statement (ce_now E)) qs (mp_rows M), mp_pending = pending\<rparr>"
  have none: "filter is_removal es0 = []" using retry_effects [OF retry] by (fastforce simp: filter_empty_conv)
  consider "es = []" | "es = es0" | remote scan prepared writes db es1 where
      "prepare_reconciliation prefs d scan (mp_rows ?M1) remote = (Ok prepared, writes)"
      "run_prepared E prepared (?M1\<lparr>mp_rows := db\<rparr>) = (r, M', es1)" "es = es0 @ es1"
    using reconcile_course [OF assms(1) retry refl] by blast
  then show ?thesis
  proof cases
    case 3
    obtain resumed s1 adopted where P:
      "resume_interrupted_uploads (pc_local prepared) (pc_remote prepared)
         (bt_retain (\<lambda>p _. \<not> ignores prefs p) (mp_rows ?M1)) = (resumed, s1)"
      "(if sp_adopt_matching_files prefs then adopt_matching_files (pc_local prepared) (pc_remote prepared) s1
        else ([], s1)) = (adopted, pc_synced prepared)"
      "plan_for_policy (pc_local prepared) (pc_remote prepared) (pc_synced prepared) d (sp_propagate_deletions prefs)
        = Ok (pc_operations prepared)"
      by (rule prepare_OkE [OF 3(1)], rule that, assumption+)
    have rows: "bt_ok (mp_rows ?M1)" "length (mp_rows ?M1) = length (mp_rows M)"
      using exec_fold_ok [OF assms(2)] length_set_status [OF assms(2) retry_statements [OF retry]] by simp_all
    have "bt_keys (pc_synced prepared) = bt_keys (bt_retain (\<lambda>p _. \<not> ignores prefs p) (mp_rows ?M1))"
      using resume_spec [OF bt_ok_retain [OF rows(1)] P(1)] P(2) assms(4) by simp
    then have "length (pc_synced prepared) = length (bt_retain (\<lambda>p _. \<not> ignores prefs p) (mp_rows ?M1))"
      by (metis length_map bt_keys_def)
    also have "\<dots> \<le> length (mp_rows ?M1)" unfolding bt_retain_def by (rule length_filter_le)
    finally have len: "length (pc_synced prepared) \<le> length (mp_rows M)" using rows(2) by simp
    have deletes: "2 * length (filter is_delete (pc_operations prepared)) \<le> length (pc_synced prepared)"
      using plan_bounded [OF P(3)] len assms(3) by simp
    let ?ops = "pc_operations (drop_settled_skips prepared)"
    have "length (filter is_delete ?ops) \<le> length (filter is_delete (pc_operations prepared))"
      unfolding drop_differs by (rule length_filter_filter)
    moreover obtain results esx where x: "execute (ce_root E) (map (\<lambda>operation. (ce_exec E operation, operation)) ?ops) = (results, esx)"
      by fastforce
    moreover have "length (filter is_removal esx) \<le> length (filter is_delete ?ops)"
      using execute_removals [of "ce_root E" "ce_exec E" ?ops] x by simp
    moreover have "\<exists>esf. filter is_removal esf = [] \<and> es1 = esx @ esf"
      using 3(2) x finish_effects by (fastforce simp: run_prepared_def Let_def split: prod.splits)
    ultimately have "length (filter is_removal es1) \<le> length (filter is_delete (pc_operations prepared))" by auto
    then show ?thesis using 3(3) none deletes len by simp
  qed (use none in simp_all)
qed

section \<open>A successful reconciliation\<close>

lemma run_statements_Ok:
  "run_statements fault now qs db = (Ok (), db') \<Longrightarrow> db' = fold (exec_statement now) qs db"
  by (induction fault now qs db rule: run_statements.induct) (auto split: option.splits)

lemma run_statements_no_fault:
  "run_statements (\<lambda>_. None) now qs db = (Ok (), fold (exec_statement now) qs db)"
  by (induction qs arbitrary: db) simp_all

lemma reconcile_executed:
  assumes "reconcile_pair prefs d E M = (Ok report, M', es)" and "cr_reason report = None"
  obtains remote scan prepared writes M1 es1 where
    "ce_remote E (mp_rows M) = Ok remote" "ce_scan E (mp_rows M) = Ok scan"
    "prepare_reconciliation prefs d scan (mp_rows M) remote = (Ok prepared, writes)"
    "mp_rows M1 = fold (exec_statement (ce_now E)) writes (mp_rows M)"
    "run_prepared E prepared M1 = (Ok report, M', es1)"
proof -
  obtain rc pending qs es0 where retry0: "retry_pending_cleanup (ce_cleanup E) (mp_pending M) = (rc, pending, qs, es0)"
    by (metis prod_cases4)
  let ?M1 = "\<lparr>mp_rows = fold (exec_statement (ce_now E)) [] (mp_rows M), mp_pending = pending\<rparr>"
  have acc: "ce_account E = Ok ()" "rc = Ok ()"
    using assms(1) retry0 by (auto simp: reconcile_pair_def Let_def split: sum.splits)
  then have retry: "retry_pending_cleanup (ce_cleanup E) (mp_pending M) = (Ok (), pending, [], es0)"
    using retry_Ok retry0 by blast
  obtain remote scan where gate: "ce_remote E (mp_rows M) = Ok remote"
      "ce_account_scanned E = Ok ()" "ce_scan E (mp_rows M) = Ok scan"
    using assms(1) retry acc by (auto simp: reconcile_pair_def Let_def split: sum.splits)
  obtain outcome writes where prep: "prepare_reconciliation prefs d scan (mp_rows M) remote = (outcome, writes)" by fastforce
  obtain r2 db where run: "run_statements (ce_prepare_fault E) (ce_now E) writes (mp_rows M) = (r2, db)" by fastforce
  have step: "(case run_statements (ce_prepare_fault E) (ce_now E) writes (mp_rows M) of
             (Inl e, db) \<Rightarrow> (Err e, ?M1\<lparr>mp_rows := db\<rparr>, es0)
           | (Inr _, db) \<Rightarrow>
             (case outcome of
                Inl e \<Rightarrow> (Err (show_sync_error e), ?M1\<lparr>mp_rows := db\<rparr>, es0)
              | Inr prepared \<Rightarrow>
                (case pause_reason prefs E prepared of
                   Some reason \<Rightarrow>
                     (Ok \<lparr>cr_pending = actionable_operations (pc_operations prepared),
                          cr_conflicts = pc_conflicts prepared, cr_reason = Some reason\<rparr>,
                      ?M1\<lparr>mp_rows := db\<rparr>, es0)
                 | None \<Rightarrow>
                   (case run_prepared E prepared (?M1\<lparr>mp_rows := db\<rparr>) of
                      (r', M', es') \<Rightarrow> (r', M', es0 @ es'))))) = (Ok report, M', es)"
    using assms(1) retry acc(1) gate prep by (simp add: reconcile_pair_def Let_def)
  obtain v where r2: "r2 = Inr v" using step run by (cases r2) auto
  obtain prepared where out: "outcome = Inr prepared" using step run r2 by (cases outcome) auto
  have "pause_reason prefs E prepared = None"
    using step run r2 out assms(2) by (cases "pause_reason prefs E prepared") auto
  then obtain es1 where "run_prepared E prepared (?M1\<lparr>mp_rows := db\<rparr>) = (Ok report, M', es1)"
    using step run r2 out by (auto split: prod.splits)
  moreover have "mp_rows (?M1\<lparr>mp_rows := db\<rparr>) = fold (exec_statement (ce_now E)) writes (mp_rows M)"
    using run_statements_Ok [of "ce_prepare_fault E" "ce_now E" writes "mp_rows M" db] run r2 by simp
  ultimately show ?thesis using gate(1,3) prep out
    by (intro that [of remote scan prepared writes "?M1\<lparr>mp_rows := db\<rparr>" es1]) simp_all
qed

lemma finish_executed:
  assumes "finish_cycle E prepared results M = (Ok report, M', es)"
  shows "mp_pending M' = [] \<and> report = \<lparr>cr_pending = length (failed_operations results), cr_conflicts = pc_conflicts prepared,
      cr_reason = (case failed_operations results of [] \<Rightarrow> None | x # _ \<Rightarrow> xr_detail x)\<rparr> \<and>
    mp_rows M' = fold (exec_statement (ce_now E)) (fst (journal_uploads (pc_local prepared) results) @
      record_results prepared results (ce_uploaded E (snd (journal_uploads (pc_local prepared) results)))) (mp_rows M)"
proof -
  let ?M1 = "M\<lparr>mp_pending := journal_cleanup (pc_remote prepared) results (mp_pending M)\<rparr>"
  obtain journal uploads where j: "journal_uploads (pc_local prepared) results = (journal, uploads)" by fastforce
  obtain r1 db where run1: "run_statements (ce_journal_fault E) (ce_now E) journal (mp_rows M) = (r1, db)" by fastforce
  obtain rc pending qs es0 where retry: "retry_pending_cleanup (ce_cleanup_after E) (mp_pending ?M1) = (rc, pending, qs, es0)"
    by (metis prod_cases4)
  have acc: "ce_account_executed E = Ok ()" using assms by (cases "ce_account_executed E") (auto simp: finish_cycle_def)
  have r1: "r1 = Ok ()" using assms acc j run1 by (cases r1) (auto simp: finish_cycle_def Let_def)
  have rc: "rc = Ok ()" "ce_account_cleaned E = Ok ()"
    using assms acc j run1 r1 retry by (auto simp: finish_cycle_def Let_def split: sum.splits)
  have clean: "pending = []" "qs = []" using retry_Ok retry rc(1) by blast+
  obtain r2 db2 where run2: "run_statements (ce_record_fault E) (ce_now E)
      (record_results prepared results (ce_uploaded E uploads)) db = (r2, db2)" by fastforce
  have r2: "r2 = Ok ()" using assms acc j run1 r1 retry rc clean run2
    by (cases r2) (auto simp: finish_cycle_def Let_def)
  have "M' = \<lparr>mp_rows = db2, mp_pending = []\<rparr>" "report = \<lparr>cr_pending = length (failed_operations results),
      cr_conflicts = pc_conflicts prepared, cr_reason = (case failed_operations results of [] \<Rightarrow> None | x # _ \<Rightarrow> xr_detail x)\<rparr>"
    using assms acc j run1 r1 retry rc clean run2 r2 by (simp_all add: finish_cycle_def Let_def)
  then show ?thesis using run_statements_Ok [OF run1 [unfolded r1]] run_statements_Ok [OF run2 [unfolded r2]] j by simp
qed

lemma set_journaled: "q \<in> set (journaled es) \<longleftrightarrow> Journaled q \<in> set es"
  by (induction es rule: journaled.induct) auto


lemma upload_journaled:
  assumes "upload_steps F root E p local = (r, m, es)" and "Journaled q \<in> set es"
  shows "\<exists>i. m = Some i \<and> q = journal_upload p local i"
  using assms
  by (auto simp: upload_steps_def discard_changed_def journal_and_rename_def act_def
      split: sum.splits prod.splits if_splits bool.splits)

definition executed_as :: "cycle_env \<Rightarrow> sync_operation \<Rightarrow> execution_result" where
  "executed_as E operation = execution_result_of operation (run_operation (ce_root E) (ce_exec E operation) operation)"

lemma operation_journaled:
  assumes "Journaled q \<in> set (snd (snd (snd (run_operation (ce_root E) (ce_exec E operation) operation))))"
  shows "\<exists>p local i. operation = OpUpload p local \<and> xr_message (executed_as E operation) = Some i \<and> q = journal_upload p local i"
proof (cases "ex_ready (ce_exec E operation)")
  case ready: (Inr u)
  show ?thesis
  proof (cases operation)
    case (OpUpload p local)
    obtain r m es where u: "upload_steps (ex_fs (ce_exec E operation)) (ce_root E) (ex_upload (ce_exec E operation)) p local = (r, m, es)"
      by (metis prod_cases3)
    then have "run_operation (ce_root E) (ce_exec E operation) operation = (r, m, None, es)"
      using ready OpUpload by (simp add: run_operation_def)
    then show ?thesis using assms upload_journaled [OF u, of q] OpUpload
      by (auto simp: executed_as_def execution_result_of_def)
  next
    case (OpDownload p remote keep_both expected)
    have down: "Journaled q \<notin> set es" if "download_steps E' destination expected' = (r, es)" for E' destination expected' r es
      using download_effects [OF that] by fastforce
    then show ?thesis using assms ready OpDownload
      by (fastforce simp: run_operation_def split: prod.splits sum.splits if_splits)
  qed (use assms ready in \<open>auto simp: run_operation_def sbind_def act_def split: sum.splits prod.splits\<close>)
qed (use assms in \<open>simp add: run_operation_def\<close>)

lemma dropped_fields [simp]:
  "pc_local (drop_settled_skips prepared) = pc_local prepared"
  "pc_remote (drop_settled_skips prepared) = pc_remote prepared"
  "pc_conflicts (drop_settled_skips prepared) = pc_conflicts prepared"
  "pc_synced (drop_settled_skips prepared) = pc_synced prepared"
  by (simp_all add: drop_settled_skips_def)

lemma record_results_dropped [simp]:
  "record_results (drop_settled_skips prepared) results uploaded = record_results prepared results uploaded"
proof -
  have "record_result (drop_settled_skips prepared) uploaded = record_result prepared uploaded"
    by (rule ext) (simp only: record_result_def dropped_fields)
  then show ?thesis by (simp add: record_results_def)
qed

lemma execute_results:
  "fst (execute (ce_root E) (map (\<lambda>operation. (ce_exec E operation, operation)) operations)) = map (executed_as E) operations"
  by (simp add: execute_def executed_as_def)

lemma executed_journal:
  assumes "q \<in> set (journaled (snd (execute (ce_root E) (map (\<lambda>operation. (ce_exec E operation, operation)) operations))))"
  shows "\<exists>p local i. OpUpload p local \<in> set operations \<and> xr_message (executed_as E (OpUpload p local)) = Some i \<and>
    q = journal_upload p local i"
proof -
  obtain operation where "operation \<in> set operations"
      "Journaled q \<in> set (snd (snd (snd (run_operation (ce_root E) (ce_exec E operation) operation))))"
    using assms by (auto simp: set_journaled execute_def)
  then show ?thesis using operation_journaled [of q E operation] by blast
qed

lemma planned_upload:
  assumes "prepare_reconciliation prefs d scan synced remote = (Ok prepared, writes)"
    and "OpUpload p local \<in> set (pc_operations (drop_settled_skips prepared))"
  shows "bt_get (pc_local prepared) p = Some local"
proof -
  have "pc_operations prepared = operations_for_policy (pc_local prepared) (pc_remote prepared) (pc_synced prepared) d
      (sp_propagate_deletions prefs)"
    by (rule prepare_OkE [OF assms(1)])
  then obtain q where "policy_at d (sp_propagate_deletions prefs) q (bt_get (pc_local prepared) q) (bt_get (pc_remote prepared) q)
      (bt_get (pc_synced prepared) q) = Some (OpUpload p local)"
    using assms(2) by (auto simp: drop_differs operations_at)
  from policy_at_shape [OF this] show ?thesis by simp
qed

lemma executed_fields [simp]:
  "xr_path (executed_as E operation) = op_path operation" "xr_action (executed_as E operation) = action_of operation"
  by (simp_all add: executed_as_def execution_result_of_def split: prod.splits)

lemma action_conflict: "action_of operation = ''conflict'' \<longleftrightarrow> is_conflict operation"
  by (cases operation) simp_all

lemma in_journal_uploads:
  assumes "OpUpload p local \<in> set operations" and "xr_message (executed_as E (OpUpload p local)) = Some i"
    and "xr_success (executed_as E (OpUpload p local))" and "bt_get l p = Some local"
  shows "journal_upload p local i \<in> set (fst (journal_uploads l (map (executed_as E) operations)))"
proof -
  have "xr_path (executed_as E (OpUpload p local)) = p" "xr_action (executed_as E (OpUpload p local)) = ''upload''"
    by (simp_all add: executed_as_def execution_result_of_def split: prod.splits)
  then show ?thesis using assms
    by (force simp: journal_uploads_def Let_def List.map_filter_def image_iff intro!: bexI [of _ "OpUpload p local"])
qed

section \<open>The next reconciliation\<close>

text \<open>The executed cycle leaves the trees its operations made.\<close>

definition cycle_leaves ::
  "sync_preferences \<Rightarrow> cycle_env \<Rightarrow> prepared_cycle \<Rightarrow> file_tree \<Rightarrow> file_tree \<Rightarrow> bool" where
  "cycle_leaves prefs E prepared local' remote' \<longleftrightarrow>
     (let operations = pc_operations (drop_settled_skips prepared);
          uploaded = ce_uploaded E (snd (journal_uploads (pc_local prepared) (map (executed_as E) operations))) in
      \<forall>p. \<not> ignores prefs p \<longrightarrow> (case performed operations p of
        None \<Rightarrow> same_copy (bt_get (pc_local prepared) p) (bt_get local' p) \<and>
          same_copy (bt_get (pc_remote prepared) p) (bt_get remote' p)
      | Some operation \<Rightarrow> world_after uploaded (executed_as E operation) operation (bt_get (pc_local prepared) p)
          (bt_get (pc_remote prepared) p) (bt_get local' p) (bt_get remote' p)))"

text \<open>An environment in which nothing fails before and after the operations.\<close>

definition undisturbed :: "cycle_env \<Rightarrow> bool" where
  "undisturbed E \<longleftrightarrow> ce_account E = Ok () \<and> ce_account_scanned E = Ok () \<and> ce_account_executed E = Ok () \<and>
     ce_account_cleaned E = Ok () \<and> ce_prepare_fault E = (\<lambda>_. None) \<and> ce_journal_fault E = (\<lambda>_. None) \<and>
     ce_record_fault E = (\<lambda>_. None)"

lemma idle_reconciliation:
  assumes "undisturbed E" and "ce_remote E (mp_rows M) = Ok remote" and "ce_scan E (mp_rows M) = Ok scan"
    and "mp_pending M = []"
    and "prepare_reconciliation prefs d scan (mp_rows M) remote = (Ok next, writes)"
    and "pc_conflicts next = 0" and "pc_operations (drop_settled_skips next) = []"
  shows "\<exists>M'. reconcile_pair prefs d E M = (Ok \<lparr>cr_pending = 0, cr_conflicts = 0, cr_reason = None\<rparr>, M', [])"
proof -
  have "\<not> is_upload operation" if "operation \<in> set (pc_operations next)" for operation
    using assms(7) that by (cases operation) (auto simp: drop_differs filter_empty_conv is_upload_def)
  then have "pause_reason prefs E next = None" using assms(6) by (simp add: pause_reason_def list_ex_iff)
  moreover have "execute (ce_root E) [] = ([], [])" by (simp add: execute_def)
  moreover have "journal_uploads l [] = ([], [])" "record_results p [] uploaded = []" "journal_cleanup r [] pending = pending"
      for l p uploaded r pending
    by (simp_all add: journal_uploads_def record_results_def journal_cleanup_def List.map_filter_def)
  ultimately show ?thesis using assms
    by (simp add: reconcile_pair_def undisturbed_def run_statements_no_fault run_prepared_def finish_cycle_def
        failed_operations_def Let_def)
qed

text \<open>C22: take a reconciliation, over ordered maps, that reports no conflict and nothing pending and kept no second
  copy for a conflict the user answered with \<open>keep_both\<close> (that copy is a new file for the next one to upload).
  Whatever its statements recorded on the way, the next reconciliation succeeds without any effect and
  again reports nothing pending, if nothing disturbs it and its two scans find the trees the operations left.\<close>

theorem successful_reconciliation_settles:
  assumes "reconcile_pair prefs d E M = (Ok \<lparr>cr_pending = 0, cr_conflicts = 0, cr_reason = None\<rparr>, M', es)"
    and "ce_remote E (mp_rows M) = Ok remote" and "ce_scan E (mp_rows M) = Ok scan"
    and "prepare_reconciliation prefs d scan (mp_rows M) remote = (Ok prepared, writes)"
    and "bt_ok (mp_rows M)" and "bt_ok (ls_tree scan)"
    and "\<forall>operation\<in>set (pc_operations prepared). \<not> keeps_both operation"
    and "undisturbed E'" and "ce_remote E' (mp_rows M') = Ok remote'" and "ce_scan E' (mp_rows M') = Ok scan'"
    and "bt_ok (ls_tree scan')" and "bt_ok remote'" and "cycle_leaves prefs E prepared (ls_tree scan') remote'"
  shows "\<exists>M''. reconcile_pair prefs d E' M' = (Ok \<lparr>cr_pending = 0, cr_conflicts = 0, cr_reason = None\<rparr>, M'', [])"
proof -
  let ?ops = "pc_operations (drop_settled_skips prepared)"
  let ?x = "execute (ce_root E) (map (\<lambda>operation. (ce_exec E operation, operation)) ?ops)"
  let ?uploaded = "ce_uploaded E (snd (journal_uploads (pc_local prepared) (map (executed_as E) ?ops)))"
  obtain M1 es1 where M1: "mp_rows M1 = fold (exec_statement (ce_now E)) writes (mp_rows M)"
      "run_prepared E prepared M1 = (Ok \<lparr>cr_pending = 0, cr_conflicts = 0, cr_reason = None\<rparr>, M', es1)"
    by (rule reconcile_executed [OF assms(1)]) (use assms(2-4) in auto)
  obtain es2 where fin: "finish_cycle E (drop_settled_skips prepared) (map (executed_as E) ?ops)
      (M1\<lparr>mp_rows := fold (exec_statement (ce_now E)) (journaled (snd ?x)) (mp_rows M1)\<rparr>) =
        (Ok \<lparr>cr_pending = 0, cr_conflicts = 0, cr_reason = None\<rparr>, M', es2)"
    using M1(2) execute_results [of E ?ops] by (cases ?x) (auto simp: run_prepared_def Let_def split: prod.splits)
  note F = finish_executed [OF fin, simplified]
  have calm: "pc_conflicts prepared = 0" "failed_operations (map (executed_as E) ?ops) = []" using F by auto
  have "\<forall>operation\<in>set ?ops. \<not> is_conflict operation"
  proof -
    have "pc_conflicts prepared = length (filter is_conflict (pc_operations prepared))" by (rule prepare_OkE [OF assms(4)])
    then show ?thesis using calm(1) by (auto simp: drop_differs filter_empty_conv)
  qed
  then have done_all: "\<forall>operation\<in>set ?ops. succeeded (executed_as E) operation"
    using calm(2) by (auto simp: succeeded_def failed_operations_def filter_empty_conv executed_fields action_conflict)
  have "set (journaled (snd ?x)) \<subseteq> set (fst (journal_uploads (pc_local prepared) (map (executed_as E) ?ops)))"
  proof
    fix q
    assume "q \<in> set (journaled (snd ?x))"
    then obtain p local i where q: "OpUpload p local \<in> set ?ops" "xr_message (executed_as E (OpUpload p local)) = Some i"
        "q = journal_upload p local i"
      using executed_journal by blast
    then show "q \<in> set (fst (journal_uploads (pc_local prepared) (map (executed_as E) ?ops)))"
      using in_journal_uploads planned_upload [OF assms(4)] done_all by (simp add: succeeded_def)
  qed
  moreover have "mp_rows M' = fold (exec_statement (ce_now E))
      (writes @ recording (executed_as E) ?uploaded prepared ?ops (journaled (snd ?x))) (mp_rows M)"
    using F M1(1) by (simp add: recording_def)
  ultimately obtain "next" writes' where "prepare_reconciliation prefs d scan' (mp_rows M') remote' = (Ok next, writes')"
      "pc_conflicts next = 0" "pc_operations (drop_settled_skips next) = []"
    using successful_cycle_settles [OF assms(5,6,4) calm(1) assms(7) done_all _ _ assms(11,12)] assms(13)
    unfolding cycle_leaves_def Let_def by blast
  then show ?thesis using idle_reconciliation [OF assms(8-10)] F by blast
qed

section \<open>A concrete reconciliation\<close>

definition found_item :: cleanup_view where
  "found_item = \<lparr>cv_account = Ok (), cv_messages = Ok (), cv_old_exists = True, cv_old_fingerprint = Some ''r'',
     cv_new_exists = True, cv_account_delete = Ok (), cv_delete = Ok (), cv_status = Ok (), cv_account_after = Ok ()\<rparr>"

definition replaced_item :: pending_cleanup where
  "replaced_item = \<lparr>pn_path = us ''a'', pn_old = 7, pn_new = 9, pn_old_hash = Some ''r''\<rparr>"

text \<open>A mapping with nothing recorded; the folder holds a new file, the channel is empty.\<close>

definition quiet_env :: cycle_env where
  "quiet_env = \<lparr>ce_account = Ok (), ce_cleanup = (\<lambda>_. found_item), ce_remote = (\<lambda>_. Ok []), ce_account_scanned = Ok (),
     ce_scan = (\<lambda>_. Ok new_scan), ce_prepare_fault = (\<lambda>_. None), ce_protection = Ok (), ce_root = [us ''m''],
     ce_exec = (\<lambda>_. demo_env), ce_account_executed = Ok (), ce_journal_fault = (\<lambda>_. None),
     ce_cleanup_after = (\<lambda>_. found_item), ce_account_cleaned = Ok (), ce_uploaded = (\<lambda>_. [(us ''a'', sent_file)]),
     ce_record_fault = (\<lambda>_. None), ce_now = 80\<rparr>"

definition new_mapping :: mapping where
  "new_mapping = \<lparr>mp_rows = [], mp_pending = []\<rparr>"

lemma demo_sent:
  "run_operation [us ''m''] demo_env (OpUpload (us ''a'') new_file) =
     (Ok (), Some 9, None, [SentFile 9, Journaled (journal_upload (us ''a'') new_file 9), RenamedMessage 9 (us ''a'')])"
proof -
  have "upload_steps plain_disk [us ''m''] demo_upload (us ''a'') new_file =
      (Ok (), Some 9, [SentFile 9, Journaled (journal_upload (us ''a'') new_file 9), RenamedMessage 9 (us ''a'')])"
    by (simp add: upload_steps_def demo_upload_def new_file_def demo_path validate_upload_size_def
        TELEGRAM_MAX_FILE_BYTES_def journal_and_rename_def)
  then show ?thesis by (simp add: run_operation_def demo_env_def)
qed

theorem cleanup_deletes_only_replaced_witness:
  "retry_pending_cleanup (\<lambda>_. found_item) [replaced_item] = (Ok (), [], [], [DeletedMessage 7]) \<and>
   cv_old_fingerprint found_item = pn_old_hash replaced_item"
proof -
  have r: "retry_pending_cleanup (\<lambda>_. found_item) [replaced_item] = (Ok (), [], [], [DeletedMessage 7])"
    by (simp add: cleanup_item_def old_unchanged_def found_item_def replaced_item_def)
  then show ?thesis using cleanup_deletes_only_replaced [OF r] by simp
qed

lemma demo_reconciled:
  "\<exists>M'. reconcile_pair keep_all ''two_way'' quiet_env new_mapping =
     (Ok \<lparr>cr_pending = 0, cr_conflicts = 0, cr_reason = None\<rparr>, M',
      [SentFile 9, Journaled (journal_upload (us ''a'') new_file 9), RenamedMessage 9 (us ''a'')])"
proof -
  have "pause_reason keep_all quiet_env first_cycle = None"
    by (simp add: pause_reason_def first_fields quiet_env_def)
  moreover have "\<exists>M'. run_prepared quiet_env first_cycle new_mapping =
     (Ok \<lparr>cr_pending = 0, cr_conflicts = 0, cr_reason = None\<rparr>, M',
      [SentFile 9, Journaled (journal_upload (us ''a'') new_file 9), RenamedMessage 9 (us ''a'')])"
    by (simp add: run_prepared_def first_operations execute_def quiet_env_def demo_sent finish_cycle_def execution_result_of_def
        journal_cleanup_def first_fields new_mapping_def run_statements_no_fault failed_operations_def Let_def
        split: prod.splits)
  ultimately show ?thesis
    by (auto simp: reconcile_pair_def quiet_env_def new_mapping_def first_cycle Let_def)
qed

theorem reconcile_removes_at_most_half_witness:
  "\<exists>es. snd (snd (reconcile_pair keep_all ''two_way'' quiet_env new_mapping)) = es \<and> 2 * length (filter is_removal es) \<le> 0"
proof -
  obtain M' es where r: "reconcile_pair keep_all ''two_way'' quiet_env new_mapping =
      (Ok \<lparr>cr_pending = 0, cr_conflicts = 0, cr_reason = None\<rparr>, M', es)" using demo_reconciled by blast
  then show ?thesis using reconcile_removes_at_most_half [OF r]
    by (simp add: new_mapping_def keep_all_def)
qed

theorem successful_reconciliation_settles_witness:
  "\<exists>M' M''. snd (reconcile_pair keep_all ''two_way'' quiet_env new_mapping) =
       (M', [SentFile 9, Journaled (journal_upload (us ''a'') new_file 9), RenamedMessage 9 (us ''a'')]) \<and>
     reconcile_pair keep_all ''two_way'' (quiet_env\<lparr>ce_remote := \<lambda>_. Ok [(us ''a'', sent_file)]\<rparr>) M' =
       (Ok \<lparr>cr_pending = 0, cr_conflicts = 0, cr_reason = None\<rparr>, M'', [])"
proof -
  obtain M' where r: "reconcile_pair keep_all ''two_way'' quiet_env new_mapping =
      (Ok \<lparr>cr_pending = 0, cr_conflicts = 0, cr_reason = None\<rparr>, M',
       [SentFile 9, Journaled (journal_upload (us ''a'') new_file 9), RenamedMessage 9 (us ''a'')])"
    using demo_reconciled by blast
  have sent: "xr_message (executed_as quiet_env (OpUpload (us ''a'') new_file)) = Some 9"
    by (simp add: executed_as_def quiet_env_def demo_sent execution_result_of_def)
  have "cycle_leaves keep_all quiet_env first_cycle (ls_tree new_scan) [(us ''a'', sent_file)]"
    unfolding cycle_leaves_def first_operations Let_def first_fields
    using sent by (simp add: performed_def world_after_def new_scan_def new_file_def sent_file_def quiet_env_def)
  moreover have tree: "bt_ok (ls_tree new_scan)" by (simp add: new_scan_def)
  ultimately have "\<exists>M''. reconcile_pair keep_all ''two_way'' (quiet_env\<lparr>ce_remote := \<lambda>_. Ok [(us ''a'', sent_file)]\<rparr>) M' =
       (Ok \<lparr>cr_pending = 0, cr_conflicts = 0, cr_reason = None\<rparr>, M'', [])"
    by (intro successful_reconciliation_settles [OF r, where remote = "[]" and scan = new_scan and prepared = first_cycle
          and writes = "[]" and scan' = new_scan and remote' = "[(us ''a'', sent_file)]"])
       (use tree first_fields in \<open>simp_all add: first_cycle undisturbed_def quiet_env_def new_mapping_def\<close>)
  then show ?thesis using r by auto
qed

end
