(* ===== verification/Part_Upload.thy ===== *)
theory Part_Upload
  imports Ordered_Map "HOL-Library.Signed_Division"
begin

text \<open>
  Uploads that continue where they stopped (\<open>resumable_upload.rs\<close>): the record of confirmed parts, the
  decision whether it is still worth continuing, and one attempt at an upload with up to four parts on
  their way at once. \<open>i32\<close> and \<open>i64\<close> are integers with the overflow written out; SHA-256 (in hex) is
  a parameter. An attempt is driven by the outcomes of its parts in the order they arrive; when they
  run out while parts are still on their way, the attempt was cut off there.
\<close>

section \<open>Records\<close>

definition PART_BYTES :: nat where "PART_BYTES = 512 * 1024"
definition WORKERS :: nat where "WORKERS = 4"
definition SESSION_MAX_AGE_SECS :: int where "SESSION_MAX_AGE_SECS = 12 * 60 * 60"
definition RACY_SOURCE_WINDOW_SECS :: int where "RACY_SOURCE_WINDOW_SECS = 2"

record source_fingerprint =
  sf_bytes :: u64
  sf_modified_ns :: "int option"

record upload_session =
  us_file_id :: int
  us_total_bytes :: u64
  us_total_parts :: int
  us_completed_parts :: int
  us_prefix_sha256 :: string
  us_source :: source_fingerprint
  us_remote_name :: string
  us_envelope_header :: "string option"
  us_created_at :: int
  us_updated_at :: int

text \<open>What a call of the account's store answers: refused before it changed anything, done, or done with the
  account no longer valid afterwards.\<close>

datatype store_outcome = Refused string | Performed | PerformedThen string

fun store_call :: "store_outcome \<Rightarrow> 's \<Rightarrow> 's \<Rightarrow> 'a \<Rightarrow> (string + 'a) \<times> 's" where
  "store_call (Refused e) old new v = (Err e, old)"
| "store_call Performed old new v = (Ok v, new)"
| "store_call (PerformedThen e) old new v = (Err e, new)"

definition wrap_i64 :: "int \<Rightarrow> int" where
  "wrap_i64 x = (x + 2 ^ 63) mod 2 ^ 64 - 2 ^ 63"

definition settled_source :: "upload_session \<Rightarrow> bool" where
  "settled_source session =
     (case sf_modified_ns (us_source session) of
        None \<Rightarrow> False
      | Some modified_ns \<Rightarrow>
          RACY_SOURCE_WINDOW_SECS \<le> wrap_i64 (us_created_at session - modified_ns sdiv 1000000000))"

definition usable_session :: "source_fingerprint \<Rightarrow> int \<Rightarrow> upload_session \<Rightarrow> bool" where
  "usable_session source now session \<longleftrightarrow>
     us_source session = source \<and> settled_source session \<and>
     (let age = wrap_i64 (now - us_created_at session) in 0 \<le> age \<and> age \<le> SESSION_MAX_AGE_SECS) \<and>
     0 < us_total_parts session \<and>
     0 \<le> us_completed_parts session \<and> us_completed_parts session \<le> us_total_parts session"

definition find_session ::
  "source_fingerprint \<Rightarrow> int \<Rightarrow> store_outcome \<Rightarrow> upload_session option \<Rightarrow>
   (string + upload_session option) \<times> upload_session option" where
  "find_session source now outcome recorded =
     (case recorded of
        None \<Rightarrow> store_call outcome None None None
      | Some session \<Rightarrow>
          if usable_session source now session then store_call outcome recorded recorded (Some session)
          else store_call outcome recorded None None)"

definition discard_session :: "store_outcome \<Rightarrow> upload_session option \<Rightarrow> (string + unit) \<times> upload_session option" where
  "discard_session outcome recorded = store_call outcome recorded None ()"

definition save_session ::
  "int \<Rightarrow> store_outcome \<Rightarrow> upload_session \<Rightarrow> upload_session option \<Rightarrow> (string + unit) \<times> upload_session option" where
  "save_session now outcome session recorded =
     store_call outcome recorded (Some (session\<lparr>us_updated_at := now\<rparr>)) ()"

section \<open>Parts of the stream\<close>

text \<open>A stream is the bytes it still yields and the error in which it ends, none being the end of file.\<close>

type_synonym part_stream = "bytes \<times> string option"

definition part_length :: "int \<Rightarrow> int \<Rightarrow> u64 \<Rightarrow> nat" where
  "part_length part total_parts total_bytes =
     (if part + 1 < total_parts then PART_BYTES
      else unat (total_bytes - (of_int total_parts - 1) * of_nat PART_BYTES))"

fun read_part :: "part_stream \<Rightarrow> int \<Rightarrow> int \<Rightarrow> u64 \<Rightarrow> (string + bytes) \<times> part_stream" where
  "read_part (data, fault) part total_parts total_bytes =
     (let n = part_length part total_parts total_bytes in
      if n \<le> length data then (Ok (take n data), drop n data, fault)
      else (Err (case fault of None \<Rightarrow> ''The source ended before the upload was complete'' | Some e \<Rightarrow> e), [], fault))"

text \<open>The parts \<open>part..<part + n\<close> again, in order.\<close>

fun read_prefix :: "part_stream \<Rightarrow> int \<Rightarrow> nat \<Rightarrow> int \<Rightarrow> u64 \<Rightarrow> (string + bytes) \<times> part_stream" where
  "read_prefix stream part 0 total_parts total_bytes = (Ok [], stream)"
| "read_prefix stream part (Suc n) total_parts total_bytes =
     (case read_part stream part total_parts total_bytes of
        (Inl e, stream') \<Rightarrow> (Err e, stream')
      | (Inr bs, stream') \<Rightarrow>
          (case read_prefix stream' (part + 1) n total_parts total_bytes of
             (r, stream'') \<Rightarrow> (map_sum id (\<lambda>rest. bs @ rest) r, stream'')))"

section \<open>An attempt begins\<close>

datatype upload_error = Stale string | Failed string

definition failed :: "string + 'a \<Rightarrow> upload_error + 'a" where
  "failed r = map_sum Failed id r"

text \<open>What an attempt is asked to do, and the answers of the clock, the store and the random generator.\<close>

record upload_task =
  ut_source :: source_fingerprint
  ut_total_bytes :: u64
  ut_remote_name :: string
  ut_envelope_header :: "string option"

record upload_begin =
  ub_now :: int
  ub_lookup :: store_outcome
  ub_created :: int
  ub_forget :: store_outcome
  ub_file_id :: int
  ub_stale :: store_outcome
  ub_save :: store_outcome
  ub_saved_at :: int

definition parts_of :: "u64 \<Rightarrow> string + int" where
  "parts_of total_bytes =
     (let n = int (unat (div_ceil_u64 total_bytes (of_nat PART_BYTES))) in
      if n < 2 ^ 31 then Ok n else Err ''The file has too many parts'')"

definition fresh_session :: "(bytes \<Rightarrow> string) \<Rightarrow> upload_task \<Rightarrow> upload_begin \<Rightarrow> int \<Rightarrow> upload_session" where
  "fresh_session sha task B total_parts =
     \<lparr>us_file_id = ub_file_id B, us_total_bytes = ut_total_bytes task, us_total_parts = total_parts,
      us_completed_parts = 0, us_prefix_sha256 = sha [], us_source = ut_source task,
      us_remote_name = ut_remote_name task, us_envelope_header = ut_envelope_header task,
      us_created_at = ub_created B, us_updated_at = ub_created B\<rparr>"

definition same_upload :: "upload_task \<Rightarrow> int \<Rightarrow> upload_session \<Rightarrow> bool" where
  "same_upload task total_parts session \<longleftrightarrow>
     us_total_bytes session = ut_total_bytes task \<and> us_total_parts session = total_parts \<and>
     us_remote_name session = ut_remote_name task \<and> us_envelope_header session = ut_envelope_header task"

text \<open>The session to continue: the recorded one if it is for the same upload, a new one otherwise.\<close>

definition choose_session ::
  "(bytes \<Rightarrow> string) \<Rightarrow> upload_task \<Rightarrow> upload_begin \<Rightarrow> int \<Rightarrow> upload_session option \<Rightarrow>
   (string + upload_session) \<times> upload_session option" where
  "choose_session sha task B total_parts recorded =
     (case find_session (ut_source task) (ub_now B) (ub_lookup B) recorded of
        (Inl e, recorded') \<Rightarrow> (Err e, recorded')
      | (Inr None, recorded') \<Rightarrow> (Ok (fresh_session sha task B total_parts), recorded')
      | (Inr (Some session), recorded') \<Rightarrow>
          if same_upload task total_parts session then (Ok session, recorded')
          else
            (case discard_session (ub_forget B) recorded' of
               (Inl e, recorded'') \<Rightarrow> (Err e, recorded'')
             | (Inr _, recorded'') \<Rightarrow> (Ok (fresh_session sha task B total_parts), recorded'')))"

record part_run =
  pr_session :: upload_session
  pr_resumed :: int
  pr_stream :: part_stream
  pr_next :: int
  pr_sent :: bytes
  pr_flight :: "(int \<times> bytes) list"
  pr_digests :: "(int, string) btree"
  pr_confirmed :: "(int, unit) btree"
  pr_failure :: "string option"

definition begin_upload ::
  "(bytes \<Rightarrow> string) \<Rightarrow> upload_task \<Rightarrow> upload_begin \<Rightarrow> part_stream \<Rightarrow> upload_session option \<Rightarrow>
   (upload_error + part_run) \<times> upload_session option" where
  "begin_upload sha task B stream recorded =
     (if ut_total_bytes task = 0 then (Err (Failed ''An empty file has no parts''), recorded)
      else case parts_of (ut_total_bytes task) of Inl e \<Rightarrow> (Err (Failed e), recorded) | Inr total_parts \<Rightarrow>
      case choose_session sha task B total_parts recorded of
        (Inl e, recorded1) \<Rightarrow> (Err (Failed e), recorded1)
      | (Inr session, recorded1) \<Rightarrow>
        (let resumed = us_completed_parts session in
         case read_prefix stream 0 (nat resumed) total_parts (ut_total_bytes task) of
           (Inl e, _) \<Rightarrow> (Err (Failed e), recorded1)
         | (Inr sent, stream1) \<Rightarrow>
             if 0 < resumed \<and> sha sent \<noteq> us_prefix_sha256 session
             then (case discard_session (ub_stale B) recorded1 of
                     (Inl e, recorded2) \<Rightarrow> (Err (Failed e), recorded2)
                   | (Inr _, recorded2) \<Rightarrow>
                       (Err (Stale ''The source no longer matches the part of it that was already uploaded''), recorded2))
             else
               (case save_session (ub_saved_at B) (ub_save B) session recorded1 of
                  (Inl e, recorded2) \<Rightarrow> (Err (Failed e), recorded2)
                | (Inr _, recorded2) \<Rightarrow>
                    (Ok \<lparr>pr_session = session, pr_resumed = resumed, pr_stream = stream1, pr_next = resumed,
                         pr_sent = sent, pr_flight = [], pr_digests = [], pr_confirmed = [], pr_failure = None\<rparr>,
                     recorded2))))"

section \<open>Parts on their way\<close>

text \<open>Reading one more part and sending it.\<close>

definition may_read :: "part_run \<Rightarrow> bool" where
  "may_read run \<longleftrightarrow>
     pr_failure run = None \<and> length (pr_flight run) < WORKERS \<and> pr_next run < us_total_parts (pr_session run)"

definition send_next :: "(bytes \<Rightarrow> string) \<Rightarrow> part_run \<Rightarrow> part_run" where
  "send_next sha run =
     (case read_part (pr_stream run) (pr_next run) (us_total_parts (pr_session run)) (us_total_bytes (pr_session run)) of
        (Inl e, stream) \<Rightarrow> run\<lparr>pr_stream := stream, pr_failure := Some e\<rparr>
      | (Inr bs, stream) \<Rightarrow>
          run\<lparr>pr_stream := stream, pr_sent := pr_sent run @ bs,
              pr_digests := bt_insert (pr_next run) (sha (pr_sent run @ bs)) (pr_digests run),
              pr_flight := pr_flight run @ [(pr_next run, bs)], pr_next := pr_next run + 1\<rparr>)"

function fill_flight :: "(bytes \<Rightarrow> string) \<Rightarrow> part_run \<Rightarrow> part_run" where
  "fill_flight sha run = (if may_read run then fill_flight sha (send_next sha run) else run)"
  by auto
termination
  by (relation "measure (\<lambda>(_, run). (WORKERS - length (pr_flight run)) + (if pr_failure run = None then 1 else 0))")
     (auto simp: may_read_def send_next_def split: prod.splits sum.splits)

declare fill_flight.simps [simp del]

text \<open>The confirmed prefix grows over every confirmed part that follows it.\<close>

definition take_confirmed :: "part_run \<Rightarrow> part_run" where
  "take_confirmed run =
     (let session = pr_session run; part = us_completed_parts session in
      run\<lparr>pr_confirmed := bt_remove part (pr_confirmed run), pr_digests := bt_remove part (pr_digests run),
          pr_session := session\<lparr>us_completed_parts := part + 1,
            us_prefix_sha256 := (case bt_get (pr_digests run) part of None \<Rightarrow> us_prefix_sha256 session | Some d \<Rightarrow> d)\<rparr>\<rparr>)"

lemma length_bt_remove: "bt_contains m k \<Longrightarrow> length (bt_remove k m) < length m"
  by (induction m) (auto simp: bt_contains_iff bt_remove_def intro: le_imp_less_Suc)

function advance :: "part_run \<Rightarrow> part_run" where
  "advance run =
     (if bt_contains (pr_confirmed run) (us_completed_parts (pr_session run)) then advance (take_confirmed run) else run)"
  by auto
termination
  by (relation "measure (\<lambda>run. length (pr_confirmed run))") (auto simp: take_confirmed_def length_bt_remove Let_def)

declare advance.simps [simp del]

text \<open>The outcome of a part: confirmed, perhaps with a checkpoint of the record and its time, or rejected;
  a rejected part may or may not have been stored.\<close>

datatype part_outcome =
    Confirmed int "(int \<times> store_outcome) option"
  | Rejected int string bool

fun outcome_part :: "part_outcome \<Rightarrow> int" where
  "outcome_part (Confirmed part checkpoint) = part"
| "outcome_part (Rejected part e stored) = part"

type_synonym part_store = "int \<times> int \<Rightarrow> bytes option"

text \<open>The run, the record and what Telegram has stored, after an outcome of a part on its way.\<close>

definition landed :: "int \<Rightarrow> part_run \<Rightarrow> part_run" where
  "landed part run = run\<lparr>pr_flight := filter (\<lambda>x. fst x \<noteq> part) (pr_flight run)\<rparr>"

definition store_part :: "part_run \<Rightarrow> int \<Rightarrow> part_store \<Rightarrow> part_store" where
  "store_part run part server =
     (case map_of (pr_flight run) part of
        None \<Rightarrow> server
      | Some bs \<Rightarrow> server((us_file_id (pr_session run), part) := Some bs))"

fun handle_outcome ::
  "part_outcome \<Rightarrow> part_run \<Rightarrow> upload_session option \<Rightarrow> part_store \<Rightarrow>
   (string + part_run) \<times> upload_session option \<times> part_store" where
  "handle_outcome (Confirmed part checkpoint) run recorded server =
     (let run1 = landed part run;
          run2 = advance (run1\<lparr>pr_confirmed := bt_insert part () (pr_confirmed run1)\<rparr>) in
      case checkpoint of
        None \<Rightarrow> (Ok run2, recorded, store_part run part server)
      | Some (now, outcome) \<Rightarrow>
          (case save_session now outcome (pr_session run2) recorded of
             (r, recorded') \<Rightarrow> (map_sum id (\<lambda>_. run2) r, recorded', store_part run part server)))"
| "handle_outcome (Rejected part e stored) run recorded server =
     (Ok ((landed part run)\<lparr>pr_failure := (case pr_failure run of None \<Rightarrow> Some e | Some first \<Rightarrow> Some first)\<rparr>),
      recorded, if stored then store_part run part server else server)"

record uploaded_parts =
  up_file_id :: int
  up_total_parts :: int
  up_name :: string
  up_resumed_parts :: int

text \<open>How the loop ends: cut off before the next outcome, at an outcome of a part that is not on its way (which
  the runtime never delivers), by a checkpoint that failed, or with nothing left on its way. The parts that were on their way when an attempt
  was cut off may still have been stored.\<close>

definition lost_parts :: "(int \<Rightarrow> bool) \<Rightarrow> part_run \<Rightarrow> part_store \<Rightarrow> part_store" where
  "lost_parts stored run server = fold (\<lambda>(part, _). if stored part then store_part run part else id) (pr_flight run) server"

datatype loop_end =
    CutOff
  | Stray
  | Aborted string
  | Emptied part_run

fun upload_loop ::
  "(bytes \<Rightarrow> string) \<Rightarrow> (int \<Rightarrow> bool) \<Rightarrow> part_outcome list \<Rightarrow> part_run \<Rightarrow> upload_session option \<Rightarrow> part_store \<Rightarrow>
   loop_end \<times> upload_session option \<times> part_store" where
  "upload_loop sha stored outcomes run recorded server =
     (let run1 = fill_flight sha run in
      if pr_flight run1 = [] then (Emptied run1, recorded, server)
      else case outcomes of
        [] \<Rightarrow> (CutOff, recorded, lost_parts stored run1 server)
      | outcome # rest \<Rightarrow>
          if map_of (pr_flight run1) (outcome_part outcome) = None
          then (Stray, recorded, lost_parts stored run1 server)
          else
            (case handle_outcome outcome run1 recorded server of
               (Inl e, recorded', server') \<Rightarrow> (Aborted e, recorded', lost_parts stored (landed (outcome_part outcome) run1) server')
             | (Inr run2, recorded', server') \<Rightarrow> upload_loop sha stored rest run2 recorded' server'))"

declare upload_loop.simps [simp del]

definition finish_upload ::
  "int \<Rightarrow> store_outcome \<Rightarrow> string \<Rightarrow> part_run \<Rightarrow> upload_session option \<Rightarrow>
   (upload_error + uploaded_parts) \<times> upload_session option" where
  "finish_upload now outcome remote_name run recorded =
     (case save_session now outcome (pr_session run) recorded of
        (Inl e, recorded') \<Rightarrow> (Err (Failed e), recorded')
      | (Inr _, recorded') \<Rightarrow>
          (case pr_failure run of
             Some e \<Rightarrow> Err (Failed e)
           | None \<Rightarrow> Ok \<lparr>up_file_id = us_file_id (pr_session run), up_total_parts = us_total_parts (pr_session run),
                         up_name = (if remote_name = [] then ''a'' else remote_name), up_resumed_parts = pr_resumed run\<rparr>,
           recorded'))"

text \<open>One attempt. Without a result it was cut off.\<close>

record attempt_env =
  ae_begin :: upload_begin
  ae_stream :: part_stream
  ae_outcomes :: "part_outcome list"
  ae_stored :: "int \<Rightarrow> bool"
  ae_end :: store_outcome
  ae_end_at :: int

definition upload_attempt ::
  "(bytes \<Rightarrow> string) \<Rightarrow> upload_task \<Rightarrow> attempt_env \<Rightarrow> upload_session option \<Rightarrow> part_store \<Rightarrow>
   (upload_error + uploaded_parts) option \<times> upload_session option \<times> part_store" where
  "upload_attempt sha task E recorded server =
     (case begin_upload sha task (ae_begin E) (ae_stream E) recorded of
        (Inl e, recorded1) \<Rightarrow> (Some (Err e), recorded1, server)
      | (Inr run, recorded1) \<Rightarrow>
          (case upload_loop sha (ae_stored E) (ae_outcomes E) run recorded1 server of
             (CutOff, recorded2, server2) \<Rightarrow> (None, recorded2, server2)
           | (Stray, recorded2, server2) \<Rightarrow> (None, recorded2, server2)
           | (Aborted e, recorded2, server2) \<Rightarrow> (Some (Err (Failed e)), recorded2, server2)
           | (Emptied run', recorded2, server2) \<Rightarrow>
               (case finish_upload (ae_end_at E) (ae_end E) (ut_remote_name task) run' recorded2 of
                  (r, recorded3) \<Rightarrow> (Some r, recorded3, server2))))"

end
