(* ===== verification/Part_Progress.thy ===== *)
theory Part_Progress
  imports Part_Upload Crypto_Policy
begin

text \<open>
  The invariant of an upload attempt: the pieces of its stream, what was read, what is on its way,
  what was confirmed beyond the prefix and what Telegram stores, kept by reading a part, by every
  outcome and by the loop, together with the record, which is an earlier snapshot of the session.
\<close>

section \<open>Pieces of a stream\<close>

lemma map_sum_Ok: "map_sum f g x = Ok y \<longleftrightarrow> (\<exists>v. x = Ok v \<and> y = g v)"
  by (cases x) auto

definition piece_end :: "u64 \<Rightarrow> int \<Rightarrow> int \<Rightarrow> nat" where
  "piece_end total_bytes total_parts p = (if p < total_parts then nat p * PART_BYTES else unat total_bytes)"

definition piece :: "u64 \<Rightarrow> int \<Rightarrow> bytes \<Rightarrow> int \<Rightarrow> bytes" where
  "piece total_bytes total_parts d p =
     slice d (piece_end total_bytes total_parts p) (piece_end total_bytes total_parts (p + 1))"

lemma PART_BYTES_pos [simp]: "0 < PART_BYTES"
  by (simp add: PART_BYTES_def)

lemma unat_PART_BYTES: "unat (of_nat PART_BYTES :: u64) = PART_BYTES"
  by (simp add: PART_BYTES_def)

lemma parts_of_bounds:
  assumes "parts_of total_bytes = Ok t" and "total_bytes \<noteq> 0"
  shows "0 < t \<and> nat (t - 1) * PART_BYTES < unat total_bytes \<and> unat total_bytes \<le> nat t * PART_BYTES"
proof -
  have t: "nat t = ceil_div (unat total_bytes) PART_BYTES" "0 \<le> t"
    using assms(1) unat_div_ceil_u64 [of "of_nat PART_BYTES" total_bytes]
    by (auto simp: parts_of_def Let_def unat_PART_BYTES split: if_splits)
  have "0 < unat total_bytes" using assms(2) by (simp add: unat_gt_0)
  then have pos: "0 < nat t"
    using less_ceil_div_iff [OF PART_BYTES_pos, of 0 "unat total_bytes"] t by simp
  then have "nat (t - 1) < nat t" by simp
  then have "nat (t - 1) * PART_BYTES < unat total_bytes"
    using less_ceil_div_iff [OF PART_BYTES_pos, of "nat (t - 1)" "unat total_bytes"] t by simp
  moreover have "unat total_bytes \<le> nat t * PART_BYTES"
    using less_ceil_div_iff [OF PART_BYTES_pos, of "nat t" "unat total_bytes"] t by (simp add: not_less)
  ultimately show ?thesis using pos by simp
qed

lemma piece_end_simps:
  assumes "0 < t"
  shows "piece_end b t 0 = 0" and "piece_end b t t = unat b"
  using assms by (simp_all add: piece_end_def)

lemma piece_length:
  assumes "parts_of b = Ok t" and "b \<noteq> 0" and "0 \<le> p" and "p < t"
  shows "piece_end b t (p + 1) = piece_end b t p + part_length p t b"
proof (cases "p + 1 < t")
  case True
  then show ?thesis using assms by (simp add: piece_end_def part_length_def nat_add_distrib)
next
  case False
  then have p: "p = t - 1" using assms by simp
  note B = parts_of_bounds [OF assms(1,2)]
  have "(of_int t - 1 :: u64) = of_nat (nat (t - 1))" using B by (simp add: of_nat_nat)
  then have "(of_int t - 1) * of_nat PART_BYTES = (of_nat (nat (t - 1) * PART_BYTES) :: u64)" by simp
  moreover have "unat b < 2 ^ 64" by simp
  with B have "nat (t - 1) * PART_BYTES < 2 ^ 64" using less_trans by blast
  ultimately have m: "unat ((of_int t - 1) * of_nat PART_BYTES :: u64) = nat (t - 1) * PART_BYTES"
    using unat_word_of_nat_u64 by metis
  then have "unat (b - (of_int t - 1) * of_nat PART_BYTES) = unat b - nat (t - 1) * PART_BYTES"
    using B by (simp add: unat_sub word_le_nat_alt)
  then show ?thesis using B p False by (simp add: piece_end_def part_length_def)
qed

lemma read_part_piece:
  assumes "parts_of b = Ok t" and "b \<noteq> 0" and "0 \<le> p" and "p < t"
  shows "read_part (drop (piece_end b t p) d, fault) p t b =
    (if piece_end b t (p + 1) \<le> length d \<or> part_length p t b = 0
     then (Ok (piece b t d p), drop (piece_end b t (p + 1)) d, fault)
     else (Err (case fault of None \<Rightarrow> ''The source ended before the upload was complete'' | Some e \<Rightarrow> e), [], fault))"
  using piece_length [OF assms]
  by (auto simp: Let_def piece_def slice_def add.commute)

lemma part_length_pos:
  assumes "parts_of b = Ok t" and "b \<noteq> 0" and "0 \<le> p" and "p < t"
  shows "0 < part_length p t b"
proof (cases "p + 1 < t")
  case False
  then have "p = t - 1" using assms by simp
  then show ?thesis using piece_length [OF assms] parts_of_bounds [OF assms(1,2)] by (simp add: piece_end_def)
qed (simp add: part_length_def)

lemma take_piece: "parts_of b = Ok t \<Longrightarrow> b \<noteq> 0 \<Longrightarrow> 0 \<le> p \<Longrightarrow> p < t \<Longrightarrow>
    take (piece_end b t p) d @ piece b t d p = take (piece_end b t (p + 1)) d"
  by (simp add: piece_def slice_def piece_length take_add)

lemma piece_end_mono:
  assumes "parts_of b = Ok t" and "b \<noteq> 0" and "0 \<le> p" and "p \<le> q" and "q \<le> t"
  shows "piece_end b t p \<le> piece_end b t q"
proof (cases "q < t")
  case True
  then show ?thesis using assms by (simp add: piece_end_def)
next
  case False
  then have "piece_end b t q = unat b" by (simp add: piece_end_def)
  moreover have "nat p * PART_BYTES \<le> unat b" if "p < t"
  proof -
    have "nat p * PART_BYTES \<le> nat (t - 1) * PART_BYTES" using that assms by simp
    also have "\<dots> \<le> unat b" using parts_of_bounds [OF assms(1,2)] by simp
    finally show ?thesis .
  qed
  ultimately show ?thesis by (simp add: piece_end_def)
qed

lemma read_prefix_pieces:
  assumes "parts_of b = Ok t" and "b \<noteq> 0" and "0 \<le> p" and "p + int n \<le> t"
    and "read_prefix (drop (piece_end b t p) d, fault) p n t b = (Ok sent, stream)"
  shows "take (piece_end b t p) d @ sent = take (piece_end b t (p + int n)) d \<and>
    stream = (drop (piece_end b t (p + int n)) d, fault) \<and> (piece_end b t p \<le> length d \<longrightarrow> piece_end b t (p + int n) \<le> length d)"
  using assms(3-)
proof (induction n arbitrary: p sent)
  case (Suc n)
  have p: "p < t" using Suc.prems by simp
  note R = read_part_piece [OF assms(1,2) Suc.prems(1) p, of d fault] part_length_pos [OF assms(1,2) Suc.prems(1) p]
  obtain rest where rest: "piece_end b t (p + 1) \<le> length d"
      "read_prefix (drop (piece_end b t (p + 1)) d, fault) (p + 1) n t b = (Ok rest, stream)" "sent = piece b t d p @ rest"
    using Suc.prems(3) R by (auto simp: map_sum_Ok split: if_splits prod.splits sum.splits simp del: read_part.simps)
  from Suc.IH [OF _ _ rest(2)] Suc.prems(1,2)
  have "take (piece_end b t (p + 1)) d @ rest = take (piece_end b t (p + 1 + int n)) d"
      "stream = (drop (piece_end b t (p + 1 + int n)) d, fault)" "piece_end b t (p + 1 + int n) \<le> length d"
    using rest(1) by auto
  then show ?case using take_piece [OF assms(1,2) Suc.prems(1) p, of d] rest(3) by (simp add: ac_simps) (metis append.assoc)
qed simp

section \<open>Progress\<close>

definition all_stored :: "part_store \<Rightarrow> int \<Rightarrow> int \<Rightarrow> bool" where
  "all_stored server i k \<longleftrightarrow> (\<forall>p. 0 \<le> p \<and> p < k \<longrightarrow> server (i, p) \<noteq> None)"

definition stored_bytes :: "part_store \<Rightarrow> int \<Rightarrow> int \<Rightarrow> bytes" where
  "stored_bytes server i k = concat (map (\<lambda>p. case server (i, p) of None \<Rightarrow> [] | Some bs \<Rightarrow> bs) [0..k - 1])"

text \<open>The recorded parts are stored, and the recorded digest is the one of their bytes, which are the
  beginning of one of the streams that were uploaded.\<close>

definition progress_true ::
  "(bytes \<Rightarrow> string) \<Rightarrow> bytes set \<Rightarrow> upload_session option \<Rightarrow> part_store \<Rightarrow> bool" where
  "progress_true sha D recorded server \<longleftrightarrow>
     (\<forall>s. recorded = Some s \<longrightarrow>
        0 \<le> us_completed_parts s \<and> all_stored server (us_file_id s) (us_completed_parts s) \<and>
        sha (stored_bytes server (us_file_id s) (us_completed_parts s)) = us_prefix_sha256 s \<and>
        (\<exists>d\<in>D. \<exists>n. stored_bytes server (us_file_id s) (us_completed_parts s) = take n d))"

lemma upto_snoc: "0 \<le> k \<Longrightarrow> [0..k] = [0..k - 1] @ [k]"
  using upto_split2 [of 0 k k] upto_rec1 [of k k] by (simp add: upto_split1 upto_split2)

lemma stored_bytes_Suc:
  "0 \<le> k \<Longrightarrow> stored_bytes server i (k + 1) = stored_bytes server i k @ (case server (i, k) of None \<Rightarrow> [] | Some bs \<Rightarrow> bs)"
  by (simp add: stored_bytes_def upto_snoc)

lemma stored_bytes_0 [simp]: "stored_bytes server i 0 = []"
  by (simp add: stored_bytes_def)

lemma all_stored_0 [simp]: "all_stored server i 0"
  by (auto simp: all_stored_def)

lemma all_stored_Suc: "0 \<le> k \<Longrightarrow> all_stored server i (k + 1) \<longleftrightarrow> all_stored server i k \<and> server (i, k) \<noteq> None"
  by (auto simp: all_stored_def) (metis order_le_less zless_add1_eq)

lemma stored_frame:
  assumes "\<And>p. 0 \<le> p \<Longrightarrow> p < k \<Longrightarrow> server' (i, p) = server (i, p)"
  shows "all_stored server' i k = all_stored server i k" and "stored_bytes server' i k = stored_bytes server i k"
  using assms by (auto simp: all_stored_def stored_bytes_def intro!: arg_cong [of _ _ concat])

section \<open>The parts of an attempt\<close>

abbreviation run_bytes :: "part_run \<Rightarrow> u64" where "run_bytes run \<equiv> us_total_bytes (pr_session run)"
abbreviation run_parts :: "part_run \<Rightarrow> int" where "run_parts run \<equiv> us_total_parts (pr_session run)"
abbreviation run_id :: "part_run \<Rightarrow> int" where "run_id run \<equiv> us_file_id (pr_session run)"
abbreviation run_done :: "part_run \<Rightarrow> int" where "run_done run \<equiv> us_completed_parts (pr_session run)"
abbreviation run_end :: "part_run \<Rightarrow> int \<Rightarrow> nat" where "run_end run p \<equiv> piece_end (run_bytes run) (run_parts run) p"
abbreviation run_piece :: "part_run \<Rightarrow> bytes \<Rightarrow> int \<Rightarrow> bytes" where "run_piece run d p \<equiv> piece (run_bytes run) (run_parts run) d p"

text \<open>The run of an attempt over the stream \<open>d\<close>: what was read,\<close>

definition read_inv :: "(bytes \<Rightarrow> string) \<Rightarrow> bytes \<Rightarrow> part_run \<Rightarrow> bool" where
  "read_inv sha d run \<longleftrightarrow>
     parts_of (run_bytes run) = Ok (run_parts run) \<and> run_bytes run \<noteq> 0 \<and>
     0 \<le> run_done run \<and> run_done run \<le> pr_next run \<and> pr_next run \<le> run_parts run \<and>
     (pr_failure run = None \<longrightarrow> fst (pr_stream run) = drop (run_end run (pr_next run)) d) \<and>
     pr_sent run = take (run_end run (pr_next run)) d \<and> run_end run (pr_next run) \<le> length d \<and>
     (\<forall>p. run_done run \<le> p \<and> p < pr_next run \<longrightarrow> bt_get (pr_digests run) p = Some (sha (take (run_end run (p + 1)) d)))"

text \<open>what is on its way or confirmed beyond the prefix,\<close>

definition flight_inv :: "bytes \<Rightarrow> part_run \<Rightarrow> bool" where
  "flight_inv d run \<longleftrightarrow>
     distinct (map fst (pr_flight run)) \<and>
     (\<forall>(p, bs)\<in>set (pr_flight run). run_done run \<le> p \<and> p < pr_next run \<and> \<not> bt_contains (pr_confirmed run) p \<and>
        bs = run_piece run d p) \<and>
     (\<forall>p. bt_contains (pr_confirmed run) p \<longrightarrow> run_done run \<le> p \<and> p < pr_next run) \<and>
     (pr_failure run = None \<longrightarrow> (\<forall>p. run_done run \<le> p \<and> p < pr_next run \<longrightarrow>
        (\<exists>bs. (p, bs) \<in> set (pr_flight run)) \<or> bt_contains (pr_confirmed run) p))"

text \<open>and what Telegram stores.\<close>

definition stored_inv :: "(bytes \<Rightarrow> string) \<Rightarrow> bytes \<Rightarrow> part_run \<Rightarrow> part_store \<Rightarrow> bool" where
  "stored_inv sha d run server \<longleftrightarrow>
     us_prefix_sha256 (pr_session run) = sha (take (run_end run (run_done run)) d) \<and>
     all_stored server (run_id run) (run_done run) \<and>
     stored_bytes server (run_id run) (run_done run) = take (run_end run (run_done run)) d \<and>
     (\<forall>p. bt_contains (pr_confirmed run) p \<longrightarrow> server (run_id run, p) = Some (run_piece run d p))"

definition run_inv :: "(bytes \<Rightarrow> string) \<Rightarrow> bytes \<Rightarrow> part_run \<Rightarrow> part_store \<Rightarrow> bool" where
  "run_inv sha d run server \<longleftrightarrow> read_inv sha d run \<and> flight_inv d run \<and> stored_inv sha d run server"

lemma bt_contains_insert [simp]: "bt_contains (bt_insert k v m) k' \<longleftrightarrow> k' = k \<or> bt_contains m k'"
  by (simp add: bt_contains_def)

lemma bt_contains_remove [simp]: "bt_contains (bt_remove k m) k' \<longleftrightarrow> k' \<noteq> k \<and> bt_contains m k'"
  by (simp add: bt_contains_def)

lemma send_next_inv:
  assumes "run_inv sha d run server" and "may_read run"
  shows "run_inv sha d (send_next sha run) server" and "pr_session (send_next sha run) = pr_session run"
proof -
  have R: "read_inv sha d run" and F: "flight_inv d run" and S: "stored_inv sha d run server"
    using assms(1) by (simp_all add: run_inv_def)
  let ?b = "run_bytes run" and ?t = "run_parts run" and ?n = "pr_next run"
  have n: "parts_of ?b = Ok ?t" "?b \<noteq> 0" "0 \<le> ?n" "?n < ?t" "pr_failure run = None"
    using R assms(2) by (simp_all add: read_inv_def may_read_def)
  obtain fault where st: "pr_stream run = (drop (piece_end ?b ?t ?n) d, fault)"
    using R n(5) by (cases "pr_stream run") (simp add: read_inv_def)
  note step = read_part_piece [OF n(1-4), of d fault]
  have grow: "take (piece_end ?b ?t ?n) d @ piece ?b ?t d ?n = take (piece_end ?b ?t (?n + 1)) d"
    by (rule take_piece [OF n(1-4)])
  have pos: "part_length ?n ?t ?b \<noteq> 0" using part_length_pos [OF n(1-4)] by simp
  show "pr_session (send_next sha run) = pr_session run"
    by (simp add: send_next_def split: prod.splits sum.splits)
  show "run_inv sha d (send_next sha run) server"
  proof (cases "piece_end ?b ?t (?n + 1) \<le> length d")
    case False
    then have "\<exists>e. send_next sha run = run\<lparr>pr_stream := ([], fault), pr_failure := Some e\<rparr>"
      using pos by (simp add: send_next_def st step del: read_part.simps) (rule exI, rule refl)
    then show ?thesis using R F S by (auto simp: run_inv_def read_inv_def flight_inv_def stored_inv_def)
  next
    case True
    then have next': "send_next sha run = run\<lparr>pr_stream := (drop (piece_end ?b ?t (?n + 1)) d, fault),
        pr_sent := take (piece_end ?b ?t (?n + 1)) d,
        pr_digests := bt_insert ?n (sha (take (piece_end ?b ?t (?n + 1)) d)) (pr_digests run),
        pr_flight := pr_flight run @ [(?n, piece ?b ?t d ?n)], pr_next := ?n + 1\<rparr>"
      using R grow by (simp add: send_next_def st step read_inv_def del: read_part.simps)
    have "read_inv sha d (send_next sha run)" using R True n(4) unfolding next' by (auto simp: read_inv_def)
    moreover have "flight_inv d (send_next sha run)"
      using F R n(5) unfolding next' by (fastforce simp: flight_inv_def read_inv_def)
    moreover have "stored_inv sha d (send_next sha run) server" using S unfolding next' by (simp add: stored_inv_def)
    ultimately show ?thesis by (simp add: run_inv_def)
  qed
qed

lemma fill_flight_inv:
  assumes "run_inv sha d run server"
  shows "run_inv sha d (fill_flight sha run) server \<and> pr_session (fill_flight sha run) = pr_session run \<and>
    \<not> may_read (fill_flight sha run)"
  using assms
proof (induction sha run rule: fill_flight.induct)
  case (1 sha run)
  show ?case
  proof (cases "may_read run")
    case True
    then show ?thesis using 1(1) [OF True send_next_inv(1) [OF 1(2) True]] send_next_inv(2) [OF 1(2) True]
      by (simp add: fill_flight.simps [of sha run])
  qed (use 1(2) in \<open>simp add: fill_flight.simps [of sha run]\<close>)
qed

text \<open>The confirmed prefix.\<close>

lemma take_confirmed_inv:
  assumes "run_inv sha d run server" and "bt_contains (pr_confirmed run) (run_done run)"
  shows "run_inv sha d (take_confirmed run) server"
proof -
  have R: "read_inv sha d run" and F: "flight_inv d run" and S: "stored_inv sha d run server"
    using assms(1) by (simp_all add: run_inv_def)
  let ?b = "run_bytes run" and ?t = "run_parts run" and ?k = "run_done run"
  have k: "parts_of ?b = Ok ?t" "?b \<noteq> 0" "0 \<le> ?k" "?k < pr_next run" "pr_next run \<le> ?t"
    using R F assms(2) by (auto simp: read_inv_def flight_inv_def)
  have digest: "bt_get (pr_digests run) ?k = Some (sha (take (piece_end ?b ?t (?k + 1)) d))" using R k by (simp add: read_inv_def)
  have stored: "server (run_id run, ?k) = Some (piece ?b ?t d ?k)" using S assms(2) by (simp add: stored_inv_def)
  have next': "take_confirmed run = run\<lparr>pr_confirmed := bt_remove ?k (pr_confirmed run),
      pr_digests := bt_remove ?k (pr_digests run), pr_session := (pr_session run)\<lparr>us_completed_parts := ?k + 1,
        us_prefix_sha256 := sha (take (piece_end ?b ?t (?k + 1)) d)\<rparr>\<rparr>"
    by (simp add: take_confirmed_def digest Let_def)
  have grown: "all_stored server (run_id run) (?k + 1)" "stored_bytes server (run_id run) (?k + 1) = take (piece_end ?b ?t (?k + 1)) d"
    using S stored k take_piece [OF k(1-3), of d] by (simp_all add: stored_inv_def all_stored_Suc stored_bytes_Suc)
  have "read_inv sha d (take_confirmed run)" using R k unfolding next' by (simp add: read_inv_def)
  moreover have "flight_inv d (take_confirmed run)"
  proof -
    have "?k < p" if "(p, bs) \<in> set (pr_flight run)" for p bs
      using F that assms(2) by (cases "p = ?k") (auto simp: flight_inv_def)
    then have "\<forall>(p, bs)\<in>set (pr_flight run). ?k + 1 \<le> p \<and> p < pr_next run \<and> \<not> bt_contains (bt_remove ?k (pr_confirmed run)) p \<and> bs = run_piece run d p"
      using F by (fastforce simp: flight_inv_def)
    moreover have "?k + 1 \<le> p \<and> p < pr_next run" if "p \<noteq> ?k" "bt_contains (pr_confirmed run) p" for p
    proof -
      have "?k \<le> p" "p < pr_next run" using F that(2) by (auto simp: flight_inv_def)
      then show ?thesis using that(1) by simp
    qed
    moreover have "(\<exists>bs. (p, bs) \<in> set (pr_flight run)) \<or> bt_contains (pr_confirmed run) p"
        if "pr_failure run = None" "?k + 1 \<le> p" "p < pr_next run" for p
      using F that by (simp add: flight_inv_def)
    ultimately show ?thesis using F unfolding next' flight_inv_def by simp
  qed
  moreover have "stored_inv sha d (take_confirmed run) server"
    using S grown unfolding next' by (simp add: stored_inv_def)
  ultimately show ?thesis by (simp add: run_inv_def)
qed

lemma advance_inv:
  assumes "run_inv sha d run server"
  shows "run_inv sha d (advance run) server"
  using assms
proof (induction run rule: advance.induct)
  case (1 run)
  show ?case
  proof (cases "bt_contains (pr_confirmed run) (run_done run)")
    case True
    then show ?thesis using 1(1) [OF True take_confirmed_inv [OF 1(2) True]] True
      by (simp add: advance.simps [of run])
  qed (use 1(2) in \<open>simp add: advance.simps [of run]\<close>)
qed

lemma advance_fields:
  "run_done run \<le> run_done (advance run) \<and> run_id (advance run) = run_id run \<and> run_bytes (advance run) = run_bytes run \<and>
   \<not> bt_contains (pr_confirmed (advance run)) (run_done (advance run))"
proof (induction run rule: advance.induct)
  case (1 run)
  have "run_done run < run_done (take_confirmed run)" "run_id (take_confirmed run) = run_id run"
      "run_bytes (take_confirmed run) = run_bytes run"
    by (simp_all add: take_confirmed_def Let_def)
  then show ?case using 1 by (auto simp: advance.simps [of run])
qed

lemma advance_rest [simp]:
  "pr_flight (advance run) = pr_flight run" "pr_failure (advance run) = pr_failure run" "pr_next (advance run) = pr_next run"
  "pr_resumed (advance run) = pr_resumed run" "pr_stream (advance run) = pr_stream run"
  by (induction run rule: advance.induct) (simp_all add: advance.simps take_confirmed_def Let_def)

text \<open>Storing a part that is on its way, and its outcome.\<close>

definition untouched :: "part_run \<Rightarrow> part_store \<Rightarrow> part_store \<Rightarrow> bool" where
  "untouched run server server' \<longleftrightarrow>
     (\<forall>i p. i \<noteq> run_id run \<or> p < run_done run \<longrightarrow> server' (i, p) = server (i, p))"

lemma store_part_inv:
  assumes "run_inv sha d run server"
  shows "run_inv sha d run (store_part run part server)" and "untouched run server (store_part run part server)"
proof -
  have R: "read_inv sha d run" and F: "flight_inv d run" and S: "stored_inv sha d run server"
    using assms(1) by (simp_all add: run_inv_def)
  show frame: "untouched run server (store_part run part server)"
    using F by (auto simp: untouched_def store_part_def flight_inv_def split: option.splits dest!: map_of_SomeD)
  have "stored_inv sha d run (store_part run part server)"
    using S F frame stored_frame [of "run_done run" "store_part run part server" "run_id run" server]
    by (auto simp: stored_inv_def untouched_def store_part_def flight_inv_def split: option.splits dest!: map_of_SomeD)
  then show "run_inv sha d run (store_part run part server)" using R F by (simp add: run_inv_def)
qed

lemma untouched_trans: "untouched run s1 s2 \<Longrightarrow> untouched run s2 s3 \<Longrightarrow> untouched run s1 s3"
  by (simp add: untouched_def)

lemma untouched_later:
  "untouched run' s1 s2 \<Longrightarrow> run_id run' = run_id run \<Longrightarrow> run_done run \<le> run_done run' \<Longrightarrow> untouched run s1 s2"
  by (auto simp: untouched_def)

lemma landed_fields [simp]:
  "pr_session (landed part run) = pr_session run" "pr_confirmed (landed part run) = pr_confirmed run"
  "pr_failure (landed part run) = pr_failure run" "pr_next (landed part run) = pr_next run"
  "pr_resumed (landed part run) = pr_resumed run"
  by (simp_all add: landed_def)

lemma confirm_inv:
  assumes "run_inv sha d run server" and "map_of (pr_flight run) part \<noteq> None"
  shows "run_inv sha d (advance ((landed part run)\<lparr>pr_confirmed := bt_insert part () (pr_confirmed run)\<rparr>)) (store_part run part server)"
proof -
  let ?run = "(landed part run)\<lparr>pr_confirmed := bt_insert part () (pr_confirmed run)\<rparr>"
  note I = store_part_inv(1) [OF assms(1), of part]
  obtain bs where bs: "map_of (pr_flight run) part = Some bs" using assms(2) by auto
  have R: "read_inv sha d run" and F: "flight_inv d run" and S: "stored_inv sha d run (store_part run part server)"
    using I by (simp_all add: run_inv_def)
  have "read_inv sha d ?run" using R by (simp add: read_inv_def landed_def)
  moreover have "flight_inv d ?run"
    using F map_of_SomeD [OF bs] unfolding flight_inv_def landed_def
    by (auto simp: distinct_map_filter)
  moreover have "stored_inv sha d ?run (store_part run part server)"
    using S F map_of_SomeD [OF bs] bs by (auto simp: stored_inv_def flight_inv_def store_part_def)
  ultimately have "run_inv sha d ?run (store_part run part server)" by (simp add: run_inv_def)
  then show ?thesis using advance_inv by blast
qed

lemma reject_inv:
  assumes "run_inv sha d run server"
  shows "run_inv sha d ((landed part run)\<lparr>pr_failure := Some e\<rparr>) server"
  using assms
  by (auto simp: run_inv_def read_inv_def flight_inv_def stored_inv_def landed_def distinct_map_filter)

section \<open>The record during an attempt\<close>

text \<open>The record is an earlier snapshot of the run's session.\<close>

definition snapshot :: "(bytes \<Rightarrow> string) \<Rightarrow> bytes set \<Rightarrow> part_run \<Rightarrow> upload_session option \<Rightarrow> part_store \<Rightarrow> bool" where
  "snapshot sha D run recorded server \<longleftrightarrow>
     (\<exists>s. recorded = Some s \<and> us_file_id s = run_id run \<and> us_completed_parts s \<le> run_done run) \<and>
     progress_true sha D recorded server"

lemma snapshot_untouched:
  assumes "snapshot sha D run recorded server" and "untouched run server server'"
  shows "snapshot sha D run recorded server'"
proof -
  obtain s where s: "recorded = Some s" "us_file_id s = run_id run" "us_completed_parts s \<le> run_done run"
    using assms(1) by (auto simp: snapshot_def)
  have "server' (run_id run, p) = server (run_id run, p)" if "p < us_completed_parts s" for p
    using assms(2) that s(3) by (simp add: untouched_def)
  then show ?thesis
    using assms(1) s stored_frame [of "us_completed_parts s" server' "run_id run" server]
    by (simp add: snapshot_def progress_true_def)
qed

lemma snapshot_later:
  "snapshot sha D run recorded server \<Longrightarrow> run_id run' = run_id run \<Longrightarrow> run_done run \<le> run_done run' \<Longrightarrow>
   snapshot sha D run' recorded server"
  by (auto simp: snapshot_def)

lemma saved_snapshot:
  assumes "run_inv sha d run server" and "d \<in> D" and "snapshot sha D run recorded server"
    and "save_session now outcome (pr_session run) recorded = (r, recorded')"
  shows "snapshot sha D run recorded' server"
proof -
  have "snapshot sha D run (Some ((pr_session run)\<lparr>us_updated_at := now\<rparr>)) server"
    using assms(1,2) by (auto simp: run_inv_def read_inv_def stored_inv_def snapshot_def progress_true_def)
  then show ?thesis using assms(3,4) by (cases outcome) (auto simp: save_session_def)
qed

text \<open>An outcome leaves a run with the same invariants; the loop goes on with it unless a checkpoint failed.\<close>

lemma handle_outcome_inv:
  assumes "run_inv sha d run server" and "snapshot sha D run recorded server" and "d \<in> D"
    and "map_of (pr_flight run) (outcome_part outcome) \<noteq> None"
    and "handle_outcome outcome run recorded server = (r, recorded', server')"
  obtains run' where "untouched run server server'" "run_inv sha d run' server'" "snapshot sha D run' recorded' server'"
    "run_id run' = run_id run" "run_bytes run' = run_bytes run" "run_done run \<le> run_done run'" "pr_resumed run' = pr_resumed run"
    "pr_flight run' = pr_flight (landed (outcome_part outcome) run)"
    "\<not> bt_contains (pr_confirmed run) (run_done run) \<Longrightarrow> \<not> bt_contains (pr_confirmed run') (run_done run')"
    "r = Ok run' \<or> (\<exists>e. r = Err e)"
proof (cases outcome)
  case (Confirmed part checkpoint)
  let ?run1 = "(landed part run)\<lparr>pr_confirmed := bt_insert part () (pr_confirmed run)\<rparr>"
  let ?run2 = "advance ?run1" and ?server = "store_part run part server"
  have part: "map_of (pr_flight run) part \<noteq> None" using assms(4) Confirmed by simp
  have I: "run_inv sha d ?run2 ?server" by (rule confirm_inv [OF assms(1) part])
  have U: "untouched run server ?server" by (rule store_part_inv(2) [OF assms(1)])
  have A: "run_done run \<le> run_done ?run2" "run_id ?run2 = run_id run" "run_bytes ?run2 = run_bytes run" "\<not> bt_contains (pr_confirmed ?run2) (run_done ?run2)"
    using advance_fields [of ?run1] by simp_all
  have S: "snapshot sha D ?run2 recorded ?server"
    using snapshot_later [OF snapshot_untouched [OF assms(2) U]] A by simp
  have "server' = ?server \<and> snapshot sha D ?run2 recorded' ?server \<and> (r = Ok ?run2 \<or> (\<exists>e. r = Err e))"
  proof (cases checkpoint)
    case None
    then show ?thesis using assms(5) Confirmed S by (simp add: Let_def)
  next
    case (Some c)
    obtain now out where c: "c = (now, out)" by fastforce
    obtain r' recorded2 where save: "save_session now out (pr_session ?run2) recorded = (r', recorded2)" by fastforce
    show ?thesis using saved_snapshot [OF I assms(3) S save] assms(5) Confirmed Some c save
      by (cases r') (auto simp: Let_def)
  qed
  then show ?thesis using that [of ?run2] I U A Confirmed by simp
next
  case (Rejected part e is_stored)
  let ?run2 = "(landed part run)\<lparr>pr_failure := (case pr_failure run of None \<Rightarrow> Some e | Some first \<Rightarrow> Some first)\<rparr>"
  have out: "r = Ok ?run2" "recorded' = recorded" "server' = (if is_stored then store_part run part server else server)"
    using assms(5) Rejected by auto
  have U: "untouched run server server'" "run_inv sha d run server'"
    using out(3) assms(1) store_part_inv [OF assms(1)] by (auto simp: untouched_def)
  have I: "run_inv sha d ?run2 server'"
    using reject_inv [OF U(2), where part = part] by (cases "pr_failure run") simp_all
  moreover have "snapshot sha D ?run2 recorded' server'"
    using snapshot_later [OF snapshot_untouched [OF assms(2) U(1)]] out(2) by simp
  ultimately show ?thesis using that [of ?run2] U(1) out(1) Rejected by simp
qed

lemma send_next_rest [simp]:
  "pr_confirmed (send_next sha run) = pr_confirmed run" "pr_resumed (send_next sha run) = pr_resumed run"
  "pr_session (send_next sha run) = pr_session run"
  by (simp_all add: send_next_def split: prod.splits sum.splits)

lemma fill_flight_rest [simp]:
  "pr_confirmed (fill_flight sha run) = pr_confirmed run" "pr_resumed (fill_flight sha run) = pr_resumed run"
  "pr_session (fill_flight sha run) = pr_session run"
proof (induction sha run rule: fill_flight.induct)
  case (1 sha run)
  { case 1 then show ?case using "1.IH"(1) by (simp add: fill_flight.simps [of sha run]) }
  { case 2 then show ?case using "1.IH"(2) by (simp add: fill_flight.simps [of sha run]) }
  { case 3 then show ?case using "1.IH"(3) by (simp add: fill_flight.simps [of sha run]) }
qed

lemma lost_untouched:
  assumes "run_inv sha d run server"
  shows "untouched run server (lost_parts stored run server)"
proof -
  have "run_inv sha d run server \<Longrightarrow>
      untouched run server (fold (\<lambda>(part, _). if stored part then store_part run part else id) xs server)" for xs
  proof (induction xs arbitrary: server)
    case (Cons x xs)
    obtain part bs where x: "x = (part, bs)" by fastforce
    show ?case
    proof (cases "stored part")
      case True
      from untouched_trans [OF store_part_inv(2) [OF Cons.prems] Cons.IH [OF store_part_inv(1) [OF Cons.prems]]]
      show ?thesis using x True by simp
    qed (use Cons x in simp)
  qed (simp add: untouched_def)
  then show ?thesis using assms by (simp add: lost_parts_def)
qed

lemma lost_parts_flight:
  "pr_flight run' = pr_flight run \<Longrightarrow> run_id run' = run_id run \<Longrightarrow> lost_parts stored run' server = lost_parts stored run server"
proof -
  assume "pr_flight run' = pr_flight run" "run_id run' = run_id run"
  then have "store_part run' = store_part run" by (intro ext) (simp add: store_part_def split: option.splits)
  then show ?thesis unfolding lost_parts_def \<open>pr_flight run' = _\<close> by (simp only:)
qed

lemma upload_loop_inv:
  assumes "run_inv sha d run server" and "snapshot sha D run recorded server" and "d \<in> D"
    and "\<not> bt_contains (pr_confirmed run) (run_done run)"
    and "upload_loop sha stored outcomes run recorded server = (r, recorded', server')"
  shows "progress_true sha D recorded' server' \<and> untouched run server server' \<and>
    (\<forall>run'. r = Emptied run' \<longrightarrow> run_inv sha d run' server' \<and> snapshot sha D run' recorded' server' \<and>
      run_id run' = run_id run \<and> run_bytes run' = run_bytes run \<and> pr_resumed run' = pr_resumed run \<and> pr_flight run' = [] \<and>
      \<not> may_read run' \<and> \<not> bt_contains (pr_confirmed run') (run_done run'))"
  using assms(1,2,4,5)
proof (induction outcomes arbitrary: run recorded server)
  case Nil
  let ?run = "fill_flight sha run"
  have I: "run_inv sha d ?run server" "\<not> may_read ?run" using fill_flight_inv [OF Nil.prems(1)] by simp_all
  have "snapshot sha D run recorded (lost_parts stored ?run server)" "untouched run server (lost_parts stored ?run server)"
    using lost_untouched [OF I(1), of stored] snapshot_untouched [OF Nil.prems(2)] by (simp_all add: untouched_def)
  then show ?case using Nil.prems I
    by (auto simp: upload_loop.simps [of _ _ "[]"] Let_def snapshot_def untouched_def split: if_splits)
next
  case (Cons outcome outcomes)
  let ?run = "fill_flight sha run" and ?part = "outcome_part outcome"
  have I: "run_inv sha d ?run server" "\<not> may_read ?run" using fill_flight_inv [OF Cons.prems(1)] by simp_all
  have S: "snapshot sha D ?run recorded server" using snapshot_later [OF Cons.prems(2)] by simp
  consider "pr_flight ?run = []" | "pr_flight ?run \<noteq> []" "map_of (pr_flight ?run) ?part = None"
    | "pr_flight ?run \<noteq> []" "map_of (pr_flight ?run) ?part \<noteq> None" by blast
  then show ?case
  proof cases
    case 1
    then show ?thesis using Cons.prems I S
      by (auto simp: upload_loop.simps [of _ _ "outcome # outcomes"] Let_def snapshot_def untouched_def)
  next
    case 2
    have "snapshot sha D run recorded (lost_parts stored ?run server)" "untouched run server (lost_parts stored ?run server)"
      using lost_untouched [OF I(1), of stored] snapshot_untouched [OF Cons.prems(2)] by (simp_all add: untouched_def)
    then show ?thesis using Cons.prems(4) 2
      by (auto simp: upload_loop.simps [of _ _ "outcome # outcomes"] Let_def snapshot_def)
  next
    case 3
    obtain r1 recorded1 server1 where h: "handle_outcome outcome ?run recorded server = (r1, recorded1, server1)"
      by (metis prod_cases3)
    obtain run2 where H: "untouched ?run server server1" "run_inv sha d run2 server1" "snapshot sha D run2 recorded1 server1"
        "run_id run2 = run_id run" "run_bytes run2 = run_bytes run" "run_done run \<le> run_done run2" "pr_resumed run2 = pr_resumed run"
        "pr_flight run2 = pr_flight (landed ?part ?run)" "\<not> bt_contains (pr_confirmed run2) (run_done run2)"
        "r1 = Ok run2 \<or> (\<exists>e. r1 = Err e)"
      by (rule handle_outcome_inv [OF I(1) S assms(3) 3(2) h]) (use Cons.prems(3) in simp)
    have U: "untouched run server server1" using H(1) by (simp add: untouched_def)
    show ?thesis
    proof (cases r1)
      case (Inl e)
      have out: "recorded' = recorded1" "server' = lost_parts stored run2 server1" "r = Aborted e"
        using Cons.prems(4) 3 h Inl lost_parts_flight [OF H(8)] H(4)
        by (auto simp: upload_loop.simps [of _ _ "outcome # outcomes"] Let_def)
      have lost: "untouched run2 server1 server'" using lost_untouched [OF H(2)] out(2) by simp
      then have "snapshot sha D run2 recorded' server'" using snapshot_untouched [OF H(3)] out(1) by simp
      moreover have "untouched run server server'"
        using untouched_trans [OF U untouched_later [OF lost H(4,6)]] .
      ultimately show ?thesis using out(3) by (simp add: snapshot_def)
    next
      case (Inr run3)
      then have "upload_loop sha stored outcomes run2 recorded1 server1 = (r, recorded', server')"
        using Cons.prems(4) 3 h H(10) by (auto simp: upload_loop.simps [of _ _ "outcome # outcomes"] Let_def)
      note IH = Cons.IH [OF H(2,3,9) this]
      have "untouched run server server'"
        by (rule untouched_trans [OF U untouched_later [OF _ H(4,6)]]) (use IH in blast)
      then show ?thesis using IH H(4,5,7) by metis
    qed
  qed
qed

section \<open>A whole attempt\<close>

text \<open>SHA-256 does not collide on the beginnings of the streams that were uploaded.\<close>

definition collision_free :: "(bytes \<Rightarrow> string) \<Rightarrow> bytes set \<Rightarrow> bool" where
  "collision_free sha D \<longleftrightarrow> inj_on sha {take n d |n d. d \<in> D}"

lemma find_session_progress:
  assumes "find_session source now outcome recorded = (r, recorded')" and "progress_true sha D recorded server"
  shows "progress_true sha D recorded' server \<and>
    (\<forall>s. r = Ok (Some s) \<longrightarrow> recorded' = Some s \<and> recorded = Some s \<and> usable_session source now s) \<and> (recorded' = None \<or> recorded' = recorded)"
  using assms
  by (cases outcome) (auto simp: find_session_def progress_true_def split: option.splits if_splits)

lemma choose_session_progress:
  assumes "choose_session sha task B t recorded = (r, recorded')" and "progress_true sha D recorded server" and "{} \<noteq> D"
  shows "progress_true sha D recorded' server \<and>
    (\<forall>s. r = Ok s \<longrightarrow> progress_true sha D (Some s) server \<and> us_total_bytes s = ut_total_bytes task \<and> us_total_parts s = t \<and>
      0 \<le> us_completed_parts s \<and> (0 < t \<longrightarrow> us_completed_parts s \<le> t) \<and>
      (s = fresh_session sha task B t \<or> recorded' = Some s))"
proof -
  obtain r1 recorded1 where f: "find_session (ut_source task) (ub_now B) (ub_lookup B) recorded = (r1, recorded1)" by fastforce
  note F = find_session_progress [OF f assms(2)]
  have fresh: "progress_true sha D (Some (fresh_session sha task B t)) server"
  proof -
    obtain d where "d \<in> D" using assms(3) by blast
    then have "\<exists>d\<in>D. \<exists>n. [] = take n d" by (intro bexI [of _ d] exI [of _ 0]) simp_all
    then show ?thesis by (simp add: progress_true_def fresh_session_def)
  qed
  have none: "progress_true sha D None server" by (simp add: progress_true_def)
  have new: "us_total_bytes (fresh_session sha task B t) = ut_total_bytes task"
      "us_total_parts (fresh_session sha task B t) = t" "us_completed_parts (fresh_session sha task B t) = 0"
    by (simp_all add: fresh_session_def)
  show ?thesis
  proof (cases r1)
    case (Inl e)
    then show ?thesis using assms(1) f F by (auto simp: choose_session_def)
  next
    case (Inr found)
    show ?thesis
    proof (cases found)
      case None
      then show ?thesis using assms(1) f F Inr fresh new by (auto simp: choose_session_def)
    next
      case (Some s)
      have s: "recorded1 = Some s" "usable_session (ut_source task) (ub_now B) s" using F Inr Some by simp_all
      show ?thesis
      proof (cases "same_upload task t s")
        case True
        then have "r = Ok s" "recorded' = recorded1" using assms(1) f Inr Some by (simp_all add: choose_session_def)
        then show ?thesis using F s True by (auto simp: same_upload_def usable_session_def)
      next
        case False
        then show ?thesis using assms(1) f F Inr Some fresh new none
          by (cases "ub_forget B") (auto simp: choose_session_def discard_session_def)
      qed
    qed
  qed
qed

lemma begin_upload_inv:
  assumes "begin_upload sha task B stream recorded = (r, recorded')" and "progress_true sha D recorded server"
    and "fst stream \<in> D" and "collision_free sha D"
  shows "progress_true sha D recorded' server \<and>
    (\<forall>run. r = Ok run \<longrightarrow> run_inv sha (fst stream) run server \<and> snapshot sha D run recorded' server \<and>
      \<not> bt_contains (pr_confirmed run) (run_done run) \<and> run_bytes run = ut_total_bytes task \<and> pr_resumed run = run_done run)"
proof (cases "ut_total_bytes task = 0 \<or> (\<exists>e. parts_of (ut_total_bytes task) = Err e)")
  case True
  then show ?thesis using assms(1,2) by (cases "ut_total_bytes task = 0") (auto simp: begin_upload_def)
next
  case False
  let ?b = "ut_total_bytes task" and ?d = "fst stream"
  obtain t where t: "parts_of ?b = Ok t" "?b \<noteq> 0" using False by (cases "parts_of ?b") auto
  obtain r1 recorded1 where c: "choose_session sha task B t recorded = (r1, recorded1)" by fastforce
  note C = choose_session_progress [OF c assms(2)]
  have C1: "progress_true sha D recorded1 server" using C assms(3) by auto
  show ?thesis
  proof (cases r1)
    case (Inl e)
    then show ?thesis using assms(1) t c C1 by (auto simp: begin_upload_def)
  next
    case (Inr s)
    let ?k = "us_completed_parts s"
    have S: "progress_true sha D (Some s) server" "us_total_bytes s = ?b" "us_total_parts s = t" "0 \<le> ?k" "?k \<le> t"
      using C Inr assms(3) parts_of_bounds [OF t] by auto
    have start: "stream = (drop (piece_end ?b t 0) ?d, snd stream)"
      using parts_of_bounds [OF t] by (simp add: piece_end_simps)
    obtain r2 stream2 where pre: "read_prefix stream 0 (nat ?k) t ?b = (r2, stream2)" by (metis surj_pair)
    have step: "begin_upload sha task B stream recorded =
        (case r2 of Inl e \<Rightarrow> (Err (Failed e), recorded1)
         | Inr sent \<Rightarrow>
             if 0 < ?k \<and> sha sent \<noteq> us_prefix_sha256 s
             then (case discard_session (ub_stale B) recorded1 of
                     (Inl e, recorded2) \<Rightarrow> (Err (Failed e), recorded2)
                   | (Inr _, recorded2) \<Rightarrow>
                       (Err (Stale ''The source no longer matches the part of it that was already uploaded''), recorded2))
             else
               (case save_session (ub_saved_at B) (ub_save B) s recorded1 of
                  (Inl e, recorded2) \<Rightarrow> (Err (Failed e), recorded2)
                | (Inr _, recorded2) \<Rightarrow>
                    (Ok \<lparr>pr_session = s, pr_resumed = ?k, pr_stream = stream2, pr_next = ?k,
                         pr_sent = sent, pr_flight = [], pr_digests = [], pr_confirmed = [], pr_failure = None\<rparr>,
                     recorded2)))"
      using t c Inr pre by (simp add: begin_upload_def Let_def split: sum.splits)
    show ?thesis
    proof (cases r2)
      case (Inl e)
      then show ?thesis using assms(1) step C1 by auto
    next
      case sent: (Inr sent)
      have P: "sent = take (piece_end ?b t ?k) ?d" "stream2 = (drop (piece_end ?b t ?k) ?d, snd stream)"
          "piece_end ?b t ?k \<le> length ?d"
        using read_prefix_pieces [OF t, of 0 "nat ?k" ?d "snd stream" sent stream2] pre sent S(4,5) start
          parts_of_bounds [OF t] by (simp_all add: piece_end_simps)
      show ?thesis
      proof (cases "0 < ?k \<and> sha sent \<noteq> us_prefix_sha256 s")
        case True
        then show ?thesis using assms(1) step sent C1
          by (cases "ub_stale B") (auto simp: discard_session_def progress_true_def)
      next
        case False
        have stored: "all_stored server (us_file_id s) ?k" "sha (stored_bytes server (us_file_id s) ?k) = us_prefix_sha256 s"
            "\<exists>d\<in>D. \<exists>n. stored_bytes server (us_file_id s) ?k = take n d"
          using S(1) by (auto simp: progress_true_def)
        have same: "stored_bytes server (us_file_id s) ?k = take (piece_end ?b t ?k) ?d"
        proof (cases "?k = 0")
          case True
          then show ?thesis using parts_of_bounds [OF t] by (simp add: piece_end_simps)
        next
          case positive: False
          then have "sha (stored_bytes server (us_file_id s) ?k) = sha sent" using False S(4) stored(2) by auto
          then show ?thesis using assms(3,4) stored(3) P(1)
            by (auto simp: collision_free_def dest!: inj_onD)
        qed
        let ?run = "\<lparr>pr_session = s, pr_resumed = ?k, pr_stream = stream2, pr_next = ?k,
                         pr_sent = sent, pr_flight = [], pr_digests = [], pr_confirmed = [], pr_failure = None\<rparr>"
        have I: "run_inv sha ?d ?run server"
          using t S P same stored by (simp add: run_inv_def read_inv_def flight_inv_def stored_inv_def bt_contains_def)
        obtain r3 recorded2 where save: "save_session (ub_saved_at B) (ub_save B) s recorded1 = (r3, recorded2)" by fastforce
        have out: "recorded' = recorded2" "r = map_sum Failed (\<lambda>_. ?run) r3"
          using assms(1) step sent False save by (cases r3, auto)+
        have "progress_true sha D (Some (s\<lparr>us_updated_at := ub_saved_at B\<rparr>)) server"
          using S(1) by (auto simp: progress_true_def)
        moreover have "r3 = Ok () \<Longrightarrow> recorded2 = Some (s\<lparr>us_updated_at := ub_saved_at B\<rparr>)"
            "recorded2 = recorded1 \<or> recorded2 = Some (s\<lparr>us_updated_at := ub_saved_at B\<rparr>)"
          using save by (cases "ub_save B"; auto simp: save_session_def)+
        ultimately show ?thesis using out I C1 S(2)
          by (cases r3) (auto simp: snapshot_def bt_contains_def)
      qed
    qed
  qed
qed

text \<open>A run that ended without a failure has uploaded its stream.\<close>

lemma emptied_complete:
  assumes "run_inv sha d run server" and "pr_flight run = []" and "\<not> may_read run"
    and "\<not> bt_contains (pr_confirmed run) (run_done run)" and "pr_failure run = None"
  shows "run_done run = run_parts run \<and> all_stored server (run_id run) (run_parts run) \<and>
    stored_bytes server (run_id run) (run_parts run) = take (unat (run_bytes run)) d \<and> unat (run_bytes run) \<le> length d \<and>
    parts_of (run_bytes run) = Ok (run_parts run)"
proof -
  have R: "read_inv sha d run" and F: "flight_inv d run" and S: "stored_inv sha d run server"
    using assms(1) by (simp_all add: run_inv_def)
  have n: "pr_next run = run_parts run"
    using assms(2,3,5) R by (simp add: may_read_def read_inv_def WORKERS_def)
  have k: "run_done run = pr_next run"
  proof (rule ccontr)
    assume ne: "run_done run \<noteq> pr_next run"
    have "run_done run \<le> pr_next run" using R by (simp add: read_inv_def)
    with ne have "run_done run < pr_next run" by simp
    moreover have "\<forall>p. run_done run \<le> p \<and> p < pr_next run \<longrightarrow>
        (\<exists>bs. (p, bs) \<in> set (pr_flight run)) \<or> bt_contains (pr_confirmed run) p"
      by (rule F [unfolded flight_inv_def, THEN conjunct2, THEN conjunct2, THEN conjunct2, THEN mp, OF assms(5)])
    then have "\<forall>p. run_done run \<le> p \<and> p < pr_next run \<longrightarrow> bt_contains (pr_confirmed run) p"
      using assms(2) by simp
    ultimately show False using assms(4) order_refl by blast
  qed
  have e: "run_end run (run_parts run) = unat (run_bytes run)" by (simp add: piece_end_def)
  have "run_end run (pr_next run) \<le> length d" "parts_of (run_bytes run) = Ok (run_parts run)"
    using R unfolding read_inv_def by blast+
  moreover have "all_stored server (run_id run) (run_done run)"
      "stored_bytes server (run_id run) (run_done run) = take (run_end run (run_done run)) d"
    using S unfolding stored_inv_def by blast+
  ultimately show ?thesis unfolding k n e by blast
qed

lemma upload_attempt_inv:
  assumes "upload_attempt sha task E recorded server = (r, recorded', server')" and "progress_true sha D recorded server"
    and "fst (ae_stream E) \<in> D" and "collision_free sha D"
  shows "progress_true sha D recorded' server' \<and>
    (\<forall>up. r = Some (Ok up) \<longrightarrow> parts_of (ut_total_bytes task) = Ok (up_total_parts up) \<and>
      unat (ut_total_bytes task) \<le> length (fst (ae_stream E)) \<and> all_stored server' (up_file_id up) (up_total_parts up) \<and>
      stored_bytes server' (up_file_id up) (up_total_parts up) = take (unat (ut_total_bytes task)) (fst (ae_stream E)) \<and>
      (\<forall>i p. i \<noteq> up_file_id up \<or> p < up_resumed_parts up \<longrightarrow> server' (i, p) = server (i, p)))"
proof -
  let ?d = "fst (ae_stream E)"
  obtain r1 recorded1 where b: "begin_upload sha task (ae_begin E) (ae_stream E) recorded = (r1, recorded1)" by fastforce
  note B = begin_upload_inv [OF b assms(2-4)]
  show ?thesis
  proof (cases r1)
    case (Inl e)
    then show ?thesis using assms(1) b B by (auto simp: upload_attempt_def)
  next
    case (Inr run)
    then have I: "run_inv sha ?d run server" "snapshot sha D run recorded1 server"
        "\<not> bt_contains (pr_confirmed run) (run_done run)" "run_bytes run = ut_total_bytes task" "pr_resumed run = run_done run"
      using B by auto
    obtain r2 recorded2 server2 where l: "upload_loop sha (ae_stored E) (ae_outcomes E) run recorded1 server = (r2, recorded2, server2)"
      by (metis prod_cases3)
    note L = upload_loop_inv [OF I(1,2) assms(3) I(3) l]
    show ?thesis
    proof (cases r2)
      case (Emptied run')
      have E: "run_inv sha ?d run' server2" "snapshot sha D run' recorded2 server2" "run_id run' = run_id run"
          "pr_resumed run' = pr_resumed run" "pr_flight run' = []" "\<not> may_read run'"
          "\<not> bt_contains (pr_confirmed run') (run_done run')" "untouched run server server2" "run_bytes run' = run_bytes run"
        using L Emptied by auto
      obtain r3 recorded3 where s: "save_session (ae_end_at E) (ae_end E) (pr_session run') recorded2 = (r3, recorded3)" by fastforce
      have "snapshot sha D run' recorded3 server2" by (rule saved_snapshot [OF E(1) assms(3) E(2) s])
      moreover have "recorded' = recorded3" "server' = server2"
        using assms(1) b l s Inr Emptied by (auto simp: upload_attempt_def finish_upload_def split: sum.splits)
      moreover have "pr_failure run' = None \<and> up_file_id up = run_id run' \<and> up_total_parts up = run_parts run' \<and>
          up_resumed_parts up = pr_resumed run'" if "r = Some (Ok up)" for up
        using that assms(1) b l s Inr Emptied by (auto simp: upload_attempt_def finish_upload_def split: sum.splits option.splits)
      ultimately show ?thesis
        using emptied_complete [OF E(1,5,6,7)] E(3,4,8,9) I(4,5) by (auto simp: snapshot_def untouched_def)
    qed (use assms(1) b l Inr L in \<open>auto simp: upload_attempt_def\<close>)
  qed
qed

end
