(* ===== verification/Part_Contract.thy ===== *)
theory Part_Contract
  imports Part_Progress
begin

text \<open>
  What resumable uploads guarantee: whatever order the parts are confirmed in and wherever an attempt is
  cut off, the recorded progress describes parts Telegram has stored; a finished upload consists of
  the bytes of its stream; every attempt ends; and a later one sends only what is missing.
\<close>

section \<open>Histories of attempts\<close>

definition upload_history ::
  "(bytes \<Rightarrow> string) \<Rightarrow> (upload_task \<times> attempt_env) list \<Rightarrow> part_store \<Rightarrow> upload_session option \<times> part_store" where
  "upload_history sha attempts server =
     fold (\<lambda>(task, E) (recorded, server). snd (upload_attempt sha task E recorded server)) attempts (None, server)"

definition history_streams :: "(upload_task \<times> attempt_env) list \<Rightarrow> bytes set" where
  "history_streams attempts = (\<lambda>(task, E). fst (ae_stream E)) ` set attempts"

lemma collision_free_mono: "collision_free sha D \<Longrightarrow> D' \<subseteq> D \<Longrightarrow> collision_free sha D'"
  unfolding collision_free_def by (rule inj_on_subset) auto

lemma upload_history_progress:
  assumes "upload_history sha attempts server = (recorded, server')" and "collision_free sha D"
    and "history_streams attempts \<subseteq> D"
  shows "progress_true sha D recorded server'"
proof -
  have "progress_true sha D recorded0 server0 \<Longrightarrow>
      fold (\<lambda>(task, E) (recorded, server). snd (upload_attempt sha task E recorded server)) attempts (recorded0, server0) = (recorded, server')
      \<Longrightarrow> progress_true sha D recorded server'" for recorded0 server0
    using assms(3)
  proof (induction attempts arbitrary: recorded0 server0)
    case (Cons x attempts)
    obtain task E where x: "x = (task, E)" by fastforce
    obtain r recorded1 server1 where a: "upload_attempt sha task E recorded0 server0 = (r, recorded1, server1)" by (metis prod_cases3)
    have "progress_true sha D recorded1 server1"
      using upload_attempt_inv [OF a Cons.prems(1) _ assms(2)] Cons.prems(3) x by (simp add: history_streams_def)
    then show ?case using Cons.IH [of recorded1 server1] Cons.prems(2,3) x a by (simp add: history_streams_def)
  qed simp
  moreover have "progress_true sha D None server" by (simp add: progress_true_def)
  ultimately show ?thesis using assms(1) by (simp add: upload_history_def)
qed

text \<open>C25: after any history of attempts, whatever was uploaded, in whatever order parts were confirmed, rejected
  or lost, wherever an attempt was cut off and whichever calls of the store failed, the recorded parts are
  all stored under the recorded identifier and the recorded digest is the digest of their bytes.\<close>

theorem recorded_progress_is_stored:
  assumes "upload_history sha attempts server = (Some s, server')" and "collision_free sha (history_streams attempts)"
  shows "0 \<le> us_completed_parts s \<and> all_stored server' (us_file_id s) (us_completed_parts s) \<and>
    sha (stored_bytes server' (us_file_id s) (us_completed_parts s)) = us_prefix_sha256 s"
  using upload_history_progress [OF assms subset_refl] by (simp add: progress_true_def)

section \<open>What an attempt sends\<close>

text \<open>An attempt works on any store alike, so what it sends shows on a store that has nothing yet: the runs that
  have only sent parts from \<open>m\<close> on change no part before it, and none of another identifier.\<close>

definition sends_from :: "int \<Rightarrow> int \<Rightarrow> part_run \<Rightarrow> bool" where
  "sends_from m i run \<longleftrightarrow> us_file_id (pr_session run) = i \<and> m \<le> pr_next run \<and> (\<forall>x\<in>set (pr_flight run). m \<le> fst x)"

definition same_before :: "int \<Rightarrow> int \<Rightarrow> part_store \<Rightarrow> part_store \<Rightarrow> bool" where
  "same_before m i other other' \<longleftrightarrow> (\<forall>j p. j \<noteq> i \<or> p < m \<longrightarrow> other' (j, p) = other (j, p))"

lemma same_before_refl [simp]: "same_before m i other other"
  by (simp add: same_before_def)

lemma same_before_trans: "same_before m i a b \<Longrightarrow> same_before m i b c \<Longrightarrow> same_before m i a c"
  by (simp add: same_before_def)

lemma fill_flight_sends: "sends_from m i run \<Longrightarrow> sends_from m i (fill_flight sha run)"
proof (induction sha run rule: fill_flight.induct)
  case (1 sha run)
  have "sends_from m i (send_next sha run)"
    using "1.prems" by (auto simp: sends_from_def send_next_def split: prod.splits sum.splits)
  then show ?case using 1 by (subst fill_flight.simps) simp
qed

lemma landed_sends: "sends_from m i run \<Longrightarrow> sends_from m i (landed part run)"
  by (auto simp: sends_from_def landed_def)

lemma advance_sends: "sends_from m i run \<Longrightarrow> sends_from m i (advance run)"
proof (induction run rule: advance.induct)
  case (1 run)
  have "sends_from m i (take_confirmed run)" using "1.prems" by (simp add: sends_from_def take_confirmed_def Let_def)
  then show ?case using 1 by (subst advance.simps) simp
qed

lemma store_part_before: "sends_from m i run \<Longrightarrow> same_before m i other (store_part run part other)"
  by (auto simp: sends_from_def same_before_def store_part_def dest!: map_of_SomeD split: option.splits)

lemma lost_parts_before:
  assumes "sends_from m i run" shows "same_before m i other (lost_parts stored run other)"
proof -
  have "same_before m i other (fold (\<lambda>(part, _). if stored part then store_part run part else id) xs other)" for xs other
  proof (induction xs arbitrary: other)
    case (Cons x xs)
    show ?case using Cons.IH [of "store_part run (fst x) other"] Cons.IH [of other]
        same_before_trans [OF store_part_before [OF assms, of other "fst x"]]
      by (auto split: prod.splits)
  qed simp
  then show ?thesis by (simp add: lost_parts_def)
qed

lemma handle_outcome_other:
  assumes "handle_outcome outcome run recorded server = (r, recorded', server')" and "sends_from m i run"
  shows "\<exists>other'. handle_outcome outcome run recorded other = (r, recorded', other') \<and> same_before m i other other' \<and>
    (\<forall>run'. r = Ok run' \<longrightarrow> sends_from m i run')"
proof (cases outcome)
  case (Confirmed part checkpoint)
  let ?run = "advance ((landed part run)\<lparr>pr_confirmed := bt_insert part () (pr_confirmed (landed part run))\<rparr>)"
  have "sends_from m i ((landed part run)\<lparr>pr_confirmed := bt_insert part () (pr_confirmed (landed part run))\<rparr>)"
    using landed_sends [OF assms(2)] by (simp add: sends_from_def)
  then have "sends_from m i ?run" by (rule advance_sends)
  then show ?thesis
    using assms Confirmed store_part_before [OF assms(2), of other part]
    by (auto simp: Let_def map_sum_Ok split: option.splits prod.splits)
next
  case (Rejected part e stored)
  have "sends_from m i ((landed part run)\<lparr>pr_failure := f\<rparr>)" for f
    using landed_sends [OF assms(2)] by (simp add: sends_from_def)
  then show ?thesis using assms Rejected store_part_before [OF assms(2), of other part] by auto
qed

lemma upload_loop_other:
  "upload_loop sha stored outcomes run recorded server = (r, recorded', server') \<Longrightarrow> sends_from m i run \<Longrightarrow>
   \<exists>other'. upload_loop sha stored outcomes run recorded other = (r, recorded', other') \<and> same_before m i other other'"
proof (induction outcomes arbitrary: run recorded server other)
  case Nil
  then show ?case using lost_parts_before [OF fill_flight_sends [OF Nil.prems(2)]]
    by (auto simp: upload_loop.simps [of _ _ "[]"] Let_def split: if_splits)
next
  case (Cons outcome outcomes)
  let ?run = "fill_flight sha run"
  note F = fill_flight_sends [OF Cons.prems(2), of sha]
  show ?case
  proof (cases "pr_flight ?run = [] \<or> map_of (pr_flight ?run) (outcome_part outcome) = None")
    case True
    then show ?thesis using Cons.prems(1) lost_parts_before [OF F]
      by (auto simp: upload_loop.simps [of _ _ "outcome # outcomes"] Let_def split: if_splits)
  next
    case False
    obtain r1 recorded1 server1 where h: "handle_outcome outcome ?run recorded server = (r1, recorded1, server1)"
      by (metis prod_cases3)
    obtain other1 where o: "handle_outcome outcome ?run recorded other = (r1, recorded1, other1)"
      "same_before m i other other1" "\<And>run'. r1 = Ok run' \<Longrightarrow> sends_from m i run'"
      using handle_outcome_other [OF h F, of other] by blast
    show ?thesis
    proof (cases r1)
      case (Inl e)
      have "same_before m i other1 (lost_parts stored (landed (outcome_part outcome) ?run) other1)"
        by (rule lost_parts_before [OF landed_sends [OF F]])
      from same_before_trans [OF o(2) this] show ?thesis using Cons.prems(1) False h o(1) Inl
        by (auto simp: upload_loop.simps [of _ _ "outcome # outcomes"] Let_def)
    next
      case (Inr run2)
      have "upload_loop sha stored outcomes run2 recorded1 server1 = (r, recorded', server')"
        using Cons.prems(1) False h Inr by (auto simp: upload_loop.simps [of _ _ "outcome # outcomes"] Let_def)
      from Cons.IH [OF this o(3) [OF Inr], of other1] obtain other' where
        "upload_loop sha stored outcomes run2 recorded1 other1 = (r, recorded', other')" and t: "same_before m i other1 other'" by blast
      then show ?thesis using False o(1) Inr same_before_trans [OF o(2) t]
        by (auto simp: upload_loop.simps [of _ _ "outcome # outcomes"] Let_def)
    qed
  qed
qed

lemma fill_flight_session: "pr_session (fill_flight sha run) = pr_session run \<and> pr_resumed (fill_flight sha run) = pr_resumed run"
proof (induction sha run rule: fill_flight.induct)
  case (1 sha run)
  have "pr_session (send_next sha run) = pr_session run \<and> pr_resumed (send_next sha run) = pr_resumed run"
    by (auto simp: send_next_def split: prod.splits sum.splits)
  then show ?case using 1 by (subst (1 2) fill_flight.simps) simp
qed

lemma advance_session: "us_file_id (pr_session (advance run)) = us_file_id (pr_session run) \<and> pr_resumed (advance run) = pr_resumed run"
proof (induction run rule: advance.induct)
  case (1 run)
  then show ?case by (subst (1 2) advance.simps) (auto simp: take_confirmed_def Let_def)
qed

lemma upload_loop_session:
  "upload_loop sha stored outcomes run recorded server = (Emptied run', recorded', server') \<Longrightarrow>
   us_file_id (pr_session run') = us_file_id (pr_session run) \<and> pr_resumed run' = pr_resumed run"
proof (induction outcomes arbitrary: run recorded server)
  case Nil
  then show ?case using fill_flight_session by (auto simp: upload_loop.simps [of _ _ "[]"] Let_def split: if_splits)
next
  case (Cons outcome outcomes)
  have h: "us_file_id (pr_session run2) = us_file_id (pr_session r0) \<and> pr_resumed run2 = pr_resumed r0"
    if "handle_outcome outcome r0 recorded server = (Ok run2, rec2, server2)" for r0 run2 rec2 server2
    using that advance_session by (cases outcome)
      (auto simp: Let_def landed_def map_sum_Ok split: option.splits prod.splits)
  show ?case
    using Cons.prems Cons.IH h fill_flight_session [of sha run]
    by (fastforce simp: upload_loop.simps [of _ _ "outcome # outcomes"] Let_def split: if_splits prod.splits sum.splits)
qed

text \<open>Where an attempt begins: at the end of the recorded part of the record it continues, or at part 0.\<close>

lemma begin_upload_from:
  assumes "begin_upload sha task B stream recorded = (Ok run, recorded')"
  shows "sends_from (pr_resumed run) (us_file_id (pr_session run)) run \<and>
    (pr_resumed run = 0 \<or> (\<exists>s. recorded = Some s \<and> us_file_id s = us_file_id (pr_session run) \<and>
       us_completed_parts s = pr_resumed run))"
proof -
  obtain total session recorded1 where c: "choose_session sha task B total recorded = (Ok session, recorded1)"
    and run: "pr_session run = session" "pr_resumed run = us_completed_parts session" "pr_next run = us_completed_parts session"
      "pr_flight run = []"
    using assms by (auto simp: begin_upload_def Let_def split: if_splits sum.splits prod.splits)
  have "us_completed_parts session = 0 \<or> recorded = Some session"
    using c by (cases "ub_lookup B"; cases "ub_forget B")
      (auto simp: choose_session_def fresh_session_def find_session_def discard_session_def
        split: sum.splits option.splits if_splits prod.splits)
  then show ?thesis using run by (auto simp: sends_from_def)
qed

text \<open>C24: an upload that succeeds, after any history of attempts, has all its parts stored and together they are
  the bytes of its stream. It begins behind the parts its record says are confirmed, or at the first part
  when it continues no record, and sends none before that: the same attempt, with the same answers, on a
  store that has nothing yet, still leaves every earlier part and every other upload as they were. (Parts
  that were stored without being recorded are sent again.)\<close>

theorem finished_upload_is_the_stream:
  assumes "upload_history sha attempts server = (recorded, server1)"
    and "collision_free sha (insert (fst (ae_stream E)) (history_streams attempts))"
    and "upload_attempt sha task E recorded server1 = (Some (Ok up), recorded', server2)"
  shows "parts_of (ut_total_bytes task) = Ok (up_total_parts up) \<and>
    unat (ut_total_bytes task) \<le> length (fst (ae_stream E)) \<and>
    all_stored server2 (up_file_id up) (up_total_parts up) \<and>
    stored_bytes server2 (up_file_id up) (up_total_parts up) = take (unat (ut_total_bytes task)) (fst (ae_stream E)) \<and>
    (up_resumed_parts up = 0 \<or>
      (\<exists>s. recorded = Some s \<and> us_file_id s = up_file_id up \<and> us_completed_parts s = up_resumed_parts up)) \<and>
    (\<forall>other. \<exists>other'. upload_attempt sha task E recorded other = (Some (Ok up), recorded', other') \<and>
      (\<forall>i p. i \<noteq> up_file_id up \<or> p < up_resumed_parts up \<longrightarrow> other' (i, p) = other (i, p)))"
proof -
  obtain run recorded1 run' recorded2 where b: "begin_upload sha task (ae_begin E) (ae_stream E) recorded = (Ok run, recorded1)"
    and l: "upload_loop sha (ae_stored E) (ae_outcomes E) run recorded1 server1 = (Emptied run', recorded2, server2)"
    and f: "finish_upload (ae_end_at E) (ae_end E) (ut_remote_name task) run' recorded2 = (Ok up, recorded')"
    using assms(3) by (auto simp: upload_attempt_def split: prod.splits sum.splits loop_end.splits)
  have up: "up_file_id up = us_file_id (pr_session run)" "up_resumed_parts up = pr_resumed run"
    using upload_loop_session [OF l] f by (auto simp: finish_upload_def split: prod.splits sum.splits option.splits)
  note B = begin_upload_from [OF b]
  have "\<exists>other'. upload_attempt sha task E recorded other = (Some (Ok up), recorded', other') \<and>
      (\<forall>i p. i \<noteq> up_file_id up \<or> p < up_resumed_parts up \<longrightarrow> other' (i, p) = other (i, p))" for other
    using upload_loop_other [OF l B [THEN conjunct1], of other] b f up
    by (auto simp: upload_attempt_def same_before_def)
  then show ?thesis
    using upload_attempt_inv [OF assms(3) upload_history_progress [OF assms(1,2)] _ assms(2)] B up by auto
qed

section \<open>Every attempt ends\<close>

definition unsettled :: "part_run \<Rightarrow> nat" where
  "unsettled run = length (pr_flight run) + (if pr_failure run = None then nat (run_parts run - pr_next run) else 0)"

lemma send_next_unsettled: "may_read run \<Longrightarrow> unsettled (send_next sha run) \<le> unsettled run"
  by (auto simp: unsettled_def send_next_def may_read_def split: prod.splits sum.splits)

lemma fill_flight_unsettled: "unsettled (fill_flight sha run) \<le> unsettled run"
proof (induction sha run rule: fill_flight.induct)
  case (1 sha run)
  then show ?case using send_next_unsettled [of run sha] by (auto simp: fill_flight.simps [of sha run])
qed

lemma handle_outcome_unsettled:
  assumes "handle_outcome outcome run recorded server = (Ok run', recorded', server')"
    and "map_of (pr_flight run) (outcome_part outcome) \<noteq> None"
  shows "unsettled run' < unsettled run"
proof -
  obtain bs where "(outcome_part outcome, bs) \<in> set (pr_flight run)"
    using assms(2) by (auto dest: map_of_SomeD)
  then have "length (filter (\<lambda>x. fst x \<noteq> outcome_part outcome) (pr_flight run)) < length (pr_flight run)"
    by (intro length_filter_less) auto
  moreover have "run_parts (advance run) = run_parts run" for run
  proof (induction run rule: advance.induct)
    case (1 run)
    then show ?case by (simp add: advance.simps [of run]) (simp add: take_confirmed_def Let_def)
  qed
  ultimately show ?thesis using assms(1)
    by (cases outcome) (auto simp: unsettled_def landed_def Let_def map_sum_Ok split: option.splits prod.splits)
qed

text \<open>an attempt asks for no more outcomes than it has parts left to send: given that many, it is never left
  waiting for another one.\<close>

theorem attempt_ends:
  assumes "nat (run_parts run - pr_next run) + length (pr_flight run) \<le> length outcomes"
  shows "fst (upload_loop sha stored outcomes run recorded server) \<noteq> CutOff"
proof -
  have "unsettled run \<le> length outcomes" using assms by (simp add: unsettled_def)
  then show ?thesis
  proof (induction outcomes arbitrary: run recorded server)
    case Nil
    then have "pr_flight (fill_flight sha run) = []" using fill_flight_unsettled [of sha run] by (simp add: unsettled_def)
    then show ?case by (simp add: upload_loop.simps [of _ _ "[]"] Let_def)
  next
    case (Cons outcome outcomes)
    let ?run = "fill_flight sha run"
    obtain r recorded1 server1 where h: "handle_outcome outcome ?run recorded server = (r, recorded1, server1)"
      by (metis prod_cases3)
    have "unsettled ?run \<le> Suc (length outcomes)" using Cons.prems fill_flight_unsettled [of sha run] by simp
    then have "fst (upload_loop sha stored outcomes run2 recorded1 server1) \<noteq> CutOff"
        if "r = Ok run2" "map_of (pr_flight ?run) (outcome_part outcome) \<noteq> None" for run2
      using Cons.IH [of run2] handle_outcome_unsettled [OF h [unfolded that(1)] that(2)] by simp
    then show ?case using h by (cases r) (auto simp: upload_loop.simps [of _ _ "outcome # outcomes"] Let_def)
  qed
qed

section \<open>Resuming\<close>

lemma send_next_complete:
  assumes "run_inv sha d run server" and "may_read run" and "unat (run_bytes run) \<le> length d"
  shows "pr_failure (send_next sha run) = None"
proof -
  have R: "read_inv sha d run" using assms(1) by (simp add: run_inv_def)
  let ?b = "run_bytes run" and ?t = "run_parts run" and ?n = "pr_next run"
  have n: "parts_of ?b = Ok ?t" "?b \<noteq> 0" "0 \<le> ?n" "?n < ?t" "pr_failure run = None"
    using R assms(2) by (simp_all add: read_inv_def may_read_def)
  obtain fault where st: "pr_stream run = (drop (piece_end ?b ?t ?n) d, fault)"
    using R n(5) by (cases "pr_stream run") (simp add: read_inv_def)
  have "piece_end ?b ?t (?n + 1) \<le> piece_end ?b ?t ?t" by (rule piece_end_mono) (use n in simp_all)
  then have "piece_end ?b ?t (?n + 1) \<le> length d" using assms(3) by (simp add: piece_end_def)
  then show ?thesis using n(5) by (simp add: send_next_def st read_part_piece [OF n(1-4)] del: read_part.simps)
qed

lemma fill_flight_complete:
  assumes "run_inv sha d run server" and "pr_failure run = None" and "unat (run_bytes run) \<le> length d"
  shows "pr_failure (fill_flight sha run) = None"
  using assms
proof (induction sha run rule: fill_flight.induct)
  case (1 sha run)
  show ?case
  proof (cases "may_read run")
    case True
    have "pr_failure (fill_flight sha (send_next sha run)) = None"
      by (rule "1.IH" [OF True send_next_inv(1) [OF "1.prems"(1) True] send_next_complete [OF "1.prems"(1) True "1.prems"(3)]])
         (use "1.prems"(3) in simp)
    then show ?thesis using True by (simp add: fill_flight.simps [of sha run])
  qed (use "1.prems" in \<open>simp add: fill_flight.simps [of sha run]\<close>)
qed

lemma no_flight:
  assumes "run_inv sha d run server" and "pr_next run \<le> run_done run"
  shows "pr_flight run = []"
proof (cases "pr_flight run")
  case (Cons x xs)
  have "run_done run \<le> fst x \<and> fst x < pr_next run"
    using assms(1) Cons by (cases x) (simp add: run_inv_def flight_inv_def)
  then show ?thesis using assms(2) by simp
qed

text \<open>While parts are missing, the first of them is on its way.\<close>

lemma first_missing_in_flight:
  assumes "run_inv sha d run server" and "\<not> may_read run" and "pr_failure run = None" and "pr_confirmed run = []"
    and "run_done run < run_parts run"
  shows "map_of (pr_flight run) (run_done run) \<noteq> None"
proof -
  have R: "read_inv sha d run" and F: "flight_inv d run" using assms(1) by (simp_all add: run_inv_def)
  have cover: "\<forall>p. run_done run \<le> p \<and> p < pr_next run \<longrightarrow> (\<exists>bs. (p, bs) \<in> set (pr_flight run)) \<or> bt_contains (pr_confirmed run) p"
    by (rule F [unfolded flight_inv_def, THEN conjunct2, THEN conjunct2, THEN conjunct2, THEN mp, OF assms(3)])
  have "run_done run < pr_next run"
  proof (rule ccontr)
    assume "\<not> run_done run < pr_next run"
    then have next_is: "pr_next run = run_done run" using R by (simp add: read_inv_def)
    then have "pr_flight run = []" using no_flight [OF assms(1)] by simp
    then show False using assms(2,3,5) next_is by (simp add: may_read_def WORKERS_def)
  qed
  then have "\<exists>bs. (run_done run, bs) \<in> set (pr_flight run)" using cover assms(4) by (simp add: bt_contains_def)
  then show ?thesis using weak_map_of_SomeI by fastforce
qed

lemma confirmed_in_order:
  assumes "pr_confirmed run = []"
  shows "pr_confirmed (advance ((landed part run)\<lparr>pr_confirmed := bt_insert (run_done run) () []\<rparr>)) = [] \<and>
    run_done (advance ((landed part run)\<lparr>pr_confirmed := bt_insert (run_done run) () []\<rparr>)) = run_done run + 1 \<and>
    run_parts (advance ((landed part run)\<lparr>pr_confirmed := bt_insert (run_done run) () []\<rparr>)) = run_parts run"
  by (simp add: advance.simps take_confirmed_def Let_def bt_contains_def bt_remove_def)

lemma loop_in_order:
  assumes "run_inv sha d run server" and "pr_failure run = None" and "unat (run_bytes run) \<le> length d"
    and "pr_confirmed run = []" and "run_parts run = run_done run + int n"
  shows "\<exists>run' server'. upload_loop sha stored (map (\<lambda>p. Confirmed p None) [run_done run..run_parts run - 1]) run recorded server =
      (Emptied run', recorded, server') \<and> pr_failure run' = None"
  using assms
proof (induction n arbitrary: run server)
  case 0
  let ?run = "fill_flight sha run"
  have I: "run_inv sha d ?run server" "\<not> may_read ?run" using fill_flight_inv [OF "0.prems"(1)] by simp_all
  have "pr_next ?run \<le> run_parts ?run" using I(1) by (simp add: run_inv_def read_inv_def)
  then have "pr_flight ?run = []" using no_flight [OF I(1)] "0.prems"(5) by simp
  then show ?case using fill_flight_complete [OF "0.prems"(1-3)] "0.prems"(5)
    by (simp add: upload_loop.simps [of _ _ "[]"] Let_def)
next
  case (Suc n)
  let ?run = "fill_flight sha run" and ?k = "run_done run"
  have I: "run_inv sha d ?run server" "\<not> may_read ?run" using fill_flight_inv [OF Suc.prems(1)] by simp_all
  have ok: "pr_failure ?run = None" by (rule fill_flight_complete [OF Suc.prems(1-3)])
  have part: "map_of (pr_flight ?run) ?k \<noteq> None"
    using first_missing_in_flight [OF I ok] Suc.prems(4,5) by simp
  let ?run2 = "advance ((landed ?k ?run)\<lparr>pr_confirmed := bt_insert ?k () []\<rparr>)" and ?server = "store_part ?run ?k server"
  have I2: "run_inv sha d ?run2 ?server" using confirm_inv [OF I(1) part] Suc.prems(4) by simp
  have C: "pr_confirmed ?run2 = []" "run_done ?run2 = ?k + 1" "run_parts ?run2 = run_parts run"
    using confirmed_in_order [of ?run ?k] Suc.prems(4) by simp_all
  have b: "run_bytes ?run2 = run_bytes run" using advance_fields [of "(landed ?k ?run)\<lparr>pr_confirmed := bt_insert ?k () []\<rparr>"] by simp
  have "[?k..run_parts run - 1] = ?k # [?k + 1..run_parts run - 1]" using Suc.prems(5) by (simp add: upto_rec1)
  moreover have "pr_flight ?run \<noteq> []" using part by auto
  moreover have "\<exists>run' server'. upload_loop sha stored (map (\<lambda>p. Confirmed p None) [?k + 1..run_parts run - 1]) ?run2 recorded ?server =
      (Emptied run', recorded, server') \<and> pr_failure run' = None"
    using Suc.IH [OF I2] ok Suc.prems(3,5) C b by simp
  ultimately show ?case using part Suc.prems(4)
    by (auto simp: upload_loop.simps [of _ _ "Confirmed ?k None # _"] Let_def)
qed

lemma read_prefix_complete:
  assumes "parts_of b = Ok t" and "b \<noteq> 0" and "0 \<le> p" and "p + int n \<le> t" and "piece_end b t (p + int n) \<le> length d"
  shows "\<exists>sent stream. read_prefix (drop (piece_end b t p) d, fault) p n t b = (Ok sent, stream)"
  using assms(3-)
proof (induction n arbitrary: p)
  case (Suc n)
  have p: "p < t" using Suc.prems by simp
  have "piece_end b t (p + 1) \<le> piece_end b t (p + int (Suc n))"
    by (rule piece_end_mono) (use assms(1,2) Suc.prems in simp_all)
  then have "read_part (drop (piece_end b t p) d, fault) p t b = (Ok (piece b t d p), drop (piece_end b t (p + 1)) d, fault)"
    using read_part_piece [OF assms(1,2) Suc.prems(1) p, of d fault] Suc.prems(3) by simp
  moreover have "\<exists>sent stream. read_prefix (drop (piece_end b t (p + 1)) d, fault) (p + 1) n t b = (Ok sent, stream)"
    by (rule Suc.IH) (use Suc.prems in \<open>simp_all add: algebra_simps\<close>)
  ultimately show ?case by (auto simp del: read_part.simps)
qed simp

text \<open>C26: an upload whose recorded progress is still usable continues it: if its stream still begins with the recorded
  bytes, the store works and Telegram confirms what is missing, the attempt succeeds under the recorded identifier
  and sends only the parts after the recorded ones.\<close>

theorem resumed_upload_completes:
  assumes "upload_history sha attempts server = (Some s, server1)"
    and "collision_free sha (insert (fst (ae_stream E)) (history_streams attempts))"
    and "usable_session (ut_source task) (ub_now (ae_begin E)) s" and "same_upload task (us_total_parts s) s"
    and "parts_of (ut_total_bytes task) = Ok (us_total_parts s)" and "ut_total_bytes task \<noteq> 0"
    and "unat (ut_total_bytes task) \<le> length (fst (ae_stream E))"
    and "sha (take (piece_end (ut_total_bytes task) (us_total_parts s) (us_completed_parts s)) (fst (ae_stream E))) = us_prefix_sha256 s"
    and "ub_lookup (ae_begin E) = Performed" and "ub_save (ae_begin E) = Performed" and "ae_end E = Performed"
    and "ae_outcomes E = map (\<lambda>p. Confirmed p None) [us_completed_parts s..us_total_parts s - 1]"
  shows "\<exists>recorded server2. upload_attempt sha task E (Some s) server1 =
      (Some (Ok \<lparr>up_file_id = us_file_id s, up_total_parts = us_total_parts s,
          up_name = (if ut_remote_name task = [] then ''a'' else ut_remote_name task), up_resumed_parts = us_completed_parts s\<rparr>),
       recorded, server2) \<and>
    (\<forall>i p. i \<noteq> us_file_id s \<or> p < us_completed_parts s \<longrightarrow> server2 (i, p) = server1 (i, p))"
proof -
  let ?b = "ut_total_bytes task" and ?t = "us_total_parts s" and ?k = "us_completed_parts s" and ?d = "fst (ae_stream E)"
  let ?D = "insert ?d (history_streams attempts)"
  have P: "progress_true sha ?D (Some s) server1"
    by (rule upload_history_progress [OF assms(1,2)]) auto
  have bounds: "0 \<le> ?k" "?k \<le> ?t" "0 < ?t" using assms(3) by (simp_all add: usable_session_def)
  have choose: "choose_session sha task (ae_begin E) ?t (Some s) = (Ok s, Some s)"
    using assms(3,4,9) by (simp add: choose_session_def find_session_def)
  obtain fault where st: "ae_stream E = (drop (piece_end ?b ?t 0) ?d, fault)"
    using bounds by (cases "ae_stream E") (simp add: piece_end_simps)
  have reach: "piece_end ?b ?t ?k \<le> length ?d"
    using piece_end_mono [OF assms(5,6) bounds(1,2)] assms(7) by (simp add: piece_end_def)
  obtain sent stream1 where pre: "read_prefix (ae_stream E) 0 (nat ?k) ?t ?b = (Ok sent, stream1)"
    using read_prefix_complete [OF assms(5,6), of 0 "nat ?k" ?d fault] st bounds reach by auto
  have "sent = take (piece_end ?b ?t ?k) ?d"
    using read_prefix_pieces [OF assms(5,6), of 0 "nat ?k" ?d fault sent stream1] pre st bounds
    by (simp add: piece_end_simps)
  then obtain run recorded1 where b: "begin_upload sha task (ae_begin E) (ae_stream E) (Some s) = (Ok run, recorded1)"
      and run: "pr_session run = s" "pr_confirmed run = []" "pr_failure run = None" "pr_resumed run = ?k"
    using choose pre assms(5,6,8,10) by (simp add: begin_upload_def Let_def save_session_def)
  note I = begin_upload_inv [OF b P _ assms(2)]
  have "\<exists>run' server2. upload_loop sha (ae_stored E) (ae_outcomes E) run recorded1 server1 = (Emptied run', recorded1, server2) \<and>
      pr_failure run' = None"
    using loop_in_order [of sha ?d run server1 "nat (?t - ?k)" "ae_stored E" recorded1] I run assms(4,7,12) bounds
    by (simp add: same_upload_def)
  then obtain run' server2 where l: "upload_loop sha (ae_stored E) (ae_outcomes E) run recorded1 server1 = (Emptied run', recorded1, server2)"
      "pr_failure run' = None" by blast
  then obtain up recorded2 where a: "upload_attempt sha task E (Some s) server1 = (Some (Ok up), recorded2, server2)"
      "up = \<lparr>up_file_id = run_id run', up_total_parts = run_parts run',
          up_name = (if ut_remote_name task = [] then ''a'' else ut_remote_name task), up_resumed_parts = pr_resumed run'\<rparr>"
    using b assms(11) by (simp add: upload_attempt_def finish_upload_def save_session_def)
  have "run_id run' = us_file_id s" "pr_resumed run' = ?k"
    using upload_loop_inv [of sha ?d run server1 ?D recorded1 "ae_stored E" "ae_outcomes E"] I l(1) run by auto
  moreover have "run_parts run' = ?t"
    using upload_attempt_inv [OF a(1) P _ assms(2)] a(2) assms(5) by simp
  ultimately show ?thesis
    using upload_attempt_inv [OF a(1) P _ assms(2)] a by auto
qed

section \<open>A small file\<close>

definition demo_sha :: "bytes \<Rightarrow> string" where "demo_sha = map (\<lambda>b. char_of (unat b))"
definition demo_bytes :: bytes where "demo_bytes = [1, 2, 3]"

definition demo_task :: upload_task where
  "demo_task = \<lparr>ut_source = \<lparr>sf_bytes = 3, sf_modified_ns = Some 0\<rparr>, ut_total_bytes = 3, ut_remote_name = ''f'',
     ut_envelope_header = None\<rparr>"

definition demo_begin :: upload_begin where
  "demo_begin = \<lparr>ub_now = 100, ub_lookup = Performed, ub_created = 100, ub_forget = Performed, ub_file_id = 7,
     ub_stale = Performed, ub_save = Performed, ub_saved_at = 100\<rparr>"

definition demo_attempt :: "part_outcome list \<Rightarrow> attempt_env" where
  "demo_attempt outcomes = \<lparr>ae_begin = demo_begin, ae_stream = (demo_bytes, None), ae_outcomes = outcomes,
     ae_stored = (\<lambda>_. False), ae_end = Performed, ae_end_at = 101\<rparr>"

definition demo_session :: upload_session where
  "demo_session = \<lparr>us_file_id = 7, us_total_bytes = 3, us_total_parts = 1, us_completed_parts = 1,
     us_prefix_sha256 = demo_sha demo_bytes, us_source = ut_source demo_task, us_remote_name = ''f'',
     us_envelope_header = None, us_created_at = 100, us_updated_at = 101\<rparr>"

lemma demo_sha_inj: "inj demo_sha"
proof -
  have "b = c" if "(char_of (unat b) :: char) = char_of (unat c)" for b c :: u8
  proof -
    have "of_char (char_of (unat b) :: char) = (of_char (char_of (unat c) :: char) :: nat)" using that by simp
    then show ?thesis using unat_u8_less [of b] unat_u8_less [of c] by (simp add: word_unat_eq_iff)
  qed
  then have "inj (\<lambda>b :: u8. char_of (unat b) :: char)" by (rule injI)
  then show ?thesis unfolding demo_sha_def by simp
qed

lemma demo_free: "collision_free demo_sha D"
  unfolding collision_free_def by (rule inj_on_subset [OF demo_sha_inj]) simp

lemma demo_parts: "parts_of 3 = Ok 1"
  by (simp add: parts_of_def div_ceil_u64_def PART_BYTES_def)

lemma demo_begun:
  "begin_upload demo_sha demo_task demo_begin (demo_bytes, None) None =
    (Ok \<lparr>pr_session = fresh_session demo_sha demo_task demo_begin 1, pr_resumed = 0, pr_stream = (demo_bytes, None), pr_next = 0,
         pr_sent = [], pr_flight = [], pr_digests = [], pr_confirmed = [], pr_failure = None\<rparr>,
     Some (fresh_session demo_sha demo_task demo_begin 1))"
  by (simp add: begin_upload_def demo_task_def demo_begin_def demo_parts choose_session_def find_session_def
      fresh_session_def save_session_def Let_def)

lemma demo_fields:
  "ae_begin (demo_attempt outcomes) = demo_begin" "ae_stream (demo_attempt outcomes) = (demo_bytes, None)"
  "ae_outcomes (demo_attempt outcomes) = outcomes" "ae_end (demo_attempt outcomes) = Performed"
  "ae_end_at (demo_attempt outcomes) = 101" "ut_remote_name demo_task = ''f''"
  by (simp_all add: demo_attempt_def demo_task_def)

definition demo_run :: part_run where
  "demo_run = \<lparr>pr_session = fresh_session demo_sha demo_task demo_begin 1, pr_resumed = 0, pr_stream = (demo_bytes, None), pr_next = 0,
     pr_sent = [], pr_flight = [], pr_digests = [], pr_confirmed = [], pr_failure = None\<rparr>"

definition demo_sent :: part_run where
  "demo_sent = \<lparr>pr_session = demo_session\<lparr>us_updated_at := 100\<rparr>, pr_resumed = 0, pr_stream = ([], None), pr_next = 1,
     pr_sent = demo_bytes, pr_flight = [], pr_digests = [], pr_confirmed = [], pr_failure = None\<rparr>"

lemma demo_loop:
  "upload_loop demo_sha stored [Confirmed 0 None] demo_run recorded server =
     (Emptied demo_sent, recorded, server((7, 0) := Some demo_bytes))"
proof -
  have l: "part_length 0 1 3 = 3" by (simp add: part_length_def)
  show ?thesis
    by (simp add: demo_run_def upload_loop.simps fill_flight.simps may_read_def WORKERS_def
        send_next_def Let_def l fresh_session_def demo_task_def demo_begin_def demo_bytes_def advance.simps take_confirmed_def
        landed_def store_part_def bt_contains_def bt_remove_def demo_sent_def demo_session_def)
qed

lemma demo_uploaded:
  "upload_attempt demo_sha demo_task (demo_attempt [Confirmed 0 None]) None server =
    (Some (Ok \<lparr>up_file_id = 7, up_total_parts = 1, up_name = ''f'', up_resumed_parts = 0\<rparr>), Some demo_session,
     server((7, 0) := Some demo_bytes))"
  by (simp add: upload_attempt_def demo_fields demo_begun demo_loop [unfolded demo_run_def] finish_upload_def save_session_def
      demo_sent_def demo_session_def)

theorem recorded_progress_is_stored_witness:
  "\<exists>server. upload_history demo_sha [(demo_task, demo_attempt [Confirmed 0 None])] (\<lambda>_. None) = (Some demo_session, server) \<and>
     demo_sha (stored_bytes server 7 1) = us_prefix_sha256 demo_session"
proof -
  have h: "upload_history demo_sha [(demo_task, demo_attempt [Confirmed 0 None])] (\<lambda>_. None) =
      (Some demo_session, (\<lambda>_. None)((7, 0) := Some demo_bytes))"
    by (simp add: upload_history_def demo_uploaded)
  show ?thesis using recorded_progress_is_stored [OF h demo_free] h by (simp add: demo_session_def)
qed

lemma demo_history:
  "upload_history demo_sha [(demo_task, demo_attempt [Confirmed 0 None])] (\<lambda>_. None) =
     (Some demo_session, (\<lambda>_. None)((7, 0) := Some demo_bytes))"
  by (simp add: upload_history_def demo_uploaded)

text \<open>After the upload the message could not be published; the second attempt sends nothing.\<close>

lemma demo_resumed:
  "\<exists>recorded. upload_attempt demo_sha demo_task (demo_attempt []) (Some demo_session) server =
     (Some (Ok \<lparr>up_file_id = 7, up_total_parts = 1, up_name = ''f'', up_resumed_parts = 1\<rparr>), recorded, server)"
proof -
  have l: "part_length 0 1 3 = 3" by (simp add: part_length_def)
  have u: "usable_session (ut_source demo_task) (ub_now demo_begin) demo_session" "same_upload demo_task 1 demo_session"
    by (simp_all add: usable_session_def settled_source_def demo_session_def demo_task_def demo_begin_def wrap_i64_def
        RACY_SOURCE_WINDOW_SECS_def SESSION_MAX_AGE_SECS_def same_upload_def)
  have c: "choose_session demo_sha demo_task demo_begin 1 (Some demo_session) = (Ok demo_session, Some demo_session)"
    using u by (simp add: choose_session_def find_session_def demo_begin_def)
  have r: "read_prefix (demo_bytes, None) 0 (Suc 0) 1 3 = (Ok demo_bytes, ([], None))"
    by (simp add: demo_bytes_def l)
  have t: "ut_total_bytes demo_task = 3" "ub_stale demo_begin = Performed" "ub_save demo_begin = Performed" "(3 :: u64) \<noteq> 0"
    by (simp_all add: demo_task_def demo_begin_def)
  have s: "us_completed_parts demo_session = 1" "us_prefix_sha256 demo_session = demo_sha demo_bytes" "us_file_id demo_session = 7"
    "us_total_parts demo_session = 1"
    by (simp_all add: demo_session_def)
  show ?thesis
    by (simp add: upload_attempt_def demo_fields begin_upload_def t demo_parts c s r Let_def save_session_def
        upload_loop.simps fill_flight.simps may_read_def WORKERS_def finish_upload_def del: read_prefix.simps)
qed

theorem finished_upload_is_the_stream_witness:
  "stored_bytes ((\<lambda>_. None)((7, 0) := Some demo_bytes)) 7 1 = demo_bytes \<and>
   (\<forall>other. snd (snd (upload_attempt demo_sha demo_task (demo_attempt []) (Some demo_session) other)) (7, 0) = other (7, 0))"
proof -
  obtain recorded where r: "upload_attempt demo_sha demo_task (demo_attempt []) (Some demo_session)
      ((\<lambda>_. None)((7, 0) := Some demo_bytes)) =
     (Some (Ok \<lparr>up_file_id = 7, up_total_parts = 1, up_name = ''f'', up_resumed_parts = 1\<rparr>), recorded,
      (\<lambda>_. None)((7, 0) := Some demo_bytes))"
    using demo_resumed by blast
  note T = finished_upload_is_the_stream [OF demo_history demo_free r]
  have "snd (snd (upload_attempt demo_sha demo_task (demo_attempt []) (Some demo_session) other)) (7, 0) = other (7, 0)" for other
  proof -
    have "\<exists>other'. upload_attempt demo_sha demo_task (demo_attempt []) (Some demo_session) other =
        (Some (Ok \<lparr>up_file_id = 7, up_total_parts = 1, up_name = ''f'', up_resumed_parts = 1\<rparr>), recorded, other') \<and>
        (\<forall>i p. i \<noteq> 7 \<or> p < 1 \<longrightarrow> other' (i, p) = other (i, p))"
      using T [THEN conjunct2, THEN conjunct2, THEN conjunct2, THEN conjunct2, THEN conjunct2, THEN spec, of other] by simp
    then show ?thesis by auto
  qed
  moreover have "stored_bytes ((\<lambda>_. None)((7, 0) := Some demo_bytes)) 7 1 = demo_bytes"
    using T [THEN conjunct2, THEN conjunct2, THEN conjunct2, THEN conjunct1] by (simp add: demo_fields demo_task_def demo_bytes_def)
  ultimately show ?thesis by blast
qed

theorem attempt_ends_witness:
  "fst (upload_loop demo_sha (\<lambda>_. False) [Confirmed 0 None] demo_run None (\<lambda>_. None)) \<noteq> CutOff"
  by (rule attempt_ends) (simp add: demo_run_def fresh_session_def)

text \<open>After the upload the message could not be published; the second attempt sends nothing.\<close>

theorem resumed_upload_completes_witness:
  "\<exists>recorded server. upload_attempt demo_sha demo_task (demo_attempt []) (Some demo_session) ((\<lambda>_. None)((7, 0) := Some demo_bytes)) =
     (Some (Ok \<lparr>up_file_id = 7, up_total_parts = 1, up_name = ''f'', up_resumed_parts = 1\<rparr>), recorded, server)"
proof -
  have h: "upload_history demo_sha [(demo_task, demo_attempt [Confirmed 0 None])] (\<lambda>_. None) =
      (Some demo_session, (\<lambda>_. None)((7, 0) := Some demo_bytes))"
    by (simp add: upload_history_def demo_uploaded)
  have u: "usable_session (ut_source demo_task) (ub_now demo_begin) demo_session" "same_upload demo_task (us_total_parts demo_session) demo_session"
    by (simp_all add: usable_session_def settled_source_def demo_session_def demo_task_def demo_begin_def wrap_i64_def
        RACY_SOURCE_WINDOW_SECS_def SESSION_MAX_AGE_SECS_def same_upload_def)
  have "\<exists>recorded server2. upload_attempt demo_sha demo_task (demo_attempt []) (Some demo_session) ((\<lambda>_. None)((7, 0) := Some demo_bytes)) =
      (Some (Ok \<lparr>up_file_id = us_file_id demo_session, up_total_parts = us_total_parts demo_session,
          up_name = (if ut_remote_name demo_task = [] then ''a'' else ut_remote_name demo_task),
          up_resumed_parts = us_completed_parts demo_session\<rparr>), recorded, server2) \<and>
      (\<forall>i p. i \<noteq> us_file_id demo_session \<or> p < us_completed_parts demo_session \<longrightarrow>
        server2 (i, p) = ((\<lambda>_. None)((7, 0) := Some demo_bytes)) (i, p))"
    by (rule resumed_upload_completes [OF h demo_free])
       (use u in \<open>simp_all add: demo_fields, simp_all add: demo_session_def demo_task_def demo_begin_def demo_parts piece_end_def demo_bytes_def\<close>)
  then show ?thesis by (auto simp: demo_session_def demo_fields)
qed

end
