(* ===== verification/Bandwidth.thy ===== *)
theory Bandwidth
  imports Ordered_Map
begin

text \<open>
  The weekly bandwidth ledger (\<open>bandwidth.rs\<close>): durable statistics, holds for transfers that are under
  way, the roll-over of the week and the file that every change is written to. Days are counted from
  Monday, 1 January of the year 1; reading and printing dates (chrono) and printing sizes are
  parameters, and the answers of the clock and of the file system are an environment.
\<close>

section \<open>Statistics\<close>

record bandwidth_stats =
  bw_date :: string
  bw_up :: u64
  bw_down :: u64
  bw_limit :: u64
  bw_period :: string

definition WEEKLY_LIMIT_BYTES :: u64 where "WEEKLY_LIMIT_BYTES = 250 * 1024 * 1024 * 1024"
definition weekly_period_name :: string where "weekly_period_name = ''weekly''"

definition week_start_for :: "int \<Rightarrow> int" where
  "week_start_for date = date - date mod 7"

record calendar =
  parse_date :: "string \<Rightarrow> int option"
  format_date :: "int \<Rightarrow> string"

definition default_stats :: "calendar \<Rightarrow> int \<Rightarrow> bandwidth_stats" where
  "default_stats cal today =
     \<lparr>bw_date = format_date cal (week_start_for today), bw_up = 0, bw_down = 0, bw_limit = WEEKLY_LIMIT_BYTES,
      bw_period = weekly_period_name\<rparr>"

text \<open>The file: absent, present with the error of parsing it, or with statistics.\<close>

type_synonym ledger_file = "(string + bandwidth_stats) option"

definition load_stats ::
  "calendar \<Rightarrow> int \<Rightarrow> string option \<Rightarrow> bool \<Rightarrow> ledger_file \<Rightarrow> string + bandwidth_stats" where
  "load_stats cal today fault initial contents =
     (case fault of
        Some e \<Rightarrow> Err (''Unable to read bandwidth accounting: '' @ e)
      | None \<Rightarrow>
          (case contents of
             None \<Rightarrow>
               if initial then Ok (default_stats cal today)
               else Err ''Unable to read bandwidth accounting: not found''
           | Some (Inl e) \<Rightarrow> Err (''Invalid bandwidth accounting: '' @ e)
           | Some (Inr stats) \<Rightarrow>
               if parse_date cal (bw_date stats) = None then Err ''Invalid bandwidth accounting date''
               else if bw_limit stats = 0 \<or> checked_add_u64 (bw_up stats) (bw_down stats) = None
               then Err ''Invalid bandwidth accounting quota or usage''
               else Ok stats))"

section \<open>The ledger\<close>

datatype transfer_direction = UploadHold | DownloadHold

record hold =
  hd_bytes :: u64
  hd_direction :: transfer_direction

record ledger =
  lg_stats :: bandwidth_stats
  lg_holds :: "(u64, hold) btree"
  lg_next_id :: u64
  lg_persistence_error :: "string option"
  lg_load_error :: "string option"
  lg_limit :: u64
  lg_file :: ledger_file

text \<open>Answers during one operation: the day, and the failures of a read and of the writes in their order.\<close>

record ledger_env =
  le_today :: int
  le_read :: "string option"
  le_period :: "string option"
  le_retry :: "string option"
  le_write :: "string option"

definition open_ledger :: "calendar \<Rightarrow> ledger_env \<Rightarrow> ledger_file \<Rightarrow> ledger" where
  "open_ledger cal E contents =
     (case load_stats cal (le_today E) (le_read E) True contents of
        Inr stats \<Rightarrow> \<lparr>lg_stats = stats, lg_holds = [], lg_next_id = 0, lg_persistence_error = None, lg_load_error = None,
                      lg_limit = bw_limit stats, lg_file = contents\<rparr>
      | Inl e \<Rightarrow> \<lparr>lg_stats = default_stats cal (le_today E), lg_holds = [], lg_next_id = 0, lg_persistence_error = None,
                  lg_load_error = Some e, lg_limit = WEEKLY_LIMIT_BYTES, lg_file = contents\<rparr>)"

definition persist :: "string option \<Rightarrow> ledger \<Rightarrow> (string + unit) \<times> ledger" where
  "persist fault L =
     (case fault of
        None \<Rightarrow> (Ok (), L\<lparr>lg_persistence_error := None, lg_file := Some (Inr (lg_stats L))\<rparr>)
      | Some e \<Rightarrow> (Err e, L\<lparr>lg_persistence_error := Some e\<rparr>))"

text \<open>Sequencing of fallible operations on the ledger.\<close>

type_synonym 'a ledger_op = "ledger \<Rightarrow> (string + 'a) \<times> ledger"

definition lbind :: "'a ledger_op \<Rightarrow> ('a \<Rightarrow> 'b ledger_op) \<Rightarrow> 'b ledger_op" where
  "lbind f g L = (case f L of (Inl e, L') \<Rightarrow> (Err e, L') | (Inr v, L') \<Rightarrow> g v L')"

definition lift_result :: "string + 'a \<Rightarrow> 'a ledger_op" where
  "lift_result r L = (r, L)"

definition recover_load :: "calendar \<Rightarrow> ledger_env \<Rightarrow> unit ledger_op" where
  "recover_load cal E L =
     (if lg_load_error L = None then (Ok (), L)
      else case load_stats cal (le_today E) (le_read E) False (lg_file L) of
             Inr stats \<Rightarrow> (Ok (), L\<lparr>lg_limit := bw_limit stats, lg_stats := stats, lg_load_error := None\<rparr>)
           | Inl e \<Rightarrow> (Err e, L\<lparr>lg_load_error := Some e\<rparr>))"

definition roll_week :: "calendar \<Rightarrow> ledger_env \<Rightarrow> unit ledger_op" where
  "roll_week cal E L =
     (let monday = week_start_for (le_today E); previous = lg_stats L in
      case parse_date cal (bw_date previous) of
        None \<Rightarrow> (Err ''Invalid bandwidth accounting date'', L)
      | Some date \<Rightarrow>
          if monday < week_start_for date
          then (Err ''Bandwidth clock moved backward; retaining the later quota window'', L)
          else
            (let stats = (if date < monday then previous\<lparr>bw_up := 0, bw_down := 0\<rparr> else previous)
                   \<lparr>bw_date := format_date cal monday, bw_period := weekly_period_name, bw_limit := lg_limit L\<rparr>;
                 L1 = L\<lparr>lg_stats := stats\<rparr> in
             if bw_date previous \<noteq> bw_date stats \<or> bw_period previous \<noteq> bw_period stats \<or> bw_limit previous \<noteq> bw_limit stats
             then persist (le_period E) L1 else (Ok (), L1)))"

definition retry_persist :: "ledger_env \<Rightarrow> unit ledger_op" where
  "retry_persist E L = (if lg_persistence_error L = None then (Ok (), L) else persist (le_retry E) L)"

definition prepare_ledger :: "calendar \<Rightarrow> ledger_env \<Rightarrow> unit ledger_op" where
  "prepare_ledger cal E =
     lbind (recover_load cal E) (\<lambda>_. lbind (roll_week cal E) (\<lambda>_. retry_persist E))"

definition used_bytes :: "ledger \<Rightarrow> string + u64" where
  "used_bytes L =
     (let overflow = ''Bandwidth accounting overflowed'' in
      fold (\<lambda>(_, h) wanted. rbind wanted (\<lambda>n. ok_or (checked_add_u64 n (hd_bytes h)) overflow)) (lg_holds L)
        (ok_or (checked_add_u64 (bw_up (lg_stats L)) (bw_down (lg_stats L))) overflow))"

definition reserve :: "calendar \<Rightarrow> (u64 \<Rightarrow> string) \<Rightarrow> ledger_env \<Rightarrow> transfer_direction \<Rightarrow> u64 \<Rightarrow> u64 ledger_op" where
  "reserve cal format_bytes E direction count =
     lbind (prepare_ledger cal E) (\<lambda>_ L.
       case rbind (used_bytes L) (\<lambda>used. ok_or (checked_add_u64 used count) ''Bandwidth accounting overflowed'') of
         Inl e \<Rightarrow> (Err e, L)
       | Inr wanted \<Rightarrow>
           if bw_limit (lg_stats L) < wanted
           then (Err (''Weekly bandwidth limit ('' @ format_bytes (bw_limit (lg_stats L)) @ '') exceeded! Used: '' @ format_bytes wanted), L)
           else if 512 \<le> length (lg_holds L) then (Err ''Too many bandwidth reservations'', L)
           else
             (case checked_add_u64 (lg_next_id L) 1 of
                None \<Rightarrow> (Err ''Bandwidth reservation identifiers exhausted'', L)
              | Some i \<Rightarrow>
                  lbind (persist (le_write E)) (\<lambda>_ L.
                    (Ok i, L\<lparr>lg_next_id := i, lg_holds := bt_insert i \<lparr>hd_bytes = count, hd_direction = direction\<rparr> (lg_holds L)\<rparr>)) L))"

definition release :: "u64 \<Rightarrow> ledger \<Rightarrow> ledger" where
  "release i L = L\<lparr>lg_holds := bt_remove i (lg_holds L)\<rparr>"

definition resize :: "calendar \<Rightarrow> ledger_env \<Rightarrow> u64 \<Rightarrow> u64 \<Rightarrow> unit ledger_op" where
  "resize cal E i count =
     lbind (prepare_ledger cal E) (\<lambda>_ L.
       case bt_get (lg_holds L) i of
         None \<Rightarrow> (Err ''Bandwidth reservation expired'', L)
       | Some h \<Rightarrow>
           (case rbind (used_bytes L) (\<lambda>used.
                  ok_or (Option.bind (checked_sub_u64 used (hd_bytes h)) (\<lambda>rest. checked_add_u64 rest count))
                    ''Bandwidth accounting overflowed'') of
              Inl e \<Rightarrow> (Err e, L)
            | Inr wanted \<Rightarrow>
                if hd_bytes h < count \<and> bw_limit (lg_stats L) < wanted then (Err ''Weekly bandwidth limit exceeded'', L)
                else
                  lbind (persist (le_write E)) (\<lambda>_ L.
                    (Ok (), L\<lparr>lg_holds := bt_insert i (h\<lparr>hd_bytes := count\<rparr>) (lg_holds L)\<rparr>)) L))"

text \<open>What the interface shows: the statistics with the holds added.\<close>

definition display_stats :: "ledger \<Rightarrow> bandwidth_stats" where
  "display_stats L =
     fold (\<lambda>(_, h) stats.
       case hd_direction h of
         UploadHold \<Rightarrow> stats\<lparr>bw_up := saturating_add_u64 (bw_up stats) (hd_bytes h)\<rparr>
       | DownloadHold \<Rightarrow> stats\<lparr>bw_down := saturating_add_u64 (bw_down stats) (hd_bytes h)\<rparr>) (lg_holds L) (lg_stats L)"

definition set_limit :: "calendar \<Rightarrow> ledger_env \<Rightarrow> u64 \<Rightarrow> bandwidth_stats ledger_op" where
  "set_limit cal E count L =
     (if count = 0 then (Err ''Weekly quota must be positive'', L)
      else
        lbind (prepare_ledger cal E) (\<lambda>_ L.
          let previous = lg_stats L in
          case persist (le_write E) (L\<lparr>lg_stats := previous\<lparr>bw_limit := count\<rparr>\<rparr>) of
            (Inl e, L') \<Rightarrow> (Err e, L'\<lparr>lg_stats := previous\<rparr>)
          | (Inr _, L') \<Rightarrow> (let L' = L'\<lparr>lg_limit := count\<rparr> in (Ok (display_stats L'), L'))) L)"

definition commit :: "calendar \<Rightarrow> ledger_env \<Rightarrow> u64 \<Rightarrow> unit ledger_op" where
  "commit cal E i L =
     (let L1 = snd (prepare_ledger cal E L) in
      case bt_get (lg_holds L1) i of
        None \<Rightarrow> (Err ''Bandwidth reservation expired'', L1)
      | Some h \<Rightarrow>
          (let L2 = L1\<lparr>lg_holds := bt_remove i (lg_holds L1)\<rparr>; stats = lg_stats L2 in
           case hd_direction h of
             UploadHold \<Rightarrow>
               (case checked_add_u64 (bw_up stats) (hd_bytes h) of
                  None \<Rightarrow> (Err ''Bandwidth accounting overflowed'', L2)
                | Some n \<Rightarrow> persist (le_write E) (L2\<lparr>lg_stats := stats\<lparr>bw_up := n\<rparr>\<rparr>))
           | DownloadHold \<Rightarrow>
               (case checked_add_u64 (bw_down stats) (hd_bytes h) of
                  None \<Rightarrow> (Err ''Bandwidth accounting overflowed'', L2)
                | Some n \<Rightarrow> persist (le_write E) (L2\<lparr>lg_stats := stats\<lparr>bw_down := n\<rparr>\<rparr>))))"

definition check_and_reset :: "calendar \<Rightarrow> ledger_env \<Rightarrow> ledger \<Rightarrow> ledger" where
  "check_and_reset cal E L = snd (prepare_ledger cal E L)"

definition checked_stats :: "calendar \<Rightarrow> ledger_env \<Rightarrow> bandwidth_stats ledger_op" where
  "checked_stats cal E = lbind (prepare_ledger cal E) (\<lambda>_ L. (Ok (display_stats L), L))"

definition get_stats :: "calendar \<Rightarrow> ledger_env \<Rightarrow> ledger \<Rightarrow> bandwidth_stats \<times> ledger" where
  "get_stats cal E L = (let L' = snd (prepare_ledger cal E L) in (display_stats L', L'))"

section \<open>Reservations\<close>

text \<open>A reservation commits at most once; dropped uncommitted, it releases its hold.\<close>

record reservation =
  rv_id :: u64
  rv_completed :: bool

definition reservation_commit :: "calendar \<Rightarrow> ledger_env \<Rightarrow> reservation \<Rightarrow> ledger \<Rightarrow> reservation \<times> ledger" where
  "reservation_commit cal E r L =
     (if rv_completed r then (r, L) else (r\<lparr>rv_completed := True\<rparr>, snd (commit cal E (rv_id r) L)))"

definition reservation_drop :: "reservation \<Rightarrow> ledger \<Rightarrow> ledger" where
  "reservation_drop r L = (if rv_completed r then L else release (rv_id r) L)"

end
