(* ===== verification/Ledger_Contract.thy ===== *)
theory Ledger_Contract
  imports Bandwidth
begin

text \<open>
  What the bandwidth ledger guarantees: however transfers are admitted, resized, committed and released,
  charged and held bytes together stay within the largest quota in force, nothing is admitted unless
  the statistics are on disk, and a commit charges its hold once.
\<close>

section \<open>Usage\<close>

definition charged :: "bandwidth_stats \<Rightarrow> nat" where
  "charged stats = unat (bw_up stats) + unat (bw_down stats)"

definition held :: "(u64, hold) btree \<Rightarrow> nat" where
  "held holds = sum_list (map (\<lambda>(_, h). unat (hd_bytes h)) holds)"

definition usage :: "ledger \<Rightarrow> nat" where
  "usage L = charged (lg_stats L) + held (lg_holds L)"

lemma held_simps [simp]: "held [] = 0" "held ((i, h) # holds) = unat (hd_bytes h) + held holds"
  by (simp_all add: held_def)

lemma checked_add_u64_iff: "checked_add_u64 a b = Some c \<longleftrightarrow> unat c = unat a + unat b"
proof
  assume "unat c = unat a + unat b"
  moreover have "unat c < 2 ^ 64" by simp
  ultimately show "checked_add_u64 a b = Some c"
    by (simp add: checked_add_u64_def word_unat_eq_iff unat_word_ariths)
qed (rule checked_add_u64_SomeD)

lemma checked_sum:
  "(\<exists>k. checked_add_u64 a b = Some k \<and> unat (n :: u64) = unat k + c) \<longleftrightarrow> unat n = unat a + unat b + c"
proof
  assume n: "unat n = unat a + unat b + c"
  have "unat n < 2 ^ 64" by simp
  then have "unat a + unat b < 2 ^ 64" using n by linarith
  then have "unat (a + b) = unat a + unat b" by (simp add: unat_word_ariths)
  then show "\<exists>k. checked_add_u64 a b = Some k \<and> unat n = unat k + c"
    using n by (intro exI [of _ "a + b"]) (simp add: checked_add_u64_iff)
qed (auto simp: checked_add_u64_iff)

lemma fold_checked:
  "fold (\<lambda>(_, h) acc. rbind acc (\<lambda>n. ok_or (checked_add_u64 n (hd_bytes h)) e)) holds r = Ok n \<longleftrightarrow>
   (\<exists>m. r = Ok m \<and> unat n = unat m + held holds)"
proof (induction holds arbitrary: r)
  case Nil
  then show ?case by (auto simp: word_unat_eq_iff)
next
  case (Cons x holds)
  obtain i h where x: "x = (i, h)" by fastforce
  have "fold (\<lambda>(_, h) acc. rbind acc (\<lambda>n. ok_or (checked_add_u64 n (hd_bytes h)) e)) (x # holds) r = Ok n \<longleftrightarrow>
      (\<exists>m. r = Ok m \<and> (\<exists>k. checked_add_u64 m (hd_bytes h) = Some k \<and> unat n = unat k + held holds))"
    using Cons x by auto
  also have "\<dots> \<longleftrightarrow> (\<exists>m. r = Ok m \<and> unat n = unat m + held (x # holds))"
    by (simp add: checked_sum x add.assoc)
  finally show ?case .
qed

lemma used_bytes_Ok: "used_bytes L = Ok n \<longleftrightarrow> unat n = usage L"
  by (simp add: used_bytes_def Let_def fold_checked usage_def charged_def checked_sum)

lemma held_insert_fresh: "bt_get holds i = None \<Longrightarrow> held (bt_insert i h holds) = unat (hd_bytes h) + held holds"
  by (induction holds) (auto split: if_splits)

lemma held_remove: "bt_ok holds \<Longrightarrow> bt_get holds i = Some h \<Longrightarrow> held holds = unat (hd_bytes h) + held (bt_remove i holds)"
proof (induction holds)
  case (Cons x holds)
  obtain k v where x: "x = (k, v)" by fastforce
  show ?case using Cons x by (cases "k = i") (auto simp: bt_remove_absent)
qed simp

lemma held_remove_le: "held (bt_remove i holds) \<le> held holds"
  by (induction holds) auto

lemma held_insert_present:
  "bt_ok holds \<Longrightarrow> bt_get holds i = Some h \<Longrightarrow> held (bt_insert i h' holds) + unat (hd_bytes h) = held holds + unat (hd_bytes h')"
proof (induction holds)
  case (Cons x holds)
  obtain k v where x: "x = (k, v)" by fastforce
  show ?case
  proof (cases "i = k")
    case False
    then have present: "bt_get holds i = Some h" using Cons.prems x by simp
    then have "i \<in> set (bt_keys holds)" using bt_get_None_iff [of holds i] by auto
    then have "k < i" using Cons.prems(1) x by simp
    then show ?thesis using Cons x present by auto
  qed (use Cons.prems x in auto)
qed simp

section \<open>The invariant\<close>

definition ledger_inv :: "nat \<Rightarrow> ledger \<Rightarrow> bool" where
  "ledger_inv cap L \<longleftrightarrow>
     bt_ok (lg_holds L) \<and> usage L \<le> cap \<and> cap < 2 ^ 64 \<and>
     (lg_load_error L = None \<longrightarrow> unat (bw_limit (lg_stats L)) \<le> cap \<and> unat (lg_limit L) \<le> cap) \<and>
     (lg_load_error L \<noteq> None \<longrightarrow> lg_holds L = []) \<and> (\<forall>i\<in>set (bt_keys (lg_holds L)). i \<le> lg_next_id L) \<and>
     (\<forall>stats. lg_file L = Some (Ok stats) \<longrightarrow> charged stats \<le> cap \<and> unat (bw_limit stats) \<le> cap)"

text \<open>The statistics are on disk, unless a failed write is remembered or nothing was ever charged.\<close>

definition durable :: "ledger \<Rightarrow> bool" where
  "durable L \<longleftrightarrow> lg_load_error L = None \<longrightarrow> lg_persistence_error L = None \<longrightarrow>
     lg_file L = Some (Ok (lg_stats L)) \<or> (lg_file L = None \<and> charged (lg_stats L) = 0)"

definition calendar_ok :: "calendar \<Rightarrow> bool" where
  "calendar_ok cal \<longleftrightarrow> (\<forall>d. parse_date cal (format_date cal d) = Some d)"

lemma load_stats_Ok:
  "load_stats cal today fault initial contents = Ok stats \<Longrightarrow>
     contents = Some (Ok stats) \<or> (initial \<and> contents = None \<and> stats = default_stats cal today)"
  by (auto simp: load_stats_def split: option.splits sum.splits if_splits)

lemma open_ledger_inv:
  assumes "\<And>stats. contents = Some (Ok stats) \<Longrightarrow> charged stats \<le> cap \<and> unat (bw_limit stats) \<le> cap"
    and "contents = None \<Longrightarrow> unat WEEKLY_LIMIT_BYTES \<le> cap" and "cap < 2 ^ 64"
  shows "ledger_inv cap (open_ledger cal E contents) \<and> durable (open_ledger cal E contents)"
proof (cases "load_stats cal (le_today E) (le_read E) True contents")
  case (Inl e)
  then show ?thesis using assms
    by (simp add: open_ledger_def ledger_inv_def usage_def charged_def default_stats_def durable_def)
next
  case (Inr stats)
  then show ?thesis using load_stats_Ok [OF Inr] assms
    by (auto simp: open_ledger_def ledger_inv_def usage_def charged_def default_stats_def durable_def)
qed

lemma persist_inv:
  assumes "persist fault L = (r, L')" and "ledger_inv cap L" and "lg_load_error L = None"
  shows "ledger_inv cap L'" and "durable L'"
    and "r = Ok () \<Longrightarrow> lg_file L' = Some (Ok (lg_stats L))" and "lg_stats L' = lg_stats L" and "lg_holds L' = lg_holds L"
    and "lg_next_id L' = lg_next_id L" and "lg_limit L' = lg_limit L" and "lg_load_error L' = lg_load_error L"
    and "r = Ok () \<Longrightarrow> lg_persistence_error L' = None"
  using assms
  by (auto simp: persist_def ledger_inv_def usage_def durable_def split: option.splits)

text \<open>Preparation: whatever fails, the invariant holds, no hold is touched, and success means the statistics are
  on disk, of this week, and the ledger was readable.\<close>

lemma recover_load_inv:
  assumes "recover_load cal E L = (r, L')" and "ledger_inv cap L" and "durable L"
  shows "ledger_inv cap L'" and "durable L'" and "lg_holds L' = lg_holds L" and "lg_next_id L' = lg_next_id L"
    and "r = Ok () \<Longrightarrow> lg_load_error L' = None" and "lg_load_error L = None \<Longrightarrow> r = Ok () \<and> L' = L"
proof -
  show "ledger_inv cap L'" "durable L'" "lg_holds L' = lg_holds L" "lg_next_id L' = lg_next_id L"
    "r = Ok () \<Longrightarrow> lg_load_error L' = None" "lg_load_error L = None \<Longrightarrow> r = Ok () \<and> L' = L"
    using assms load_stats_Ok [of cal "le_today E" "le_read E" False "lg_file L"]
    by (auto simp: recover_load_def ledger_inv_def usage_def durable_def split: sum.splits if_splits)
qed

lemma roll_week_inv:
  assumes "roll_week cal E L = (r, L')" and "ledger_inv cap L" and "durable L" and "calendar_ok cal" and "lg_load_error L = None"
  shows "ledger_inv cap L' \<and> durable L' \<and> lg_holds L' = lg_holds L \<and> lg_next_id L' = lg_next_id L \<and> lg_limit L' = lg_limit L \<and>
    lg_load_error L' = None \<and> charged (lg_stats L') \<le> charged (lg_stats L) \<and>
    (r = Ok () \<longrightarrow> bw_date (lg_stats L') = format_date cal (week_start_for (le_today E)) \<and> bw_limit (lg_stats L') = lg_limit L)"
proof (cases "parse_date cal (bw_date (lg_stats L))")
  case None
  then show ?thesis using assms by (auto simp: roll_week_def Let_def)
next
  case (Some date)
  let ?monday = "week_start_for (le_today E)" and ?previous = "lg_stats L"
  let ?stats = "(if date < ?monday then ?previous\<lparr>bw_up := 0, bw_down := 0\<rparr> else ?previous)
      \<lparr>bw_date := format_date cal ?monday, bw_period := weekly_period_name, bw_limit := lg_limit L\<rparr>"
  show ?thesis
  proof (cases "?monday < week_start_for date")
    case True
    then show ?thesis using assms Some by (auto simp: roll_week_def Let_def)
  next
    case False
    have less: "charged ?stats \<le> charged ?previous" by (simp add: charged_def)
    have inv: "ledger_inv cap (L\<lparr>lg_stats := ?stats\<rparr>)"
      using assms(2) less by (auto simp: ledger_inv_def usage_def)
    let ?changed = "bw_date ?previous \<noteq> bw_date ?stats \<or> bw_period ?previous \<noteq> bw_period ?stats \<or> bw_limit ?previous \<noteq> bw_limit ?stats"
    have step: "roll_week cal E L = (if ?changed then persist (le_period E) (L\<lparr>lg_stats := ?stats\<rparr>) else (Ok (), L\<lparr>lg_stats := ?stats\<rparr>))"
      using Some False by (simp add: roll_week_def Let_def)
    show ?thesis
    proof (cases ?changed)
      case True
      then have p: "persist (le_period E) (L\<lparr>lg_stats := ?stats\<rparr>) = (r, L')" using assms(1) step by simp
      have "lg_load_error (L\<lparr>lg_stats := ?stats\<rparr>) = None" using assms(5) by simp
      note P = persist_inv [OF p inv this]
      show ?thesis using P assms(5) less by auto
    next
      case same: False
      then have "parse_date cal (bw_date ?previous) = Some ?monday" using assms(4) by (simp add: calendar_ok_def)
      then have "?stats = ?previous" using Some same by simp
      then have "r = Ok ()" "L' = L" using assms(1) step same by simp_all
      then show ?thesis using assms same by auto
    qed
  qed
qed

lemma prepare_ledger_inv:
  assumes "prepare_ledger cal E L = (r, L')" and "ledger_inv cap L" and "durable L" and "calendar_ok cal"
  shows "ledger_inv cap L' \<and> durable L' \<and> lg_holds L' = lg_holds L \<and> lg_next_id L' = lg_next_id L \<and>
    (lg_load_error L = None \<longrightarrow> charged (lg_stats L') \<le> charged (lg_stats L)) \<and>
    (lg_load_error L = None \<longrightarrow> lg_load_error L' = None) \<and>
    (r = Ok () \<longrightarrow> lg_load_error L' = None \<and> lg_persistence_error L' = None \<and> bw_limit (lg_stats L') = lg_limit L' \<and>
       bw_date (lg_stats L') = format_date cal (week_start_for (le_today E)))"
proof -
  obtain r1 L1 where one: "recover_load cal E L = (r1, L1)" by fastforce
  note A = recover_load_inv [OF one assms(2,3)]
  show ?thesis
  proof (cases r1)
    case (Inl e)
    then have "r = Err e" "L' = L1" using assms(1) one by (simp_all add: prepare_ledger_def lbind_def)
    then show ?thesis using A Inl by auto
  next
    case (Inr u)
    obtain r2 L2 where two: "roll_week cal E L1 = (r2, L2)" by fastforce
    have l1: "lg_load_error L1 = None" using A(5) Inr by simp
    note B = roll_week_inv [OF two A(1,2) assms(4) l1]
    show ?thesis
    proof (cases r2)
      case (Inl e)
      then have "r = Err e" "L' = L2" using assms(1) one two Inr by (simp_all add: prepare_ledger_def lbind_def)
      then show ?thesis using A B by auto
    next
      case r2: (Inr v)
      have L': "retry_persist E L2 = (r, L')" using assms(1) one two Inr r2 by (simp add: prepare_ledger_def lbind_def)
      show ?thesis
      proof (cases "lg_persistence_error L2 = None")
        case True
        then have "r = Ok ()" "L' = L2" using L' by (simp_all add: retry_persist_def)
        then show ?thesis using A B True r2 by auto
      next
        case False
        then have p: "persist (le_retry E) L2 = (r, L')" using L' by (auto simp: retry_persist_def split: if_splits)
        have "lg_load_error L2 = None" using B by blast
        note P = persist_inv [OF p B [THEN conjunct1] this]
        show ?thesis using A B P r2 by auto
      qed
    qed
  qed
qed

section \<open>Operations\<close>

datatype ledger_call =
    Reserve transfer_direction u64
  | Release u64
  | Resize u64 u64
  | SetLimit u64
  | Commit u64
  | Refresh

fun ledger_step :: "calendar \<Rightarrow> (u64 \<Rightarrow> string) \<Rightarrow> ledger_env \<times> ledger_call \<Rightarrow> ledger \<Rightarrow> ledger" where
  "ledger_step cal fmt (E, Reserve direction count) L = snd (reserve cal fmt E direction count L)"
| "ledger_step cal fmt (E, Release i) L = release i L"
| "ledger_step cal fmt (E, Resize i count) L = snd (resize cal E i count L)"
| "ledger_step cal fmt (E, SetLimit count) L = snd (set_limit cal E count L)"
| "ledger_step cal fmt (E, Commit i) L = snd (commit cal E i L)"
| "ledger_step cal fmt (E, Refresh) L = check_and_reset cal E L"

definition ledger_run :: "calendar \<Rightarrow> (u64 \<Rightarrow> string) \<Rightarrow> (ledger_env \<times> ledger_call) list \<Rightarrow> ledger \<Rightarrow> ledger" where
  "ledger_run cal fmt calls L = fold (ledger_step cal fmt) calls L"

lemma reserve_inv:
  assumes "reserve cal fmt E direction count L = (r, L')" and "ledger_inv cap L" and "durable L" and "calendar_ok cal"
  shows "ledger_inv cap L' \<and> durable L' \<and>
    (\<forall>i. r = Ok i \<longrightarrow> lg_file L' = Some (Ok (lg_stats L')) \<and> usage L' \<le> unat (bw_limit (lg_stats L')) \<and>
       bw_limit (lg_stats L') = lg_limit L' \<and> bw_date (lg_stats L') = format_date cal (week_start_for (le_today E)) \<and>
       bt_get (lg_holds L) i = None \<and> lg_holds L' = bt_insert i \<lparr>hd_bytes = count, hd_direction = direction\<rparr> (lg_holds L))"
proof -
  obtain r1 L1 where one: "prepare_ledger cal E L = (r1, L1)" by fastforce
  note A = prepare_ledger_inv [OF one assms(2-4)]
  let ?wanted = "rbind (used_bytes L1) (\<lambda>used. ok_or (checked_add_u64 used count) ''Bandwidth accounting overflowed'')"
  show ?thesis
  proof (cases "\<exists>i. r = Ok i")
    case False
    have "ledger_inv cap L' \<and> durable L'"
    proof (cases "L' = L1")
      case True
      then show ?thesis using A by simp
    next
      case moved: False
      obtain i r2 where p: "r1 = Ok ()" "persist (le_write E) L1 = (r2, L')" "r2 \<noteq> Ok ()"
        using assms(1) one False moved
        by (auto simp: reserve_def lbind_def split: sum.splits option.splits if_splits prod.splits)
      then show ?thesis using persist_inv [OF p(2), of cap] A by auto
    qed
    then show ?thesis using False by auto
  next
    case True
    then obtain i where i: "r = Ok i" by blast
    obtain wanted L2 where W: "?wanted = Ok wanted" "wanted \<le> bw_limit (lg_stats L1)" "r1 = Ok ()"
        "checked_add_u64 (lg_next_id L1) 1 = Some i" "persist (le_write E) L1 = (Ok (), L2)"
        "L' = L2\<lparr>lg_next_id := i, lg_holds := bt_insert i \<lparr>hd_bytes = count, hd_direction = direction\<rparr> (lg_holds L2)\<rparr>"
      using assms(1) one i
      by (auto simp: reserve_def lbind_def not_less split: sum.splits option.splits if_splits prod.splits)
    have inv1: "ledger_inv cap L1" using A by blast
    have none: "lg_load_error L1 = None" using A W(3) by simp
    note P = persist_inv [OF W(5) inv1 none]
    have total: "unat wanted = usage L1 + unat count"
      using W(1) by (auto simp: used_bytes_Ok checked_add_u64_iff)
    have fresh: "lg_next_id L1 < i" using W(4) by (auto simp: checked_add_u64_iff word_less_nat_alt)
    then have new: "bt_get (lg_holds L1) i = None"
      using A by (force simp: ledger_inv_def bt_get_None_iff)
    then have usage: "usage L' = unat wanted" using total new W(6) P(4,5) by (simp add: usage_def held_insert_fresh)
    have limit: "unat wanted \<le> unat (bw_limit (lg_stats L1))" using W(2) by (simp add: word_le_nat_alt)
    have "unat (bw_limit (lg_stats L1)) \<le> cap" using A none by (simp add: ledger_inv_def)
    then have within: "usage L' \<le> cap" using usage limit by simp
    have ids: "\<forall>k\<in>set (bt_keys (lg_holds L1)). k \<le> i"
    proof
      fix k
      assume "k \<in> set (bt_keys (lg_holds L1))"
      moreover have "ledger_inv cap L1" using A by blast
      ultimately have "k \<le> lg_next_id L1" by (simp add: ledger_inv_def)
      with fresh show "k \<le> i" by (meson less_imp_le order_trans)
    qed
    have L2: "L2 = L1\<lparr>lg_persistence_error := None, lg_file := Some (Inr (lg_stats L1))\<rparr>"
      using W(5) by (simp add: persist_def split: option.splits)
    have inv: "ledger_inv cap L'"
      using P(1) within ids none unfolding W(6) L2 by (simp add: ledger_inv_def)
    have saved: "lg_file L' = Some (Ok (lg_stats L'))" unfolding W(6) L2 by simp
    have "durable L'" using saved by (simp add: durable_def)
    moreover have "usage L' \<le> unat (bw_limit (lg_stats L'))" using usage limit W(6) L2 by simp
    moreover have "lg_holds L1 = lg_holds L" "bw_limit (lg_stats L1) = lg_limit L1"
        "bw_date (lg_stats L1) = format_date cal (week_start_for (le_today E))"
      using A W(3) by blast+
    ultimately show ?thesis using inv i new saved unfolding W(6) L2 by simp
  qed
qed

lemma resize_inv:
  assumes "resize cal E i count L = (r, L')" and "ledger_inv cap L" and "durable L" and "calendar_ok cal"
  shows "ledger_inv cap L' \<and> durable L'"
proof -
  obtain r1 L1 where one: "prepare_ledger cal E L = (r1, L1)" by fastforce
  note A = prepare_ledger_inv [OF one assms(2-4)]
  show ?thesis
  proof (cases "r = Ok ()")
    case False
    show ?thesis
    proof (cases "L' = L1")
      case moved: False
      obtain r2 where p: "r1 = Ok ()" "persist (le_write E) L1 = (r2, L')"
        using assms(1) one False moved
        by (auto simp: resize_def lbind_def split: sum.splits option.splits if_splits prod.splits)
      then show ?thesis using persist_inv [OF p(2), of cap] A by auto
    qed (use A in simp)
  next
    case True
    let ?wanted = "\<lambda>h. rbind (used_bytes L1) (\<lambda>used.
        ok_or (Option.bind (checked_sub_u64 used (hd_bytes h)) (\<lambda>rest. checked_add_u64 rest count)) ''Bandwidth accounting overflowed'')"
    obtain h wanted L2 where W: "bt_get (lg_holds L1) i = Some h" "?wanted h = Ok wanted"
        "\<not> (hd_bytes h < count \<and> bw_limit (lg_stats L1) < wanted)" "r1 = Ok ()" "persist (le_write E) L1 = (Ok (), L2)"
        "L' = L2\<lparr>lg_holds := bt_insert i (h\<lparr>hd_bytes := count\<rparr>) (lg_holds L2)\<rparr>"
      using assms(1) one True
      by (auto simp: resize_def lbind_def split: sum.splits option.splits if_splits prod.splits)
    have inv1: "ledger_inv cap L1" using A by blast
    have none: "lg_load_error L1 = None" using A W(4) by simp
    note P = persist_inv [OF W(5) inv1 none]
    have h: "held (bt_insert i (h\<lparr>hd_bytes := count\<rparr>) (lg_holds L1)) + unat (hd_bytes h) = held (lg_holds L1) + unat count"
      using held_insert_present [of "lg_holds L1" i h "h\<lparr>hd_bytes := count\<rparr>"] W(1) inv1 by (simp add: ledger_inv_def)
    have member: "unat (hd_bytes h) \<le> held (lg_holds L1)"
      using held_remove [of "lg_holds L1" i h] W(1) inv1 by (simp add: ledger_inv_def)
    obtain used rest where u: "unat used = usage L1" "checked_sub_u64 used (hd_bytes h) = Some rest" "checked_add_u64 rest count = Some wanted"
      using W(2) by (auto simp: used_bytes_Ok bind_eq_Some_conv)
    have total: "unat wanted + unat (hd_bytes h) = usage L1 + unat count"
      using u checked_sub_u64_SomeD [OF u(2)] by (simp add: checked_add_u64_iff)
    have new: "usage L' = unat wanted" using total h W(6) P(4,5) by (simp add: usage_def)
    have "unat wanted \<le> cap"
    proof (cases "hd_bytes h < count")
      case True
      then have "unat wanted \<le> unat (bw_limit (lg_stats L1))" using W(3) by (simp add: word_le_nat_alt not_less)
      then show ?thesis using inv1 none by (simp add: ledger_inv_def)
    next
      case False
      then have "unat count \<le> unat (hd_bytes h)" by (simp add: word_le_nat_alt not_less)
      then have "unat wanted \<le> usage L1" using total by simp
      then show ?thesis using inv1 by (simp add: ledger_inv_def)
    qed
    moreover have "i \<le> lg_next_id L1" using W(1) inv1 bt_get_None_iff [of "lg_holds L1" i] by (auto simp: ledger_inv_def)
    ultimately have "ledger_inv cap L'" using P(1) P(4-8) A W(4,6) new inv1 by (simp add: ledger_inv_def)
    moreover have "durable L'" using P(3,4,9) W(6) by (simp add: durable_def)
    ultimately show ?thesis by simp
  qed
qed

lemma set_limit_inv:
  assumes "set_limit cal E count L = (r, L')" and "ledger_inv cap L" and "durable L" and "calendar_ok cal" and "unat count \<le> cap"
  shows "ledger_inv cap L' \<and> durable L'"
proof -
  obtain r1 L1 where one: "prepare_ledger cal E L = (r1, L1)" by fastforce
  note A = prepare_ledger_inv [OF one assms(2-4)]
  consider "count = 0" | "count \<noteq> 0" "\<exists>e. r1 = Err e" | "count \<noteq> 0" "r1 = Ok ()" by (cases r1) auto
  then show ?thesis
  proof cases
    case 3
    let ?stats = "(lg_stats L1)\<lparr>bw_limit := count\<rparr>"
    have inv1: "ledger_inv cap L1" "durable L1" using A by blast+
    have inv: "ledger_inv cap (L1\<lparr>lg_stats := ?stats\<rparr>)" using inv1 assms(5) by (simp add: ledger_inv_def usage_def charged_def)
    obtain r2 L2 where p: "persist (le_write E) (L1\<lparr>lg_stats := ?stats\<rparr>) = (r2, L2)" by fastforce
    have none: "lg_load_error L1 = None" using A 3 by simp
    then have "lg_load_error (L1\<lparr>lg_stats := ?stats\<rparr>) = None" by simp
    note P = persist_inv [OF p inv this]
    show ?thesis
    proof (cases r2)
      case (Inl e)
      then have "L' = L2\<lparr>lg_stats := lg_stats L1\<rparr>" "L2 = L1\<lparr>lg_stats := ?stats, lg_persistence_error := Some e\<rparr>"
        using assms(1) 3 one p by (auto simp: set_limit_def lbind_def Let_def persist_def split: option.splits)
      then show ?thesis using inv1 by (simp add: ledger_inv_def usage_def durable_def)
    next
      case (Inr u)
      then have "L' = L2\<lparr>lg_limit := count\<rparr>" using assms(1) 3 one p by (simp add: set_limit_def lbind_def Let_def)
      then show ?thesis using P none Inr assms(5) by (simp add: ledger_inv_def usage_def durable_def)
    qed
  qed (use assms A one in \<open>auto simp: set_limit_def lbind_def\<close>)
qed

lemma release_inv: "ledger_inv cap L \<Longrightarrow> durable L \<Longrightarrow> ledger_inv cap (release i L) \<and> durable (release i L)"
  using held_remove_le [of i "lg_holds L"]
  by (auto simp: ledger_inv_def release_def usage_def durable_def)

text \<open>A commit moves its hold into the charged bytes; a charge never overflows.\<close>

lemma commit_course:
  assumes "commit cal E i L = (r, L')" and "ledger_inv cap L" and "durable L" and "calendar_ok cal"
    and "bt_get (lg_holds L) i = Some h"
  shows "\<exists>L1 stats. prepare_ledger cal E L = (fst (prepare_ledger cal E L), L1) \<and>
    persist (le_write E) (L1\<lparr>lg_holds := bt_remove i (lg_holds L), lg_stats := stats\<rparr>) = (r, L') \<and>
    charged stats = charged (lg_stats L1) + unat (hd_bytes h) \<and> bw_limit stats = bw_limit (lg_stats L1) \<and>
    lg_load_error L1 = None \<and> lg_holds L1 = lg_holds L \<and> ledger_inv cap L1 \<and>
    ledger_inv cap (L1\<lparr>lg_holds := bt_remove i (lg_holds L), lg_stats := stats\<rparr>)"
proof -
  obtain r1 L1 where one: "prepare_ledger cal E L = (r1, L1)" by fastforce
  note A = prepare_ledger_inv [OF one assms(2-4)]
  have inv1: "ledger_inv cap L1" and same: "lg_holds L1 = lg_holds L" using A by blast+
  have none: "lg_load_error L1 = None" using A assms(2,5) by (auto simp: ledger_inv_def)
  have split: "held (lg_holds L) = unat (hd_bytes h) + held (bt_remove i (lg_holds L))"
    using held_remove assms(2,5) by (auto simp: ledger_inv_def)
  have room: "charged (lg_stats L1) + unat (hd_bytes h) < 2 ^ 64"
    using inv1 split same by (simp add: ledger_inv_def usage_def)
  have charge: "checked_add_u64 n (hd_bytes h) = Some (n + hd_bytes h) \<and> unat (n + hd_bytes h) = unat n + unat (hd_bytes h)"
      if "unat n \<le> charged (lg_stats L1)" for n
    using that room by (simp add: checked_add_u64_def unat_word_ariths)
  let ?stats = "case hd_direction h of
      UploadHold \<Rightarrow> (lg_stats L1)\<lparr>bw_up := bw_up (lg_stats L1) + hd_bytes h\<rparr>
    | DownloadHold \<Rightarrow> (lg_stats L1)\<lparr>bw_down := bw_down (lg_stats L1) + hd_bytes h\<rparr>"
  have stats: "charged ?stats = charged (lg_stats L1) + unat (hd_bytes h)" "bw_limit ?stats = bw_limit (lg_stats L1)"
    using charge [of "bw_up (lg_stats L1)"] charge [of "bw_down (lg_stats L1)"]
    by (simp_all add: charged_def split: transfer_direction.splits)
  have "persist (le_write E) (L1\<lparr>lg_holds := bt_remove i (lg_holds L), lg_stats := ?stats\<rparr>) = (r, L')"
    using assms(1,5) one same charge [of "bw_up (lg_stats L1)"] charge [of "bw_down (lg_stats L1)"]
    by (cases "hd_direction h") (simp_all add: commit_def Let_def charged_def)
  moreover have "ledger_inv cap (L1\<lparr>lg_holds := bt_remove i (lg_holds L), lg_stats := ?stats\<rparr>)"
    using inv1 stats split same none by (simp add: ledger_inv_def usage_def)
  ultimately show ?thesis using one stats none same inv1 by auto
qed

lemma commit_inv:
  assumes "ledger_inv cap L" and "durable L" and "calendar_ok cal"
  shows "ledger_inv cap (snd (commit cal E i L)) \<and> durable (snd (commit cal E i L))"
proof (cases "bt_get (lg_holds L) i")
  case None
  obtain r1 L1 where one: "prepare_ledger cal E L = (r1, L1)" by fastforce
  note A = prepare_ledger_inv [OF one assms]
  then have "commit cal E i L = (Err ''Bandwidth reservation expired'', L1)"
    using one None by (simp add: commit_def Let_def)
  then show ?thesis using A by simp
next
  case (Some h)
  obtain r L' where c: "commit cal E i L = (r, L')" by fastforce
  obtain L1 stats where p: "persist (le_write E) (L1\<lparr>lg_holds := bt_remove i (lg_holds L), lg_stats := stats\<rparr>) = (r, L')"
      "ledger_inv cap (L1\<lparr>lg_holds := bt_remove i (lg_holds L), lg_stats := stats\<rparr>)" "lg_load_error L1 = None"
    using commit_course [OF c assms Some] by blast
  show ?thesis using persist_inv(1,2) [OF p(1,2)] p(3) c by simp
qed

fun limits_within :: "nat \<Rightarrow> ledger_env \<times> ledger_call \<Rightarrow> bool" where
  "limits_within cap (E, SetLimit count) \<longleftrightarrow> unat count \<le> cap"
| "limits_within cap (E, call) \<longleftrightarrow> True"

lemma ledger_step_inv:
  assumes "ledger_inv cap L" and "durable L" and "calendar_ok cal" and "limits_within cap x"
  shows "ledger_inv cap (ledger_step cal fmt x L) \<and> durable (ledger_step cal fmt x L)"
proof -
  obtain E call where x: "x = (E, call)" by fastforce
  show ?thesis
  proof (cases call)
    case (Reserve direction count)
    then show ?thesis using reserve_inv [OF surjective_pairing assms(1-3)] x by simp
  next
    case (Release i)
    then show ?thesis using release_inv [OF assms(1,2)] x by simp
  next
    case (Resize i count)
    then show ?thesis using resize_inv [OF surjective_pairing assms(1-3)] x by simp
  next
    case (SetLimit count)
    then show ?thesis using set_limit_inv [OF surjective_pairing assms(1-3)] assms(4) x by simp
  next
    case (Commit i)
    then show ?thesis using commit_inv [OF assms(1-3)] x by simp
  next
    case Refresh
    then show ?thesis using prepare_ledger_inv [OF surjective_pairing assms(1-3)] x by (simp add: check_and_reset_def)
  qed
qed

lemma ledger_run_inv:
  assumes "ledger_inv cap L" and "durable L" and "calendar_ok cal" and "list_all (limits_within cap) calls"
  shows "ledger_inv cap (ledger_run cal fmt calls L) \<and> durable (ledger_run cal fmt calls L)"
  using assms
proof (induction calls arbitrary: L)
  case (Cons x calls)
  have "limits_within cap x" "list_all (limits_within cap) calls" using Cons.prems(4) by simp_all
  then show ?case
    using Cons.IH [of "ledger_step cal fmt x L"] ledger_step_inv [OF Cons.prems(1-3)] Cons.prems(3) by (simp add: ledger_run_def)
qed (simp add: ledger_run_def)

section \<open>Properties\<close>

text \<open>A ledger that was opened on a file and used for any sequence of calls.\<close>

definition used_ledger ::
  "calendar \<Rightarrow> (u64 \<Rightarrow> string) \<Rightarrow> ledger_env \<Rightarrow> ledger_file \<Rightarrow> (ledger_env \<times> ledger_call) list \<Rightarrow> ledger" where
  "used_ledger cal fmt E contents calls = ledger_run cal fmt calls (open_ledger cal E contents)"

text \<open>A bound on what the file charges and on every quota that can be in force: the stored one or, when there is no
  file, the default of 250 GiB, and those the user sets.\<close>

definition within_cap :: "nat \<Rightarrow> ledger_file \<Rightarrow> (ledger_env \<times> ledger_call) list \<Rightarrow> bool" where
  "within_cap cap contents calls \<longleftrightarrow> cap < 2 ^ 64 \<and> list_all (limits_within cap) calls \<and>
     (contents = None \<longrightarrow> unat WEEKLY_LIMIT_BYTES \<le> cap) \<and>
     (\<forall>stats. contents = Some (Ok stats) \<longrightarrow> charged stats \<le> cap \<and> unat (bw_limit stats) \<le> cap)"

lemma used_ledger_inv:
  assumes "calendar_ok cal" and "within_cap cap contents calls"
  shows "ledger_inv cap (used_ledger cal fmt E contents calls) \<and> durable (used_ledger cal fmt E contents calls)"
proof -
  have "ledger_inv cap (open_ledger cal E contents) \<and> durable (open_ledger cal E contents)"
    using assms(2) open_ledger_inv [of contents cap cal E] by (simp add: within_cap_def)
  moreover have "list_all (limits_within cap) calls" using assms(2) by (simp add: within_cap_def)
  ultimately show ?thesis
    unfolding used_ledger_def using ledger_run_inv [OF _ _ assms(1), of cap] by blast
qed

text \<open>C27: in any run of the ledger, the bytes charged in the week and those held for transfers under way are together
  at most the largest of: the quota the file stores (the default of 250 GiB only when there is no file), the quotas the
  user sets during the run, and what the file had charged when it was opened.\<close>

theorem ledger_stays_within_quota:
  assumes "calendar_ok cal" and "within_cap cap contents calls"
  shows "usage (used_ledger cal fmt E contents calls) \<le> cap"
  using used_ledger_inv [OF assms] by (simp add: ledger_inv_def)

text \<open>a transfer is admitted only when it fits the quota in force together with everything charged and held, under a
  fresh identifier, in the current week, and with the statistics written to disk; a failing write admits
  nothing.\<close>

theorem admission_fails_closed:
  assumes "calendar_ok cal" and "within_cap cap contents calls"
    and "reserve cal fmt E' direction count (used_ledger cal fmt E contents calls) = (r, L')"
  shows "\<forall>i. r = Ok i \<longrightarrow> usage L' \<le> unat (bw_limit (lg_stats L')) \<and> bw_limit (lg_stats L') = lg_limit L' \<and>
      lg_file L' = Some (Ok (lg_stats L')) \<and> bw_date (lg_stats L') = format_date cal (week_start_for (le_today E')) \<and>
      bt_get (lg_holds (used_ledger cal fmt E contents calls)) i = None \<and> le_write E' = None \<and>
      bt_get (lg_holds L') i = Some \<lparr>hd_bytes = count, hd_direction = direction\<rparr>"
proof (intro allI impI)
  fix i
  assume i: "r = Ok i"
  let ?L = "used_ledger cal fmt E contents calls"
  have "le_write E' = None"
    using assms(3) i by (auto simp: reserve_def lbind_def persist_def split: sum.splits option.splits if_splits prod.splits)
  moreover note reserve_inv [OF assms(3) used_ledger_inv [OF assms(1,2), THEN conjunct1] used_ledger_inv [OF assms(1,2), THEN conjunct2] assms(1),
      THEN conjunct2, THEN conjunct2, rule_format, OF i]
  ultimately show "usage L' \<le> unat (bw_limit (lg_stats L')) \<and> bw_limit (lg_stats L') = lg_limit L' \<and>
      lg_file L' = Some (Ok (lg_stats L')) \<and> bw_date (lg_stats L') = format_date cal (week_start_for (le_today E')) \<and>
      bt_get (lg_holds ?L) i = None \<and> le_write E' = None \<and> bt_get (lg_holds L') i = Some \<lparr>hd_bytes = count, hd_direction = direction\<rparr>"
    by (metis bt_get_insert)
qed

text \<open>C28: committing a held transfer charges its bytes exactly once, to the current week, even when the charge cannot be
  written: the hold is gone and no other is touched, a second commit is refused and charges nothing, and a
  commit that reports success survives a restart.\<close>

theorem commit_charges_once:
  assumes "calendar_ok cal" and "within_cap cap contents calls"
    and "bt_get (lg_holds (used_ledger cal fmt E contents calls)) i = Some h"
    and "commit cal E' i (used_ledger cal fmt E contents calls) = (r, L')"
  shows "charged (lg_stats L') =
      charged (lg_stats (check_and_reset cal E' (used_ledger cal fmt E contents calls))) + unat (hd_bytes h) \<and>
    (\<forall>j. bt_get (lg_holds L') j = (if j = i then None else bt_get (lg_holds (used_ledger cal fmt E contents calls)) j)) \<and>
    (\<exists>L''. commit cal E'' i L' = (Err ''Bandwidth reservation expired'', L'') \<and> charged (lg_stats L'') \<le> charged (lg_stats L')) \<and>
    (r = Ok () \<longrightarrow> lg_file L' = Some (Ok (lg_stats L')))"
proof -
  let ?L = "used_ledger cal fmt E contents calls"
  note U = used_ledger_inv [OF assms(1,2), of fmt E]
  obtain L1 stats where C: "prepare_ledger cal E' ?L = (fst (prepare_ledger cal E' ?L), L1)"
      "persist (le_write E') (L1\<lparr>lg_holds := bt_remove i (lg_holds ?L), lg_stats := stats\<rparr>) = (r, L')"
      "charged stats = charged (lg_stats L1) + unat (hd_bytes h)" "lg_load_error L1 = None"
      "ledger_inv cap (L1\<lparr>lg_holds := bt_remove i (lg_holds ?L), lg_stats := stats\<rparr>)"
    using commit_course [OF assms(4) U [THEN conjunct1] U [THEN conjunct2] assms(1,3)] by blast
  have "lg_load_error (L1\<lparr>lg_holds := bt_remove i (lg_holds ?L), lg_stats := stats\<rparr>) = None" using C(4) by simp
  note P = persist_inv [OF C(2,5) this]
  have gone: "bt_get (lg_holds L') j = (if j = i then None else bt_get (lg_holds ?L) j)" for j using P(5) by simp
  have "check_and_reset cal E' ?L = L1" using C(1) by (simp add: check_and_reset_def) (metis snd_conv)
  moreover obtain r2 L2 where two: "prepare_ledger cal E'' L' = (r2, L2)" by fastforce
  have "durable L'" using P(2) C(4) by simp
  from prepare_ledger_inv [OF two P(1) this assms(1)]
  have "commit cal E'' i L' = (Err ''Bandwidth reservation expired'', L2)" "charged (lg_stats L2) \<le> charged (lg_stats L')"
    using two gone [of i] P(8) C(4) by (simp_all add: commit_def Let_def)
  ultimately show ?thesis using C(3) gone P(3,4) by simp
qed

section \<open>A small week\<close>

definition demo_calendar :: calendar where
  "demo_calendar = \<lparr>parse_date = (\<lambda>s. Some (if s = [] then 0 else if hd s = CHR ''-'' then - int (length s) else int (length s) - 1)),
     format_date = (\<lambda>d. if d < 0 then replicate (nat (- d)) CHR ''-'' else if d = 0 then [] else replicate (nat d + 1) CHR ''+'')\<rparr>"

definition calm :: ledger_env where
  "calm = \<lparr>le_today = 3, le_read = None, le_period = None, le_retry = None, le_write = None\<rparr>"

lemma demo_calendar_ok: "calendar_ok demo_calendar"
  by (auto simp: calendar_ok_def demo_calendar_def)

definition week_stats :: bandwidth_stats where
  "week_stats = \<lparr>bw_date = [], bw_up = 10, bw_down = 0, bw_limit = 100, bw_period = weekly_period_name\<rparr>"

definition held_ledger :: ledger where
  "held_ledger = \<lparr>lg_stats = week_stats, lg_holds = [(1, \<lparr>hd_bytes = 40, hd_direction = UploadHold\<rparr>)], lg_next_id = 1,
     lg_persistence_error = None, lg_load_error = None, lg_limit = 100, lg_file = Some (Ok week_stats)\<rparr>"

lemma demo_cap: "within_cap 100 (Some (Ok week_stats)) [(calm, Reserve UploadHold 40)]"
  by (simp add: within_cap_def charged_def week_stats_def)

lemma week_opened:
  "open_ledger demo_calendar calm (Some (Ok week_stats)) =
     \<lparr>lg_stats = week_stats, lg_holds = [], lg_next_id = 0, lg_persistence_error = None, lg_load_error = None, lg_limit = 100,
      lg_file = Some (Ok week_stats)\<rparr>"
  by (simp add: open_ledger_def load_stats_def calm_def week_stats_def demo_calendar_def checked_add_u64_def)

lemma week_prepared:
  "lg_stats L = week_stats \<Longrightarrow> lg_limit L = 100 \<Longrightarrow> lg_load_error L = None \<Longrightarrow> lg_persistence_error L = None \<Longrightarrow>
   prepare_ledger demo_calendar calm L = (Ok (), L)"
  by (cases L) (simp add: prepare_ledger_def lbind_def recover_load_def roll_week_def retry_persist_def Let_def
      demo_calendar_def calm_def week_start_for_def week_stats_def)

lemma week_reserved:
  "reserve demo_calendar (\<lambda>_. []) calm UploadHold 40 (open_ledger demo_calendar calm (Some (Ok week_stats))) = (Ok 1, held_ledger)"
proof -
  let ?L = "\<lparr>lg_stats = week_stats, lg_holds = [], lg_next_id = 0, lg_persistence_error = None, lg_load_error = None, lg_limit = 100,
      lg_file = Some (Ok week_stats)\<rparr>"
  have "prepare_ledger demo_calendar calm ?L = (Ok (), ?L)" by (rule week_prepared) simp_all
  moreover have "used_bytes ?L = Ok 10" by (simp add: used_bytes_Ok usage_def charged_def week_stats_def)
  moreover have "le_write calm = None" "bw_limit week_stats = 100" by (simp_all add: calm_def week_stats_def)
  ultimately show ?thesis
    unfolding week_opened by (simp add: reserve_def lbind_def checked_add_u64_def persist_def held_ledger_def)
qed

lemma week_used: "used_ledger demo_calendar (\<lambda>_. []) calm (Some (Ok week_stats)) [(calm, Reserve UploadHold 40)] = held_ledger"
  by (simp add: used_ledger_def ledger_run_def week_reserved)

text \<open>The stored quota is 100 bytes, 10 are charged: after a transfer of 40 is admitted, one of 60 is not.\<close>

theorem ledger_stays_within_quota_witness:
  "usage (used_ledger demo_calendar (\<lambda>_. []) calm (Some (Ok week_stats))
     [(calm, Reserve UploadHold 40), (calm, Reserve DownloadHold 60)]) \<le> 100"
  by (rule ledger_stays_within_quota [OF demo_calendar_ok]) (use demo_cap in \<open>simp add: within_cap_def\<close>)

theorem admission_fails_closed_witness:
  "\<exists>i L'. reserve demo_calendar (\<lambda>_. []) calm UploadHold 40 (used_ledger demo_calendar (\<lambda>_. []) calm (Some (Ok week_stats)) []) = (Ok i, L') \<and>
     usage L' \<le> 100 \<and> lg_file L' = Some (Ok week_stats)"
proof -
  have cap: "within_cap 100 (Some (Ok week_stats)) []" using demo_cap by (simp add: within_cap_def)
  have r: "reserve demo_calendar (\<lambda>_. []) calm UploadHold 40 (used_ledger demo_calendar (\<lambda>_. []) calm (Some (Ok week_stats)) []) = (Ok 1, held_ledger)"
    by (simp add: used_ledger_def ledger_run_def week_reserved)
  show ?thesis using admission_fails_closed [OF demo_calendar_ok cap r] r by (simp add: held_ledger_def week_stats_def)
qed

theorem commit_charges_once_witness:
  "charged (lg_stats (snd (commit demo_calendar calm 1 held_ledger))) = 50"
proof -
  have h: "bt_get (lg_holds (used_ledger demo_calendar (\<lambda>_. []) calm (Some (Ok week_stats)) [(calm, Reserve UploadHold 40)])) 1 =
      Some \<lparr>hd_bytes = 40, hd_direction = UploadHold\<rparr>"
    by (simp add: week_used held_ledger_def)
  have "check_and_reset demo_calendar calm held_ledger = held_ledger"
    using week_prepared [of held_ledger] by (simp add: check_and_reset_def held_ledger_def)
  then show ?thesis
    using commit_charges_once [OF demo_calendar_ok demo_cap h surjective_pairing, of calm]
    by (simp add: week_used) (simp add: held_ledger_def week_stats_def charged_def)
qed

end
