(* ===== verification/Transfer_Job.thy ===== *)
theory Transfer_Job
  imports Text_Tools
begin

text \<open>
  The transfer queue's records and the pure decisions over them (\<open>transfer_engine.rs\<close>): the state of
  a job, how a finished run changes it, how a crash is repaired, which jobs a scheduling round may
  start, and what the interface sees of a job. Timestamps are Unix milliseconds, texts are lists of
  Unicode scalar values. \<open>lower\<close> stands for \<open>str::to_lowercase\<close>.
\<close>



section \<open>Records\<close>

datatype direction = UploadDirection | DownloadDirection

datatype transfer_kind = LocalUpload | UrlUpload | DownloadKind

datatype transfer_status =
    Pending | Paused | WaitingForNetwork | Cooldown | Downloading | Uploading | Encrypting
  | Decrypting | Verifying | WaitingForUnlock | Completed | Failed | Cancelled

datatype error_category =
    NetworkError | RateLimitError | UnlockError | SourceMissingError | StorageError | IntegrityError
  | AccountError | InterruptedError | PersistenceError | CancelledError | OtherError

datatype collision_policy = KeepBoth | Skip | Replace

datatype download_outcome = Saved | Skipped

record download_publication =
  dp_outcome :: download_outcome
  dp_save_path :: str

definition status_is_active :: "transfer_status \<Rightarrow> bool" where
  "status_is_active s \<longleftrightarrow> s \<in> {Downloading, Uploading, Encrypting, Decrypting, Verifying}"

definition is_terminal :: "transfer_status \<Rightarrow> bool" where
  "is_terminal s \<longleftrightarrow> s \<in> {Completed, Failed, Cancelled}"

definition is_tray_active :: "transfer_status \<Rightarrow> bool" where
  "is_tray_active s \<longleftrightarrow> status_is_active s \<or> s = Pending"

definition is_tray_waiting :: "transfer_status \<Rightarrow> bool" where
  "is_tray_waiting s \<longleftrightarrow> s \<in> {WaitingForNetwork, WaitingForUnlock, Cooldown}"

record transfer_job =
  job_id :: str
  job_owner :: "str option"
  job_direction :: direction
  job_kind :: transfer_kind
  job_status :: transfer_status
  job_outcome :: "download_outcome option"
  job_path :: "str option"
  job_url :: "str option"
  job_folder :: "int option"
  job_message :: "int option"
  job_filename :: str
  job_save_path :: "str option"
  job_collision :: collision_policy
  job_protection :: "str option"
  job_protect_metadata :: "bool option"
  job_video_mode :: "str option"
  job_video_caption :: "bool option"
  job_temp_zip :: "str option"
  job_progress :: u8
  job_transferred :: u64
  job_total :: u64
  job_speed :: u64
  job_error :: "str option"
  job_category :: "error_category option"
  job_unsaved :: bool \<comment> \<open>\<open>persistence_pending\<close>\<close>
  job_retry_at :: "int option"
  job_network_retries :: u32
  job_origin :: "str option"
  job_sync_path :: "str option"
  job_position :: int
  job_revision :: u64
  job_created :: int
  job_updated :: int

record enqueue_request =
  rq_id :: str
  rq_owner :: "str option"
  rq_direction :: direction
  rq_kind :: transfer_kind
  rq_path :: "str option"
  rq_url :: "str option"
  rq_folder :: "int option"
  rq_message :: "int option"
  rq_filename :: str
  rq_save_path :: "str option"
  rq_collision :: collision_policy
  rq_protection :: "str option"
  rq_prompt_token :: "u64 option"
  rq_protect_metadata :: "bool option"
  rq_video_mode :: "str option"
  rq_video_caption :: "bool option"
  rq_temp_zip :: "str option"
  rq_total :: "u64 option"
  rq_initial :: "transfer_status option"
  rq_origin :: "str option"
  rq_sync_path :: "str option"

text \<open>\<open>as_deref().unwrap_or("").is_empty()\<close>\<close>

definition blank :: "str option \<Rightarrow> bool" where
  "blank v \<longleftrightarrow> (case v of None \<Rightarrow> True | Some s \<Rightarrow> s = [])"

definition validate_request :: "enqueue_request \<Rightarrow> str + unit" where
  "validate_request q =
     (if trim (rq_id q) = [] \<or> 128 < utf8_length (rq_id q) then Err (us ''Transfer ID is missing or invalid'')
      else if trim (rq_filename q) = [] then Err (us ''Transfer filename is required'')
      else if rq_kind q = LocalUpload \<and> blank (rq_path q) then Err (us ''A local upload requires a source path'')
      else if rq_kind q = UrlUpload \<and> blank (rq_url q) then Err (us ''A URL upload requires a URL'')
      else if rq_kind q = DownloadKind \<and> (rq_message q = None \<or> blank (rq_save_path q))
      then Err (us ''A download requires a message and destination path'')
      else if rq_kind q = DownloadKind \<and> rq_direction q \<noteq> DownloadDirection
      then Err (us ''Download jobs must use the download direction'')
      else if rq_kind q \<noteq> DownloadKind \<and> rq_direction q \<noteq> UploadDirection
      then Err (us ''Upload jobs must use the upload direction'')
      else Ok ())"

section \<open>Arithmetic of the records\<close>

definition saturating_add_i64 :: "int \<Rightarrow> int \<Rightarrow> int" where
  "saturating_add_i64 a b = max (- (2 ^ 63)) (min (2 ^ 63 - 1) (a + b))"

definition next_revision :: "transfer_job \<Rightarrow> transfer_job" where
  "next_revision j = j\<lparr>job_revision := saturating_add_u64 (job_revision j) 1\<rparr>"

lemma next_revision_more: "job_revision j \<le> job_revision (next_revision j)"
proof -
  have "unat (job_revision j) \<le> 18446744073709551615" using unat_u64_less [of "job_revision j"] by linarith
  then show ?thesis by (simp add: next_revision_def word_le_nat_alt unat_saturating_add_u64 min_def)
qed

section \<open>Failures\<close>

definition FLOOD_MARKER :: str where "FLOOD_MARKER = us ''FLOOD_WAIT_''"

text \<open>\<open>commands::utils::flood_wait_seconds\<close>\<close>

definition server_wait_seconds :: "str \<Rightarrow> nat option" where
  "server_wait_seconds error =
     (case find_text error FLOOD_MARKER of
        None \<Rightarrow> None
      | Some i \<Rightarrow> parse_unsigned (2 ^ 64 - 1)
          (takeWhile is_ascii_digit (drop (i + length FLOOD_MARKER) error)))"

definition flood_wait_seconds :: "str \<Rightarrow> nat option" where
  "flood_wait_seconds error =
     (case server_wait_seconds (to_ascii_uppercase error) of
        None \<Rightarrow> None
      | Some seconds \<Rightarrow> if seconds < 2 ^ 32 then Some (max 1 (min 300 seconds)) else None)"

definition mentions :: "str \<Rightarrow> string list \<Rightarrow> bool" where
  "mentions s patterns = list_ex (\<lambda>p. contains_text s (us p)) patterns"

definition classify_failure :: "(str \<Rightarrow> str) \<Rightarrow> str \<Rightarrow> error_category" where
  "classify_failure lower error =
     (if mentions error [''ACCOUNT_''] then AccountError
      else if mentions error [''VAULT_LOCKED'', ''KEY_REQUIRED''] then UnlockError
      else if flood_wait_seconds error \<noteq> None then RateLimitError
      else if mentions (lower error) [''cancelled''] then CancelledError
      else if mentions (lower error) [''no such file'', ''not found''] then SourceMissingError
      else if mentions (lower error) [''no space'', ''disk full'', ''permission denied''] then StorageError
      else if mentions (lower error) [''integrity'', ''authentication failed'', ''verification''] then IntegrityError
      else if mentions (lower error) [''network'', ''connection'', ''timed out'', ''timeout'',
        ''broken pipe'', ''reset by peer'', ''unexpected eof'', ''early eof'',
        ''temporarily unavailable'', ''client not connected''] then NetworkError
      else OtherError)"

definition NETWORK_RETRY_BACKOFF_SECS :: "int list" where
  "NETWORK_RETRY_BACKOFF_SECS = [5, 15, 45, 120, 300]"

definition apply_failure :: "(str \<Rightarrow> str) \<Rightarrow> str \<Rightarrow> int \<Rightarrow> transfer_job \<Rightarrow> transfer_job" where
  "apply_failure lower error now job =
     (let job = job\<lparr>job_speed := 0, job_retry_at := None, job_category := Some (classify_failure lower error)\<rparr> in
      if mentions error [''VAULT_LOCKED'', ''KEY_REQUIRED'']
      then job\<lparr>job_status := WaitingForUnlock, job_error := Some error\<rparr>
      else case flood_wait_seconds error of
        Some seconds \<Rightarrow>
          job\<lparr>job_status := Cooldown,
              job_retry_at := Some (saturating_add_i64 now (int seconds * 1000)),
              job_error := Some (us (''Telegram cooling down ('' @ digits seconds @ ''s)''))\<rparr>
      | None \<Rightarrow>
          (if mentions error [''ACCOUNT_''] then job\<lparr>job_status := Paused\<rparr>
           else if mentions error [''Client not connected''] then job\<lparr>job_status := WaitingForNetwork\<rparr>
           else if mentions error [''Transfer cancelled''] then job\<lparr>job_status := Cancelled\<rparr>
           else if job_category job = Some NetworkError
           then (let spent = unat (job_network_retries job) in
                 if spent < length NETWORK_RETRY_BACKOFF_SECS
                 then job\<lparr>job_network_retries := job_network_retries job + 1,
                          job_status := Cooldown,
                          job_retry_at := Some (saturating_add_i64 now (NETWORK_RETRY_BACKOFF_SECS ! spent * 1000))\<rparr>
                 else job\<lparr>job_status := Failed\<rparr>)
           else job\<lparr>job_status := Failed\<rparr>)
          \<lparr>job_error := Some error\<rparr>)"

section \<open>Success\<close>

text \<open>
  The answer of a finished run: an upload's message number, or the publication of a download as
  JSON, read by \<open>parse_publication\<close>.
\<close>

definition record_success_response ::
  "(str \<Rightarrow> download_publication option) \<Rightarrow> str \<Rightarrow> transfer_job \<Rightarrow> transfer_job" where
  "record_success_response parse_publication response job =
     (if job_direction job = UploadDirection
      then job\<lparr>job_message := (case parse_i32 response of None \<Rightarrow> job_message job | Some m \<Rightarrow> Some m)\<rparr>
      else case parse_publication response of
        None \<Rightarrow> job
      | Some p \<Rightarrow>
          (let job = job\<lparr>job_outcome := Some (dp_outcome p),
                         job_filename := (case file_name (dp_save_path p) of None \<Rightarrow> job_filename job | Some n \<Rightarrow> n),
                         job_save_path := Some (dp_save_path p)\<rparr> in
           if dp_outcome p = Skipped then job\<lparr>job_transferred := 0\<rparr> else job))"

definition finished_job ::
  "(str \<Rightarrow> download_publication option) \<Rightarrow> str \<Rightarrow> transfer_job \<Rightarrow> transfer_job" where
  "finished_job parse_publication response current =
     record_success_response parse_publication response
       (current\<lparr>job_status := Completed, job_progress := 100,
                job_transferred := max (job_total current) (job_transferred current),
                job_speed := 0, job_error := None, job_retry_at := None, job_category := None,
                job_network_retries := 0\<rparr>)"

text \<open>A run that fails after the user paused, cancelled or resumed the job keeps the user's state.\<close>

definition failed_job :: "(str \<Rightarrow> str) \<Rightarrow> str \<Rightarrow> int \<Rightarrow> transfer_job \<Rightarrow> transfer_job" where
  "failed_job lower error now current =
     (if job_status current \<in> {Pending, Paused, Cancelled}
      then (let current = current\<lparr>job_speed := 0\<rparr> in
            if job_status current \<in> {Pending, Paused} then current\<lparr>job_error := None\<rparr> else current)
      else apply_failure lower error now current)"

section \<open>Restart and adoption\<close>

definition INTERRUPTED_MESSAGE :: str where
  "INTERRUPTED_MESSAGE = us (''Interrupted transfer. Inspect the destination before resuming; '' @
     ''publication may already have completed.'')"

text \<open>\<open>None\<close>: the record needs no repair.\<close>

definition recover_after_restart :: "int \<Rightarrow> transfer_job \<Rightarrow> transfer_job option" where
  "recover_after_restart now job =
     (if status_is_active (job_status job) \<or>
         job_owner job = None \<and> \<not> is_terminal (job_status job) \<and> job_status job \<noteq> Paused
      then Some ((next_revision (job\<lparr>job_status := Paused, job_error := Some INTERRUPTED_MESSAGE,
             job_category := Some (if job_owner job = None then AccountError else InterruptedError),
             job_retry_at := None, job_speed := 0, job_unsaved := False\<rparr>))\<lparr>job_updated := now\<rparr>)
      else None)"

definition adopt_legacy :: "int \<Rightarrow> str \<Rightarrow> transfer_job \<Rightarrow> str + transfer_job" where
  "adopt_legacy now owner job =
     (if job_owner job \<noteq> None then Err (us ''Only unassigned transfers can be reviewed'')
      else if job_direction job = DownloadDirection \<and> job_status job \<noteq> Completed
      then Err (us ''Requeue unfinished legacy downloads from the current account's file list'')
      else Ok ((next_revision (job\<lparr>job_owner := Some owner,
          job_status := (if \<not> is_terminal (job_status job) \<or> job_status job \<noteq> Completed then Paused else job_status job),
          job_error := None, job_category := None, job_retry_at := None, job_speed := 0\<rparr>))\<lparr>job_updated := now\<rparr>))"

section \<open>Selection\<close>

text \<open>
  \<open>HashMap\<close>s have no order of their own; a function that walks one takes the order of the walk as a
  list of its values. \<open>sort_key\<close> is stable, as \<open>sort_by_key\<close> is.
\<close>

fun take_slots :: "nat \<Rightarrow> nat \<Rightarrow> transfer_job list \<Rightarrow> str list" where
  "take_slots uploads downloads [] = []"
| "take_slots uploads downloads (j # js) =
     (case job_direction j of
        UploadDirection \<Rightarrow>
          (if 0 < uploads then job_id j # take_slots (uploads - 1) downloads js
           else take_slots uploads downloads js)
      | DownloadDirection \<Rightarrow>
          (if 0 < downloads then job_id j # take_slots uploads (downloads - 1) js
           else take_slots uploads downloads js))"

definition select_pending_job_ids ::
  "transfer_job list \<Rightarrow> (str \<Rightarrow> direction option) \<Rightarrow> nat \<Rightarrow> nat \<Rightarrow> str list" where
  "select_pending_job_ids jobs active upload_slots download_slots =
     take_slots upload_slots download_slots
       (sort_key job_position
          (filter (\<lambda>j. job_status j = Pending \<and> active (job_id j) = None) jobs))"

section \<open>What others see\<close>

definition failure_text :: "transfer_job \<Rightarrow> string \<Rightarrow> str" where
  "failure_text job fallback =
     (case job_error job of None \<Rightarrow> us fallback | Some e \<Rightarrow> if e = [] then us fallback else e)"

definition supervised_outcome :: "transfer_job \<Rightarrow> (str + unit) option" where
  "supervised_outcome job =
     (case job_status job of
        Completed \<Rightarrow> Some (Ok ())
      | Failed \<Rightarrow> Some (Err (failure_text job ''The transfer failed''))
      | Cancelled \<Rightarrow> Some (Err (failure_text job ''Transfer cancelled''))
      | WaitingForUnlock \<Rightarrow> Some (Err (failure_text job ''[VAULT_LOCKED] Unlock the vault to continue''))
      | Paused \<Rightarrow> (if job_category job \<noteq> None then Some (Err (failure_text job ''The transfer was paused'')) else None)
      | _ \<Rightarrow> None)"

definition STANDARD :: str where "STANDARD = us ''standard''"

definition protected_activity_metadata :: "transfer_job \<Rightarrow> bool" where
  "protected_activity_metadata job \<longleftrightarrow>
     (case job_protection job of None \<Rightarrow> False | Some mode \<Rightarrow> mode \<noteq> STANDARD) \<or>
     job_protect_metadata job = Some True \<and> job_protection job \<noteq> Some STANDARD \<or>
     job_status job \<in> {WaitingForUnlock, Encrypting, Decrypting}"

definition activity_projection :: "transfer_job \<Rightarrow> transfer_job" where
  "activity_projection job =
     (if protected_activity_metadata job
      then job\<lparr>job_filename := [], job_path := None, job_url := None, job_save_path := None,
               job_sync_path := None, job_temp_zip := None, job_error := None, job_total := 0,
               job_transferred := 0, job_speed := 0\<rparr>
      else job)"

text \<open>A transfer of an earlier release, shown for review.\<close>

record legacy_transfer =
  lt_id :: str
  lt_filename :: str
  lt_direction :: direction
  lt_kind :: transfer_kind
  lt_status :: transfer_status
  lt_created :: int
  lt_total :: u64
  lt_can_adopt :: bool

definition legacy_entry :: "transfer_job \<Rightarrow> legacy_transfer" where
  "legacy_entry job =
     \<lparr>lt_id = job_id job,
      lt_filename = (if protected_activity_metadata job then [] else job_filename job),
      lt_direction = job_direction job, lt_kind = job_kind job, lt_status = job_status job,
      lt_created = job_created job,
      lt_total = (if protected_activity_metadata job then 0 else job_total job),
      lt_can_adopt = (job_direction job = UploadDirection \<or> job_status job = Completed)\<rparr>"

section \<open>Lemmas on failures\<close>

lemma flood_wait_bounds: "flood_wait_seconds e = Some s \<Longrightarrow> 1 \<le> s \<and> s \<le> 300"
  by (auto simp: flood_wait_seconds_def split: option.splits if_splits)

lemma apply_failure_inactive: "\<not> status_is_active (job_status (apply_failure lower error now job))"
  by (simp add: apply_failure_def status_is_active_def Let_def split: option.split)

lemma apply_failure_not_done:
  "job_status (apply_failure lower error now job) \<notin> {Completed, Pending}"
  by (simp add: apply_failure_def Let_def split: option.split)

lemma apply_failure_frame:
  "job_id (apply_failure lower error now job) = job_id job"
  "job_owner (apply_failure lower error now job) = job_owner job"
  "job_direction (apply_failure lower error now job) = job_direction job"
  "job_origin (apply_failure lower error now job) = job_origin job"
  "job_revision (apply_failure lower error now job) = job_revision job"
  "job_unsaved (apply_failure lower error now job) = job_unsaved job"
  "job_position (apply_failure lower error now job) = job_position job"
  by (simp_all add: apply_failure_def Let_def split: option.split)

lemma failed_job_frame:
  "job_id (failed_job lower error now job) = job_id job"
  "job_owner (failed_job lower error now job) = job_owner job"
  "job_direction (failed_job lower error now job) = job_direction job"
  "job_origin (failed_job lower error now job) = job_origin job"
  "job_revision (failed_job lower error now job) = job_revision job"
  "job_unsaved (failed_job lower error now job) = job_unsaved job"
  "job_position (failed_job lower error now job) = job_position job"
  by (simp_all add: failed_job_def apply_failure_frame Let_def)

lemma record_success_frame:
  "job_id (record_success_response pp r job) = job_id job"
  "job_owner (record_success_response pp r job) = job_owner job"
  "job_direction (record_success_response pp r job) = job_direction job"
  "job_origin (record_success_response pp r job) = job_origin job"
  "job_revision (record_success_response pp r job) = job_revision job"
  "job_unsaved (record_success_response pp r job) = job_unsaved job"
  "job_status (record_success_response pp r job) = job_status job"
  "job_position (record_success_response pp r job) = job_position job"
  by (simp_all add: record_success_response_def Let_def split: option.split)

lemma finished_job_frame:
  "job_id (finished_job pp r job) = job_id job"
  "job_owner (finished_job pp r job) = job_owner job"
  "job_direction (finished_job pp r job) = job_direction job"
  "job_origin (finished_job pp r job) = job_origin job"
  "job_revision (finished_job pp r job) = job_revision job"
  "job_unsaved (finished_job pp r job) = job_unsaved job"
  "job_position (finished_job pp r job) = job_position job"
  "job_status (finished_job pp r job) = Completed"
  by (simp_all add: finished_job_def record_success_frame)

lemma next_revision_frame [simp]:
  "job_id (next_revision j) = job_id j" "job_owner (next_revision j) = job_owner j"
  "job_direction (next_revision j) = job_direction j" "job_origin (next_revision j) = job_origin j"
  "job_status (next_revision j) = job_status j" "job_unsaved (next_revision j) = job_unsaved j"
  "job_position (next_revision j) = job_position j" "job_category (next_revision j) = job_category j"
  by (simp_all add: next_revision_def)

section \<open>Lemmas on selection\<close>

lemma set_take_slots:
  "set (take_slots u d js) =
     job_id ` (set (take u (filter (\<lambda>j. job_direction j = UploadDirection) js)) \<union>
               set (take d (filter (\<lambda>j. job_direction j = DownloadDirection) js)))"
proof (induction js arbitrary: u d)
  case (Cons j js)
  show ?case
    using Cons.IH by (cases "job_direction j"; cases u; cases d) auto
qed simp

lemma take_sorted_split:
  assumes "j \<in> set xs" "j \<notin> set (take n (sort_key f xs))"
  shows "length (take n (sort_key f xs)) = n" "\<And>i. i \<in> set (take n (sort_key f xs)) \<Longrightarrow> f i \<le> f j"
proof -
  let ?s = "sort_key f xs"
  have d: "j \<in> set (drop n ?s)"
    using assms by (metis append_take_drop_id in_set_conv_decomp Un_iff set_append set_sort)
  then have "n < length ?s" by (metis drop_all empty_iff leI list.set(1))
  then show "length (take n ?s) = n" by simp
  fix i assume i: "i \<in> set (take n ?s)"
  have "sorted (map f (take n ?s @ drop n ?s))" by simp
  then show "f i \<le> f j" using i d unfolding map_append sorted_append by auto
qed

lemma filter_sort_key: "filter P (sort_key f xs) = sort_key f (filter P xs)"
  by (rule filter_sort)

end
