(* ===== verification/Transfer_Store.thy ===== *)
theory Transfer_Store
  imports Transfer_Job Ordered_Map "HOL-Library.Product_Lexorder"
begin

text \<open>
  The transfer queue's database (\<open>TransferStore\<close> in \<open>transfer_engine.rs\<close>): a row per job, a
  tombstone per removed job. A statement of the database can fail; \<open>faults\<close> gives, by its number in
  the call, the error a statement reports. A failed transaction is rolled back. A row is the job its
  JSON payload encodes.
\<close>

section \<open>Tables\<close>

record transfer_db =
  db_rows :: "(str, transfer_job) btree"
  db_tombstones :: "(str, int option) btree" \<comment> \<open>\<open>removed_at\<close>, absent in records of earlier releases\<close>

type_synonym faults = "nat \<Rightarrow> str option"

definition REMOVED_MESSAGE :: str where
  "REMOVED_MESSAGE = us ''Transfer was removed; stale updates are rejected''"

definition fails :: "faults \<Rightarrow> nat \<Rightarrow> str + unit" where
  "fails F k = (case F k of None \<Rightarrow> Ok () | Some e \<Rightarrow> Err e)"

text \<open>\<open>INSERT .. ON CONFLICT(id) DO UPDATE .. WHERE excluded.revision >= transfer_jobs.revision\<close>\<close>

definition put_row :: "transfer_job \<Rightarrow> transfer_db \<Rightarrow> transfer_db" where
  "put_row job db =
     (case bt_get (db_rows db) (job_id job) of
        Some old \<Rightarrow> if job_revision job < job_revision old then db
                    else db\<lparr>db_rows := bt_insert (job_id job) job (db_rows db)\<rparr>
      | None \<Rightarrow> db\<lparr>db_rows := bt_insert (job_id job) job (db_rows db)\<rparr>)"

definition upsert_on :: "faults \<Rightarrow> nat \<Rightarrow> transfer_job \<Rightarrow> transfer_db \<Rightarrow> str + transfer_db" where
  "upsert_on F k job db =
     rbind (fails F k) (\<lambda>_.
     if bt_contains (db_tombstones db) (job_id job) then Err REMOVED_MESSAGE
     else if 2 ^ 63 \<le> unat (job_revision job) then Err (us ''Transfer revision overflow'')
     else rbind (fails F (k + 1)) (\<lambda>_. Ok (put_row job db)))"

fun upsert_all :: "faults \<Rightarrow> nat \<Rightarrow> transfer_job list \<Rightarrow> transfer_db \<Rightarrow> str + transfer_db" where
  "upsert_all F k [] db = Ok db"
| "upsert_all F k (job # jobs) db = rbind (upsert_on F k job db) (upsert_all F (k + 2) jobs)"

definition upsert :: "faults \<Rightarrow> transfer_job \<Rightarrow> transfer_db \<Rightarrow> (str + unit) \<times> transfer_db" where
  "upsert F job db = (case upsert_on F 0 job db of Err e \<Rightarrow> (Err e, db) | Ok db' \<Rightarrow> (Ok (), db'))"

text \<open>\<open>BEGIN IMMEDIATE\<close>, the work, \<open>COMMIT\<close>; any failure leaves the tables as they were.\<close>

definition transaction ::
  "faults \<Rightarrow> nat \<Rightarrow> (transfer_db \<Rightarrow> str + transfer_db) \<Rightarrow> transfer_db \<Rightarrow> (str + unit) \<times> transfer_db" where
  "transaction F statements work db =
     (case rbind (fails F 0) (\<lambda>_. rbind (work db) (\<lambda>db'. rbind (fails F (statements + 1)) (\<lambda>_. Ok db'))) of
        Err e \<Rightarrow> (Err e, db)
      | Ok db' \<Rightarrow> (Ok (), db'))"

definition upsert_many :: "faults \<Rightarrow> transfer_job list \<Rightarrow> transfer_db \<Rightarrow> (str + unit) \<times> transfer_db" where
  "upsert_many F jobs = transaction F (2 * length jobs) (upsert_all F 1 jobs)"

fun delete_all :: "faults \<Rightarrow> nat \<Rightarrow> int \<Rightarrow> str list \<Rightarrow> transfer_db \<Rightarrow> str + transfer_db" where
  "delete_all F k now [] db = Ok db"
| "delete_all F k now (i # ids) db =
     rbind (fails F k) (\<lambda>_. rbind (fails F (k + 1)) (\<lambda>_.
     delete_all F (k + 2) now ids
       (db\<lparr>db_tombstones := (if bt_contains (db_tombstones db) i then db_tombstones db
                             else bt_insert i (Some now) (db_tombstones db)),
           db_rows := bt_remove i (db_rows db)\<rparr>)))"

definition delete_many :: "faults \<Rightarrow> int \<Rightarrow> str list \<Rightarrow> transfer_db \<Rightarrow> (str + unit) \<times> transfer_db" where
  "delete_many F now ids = transaction F (2 * length ids) (delete_all F 1 now ids)"

section \<open>Opening\<close>

definition TOMBSTONE_RETENTION_SECS :: int where "TOMBSTONE_RETENTION_SECS = 30 * 24 * 60 * 60"

definition saturating_sub_i64 :: "int \<Rightarrow> int \<Rightarrow> int" where
  "saturating_sub_i64 a b = max (- (2 ^ 63)) (min (2 ^ 63 - 1) (a - b))"

definition date_tombstones :: "int \<Rightarrow> transfer_db \<Rightarrow> transfer_db" where
  "date_tombstones now db =
     db\<lparr>db_tombstones := map (\<lambda>(i, t). (i, case t of None \<Rightarrow> Some now | Some at \<Rightarrow> Some at)) (db_tombstones db)\<rparr>"

definition expire_tombstones :: "int \<Rightarrow> transfer_db \<Rightarrow> transfer_db" where
  "expire_tombstones now db =
     db\<lparr>db_tombstones :=
          bt_retain (\<lambda>_ t. case t of None \<Rightarrow> True
            | Some at \<Rightarrow> saturating_sub_i64 now TOMBSTONE_RETENTION_SECS \<le> at) (db_tombstones db)\<rparr>"

definition maintain_tombstones :: "faults \<Rightarrow> int \<Rightarrow> transfer_db \<Rightarrow> (str + unit) \<times> transfer_db" where
  "maintain_tombstones F now db =
     (case fails F 1 of Err e \<Rightarrow> (Err e, db)
      | Ok _ \<Rightarrow>
          (case fails F 2 of Err e \<Rightarrow> (Err e, date_tombstones now db)
           | Ok _ \<Rightarrow> (Ok (), expire_tombstones now (date_tombstones now db))))"

text \<open>\<open>ORDER BY queue_position, created_at\<close>; \<open>walk\<close> is the order in which the table yields equal rows.\<close>

definition load_all_from :: "(transfer_job list \<Rightarrow> transfer_job list) \<Rightarrow> transfer_db \<Rightarrow> transfer_job list" where
  "load_all_from walk db = sort_key (\<lambda>j. (job_position j, job_created j)) (walk (bt_values (db_rows db)))"

text \<open>
  The repairs of a start, outside any transaction: what an earlier failure left undone is done at the
  next start. \<open>now\<close> is in milliseconds, \<open>now_secs\<close> in seconds.
\<close>

fun drop_orphans :: "faults \<Rightarrow> nat \<Rightarrow> str list \<Rightarrow> transfer_db \<Rightarrow> (str + unit) \<times> transfer_db" where
  "drop_orphans F k [] db = (Ok (), db)"
| "drop_orphans F k (i # ids) db =
     (case fails F k of Err e \<Rightarrow> (Err e, db)
      | Ok _ \<Rightarrow> drop_orphans F (k + 1) ids (db\<lparr>db_rows := bt_remove i (db_rows db)\<rparr>))"

fun recover_all :: "faults \<Rightarrow> nat \<Rightarrow> int \<Rightarrow> transfer_job list \<Rightarrow> transfer_db \<Rightarrow> (str + transfer_job list) \<times> transfer_db" where
  "recover_all F k now [] db = (Ok [], db)"
| "recover_all F k now (job # jobs) db =
     (case recover_after_restart now job of
        None \<Rightarrow> apfst (map_sum id ((#) job)) (recover_all F k now jobs db)
      | Some repaired \<Rightarrow>
          (case upsert_on F k repaired db of
             Err e \<Rightarrow> (Err e, db)
           | Ok db' \<Rightarrow> apfst (map_sum id ((#) repaired)) (recover_all F (k + 2) now jobs db')))"

definition open_store ::
  "faults \<Rightarrow> faults \<Rightarrow> faults \<Rightarrow> (transfer_job list \<Rightarrow> transfer_job list) \<Rightarrow> int \<Rightarrow> int \<Rightarrow> transfer_db \<Rightarrow>
     (str + transfer_job list) \<times> transfer_db" where
  "open_store F orphan_faults repair_faults walk now now_secs db =
     (case fails F 0 of Err e \<Rightarrow> (Err e, db)
      | Ok _ \<Rightarrow>
     (case maintain_tombstones F now_secs db of
        (Err e, db) \<Rightarrow> (Err e, db)
      | (Ok _, db) \<Rightarrow>
     (case fails F 3 of Err e \<Rightarrow> (Err e, db)
      | Ok _ \<Rightarrow>
          (let jobs = load_all_from walk db;
               orphans = map job_id (filter (\<lambda>j. job_origin j \<noteq> None) jobs) in
           case drop_orphans orphan_faults 0 orphans db of
             (Err e, db) \<Rightarrow> (Err e, db)
           | (Ok _, db) \<Rightarrow> recover_all repair_faults 0 now (filter (\<lambda>j. job_origin j = None) jobs) db))))"

section \<open>Lemmas\<close>

definition db_ok :: "transfer_db \<Rightarrow> bool" where
  "db_ok db \<longleftrightarrow> bt_ok (db_rows db) \<and> bt_ok (db_tombstones db) \<and>
     (\<forall>i j. bt_get (db_rows db) i = Some j \<longrightarrow> job_id j = i \<and> bt_get (db_tombstones db) i = None)"

lemma fails_Ok [simp]: "fails F k = Ok u \<longleftrightarrow> F k = None"
  by (simp add: fails_def split: option.split)

lemma upsert_on_Ok:
  "upsert_on F k job db = Ok db' \<Longrightarrow>
     db' = put_row job db \<and> bt_get (db_tombstones db) (job_id job) = None"
  by (auto simp: upsert_on_def bt_contains_def split: if_splits)

lemma put_row_tombstones [simp]: "db_tombstones (put_row job db) = db_tombstones db"
  by (simp add: put_row_def split: option.split)

lemma put_row_get:
  "bt_get (db_rows (put_row job db)) i =
     (if i = job_id job
      then (case bt_get (db_rows db) i of
              Some old \<Rightarrow> if job_revision job < job_revision old then Some old else Some job
            | None \<Rightarrow> Some job)
      else bt_get (db_rows db) i)"
  by (auto simp: put_row_def split: option.split)

lemma put_row_ok: "db_ok db \<Longrightarrow> bt_get (db_tombstones db) (job_id job) = None \<Longrightarrow> db_ok (put_row job db)"
  unfolding db_ok_def put_row_get
  by (auto simp: put_row_def split: option.split if_splits)

lemma upsert_all_Ok:
  "upsert_all F k jobs db = Ok db' \<Longrightarrow>
     db' = fold put_row jobs db \<and> (\<forall>j\<in>set jobs. bt_get (db_tombstones db) (job_id j) = None)"
  by (induction jobs arbitrary: k db) (fastforce dest!: upsert_on_Ok)+

lemma fold_put_row_tombstones [simp]: "db_tombstones (fold put_row jobs db) = db_tombstones db"
  by (induction jobs arbitrary: db) simp_all

lemma fold_put_row_ok:
  "db_ok db \<Longrightarrow> (\<forall>j\<in>set jobs. bt_get (db_tombstones db) (job_id j) = None) \<Longrightarrow> db_ok (fold put_row jobs db)"
  by (induction jobs arbitrary: db) (auto simp: put_row_ok)

lemma fold_put_row_other:
  "i \<notin> job_id ` set jobs \<Longrightarrow> bt_get (db_rows (fold put_row jobs db)) i = bt_get (db_rows db) i"
  by (induction jobs arbitrary: db) (auto simp: put_row_get)

lemma fold_put_row_get:
  "distinct (map job_id jobs) \<Longrightarrow> j \<in> set jobs \<Longrightarrow>
     bt_get (db_rows (fold put_row jobs db)) (job_id j) = bt_get (db_rows (put_row j db)) (job_id j)"
proof (induction jobs arbitrary: db)
  case (Cons a jobs)
  show ?case
  proof (cases "j = a")
    case True
    then have "job_id j \<notin> job_id ` set jobs" using Cons.prems by auto
    then show ?thesis using True fold_put_row_other [of "job_id j" jobs "put_row a db"] by simp
  next
    case False
    then have m: "j \<in> set jobs" using Cons.prems by simp
    then have n: "job_id j \<noteq> job_id a" using Cons.prems by (metis distinct.simps(2) image_eqI image_set list.simps(9))
    then show ?thesis using Cons.IH [of "put_row a db"] Cons.prems(1) m by (simp add: put_row_get)
  qed
qed simp

lemma transaction_cases:
  "transaction F n work db = (r, db') \<Longrightarrow>
     (\<exists>e. r = Err e) \<and> db' = db \<or> r = Ok () \<and> work db = Ok db'"
  unfolding transaction_def by (auto simp: rbind_def split: sum.splits)

lemma delete_all_Ok:
  "delete_all F k now ids db = Ok db' \<Longrightarrow>
     (\<forall>i. bt_get (db_rows db') i = (if i \<in> set ids then None else bt_get (db_rows db) i)) \<and>
     (\<forall>i. bt_get (db_tombstones db') i =
            (case bt_get (db_tombstones db) i of Some t \<Rightarrow> Some t
             | None \<Rightarrow> if i \<in> set ids then Some (Some now) else None)) \<and>
     (bt_ok (db_rows db) \<and> bt_ok (db_tombstones db) \<longrightarrow> bt_ok (db_rows db') \<and> bt_ok (db_tombstones db'))"
proof (induction ids arbitrary: k db)
  case (Cons a ids)
  from Cons.prems have "delete_all F (k + 2) now ids
       (db\<lparr>db_tombstones := (if bt_contains (db_tombstones db) a then db_tombstones db
                             else bt_insert a (Some now) (db_tombstones db)),
           db_rows := bt_remove a (db_rows db)\<rparr>) = Ok db'" by auto
  from Cons.IH [OF this] show ?case
    by (auto simp: bt_contains_def split: option.splits if_splits)
qed (auto split: option.split)

end
