(* ===== verification/Download_Destination.thy ===== *)
theory Download_Destination
  imports Transfer_Job
begin

text \<open>
  Where a download may land (\<open>commands/download_destination.rs\<close>): the key two destinations collide
  on, the numbered siblings of a name, the reservation of a free one and the publication of the
  finished file. A path is its components; \<open>canonical\<close> is \<open>Path::canonicalize\<close> of a directory,
  \<open>listing\<close> what \<open>read_dir\<close> yields for it.
\<close>

section \<open>Names\<close>

definition MAX_NAMES :: nat where "MAX_NAMES = 10000"

type_synonym place = "component list"

record folder_view =
  fv_canonical :: "place \<Rightarrow> str + str"
  fv_listing :: "place \<Rightarrow> str + (str + str) list"

definition parent_place :: "place \<Rightarrow> place" where
  "parent_place p = (if p = [] \<or> last p = RootDir \<or> butlast p = [] then [CurDir] else butlast p)"

definition destination_key :: "(str \<Rightarrow> str) \<Rightarrow> folder_view \<Rightarrow> place \<Rightarrow> str + str" where
  "destination_key lower V p =
     (case place_name p of
        None \<Rightarrow> Err (us ''Download destination has no filename'')
      | Some name \<Rightarrow>
          (if trim name = [] then Err (us ''Download destination has no filename'')
           else case fv_canonical V (parent_place p) of
             Err e \<Rightarrow> Err (us ''Download directory is unavailable: '' @ e)
           | Ok directory \<Rightarrow> Ok (lower directory @ 0 # lower name)))"

definition sibling :: "place \<Rightarrow> nat \<Rightarrow> place" where
  "sibling p index =
     (if index = 0 then p
      else let (stem, extension) =
             (case place_name p of None \<Rightarrow> (us ''download'', None) | Some name \<Rightarrow> name_split name);
           suffix = (case extension of None \<Rightarrow> [] | Some e \<Rightarrow> if e = [] then [] else DOT # e) in
        parent_place p @ [Normal (stem @ us ('' ('' @ digits index @ '')'') @ suffix)])"

definition ok_values :: "('e + 'a) list \<Rightarrow> 'a list" where
  "ok_values rs = concat (map (\<lambda>r. case r of Err _ \<Rightarrow> [] | Ok v \<Rightarrow> [v]) rs)"

definition existing_names :: "(str \<Rightarrow> str) \<Rightarrow> folder_view \<Rightarrow> place \<Rightarrow> str + str set" where
  "existing_names lower V p =
     (case fv_listing V (parent_place p) of
        Err e \<Rightarrow> Err (us ''Cannot inspect download directory: '' @ e)
      | Ok entries \<Rightarrow>
          (case find (\<lambda>r. case r of Err _ \<Rightarrow> True | Ok _ \<Rightarrow> False) entries of
             Some (Err e) \<Rightarrow> Err (us ''Cannot inspect download filename: '' @ e)
           | _ \<Rightarrow> Ok (set (map lower (ok_values entries)))))"

section \<open>Reservation\<close>

fun reserve_from ::
  "(str \<Rightarrow> str) \<Rightarrow> folder_view \<Rightarrow> place \<Rightarrow> str set \<Rightarrow> str set \<Rightarrow> nat \<Rightarrow> nat \<Rightarrow> str + (place \<times> str set)" where
  "reserve_from lower V p names reserved index 0 = Err (us ''Could not reserve a unique download filename'')"
| "reserve_from lower V p names reserved index (Suc left) =
     rbind (destination_key lower V (sibling p index)) (\<lambda>key.
     if key \<notin> reserved \<and> lower (the (place_name (sibling p index))) \<notin> names
     then Ok (sibling p index, insert key reserved)
     else reserve_from lower V p names reserved (Suc index) left)"

definition reserve_destination ::
  "(str \<Rightarrow> str) \<Rightarrow> folder_view \<Rightarrow> place \<Rightarrow> collision_policy \<Rightarrow> str set \<Rightarrow> str + (place \<times> str set)" where
  "reserve_destination lower V p policy reserved =
     rbind (if policy = KeepBoth then existing_names lower V p else Ok {}) (\<lambda>names.
     reserve_from lower V p names reserved 0 MAX_NAMES)"

text \<open>
  \<open>reserve_new_downloads\<close> of the transfer queue: the new downloads of a batch, in order, each take a
  name no unfinished download and no earlier one of the batch has.
\<close>

definition skips_reservation :: "str set \<Rightarrow> transfer_job \<Rightarrow> bool" where
  "skips_reservation created job \<longleftrightarrow>
     job_direction job \<noteq> DownloadDirection \<or> job_id job \<notin> created \<or> is_terminal (job_status job) \<or>
     job_owner job = None"

definition reserve_job ::
  "(str \<Rightarrow> str) \<Rightarrow> folder_view \<Rightarrow> transfer_job \<Rightarrow> str set \<Rightarrow> str + (transfer_job \<times> str set)" where
  "reserve_job lower V job reserved =
     rbind (ok_or (job_save_path job) (us ''Download destination is missing'')) (\<lambda>written.
     rbind (reserve_destination lower V (path_components written) (job_collision job) reserved) (\<lambda>(place, reserved).
     rbind (if job_origin job = None
            then rbind (ok_or (place_name place) (us ''Download filename is missing'')) (\<lambda>n.
                 Ok (job\<lparr>job_filename := n\<rparr>))
            else Ok job) (\<lambda>job.
     Ok (job\<lparr>job_save_path := Some (render_place place)\<rparr>, reserved))))"

fun reserve_batch ::
  "(str \<Rightarrow> str) \<Rightarrow> folder_view \<Rightarrow> str set \<Rightarrow> transfer_job list \<Rightarrow> str set \<Rightarrow> str + transfer_job list" where
  "reserve_batch lower V created [] reserved = Ok []"
| "reserve_batch lower V created (job # jobs) reserved =
     (if skips_reservation created job
      then rbind (reserve_batch lower V created jobs reserved) (\<lambda>js. Ok (job # js))
      else rbind (reserve_job lower V job reserved) (\<lambda>(job, reserved).
           rbind (reserve_batch lower V created jobs reserved) (\<lambda>js. Ok (job # js))))"

definition known_keys :: "(str \<Rightarrow> str) \<Rightarrow> folder_view \<Rightarrow> str list \<Rightarrow> str set" where
  "known_keys lower V paths =
     set (ok_values (map (\<lambda>p. destination_key lower V (path_components p)) paths))"

definition reserve_new_downloads ::
  "(str \<Rightarrow> str) \<Rightarrow> folder_view \<Rightarrow> transfer_job list \<Rightarrow> str set \<Rightarrow> str list \<Rightarrow> str + transfer_job list" where
  "reserve_new_downloads lower V jobs created reserved_paths =
     reserve_batch lower V created jobs (known_keys lower V reserved_paths)"

section \<open>Publication\<close>

text \<open>
  The files of the device, by path. Between two attempts other programs may do anything, so an attempt
  works on the files as it finds them; \<open>pe_fault\<close> is an error other than \<open>AlreadyExists\<close>.
\<close>

type_synonym 'c files = "place \<Rightarrow> 'c option"

datatype 'c move_result = Moved "'c files" | DestinationExists | MoveFailed str

definition NO_SOURCE :: str where "NO_SOURCE = us ''No such file or directory (os error 2)''"

definition rename_without_replace :: "str option \<Rightarrow> place \<Rightarrow> place \<Rightarrow> 'c files \<Rightarrow> 'c move_result" where
  "rename_without_replace fault source destination disk =
     (case fault of Some e \<Rightarrow> MoveFailed e
      | None \<Rightarrow> if disk source = None then MoveFailed NO_SOURCE
          else if disk destination \<noteq> None then DestinationExists
          else Moved ((disk(source := None))(destination := disk source)))"

definition replace_download_file :: "str option \<Rightarrow> place \<Rightarrow> place \<Rightarrow> 'c files \<Rightarrow> 'c move_result" where
  "replace_download_file fault source destination disk =
     (case fault of Some e \<Rightarrow> MoveFailed e
      | None \<Rightarrow> if disk source = None then MoveFailed NO_SOURCE
          else Moved ((disk(source := None))(destination := disk source)))"

record 'c publish_env =
  pe_view :: folder_view
  pe_account :: "nat \<Rightarrow> str + unit" \<comment> \<open>the guard's answer at the start and before each move\<close>
  pe_fault :: "nat \<Rightarrow> str option"
  pe_disk :: "nat \<Rightarrow> 'c files" \<comment> \<open>the device when attempt \<open>i\<close> moves\<close>

fun publish_from ::
  "(str \<Rightarrow> str) \<Rightarrow> 'c publish_env \<Rightarrow> place \<Rightarrow> place \<Rightarrow> collision_policy \<Rightarrow> str set \<Rightarrow> nat \<Rightarrow> nat \<Rightarrow>
     (str + download_publication) \<times> (nat \<times> 'c files) option" where
  "publish_from lower E source destination policy names index 0 =
     (Err (us ''Could not publish a unique download filename''), None)"
| "publish_from lower E source destination policy names index (Suc left) =
     (let candidate = sibling destination index in
      case place_name candidate of
        None \<Rightarrow> (Err (us ''Download destination has no filename''), None)
      | Some name \<Rightarrow>
          (if policy \<noteq> Replace \<and> lower name \<in> names
           then if policy = Skip then (Ok \<lparr>dp_outcome = Skipped, dp_save_path = render_place destination\<rparr>, None)
                else publish_from lower E source destination policy names (Suc index) left
           else case pe_account E (Suc index) of
             Err e \<Rightarrow> (Err e, None)
           | Ok _ \<Rightarrow>
               (case (if policy = Replace then replace_download_file else rename_without_replace)
                       (pe_fault E index) source candidate (pe_disk E index) of
                  Moved disk \<Rightarrow> (Ok \<lparr>dp_outcome = Saved, dp_save_path = render_place candidate\<rparr>, Some (index, disk))
                | DestinationExists \<Rightarrow>
                    (if policy = Skip
                     then (Ok \<lparr>dp_outcome = Skipped, dp_save_path = render_place destination\<rparr>, None)
                     else publish_from lower E source destination policy names (Suc index) left)
                | MoveFailed e \<Rightarrow> (Err (us ''Failed to publish verified download: '' @ e), None))))"

definition publish ::
  "(str \<Rightarrow> str) \<Rightarrow> 'c publish_env \<Rightarrow> place \<Rightarrow> place \<Rightarrow> collision_policy \<Rightarrow>
     (str + download_publication) \<times> (nat \<times> 'c files) option" where
  "publish lower E source destination policy =
     (case pe_account E 0 of Err e \<Rightarrow> (Err e, None)
      | Ok _ \<Rightarrow>
          (case existing_names lower (pe_view E) destination of Err e \<Rightarrow> (Err e, None)
           | Ok names \<Rightarrow> publish_from lower E source destination policy names 0 MAX_NAMES))"

definition skip_existing_download ::
  "(str \<Rightarrow> str) \<Rightarrow> folder_view \<Rightarrow> str + unit \<Rightarrow> place \<Rightarrow> collision_policy \<Rightarrow> str + download_publication option" where
  "skip_existing_download lower V account destination policy =
     (if policy \<noteq> Skip then Ok None
      else rbind account (\<lambda>_.
        rbind (existing_names lower V destination) (\<lambda>names.
        rbind (ok_or (place_name destination) (us ''Download destination has no filename'')) (\<lambda>name.
        Ok (if lower name \<in> names
            then Some \<lparr>dp_outcome = Skipped, dp_save_path = render_place destination\<rparr> else None)))))"

end
