(* ===== verification/Account_Guard.thy ===== *)
theory Account_Guard
  imports Text_Tools
begin

text \<open>
  The account a piece of work belongs to (\<open>workspace/account.rs\<close>). Signing out raises a flag and
  starts a new generation; an operation captures the owner and the generation and checks both again
  before it publishes anything. The flag and the generation are read several times by one call while
  another thread may change them, so a call works on the values its reads return, in their order.
\<close>

section \<open>Lifecycle\<close>

record lifecycle =
  signing_out :: bool
  generation :: u64

definition suspend_lifecycle :: "lifecycle \<Rightarrow> lifecycle" where
  "suspend_lifecycle L = L\<lparr>signing_out := True, generation := generation L + 1\<rparr>"

definition resume_lifecycle :: "lifecycle \<Rightarrow> lifecycle" where
  "resume_lifecycle L = L\<lparr>signing_out := False\<rparr>"

section \<open>The saved session\<close>

text \<open>
  A registered live session: the file it was opened on, the generation of the registration, and
  whether the runner is ready. Its peer is what the Telegram library's storage answers: a panic, no
  self peer, or a user id.
\<close>

record registered_session =
  rs_identity :: "(u64 \<times> u64) option"
  rs_generation :: u64
  rs_ready :: bool

datatype self_peer = PeerPanicked | NoSelfPeer | SelfUser int

text \<open>
  The values one call of \<open>current_owner\<close> reads. \<open>so_registered\<close> is the entry whose session is still
  alive; \<open>so_saved\<close> the answer of the read-only look at the session file.
\<close>

record session_reads =
  so_first :: lifecycle \<comment> \<open>the first load of each lifecycle field\<close>
  so_file_present :: bool
  so_registered :: "registered_session option"
  so_identity_before :: "(u64 \<times> u64) option"
  so_peer :: self_peer
  so_identity_after :: "(u64 \<times> u64) option"
  so_saved :: "str + int option"
  so_last :: lifecycle \<comment> \<open>the second load of each\<close>

definition CHANGED_SIGN_IN :: str where
  "CHANGED_SIGN_IN = us ''ACCOUNT_CHANGED: Sign in again to open your workspace''"
definition CHANGED_SESSION :: str where
  "CHANGED_SESSION = us ''ACCOUNT_CHANGED: The saved session has been replaced''"
definition ACCOUNT_UNAVAILABLE :: str where
  "ACCOUNT_UNAVAILABLE = us ''ACCOUNT_UNAVAILABLE: The saved account is temporarily unavailable''"
definition ACCOUNT_REQUIRED :: str where
  "ACCOUNT_REQUIRED = us ''ACCOUNT_REQUIRED: Sign in to open your workspace''"

definition live_owner :: "session_reads \<Rightarrow> registered_session \<Rightarrow> str + int option" where
  "live_owner R r =
     (let same_file = (\<lambda>identity. rs_identity r \<noteq> None \<and> identity = rs_identity r) in
      if rs_generation r \<noteq> generation (so_first R) \<or> \<not> same_file (so_identity_before R) then Err CHANGED_SESSION
      else if \<not> rs_ready r then Err ACCOUNT_UNAVAILABLE
      else if so_peer R = PeerPanicked then Err ACCOUNT_UNAVAILABLE
      else if \<not> same_file (so_identity_after R) then Err CHANGED_SESSION
      else Ok (case so_peer R of SelfUser i \<Rightarrow> if 1 \<le> i \<and> i \<le> 0xffffffffff then Some i else None | _ \<Rightarrow> None))"

definition current_owner :: "session_reads \<Rightarrow> str + int" where
  "current_owner R =
     (if signing_out (so_first R) then Err (us ''ACCOUNT_CHANGED: Sign in again to open this workspace'')
      else if \<not> so_file_present R then Err ACCOUNT_REQUIRED
      else rbind (case so_registered R of Some r \<Rightarrow> live_owner R r | None \<Rightarrow> so_saved R) (\<lambda>owner.
        if signing_out (so_last R) \<or> generation (so_first R) \<noteq> generation (so_last R)
        then Err CHANGED_SIGN_IN
        else ok_or owner ACCOUNT_REQUIRED))"

section \<open>The guard\<close>

record account_guard =
  ag_root :: str
  ag_owner :: int
  ag_generation :: u64

definition owner_text :: "account_guard \<Rightarrow> str" where
  "owner_text a = us (show_int (ag_owner a))"

definition same_session :: "account_guard \<Rightarrow> account_guard \<Rightarrow> bool" where
  "same_session a b \<longleftrightarrow> ag_root a = ag_root b \<and> ag_owner a = ag_owner b \<and> ag_generation a = ag_generation b"

text \<open>\<open>before\<close> and \<open>after\<close> are the loads around the look at the session.\<close>

definition open_account ::
  "u64 \<Rightarrow> session_reads \<Rightarrow> u64 \<Rightarrow> str \<Rightarrow> str option \<Rightarrow> str + account_guard" where
  "open_account before R after root expected =
     rbind (current_owner R) (\<lambda>owner.
     if before \<noteq> after \<or> (case expected of None \<Rightarrow> False | Some i \<Rightarrow> i \<noteq> us (show_int owner))
     then Err (us ''ACCOUNT_CHANGED: Reopen your workspace for the current account'')
     else Ok \<lparr>ag_root = root, ag_owner = owner, ag_generation = before\<rparr>)"

definition validate_account :: "u64 \<Rightarrow> session_reads \<Rightarrow> account_guard \<Rightarrow> str + unit" where
  "validate_account now R a =
     (if ag_generation a \<noteq> now then Err (us ''ACCOUNT_CHANGED: This operation belongs to a different session'')
      else rbind (current_owner R) (\<lambda>owner.
        if owner \<noteq> ag_owner a then Err (us ''ACCOUNT_CHANGED: This operation belongs to a different session'')
        else Ok ()))"

definition validate_client_owner :: "u64 \<Rightarrow> session_reads \<Rightarrow> int \<Rightarrow> account_guard \<Rightarrow> str + unit" where
  "validate_client_owner now R client_owner a =
     (if client_owner \<noteq> ag_owner a
      then Err (us ''ACCOUNT_CHANGED: Connected client belongs to another account'')
      else validate_account now R a)"

text \<open>An operation that runs with a guard: checked before, and again when it succeeded.\<close>

definition with_operation_account :: "str + unit \<Rightarrow> str + 'a \<Rightarrow> str + unit \<Rightarrow> str + 'a" where
  "with_operation_account before result after =
     rbind before (\<lambda>_. case result of Err e \<Rightarrow> Err e | Ok v \<Rightarrow> rbind after (\<lambda>_. Ok v))"

section \<open>Lemmas\<close>

lemma open_account_Ok:
  "open_account g R g' root expected = Ok a \<Longrightarrow>
     g = g' \<and> ag_generation a = g \<and> current_owner R = Ok (ag_owner a) \<and>
     (case expected of None \<Rightarrow> True | Some i \<Rightarrow> i = owner_text a)"
  by (auto simp: open_account_def owner_text_def split: if_splits option.splits)

lemma validate_account_Ok:
  "validate_account g R a = Ok () \<longleftrightarrow> ag_generation a = g \<and> current_owner R = Ok (ag_owner a)"
  by (auto simp: validate_account_def rbind_def split: sum.splits)

lemma owner_text_inj: "owner_text a = owner_text b \<longleftrightarrow> ag_owner a = ag_owner b"
  unfolding owner_text_def using show_int_inj by auto

text \<open>An owner is only answered when the session did not change while it was read.\<close>

lemma current_owner_Ok:
  assumes "current_owner R = Ok owner"
  shows "\<not> signing_out (so_first R)" "\<not> signing_out (so_last R)" "generation (so_first R) = generation (so_last R)"
    and "so_registered R = Some r \<Longrightarrow>
      rs_ready r \<and> rs_generation r = generation (so_first R) \<and> so_identity_before R = rs_identity r \<and>
      so_identity_after R = rs_identity r \<and> so_peer R = SelfUser owner \<and> 1 \<le> owner"
    and "so_registered R = None \<Longrightarrow> so_saved R = Ok (Some owner)"
  using assms by (auto simp: current_owner_def live_owner_def Let_def split: if_splits option.splits self_peer.splits)

text \<open>Signing out between capture and check makes every captured guard fail.\<close>

lemma signed_out_rejected:
  assumes "signing_out (so_first R) \<or> signing_out (so_last R)"
  shows "validate_account g R a \<noteq> Ok ()"
  using assms current_owner_Ok(1,2) by (auto simp: validate_account_Ok)

end
