(* ===== verification/Transfer_Queue.thy ===== *)
theory Transfer_Queue
  imports Transfer_Store Download_Destination Account_Guard
begin

text \<open>
  The transfer queue (\<open>TransferEngine\<close> in \<open>transfer_engine.rs\<close>). Every handler runs under the
  mutation lock, so each is one function on the engine's state. What a handler learns from outside
  is a record: the account guard's reads, the clock, the failures of the database. The transfer
  itself, \<open>cmd_cancel_transfer\<close> apart from its request, and the events sent to the interface are
  outside the model.
\<close>

section \<open>State and environment\<close>

record engine =
  en_db :: transfer_db
  en_jobs :: "(str, transfer_job) btree"
  en_active :: "(str, direction) btree"
  en_pending :: "(str, transfer_job) btree" \<comment> \<open>results whose final write failed\<close>
  en_tokens :: "(str, u64) btree"
  en_checkpoints :: "(str, int) btree" \<comment> \<open>monotonic clock, nanoseconds\<close>
  en_cancel_requests :: "str set"
  en_max_uploads :: nat
  en_max_downloads :: nat
  en_shutting_down :: bool

record engine_env =
  ev_root :: str
  ev_generation :: u64
  ev_reads :: session_reads
  ev_generation_after :: u64
  ev_check_generation :: u64
  ev_check_reads :: session_reads
  ev_connected :: bool
  ev_now :: int
  ev_stamp :: int \<comment> \<open>the clock at the end of the handler\<close>
  ev_instant :: int
  ev_faults :: faults
  ev_retry_faults :: "str \<Rightarrow> faults"
  ev_walk :: "transfer_job list \<Rightarrow> transfer_job list" \<comment> \<open>the order in which a map is walked\<close>

definition engine_account :: "engine_env \<Rightarrow> str option \<Rightarrow> str + account_guard" where
  "engine_account E expected =
     open_account (ev_generation E) (ev_reads E) (ev_generation_after E) (ev_root E) expected"

definition still_owner :: "engine_env \<Rightarrow> account_guard \<Rightarrow> str + unit" where
  "still_owner E a = validate_account (ev_check_generation E) (ev_check_reads E) a"

definition initialize_engine :: "transfer_db \<Rightarrow> transfer_job list \<Rightarrow> engine" where
  "initialize_engine db loaded =
     \<lparr>en_db = db, en_jobs = fold (\<lambda>j. bt_insert (job_id j) j) loaded [], en_active = [], en_pending = [],
      en_tokens = [], en_checkpoints = [], en_cancel_requests = {}, en_max_uploads = 6,
      en_max_downloads = 6, en_shutting_down = False\<rparr>"

section \<open>Saving\<close>

text \<open>A change becomes visible only after its complete transaction succeeded.\<close>

definition commit_jobs :: "faults \<Rightarrow> transfer_job list \<Rightarrow> engine \<Rightarrow> (str + unit) \<times> engine" where
  "commit_jobs F updated en =
     (case upsert_many F updated (en_db en) of
        (Err e, db) \<Rightarrow> (Err (us ''PERSISTENCE_ERROR: Transfer changes were not saved: '' @ e), en\<lparr>en_db := db\<rparr>)
      | (Ok _, db) \<Rightarrow>
          (Ok (), en\<lparr>en_db := db, en_jobs := fold (\<lambda>j. bt_insert (job_id j) j) updated (en_jobs en)\<rparr>))"

definition SAVED_AGAIN :: str where
  "SAVED_AGAIN = us ''. The transfer result will be saved again; its data will not be transferred again.''"

definition commit_result :: "faults \<Rightarrow> transfer_job \<Rightarrow> engine \<Rightarrow> transfer_job \<times> engine" where
  "commit_result F result en =
     (let result = result\<lparr>job_unsaved := False\<rparr> in
      case commit_jobs F [result] en of
        (Err error, en) \<Rightarrow>
          (let shown = result\<lparr>job_unsaved := True,
                 job_error := Some (error @ SAVED_AGAIN),
                 job_category := Some PersistenceError\<rparr> in
           (shown, en\<lparr>en_pending := bt_insert (job_id result) result (en_pending en),
                      en_jobs := bt_insert (job_id result) shown (en_jobs en)\<rparr>))
      | (Ok _, en) \<Rightarrow> (result, en\<lparr>en_pending := bt_remove (job_id result) (en_pending en)\<rparr>))"

section \<open>Progress\<close>

definition PROGRESS_CHECKPOINT_NANOS :: int where "PROGRESS_CHECKPOINT_NANOS = 1000000000"

definition record_progress ::
  "engine_env \<Rightarrow> str \<Rightarrow> transfer_status option \<Rightarrow> u8 \<Rightarrow> u64 \<Rightarrow> u64 \<Rightarrow> u64 \<Rightarrow> engine \<Rightarrow> engine" where
  "record_progress E i phase progress transferred total_bytes speed en =
     (if \<not> bt_contains (en_active en) i then en
      else case bt_get (en_jobs en) i of
        None \<Rightarrow> en
      | Some job \<Rightarrow>
          (if \<not> status_is_active (job_status job) then en
           else let updated = (next_revision (job\<lparr>
                  job_status := (case phase of None \<Rightarrow> job_status job | Some s \<Rightarrow> s),
                  job_progress := progress, job_transferred := transferred, job_total := total_bytes,
                  job_speed := speed\<rparr>))\<lparr>job_updated := ev_stamp E\<rparr>;
                en = en\<lparr>en_jobs := bt_insert i updated (en_jobs en)\<rparr>;
                due = (case bt_get (en_checkpoints en) i of None \<Rightarrow> True
                       | Some written \<Rightarrow> PROGRESS_CHECKPOINT_NANOS \<le> ev_instant E - written) in
             if due
             then en\<lparr>en_checkpoints := bt_insert i (ev_instant E) (en_checkpoints en),
                     en_db := snd (upsert (ev_faults E) updated (en_db en))\<rparr>
             else en))"

section \<open>Scheduling\<close>

text \<open>Results whose final write failed are written again; the transfer itself is not repeated.\<close>

fun retry_commits :: "engine_env \<Rightarrow> transfer_job list \<Rightarrow> engine \<Rightarrow> transfer_job list \<times> engine" where
  "retry_commits E [] en = ([], en)"
| "retry_commits E (job # retries) en =
     (let job = (next_revision job)\<lparr>job_unsaved := False\<rparr> in
      case commit_jobs (ev_retry_faults E (job_id job)) [job] en of
        (Err _, en) \<Rightarrow> retry_commits E retries en
      | (Ok _, en) \<Rightarrow>
          apfst ((#) job) (retry_commits E retries (en\<lparr>en_pending := bt_remove (job_id job) (en_pending en)\<rparr>)))"

definition active_count :: "direction \<Rightarrow> engine \<Rightarrow> nat" where
  "active_count d en = length (filter (\<lambda>x. x = d) (bt_values (en_active en)))"

definition eligible_jobs :: "engine_env \<Rightarrow> str \<Rightarrow> engine \<Rightarrow> transfer_job list" where
  "eligible_jobs E owner en =
     map (\<lambda>j. j\<lparr>job_status := Pending\<rparr>)
       (filter (\<lambda>j. job_owner j = Some owner \<and> \<not> job_unsaved j \<and>
          (job_status j = Pending \<or> job_status j = WaitingForNetwork \<or>
           job_status j = Cooldown \<and> (case job_retry_at j of None \<Rightarrow> False | Some at \<Rightarrow> at \<le> ev_now E)))
        (ev_walk E (bt_values (en_jobs en))))"

definition started_job :: "engine_env \<Rightarrow> transfer_job \<Rightarrow> transfer_job" where
  "started_job E j =
     (next_revision (j\<lparr>job_status := (if job_kind j = LocalUpload then Uploading else Downloading),
        job_error := None, job_category := None, job_retry_at := None, job_speed := 0\<rparr>))
     \<lparr>job_updated := ev_now E\<rparr>"

definition selected_jobs :: "engine_env \<Rightarrow> str \<Rightarrow> engine \<Rightarrow> transfer_job list" where
  "selected_jobs E owner en =
     (let jobs = eligible_jobs E owner en in
      map (started_job E) (List.map_filter (\<lambda>i. find (\<lambda>j. job_id j = i) jobs)
        (select_pending_job_ids jobs (bt_get (en_active en))
           (en_max_uploads en - active_count UploadDirection en)
           (en_max_downloads en - active_count DownloadDirection en))))"

definition refuse_start :: "str \<Rightarrow> transfer_job \<Rightarrow> engine \<Rightarrow> engine" where
  "refuse_start error selected en =
     (case bt_get (en_jobs en) (job_id selected) of
        None \<Rightarrow> en
      | Some job \<Rightarrow> en\<lparr>en_jobs := bt_insert (job_id selected)
          (next_revision (job\<lparr>job_status := Paused, job_error := Some error, job_category := Some PersistenceError\<rparr>))
          (en_jobs en)\<rparr>)"

definition start_jobs :: "engine_env \<Rightarrow> engine \<Rightarrow> transfer_job list \<times> engine" where
  "start_jobs E en =
     (case engine_account E None of Err _ \<Rightarrow> ([], en)
      | Ok account \<Rightarrow>
          (if \<not> ev_connected E then ([], en)
           else if en_max_uploads en \<le> active_count UploadDirection en \<and>
                   en_max_downloads en \<le> active_count DownloadDirection en then ([], en)
           else let selected = selected_jobs E (owner_text account) en in
             if selected = [] \<or> still_owner E account \<noteq> Ok () then ([], en)
             else case commit_jobs (ev_faults E) selected en of
               (Err error, en) \<Rightarrow> ([], fold (refuse_start error) selected en)
             | (Ok _, en) \<Rightarrow>
                 (selected, en\<lparr>en_active := fold (\<lambda>j. bt_insert (job_id j) (job_direction j)) selected (en_active en)\<rparr>)))"

text \<open>The answer: the results saved at last, and the jobs whose runs are started.\<close>

definition schedule_once :: "engine_env \<Rightarrow> engine \<Rightarrow> (transfer_job list \<times> transfer_job list) \<times> engine" where
  "schedule_once E en =
     (if en_shutting_down en then (([], []), en)
      else case retry_commits E (ev_walk E (bt_values (en_pending en))) en of
        (saved, en) \<Rightarrow> (case start_jobs E en of (started, en) \<Rightarrow> ((saved, started), en)))"

section \<open>Runs\<close>

definition begin_run :: "str \<Rightarrow> engine \<Rightarrow> u64 option \<times> engine" where
  "begin_run i en = (bt_get (en_tokens en) i, en\<lparr>en_tokens := bt_remove i (en_tokens en)\<rparr>)"

text \<open>The account of the job is checked before its operation runs.\<close>

definition run_result :: "engine_env \<Rightarrow> transfer_job \<Rightarrow> str + str \<Rightarrow> str + str" where
  "run_result E job outcome =
     rbind (rbind (ok_or (job_owner job) (us ''ACCOUNT_REQUIRED: Review this legacy transfer first''))
              (\<lambda>owner. engine_account E (Some owner))) (\<lambda>_. outcome)"

definition settle_run ::
  "(str \<Rightarrow> str) \<Rightarrow> (str \<Rightarrow> download_publication option) \<Rightarrow> engine_env \<Rightarrow> str + str \<Rightarrow> transfer_job \<Rightarrow> transfer_job" where
  "settle_run lower parse_publication E result current =
     (next_revision
       (case result of Ok response \<Rightarrow> finished_job parse_publication response current
        | Err error \<Rightarrow> failed_job lower error (ev_now E) current))
     \<lparr>job_updated := ev_stamp E\<rparr>"

definition finish_run ::
  "(str \<Rightarrow> str) \<Rightarrow> (str \<Rightarrow> download_publication option) \<Rightarrow> engine_env \<Rightarrow> str \<Rightarrow> str + str \<Rightarrow> engine \<Rightarrow>
     transfer_job option \<times> engine" where
  "finish_run lower parse_publication E i result en =
     (let en = en\<lparr>en_active := bt_remove i (en_active en), en_checkpoints := bt_remove i (en_checkpoints en)\<rparr> in
      case bt_get (en_jobs en) i of
        None \<Rightarrow> (None, en)
      | Some current \<Rightarrow>
          apfst Some (commit_result (ev_faults E) (settle_run lower parse_publication E result current) en))"

text \<open>The temporary archive a finished job was uploaded from is deleted once the result is saved.\<close>

definition cleans_source :: "transfer_job \<Rightarrow> bool" where
  "cleans_source job \<longleftrightarrow> \<not> job_unsaved job \<and> job_status job = Completed \<and> job_temp_zip job \<noteq> None"

section \<open>Enqueueing\<close>

fun check_requests :: "account_guard \<Rightarrow> enqueue_request list \<Rightarrow> str + unit" where
  "check_requests a [] = Ok ()"
| "check_requests a (q # qs) =
     rbind (validate_request q) (\<lambda>_.
     if (case rq_owner q of None \<Rightarrow> False | Some owner \<Rightarrow> owner \<noteq> owner_text a)
     then Err (us ''ACCOUNT_CHANGED: Transfer belongs to another account'')
     else check_requests a qs)"

definition initial_status :: "enqueue_request \<Rightarrow> transfer_status" where
  "initial_status q =
     (let requested = (case rq_initial q of None \<Rightarrow> Pending | Some s \<Rightarrow> s) in
      if rq_owner q = None \<and> \<not> is_terminal requested then Paused
      else if status_is_active requested then Pending
      else requested)"

definition new_job :: "int \<Rightarrow> int \<Rightarrow> enqueue_request \<Rightarrow> transfer_job" where
  "new_job now position q =
     \<lparr>job_id = rq_id q, job_owner = rq_owner q, job_direction = rq_direction q, job_kind = rq_kind q,
      job_status = initial_status q, job_outcome = None, job_path = rq_path q, job_url = rq_url q,
      job_folder = rq_folder q, job_message = rq_message q, job_filename = rq_filename q,
      job_save_path = rq_save_path q, job_collision = rq_collision q, job_protection = rq_protection q,
      job_protect_metadata = rq_protect_metadata q, job_video_mode = rq_video_mode q,
      job_video_caption = rq_video_caption q, job_temp_zip = rq_temp_zip q, job_progress = 0,
      job_transferred = 0, job_total = (case rq_total q of None \<Rightarrow> 0 | Some n \<Rightarrow> n), job_speed = 0,
      job_error = None, job_category = None, job_unsaved = False, job_retry_at = None,
      job_network_retries = 0, job_origin = rq_origin q, job_sync_path = rq_sync_path q,
      job_position = position, job_revision = 1, job_created = now, job_updated = now\<rparr>"

text \<open>The batch in its order: known ids keep their job, new ones get the next position.\<close>

fun build_batch ::
  "int \<Rightarrow> (str, transfer_job) btree \<Rightarrow> int \<Rightarrow> transfer_job list \<Rightarrow> enqueue_request list \<Rightarrow>
     str + (transfer_job list \<times> str list \<times> (str \<times> u64) list)" where
  "build_batch now jobs position changed [] = Ok (changed, [], [])"
| "build_batch now jobs position changed (q # qs) =
     (if rq_id q \<in> job_id ` set changed then Err (us ''Duplicate transfer ID in batch'')
      else case bt_get jobs (rq_id q) of
        Some existing \<Rightarrow>
          (if job_owner existing \<noteq> rq_owner q then Err (us ''Transfer ID belongs to a different owner'')
           else build_batch now jobs position (changed @ [existing]) qs)
      | None \<Rightarrow>
          (let position = saturating_add_i64 position 1;
               token = (case rq_prompt_token q of None \<Rightarrow> []
                        | Some t \<Rightarrow> if rq_owner q \<noteq> None then [(rq_id q, t)] else []) in
           rbind (build_batch now jobs position (changed @ [new_job now position q]) qs)
             (\<lambda>(changed, created, tokens). Ok (changed, rq_id q # created, token @ tokens))))"

definition last_position :: "engine \<Rightarrow> int" where
  "last_position en = (if en_jobs en = [] then 0 else Max (set (map job_position (bt_values (en_jobs en)))))"

definition reserved_paths :: "engine \<Rightarrow> str list" where
  "reserved_paths en =
     List.map_filter job_save_path
       (filter (\<lambda>j. job_direction j = DownloadDirection \<and> job_status j \<noteq> Completed) (bt_values (en_jobs en)))"

definition enqueue_many ::
  "(str \<Rightarrow> str) \<Rightarrow> folder_view \<Rightarrow> engine_env \<Rightarrow> enqueue_request list \<Rightarrow> engine \<Rightarrow>
     (str + transfer_job list) \<times> engine" where
  "enqueue_many lower V E requests en =
     (case rbind (engine_account E None) (\<lambda>a.
           rbind (check_requests a requests) (\<lambda>_.
           rbind (build_batch (ev_now E) (en_jobs en) (last_position en) [] requests) (\<lambda>(changed, created, tokens).
           rbind (reserve_new_downloads lower V changed (set created) (reserved_paths en)) (\<lambda>changed.
           rbind (still_owner E a) (\<lambda>_. Ok (changed, tokens)))))) of
        Err e \<Rightarrow> (Err e, en)
      | Ok (changed, tokens) \<Rightarrow>
          (case commit_jobs (ev_faults E) changed en of
             (Err e, en) \<Rightarrow> (Err e, en)
           | (Ok _, en) \<Rightarrow>
               (Ok changed, en\<lparr>en_tokens := fold (\<lambda>(i, t). bt_insert i t) tokens (en_tokens en)\<rparr>)))"

section \<open>User actions\<close>

datatype transfer_action = PauseAction | CancelAction | ResumeAction | RetryAction

text \<open>\<open>None\<close>: the action does not apply to the job's state, which is answered as it is.\<close>

definition apply_action :: "transfer_action \<Rightarrow> transfer_job \<Rightarrow> transfer_job option" where
  "apply_action action job =
     (case action of
        PauseAction \<Rightarrow> if is_terminal (job_status job) then None else Some (job\<lparr>job_status := Paused\<rparr>)
      | CancelAction \<Rightarrow> if is_terminal (job_status job) then None else Some (job\<lparr>job_status := Cancelled\<rparr>)
      | ResumeAction \<Rightarrow>
          if job_status job = Paused then Some (job\<lparr>job_status := Pending, job_network_retries := 0\<rparr>) else None
      | RetryAction \<Rightarrow>
          if job_status job \<in> {Failed, Cancelled, WaitingForUnlock, WaitingForNetwork, Cooldown}
          then Some (job\<lparr>job_status := Pending, job_progress := 0, job_transferred := 0, job_network_retries := 0\<rparr>)
          else None)"

definition acted_job :: "engine_env \<Rightarrow> transfer_job \<Rightarrow> transfer_job" where
  "acted_job E job =
     (next_revision (job\<lparr>job_error := None, job_category := None, job_retry_at := None, job_speed := 0\<rparr>))
     \<lparr>job_updated := ev_stamp E\<rparr>"

definition transition ::
  "engine_env \<Rightarrow> str \<Rightarrow> transfer_action \<Rightarrow> str option \<Rightarrow> engine \<Rightarrow> (str + transfer_job) \<times> engine" where
  "transition E i action expected en =
     (case rbind (engine_account E expected) (\<lambda>a.
           rbind (ok_or (bt_get (en_jobs en) i) (us ''Transfer was not found'')) (\<lambda>job.
           if job_owner job \<noteq> Some (owner_text a)
           then Err (us ''ACCOUNT_CHANGED: Transfer is not owned by this account'')
           else Ok (a, job))) of
        Err e \<Rightarrow> (Err e, en)
      | Ok (a, job) \<Rightarrow>
     (case bt_get (en_pending en) i of
        Some result \<Rightarrow>
          (let result = result\<lparr>job_revision := saturating_add_u64 (job_revision job) 1, job_unsaved := False\<rparr> in
           case still_owner E a of Err e \<Rightarrow> (Err e, en)
           | Ok _ \<Rightarrow>
               (case commit_jobs (ev_faults E) [result] en of
                  (Err e, en) \<Rightarrow> (Err e, en)
                | (Ok _, en) \<Rightarrow> (Ok result, en\<lparr>en_pending := bt_remove i (en_pending en)\<rparr>)))
      | None \<Rightarrow>
     (case apply_action action job of
        None \<Rightarrow> (Ok job, en)
      | Some changed \<Rightarrow>
          (let changed = acted_job E changed in
           case still_owner E a of Err e \<Rightarrow> (Err e, en)
           | Ok _ \<Rightarrow>
               (case commit_jobs (ev_faults E) [changed] en of
                  (Err e, en) \<Rightarrow> (Err e, en)
                | (Ok _, en) \<Rightarrow>
                    (Ok changed,
                     if bt_contains (en_active en) i \<and> action \<in> {PauseAction, CancelAction}
                     then en\<lparr>en_cancel_requests := insert i (en_cancel_requests en)\<rparr> else en))))))"

text \<open>All unfinished transfers of one direction, one after the other; the first error ends it.\<close>

fun transition_each ::
  "(str \<Rightarrow> engine_env) \<Rightarrow> transfer_action \<Rightarrow> str \<Rightarrow> str list \<Rightarrow> engine \<Rightarrow> (str + transfer_job list) \<times> engine" where
  "transition_each Es action owner [] en = (Ok [], en)"
| "transition_each Es action owner (i # ids) en =
     (case transition (Es i) i action (Some owner) en of
        (Err e, en) \<Rightarrow> (Err e, en)
      | (Ok job, en) \<Rightarrow> apfst (map_sum id ((#) job)) (transition_each Es action owner ids en))"

definition transition_all ::
  "engine_env \<Rightarrow> (str \<Rightarrow> engine_env) \<Rightarrow> direction \<Rightarrow> transfer_action \<Rightarrow> str option \<Rightarrow> engine \<Rightarrow>
     (str + transfer_job list) \<times> engine" where
  "transition_all E Es d action expected en =
     (case engine_account E expected of Err e \<Rightarrow> (Err e, en)
      | Ok a \<Rightarrow>
          transition_each Es action (owner_text a)
            (map job_id (filter (\<lambda>j. job_owner j = Some (owner_text a) \<and> job_direction j = d \<and>
                \<not> is_terminal (job_status j)) (ev_walk E (bt_values (en_jobs en))))) en)"

text \<open>Both directions, uploads first; the answer counts the transfers that are now in the wanted state.\<close>

definition transition_directions ::
  "(direction \<Rightarrow> engine_env) \<Rightarrow> (direction \<Rightarrow> str \<Rightarrow> engine_env) \<Rightarrow> transfer_action \<Rightarrow> transfer_status \<Rightarrow> engine \<Rightarrow>
     (str + nat) \<times> engine" where
  "transition_directions E Es action wanted en =
     (let count = (\<lambda>js. length (filter (\<lambda>j. job_status j = wanted) js)) in
      case transition_all (E UploadDirection) (Es UploadDirection) UploadDirection action None en of
        (Err e, en) \<Rightarrow> (Err e, en)
      | (Ok uploads, en) \<Rightarrow>
          (case transition_all (E DownloadDirection) (Es DownloadDirection) DownloadDirection action None en of
             (Err e, en) \<Rightarrow> (Err e, en)
           | (Ok downloads, en) \<Rightarrow> (Ok (count uploads + count downloads), en)))"

definition pause_all_directions ::
  "(direction \<Rightarrow> engine_env) \<Rightarrow> (direction \<Rightarrow> str \<Rightarrow> engine_env) \<Rightarrow> engine \<Rightarrow> (str + nat) \<times> engine" where
  "pause_all_directions E Es = transition_directions E Es PauseAction Paused"

definition resume_all_directions ::
  "(direction \<Rightarrow> engine_env) \<Rightarrow> (direction \<Rightarrow> str \<Rightarrow> engine_env) \<Rightarrow> engine \<Rightarrow> (str + nat) \<times> engine" where
  "resume_all_directions E Es = transition_directions E Es ResumeAction Pending"

definition set_limits :: "nat \<Rightarrow> nat \<Rightarrow> engine \<Rightarrow> engine" where
  "set_limits uploads downloads en =
     en\<lparr>en_max_uploads := max 1 (min 32 uploads), en_max_downloads := max 1 (min 32 downloads)\<rparr>"

definition supply_prompt_token :: "engine_env \<Rightarrow> str \<Rightarrow> u64 \<Rightarrow> engine \<Rightarrow> (str + unit) \<times> engine" where
  "supply_prompt_token E i token en =
     (case rbind (engine_account E None) (\<lambda>a.
           if (case bt_get (en_jobs en) i of None \<Rightarrow> True | Some job \<Rightarrow> job_owner job \<noteq> Some (owner_text a))
           then Err (us ''ACCOUNT_CHANGED: Transfer is not owned by this account'')
           else still_owner E a) of
        Err e \<Rightarrow> (Err e, en)
      | Ok _ \<Rightarrow> (Ok (), en\<lparr>en_tokens := bt_insert i token (en_tokens en)\<rparr>))"

section \<open>Removal\<close>

definition forget_jobs :: "str list \<Rightarrow> engine \<Rightarrow> engine" where
  "forget_jobs ids en =
     en\<lparr>en_jobs := fold bt_remove ids (en_jobs en), en_tokens := fold bt_remove ids (en_tokens en)\<rparr>"

definition clear_terminal ::
  "engine_env \<Rightarrow> direction \<Rightarrow> bool \<Rightarrow> str option \<Rightarrow> engine \<Rightarrow> (str + str list) \<times> engine" where
  "clear_terminal E d include_failed_and_cancelled expected en =
     (case engine_account E expected of Err e \<Rightarrow> (Err e, en)
      | Ok a \<Rightarrow>
          (let ids = map job_id (filter (\<lambda>j. job_owner j = Some (owner_text a) \<and> \<not> job_unsaved j \<and>
                 job_direction j = d \<and>
                 (job_status j = Completed \<or>
                  include_failed_and_cancelled \<and> job_status j \<in> {Failed, Cancelled}))
                 (ev_walk E (bt_values (en_jobs en)))) in
           case still_owner E a of Err e \<Rightarrow> (Err e, en)
           | Ok _ \<Rightarrow>
               (case delete_many (ev_faults E) (ev_now E div 1000) ids (en_db en) of
                  (Err e, db) \<Rightarrow> (Err e, en\<lparr>en_db := db\<rparr>)
                | (Ok _, db) \<Rightarrow> (Ok ids, forget_jobs ids (en\<lparr>en_db := db\<rparr>)))))"

text \<open>
  A supervised transfer ends with its supervisor: it leaves the queue whether or not the database
  could be told, and a run under way is asked to stop.
\<close>

definition withdraw :: "engine_env \<Rightarrow> str \<Rightarrow> engine \<Rightarrow> engine" where
  "withdraw E i en =
     (let en' = (if bt_contains (en_jobs en) i
                 then en\<lparr>en_jobs := bt_remove i (en_jobs en),
                         en_db := snd (delete_many (ev_faults E) (ev_now E div 1000) [i] (en_db en))\<rparr>
                 else en) in
      en'\<lparr>en_tokens := bt_remove i (en_tokens en'), en_pending := bt_remove i (en_pending en'),
          en_cancel_requests :=
            (if bt_contains (en_active en) i then insert i (en_cancel_requests en') else en_cancel_requests en')\<rparr>)"

definition withdraw_settled :: "str \<Rightarrow> engine \<Rightarrow> engine" where
  "withdraw_settled i en = en\<lparr>en_cancel_requests := en_cancel_requests en - {i}\<rparr>"

section \<open>Transfers of earlier releases\<close>

fun adopt_each :: "int \<Rightarrow> str \<Rightarrow> engine \<Rightarrow> str list \<Rightarrow> str + transfer_job list" where
  "adopt_each now owner en [] = Ok []"
| "adopt_each now owner en (i # ids) =
     rbind (ok_or (bt_get (en_jobs en) i) (us ''Legacy transfer was not found'')) (\<lambda>job.
     rbind (adopt_legacy now owner job) (\<lambda>adopted.
     rbind (adopt_each now owner en ids) (\<lambda>rest. Ok (adopted # rest))))"

definition adopt_transfers ::
  "engine_env \<Rightarrow> str \<Rightarrow> str list \<Rightarrow> bool \<Rightarrow> engine \<Rightarrow> (str + unit) \<times> engine" where
  "adopt_transfers E owner ids confirmed_ownership en =
     (if \<not> confirmed_ownership
      then (Err (us ''Confirm that these transfers belong to the current account''), en)
      else case rbind (engine_account E (Some owner)) (\<lambda>a.
                rbind (adopt_each (ev_stamp E) owner en ids) (\<lambda>updates.
                rbind (still_owner E a) (\<lambda>_. Ok updates))) of
        Err e \<Rightarrow> (Err e, en)
      | Ok updates \<Rightarrow> commit_jobs (ev_faults E) updates en)"

definition discard_legacy :: "engine_env \<Rightarrow> str \<Rightarrow> str list \<Rightarrow> engine \<Rightarrow> (str + unit) \<times> engine" where
  "discard_legacy E owner ids en =
     (case rbind (engine_account E (Some owner)) (\<lambda>a.
           if list_ex (\<lambda>i. case bt_get (en_jobs en) i of None \<Rightarrow> True | Some job \<Rightarrow> job_owner job \<noteq> None) ids
           then Err (us ''Only unassigned queue records can be discarded'')
           else still_owner E a) of
        Err e \<Rightarrow> (Err e, en)
      | Ok _ \<Rightarrow>
          (case delete_many (ev_faults E) (ev_now E div 1000) ids (en_db en) of
             (Err e, db) \<Rightarrow> (Err e, en\<lparr>en_db := db\<rparr>)
           | (Ok _, db) \<Rightarrow> (Ok (), forget_jobs ids (en\<lparr>en_db := db\<rparr>))))"

section \<open>Reading\<close>

definition snapshot :: "engine_env \<Rightarrow> engine \<Rightarrow> transfer_job list" where
  "snapshot E en =
     (case engine_account E None of Err _ \<Rightarrow> []
      | Ok a \<Rightarrow> sort_key (\<lambda>j. (job_position j, job_created j))
          (filter (\<lambda>j. job_owner j = Some (owner_text a)) (ev_walk E (bt_values (en_jobs en)))))"

text \<open>
  The paths unfinished transfers still need; \<open>join\<close> is \<open>Path::join\<close>, \<open>roots\<close> the shared temporary
  directory and, when it is known, the staging root.
\<close>

definition active_paths :: "(str \<Rightarrow> str \<Rightarrow> str) \<Rightarrow> str list \<Rightarrow> (transfer_job list \<Rightarrow> transfer_job list) \<Rightarrow> engine \<Rightarrow> str list" where
  "active_paths join roots walk en =
     concat (map (\<lambda>j. List.map_filter id [job_path j, job_temp_zip j, job_save_path j] @
         (if job_kind j = UrlUpload
          then concat (map (\<lambda>root. [join root (us ''tg_drive_'' @ job_id j @ us ''.tmp''),
                                   join root (us ''tg_drive_encrypted_'' @ job_id j)]) roots)
          else []))
       (filter (\<lambda>j. job_status j \<noteq> Completed \<or> job_unsaved j) (walk (bt_values (en_jobs en)))))"

definition completed_downloads :: "engine_env \<Rightarrow> str \<Rightarrow> engine \<Rightarrow> str + transfer_job list" where
  "completed_downloads E owner en =
     rbind (engine_account E (Some owner)) (\<lambda>a.
     rbind (still_owner E a) (\<lambda>_.
     Ok (filter (\<lambda>j. job_owner j = Some owner \<and> job_direction j = DownloadDirection \<and>
           job_status j = Completed \<and> job_outcome j \<noteq> Some Skipped \<and> \<not> job_unsaved j)
         (ev_walk E (bt_values (en_jobs en))))))"

definition transfer_activity ::
  "engine_env \<Rightarrow> str \<Rightarrow> engine \<Rightarrow> str + transfer_job list \<times> legacy_transfer list" where
  "transfer_activity E owner en =
     rbind (engine_account E (Some owner)) (\<lambda>a.
     rbind (still_owner E a) (\<lambda>_.
     Ok (take 500 (sort_key (\<lambda>j. (- job_updated j, - job_position j))
           (map activity_projection
             (filter (\<lambda>j. job_owner j = Some owner) (ev_walk E (bt_values (en_jobs en)))))),
         map legacy_entry (filter (\<lambda>j. job_owner j = None) (ev_walk E (bt_values (en_jobs en)))))))"

definition SUPERVISED_OFFLINE_GRACE_NANOS :: int where "SUPERVISED_OFFLINE_GRACE_NANOS = 15000000000"

datatype settle_check = SettleFailed str | SettledJob "str + transfer_job" | KeepWaiting "int option"

text \<open>One round of \<open>wait_settled\<close>: \<open>since\<close> is when the supervisor first found Telegram disconnected.\<close>

definition check_settled :: "bool \<Rightarrow> bool \<Rightarrow> int \<Rightarrow> int option \<Rightarrow> str \<Rightarrow> engine \<Rightarrow> settle_check" where
  "check_settled stop connected instant offline_since i en =
     (if stop then SettleFailed (us ''Folder sync shutdown requested'')
      else case bt_get (en_jobs en) i of
        None \<Rightarrow> SettleFailed (us ''The transfer was removed'')
      | Some job \<Rightarrow>
          (case supervised_outcome job of
             Some outcome \<Rightarrow> SettledJob (rbind outcome (\<lambda>_. Ok job))
           | None \<Rightarrow>
               (if job_status job \<in> {Pending, WaitingForNetwork} \<and> \<not> connected
                then let since = (case offline_since of None \<Rightarrow> instant | Some t \<Rightarrow> t) in
                  if SUPERVISED_OFFLINE_GRACE_NANOS \<le> instant - since
                  then SettleFailed (us ''Client not connected'') else KeepWaiting (Some since)
                else KeepWaiting None)))"

end
