(* ===== verification/Transfer_Steps.thy ===== *)
theory Transfer_Steps
  imports Transfer_Queue "HOL-Library.Multiset"
begin

text \<open>
  The runs of the transfer queue: everything that can happen to it, as events, the states a run can
  reach, and the invariant of these states. The invariant speaks of one transfer at a time: its row
  and its tombstone in the database, its job in memory, its run and its unsaved result.
\<close>

section \<open>Events\<close>

datatype queue_event =
    Enqueue "str \<Rightarrow> str" folder_view engine_env "enqueue_request list"
  | Act engine_env str transfer_action "str option"
  | ScheduleRound engine_env
  | BeginRun str
  | Progress engine_env str transfer_status u8 u64 u64 u64
  | FinishRun "str \<Rightarrow> str" "str \<Rightarrow> download_publication option" engine_env str "str + str"
  | SetLimits nat nat
  | SupplyToken engine_env str u64
  | Clear engine_env direction bool "str option"
  | Withdraw engine_env str
  | WithdrawSettled str
  | Adopt engine_env str "str list" bool
  | Discard engine_env str "str list"
  | BeginShutdown
  | Restart faults faults faults "transfer_job list \<Rightarrow> transfer_job list" int int

text \<open>A new process opens the database; one that cannot ends with nothing in memory.\<close>

definition restart_engine ::
  "faults \<Rightarrow> faults \<Rightarrow> faults \<Rightarrow> (transfer_job list \<Rightarrow> transfer_job list) \<Rightarrow> int \<Rightarrow> int \<Rightarrow> transfer_db \<Rightarrow> engine" where
  "restart_engine F orphan_faults repair_faults walk now now_secs db =
     (case open_store F orphan_faults repair_faults walk now now_secs db of
        (Ok jobs, db) \<Rightarrow> initialize_engine db jobs
      | (Err _, db) \<Rightarrow> initialize_engine db [])"

fun apply_event :: "queue_event \<Rightarrow> engine \<Rightarrow> engine" where
  "apply_event (Enqueue lower V E requests) en = snd (enqueue_many lower V E requests en)"
| "apply_event (Act E i action expected) en = snd (transition E i action expected en)"
| "apply_event (ScheduleRound E) en = snd (schedule_once E en)"
| "apply_event (BeginRun i) en = snd (begin_run i en)"
| "apply_event (Progress E i phase p t n s) en = record_progress E i (Some phase) p t n s en"
| "apply_event (FinishRun lower pp E i result) en = snd (finish_run lower pp E i result en)"
| "apply_event (SetLimits u d) en = set_limits u d en"
| "apply_event (SupplyToken E i t) en = snd (supply_prompt_token E i t en)"
| "apply_event (Clear E d b expected) en = snd (clear_terminal E d b expected en)"
| "apply_event (Withdraw E i) en = withdraw E i en"
| "apply_event (WithdrawSettled i) en = withdraw_settled i en"
| "apply_event (Adopt E owner ids b) en = snd (adopt_transfers E owner ids b en)"
| "apply_event (Discard E owner ids) en = snd (discard_legacy E owner ids en)"
| "apply_event BeginShutdown en = en\<lparr>en_shutting_down := True\<rparr>"
| "apply_event (Restart F F' F'' walk now secs) en = restart_engine F F' F'' walk now secs (en_db en)"

text \<open>
  What can happen: a walk of a map yields its entries; the ids of new transfers are fresh (callers
  draw UUIDs); progress names a phase of the transfer under way, as the emitters in
  \<open>commands/fs.rs\<close> do; only a run that was started finishes.
\<close>

definition walks :: "(transfer_job list \<Rightarrow> transfer_job list) \<Rightarrow> bool" where
  "walks walk \<longleftrightarrow> (\<forall>xs. mset (walk xs) = mset xs)"

fun possible :: "queue_event \<Rightarrow> engine \<Rightarrow> bool" where
  "possible (Enqueue lower V E requests) en \<longleftrightarrow> walks (ev_walk E) \<and>
     (\<forall>q\<in>set requests. bt_get (en_jobs en) (rq_id q) = None \<longrightarrow> bt_get (db_rows (en_db en)) (rq_id q) = None)"
| "possible (Act E i action expected) en \<longleftrightarrow> True"
| "possible (ScheduleRound E) en \<longleftrightarrow> walks (ev_walk E)"
| "possible (Progress E i phase p t n s) en \<longleftrightarrow> phase \<in> {Downloading, Uploading}"
| "possible (FinishRun lower pp E i result) en \<longleftrightarrow> bt_contains (en_active en) i"
| "possible (Clear E d b expected) en \<longleftrightarrow> walks (ev_walk E)"
| "possible (Restart F F' F'' walk now secs) en \<longleftrightarrow> walks walk"
| "possible _ en \<longleftrightarrow> True"

inductive queue_reaches :: "engine \<Rightarrow> queue_event list \<Rightarrow> engine \<Rightarrow> bool" where
  start: "queue_reaches en [] en"
| event: "queue_reaches en es en' \<Longrightarrow> possible e en' \<Longrightarrow> queue_reaches en (es @ [e]) (apply_event e en')"

inductive_simps queue_reaches_Nil: "queue_reaches en [] en'"

text \<open>A run of the queue begins with a start on some database.\<close>

definition queue_run :: "transfer_db \<Rightarrow> queue_event list \<Rightarrow> engine \<Rightarrow> bool" where
  "queue_run db es en \<longleftrightarrow> db_ok db \<and>
     (\<exists>F F' F'' walk now secs. walks walk \<and> queue_reaches (restart_engine F F' F'' walk now secs db) es en)"

section \<open>The invariant\<close>

definition row_inv :: "str \<Rightarrow> int option option \<Rightarrow> transfer_job \<Rightarrow> bool" where
  "row_inv i tomb r \<longleftrightarrow> job_id r = i \<and> tomb = None"

definition job_inv ::
  "str \<Rightarrow> transfer_job option \<Rightarrow> int option option \<Rightarrow> direction option \<Rightarrow> transfer_job \<Rightarrow> bool" where
  "job_inv i row tomb run j \<longleftrightarrow>
     job_id j = i \<and> tomb = None \<and> (\<exists>r. row = Some r \<and> job_revision r \<le> job_revision j) \<and>
     (status_is_active (job_status j) \<longrightarrow> run \<noteq> None) \<and>
     (job_status j = Completed \<and> \<not> job_unsaved j \<longrightarrow> row = Some j) \<and>
     (run \<noteq> None \<longrightarrow> job_owner j \<noteq> None)"

definition result_inv :: "str \<Rightarrow> transfer_job option \<Rightarrow> direction option \<Rightarrow> transfer_job \<Rightarrow> bool" where
  "result_inv i job run p \<longleftrightarrow>
     job_id p = i \<and> run = None \<and> \<not> status_is_active (job_status p) \<and> job_owner p \<noteq> None \<and>
     (\<exists>j. job = Some j \<and> job_unsaved j \<and> job_status j = job_status p \<and> job_owner j = job_owner p \<and>
          job_revision j \<le> job_revision p)"

definition transfer_inv ::
  "str \<Rightarrow> transfer_job option \<Rightarrow> int option option \<Rightarrow> transfer_job option \<Rightarrow> direction option \<Rightarrow>
     transfer_job option \<Rightarrow> bool" where
  "transfer_inv i row tomb job run result \<longleftrightarrow>
     pred_option (row_inv i tomb) row \<and> pred_option (job_inv i row tomb run) job \<and>
     pred_option (result_inv i job run) result \<and> (run \<noteq> None \<longrightarrow> row \<noteq> None \<or> tomb \<noteq> None)"

abbreviation transfer_inv_at :: "engine \<Rightarrow> str \<Rightarrow> bool" where
  "transfer_inv_at en i \<equiv> transfer_inv i (bt_get (db_rows (en_db en)) i) (bt_get (db_tombstones (en_db en)) i)
     (bt_get (en_jobs en) i) (bt_get (en_active en) i) (bt_get (en_pending en) i)"

definition maps_ok :: "engine \<Rightarrow> bool" where
  "maps_ok en \<longleftrightarrow> bt_ok (db_rows (en_db en)) \<and> bt_ok (db_tombstones (en_db en)) \<and> bt_ok (en_jobs en) \<and>
     bt_ok (en_active en) \<and> bt_ok (en_pending en)"

definition queue_inv :: "engine \<Rightarrow> bool" where
  "queue_inv en \<longleftrightarrow> maps_ok en \<and> (\<forall>i. transfer_inv_at en i)"

lemma queue_invD: "queue_inv en \<Longrightarrow> maps_ok en" "queue_inv en \<Longrightarrow> transfer_inv_at en i"
  by (simp_all add: queue_inv_def)

lemma transfer_inv_row: "transfer_inv i (Some r) tomb job run result \<Longrightarrow> job_id r = i \<and> tomb = None"
  by (simp add: transfer_inv_def row_inv_def)

lemma transfer_inv_job:
  assumes "transfer_inv i row tomb (Some j) run result"
  shows "job_id j = i" "tomb = None" "\<exists>r. row = Some r \<and> job_revision r \<le> job_revision j"
    and "status_is_active (job_status j) \<Longrightarrow> run \<noteq> None"
    and "job_status j = Completed \<Longrightarrow> \<not> job_unsaved j \<Longrightarrow> row = Some j"
    and "run \<noteq> None \<Longrightarrow> job_owner j \<noteq> None"
proof -
  have "job_inv i row tomb run j" using assms unfolding transfer_inv_def option.pred_inject by blast
  then show "job_id j = i" "tomb = None" "\<exists>r. row = Some r \<and> job_revision r \<le> job_revision j"
    and "status_is_active (job_status j) \<Longrightarrow> run \<noteq> None"
    and "job_status j = Completed \<Longrightarrow> \<not> job_unsaved j \<Longrightarrow> row = Some j"
    and "run \<noteq> None \<Longrightarrow> job_owner j \<noteq> None"
    unfolding job_inv_def by blast+
qed

lemma transfer_inv_result:
  assumes "transfer_inv i row tomb job run (Some p)"
  obtains j where "job = Some j" "job_id p = i" "run = None" "\<not> status_is_active (job_status p)" "job_unsaved j"
    "job_status j = job_status p" "job_owner j = job_owner p" "job_owner p \<noteq> None"
    "job_revision j \<le> job_revision p"
proof -
  have "result_inv i job run p" using assms unfolding transfer_inv_def option.pred_inject by blast
  then show thesis unfolding result_inv_def using that by blast
qed

lemma transfer_inv_run:
  "transfer_inv i row tomb job run result \<Longrightarrow> run \<noteq> None \<Longrightarrow> row \<noteq> None \<or> tomb \<noteq> None"
  unfolding transfer_inv_def by blast

text \<open>A job that was just saved, with a row no newer than it before.\<close>

lemma transfer_inv_saved:
  assumes "job_id j = i" "tomb = None" "status_is_active (job_status j) \<Longrightarrow> run \<noteq> None"
    and "run \<noteq> None \<Longrightarrow> job_owner j \<noteq> None"
  shows "transfer_inv i (Some j) tomb (Some j) run None"
  unfolding transfer_inv_def option.pred_inject row_inv_def job_inv_def using assms option.pred_inject(1) by blast

text \<open>A transfer that is gone from memory.\<close>

lemma transfer_inv_gone:
  assumes "pred_option (row_inv i tomb) row" "run \<noteq> None \<Longrightarrow> row \<noteq> None \<or> tomb \<noteq> None"
  shows "transfer_inv i row tomb None run None"
  unfolding transfer_inv_def using assms option.pred_inject(1) by blast

section \<open>Commits\<close>

lemma commit_jobs_cases:
  assumes "commit_jobs F js en = (r, en')"
  obtains (failed) e where "r = Err e" "en' = en"
  | (saved) "r = Ok ()" "en' = en\<lparr>en_db := fold put_row js (en_db en), en_jobs := fold (\<lambda>j. bt_insert (job_id j) j) js (en_jobs en)\<rparr>"
      "\<And>j. j \<in> set js \<Longrightarrow> bt_get (db_tombstones (en_db en)) (job_id j) = None"
proof -
  obtain q db where u: "upsert_many F js (en_db en) = (q, db)" by (metis surj_pair)
  from transaction_cases [OF u [unfolded upsert_many_def]] show thesis
  proof
    assume "(\<exists>e. q = Err e) \<and> db = en_db en"
    then obtain e where "q = Err e" "db = en_db en" by blast
    then show thesis using assms u failed by (auto simp: commit_jobs_def)
  next
    assume "q = Ok () \<and> upsert_all F 1 js (en_db en) = Ok db"
    then show thesis using assms u upsert_all_Ok [of F 1 js "en_db en" db] saved by (auto simp: commit_jobs_def)
  qed
qed

lemma fold_insert_jobs_ok: "bt_ok m \<Longrightarrow> bt_ok (fold (\<lambda>j. bt_insert (job_id j) (f j)) js m)"
  by (induction js arbitrary: m) simp_all

lemma fold_insert_jobs_other:
  "i \<notin> job_id ` set js \<Longrightarrow> bt_get (fold (\<lambda>j. bt_insert (job_id j) (f j)) js m) i = bt_get m i"
  by (induction js arbitrary: m) auto

text \<open>Batches in which an id determines the job.\<close>

definition coherent :: "transfer_job list \<Rightarrow> bool" where
  "coherent js \<longleftrightarrow> (\<forall>a\<in>set js. \<forall>b\<in>set js. job_id a = job_id b \<longrightarrow> a = b)"

lemma coherent_distinct: "distinct (map job_id js) \<Longrightarrow> coherent js"
  unfolding coherent_def by (metis distinct_map inj_onD)

lemma coherent_single [simp]: "coherent [j]"
  by (simp add: coherent_def)

lemma coherent_Cons: "coherent (a # js) \<Longrightarrow> coherent js"
  by (simp add: coherent_def)

lemma fold_insert_jobs_get:
  "coherent js \<Longrightarrow> j \<in> set js \<Longrightarrow>
     bt_get (fold (\<lambda>j. bt_insert (job_id j) (f j)) js m) (job_id j) = Some (f j)"
proof (induction js arbitrary: m)
  case (Cons a js)
  show ?case
  proof (cases "job_id j \<in> job_id ` set js")
    case True
    then have "j \<in> set js" using Cons.prems unfolding coherent_def by (metis imageE set_ConsD list.set_intros(2))
    then show ?thesis using Cons.IH coherent_Cons [OF Cons.prems(1)] by simp
  next
    case False
    then have "j = a" using Cons.prems by auto
    then show ?thesis using False fold_insert_jobs_other [of "job_id j" js f] by simp
  qed
qed simp

lemma put_rows_ok: "bt_ok (db_rows db) \<Longrightarrow> bt_ok (db_rows (fold put_row js db))"
proof (induction js arbitrary: db)
  case (Cons a js)
  have "bt_ok (db_rows (put_row a db))" using Cons.prems by (simp add: put_row_def split: option.split)
  then show ?case using Cons.IH by simp
qed simp

text \<open>The row a saved job leaves, when no newer one is there.\<close>

lemma put_row_saves:
  assumes "\<And>r. bt_get (db_rows db) (job_id j) = Some r \<Longrightarrow> job_revision r \<le> job_revision j"
  shows "bt_get (db_rows (put_row j db)) (job_id j) = Some j"
  using assms by (auto simp: put_row_get not_less split: option.split)

lemma fold_put_row_saves:
  "coherent js \<Longrightarrow> j \<in> set js \<Longrightarrow>
     (\<And>r. bt_get (db_rows db) (job_id j) = Some r \<Longrightarrow> job_revision r \<le> job_revision j) \<Longrightarrow>
     bt_get (db_rows (fold put_row js db)) (job_id j) = Some j"
proof (induction js arbitrary: db)
  case (Cons a js)
  show ?case
  proof (cases "job_id j \<in> job_id ` set js")
    case True
    then have m: "j \<in> set js" using Cons.prems(1,2) unfolding coherent_def by (metis imageE set_ConsD list.set_intros(2))
    have "job_revision r \<le> job_revision j" if r: "bt_get (db_rows (put_row a db)) (job_id j) = Some r" for r
    proof (cases "job_id a = job_id j")
      case True
      then have "a = j" using Cons.prems(1,2) unfolding coherent_def by (metis list.set_intros(1))
      then show ?thesis using r put_row_saves [of db j] Cons.prems(3) by simp
    next
      case False
      then show ?thesis using r Cons.prems(3) by (simp add: put_row_get)
    qed
    then show ?thesis using Cons.IH [OF coherent_Cons [OF Cons.prems(1)] m] by simp
  next
    case False
    then have "j = a" using Cons.prems by auto
    then show ?thesis using False fold_put_row_other [of "job_id j" js] put_row_saves [of db j] Cons.prems(3) by simp
  qed
qed simp

text \<open>What a successful commit leaves: each saved job is in memory and in its row.\<close>

definition committed :: "transfer_job list \<Rightarrow> engine \<Rightarrow> engine \<Rightarrow> bool" where
  "committed js en en' \<longleftrightarrow> maps_ok en' \<and> db_tombstones (en_db en') = db_tombstones (en_db en) \<and>
     (\<forall>j\<in>set js. bt_get (db_tombstones (en_db en)) (job_id j) = None \<and>
        bt_get (db_rows (en_db en')) (job_id j) = Some j \<and> bt_get (en_jobs en') (job_id j) = Some j) \<and>
     (\<forall>i. i \<notin> job_id ` set js \<longrightarrow> bt_get (db_rows (en_db en')) i = bt_get (db_rows (en_db en)) i \<and>
        bt_get (en_jobs en') i = bt_get (en_jobs en) i) \<and>
     (\<exists>db jobs. en' = en\<lparr>en_db := db, en_jobs := jobs\<rparr>)"

lemma committedD:
  assumes "committed js en en'"
  shows "maps_ok en'" "db_tombstones (en_db en') = db_tombstones (en_db en)"
    and "j \<in> set js \<Longrightarrow> bt_get (db_tombstones (en_db en)) (job_id j) = None"
    and "j \<in> set js \<Longrightarrow> bt_get (db_rows (en_db en')) (job_id j) = Some j"
    and "j \<in> set js \<Longrightarrow> bt_get (en_jobs en') (job_id j) = Some j"
    and "i \<notin> job_id ` set js \<Longrightarrow> bt_get (db_rows (en_db en')) i = bt_get (db_rows (en_db en)) i"
    and "i \<notin> job_id ` set js \<Longrightarrow> bt_get (en_jobs en') i = bt_get (en_jobs en) i"
    and "en_active en' = en_active en" "en_pending en' = en_pending en" "en_tokens en' = en_tokens en"
    and "en_max_uploads en' = en_max_uploads en" "en_max_downloads en' = en_max_downloads en"
    and "en_shutting_down en' = en_shutting_down en" "en_cancel_requests en' = en_cancel_requests en"
proof -
  obtain db jobs where e: "en' = en\<lparr>en_db := db, en_jobs := jobs\<rparr>" using assms unfolding committed_def by blast
  show "en_active en' = en_active en" "en_pending en' = en_pending en" "en_tokens en' = en_tokens en"
    "en_max_uploads en' = en_max_uploads en" "en_max_downloads en' = en_max_downloads en"
    "en_shutting_down en' = en_shutting_down en" "en_cancel_requests en' = en_cancel_requests en"
    unfolding e by simp_all
qed (use assms in \<open>unfold committed_def, blast+\<close>)

lemma commit_cases:
  assumes c: "commit_jobs F js en = (r, en')" and "maps_ok en" and co: "coherent js"
    and old: "\<And>j q. j \<in> set js \<Longrightarrow> bt_get (db_rows (en_db en)) (job_id j) = Some q \<Longrightarrow>
      job_revision q \<le> job_revision j"
  shows "(\<exists>e. r = Err e) \<and> en' = en \<or> r = Ok () \<and> committed js en en'"
  using c
proof (cases rule: commit_jobs_cases)
  case saved
  have rows: "bt_get (db_rows (fold put_row js (en_db en))) (job_id j) = Some j" if "j \<in> set js" for j
    using fold_put_row_saves [OF co that] old [OF that] by blast
  have jobs: "bt_get (fold (\<lambda>j. bt_insert (job_id j) j) js (en_jobs en)) (job_id j) = Some j" if "j \<in> set js" for j
    using fold_insert_jobs_get [OF co that, of "\<lambda>j. j"] .
  have ok: "bt_ok (db_rows (fold put_row js (en_db en)))" "bt_ok (fold (\<lambda>j. bt_insert (job_id j) j) js (en_jobs en))"
    using put_rows_ok [of "en_db en" js] fold_insert_jobs_ok [of "en_jobs en" "\<lambda>j. j" js] assms(2)
    by (simp_all add: maps_ok_def)
  have "committed js en en'"
    unfolding committed_def
  proof (intro conjI ballI allI impI)
    show "maps_ok en'" using ok assms(2) unfolding saved(2) by (simp add: maps_ok_def)
    show "\<exists>db jobs. en' = en\<lparr>en_db := db, en_jobs := jobs\<rparr>" unfolding saved(2) by blast
  next
    fix i assume i: "i \<notin> job_id ` set js"
    show "bt_get (db_rows (en_db en')) i = bt_get (db_rows (en_db en)) i"
      using fold_put_row_other [OF i] unfolding saved(2) by simp
    show "bt_get (en_jobs en') i = bt_get (en_jobs en) i"
      using fold_insert_jobs_other [OF i, of "\<lambda>j. j"] unfolding saved(2) by simp
  qed (simp_all add: saved rows jobs)
  then show ?thesis using saved(1) by blast
qed blast

lemma commit_one_cases:
  assumes "commit_jobs F [j] en = (r, en')" and "maps_ok en"
    and "\<And>q. bt_get (db_rows (en_db en)) (job_id j) = Some q \<Longrightarrow> job_revision q \<le> job_revision j"
  shows "(\<exists>e. r = Err e) \<and> en' = en \<or> r = Ok () \<and> committed [j] en en'"
  using commit_cases [OF assms(1,2) coherent_single] assms(3) by simp

end
