(* ===== verification/Transfer_Invariant.thy ===== *)
theory Transfer_Invariant
  imports Transfer_Steps
begin

text \<open>Every event keeps the invariant of the transfer queue.\<close>

section \<open>One transfer\<close>

lemma transfer_invI_job:
  assumes "row = Some r" "job_id r = i" "tomb = None" "job_id j = i" "job_revision r \<le> job_revision j"
    and "status_is_active (job_status j) \<Longrightarrow> run \<noteq> None"
    and "job_status j = Completed \<Longrightarrow> \<not> job_unsaved j \<Longrightarrow> r = j"
    and "run \<noteq> None \<Longrightarrow> job_owner j \<noteq> None"
  shows "transfer_inv i row tomb (Some j) run None"
proof -
  have "job_inv i row tomb run j" unfolding job_inv_def using assms by blast
  then show ?thesis
    unfolding transfer_inv_def row_inv_def assms(1) option.pred_inject using assms(2,3) option.pred_inject(1) by blast
qed

text \<open>An unsaved result is shown by a job that no run works on.\<close>

lemma transfer_invI_result:
  assumes "row = Some r" "job_id r = i" "tomb = None" "job_id j = i" "job_revision r \<le> job_revision j"
    and "\<not> status_is_active (job_status j)" "job_unsaved j" "job_owner j \<noteq> None"
    and "job_id p = i" "job_status p = job_status j" "job_owner p = job_owner j" "job_revision j \<le> job_revision p"
  shows "transfer_inv i row tomb (Some j) None (Some p)"
proof -
  have "job_inv i row tomb None j" unfolding job_inv_def using assms by blast
  moreover have "result_inv i (Some j) None p" unfolding result_inv_def using assms by simp
  ultimately show ?thesis
    unfolding transfer_inv_def row_inv_def assms(1) option.pred_inject using assms(2,3) by blast
qed

text \<open>A job written to its row as it is in memory.\<close>

lemma transfer_inv_rewritten:
  assumes "transfer_inv i row tomb (Some j) run result"
  shows "transfer_inv i (Some j) tomb (Some j) run result"
proof -
  note k = transfer_inv_job [OF assms]
  have "job_inv i (Some j) tomb run j" unfolding job_inv_def using k by blast
  then show ?thesis
    using assms k(1,2) unfolding transfer_inv_def row_inv_def option.pred_inject by blast
qed

lemma transfer_inv_no_result:
  assumes "transfer_inv i row tomb (Some j) run result" "run \<noteq> None \<or> \<not> job_unsaved j \<or> job_owner j = None"
  shows "result = None"
  using assms by (cases result) (auto elim!: transfer_inv_result)

lemma transfer_inv_no_job: "transfer_inv i row tomb None run result \<Longrightarrow> result = None"
  by (cases result) (auto elim!: transfer_inv_result)

text \<open>Dropping an unsaved result, or the run, keeps the rest.\<close>

lemma transfer_inv_drop_result: "transfer_inv i row tomb job run result \<Longrightarrow> transfer_inv i row tomb job run None"
  unfolding transfer_inv_def using option.pred_inject(1) by blast

lemma queue_invI:
  "maps_ok en \<Longrightarrow> (\<And>i. transfer_inv_at en i) \<Longrightarrow> queue_inv en"
  by (simp add: queue_inv_def)

lemma queue_inv_cong:
  "queue_inv en \<Longrightarrow> en_db en' = en_db en \<Longrightarrow> en_jobs en' = en_jobs en \<Longrightarrow> en_active en' = en_active en \<Longrightarrow>
     en_pending en' = en_pending en \<Longrightarrow> queue_inv en'"
  by (simp add: queue_inv_def maps_ok_def)

section \<open>Commits of single jobs\<close>

lemma commit_one_inv:
  assumes inv: "queue_inv en" and c: "commit_jobs F [j] en = (r, en')"
    and old: "\<And>q. bt_get (db_rows (en_db en)) (job_id j) = Some q \<Longrightarrow> job_revision q \<le> job_revision j"
    and run: "status_is_active (job_status j) \<Longrightarrow> bt_get (en_active en) (job_id j) \<noteq> None"
    and owner: "bt_get (en_active en) (job_id j) \<noteq> None \<Longrightarrow> job_owner j \<noteq> None"
    and quiet: "bt_get (en_pending en) (job_id j) = None"
  shows "queue_inv en'"
proof -
  note d = committedD [of "[j]" en en']
  from commit_one_cases [OF c queue_invD(1) [OF inv] old]
  have "queue_inv en' \<or> committed [j] en en'" using inv by blast
  moreover have "queue_inv en'" if m: "committed [j] en en'"
  proof (rule queue_invI)
    show "maps_ok en'" by (rule d(1) [OF m])
    fix i show "transfer_inv_at en' i"
    proof (cases "i = job_id j")
      case True
      have s: "bt_get (db_tombstones (en_db en')) i = None" "bt_get (db_rows (en_db en')) i = Some j"
        "bt_get (en_jobs en') i = Some j"
        using d(2) [OF m] d(3-5) [OF m, of j] True by simp_all
      show ?thesis
        unfolding s d(8,9) [OF m] unfolding True quiet by (rule transfer_inv_saved [OF refl refl run owner])
    next
      case False
      then show ?thesis using queue_invD(2) [OF inv, of i] d(2,8,9) [OF m] d(6,7) [OF m, of i] by simp
    qed
  qed
  ultimately show ?thesis by blast
qed

text \<open>The revisions of a job's row are never ahead of the job.\<close>

lemma row_behind:
  "queue_inv en \<Longrightarrow> bt_get (en_jobs en) i = Some j \<Longrightarrow> bt_get (db_rows (en_db en)) i = Some r \<Longrightarrow>
     job_revision r \<le> job_revision j"
  using queue_invD(2) [of en i] transfer_inv_job(3) by fastforce

lemma job_has_id: "queue_inv en \<Longrightarrow> bt_get (en_jobs en) i = Some j \<Longrightarrow> job_id j = i"
  using queue_invD(2) [of en i] transfer_inv_job(1) by fastforce

section \<open>Progress and results\<close>

lemma upsert_cases:
  assumes "upsert F j db = (r, db')"
  shows "db' = db \<or> db' = put_row j db"
  using assms upsert_on_Ok by (auto simp: upsert_def split: sum.splits)

lemma progress_inv:
  assumes inv: "queue_inv en" and phase: "phase \<in> {Downloading, Uploading}"
  shows "queue_inv (record_progress E i (Some phase) p t n s en)"
proof (cases "bt_contains (en_active en) i \<and> (\<exists>j. bt_get (en_jobs en) i = Some j \<and> status_is_active (job_status j))")
  case False
  then show ?thesis using inv by (auto simp: record_progress_def split: option.split)
next
  case True
  then obtain j where j: "bt_get (en_jobs en) i = Some j" and act: "bt_get (en_active en) i \<noteq> None"
    "status_is_active (job_status j)" by (auto simp: bt_contains_def)
  let ?u = "(next_revision (j\<lparr>job_status := phase, job_progress := p, job_transferred := t, job_total := n,
    job_speed := s\<rparr>))\<lparr>job_updated := ev_stamp E\<rparr>"
  note k = transfer_inv_job [OF queue_invD(2) [OF inv, of i, unfolded j]]
  obtain r where r: "bt_get (db_rows (en_db en)) i = Some r" "job_revision r \<le> job_revision j" using k(3) by blast
  have new: "job_revision j \<le> job_revision ?u" "job_id ?u = i" "job_status ?u = phase" "job_owner ?u = job_owner j"
    using k(1) next_revision_more [of "j\<lparr>job_status := phase, job_progress := p, job_transferred := t, job_total := n, job_speed := s\<rparr>"]
    by simp_all
  have ru: "job_revision r \<le> job_revision ?u" using r(2) new(1) by simp
  have quiet: "bt_get (en_pending en) i = None"
    using transfer_inv_no_result [OF queue_invD(2) [OF inv, of i, unfolded j]] act(1) by blast
  have id_r: "job_id r = i" using queue_invD(2) [OF inv, of i, unfolded r(1)] transfer_inv_row by blast
  have own: "job_owner ?u \<noteq> None" using k(6) act(1) new(4) by simp
  have either: "transfer_inv i (Some q) (bt_get (db_tombstones (en_db en)) i) (Some ?u) (bt_get (en_active en) i) None"
    if "q = r \<or> q = ?u" for q
    by (rule transfer_invI_job [OF refl]) (use that k(2) id_r new ru act own phase in \<open>auto simp: status_is_active_def\<close>)
  define en1 where "en1 = en\<lparr>en_jobs := bt_insert i ?u (en_jobs en)\<rparr>"
  have base: "queue_inv (en1\<lparr>en_db := db\<rparr>)" if "db = en_db en \<or> db = put_row ?u (en_db en)" for db
  proof (rule queue_invI)
    show "maps_ok (en1\<lparr>en_db := db\<rparr>)"
      using that queue_invD(1) [OF inv] put_rows_ok [of "en_db en" "[?u]"] by (auto simp: maps_ok_def en1_def)
    have at: "\<exists>q. bt_get (db_rows db) i = Some q \<and> (q = r \<or> q = ?u)" "db_tombstones db = db_tombstones (en_db en)"
      using that r(1) put_row_get [of ?u "en_db en" i] new(2) by (auto split: option.splits if_splits)
    have off: "bt_get (db_rows db) k = bt_get (db_rows (en_db en)) k" if "k \<noteq> i" for k
      using \<open>db = _ \<or> _\<close> that new(2) by (auto simp: put_row_get)
    fix k show "transfer_inv_at (en1\<lparr>en_db := db\<rparr>) k"
      using at either off queue_invD(2) [OF inv, of k] quiet by (cases "k = i") (auto simp: en1_def)
  qed
  obtain q db where u: "upsert (ev_faults E) ?u (en_db en) = (q, db)" by (metis surj_pair)
  have "queue_inv (en1\<lparr>en_db := db\<rparr>)" "queue_inv (en1\<lparr>en_db := en_db en\<rparr>)"
    using base upsert_cases [OF u] by blast+
  then show ?thesis
    using j act u unfolding record_progress_def Let_def en1_def
    by (auto simp: bt_contains_def intro: queue_inv_cong split: option.split)
qed

text \<open>A finished run is off the active list; its result is saved or kept for the next round.\<close>

lemma commit_result_inv:
  assumes inv: "queue_inv en" and cur: "bt_get (en_jobs en) i = Some cur"
    and res: "job_id res = i" "job_revision cur \<le> job_revision res" "\<not> status_is_active (job_status res)"
      "job_owner res \<noteq> None"
    and idle: "bt_get (en_active en) i = None" and quiet: "bt_get (en_pending en) i = None"
  shows "queue_inv (snd (commit_result F res en))"
proof -
  let ?res = "res\<lparr>job_unsaved := False\<rparr>"
  obtain r en1 where c: "commit_jobs F [?res] en = (r, en1)" by (metis surj_pair)
  have old: "job_revision q \<le> job_revision ?res" if "bt_get (db_rows (en_db en)) (job_id ?res) = Some q" for q
    using row_behind [OF inv cur] that res(1,2) by fastforce
  have one: "queue_inv en1" by (rule commit_one_inv [OF inv c old]) (use res idle quiet in simp_all)
  from commit_one_cases [OF c queue_invD(1) [OF inv] old] show ?thesis
  proof
    assume "r = Ok () \<and> committed [?res] en en1"
    then have r: "r = Ok ()" and m: "committed [?res] en en1" by blast+
    have p: "en_pending en1 = en_pending en" by (rule committedD(9) [OF m])
    have "bt_remove i (en_pending en) = en_pending en"
      using quiet by (simp add: bt_remove_absent bt_get_None_iff)
    then show ?thesis using c r queue_inv_cong [OF one, of "en1\<lparr>en_pending := en_pending en\<rparr>"] res(1)
      by (simp add: commit_result_def p)
  next
    assume "(\<exists>e. r = Err e) \<and> en1 = en"
    then obtain e where r: "r = Err e" and same: "en1 = en" by blast
    let ?shown = "?res\<lparr>job_unsaved := True, job_error := Some (e @ SAVED_AGAIN),
      job_category := Some PersistenceError\<rparr>"
    have out: "snd (commit_result F res en) =
        en\<lparr>en_pending := bt_insert i ?res (en_pending en), en_jobs := bt_insert i ?shown (en_jobs en)\<rparr>"
      using c r same res(1) by (simp add: commit_result_def Let_def)
    show ?thesis unfolding out
    proof (rule queue_invI)
      show "maps_ok (en\<lparr>en_pending := bt_insert i ?res (en_pending en), en_jobs := bt_insert i ?shown (en_jobs en)\<rparr>)"
        using queue_invD(1) [OF inv] by (simp add: maps_ok_def)
      note k = transfer_inv_job [OF queue_invD(2) [OF inv, of i, unfolded cur]]
      obtain q where q: "bt_get (db_rows (en_db en)) i = Some q" "job_revision q \<le> job_revision cur" using k(3) by blast
      have idq: "job_id q = i" using queue_invD(2) [OF inv, of i, unfolded q(1)] transfer_inv_row by blast
      have at: "transfer_inv i (Some q) None (Some ?shown) None (Some ?res)"
        by (rule transfer_invI_result [OF refl]) (use idq q(2) res in simp_all)
      fix l show "transfer_inv_at (en\<lparr>en_pending := bt_insert i ?res (en_pending en), en_jobs := bt_insert i ?shown (en_jobs en)\<rparr>) l"
        using at q(1) k(2) idle queue_invD(2) [OF inv, of l] by (cases "l = i") simp_all
    qed
  qed
qed

lemma settle_run_frame:
  "job_id (settle_run lower pp E result j) = job_id j" "job_owner (settle_run lower pp E result j) = job_owner j"
  "job_origin (settle_run lower pp E result j) = job_origin j"
  "job_revision j \<le> job_revision (settle_run lower pp E result j)"
  using next_revision_more [of "finished_job pp (projr result) j"] next_revision_more [of "failed_job lower (projl result) (ev_now E) j"]
  by (auto simp: settle_run_def finished_job_frame failed_job_frame split: sum.split)

lemma failed_job_inactive: "\<not> status_is_active (job_status (failed_job lower error now j))"
  using apply_failure_inactive [of lower error now j] by (auto simp: failed_job_def Let_def status_is_active_def)

lemma settle_run_inactive: "\<not> status_is_active (job_status (settle_run lower pp E result j))"
  using failed_job_inactive by (auto simp: settle_run_def finished_job_frame status_is_active_def split: sum.split)

lemma transfer_inv_idle:
  assumes "transfer_inv i row tomb job run result" "\<And>j. job = Some j \<Longrightarrow> \<not> status_is_active (job_status j)"
  shows "transfer_inv i row tomb job None result"
proof (cases job)
  case None
  then show ?thesis using assms(1) transfer_inv_no_job [of i row tomb run result]
    unfolding transfer_inv_def by simp
next
  case (Some j)
  show ?thesis
  proof (cases "run = None")
    case False
    have t: "transfer_inv i row tomb (Some j) run result" using assms(1) Some by simp
    note k = transfer_inv_job [OF t]
    obtain r where r: "row = Some r" "job_revision r \<le> job_revision j" using k(3) by blast
    have idr: "job_id r = i" using t r(1) transfer_inv_row by blast
    have n: "result = None" using transfer_inv_no_result [OF t] False by blast
    show ?thesis unfolding Some n
      by (rule transfer_invI_job [OF r(1) idr k(2,1) r(2)]) (use assms(2) Some k(5) r(1) in auto)
  qed (use assms in simp)
qed

lemma finish_run_inv:
  assumes inv: "queue_inv en" and run: "bt_contains (en_active en) i"
  shows "queue_inv (snd (finish_run lower pp E i result en))"
proof -
  let ?en = "en\<lparr>en_active := bt_remove i (en_active en), en_checkpoints := bt_remove i (en_checkpoints en)\<rparr>"
  have act: "bt_get (en_active en) i \<noteq> None" using run by (simp add: bt_contains_def)
  have m: "maps_ok ?en" using queue_invD(1) [OF inv] by (simp add: maps_ok_def)
  show ?thesis
  proof (cases "bt_get (en_jobs en) i")
    case None
    have "queue_inv ?en"
    proof (rule queue_invI [OF m])
      fix l show "transfer_inv_at ?en l"
        using queue_invD(2) [OF inv, of l] transfer_inv_idle [OF queue_invD(2) [OF inv, of i]] None
        by (cases "l = i") simp_all
    qed
    then show ?thesis using None by (simp add: finish_run_def)
  next
    case (Some cur)
    note k = transfer_inv_job [OF queue_invD(2) [OF inv, of i, unfolded Some]]
    have quiet: "bt_get (en_pending en) i = None"
      using transfer_inv_no_result [OF queue_invD(2) [OF inv, of i, unfolded Some]] act by blast
    let ?res = "settle_run lower pp E result cur"
    text \<open>Before the result is stored the job may still say active: store a settled one first.\<close>
    define idle where "idle = cur\<lparr>job_status := Paused\<rparr>"
    have inv': "queue_inv (?en\<lparr>en_jobs := bt_insert i idle (en_jobs en)\<rparr>)"
    proof (rule queue_invI)
      show "maps_ok (?en\<lparr>en_jobs := bt_insert i idle (en_jobs en)\<rparr>)" using m by (simp add: maps_ok_def)
      obtain r where r: "bt_get (db_rows (en_db en)) i = Some r" "job_revision r \<le> job_revision cur" using k(3) by blast
      have idr: "job_id r = i" using queue_invD(2) [OF inv, of i, unfolded r(1)] transfer_inv_row by blast
      have at: "transfer_inv i (Some r) (bt_get (db_tombstones (en_db en)) i) (Some idle) None None"
        by (rule transfer_invI_job [OF refl idr k(2)]) (use k(1) r(2) in \<open>simp_all add: idle_def status_is_active_def\<close>)
      fix l show "transfer_inv_at (?en\<lparr>en_jobs := bt_insert i idle (en_jobs en)\<rparr>) l"
        using queue_invD(2) [OF inv, of l] at r(1) quiet by (cases "l = i") simp_all
    qed
    have same: "commit_result F res (e\<lparr>en_jobs := bt_insert i x (en_jobs e)\<rparr>) = commit_result F res e"
      if "job_id res = i" "maps_ok e" for F res e x
    proof -
      have f: "bt_insert i z (bt_insert i x (en_jobs e)) = bt_insert i z (en_jobs e)" for z
        using that(2) by (intro bt.put_put_same) (simp add: maps_ok_def)
      show ?thesis
        using that(1) f unfolding commit_result_def commit_jobs_def
        by (auto simp: Let_def split: prod.split sum.split)
    qed
    have "queue_inv (snd (commit_result (ev_faults E) ?res (?en\<lparr>en_jobs := bt_insert i idle (en_jobs en)\<rparr>)))"
      by (rule commit_result_inv [OF inv', of i idle])
        (use k(1,6) act quiet settle_run_frame [where j = cur] settle_run_inactive [where j = cur] in \<open>simp_all add: idle_def\<close>)
    moreover have "commit_result (ev_faults E) ?res (?en\<lparr>en_jobs := bt_insert i idle (en_jobs en)\<rparr>) =
        commit_result (ev_faults E) ?res ?en"
      using same [of ?res ?en "ev_faults E" idle] settle_run_frame(1) [of lower pp E result cur] k(1) m by simp
    ultimately show ?thesis using Some by (simp add: finish_run_def)
  qed
qed

section \<open>Scheduling\<close>

lemma walks_set: "walks w \<Longrightarrow> set (w xs) = set xs"
  unfolding walks_def by (metis set_mset_mset)

lemma walks_distinct: "walks w \<Longrightarrow> distinct (map f (w xs)) \<longleftrightarrow> distinct (map f xs)"
  unfolding walks_def by (metis mset_eq_imp_distinct_iff mset_map)

lemma bt_values_get: "bt_ok m \<Longrightarrow> v \<in> set (bt_values m) \<Longrightarrow> \<exists>k. bt_get m k = Some v"
  unfolding bt_values_def using bt_in_set_get by fastforce

lemma bt_get_values: "bt_get m k = Some v \<Longrightarrow> v \<in> set (bt_values m)"
  unfolding bt_values_def using bt_get_in_set by force

lemma jobs_distinct: "queue_inv en \<Longrightarrow> distinct (map job_id (bt_values (en_jobs en)))"
proof -
  assume inv: "queue_inv en"
  have ok: "bt_ok (en_jobs en)" using queue_invD(1) [OF inv] by (simp add: maps_ok_def)
  have "map job_id (bt_values (en_jobs en)) = bt_keys (en_jobs en)"
    using job_has_id [OF inv] bt_in_set_get [OF ok] by (fastforce simp: bt_values_def bt_keys_def)
  then show ?thesis using bt_ok_distinct [OF ok] by simp
qed

lemma results_distinct: "queue_inv en \<Longrightarrow> distinct (map job_id (bt_values (en_pending en)))"
proof -
  assume inv: "queue_inv en"
  have ok: "bt_ok (en_pending en)" using queue_invD(1) [OF inv] by (simp add: maps_ok_def)
  have id_p: "job_id p = i" if "bt_get (en_pending en) i = Some p" for i p
    using queue_invD(2) [OF inv, of i] that by (metis transfer_inv_result)
  have "map job_id (bt_values (en_pending en)) = bt_keys (en_pending en)"
    using id_p bt_in_set_get [OF ok] by (fastforce simp: bt_values_def bt_keys_def)
  then show ?thesis using bt_ok_distinct [OF ok] by simp
qed

lemma job_in_values:
  assumes "queue_inv en" "j \<in> set (bt_values (en_jobs en))"
  shows "bt_get (en_jobs en) (job_id j) = Some j"
proof -
  have "bt_ok (en_jobs en)" using queue_invD(1) [OF assms(1)] by (simp add: maps_ok_def)
  from bt_values_get [OF this assms(2)] obtain i where "bt_get (en_jobs en) i = Some j" ..
  then show ?thesis using job_has_id [OF assms(1)] by simp
qed

lemma drop_result_inv:
  assumes "queue_inv en"
  shows "queue_inv (en\<lparr>en_pending := bt_remove i (en_pending en)\<rparr>)"
proof (rule queue_invI)
  show "maps_ok (en\<lparr>en_pending := bt_remove i (en_pending en)\<rparr>)"
    using queue_invD(1) [OF assms] by (simp add: maps_ok_def)
  fix l show "transfer_inv_at (en\<lparr>en_pending := bt_remove i (en_pending en)\<rparr>) l"
    using queue_invD(2) [OF assms, of l] transfer_inv_drop_result [OF queue_invD(2) [OF assms, of i]] by simp
qed

lemma commit_jobs_pending:
  "commit_jobs F js (en\<lparr>en_pending := P\<rparr>) = apsnd (\<lambda>en. en\<lparr>en_pending := P\<rparr>) (commit_jobs F js en)"
  by (auto simp: commit_jobs_def split: prod.split sum.split)

text \<open>A kept result that reaches the database at last.\<close>

lemma save_result_inv:
  assumes inv: "queue_inv en" and p: "bt_get (en_pending en) i = Some p"
    and j: "job_id j = i" "job_owner j = job_owner p" "job_status j = job_status p" "\<not> job_unsaved j"
    and rev: "\<And>cur. bt_get (en_jobs en) i = Some cur \<Longrightarrow> job_revision cur \<le> job_revision j"
    and c: "commit_jobs F [j] en = (Ok u, en')"
  shows "queue_inv (en'\<lparr>en_pending := bt_remove i (en_pending en')\<rparr>)"
proof -
  have t: "transfer_inv_at en i" by (rule queue_invD(2) [OF inv])
  from t p obtain cur where cur: "bt_get (en_jobs en) i = Some cur" and idle: "bt_get (en_active en) i = None"
    "\<not> status_is_active (job_status p)" "job_owner p \<noteq> None"
    by (metis transfer_inv_result)
  have old: "job_revision q \<le> job_revision j" if "bt_get (db_rows (en_db en)) (job_id j) = Some q" for q
    using row_behind [OF inv cur] rev [OF cur] that j(1) by fastforce
  let ?en = "en\<lparr>en_pending := bt_remove i (en_pending en)\<rparr>"
  have "commit_jobs F [j] ?en = (Ok u, en'\<lparr>en_pending := bt_remove i (en_pending en)\<rparr>)"
    unfolding commit_jobs_pending c by simp
  then have "queue_inv (en'\<lparr>en_pending := bt_remove i (en_pending en)\<rparr>)"
    by (rule commit_one_inv [OF drop_result_inv [OF inv]]) (use old j idle in simp_all)
  moreover have "en_pending en' = en_pending en"
    using commit_one_cases [OF c queue_invD(1) [OF inv] old] committedD(9) by auto
  ultimately show ?thesis by simp
qed

lemma retry_commits_inv:
  assumes "queue_inv en" "distinct (map job_id rs)"
    and "\<And>p. p \<in> set rs \<Longrightarrow> bt_get (en_pending en) (job_id p) = Some p"
  shows "queue_inv (snd (retry_commits E rs en))"
  using assms
proof (induction rs arbitrary: en)
  case (Cons p rs)
  let ?j = "(next_revision p)\<lparr>job_unsaved := False\<rparr>"
  obtain r en1 where c: "commit_jobs (ev_retry_faults E (job_id p)) [?j] en = (r, en1)" by (metis surj_pair)
  have p: "bt_get (en_pending en) (job_id p) = Some p" using Cons.prems(3) by simp
  have t: "transfer_inv_at en (job_id p)" by (rule queue_invD(2) [OF Cons.prems(1)])
  have rev: "job_revision cur \<le> job_revision ?j" if "bt_get (en_jobs en) (job_id p) = Some cur" for cur
  proof -
    have "job_revision cur \<le> job_revision p" using t p that by (metis option.inject transfer_inv_result)
    then show ?thesis using next_revision_more [of p] by simp
  qed
  have old: "job_revision q \<le> job_revision ?j" if "bt_get (db_rows (en_db en)) (job_id ?j) = Some q" for q
  proof -
    obtain cur where cur: "bt_get (en_jobs en) (job_id p) = Some cur" using t p by (metis transfer_inv_result)
    show ?thesis using row_behind [OF Cons.prems(1) cur] rev [OF cur] that by fastforce
  qed
  show ?case
  proof (cases r)
    case (Inl e)
    then have "en1 = en" using commit_one_cases [OF c queue_invD(1) [OF Cons.prems(1)] old] by auto
    then show ?thesis using Inl c Cons.IH [of en] Cons.prems by simp
  next
    case (Inr u)
    let ?en = "en1\<lparr>en_pending := bt_remove (job_id p) (en_pending en1)\<rparr>"
    have m: "committed [?j] en en1" using commit_one_cases [OF c queue_invD(1) [OF Cons.prems(1)] old] Inr by auto
    have inv: "queue_inv ?en"
      by (rule save_result_inv [OF Cons.prems(1) p _ _ _ _ rev c [unfolded Inr]]) simp_all
    have "bt_get (en_pending ?en) (job_id x) = Some x" if "x \<in> set rs" for x
    proof -
      have "job_id x \<noteq> job_id p" using Cons.prems(2) that by (metis distinct.simps(2) image_eqI image_set list.simps(9))
      then show ?thesis using Cons.prems(3) that committedD(9) [OF m] by simp
    qed
    then have "queue_inv (snd (retry_commits E rs ?en))"
      using Cons.IH [OF inv] Cons.prems(2) by simp
    then show ?thesis using Inr c by (simp add: Let_def)
  qed
qed simp

lemma refuse_start_inv:
  assumes "queue_inv en" "\<And>j. bt_get (en_jobs en) (job_id s) = Some j \<Longrightarrow> bt_get (en_pending en) (job_id s) = None"
  shows "queue_inv (refuse_start e s en)"
proof (cases "bt_get (en_jobs en) (job_id s)")
  case (Some j)
  let ?n = "next_revision (j\<lparr>job_status := Paused, job_error := Some e, job_category := Some PersistenceError\<rparr>)"
  let ?en = "en\<lparr>en_jobs := bt_insert (job_id s) ?n (en_jobs en)\<rparr>"
  note k = transfer_inv_job [OF queue_invD(2) [OF assms(1), of "job_id s", unfolded Some]]
  obtain r where r: "bt_get (db_rows (en_db en)) (job_id s) = Some r" "job_revision r \<le> job_revision j" using k(3) by blast
  have idr: "job_id r = job_id s"
    using queue_invD(2) [OF assms(1), of "job_id s", unfolded r(1)] transfer_inv_row by blast
  have rev: "job_revision r \<le> job_revision ?n"
    using r(2) next_revision_more [of "j\<lparr>job_status := Paused, job_error := Some e, job_category := Some PersistenceError\<rparr>"] by simp
  have at: "transfer_inv (job_id s) (Some r) (bt_get (db_tombstones (en_db en)) (job_id s)) (Some ?n)
      (bt_get (en_active en) (job_id s)) None"
    by (rule transfer_invI_job [OF refl idr k(2)]) (use k(1,6) rev in \<open>simp_all add: status_is_active_def\<close>)
  have "queue_inv ?en"
  proof (rule queue_invI)
    show "maps_ok ?en" using queue_invD(1) [OF assms(1)] by (simp add: maps_ok_def)
    fix l show "transfer_inv_at ?en l"
      using at r(1) assms(2) [OF Some] queue_invD(2) [OF assms(1), of l] by (cases "l = job_id s") simp_all
  qed
  then show ?thesis by (simp add: refuse_start_def Some)
qed (use assms in \<open>simp add: refuse_start_def\<close>)

lemma refuse_start_pending [simp]: "en_pending (refuse_start e s en) = en_pending en"
  by (simp add: refuse_start_def split: option.split)

lemma refuse_all_inv:
  assumes "queue_inv en" "\<And>s. s \<in> set ss \<Longrightarrow> bt_get (en_pending en) (job_id s) = None"
  shows "queue_inv (fold (refuse_start e) ss en)"
  using assms by (induction ss arbitrary: en) (simp_all add: refuse_start_inv)

text \<open>The jobs a round selects: distinct, of the current account, not running, started from their last state.\<close>

lemma set_take_slots_subset: "set (take_slots u d js) \<subseteq> job_id ` set js"
  unfolding set_take_slots by (auto dest: in_set_takeD)

lemma distinct_take_slots: "distinct (map job_id js) \<Longrightarrow> distinct (take_slots u d js)"
proof (induction js arbitrary: u d)
  case (Cons j js)
  have "job_id j \<notin> set (take_slots a b js)" for a b
    using Cons.prems set_take_slots_subset [of a b js] by auto
  then show ?case using Cons by (simp split: direction.split)
qed simp

lemma find_by_id: "i \<in> job_id ` set js \<Longrightarrow> \<exists>j. find (\<lambda>j. job_id j = i) js = Some j \<and> j \<in> set js \<and> job_id j = i"
  by (induction js) auto

lemma map_filter_by_id:
  assumes "set ids \<subseteq> job_id ` set js"
  shows "map job_id (List.map_filter (\<lambda>i. find (\<lambda>j. job_id j = i) js) ids) = ids"
    and "set (List.map_filter (\<lambda>i. find (\<lambda>j. job_id j = i) js) ids) \<subseteq> set js"
proof -
  have "map job_id (List.map_filter (\<lambda>i. find (\<lambda>j. job_id j = i) js) ids) = ids \<and>
      set (List.map_filter (\<lambda>i. find (\<lambda>j. job_id j = i) js) ids) \<subseteq> set js"
    using assms
  proof (induction ids)
    case (Cons i ids)
    obtain j where "find (\<lambda>j. job_id j = i) js = Some j" "j \<in> set js" "job_id j = i"
      using find_by_id [of i js] Cons.prems by auto
    then show ?case using Cons by (simp add: List.map_filter_simps)
  qed (simp add: List.map_filter_simps)
  then show "map job_id (List.map_filter (\<lambda>i. find (\<lambda>j. job_id j = i) js) ids) = ids"
    "set (List.map_filter (\<lambda>i. find (\<lambda>j. job_id j = i) js) ids) \<subseteq> set js" by simp_all
qed

lemma eligible_props:
  assumes "queue_inv en" "walks (ev_walk E)" "j \<in> set (eligible_jobs E owner en)"
  obtains j0 where "bt_get (en_jobs en) (job_id j) = Some j0" "job_owner j0 = Some owner" "\<not> job_unsaved j0"
    "job_status j0 \<in> {Pending, WaitingForNetwork, Cooldown}" "j = j0\<lparr>job_status := Pending\<rparr>"
proof -
  obtain j0 where j0: "j0 \<in> set (bt_values (en_jobs en))" "job_owner j0 = Some owner" "\<not> job_unsaved j0"
    "job_status j0 \<in> {Pending, WaitingForNetwork, Cooldown}" "j = j0\<lparr>job_status := Pending\<rparr>"
    using assms(3) unfolding eligible_jobs_def walks_set [OF assms(2)] by (auto simp: walks_set [OF assms(2)])
  then show thesis using that job_in_values [OF assms(1) j0(1)] by simp
qed

lemma eligible_distinct:
  assumes "queue_inv en" "walks (ev_walk E)"
  shows "distinct (map job_id (eligible_jobs E owner en))"
proof -
  have "distinct (map job_id (ev_walk E (bt_values (en_jobs en))))"
    using walks_distinct [OF assms(2)] jobs_distinct [OF assms(1)] by blast
  then show ?thesis by (simp add: eligible_jobs_def comp_def distinct_map_filter)
qed

lemma select_subset:
  "set (select_pending_job_ids jobs active u d) \<subseteq> job_id ` {j \<in> set jobs. job_status j = Pending \<and> active (job_id j) = None}"
  unfolding select_pending_job_ids_def using set_take_slots_subset by fastforce

lemma select_distinct: "distinct (map job_id jobs) \<Longrightarrow> distinct (select_pending_job_ids jobs active u d)"
  unfolding select_pending_job_ids_def
  by (rule distinct_take_slots) (simp add: distinct_map inj_on_def)

lemma started_job_frame [simp]:
  "job_id (started_job E j) = job_id j" "job_owner (started_job E j) = job_owner j"
  "job_direction (started_job E j) = job_direction j" "job_origin (started_job E j) = job_origin j"
  "status_is_active (job_status (started_job E j))"
  by (simp_all add: started_job_def status_is_active_def)

lemma started_job_revision: "job_revision j \<le> job_revision (started_job E j)"
  using next_revision_more [of "j\<lparr>job_status := (if job_kind j = LocalUpload then Uploading else Downloading),
        job_error := None, job_category := None, job_retry_at := None, job_speed := 0\<rparr>"]
  by (simp add: started_job_def)

lemma selected_props:
  assumes inv: "queue_inv en" and w: "walks (ev_walk E)"
  shows "distinct (map job_id (selected_jobs E owner en))"
    and "s \<in> set (selected_jobs E owner en) \<Longrightarrow>
      \<exists>j. bt_get (en_jobs en) (job_id s) = Some j \<and> job_owner j = Some owner \<and> \<not> job_unsaved j \<and>
          job_status j \<in> {Pending, WaitingForNetwork, Cooldown} \<and> bt_get (en_active en) (job_id s) = None \<and>
          s = started_job E (j\<lparr>job_status := Pending\<rparr>)"
proof -
  let ?jobs = "eligible_jobs E owner en"
  let ?ids = "select_pending_job_ids ?jobs (bt_get (en_active en))
           (en_max_uploads en - active_count UploadDirection en)
           (en_max_downloads en - active_count DownloadDirection en)"
  have sub: "set ?ids \<subseteq> job_id ` {j \<in> set ?jobs. job_status j = Pending \<and> bt_get (en_active en) (job_id j) = None}"
    by (rule select_subset)
  then have sub': "set ?ids \<subseteq> job_id ` set ?jobs" by auto
  have ids: "map job_id (selected_jobs E owner en) = ?ids"
    using map_filter_by_id(1) [OF sub'] by (simp add: selected_jobs_def Let_def comp_def)
  show "distinct (map job_id (selected_jobs E owner en))"
    unfolding ids by (rule select_distinct [OF eligible_distinct [OF inv w]])
  assume s: "s \<in> set (selected_jobs E owner en)"
  then obtain e where e: "e \<in> set ?jobs" "s = started_job E e"
    using map_filter_by_id(2) [OF sub'] by (auto simp: selected_jobs_def Let_def)
  have "job_id s \<in> set ?ids" using s unfolding ids [symmetric] by simp
  then have idle: "bt_get (en_active en) (job_id s) = None" using sub by auto
  obtain j where "bt_get (en_jobs en) (job_id e) = Some j" "job_owner j = Some owner" "\<not> job_unsaved j"
    "job_status j \<in> {Pending, WaitingForNetwork, Cooldown}" "e = j\<lparr>job_status := Pending\<rparr>"
    by (rule eligible_props [OF inv w e(1)])
  then show "\<exists>j. bt_get (en_jobs en) (job_id s) = Some j \<and> job_owner j = Some owner \<and> \<not> job_unsaved j \<and>
          job_status j \<in> {Pending, WaitingForNetwork, Cooldown} \<and> bt_get (en_active en) (job_id s) = None \<and>
          s = started_job E (j\<lparr>job_status := Pending\<rparr>)"
    using idle e(2) by auto
qed

lemma fold_active_get:
  fixes js :: "transfer_job list"
  shows "distinct (map job_id js) \<Longrightarrow> bt_get (fold (\<lambda>j. bt_insert (job_id j) (f j)) js m) i =
     (if i \<in> job_id ` set js then Some (f (the (find (\<lambda>j. job_id j = i) js))) else bt_get m i)"
proof (cases "i \<in> job_id ` set js")
  case True
  assume d: "distinct (map job_id js)"
  obtain j where "find (\<lambda>j. job_id j = i) js = Some j" "j \<in> set js" "job_id j = i"
    using find_by_id [OF True] by blast
  then show ?thesis using fold_insert_jobs_get [OF coherent_distinct [OF d], of j f m] by auto
qed (simp add: fold_insert_jobs_other)

lemma start_jobs_cases:
  assumes inv: "queue_inv en" and w: "walks (ev_walk E)" and st: "start_jobs E en = (started, en')"
  shows "started = [] \<and> queue_inv en' \<and> en_active en' = en_active en \<or>
    (\<exists>a en1. engine_account E None = Ok a \<and> still_owner E a = Ok () \<and> started = selected_jobs E (owner_text a) en \<and>
       committed started en en1 \<and>
       en' = en1\<lparr>en_active := fold (\<lambda>j. bt_insert (job_id j) (job_direction j)) started (en_active en)\<rparr>)"
proof (cases "\<exists>a. engine_account E None = Ok a \<and> ev_connected E \<and>
    \<not> (en_max_uploads en \<le> active_count UploadDirection en \<and> en_max_downloads en \<le> active_count DownloadDirection en) \<and>
    \<not> (selected_jobs E (owner_text a) en = [] \<or> still_owner E a \<noteq> Ok ())")
  case False
  then have "started = [] \<and> en' = en"
    using st by (auto simp: start_jobs_def Let_def split: sum.splits if_splits)
  then show ?thesis using inv by simp
next
  case True
  then obtain a where a: "engine_account E None = Ok a" "still_owner E a = Ok ()" "ev_connected E"
    "selected_jobs E (owner_text a) en \<noteq> []"
    "\<not> (en_max_uploads en \<le> active_count UploadDirection en \<and> en_max_downloads en \<le> active_count DownloadDirection en)"
    by blast
  let ?sel = "selected_jobs E (owner_text a) en"
  note p = selected_props [OF inv w, where owner = "owner_text a"]
  have old: "job_revision q \<le> job_revision s"
    if s: "s \<in> set ?sel" and q: "bt_get (db_rows (en_db en)) (job_id s) = Some q" for s q
  proof -
    obtain j where j: "bt_get (en_jobs en) (job_id s) = Some j" "s = started_job E (j\<lparr>job_status := Pending\<rparr>)"
      using p(2) [OF s] by blast
    show ?thesis
      using row_behind [OF inv j(1) q] started_job_revision [of "j\<lparr>job_status := Pending\<rparr>" E] j(2) by simp
  qed
  obtain r en1 where c: "commit_jobs (ev_faults E) ?sel en = (r, en1)" by (metis surj_pair)
  have go: "start_jobs E en = (case r of Err e \<Rightarrow> ([], fold (refuse_start e) ?sel en1)
      | Ok _ \<Rightarrow> (?sel, en1\<lparr>en_active := fold (\<lambda>j. bt_insert (job_id j) (job_direction j)) ?sel (en_active en1)\<rparr>))"
    unfolding start_jobs_def using a c by (cases r) (auto simp: Let_def)
  from commit_cases [OF c queue_invD(1) [OF inv] coherent_distinct [OF p(1)] old] show ?thesis
  proof
    assume "r = Ok () \<and> committed ?sel en en1"
    then show ?thesis using st go a(1,2) committedD(8) by auto
  next
    assume "(\<exists>e. r = Err e) \<and> en1 = en"
    then obtain e where e: "r = Err e" "en1 = en" by blast
    have quiet: "bt_get (en_pending en) (job_id s) = None" if s: "s \<in> set ?sel" for s
    proof -
      obtain j where j: "bt_get (en_jobs en) (job_id s) = Some j" "\<not> job_unsaved j" using p(2) [OF s] by blast
      show ?thesis using transfer_inv_no_result [OF queue_invD(2) [OF inv, of "job_id s", unfolded j(1)]] j(2) by blast
    qed
    have out: "started = []" "en' = fold (refuse_start e) ?sel en" using st go e by simp_all
    have "en_active (fold (refuse_start e) ss en0) = en_active en0" for ss en0
    proof (induction ss arbitrary: en0)
      case (Cons s ss)
      have "en_active (refuse_start e s en0) = en_active en0" by (simp add: refuse_start_def split: option.split)
      then show ?case using Cons by simp
    qed simp
    then show ?thesis using out refuse_all_inv [OF inv quiet] by blast
  qed
qed

lemma start_jobs_inv:
  assumes inv: "queue_inv en" and w: "walks (ev_walk E)"
  shows "queue_inv (snd (start_jobs E en))"
proof -
  obtain started en' where st: "start_jobs E en = (started, en')" by (metis surj_pair)
  from start_jobs_cases [OF inv w st] show ?thesis
  proof
    assume "\<exists>a en1. engine_account E None = Ok a \<and> still_owner E a = Ok () \<and> started = selected_jobs E (owner_text a) en \<and>
       committed started en en1 \<and>
       en' = en1\<lparr>en_active := fold (\<lambda>j. bt_insert (job_id j) (job_direction j)) started (en_active en)\<rparr>"
    then obtain a en1 where sel: "started = selected_jobs E (owner_text a) en" and m: "committed started en en1"
      and en': "en' = en1\<lparr>en_active := fold (\<lambda>j. bt_insert (job_id j) (job_direction j)) started (en_active en)\<rparr>"
      by blast
    note p = selected_props [OF inv w, where owner = "owner_text a", folded sel]
    note d = committedD [OF m]
    have "queue_inv en'"
    proof (rule queue_invI)
      show "maps_ok en'"
        using d(1) queue_invD(1) [OF inv] fold_insert_jobs_ok [of "en_active en" job_direction started]
        unfolding en' by (simp add: maps_ok_def)
      fix i show "transfer_inv_at en' i"
      proof (cases "i \<in> job_id ` set started")
        case True
        then obtain s where s: "s \<in> set started" "i = job_id s" by blast
        obtain j where j: "bt_get (en_jobs en) i = Some j" "\<not> job_unsaved j" "job_owner j = Some (owner_text a)"
          "s = started_job E (j\<lparr>job_status := Pending\<rparr>)" using p(2) [OF s(1)] s(2) by blast
        have quiet: "bt_get (en_pending en) i = None"
          using transfer_inv_no_result [OF queue_invD(2) [OF inv, of i, unfolded j(1)]] j(2) by blast
        have at: "bt_get (db_rows (en_db en')) i = Some s" "bt_get (en_jobs en') i = Some s"
          "bt_get (db_tombstones (en_db en')) i = None" "bt_get (en_pending en') i = None"
          "bt_get (en_active en') i \<noteq> None"
          using d(2,9) d(3-5) [OF s(1)] s(2) quiet True
            fold_active_get [OF p(1), of job_direction "en_active en" i] unfolding en' by simp_all
        show ?thesis unfolding at(1-4)
          by (rule transfer_inv_saved) (use s(2) at(5) j in simp_all)
      next
        case False
        have "bt_get (en_active en') i = bt_get (en_active en) i"
          using False fold_insert_jobs_other [OF False, of job_direction] unfolding en' by simp
        then show ?thesis using queue_invD(2) [OF inv, of i] d(2,9) d(6,7) [OF False] unfolding en' by simp
      qed
    qed
    then show ?thesis using st by simp
  qed (use st in simp)
qed

lemma schedule_retries_inv:
  assumes inv: "queue_inv en" and w: "walks (ev_walk E)"
  shows "queue_inv (snd (retry_commits E (ev_walk E (bt_values (en_pending en))) en))"
proof -
  let ?rs = "ev_walk E (bt_values (en_pending en))"
  have ok: "bt_ok (en_pending en)" using queue_invD(1) [OF inv] by (simp add: maps_ok_def)
  have get: "bt_get (en_pending en) (job_id p) = Some p" if p: "p \<in> set ?rs" for p
  proof -
    have "p \<in> set (bt_values (en_pending en))" using p walks_set [OF w] by blast
    from bt_values_get [OF ok this] obtain i where i: "bt_get (en_pending en) i = Some p" ..
    then have "job_id p = i" using queue_invD(2) [OF inv, of i] by (metis transfer_inv_result)
    then show ?thesis using i by simp
  qed
  have "distinct (map job_id ?rs)" using walks_distinct [OF w] results_distinct [OF inv] by blast
  then show ?thesis using retry_commits_inv [OF inv] get by blast
qed

lemma schedule_inv:
  assumes inv: "queue_inv en" and w: "walks (ev_walk E)"
  shows "queue_inv (snd (schedule_once E en))"
  using inv start_jobs_inv [OF schedule_retries_inv [OF inv w] w] by (simp add: schedule_once_def split_beta)

section \<open>Removal\<close>

lemma delete_many_cases:
  assumes "delete_many F now ids db = (r, db')" "bt_ok (db_rows db)" "bt_ok (db_tombstones db)"
  shows "(\<exists>e. r = Err e) \<and> db' = db \<or>
    r = Ok () \<and> bt_ok (db_rows db') \<and> bt_ok (db_tombstones db') \<and>
    (\<forall>i. bt_get (db_rows db') i = (if i \<in> set ids then None else bt_get (db_rows db) i)) \<and>
    (\<forall>i. bt_get (db_tombstones db') i = (case bt_get (db_tombstones db) i of Some t \<Rightarrow> Some t
       | None \<Rightarrow> if i \<in> set ids then Some (Some now) else None))"
  using transaction_cases [OF assms(1) [unfolded delete_many_def]]
    delete_all_Ok [of F 1 now ids db db'] assms(2,3) by blast

lemma delete_many_failed: "delete_many F now ids db = (Err e, db') \<Longrightarrow> db' = db"
  unfolding delete_many_def using transaction_cases by (metis sum.distinct(1))

lemma fold_remove_get: "bt_get (fold bt_remove ids m) i = (if i \<in> set ids then None else bt_get m i)"
  by (induction ids arbitrary: m) auto

lemma fold_remove_ok: "bt_ok m \<Longrightarrow> bt_ok (fold bt_remove ids m)"
  by (induction ids arbitrary: m) simp_all

text \<open>Jobs without an unsaved result leave the database and the memory together.\<close>

lemma forget_inv:
  assumes inv: "queue_inv en" and d: "delete_many F now ids (en_db en) = (Ok u, db)"
    and quiet: "\<And>i. i \<in> set ids \<Longrightarrow> bt_get (en_pending en) i = None"
  shows "queue_inv (forget_jobs ids (en\<lparr>en_db := db\<rparr>))"
proof (rule queue_invI)
  have m: "bt_ok (db_rows (en_db en))" "bt_ok (db_tombstones (en_db en))" "bt_ok (en_jobs en)"
    using queue_invD(1) [OF inv] by (simp_all add: maps_ok_def)
  have ok: "bt_ok (db_rows db)" "bt_ok (db_tombstones db)"
    and rows: "\<And>i. bt_get (db_rows db) i = (if i \<in> set ids then None else bt_get (db_rows (en_db en)) i)"
    and tombs: "\<And>i. bt_get (db_tombstones db) i = (case bt_get (db_tombstones (en_db en)) i of Some t \<Rightarrow> Some t
       | None \<Rightarrow> if i \<in> set ids then Some (Some now) else None)"
    using delete_many_cases [OF d m(1,2)] by blast+
  show "maps_ok (forget_jobs ids (en\<lparr>en_db := db\<rparr>))"
    using ok queue_invD(1) [OF inv] fold_remove_ok [OF m(3)] by (simp add: maps_ok_def forget_jobs_def)
  fix i show "transfer_inv_at (forget_jobs ids (en\<lparr>en_db := db\<rparr>)) i"
  proof (cases "i \<in> set ids")
    case True
    have "bt_get (db_rows db) i = None" "bt_get (db_tombstones db) i \<noteq> None"
      using True rows [of i] tombs [of i] by (simp_all split: option.splits)
    then show ?thesis
      using True quiet [OF True] by (simp add: forget_jobs_def fold_remove_get transfer_inv_def)
  next
    case False
    have "bt_get (db_tombstones db) i = bt_get (db_tombstones (en_db en)) i"
      using False tombs [of i] by (simp split: option.splits)
    then show ?thesis
      using queue_invD(2) [OF inv, of i] False rows [of i] by (simp add: forget_jobs_def fold_remove_get)
  qed
qed

lemma clear_inv:
  assumes inv: "queue_inv en" and w: "walks (ev_walk E)"
  shows "queue_inv (snd (clear_terminal E d b expected en))"
proof -
  have m: "bt_ok (db_rows (en_db en))" "bt_ok (db_tombstones (en_db en))"
    using queue_invD(1) [OF inv] by (simp_all add: maps_ok_def)
  have quiet: "bt_get (en_pending en) (job_id j) = None"
    if "j \<in> set (ev_walk E (bt_values (en_jobs en)))" "\<not> job_unsaved j" for j
  proof -
    have g: "bt_get (en_jobs en) (job_id j) = Some j"
      using job_in_values [OF inv] that(1) walks_set [OF w] by blast
    show ?thesis using transfer_inv_no_result [OF queue_invD(2) [OF inv, of "job_id j", unfolded g]] that(2) by blast
  qed
  show ?thesis
  proof (cases "engine_account E expected")
    case (Inr a)
    define ids where "ids = map job_id (filter (\<lambda>j. job_owner j = Some (owner_text a) \<and> \<not> job_unsaved j \<and>
                 job_direction j = d \<and> (job_status j = Completed \<or> b \<and> job_status j \<in> {Failed, Cancelled}))
                 (ev_walk E (bt_values (en_jobs en))))"
    have q: "bt_get (en_pending en) i = None" if "i \<in> set ids" for i using that quiet unfolding ids_def by auto
    obtain r db where dm: "delete_many (ev_faults E) (ev_now E div 1000) ids (en_db en) = (r, db)" by (metis surj_pair)
    have out: "snd (clear_terminal E d b expected en) =
        (if still_owner E a \<noteq> Ok () then en
         else case r of Err _ \<Rightarrow> en\<lparr>en_db := db\<rparr> | Ok _ \<Rightarrow> forget_jobs ids (en\<lparr>en_db := db\<rparr>))"
      unfolding clear_terminal_def Inr sum.case Let_def ids_def [symmetric] dm by (cases "still_owner E a"; cases r) simp_all
    have "queue_inv (case r of Err _ \<Rightarrow> en\<lparr>en_db := db\<rparr> | Ok _ \<Rightarrow> forget_jobs ids (en\<lparr>en_db := db\<rparr>))"
    proof (cases r)
      case (Inl e)
      then have "db = en_db en" using delete_many_failed dm by blast
      then show ?thesis using inv Inl by simp
    next
      case (Inr u)
      have "queue_inv (forget_jobs ids (en\<lparr>en_db := db\<rparr>))" by (rule forget_inv [OF inv dm [unfolded Inr] q])
      then show ?thesis using Inr by simp
    qed
    then show ?thesis unfolding out using inv by simp
  qed (use inv in \<open>simp add: clear_terminal_def\<close>)
qed

lemma discard_inv:
  assumes inv: "queue_inv en"
  shows "queue_inv (snd (discard_legacy E owner ids en))"
proof -
  have m: "bt_ok (db_rows (en_db en))" "bt_ok (db_tombstones (en_db en))"
    using queue_invD(1) [OF inv] by (simp_all add: maps_ok_def)
  let ?go = "rbind (engine_account E (Some owner)) (\<lambda>a.
           if list_ex (\<lambda>i. case bt_get (en_jobs en) i of None \<Rightarrow> True | Some job \<Rightarrow> job_owner job \<noteq> None) ids
           then Err (us ''Only unassigned queue records can be discarded'')
           else still_owner E a)"
  show ?thesis
  proof (cases ?go)
    case go: (Inr u)
    then have "\<not> list_ex (\<lambda>i. case bt_get (en_jobs en) i of None \<Rightarrow> True | Some job \<Rightarrow> job_owner job \<noteq> None) ids"
      by (auto split: if_splits)
    then have own: "\<exists>j. bt_get (en_jobs en) i = Some j \<and> job_owner j = None" if "i \<in> set ids" for i
      using that by (fastforce simp: list_ex_iff split: option.splits)
    have q: "bt_get (en_pending en) i = None" if i: "i \<in> set ids" for i
    proof -
      obtain j where j: "bt_get (en_jobs en) i = Some j" "job_owner j = None" using own [OF i] by blast
      show ?thesis using transfer_inv_no_result [OF queue_invD(2) [OF inv, of i, unfolded j(1)]] j(2) by blast
    qed
    obtain r db where dm: "delete_many (ev_faults E) (ev_now E div 1000) ids (en_db en) = (r, db)" by (metis surj_pair)
    have out: "snd (discard_legacy E owner ids en) =
        (case r of Err _ \<Rightarrow> en\<lparr>en_db := db\<rparr> | Ok _ \<Rightarrow> forget_jobs ids (en\<lparr>en_db := db\<rparr>))"
      unfolding discard_legacy_def go sum.case dm by (cases r) simp_all
    show ?thesis unfolding out
    proof (cases r)
      case (Inl e)
      then have "db = en_db en" using delete_many_failed dm by blast
      then show "queue_inv (case r of Err _ \<Rightarrow> en\<lparr>en_db := db\<rparr> | Ok _ \<Rightarrow> forget_jobs ids (en\<lparr>en_db := db\<rparr>))"
        using inv Inl by simp
    next
      case (Inr v)
      have "queue_inv (forget_jobs ids (en\<lparr>en_db := db\<rparr>))" by (rule forget_inv [OF inv dm [unfolded Inr] q])
      then show "queue_inv (case r of Err _ \<Rightarrow> en\<lparr>en_db := db\<rparr> | Ok _ \<Rightarrow> forget_jobs ids (en\<lparr>en_db := db\<rparr>))"
        using Inr by simp
    qed
  qed (use inv in \<open>simp add: discard_legacy_def\<close>)
qed

lemma withdraw_inv:
  assumes inv: "queue_inv en"
  shows "queue_inv (withdraw E i en)"
proof -
  have m: "bt_ok (db_rows (en_db en))" "bt_ok (db_tombstones (en_db en))"
    using queue_invD(1) [OF inv] by (simp_all add: maps_ok_def)
  obtain r db where dm: "delete_many (ev_faults E) (ev_now E div 1000) [i] (en_db en) = (r, db)" by (metis surj_pair)
  let ?en = "en\<lparr>en_jobs := bt_remove i (en_jobs en), en_db := if bt_contains (en_jobs en) i then db else en_db en,
     en_pending := bt_remove i (en_pending en)\<rparr>"
  have "queue_inv ?en"
  proof (rule queue_invI)
    have k: "bt_ok (db_rows db) \<and> bt_ok (db_tombstones db) \<and>
        (\<forall>l. l \<noteq> i \<longrightarrow> bt_get (db_rows db) l = bt_get (db_rows (en_db en)) l \<and>
           bt_get (db_tombstones db) l = bt_get (db_tombstones (en_db en)) l) \<and>
        (db = en_db en \<or> bt_get (db_rows db) i = None \<and> bt_get (db_tombstones db) i \<noteq> None)"
    proof (cases r)
      case (Inl e)
      then have "db = en_db en" using delete_many_failed dm by blast
      then show ?thesis using m by simp
    next
      case (Inr u)
      then have ok: "bt_ok (db_rows db)" "bt_ok (db_tombstones db)"
        and rows: "bt_get (db_rows db) l = (if l \<in> set [i] then None else bt_get (db_rows (en_db en)) l)"
        and tombs: "bt_get (db_tombstones db) l = (case bt_get (db_tombstones (en_db en)) l of Some t \<Rightarrow> Some t
           | None \<Rightarrow> if l \<in> set [i] then Some (Some (ev_now E div 1000)) else None)" for l
        using delete_many_cases [OF dm m] by blast+
      have "bt_get (db_tombstones db) l = bt_get (db_tombstones (en_db en)) l" if "l \<noteq> i" for l
        using that tombs [of l] by (simp split: option.splits)
      moreover have "bt_get (db_tombstones db) i \<noteq> None" using tombs [of i] by (simp split: option.splits)
      ultimately show ?thesis using ok rows by simp
    qed
    then show "maps_ok ?en" using queue_invD(1) [OF inv] by (simp add: maps_ok_def)
    have t: "transfer_inv_at en i" by (rule queue_invD(2) [OF inv])
    have "transfer_inv i (bt_get (db_rows (en_db en)) i) (bt_get (db_tombstones (en_db en)) i) None (bt_get (en_active en) i) None"
      by (rule transfer_inv_gone) (use t in \<open>unfold transfer_inv_def, blast+\<close>)
    moreover have "transfer_inv i None tb None (bt_get (en_active en) i) None" if "tb \<noteq> None" for tb
      by (rule transfer_inv_gone) (use that in simp_all)
    ultimately have at: "transfer_inv_at ?en i" using k by (simp del: not_None_eq) metis
    fix l show "transfer_inv_at ?en l"
    proof (cases "l = i")
      case False
      then show ?thesis using k queue_invD(2) [OF inv, of l] by simp
    qed (use at in simp)
  qed
  moreover have "bt_remove i (en_jobs en) = en_jobs en" if "\<not> bt_contains (en_jobs en) i"
    using that by (simp add: bt_contains_iff bt_remove_absent)
  ultimately show ?thesis
    by (rule_tac queue_inv_cong [of ?en]) (simp_all add: withdraw_def Let_def dm)
qed

section \<open>User actions and adoption\<close>

lemma apply_action_frame:
  assumes "apply_action action j = Some j'"
  shows "job_id j' = job_id j" "job_owner j' = job_owner j" "job_revision j' = job_revision j"
    "job_unsaved j' = job_unsaved j" "job_origin j' = job_origin j" "job_status j' \<in> {Paused, Cancelled, Pending}"
    "job_direction j' = job_direction j"
  using assms by (auto simp: apply_action_def split: transfer_action.splits if_splits)

lemma acted_job_frame [simp]:
  "job_id (acted_job E j) = job_id j" "job_owner (acted_job E j) = job_owner j"
  "job_status (acted_job E j) = job_status j" "job_origin (acted_job E j) = job_origin j"
  "job_unsaved (acted_job E j) = job_unsaved j" "job_category (acted_job E j) = None"
  by (simp_all add: acted_job_def next_revision_def)

lemma acted_job_revision: "job_revision j \<le> job_revision (acted_job E j)"
  using next_revision_more [of "j\<lparr>job_error := None, job_category := None, job_retry_at := None, job_speed := 0\<rparr>"]
  by (simp add: acted_job_def)

text \<open>The outcomes of an action: refused, not applicable, a kept result saved, or the changed job saved.\<close>

lemma transition_cases:
  assumes inv: "queue_inv en" and t: "transition E i action expected en = (r, en')"
  obtains (refused) e where "r = Err e" "en' = en"
  | (unchanged) j where "r = Ok j" "en' = en" "bt_get (en_jobs en) i = Some j" "apply_action action j = None"
      "bt_get (en_pending en) i = None"
  | (result) a j p en1 where "r = Ok p" "engine_account E expected = Ok a" "bt_get (en_jobs en) i = Some j"
      "job_owner j = Some (owner_text a)" "committed [p] en en1" "commit_jobs (ev_faults E) [p] en = (Ok (), en1)"
      "en' = en1\<lparr>en_pending := bt_remove i (en_pending en1)\<rparr>"
      "\<exists>p0. bt_get (en_pending en) i = Some p0 \<and>
         p = p0\<lparr>job_revision := saturating_add_u64 (job_revision j) 1, job_unsaved := False\<rparr>"
  | (acted) a j c en1 where "r = Ok (acted_job E c)" "engine_account E expected = Ok a"
      "bt_get (en_jobs en) i = Some j" "job_owner j = Some (owner_text a)" "bt_get (en_pending en) i = None"
      "apply_action action j = Some c" "committed [acted_job E c] en en1"
      "commit_jobs (ev_faults E) [acted_job E c] en = (Ok (), en1)"
      "en' = en1 \<or> en' = en1\<lparr>en_cancel_requests := insert i (en_cancel_requests en1)\<rparr>"
proof -
  let ?go = "rbind (engine_account E expected) (\<lambda>a.
           rbind (ok_or (bt_get (en_jobs en) i) (us ''Transfer was not found'')) (\<lambda>job.
           if job_owner job \<noteq> Some (owner_text a)
           then Err (us ''ACCOUNT_CHANGED: Transfer is not owned by this account'')
           else Ok (a, job)))"
  show thesis
  proof (cases ?go)
    case (Inl e)
    then have "r = Err e \<and> en' = en" using t unfolding transition_def by simp
    then show thesis using refused by blast
  next
    case (Inr aj)
    then obtain a j where aj: "aj = (a, j)" and a: "engine_account E expected = Ok a"
      and j: "bt_get (en_jobs en) i = Some j" and own: "job_owner j = Some (owner_text a)"
      by (auto split: if_splits)
    note go = Inr [unfolded aj]
    have idj: "job_id j = i" by (rule job_has_id [OF inv j])
    have ahead: "job_revision q \<le> job_revision j" if "bt_get (db_rows (en_db en)) i = Some q" for q
      by (rule row_behind [OF inv j that])
    show thesis
    proof (cases "bt_get (en_pending en) i")
      case (Some p0)
      define p where "p = p0\<lparr>job_revision := saturating_add_u64 (job_revision j) 1, job_unsaved := False\<rparr>"
      obtain q en1 where c: "commit_jobs (ev_faults E) [p] en = (q, en1)" by (metis surj_pair)
      have step: "(r, en') = (case still_owner E a of Err e \<Rightarrow> (Err e, en)
           | Ok _ \<Rightarrow> (case (q, en1) of (Err e, en) \<Rightarrow> (Err e, en)
                | (Ok _, en) \<Rightarrow> (Ok p, en\<lparr>en_pending := bt_remove i (en_pending en)\<rparr>)))"
        using t unfolding transition_def go sum.case prod.case Some option.case p_def [symmetric] c Let_def by simp
      have idp: "job_id p = i"
        using queue_invD(2) [OF inv, of i, unfolded Some] by (metis transfer_inv_result p_def transfer_job.select_convs(1) transfer_job.surjective transfer_job.update_convs(25,31))
      have "job_revision x \<le> job_revision p" if "bt_get (db_rows (en_db en)) (job_id p) = Some x" for x
        using ahead [of x] that idp next_revision_more [of j] by (simp add: p_def next_revision_def)
      from commit_one_cases [OF c queue_invD(1) [OF inv] this] show thesis
      proof
        assume "(\<exists>e. q = Err e) \<and> en1 = en"
        then have "\<exists>e. r = Err e \<and> en' = en" using step by (auto split: sum.splits)
        then show thesis using refused by blast
      next
        assume q: "q = Ok () \<and> committed [p] en en1"
        have "(\<exists>e. r = Err e \<and> en' = en) \<or> r = Ok p \<and> en' = en1\<lparr>en_pending := bt_remove i (en_pending en1)\<rparr>"
          using step q by (auto split: sum.splits)
        then show thesis
          using refused result [OF _ a j own _ _ _ exI [of _ p0]] q c Some p_def by blast
      qed
    next
      case None
      show thesis
      proof (cases "apply_action action j")
        case na: None
        then have "r = Ok j \<and> en' = en"
          using t unfolding transition_def go sum.case prod.case None option.case na by simp
        then show thesis using unchanged [OF _ _ j na None] by blast
      next
        case (Some ch)
        note fr = apply_action_frame [OF Some]
        obtain q en1 where c: "commit_jobs (ev_faults E) [acted_job E ch] en = (q, en1)" by (metis surj_pair)
        have step: "(r, en') = (case still_owner E a of Err e \<Rightarrow> (Err e, en)
           | Ok _ \<Rightarrow> (case (q, en1) of (Err e, en) \<Rightarrow> (Err e, en)
                | (Ok _, en) \<Rightarrow> (Ok (acted_job E ch),
                     if bt_contains (en_active en) i \<and> action \<in> {PauseAction, CancelAction}
                     then en\<lparr>en_cancel_requests := insert i (en_cancel_requests en)\<rparr> else en)))"
          using t unfolding transition_def go sum.case prod.case None option.case Some c Let_def by simp
        have "job_revision x \<le> job_revision (acted_job E ch)"
          if "bt_get (db_rows (en_db en)) (job_id (acted_job E ch)) = Some x" for x
          using ahead [of x] that fr(1,3) idj acted_job_revision [of ch E] by simp
        from commit_one_cases [OF c queue_invD(1) [OF inv] this] show thesis
        proof
          assume "(\<exists>e. q = Err e) \<and> en1 = en"
          then have "\<exists>e. r = Err e \<and> en' = en" using step by (auto split: sum.splits)
          then show thesis using refused by blast
        next
          assume q: "q = Ok () \<and> committed [acted_job E ch] en en1"
          have "(\<exists>e. r = Err e \<and> en' = en) \<or> r = Ok (acted_job E ch) \<and>
              (en' = en1 \<or> en' = en1\<lparr>en_cancel_requests := insert i (en_cancel_requests en1)\<rparr>)"
            using step q by (auto split: sum.splits if_splits)
          then show thesis using refused acted [OF _ a j own None Some] q c by blast
        qed
      qed
    qed
  qed
qed

lemma transition_inv:
  assumes inv: "queue_inv en"
  shows "queue_inv (snd (transition E i action expected en))"
proof -
  obtain r en' where t: "transition E i action expected en = (r, en')" by (metis surj_pair)
  from inv t have "queue_inv en'"
  proof (cases rule: transition_cases)
    case (result a j p en1)
    then obtain p0 where p0: "bt_get (en_pending en) i = Some p0"
      "p = p0\<lparr>job_revision := saturating_add_u64 (job_revision j) 1, job_unsaved := False\<rparr>" by blast
    have "job_id p0 = i" using queue_invD(2) [OF inv, of i, unfolded p0(1)] by (metis transfer_inv_result)
    then show ?thesis
      unfolding result(7)
      by (rule_tac save_result_inv [OF inv p0(1) _ _ _ _ _ result(6)])
        (use p0(2) result(3) next_revision_more [of j] in \<open>simp_all add: next_revision_def\<close>)
  next
    case (acted a j c en1)
    note fr = apply_action_frame [OF acted(6)]
    have idj: "job_id j = i" by (rule job_has_id [OF inv acted(3)])
    have "queue_inv en1"
    proof (rule commit_one_inv [OF inv acted(8)])
      show "job_revision q \<le> job_revision (acted_job E c)"
        if "bt_get (db_rows (en_db en)) (job_id (acted_job E c)) = Some q" for q
        using row_behind [OF inv acted(3)] that fr(1,3) idj acted_job_revision [of c E] by fastforce
    qed (use fr idj acted(4,5) in \<open>auto simp: status_is_active_def\<close>)
    then show ?thesis using acted(9) queue_inv_cong [OF \<open>queue_inv en1\<close>] by auto
  qed (use inv in simp_all)
  then show ?thesis using t by simp
qed

lemma adopt_each_Ok:
  "adopt_each now owner en ids = Ok js \<Longrightarrow> u \<in> set js \<Longrightarrow>
     \<exists>i j. i \<in> set ids \<and> bt_get (en_jobs en) i = Some j \<and> adopt_legacy now owner j = Ok u"
  by (induction ids arbitrary: js) (fastforce, fastforce)

lemma adopt_legacy_frame:
  assumes "adopt_legacy now owner j = Ok u"
  shows "job_id u = job_id j" "job_owner j = None" "job_owner u = Some owner" "\<not> status_is_active (job_status u)"
    "job_revision j \<le> job_revision u" "job_origin u = job_origin j"
proof -
  show "job_revision j \<le> job_revision u"
    using assms next_revision_more [of "j\<lparr>job_owner := Some owner,
          job_status := (if \<not> is_terminal (job_status j) \<or> job_status j \<noteq> Completed then Paused else job_status j),
          job_error := None, job_category := None, job_retry_at := None, job_speed := 0\<rparr>"]
    by (auto simp: adopt_legacy_def split: if_splits)
qed (use assms in \<open>auto simp: adopt_legacy_def status_is_active_def next_revision_def split: if_splits\<close>)

text \<open>A saved batch whose jobs no run works on and no result waits for.\<close>

lemma commit_batch_inv:
  assumes inv: "queue_inv en" and m: "committed js en en'"
    and ok: "\<And>j. j \<in> set js \<Longrightarrow> bt_get (en_jobs en) (job_id j) = Some j \<or>
      bt_get (en_active en) (job_id j) = None \<and> bt_get (en_pending en) (job_id j) = None \<and>
      \<not> status_is_active (job_status j)"
  shows "queue_inv en'"
proof (rule queue_invI)
  note d = committedD [OF m]
  show "maps_ok en'" by (rule d(1))
  fix i show "transfer_inv_at en' i"
  proof (cases "i \<in> job_id ` set js")
    case True
    then obtain j where j: "j \<in> set js" "i = job_id j" by blast
    have at: "bt_get (db_rows (en_db en')) i = Some j" "bt_get (en_jobs en') i = Some j"
      "bt_get (db_tombstones (en_db en')) i = None"
      using d(2) d(3-5) [OF j(1)] j(2) by simp_all
    show ?thesis
    proof (cases "bt_get (en_jobs en) i = Some j")
      case True
      have "transfer_inv_at en i" by (rule queue_invD(2) [OF inv])
      then show ?thesis
        using transfer_inv_rewritten d(2,8,9) at True by metis
    next
      case False
      then have "bt_get (en_active en') i = None" "bt_get (en_pending en') i = None" "\<not> status_is_active (job_status j)"
        using ok [OF j(1)] j(2) d(8,9) by auto
      then show ?thesis unfolding at using j(2) by (auto intro: transfer_inv_saved)
    qed
  next
    case False
    then show ?thesis using queue_invD(2) [OF inv, of i] d(2,8,9) d(6,7) [OF False] by simp
  qed
qed

lemma adopt_cases:
  assumes inv: "queue_inv en"
  obtains (same) "snd (adopt_transfers E owner ids b en) = en"
  | (adopted) js where "committed js en (snd (adopt_transfers E owner ids b en))"
      "\<And>j. j \<in> set js \<Longrightarrow> \<exists>j0. bt_get (en_jobs en) (job_id j) = Some j0 \<and> adopt_legacy (ev_stamp E) owner j0 = Ok j"
proof -
  let ?go = "rbind (engine_account E (Some owner)) (\<lambda>a.
                rbind (adopt_each (ev_stamp E) owner en ids) (\<lambda>updates.
                rbind (still_owner E a) (\<lambda>_. Ok updates)))"
  show thesis
  proof (cases "b \<and> (\<exists>js. ?go = Ok js)")
    case True
    then obtain js where go: "?go = Ok js" and b: b by blast
    then have js: "adopt_each (ev_stamp E) owner en ids = Ok js" by auto
    have props: "\<exists>j0. bt_get (en_jobs en) (job_id j) = Some j0 \<and> adopt_legacy (ev_stamp E) owner j0 = Ok j"
      if "j \<in> set js" for j
      using adopt_each_Ok [OF js that] job_has_id [OF inv] adopt_legacy_frame(1) by metis
    have co: "coherent js"
      unfolding coherent_def using props by (metis option.inject sum.inject(2))
    obtain r en1 where c: "commit_jobs (ev_faults E) js en = (r, en1)" by (metis surj_pair)
    have old: "job_revision q \<le> job_revision j"
      if "j \<in> set js" "bt_get (db_rows (en_db en)) (job_id j) = Some q" for j q
      using props [OF that(1)] row_behind [OF inv _ that(2)] adopt_legacy_frame(5) by (metis order.trans)
    have out: "snd (adopt_transfers E owner ids b en) = en1"
      unfolding adopt_transfers_def go sum.case c using b by simp
    from commit_cases [OF c queue_invD(1) [OF inv] co old] show ?thesis
      using same adopted [of js] props out by blast
  next
    case False
    then have "snd (adopt_transfers E owner ids b en) = en"
      unfolding adopt_transfers_def by (auto split: sum.split)
    then show ?thesis by (rule same)
  qed
qed

lemma adopt_inv:
  assumes inv: "queue_inv en"
  shows "queue_inv (snd (adopt_transfers E owner ids b en))"
  using inv
proof (cases rule: adopt_cases [of en E owner ids b])
  case (adopted js)
  have "bt_get (en_active en) (job_id j) = None \<and> bt_get (en_pending en) (job_id j) = None \<and>
      \<not> status_is_active (job_status j)" if jm: "j \<in> set js" for j
  proof -
    obtain j0 where j0: "bt_get (en_jobs en) (job_id j) = Some j0" and ad: "adopt_legacy (ev_stamp E) owner j0 = Ok j"
      using adopted(2) [OF jm] by blast
    have t: "transfer_inv (job_id j) (bt_get (db_rows (en_db en)) (job_id j)) (bt_get (db_tombstones (en_db en)) (job_id j))
        (Some j0) (bt_get (en_active en) (job_id j)) (bt_get (en_pending en) (job_id j))"
      using queue_invD(2) [OF inv, of "job_id j"] j0 by simp
    show ?thesis
      using transfer_inv_job(6) [OF t] transfer_inv_no_result [OF t] adopt_legacy_frame(2,4) [OF ad] by blast
  qed
  then show ?thesis using commit_batch_inv [OF inv adopted(1)] by blast
qed (use inv in simp)

section \<open>Enqueueing\<close>

lemma initial_status_inactive: "\<not> status_is_active (initial_status q)"
  by (simp add: initial_status_def Let_def status_is_active_def)

definition batch_entry :: "int \<Rightarrow> (str, transfer_job) btree \<Rightarrow> enqueue_request \<Rightarrow> transfer_job \<Rightarrow> bool" where
  "batch_entry now jobs q j \<longleftrightarrow>
     job_id j = rq_id q \<and>
     (bt_get jobs (rq_id q) = Some j \<and> job_owner j = rq_owner q \<or>
      bt_get jobs (rq_id q) = None \<and> (\<exists>position. j = new_job now position q))"

lemma build_batch_Ok:
  assumes "build_batch now jobs position changed qs = Ok (js, created, tokens)"
    and "\<And>i j. bt_get jobs i = Some j \<Longrightarrow> job_id j = i"
  shows "\<exists>news. js = changed @ news \<and> list_all2 (batch_entry now jobs) qs news \<and>
    created = map rq_id (filter (\<lambda>q. bt_get jobs (rq_id q) = None) qs) \<and>
    (distinct (map job_id changed) \<longrightarrow> distinct (map job_id js))"
  using assms(1)
proof (induction qs arbitrary: position changed created tokens)
  case (Cons q qs)
  then have f: "rq_id q \<notin> job_id ` set changed" by (auto split: if_splits)
  show ?case
  proof (cases "bt_get jobs (rq_id q)")
    case (Some j)
    then have own: "job_owner j = rq_owner q" and b: "build_batch now jobs position (changed @ [j]) qs = Ok (js, created, tokens)"
      using Cons.prems f by (auto split: if_splits)
    have idj: "job_id j = rq_id q" using assms(2) Some by simp
    obtain news where n: "js = (changed @ [j]) @ news" "list_all2 (batch_entry now jobs) qs news"
      "created = map rq_id (filter (\<lambda>q. bt_get jobs (rq_id q) = None) qs)"
      "distinct (map job_id (changed @ [j])) \<longrightarrow> distinct (map job_id js)"
      using Cons.IH [OF b] by blast
    have "batch_entry now jobs q j" unfolding batch_entry_def using own Some idj by blast
    then show ?thesis by (rule_tac exI [of _ "j # news"]) (use n Some idj f in auto)
  next
    case None
    let ?position = "saturating_add_i64 position 1"
    let ?j = "new_job now ?position q"
    obtain created' tokens' where b: "build_batch now jobs ?position (changed @ [?j]) qs = Ok (js, created', tokens')"
      and cr: "created = rq_id q # created'"
      using Cons.prems f None by (auto simp: Let_def)
    have idj: "job_id ?j = rq_id q" by (simp add: new_job_def)
    obtain news where n: "js = (changed @ [?j]) @ news" "list_all2 (batch_entry now jobs) qs news"
      "created' = map rq_id (filter (\<lambda>q. bt_get jobs (rq_id q) = None) qs)"
      "distinct (map job_id (changed @ [?j])) \<longrightarrow> distinct (map job_id js)"
      using Cons.IH [OF b] by blast
    have "batch_entry now jobs q ?j" unfolding batch_entry_def using None idj by blast
    then show ?thesis by (rule_tac exI [of _ "?j # news"]) (use n cr None idj f in auto)
  qed
qed auto

text \<open>A reservation changes the destination of a new download and nothing else.\<close>

definition same_but_destination :: "str set \<Rightarrow> transfer_job \<Rightarrow> transfer_job \<Rightarrow> bool" where
  "same_but_destination created j j' \<longleftrightarrow>
     j' = j \<or> job_id j \<in> created \<and> (\<exists>n p. j' = j\<lparr>job_filename := n, job_save_path := p\<rparr>)"

lemma reserve_job_Ok:
  assumes "reserve_job lower V job reserved = Ok (job', reserved')"
  obtains t p where "job_save_path job = Some t"
    "reserve_destination lower V (path_components t) (job_collision job) reserved = Ok (p, reserved')"
    "job' = job\<lparr>job_filename := (if job_origin job = None then the (place_name p) else job_filename job),
                job_save_path := Some (render_place p)\<rparr>"
    "job_origin job = None \<Longrightarrow> place_name p \<noteq> None"
proof -
  obtain t where t: "job_save_path job = Some t" using assms unfolding reserve_job_def by auto
  then obtain p q where r: "reserve_destination lower V (path_components t) (job_collision job) reserved = Ok (p, q)"
    using assms unfolding reserve_job_def by auto
  show thesis
  proof (cases "job_origin job")
    case None
    then obtain n where "place_name p = Some n" using assms t r unfolding reserve_job_def by auto
    then show thesis using that [OF t] assms t r None unfolding reserve_job_def by auto
  next
    case (Some x)
    have "(job', reserved') = (job\<lparr>job_save_path := Some (render_place p)\<rparr>, q)"
      using assms t r Some unfolding reserve_job_def by auto
    then show thesis using that [OF t, of p] r Some by simp
  qed
qed

lemma reserve_batch_frame:
  "reserve_batch lower V created js reserved = Ok js' \<Longrightarrow> list_all2 (same_but_destination created) js js'"
proof (induction js arbitrary: reserved js')
  case (Cons j js)
  show ?case
  proof (cases "skips_reservation created j")
    case True
    then show ?thesis using Cons by (auto simp: same_but_destination_def)
  next
    case False
    then obtain j' reserved' rest where j': "reserve_job lower V j reserved = Ok (j', reserved')"
      and rest: "reserve_batch lower V created js reserved' = Ok rest" and js': "js' = j' # rest"
      using Cons.prems by auto
    have "same_but_destination created j j'"
      using reserve_job_Ok [OF j'] False unfolding same_but_destination_def skips_reservation_def by blast
    then show ?thesis using Cons.IH [OF rest] js' by simp
  qed
qed simp

lemma same_but_destination_frame:
  assumes "same_but_destination created j j'"
  shows "job_id j' = job_id j" "job_owner j' = job_owner j" "job_status j' = job_status j"
    "job_revision j' = job_revision j" "job_origin j' = job_origin j" "job_unsaved j' = job_unsaved j"
    "job_direction j' = job_direction j"
  using assms by (auto simp: same_but_destination_def)

lemma list_all2_rel: "list_all2 P xs ys \<Longrightarrow> y \<in> set ys \<Longrightarrow> \<exists>x\<in>set xs. P x y"
  by (metis in_set_conv_nth list_all2_conv_all_nth)

lemma list_all2_map_eq: "list_all2 P xs ys \<Longrightarrow> (\<And>x y. P x y \<Longrightarrow> f y = g x) \<Longrightarrow> map f ys = map g xs"
  by (induction rule: list_all2_induct) simp_all

text \<open>The jobs of an accepted batch: jobs the queue has, as they are, and new ones.\<close>

definition new_entry :: "engine \<Rightarrow> enqueue_request list \<Rightarrow> transfer_job \<Rightarrow> bool" where
  "new_entry en qs j \<longleftrightarrow> bt_get (en_jobs en) (job_id j) = None \<and>
     (\<exists>q\<in>set qs. job_id j = rq_id q \<and> job_owner j = rq_owner q \<and> job_status j = initial_status q \<and>
        job_origin j = rq_origin q)"

definition batch_of :: "engine \<Rightarrow> enqueue_request list \<Rightarrow> transfer_job list \<Rightarrow> bool" where
  "batch_of en qs js \<longleftrightarrow> distinct (map job_id js) \<and>
     (\<forall>j\<in>set js. bt_get (en_jobs en) (job_id j) = Some j \<or> new_entry en qs j)"

lemma enqueue_batch:
  assumes inv: "queue_inv en"
    and b: "build_batch now (en_jobs en) position [] qs = Ok (js, created, tokens)"
    and r: "reserve_new_downloads lower V js (set created) paths = Ok js'"
  shows "batch_of en qs js'"
proof -
  obtain d: "list_all2 (batch_entry now (en_jobs en)) qs js"
    and c: "created = map rq_id (filter (\<lambda>q. bt_get (en_jobs en) (rq_id q) = None) qs)"
    and dist: "distinct (map job_id js)"
    using build_batch_Ok [OF b] job_has_id [OF inv] by auto
  have l: "list_all2 (same_but_destination (set created)) js js'"
    using r reserve_batch_frame by (simp add: reserve_new_downloads_def)
  have ids: "map job_id js' = map job_id js"
    by (rule list_all2_map_eq [OF l]) (simp add: same_but_destination_frame)
  have "bt_get (en_jobs en) (job_id j') = Some j' \<or> new_entry en qs j'" if j': "j' \<in> set js'" for j'
  proof -
    obtain j where j: "j \<in> set js" and s: "same_but_destination (set created) j j'"
      using list_all2_rel [OF l j'] by blast
    obtain q where q: "q \<in> set qs" and e: "batch_entry now (en_jobs en) q j"
      using list_all2_rel [OF d j] by blast
    note fr = same_but_destination_frame [OF s]
    show ?thesis
    proof (cases "bt_get (en_jobs en) (rq_id q)")
      case (Some x)
      then have "x = j" "job_id j = rq_id q" using e by (auto simp: batch_entry_def)
      moreover have "job_id j \<notin> set created" using Some e c by (auto simp: batch_entry_def)
      ultimately show ?thesis using s Some by (auto simp: same_but_destination_def)
    next
      case None
      then obtain pos where "j = new_job now pos q" "job_id j = rq_id q" using e by (auto simp: batch_entry_def)
      then have "new_entry en qs j'" unfolding new_entry_def using None q fr by (auto simp: new_job_def)
      then show ?thesis ..
    qed
  qed
  then show ?thesis unfolding batch_of_def ids using dist by simp
qed

lemma enqueue_cases:
  assumes inv: "queue_inv en" and p: "possible (Enqueue lower V E qs) en"
    and e: "enqueue_many lower V E qs en = (r, en')"
  shows "(\<exists>x. r = Err x) \<and> en' = en \<or>
    (\<exists>a js en1 tokens. r = Ok js \<and> engine_account E None = Ok a \<and> batch_of en qs js \<and> committed js en en1 \<and>
       check_requests a qs = Ok () \<and>
       en' = en1\<lparr>en_tokens := fold (\<lambda>(i, t). bt_insert i t) tokens (en_tokens en1)\<rparr>)"
proof -
  let ?go = "rbind (engine_account E None) (\<lambda>a.
           rbind (check_requests a qs) (\<lambda>_.
           rbind (build_batch (ev_now E) (en_jobs en) (last_position en) [] qs) (\<lambda>(changed, created, tokens).
           rbind (reserve_new_downloads lower V changed (set created) (reserved_paths en)) (\<lambda>changed.
           rbind (still_owner E a) (\<lambda>_. Ok (changed, tokens))))))"
  show ?thesis
  proof (cases ?go)
    case (Inl x)
    then have "r = Err x \<and> en' = en" using e unfolding enqueue_many_def by simp
    then show ?thesis by blast
  next
    case (Inr jt)
    then obtain a js0 created js tokens where a: "engine_account E None = Ok a" "check_requests a qs = Ok ()"
      and b: "build_batch (ev_now E) (en_jobs en) (last_position en) [] qs = Ok (js0, created, tokens)"
      and rs: "reserve_new_downloads lower V js0 (set created) (reserved_paths en) = Ok js"
      and jt: "jt = (js, tokens)" by auto
    have bo: "batch_of en qs js" by (rule enqueue_batch [OF inv b rs])
    obtain q en1 where c: "commit_jobs (ev_faults E) js en = (q, en1)" by (metis surj_pair)
    have step: "(r, en') = (case q of Err x \<Rightarrow> (Err x, en1)
        | Ok _ \<Rightarrow> (Ok js, en1\<lparr>en_tokens := fold (\<lambda>(i, t). bt_insert i t) tokens (en_tokens en1)\<rparr>))"
      using e unfolding enqueue_many_def Inr jt sum.case prod.case c by simp
    have old: "job_revision x \<le> job_revision j"
      if j: "j \<in> set js" and x: "bt_get (db_rows (en_db en)) (job_id j) = Some x" for j x
    proof (cases "bt_get (en_jobs en) (job_id j) = Some j")
      case True
      then show ?thesis by (rule row_behind [OF inv _ x])
    next
      case False
      then have "new_entry en qs j" using bo j by (auto simp: batch_of_def)
      then have "bt_get (db_rows (en_db en)) (job_id j) = None" using p by (auto simp: new_entry_def)
      then show ?thesis using x by simp
    qed
    have "coherent js" using bo by (simp add: batch_of_def coherent_distinct)
    from commit_cases [OF c queue_invD(1) [OF inv] this old] show ?thesis
      using step a bo by (auto split: sum.splits)
  qed
qed

lemma enqueue_inv:
  assumes inv: "queue_inv en" and p: "possible (Enqueue lower V E qs) en"
  shows "queue_inv (snd (enqueue_many lower V E qs en))"
proof -
  obtain r en' where e: "enqueue_many lower V E qs en = (r, en')" by (metis surj_pair)
  from enqueue_cases [OF inv p e] show ?thesis
  proof
    assume "\<exists>a js en1 tokens. r = Ok js \<and> engine_account E None = Ok a \<and> batch_of en qs js \<and> committed js en en1 \<and>
       check_requests a qs = Ok () \<and>
       en' = en1\<lparr>en_tokens := fold (\<lambda>(i, t). bt_insert i t) tokens (en_tokens en1)\<rparr>"
    then obtain js en1 tokens where bo: "batch_of en qs js" and m: "committed js en en1"
      and out: "en' = en1\<lparr>en_tokens := fold (\<lambda>(i, t). bt_insert i t) tokens (en_tokens en1)\<rparr>" by blast
    have "queue_inv en1"
    proof (rule commit_batch_inv [OF inv m])
      fix j assume j: "j \<in> set js"
      show "bt_get (en_jobs en) (job_id j) = Some j \<or>
        bt_get (en_active en) (job_id j) = None \<and> bt_get (en_pending en) (job_id j) = None \<and>
        \<not> status_is_active (job_status j)"
      proof (cases "new_entry en qs j")
        case True
        then have n: "bt_get (en_jobs en) (job_id j) = None" "bt_get (db_rows (en_db en)) (job_id j) = None"
          "\<not> status_is_active (job_status j)"
          using p initial_status_inactive by (auto simp: new_entry_def)
        have t: "transfer_inv (job_id j) None None None (bt_get (en_active en) (job_id j)) (bt_get (en_pending en) (job_id j))"
          using queue_invD(2) [OF inv, of "job_id j"] n committedD(3) [OF m j] by simp
        show ?thesis using transfer_inv_run [OF t] transfer_inv_no_job [OF t] n(3) by blast
      next
        case False
        then show ?thesis using bo j by (auto simp: batch_of_def)
      qed
    qed
    then have "queue_inv en'" unfolding out by (rule queue_inv_cong) simp_all
    then show ?thesis using e by simp
  qed (use inv e in simp)
qed

section \<open>Restart\<close>

lemma drop_orphans_Ok:
  "drop_orphans F k ids db = (r, db') \<Longrightarrow>
     db_tombstones db' = db_tombstones db \<and> (bt_ok (db_rows db) \<longrightarrow> bt_ok (db_rows db')) \<and>
     (\<forall>i j. bt_get (db_rows db') i = Some j \<longrightarrow> bt_get (db_rows db) i = Some j) \<and>
     (\<forall>u. r = Ok u \<longrightarrow> (\<forall>i. bt_get (db_rows db') i = (if i \<in> set ids then None else bt_get (db_rows db) i)))"
proof (induction ids arbitrary: k db)
  case (Cons i ids)
  show ?case
  proof (cases "fails F k")
    case (Inl e)
    then show ?thesis using Cons.prems by auto
  next
    case (Inr u)
    let ?db = "db\<lparr>db_rows := bt_remove i (db_rows db)\<rparr>"
    have "drop_orphans F (k + 1) ids ?db = (r, db')" using Cons.prems Inr by simp
    from Cons.IH [OF this] show ?thesis
      by (auto split: if_splits) (metis option.distinct(1))+
  qed
qed auto

text \<open>What a start makes of a job.\<close>

definition repaired :: "int \<Rightarrow> transfer_job \<Rightarrow> transfer_job" where
  "repaired now j = (case recover_after_restart now j of None \<Rightarrow> j | Some j' \<Rightarrow> j')"

lemma repaired_frame:
  "job_id (repaired now j) = job_id j" "job_owner (repaired now j) = job_owner j"
  "job_origin (repaired now j) = job_origin j" "\<not> status_is_active (job_status (repaired now j))"
  "job_revision j \<le> job_revision (repaired now j)"
proof -
  show "job_revision j \<le> job_revision (repaired now j)"
    using next_revision_more [of "j\<lparr>job_status := Paused, job_error := Some INTERRUPTED_MESSAGE,
             job_category := Some (if job_owner j = None then AccountError else InterruptedError),
             job_retry_at := None, job_speed := 0, job_unsaved := False\<rparr>"]
    by (simp add: repaired_def recover_after_restart_def)
qed (auto simp: repaired_def recover_after_restart_def status_is_active_def)

lemma recover_all_Ok:
  assumes "recover_all F k now js db = (r, db')" "distinct (map job_id js)"
    and "\<And>j. j \<in> set js \<Longrightarrow> bt_get (db_rows db) (job_id j) = Some j"
  shows "db_tombstones db' = db_tombstones db \<and> (db_ok db \<longrightarrow> db_ok db') \<and>
    (\<forall>out. r = Ok out \<longrightarrow> out = map (repaired now) js \<and>
       (\<forall>i. bt_get (db_rows db') i =
          (if i \<in> job_id ` set js then map_option (repaired now) (bt_get (db_rows db) i) else bt_get (db_rows db) i)))"
  using assms
proof (induction js arbitrary: k db r)
  case (Cons j js)
  have nj: "job_id j \<notin> job_id ` set js" and dj: "distinct (map job_id js)" using Cons.prems(2) by auto
  have rowj: "bt_get (db_rows db) (job_id j) = Some j" using Cons.prems(3) by simp
  show ?case
  proof (cases "recover_after_restart now j")
    case None
    then have rep: "repaired now j = j" by (simp add: repaired_def)
    obtain q where q: "recover_all F k now js db = (q, db')" "r = map_sum id ((#) j) q"
      using Cons.prems(1) None by (auto simp: apfst_def map_prod_def split: prod.splits)
    show ?thesis
      using Cons.IH [OF q(1) dj] Cons.prems(3) q(2) rep nj rowj by (cases q) (auto split: if_splits)
  next
    case (Some j')
    then have rep: "repaired now j = j'" by (simp add: repaired_def)
    then have idj: "job_id j' = job_id j" and rev: "job_revision j \<le> job_revision j'"
      using repaired_frame(1,5) [where now = now and j = j] by auto
    show ?thesis
    proof (cases "upsert_on F k j' db")
      case (Inl e)
      then show ?thesis using Cons.prems(1) Some by auto
    next
      case (Inr db1)
      have db1: "db1 = put_row j' db" "bt_get (db_tombstones db) (job_id j') = None"
        using upsert_on_Ok [OF Inr] by blast+
      have row1: "bt_get (db_rows db1) i = (if i = job_id j then Some j' else bt_get (db_rows db) i)" for i
        using rowj rev idj unfolding db1(1) put_row_get by auto
      obtain q where q: "recover_all F (k + 2) now js db1 = (q, db')" "r = map_sum id ((#) j') q"
        using Cons.prems(1) Some Inr by (auto simp: apfst_def map_prod_def split: prod.splits)
      have "bt_get (db_rows db1) (job_id x) = Some x" if "x \<in> set js" for x
        using Cons.prems(3) that nj row1 by (auto simp: image_iff)
      note ih = Cons.IH [OF q(1) dj this]
      have "db_ok db \<longrightarrow> db_ok db1" using put_row_ok db1 by blast
      then show ?thesis
        using ih q(2) rep nj rowj row1 db1(1) by (cases q) (auto split: if_splits)
    qed
  qed
qed auto

lemma bt_ok_map_snd: "bt_ok (map (\<lambda>(i, t). (i, f t)) m) \<longleftrightarrow> bt_ok m"
  by (simp add: bt_ok_def comp_def split_beta)

lemma bt_get_map_snd: "bt_get (map (\<lambda>(i, t). (i, f t)) m) k = map_option f (bt_get m k)"
  by (induction m) auto

lemma date_tombstones_get:
  "bt_get (db_tombstones (date_tombstones now db)) i =
     map_option (\<lambda>t. case t of None \<Rightarrow> Some now | Some at \<Rightarrow> Some at) (bt_get (db_tombstones db) i)"
  unfolding date_tombstones_def by (simp add: bt_get_map_snd)

lemma date_tombstones_ok: "bt_ok (db_tombstones db) \<Longrightarrow> bt_ok (db_tombstones (date_tombstones now db))"
  unfolding date_tombstones_def by (simp add: bt_ok_map_snd)

lemma expire_tombstones_get:
  "bt_ok (db_tombstones db) \<Longrightarrow> bt_get (db_tombstones (expire_tombstones now db)) i =
     (case bt_get (db_tombstones db) i of
        Some (Some at) \<Rightarrow> if saturating_sub_i64 now TOMBSTONE_RETENTION_SECS \<le> at then Some (Some at) else None
      | t \<Rightarrow> t)"
  by (auto simp: expire_tombstones_def bt_get_retain split: option.splits)

text \<open>A removed id stays removed for the time of retention, at least while its date is not too old.\<close>

lemma maintain_tombstones_ok:
  assumes "maintain_tombstones F now db = (r, db')" "db_ok db"
  shows "db_ok db'" "db_rows db' = db_rows db"
    and "bt_get (db_tombstones db') i \<noteq> None \<Longrightarrow> bt_get (db_tombstones db) i \<noteq> None"
    and "bt_get (db_tombstones db) i = Some (Some at) \<Longrightarrow> saturating_sub_i64 now TOMBSTONE_RETENTION_SECS \<le> at \<Longrightarrow>
      bt_get (db_tombstones db') i = Some (Some at)"
proof -
  have ok: "bt_ok (db_tombstones (date_tombstones now db))"
    using assms(2) by (simp add: db_ok_def date_tombstones_ok)
  note e = expire_tombstones_get [OF ok, of now]
  have cases: "db' = db \<or> db' = date_tombstones now db \<or> db' = expire_tombstones now (date_tombstones now db)"
    using assms(1) by (auto simp: maintain_tombstones_def split: sum.splits)
  have rows: "db_rows (date_tombstones now db) = db_rows db"
    "db_rows (expire_tombstones now (date_tombstones now db)) = db_rows db"
    by (simp_all add: date_tombstones_def expire_tombstones_def)
  show r: "db_rows db' = db_rows db" using cases rows by auto
  show t: "bt_get (db_tombstones db) i \<noteq> None" if "bt_get (db_tombstones db') i \<noteq> None" for i
    using cases that e [of i] date_tombstones_get [of now db i] by (auto split: option.splits if_splits)
  show "db_ok db'"
    unfolding db_ok_def r
  proof (intro conjI allI impI)
    show "bt_ok (db_tombstones db')"
      using cases ok assms(2) by (auto simp: db_ok_def expire_tombstones_def)
  next
    fix i j assume "bt_get (db_rows db) i = Some j"
    then have k: "job_id j = i" "bt_get (db_tombstones db) i = None" using assms(2) by (auto simp: db_ok_def)
    show "job_id j = i" by (rule k)
    show "bt_get (db_tombstones db') i = None" using k(2) t [of i] by blast
  qed (use assms(2) in \<open>simp add: db_ok_def\<close>)
  show "bt_get (db_tombstones db') i = Some (Some at)"
    if "bt_get (db_tombstones db) i = Some (Some at)" "saturating_sub_i64 now TOMBSTONE_RETENTION_SECS \<le> at"
    using cases that e [of i] date_tombstones_get [of now db i] by auto
qed

lemma db_values_distinct: "db_ok db \<Longrightarrow> distinct (map job_id (bt_values (db_rows db)))"
proof -
  assume ok: "db_ok db"
  then have "map job_id (bt_values (db_rows db)) = bt_keys (db_rows db)"
    using bt_in_set_get by (fastforce simp: db_ok_def bt_values_def bt_keys_def)
  then show ?thesis using ok bt_ok_distinct [of "db_rows db"] by (simp add: db_ok_def)
qed

lemma load_all_props:
  assumes "db_ok db" "walks walk"
  shows "distinct (map job_id (load_all_from walk db))"
    and "j \<in> set (load_all_from walk db) \<longleftrightarrow> bt_get (db_rows db) (job_id j) = Some j"
proof -
  have "distinct (map job_id (walk (bt_values (db_rows db))))"
    using walks_distinct [OF assms(2)] db_values_distinct [OF assms(1)] by blast
  then show "distinct (map job_id (load_all_from walk db))" by (simp add: load_all_from_def distinct_map)
  have "j \<in> set (bt_values (db_rows db)) \<longleftrightarrow> bt_get (db_rows db) (job_id j) = Some j"
    using bt_values_get [of "db_rows db" j] bt_get_values assms(1) by (metis db_ok_def)
  then show "j \<in> set (load_all_from walk db) \<longleftrightarrow> bt_get (db_rows db) (job_id j) = Some j"
    by (simp add: load_all_from_def walks_set [OF assms(2)])
qed

text \<open>What a start loads: supervised transfers are gone, the others repaired, rows and memory agree.\<close>

definition loaded_job :: "int \<Rightarrow> transfer_job option \<Rightarrow> transfer_job option" where
  "loaded_job now row = (case row of None \<Rightarrow> None
     | Some j \<Rightarrow> if job_origin j \<noteq> None then None else Some (repaired now j))"

lemma open_store_cases:
  assumes op: "open_store F F' F'' walk now secs db = (r, db')" and ok: "db_ok db" and w: "walks walk"
  shows "db_ok db' \<and>
    (\<forall>i. bt_get (db_tombstones db') i \<noteq> None \<longrightarrow> bt_get (db_tombstones db) i \<noteq> None) \<and>
    (\<forall>i at. bt_get (db_tombstones db) i = Some (Some at) \<longrightarrow>
       saturating_sub_i64 secs TOMBSTONE_RETENTION_SECS \<le> at \<longrightarrow> bt_get (db_tombstones db') i = Some (Some at)) \<and>
    (\<forall>out. r = Ok out \<longrightarrow> distinct (map job_id out) \<and>
       (\<forall>i. bt_get (db_rows db') i = loaded_job now (bt_get (db_rows db) i)) \<and>
       (\<forall>j. j \<in> set out \<longleftrightarrow> bt_get (db_rows db') (job_id j) = Some j))"
proof -
  obtain r1 db1 where m: "maintain_tombstones F secs db = (r1, db1)" by (metis surj_pair)
  note mt = maintain_tombstones_ok [OF m ok]
  define jobs where "jobs = load_all_from walk db1"
  define orphans where "orphans = map job_id (filter (\<lambda>j. job_origin j \<noteq> None) jobs)"
  obtain r2 db2 where dr: "drop_orphans F' 0 orphans db1 = (r2, db2)" by (metis surj_pair)
  note d = drop_orphans_Ok [OF dr]
  define kept where "kept = filter (\<lambda>j. job_origin j = None) jobs"
  obtain r3 db3 where rc: "recover_all F'' 0 now kept db2 = (r3, db3)" by (metis surj_pair)
  have ld: "distinct (map job_id jobs)" "\<And>j. j \<in> set jobs \<longleftrightarrow> bt_get (db_rows db1) (job_id j) = Some j"
    using load_all_props [OF mt(1) w] unfolding jobs_def by blast+
  have ok2: "db_ok db2" using d mt(1) unfolding db_ok_def by (metis (no_types, lifting))
  have kd: "distinct (map job_id kept)" using ld(1) by (simp add: kept_def distinct_map_filter)
  have orph: "job_id j \<in> set orphans \<longleftrightarrow> job_origin j \<noteq> None" if "j \<in> set jobs" for j
    using that ld(1) unfolding orphans_def by (auto simp: distinct_map inj_on_def)
  have "open_store F F' F'' walk now secs db = (case F 0 of Some e \<Rightarrow> (Err e, db) | None \<Rightarrow>
      (case r1 of Err e \<Rightarrow> (Err e, db1) | Ok _ \<Rightarrow> (case F 3 of Some e \<Rightarrow> (Err e, db1) | None \<Rightarrow>
      (case r2 of Err e \<Rightarrow> (Err e, db2) | Ok _ \<Rightarrow> (r3, db3)))))"
    unfolding open_store_def m fails_def Let_def prod.case jobs_def [symmetric] orphans_def [symmetric] kept_def [symmetric] dr rc
    by (simp split: option.split sum.split)
  then consider "(\<exists>e. r = Err e) \<and> (db' = db \<or> db' = db1 \<or> db' = db2)" | "\<exists>u. r2 = Ok u" "r = r3" "db' = db3"
    using op by (auto split: option.splits sum.splits)
  then show ?thesis
  proof cases
    case 1
    then have r: "\<And>out. r \<noteq> Ok out" by auto
    from 1 have "db' = db \<or> db' = db1 \<or> db' = db2" by blast
    then show ?thesis using r ok ok2 mt(1,3,4) d by auto
  next
    case 2
    have rows2: "bt_get (db_rows db2) i = (if i \<in> set orphans then None else bt_get (db_rows db1) i)" for i
      using d 2(1) by blast
    have k2: "bt_get (db_rows db2) (job_id j) = Some j" if "j \<in> set kept" for j
      using that orph ld(2) rows2 unfolding kept_def by auto
    note rec = recover_all_Ok [OF rc kd k2]
    have tomb: "db_tombstones db' = db_tombstones db1" using rec d 2(3) by auto
    have "distinct (map job_id out) \<and> (\<forall>i. bt_get (db_rows db') i = loaded_job now (bt_get (db_rows db) i)) \<and>
       (\<forall>j. j \<in> set out \<longleftrightarrow> bt_get (db_rows db') (job_id j) = Some j)" if out: "r = Ok out" for out
    proof -
      have o: "out = map (repaired now) kept"
        and rows3: "bt_get (db_rows db') i = (if i \<in> job_id ` set kept
            then map_option (repaired now) (bt_get (db_rows db2) i) else bt_get (db_rows db2) i)" for i
        using rec out 2(2,3) by auto
      have rows: "bt_get (db_rows db') i = loaded_job now (bt_get (db_rows db) i)" for i
      proof (cases "bt_get (db_rows db) i")
        case None
        then show ?thesis using rows3 [of i] rows2 [of i] mt(2) by (simp add: loaded_job_def)
      next
        case (Some j)
        then have j: "job_id j = i" "j \<in> set jobs" using ok ld(2) mt(2) by (auto simp: db_ok_def)
        show ?thesis
        proof (cases "job_origin j = None")
          case True
          then have "j \<in> set kept" using j by (simp add: kept_def)
          moreover have "i \<notin> set orphans" using orph j True by auto
          ultimately show ?thesis using rows3 [of i] rows2 [of i] Some True mt(2) j(1) by (force simp: loaded_job_def)
        next
          case False
          then have "i \<in> set orphans" using orph j by auto
          then show ?thesis using rows3 [of i] rows2 [of i] Some False by (simp add: loaded_job_def)
        qed
      qed
      have "j \<in> set out \<longleftrightarrow> bt_get (db_rows db') (job_id j) = Some j" for j
      proof
        assume "j \<in> set out"
        then obtain k where k: "k \<in> set kept" "j = repaired now k" using o by auto
        then show "bt_get (db_rows db') (job_id j) = Some j"
          using rows3 [of "job_id k"] k2 [OF k(1)] repaired_frame(1) [of now k] by simp
      next
        assume row: "bt_get (db_rows db') (job_id j) = Some j"
        then obtain k where k: "bt_get (db_rows db) (job_id j) = Some k" "job_origin k = None" "j = repaired now k"
          using rows [of "job_id j"] by (auto simp: loaded_job_def split: option.splits if_splits)
        then have "k \<in> set kept" using ok ld(2) mt(2) by (auto simp: db_ok_def kept_def)
        then show "j \<in> set out" using o k(3) by simp
      qed
      moreover have "distinct (map job_id out)" unfolding o using kd by (simp add: comp_def repaired_frame)
      ultimately show ?thesis using rows by blast
    qed
    moreover have "db_ok db'" using rec ok2 2(3) by blast
    ultimately show ?thesis using mt(3,4) unfolding tomb by blast
  qed
qed

lemma initialize_get:
  assumes "distinct (map job_id out)"
    and "\<And>j. j \<in> set out \<longleftrightarrow> bt_get (db_rows db) (job_id j) = Some j" and "db_ok db"
  shows "bt_get (en_jobs (initialize_engine db out)) i = bt_get (db_rows db) i"
proof (cases "i \<in> job_id ` set out")
  case True
  then obtain j where "j \<in> set out" "i = job_id j" by blast
  then show ?thesis
    using fold_insert_jobs_get [OF coherent_distinct [OF assms(1)], of j "\<lambda>j. j" "[]"] assms(2) [of j]
    by (simp add: initialize_engine_def)
next
  case False
  have "bt_get (db_rows db) i = None"
  proof (cases "bt_get (db_rows db) i")
    case (Some j)
    then have "job_id j = i" using assms(3) by (auto simp: db_ok_def)
    then have "j \<in> set out" using Some assms(2) [of j] by blast
    then show ?thesis using False \<open>job_id j = i\<close> by blast
  qed
  then show ?thesis using fold_insert_jobs_other [OF False, of "\<lambda>j. j"] by (simp add: initialize_engine_def)
qed

lemma initialize_inv:
  assumes ok: "db_ok db" and at: "\<And>i. bt_get (en_jobs (initialize_engine db out)) i \<in> {None, bt_get (db_rows db) i}"
    and idle: "\<And>j. j \<in> set out \<Longrightarrow> \<not> status_is_active (job_status j)"
    and mem: "\<And>i j. bt_get (en_jobs (initialize_engine db out)) i = Some j \<Longrightarrow> j \<in> set out"
  shows "queue_inv (initialize_engine db out)"
proof (rule queue_invI)
  let ?en = "initialize_engine db out"
  have e: "en_db ?en = db" "en_active ?en = []" "en_pending ?en = []"
    by (simp_all add: initialize_engine_def)
  show "maps_ok ?en"
    using ok fold_insert_jobs_ok [of "[]" "\<lambda>j. j" out] unfolding maps_ok_def e
    by (simp add: initialize_engine_def db_ok_def)
  fix i show "transfer_inv_at ?en i"
  proof (cases "bt_get (en_jobs ?en) i")
    case None
    have "pred_option (row_inv i (bt_get (db_tombstones db) i)) (bt_get (db_rows db) i)"
      using ok by (cases "bt_get (db_rows db) i") (auto simp: db_ok_def row_inv_def)
    then show ?thesis unfolding e None by (auto intro: transfer_inv_gone)
  next
    case (Some j)
    have row: "bt_get (db_rows db) i = Some j" using at [of i] Some by simp
    then have "job_id j = i" "bt_get (db_tombstones db) i = None" using ok by (auto simp: db_ok_def)
    then show ?thesis unfolding e Some row using idle [OF mem [OF Some]] by (auto intro: transfer_inv_saved)
  qed
qed

lemma restart_inv:
  assumes ok: "db_ok db" and w: "walks walk"
  shows "queue_inv (restart_engine F F' F'' walk now secs db)"
proof -
  obtain r db' where op: "open_store F F' F'' walk now secs db = (r, db')" by (metis surj_pair)
  note c = open_store_cases [OF op ok w]
  show ?thesis
  proof (cases r)
    case (Inl e)
    have "queue_inv (initialize_engine db' [])"
      by (rule initialize_inv) (use c in \<open>simp_all add: initialize_engine_def\<close>)
    then show ?thesis using op Inl by (simp add: restart_engine_def)
  next
    case (Inr out)
    have dis: "distinct (map job_id out)" and rows: "\<And>i. bt_get (db_rows db') i = loaded_job now (bt_get (db_rows db) i)"
      and mem: "\<And>j. j \<in> set out \<longleftrightarrow> bt_get (db_rows db') (job_id j) = Some j" and ok': "db_ok db'"
      using c Inr by blast+
    note g = initialize_get [OF dis mem ok']
    have "queue_inv (initialize_engine db' out)"
    proof (rule initialize_inv [OF ok'])
      show "\<not> status_is_active (job_status j)" if "j \<in> set out" for j
        using that mem [of j] rows [of "job_id j"] repaired_frame(4)
        by (auto simp: loaded_job_def split: option.splits if_splits)
      show "j \<in> set out" if "bt_get (en_jobs (initialize_engine db' out)) i = Some j" for i j
        using that g mem ok' by (auto simp: db_ok_def)
    qed (use g in simp)
    then show ?thesis using op Inr by (simp add: restart_engine_def)
  qed
qed

lemma queue_inv_db: "queue_inv en \<Longrightarrow> db_ok (en_db en)"
proof -
  assume inv: "queue_inv en"
  have "job_id j = i \<and> bt_get (db_tombstones (en_db en)) i = None" if "bt_get (db_rows (en_db en)) i = Some j" for i j
    using queue_invD(2) [OF inv, of i, unfolded that] by (rule transfer_inv_row)
  then show ?thesis using queue_invD(1) [OF inv] by (simp add: db_ok_def maps_ok_def)
qed

section \<open>Every run\<close>

lemma event_inv:
  assumes "queue_inv en" "possible e en"
  shows "queue_inv (apply_event e en)"
proof (cases e)
  case (BeginRun i)
  then show ?thesis using queue_inv_cong [OF assms(1)] by (simp add: begin_run_def)
next
  case (SetLimits u d)
  then show ?thesis using queue_inv_cong [OF assms(1)] by (simp add: set_limits_def)
next
  case (SupplyToken E i t)
  then show ?thesis using queue_inv_cong [OF assms(1)] assms(1)
    by (simp add: supply_prompt_token_def split: sum.split)
next
  case (WithdrawSettled i)
  then show ?thesis using queue_inv_cong [OF assms(1)] by (simp add: withdraw_settled_def)
next
  case BeginShutdown
  then show ?thesis using queue_inv_cong [OF assms(1)] by simp
next
  case (Enqueue lower V E qs)
  then show ?thesis using enqueue_inv [OF assms(1)] assms(2) by simp
next
  case (Act E i action expected)
  then show ?thesis using transition_inv [OF assms(1)] by simp
next
  case (ScheduleRound E)
  then show ?thesis using schedule_inv [OF assms(1)] assms(2) by simp
next
  case (Progress E i phase p t n s)
  then show ?thesis using progress_inv [OF assms(1)] assms(2) by simp
next
  case (FinishRun lower pp E i result)
  then show ?thesis using finish_run_inv [OF assms(1)] assms(2) by simp
next
  case (Clear E d b expected)
  then show ?thesis using clear_inv [OF assms(1)] assms(2) by simp
next
  case (Withdraw E i)
  then show ?thesis using withdraw_inv [OF assms(1)] by simp
next
  case (Adopt E owner ids b)
  then show ?thesis using adopt_inv [OF assms(1)] by simp
next
  case (Discard E owner ids)
  then show ?thesis using discard_inv [OF assms(1)] by simp
next
  case (Restart F F' F'' walk now secs)
  then show ?thesis using restart_inv [OF queue_inv_db [OF assms(1)]] assms(2) by simp
qed

lemma reaches_inv: "queue_reaches en es en' \<Longrightarrow> queue_inv en \<Longrightarrow> queue_inv en'"
  by (induction rule: queue_reaches.induct) (simp_all add: event_inv)

lemma run_inv: "queue_run db es en \<Longrightarrow> queue_inv en"
  unfolding queue_run_def using restart_inv reaches_inv by blast

end
