(* ===== verification/Transfer_Frames.thy ===== *)
theory Transfer_Frames
  imports Transfer_Invariant
begin

text \<open>
  What each event of the transfer queue leaves alone: the runs under way and the limits, the
  tombstones, and the transfers an event does not name.
\<close>

section \<open>Runs and limits\<close>

definition runs_of :: "engine \<Rightarrow> (str, direction) btree \<times> nat \<times> nat" where
  "runs_of en = (en_active en, en_max_uploads en, en_max_downloads en)"

lemma commit_jobs_frame: "\<exists>db jobs. snd (commit_jobs F js en) = en\<lparr>en_db := db, en_jobs := jobs\<rparr>"
proof -
  obtain q db where u: "upsert_many F js (en_db en) = (q, db)" by (metis surj_pair)
  show ?thesis
  proof (cases q)
    case (Inl e)
    have "snd (commit_jobs F js en) = en\<lparr>en_db := db, en_jobs := en_jobs en\<rparr>"
      using Inl by (simp add: commit_jobs_def u)
    then show ?thesis by blast
  next
    case (Inr x)
    have "snd (commit_jobs F js en) = en\<lparr>en_db := db, en_jobs := fold (\<lambda>j. bt_insert (job_id j) j) js (en_jobs en)\<rparr>"
      using Inr by (simp add: commit_jobs_def u)
    then show ?thesis by blast
  qed
qed

lemma commit_jobs_runs: "commit_jobs F js en = (r, en') \<Longrightarrow> runs_of en' = runs_of en"
  using commit_jobs_frame [of F js en] by (auto simp: runs_of_def)

lemma runs_of_updates [simp]:
  "runs_of (en\<lparr>en_db := db\<rparr>) = runs_of en" "runs_of (en\<lparr>en_jobs := jobs\<rparr>) = runs_of en"
  "runs_of (en\<lparr>en_pending := p\<rparr>) = runs_of en" "runs_of (en\<lparr>en_tokens := t\<rparr>) = runs_of en"
  "runs_of (en\<lparr>en_checkpoints := c\<rparr>) = runs_of en" "runs_of (en\<lparr>en_cancel_requests := s\<rparr>) = runs_of en"
  "runs_of (en\<lparr>en_shutting_down := b\<rparr>) = runs_of en"
  by (simp_all add: runs_of_def)

lemma transition_runs: "runs_of (snd (transition E i action expected en)) = runs_of en"
  by (auto simp: transition_def Let_def dest: commit_jobs_runs split: sum.split option.split prod.split)

lemma enqueue_runs: "runs_of (snd (enqueue_many lower V E requests en)) = runs_of en"
  by (auto simp: enqueue_many_def dest: commit_jobs_runs split: sum.split prod.split)

lemma adopt_runs: "runs_of (snd (adopt_transfers E owner ids b en)) = runs_of en"
  using commit_jobs_frame [of "ev_faults E" _ en]
  by (auto simp: adopt_transfers_def runs_of_def split: sum.split) (metis engine.select_convs engine.surjective engine.update_convs(1,2))+

lemma removal_runs:
  "runs_of (snd (clear_terminal E d b expected en)) = runs_of en"
  "runs_of (snd (discard_legacy E owner ids en)) = runs_of en"
  "runs_of (withdraw E i en) = runs_of en"
  by (auto simp: clear_terminal_def discard_legacy_def withdraw_def forget_jobs_def Let_def
      split: sum.split prod.split)

lemma progress_runs: "runs_of (record_progress E i phase p t n s en) = runs_of en"
  by (simp add: record_progress_def Let_def split: option.split)

lemma commit_result_runs: "runs_of (snd (commit_result F p en)) = runs_of en"
  by (auto simp: commit_result_def Let_def dest: commit_jobs_runs split: sum.split prod.split)

lemma finish_run_runs: "runs_of (snd (finish_run lower pp E i result en)) =
    (bt_remove i (en_active en), en_max_uploads en, en_max_downloads en)"
  by (simp add: finish_run_def Let_def commit_result_runs split: option.split) (simp add: runs_of_def)

lemma event_runs:
  assumes "\<And>E. e \<noteq> ScheduleRound E" "\<And>lower pp E i r. e \<noteq> FinishRun lower pp E i r" "\<And>u d. e \<noteq> SetLimits u d"
    and "\<And>F F' F'' w n s. e \<noteq> Restart F F' F'' w n s"
  shows "runs_of (apply_event e en) = runs_of en"
proof (cases e)
  case (SupplyToken E i t)
  then show ?thesis by (simp add: supply_prompt_token_def split: sum.split)
qed (use assms in \<open>simp_all add: transition_runs enqueue_runs adopt_runs removal_runs progress_runs begin_run_def withdraw_settled_def\<close>)

end
