(* ===== verification/Transfer_Sample.thy ===== *)
theory Transfer_Sample
  imports Transfer_Steps
begin

text \<open>
  A concrete queue, on which the properties of the queue are shown to apply: account 7 is signed in,
  every write succeeds, and a map is walked in the order of its keys.
\<close>

definition sample_reads :: session_reads where
  "sample_reads = \<lparr>so_first = \<lparr>signing_out = False, generation = 1\<rparr>, so_file_present = True, so_registered = None,
     so_identity_before = None, so_peer = NoSelfPeer, so_identity_after = None, so_saved = Ok (Some 7),
     so_last = \<lparr>signing_out = False, generation = 1\<rparr>\<rparr>"

definition sample_env :: "int \<Rightarrow> engine_env" where
  "sample_env now = \<lparr>ev_root = us ''/data'', ev_generation = 1, ev_reads = sample_reads, ev_generation_after = 1,
     ev_check_generation = 1, ev_check_reads = sample_reads, ev_connected = True, ev_now = now, ev_stamp = now,
     ev_instant = now * 1000000, ev_faults = (\<lambda>_. None), ev_retry_faults = (\<lambda>_ _. None), ev_walk = id\<rparr>"

definition sample_upload :: "string \<Rightarrow> enqueue_request" where
  "sample_upload i = \<lparr>rq_id = us i, rq_owner = Some (us ''7''), rq_direction = UploadDirection, rq_kind = LocalUpload,
     rq_path = Some (us ''/tmp/a''), rq_url = None, rq_folder = None, rq_message = None, rq_filename = us ''a'',
     rq_save_path = None, rq_collision = KeepBoth, rq_protection = None, rq_prompt_token = None,
     rq_protect_metadata = None, rq_video_mode = None, rq_video_caption = None, rq_temp_zip = None,
     rq_total = Some 10, rq_initial = None, rq_origin = None, rq_sync_path = None\<rparr>"

definition sample_folder :: folder_view where
  "sample_folder = \<lparr>fv_canonical = (\<lambda>p. Ok (render_place p)), fv_listing = (\<lambda>_. Ok [])\<rparr>"

abbreviation empty_db :: transfer_db where
  "empty_db \<equiv> \<lparr>db_rows = [], db_tombstones = []\<rparr>"

abbreviation no_faults :: faults where
  "no_faults \<equiv> (\<lambda>_. None)"

definition sample_start :: engine where
  "sample_start = restart_engine no_faults no_faults no_faults id 0 0 empty_db"

text \<open>Two uploads enter the queue, and one round starts them.\<close>

definition sample_events :: "queue_event list" where
  "sample_events = [Enqueue id sample_folder (sample_env 1) [sample_upload ''a'', sample_upload ''b'']]"

definition sample_queue :: engine where
  "sample_queue = fold apply_event sample_events sample_start"

definition sample_started :: "transfer_job list" where
  "sample_started = snd (fst (schedule_once (sample_env 2) sample_queue))"

definition sample_running :: engine where
  "sample_running = snd (schedule_once (sample_env 2) sample_queue)"

fun all_possible :: "queue_event list \<Rightarrow> engine \<Rightarrow> bool" where
  "all_possible [] en \<longleftrightarrow> True"
| "all_possible (e # es) en \<longleftrightarrow> possible e en \<and> all_possible es (apply_event e en)"

lemma reaches_fold_from:
  "queue_reaches en0 es en \<Longrightarrow> all_possible es' en \<Longrightarrow> queue_reaches en0 (es @ es') (fold apply_event es' en)"
proof (induction es' arbitrary: es en)
  case (Cons e es')
  have "queue_reaches en0 ((es @ [e]) @ es') (fold apply_event es' (apply_event e en))"
    by (rule Cons.IH) (use Cons.prems queue_reaches.event in auto)
  then show ?case by simp
qed simp

lemma reaches_fold: "all_possible es en \<Longrightarrow> queue_reaches en es (fold apply_event es en)"
  using reaches_fold_from [of en "[]" en es] by (simp add: queue_reaches_Nil)

lemma walks_id [simp]: "walks id"
  by (simp add: walks_def)

lemma sample_run_fold:
  assumes "all_possible es sample_start"
  shows "queue_run empty_db es (fold apply_event es sample_start)"
  unfolding queue_run_def
proof (intro conjI exI)
  show "db_ok empty_db" by (simp add: db_ok_def)
  show "walks id" by simp
  show "queue_reaches (restart_engine no_faults no_faults no_faults id 0 0 empty_db) es (fold apply_event es sample_start)"
    using reaches_fold [OF assms] by (simp add: sample_start_def)
qed

lemmas sample_defs = sample_reads_def sample_folder_def sample_upload_def initialize_engine_def
  engine_account_def still_owner_def open_account_def validate_account_def current_owner_def owner_text_def

lemmas queue_defs = enqueue_many_def validate_request_def initial_status_def new_job_def last_position_def
  reserve_new_downloads_def skips_reservation_def blank_def status_is_active_def is_terminal_def
  commit_jobs_def upsert_many_def transaction_def upsert_on_def put_row_def fails_def Let_def saturating_add_i64_def

lemma bt_code [simp]:
  "bt_values [] = []" "bt_values ((k, v) # m) = v # bt_values m"
  "bt_contains [] k \<longleftrightarrow> False" "bt_contains ((k', v) # m) k \<longleftrightarrow> k = k' \<or> bt_contains m k"
  by (auto simp: bt_values_def bt_contains_def bt_get_def)

text \<open>Events one after the other, from a state a run has reached.\<close>

lemma queue_run_step:
  assumes "queue_run db es en" "possible e en"
  shows "queue_run db (es @ [e]) (apply_event e en)"
  using assms queue_reaches.event unfolding queue_run_def by blast

lemma sample_start_value: "sample_start = initialize_engine empty_db []"
  by (simp add: sample_start_def restart_engine_def open_store_def fails_def maintain_tombstones_def
      date_tombstones_def expire_tombstones_def bt_retain_def load_all_from_def bt_values_def)

lemma sample_env_fields [simp]:
  "ev_root (sample_env n) = us ''/data''" "ev_generation (sample_env n) = 1" "ev_reads (sample_env n) = sample_reads"
  "ev_generation_after (sample_env n) = 1" "ev_check_generation (sample_env n) = 1"
  "ev_check_reads (sample_env n) = sample_reads" "ev_connected (sample_env n)" "ev_now (sample_env n) = n"
  "ev_stamp (sample_env n) = n" "ev_instant (sample_env n) = n * 1000000" "ev_faults (sample_env n) = no_faults"
  "ev_retry_faults (sample_env n) = (\<lambda>_. no_faults)" "ev_walk (sample_env n) = id"
  by (simp_all add: sample_env_def)

lemma sample_enqueue_possible: "all_possible sample_events sample_start"
  unfolding sample_start_value by (simp add: sample_events_def initialize_engine_def)

lemma sample_queue_run: "queue_run empty_db sample_events sample_queue"
  unfolding sample_queue_def by (rule sample_run_fold [OF sample_enqueue_possible])

lemma sample_running_run: "queue_run empty_db (sample_events @ [ScheduleRound (sample_env 2)]) sample_running"
  using queue_run_step [OF sample_queue_run, of "ScheduleRound (sample_env 2)"] by (simp add: sample_running_def)

definition sample_job :: "string \<Rightarrow> int \<Rightarrow> transfer_job" where
  "sample_job i position = new_job 1 position (sample_upload i)"

lemma sample_texts [simp]:
  "trim (us ''a'') = us ''a''" "trim (us ''b'') = us ''b''" "us ''a'' \<noteq> []" "us ''b'' \<noteq> []" "us ''/tmp/a'' \<noteq> []"
  "utf8_length (us ''a'') = 1" "utf8_length (us ''b'') = 1"
  "\<not> us ''b'' < us ''a''"
  by (simp_all add: trim_def us_def is_whitespace_def utf8_length_def utf8_width.simps)

lemma sample_owner [simp]: "show_int 7 = ''7''"
  by code_simp

lemma sample_key [simp]: "bt_insert (us ''b'') v [(us ''a'', w)] = [(us ''a'', w), (us ''b'', v)]"
  by (simp add: us_def)

lemma sample_queue_value:
  "sample_queue = (initialize_engine empty_db [])
     \<lparr>en_db := \<lparr>db_rows = [(us ''a'', sample_job ''a'' 1), (us ''b'', sample_job ''b'' 2)], db_tombstones = []\<rparr>,
      en_jobs := [(us ''a'', sample_job ''a'' 1), (us ''b'', sample_job ''b'' 2)]\<rparr>"
  unfolding sample_queue_def sample_start_value
  by (simp add: sample_events_def sample_defs queue_defs sample_job_def)

lemma sample_started_ids: "map job_id sample_started = [us ''a'', us ''b'']"
  unfolding sample_started_def sample_queue_value
  by (simp add: schedule_once_def start_jobs_def sample_defs active_count_def selected_jobs_def eligible_jobs_def
      select_pending_job_ids_def sample_job_def new_job_def initial_status_def is_terminal_def status_is_active_def
      commit_jobs_def upsert_many_def transaction_def upsert_on_def put_row_def fails_def Let_def
      started_job_def next_revision_def saturating_add_u64_def List.map_filter_def)

text \<open>The first upload finishes.\<close>

definition sample_started_job :: "string \<Rightarrow> int \<Rightarrow> transfer_job" where
  "sample_started_job i position = started_job (sample_env 2) (sample_job i position)"

lemmas start_defs = schedule_once_def start_jobs_def active_count_def selected_jobs_def eligible_jobs_def
  select_pending_job_ids_def commit_jobs_def upsert_many_def transaction_def upsert_on_def put_row_def fails_def Let_def
  List.map_filter_def

lemma sample_job_fields [simp]:
  "job_id (sample_job i p) = us i" "job_status (sample_job i p) = Pending" "job_revision (sample_job i p) = 1"
  "job_owner (sample_job i p) = Some (us ''7'')" "job_direction (sample_job i p) = UploadDirection"
  "\<not> job_unsaved (sample_job i p)" "job_position (sample_job i p) = p" "job_origin (sample_job i p) = None"
  "(sample_job i p)\<lparr>job_status := Pending\<rparr> = sample_job i p"
  by (simp_all add: sample_job_def new_job_def sample_upload_def initial_status_def is_terminal_def status_is_active_def)

lemma sample_started_fields [simp]:
  "job_id (sample_started_job i p) = us i" "job_revision (sample_started_job i p) = 2"
  "job_direction (sample_started_job i p) = UploadDirection" "job_status (sample_started_job i p) = Uploading"
  "job_owner (sample_started_job i p) = Some (us ''7'')" "job_origin (sample_started_job i p) = None"
  by (simp_all add: sample_started_job_def started_job_def next_revision_def saturating_add_u64_def)
    (simp add: sample_job_def new_job_def sample_upload_def)

lemma sample_running_value:
  "sample_running = sample_queue
     \<lparr>en_db := \<lparr>db_rows = [(us ''a'', sample_started_job ''a'' 1), (us ''b'', sample_started_job ''b'' 2)], db_tombstones = []\<rparr>,
      en_jobs := [(us ''a'', sample_started_job ''a'' 1), (us ''b'', sample_started_job ''b'' 2)],
      en_active := [(us ''a'', UploadDirection), (us ''b'', UploadDirection)]\<rparr>"
  unfolding sample_running_def sample_queue_value
  by (simp add: start_defs sample_defs sample_started_job_def [symmetric])

definition sample_finish :: queue_event where
  "sample_finish = FinishRun id (\<lambda>_. None) (sample_env 3) (us ''a'') (Ok (us ''5''))"

definition sample_result :: transfer_job where
  "sample_result = settle_run id (\<lambda>_. None) (sample_env 3) (Ok (us ''5'')) (sample_started_job ''a'' 1)"

definition sample_finished :: engine where
  "sample_finished = apply_event sample_finish sample_running"

lemma sample_result_fields [simp]:
  "job_id sample_result = us ''a''" "job_status sample_result = Completed" "job_revision sample_result = 3"
  "\<not> job_unsaved sample_result" "sample_result\<lparr>job_unsaved := False\<rparr> = sample_result"
  "job_owner sample_result = Some (us ''7'')" "job_direction sample_result = UploadDirection"
  "job_origin sample_result = None"
  by (simp_all add: sample_result_def settle_run_def finished_job_def record_success_response_def next_revision_def
      saturating_add_u64_def) (simp_all add: sample_started_job_def started_job_def next_revision_def sample_job_def new_job_def)

lemma sample_finished_value:
  "sample_finished = sample_queue
     \<lparr>en_db := \<lparr>db_rows = [(us ''a'', sample_result), (us ''b'', sample_started_job ''b'' 2)], db_tombstones = []\<rparr>,
      en_jobs := [(us ''a'', sample_result), (us ''b'', sample_started_job ''b'' 2)],
      en_active := [(us ''b'', UploadDirection)]\<rparr>"
  unfolding sample_finished_def sample_finish_def sample_running_value apply_event.simps
  by (simp add: finish_run_def Let_def sample_result_def [symmetric] commit_result_def commit_jobs_def upsert_many_def
      transaction_def upsert_on_def put_row_def fails_def sample_queue_value initialize_engine_def)

lemma sample_finished_run:
  "queue_run empty_db (sample_events @ [ScheduleRound (sample_env 2)] @ [sample_finish]) sample_finished"
proof -
  have "possible sample_finish sample_running"
    by (simp add: sample_finish_def sample_running_value)
  then show ?thesis using queue_run_step [OF sample_running_run] unfolding sample_finished_def by simp
qed

end
