(* ===== verification/Transfer_Contract.thy ===== *)
theory Transfer_Contract
  imports Transfer_Frames Transfer_Sample
begin

text \<open>
  What the transfer queue promises: which transfers a scheduling round starts, what of a transfer
  survives a crash, what the user's actions and a removal mean from then on, and how failures are
  retried.
\<close>

section \<open>Counting runs\<close>

lemma count_values:
  "bt_ok m \<Longrightarrow> length (filter (\<lambda>x. x = d) (bt_values m)) = card {i. bt_get m i = Some d}"
proof (induction m)
  case (Cons kv m)
  obtain k v where kv: "kv = (k, v)" by (cases kv)
  have ok: "bt_ok m" and k: "k \<notin> set (bt_keys m)" using Cons.prems kv by auto
  have n: "bt_get m k = None" using k by (simp add: bt_get_None_iff)
  have fin: "finite {i. bt_get m i = Some d}"
    by (rule finite_subset [of _ "set (bt_keys m)"]) (auto simp: bt_contains_iff [symmetric] bt_contains_def)
  have "{i. bt_get (kv # m) i = Some d} = (if v = d then insert k {i. bt_get m i = Some d} else {i. bt_get m i = Some d})"
    using n kv by auto
  then show ?case using Cons.IH [OF ok] n fin kv by (simp add: bt_values_def)
qed (simp add: bt_values_def)

lemma finite_runs: "finite {i. bt_get m i = Some d}"
  by (rule finite_subset [of _ "set (bt_keys m)"]) (auto simp: bt_contains_iff [symmetric] bt_contains_def)

lemma card_within_union: "X \<subseteq> A \<union> B \<Longrightarrow> finite A \<Longrightarrow> finite B \<Longrightarrow> card X \<le> card A + card B"
  by (meson card_Un_le card_mono finite_UnI le_trans)

definition direction_of :: "transfer_job list \<Rightarrow> direction \<Rightarrow> str set" where
  "direction_of js d = job_id ` {j \<in> set js. job_direction j = d}"

lemma take_slots_count:
  assumes "distinct (map job_id js)"
  shows "card (set (take_slots u d js) \<inter> direction_of js UploadDirection) \<le> u"
    and "card (set (take_slots u d js) \<inter> direction_of js DownloadDirection) \<le> d"
proof -
  have inj: "job_id a = job_id b \<Longrightarrow> a \<in> set js \<Longrightarrow> b \<in> set js \<Longrightarrow> a = b" for a b
    using assms by (auto simp: distinct_map inj_on_def)
  let ?up = "take u (filter (\<lambda>j. job_direction j = UploadDirection) js)"
  let ?down = "take d (filter (\<lambda>j. job_direction j = DownloadDirection) js)"
  have sub: "set ?up \<subseteq> {j \<in> set js. job_direction j = UploadDirection}"
    "set ?down \<subseteq> {j \<in> set js. job_direction j = DownloadDirection}"
    by (auto dest: in_set_takeD)
  have "set (take_slots u d js) \<inter> direction_of js UploadDirection \<subseteq> job_id ` set ?up"
    using sub inj unfolding set_take_slots direction_of_def by fastforce
  moreover have "card (job_id ` set ?up) \<le> u"
    using card_image_le [of "set ?up" job_id] card_length [of ?up] by simp
  ultimately show "card (set (take_slots u d js) \<inter> direction_of js UploadDirection) \<le> u"
    using card_mono [of "job_id ` set ?up"] by (meson List.finite_set finite_imageI le_trans)
  have "set (take_slots u d js) \<inter> direction_of js DownloadDirection \<subseteq> job_id ` set ?down"
    using sub inj unfolding set_take_slots direction_of_def by fastforce
  moreover have "card (job_id ` set ?down) \<le> d"
    using card_image_le [of "set ?down" job_id] card_length [of ?down] by simp
  ultimately show "card (set (take_slots u d js) \<inter> direction_of js DownloadDirection) \<le> d"
    using card_mono [of "job_id ` set ?down"] by (meson List.finite_set finite_imageI le_trans)
qed

definition limit_of :: "direction \<Rightarrow> engine \<Rightarrow> nat" where
  "limit_of d en = (case d of UploadDirection \<Rightarrow> en_max_uploads en | DownloadDirection \<Rightarrow> en_max_downloads en)"

lemma selected_count:
  assumes inv: "queue_inv en" and w: "walks (ev_walk E)"
  shows "card (job_id ` {s \<in> set (selected_jobs E owner en). job_direction s = d}) \<le> limit_of d en - active_count d en"
proof -
  define jobs where "jobs = eligible_jobs E owner en"
  define row where "row = sort_key job_position
    (filter (\<lambda>j. job_status j = Pending \<and> bt_get (en_active en) (job_id j) = None) jobs)"
  define ids where "ids = take_slots (en_max_uploads en - active_count UploadDirection en)
           (en_max_downloads en - active_count DownloadDirection en) row"
  have dist: "distinct (map job_id jobs)" unfolding jobs_def by (rule eligible_distinct [OF inv w])
  have sub: "set row \<subseteq> set jobs" by (auto simp: row_def)
  have ds: "distinct (map job_id row)" using dist by (simp add: row_def distinct_map inj_on_def)
  have inj: "inj_on job_id (set jobs)" using dist unfolding distinct_map by blast
  have ids_row: "set ids \<subseteq> job_id ` set row" unfolding ids_def by (rule set_take_slots_subset)
  then have "set ids \<subseteq> job_id ` set jobs" using sub by blast
  note mf = map_filter_by_id [OF this]
  define picked where "picked = List.map_filter (\<lambda>i. find (\<lambda>j. job_id j = i) jobs) ids"
  have sel: "selected_jobs E owner en = map (started_job E) picked"
    by (simp add: selected_jobs_def Let_def picked_def ids_def row_def jobs_def select_pending_job_ids_def)
  have "job_id ` {s \<in> set (selected_jobs E owner en). job_direction s = d} \<subseteq> set ids \<inter> direction_of row d"
  proof
    fix i assume "i \<in> job_id ` {s \<in> set (selected_jobs E owner en). job_direction s = d}"
    then obtain e where e: "e \<in> set picked" and i: "i = job_id e" "job_direction e = d"
      unfolding sel by auto
    have ii: "i \<in> set ids" using e i(1) mf(1) unfolding picked_def by (metis image_eqI image_set)
    then obtain j where j: "j \<in> set row" "job_id j = i" using ids_row by blast
    have "e \<in> set jobs" using e mf(2) unfolding picked_def by blast
    then have "j = e" using inj_onD [OF inj, of j e] j sub i(1) by blast
    then show "i \<in> set ids \<inter> direction_of row d" using ii j(1) i unfolding direction_of_def by blast
  qed
  then have "card (job_id ` {s \<in> set (selected_jobs E owner en). job_direction s = d}) \<le> card (set ids \<inter> direction_of row d)"
    by (rule card_mono [rotated]) simp
  also have "\<dots> \<le> limit_of d en - active_count d en"
    using take_slots_count [OF ds] unfolding ids_def by (cases d) (simp_all add: limit_of_def)
  finally show ?thesis .
qed

lemma retry_commits_frame:
  "\<exists>db jobs results. snd (retry_commits E rs en) = en\<lparr>en_db := db, en_jobs := jobs, en_pending := results\<rparr>"
proof (induction rs arbitrary: en)
  case Nil
  have "en = en\<lparr>en_db := en_db en, en_jobs := en_jobs en, en_pending := en_pending en\<rparr>" by simp
  then show ?case by (metis retry_commits.simps(1) snd_conv)
next
  case (Cons p rs)
  let ?j = "(next_revision p)\<lparr>job_unsaved := False\<rparr>"
  obtain r en1 where c: "commit_jobs (ev_retry_faults E (job_id p)) [?j] en = (r, en1)" by (metis surj_pair)
  obtain db jobs where f: "en1 = en\<lparr>en_db := db, en_jobs := jobs\<rparr>"
    using commit_jobs_frame [of "ev_retry_faults E (job_id p)" "[?j]" en] c by auto
  obtain results where g: "snd (retry_commits E (p # rs) en) = snd (retry_commits E rs (en1\<lparr>en_pending := results\<rparr>))"
  proof (cases r)
    case (Inl e)
    have "snd (retry_commits E (p # rs) en) = snd (retry_commits E rs (en1\<lparr>en_pending := en_pending en1\<rparr>))"
      using c Inl by simp
    then show thesis by (rule that)
  next
    case (Inr u)
    have "snd (retry_commits E (p # rs) en) =
        snd (retry_commits E rs (en1\<lparr>en_pending := bt_remove (job_id p) (en_pending en1)\<rparr>))"
      using c Inr by (simp add: Let_def)
    then show thesis by (rule that)
  qed
  obtain db' jobs' results' where "snd (retry_commits E rs (en1\<lparr>en_pending := results\<rparr>)) =
      en1\<lparr>en_pending := results, en_db := db', en_jobs := jobs', en_pending := results'\<rparr>"
    using Cons.IH [of "en1\<lparr>en_pending := results\<rparr>"] by blast
  then show ?case unfolding g f by (rule_tac exI [of _ db'], rule_tac exI [of _ jobs'], rule_tac exI [of _ results']) simp
qed

lemma start_jobs_limits:
  assumes "start_jobs E en = (started, en')"
  shows "limit_of d en' = limit_of d en"
proof -
  have r: "limit_of d (fold (refuse_start e) ss en0) = limit_of d en0" for e ss en0
  proof (induction ss arbitrary: en0)
    case (Cons s ss)
    have "limit_of d (refuse_start e s en0) = limit_of d en0"
      by (simp add: refuse_start_def limit_of_def split: option.split direction.split)
    then show ?case using Cons by simp
  qed simp
  have c: "limit_of d en1 = limit_of d en" if "commit_jobs F js en = (q, en1)" for F js q en1
    using commit_jobs_frame [of F js en] that by (auto simp: limit_of_def split: direction.split)
  show ?thesis
    using assms r c unfolding start_jobs_def Let_def
    by (auto simp: limit_of_def split: sum.splits if_splits prod.splits direction.splits)
qed

section \<open>What a round starts\<close>

text \<open>
  A transfer that is started was not running, belongs to the signed-in account and has its new state in
  the database; the runs of its direction stay within the limit, or as many as before it was lowered.
\<close>

lemma schedule_started:
  assumes inv: "queue_inv en" and w: "walks (ev_walk E)" and sc: "schedule_once E en = ((saved, started), en')"
  shows "distinct (map job_id started)"
    and "j \<in> set started \<Longrightarrow> bt_get (en_active en) (job_id j) = None \<and> status_is_active (job_status j) \<and>
      bt_get (db_rows (en_db en')) (job_id j) = Some j \<and> bt_get (en_active en') (job_id j) = Some (job_direction j) \<and>
      (\<exists>a. engine_account E None = Ok a \<and> still_owner E a = Ok () \<and> job_owner j = Some (owner_text a))"
    and "active_count d en' \<le> max (limit_of d en) (active_count d en)"
    and "limit_of d en' = limit_of d en"
proof -
  define rs where "rs = ev_walk E (bt_values (en_pending en))"
  have "distinct (map job_id started) \<and>
    (\<forall>j\<in>set started. bt_get (en_active en) (job_id j) = None \<and> status_is_active (job_status j) \<and>
      bt_get (db_rows (en_db en')) (job_id j) = Some j \<and> bt_get (en_active en') (job_id j) = Some (job_direction j) \<and>
      (\<exists>a. engine_account E None = Ok a \<and> still_owner E a = Ok () \<and> job_owner j = Some (owner_text a))) \<and>
    active_count d en' \<le> max (limit_of d en) (active_count d en) \<and> limit_of d en' = limit_of d en"
  proof (cases "en_shutting_down en")
    case True
    then show ?thesis using sc by (simp add: schedule_once_def)
  next
    case False
    define mid where "mid = snd (retry_commits E rs en)"
    obtain db jobs results where f: "mid = en\<lparr>en_db := db, en_jobs := jobs, en_pending := results\<rparr>"
      using retry_commits_frame unfolding mid_def by blast
    have fr: "en_active mid = en_active en" "limit_of d mid = limit_of d en" "active_count d mid = active_count d en" for d
      unfolding f by (simp_all add: limit_of_def active_count_def split: direction.split)
    have st: "start_jobs E mid = (started, en')"
      using sc False by (auto simp: schedule_once_def mid_def rs_def split: prod.splits)
    have imid: "queue_inv mid"
      using schedule_retries_inv [OF inv w] unfolding mid_def rs_def .
    from start_jobs_cases [OF imid w st] show ?thesis
    proof
      assume n: "started = [] \<and> queue_inv en' \<and> en_active en' = en_active mid"
      have l: "limit_of d en' = limit_of d mid" using start_jobs_limits [OF st] .
      show ?thesis using n l fr by (simp add: active_count_def)
    next
      assume "\<exists>a en1. engine_account E None = Ok a \<and> still_owner E a = Ok () \<and>
        started = selected_jobs E (owner_text a) mid \<and> committed started mid en1 \<and>
        en' = en1\<lparr>en_active := fold (\<lambda>j. bt_insert (job_id j) (job_direction j)) started (en_active mid)\<rparr>"
      then obtain a en1 where a: "engine_account E None = Ok a" "still_owner E a = Ok ()"
        and sel: "started = selected_jobs E (owner_text a) mid" and m: "committed started mid en1"
        and out: "en' = en1\<lparr>en_active := fold (\<lambda>j. bt_insert (job_id j) (job_direction j)) started (en_active mid)\<rparr>"
        by blast
      note p = selected_props [OF imid w, where owner = "owner_text a", folded sel]
      have co: "coherent started" by (rule coherent_distinct [OF p(1)])
      have ok: "bt_ok (en_active mid)" "bt_ok (en_active en')"
        using queue_invD(1) [OF imid] fold_insert_jobs_ok [of "en_active mid" job_direction started]
        unfolding out by (simp_all add: maps_ok_def)
      have new: "bt_get (en_active en') (job_id j) = Some (job_direction j)" if "j \<in> set started" for j
        using fold_insert_jobs_get [OF co that, of job_direction] unfolding out by simp
      have "{i. bt_get (en_active en') i = Some d} \<subseteq>
          {i. bt_get (en_active mid) i = Some d} \<union> job_id ` {s \<in> set started. job_direction s = d}"
      proof
        fix i assume i: "i \<in> {i. bt_get (en_active en') i = Some d}"
        show "i \<in> {i. bt_get (en_active mid) i = Some d} \<union> job_id ` {s \<in> set started. job_direction s = d}"
        proof (cases "i \<in> job_id ` set started")
          case True
          then show ?thesis using new i by auto
        next
          case False
          then show ?thesis using i fold_insert_jobs_other [OF False, of job_direction "en_active mid"] unfolding out by simp
        qed
      qed
      then have "active_count d en' \<le> active_count d mid + card (job_id ` {s \<in> set started. job_direction s = d})"
        unfolding active_count_def count_values [OF ok(1)] count_values [OF ok(2)] by (rule card_within_union) (simp_all add: finite_runs)
      also have "\<dots> \<le> max (limit_of d en) (active_count d en)"
        using selected_count [OF imid w, of "owner_text a" d] fr unfolding sel by simp
      finally have c: "active_count d en' \<le> max (limit_of d en) (active_count d en)" .
      have l: "limit_of d en' = limit_of d en"
        using committedD(11,12) [OF m] fr(2) [of d] unfolding out by (simp add: limit_of_def split: direction.splits)
      show ?thesis
      proof (intro conjI ballI p(1) c l)
        fix j assume j: "j \<in> set started"
        show "bt_get (en_active en) (job_id j) = None" "status_is_active (job_status j)"
          using p(2) [OF j] fr(1) by auto
        show "bt_get (db_rows (en_db en')) (job_id j) = Some j" using committedD(4) [OF m j] unfolding out by simp
        show "bt_get (en_active en') (job_id j) = Some (job_direction j)" by (rule new [OF j])
        show "\<exists>a. engine_account E None = Ok a \<and> still_owner E a = Ok () \<and> job_owner j = Some (owner_text a)"
          using a p(2) [OF j] by (metis started_job_frame(2) transfer_job.select_convs(2) transfer_job.surjective transfer_job.update_convs(5))
      qed
    qed
  qed
  then show "distinct (map job_id started)"
    and "j \<in> set started \<Longrightarrow> bt_get (en_active en) (job_id j) = None \<and> status_is_active (job_status j) \<and>
      bt_get (db_rows (en_db en')) (job_id j) = Some j \<and> bt_get (en_active en') (job_id j) = Some (job_direction j) \<and>
      (\<exists>a. engine_account E None = Ok a \<and> still_owner E a = Ok () \<and> job_owner j = Some (owner_text a))"
    and "active_count d en' \<le> max (limit_of d en) (active_count d en)"
    and "limit_of d en' = limit_of d en" by blast+
qed

section \<open>The ceiling of a run\<close>

definition bounded :: "engine \<Rightarrow> bool" where
  "bounded en \<longleftrightarrow> (\<forall>d. limit_of d en \<le> 32 \<and> active_count d en \<le> 32)"

lemma limit_of_runs: "limit_of d en = (case d of UploadDirection \<Rightarrow> fst (snd (runs_of en)) | DownloadDirection \<Rightarrow> snd (snd (runs_of en)))"
  by (cases d) (simp_all add: limit_of_def runs_of_def)

lemma active_count_runs: "active_count d en = length (filter (\<lambda>x. x = d) (bt_values (fst (runs_of en))))"
  by (simp add: active_count_def runs_of_def)

lemma bounded_cong: "runs_of en' = runs_of en \<Longrightarrow> bounded en' \<longleftrightarrow> bounded en"
  unfolding bounded_def limit_of_runs active_count_runs by metis

lemma filter_remove_length: "length (filter P (bt_values (bt_remove i m))) \<le> length (filter P (bt_values m))"
  by (induction m) (auto simp: bt_values_def bt_remove_def)

lemma initialize_bounded: "bounded (initialize_engine db jobs)"
  by (simp add: bounded_def initialize_engine_def limit_of_def active_count_def bt_values_def split: direction.split)

lemma restart_bounded: "bounded (restart_engine F F' F'' walk now secs db)"
  by (simp add: restart_engine_def initialize_bounded split: prod.split sum.split)

lemma finish_bounded:
  assumes "bounded en" shows "bounded (snd (finish_run lower pp E i result en))"
proof -
  have "active_count d (snd (finish_run lower pp E i result en)) \<le> active_count d en" for d
    unfolding active_count_runs finish_run_runs using filter_remove_length by (simp add: runs_of_def)
  moreover have "limit_of d (snd (finish_run lower pp E i result en)) = limit_of d en" for d
    unfolding limit_of_runs finish_run_runs by (cases d) (simp_all add: runs_of_def)
  ultimately show ?thesis using assms unfolding bounded_def by (metis le_trans)
qed

lemma schedule_bounded:
  assumes "bounded en" "queue_inv en" "walks (ev_walk E)"
  shows "bounded (snd (schedule_once E en))"
proof -
  obtain saved started en' where sc: "schedule_once E en = ((saved, started), en')" by (metis surj_pair)
  have "active_count d en' \<le> 32 \<and> limit_of d en' \<le> 32" for d
    using schedule_started(3,4) [OF assms(2,3) sc, of d] assms(1) unfolding bounded_def
    by (metis le_trans max.bounded_iff)
  then show ?thesis using sc by (simp add: bounded_def)
qed

lemma event_bounded:
  assumes "bounded en" "queue_inv en" "possible e en"
  shows "bounded (apply_event e en)"
proof (cases e)
  case (ScheduleRound E)
  then show ?thesis using schedule_bounded assms by simp
next
  case (FinishRun lower pp E i r)
  then show ?thesis using finish_bounded assms(1) by simp
next
  case (SetLimits u d)
  then show ?thesis using assms(1)
    by (simp add: bounded_def set_limits_def limit_of_def active_count_def split: direction.split)
next
  case (Restart F F' F'' w n s)
  then show ?thesis using restart_bounded by simp
qed (use assms(1) bounded_cong [OF event_runs, of e en] in simp_all)

lemma reaches_bounded: "queue_reaches en es en' \<Longrightarrow> queue_inv en \<Longrightarrow> bounded en \<Longrightarrow> bounded en'"
  by (induction rule: queue_reaches.induct) (auto intro: event_bounded reaches_inv)

text \<open>C33: However its limits are changed and however often it is restarted, the queue never runs more than
  32 uploads or more than 32 downloads at a time.
\<close>

theorem runs_stay_bounded:
  assumes "queue_run db es en"
  shows "length (filter (\<lambda>x. x = d) (bt_values (en_active en))) \<le> 32"
proof -
  obtain F F' F'' walk now secs where ok: "db_ok db" and w: "walks walk"
    and r: "queue_reaches (restart_engine F F' F'' walk now secs db) es en"
    using assms unfolding queue_run_def by blast
  have "bounded en"
    using reaches_bounded [OF r restart_inv [OF ok w] restart_bounded] .
  then show ?thesis by (simp add: bounded_def active_count_def)
qed

theorem runs_stay_bounded_witness:
  "queue_run empty_db (sample_events @ [ScheduleRound (sample_env 2)]) sample_running \<and>
     length (filter (\<lambda>x. x = UploadDirection) (bt_values (en_active sample_running))) \<le> 32"
proof -
  have "queue_run empty_db (sample_events @ [ScheduleRound (sample_env 2)]) sample_running"
    using sample_running_run .
  then show ?thesis using runs_stay_bounded by blast
qed

text \<open>C30: In every state the queue can reach, a scheduling round starts only transfers that were not
  running, each once, whose owner is the account signed in now, and whose running state is in the
  database before their run begins.
\<close>

theorem round_starts_durable_owned:
  assumes run: "queue_run db es en" and w: "walks (ev_walk E)"
    and sc: "schedule_once E en = ((saved, started), en')" and j: "j \<in> set started"
  shows "distinct (map job_id started) \<and> bt_get (en_active en) (job_id j) = None \<and>
    bt_get (en_active en') (job_id j) = Some (job_direction j) \<and> status_is_active (job_status j) \<and>
    bt_get (db_rows (en_db en')) (job_id j) = Some j \<and>
    (\<exists>owner. current_owner (ev_reads E) = Ok owner \<and> current_owner (ev_check_reads E) = Ok owner \<and>
       job_owner j = Some (us (show_int owner)))"
proof -
  note s = schedule_started(1,2) [OF run_inv [OF run] w sc]
  obtain a where a: "engine_account E None = Ok a" "still_owner E a = Ok ()" "job_owner j = Some (owner_text a)"
    using s(2) [OF j] by blast
  have "current_owner (ev_reads E) = Ok (ag_owner a)" "current_owner (ev_check_reads E) = Ok (ag_owner a)"
    using open_account_Ok [OF a(1) [unfolded engine_account_def]] validate_account_Ok a(2) [unfolded still_owner_def] by blast+
  then show ?thesis using s(1) s(2) [OF j] a(3) by (auto simp: owner_text_def)
qed

theorem round_starts_durable_owned_witness:
  "\<exists>j\<in>set sample_started. bt_get (db_rows (en_db sample_running)) (job_id j) = Some j \<and>
     bt_get (en_active sample_running) (job_id j) = Some (job_direction j)"
proof -
  obtain saved where sc: "schedule_once (sample_env 2) sample_queue = ((saved, sample_started), sample_running)"
    by (metis sample_started_def sample_running_def prod.collapse)
  obtain j where j: "j \<in> set sample_started" using sample_started_ids by (metis list.set_sel(1) list.map_disc_iff list.distinct(1))
  have "walks (ev_walk (sample_env 2))" by simp
  then show ?thesis using round_starts_durable_owned [OF sample_queue_run _ sc j] j by blast
qed

end
