(* ===== verification/Transfer_Removal.thy ===== *)
theory Transfer_Removal
  imports Transfer_Frames Transfer_Sample
begin

text \<open>
  A removed transfer stays removed: its tombstone keeps every late write of it out of the database,
  through failures and restarts, until the retention of tombstones ends.
\<close>

section \<open>Tombstones last\<close>

definition entombed :: "str \<Rightarrow> int \<Rightarrow> engine \<Rightarrow> bool" where
  "entombed i at en \<longleftrightarrow> bt_get (db_tombstones (en_db en)) i = Some (Some at)"

fun retains :: "int \<Rightarrow> queue_event \<Rightarrow> bool" where
  "retains at (Restart F F' F'' walk now secs) \<longleftrightarrow> saturating_sub_i64 secs TOMBSTONE_RETENTION_SECS \<le> at"
| "retains at _ \<longleftrightarrow> True"

lemma entombed_updates [simp]:
  "entombed i at (en\<lparr>en_jobs := jobs\<rparr>) = entombed i at en" "entombed i at (en\<lparr>en_active := r\<rparr>) = entombed i at en"
  "entombed i at (en\<lparr>en_pending := p\<rparr>) = entombed i at en" "entombed i at (en\<lparr>en_tokens := t\<rparr>) = entombed i at en"
  "entombed i at (en\<lparr>en_checkpoints := c\<rparr>) = entombed i at en"
  "entombed i at (en\<lparr>en_cancel_requests := s\<rparr>) = entombed i at en"
  "entombed i at (en\<lparr>en_max_uploads := n\<rparr>) = entombed i at en"
  "entombed i at (en\<lparr>en_max_downloads := n\<rparr>) = entombed i at en"
  "entombed i at (en\<lparr>en_shutting_down := b\<rparr>) = entombed i at en"
  by (simp_all add: entombed_def)

lemma commit_jobs_tombstones: "db_tombstones (en_db (snd (commit_jobs F js en))) = db_tombstones (en_db en)"
proof -
  obtain r en' where c: "commit_jobs F js en = (r, en')" by (metis surj_pair)
  from c show ?thesis by (cases rule: commit_jobs_cases) (simp_all add: c)
qed

lemma commit_jobs_entombed: "commit_jobs F js en = (r, en') \<Longrightarrow> entombed i at en' \<longleftrightarrow> entombed i at en"
  using commit_jobs_tombstones [of F js en] by (simp add: entombed_def)

lemma transition_entombed: "entombed i at (snd (transition E k action expected en)) \<longleftrightarrow> entombed i at en"
  by (auto simp: transition_def Let_def commit_jobs_entombed split: sum.split option.split prod.split)

lemma enqueue_entombed: "entombed i at (snd (enqueue_many lower V E requests en)) \<longleftrightarrow> entombed i at en"
  by (auto simp: enqueue_many_def commit_jobs_entombed split: sum.split prod.split)

lemma adopt_entombed: "entombed i at (snd (adopt_transfers E owner ids b en)) \<longleftrightarrow> entombed i at en"
proof -
  have "entombed i at (snd (commit_jobs F js en)) \<longleftrightarrow> entombed i at en" for F js
    using commit_jobs_tombstones by (simp add: entombed_def)
  then show ?thesis by (auto simp: adopt_transfers_def split: sum.split)
qed

lemma upsert_tombstones: "db_tombstones (snd (upsert F j db)) = db_tombstones db"
proof -
  obtain r db' where "upsert F j db = (r, db')" by (metis surj_pair)
  then show ?thesis using upsert_cases by fastforce
qed

lemma progress_entombed: "entombed i at (record_progress E k phase p t n s en) \<longleftrightarrow> entombed i at en"
  by (simp add: record_progress_def Let_def entombed_def upsert_tombstones split: option.split)

lemma finish_entombed: "entombed i at (snd (finish_run lower pp E k result en)) \<longleftrightarrow> entombed i at en"
proof -
  have "entombed i at (snd (commit_result F p en)) \<longleftrightarrow> entombed i at en" for F p en
    by (auto simp: commit_result_def Let_def commit_jobs_entombed split: sum.split prod.split)
  then show ?thesis by (simp add: finish_run_def Let_def split: option.split)
qed

lemma retry_entombed: "entombed i at (snd (retry_commits E rs en)) \<longleftrightarrow> entombed i at en"
proof (induction rs arbitrary: en)
  case (Cons p rs)
  then show ?case by (auto simp: Let_def commit_jobs_entombed split: sum.split prod.split)
qed simp

lemma refuse_entombed: "entombed i at (fold (refuse_start e) ss en) \<longleftrightarrow> entombed i at en"
  by (induction ss arbitrary: en) (simp_all add: refuse_start_def split: option.split)

lemma schedule_entombed: "entombed i at (snd (schedule_once E en)) \<longleftrightarrow> entombed i at en"
proof -
  have s: "entombed i at (snd (start_jobs E en)) \<longleftrightarrow> entombed i at en" for en
    by (auto simp: start_jobs_def Let_def commit_jobs_entombed refuse_entombed split: sum.split prod.split)
  obtain saved en1 where r: "retry_commits E (ev_walk E (bt_values (en_pending en))) en = (saved, en1)" by (metis surj_pair)
  obtain started en2 where t: "start_jobs E en1 = (started, en2)" by (metis surj_pair)
  show ?thesis
    using s [of en1] retry_entombed [of i at E "ev_walk E (bt_values (en_pending en))" en] r t
    by (simp add: schedule_once_def)
qed

lemma delete_entombed:
  assumes "delete_many F now ids db = (r, db')" "bt_ok (db_rows db)" "bt_ok (db_tombstones db)"
  shows "bt_get (db_tombstones db) i = Some t \<Longrightarrow> bt_get (db_tombstones db') i = Some t"
  using delete_many_cases [OF assms] by auto

lemma removal_entombed:
  assumes "maps_ok en" "entombed i at en"
  shows "entombed i at (snd (clear_terminal E d b expected en))" "entombed i at (snd (discard_legacy E owner ids en))"
    and "entombed i at (withdraw E k en)"
proof -
  have ok: "bt_ok (db_rows (en_db en))" "bt_ok (db_tombstones (en_db en))" using assms(1) by (simp_all add: maps_ok_def)
  have del: "bt_get (db_tombstones db') i = Some (Some at)" if "delete_many F now ks (en_db en) = (r, db')" for F now ks r db'
    using delete_entombed [OF that ok] assms(2) by (simp add: entombed_def)
  then have del': "bt_get (db_tombstones (snd (delete_many F now ks (en_db en)))) i = Some (Some at)" for F now ks
    by (metis prod.collapse)
  show "entombed i at (snd (clear_terminal E d b expected en))" "entombed i at (snd (discard_legacy E owner ids en))"
    using assms(2) by (auto simp: clear_terminal_def discard_legacy_def forget_jobs_def Let_def entombed_def
        split: sum.split prod.split dest: del)
  show "entombed i at (withdraw E k en)"
    using assms(2) del' by (simp add: withdraw_def Let_def entombed_def)
qed

lemma event_entombed:
  assumes inv: "queue_inv en" and p: "possible e en" and i: "entombed i at en" and keep: "retains at e"
  shows "entombed i at (apply_event e en)"
proof (cases e)
  case (SupplyToken E k t)
  then show ?thesis using i by (simp add: supply_prompt_token_def split: sum.split)
next
  case (Restart F F' F'' walk now secs)
  obtain r db where op: "open_store F F' F'' walk now secs (en_db en) = (r, db)" by (metis surj_pair)
  have "bt_get (db_tombstones db) i = Some (Some at)"
    using open_store_cases [OF op queue_inv_db [OF inv]] p i keep Restart by (simp add: entombed_def)
  then show ?thesis using op Restart
    by (simp add: restart_engine_def entombed_def initialize_engine_def split: sum.split)
qed (use i removal_entombed [OF queue_invD(1) [OF inv] i] in \<open>simp_all add: transition_entombed enqueue_entombed
    adopt_entombed progress_entombed finish_entombed schedule_entombed begin_run_def withdraw_settled_def set_limits_def\<close>)

lemma reaches_entombed:
  "queue_reaches en es en' \<Longrightarrow> queue_inv en \<Longrightarrow> entombed i at en \<Longrightarrow> \<forall>e\<in>set es. retains at e \<Longrightarrow> entombed i at en'"
proof (induction rule: queue_reaches.induct)
  case (event en es en' e)
  then show ?case by (intro event_entombed reaches_inv [OF event.hyps(1)]) simp_all
qed

lemma entombed_gone:
  assumes "queue_inv en" "entombed i at en"
  shows "bt_get (en_jobs en) i = None" "bt_get (db_rows (en_db en)) i = None" "bt_get (en_pending en) i = None"
proof -
  have t: "transfer_inv_at en i" by (rule queue_invD(2) [OF assms(1)])
  have b: "bt_get (db_tombstones (en_db en)) i \<noteq> None" using assms(2) by (simp add: entombed_def)
  show j: "bt_get (en_jobs en) i = None"
  proof (cases "bt_get (en_jobs en) i")
    case (Some j)
    then show ?thesis using t b transfer_inv_job(2) by metis
  qed
  show "bt_get (db_rows (en_db en)) i = None"
  proof (cases "bt_get (db_rows (en_db en)) i")
    case (Some r)
    then show ?thesis using t b transfer_inv_row by metis
  qed
  show "bt_get (en_pending en) i = None" using t j transfer_inv_no_job by metis
qed

section \<open>Cleared transfers\<close>

lemma cleared_entombed:
  assumes inv: "queue_inv en" and w: "walks (ev_walk E)"
    and cl: "clear_terminal E d b expected en = (Ok ids, en1)" and i: "i \<in> set ids"
  shows "entombed i (ev_now E div 1000) en1"
proof -
  obtain a db where del: "delete_many (ev_faults E) (ev_now E div 1000) ids (en_db en) = (Ok (), db)"
    and en1: "en1 = forget_jobs ids (en\<lparr>en_db := db\<rparr>)"
    and ids: "ids = map job_id (filter (\<lambda>j. job_owner j = Some (owner_text a) \<and> \<not> job_unsaved j \<and> job_direction j = d \<and>
        (job_status j = Completed \<or> b \<and> job_status j \<in> {Failed, Cancelled})) (ev_walk E (bt_values (en_jobs en))))"
    using cl by (auto simp: clear_terminal_def Let_def split: sum.splits prod.splits)
  obtain j where "j \<in> set (bt_values (en_jobs en))" "job_id j = i"
    using i walks_set [OF w] unfolding ids by auto
  then have j: "bt_get (en_jobs en) i = Some j"
    using bt_values_get job_has_id [OF inv] queue_invD(1) [OF inv] by (metis maps_ok_def)
  have "bt_get (db_tombstones (en_db en)) i = None"
    using queue_invD(2) [OF inv, of i] transfer_inv_job(2) unfolding j by blast
  then show ?thesis
    using delete_many_cases [OF del] queue_invD(1) [OF inv] i unfolding en1
    by (simp add: entombed_def forget_jobs_def maps_ok_def)
qed

text \<open>C31: A transfer that was cleared from the queue never comes back: whatever follows within the thirty
  days its tombstone is kept (late results, stale batches with its id, failures of the database,
  restarts), it is neither in the queue, nor waiting to be saved, nor in the database.
\<close>

theorem removed_stays_removed:
  assumes run: "queue_run db es en" and w: "walks (ev_walk E)"
    and cl: "clear_terminal E d b expected en = (Ok ids, en1)" and i: "i \<in> set ids"
    and later: "queue_reaches en1 es' en2" and keep: "\<forall>e\<in>set es'. retains (ev_now E div 1000) e"
  shows "bt_get (en_jobs en2) i = None \<and> bt_get (en_pending en2) i = None \<and> bt_get (db_rows (en_db en2)) i = None"
proof -
  have inv: "queue_inv en" by (rule run_inv [OF run])
  have inv1: "queue_inv en1" using clear_inv [OF inv w, of d b expected] cl by simp
  have "entombed i (ev_now E div 1000) en2"
    by (rule reaches_entombed [OF later inv1 cleared_entombed [OF inv w cl i] keep])
  then show ?thesis using entombed_gone [OF reaches_inv [OF later inv1]] by blast
qed

definition sample_cleared :: engine where
  "sample_cleared = snd (clear_terminal (sample_env 4000) UploadDirection False None sample_finished)"

lemma sample_cleared_ids:
  "clear_terminal (sample_env 4000) UploadDirection False None sample_finished = (Ok [us ''a''], sample_cleared)"
  unfolding sample_cleared_def sample_finished_value sample_queue_value
  by (simp add: clear_terminal_def sample_defs Let_def delete_many_def transaction_def fails_def)

theorem removed_stays_removed_witness:
  "bt_get (en_jobs (apply_event (Restart no_faults no_faults no_faults id 5 5) sample_cleared)) (us ''a'') = None"
proof -
  let ?e = "Restart no_faults no_faults no_faults id 5 5"
  have later: "queue_reaches sample_cleared ([] @ [?e]) (apply_event ?e sample_cleared)"
    by (rule queue_reaches.intros(2) [OF queue_reaches.intros(1)]) simp
  have keep: "\<forall>e\<in>set ([] @ [?e]). retains (ev_now (sample_env 4000) div 1000) e"
    by (simp add: saturating_sub_i64_def TOMBSTONE_RETENTION_SECS_def)
  have "walks (ev_walk (sample_env 4000))" "us ''a'' \<in> set [us ''a'']" by simp_all
  then show ?thesis
    using removed_stays_removed [OF sample_finished_run _ sample_cleared_ids _ later keep] by blast
qed

section \<open>Restart\<close>

text \<open>C32: What a restart makes of the queue, wherever the process was cut off: a transfer that was answered
  as completed is in the queue again exactly as it was; one the database holds as running is paused,
  with its owner, and does not run; the record of a supervised transfer is gone.
\<close>

theorem restart_recovers_queue:
  assumes run: "queue_run db es en" and w: "walks walk"
    and op: "open_store F F' F'' walk now secs (en_db en) = (Ok loaded, db')"
  shows "(bt_get (en_jobs en) i = Some j \<and> job_status j = Completed \<and> \<not> job_unsaved j \<and> job_origin j = None \<longrightarrow>
      bt_get (en_jobs (initialize_engine db' loaded)) i = Some j) \<and>
    (bt_get (db_rows (en_db en)) i = Some r \<and> job_origin r = None \<and> status_is_active (job_status r) \<longrightarrow>
      (\<exists>k. bt_get (en_jobs (initialize_engine db' loaded)) i = Some k \<and> job_status k = Paused \<and> job_owner k = job_owner r)) \<and>
    (bt_get (db_rows (en_db en)) i = Some r \<and> job_origin r \<noteq> None \<longrightarrow>
      bt_get (en_jobs (initialize_engine db' loaded)) i = None) \<and>
    en_active (initialize_engine db' loaded) = []"
proof -
  have inv: "queue_inv en" by (rule run_inv [OF run])
  note c = open_store_cases [OF op queue_inv_db [OF inv] w]
  have new: "bt_get (en_jobs (initialize_engine db' loaded)) i = loaded_job now (bt_get (db_rows (en_db en)) i)"
    using initialize_get [of loaded db'] c by simp
  show ?thesis
  proof (intro conjI impI)
    assume a: "bt_get (en_jobs en) i = Some j \<and> job_status j = Completed \<and> \<not> job_unsaved j \<and> job_origin j = None"
    then have "bt_get (db_rows (en_db en)) i = Some j"
      using queue_invD(2) [OF inv, of i] transfer_inv_job(5) by metis
    then show "bt_get (en_jobs (initialize_engine db' loaded)) i = Some j"
      using a unfolding new by (simp add: loaded_job_def repaired_def recover_after_restart_def is_terminal_def status_is_active_def)
  next
    assume a: "bt_get (db_rows (en_db en)) i = Some r \<and> job_origin r = None \<and> status_is_active (job_status r)"
    then show "\<exists>k. bt_get (en_jobs (initialize_engine db' loaded)) i = Some k \<and> job_status k = Paused \<and> job_owner k = job_owner r"
      unfolding new by (simp add: loaded_job_def repaired_def recover_after_restart_def)
  next
    assume "bt_get (db_rows (en_db en)) i = Some r \<and> job_origin r \<noteq> None"
    then show "bt_get (en_jobs (initialize_engine db' loaded)) i = None" unfolding new by (simp add: loaded_job_def)
  qed (simp add: initialize_engine_def)
qed

definition sample_reopened :: "(str + transfer_job list) \<times> transfer_db" where
  "sample_reopened = open_store no_faults no_faults no_faults id 5 5 (en_db sample_finished)"

lemma sample_reopened_Ok: "\<exists>loaded db'. sample_reopened = (Ok loaded, db')"
  unfolding sample_reopened_def sample_finished_value
  by (simp add: open_store_def fails_def maintain_tombstones_def date_tombstones_def expire_tombstones_def bt_retain_def
      load_all_from_def recover_after_restart_def is_terminal_def status_is_active_def upsert_on_def put_row_def Let_def
      next_revision_def saturating_add_u64_def)

theorem restart_recovers_queue_witness:
  "\<exists>loaded db'. sample_reopened = (Ok loaded, db') \<and>
     bt_get (en_jobs (initialize_engine db' loaded)) (us ''a'') = Some sample_result"
proof -
  obtain loaded db' where op: "sample_reopened = (Ok loaded, db')" using sample_reopened_Ok by blast
  have j: "bt_get (en_jobs sample_finished) (us ''a'') = Some sample_result" by (simp add: sample_finished_value)
  have "walks id" by simp
  from restart_recovers_queue [OF sample_finished_run this op [unfolded sample_reopened_def], of "us ''a''" sample_result sample_result]
  show ?thesis using j op sample_result_fields by blast
qed

end
