(* ===== verification/Transfer_Rest.thy ===== *)
theory Transfer_Rest
  imports Transfer_Removal
begin

text \<open>
  A transfer the user paused or cancelled stays at rest: no event but a resume, a retry or a new
  request with its id makes the queue start it again.
\<close>

section \<open>At rest\<close>

definition rest_status :: "direction option \<Rightarrow> transfer_status \<Rightarrow> bool" where
  "rest_status run s \<longleftrightarrow> s \<in> {Paused, Cancelled} \<or> s = Completed \<and> run = None"

definition resting :: "transfer_job option \<Rightarrow> transfer_job option \<Rightarrow> direction option \<Rightarrow> bool" where
  "resting row job run \<longleftrightarrow> pred_option (\<lambda>r. job_status r \<in> {Paused, Cancelled, Completed}) row \<and>
     pred_option (\<lambda>j. rest_status run (job_status j)) job"

abbreviation at_rest :: "str \<Rightarrow> engine \<Rightarrow> bool" where
  "at_rest i en \<equiv> resting (bt_get (db_rows (en_db en)) i) (bt_get (en_jobs en) i) (bt_get (en_active en) i)"

text \<open>The events that may set a transfer going again.\<close>

fun wakes :: "str \<Rightarrow> queue_event \<Rightarrow> bool" where
  "wakes i (Act E k action expected) \<longleftrightarrow> k = i \<and> action \<in> {ResumeAction, RetryAction}"
| "wakes i (Enqueue lower V E requests) \<longleftrightarrow> i \<in> rq_id ` set requests"
| "wakes i _ \<longleftrightarrow> False"

lemma restingD: "resting row (Some j) run \<Longrightarrow> rest_status run (job_status j)"
  by (simp add: resting_def)

lemma at_restD: "at_rest i en \<Longrightarrow> bt_get (en_jobs en) i = Some j \<Longrightarrow> rest_status (bt_get (en_active en) i) (job_status j)"
  using restingD by fastforce

lemma rest_status_row: "rest_status run s \<Longrightarrow> s \<in> {Paused, Cancelled, Completed}"
  by (auto simp: rest_status_def)

lemma rest_idle: "rest_status run s \<Longrightarrow> rest_status None s"
  by (auto simp: rest_status_def)

text \<open>A batch that was saved without the transfer, or with a resting state of it.\<close>

lemma committed_rest:
  assumes c: "committed js en en'" and r: "at_rest i en"
    and js: "\<And>j. j \<in> set js \<Longrightarrow> job_id j = i \<Longrightarrow> rest_status (bt_get (en_active en) i) (job_status j)"
  shows "at_rest i en'"
proof (cases "i \<in> job_id ` set js")
  case True
  then obtain j where j: "j \<in> set js" "job_id j = i" by blast
  have s: "rest_status (bt_get (en_active en) i) (job_status j)" by (rule js [OF j])
  show ?thesis
    using committedD(4,5) [OF c j(1)] j s rest_status_row [OF s] by (simp add: resting_def committedD(8) [OF c])
next
  case False
  then show ?thesis using r by (simp add: committedD(6,7) [OF c] committedD(8) [OF c])
qed

section \<open>Every event keeps the rest\<close>

lemma enqueue_rest:
  assumes inv: "queue_inv en" and p: "possible (Enqueue lower V E qs) en" and r: "at_rest i en" and i: "i \<notin> rq_id ` set qs"
  shows "at_rest i (snd (enqueue_many lower V E qs en))"
proof -
  obtain q en' where e: "enqueue_many lower V E qs en = (q, en')" by (metis surj_pair)
  from enqueue_cases [OF inv p e] show ?thesis
  proof
    assume "\<exists>a js en1 tokens. q = Ok js \<and> engine_account E None = Ok a \<and> batch_of en qs js \<and> committed js en en1 \<and>
       check_requests a qs = Ok () \<and>
       en' = en1\<lparr>en_tokens := fold (\<lambda>(i, t). bt_insert i t) tokens (en_tokens en1)\<rparr>"
    then obtain js en1 tokens where b: "batch_of en qs js" and c: "committed js en en1"
      and en': "en' = en1\<lparr>en_tokens := tokens\<rparr>" by blast
    have "at_rest i en1"
    proof (rule committed_rest [OF c r])
      fix j assume j: "j \<in> set js" "job_id j = i"
      show "rest_status (bt_get (en_active en) i) (job_status j)"
      proof (cases "bt_get (en_jobs en) i = Some j")
        case True
        then show ?thesis using at_restD [OF r] by blast
      next
        case False
        then have "new_entry en qs j" using b j unfolding batch_of_def by metis
        then show ?thesis using i j(2) by (auto simp: new_entry_def)
      qed
    qed
    then show ?thesis using e en' by simp
  qed (use e r in auto)
qed

lemma transition_rest:
  assumes inv: "queue_inv en" and r: "at_rest i en" and w: "\<not> wakes i (Act E k action expected)"
  shows "at_rest i (snd (transition E k action expected en))"
proof -
  obtain q en' where t: "transition E k action expected en = (q, en')" by (metis surj_pair)
  from inv t have "at_rest i en'"
  proof (cases rule: transition_cases)
    case (result a j p en1)
    then obtain p0 where p0: "bt_get (en_pending en) k = Some p0" "job_status p = job_status p0" "job_id p = job_id p0" by auto
    have "at_rest i en1"
    proof (rule committed_rest [OF result(5) r])
      fix x assume x: "x \<in> set [p]" "job_id x = i"
      have "job_id p0 = k" "job_status j = job_status p0"
        using queue_invD(2) [OF inv, of k, unfolded p0(1)] result(3) by (metis option.inject transfer_inv_result)+
      then show "rest_status (bt_get (en_active en) i) (job_status x)"
        using x p0 at_restD [OF r] result(3) by auto
    qed
    then show ?thesis using result(7) by simp
  next
    case (acted a j c en1)
    note fr = apply_action_frame [OF acted(6)]
    have "at_rest i en1"
    proof (rule committed_rest [OF acted(7) r])
      fix x assume x: "x \<in> set [acted_job E c]" "job_id x = i"
      then have k: "k = i" using fr(1) job_has_id [OF inv acted(3)] by simp
      then have "rest_status (bt_get (en_active en) i) (job_status j)" using at_restD [OF r] acted(3) by blast
      moreover have "action \<in> {PauseAction, CancelAction}" using w k by (cases action) simp_all
      ultimately show "rest_status (bt_get (en_active en) i) (job_status x)"
        using acted(6) x(1) by (auto simp: apply_action_def rest_status_def split: if_splits)
    qed
    then show ?thesis using acted(9) by auto
  qed (use r in simp_all)
  then show ?thesis using t by simp
qed

lemma adopt_rest:
  assumes inv: "queue_inv en" and r: "at_rest i en"
  shows "at_rest i (snd (adopt_transfers E owner ids b en))"
  using inv
proof (cases rule: adopt_cases [of en E owner ids b])
  case (adopted js)
  show ?thesis
  proof (rule committed_rest [OF adopted(1) r])
    fix j assume j: "j \<in> set js" "job_id j = i"
    then obtain j0 where j0: "bt_get (en_jobs en) i = Some j0" and ad: "adopt_legacy (ev_stamp E) owner j0 = Ok j"
      using adopted(2) by blast
    show "rest_status (bt_get (en_active en) i) (job_status j)"
      using ad at_restD [OF r j0] by (auto simp: adopt_legacy_def rest_status_def is_terminal_def split: if_splits)
  qed
qed (use r in simp)

text \<open>A single job saved, or not.\<close>

lemma commit_one_rest:
  assumes c: "commit_jobs F [j] en = (q, en')" and r: "at_rest i en"
    and j: "job_id j = i \<Longrightarrow> rest_status (bt_get (en_active en) i) (job_status j)"
  shows "at_rest i en' \<and> en_active en' = en_active en"
  using c
proof (cases rule: commit_jobs_cases)
  case saved
  show ?thesis
  proof (cases "job_id j = i")
    case True
    have "job_status j \<in> {Paused, Cancelled, Completed}" using rest_status_row [OF j [OF True]] .
    then show ?thesis using r j [OF True] True unfolding saved(2)
      by (auto simp: resting_def put_row_get split: option.split)
  next
    case False
    then show ?thesis using r unfolding saved(2) by (simp add: put_row_get)
  qed
qed (use r in simp)

lemma progress_rest:
  assumes inv: "queue_inv en" and r: "at_rest i en"
  shows "at_rest i (record_progress E k phase p t n s en)"
proof (cases "k = i")
  case True
  then have "record_progress E k phase p t n s en = en"
    using at_restD [OF r] by (auto simp: record_progress_def rest_status_def status_is_active_def split: option.split)
  then show ?thesis using r by simp
next
  case False
  have "bt_get (db_rows (snd (upsert F u (en_db en)))) i = bt_get (db_rows (en_db en)) i" if "job_id u \<noteq> i" for F u
    using that upsert_cases [of F u "en_db en"] by (cases "upsert F u (en_db en)") (auto simp: put_row_get)
  moreover have "job_id x \<noteq> i" if "bt_get (en_jobs en) k = Some x" for x
    using job_has_id [OF inv that] False by simp
  ultimately show ?thesis using False r by (auto simp: record_progress_def Let_def split: option.split)
qed

lemma finish_rest:
  assumes inv: "queue_inv en" and r: "at_rest i en" and run: "bt_contains (en_active en) k"
  shows "at_rest i (snd (finish_run lower pp E k result en))"
proof -
  define en0 where "en0 = en\<lparr>en_active := bt_remove k (en_active en), en_checkpoints := bt_remove k (en_checkpoints en)\<rparr>"
  have r0: "at_rest i en0"
    using r rest_idle by (auto simp: en0_def resting_def option.pred_set split: option.split)
  show ?thesis
  proof (cases "bt_get (en_jobs en) k")
    case None
    then show ?thesis using r0 by (simp add: finish_run_def en0_def)
  next
    case (Some cur)
    define res where "res = (settle_run lower pp E result cur)\<lparr>job_unsaved := False\<rparr>"
    have out: "snd (finish_run lower pp E k result en) = snd (commit_result (ev_faults E) (settle_run lower pp E result cur) en0)"
      using Some by (simp add: finish_run_def en0_def)
    have idc: "job_id cur = k" by (rule job_has_id [OF inv Some])
    have ids: "job_id res = k" by (simp add: res_def settle_run_frame idc)
    have rest: "rest_status (bt_get (en_active en0) i) (job_status res)" if "k = i"
    proof -
      have "rest_status (bt_get (en_active en) i) (job_status cur)" using at_restD [OF r] Some that by simp
      then have "job_status cur \<in> {Paused, Cancelled}" using run that by (auto simp: rest_status_def bt_contains_def)
      then show ?thesis using that
        by (auto simp: res_def settle_run_def en0_def rest_status_def finished_job_frame failed_job_def Let_def split: sum.split)
    qed
    obtain q en1 where c: "commit_jobs (ev_faults E) [res] en0 = (q, en1)" by (metis surj_pair)
    have j: "job_id res = i \<Longrightarrow> rest_status (bt_get (en_active en0) i) (job_status res)" using rest ids by simp
    have one: "at_rest i en1" "en_active en1 = en_active en0" using commit_one_rest [OF c r0 j] by blast+
    have ids': "job_id (settle_run lower pp E result cur) = k" by (simp add: settle_run_frame idc)
    show ?thesis
    proof (cases q)
      case (Inl e)
      have "at_rest i (en1\<lparr>en_pending := ps, en_jobs := bt_insert (job_id res) (res\<lparr>job_unsaved := True, job_error := x, job_category := y\<rparr>) (en_jobs en1)\<rparr>)" for ps x y
        using one j by (auto simp: resting_def)
      then show ?thesis using Inl c ids ids' unfolding out commit_result_def res_def [symmetric] Let_def by simp
    next
      case (Inr u)
      then show ?thesis using one c unfolding out commit_result_def res_def [symmetric] Let_def by simp
    qed
  qed
qed

lemma retry_rest:
  assumes "at_rest i en" "\<And>p. p \<in> set rs \<Longrightarrow> job_id p = i \<Longrightarrow> rest_status (bt_get (en_active en) i) (job_status p)"
  shows "at_rest i (snd (retry_commits E rs en)) \<and> en_active (snd (retry_commits E rs en)) = en_active en"
  using assms
proof (induction rs arbitrary: en)
  case (Cons p rs)
  let ?j = "(next_revision p)\<lparr>job_unsaved := False\<rparr>"
  obtain q en1 where c: "commit_jobs (ev_retry_faults E (job_id p)) [?j] en = (q, en1)" by (metis surj_pair)
  have "at_rest i en1 \<and> en_active en1 = en_active en"
    by (rule commit_one_rest [OF c Cons.prems(1)]) (use Cons.prems(2) [of p] in simp)
  then have one: "at_rest i en1" "en_active en1 = en_active en" by blast+
  have "at_rest i (snd (retry_commits E rs (en1\<lparr>en_pending := ps\<rparr>))) \<and>
      en_active (snd (retry_commits E rs (en1\<lparr>en_pending := ps\<rparr>))) = en_active en" for ps
    using Cons.IH [of "en1\<lparr>en_pending := ps\<rparr>"] Cons.prems(2) one by auto
  from this [of "en_pending en1"] this [of "bt_remove (job_id p) (en_pending en1)"] show ?case
    using c by (cases q) (auto simp: Let_def)
qed simp

lemma refuse_rest: "i \<notin> job_id ` set ss \<Longrightarrow> at_rest i en \<Longrightarrow> at_rest i (fold (refuse_start e) ss en)"
proof (induction ss arbitrary: en)
  case (Cons s ss)
  have "at_rest i (refuse_start e s en)" using Cons.prems by (auto simp: refuse_start_def split: option.split)
  then show ?case using Cons by simp
qed simp

lemma start_rest:
  assumes inv: "queue_inv en" and w: "walks (ev_walk E)" and r: "at_rest i en" and st: "start_jobs E en = (started, en')"
  shows "at_rest i en' \<and> i \<notin> job_id ` set started"
proof -
  have none: "i \<notin> job_id ` set (selected_jobs E owner en)" for owner
  proof
    assume "i \<in> job_id ` set (selected_jobs E owner en)"
    then obtain s where s: "s \<in> set (selected_jobs E owner en)" "job_id s = i" by blast
    obtain j where "bt_get (en_jobs en) i = Some j" "job_status j \<in> {Pending, WaitingForNetwork, Cooldown}"
      using selected_props(2) [OF inv w s(1)] s(2) by blast
    then show False using at_restD [OF r] by (auto simp: rest_status_def)
  qed
  have saved: "at_rest i en1" if "commit_jobs F (selected_jobs E owner en) en = (q, en1)" for F owner q en1
    using that
  proof (cases rule: commit_jobs_cases)
    case saved
    show ?thesis unfolding saved(2) using r fold_put_row_other [OF none] fold_insert_jobs_other [OF none, of "\<lambda>j. j"] by simp
  qed (use r in simp)
  show ?thesis
    using st r none saved fold_insert_jobs_other [OF none, of job_direction] refuse_rest [OF none saved]
    by (auto simp: start_jobs_def Let_def split: sum.splits if_splits prod.splits)
qed

lemma schedule_rest:
  assumes inv: "queue_inv en" and w: "walks (ev_walk E)" and r: "at_rest i en"
    and sc: "schedule_once E en = ((saved, started), en')"
  shows "at_rest i en' \<and> i \<notin> job_id ` set started"
proof (cases "en_shutting_down en")
  case True
  then show ?thesis using sc r by (simp add: schedule_once_def)
next
  case False
  define rs where "rs = ev_walk E (bt_values (en_pending en))"
  define mid where "mid = snd (retry_commits E rs en)"
  have st: "start_jobs E mid = (started, en')"
    using sc False by (auto simp: schedule_once_def mid_def rs_def split: prod.splits)
  have "rest_status (bt_get (en_active en) i) (job_status p)" if p: "p \<in> set rs" "job_id p = i" for p
  proof -
    have "p \<in> set (bt_values (en_pending en))" using p(1) walks_set [OF w] unfolding rs_def by blast
    then obtain k where k: "bt_get (en_pending en) k = Some p"
      using bt_values_get queue_invD(1) [OF inv] by (metis maps_ok_def)
    then obtain j where "bt_get (en_jobs en) k = Some j" "job_id p = k" "job_status j = job_status p"
      using queue_invD(2) [OF inv, of k] by (metis transfer_inv_result)
    then show ?thesis using at_restD [OF r] p(2) by metis
  qed
  then have "at_rest i mid" using retry_rest [OF r] unfolding mid_def by blast
  moreover have "queue_inv mid" using schedule_retries_inv [OF inv w] unfolding mid_def rs_def .
  ultimately show ?thesis using start_rest [OF _ w _ st] by blast
qed

text \<open>A removal leaves the transfer as it was or takes its record or its job away.\<close>

lemma resting_less:
  assumes "resting row job run" "row' = row \<or> row' = None" "job' = job \<or> job' = None"
  shows "resting row' job' run"
  using assms by (auto simp: resting_def)

lemma removal_rest:
  assumes inv: "queue_inv en" and r: "at_rest i en"
  shows "at_rest i (snd (clear_terminal E d b expected en))" "at_rest i (snd (discard_legacy E owner ids en))"
    and "at_rest i (withdraw E k en)"
proof -
  have ok: "bt_ok (db_rows (en_db en))" "bt_ok (db_tombstones (en_db en))"
    using queue_invD(1) [OF inv] by (simp_all add: maps_ok_def)
  have rows: "bt_get (db_rows db') i = bt_get (db_rows (en_db en)) i \<or> bt_get (db_rows db') i = None"
    if "delete_many F now ks (en_db en) = (q, db')" for F now ks q db'
    using delete_many_cases [OF that ok] by metis
  have gone: "at_rest i (forget_jobs ks (en\<lparr>en_db := db'\<rparr>))"
    if "delete_many F now ks (en_db en) = (q, db')" for F now ks q db'
    using resting_less [OF r rows [OF that], of "if i \<in> set ks then None else bt_get (en_jobs en) i"]
    by (simp add: forget_jobs_def fold_remove_get)
  have kept: "at_rest i (en\<lparr>en_db := db'\<rparr>)" if "delete_many F now ks (en_db en) = (q, db')" for F now ks q db'
    using resting_less [OF r rows [OF that], of "bt_get (en_jobs en) i"] by simp
  show "at_rest i (snd (clear_terminal E d b expected en))" "at_rest i (snd (discard_legacy E owner ids en))"
    using r gone kept by (simp_all add: clear_terminal_def discard_legacy_def Let_def split: sum.split prod.split)
  obtain q db' where del: "delete_many (ev_faults E) (ev_now E div 1000) [k] (en_db en) = (q, db')" by (metis surj_pair)
  show "at_rest i (withdraw E k en)"
    using r resting_less [OF r rows [OF del], of None] resting_less [OF r rows [OF del], of "bt_get (en_jobs en) i"]
    by (auto simp: withdraw_def Let_def del)
qed

section \<open>Restarts\<close>

abbreviation resting_row :: "transfer_job option \<Rightarrow> bool" where
  "resting_row row \<equiv> resting row None None"

lemma recover_rest:
  assumes "recover_all F k now js db = (q, db')" "resting_row (bt_get (db_rows db) i)"
  shows "resting_row (bt_get (db_rows db') i)"
  using assms
proof (induction js arbitrary: k db q)
  case (Cons j js)
  show ?case
  proof (cases "recover_after_restart now j")
    case None
    then obtain q' where "recover_all F k now js db = (q', db')" using Cons.prems(1) by (auto simp: apfst_def map_prod_def split: prod.splits)
    then show ?thesis using Cons.IH Cons.prems(2) by blast
  next
    case (Some rep)
    then have p: "job_status rep = Paused" by (auto simp: recover_after_restart_def split: if_splits)
    show ?thesis
    proof (cases "upsert_on F k rep db")
      case (Inl e)
      then show ?thesis using Cons.prems Some by simp
    next
      case (Inr db1)
      then obtain q' where rec: "recover_all F (k + 2) now js db1 = (q', db')"
        using Cons.prems(1) Some by (auto simp: apfst_def map_prod_def split: prod.splits)
      have "resting_row (bt_get (db_rows db1) i)"
        using upsert_on_Ok [OF Inr] Cons.prems(2) p by (auto simp: resting_def put_row_get split: option.split)
      then show ?thesis using Cons.IH [OF rec] by blast
    qed
  qed
qed simp

lemma open_rest:
  assumes op: "open_store F F' F'' walk now secs db = (q, db')" and r: "resting_row (bt_get (db_rows db) i)"
  shows "resting_row (bt_get (db_rows db') i)"
proof -
  have m: "db_rows db1 = db_rows db" if "maintain_tombstones F secs db = (q1, db1)" for q1 db1
    using that by (auto simp: maintain_tombstones_def date_tombstones_def expire_tombstones_def split: sum.splits)
  have o: "resting_row (bt_get (db_rows db2) i)"
    if "drop_orphans F' 0 ids db1 = (q2, db2)" "db_rows db1 = db_rows db" for ids db1 q2 db2
    using drop_orphans_Ok [OF that(1)] r that(2) by (cases "bt_get (db_rows db2) i") (auto simp: resting_def)
  show ?thesis
    using op r by (auto simp: open_store_def Let_def split: sum.splits prod.splits dest!: m dest: o recover_rest)
qed

lemma restart_rest:
  assumes inv: "queue_inv en" and w: "walks walk" and r: "at_rest i en"
  shows "at_rest i (restart_engine F F' F'' walk now secs (en_db en))"
proof -
  obtain q db where op: "open_store F F' F'' walk now secs (en_db en) = (q, db)" by (metis surj_pair)
  have row: "resting_row (bt_get (db_rows db) i)"
    by (rule open_rest [OF op]) (use r in \<open>simp add: resting_def\<close>)
  show ?thesis
  proof (cases q)
    case (Inl e)
    then show ?thesis using op row by (simp add: restart_engine_def initialize_engine_def resting_def)
  next
    case (Inr loaded)
    have "bt_get (en_jobs (initialize_engine db loaded)) i = bt_get (db_rows db) i"
      using initialize_get [of loaded db] open_store_cases [OF op [unfolded Inr] queue_inv_db [OF inv] w] by simp
    then have "at_rest i (initialize_engine db loaded)"
      using row by (cases "bt_get (db_rows db) i") (auto simp: resting_def rest_status_def initialize_engine_def)
    then show ?thesis using op Inr by (simp add: restart_engine_def)
  qed
qed

lemma event_rest:
  assumes inv: "queue_inv en" and p: "possible e en" and r: "at_rest i en" and w: "\<not> wakes i e"
  shows "at_rest i (apply_event e en)"
proof (cases e)
  case (Enqueue lower V E qs)
  then show ?thesis using enqueue_rest [OF inv _ r] p w by simp
next
  case (Act E k action expected)
  then show ?thesis using transition_rest [OF inv r] w by simp
next
  case (ScheduleRound E)
  obtain saved started en' where sc: "schedule_once E en = ((saved, started), en')" by (metis surj_pair)
  then show ?thesis using schedule_rest [OF inv _ r sc] p ScheduleRound by simp
next
  case (Progress E k phase p t n s)
  then show ?thesis using progress_rest [OF inv r] by simp
next
  case (FinishRun lower pp E k result)
  then show ?thesis using finish_rest [OF inv r] p by simp
next
  case (SupplyToken E k t)
  then show ?thesis using r by (simp add: supply_prompt_token_def split: sum.split)
next
  case (Clear E d b expected)
  then show ?thesis using removal_rest(1) [OF inv r] by simp
next
  case (Withdraw E k)
  then show ?thesis using removal_rest(3) [OF inv r] by simp
next
  case (Adopt E owner ids b)
  then show ?thesis using adopt_rest [OF inv r] by simp
next
  case (Discard E owner ids)
  then show ?thesis using removal_rest(2) [OF inv r] by simp
next
  case (Restart F F' F'' walk now secs)
  then show ?thesis using restart_rest [OF inv _ r] p by simp
qed (use r in \<open>simp_all add: begin_run_def withdraw_settled_def set_limits_def\<close>)

lemma reaches_rest:
  "queue_reaches en es en' \<Longrightarrow> queue_inv en \<Longrightarrow> at_rest i en \<Longrightarrow> \<forall>e\<in>set es. \<not> wakes i e \<Longrightarrow> at_rest i en'"
proof (induction rule: queue_reaches.induct)
  case (event en es en' e)
  then show ?case by (intro event_rest reaches_inv [OF event.hyps(1)]) simp_all
qed

section \<open>Paused transfers\<close>

lemma paused_at_rest:
  assumes inv: "queue_inv en" and t: "transition E i action expected en = (Ok j, en1)"
    and a: "action \<in> {PauseAction, CancelAction}" and s: "job_status j \<in> {Paused, Cancelled}"
    and open_job: "\<And>j0. bt_get (en_jobs en) i = Some j0 \<Longrightarrow> \<not> is_terminal (job_status j0)"
  shows "at_rest i en1"
proof -
  have rest: "at_rest i en'" if "committed [j] en en'" "job_id j = i" for en'
    using committedD(4,5) [OF that(1), of j] that(2) s by (auto simp: resting_def rest_status_def)
  from inv t show ?thesis
  proof (cases rule: transition_cases)
    case (unchanged j0)
    then show ?thesis using open_job [OF unchanged(3)] a by (auto simp: apply_action_def split: if_splits)
  next
    case (result a' j0 p en2)
    then obtain p0 where p0: "bt_get (en_pending en) i = Some p0" "job_id p = job_id p0" by auto
    have "job_id p0 = i" using queue_invD(2) [OF inv, of i, unfolded p0(1)] by (metis transfer_inv_result)
    then show ?thesis using rest result p0 by auto
  next
    case (acted a' j0 c en2)
    have "job_id c = i" using apply_action_frame(1) [OF acted(6)] job_has_id [OF inv acted(3)] by simp
    then show ?thesis using rest [of en2] acted by auto
  qed simp
qed

text \<open>C29: An unfinished transfer the user paused or cancelled is never started again by a scheduling round,
  whatever happens in between (the end of its run, progress that comes late, retried writes, other
  transfers, failures of the database, restarts), unless it is resumed, retried or enqueued again.
\<close>

theorem paused_stays_paused:
  assumes run: "queue_run db es en" and t: "transition E i action expected en = (Ok j, en1)"
    and a: "action \<in> {PauseAction, CancelAction}" and s: "job_status j \<in> {Paused, Cancelled}"
    and unfinished: "bt_get (en_jobs en) i = Some j0" "\<not> is_terminal (job_status j0)"
    and later: "queue_reaches en1 es' en2" and quiet: "\<forall>e\<in>set es'. \<not> wakes i e"
    and w: "walks (ev_walk E')" and sc: "schedule_once E' en2 = ((saved, started), en3)"
  shows "i \<notin> job_id ` set started"
proof -
  have inv: "queue_inv en" by (rule run_inv [OF run])
  have inv1: "queue_inv en1" using transition_inv [OF inv, of E i action expected] t by simp
  have "at_rest i en1"
    by (rule paused_at_rest [OF inv t a s]) (use unfinished in simp)
  then have "at_rest i en2" using reaches_rest [OF later inv1] quiet by blast
  then show ?thesis using schedule_rest [OF reaches_inv [OF later inv1] w _ sc] by blast
qed

definition sample_pause :: "(str + transfer_job) \<times> engine" where
  "sample_pause = transition (sample_env 3) (us ''a'') PauseAction None sample_running"

lemma sample_pause_Ok: "\<exists>j en. sample_pause = (Ok j, en) \<and> job_status j = Paused"
  unfolding sample_pause_def sample_running_value sample_queue_value
  by (simp add: transition_def sample_defs apply_action_def is_terminal_def acted_job_def next_revision_def
      saturating_add_u64_def commit_jobs_def upsert_many_def transaction_def upsert_on_def put_row_def fails_def Let_def)

theorem paused_stays_paused_witness:
  "us ''a'' \<notin> job_id ` set (snd (fst (schedule_once (sample_env 9)
     (apply_event (Restart no_faults no_faults no_faults id 5 5) (snd sample_pause)))))"
proof -
  let ?e = "Restart no_faults no_faults no_faults id 5 5"
  obtain j en1 where t: "sample_pause = (Ok j, en1)" and s: "job_status j = Paused" using sample_pause_Ok by blast
  have later: "queue_reaches en1 ([] @ [?e]) (apply_event ?e en1)"
    by (rule queue_reaches.intros(2) [OF queue_reaches.intros(1)]) simp
  obtain saved started en3 where sc: "schedule_once (sample_env 9) (apply_event ?e en1) = ((saved, started), en3)"
    by (metis surj_pair)
  have j0: "bt_get (en_jobs sample_running) (us ''a'') = Some (sample_started_job ''a'' 1)" by (simp add: sample_running_value)
  have "us ''a'' \<notin> job_id ` set started"
    by (rule paused_stays_paused [OF sample_running_run t [unfolded sample_pause_def] _ _ j0 _ later _ _ sc])
      (use s in \<open>simp_all add: is_terminal_def\<close>)
  then show ?thesis unfolding t snd_conv sc fst_conv .
qed

end
