(* ===== verification/Transfer_Decisions.thy ===== *)
theory Transfer_Decisions
  imports Transfer_Rest
begin

text \<open>
  The queue's decisions one by one: what an acknowledged action leaves on the disk, how often a failing
  connection is tried again, and in which order waiting transfers get the free slots.
\<close>

section \<open>Acknowledged actions\<close>

text \<open>C34: An action on a transfer is all or nothing: an error leaves queue and database as they were, also
  when the database failed; an acknowledged change is in memory and in the database, for no other
  account than the owner's, and every other transfer is untouched.
\<close>

theorem action_saved_or_refused:
  assumes run: "queue_run db es en" and t: "transition E i action expected en = (r, en')"
  shows "case r of
      Err e \<Rightarrow> en' = en
    | Ok j \<Rightarrow> job_id j = i \<and> job_owner j = job_owner (the (bt_get (en_jobs en) i)) \<and>
        (en' \<noteq> en \<longrightarrow> bt_get (en_jobs en') i = Some j \<and> bt_get (db_rows (en_db en')) i = Some j \<and>
          (\<exists>owner. current_owner (ev_reads E) = Ok owner \<and> job_owner j = Some (us (show_int owner)))) \<and>
        (\<forall>k. k \<noteq> i \<longrightarrow> bt_get (en_jobs en') k = bt_get (en_jobs en) k \<and>
          bt_get (db_rows (en_db en')) k = bt_get (db_rows (en_db en)) k)"
proof -
  have inv: "queue_inv en" by (rule run_inv [OF run])
  have owner: "\<exists>owner. current_owner (ev_reads E) = Ok owner \<and> owner_text a = us (show_int owner)"
    if "engine_account E expected = Ok a" for a
    using open_account_Ok [OF that [unfolded engine_account_def]] by (auto simp: owner_text_def)
  from inv t show ?thesis
  proof (cases rule: transition_cases)
    case (unchanged j)
    then show ?thesis using job_has_id [OF inv unchanged(3)] by simp
  next
    case (result a j p en1)
    then obtain p0 where p0: "bt_get (en_pending en) i = Some p0" "job_id p = job_id p0" "job_owner p = job_owner p0" by auto
    have o: "job_id p0 = i" "job_owner j = job_owner p0"
      using queue_invD(2) [OF inv, of i, unfolded p0(1)] result(3) by (metis option.inject transfer_inv_result)+
    show ?thesis
      using result(1,3,4,7) p0 o owner [OF result(2)] committedD(4,5,6,7) [OF result(5)] by auto
  next
    case (acted a j c en1)
    note fr = apply_action_frame [OF acted(6)]
    have c: "job_id (acted_job E c) = i" "job_owner (acted_job E c) = job_owner j"
      using fr job_has_id [OF inv acted(3)] by simp_all
    have same: "en_db en' = en_db en1" "en_jobs en' = en_jobs en1" using acted(9) by auto
    show ?thesis
      using acted(1,3,4) c owner [OF acted(2)] committedD(4,5,6,7) [OF acted(7)] unfolding same by auto
  qed simp
qed

theorem action_saved_or_refused_witness:
  "\<exists>j. fst sample_pause = Ok j \<and> job_id j = us ''a''"
proof -
  obtain j en' where t: "sample_pause = (Ok j, en')" using sample_pause_Ok by blast
  have "job_id j = us ''a''"
    using action_saved_or_refused [OF sample_running_run t [unfolded sample_pause_def]] by simp
  then show ?thesis by (simp add: t)
qed

section \<open>Retries\<close>

definition connection_failure :: "(str \<Rightarrow> str) \<Rightarrow> str \<Rightarrow> bool" where
  "connection_failure lower e \<longleftrightarrow> classify_failure lower e = NetworkError \<and>
     \<not> mentions e [''VAULT_LOCKED'', ''KEY_REQUIRED''] \<and> \<not> mentions e [''Client not connected''] \<and>
     \<not> mentions e [''Transfer cancelled'']"

text \<open>A transfer that is started again each time its waiting time is over, and fails each time.\<close>

fun failing_runs ::
  "(str \<Rightarrow> str) \<Rightarrow> (engine_env \<times> str) list \<Rightarrow> transfer_job \<Rightarrow> transfer_job" where
  "failing_runs lower [] job = job"
| "failing_runs lower ((E, e) # rest) job =
     failing_runs lower rest (settle_run lower (\<lambda>_. None) E (Err e) (started_job E job))"

lemma classify_network:
  assumes "classify_failure lower e = NetworkError"
  shows "\<not> mentions e [''ACCOUNT_'']" "flood_wait_seconds e = None"
  using assms by (auto simp: classify_failure_def split: if_splits)

lemma one_failure:
  fixes job :: transfer_job and E :: engine_env
  assumes c: "connection_failure lower e"
  defines "job' \<equiv> settle_run lower (\<lambda>_. None) E (Err e) (started_job E job)"
  shows "unat (job_network_retries job) < 5 \<Longrightarrow>
      job_status job' = Cooldown \<and> unat (job_network_retries job') = unat (job_network_retries job) + 1 \<and>
      job_retry_at job' = Some (saturating_add_i64 (ev_now E) (NETWORK_RETRY_BACKOFF_SECS ! unat (job_network_retries job) * 1000))"
    and "5 \<le> unat (job_network_retries job) \<Longrightarrow>
      job_status job' = Failed \<and> job_network_retries job' = job_network_retries job"
proof -
  have st: "job_status (started_job E job) \<notin> {Pending, Paused, Cancelled}"
    "job_network_retries (started_job E job) = job_network_retries job"
    by (simp_all add: started_job_def next_revision_def)
  have f: "failed_job lower e (ev_now E) (started_job E job) = apply_failure lower e (ev_now E) (started_job E job)"
    using st(1) by (simp add: failed_job_def)
  note n = classify_network [of lower e]
  have inc: "unat (job_network_retries job + 1) = unat (job_network_retries job) + 1" if "unat (job_network_retries job) < 5"
    using that by (simp add: unat_word_ariths)
  show "unat (job_network_retries job) < 5 \<Longrightarrow>
      job_status job' = Cooldown \<and> unat (job_network_retries job') = unat (job_network_retries job) + 1 \<and>
      job_retry_at job' = Some (saturating_add_i64 (ev_now E) (NETWORK_RETRY_BACKOFF_SECS ! unat (job_network_retries job) * 1000))"
    using c n st inc unfolding job'_def settle_run_def sum.case f connection_failure_def
    by (simp add: apply_failure_def next_revision_def NETWORK_RETRY_BACKOFF_SECS_def)
  show "5 \<le> unat (job_network_retries job) \<Longrightarrow>
      job_status job' = Failed \<and> job_network_retries job' = job_network_retries job"
    using c n st unfolding job'_def settle_run_def sum.case f connection_failure_def
    by (simp add: apply_failure_def next_revision_def NETWORK_RETRY_BACKOFF_SECS_def)
qed

lemma failing_runs_snoc:
  "failing_runs lower (fs @ [(E, e)]) job = settle_run lower (\<lambda>_. None) E (Err e) (started_job E (failing_runs lower fs job))"
  by (induction lower fs job rule: failing_runs.induct) simp_all

lemma failures_spent:
  assumes "\<forall>(E, e)\<in>set fs. connection_failure lower e" "job_network_retries job = 0" "length fs \<le> 5"
  shows "unat (job_network_retries (failing_runs lower fs job)) = length fs"
  using assms
proof (induction fs rule: rev_induct)
  case (snoc x fs)
  obtain E e where x: "x = (E, e)" by (cases x)
  have k: "unat (job_network_retries (failing_runs lower fs job)) = length fs" using snoc by simp
  have c: "connection_failure lower e" using snoc.prems(1) x by simp
  show ?case
    using one_failure(1) [OF c, of "failing_runs lower fs job" E] k snoc.prems(3) unfolding x failing_runs_snoc by simp
qed simp

text \<open>A transfer whose connection fails again and again does not loop for ever: after each of the first
  five failures it waits 5, 15, 45, 120 and 300 seconds, and the sixth ends it.
\<close>

theorem network_failures_end:
  assumes net: "\<forall>(E, e)\<in>set (fs @ [(E, e)]). connection_failure lower e" and fresh: "job_network_retries job = 0"
  shows "(length fs < 5 \<longrightarrow>
      job_status (failing_runs lower (fs @ [(E, e)]) job) = Cooldown \<and>
      job_retry_at (failing_runs lower (fs @ [(E, e)]) job) =
        Some (saturating_add_i64 (ev_now E) ([5, 15, 45, 120, 300] ! length fs * 1000))) \<and>
    (length fs = 5 \<longrightarrow> job_status (failing_runs lower (fs @ [(E, e)]) job) = Failed)"
proof -
  have c: "connection_failure lower e" using net by simp
  have k: "length fs \<le> 5 \<Longrightarrow> unat (job_network_retries (failing_runs lower fs job)) = length fs"
    using failures_spent [of fs lower job] net fresh by simp
  show ?thesis
    using one_failure [OF c, of "failing_runs lower fs job" E] k
    unfolding failing_runs_snoc NETWORK_RETRY_BACKOFF_SECS_def by auto
qed

lemma sample_network: "connection_failure id (us ''timeout'')"
  unfolding connection_failure_def by code_simp

theorem network_failures_end_witness:
  "job_status (failing_runs id (replicate 6 (sample_env 3, us ''timeout'')) (sample_job ''a'' 1)) = Failed"
proof -
  let ?f = "(sample_env 3, us ''timeout'')"
  have net: "\<forall>(E, e)\<in>set (replicate 5 ?f @ [?f]). connection_failure id e" using sample_network by simp
  have six: "replicate 6 ?f = replicate 5 ?f @ [?f]" by (simp add: eval_nat_numeral)
  have "job_network_retries (sample_job ''a'' 1) = 0" by (simp add: sample_job_def new_job_def)
  from network_failures_end [OF net this] show ?thesis unfolding six by simp
qed

section \<open>Order\<close>

definition waiting_jobs :: "transfer_job list \<Rightarrow> (str \<Rightarrow> direction option) \<Rightarrow> direction \<Rightarrow> transfer_job list" where
  "waiting_jobs jobs active d =
     filter (\<lambda>j. job_direction j = d) (filter (\<lambda>j. job_status j = Pending \<and> active (job_id j) = None) jobs)"

definition chosen_jobs :: "transfer_job list \<Rightarrow> str list \<Rightarrow> direction \<Rightarrow> transfer_job list" where
  "chosen_jobs jobs ids d = filter (\<lambda>j. job_id j \<in> set ids \<and> job_direction j = d) jobs"

definition slots_of :: "nat \<Rightarrow> nat \<Rightarrow> direction \<Rightarrow> nat" where
  "slots_of uploads downloads d = (case d of UploadDirection \<Rightarrow> uploads | DownloadDirection \<Rightarrow> downloads)"

lemma selected_ids:
  "set (select_pending_job_ids jobs active u d) = job_id `
     (set (take u (sort_key job_position (waiting_jobs jobs active UploadDirection))) \<union>
      set (take d (sort_key job_position (waiting_jobs jobs active DownloadDirection))))"
  unfolding select_pending_job_ids_def set_take_slots filter_sort_key waiting_jobs_def ..

lemma set_chosen:
  assumes dist: "distinct (map job_id jobs)"
  shows "set (chosen_jobs jobs (select_pending_job_ids jobs active u dn) d) =
    set (take (slots_of u dn d) (sort_key job_position (waiting_jobs jobs active d)))"
proof -
  let ?t = "\<lambda>n d. set (take n (sort_key job_position (waiting_jobs jobs active d)))"
  have sub: "?t n d \<subseteq> {j \<in> set jobs. job_direction j = d}" for n d
    by (auto simp: waiting_jobs_def dest!: in_set_takeD)
  have inj: "a = b" if "job_id a = job_id b" "a \<in> set jobs" "b \<in> set jobs" for a b
    using dist that by (auto simp: distinct_map dest: inj_onD)
  have "j \<in> set (chosen_jobs jobs (select_pending_job_ids jobs active u dn) d) \<longleftrightarrow> j \<in> ?t (slots_of u dn d) d" for j
  proof
    assume "j \<in> set (chosen_jobs jobs (select_pending_job_ids jobs active u dn) d)"
    then have j: "j \<in> set jobs" "job_direction j = d"
      "job_id j \<in> job_id ` (?t u UploadDirection \<union> ?t dn DownloadDirection)"
      unfolding chosen_jobs_def selected_ids by auto
    then obtain k where k: "k \<in> ?t u UploadDirection \<union> ?t dn DownloadDirection" "job_id j = job_id k" using j(3) by (elim imageE)
    then have "k = j" using sub inj [of j k] j(1) by blast
    then show "j \<in> ?t (slots_of u dn d) d" using k(1) j(2) sub [of u UploadDirection] sub [of dn DownloadDirection]
      by (cases d) (auto simp: slots_of_def)
  next
    assume j: "j \<in> ?t (slots_of u dn d) d"
    then have "job_id j \<in> job_id ` (?t u UploadDirection \<union> ?t dn DownloadDirection)"
      by (cases d) (auto simp: slots_of_def)
    then show "j \<in> set (chosen_jobs jobs (select_pending_job_ids jobs active u dn) d)"
      using j sub unfolding chosen_jobs_def selected_ids by auto
  qed
  then show ?thesis by blast
qed

lemma length_chosen:
  assumes dist: "distinct (map job_id jobs)"
  shows "length (chosen_jobs jobs (select_pending_job_ids jobs active u dn) d) =
    length (take (slots_of u dn d) (sort_key job_position (waiting_jobs jobs active d)))"
proof -
  have dj: "distinct jobs" using dist by (simp add: distinct_map)
  then have "distinct (chosen_jobs jobs (select_pending_job_ids jobs active u dn) d)"
    "distinct (take (slots_of u dn d) (sort_key job_position (waiting_jobs jobs active d)))"
    by (simp_all add: chosen_jobs_def waiting_jobs_def distinct_take)
  then show ?thesis using set_chosen [OF dist] by (metis distinct_card)
qed

text \<open>The free slots of a direction go to its waiting transfers in the order of the queue: every transfer
  chosen is pending and idle, none is chosen twice, at most as many as there are slots, and one that is
  passed over finds all slots of its direction taken by transfers that are not behind it.
\<close>

theorem selection_follows_queue:
  assumes dist: "distinct (map job_id jobs)"
    and ids: "ids = select_pending_job_ids jobs active uploads downloads"
  shows "distinct ids \<and>
    set (chosen_jobs jobs ids d) \<subseteq> set (waiting_jobs jobs active d) \<and>
    length (chosen_jobs jobs ids d) \<le> slots_of uploads downloads d \<and>
    (\<forall>j\<in>set (waiting_jobs jobs active d). j \<notin> set (chosen_jobs jobs ids d) \<longrightarrow>
       length (chosen_jobs jobs ids d) = slots_of uploads downloads d \<and>
       (\<forall>k\<in>set (chosen_jobs jobs ids d). job_position k \<le> job_position j))"
  unfolding ids set_chosen [OF dist] length_chosen [OF dist]
  using select_distinct [OF dist] take_sorted_split [where f = job_position]
  by (auto dest: in_set_takeD)

theorem selection_follows_queue_witness:
  "length (chosen_jobs [sample_job ''a'' 2, sample_job ''b'' 1]
     (select_pending_job_ids [sample_job ''a'' 2, sample_job ''b'' 1] (\<lambda>_. None) 1 1) UploadDirection) \<le> 1"
proof -
  have "distinct (map job_id [sample_job ''a'' 2, sample_job ''b'' 1])" by simp
  from selection_follows_queue [OF this refl, of "\<lambda>_. None" 1 1 UploadDirection] show ?thesis
    by (simp add: slots_of_def)
qed

end
