(* ===== verification/Download_Contract.thy ===== *)
theory Download_Contract
  imports Transfer_Decisions
begin

text \<open>
  What the destinations of downloads promise: the names reserved for the new downloads of a batch are
  pairwise different and free, also for devices that ignore case, and publishing a finished download
  never overwrites a file unless replacing was asked for.
\<close>

section \<open>Siblings\<close>

lemma digits_slash: "SLASH \<notin> set (us (digits n))"
  using us_digits [of n] by (auto simp: list_all_iff is_ascii_digit_def SLASH_def)

lemma place_ok_snoc: "place_ok q \<Longrightarrow> q \<noteq> [] \<Longrightarrow> plain_name n \<Longrightarrow> place_ok (q @ [Normal n])"
  by (cases q) (auto simp: place_ok_def)

lemma place_ok_butlast: "place_ok p \<Longrightarrow> place_ok (butlast p)"
  by (cases p) (auto simp: place_ok_def list_all_iff dest: in_set_butlastD)

lemma parent_ok: "place_ok p \<Longrightarrow> place_ok (parent_place p) \<and> parent_place p \<noteq> []"
  using place_ok_butlast by (auto simp: parent_place_def place_ok_def)

lemma place_name_plain:
  assumes p: "place_ok p" and n: "place_name p = Some n"
  shows "plain_name n"
proof -
  have l: "p \<noteq> []" "last p = Normal n" using n by (auto simp: place_name_def split: if_splits component.splits)
  then have "Normal n \<in> set p" by (metis last_in_set)
  then have "inner_component (Normal n)" using p by (cases p) (auto simp: place_ok_def list_all_iff)
  then show ?thesis by simp
qed

lemma name_split_slash: "SLASH \<notin> set n \<Longrightarrow> name_split n = (stem, ext) \<Longrightarrow>
    SLASH \<notin> set stem \<and> (case ext of None \<Rightarrow> True | Some e \<Rightarrow> SLASH \<notin> set e)"
  using name_split_join [of n stem] by (cases ext) auto

lemma sibling_name_plain:
  assumes "SLASH \<notin> set stem" "SLASH \<notin> set suffix"
  shows "plain_name (stem @ us ('' ('' @ digits i @ '')'') @ suffix)"
proof -
  have "length (us ('' ('' @ digits i @ '')'')) \<ge> 3" by (simp add: us_def)
  then have "stem @ us ('' ('' @ digits i @ '')'') @ suffix \<noteq> x" if "length x \<le> 2" for x using that by auto
  moreover have "SLASH \<notin> set (us ('' ('' @ digits i @ '')''))"
    using digits_slash [of i] by (auto simp: us_def SLASH_def)
  ultimately show ?thesis using assms by (auto simp: plain_name_def us_def)
qed

lemma sibling_shape:
  assumes "place_ok p" "0 < i"
  obtains n where "sibling p i = parent_place p @ [Normal n]" "plain_name n"
proof -
  obtain stem ext where st: "(case place_name p of None \<Rightarrow> (us ''download'', None) | Some name \<Rightarrow> name_split name) = (stem, ext)"
    by (metis surj_pair)
  have "SLASH \<notin> set (us ''download'')" by (simp add: us_def SLASH_def)
  then have s: "SLASH \<notin> set stem \<and> (case ext of None \<Rightarrow> True | Some e \<Rightarrow> SLASH \<notin> set e)"
  proof (cases "place_name p")
    case (Some n)
    then have "SLASH \<notin> set n" using place_name_plain [OF assms(1)] by (simp add: plain_name_def)
    then show ?thesis using name_split_slash st Some by simp
  qed (use st in auto)
  define suffix where "suffix = (case ext of None \<Rightarrow> [] | Some e \<Rightarrow> if e = [] then [] else DOT # e)"
  have "SLASH \<notin> set suffix" using s by (auto simp: suffix_def DOT_def SLASH_def split: option.split)
  then have "plain_name (stem @ us ('' ('' @ digits i @ '')'') @ suffix)" using s sibling_name_plain by blast
  moreover have "sibling p i = parent_place p @ [Normal (stem @ us ('' ('' @ digits i @ '')'') @ suffix)]"
    using assms(2) st by (simp add: sibling_def suffix_def)
  ultimately show thesis using that by blast
qed

lemma sibling_ok: "place_ok p \<Longrightarrow> place_ok (sibling p i)"
proof (cases "i = 0")
  case False
  assume p: "place_ok p"
  obtain n where "sibling p i = parent_place p @ [Normal n]" "plain_name n" using sibling_shape [OF p] False by blast
  then show ?thesis using place_ok_snoc parent_ok [OF p] by metis
qed (simp add: sibling_def)

lemma sibling_parent: "place_ok p \<Longrightarrow> parent_place (sibling p i) = parent_place p"
proof (cases "i = 0")
  case False
  assume p: "place_ok p"
  obtain n where "sibling p i = parent_place p @ [Normal n]" using sibling_shape [OF p] False by blast
  then show ?thesis using parent_ok [OF p] by (simp add: parent_place_def)
qed (simp add: sibling_def)

section \<open>Reservations\<close>

lemma reserve_from_Ok:
  assumes "reserve_from lower V p names reserved index left = Ok (q, reserved')"
  shows "\<exists>i k. q = sibling p i \<and> destination_key lower V q = Ok k \<and> k \<notin> reserved \<and> reserved' = insert k reserved \<and>
    lower (the (place_name q)) \<notin> names"
  using assms
proof (induction lower V p names reserved index left rule: reserve_from.induct)
  case (2 lower V p names reserved index left)
  then show ?case by (auto split: if_splits)
qed simp

lemma key_has_name: "destination_key lower V p = Ok k \<Longrightarrow> \<exists>n. place_name p = Some n"
  by (auto simp: destination_key_def split: option.splits)

definition job_place :: "transfer_job \<Rightarrow> place" where
  "job_place j = path_components (the (job_save_path j))"

lemma reserve_job_key:
  assumes "reserve_job lower V j reserved = Ok (j', reserved')"
  shows "\<exists>k. destination_key lower V (job_place j') = Ok k \<and> k \<notin> reserved \<and> reserved' = insert k reserved \<and>
    (\<forall>names. job_collision j = KeepBoth \<longrightarrow> existing_names lower V (job_place j') = Ok names \<longrightarrow>
       lower (the (place_name (job_place j'))) \<notin> names)"
    and "job_collision j' = job_collision j"
proof -
  obtain t q where t: "job_save_path j = Some t"
    and r: "reserve_destination lower V (path_components t) (job_collision j) reserved = Ok (q, reserved')"
    and j': "j' = j\<lparr>job_filename := (if job_origin j = None then the (place_name q) else job_filename j),
                job_save_path := Some (render_place q)\<rparr>"
    using reserve_job_Ok [OF assms] by blast
  obtain taken where taken: "(if job_collision j = KeepBoth then existing_names lower V (path_components t) else Ok {}) = Ok taken"
    and f: "reserve_from lower V (path_components t) taken reserved 0 MAX_NAMES = Ok (q, reserved')"
    using r by (auto simp: reserve_destination_def)
  obtain i k where q: "q = sibling (path_components t) i" and k: "destination_key lower V q = Ok k" "k \<notin> reserved"
    "reserved' = insert k reserved" and free: "lower (the (place_name q)) \<notin> taken"
    using reserve_from_Ok [OF f] by blast
  have pl: "job_place j' = q"
    unfolding j' job_place_def q using components_render [OF sibling_ok [OF path_components_ok]] by simp
  have "existing_names lower V q = existing_names lower V (path_components t)"
    unfolding q existing_names_def sibling_parent [OF path_components_ok] ..
  then show "\<exists>k. destination_key lower V (job_place j') = Ok k \<and> k \<notin> reserved \<and> reserved' = insert k reserved \<and>
    (\<forall>names. job_collision j = KeepBoth \<longrightarrow> existing_names lower V (job_place j') = Ok names \<longrightarrow>
       lower (the (place_name (job_place j'))) \<notin> names)"
    using k free taken unfolding pl by auto
  show "job_collision j' = job_collision j" by (simp add: j')
qed

lemma skips_cong: "same_but_destination created j j' \<Longrightarrow> skips_reservation created j' \<longleftrightarrow> skips_reservation created j"
  by (simp add: skips_reservation_def same_but_destination_frame)

abbreviation new_downloads :: "str set \<Rightarrow> transfer_job list \<Rightarrow> transfer_job list" where
  "new_downloads created js \<equiv> filter (\<lambda>j. \<not> skips_reservation created j) js"

lemma reserve_batch_keys:
  assumes "reserve_batch lower V created js reserved = Ok js'"
  shows "\<exists>keys. map (\<lambda>j. destination_key lower V (job_place j)) (new_downloads created js') = map Ok keys \<and>
    distinct keys \<and> set keys \<inter> reserved = {}"
  using assms
proof (induction js arbitrary: reserved js')
  case (Cons j js)
  show ?case
  proof (cases "skips_reservation created j")
    case True
    then show ?thesis using Cons by auto
  next
    case False
    then obtain j' reserved' rest where j': "reserve_job lower V j reserved = Ok (j', reserved')"
      and rest: "reserve_batch lower V created js reserved' = Ok rest" and js': "js' = j' # rest"
      using Cons.prems by auto
    obtain k where k: "destination_key lower V (job_place j') = Ok k" "k \<notin> reserved" "reserved' = insert k reserved"
      using reserve_job_key(1) [OF j'] by metis
    have "\<not> skips_reservation created j'"
      using reserve_batch_frame [of lower V created "[j]" reserved "[j']"] j' False skips_cong by auto
    moreover obtain keys where "map (\<lambda>j. destination_key lower V (job_place j)) (new_downloads created rest) = map Ok keys"
      "distinct keys" "set keys \<inter> reserved' = {}"
      using Cons.IH [OF rest] by blast
    ultimately show ?thesis using k js' by (intro exI [of _ "k # keys"]) auto
  qed
qed simp

lemma reserve_batch_free:
  assumes "reserve_batch lower V created js reserved = Ok js'" "j \<in> set (new_downloads created js')"
    "job_collision j = KeepBoth" "existing_names lower V (job_place j) = Ok names"
  shows "lower (the (place_name (job_place j))) \<notin> names"
  using assms(1,2)
proof (induction js arbitrary: reserved js')
  case (Cons a js)
  show ?case
  proof (cases "skips_reservation created a")
    case True
    then show ?thesis using Cons by auto
  next
    case False
    then obtain a' reserved' rest where a': "reserve_job lower V a reserved = Ok (a', reserved')"
      and rest: "reserve_batch lower V created js reserved' = Ok rest" and js': "js' = a' # rest"
      using Cons.prems by auto
    show ?thesis
    proof (cases "j = a'")
      case True
      then show ?thesis using reserve_job_key [OF a'] assms(3,4) by metis
    next
      case False
      then show ?thesis using Cons.IH [OF rest] Cons.prems(2) js' by (auto split: if_splits)
    qed
  qed
qed simp

text \<open>C35: The new downloads of a batch get destinations that no other download of the queue and no other one
  of the batch can collide with, also on a device that ignores case: their keys exist, are pairwise
  different and outside the keys reserved before; and one that must keep both files gets a name its
  directory does not hold.
\<close>

theorem reserved_destinations_distinct:
  assumes r: "reserve_new_downloads lower V jobs created paths = Ok jobs'"
  shows "(\<exists>keys. map (\<lambda>j. destination_key lower V (job_place j)) (new_downloads created jobs') = map Ok keys \<and>
      distinct keys \<and> set keys \<inter> known_keys lower V paths = {}) \<and>
    (\<forall>j\<in>set (new_downloads created jobs'). \<forall>names.
       job_collision j = KeepBoth \<and> existing_names lower V (job_place j) = Ok names \<longrightarrow>
       lower (the (place_name (job_place j))) \<notin> names)"
proof -
  note batch = r [unfolded reserve_new_downloads_def]
  show ?thesis using reserve_batch_keys [OF batch] reserve_batch_free [OF batch] by blast
qed

definition sample_download :: "string \<Rightarrow> transfer_job" where
  "sample_download i = (sample_job i 1)\<lparr>job_direction := DownloadDirection, job_kind := DownloadKind,
     job_save_path := Some (us ''/d/x'')\<rparr>"

definition sample_reservation :: "str + transfer_job list" where
  "sample_reservation = reserve_new_downloads id sample_folder [sample_download ''a'', sample_download ''b'']
     {us ''a'', us ''b''} [us ''/d/y'']"

lemma two_names: "MAX_NAMES = Suc (Suc 9998)"
  by (simp add: MAX_NAMES_def)

abbreviation sample_place :: "string \<Rightarrow> place" where
  "sample_place n \<equiv> [RootDir, Normal (us ''d''), Normal (us n)]"

lemma sample_places:
  "path_components (us ''/d/x'') = sample_place ''x''" "path_components (us ''/d/y'') = sample_place ''y''"
  "sibling (sample_place ''x'') 0 = sample_place ''x''" "sibling (sample_place ''x'') (Suc 0) = sample_place ''x (1)''"
  "place_name (sample_place n) = Some (us n)"
  by code_simp+

lemma sample_keys:
  "trim (us n) \<noteq> [] \<Longrightarrow> destination_key id sample_folder (sample_place n) = Ok (us ''/d'' @ 0 # us n)"
  "trim (us ''x'') \<noteq> []" "trim (us ''y'') \<noteq> []" "trim (us ''x (1)'') \<noteq> []"
  "existing_names id sample_folder (sample_place ''x'') = Ok {}"
  by (simp_all add: destination_key_def existing_names_def parent_place_def sample_folder_def ok_values_def sample_places)
    (simp_all add: trim_def us_def is_whitespace_def SLASH_def)

lemma sample_first:
  "us ''/d'' @ 0 # us ''x'' \<notin> R \<Longrightarrow> reserve_from id sample_folder (sample_place ''x'') {} R 0 MAX_NAMES =
     Ok (sample_place ''x'', insert (us ''/d'' @ 0 # us ''x'') R)"
  unfolding two_names reserve_from.simps(2) sample_places by (simp add: sample_keys)

lemma sample_second:
  "us ''/d'' @ 0 # us ''x'' \<in> R \<Longrightarrow> us ''/d'' @ 0 # us ''x (1)'' \<notin> R \<Longrightarrow>
     reserve_from id sample_folder (sample_place ''x'') {} R 0 MAX_NAMES =
     Ok (sample_place ''x (1)'', insert (us ''/d'' @ 0 # us ''x (1)'') R)"
  unfolding two_names reserve_from.simps(2) sample_places by (simp add: sample_keys)

lemma sample_reservation_Ok: "\<exists>js. sample_reservation = Ok js"
proof -
  have c: "job_collision (sample_job i p) = KeepBoth" for i p by (simp add: sample_job_def new_job_def sample_upload_def)
  show ?thesis
    unfolding sample_reservation_def
    by (simp add: reserve_new_downloads_def sample_download_def skips_reservation_def is_terminal_def reserve_job_def
        reserve_destination_def c known_keys_def ok_values_def sample_places sample_keys sample_first sample_second)
qed

theorem reserved_destinations_distinct_witness:
  "\<exists>js keys. sample_reservation = Ok js \<and> distinct keys \<and>
     map (\<lambda>j. destination_key id sample_folder (job_place j)) (new_downloads {us ''a'', us ''b''} js) = map Ok keys"
proof -
  obtain js where js: "sample_reservation = Ok js" using sample_reservation_Ok by blast
  then show ?thesis
    using reserved_destinations_distinct [of id sample_folder _ "{us ''a'', us ''b''}" "[us ''/d/y'']" js]
    unfolding sample_reservation_def by blast
qed

section \<open>Publication\<close>

abbreviation move_for :: "collision_policy \<Rightarrow> str option \<Rightarrow> place \<Rightarrow> place \<Rightarrow> 'c files \<Rightarrow> 'c move_result" where
  "move_for policy \<equiv> (if policy = Replace then replace_download_file else rename_without_replace)"

lemma move_Moved:
  "move_for policy f source target disk = Moved disk' \<Longrightarrow>
     \<exists>c. disk source = Some c \<and> disk' = disk(source := None, target := Some c) \<and> (policy \<noteq> Replace \<longrightarrow> disk target = None)"
  by (auto simp: replace_download_file_def rename_without_replace_def split: option.splits if_splits)

lemma move_exists: "move_for policy f source target disk = DestinationExists \<Longrightarrow> policy \<noteq> Replace"
  by (auto simp: replace_download_file_def split: option.splits if_splits)

lemma publish_from_moved:
  assumes "publish_from lower E source destination policy names index left = (r, moved)"
  shows "(case moved of
      Some (i, disk) \<Rightarrow> r = Ok \<lparr>dp_outcome = Saved, dp_save_path = render_place (sibling destination i)\<rparr> \<and>
        pe_account E (Suc i) = Ok () \<and> (\<exists>c. pe_disk E i source = Some c \<and>
          disk = (pe_disk E i)(source := None, sibling destination i := Some c)) \<and>
        (policy \<noteq> Replace \<longrightarrow> pe_disk E i (sibling destination i) = None)
    | None \<Rightarrow> (\<forall>p. r = Ok p \<longrightarrow> dp_outcome p = Skipped \<and> policy = Skip))"
  using assms
proof (induction lower E source destination policy names index left rule: publish_from.induct)
  case (2 lower E source destination policy names index left)
  let ?at = "sibling destination index"
  show ?case
  proof (cases "place_name ?at")
    case None
    then show ?thesis using 2(3) by (auto simp: Let_def)
  next
    case (Some name)
    show ?thesis
    proof (cases "policy \<noteq> Replace \<and> lower name \<in> names")
      case True
      show ?thesis
      proof (cases "policy = Skip")
        case False
        show ?thesis by (rule 2(1) [OF refl Some True False]) (use 2(3) Some True False in \<open>simp add: Let_def\<close>)
      qed (use 2(3) Some True in \<open>auto simp: Let_def\<close>)
    next
      case free: False
      show ?thesis
      proof (cases "pe_account E (Suc index)")
        case (Inl e)
        then show ?thesis using 2(3) Some free by (auto simp: Let_def)
      next
        case (Inr u)
        show ?thesis
        proof (cases "move_for policy (pe_fault E index) source ?at (pe_disk E index)")
          case (Moved disk)
          then have "r = Ok \<lparr>dp_outcome = Saved, dp_save_path = render_place ?at\<rparr>" "moved = Some (index, disk)"
            using 2(3) Some free Inr by (auto simp: Let_def)
          then show ?thesis using move_Moved [OF Moved] Inr by auto
        next
          case DestinationExists
          show ?thesis
          proof (cases "policy = Skip")
            case False
            show ?thesis
              by (rule 2(2) [OF refl Some free Inr DestinationExists False])
                (use 2(3) Some free Inr DestinationExists False in \<open>simp add: Let_def\<close>)
          qed (use 2(3) Some free Inr DestinationExists in \<open>auto simp: Let_def\<close>)
        next
          case (MoveFailed e)
          then show ?thesis using 2(3) Some free Inr by (auto simp: Let_def)
        qed
      qed
    qed
  qed
qed auto

text \<open>C36: Publishing a finished download moves its file as a whole to one of the numbered names, after the
  account was checked for that move, and reports that name; unless the policy is to replace, nothing is
  at that name and every other file stays as it is. A publication that moves nothing reports an error,
  or that the download was skipped when that was the policy.
\<close>

theorem publication_overwrites_nothing:
  assumes p: "publish lower E source destination policy = (r, moved)"
  shows "case moved of
      Some (i, disk) \<Rightarrow> r = Ok \<lparr>dp_outcome = Saved, dp_save_path = render_place (sibling destination i)\<rparr> \<and>
        pe_account E (Suc i) = Ok () \<and> disk (sibling destination i) = pe_disk E i source \<and>
        (policy \<noteq> Replace \<longrightarrow> (\<forall>q c. q \<noteq> source \<and> pe_disk E i q = Some c \<longrightarrow> disk q = Some c))
    | None \<Rightarrow> (\<forall>out. r = Ok out \<longrightarrow> dp_outcome out = Skipped \<and> policy = Skip)"
proof -
  have none: "moved = None \<and> (\<exists>e. r = Err e)"
    if "\<And>names. publish_from lower E source destination policy names 0 MAX_NAMES \<noteq> (r, moved)"
    using p that by (auto simp: publish_def split: sum.splits)
  show ?thesis
  proof (cases "\<exists>names. publish_from lower E source destination policy names 0 MAX_NAMES = (r, moved)")
    case True
    then obtain names where "publish_from lower E source destination policy names 0 MAX_NAMES = (r, moved)" by blast
    note m = publish_from_moved [OF this]
    show ?thesis
    proof (cases moved)
      case (Some im)
      obtain i disk where im: "im = (i, disk)" by (cases im)
      show ?thesis using m unfolding Some im by auto
    qed (use m in simp)
  next
    case False
    then show ?thesis using none by auto
  qed
qed

definition sample_publication :: "nat publish_env" where
  "sample_publication = \<lparr>pe_view = sample_folder, pe_account = (\<lambda>_. Ok ()), pe_fault = (\<lambda>_. None),
     pe_disk = (\<lambda>_. [sample_place ''tmp'' \<mapsto> 1, sample_place ''x'' \<mapsto> 2])\<rparr>"

lemma sample_published:
  "\<exists>r disk. publish id sample_publication (sample_place ''tmp'') (sample_place ''x'') KeepBoth = (r, Some (1, disk))"
proof -
  have p: "pe_view sample_publication = sample_folder" "pe_account sample_publication = (\<lambda>_. Ok ())"
    "pe_fault sample_publication = (\<lambda>_. None)"
    "pe_disk sample_publication = (\<lambda>_. [sample_place ''tmp'' \<mapsto> 1, sample_place ''x'' \<mapsto> 2])"
    by (simp_all add: sample_publication_def)
  have "\<exists>r disk. publish_from id sample_publication (sample_place ''tmp'') (sample_place ''x'') KeepBoth {} 0 MAX_NAMES =
      (r, Some (1, disk))"
    unfolding two_names publish_from.simps(2) sample_places by (simp add: p rename_without_replace_def sample_places Let_def)
  then show ?thesis by (simp add: publish_def p sample_keys)
qed

theorem publication_overwrites_nothing_witness:
  "\<exists>r disk. publish id sample_publication (sample_place ''tmp'') (sample_place ''x'') KeepBoth = (r, Some (1, disk)) \<and>
     disk (sample_place ''x'') = Some 2"
proof -
  obtain r disk where p: "publish id sample_publication (sample_place ''tmp'') (sample_place ''x'') KeepBoth = (r, Some (1, disk))"
    using sample_published by blast
  show ?thesis using publication_overwrites_nothing [OF p] p by (auto simp: sample_publication_def)
qed

end
