(* ===== verification/Media_Range.thy ===== *)
theory Media_Range
  imports Text_Tools Bandwidth
begin

text \<open>
  How media leaves the local server (\<open>server.rs\<close>): the byte range a request selects, the bytes cut
  out of a download that starts at the preceding CDN boundary, and the wrappers every response body
  passes through: pacing, the account guard and the bandwidth hold. A stream of chunks is the list of
  its items in order; it ends when the list does. What is asked while the body is sent (is the account
  still signed in, may the next bytes leave now) is answered by functions of the number of the question.
\<close>

section \<open>Ranges\<close>

definition saturating_mul_u64 :: "u64 \<Rightarrow> u64 \<Rightarrow> u64" where
  "saturating_mul_u64 a b = (if unat a * unat b < 2 ^ 64 then a * b else - 1)"

definition decimal :: "str \<Rightarrow> u64 option" where
  "decimal value =
     (if value = [] \<or> \<not> list_all is_ascii_digit value then None
      else Some (fold (\<lambda>digit number. saturating_add_u64 (saturating_mul_u64 number 10) (of_nat (digit - 48)))
                   value 0))"

definition strip_prefix :: "str \<Rightarrow> str \<Rightarrow> str option" where
  "strip_prefix p s = (if starts_with s p then Some (drop (length p) s) else None)"

definition split_once :: "nat \<Rightarrow> str \<Rightarrow> (str \<times> str) option" where
  "split_once c s =
     (if c \<in> set s then Some (takeWhile (\<lambda>x. x \<noteq> c) s, drop 1 (dropWhile (\<lambda>x. x \<noteq> c) s)) else None)"

datatype range_selection = Full | Partial u64 u64 | Unsatisfiable

text \<open>\<open>header\<close>: the value of the Range field when it is visible ASCII.\<close>

definition select_range :: "str option \<Rightarrow> u64 \<Rightarrow> range_selection" where
  "select_range header file_size =
     (case Option.bind header (strip_prefix (us ''bytes='')) of
        None \<Rightarrow> Full
      | Some value \<Rightarrow>
          (case split_once 45 value of
             None \<Rightarrow> Full
           | Some (first_byte, final_byte) \<Rightarrow>
               let first_byte = trim first_byte; final_byte = trim final_byte in
               if first_byte = [] then
                 (case decimal final_byte of
                    None \<Rightarrow> Full
                  | Some suffix \<Rightarrow>
                      if suffix = 0 \<or> file_size = 0 then Unsatisfiable
                      else Partial (saturating_sub_u64 file_size suffix) (file_size - 1))
               else
                 (case decimal first_byte of
                    None \<Rightarrow> Full
                  | Some start \<Rightarrow>
                      (case (if final_byte = [] then Some (- 1) else decimal final_byte) of
                         None \<Rightarrow> Full
                       | Some end_byte \<Rightarrow>
                           if end_byte < start then Full
                           else if file_size = 0 \<or> file_size \<le> start then Unsatisfiable
                           else Partial start (min end_byte (file_size - 1))))))"

definition CDN_ALIGNMENT :: u64 where "CDN_ALIGNMENT = 524288"

section \<open>Chunks\<close>

datatype http_error = BadGateway str | NotFoundError str | LockedError str | Unprocessable str

type_synonym chunk = "http_error + bytes"

definition SOURCE_ENDED :: http_error where
  "SOURCE_ENDED = BadGateway (us ''Media source ended before the declared length'')"

primrec slice_media_chunks :: "chunk list \<Rightarrow> nat \<Rightarrow> nat \<Rightarrow> nat \<Rightarrow> chunk list" where
  "slice_media_chunks [] leading skipped remaining = (if remaining = 0 then [] else [Err SOURCE_ENDED])"
| "slice_media_chunks (chunk # rest) leading skipped remaining =
     (if remaining = 0 then []
      else case chunk of
        Inl e \<Rightarrow> [Err e]
      | Inr bytes \<Rightarrow>
          let skip = min (leading - skipped) (length bytes);
              bytes = drop skip bytes;
              count = min remaining (length bytes) in
          (if 0 < count then [Ok (take count bytes)] else []) @
            slice_media_chunks rest leading (skipped + skip) (remaining - count))"

text \<open>\<open>account\<close>: the answers of \<open>validate\<close>, when the media belongs to an account.\<close>

definition SHARING_INACTIVE :: str where
  "SHARING_INACTIVE = us ''The sharing account is no longer active''"

definition account_refuses :: "(nat \<Rightarrow> str + unit) option \<Rightarrow> nat \<Rightarrow> bool" where
  "account_refuses account n = (case account of None \<Rightarrow> False | Some answers \<Rightarrow> answers n \<noteq> Ok ())"

fun guard_media_chunks :: "(nat \<Rightarrow> str + unit) option \<Rightarrow> nat \<Rightarrow> chunk list \<Rightarrow> chunk list" where
  "guard_media_chunks account n [] =
     (if account_refuses account n then [Err (NotFoundError SHARING_INACTIVE)] else [])"
| "guard_media_chunks account n (chunk # rest) =
     (if account_refuses account n then [Err (NotFoundError SHARING_INACTIVE)]
      else if account_refuses account (n + 1) then [Err (NotFoundError SHARING_INACTIVE)]
      else chunk # guard_media_chunks account (n + 2) rest)"

text \<open>The body together with whether its hold was committed at the end.\<close>

fun quota_media_chunks :: "nat \<Rightarrow> nat \<Rightarrow> chunk list \<Rightarrow> chunk list \<times> bool" where
  "quota_media_chunks count expected [] = ([], count = expected)"
| "quota_media_chunks count expected (Inl e # rest) = ([Err e], False)"
| "quota_media_chunks count expected (Inr bytes # rest) =
     (let (out, completed) = quota_media_chunks (min (2 ^ 64 - 1) (count + length bytes)) expected rest in
      (Ok bytes # out, completed))"

fun pace_media_chunks :: "(nat \<Rightarrow> str + unit) \<Rightarrow> nat \<Rightarrow> chunk list \<Rightarrow> chunk list" where
  "pace_media_chunks waits n [] = []"
| "pace_media_chunks waits n (Inl e # rest) = Err e # pace_media_chunks waits n rest"
| "pace_media_chunks waits n (Inr bytes # rest) =
     (case waits n of
        Inl e \<Rightarrow> [Err (NotFoundError e)]
      | Inr _ \<Rightarrow> Ok bytes # pace_media_chunks waits (n + 1) rest)"

section \<open>Responses\<close>

text \<open>\<open>encode\<close> is percent-encoding (the urlencoding crate).\<close>

definition is_ascii_alphanumeric :: "nat \<Rightarrow> bool" where
  "is_ascii_alphanumeric c \<longleftrightarrow> is_ascii_digit c \<or> 65 \<le> c \<and> c \<le> 90 \<or> 97 \<le> c \<and> c \<le> 122"

definition attachment_disposition :: "(str \<Rightarrow> str) \<Rightarrow> str \<Rightarrow> str" where
  "attachment_disposition encode filename =
     (let clean = map (\<lambda>c. if c = SLASH \<or> c = BACKSLASH then 95 else c) (filter (\<lambda>c. \<not> is_control c) filename);
          fallback = map (\<lambda>c. if is_ascii_alphanumeric c \<or> c \<in> set (us '' .-_'') then c else 95) clean in
      us ''attachment; filename='' @ [34] @ fallback @ [34] @ us ''; filename*=UTF-8'' @ [39, 39] @ encode clean)"

text \<open>\<open>rs_hold\<close> is the reservation the body owns, \<open>rs_committed\<close> whether it commits it when it has been
  sent; a reservation that is not committed is dropped with the body.\<close>

datatype body = NoBody | TextBody str | Streaming "chunk list"

record response =
  rs_status :: nat
  rs_headers :: "(string \<times> str) list"
  rs_body :: body
  rs_hold :: "reservation option"
  rs_committed :: bool

definition text_response :: "nat \<Rightarrow> str \<Rightarrow> response" where
  "text_response status body =
     \<lparr>rs_status = status, rs_headers = [], rs_body = TextBody body, rs_hold = None, rs_committed = False\<rparr>"

definition empty_response :: "nat \<Rightarrow> response" where
  "empty_response status =
     \<lparr>rs_status = status, rs_headers = [], rs_body = NoBody, rs_hold = None, rs_committed = False\<rparr>"

definition show_u64 :: "u64 \<Rightarrow> str" where "show_u64 n = us (digits (unat n))"

definition unsatisfiable_range :: "u64 \<Rightarrow> response" where
  "unsatisfiable_range file_size =
     \<lparr>rs_status = 416,
      rs_headers = [(''Content-Range'', us ''bytes */'' @ show_u64 file_size), (''Accept-Ranges'', us ''bytes''),
        (''Cache-Control'', us ''no-store'')],
      rs_body = NoBody, rs_hold = None, rs_committed = False\<rparr>"

definition content_range :: "u64 \<Rightarrow> u64 \<Rightarrow> u64 \<Rightarrow> str" where
  "content_range first_byte final_byte file_size =
     us ''bytes '' @ show_u64 first_byte @ us ''-'' @ show_u64 final_byte @ us ''/'' @ show_u64 file_size"

text \<open>The range that is sent: its first and last byte and whether it is a part.\<close>

definition selected_bytes :: "str option \<Rightarrow> u64 \<Rightarrow> (u64 \<times> u64 \<times> bool) option" where
  "selected_bytes header file_size =
     (case select_range header file_size of
        Full \<Rightarrow> Some (0, saturating_sub_u64 file_size 1, False)
      | Partial first_byte final_byte \<Rightarrow> Some (first_byte, final_byte, True)
      | Unsatisfiable \<Rightarrow> None)"

text \<open>What a body is sent with: the ledger and its answers, and the answers while it is sent.\<close>

record delivery =
  de_calendar :: calendar
  de_format_bytes :: "u64 \<Rightarrow> string"
  de_ledger :: ledger_env
  de_account :: "nat \<Rightarrow> str + unit"
  de_waits :: "nat \<Rightarrow> str + unit"

definition download_hold :: "delivery \<Rightarrow> u64 \<Rightarrow> reservation ledger_op" where
  "download_hold D count =
     lbind (reserve (de_calendar D) (de_format_bytes D) (de_ledger D) DownloadHold count)
       (\<lambda>i L. (Ok \<lparr>rv_id = i, rv_completed = False\<rparr>, L))"

definition build_media_response ::
  "delivery \<Rightarrow> (str \<Rightarrow> str) \<Rightarrow> u64 \<Rightarrow> str option \<Rightarrow> str \<Rightarrow> str option \<Rightarrow> (string \<times> str) list \<Rightarrow> bool \<Rightarrow>
     (u64 \<Rightarrow> chunk list) \<Rightarrow> ledger \<Rightarrow> response \<times> ledger" where
  "build_media_response D encode file_size header mime filename extra_headers guarded source L =
     (let account = (if guarded then Some (de_account D) else None) in
      if account_refuses account 0 then (text_response 404 SHARING_INACTIVE, L)
      else case selected_bytes header file_size of
        None \<Rightarrow> (unsatisfiable_range file_size, L)
      | Some (start_byte, end_byte, is_range) \<Rightarrow>
          let content_length = (if is_range then end_byte - start_byte + 1 else file_size) in
          (case download_hold D content_length L of
             (Inl e, L') \<Rightarrow> (text_response 429 (us e), L')
           | (Inr hold, L') \<Rightarrow>
               let stream = slice_media_chunks (source start_byte) (unat (start_byte mod CDN_ALIGNMENT)) 0
                     (unat content_length);
                   stream = pace_media_chunks (de_waits D) 0 stream;
                   stream = guard_media_chunks account 1 stream;
                   (body, completed) = quota_media_chunks 0 (unat content_length) stream in
               (\<lparr>rs_status = (if is_range then 206 else 200),
                 rs_headers =
                   (if is_range
                    then [(''Content-Range'', content_range start_byte end_byte file_size),
                          (''Content-Length'', show_u64 content_length)]
                    else [(''Content-Length'', show_u64 file_size)]) @
                   [(''Content-Type'', mime), (''Accept-Ranges'', us ''bytes'')] @
                   (case filename of
                      None \<Rightarrow> []
                    | Some name \<Rightarrow> [(''Content-Disposition'', attachment_disposition encode name)]) @
                   extra_headers,
                 rs_body = Streaming body, rs_hold = Some hold, rs_committed = completed\<rparr>, L')))"

text \<open>The end of a body: \<open>E\<close> answers the ledger then, \<open>L\<close> is the ledger then.\<close>

definition end_of_body :: "calendar \<Rightarrow> ledger_env \<Rightarrow> response \<Rightarrow> ledger \<Rightarrow> ledger" where
  "end_of_body cal E response L =
     (case rs_hold response of
        None \<Rightarrow> L
      | Some hold \<Rightarrow>
          let (hold, L) = (if rs_committed response then reservation_commit cal E hold L else (hold, L)) in
          reservation_drop hold L)"

section \<open>Streams of chunks\<close>

definition delivered :: "chunk list \<Rightarrow> bytes" where
  "delivered stream = concat (map (\<lambda>c. case c of Inl _ \<Rightarrow> [] | Inr bytes \<Rightarrow> bytes) stream)"

definition unbroken :: "chunk list \<Rightarrow> bool" where
  "unbroken stream \<longleftrightarrow> (\<forall>c\<in>set stream. \<not> isl c)"

lemma delivered_simps [simp]:
  "delivered [] = []" "delivered (Inl e # s) = delivered s" "delivered (Inr b # s) = b @ delivered s"
  "delivered (s @ t) = delivered s @ delivered t"
  by (simp_all add: delivered_def)

lemma unbroken_simps [simp]:
  "unbroken []" "unbroken (Inl e # s) = False" "unbroken (Inr b # s) = unbroken s"
  "unbroken (s @ t) = (unbroken s \<and> unbroken t)"
  by (auto simp: unbroken_def)

lemma delivered_map_Ok [simp]: "delivered (map Ok bs) = concat bs" "unbroken (map Ok bs)"
  by (induction bs) simp_all

end
