(* ===== verification/Media_Envelope.thy ===== *)
theory Media_Envelope
  imports Media_Range Envelope_Stream Crypto_State
begin

text \<open>
  Protected media leaving the local server (\<open>build_encrypted_media_response_from_source\<close> in
  \<open>server.rs\<close>, \<open>initialize_tdenc2_decryptor\<close> in \<open>commands/fs.rs\<close>): the requested plaintext range is
  turned into the records that hold it, their ciphertext is cut out of the download, every record is
  opened and trimmed, and a whole file is also checked against its final record before its last bytes
  are handed out.
\<close>

section \<open>Opening the envelope\<close>

datatype open_error = HeaderUnreadable crypto_error | HeaderRejected crypto_error | KeyRequired | VaultIsLocked | WrongKeyOrCorrupt

text \<open>The key a slot is wrapped under, when the caller holds what it takes to derive it.\<close>

definition slot_wrapping_key ::
  "prims \<Rightarrow> bytes option \<Rightarrow> bytes option \<Rightarrow> core_header \<Rightarrow> key_slot_entry \<Rightarrow> bytes option" where
  "slot_wrapping_key P vault_key prompt_passphrase core slot =
     (if ks_kind slot = slot_kind_u8 Vault then
        Option.bind vault_key (\<lambda>master_key.
          case derive_file_wrapping_key P master_key (ch_file_uuid core) (ks_salt slot) (ks_kind slot)
                 (ks_slot_id slot) of Inl _ \<Rightarrow> None | Inr k \<Rightarrow> Some k)
      else if ks_kind slot = slot_kind_u8 Passphrase then
        Option.bind prompt_passphrase (\<lambda>passphrase.
          case derive_passphrase_key P passphrase (ks_salt slot) (ks_argon2_memory_kib slot)
                 (ks_argon2_iterations slot) (ks_argon2_parallelism slot) of Inl _ \<Rightarrow> None | Inr k \<Rightarrow> Some k)
      else None)"

definition slot_data_key ::
  "prims \<Rightarrow> bytes option \<Rightarrow> bytes option \<Rightarrow> core_header \<Rightarrow> key_slot_entry \<Rightarrow> bytes option" where
  "slot_data_key P vault_key prompt_passphrase core slot =
     Option.bind (slot_wrapping_key P vault_key prompt_passphrase core slot) (\<lambda>unlock_key.
       case unwrap_dek P \<lparr>ctx_file_uuid = ch_file_uuid core, ctx_format_version = ch_format_version core\<rparr>
              (ks_wrapped_dek slot) (ks_wrap_nonce slot) unlock_key (ks_kind slot) (ks_slot_id slot)
              (ks_kdf_algorithm slot) (ks_argon2_memory_kib slot) (ks_argon2_iterations slot)
              (ks_argon2_parallelism slot) (ks_salt slot) of
         Inl _ \<Rightarrow> None
       | Inr dek \<Rightarrow> Some dek)"

fun open_slots ::
  "prims \<Rightarrow> bytes option \<Rightarrow> bytes option \<Rightarrow> core_header \<Rightarrow> bytes \<Rightarrow> key_slot_entry list \<Rightarrow>
     (open_error + decrypt_reader \<times> bool) option" where
  "open_slots P vault_key prompt_passphrase core header_bytes [] = None"
| "open_slots P vault_key prompt_passphrase core header_bytes (slot # slots) =
     (case slot_data_key P vault_key prompt_passphrase core slot of
        None \<Rightarrow> open_slots P vault_key prompt_passphrase core header_bytes slots
      | Some dek \<Rightarrow>
          Some (case DecryptReader_new P header_bytes dek of
                  Inl e \<Rightarrow> Err (HeaderRejected e)
                | Inr reader \<Rightarrow> Ok (reader, ks_kind slot = slot_kind_u8 Vault)))"

definition initialize_tdenc2_decryptor_with_kind ::
  "prims \<Rightarrow> bytes \<Rightarrow> bytes option \<Rightarrow> bytes option \<Rightarrow> open_error + decrypt_reader \<times> bool" where
  "initialize_tdenc2_decryptor_with_kind P header_bytes vault_key prompt_passphrase =
     (case EnvelopeHeader_parse header_bytes of
        Inl e \<Rightarrow> Err (HeaderUnreadable e)
      | Inr header \<Rightarrow>
          let kinds = map ks_kind (eh_key_slots header);
              vault_slot = (slot_kind_u8 Vault \<in> set kinds);
              passphrase_slot = (slot_kind_u8 Passphrase \<in> set kinds) in
          (case open_slots P vault_key prompt_passphrase (eh_core header) header_bytes (eh_key_slots header) of
             Some r \<Rightarrow> r
           | None \<Rightarrow>
               if passphrase_slot \<and> prompt_passphrase = None \<and> \<not> (vault_slot \<and> vault_key \<noteq> None)
               then Err KeyRequired
               else if vault_slot \<and> vault_key = None \<and> \<not> (passphrase_slot \<and> prompt_passphrase \<noteq> None)
               then Err VaultIsLocked
               else Err WrongKeyOrCorrupt))"

definition initialize_tdenc2_decryptor ::
  "prims \<Rightarrow> bytes \<Rightarrow> bytes option \<Rightarrow> bytes option \<Rightarrow> open_error + decrypt_reader" where
  "initialize_tdenc2_decryptor P header_bytes vault_key prompt_passphrase =
     (case initialize_tdenc2_decryptor_with_kind P header_bytes vault_key prompt_passphrase of
        Inl e \<Rightarrow> Err e
      | Inr (reader, _) \<Rightarrow> Ok reader)"

lemma decryptor_opened_with_kind:
  assumes "initialize_tdenc2_decryptor_with_kind P hb k p = Ok (r, b)"
  obtains h dek where "EnvelopeHeader_parse hb = Ok h" "DecryptReader_new P hb dek = Ok r" "dr_header r = h"
proof -
  have slots: "\<exists>dek. DecryptReader_new P hb dek = Ok r'" if "open_slots P k p c hb slots = Some (Ok (r', b))" for c slots r' b
    using that by (induction slots) (auto split: option.splits sum.splits)
  obtain h where h: "EnvelopeHeader_parse hb = Ok h" "open_slots P k p (eh_core h) hb (eh_key_slots h) = Some (Ok (r, b))"
    using assms by (auto simp: initialize_tdenc2_decryptor_with_kind_def Let_def
        split: sum.splits option.splits if_splits)
  obtain dek where d: "DecryptReader_new P hb dek = Ok r" using slots [OF h(2)] by blast
  moreover have "dr_header r = h" using d h(1) by (auto simp: DecryptReader_new_def)
  ultimately show ?thesis using that h(1) by blast
qed

lemma decryptor_opened:
  assumes "initialize_tdenc2_decryptor P hb k p = Ok r"
  obtains h dek where "EnvelopeHeader_parse hb = Ok h" "DecryptReader_new P hb dek = Ok r" "dr_header r = h"
proof -
  obtain b where "initialize_tdenc2_decryptor_with_kind P hb k p = Ok (r, b)"
    using assms by (auto simp: initialize_tdenc2_decryptor_def split: sum.splits prod.splits)
  then show ?thesis using decryptor_opened_with_kind that by metis
qed

section \<open>Records from a download\<close>

definition RECORD_TRUNCATED :: http_error where
  "RECORD_TRUNCATED = BadGateway (us ''Encrypted media record was truncated'')"
definition FINAL_TRUNCATED :: http_error where
  "FINAL_TRUNCATED = BadGateway (us ''Encrypted media final record was truncated'')"
definition RECORD_REJECTED :: http_error where
  "RECORD_REJECTED = Unprocessable (us ''Encrypted media record authentication failed'')"
definition FINAL_REJECTED :: http_error where
  "FINAL_REJECTED = Unprocessable (us ''Encrypted media final record authentication failed'')"

text \<open>Chunks are appended to the buffer until it holds \<open>required\<close> bytes.\<close>

primrec fill_buffer :: "http_error \<Rightarrow> nat \<Rightarrow> chunk list \<Rightarrow> bytes \<Rightarrow> http_error + bytes \<times> chunk list" where
  "fill_buffer ended required [] buffer = (if required \<le> length buffer then Ok (buffer, []) else Err ended)"
| "fill_buffer ended required (chunk # rest) buffer =
     (if required \<le> length buffer then Ok (buffer, chunk # rest)
      else case chunk of
        Inl e \<Rightarrow> Err e
      | Inr bytes \<Rightarrow> fill_buffer ended required rest (buffer @ bytes))"

text \<open>The plan of a response: the bytes it sends, the records that hold them and whether they are the
  whole file.\<close>

record record_plan =
  rp_start :: u64
  rp_end :: u64
  rp_last :: u32
  rp_whole :: bool

definition plan_offset :: "decrypt_reader \<Rightarrow> u32 \<Rightarrow> u64" where
  "plan_offset r chunk_index = ucast chunk_index * ucast (ch_chunk_size (dr_core r))"

definition plan_length :: "decrypt_reader \<Rightarrow> u32 \<Rightarrow> nat" where
  "plan_length r chunk_index =
     unat (min (ch_total_plaintext_length (dr_core r) - plan_offset r chunk_index)
             (ucast (ch_chunk_size (dr_core r))))"

definition trim_record :: "decrypt_reader \<Rightarrow> record_plan \<Rightarrow> u32 \<Rightarrow> bytes \<Rightarrow> bytes" where
  "trim_record r plan chunk_index plaintext =
     slice plaintext (unat (saturating_sub_u64 (rp_start plan) (plan_offset r chunk_index)))
       (unat (min (rp_end plan - plan_offset r chunk_index + 1) (of_nat (plan_length r chunk_index))))"

definition open_record ::
  "prims \<Rightarrow> record_plan \<Rightarrow> decrypt_reader \<Rightarrow> u32 \<Rightarrow> bytes \<Rightarrow> bytes crypto_result \<times> decrypt_reader" where
  "open_record P plan r chunk_index ciphertext =
     (if rp_whole plan then feed P r ciphertext else (decrypt_chunk_at P r chunk_index ciphertext, r))"

definition check_final_record ::
  "prims \<Rightarrow> decrypt_reader \<Rightarrow> chunk list \<Rightarrow> bytes \<Rightarrow> http_error + decrypt_reader" where
  "check_final_record P r download buffer =
     (case fill_buffer FINAL_TRUNCATED FINAL_RECORD_CIPHERTEXT_SIZE download buffer of
        Inl e \<Rightarrow> Err e
      | Inr (buffer, _) \<Rightarrow>
          (case feed P r buffer of
             (Inl _, _) \<Rightarrow> Err FINAL_REJECTED
           | (Inr _, r') \<Rightarrow> (case finish r' of Inl _ \<Rightarrow> Err FINAL_REJECTED | Inr _ \<Rightarrow> Ok r')))"

primrec stream_records ::
  "prims \<Rightarrow> record_plan \<Rightarrow> u32 list \<Rightarrow> decrypt_reader \<Rightarrow> chunk list \<Rightarrow> bytes \<Rightarrow> chunk list" where
  "stream_records P plan [] r download buffer = []"
| "stream_records P plan (chunk_index # indices) r download buffer =
     (let required = plan_length r chunk_index + AEAD_TAG_LENGTH in
      case fill_buffer RECORD_TRUNCATED required download buffer of
        Inl e \<Rightarrow> [Err e]
      | Inr (buffer, download) \<Rightarrow>
          let ciphertext = take required buffer; buffer = drop required buffer in
          (case open_record P plan r chunk_index ciphertext of
             (Inl _, _) \<Rightarrow> [Err RECORD_REJECTED]
           | (Inr plaintext, r1) \<Rightarrow>
               if rp_whole plan \<and> chunk_index = rp_last plan then
                 (case check_final_record P r1 download buffer of
                    Inl e \<Rightarrow> [Err e]
                  | Inr r2 \<Rightarrow> Ok (trim_record r plan chunk_index plaintext) #
                      stream_records P plan indices r2 download buffer)
               else Ok (trim_record r plan chunk_index plaintext) #
                      stream_records P plan indices r1 download buffer))"

section \<open>The credential of a stream\<close>

text \<open>The shared encryption state when the \<open>n\<close>-th question is asked, with the clock; \<open>pp_waits\<close> are the
  answers of the pacer, which validates account and credential itself.\<close>

record protected_access =
  pp_credential :: u64
  pp_state :: "nat \<Rightarrow> nat \<times> crypto_state"
  pp_waits :: "nat \<Rightarrow> str + unit"

definition CREDENTIAL_EXPIRED :: http_error where
  "CREDENTIAL_EXPIRED = LockedError (us ''Protected-media credential expired'')"

definition stream_authorized :: "protected_access \<Rightarrow> nat \<Rightarrow> bool" where
  "stream_authorized A n =
     (case pp_state A n of (now, cs) \<Rightarrow> validate_operation now (pp_credential A) MediaStream cs = Ok ())"

definition stream_key_lives :: "protected_access \<Rightarrow> nat \<Rightarrow> bool" where
  "stream_key_lives A n =
     (case pp_state A n of (now, cs) \<Rightarrow> \<not> isl (fst (operation_wrapping_key now (pp_credential A) MediaStream cs)))"

text \<open>One chunk in pieces of at most 64 KiB: each waits for the pacer and renews the credential. The
  result is the pieces, whether all of them were sent, and the number of the next question.\<close>

function protected_pieces :: "protected_access \<Rightarrow> nat \<Rightarrow> bytes \<Rightarrow> chunk list \<times> bool \<times> nat" where
  "protected_pieces A n bytes =
     (if bytes = [] then ([], True, n)
      else case pp_waits A n of
        Inl e \<Rightarrow> ([Err (LockedError e)], False, n + 1)
      | Inr _ \<Rightarrow>
          if \<not> stream_key_lives A (n + 1) then ([Err CREDENTIAL_EXPIRED], False, n + 2)
          else
            let (out, completed, m) = protected_pieces A (n + 2) (drop 65536 bytes) in
            (Ok (take 65536 bytes) # out, completed, m))"
  by auto
termination by (relation "measure (\<lambda>(A, n, bytes). length bytes)") auto

declare protected_pieces.simps [simp del]

primrec guard_protected_chunks :: "protected_access \<Rightarrow> chunk list \<Rightarrow> nat \<Rightarrow> chunk list" where
  "guard_protected_chunks A [] n = (if stream_authorized A n then [] else [Err CREDENTIAL_EXPIRED])"
| "guard_protected_chunks A (chunk # rest) n =
     (if \<not> stream_authorized A n then [Err CREDENTIAL_EXPIRED]
      else case chunk of
        Inl e \<Rightarrow> [Err e]
      | Inr bytes \<Rightarrow>
          let (out, completed, m) = protected_pieces A (n + 1) bytes in
          out @ (if completed then guard_protected_chunks A rest m else []))"

section \<open>The response\<close>

text \<open>\<open>mime_of\<close> reads the media type out of the decrypted metadata (JSON): \<open>None\<close> when it cannot be read.\<close>

definition OCTET_STREAM :: str where "OCTET_STREAM = us ''application/octet-stream''"

definition metadata_mime :: "(bytes \<Rightarrow> str option) \<Rightarrow> bytes \<Rightarrow> str" where
  "metadata_mime mime_of metadata =
     (case mime_of metadata of None \<Rightarrow> OCTET_STREAM | Some m \<Rightarrow> if m = [] then OCTET_STREAM else m)"

text \<open>The bytes of the envelope that hold the records \<open>first_chunk\<close> to \<open>last_chunk\<close>, both ends included.\<close>

definition record_span :: "core_header \<Rightarrow> u32 \<Rightarrow> u32 \<Rightarrow> (u64 \<times> u64) crypto_result" where
  "record_span core first_chunk last_chunk =
     (let file_size = ch_total_plaintext_length core; chunk_size = ch_chunk_size core;
          header_length = ucast (ch_header_length core) :: u64 in
      rbind (chunk_ciphertext_offset first_chunk chunk_size file_size) (\<lambda>first_offset.
      let body_start = header_length + first_offset;
          last_plaintext_offset = ucast last_chunk * ucast chunk_size;
          last_plaintext_length =
            min (saturating_sub_u64 file_size last_plaintext_offset) (ucast chunk_size) in
      rbind (chunk_ciphertext_offset last_chunk chunk_size file_size) (\<lambda>last_offset.
      Ok (body_start, header_length + last_offset + last_plaintext_length + of_nat AEAD_TAG_LENGTH - 1))))"

text \<open>\<open>describe\<close> prints an error of the crypto layer; \<open>describe_open\<close> one of the decryptor.\<close>

record envelope_env =
  ev_describe :: "crypto_error \<Rightarrow> str"
  ev_describe_open :: "open_error \<Rightarrow> str"
  ev_mime :: "bytes \<Rightarrow> str option"

definition envelope_stream ::
  "prims \<Rightarrow> decrypt_reader \<Rightarrow> u64 \<Rightarrow> u64 \<Rightarrow> u32 \<Rightarrow> u32 \<Rightarrow> u64 \<Rightarrow> u64 \<Rightarrow> (u64 \<Rightarrow> chunk list) \<Rightarrow> chunk list" where
  "envelope_stream P r start_byte end_byte first_chunk last_chunk body_start body_end source =
     (let whole_file = (start_byte = 0 \<and> end_byte = ch_total_plaintext_length (dr_core r) - 1);
          ciphertext_length = body_end - body_start + 1 +
            (if whole_file then of_nat FINAL_RECORD_CIPHERTEXT_SIZE else 0);
          download = slice_media_chunks (source body_start) (unat (body_start mod CDN_ALIGNMENT)) 0
            (unat ciphertext_length) in
      stream_records P \<lparr>rp_start = start_byte, rp_end = end_byte, rp_last = last_chunk, rp_whole = whole_file\<rparr>
        (map word_of_nat [unat first_chunk..<Suc (unat last_chunk)]) r download [])"

definition build_encrypted_media_response ::
  "prims \<Rightarrow> envelope_env \<Rightarrow> delivery \<Rightarrow> protected_access \<Rightarrow> bytes \<Rightarrow> u64 \<Rightarrow> str option \<Rightarrow> bytes \<Rightarrow>
     (u64 \<Rightarrow> chunk list) \<Rightarrow> ledger \<Rightarrow> response \<times> ledger" where
  "build_encrypted_media_response P V D A header_bytes plaintext_size header unlock_key source L =
     (if de_account D 0 \<noteq> Ok () then (empty_response 404, L)
      else case selected_bytes header plaintext_size of
        None \<Rightarrow> (unsatisfiable_range plaintext_size, L)
      | Some (start_byte, end_byte, is_range) \<Rightarrow>
          if plaintext_size = 0 then (text_response 422 (us ''Encrypted media is empty''), L)
          else (case EnvelopeHeader_parse header_bytes of
            Inl e \<Rightarrow> (text_response 422 (us ''Encrypted media header is invalid: '' @ ev_describe V e), L)
          | Inr parsed \<Rightarrow>
              if ch_total_plaintext_length (eh_core parsed) \<noteq> plaintext_size
              then (text_response 422 (us ''Encrypted media length does not match its authenticated header''), L)
              else (case initialize_tdenc2_decryptor P header_bytes (Some unlock_key) None of
                Inl e \<Rightarrow> (text_response 423 (ev_describe_open V e), L)
              | Inr r \<Rightarrow>
                  (case plaintext_range_to_ciphertext_records start_byte end_byte
                          (ch_chunk_size (eh_core parsed)) plaintext_size of
                     Inl e \<Rightarrow> (text_response 416 (ev_describe V e), L)
                   | Inr (first_chunk, last_chunk) \<Rightarrow>
                       (case record_span (eh_core parsed) first_chunk last_chunk of
                          Inl e \<Rightarrow> (text_response 422 (ev_describe V e), L)
                        | Inr (body_start, body_end) \<Rightarrow>
                            let stream = envelope_stream P r start_byte end_byte first_chunk last_chunk
                                  body_start body_end source;
                                count = end_byte - start_byte + 1 in
                            (case download_hold D count L of
                               (Inl e, L') \<Rightarrow> (text_response 429 (us e), L')
                             | (Inr hold, L') \<Rightarrow>
                                 let stream = guard_protected_chunks A (guard_media_chunks (Some (de_account D)) 1 stream) 0;
                                     (body, completed) = quota_media_chunks 0 (unat count) stream in
                                 (\<lparr>rs_status = (if is_range then 206 else 200),
                                   rs_headers =
                                     (if is_range
                                      then [(''Content-Range'', content_range start_byte end_byte plaintext_size)]
                                      else []) @
                                     [(''Content-Type'', metadata_mime (ev_mime V) (dr_metadata_plaintext r)),
                                      (''Accept-Ranges'', us ''bytes''), (''Content-Length'', show_u64 count),
                                      (''Cache-Control'', us ''no-store'')],
                                   rs_body = Streaming body, rs_hold = Some hold, rs_committed = completed\<rparr>, L')))))))"

end
