(* ===== verification/Media_Chunks.thy ===== *)
theory Media_Chunks
  imports Media_Envelope "HOL-Library.Sublist"
begin

text \<open>
  What the wrappers of a response body do to its bytes. Each of them sends a prefix of the bytes it is
  given and, when it ends without an error, all of them; this contract is the locale \<open>body_wrapper\<close>,
  closed under composition, and the pacing, the account guard, the credential guard and the bandwidth
  hold are its interpretations. Cutting the requested bytes out of an aligned download is exact.
\<close>

section \<open>The contract of a wrapper\<close>

locale body_wrapper =
  fixes wrap :: "chunk list \<Rightarrow> chunk list"
  assumes wrap_prefix: "prefix (delivered (wrap s)) (delivered s)"
    and wrap_whole: "unbroken (wrap s) \<Longrightarrow> unbroken s \<and> delivered (wrap s) = delivered s"
begin

lemma sent_whole: "unbroken (wrap s) \<Longrightarrow> delivered s = b \<Longrightarrow> delivered (wrap s) = b"
  using wrap_whole by blast

lemma sent_prefix: "prefix (delivered s) b \<Longrightarrow> prefix (delivered (wrap s)) b"
  using wrap_prefix prefix_order.trans by blast

end

locale wrapper_pair = outer: body_wrapper f + inner: body_wrapper g
  for f :: "chunk list \<Rightarrow> chunk list" and g :: "chunk list \<Rightarrow> chunk list"

sublocale wrapper_pair \<subseteq> both: body_wrapper "\<lambda>s. f (g s)"
proof
  show "prefix (delivered (f (g s))) (delivered s)" for s
    by (rule outer.sent_prefix [OF inner.wrap_prefix])
  show "unbroken (f (g s)) \<Longrightarrow> unbroken s \<and> delivered (f (g s)) = delivered s" for s
    using outer.wrap_whole [of "g s"] inner.wrap_whole [of s] by simp
qed

section \<open>The wrappers\<close>

interpretation pace: body_wrapper "pace_media_chunks waits n" for waits n
proof
  show "prefix (delivered (pace_media_chunks waits n s)) (delivered s)" for s
    by (induction waits n s rule: pace_media_chunks.induct) (auto split: sum.splits)
  show "unbroken (pace_media_chunks waits n s) \<Longrightarrow> unbroken s \<and>
      delivered (pace_media_chunks waits n s) = delivered s" for s
    by (induction waits n s rule: pace_media_chunks.induct) (auto split: sum.splits)
qed

lemma delivered_Cons: "delivered (c # s) = delivered [c] @ delivered s"
  by (cases c) simp_all

lemma unbroken_Cons: "unbroken (c # s) \<longleftrightarrow> unbroken [c] \<and> unbroken s"
  by (cases c) simp_all

interpretation guard: body_wrapper "guard_media_chunks account n" for account n
proof
  show "prefix (delivered (guard_media_chunks account n s)) (delivered s)" for s
  proof (induction account n s rule: guard_media_chunks.induct)
    case (2 account n chunk rest)
    then show ?case by (cases chunk) auto
  qed simp
  show "unbroken (guard_media_chunks account n s) \<Longrightarrow> unbroken s \<and>
      delivered (guard_media_chunks account n s) = delivered s" for s
  proof (induction account n s rule: guard_media_chunks.induct)
    case (2 account n chunk rest)
    then show ?case by (cases chunk) (auto split: if_splits)
  qed simp
qed

interpretation quota: body_wrapper "\<lambda>s. fst (quota_media_chunks n expected s)" for n expected
proof
  show "prefix (delivered (fst (quota_media_chunks n expected s))) (delivered s)" for s
    by (induction n expected s rule: quota_media_chunks.induct) (auto simp: case_prod_beta)
  show "unbroken (fst (quota_media_chunks n expected s)) \<Longrightarrow> unbroken s \<and>
      delivered (fst (quota_media_chunks n expected s)) = delivered s" for s
    by (induction n expected s rule: quota_media_chunks.induct) (auto simp: case_prod_beta)
qed

lemma protected_pieces_facts:
  "protected_pieces A n bytes = (out, full, m) \<Longrightarrow>
     prefix (delivered out) bytes \<and> (unbroken out \<longleftrightarrow> full) \<and> (full \<longrightarrow> delivered out = bytes)"
proof (induction A n bytes arbitrary: out full m rule: protected_pieces.induct)
  case (1 A n bytes)
  show ?case
  proof (cases "bytes = [] \<or> isl (pp_waits A n) \<or> \<not> stream_key_lives A (n + 1)")
    case True
    then show ?thesis using "1.prems"
      by (subst (asm) protected_pieces.simps) (auto split: sum.splits if_splits)
  next
    case False
    then obtain u where w: "pp_waits A n = Inr u" by (cases "pp_waits A n") auto
    obtain out' c' m' where r: "protected_pieces A (n + 2) (drop 65536 bytes) = (out', c', m')" by (metis surj_pair)
    have e: "out = Ok (take 65536 bytes) # out'" "full = c'"
      using "1.prems" False w r by (subst (asm) protected_pieces.simps, simp)+
    have IH: "prefix (delivered out') (drop 65536 bytes) \<and> (unbroken out' \<longleftrightarrow> c') \<and>
        (c' \<longrightarrow> delivered out' = drop 65536 bytes)"
      using "1.IH" [OF _ w _ r] False by auto
    have "prefix (take 65536 bytes @ delivered out') (take 65536 bytes @ drop 65536 bytes)"
      using IH by (subst same_prefix_prefix) blast
    then show ?thesis using IH by (simp add: e)
  qed
qed

interpretation credential: body_wrapper "\<lambda>s. guard_protected_chunks A s n" for A n
proof
  show "prefix (delivered (guard_protected_chunks A s n)) (delivered s)" for s
  proof (induction s arbitrary: n)
    case (Cons c s)
    show ?case
    proof (cases c)
      case (Inr bytes)
      obtain out k m where p: "protected_pieces A (n + 1) bytes = (out, k, m)" by (metis surj_pair)
      show ?thesis using Inr p protected_pieces_facts [OF p] Cons.IH [of m] by (auto intro: prefix_prefix)
    qed simp
  qed simp
  show "unbroken (guard_protected_chunks A s n) \<Longrightarrow> unbroken s \<and>
      delivered (guard_protected_chunks A s n) = delivered s" for s
  proof (induction s arbitrary: n)
    case (Cons c s)
    show ?case
    proof (cases c)
      case (Inr bytes)
      obtain out k m where p: "protected_pieces A (n + 1) bytes = (out, k, m)" by (metis surj_pair)
      show ?thesis using Inr p protected_pieces_facts [OF p] Cons.IH [of m] Cons.prems
        by (auto split: if_splits)
    qed (use Cons.prems in \<open>auto split: if_splits\<close>)
  qed (simp split: if_splits)
qed

interpretation open_body: wrapper_pair "guard_media_chunks account n" "pace_media_chunks waits m"
  for account n waits m ..

interpretation protected_body: wrapper_pair "\<lambda>s. guard_protected_chunks A s m" "guard_media_chunks account n"
  for A m account n ..

section \<open>Answers that let everything through\<close>

lemma pace_granted: "(\<And>m. waits m = Ok ()) \<Longrightarrow> pace_media_chunks waits n s = s"
  by (induction waits n s rule: pace_media_chunks.induct) simp_all

lemma guard_granted: "(\<And>m. \<not> account_refuses account m) \<Longrightarrow> guard_media_chunks account n s = s"
  by (induction account n s rule: guard_media_chunks.induct) simp_all

lemma pieces_granted:
  assumes "\<And>m. pp_waits A m = Ok ()" and "\<And>m. stream_key_lives A m"
  shows "fst (snd (protected_pieces A n bytes))"
  using assms
proof (induction A n bytes rule: protected_pieces.induct)
  case (1 A n bytes)
  then show ?case by (subst protected_pieces.simps) (auto simp: case_prod_beta)
qed

lemma credential_granted:
  assumes "\<And>m. pp_waits A m = Ok ()" and "\<And>m. stream_key_lives A m" and "\<And>m. stream_authorized A m"
  shows "unbroken s \<Longrightarrow> unbroken (guard_protected_chunks A s n)"
proof (induction s arbitrary: n)
  case Nil
  then show ?case by (simp add: assms(3))
next
  case (Cons c s)
  then obtain bytes where c: "c = Inr bytes" by (cases c) auto
  obtain out k m where p: "protected_pieces A (n + 1) bytes = (out, k, m)" by (metis surj_pair)
  have k using pieces_granted [OF assms(1,2), of "n + 1" bytes] p by simp
  then show ?case using Cons c p protected_pieces_facts [OF p] assms(3) by simp
qed

section \<open>The hold\<close>

lemma quota_committed:
  "n + length (delivered s) < 2 ^ 64 \<Longrightarrow>
   snd (quota_media_chunks n expected s) \<longleftrightarrow> unbroken s \<and> n + length (delivered s) = expected"
proof (induction n expected s rule: quota_media_chunks.induct)
  case (3 n expected bytes rest)
  then have "min (2 ^ 64 - 1) (n + length bytes) = n + length bytes" by simp
  then show ?case using "3.IH" "3.prems" by (simp add: case_prod_beta add.assoc)
qed simp_all

lemma quota_unbroken: "unbroken (fst (quota_media_chunks n expected s)) = unbroken s"
  by (induction n expected s rule: quota_media_chunks.induct) (auto simp: case_prod_beta)

section \<open>Cutting bytes out of a download\<close>

text \<open>What a download gives before its first error.\<close>

definition arriving :: "chunk list \<Rightarrow> bytes" where
  "arriving download = delivered (takeWhile (\<lambda>c. \<not> isl c) download)"

lemma arriving_simps [simp]:
  "arriving [] = []" "arriving (Inl e # s) = []" "arriving (Inr b # s) = b @ arriving s"
  by (simp_all add: arriving_def)

lemma slice_media_exact:
  assumes "skipped \<le> leading"
  shows "delivered (slice_media_chunks download leading skipped remaining) =
      take remaining (drop (leading - skipped) (arriving download)) \<and>
    (unbroken (slice_media_chunks download leading skipped remaining) \<longleftrightarrow>
      remaining = 0 \<or> leading - skipped + remaining \<le> length (arriving download))"
  using assms
proof (induction download arbitrary: skipped remaining)
  case (Cons c rest)
  show ?case
  proof (cases "remaining = 0 \<or> isl c")
    case True
    then show ?thesis by (cases c) auto
  next
    case False
    then obtain bytes where c: "c = Inr bytes" by (cases c) auto
    let ?skip = "min (leading - skipped) (length bytes)"
    let ?count = "min remaining (length (drop ?skip bytes))"
    have le: "skipped + ?skip \<le> leading" using Cons.prems by simp
    note IH = Cons.IH [OF le, of "remaining - ?count"]
    have s: "slice_media_chunks (c # rest) leading skipped remaining =
        (if 0 < ?count then [Ok (take ?count (drop ?skip bytes))] else []) @
          slice_media_chunks rest leading (skipped + ?skip) (remaining - ?count)"
      using False by (simp add: c Let_def)
    have d: "delivered (slice_media_chunks (c # rest) leading skipped remaining) =
        take ?count (drop ?skip bytes) @ delivered (slice_media_chunks rest leading (skipped + ?skip) (remaining - ?count))"
      unfolding s by (cases "?count = 0") (simp_all only: take_0 if_P if_not_P delivered_simps neq0_conv not_gr0
          append_Nil append_Nil2 less_irrefl if_False if_True simp_thms)
    have u: "unbroken (slice_media_chunks (c # rest) leading skipped remaining) =
        unbroken (slice_media_chunks rest leading (skipped + ?skip) (remaining - ?count))"
      unfolding s by (cases "?count = 0") (simp_all only: unbroken_simps neq0_conv append_Nil less_irrefl
          if_False if_True simp_thms)
    show ?thesis
    proof (cases "length bytes \<le> leading - skipped")
      case True
      then obtain k where k: "leading = skipped + length bytes + k"
        using Cons.prems by (metis add.commute le_add_diff_inverse le_diff_conv2)
      show ?thesis unfolding d u using IH False by (auto simp: c k)
    next
      case small: False
      then show ?thesis
        unfolding d u using IH False by (cases "remaining \<le> length bytes - (leading - skipped)") (auto simp: c)
    qed
  qed
qed simp

lemma slice_media_start:
  "delivered (slice_media_chunks download leading 0 n) = slice (arriving download) leading (leading + n)"
  "unbroken (slice_media_chunks download leading 0 n) \<longleftrightarrow> n = 0 \<or> leading + n \<le> length (arriving download)"
  using slice_media_exact [of 0 leading download n] by (simp_all add: slice_def)

end
