(* ===== verification/Media_Records.thy ===== *)
theory Media_Records
  imports Media_Chunks
begin

text \<open>
  Opening records as they arrive: whatever a download sends, the bytes handed out are those of records
  that were sealed for their place in the envelope, cut to the requested range; the stream ends without
  an error exactly when all the planned records, and the final record of a whole file, arrived.
\<close>

section \<open>Lists\<close>

lemma slice_append: "slice (xs @ ys) i j = slice xs i j @ slice ys (i - length xs) (j - length xs)"
  by (cases "i \<le> length xs") (simp_all add: slice_def)

lemma slice_clip: "slice xs i (min j (length xs)) = slice xs i j"
  by (cases "j \<le> length xs") (simp_all add: slice_def min_def)

lemma slice_Nil [simp]: "slice [] i j = []"
  by (simp add: slice_def)

lemma fill_buffer_cases:
  "case fill_buffer ended n dl buf of
     Inl e \<Rightarrow> length (buf @ arriving dl) < n
   | Inr (b, dl') \<Rightarrow> n \<le> length b \<and> b @ arriving dl' = buf @ arriving dl"
proof (induction dl arbitrary: buf)
  case (Cons c dl)
  show ?case
  proof (cases c)
    case (Inr bytes)
    then show ?thesis using Cons.IH [of "buf @ bytes"] by (auto split: sum.splits)
  qed auto
qed auto

lemma fill_buffer_Ok:
  assumes "n \<le> length (buf @ arriving dl)"
  obtains b dl' where "fill_buffer e n dl buf = Ok (b, dl')" "n \<le> length b" "b @ arriving dl' = buf @ arriving dl"
  using fill_buffer_cases [where ended = e and n = n and dl = dl and buf = buf] assms by (auto split: sum.splits)

lemma fill_buffer_Err:
  assumes "length (buf @ arriving dl) < n"
  obtains x where "fill_buffer e n dl buf = Err x"
  using fill_buffer_cases [where ended = e and n = n and dl = dl and buf = buf] assms
  by (auto split: sum.splits) (metis length_append le_add1 le_trans not_le)

section \<open>One record\<close>

abbreviation reader_chunk :: "decrypt_reader \<Rightarrow> nat" where "reader_chunk r \<equiv> unat (ch_chunk_size (dr_core r))"
abbreviation reader_total :: "decrypt_reader \<Rightarrow> nat" where "reader_total r \<equiv> unat (ch_total_plaintext_length (dr_core r))"
abbreviation reader_count :: "decrypt_reader \<Rightarrow> nat" where "reader_count r \<equiv> unat (chunk_count (dr_core r))"

text \<open>The reader can open record \<open>i\<close>: any time by its index, or next in the order of a whole file.\<close>

definition record_ready :: "record_plan \<Rightarrow> decrypt_reader \<Rightarrow> nat \<Rightarrow> bool" where
  "record_ready plan r i \<longleftrightarrow> ctx_ok (reader_ctx r) \<and>
     (rp_whole plan \<longrightarrow> before_record r i \<and> dr_buffer r = [] \<and> \<not> dr_final_record_verified r)"

definition after_record :: "record_plan \<Rightarrow> decrypt_reader \<Rightarrow> bytes \<Rightarrow> decrypt_reader" where
  "after_record plan r m = (if rp_whole plan then take_record r m else r)"

lemma record_plain_next:
  "ctx_ok (reader_ctx r) \<Longrightarrow> before_record r i \<Longrightarrow> i < reader_count r \<Longrightarrow>
   next_plaintext_length r = record_plain (reader_total r) (reader_chunk r) i"
  using before_record_facts(3) by (simp add: record_plain_def)

lemma feed_record:
  assumes P: "prims_ok P" and c: "ctx_ok (reader_ctx r)" and b: "before_record r i" and i: "i < reader_count r"
    and e: "dr_buffer r = []" and v: "\<not> dr_final_record_verified r"
    and l: "length ct = record_plain (reader_total r) (reader_chunk r) i + 16"
  shows "feed P r ct = (Ok m, r') \<longleftrightarrow>
    ct = record_at P (reader_ctx r) i m \<and> length m = record_plain (reader_total r) (reader_chunk r) i \<and>
    r' = take_record r m"
proof -
  note F = before_record_facts [OF c b i]
  have n: "next_plaintext_length r = record_plain (reader_total r) (reader_chunk r) i"
    by (rule record_plain_next [OF c b i])
  have er: "r\<lparr>dr_buffer := []\<rparr> = r" using e by simp
  let ?D = "decrypt_next_chunk P r ct (next_plaintext_length r)"
  have l1: "feed_loop P (buffered r ct) [] = (case ?D of
      (Inl x, r') \<Rightarrow> (Err x, r') | (Inr p, r') \<Rightarrow> feed_loop P r' p)"
    using loop_record [of "buffered r ct" P "[]"] F(5) l n e by (simp add: er) (auto split: sum.splits prod.splits)
  have stop: "feed P r ct = (Ok m, take_record r m)" if d: "?D = (Ok m, take_record r m)" and lm: "length m = next_plaintext_length r" for m
  proof -
    let ?r = "take_record r m"
    have s: "before_record ?r (Suc i)" using before_record_Suc [OF c b i lm] .
    have eb: "dr_buffer ?r = []" using e by simp
    have "feed_loop P ?r m = (Ok (Suc i = reader_count r, m), ?r)"
    proof (cases "Suc i = reader_count r")
      case True
      then have "\<not> dr_chunk_index ?r < chunk_count (dr_core ?r)"
        using s by (simp add: before_record_def word_less_nat_alt)
      then show ?thesis using True by (simp add: loop_complete)
    next
      case False
      then have "dr_chunk_index ?r < chunk_count (dr_core ?r)"
        using s i by (simp add: before_record_def word_less_nat_alt)
      then show ?thesis using False loop_wait [of ?r P m] e by simp
    qed
    then show ?thesis using l1 d v eb by (simp add: feed_def feed_tail_def policy_simps)
  qed
  have D: "?D = (Ok m, r') \<longleftrightarrow> ct = record_at P (reader_ctx r) i m \<and> length m = next_plaintext_length r \<and>
      r' = take_record r m" for m r'
    by (rule decrypt_next_chunk_iff [OF P c b i])
  show ?thesis
  proof (cases "fst ?D")
    case (Inl x)
    then obtain r2 where d: "?D = (Err x, r2)" by (metis prod.collapse)
    then have "feed P r ct \<noteq> (Ok m, r')" using l1 v by (auto simp: feed_def)
    moreover have "\<not> (ct = record_at P (reader_ctx r) i m \<and> length m = next_plaintext_length r)"
      using D [of m "take_record r m"] d by auto
    ultimately show ?thesis using n by auto
  next
    case (Inr m2)
    then obtain r2 where d: "?D = (Ok m2, r2)" by (metis prod.collapse)
    then have x: "length m2 = next_plaintext_length r" "r2 = take_record r m2" using D by blast+
    have "feed P r ct = (Ok m2, take_record r m2)" using stop x d by blast
    then show ?thesis using D [of m r'] d x n by auto
  qed
qed

lemma open_record_iff:
  assumes P: "prims_ok P" and rd: "record_ready plan r (unat k)" and k: "unat k < reader_count r"
    and l: "length ct = record_plain (reader_total r) (reader_chunk r) (unat k) + 16"
  shows "open_record P plan r k ct = (Ok m, r') \<longleftrightarrow>
    ct = record_at P (reader_ctx r) (unat k) m \<and>
    length m = record_plain (reader_total r) (reader_chunk r) (unat k) \<and> r' = after_record plan r m"
proof (cases "rp_whole plan")
  case True
  then show ?thesis
    using feed_record [OF P, of r "unat k" ct m r'] rd k l by (simp add: open_record_def record_ready_def after_record_def)
next
  case False
  then show ?thesis
    using decrypt_chunk_at_iff [OF P, of r k ct m] rd k by (auto simp: open_record_def record_ready_def after_record_def)
qed

lemma record_ready_Suc:
  assumes "record_ready plan r i" and "i < reader_count r"
    and "length m = record_plain (reader_total r) (reader_chunk r) i"
  shows "record_ready plan (after_record plan r m) (Suc i)"
proof (cases "rp_whole plan")
  case True
  then have "length m = next_plaintext_length r" using assms record_plain_next [of r i] by (simp add: record_ready_def)
  then show ?thesis
    using True assms before_record_Suc [of r i m]
    by (simp add: record_ready_def after_record_def) (simp add: take_record_def)
qed (use assms in \<open>simp add: record_ready_def after_record_def\<close>)

lemma after_record_frame [simp]:
  "dr_header (after_record plan r m) = dr_header r" "reader_ctx (after_record plan r m) = reader_ctx r"
  by (simp_all add: after_record_def)

lemma plan_facts:
  assumes c: "ctx_ok (reader_ctx r)" and k: "unat k < reader_count r"
  shows "unat (plan_offset r k) = unat k * reader_chunk r"
    and "plan_length r k = record_plain (reader_total r) (reader_chunk r) (unat k)"
    and "unat k * reader_chunk r < reader_total r"
proof -
  have t: "reader_total r \<le> 2000000000" and cs: "0 < reader_chunk r"
    and n: "reader_count r = ceil_div (reader_total r) (reader_chunk r)"
    using c by (simp_all add: ctx_ok_def)
  show lt: "unat k * reader_chunk r < reader_total r" using k cs by (simp add: n less_ceil_div_iff)
  then show o: "unat (plan_offset r k) = unat k * reader_chunk r"
    using t by (simp add: plan_offset_def unat_word_ariths)
  then have "plan_offset r k \<le> ch_total_plaintext_length (dr_core r)" using lt by (simp add: word_le_nat_alt)
  then show "plan_length r k = record_plain (reader_total r) (reader_chunk r) (unat k)"
    using o by (simp add: plan_length_def record_plain_def min_def word_le_nat_alt unat_sub)
qed

lemma trim_record_slice:
  assumes c: "ctx_ok (reader_ctx r)" and k: "unat k < reader_count r"
    and e: "unat k * reader_chunk r \<le> unat (rp_end plan)" "unat (rp_end plan) < reader_total r"
    and m: "length m = record_plain (reader_total r) (reader_chunk r) (unat k)"
  shows "trim_record r plan k m =
    slice m (unat (rp_start plan) - unat k * reader_chunk r) (Suc (unat (rp_end plan)) - unat k * reader_chunk r)"
proof -
  note F = plan_facts [OF c k]
  have t: "reader_total r \<le> 2000000000" using c by (simp add: ctx_ok_def)
  have "plan_offset r k \<le> rp_end plan" using e F(1) by (simp add: word_le_nat_alt)
  then have d: "unat (rp_end plan - plan_offset r k + 1) = Suc (unat (rp_end plan)) - unat k * reader_chunk r"
    using F(1) e t by (simp add: unat_word_ariths(1) unat_sub word_le_nat_alt)
  have "record_plain (reader_total r) (reader_chunk r) (unat k) \<le> reader_total r"
    by (simp add: record_plain_def)
  then have pl: "unat (of_nat (plan_length r k) :: u64) = length m"
    using m F(2) t by (simp add: unat_of_nat)
  have "unat (min (rp_end plan - plan_offset r k + 1) (of_nat (plan_length r k))) =
      min (Suc (unat (rp_end plan)) - unat k * reader_chunk r) (length m)"
    using d pl by (simp add: min_def word_le_nat_alt)
  then show ?thesis by (simp add: trim_record_def unat_saturating_sub_u64 F(1) slice_clip)
qed

section \<open>The final record\<close>

lemma check_final_iff:
  assumes P: "prims_ok P" and c: "ctx_ok (reader_ctx r)" and b: "before_record r (reader_count r)"
    and e: "dr_buffer r = []" and v: "\<not> dr_final_record_verified r" and l: "length (buf @ arriving dl) \<le> 68"
  shows "(\<exists>r2. check_final_record P r dl buf = Ok r2) \<longleftrightarrow>
    buf @ arriving dl = final_record P (reader_ctx r) (dr_plaintext_hasher r)"
proof -
  let ?F = "final_record P (reader_ctx r) (dr_plaintext_hasher r)"
  have lf: "length ?F = 68" using P c by (rule length_final_record)
  have ix: "dr_chunk_index r = chunk_count (dr_core r)"
    and n: "reader_count r = ceil_div (reader_total r) (reader_chunk r)" and cs: "0 < reader_chunk r"
    using b c by (simp_all add: before_record_def ctx_ok_def word_unat_eq_iff)
  have "\<not> reader_count r < ceil_div (reader_total r) (reader_chunk r)" using n by simp
  then have "reader_total r \<le> reader_count r * reader_chunk r" using cs by (simp add: less_ceil_div_iff)
  then have ps: "dr_plaintext_position r = ch_total_plaintext_length (dr_core r)"
    using b by (simp add: before_record_def word_unat_eq_iff)
  show ?thesis
  proof (cases "length (buf @ arriving dl) < 68")
    case True
    obtain x where "fill_buffer FINAL_TRUNCATED 68 dl buf = Err x" using fill_buffer_Err [OF True] .
    moreover have "buf @ arriving dl \<noteq> ?F" using True lf by force
    ultimately show ?thesis by (simp add: check_final_record_def policy_simps)
  next
    case False
    then have "68 \<le> length (buf @ arriving dl)" by simp
    then obtain y dl' where f: "fill_buffer FINAL_TRUNCATED 68 dl buf = Ok (y, dl')" "68 \<le> length y"
      "y @ arriving dl' = buf @ arriving dl" using fill_buffer_Ok by blast
    have "length y + length (arriving dl') \<le> 68" using l unfolding f(3) [symmetric] by simp
    then have y: "y = buf @ arriving dl" "length y = 68" using f(2,3) by (cases "arriving dl'"; simp)+
    let ?r0 = "r\<lparr>dr_buffer := []\<rparr>"
    have er: "?r0 = r" using e by simp
    obtain res r1 where vf: "verify_final_record P r y = (res, r1)" by fastforce
    have vf0: "verify_final_record P ?r0 y = (res, r1)" by (simp only: er vf)
    have fd: "feed P r y = (case res of Inl e \<Rightarrow> (Err e, r1) | Inr _ \<Rightarrow>
        if dr_buffer r1 \<noteq> [] then (Err (header_invalid ''Trailing bytes after final record''), r1) else (Ok [], r1))"
      using v ix y(2) vf0 e loop_complete [of "buffered r y" P "[]"]
      by (simp add: feed_def feed_tail_def policy_simps)
    note V = verify_final_record_iff [OF P c, of y r1]
    show ?thesis
    proof (cases res)
      case (Inl x)
      have "verify_final_record P r y \<noteq> (Ok (), r\<lparr>dr_final_record_verified := True\<rparr>)" using vf Inl by simp
      then have "y \<noteq> ?F" using verify_final_record_iff [OF P c, of y] ix ps by blast
      then show ?thesis using Inl fd f(1) y by (simp add: check_final_record_def policy_simps)
    next
      case (Inr u)
      then have "y = ?F" "r1 = r\<lparr>dr_final_record_verified := True\<rparr>" using V vf by auto
      then show ?thesis using Inr fd f(1) y e by (simp add: check_final_record_def policy_simps finish_def)
    qed
  qed
qed

section \<open>The records of a plan\<close>

lemma record_at_inj:
  assumes "prims_ok P" and "ctx_ok c" and "length m = length m'" and "length m \<le> unat (cc_chunk_size c)"
    and "record_at P c i m = record_at P c i m'"
  shows "m = m'"
proof -
  have l: "length m < 2 ^ 32" "length m' < 2 ^ 32" using assms(2-4) by (auto simp: ctx_ok_def)
  let ?aad = "chunk_aad_of c (of_nat i) (of_nat (i * unat (cc_chunk_size c))) (of_nat (length m))"
  have "seal_content P c (of_nat i) ?aad m = seal_content P c (of_nat i) ?aad m'"
    using assms(3,5) by (simp add: record_at_def)
  then have "Some m = Some m'"
    using open_content_iff [OF assms(1,2) l(1), of "of_nat i" ?aad "seal_content P c (of_nat i) ?aad m"]
      open_content_iff [OF assms(1,2) l(2), of "of_nat i" ?aad "seal_content P c (of_nat i) ?aad m"] by simp
  then show ?thesis by simp
qed

text \<open>The bytes of the records from \<open>i\<close> up to \<open>k\<close>.\<close>

definition span_length :: "decrypt_reader \<Rightarrow> nat \<Rightarrow> nat \<Rightarrow> nat" where
  "span_length r i k = min (k * reader_chunk r) (reader_total r) - min (i * reader_chunk r) (reader_total r)"

lemma span_self [simp]: "span_length r k k = 0"
  by (simp add: span_length_def)

lemma span_step:
  assumes "ctx_ok (reader_ctx r)" and "i < reader_count r" and "Suc i \<le> k"
  shows "span_length r i k = record_plain (reader_total r) (reader_chunk r) i + span_length r (Suc i) k"
    and "record_plain (reader_total r) (reader_chunk r) i = reader_chunk r \<or> span_length r (Suc i) k = 0"
    and "0 < record_plain (reader_total r) (reader_chunk r) i"
proof -
  let ?k = "reader_chunk r" and ?t = "reader_total r"
  have cs: "0 < ?k" and lt: "i * ?k < ?t"
    using assms(1,2) by (simp_all add: ctx_ok_def less_ceil_div_iff)
  obtain d where d: "?t = i * ?k + d" "0 < d" using lt by (metis less_imp_add_positive)
  have m: "Suc i * ?k \<le> k * ?k" using assms(3) by (rule mult_le_mono1)
  show "span_length r i k = record_plain ?t ?k i + span_length r (Suc i) k"
    "record_plain ?t ?k i = ?k \<or> span_length r (Suc i) k = 0" "0 < record_plain ?t ?k i"
    using m cs d(2) by (auto simp: span_length_def record_plain_def d(1) min_def)
qed

lemma records_from_Cons:
  assumes P: "prims_ok P" and c: "ctx_ok (reader_ctx r)" and i: "i < reader_count r" "Suc i \<le> k"
    and m: "length m = record_plain (reader_total r) (reader_chunk r) i" and q: "length q = span_length r (Suc i) k"
  shows "records_from P (reader_ctx r) i (m @ q) = record_at P (reader_ctx r) i m @ records_from P (reader_ctx r) (Suc i) q"
proof -
  note S = span_step [OF c i]
  have cs: "0 < reader_chunk r" using c by (simp add: ctx_ok_def)
  have ne: "m @ q \<noteq> []" using S(3) m by auto
  have "take (reader_chunk r) (m @ q) = m \<and> drop (reader_chunk r) (m @ q) = q"
    using S(2) m q by (auto simp: record_plain_def)
  then show ?thesis using records_from_unfold [of "reader_ctx r" "m @ q" P i] cs ne by simp
qed

lemma split_span:
  assumes "ctx_ok (reader_ctx r)" and "i < reader_count r" "Suc i \<le> k" and "length q = span_length r i k"
  obtains m q' where "q = m @ q'" "length m = record_plain (reader_total r) (reader_chunk r) i"
    "length q' = span_length r (Suc i) k"
proof
  let ?n = "record_plain (reader_total r) (reader_chunk r) i"
  show "q = take ?n q @ drop ?n q" by simp
  show "length (take ?n q) = ?n" "length (drop ?n q) = span_length r (Suc i) k"
    using span_step(1) [OF assms(1-3)] assms(4) by simp_all
qed

lemma prefix_blocks: "length a = length b \<Longrightarrow> prefix (a @ x) (b @ y) \<Longrightarrow> a = b \<and> prefix x y"
  by (auto simp: prefix_def)

lemma records_prefix:
  assumes P: "prims_ok P" and c: "ctx_ok (reader_ctx r)" and "i \<le> k" "k \<le> j" "j \<le> reader_count r"
    and "length p = span_length r i k" "length q = span_length r i j"
    and "prefix (records_from P (reader_ctx r) i p) (records_from P (reader_ctx r) i q @ z)"
  shows "prefix p q"
  using assms(3-)
proof (induction "k - i" arbitrary: i p q)
  case 0
  then show ?case by simp
next
  case (Suc d)
  have i: "i < reader_count r" "Suc i \<le> k" "Suc i \<le> j" "d = k - Suc i" using Suc.hyps(2) Suc.prems by simp_all
  obtain m p' where p: "p = m @ p'" "length m = record_plain (reader_total r) (reader_chunk r) i" "length p' = span_length r (Suc i) k"
    using split_span [OF c i(1,2) Suc.prems(4)] .
  obtain m2 q' where q: "q = m2 @ q'" "length m2 = record_plain (reader_total r) (reader_chunk r) i" "length q' = span_length r (Suc i) j"
    using split_span [OF c i(1,3) Suc.prems(5)] .
  have small: "length m \<le> reader_chunk r" by (simp add: p(2) record_plain_def)
  have l: "length (record_at P (reader_ctx r) i m) = length (record_at P (reader_ctx r) i m2)"
    using length_record_at [OF P c, of m i] length_record_at [OF P c, of m2 i] small p(2) q(2) by simp
  have pre: "prefix (record_at P (reader_ctx r) i m @ records_from P (reader_ctx r) (Suc i) p')
      (record_at P (reader_ctx r) i m2 @ records_from P (reader_ctx r) (Suc i) q' @ z)"
    using Suc.prems(6) records_from_Cons [OF P c i(1,2) p(2,3)] records_from_Cons [OF P c i(1,3) q(2,3)]
    by (simp add: p(1) q(1))
  note B = prefix_blocks [OF l pre]
  have "m = m2" using record_at_inj [OF P c, of m m2 i] B p(2) q(2) small by simp
  moreover have "prefix p' q'" using Suc.hyps(1) [OF i(4) i(2) Suc.prems(2,3) p(3) q(3)] B by simp
  ultimately show ?case by (simp add: p(1) q(1))
qed

lemma length_records_span:
  assumes P: "prims_ok P" and c: "ctx_ok (reader_ctx r)" and "i \<le> j" "j \<le> reader_count r"
    and "length q = span_length r i j"
  shows "length (records_from P (reader_ctx r) i q) = length q + 16 * (j - i)"
  using assms(3-)
proof (induction "j - i" arbitrary: i q)
  case 0
  then show ?case by simp
next
  case (Suc d)
  have i: "i < reader_count r" "Suc i \<le> j" "d = j - Suc i" using Suc.hyps(2) Suc.prems by simp_all
  obtain m q' where q: "q = m @ q'" "length m = record_plain (reader_total r) (reader_chunk r) i" "length q' = span_length r (Suc i) j"
    using split_span [OF c i(1,2) Suc.prems(3)] .
  have "length (record_at P (reader_ctx r) i m) = length m + 16"
    using length_record_at [OF P c, of m i] by (simp add: q(2) record_plain_def)
  then show ?case
    using Suc.hyps(1) [OF i(3) i(2) Suc.prems(2) q(3)] records_from_Cons [OF P c i(1,2) q(2,3)] i(2)
    by (simp add: q(1))
qed

section \<open>The stream of a plan\<close>

text \<open>What a stream hands out: the bytes of records \<open>i\<close> to \<open>k\<close> that were sealed for their place.\<close>

definition streamed ::
  "prims \<Rightarrow> record_plan \<Rightarrow> decrypt_reader \<Rightarrow> nat \<Rightarrow> nat \<Rightarrow> bytes \<Rightarrow> chunk list \<Rightarrow> bytes \<Rightarrow> nat \<Rightarrow> bool" where
  "streamed P plan r i j X out p k \<longleftrightarrow>
     i \<le> k \<and> k \<le> j \<and> length p = span_length r i k \<and> prefix (records_from P (reader_ctx r) i p) X \<and>
     delivered out = slice p (unat (rp_start plan) - i * reader_chunk r) (Suc (unat (rp_end plan)) - i * reader_chunk r) \<and>
     (unbroken out \<longleftrightarrow> k = j)"

text \<open>The plan is good for the records from \<open>i\<close> on: it ends in the last of them, inside the file, and a
  whole file is followed by no more than its final record.\<close>

definition plan_fits :: "record_plan \<Rightarrow> decrypt_reader \<Rightarrow> nat \<Rightarrow> nat \<Rightarrow> bytes \<Rightarrow> bool" where
  "plan_fits plan r i j X \<longleftrightarrow>
     i \<le> j \<and> j \<le> reader_count r \<and> (j - 1) * reader_chunk r \<le> unat (rp_end plan) \<and>
     unat (rp_end plan) < reader_total r \<and>
     (rp_whole plan \<longrightarrow> j = reader_count r \<and> unat (rp_last plan) = j - 1 \<and>
        length X \<le> span_length r i j + 16 * (j - i) + 68)"

lemma streamed_nothing:
  assumes "i < j" and "delivered out = []" and "\<not> unbroken out"
  shows "streamed P plan r i j X out [] i"
  using assms by (simp add: streamed_def span_length_def)

lemma streamed_record:
  assumes P: "prims_ok P" and c: "ctx_ok (reader_ctx r)" and i: "i < reader_count r"
    and m: "length m = record_plain (reader_total r) (reader_chunk r) i"
    and X: "X = record_at P (reader_ctx r) i m @ X'"
    and t: "t = slice m (unat (rp_start plan) - i * reader_chunk r) (Suc (unat (rp_end plan)) - i * reader_chunk r)"
    and s: "streamed P plan r (Suc i) j X' out p k"
  shows "streamed P plan r i j X (Inr t # out) (m @ p) k"
proof -
  from s have k: "Suc i \<le> k" "k \<le> j" and p: "length p = span_length r (Suc i) k"
    and pre: "prefix (records_from P (reader_ctx r) (Suc i) p) X'"
    and d: "delivered out = slice p (unat (rp_start plan) - Suc i * reader_chunk r) (Suc (unat (rp_end plan)) - Suc i * reader_chunk r)"
    and u: "unbroken out \<longleftrightarrow> k = j" by (simp_all add: streamed_def)
  note S = span_step [OF c i k(1)]
  have "delivered out = slice p (unat (rp_start plan) - i * reader_chunk r - length m)
      (Suc (unat (rp_end plan)) - i * reader_chunk r - length m)"
  proof (cases "p = []")
    case False
    then have "length m = reader_chunk r" using S(2) m p by auto
    then show ?thesis using d by (simp add: add.commute)
  qed (simp add: d)
  then have "delivered (Inr t # out) = slice (m @ p) (unat (rp_start plan) - i * reader_chunk r)
      (Suc (unat (rp_end plan)) - i * reader_chunk r)"
    by (simp add: t slice_append)
  then show ?thesis
    using k p pre u m S(1) by (simp add: streamed_def records_from_Cons [OF P c i k(1) m p] X)
qed

lemma stream_records_ok:
  assumes P: "prims_ok P" and rd: "record_ready plan r i" and pf: "plan_fits plan r i j (buf @ arriving dl)"
  shows "\<exists>p k. streamed P plan r i j (buf @ arriving dl)
      (stream_records P plan (map word_of_nat [i..<j]) r dl buf) p k \<and>
    (k = j \<and> i < j \<and> rp_whole plan \<longrightarrow> buf @ arriving dl =
       records_from P (reader_ctx r) i p @ final_record P (reader_ctx r) (dr_plaintext_hasher r @ p)) \<and>
    (k < j \<longrightarrow> (\<forall>q z. length q = span_length r i j \<longrightarrow> buf @ arriving dl = records_from P (reader_ctx r) i q @ z \<longrightarrow>
       rp_whole plan \<and> z \<noteq> final_record P (reader_ctx r) (dr_plaintext_hasher r @ q)))"
  using rd pf
proof (induction "j - i" arbitrary: i r dl buf)
  case 0
  then have "i = j" by (simp add: plan_fits_def)
  then show ?case by (intro exI [where x = "[]"] exI [where x = j]) (simp add: streamed_def span_length_def)
next
  case (Suc d)
  let ?X = "buf @ arriving dl" and ?k = "reader_chunk r" and ?c = "reader_ctx r"
  let ?n = "record_plain (reader_total r) (reader_chunk r) i"
  let ?out = "stream_records P plan (map word_of_nat [i..<j]) r dl buf"
  define w where "w = (word_of_nat i :: u32)"
  have ij: "i < j" "Suc i \<le> j" using Suc.hyps(2) by simp_all
  have ic: "i < reader_count r" using ij Suc.prems(2) by (simp add: plan_fits_def)
  have c: "ctx_ok ?c" using Suc.prems(1) by (simp add: record_ready_def)
  have uw: "unat w = i" unfolding w_def
    using ic unat_u32_less [of "chunk_count (dr_core r)"] by (intro unat_word_of_nat_u32) (simp del: unat_u32_less)
  have wc: "unat w < reader_count r" using ic uw by simp
  have pl: "plan_length r w = ?n" using plan_facts(2) [OF c wc] uw by simp
  have ixs: "map word_of_nat [i..<j] = w # map word_of_nat [Suc i..<j]"
    using ij by (simp add: w_def upt_conv_Cons)
  have ie: "i * ?k \<le> unat (rp_end plan)" "unat (rp_end plan) < reader_total r"
    using Suc.prems(2) ij le_trans [OF mult_le_mono1 [of i "j - 1" ?k]] by (simp_all add: plan_fits_def)
  have nk: "?n \<le> ?k" by (simp add: record_plain_def)
  note split = split_span [OF c ic ij(2)]
  have first: "record_at P ?c i m @ y = ?X" if "length q = span_length r i j" "?X = records_from P ?c i q @ z"
    "q = m @ q'" "length m = ?n" "length q' = span_length r (Suc i) j" "y = records_from P ?c (Suc i) q' @ z" for q z m q' y
    using that records_from_Cons [OF P c ic ij(2) that(4,5)] by simp
  have lr: "length (record_at P ?c i m) = ?n + 16" if "length m = ?n" for m
    using length_record_at [OF P c, of m i] that nk by simp
  have stuck: ?case if "delivered ?out = []" "\<not> unbroken ?out"
    "\<And>q z. length q = span_length r i j \<Longrightarrow> ?X = records_from P ?c i q @ z \<Longrightarrow>
      rp_whole plan \<and> z \<noteq> final_record P ?c (dr_plaintext_hasher r @ q)"
    by (intro exI [where x = "[]"] exI [where x = i]) (use streamed_nothing [OF ij(1) that(1,2)] that(3) ij in blast)
  show ?case
  proof (cases "length ?X < ?n + 16")
    case True
    obtain x where "fill_buffer RECORD_TRUNCATED (?n + 16) dl buf = Err x" using fill_buffer_Err [OF True] .
    then have out: "?out = [Err x]" by (simp add: ixs pl policy_simps Let_def)
    show ?thesis
    proof (rule stuck)
      fix q z assume a: "length q = span_length r i j" "?X = records_from P ?c i q @ z"
      obtain m q' where s: "q = m @ q'" "length m = ?n" "length q' = span_length r (Suc i) j" using split [OF a(1)] .
      have "length ?X \<ge> ?n + 16" using first [OF a s refl] lr [OF s(2)] by (metis length_append le_add1)
      then show "rp_whole plan \<and> z \<noteq> final_record P ?c (dr_plaintext_hasher r @ q)" using True by simp
    qed (simp_all add: out)
  next
    case False
    then have "?n + 16 \<le> length ?X" by simp
    then obtain b dl' where f: "fill_buffer RECORD_TRUNCATED (?n + 16) dl buf = Ok (b, dl')" "?n + 16 \<le> length b"
      "b @ arriving dl' = ?X" using fill_buffer_Ok by blast
    let ?ct = "take (?n + 16) b" and ?b = "drop (?n + 16) b"
    let ?X' = "?b @ arriving dl'"
    have X: "?X = ?ct @ ?X'" using f(3) by (metis append.assoc append_take_drop_id)
    have lct: "length ?ct = ?n + 16" using f(2) by simp
    have O: "open_record P plan r w ?ct = (Ok m, r') \<longleftrightarrow> ?ct = record_at P ?c i m \<and> length m = ?n \<and> r' = after_record plan r m" for m r'
      using open_record_iff [OF P, of plan r w ?ct m r'] Suc.prems(1) wc lct by (simp add: uw)
    have head: "m' = m \<and> y = ?X'" if "record_at P ?c i m' @ y = ?X" "length m' = ?n" "?ct = record_at P ?c i m" "length m = ?n" for m m' y
    proof -
      have "length (record_at P ?c i m') = length ?ct" using lr [OF that(2)] lct by simp
      then have "record_at P ?c i m' = ?ct \<and> y = ?X'"
        using trans [OF that(1) X] append_eq_append_conv [OF disjI1] by blast
      then show ?thesis using record_at_inj [OF P c, of m' m i] that nk by simp
    qed
    obtain res r1 where o: "open_record P plan r w ?ct = (res, r1)" by fastforce
    show ?thesis
    proof (cases res)
      case (Inl x)
      then have out: "?out = [Err RECORD_REJECTED]" using f(1) o by (simp add: ixs pl policy_simps Let_def)
      show ?thesis
      proof (rule stuck)
        fix q z assume a: "length q = span_length r i j" "?X = records_from P ?c i q @ z"
        obtain m q' where s: "q = m @ q'" "length m = ?n" "length q' = span_length r (Suc i) j" using split [OF a(1)] .
        have "take (?n + 16) ?X = record_at P ?c i m" using first [OF a s refl] lr [OF s(2)] by (metis append_eq_conv_conj)
        then have "?ct = record_at P ?c i m" using X lct by simp
        then show "rp_whole plan \<and> z \<noteq> final_record P ?c (dr_plaintext_hasher r @ q)" using O [of m] s(2) o Inl by auto
      qed (simp_all add: out)
    next
      case (Inr m)
      have m: "?ct = record_at P ?c i m" "length m = ?n" "r1 = after_record plan r m" using O o Inr by auto
      have trim: "trim_record r plan w m = slice m (unat (rp_start plan) - i * ?k) (Suc (unat (rp_end plan)) - i * ?k)"
        using trim_record_slice [OF c wc, of plan m] ie m(2) by (simp add: uw)
      have rd1: "record_ready plan r1 (Suc i)" unfolding m(3) by (rule record_ready_Suc [OF Suc.prems(1) ic m(2)])
      have Xm: "?X = record_at P ?c i m @ ?X'" using X m(1) by simp
      let ?t = "trim_record r plan w m" and ?rest = "map word_of_nat [Suc i..<j]"
      have out0: "?out = (if rp_whole plan \<and> w = rp_last plan then
            (case check_final_record P r1 dl' ?b of
               Inl e \<Rightarrow> [Err e]
             | Inr r2 \<Rightarrow> Ok ?t # stream_records P plan ?rest r2 dl' ?b)
          else Ok ?t # stream_records P plan ?rest r1 dl' ?b)"
        using f(1) o Inr by (simp add: ixs pl policy_simps Let_def)
      show ?thesis
      proof (cases "rp_whole plan \<and> w = rp_last plan")
        case last: True
        then have j: "j = reader_count r" "j = Suc i" and lX: "length ?X \<le> span_length r i j + 16 * (j - i) + 68"
          using Suc.prems(2) ij uw by (auto simp: plan_fits_def)
        have sp: "span_length r i j = ?n" using span_step(1) [OF c ic ij(2)] unfolding j(2) by simp
        have "length ?X' \<le> 68" using lX lr [OF m(2)] sp j(2) unfolding Xm by simp
        then have C: "(\<exists>r2. check_final_record P r1 dl' ?b = Ok r2) \<longleftrightarrow>
            ?X' = final_record P ?c (dr_plaintext_hasher r @ m)"
          using check_final_iff [OF P, of r1 ?b dl'] rd1 last j
          by (simp add: record_ready_def m(3) after_record_def) (simp add: take_record_def)
        show ?thesis
        proof (cases "check_final_record P r1 dl' ?b")
          case bad: (Inl x)
          then have out: "?out = [Err x]" unfolding out0 using last by simp
          show ?thesis
          proof (rule stuck)
            fix q z assume a: "length q = span_length r i j" "?X = records_from P ?c i q @ z"
            obtain m2 q' where s: "q = m2 @ q'" "length m2 = ?n" "length q' = span_length r (Suc i) j" using split [OF a(1)] .
            have q': "q' = []" using s(3) unfolding j(2) by simp
            have "m2 = m \<and> z = ?X'"
              using head [OF first [OF a s refl] s(2) m(1,2)] by (simp add: q')
            then show "rp_whole plan \<and> z \<noteq> final_record P ?c (dr_plaintext_hasher r @ q)"
              using C bad last s(1) q' by simp
          qed (simp_all add: out)
        next
          case good: (Inr r2)
          then have out: "?out = [Ok ?t]" unfolding out0 using last by (simp add: j(2))
          have s0: "streamed P plan r (Suc i) j ?X' [] [] j" unfolding j(2) by (simp add: streamed_def)
          have "streamed P plan r i j ?X ?out (m @ []) j"
            unfolding out by (rule streamed_record [OF P c ic m(2) Xm trim s0])
          moreover have "records_from P ?c i (m @ []) = record_at P ?c i m"
            using records_from_Cons [OF P c ic ij(2) m(2), of "[]"] unfolding j(2) by simp
          moreover have "?X' = final_record P ?c (dr_plaintext_hasher r @ m)" using C good by blast
          ultimately show ?thesis using Xm by (intro exI [where x = m] exI [where x = j]) simp
        qed
      next
        case more: False
        then have out: "?out = Ok ?t # stream_records P plan ?rest r1 dl' ?b" unfolding out0 by (simp only: if_False)
        have r1: "reader_ctx r1 = ?c" "dr_core r1 = dr_core r" by (simp_all add: m(3))
        have sl: "span_length r1 = span_length r" by (simp add: fun_eq_iff span_length_def r1)
        have lX: "length ?X = ?n + 16 + length ?X'" unfolding Xm using lr [OF m(2)] by simp
        have pf1: "plan_fits plan r1 (Suc i) j ?X'"
          using Suc.prems(2) ij lX span_step(1) [OF c ic ij(2)] by (auto simp: plan_fits_def r1 sl)
        have lt: "Suc i < j" if "rp_whole plan" 
          using that more ij Suc.prems(2) uw unfolding plan_fits_def by (metis Suc_lessI diff_Suc_1 word_unat_eq_iff)
        have d: "d = j - Suc i" using Suc.hyps(2) by simp
        obtain p k where IH: "streamed P plan r1 (Suc i) j ?X' (stream_records P plan ?rest r1 dl' ?b) p k"
          "k = j \<and> Suc i < j \<and> rp_whole plan \<longrightarrow> ?X' =
             records_from P ?c (Suc i) p @ final_record P ?c (dr_plaintext_hasher r1 @ p)"
          "k < j \<longrightarrow> (\<forall>q z. length q = span_length r (Suc i) j \<longrightarrow> ?X' = records_from P ?c (Suc i) q @ z \<longrightarrow>
             rp_whole plan \<and> z \<noteq> final_record P ?c (dr_plaintext_hasher r1 @ q))"
          using Suc.hyps(1) [OF d rd1 pf1] by (auto simp: r1 sl)
        have s1: "streamed P plan r (Suc i) j ?X' (stream_records P plan ?rest r1 dl' ?b) p k"
          using IH(1) by (simp add: streamed_def r1 sl)
        have h: "rp_whole plan \<Longrightarrow> dr_plaintext_hasher r1 = dr_plaintext_hasher r @ m"
          by (simp add: m(3) after_record_def take_record_def)
        have k: "Suc i \<le> k" "length p = span_length r (Suc i) k" using s1 by (simp_all add: streamed_def)
        note rc = records_from_Cons [OF P c ic k(1) m(2) k(2)]
        have "streamed P plan r i j ?X ?out (m @ p) k"
          unfolding out by (rule streamed_record [OF P c ic m(2) Xm trim s1])
        moreover have "?X = records_from P ?c i (m @ p) @ final_record P ?c (dr_plaintext_hasher r @ m @ p)"
          if "k = j" "rp_whole plan"
          using IH(2) lt [OF that(2)] that h [OF that(2)] Xm rc by simp
        moreover have "rp_whole plan \<and> z \<noteq> final_record P ?c (dr_plaintext_hasher r @ q)"
          if a: "k < j" "length q = span_length r i j" "?X = records_from P ?c i q @ z" for q z
        proof -
          obtain m2 q' where s: "q = m2 @ q'" "length m2 = ?n" "length q' = span_length r (Suc i) j" using split [OF a(2)] .
          have e: "m2 = m" "?X' = records_from P ?c (Suc i) q' @ z"
            using head [OF first [OF a(2,3) s refl] s(2) m(1,2)] by (rule conjunct1, metis)
          from IH(3) [rule_format, OF a(1) s(3) e(2)]
          have "rp_whole plan \<and> z \<noteq> final_record P ?c (dr_plaintext_hasher r1 @ q')" .
          then show ?thesis using h s(1) e(1) by simp
        qed
        ultimately show ?thesis by (intro exI [where x = "m @ p"] exI [where x = k]) blast
      qed
    qed
  qed
qed

end
