(* ===== verification/Media_Contract.thy ===== *)
theory Media_Contract
  imports Media_Records Ledger_Contract
begin

text \<open>
  What a media response delivers: a body that ends without an error is exactly the requested bytes of the
  file and its hold is charged, any other body is a beginning of them and charges nothing. The last
  section places the records of a range in an envelope, for the protected responses of \<open>Media_Protected\<close>.
\<close>

section \<open>What a request asks for\<close>

lemma decimal_step:
  "unat (saturating_add_u64 (saturating_mul_u64 n 10) (of_nat d)) = min (2 ^ 64 - 1) (10 * unat n + d)" if "d < 10"
proof -
  have m: "unat (- 1 :: u64) = 2 ^ 64 - 1" by (simp add: unsigned_minus_1_eq_mask mask_eq_exp_minus_1)
  have u: "unat (saturating_mul_u64 n 10) = min (2 ^ 64 - 1) (10 * unat n)"
    using m by (auto simp: saturating_mul_u64_def unat_word_ariths min_def mult.commute)
  have "unat (of_nat d :: u64) = d" using that by (simp add: unat_of_nat)
  then show ?thesis by (auto simp: unat_saturating_add_u64 u min_def)
qed

lemma decimal_saturates:
  assumes "v \<noteq> []" and "list_all is_ascii_digit v"
  shows "\<exists>w. decimal v = Some w \<and> unat w = min (2 ^ 64 - 1) (decimal_value v)"
proof -
  have "unat (fold (\<lambda>digit number. saturating_add_u64 (saturating_mul_u64 number 10) (of_nat (digit - 48))) v a)
      = min (2 ^ 64 - 1) (fold (\<lambda>c n. 10 * n + (c - 48)) v x)"
    if "list_all is_ascii_digit v" "unat a = min (2 ^ 64 - 1) x" for a x
    using that
  proof (induction v arbitrary: a x)
    case (Cons c v)
    let ?a = "saturating_add_u64 (saturating_mul_u64 a 10) (of_nat (c - 48))"
    have "unat ?a = min (2 ^ 64 - 1) (10 * x + (c - 48))"
      using Cons.prems decimal_step [of "c - 48" a] by (auto simp: is_ascii_digit_def min_def)
    then show ?case using Cons.IH [of ?a "10 * x + (c - 48)"] Cons.prems by simp
  qed simp
  from this [OF assms(2), of 0 0] show ?thesis using assms by (simp add: decimal_def decimal_value_def)
qed

lemma decimal_shown: "decimal (show_u64 a) = Some a"
proof -
  have ne: "us (digits (unat a)) \<noteq> []" by (simp add: us_def)
  from decimal_saturates [OF ne us_digits] obtain w where w: "decimal (us (digits (unat a))) = Some w"
    "unat w = min (2 ^ 64 - 1) (decimal_value (us (digits (unat a))))" by (elim exE conjE)
  have "unat w = unat a" using w(2) unat_u64_less [of a] unfolding decimal_digits by simp
  then show ?thesis using w(1) by (simp add: show_u64_def word_unat_eq_iff)
qed

lemma digits_plain:
  "45 \<notin> set (show_u64 a)" "trim (show_u64 a) = show_u64 a" "show_u64 a \<noteq> []"
proof -
  have d: "\<forall>c\<in>set (show_u64 a). is_ascii_digit c" using us_digits [of "unat a"] by (simp add: show_u64_def list_all_iff)
  have "\<not> is_ascii_digit 45" by (simp add: is_ascii_digit_def)
  then show "45 \<notin> set (show_u64 a)" using d by blast
  show "show_u64 a \<noteq> []" using digits_nonempty [of "unat a"] by (simp add: show_u64_def us_def)
  have dw: "dropWhile is_whitespace s = s" if "\<forall>c\<in>set s. is_ascii_digit c" for s
    using that by (cases s) (auto simp: is_whitespace_def is_ascii_digit_def)
  show "trim (show_u64 a) = show_u64 a" using dw d by (simp add: trim_def)
qed

text \<open>What is left of a range after its unit, split at the dash.\<close>

lemma range_parts:
  assumes "45 \<notin> set v"
  shows "Option.bind (Some (us ''bytes='' @ v @ us ''-'' @ w)) (strip_prefix (us ''bytes='')) = Some (v @ us ''-'' @ w)"
    and "split_once 45 (v @ us ''-'' @ w) = Some (v, w)"
proof -
  have h: "us ''-'' = [45]" by (simp add: us_def)
  show "Option.bind (Some (us ''bytes='' @ v @ us ''-'' @ w)) (strip_prefix (us ''bytes='')) = Some (v @ us ''-'' @ w)"
    by (simp add: strip_prefix_def starts_with_def)
  have "takeWhile (\<lambda>x. x \<noteq> 45) (v @ 45 # w) = v" "dropWhile (\<lambda>x. x \<noteq> 45) (v @ 45 # w) = 45 # w"
    using assms by (auto simp: takeWhile_append dropWhile_append)
  then show "split_once 45 (v @ us ''-'' @ w) = Some (v, w)" by (simp add: split_once_def h)
qed

lemma trim_Nil: "trim [] = []" by (simp add: trim_def)

text \<open>a request for the bytes \<open>a\<close> to \<open>b\<close> selects exactly these bytes of the file, cut off at its last
  byte; one for the bytes from \<open>a\<close> on selects the rest of the file and one for the last \<open>b\<close> bytes exactly
  those. A range that begins behind the file or asks for no bytes is refused, and one that runs backwards
  is ignored, however large the numbers are.\<close>

theorem range_header_selects:
  "select_range (Some (us ''bytes='' @ show_u64 a @ us ''-'' @ show_u64 b)) n =
     (if b < a then Full else if n \<le> a then Unsatisfiable else Partial a (min b (n - 1))) \<and>
   select_range (Some (us ''bytes='' @ show_u64 a @ us ''-'')) n =
     (if n \<le> a then Unsatisfiable else Partial a (n - 1)) \<and>
   select_range (Some (us ''bytes='' @ us ''-'' @ show_u64 b)) n =
     (if b = 0 \<or> n = 0 then Unsatisfiable else Partial (if n \<le> b then 0 else n - b) (n - 1))"
proof (intro conjI)
  note P = range_parts [OF digits_plain(1) [of a]]
  have m: "min (- 1) x = x" "\<not> (- 1 :: u64) < x" for x :: u64
    using word_order.extremum [of x] by (simp_all add: min_def not_less word_order.extremum_unique)
  show "select_range (Some (us ''bytes='' @ show_u64 a @ us ''-'' @ show_u64 b)) n =
     (if b < a then Full else if n \<le> a then Unsatisfiable else Partial a (min b (n - 1)))"
    unfolding select_range_def P by (auto simp: P Let_def digits_plain(2,3) decimal_shown)
  show "select_range (Some (us ''bytes='' @ show_u64 a @ us ''-'')) n =
     (if n \<le> a then Unsatisfiable else Partial a (n - 1))"
    using P [of "[]"] by (auto simp: select_range_def Let_def digits_plain(2,3) decimal_shown trim_Nil m)
  show "select_range (Some (us ''bytes='' @ us ''-'' @ show_u64 b)) n =
     (if b = 0 \<or> n = 0 then Unsatisfiable else Partial (if n \<le> b then 0 else n - b) (n - 1))"
    using range_parts [of "[]" "show_u64 b"]
    by (auto simp: select_range_def Let_def digits_plain(2) decimal_shown trim_Nil saturating_sub_u64_def not_le)
qed

text \<open>What a client can ask for, the value of its Range field, and the bytes it is to get of a file of \<open>n\<close> bytes:
  the first of them and their number. A field in another unit is no request for a range.\<close>

datatype range_request = WholeFile | Bytes u64 u64 | BytesFrom u64 | LastBytes u64

fun asks :: "str option \<Rightarrow> range_request \<Rightarrow> bool" where
  "asks field WholeFile \<longleftrightarrow> (\<forall>v. field = Some v \<longrightarrow> \<not> starts_with v (us ''bytes=''))"
| "asks field (Bytes a b) \<longleftrightarrow> field = Some (us ''bytes='' @ show_u64 a @ us ''-'' @ show_u64 b)"
| "asks field (BytesFrom a) \<longleftrightarrow> field = Some (us ''bytes='' @ show_u64 a @ us ''-'')"
| "asks field (LastBytes b) \<longleftrightarrow> field = Some (us ''bytes='' @ us ''-'' @ show_u64 b)"

fun requested :: "range_request \<Rightarrow> nat \<Rightarrow> nat \<times> nat" where
  "requested WholeFile n = (0, n)"
| "requested (Bytes a b) n = (if b < a then (0, n) else (unat a, min (Suc (unat b)) n - unat a))"
| "requested (BytesFrom a) n = (unat a, n - unat a)"
| "requested (LastBytes b) n = (n - unat b, min (unat b) n)"

fun as_part :: "range_request \<Rightarrow> bool" where
  "as_part WholeFile = False"
| "as_part (Bytes a b) = (a \<le> b)"
| "as_part (BytesFrom a) = True"
| "as_part (LastBytes b) = True"

lemma asked_selection:
  assumes "asks field q" and "n \<noteq> 0"
  shows "select_range field n =
    (if \<not> as_part q then Full else if snd (requested q (unat n)) = 0 then Unsatisfiable
     else Partial (of_nat (fst (requested q (unat n)))) (of_nat (fst (requested q (unat n)) + snd (requested q (unat n)) - 1)))"
proof -
  have n: "0 < unat n" "unat (n - 1) = unat n - 1" using assms(2) by (simp_all add: unat_gt_0 unat_minus_one)
  have le: "b < a \<longleftrightarrow> unat b < unat a" "n \<le> a \<longleftrightarrow> unat n \<le> unat a" for a b :: u64
    by (simp_all add: word_less_nat_alt word_le_nat_alt)
  have top: "of_nat (unat n - 1) = n - 1" unfolding n(2) [symmetric] by simp
  show ?thesis
  proof (cases q)
    case WholeFile
    then show ?thesis using assms(1) by (cases field) (simp_all add: select_range_def strip_prefix_def)
  next
    case (Bytes a b)
    have "of_nat (min (Suc (unat b)) (unat n) - 1) = min b (n - 1)" if "unat a < unat n" "unat a \<le> unat b"
      using n top by (auto simp: min_def word_le_nat_alt)
    then show ?thesis using assms(1) Bytes range_header_selects [of a b n] n
      by (auto simp: le word_le_nat_alt not_le not_less)
  next
    case (BytesFrom a)
    then show ?thesis using assms(1) range_header_selects [of a 0 n] n top by (auto simp: le)
  next
    case (LastBytes b)
    note L = range_header_selects [of 0 b n, THEN conjunct2, THEN conjunct2]
    have part: "select_range field n = (if b = 0 then Unsatisfiable else Partial (if n \<le> b then 0 else n - b) (n - 1))"
      using assms LastBytes by (simp add: L)
    consider "b = 0" | "b \<noteq> 0" "n \<le> b" | "b \<noteq> 0" "b < n" by fastforce
    then show ?thesis
    proof cases
      case 2
      then have "min (unat b) (unat n) = unat n" "unat n - unat b = 0" by (simp_all add: word_le_nat_alt)
      then show ?thesis using part 2 LastBytes n top by simp
    next
      case 3
      then have b: "unat b < unat n" "0 < unat b" by (simp_all add: word_less_nat_alt unat_gt_0)
      then have "min (unat b) (unat n) = unat b" "unat n - unat b + unat b - 1 = unat n - 1" by simp_all
      moreover have "of_nat (unat n - unat b) = n - b" using b by (simp add: of_nat_diff)
      moreover have "\<not> n \<le> b" using 3 by (simp add: not_le)
      ultimately show ?thesis using part 3 LastBytes b top by simp
    qed (use part LastBytes in simp)
  qed
qed

section \<open>The selected bytes\<close>

lemma select_range_bounds: "select_range header n = Partial s e \<Longrightarrow> s \<le> e \<and> e < n"
  by (auto simp: select_range_def Let_def saturating_sub_u64_def word_le_nat_alt word_less_nat_alt unat_sub min_def
      unat_word_ariths word_neq_0_conv split: option.splits if_splits prod.splits)

lemma selected_bytes_bounds:
  assumes "selected_bytes header n = Some (s, e, part)"
  shows "if part then s \<le> e \<and> e < n else s = 0 \<and> e = saturating_sub_u64 n 1"
  using assms select_range_bounds by (auto simp: selected_bytes_def split: range_selection.splits)

lemma count_of_range: "s \<le> e \<Longrightarrow> e < n \<Longrightarrow> unat (e - s + 1) = Suc (unat e) - unat s \<and> unat s + unat (e - s + 1) \<le> unat n"
  for n :: u64
proof -
  assume a: "s \<le> e" "e < n"
  have b: "unat s \<le> unat e" "unat e < unat n"
    using a by (simp_all add: word_le_nat_alt word_less_nat_alt)
  then have "Suc (unat e - unat s) < 18446744073709551616" using unat_u64_less [of n] by linarith
  then have "unat (e - s + 1) = Suc (unat e) - unat s"
    using a b by (simp add: unat_word_ariths(1) unat_sub Suc_diff_le)
  then show ?thesis using b by simp
qed

lemma requested_within: "snd (requested q n) \<noteq> 0 \<Longrightarrow> fst (requested q n) + snd (requested q n) \<le> n"
  by (cases q) (auto split: if_splits)

text \<open>So the code's choice is what the request asks for.\<close>

lemma asked_bytes:
  assumes "asks field q" and "n \<noteq> 0"
  shows "selected_bytes field n = None \<longleftrightarrow> snd (requested q (unat n)) = 0"
    and "selected_bytes field n = Some (s, e, part) \<Longrightarrow>
      s \<le> e \<and> e < n \<and> requested q (unat n) = (unat s, unat (e - s + 1)) \<and> part = as_part q"
proof -
  let ?s = "fst (requested q (unat n))" and ?k = "snd (requested q (unat n))"
  note S = asked_selection [OF assms]
  have n: "0 < unat n" using assms(2) by (simp add: unat_gt_0)
  have whole: "requested q (unat n) = (0, unat n)" if "\<not> as_part q" using that by (cases q) auto
  then show "selected_bytes field n = None \<longleftrightarrow> ?k = 0" using S n by (auto simp: selected_bytes_def)
  assume sel: "selected_bytes field n = Some (s, e, part)"
  have se: "s \<le> e" "e < n"
    using selected_bytes_bounds [OF sel] assms(2)
    by (auto simp: saturating_sub_u64_def word_less_nat_alt unat_minus_one unat_gt_0 word_le_nat_alt split: if_splits)
  note K = count_of_range [OF se]
  show "s \<le> e \<and> e < n \<and> requested q (unat n) = (unat s, unat (e - s + 1)) \<and> part = as_part q"
  proof (cases "as_part q")
    case False
    have "1 \<le> n" using assms(2) n by (simp add: word_le_nat_alt)
    then have "s = 0" "e = n - 1" "\<not> part" using sel S False by (auto simp: selected_bytes_def saturating_sub_u64_def)
    then show ?thesis using False whole se by simp
  next
    case True
    then have k: "?k \<noteq> 0" "part" "s = of_nat ?s" "e = of_nat (?s + ?k - 1)"
      using sel S by (auto simp: selected_bytes_def split: if_splits)
    have "?s + ?k \<le> unat n" using requested_within [OF k(1)] .
    then have "?s + ?k - 1 < 18446744073709551616" "?s < 18446744073709551616" using unat_u64_less [of n] k(1) by linarith+
    then have "unat s = ?s" "unat e = ?s + ?k - 1" using k(3,4) by (simp_all add: unat_of_nat)
    then have "unat (e - s + 1) = ?k" using K k(1) by simp
    then show ?thesis using se True k(2) \<open>unat s = ?s\<close> by (metis prod.collapse)
  qed
qed

lemma slice_prefix: "prefix a b \<Longrightarrow> prefix (slice a i j) (slice b i j)"
  by (auto simp: prefix_def slice_append)

lemma slice_covered: "prefix a b \<Longrightarrow> i + k \<le> length a \<Longrightarrow> slice a i (i + k) = slice b i (i + k)"
  by (auto simp: prefix_def slice_append_left)

lemma slice_drop: "slice (drop a xs) i j = slice xs (a + i) (a + j)"
  by (simp add: slice_def add.commute)

lemma slice_full: "length (slice xs i (i + n)) = n \<Longrightarrow> 0 < n \<Longrightarrow> i + n \<le> length xs"
  unfolding length_slice by linarith

lemma arriving_slice: "arriving (slice_media_chunks dl l s n) = delivered (slice_media_chunks dl l s n)"
  by (induction dl arbitrary: s n) (auto simp: Let_def split: sum.splits)

lemma aligned_start: "unat (b div CDN_ALIGNMENT * CDN_ALIGNMENT) + unat (b mod CDN_ALIGNMENT) = unat b"
proof -
  have "unat (b div CDN_ALIGNMENT) * 524288 \<le> unat b" by (simp add: unat_div CDN_ALIGNMENT_def)
  then have "unat (b div CDN_ALIGNMENT * CDN_ALIGNMENT) = unat b div 524288 * 524288"
    using unat_u64_less [of b] by (simp add: unat_word_ariths(2) unat_div CDN_ALIGNMENT_def del: unat_u64_less)
  then show ?thesis by (simp add: unat_mod CDN_ALIGNMENT_def)
qed

text \<open>A source that starts at the CDN boundary at or before the byte it is asked for and sends the bytes of
  \<open>file\<close> in order, until it ends or fails.\<close>

definition serves :: "(u64 \<Rightarrow> chunk list) \<Rightarrow> bytes \<Rightarrow> bool" where
  "serves source file \<longleftrightarrow>
     (\<forall>start. prefix (arriving (source start)) (drop (unat (start div CDN_ALIGNMENT * CDN_ALIGNMENT)) file))"

definition serves_all :: "(u64 \<Rightarrow> chunk list) \<Rightarrow> bytes \<Rightarrow> bool" where
  "serves_all source file \<longleftrightarrow>
     (\<forall>start. arriving (source start) = drop (unat (start div CDN_ALIGNMENT * CDN_ALIGNMENT)) file)"

text \<open>What is cut out of it.\<close>

definition cut_out :: "(u64 \<Rightarrow> chunk list) \<Rightarrow> u64 \<Rightarrow> nat \<Rightarrow> chunk list" where
  "cut_out source start n = slice_media_chunks (source start) (unat (start mod CDN_ALIGNMENT)) 0 n"

lemma cut_out_serves:
  assumes "serves source file"
  shows "prefix (delivered (cut_out source start n)) (slice file (unat start) (unat start + n))"
    and "unbroken (cut_out source start n) \<Longrightarrow> delivered (cut_out source start n) = slice file (unat start) (unat start + n)"
proof -
  let ?al = "unat (start div CDN_ALIGNMENT * CDN_ALIGNMENT)" and ?ld = "unat (start mod CDN_ALIGNMENT)"
  let ?a = "arriving (source start)"
  have p: "prefix ?a (drop ?al file)" using assms by (simp add: serves_def)
  have e: "slice (drop ?al file) ?ld (?ld + n) = slice file (unat start) (unat start + n)"
    using aligned_start [of start] by (simp add: slice_drop add.assoc [symmetric] del: add.assoc)
  note C = slice_media_start [of "source start" ?ld n]
  show "prefix (delivered (cut_out source start n)) (slice file (unat start) (unat start + n))"
    using slice_prefix [OF p, of ?ld "?ld + n"] by (simp add: cut_out_def C(1) e)
  show "delivered (cut_out source start n) = slice file (unat start) (unat start + n)"
    if "unbroken (cut_out source start n)"
  proof (cases "n = 0")
    case True
    then show ?thesis using C(1) by (simp add: cut_out_def slice_def)
  next
    case False
    then have "?ld + n \<le> length ?a" using that C(2) by (simp add: cut_out_def)
    then show ?thesis using slice_covered [OF p] e by (simp add: cut_out_def C(1))
  qed
qed

lemma cut_out_complete:
  assumes "serves_all source file" and "unat start + n \<le> length file"
  shows "unbroken (cut_out source start n)"
proof -
  have "unat (start mod CDN_ALIGNMENT) + n \<le> length (arriving (source start))"
    using assms aligned_start [of start] by (simp add: serves_all_def)
  then show ?thesis by (simp add: cut_out_def slice_media_start(2))
qed

section \<open>The hold of a body\<close>

lemma download_hold_Ok:
  "download_hold D n L = (Ok hold, L') \<longleftrightarrow>
     (\<exists>i. reserve (de_calendar D) (de_format_bytes D) (de_ledger D) DownloadHold n L = (Ok i, L') \<and>
        hold = \<lparr>rv_id = i, rv_completed = False\<rparr>)"
  by (auto simp: download_hold_def lbind_def split: prod.splits sum.splits)

lemma committed_body:
  assumes "(body, full) = quota_media_chunks 0 n stream" and "prefix (delivered stream) file"
    and "unbroken stream \<Longrightarrow> delivered stream = file" and "length file = n" and "n < 2 ^ 64"
  shows "full \<longleftrightarrow> unbroken body" and "prefix (delivered body) file" and "unbroken body \<Longrightarrow> delivered body = file"
proof -
  have b: "body = fst (quota_media_chunks 0 n stream)" "full = snd (quota_media_chunks 0 n stream)"
    using assms(1) by (metis fst_conv, metis snd_conv)
  have l: "0 + length (delivered stream) < 2 ^ 64" using prefix_length_le [OF assms(2)] assms(4,5) by simp
  show "full \<longleftrightarrow> unbroken body"
    using quota_committed [OF l, of n] assms(3,4) by (auto simp: b quota_unbroken)
  show "prefix (delivered body) file" unfolding b by (rule quota.sent_prefix [OF assms(2)])
  show "unbroken body \<Longrightarrow> delivered body = file"
    unfolding b using quota.sent_whole assms(3) by (simp add: quota_unbroken)
qed

section \<open>Open media\<close>


section \<open>A small delivery\<close>

definition calm_delivery :: delivery where
  "calm_delivery = \<lparr>de_calendar = demo_calendar, de_format_bytes = (\<lambda>_. []), de_ledger = calm,
     de_account = (\<lambda>_. Ok ()), de_waits = (\<lambda>_. Ok ())\<rparr>"

definition week_ledger :: ledger where
  "week_ledger = open_ledger demo_calendar calm (Some (Ok week_stats))"

definition aligned_source :: "bytes \<Rightarrow> u64 \<Rightarrow> chunk list" where
  "aligned_source file start = [Ok (drop (unat (start div CDN_ALIGNMENT * CDN_ALIGNMENT)) file)]"

lemma aligned_source_serves: "serves (aligned_source file) file" "serves_all (aligned_source file) file"
  by (simp_all add: serves_def serves_all_def aligned_source_def)

lemma week_download: "\<exists>hold L'. download_hold calm_delivery 20 week_ledger = (Ok hold, L')"
proof -
  have "prepare_ledger demo_calendar calm week_ledger = (Ok (), week_ledger)"
    by (rule week_prepared) (simp_all add: week_ledger_def week_opened)
  moreover have "used_bytes week_ledger = Ok 10"
    unfolding week_ledger_def week_opened by (simp add: used_bytes_Ok usage_def charged_def week_stats_def)
  moreover have "le_write calm = None" "bw_limit (lg_stats week_ledger) = 100" "lg_holds week_ledger = []" "lg_next_id week_ledger = 0"
    unfolding week_ledger_def week_opened by (simp_all add: calm_def week_stats_def)
  ultimately show ?thesis
    by (simp add: download_hold_def calm_delivery_def reserve_def lbind_def checked_add_u64_def persist_def)
qed


section \<open>Protected media\<close>

lemma record_span_value:
  assumes c: "ctx_ok (reader_ctx r)" and hl: "unat (ch_header_length (dr_core r)) \<le> 65536"
    and fl: "unat f \<le> unat l" "unat l < reader_count r" and v: "record_span (dr_core r) f l = Ok (b, e)"
  shows "unat b = unat (ch_header_length (dr_core r)) + unat f * (reader_chunk r + 16)"
    and "unat (e - b + 1) = span_length r (unat f) (Suc (unat l)) + 16 * (Suc (unat l) - unat f)"
proof -
  let ?k = "reader_chunk r" and ?t = "reader_total r" and ?h = "unat (ch_header_length (dr_core r))"
  have k: "65536 \<le> ?k" "?k \<le> 16777216" and t: "?t \<le> 2000000000" using c by (simp_all add: ctx_ok_def)
  obtain o1 o2 where o: "chunk_ciphertext_offset f (ch_chunk_size (dr_core r)) (ch_total_plaintext_length (dr_core r)) = Ok o1"
    "chunk_ciphertext_offset l (ch_chunk_size (dr_core r)) (ch_total_plaintext_length (dr_core r)) = Ok o2"
    and be: "b = ucast (ch_header_length (dr_core r)) + o1"
      "e = ucast (ch_header_length (dr_core r)) + o2 + min (saturating_sub_u64 (ch_total_plaintext_length (dr_core r)) (plan_offset r l))
         (ucast (ch_chunk_size (dr_core r))) + 15"
    using v by (auto simp: record_span_def Let_def plan_offset_def policy_simps)
  have uo: "unat o1 = unat f * (?k + 16)" "unat o2 = unat l * (?k + 16)"
    using chunk_offset_value [OF o(1) k(2)] chunk_offset_value [OF o(2) k(2)] by simp_all
  note F = plan_facts [OF c fl(2)]
  define n where "n = record_plain ?t ?k (unat l)"
  have m: "unat (min (saturating_sub_u64 (ch_total_plaintext_length (dr_core r)) (plan_offset r l))
         (ucast (ch_chunk_size (dr_core r)))) = n"
    by (simp add: n_def record_plain_def min_def word_le_nat_alt unat_saturating_sub_u64 F(1))
  have lk: "unat l * ?k < 2000000000" using F(3) t by simp
  have "unat l * 65536 \<le> unat l * ?k" using k by (intro mult_le_mono2)
  from le_less_trans [OF this lk] have l: "unat l < 30518" by simp
  have fk: "unat f * (?k + 16) \<le> unat l * (?k + 16)" using fl(1) by (rule mult_le_mono1)
  have lk16: "unat l * (?k + 16) < 2000500000" using lk l by (simp add: algebra_simps)
  define A where "A = unat f * (?k + 16)"
  define B where "B = unat l * (?k + 16)"
  have AB: "A \<le> B" "B < 2000500000" using fk lk16 by (simp_all only: A_def B_def)
  have n: "n \<le> 16777216" "0 < n" using F(3) k by (simp_all add: n_def record_plain_def)
  have ub: "unat b = ?h + A" using hl AB uo unfolding A_def [symmetric] B_def [symmetric]
    by (simp add: be(1) unat_word_ariths(1))
  have ue: "unat e = ?h + B + n + 15" using hl AB n uo m unfolding A_def [symmetric] B_def [symmetric]
    by (simp add: be(2) unat_word_ariths(1))
  show "unat b = ?h + unat f * (?k + 16)" using ub by (simp only: A_def)
  have "b \<le> e" using ub ue AB by (simp add: word_le_nat_alt)
  then have eb: "unat (e - b + 1) = B + n + 16 - A"
    using ub ue AB n hl by (simp add: unat_word_ariths(1) unat_sub)
  define fk where "fk = unat f * ?k"
  define lk where "lk = unat l * ?k"
  have d: "fk \<le> lk" "lk < ?t" "A = fk + 16 * unat f" "B = lk + 16 * unat l"
    using fl(1) F(3) by (simp_all add: fk_def lk_def A_def B_def algebra_simps)
  have "span_length r (unat f) (Suc (unat l)) = lk + n - fk"
    using d(1,2) unfolding n_def span_length_def record_plain_def mult_Suc fk_def [symmetric] lk_def [symmetric]
    by (auto simp: min_def)
  then show "unat (e - b + 1) = span_length r (unat f) (Suc (unat l)) + 16 * (Suc (unat l) - unat f)"
    using fl(1) d eb by simp
qed

text \<open>The plan the response makes for the bytes \<open>s\<close> to \<open>e\<close>.\<close>

definition whole_range :: "decrypt_reader \<Rightarrow> u64 \<Rightarrow> u64 \<Rightarrow> bool" where
  "whole_range r s e \<longleftrightarrow> s = 0 \<and> e = ch_total_plaintext_length (dr_core r) - 1"

lemma range_records:
  assumes c: "ctx_ok (reader_ctx r)" and se: "s \<le> e" "e < ch_total_plaintext_length (dr_core r)"
    and p: "plaintext_range_to_ciphertext_records s e (ch_chunk_size (dr_core r)) (ch_total_plaintext_length (dr_core r)) = Ok (f, l)"
  shows "unat f = unat s div reader_chunk r" and "unat l = unat e div reader_chunk r" and "unat f \<le> unat l"
    and "unat l < reader_count r" and "whole_range r s e \<Longrightarrow> unat f = 0 \<and> Suc (unat l) = reader_count r"
proof -
  let ?k = "reader_chunk r" and ?t = "reader_total r"
  have k: "0 < ?k" "65536 \<le> ?k" and t: "?t \<le> 2000000000" and n: "reader_count r = ceil_div ?t ?k"
    using c by (simp_all add: ctx_ok_def)
  have n': "ceil_div ?t ?k \<le> 2 ^ 32" using ceil_div_le [OF k(1), of ?t] t by simp
  note C = range_records_cover [OF p k(1) n']
  show f: "unat f = unat s div ?k" and l: "unat l = unat e div ?k" and lc: "unat l < reader_count r"
    using C n by simp_all
  show "unat f \<le> unat l" unfolding f l using se(1) by (intro div_le_mono) (simp add: word_le_nat_alt)
  show "unat f = 0 \<and> Suc (unat l) = reader_count r" if "whole_range r s e"
  proof -
    have "unat e = ?t - 1" using that se unfolding whole_range_def
      by (metis less_Suc_eq_le not_less_eq_eq not_less_zero unat_minus_one unsigned_0 word_less_nat_alt word_neq_0_conv zero_less_iff_neq_zero)
    moreover have "0 < ?t" using se(2) by (simp add: word_less_nat_alt)
    ultimately have "?t \<le> Suc (unat l) * ?k"
      unfolding l using dividend_less_div_times [OF k(1), of "unat e"] by (simp add: algebra_simps)
    then have "\<not> Suc (unat l) < ceil_div ?t ?k" using k(1) by (simp add: less_ceil_div_iff)
    then show ?thesis using lc n that f by (simp add: whole_range_def)
  qed
qed

lemma chunk_offset_exists:
  assumes "unat i * unat cs < unat n" and "0 < unat cs"
  shows "\<exists>off. chunk_ciphertext_offset i cs n = Ok off"
proof (cases "(ucast i :: u64) < n div ucast cs")
  case False
  have u: "unat (ucast i :: u64) = unat i" "unat (ucast cs :: u64) = unat cs" by simp_all
  have "unat n div unat cs \<le> unat i" using False u by (simp add: word_less_nat_alt unat_div not_less)
  moreover have "unat i \<le> unat n div unat cs"
    using assms by (simp add: less_eq_div_iff_mult_less_eq)
  ultimately have i: "unat i = unat n div unat cs" by simp
  then have "unat n mod unat cs \<noteq> 0" using assms(1) by (metis div_mult_mod_eq add.right_neutral less_irrefl)
  then have "0 < n mod ucast cs" by (simp add: word_less_nat_alt unat_mod)
  moreover have "ucast i = n div (ucast cs :: u64)" using i u by (simp add: word_unat_eq_iff unat_div)
  ultimately show ?thesis by (simp add: chunk_ciphertext_offset_def Let_def)
qed (simp add: chunk_ciphertext_offset_def Let_def)

lemma range_located:
  assumes c: "ctx_ok (reader_ctx r)" and se: "s \<le> e" "e < ch_total_plaintext_length (dr_core r)"
  shows "\<exists>f l b be. plaintext_range_to_ciphertext_records s e (ch_chunk_size (dr_core r)) (ch_total_plaintext_length (dr_core r)) =
      Ok (f, l) \<and> record_span (dr_core r) f l = Ok (b, be)"
proof -
  have k: "0 < reader_chunk r" using c by (simp add: ctx_ok_def)
  obtain f l where p: "plaintext_range_to_ciphertext_records s e (ch_chunk_size (dr_core r)) (ch_total_plaintext_length (dr_core r)) = Ok (f, l)"
    using se by (simp add: plaintext_range_to_ciphertext_records_def Let_def not_less not_le)
  note R = range_records [OF c se p]
  have "unat e < reader_total r" using se(2) by (simp add: word_less_nat_alt)
  moreover have "unat l * reader_chunk r \<le> unat e" "unat f * reader_chunk r \<le> unat l * reader_chunk r"
    unfolding R(2) using R(2,3) by simp_all
  ultimately have "unat f * reader_chunk r < reader_total r" "unat l * reader_chunk r < reader_total r" by linarith+
  from chunk_offset_exists [OF this(1) k] chunk_offset_exists [OF this(2) k]
  show ?thesis using p by (auto simp: record_span_def Let_def)
qed

end
