(* ===== verification/Media_Protected.thy ===== *)
theory Media_Protected
  imports Media_Contract
begin

text \<open>
  Protected media: over an honest source the response delivers exactly the requested plaintext, and over
  any source it delivers only bytes sealed for their place.
\<close>

section \<open>The stream of an envelope\<close>

definition span_bytes :: "decrypt_reader \<Rightarrow> nat \<Rightarrow> nat \<Rightarrow> bytes \<Rightarrow> bytes" where
  "span_bytes r f j plain = slice plain (f * reader_chunk r) (min (j * reader_chunk r) (reader_total r))"

definition body_end_record :: "prims \<Rightarrow> decrypt_reader \<Rightarrow> bool \<Rightarrow> bytes \<Rightarrow> bytes" where
  "body_end_record P r whole plain = (if whole then final_record P (reader_ctx r) plain else [])"

lemma header_length_bound:
  assumes "DecryptReader_new P hb dek = Ok r" shows "unat (ch_header_length (dr_core r)) \<le> 65536"
proof -
  obtain h where "EnvelopeHeader_parse hb = Ok h" "dr_header r = h" using assms by (auto simp: DecryptReader_new_def)
  then show ?thesis using accepted_layout [of hb h] by (metis core_valid_def)
qed

lemma envelope_stream_ok:
  assumes P: "prims_ok P" and n: "DecryptReader_new P hb dek = Ok r" and t: "reader_total r \<le> 2000000000"
    and se: "s \<le> e" "e < ch_total_plaintext_length (dr_core r)"
    and rc: "plaintext_range_to_ciphertext_records s e (ch_chunk_size (dr_core r)) (ch_total_plaintext_length (dr_core r)) = Ok (f, l)"
    and sp: "record_span (dr_core r) f l = Ok (b, be)"
  defines "need \<equiv> span_length r (unat f) (Suc (unat l)) + 16 * (Suc (unat l) - unat f) + (if whole_range r s e then 68 else 0)"
  defines "plan \<equiv> \<lparr>rp_start = s, rp_end = e, rp_last = l, rp_whole = whole_range r s e\<rparr>"
  shows "\<exists>p k. streamed P plan r (unat f) (Suc (unat l)) (delivered (cut_out source b need))
      (envelope_stream P r s e f l b be source) p k \<and>
    (k = Suc (unat l) \<and> whole_range r s e \<longrightarrow> delivered (cut_out source b need) = envelope_body P (reader_ctx r) p) \<and>
    (k < Suc (unat l) \<longrightarrow> (\<forall>q. length q = span_length r (unat f) (Suc (unat l)) \<longrightarrow>
       delivered (cut_out source b need) \<noteq> records_from P (reader_ctx r) (unat f) q @ body_end_record P r (whole_range r s e) q))"
proof -
  have c: "ctx_ok (reader_ctx r)" using reader_ctx_ok [OF P n t] .
  note N = new_reader [OF P n]
  note R = range_records [OF c se rc]
  note V = record_span_value [OF c header_length_bound [OF n] R(3,4) sp]
  let ?X = "delivered (cut_out source b need)" and ?j = "Suc (unat l)"
  let ?len = "be - b + 1 + (if whole_range r s e then of_nat FINAL_RECORD_CIPHERTEXT_SIZE else 0)"
  have "span_length r (unat f) ?j \<le> 2000000000" using t by (simp add: span_length_def)
  moreover have "?j \<le> 40000" 
  proof -
    have "unat l * 65536 \<le> unat l * reader_chunk r" using c by (intro mult_le_mono2) (simp add: ctx_ok_def)
    from le_less_trans [OF this plan_facts(3) [OF c R(4)]] show ?thesis using t by simp
  qed
  ultimately have len: "unat ?len = need"
    using V(2) by (simp add: need_def unat_word_ariths(1) policy_simps)
  define dl where "dl = cut_out source b need"
  have st: "envelope_stream P r s e f l b be source = stream_records P plan (map word_of_nat [unat f..<?j]) r dl []"
    by (simp add: envelope_stream_def Let_def plan_def dl_def cut_out_def whole_range_def len [unfolded whole_range_def])
  have X: "[] @ arriving dl = ?X" by (simp add: dl_def cut_out_def arriving_slice)
  have rd: "record_ready plan r (unat f)"
    using c N R(5) by (simp add: record_ready_def plan_def)
  have lX: "length ?X \<le> need" by (simp add: cut_out_def slice_media_start(1))
  have "unat l * reader_chunk r \<le> unat e" unfolding R(2) by simp
  then have pf: "plan_fits plan r (unat f) ?j ([] @ arriving dl)"
    unfolding X using R lX se by (auto simp: plan_fits_def plan_def need_def word_less_nat_alt)
  obtain p k where S: "streamed P plan r (unat f) ?j ?X (stream_records P plan (map word_of_nat [unat f..<?j]) r dl []) p k"
    "k = ?j \<and> unat f < ?j \<and> whole_range r s e \<longrightarrow>
       ?X = records_from P (reader_ctx r) (unat f) p @ final_record P (reader_ctx r) p"
    "k < ?j \<longrightarrow> (\<forall>q z. length q = span_length r (unat f) ?j \<longrightarrow> ?X = records_from P (reader_ctx r) (unat f) q @ z \<longrightarrow>
       whole_range r s e \<and> z \<noteq> final_record P (reader_ctx r) q)"
    using stream_records_ok [OF P rd pf] unfolding X by (auto simp: N plan_def)
  have "?X = envelope_body P (reader_ctx r) p" if "k = ?j" "whole_range r s e"
    using S(2) that R(3,5) by (simp add: envelope_body_def)
  moreover have "?X \<noteq> records_from P (reader_ctx r) (unat f) q @ body_end_record P r (whole_range r s e) q"
    if "k < ?j" "length q = span_length r (unat f) ?j" for q
    using S(3) that by (auto simp: body_end_record_def)
  ultimately show ?thesis using S(1) unfolding st by blast
qed

section \<open>An honest source\<close>

lemma honest_span:
  assumes P: "prims_ok P" and c: "ctx_ok (reader_ctx r)" and fl: "f < j" "j \<le> reader_count r"
    and l: "length plain = reader_total r" and h: "length hb = hl"
    and w: "whole \<Longrightarrow> f = 0 \<and> j = reader_count r"
  shows "slice (hb @ envelope_body P (reader_ctx r) plain) (hl + f * (reader_chunk r + 16))
      (hl + f * (reader_chunk r + 16) + (span_length r f j + 16 * (j - f) + (if whole then 68 else 0)))
    = records_from P (reader_ctx r) f (span_bytes r f j plain) @ body_end_record P r whole (span_bytes r f j plain)"
    and "length (span_bytes r f j plain) = span_length r f j"
proof -
  let ?k = "reader_chunk r" and ?t = "reader_total r" and ?c = "reader_ctx r"
  let ?q = "span_bytes r f j plain"
  have k: "0 < ?k" and n: "reader_count r = ceil_div ?t ?k" using c by (simp_all add: ctx_ok_def)
  have ft: "f * ?k < ?t" using fl n k less_ceil_div_iff [of ?k f ?t] by simp
  show lq: "length ?q = span_length r f j" using ft l by (simp add: span_bytes_def span_length_def)
  let ?a = "take (f * ?k) plain" and ?z = "drop (min (j * ?k) ?t) plain"
  have fj: "f * ?k \<le> min (j * ?k) ?t" using fl(1) ft by simp
  have sp: "plain = ?a @ ?q @ ?z"
  proof -
    have "?a @ ?q = take (min (j * ?k) ?t) plain"
      using slice_join [of 0 "f * ?k" "min (j * ?k) ?t" plain] fj by (simp add: span_bytes_def slice_zero_take)
    then show ?thesis by (metis append.assoc append_take_drop_id)
  qed
  have la: "length ?a = f * ?k" using ft l by simp
  have r1: "records_from P ?c 0 plain = records_from P ?c 0 ?a @ records_from P ?c f (?q @ ?z)"
    using records_from_append [of ?c ?a f P 0 "?q @ ?z"] k la sp by simp
  have "length ?a = span_length r 0 f" using la ft by (simp add: span_length_def)
  then have lr: "length (records_from P ?c 0 ?a) = f * (?k + 16)"
    using length_records_span [OF P c, of 0 f ?a] fl la by (simp add: algebra_simps)
  have r2: "records_from P ?c f (?q @ ?z) = records_from P ?c f ?q @ records_from P ?c j ?z"
  proof (cases "j * ?k \<le> ?t")
    case True
    then have "length ?q = (j - f) * ?k" using lq fj by (simp add: span_length_def diff_mult_distrib)
    then show ?thesis using records_from_append [of ?c ?q "j - f" P f ?z] k fl by simp
  next
    case False
    then have "?z = []" using l by simp
    then show ?thesis by simp
  qed
  have lw: "length (records_from P ?c f ?q) = span_length r f j + 16 * (j - f)"
    using length_records_span [OF P c less_imp_le [OF fl(1)] fl(2) lq] lq by simp
  have whole: "?z = [] \<and> ?q = plain" if whole
  proof -
    have "\<not> j < ceil_div ?t ?k" using w [OF that] n by simp
    then have "?t \<le> j * ?k" using k by (simp add: less_ceil_div_iff)
    then have "?z = []" using l by simp
    moreover have "?a = []" using w [OF that] by simp
    ultimately show ?thesis using sp by (metis append_Nil append_Nil2)
  qed
  have lf: "length (final_record P ?c x) = 68" for x using length_final_record [OF P c] .
  have body: "envelope_body P ?c plain = records_from P ?c 0 ?a @ records_from P ?c f ?q @ records_from P ?c j ?z @ final_record P ?c plain"
    unfolding envelope_body_def r1 r2 by simp
  show "slice (hb @ envelope_body P ?c plain) (hl + f * (?k + 16))
      (hl + f * (?k + 16) + (span_length r f j + 16 * (j - f) + (if whole then 68 else 0)))
    = records_from P ?c f ?q @ body_end_record P r whole ?q"
    unfolding body using h lr lw whole lf by (cases whole) (simp_all add: slice_append slice_def body_end_record_def)
qed

section \<open>The response\<close>

text \<open>The bytes \<open>s\<close> to \<open>e\<close> that a response of protected media sends, as \<open>body\<close>.\<close>

definition sends_range ::
  "prims \<Rightarrow> delivery \<Rightarrow> protected_access \<Rightarrow> decrypt_reader \<Rightarrow> (u64 \<Rightarrow> chunk list) \<Rightarrow> u64 \<Rightarrow> u64 \<Rightarrow> u32 \<Rightarrow> u32 \<Rightarrow> u64 \<Rightarrow> u64 \<Rightarrow>
     chunk list \<Rightarrow> bool \<Rightarrow> bool" where
  "sends_range P D A r source s e f l b be body done \<longleftrightarrow>
     plaintext_range_to_ciphertext_records s e (ch_chunk_size (dr_core r)) (ch_total_plaintext_length (dr_core r)) = Ok (f, l) \<and>
     record_span (dr_core r) f l = Ok (b, be) \<and>
     (body, done) = quota_media_chunks 0 (unat (e - s + 1)) (guard_protected_chunks A
       (guard_media_chunks (Some (de_account D)) 1 (envelope_stream P r s e f l b be source)) 0)"

lemma protected_response:
  assumes "build_encrypted_media_response P V D A hb n header key source L = (R, L')"
    and "rs_body R = Streaming body" and "initialize_tdenc2_decryptor P hb (Some key) None = Ok r"
  obtains s e part f l b be i where "selected_bytes header n = Some (s, e, part)"
    "ch_total_plaintext_length (dr_core r) = n" "s \<le> e" "e < n"
    "sends_range P D A r source s e f l b be body (rs_committed R)"
    "reserve (de_calendar D) (de_format_bytes D) (de_ledger D) DownloadHold (e - s + 1) L = (Ok i, L')"
    "rs_hold R = Some \<lparr>rv_id = i, rv_completed = False\<rparr>" "rs_status R = (if part then 206 else 200)"
    "(''Content-Length'', show_u64 (e - s + 1)) \<in> set (rs_headers R)"
    "part \<longrightarrow> (''Content-Range'', content_range s e n) \<in> set (rs_headers R)"
proof -
  obtain h dek where h: "EnvelopeHeader_parse hb = Ok h" "DecryptReader_new P hb dek = Ok r" "dr_header r = h"
    using decryptor_opened [OF assms(3)] .
  obtain s e part where sel: "selected_bytes header n = Some (s, e, part)"
    using assms(1,2) unfolding build_encrypted_media_response_def Let_def
    by (auto simp: empty_response_def unsatisfiable_range_def split: if_splits option.splits)
  have tn: "n \<noteq> 0" "ch_total_plaintext_length (dr_core r) = n"
    using assms(1,2) sel h unfolding build_encrypted_media_response_def Let_def
    by (auto simp: empty_response_def text_response_def split: if_splits)
  then have se: "s \<le> e" "e < n"
    using selected_bytes_bounds [OF sel]
    by (auto simp: saturating_sub_u64_def word_less_nat_alt unat_minus_one unat_gt_0 word_le_nat_alt split: if_splits)
  obtain f l where rc: "plaintext_range_to_ciphertext_records s e (ch_chunk_size (dr_core r)) (ch_total_plaintext_length (dr_core r)) = Ok (f, l)"
    using assms sel h tn unfolding build_encrypted_media_response_def Let_def
    by (auto simp: empty_response_def text_response_def split: if_splits sum.splits prod.splits)
  obtain b be where sp: "record_span (dr_core r) f l = Ok (b, be)"
    using assms sel h tn rc unfolding build_encrypted_media_response_def Let_def
    by (auto simp: empty_response_def text_response_def split: if_splits sum.splits prod.splits)
  obtain hold where d: "download_hold D (e - s + 1) L = (Ok hold, L')"
    using assms sel h tn rc sp unfolding build_encrypted_media_response_def Let_def
    by (auto simp: empty_response_def text_response_def split: if_splits sum.splits prod.splits)
  have "sends_range P D A r source s e f l b be body (rs_committed R) \<and> rs_hold R = Some hold \<and>
      rs_status R = (if part then 206 else 200) \<and> (''Content-Length'', show_u64 (e - s + 1)) \<in> set (rs_headers R) \<and>
      (part \<longrightarrow> (''Content-Range'', content_range s e n) \<in> set (rs_headers R))"
    using assms sel h tn rc sp d unfolding build_encrypted_media_response_def Let_def sends_range_def
    by (auto simp: empty_response_def text_response_def split: if_splits prod.splits)
  then show ?thesis using that [OF sel tn(2) se] d unfolding download_hold_Ok by blast
qed

lemma sent_range:
  assumes P: "prims_ok P" and n: "DecryptReader_new P hb dek = Ok r" and t: "reader_total r \<le> 2000000000"
    and se: "s \<le> e" "e < ch_total_plaintext_length (dr_core r)" and S: "sends_range P D A r source s e f l b be body done"
    and pl: "length plain = reader_total r"
    and sv: "serves source (front @ envelope_body P (reader_ctx r) plain)" and fr: "length front = unat (ch_header_length (dr_core r))"
  defines "stream \<equiv> envelope_stream P r s e f l b be source"
  shows "prefix (delivered stream) (slice plain (unat s) (Suc (unat e)))"
    and "unbroken stream \<Longrightarrow> delivered stream = slice plain (unat s) (Suc (unat e))"
    and "serves_all source (front @ envelope_body P (reader_ctx r) plain) \<Longrightarrow> unbroken stream"
proof -
  from S have rc: "plaintext_range_to_ciphertext_records s e (ch_chunk_size (dr_core r)) (ch_total_plaintext_length (dr_core r)) = Ok (f, l)"
    and sp: "record_span (dr_core r) f l = Ok (b, be)" by (simp_all add: sends_range_def)
  have c: "ctx_ok (reader_ctx r)" using reader_ctx_ok [OF P n t] .
  note R = range_records [OF c se rc]
  note V = record_span_value [OF c header_length_bound [OF n] R(3,4) sp]
  let ?k = "reader_chunk r" and ?j = "Suc (unat l)" and ?w = "whole_range r s e" and ?c = "reader_ctx r"
  let ?need = "span_length r (unat f) ?j + 16 * (?j - unat f) + (if ?w then 68 else 0)"
  let ?X = "delivered (cut_out source b ?need)"
  let ?q = "span_bytes r (unat f) ?j plain"
  have fj: "unat f < ?j" "?j \<le> reader_count r" using R(3,4) by simp_all
  note H = honest_span [OF P c fj pl fr, of ?w]
  note C = cut_out_serves [OF sv, of b ?need]
  have XH: "slice (front @ envelope_body P ?c plain) (unat b) (unat b + ?need)
      = records_from P ?c (unat f) ?q @ body_end_record P r ?w ?q"
    using H(1) R(5) by (simp add: V(1))
  have lq: "length ?q = span_length r (unat f) ?j" using H(2) R(5) by simp
  have cover: "slice ?q (unat s - unat f * ?k) (Suc (unat e) - unat f * ?k) = slice plain (unat s) (Suc (unat e))"
  proof -
    have a: "unat f * ?k \<le> unat s" by (simp add: R(1))
    have b: "Suc (unat e) \<le> ?j * ?k"
      using c unfolding R(2) by (simp add: ctx_ok_def Suc_le_eq dividend_less_div_times mult.commute)
        (metis add.commute dividend_less_div_times mult.commute less_le_trans zero_less_numeral)
    have e: "Suc (unat e) \<le> reader_total r" "unat s \<le> unat e" using se by (simp_all add: word_less_nat_alt word_le_nat_alt)
    show ?thesis unfolding span_bytes_def using a b e by (subst slice_slice) simp_all
  qed
  obtain p k where T: "streamed P \<lparr>rp_start = s, rp_end = e, rp_last = l, rp_whole = ?w\<rparr> r (unat f) ?j ?X stream p k"
    and stop: "k < ?j \<longrightarrow> (\<forall>q. length q = span_length r (unat f) ?j \<longrightarrow> ?X \<noteq> records_from P ?c (unat f) q @ body_end_record P r ?w q)"
    using envelope_stream_ok [OF P n t se rc sp, of source] unfolding stream_def by blast
  from T have k: "unat f \<le> k" "k \<le> ?j" and lp: "length p = span_length r (unat f) k"
    and pre: "prefix (records_from P ?c (unat f) p) ?X"
    and d: "delivered stream = slice p (unat s - unat f * ?k) (Suc (unat e) - unat f * ?k)"
    and u: "unbroken stream \<longleftrightarrow> k = ?j" by (simp_all add: streamed_def)
  have "prefix (records_from P ?c (unat f) p) (records_from P ?c (unat f) ?q @ body_end_record P r ?w ?q)"
    using prefix_order.trans [OF pre C(1)] unfolding XH .
  then have pq: "prefix p ?q" by (rule records_prefix [OF P c k fj(2) lp lq])
  show "prefix (delivered stream) (slice plain (unat s) (Suc (unat e)))"
    unfolding d cover [symmetric] by (rule slice_prefix [OF pq])
  show "delivered stream = slice plain (unat s) (Suc (unat e))" if "unbroken stream"
  proof -
    have "length p = length ?q" using that u lp lq by simp
    then have "p = ?q" using pq by (auto simp: prefix_def)
    then show ?thesis using d cover by simp
  qed
  show "unbroken stream" if all: "serves_all source (front @ envelope_body P (reader_ctx r) plain)"
  proof -
    have "length (records_from P ?c (unat f) ?q @ body_end_record P r ?w ?q) = ?need"
      using length_records_span [OF P c less_imp_le [OF fj(1)] fj(2) lq] length_final_record [OF P c] lq
      by (simp add: body_end_record_def)
    moreover have "0 < ?need" using fj(1) by simp
    ultimately have "unat b + ?need \<le> length (front @ envelope_body P ?c plain)"
      unfolding XH [symmetric] by (rule slice_full)
    note C(2) [OF cut_out_complete [OF all this]]
    then show ?thesis using stop lq XH u k by (metis le_neq_implies_less)
  qed
qed

text \<open>The response that streams: a beginning of the bytes asked for, all of them if it ends without an error.\<close>

lemma protected_delivery:
  assumes "prims_ok P" and "build_encrypted_media_response P V D A hb n header key source L = (R, L')"
    and "rs_body R = Streaming body" and "initialize_tdenc2_decryptor P hb (Some key) None = Ok r"
    and "unat n \<le> unat MAX_CIPHERTEXT_SIZE" and "length plain = unat n"
    and "length front = unat (ch_header_length (dr_core r))"
    and "serves source (front @ envelope_body P (reader_ctx r) plain)"
    and "asks header q" and "requested q (unat n) = (s, k)"
  shows "prefix (delivered body) (slice plain s (s + k)) \<and>
    (unbroken body \<longrightarrow> delivered body = slice plain s (s + k)) \<and> (rs_committed R \<longleftrightarrow> unbroken body) \<and>
    (\<exists>i. rs_hold R = Some \<lparr>rv_id = i, rv_completed = False\<rparr> \<and>
      reserve (de_calendar D) (de_format_bytes D) (de_ledger D) DownloadHold (of_nat k) L = (Ok i, L')) \<and>
    (''Content-Length'', us (digits k)) \<in> set (rs_headers R) \<and> rs_status R = (if as_part q then 206 else 200) \<and>
    (as_part q \<longrightarrow> (''Content-Range'', content_range (of_nat s) (of_nat (s + k - 1)) n) \<in> set (rs_headers R)) \<and>
    ((\<forall>m. de_account D m = Ok ()) \<and> (\<forall>m. pp_waits A m = Ok ()) \<and> (\<forall>m. stream_key_lives A m) \<and>
     (\<forall>m. stream_authorized A m) \<and> serves_all source (front @ envelope_body P (reader_ctx r) plain) \<longrightarrow> unbroken body)"
proof -
  obtain h dek where h: "DecryptReader_new P hb dek = Ok r" using decryptor_opened [OF assms(4)] .
  obtain a e part f l b be i where p: "selected_bytes header n = Some (a, e, part)"
    and tn: "ch_total_plaintext_length (dr_core r) = n" and se: "a \<le> e" "e < n"
    and S: "sends_range P D A r source a e f l b be body (rs_committed R)"
    and R: "reserve (de_calendar D) (de_format_bytes D) (de_ledger D) DownloadHold (e - a + 1) L = (Ok i, L')"
      "rs_hold R = Some \<lparr>rv_id = i, rv_completed = False\<rparr>" "rs_status R = (if part then 206 else 200)"
      "(''Content-Length'', show_u64 (e - a + 1)) \<in> set (rs_headers R)"
      "part \<longrightarrow> (''Content-Range'', content_range a e n) \<in> set (rs_headers R)"
    using protected_response [OF assms(2-4)] .
  have "n \<noteq> 0" using se(2) by (auto simp: word_less_nat_alt)
  note Q = asked_bytes(2) [OF assms(9) this p]
  then have sk: "unat a = s" "unat (e - a + 1) = k" and part: "part = as_part q" using assms(10) by simp_all
  have t: "reader_total r \<le> 2000000000"
    using assms(5) by (simp add: tn MAX_CIPHERTEXT_SIZE_def TELEGRAM_MAX_FILE_SIZE_def)
  note K = count_of_range [OF se, unfolded sk]
  have "s \<le> unat e" using se sk by (simp add: word_le_nat_alt)
  then have k: "s + k = Suc (unat e)" using K by simp
  let ?f = "slice plain s (s + k)"
  note F = sent_range [OF assms(1) h t se(1) se(2) [folded tn] S assms(6) [folded tn] assms(8,7), unfolded sk k [symmetric]]
  let ?stream = "envelope_stream P r a e f l b be source"
  let ?sent = "guard_protected_chunks A (guard_media_chunks (Some (de_account D)) 1 ?stream) 0"
  have q: "(body, rs_committed R) = quota_media_chunks 0 k ?sent" using S by (simp add: sends_range_def sk)
  have w: "unbroken ?sent \<Longrightarrow> delivered ?sent = ?f"
    using protected_body.both.wrap_whole F(2) by metis
  have "s + k \<le> unat n" using K by blast
  then have lf: "length ?f = k" using assms(6) by simp
  have k64: "k < 2 ^ 64" using unat_u64_less [of "e - a + 1"] sk by simp
  note C = committed_body [OF q protected_body.both.sent_prefix [OF F(1)] w lf k64]
  have live: "unbroken body" if "\<forall>m. de_account D m = Ok ()" "\<forall>m. pp_waits A m = Ok ()"
    "\<forall>m. stream_key_lives A m" "\<forall>m. stream_authorized A m" "serves_all source (front @ envelope_body P (reader_ctx r) plain)"
  proof -
    have "unbroken ?stream" using F(3) that(5) by blast
    moreover have "guard_media_chunks (Some (de_account D)) 1 ?stream = ?stream"
      by (rule guard_granted) (simp add: account_refuses_def that(1))
    ultimately have "unbroken ?sent" using credential_granted [of A] that(2-4) by simp
    then show ?thesis using quota_unbroken [of 0 k ?sent] q by (metis fst_conv)
  qed
  have ends: "of_nat k = e - a + 1" "of_nat s = a" "of_nat (s + k - 1) = e"
    using sk k by (auto simp flip: sk)
  have "us (digits k) = show_u64 (e - a + 1)" by (simp add: show_u64_def sk)
  then show ?thesis using C R live part unfolding ends by simp
qed

text \<open>Which response it is: refused ranges, a full ledger, or a stream.\<close>

lemma protected_answer:
  assumes "prims_ok P" and "initialize_tdenc2_decryptor P hb (Some key) None = Ok r"
    and "ch_total_plaintext_length (dr_core r) = n" and "n \<noteq> 0" and "unat n \<le> unat MAX_CIPHERTEXT_SIZE"
    and "de_account D 0 = Ok ()"
  shows "selected_bytes header n = None \<Longrightarrow> build_encrypted_media_response P V D A hb n header key source L = (unsatisfiable_range n, L)"
    and "selected_bytes header n = Some (s, e, part) \<Longrightarrow> s \<le> e \<Longrightarrow> e < n \<Longrightarrow>
      download_hold D (e - s + 1) L = (Err w, L') \<Longrightarrow> build_encrypted_media_response P V D A hb n header key source L = (text_response 429 (us w), L')"
    and "selected_bytes header n = Some (s, e, part) \<Longrightarrow> s \<le> e \<Longrightarrow> e < n \<Longrightarrow>
      download_hold D (e - s + 1) L = (Ok hold, L') \<Longrightarrow> \<exists>R body. build_encrypted_media_response P V D A hb n header key source L = (R, L') \<and> rs_body R = Streaming body"
proof -
  let ?build = "build_encrypted_media_response P V D A hb n header key source L"
  obtain h dek where h: "EnvelopeHeader_parse hb = Ok h" "DecryptReader_new P hb dek = Ok r" "dr_header r = h"
    using decryptor_opened [OF assms(2)] .
  have t: "reader_total r \<le> 2000000000"
    using assms(5) by (simp add: assms(3) MAX_CIPHERTEXT_SIZE_def TELEGRAM_MAX_FILE_SIZE_def)
  note c = reader_ctx_ok [OF assms(1) h(2) t]
  show "?build = (unsatisfiable_range n, L)" if "selected_bytes header n = None"
    using that assms(6) by (simp add: build_encrypted_media_response_def)
  assume a: "selected_bytes header n = Some (s, e, part)" "s \<le> e" "e < n"
  obtain f l b be where "plaintext_range_to_ciphertext_records s e (ch_chunk_size (dr_core r)) n = Ok (f, l)"
    "record_span (dr_core r) f l = Ok (b, be)"
    using range_located [OF c a(2)] a(3) assms(3) by blast
  then have step: "?build = (case download_hold D (e - s + 1) L of (Inl w, L') \<Rightarrow> (text_response 429 (us w), L')
      | (Inr hold, L') \<Rightarrow> ?build)" "download_hold D (e - s + 1) L = (Ok hold, L') \<Longrightarrow> \<exists>R body. ?build = (R, L') \<and> rs_body R = Streaming body"
    using assms(2-4,6) h(1,3) a(1) unfolding build_encrypted_media_response_def
    by (auto simp: Let_def split: sum.splits prod.splits)
  show "?build = (text_response 429 (us w), L')" if "download_hold D (e - s + 1) L = (Err w, L')"
    using step(1) that by simp
  show "\<exists>R body. ?build = (R, L') \<and> rs_body R = Streaming body" if "download_hold D (e - s + 1) L = (Ok hold, L')"
    using step(2) that .
qed

section \<open>Properties\<close>


text \<open>C37: whatever the source of the ciphertext sends, a response for protected media (not larger than Telegram's
  limit) hands out nothing but the bytes of the range it announces, the one the request asks for, as they
  stand in records that were sealed under the file's key for the place they are served as: never a byte
  behind the range, and all of its bytes if it ends without an error. When a body that is to be the
  whole file ends without an error, what the source sent is the sealed body of exactly the bytes handed
  out, its final record included.\<close>

theorem protected_bytes_authentic:
  assumes "prims_ok P" and "build_encrypted_media_response P V D A hb n header key source L = (R, L')"
    and "rs_body R = Streaming body" and "initialize_tdenc2_decryptor P hb (Some key) None = Ok r"
    and "unat n \<le> unat MAX_CIPHERTEXT_SIZE"
  shows "\<exists>s k start m p. 0 < k \<and> s + k \<le> unat n \<and> (\<forall>q. asks header q \<longrightarrow> requested q (unat n) = (s, k)) \<and>
    (rs_status R = 200 \<and> s = 0 \<and> k = unat n \<or>
     rs_status R = 206 \<and> (''Content-Range'', content_range (of_nat s) (of_nat (s + k - 1)) n) \<in> set (rs_headers R)) \<and>
    unat start = unat (ch_header_length (dr_core r)) +
      s div unat (ch_chunk_size (dr_core r)) * (unat (ch_chunk_size (dr_core r)) + 16) \<and>
    prefix (records_from P (reader_ctx r) (s div unat (ch_chunk_size (dr_core r))) p)
      (delivered (cut_out source start m)) \<and>
    prefix (delivered body) (take k (drop (s mod unat (ch_chunk_size (dr_core r))) p)) \<and>
    (unbroken body \<longrightarrow> delivered body = take k (drop (s mod unat (ch_chunk_size (dr_core r))) p) \<and> length (delivered body) = k) \<and>
    (s = 0 \<and> k = unat n \<and> unbroken body \<longrightarrow>
       delivered (cut_out source start m) = envelope_body P (reader_ctx r) (delivered body))"
proof -
  obtain h dek where h: "DecryptReader_new P hb dek = Ok r" using decryptor_opened [OF assms(4)] .
  obtain s e part f l b be i where p: "selected_bytes header n = Some (s, e, part)"
    and tn: "ch_total_plaintext_length (dr_core r) = n" and se: "s \<le> e" "e < n"
    and S: "sends_range P D A r source s e f l b be body (rs_committed R)"
    and st: "rs_status R = (if part then 206 else 200)"
    and cr: "part \<longrightarrow> (''Content-Range'', content_range s e n) \<in> set (rs_headers R)"
    using protected_response [OF assms(2-4)] .
  have t: "reader_total r \<le> 2000000000"
    using assms(5) by (simp add: tn MAX_CIPHERTEXT_SIZE_def TELEGRAM_MAX_FILE_SIZE_def)
  have c: "ctx_ok (reader_ctx r)" using reader_ctx_ok [OF assms(1) h t] .
  from S have rc: "plaintext_range_to_ciphertext_records s e (ch_chunk_size (dr_core r)) (ch_total_plaintext_length (dr_core r)) = Ok (f, l)"
    and sp: "record_span (dr_core r) f l = Ok (b, be)"
    and q: "(body, rs_committed R) = quota_media_chunks 0 (unat (e - s + 1)) (guard_protected_chunks A
       (guard_media_chunks (Some (de_account D)) 1 (envelope_stream P r s e f l b be source)) 0)"
    by (simp_all add: sends_range_def)
  let ?c = "reader_chunk r" and ?stream = "envelope_stream P r s e f l b be source" and ?j = "Suc (unat l)"
  let ?sent = "guard_protected_chunks A (guard_media_chunks (Some (de_account D)) 1 ?stream) 0"
  let ?s = "unat s" and ?k = "unat (e - s + 1)"
  note R = range_records [OF c se(1) se(2) [folded tn] rc]
  note K = count_of_range [OF se]
  have us: "?s \<le> unat e" "unat e < unat n" using se by (simp_all add: word_le_nat_alt word_less_nat_alt)
  then have k: "0 < ?k" "?s + ?k = Suc (unat e)" using K by simp_all
  obtain m p' k' where T: "streamed P \<lparr>rp_start = s, rp_end = e, rp_last = l, rp_whole = whole_range r s e\<rparr> r
      (unat f) ?j (delivered (cut_out source b m)) ?stream p' k'"
    and end_body: "k' = ?j \<and> whole_range r s e \<longrightarrow> delivered (cut_out source b m) = envelope_body P (reader_ctx r) p'"
    using envelope_stream_ok [OF assms(1) h t se(1) se(2) [folded tn] rc sp, of source] by blast
  from T have pre: "prefix (records_from P (reader_ctx r) (unat f) p') (delivered (cut_out source b m))"
    and lp: "length p' = span_length r (unat f) k'"
    and d: "delivered ?stream = slice p' (?s - unat f * ?c) (Suc (unat e) - unat f * ?c)"
    and u: "unbroken ?stream \<longleftrightarrow> k' = ?j" by (simp_all add: streamed_def)
  have fs: "unat f * ?c \<le> ?s" "?s - unat f * ?c = ?s mod ?c" unfolding R(1) by (simp_all add: minus_div_mult_eq_mod)
  have range: "delivered ?stream = take ?k (drop (?s mod ?c) p')"
  proof -
    have "Suc (unat e) - unat f * ?c = ?k + (?s - unat f * ?c)" using fs(1) k(2) by linarith
    then show ?thesis unfolding d fs(2) [symmetric] by (simp add: slice_def take_drop)
  qed
  have body: "body = fst (quota_media_chunks 0 ?k ?sent)" using q by (metis fst_conv)
  have hand: "prefix (delivered body) (take ?k (drop (?s mod ?c) p'))"
    unfolding range [symmetric] body by (rule quota.sent_prefix [OF protected_body.both.wrap_prefix])
  have full: "k' = ?j \<and> delivered body = delivered ?stream" if "unbroken body"
  proof -
    have "unbroken ?sent" using that unfolding body by (simp add: quota_unbroken)
    then have "unbroken ?stream \<and> delivered ?sent = delivered ?stream" by (rule protected_body.both.wrap_whole)
    moreover have "delivered body = delivered ?sent" unfolding body using that [unfolded body] by (rule quota.wrap_whole [THEN conjunct2])
    ultimately show ?thesis using u by simp
  qed
  have all: "length (delivered ?stream) = ?k" if "k' = ?j"
  proof -
    have "unat e < ?j * ?c"
      using c unfolding R(2) by (simp add: ctx_ok_def dividend_less_div_times mult.commute)
        (metis add.commute dividend_less_div_times mult.commute less_le_trans zero_less_numeral)
    then have "Suc (unat e) \<le> min (?j * ?c) (reader_total r)" using us(2) tn by simp
    then have "Suc (unat e) - unat f * ?c \<le> length p'" unfolding lp that span_length_def by (rule diff_le_mono [THEN order_trans]) (simp add: diff_le_mono2)
    then show ?thesis unfolding d using fs(1) k(2) by (simp add: slice_def)
  qed
  have whole: "whole_range r s e \<and> unat f = 0 \<and> delivered ?stream = p'" if "?s = 0" "?k = unat n" "k' = ?j"
  proof -
    have "s = 0" "unat e = unat n - 1" using that k(2) by (simp_all add: unat_eq_0)
    moreover have "unat (n - 1) = unat n - 1" using us(2) by (intro unat_minus_one) auto
    ultimately have w: "whole_range r s e" by (simp add: whole_range_def tn word_unat_eq_iff)
    then have "unat f = 0" "?j = reader_count r" using R(5) by simp_all
    moreover have "length p' \<le> unat n" by (simp add: lp span_length_def tn)
    ultimately show ?thesis using w that range by simp
  qed
  have "rs_status R = 200 \<and> ?s = 0 \<and> ?k = unat n \<or>
      rs_status R = 206 \<and> (''Content-Range'', content_range (of_nat ?s) (of_nat (?s + ?k - 1)) n) \<in> set (rs_headers R)"
  proof (cases part)
    case True
    then show ?thesis using st cr k(2) by simp
  next
    case False
    then have "s = 0" "e = saturating_sub_u64 n 1" using selected_bytes_bounds [OF p] by simp_all
    then show ?thesis using st False k(2) se by (simp add: unat_saturating_sub_u64 word_less_nat_alt)
  qed
  moreover have "\<forall>q. asks header q \<longrightarrow> requested q (unat n) = (?s, ?k)"
  proof -
    have "n \<noteq> 0" using us(2) by auto
    then show ?thesis using asked_bytes(2) [OF _ _ p] by blast
  qed
  moreover have "unat b = unat (ch_header_length (dr_core r)) + ?s div ?c * (?c + 16)"
    using record_span_value(1) [OF c header_length_bound [OF h] R(3) R(4) sp] unfolding R(1) .
  moreover have "unbroken body \<longrightarrow> delivered body = take ?k (drop (?s mod ?c) p') \<and> length (delivered body) = ?k"
    using full all range by simp
  moreover have "?s = 0 \<and> ?k = unat n \<and> unbroken body \<longrightarrow> delivered (cut_out source b m) = envelope_body P (reader_ctx r) (delivered body)"
    using full whole end_body by simp
  ultimately show ?thesis using hand pre k K unfolding R(1) by blast
qed

section \<open>A small file\<close>

text \<open>Twenty bytes under a vault slot, a live credential and a source that has the whole envelope.\<close>

definition live_state :: crypto_state where
  "live_state = (CryptoState_new FileVault_new 0)\<lparr>cs_locked := False, cs_session := Some 1,
     cs_sessions := [(1, replicate 32 9)],
     cs_handles := [(5, \<lparr>oi_session = 1, oi_created_at = 0, oi_class = MediaStream\<rparr>)]\<rparr>"

definition live_access :: protected_access where
  "live_access = \<lparr>pp_credential = 5, pp_state = (\<lambda>_. (0, live_state)), pp_waits = (\<lambda>_. Ok ())\<rparr>"

definition plain_envelope_env :: envelope_env where
  "plain_envelope_env = \<lparr>ev_describe = (\<lambda>_. []), ev_describe_open = (\<lambda>_. []), ev_mime = (\<lambda>_. None)\<rparr>"

lemma live_access_grants: "stream_authorized live_access m" "stream_key_lives live_access m"
  by (simp_all add: stream_authorized_def stream_key_lives_def live_access_def live_state_def validate_operation_def
      operation_wrapping_key_def CryptoState_new_def retain_live_handles_def bt_contains_def bt_retain_def Let_def)

lemma vault_envelope:
  "\<exists>hb r. initialize_tdenc2_decryptor demo_prims hb (Some (replicate 32 9)) None = Ok r \<and>
     EnvelopeHeader_parse hb = Ok (dr_header r) \<and> ch_total_plaintext_length (dr_core r) = 20 \<and>
     ch_chunk_size (dr_core r) = 65536"
proof -
  let ?vk = "replicate 32 9 :: bytes" and ?dek = "replicate 32 4 :: bytes" and ?uuid = "replicate 16 7 :: bytes"
  let ?ctx = "\<lparr>ctx_file_uuid = ?uuid, ctx_format_version = FORMAT_VERSION\<rparr>"
  obtain wk where wk: "derive_file_wrapping_key demo_prims ?vk ?uuid (replicate 16 3) 1 0 = Ok wk" "length wk = 32"
    using prims_hkdf [OF demo_prims_ok, of "Some (replicate 16 3)" ?vk "file_wrap_info ?uuid 1 0"]
    by (auto simp: derive_file_wrapping_key_def)
  let ?aad = "build_slot_aad ?ctx 1 0 2 0 0 0 (replicate 16 3)"
  obtain w where w: "aead_seal demo_prims wk (replicate 24 5) ?aad ?dek = Some w" "length w = 48"
    using prims_seal_total [OF demo_prims_ok wk(2), of "replicate 24 5" ?dek ?aad] by auto
  have un: "unwrap_dek demo_prims ?ctx w (replicate 24 5) wk 1 0 2 0 0 0 (replicate 16 3) = Ok ?dek"
    using unwrap_iff_wrap [OF demo_prims_ok wk(2), of ?dek] w prims_key_ok [OF demo_prims_ok wk(2)]
    by (simp add: wrap_dek_with_nonce_def)
  let ?slot = "demo_slot\<lparr>ks_wrapped_dek := w\<rparr>"
  have slot: "slot_sized ?slot" "KeySlotEntry_validate ?slot = Ok ()"
    using w(2) by (simp_all add: slot_sized_def demo_slot_def KeySlotEntry_validate_def)
  obtain hb where hb: "EnvelopeHeader_build demo_prims ?uuid 65536 [?slot] [] 20 (replicate 16 8) ?dek = Ok hb"
    using build_total [OF demo_prims_ok, of "replicate 16 8" "[?slot]" ?uuid 65536 "[]" 20 ?dek] slot by auto
  obtain h where h: "EnvelopeHeader_parse hb = Ok h" "eh_key_slots h = [?slot]" "ch_file_uuid (eh_core h) = ?uuid"
    "ch_chunk_size (eh_core h) = 65536" "ch_total_plaintext_length (eh_core h) = 20"
    "verify_and_decrypt_metadata demo_prims h ?dek = Ok []"
    using build_parses [OF demo_prims_ok _ _ _ hb, of "[]"] slot by auto
  have v: "ch_format_version (eh_core h) = FORMAT_VERSION" using accepted_layout [OF h(1)] by (metis core_valid_def)
  obtain ck where ck: "derive_domain_key_32 demo_prims ?dek CONTENT_ENC = Ok ck"
    using derive_domain_key_32_Ok [OF demo_prims_ok] by blast
  obtain r where r: "DecryptReader_new demo_prims hb ?dek = Ok r" "dr_header r = h"
    using h ck by (auto simp: DecryptReader_new_def)
  have "slot_data_key demo_prims (Some ?vk) None (eh_core h) ?slot = Some ?dek"
    using wk(1) un by (simp add: slot_data_key_def slot_wrapping_key_def demo_slot_def h(3) v)
  then have "initialize_tdenc2_decryptor demo_prims hb (Some ?vk) None = Ok r"
    using r by (simp add: initialize_tdenc2_decryptor_def initialize_tdenc2_decryptor_with_kind_def h)
  then show ?thesis using h r by blast
qed

text \<open>Bytes 5 to 9 of it.\<close>

definition five_bytes :: range_request where "five_bytes = Bytes 5 9"

definition five_field :: str where "five_field = us ''bytes='' @ show_u64 5 @ us ''-'' @ show_u64 9"

lemma five_asked: "asks (Some five_field) five_bytes" "requested five_bytes 20 = (5, 5)" "as_part five_bytes"
  by (simp_all add: five_field_def five_bytes_def)

lemma five_reserved:
  "\<exists>L'. reserve (de_calendar calm_delivery) (de_format_bytes calm_delivery) (de_ledger calm_delivery) DownloadHold 5 week_ledger = (Ok 1, L')"
proof -
  have "prepare_ledger demo_calendar calm week_ledger = (Ok (), week_ledger)"
    by (rule week_prepared) (simp_all add: week_ledger_def week_opened)
  moreover have "used_bytes week_ledger = Ok 10"
    unfolding week_ledger_def week_opened by (simp add: used_bytes_Ok usage_def charged_def week_stats_def)
  moreover have "le_write calm = None" "bw_limit (lg_stats week_ledger) = 100" "lg_holds week_ledger = []" "lg_next_id week_ledger = 0"
    unfolding week_ledger_def week_opened by (simp_all add: calm_def week_stats_def)
  ultimately show ?thesis
    by (simp add: calm_delivery_def reserve_def lbind_def checked_add_u64_def persist_def)
qed

text \<open>What the file holds: twenty different bytes.\<close>

definition counted :: bytes where "counted = map of_nat [0..<20]"

lemma counted: "length counted = 20" "slice counted 5 10 = [5, 6, 7, 8, 9]"
  by (simp_all add: counted_def slice_def upt_rec numeral_eq_Suc)


text \<open>The same request, and what the theorem says of its body.\<close>

lemma five_sent:
  assumes "initialize_tdenc2_decryptor demo_prims hb (Some (replicate 32 9)) None = Ok r" "ch_total_plaintext_length (dr_core r) = 20"
  shows "\<exists>R L' body. build_encrypted_media_response demo_prims plain_envelope_env calm_delivery live_access hb 20 (Some five_field)
      (replicate 32 9) (aligned_source (replicate (unat (ch_header_length (dr_core r))) 0 @
        envelope_body demo_prims (reader_ctx r) counted)) week_ledger = (R, L') \<and> rs_body R = Streaming body \<and> unbroken body"
proof -
  let ?front = "replicate (unat (ch_header_length (dr_core r))) 0 :: bytes"
  let ?source = "aligned_source (?front @ envelope_body demo_prims (reader_ctx r) counted)"
  have small: "(20 :: u64) \<noteq> 0" "unat (20 :: u64) \<le> unat MAX_CIPHERTEXT_SIZE"
    by (simp_all add: MAX_CIPHERTEXT_SIZE_def TELEGRAM_MAX_FILE_SIZE_def)
  have granted: "de_account calm_delivery m = Ok ()" "pp_waits live_access m = Ok ()" for m
    by (simp_all add: calm_delivery_def live_access_def)
  obtain x e part where sel: "selected_bytes (Some five_field) 20 = Some (x, e, part)"
    using asked_bytes(1) [OF five_asked(1) small(1)] five_asked(2) by (cases "selected_bytes (Some five_field) 20") auto
  have x: "x \<le> e" "e < 20" "unat (e - x + 1) = 5" using asked_bytes(2) [OF five_asked(1) small(1) sel] five_asked(2) by simp_all
  then have "e - x + 1 = 5" by (simp add: word_unat_eq_iff)
  then obtain hold L' where "download_hold calm_delivery (e - x + 1) week_ledger = (Ok hold, L')"
    using five_reserved by (auto simp: download_hold_def lbind_def)
  from protected_answer(3) [OF demo_prims_ok assms small granted(1) sel x(1,2) this] obtain R body where
    b: "build_encrypted_media_response demo_prims plain_envelope_env calm_delivery live_access hb 20 (Some five_field)
      (replicate 32 9) ?source week_ledger = (R, L')" "rs_body R = Streaming body" by blast
  have "unbroken body"
    using protected_delivery [OF demo_prims_ok b assms(1) small(2) _ _ _ five_asked(1), of counted ?front 5 5] five_asked(2)
      aligned_source_serves live_access_grants counted(1) granted by auto
  then show ?thesis using b by blast
qed

theorem protected_bytes_authentic_witness:
  "\<exists>hb key R L' body r. build_encrypted_media_response demo_prims plain_envelope_env calm_delivery live_access hb 20
      (Some five_field) key (aligned_source (replicate (unat (ch_header_length (dr_core r))) 0 @
         envelope_body demo_prims (reader_ctx r) counted)) week_ledger = (R, L') \<and> rs_body R = Streaming body \<and>
    length (delivered body) = 5 \<and>
    (\<exists>start m p. prefix (records_from demo_prims (reader_ctx r) 0 p) (delivered (cut_out (aligned_source
        (replicate (unat (ch_header_length (dr_core r))) 0 @ envelope_body demo_prims (reader_ctx r) counted)) start m)) \<and>
      delivered body = take 5 (drop 5 p))"
proof -
  obtain hb r where e: "initialize_tdenc2_decryptor demo_prims hb (Some (replicate 32 9)) None = Ok r"
    "ch_total_plaintext_length (dr_core r) = 20" "ch_chunk_size (dr_core r) = 65536"
    using vault_envelope by blast
  let ?source = "aligned_source (replicate (unat (ch_header_length (dr_core r))) 0 @ envelope_body demo_prims (reader_ctx r) counted)"
  obtain R L' body where b: "build_encrypted_media_response demo_prims plain_envelope_env calm_delivery live_access hb 20 (Some five_field)
      (replicate 32 9) ?source week_ledger = (R, L')" "rs_body R = Streaming body" "unbroken body"
    using five_sent [OF e(1,2)] by blast
  have small: "unat (20 :: u64) \<le> unat MAX_CIPHERTEXT_SIZE"
    by (simp add: MAX_CIPHERTEXT_SIZE_def TELEGRAM_MAX_FILE_SIZE_def)
  obtain s k start m p where T: "\<forall>q. asks (Some five_field) q \<longrightarrow> requested q (unat (20 :: u64)) = (s, k)"
    "prefix (records_from demo_prims (reader_ctx r) (s div unat (ch_chunk_size (dr_core r))) p) (delivered (cut_out ?source start m))"
    "unbroken body \<longrightarrow> delivered body = take k (drop (s mod unat (ch_chunk_size (dr_core r))) p) \<and> length (delivered body) = k"
    using protected_bytes_authentic [OF demo_prims_ok b(1,2) e(1) small] by blast
  have "unat (20 :: u64) = 20" by simp
  then have sk: "s = 5" "k = 5" using T(1) [rule_format, OF five_asked(1)] five_asked(2) by simp_all
  have m: "5 mod unat (65536 :: u32) = 5" "5 div unat (65536 :: u32) = 0" by simp_all
  have "prefix (records_from demo_prims (reader_ctx r) 0 p) (delivered (cut_out ?source start m))"
    "delivered body = take 5 (drop 5 p) \<and> length (delivered body) = 5"
    using T(2) T(3) [rule_format, OF b(3)] unfolding e(3) sk m by blast+
  then show ?thesis using b by blast
qed

end
