(* ===== verification/Share_Limiter.thy ===== *)
theory Share_Limiter
  imports Ordered_Map Text_Tools
begin

text \<open>
  Password-protected share links (\<open>share_routes.rs\<close>): the limiter of password attempts, the checks of a
  link, and the two handlers over the answers of the database, the account guard, the clock, bcrypt and
  the Telegram client. A map keyed by digests is walked in an order the code does not choose; the walk is
  an argument.
\<close>

section \<open>The limiter\<close>

definition SHARE_PASSWORD_ATTEMPT_LIMIT :: nat where "SHARE_PASSWORD_ATTEMPT_LIMIT = 5"
definition SHARE_PASSWORD_WINDOW_SECONDS :: int where "SHARE_PASSWORD_WINDOW_SECONDS = 5 * 60"
definition SHARE_PASSWORD_COOLDOWN_SECONDS :: int where "SHARE_PASSWORD_COOLDOWN_SECONDS = 30"
definition MAX_TRACKED_SHARE_TOKENS :: nat where "MAX_TRACKED_SHARE_TOKENS = 1024"
definition MAX_SHARE_PASSWORD_CHARS :: nat where "MAX_SHARE_PASSWORD_CHARS = 128"
definition MAX_SHARE_PASSWORD_BYTES :: nat where "MAX_SHARE_PASSWORD_BYTES = 512"

lemmas share_limits = SHARE_PASSWORD_ATTEMPT_LIMIT_def SHARE_PASSWORD_WINDOW_SECONDS_def
  SHARE_PASSWORD_COOLDOWN_SECONDS_def MAX_TRACKED_SHARE_TOKENS_def

text \<open>Saturating arithmetic of \<open>i64\<close>.\<close>

definition clamp_i64 :: "int \<Rightarrow> int" where
  "clamp_i64 x = max (- (2 ^ 63)) (min (2 ^ 63 - 1) x)"

record attempt_state =
  as_attempts :: "int list"
  as_blocked_until :: int
  as_last_seen :: int

definition default_attempts :: attempt_state where
  "default_attempts = \<lparr>as_attempts = [], as_blocked_until = 0, as_last_seen = 0\<rparr>"

type_synonym 'k limiter = "('k, attempt_state) btree"
type_synonym 'k walk = "('k \<times> attempt_state) list \<Rightarrow> ('k \<times> attempt_state) list"

text \<open>Attempts leave the window from the front.\<close>

definition expire_attempts :: "int \<Rightarrow> attempt_state \<Rightarrow> attempt_state" where
  "expire_attempts now st =
     st\<lparr>as_attempts := dropWhile (\<lambda>attempt. attempt \<le> clamp_i64 (now - SHARE_PASSWORD_WINDOW_SECONDS)) (as_attempts st)\<rparr>"

definition prune :: "int \<Rightarrow> 'k limiter \<Rightarrow> 'k limiter" where
  "prune now limiter =
     bt_retain (\<lambda>_ st. now < as_blocked_until st \<or> as_attempts st \<noteq> [])
       (map (\<lambda>(k, st). (k, expire_attempts now st)) limiter)"

text \<open>\<open>min_by_key\<close>: the first of the entries seen longest ago.\<close>

fun oldest_entry :: "('k \<times> attempt_state) list \<Rightarrow> ('k \<times> attempt_state) option" where
  "oldest_entry [] = None"
| "oldest_entry (e # es) =
     (case oldest_entry es of
        None \<Rightarrow> Some e
      | Some f \<Rightarrow> Some (if as_last_seen (snd f) < as_last_seen (snd e) then f else e))"

definition evict :: "'k walk \<Rightarrow> 'k \<Rightarrow> 'k limiter \<Rightarrow> 'k limiter" where
  "evict walk token_key limiter =
     (if \<not> bt_contains limiter token_key \<and> MAX_TRACKED_SHARE_TOKENS \<le> length limiter
      then (case oldest_entry (walk limiter) of None \<Rightarrow> limiter | Some (k, _) \<Rightarrow> bt_remove k limiter)
      else limiter)"

text \<open>What an attempt does to the state of its own token.\<close>

definition admit :: "int \<Rightarrow> attempt_state \<Rightarrow> (int + unit) \<times> attempt_state" where
  "admit now st =
     (let st = st\<lparr>as_last_seen := now\<rparr> in
      if now < as_blocked_until st then (Err (max (as_blocked_until st - now) 1), st)
      else
        let st = (if as_blocked_until st \<noteq> 0 then st\<lparr>as_blocked_until := 0, as_attempts := []\<rparr> else st);
            st = expire_attempts now st in
        if SHARE_PASSWORD_ATTEMPT_LIMIT \<le> length (as_attempts st)
        then (Err SHARE_PASSWORD_COOLDOWN_SECONDS,
              st\<lparr>as_attempts := [], as_blocked_until := clamp_i64 (now + SHARE_PASSWORD_COOLDOWN_SECONDS)\<rparr>)
        else (Ok (), st\<lparr>as_attempts := as_attempts st @ [now]\<rparr>))"

definition begin_attempt ::
  "'k::linorder walk \<Rightarrow> 'k \<Rightarrow> int \<Rightarrow> 'k limiter \<Rightarrow> (int + unit) \<times> 'k limiter" where
  "begin_attempt walk token_key now limiter =
     (let limiter = evict walk token_key (prune now limiter);
          (answer, st) = admit now (case bt_get limiter token_key of None \<Rightarrow> default_attempts | Some st \<Rightarrow> st) in
      (answer, bt_insert token_key st limiter))"

definition fail_state :: "int \<Rightarrow> attempt_state \<Rightarrow> attempt_state" where
  "fail_state now st =
     (let st = st\<lparr>as_last_seen := now\<rparr> in
      if SHARE_PASSWORD_ATTEMPT_LIMIT \<le> length (as_attempts st)
      then st\<lparr>as_attempts := [], as_blocked_until := clamp_i64 (now + SHARE_PASSWORD_COOLDOWN_SECONDS)\<rparr>
      else st)"

definition record_failure :: "'k::linorder \<Rightarrow> int \<Rightarrow> 'k limiter \<Rightarrow> 'k limiter" where
  "record_failure token_key now limiter =
     (case bt_get limiter token_key of
        None \<Rightarrow> limiter
      | Some st \<Rightarrow> bt_insert token_key (fail_state now st) limiter)"

definition clear_attempts :: "'k \<Rightarrow> 'k limiter \<Rightarrow> 'k limiter" where
  "clear_attempts token_key limiter = bt_remove token_key limiter"

section \<open>Links\<close>

record share_row =
  sr_owner :: "int option"
  sr_folder :: "int option"
  sr_message :: int
  sr_file_name :: str
  sr_password_hash :: "str option"
  sr_expires_at :: "int option"
  sr_revoked :: bool

datatype share_answer =
    LinkNotFound str
  | LinkGone str
  | LinkError str
  | LinkBadRequest str
  | TooManyAttempts int
  | PasswordForm bool
  | LinkUnavailable str
  | EncryptedRefused str
  | PasswordAccepted str
  | MediaServed

definition LINK_UNAVAILABLE :: str where
  "LINK_UNAVAILABLE = us ''Shared link is unavailable for the current account''"

text \<open>\<open>opens\<close>: the account guard for the owner of a row.\<close>

definition share_account :: "(int \<Rightarrow> str + 'a) \<Rightarrow> share_row \<Rightarrow> str + 'a" where
  "share_account opens row =
     (case sr_owner row of
        Some owner \<Rightarrow> if 0 < owner then opens owner
          else Err (us ''This legacy link has no verified owner; recreate it from the original account'')
      | None \<Rightarrow> Err (us ''This legacy link has no verified owner; recreate it from the original account''))"

text \<open>The checks both handlers begin with.\<close>

definition share_gate ::
  "(int \<Rightarrow> str + 'a) \<Rightarrow> (str + share_row option) \<Rightarrow> int \<Rightarrow> share_answer + share_row \<times> 'a" where
  "share_gate opens lookup now =
     (case lookup of
        Inl _ \<Rightarrow> Err (LinkError (us ''Internal server error''))
      | Inr None \<Rightarrow> Err (LinkNotFound (us ''Shared link not found''))
      | Inr (Some row) \<Rightarrow>
          (case share_account opens row of
             Inl _ \<Rightarrow> Err (LinkNotFound LINK_UNAVAILABLE)
           | Inr account \<Rightarrow>
               if sr_revoked row then Err (LinkNotFound (us ''This shared link has been revoked''))
               else
                 (case sr_expires_at row of
                    Some expiry \<Rightarrow>
                      if expiry < now then Err (LinkGone (us ''This shared link has expired''))
                      else Ok (row, account)
                  | None \<Rightarrow> Ok (row, account))))"

text \<open>\<open>digest\<close> is SHA-256 over the UTF-8 bytes, printed in hexadecimal.\<close>

definition generate_cookie_val :: "(str \<Rightarrow> str) \<Rightarrow> str \<Rightarrow> str \<Rightarrow> str" where
  "generate_cookie_val digest token password_hash = digest (token @ password_hash)"

text \<open>The answers a download needs after the link was accepted: the client, the account (twice), the
  signed-in user, the peer, the message and whether its media is an envelope.\<close>

record share_answers =
  sa_client :: bool
  sa_account :: "str + unit"
  sa_user :: "int option"
  sa_peer :: "str + unit"
  sa_account_again :: "str + unit"
  sa_message :: "str + bool"
  sa_envelope :: "str + bool"

definition serve_shared :: "share_answers \<Rightarrow> int \<Rightarrow> share_answer" where
  "serve_shared E owner =
     (if \<not> sa_client E then LinkUnavailable (us ''Telegram client is not connected'')
      else if sa_account E \<noteq> Ok () \<or> sa_user E \<noteq> Some owner then LinkNotFound LINK_UNAVAILABLE
      else case sa_peer E of
        Inl _ \<Rightarrow> LinkError (us ''Failed to locate folder'')
      | Inr _ \<Rightarrow>
          if sa_account_again E \<noteq> Ok () then LinkNotFound LINK_UNAVAILABLE
          else (case sa_message E of
            Inl _ \<Rightarrow> LinkError (us ''Unable to retrieve shared media'')
          | Inr has_media \<Rightarrow>
              if \<not> has_media then LinkNotFound (us ''Message or media not found in Telegram'')
              else (case sa_envelope E of
                Inl _ \<Rightarrow> LinkNotFound (us ''Shared file could not be verified for the current account'')
              | Inr encrypted \<Rightarrow>
                  if encrypted then EncryptedRefused (us ''Encrypted sharing is unavailable'') else MediaServed)))"

text \<open>\<open>owner_of\<close> reads the owner out of the account guard.\<close>

definition get_shared_file ::
  "(str \<Rightarrow> str) \<Rightarrow> (int \<Rightarrow> str + 'a) \<Rightarrow> ('a \<Rightarrow> int) \<Rightarrow> str \<Rightarrow> (str + share_row option) \<Rightarrow> int \<Rightarrow> str option \<Rightarrow>
     share_answers \<Rightarrow> share_answer" where
  "get_shared_file digest opens owner_of token lookup now cookie E =
     (case share_gate opens lookup now of
        Inl answer \<Rightarrow> answer
      | Inr (row, account) \<Rightarrow>
          (case sr_password_hash row of
             Some hash \<Rightarrow>
               if cookie = Some (generate_cookie_val digest token hash) then serve_shared E (owner_of account)
               else PasswordForm False
           | None \<Rightarrow> serve_shared E (owner_of account)))"

section \<open>Checking a password\<close>

record 'a pending_check =
  pc_account :: 'a
  pc_hash :: str
  pc_now :: int

text \<open>Up to the call of bcrypt: an answer, or the check that is now under way. \<open>now_expiry\<close> and \<open>now\<close> are
  the two readings of the clock, \<open>key_of\<close> is SHA-256.\<close>

definition verify_begin ::
  "'k::linorder walk \<Rightarrow> (str \<Rightarrow> 'k) \<Rightarrow> (int \<Rightarrow> str + 'a) \<Rightarrow> str \<Rightarrow> (str + share_row option) \<Rightarrow> int \<Rightarrow> int \<Rightarrow> str \<Rightarrow>
     'k limiter \<Rightarrow> (share_answer + 'a pending_check) \<times> 'k limiter" where
  "verify_begin walk key_of opens token lookup now_expiry now password limiter =
     (case share_gate opens lookup now_expiry of
        Inl answer \<Rightarrow> (Err answer, limiter)
      | Inr (row, account) \<Rightarrow>
          (case sr_password_hash row of
             None \<Rightarrow> (Err (LinkBadRequest (us ''No password required for this link'')), limiter)
           | Some hash \<Rightarrow>
               (case begin_attempt walk (key_of token) now limiter of
                  (Inl retry_after, limiter) \<Rightarrow> (Err (TooManyAttempts retry_after), limiter)
                | (Inr _, limiter) \<Rightarrow>
                    if MAX_SHARE_PASSWORD_CHARS < length password \<or> MAX_SHARE_PASSWORD_BYTES < utf8_length password
                    then (Err (PasswordForm True), record_failure (key_of token) now limiter)
                    else (Ok \<lparr>pc_account = account, pc_hash = hash, pc_now = now\<rparr>, limiter))))"

definition verify_finish ::
  "(str \<Rightarrow> str) \<Rightarrow> (str \<Rightarrow> 'k::linorder) \<Rightarrow> str \<Rightarrow> 'a pending_check \<Rightarrow> bool \<Rightarrow> str + unit \<Rightarrow> 'k limiter \<Rightarrow>
     share_answer \<times> 'k limiter" where
  "verify_finish digest key_of token check verified account_valid limiter =
     (if account_valid \<noteq> Ok () then (LinkNotFound LINK_UNAVAILABLE, limiter)
      else if verified
      then (PasswordAccepted (generate_cookie_val digest token (pc_hash check)), clear_attempts (key_of token) limiter)
      else (PasswordForm True, record_failure (key_of token) (pc_now check) limiter))"

section \<open>Properties of links\<close>

lemma served_link:
  assumes "get_shared_file digest opens owner_of token lookup now cookie E = MediaServed"
  shows "\<exists>row account. lookup = Ok (Some row) \<and> share_account opens row = Ok account \<and> \<not> sr_revoked row \<and>
    (\<forall>expiry. sr_expires_at row = Some expiry \<longrightarrow> now \<le> expiry) \<and>
    (\<forall>hash. sr_password_hash row = Some hash \<longrightarrow> cookie = Some (generate_cookie_val digest token hash)) \<and>
    sa_user E = Some (owner_of account) \<and> sa_envelope E = Ok False"
  using assms
  by (auto simp: get_shared_file_def share_gate_def serve_shared_def split: sum.splits option.splits if_splits prod.splits)

end
