(* ===== verification/Share_Contract.thy ===== *)
theory Share_Contract
  imports Share_Limiter
begin

text \<open>
  What the limiter of share passwords promises, over any interleaving of attempts and late failures: how
  many passwords a link can be tried with, that a blocked link is open again after the cooldown, and that
  the limiter's memory is bounded.
\<close>

section \<open>Runs\<close>

text \<open>An attempt at a time, the failure of the check that began at a time, and a check that succeeded.\<close>

datatype 'k limiter_event = Attempt 'k int | Failure 'k int | Success 'k

definition limiter_step :: "'k::linorder walk \<Rightarrow> 'k limiter_event \<Rightarrow> 'k limiter \<Rightarrow> 'k limiter" where
  "limiter_step walk ev limiter =
     (case ev of
        Attempt k now \<Rightarrow> snd (begin_attempt walk k now limiter)
      | Failure k now \<Rightarrow> record_failure k now limiter
      | Success k \<Rightarrow> clear_attempts k limiter)"

text \<open>The times of the attempts of a token that were let through to the password check.\<close>

fun checks :: "'k::linorder walk \<Rightarrow> 'k \<Rightarrow> 'k limiter \<Rightarrow> 'k limiter_event list \<Rightarrow> int list" where
  "checks walk t limiter [] = []"
| "checks walk t limiter (ev # evs) =
     (case ev of
        Attempt k now \<Rightarrow> if k = t \<and> fst (begin_attempt walk k now limiter) = Ok () then [now] else []
      | _ \<Rightarrow> []) @ checks walk t (limiter_step walk ev limiter) evs"

fun event_key :: "'k limiter_event \<Rightarrow> 'k" where
  "event_key (Attempt k _) = k" | "event_key (Failure k _) = k" | "event_key (Success k) = k"

text \<open>The clock does not go back, and a check fails at most \<open>late\<close> seconds after it began.\<close>

fun well_timed :: "int \<Rightarrow> int \<Rightarrow> 'k limiter_event list \<Rightarrow> bool" where
  "well_timed late clock [] = True"
| "well_timed late clock (ev # evs) =
     (case ev of
        Attempt k now \<Rightarrow> clock \<le> now \<and> now \<le> 2 ^ 62 \<and> well_timed late now evs
      | Failure k now \<Rightarrow> clock - late \<le> now \<and> now \<le> clock \<and> well_timed late clock evs
      | Success k \<Rightarrow> well_timed late clock evs)"

section \<open>The state of one token\<close>

text \<open>\<open>tried\<close> are the checks of the token so far, oldest first; those no longer counted by the state lie back
  by the cooldown, either now or when the block ends.\<close>

definition token_inv :: "int \<Rightarrow> int \<Rightarrow> int list \<Rightarrow> attempt_state \<Rightarrow> bool" where
  "token_inv late clock tried st \<longleftrightarrow>
     length (as_attempts st) \<le> 5 \<and> (as_blocked_until st \<noteq> 0 \<longrightarrow> as_attempts st = []) \<and>
     (\<exists>dropped. tried = dropped @ as_attempts st \<and>
        (\<forall>a\<in>set dropped. a + (30 - late) \<le> max clock (as_blocked_until st)))"

definition tried_ok :: "int \<Rightarrow> int \<Rightarrow> int list \<Rightarrow> bool" where
  "tried_ok late clock tried \<longleftrightarrow>
     (\<forall>a\<in>set tried. a \<le> clock) \<and> (\<forall>i. i + 5 < length tried \<longrightarrow> tried ! i + (30 - late) \<le> tried ! (i + 5))"

lemma token_invI:
  assumes "tried = dropped @ as_attempts st" and "\<And>a. a \<in> set dropped \<Longrightarrow> a + (30 - late) \<le> max clock (as_blocked_until st)"
    and "length (as_attempts st) \<le> 5" and "as_blocked_until st \<noteq> 0 \<Longrightarrow> as_attempts st = []"
  shows "token_inv late clock tried st"
  using assms unfolding token_inv_def by blast

lemma token_invE:
  assumes "token_inv late clock tried st"
  obtains dropped where "tried = dropped @ as_attempts st"
    "\<And>a. a \<in> set dropped \<Longrightarrow> a + (30 - late) \<le> max clock (as_blocked_until st)"
    "length (as_attempts st) \<le> 5" "as_blocked_until st \<noteq> 0 \<Longrightarrow> as_attempts st = []"
  using assms unfolding token_inv_def by blast

lemma clamp_small: "- (2 ^ 62) \<le> x \<Longrightarrow> x \<le> 2 ^ 62 + 300 \<Longrightarrow> clamp_i64 x = x"
  by (simp add: clamp_i64_def)

lemma token_inv_seen [simp]: "token_inv late clock tried (st\<lparr>as_last_seen := n\<rparr>) = token_inv late clock tried st"
  by (simp add: token_inv_def)

lemma token_inv_later: "token_inv late clock tried st \<Longrightarrow> clock \<le> now \<Longrightarrow> token_inv late now tried st"
proof (elim token_invE, rule token_invI)
  fix d a assume "a \<in> set d" "clock \<le> now" and b: "\<And>a. a \<in> set d \<Longrightarrow> a + (30 - late) \<le> max clock (as_blocked_until st)"
  then show "a + (30 - late) \<le> max now (as_blocked_until st)" using b [of a] by linarith
qed

lemma token_inv_expire:
  assumes "token_inv late now tried st" and "0 \<le> late" and "0 \<le> now" "now \<le> 2 ^ 62"
  shows "token_inv late now tried (expire_attempts now st)"
proof -
  have c: "clamp_i64 (now - 300) = now - 300" using assms(3,4) by (intro clamp_small) simp_all
  let ?p = "\<lambda>a. a \<le> now - 300"
  have e: "expire_attempts now st = st\<lparr>as_attempts := dropWhile ?p (as_attempts st)\<rparr>"
    by (simp add: expire_attempts_def share_limits c)
  obtain d where d: "tried = d @ as_attempts st" "\<And>a. a \<in> set d \<Longrightarrow> a + (30 - late) \<le> max now (as_blocked_until st)"
    and l: "length (as_attempts st) \<le> 5" and b: "as_blocked_until st \<noteq> 0 \<Longrightarrow> as_attempts st = []"
    using assms(1) by (rule token_invE) blast
  show ?thesis
    unfolding e
  proof (rule token_invI)
    show "tried = (d @ takeWhile ?p (as_attempts st)) @ as_attempts (st\<lparr>as_attempts := dropWhile ?p (as_attempts st)\<rparr>)"
      by (simp add: d(1))
    show "a + (30 - late) \<le> max now (as_blocked_until (st\<lparr>as_attempts := dropWhile ?p (as_attempts st)\<rparr>))"
      if "a \<in> set (d @ takeWhile ?p (as_attempts st))" for a
    proof (cases "a \<in> set d")
      case False
      then have "a \<le> now - 300" using that by (auto dest: set_takeWhileD)
      then show ?thesis using assms(2) by simp
    qed (use d(2) in simp)
    show "length (as_attempts (st\<lparr>as_attempts := dropWhile ?p (as_attempts st)\<rparr>)) \<le> 5"
      using l length_dropWhile_le [of ?p "as_attempts st"] by simp
  qed (use b in simp)
qed

lemma token_inv_block:
  assumes "token_inv late clock tried st" and "\<forall>a\<in>set tried. a \<le> clock" and "clock - late \<le> u" and "as_blocked_until st = 0"
    and "0 \<le> clock"
  shows "token_inv late clock tried (st\<lparr>as_attempts := [], as_blocked_until := u + 30\<rparr>)"
proof (rule token_invI [where dropped = tried])
  fix a assume "a \<in> set tried"
  then show "a + (30 - late) \<le> max clock (as_blocked_until (st\<lparr>as_attempts := [], as_blocked_until := u + 30\<rparr>))"
    using assms(2,3) by fastforce
qed simp_all

lemma token_inv_unblock:
  assumes "token_inv late now tried st" and "as_blocked_until st \<le> now" and "as_blocked_until st \<noteq> 0"
  shows "token_inv late now tried (st\<lparr>as_blocked_until := 0, as_attempts := []\<rparr>)"
proof -
  obtain d where d: "tried = d @ as_attempts st" "\<And>a. a \<in> set d \<Longrightarrow> a + (30 - late) \<le> max now (as_blocked_until st)"
    and b: "as_attempts st = []" using assms(1,3) by (elim token_invE) blast
  show ?thesis
    by (rule token_invI [where dropped = d]) (use d b assms(2) in \<open>force+\<close>)
qed

lemma tried_append:
  assumes "tried_ok late clock xs" and "clock \<le> y" and "5 \<le> length xs \<Longrightarrow> xs ! (length xs - 5) + (30 - late) \<le> y"
  shows "tried_ok late y (xs @ [y])"
proof -
  have "(xs @ [y]) ! i + (30 - late) \<le> (xs @ [y]) ! (i + 5)" if i: "i + 5 < length (xs @ [y])" for i
  proof (cases "i + 5 < length xs")
    case True
    then show ?thesis using assms(1) by (simp add: tried_ok_def nth_append)
  next
    case False
    then have "i = length xs - 5" "5 \<le> length xs" "i < length xs" using i by simp_all
    then show ?thesis using assms(3) by (simp add: nth_append)
  qed
  then show ?thesis using assms(1,2) unfolding tried_ok_def by force
qed

lemma token_inv_grant:
  assumes inv: "token_inv late now tried st" and "as_blocked_until st = 0" and "length (as_attempts st) < 5"
    and ok: "tried_ok late now tried" and "0 \<le> now"
  shows "token_inv late now (tried @ [now]) (st\<lparr>as_attempts := as_attempts st @ [now]\<rparr>)"
    and "tried_ok late now (tried @ [now])"
proof -
  obtain d where d: "tried = d @ as_attempts st" "\<And>a. a \<in> set d \<Longrightarrow> a + (30 - late) \<le> max now (as_blocked_until st)"
    using inv by (elim token_invE) blast
  have n: "tried ! (length tried - 5) + (30 - late) \<le> now" if "5 \<le> length tried"
  proof -
    have "length tried - 5 < length d" using that assms(3) by (simp add: d(1))
    then show ?thesis using d(2) [of "tried ! (length tried - 5)"] assms(2,5) by (simp add: d(1) nth_append)
  qed
  show "tried_ok late now (tried @ [now])" using tried_append [OF ok order_refl n] .
  show "token_inv late now (tried @ [now]) (st\<lparr>as_attempts := as_attempts st @ [now]\<rparr>)"
    by (rule token_invI [where dropped = d]) (use d assms(2,3) in simp_all)
qed

lemma token_inv_admit:
  assumes inv: "token_inv late clock tried st" and ok: "tried_ok late clock tried"
    and t: "clock \<le> now" "0 \<le> now" "now \<le> 2 ^ 62" "0 \<le> late" and a: "admit now st = (r, st')"
  defines "tried' \<equiv> if r = Ok () then tried @ [now] else tried"
  shows "token_inv late now tried' st' \<and> tried_ok late now tried'"
proof -
  have i1: "token_inv late now tried (st\<lparr>as_last_seen := now\<rparr>)" using token_inv_later [OF inv t(1)] by simp
  have o1: "tried_ok late now tried" using ok t(1) by (auto simp: tried_ok_def)
  have c: "clamp_i64 (now + 30) = now + 30" using t by (intro clamp_small) simp_all
  show ?thesis
  proof (cases "now < as_blocked_until st")
    case True
    then have "r \<noteq> Ok () \<and> st' = st\<lparr>as_last_seen := now\<rparr>" using a by (auto simp: admit_def)
    then show ?thesis using i1 o1 by (simp add: tried'_def)
  next
    case False
    let ?st1 = "st\<lparr>as_last_seen := now\<rparr>"
    let ?st2 = "if as_blocked_until st \<noteq> 0 then ?st1\<lparr>as_blocked_until := 0, as_attempts := []\<rparr> else ?st1"
    let ?st3 = "expire_attempts now ?st2"
    have i2: "token_inv late now tried ?st2" using token_inv_unblock [OF i1] False i1 by simp
    have i3: "token_inv late now tried ?st3" by (rule token_inv_expire [OF i2 t(4,2,3)])
    have b: "as_blocked_until ?st3 = 0" by (simp add: expire_attempts_def)
    have ad: "admit now st = (if 5 \<le> length (as_attempts ?st3)
        then (Err 30, ?st3\<lparr>as_attempts := [], as_blocked_until := now + 30\<rparr>)
        else (Ok (), ?st3\<lparr>as_attempts := as_attempts ?st3 @ [now]\<rparr>))"
      using False unfolding admit_def Let_def share_limits c by simp
    show ?thesis
    proof (cases "5 \<le> length (as_attempts ?st3)")
      case True
      then have "r = Err 30" "st' = ?st3\<lparr>as_attempts := [], as_blocked_until := now + 30\<rparr>" using a ad by simp_all
      moreover have "token_inv late now tried (?st3\<lparr>as_attempts := [], as_blocked_until := now + 30\<rparr>)"
        by (rule token_inv_block [OF i3 _ _ b t(2)]) (use o1 t(4) in \<open>simp_all add: tried_ok_def\<close>)
      ultimately show ?thesis using o1 by (simp add: tried'_def)
    next
      case False
      then have "r = Ok ()" "st' = ?st3\<lparr>as_attempts := as_attempts ?st3 @ [now]\<rparr>" using a ad by simp_all
      then show ?thesis using token_inv_grant [OF i3 b _ o1 t(2)] False by (simp add: tried'_def)
    qed
  qed
qed

lemma token_inv_fail:
  assumes inv: "token_inv late clock tried st" and ok: "tried_ok late clock tried"
    and t: "clock - late \<le> u" "u \<le> clock" "0 \<le> clock" "clock \<le> 2 ^ 62" "late \<le> 2 ^ 61"
  shows "token_inv late clock tried (fail_state u st)"
proof (cases "5 \<le> length (as_attempts st)")
  case True
  have c: "clamp_i64 (u + 30) = u + 30" using t by (intro clamp_small) simp_all
  have "as_blocked_until st = 0" using inv True by (elim token_invE) force
  then have "token_inv late clock tried (st\<lparr>as_last_seen := u\<rparr>\<lparr>as_attempts := [], as_blocked_until := u + 30\<rparr>)"
    using ok inv t by (intro token_inv_block) (simp_all add: tried_ok_def)
  then show ?thesis using True by (simp add: fail_state_def share_limits c)
qed (use inv in \<open>simp add: fail_state_def share_limits\<close>)

section \<open>The limiter\<close>

definition state_of :: "'k limiter \<Rightarrow> 'k \<Rightarrow> attempt_state" where
  "state_of limiter t = (case bt_get limiter t of None \<Rightarrow> default_attempts | Some st \<Rightarrow> st)"

lemma bt_get_map: "bt_get (map (\<lambda>(k, v). (k, f v)) m) k = map_option f (bt_get m k)"
  by (induction m) auto

lemma bt_ok_map: "bt_ok m \<Longrightarrow> bt_ok (map (\<lambda>(k, v). (k, f v)) m)"
  by (simp add: bt_ok_def case_prod_beta comp_def)

lemma prune_ok: "bt_ok limiter \<Longrightarrow> bt_ok (prune now limiter)"
  by (simp add: prune_def bt_ok_map)

lemma prune_get:
  "bt_ok limiter \<Longrightarrow> bt_get (prune now limiter) t = (case bt_get limiter t of None \<Rightarrow> None
     | Some st \<Rightarrow> if now < as_blocked_until st \<or> as_attempts (expire_attempts now st) \<noteq> []
         then Some (expire_attempts now st) else None)"
  by (auto simp: prune_def bt_get_retain bt_ok_map bt_get_map expire_attempts_def split: option.splits)

lemma prune_keys: "bt_ok limiter \<Longrightarrow> set (bt_keys (prune now limiter)) \<subseteq> set (bt_keys limiter)"
  by (auto simp: prune_def bt_retain_def bt_keys_def intro: rev_image_eqI)

lemma token_inv_prune:
  assumes b: "bt_ok limiter" and inv: "token_inv late clock tried (state_of limiter t)" and o: "tried_ok late clock tried"
    and t: "clock \<le> now" "0 \<le> now" "now \<le> 2 ^ 62" "0 \<le> late"
  shows "token_inv late now tried (state_of (prune now limiter) t)"
proof (cases "bt_get limiter t")
  case None
  then show ?thesis using token_inv_later [OF inv t(1)] b by (simp add: state_of_def prune_get)
next
  case (Some st)
  have i: "token_inv late now tried (expire_attempts now st)"
    using token_inv_expire [OF token_inv_later [OF inv t(1)] t(4,2,3)] Some by (simp add: state_of_def)
  show ?thesis
  proof (cases "now < as_blocked_until st \<or> as_attempts (expire_attempts now st) \<noteq> []")
    case True
    then show ?thesis using i b Some by (simp add: state_of_def prune_get)
  next
    case False
    obtain d where d: "tried = d" "\<And>a. a \<in> set d \<Longrightarrow> a + (30 - late) \<le> max now (as_blocked_until (expire_attempts now st))"
      using i False by (elim token_invE) simp
    have "token_inv late now tried default_attempts"
      by (rule token_invI [where dropped = d])
        (use d False t(2) in \<open>force simp: default_attempts_def expire_attempts_def\<close>)+
    then show ?thesis using False b Some by (simp add: state_of_def prune_get)
  qed
qed

text \<open>As long as no more tokens are in use than the limiter tracks, none is evicted.\<close>

lemma evict_unused:
  assumes "bt_ok limiter" and "set (bt_keys limiter) \<subseteq> K" and "finite K" "card K \<le> 1024" and "k \<in> K"
  shows "evict walk k limiter = limiter"
proof (cases "k \<in> set (bt_keys limiter)")
  case True
  then show ?thesis by (simp add: evict_def bt_contains_iff)
next
  case False
  have "length limiter = card (set (bt_keys limiter))" using bt_ok_distinct [OF assms(1)] by (simp add: distinct_card)
  also have "\<dots> < card K" using assms(2,3,5) False by (intro psubset_card_mono) auto
  finally show ?thesis using assms(4) by (simp add: evict_def share_limits)
qed

lemma begin_other: "k \<noteq> t \<Longrightarrow> evict walk k (prune now limiter) = prune now limiter \<Longrightarrow>
   state_of (snd (begin_attempt walk k now limiter)) t = state_of (prune now limiter) t"
  by (simp add: begin_attempt_def state_of_def Let_def case_prod_beta)

lemma begin_own:
  assumes "evict walk t (prune now limiter) = prune now limiter"
  shows "(fst (begin_attempt walk t now limiter), state_of (snd (begin_attempt walk t now limiter)) t) =
    admit now (state_of (prune now limiter) t)"
  using assms by (simp add: begin_attempt_def state_of_def Let_def case_prod_beta)

definition limiter_inv :: "'k::linorder set \<Rightarrow> int \<Rightarrow> int \<Rightarrow> 'k \<Rightarrow> int list \<Rightarrow> 'k limiter \<Rightarrow> bool" where
  "limiter_inv K late clock t tried limiter \<longleftrightarrow>
     bt_ok limiter \<and> set (bt_keys limiter) \<subseteq> K \<and> token_inv late clock tried (state_of limiter t) \<and>
     tried_ok late clock tried \<and> 0 \<le> clock \<and> clock \<le> 2 ^ 62"

lemma limiter_attempt:
  assumes inv: "limiter_inv K late clock t tried limiter" and K: "finite K" "card K \<le> 1024" "k \<in> K"
    and n: "clock \<le> now" "now \<le> 2 ^ 62" "0 \<le> late"
  shows "limiter_inv K late now t (tried @ (if k = t \<and> fst (begin_attempt walk k now limiter) = Ok () then [now] else []))
    (snd (begin_attempt walk k now limiter))"
proof -
  let ?L = "prune now limiter"
  have n0: "0 \<le> now" using inv n by (simp add: limiter_inv_def)
  have b: "bt_ok limiter" and ok: "tried_ok late clock tried" using inv by (simp_all add: limiter_inv_def)
  have keys: "set (bt_keys ?L) \<subseteq> K" using inv prune_keys [OF b] by (auto simp: limiter_inv_def)
  have e: "evict walk k ?L = ?L" by (rule evict_unused [OF prune_ok [OF b] keys K])
  have p: "token_inv late now tried (state_of ?L t)"
    using inv token_inv_prune [OF b _ ok n(1) n0 n(2,3)] by (simp add: limiter_inv_def)
  have o1: "tried_ok late now tried" using ok n(1) by (auto simp: tried_ok_def)
  have shape: "bt_ok (snd (begin_attempt walk k now limiter)) \<and> set (bt_keys (snd (begin_attempt walk k now limiter))) \<subseteq> K"
    using e keys prune_ok [OF b] K(3) by (simp add: begin_attempt_def Let_def case_prod_beta)
  show ?thesis
  proof (cases "k = t")
    case True
    obtain r st where a: "admit now (state_of ?L t) = (r, st)" by fastforce
    have s: "fst (begin_attempt walk k now limiter) = r" "state_of (snd (begin_attempt walk k now limiter)) t = st"
      using begin_own [of walk t now limiter] e a True by simp_all
    have "token_inv late now (if r = Ok () then tried @ [now] else tried) st \<and>
        tried_ok late now (if r = Ok () then tried @ [now] else tried)"
      by (rule token_inv_admit [OF p o1 order_refl n0 n(2,3) a])
    then show ?thesis using True s shape n0 n(2) by (simp add: limiter_inv_def split: if_splits)
  next
    case False
    then show ?thesis using begin_other [OF False e] p o1 shape n0 n(2) by (simp add: limiter_inv_def)
  qed
qed

lemma limiter_failure:
  assumes inv: "limiter_inv K late clock t tried limiter" and u: "clock - late \<le> u" "u \<le> clock" and l: "late \<le> 2 ^ 61"
  shows "limiter_inv K late clock t tried (record_failure k u limiter)"
proof (cases "bt_get limiter k")
  case None
  then show ?thesis using inv by (simp add: record_failure_def)
next
  case (Some st)
  have k: "k \<in> set (bt_keys limiter)" using Some bt_get_None_iff [of limiter k] by auto
  have "token_inv late clock tried (state_of (record_failure k u limiter) t)"
  proof (cases "k = t")
    case True
    then have "token_inv late clock tried st" using inv Some by (simp add: limiter_inv_def state_of_def)
    then have "token_inv late clock tried (fail_state u st)"
      by (rule token_inv_fail) (use inv u l in \<open>simp_all add: limiter_inv_def\<close>)
    then show ?thesis using True Some by (simp add: record_failure_def state_of_def)
  qed (use inv Some in \<open>simp add: record_failure_def state_of_def limiter_inv_def\<close>)
  then show ?thesis using inv Some k by (auto simp: limiter_inv_def record_failure_def)
qed

lemma limiter_success:
  "limiter_inv K late clock t tried limiter \<Longrightarrow> k \<noteq> t \<Longrightarrow> limiter_inv K late clock t tried (clear_attempts k limiter)"
  by (auto simp: limiter_inv_def clear_attempts_def state_of_def)

lemma limiter_run:
  assumes "limiter_inv K late clock t tried limiter" and "well_timed late clock evs" and "event_key ` set evs \<subseteq> K"
    and "finite K" "card K \<le> 1024" and "0 \<le> late" "late \<le> 2 ^ 61" and "Success t \<notin> set evs"
  shows "\<exists>clock'. tried_ok late clock' (tried @ checks walk t limiter evs)"
  using assms
proof (induction evs arbitrary: clock tried limiter)
  case Nil
  then show ?case by (auto simp: limiter_inv_def)
next
  case (Cons ev evs)
  have K: "event_key ev \<in> K" "event_key ` set evs \<subseteq> K" "Success t \<notin> set evs" using Cons.prems by auto
  note IH = Cons.IH [OF _ _ K(2) Cons.prems(4-7) K(3)]
  show ?case
  proof (cases ev)
    case (Attempt k now)
    then show ?thesis
      using IH [OF limiter_attempt [OF Cons.prems(1,4,5), of k now walk]] Cons.prems(2,6) K(1)
      by (simp add: limiter_step_def)
  next
    case (Failure k u)
    then show ?thesis
      using IH [OF limiter_failure [OF Cons.prems(1) _ _ Cons.prems(7), of u k]] Cons.prems(2) by (simp add: limiter_step_def)
  next
    case (Success k)
    have k: "k \<noteq> t" using Cons.prems(8) Success by auto
    show ?thesis
      using IH [OF limiter_success [OF Cons.prems(1) k]] Cons.prems(2) Success by (simp add: limiter_step_def)
  qed
qed

section \<open>Properties\<close>

lemma limiter_start: "limiter_inv K late 0 t [] []"
  by (simp add: limiter_inv_def state_of_def default_attempts_def token_inv_def tried_ok_def bt_keys_def)

text \<open>The memory of the limiter: at most 1,024 tokens, each with at most five attempts.\<close>

lemma oldest_entry_Some: "es \<noteq> [] \<Longrightarrow> \<exists>e. oldest_entry es = Some e \<and> e \<in> set es"
proof (induction es)
  case (Cons e es)
  then show ?case by (cases "es = []"; cases e) (auto split: option.splits)
qed simp

lemma bt_length: "bt_ok m \<Longrightarrow> length m = card (set (bt_keys m))"
  using bt_ok_distinct [of m] by (simp add: distinct_card)

lemma bt_length_insert:
  "bt_ok m \<Longrightarrow> length (bt_insert k v m) = (if bt_contains m k then length m else Suc (length m))"
  by (simp add: bt_length bt_contains_iff insert_absorb)

lemma evict_ok: "bt_ok limiter \<Longrightarrow> bt_ok (evict walk k limiter)"
  by (auto simp: evict_def split: option.splits)

lemma limiter_bounded:
  assumes "bt_ok limiter" and "length limiter \<le> 1024" and "\<And>l. set (walk l) = set l"
  shows "length (limiter_step walk ev limiter) \<le> 1024"
proof -
  have sub: "length (bt_remove k m) \<le> length m" for k and m :: "'a limiter" by (simp add: bt_remove_def)
  show ?thesis
  proof (cases ev)
    case (Attempt k now)
    let ?P = "prune now limiter"
    have p: "length ?P \<le> 1024" using assms(2) by (simp add: prune_def bt_retain_def le_trans [OF length_filter_le])
    have small: "bt_contains (evict walk k ?P) k \<and> length (evict walk k ?P) \<le> 1024 \<or> length (evict walk k ?P) < 1024"
    proof (cases "bt_contains ?P k \<or> length ?P < 1024")
      case True
      then show ?thesis using p by (auto simp: evict_def share_limits)
    next
      case False
      then have ne: "walk ?P \<noteq> []" using assms(3) [of ?P] by auto
      obtain e where o: "oldest_entry (walk ?P) = Some e" "e \<in> set ?P" using oldest_entry_Some [OF ne] assms(3) by auto
      have "length (bt_remove (fst e) ?P) < length ?P"
        unfolding bt_remove_def by (rule length_filter_less [OF o(2)]) simp
      then show ?thesis using False o(1) p by (cases e) (auto simp: evict_def share_limits)
    qed
    then show ?thesis
      using Attempt bt_length_insert [OF evict_ok [OF prune_ok [OF assms(1)]]]
      by (auto simp: limiter_step_def begin_attempt_def Let_def case_prod_beta)
  next
    case (Failure k u)
    then show ?thesis
      using assms(2) bt_length_insert [OF assms(1)]
      by (auto simp: limiter_step_def record_failure_def bt_contains_def split: option.splits)
  next
    case (Success k)
    then show ?thesis using assms(2) sub [of k limiter] by (auto simp: limiter_step_def clear_attempts_def intro: le_trans)
  qed
qed

text \<open>A blocked link is open again when its cooldown has passed.\<close>

lemma cooldown_ends:
  "as_blocked_until st \<noteq> 0 \<Longrightarrow> as_blocked_until st \<le> now \<Longrightarrow> fst (admit now st) = Ok ()"
  by (simp add: admit_def expire_attempts_def share_limits)

lemma checks_sorted:
  "well_timed late clock evs \<Longrightarrow> sorted (checks walk t limiter evs) \<and> (\<forall>c\<in>set (checks walk t limiter evs). clock \<le> c)"
proof (induction evs arbitrary: clock limiter)
  case (Cons ev evs)
  show ?case
  proof (cases ev)
    case (Attempt k now)
    then show ?thesis using Cons.IH [of now "limiter_step walk ev limiter"] Cons.prems by force
  next
    case (Failure k now)
    then show ?thesis using Cons.IH [of clock "limiter_step walk ev limiter"] Cons.prems by simp
  next
    case (Success k)
    then show ?thesis using Cons.IH [of clock "limiter_step walk ev limiter"] Cons.prems by simp
  qed
qed simp

text \<open>In a list in order whose elements five apart are \<open>w\<close> apart, no stretch shorter than \<open>w\<close> holds six.\<close>

lemma filter_sorted_stretch:
  "sorted xs \<Longrightarrow> filter (\<lambda>x. a \<le> x \<and> x < b) xs = takeWhile (\<lambda>x. x < b) (dropWhile (\<lambda>x. x < a) xs)" for a b :: int
proof (induction xs)
  case (Cons x xs)
  have "filter (\<lambda>x. a \<le> x \<and> x < b) xs = takeWhile (\<lambda>x. x < b) xs" if "a \<le> x"
    using Cons that by (cases xs) auto
  moreover have "takeWhile (\<lambda>x. x < b) xs = []" if "\<not> x < b" using Cons.prems that by (cases xs) auto
  ultimately show ?case using Cons by auto
qed simp

lemma spaced_stretch:
  fixes w :: int
  assumes "sorted xs" and "\<forall>i. i + n < length xs \<longrightarrow> xs ! i + w \<le> xs ! (i + n)"
  shows "length (filter (\<lambda>x. a \<le> x \<and> x < a + w) xs) \<le> n"
proof (rule ccontr)
  let ?ys = "dropWhile (\<lambda>x. x < a) xs" and ?m = "length (takeWhile (\<lambda>x. x < a) xs)"
  let ?zs = "takeWhile (\<lambda>x. x < a + w) ?ys"
  assume "\<not> ?thesis"
  then have l: "n < length ?zs" unfolding filter_sorted_stretch [OF assms(1)] by simp
  have ys: "?ys = drop ?m xs" by (rule dropWhile_eq_drop)
  have "length ?zs \<le> length ?ys" by (rule length_takeWhile_le)
  then have lx: "?m + n < length xs" using l ys by simp
  have "?zs ! n < a + w" using set_takeWhileD [OF nth_mem [OF l]] by blast
  then have "xs ! (?m + n) < a + w" using l lx ys by (simp add: takeWhile_nth)
  moreover have "a \<le> xs ! ?m" using nth_length_takeWhile [of "\<lambda>x. x < a" xs] lx by simp
  ultimately show False using assms(2) lx by fastforce
qed

text \<open>C40: however attempts at the links and the failures of their checks interleave, while the clock does not go
  back, no more than 1024 links are in use, a failing check takes at most \<open>late\<close> (up to thirty) seconds and
  the link's password is not entered: among any six passwords that are checked for one link the last check
  starts at least thirty seconds less \<open>late\<close> after the first, so in any stretch of that length at most
  five start.\<close>

theorem share_attempts_bounded:
  assumes "well_timed late 0 evs" and "0 \<le> late" "late \<le> 30" and "card (event_key ` set evs) \<le> MAX_TRACKED_SHARE_TOKENS"
    and "Success t \<notin> set evs"
  shows "(\<forall>i. i + SHARE_PASSWORD_ATTEMPT_LIMIT < length (checks walk t [] evs) \<longrightarrow>
      checks walk t [] evs ! i + (SHARE_PASSWORD_COOLDOWN_SECONDS - late) \<le>
        checks walk t [] evs ! (i + SHARE_PASSWORD_ATTEMPT_LIMIT)) \<and>
    (\<forall>start. length (filter (\<lambda>c. start \<le> c \<and> c < start + (SHARE_PASSWORD_COOLDOWN_SECONDS - late)) (checks walk t [] evs)) \<le>
      SHARE_PASSWORD_ATTEMPT_LIMIT)"
proof -
  obtain clock where T: "tried_ok late clock ([] @ checks walk t [] evs)"
    using limiter_run [OF limiter_start assms(1) order_refl _ _ assms(2) _ assms(5), of walk] assms(3,4)
    by (auto simp: share_limits)
  have "sorted (checks walk t [] evs)" using checks_sorted [OF assms(1)] by blast
  from spaced_stretch [OF this, of 5 "30 - late"] T show ?thesis by (simp add: tried_ok_def share_limits)
qed

text \<open>Two links; the sixth check of the first waits for the cooldown after the fifth.\<close>

theorem share_attempts_bounded_witness:
  "let evs = [Attempt (0::nat) 10, Failure 0 10, Attempt 0 11, Attempt 1 11, Failure 0 11, Attempt 0 12, Failure 0 12,
        Attempt 0 13, Failure 0 13, Attempt 0 14, Failure 0 14, Attempt 0 15, Attempt 0 44, Failure 0 44] in
     checks (\<lambda>m. m) 0 [] evs = [10, 11, 12, 13, 14, 44] \<and>
     checks (\<lambda>m. m) 0 [] evs ! 0 + (30 - 1) \<le> checks (\<lambda>m. m) 0 [] evs ! 5 \<and>
     length (filter (\<lambda>c. 11 \<le> c \<and> c < 11 + (30 - 1)) (checks (\<lambda>m. m) 0 [] evs)) \<le> 5"
proof -
  let ?evs = "[Attempt (0::nat) 10, Failure 0 10, Attempt 0 11, Attempt 1 11, Failure 0 11, Attempt 0 12, Failure 0 12,
        Attempt 0 13, Failure 0 13, Attempt 0 14, Failure 0 14, Attempt 0 15, Attempt 0 44, Failure 0 44]"
  have c: "checks (\<lambda>m. m) 0 [] ?evs = [10, 11, 12, 13, 14, 44]" by code_simp
  have k: "event_key ` set ?evs = {0, 1}" by auto
  have "(\<forall>i. i + SHARE_PASSWORD_ATTEMPT_LIMIT < length (checks (\<lambda>m. m) 0 [] ?evs) \<longrightarrow>
      checks (\<lambda>m. m) 0 [] ?evs ! i + (SHARE_PASSWORD_COOLDOWN_SECONDS - 1) \<le>
        checks (\<lambda>m. m) 0 [] ?evs ! (i + SHARE_PASSWORD_ATTEMPT_LIMIT)) \<and>
    (\<forall>start. length (filter (\<lambda>c. start \<le> c \<and> c < start + (SHARE_PASSWORD_COOLDOWN_SECONDS - 1)) (checks (\<lambda>m. m) 0 [] ?evs)) \<le>
      SHARE_PASSWORD_ATTEMPT_LIMIT)"
    by (rule share_attempts_bounded) (unfold c k, simp_all add: share_limits)
  from this [THEN conjunct1, rule_format, of 0] this [THEN conjunct2, rule_format, of 11] show ?thesis
    unfolding Let_def c by (simp add: share_limits)
qed

end
