(* ===== verification/Protected_Envelope.thy ===== *)
theory Protected_Envelope
  imports Media_Envelope Encrypt_Run
begin

text \<open>
  The envelope of a protected upload (\<open>commands/fs.rs\<close>): the protection mode, the credentials it needs,
  the key slots a new envelope gets, and the decision whether the envelope an interrupted upload began is
  the one this upload would create. Random values are the record \<open>envelope_entropy\<close>.
\<close>

section \<open>Protection modes\<close>

datatype upload_protection_mode = Standard | VaultMode | PassphraseMode | VaultAndPassphrase

definition parse_protection_mode :: "str option \<Rightarrow> str + upload_protection_mode" where
  "parse_protection_mode value =
     (let v = (case value of None \<Rightarrow> us ''standard'' | Some v \<Rightarrow> v) in
      if v = us ''standard'' then Ok Standard
      else if v = us ''vault'' then Ok VaultMode
      else if v = us ''passphrase'' \<or> v = us ''file_key'' then Ok PassphraseMode
      else if v = us ''vault_and_passphrase'' then Ok VaultAndPassphrase
      else Err (us ''[POLICY_REJECTED] Unknown upload protection mode''))"

definition needs_vault :: "upload_protection_mode \<Rightarrow> bool" where
  "needs_vault mode \<longleftrightarrow> mode \<in> {VaultMode, VaultAndPassphrase}"

definition needs_passphrase :: "upload_protection_mode \<Rightarrow> bool" where
  "needs_passphrase mode \<longleftrightarrow> mode \<in> {PassphraseMode, VaultAndPassphrase}"

definition registry_name :: "upload_protection_mode \<Rightarrow> str" where
  "registry_name mode =
     (case mode of Standard \<Rightarrow> us ''standard'' | VaultMode \<Rightarrow> us ''vault'' | PassphraseMode \<Rightarrow> us ''passphrase''
      | VaultAndPassphrase \<Rightarrow> us ''vault_and_passphrase'')"

definition has_slot :: "slot_kind \<Rightarrow> envelope_header \<Rightarrow> bool" where
  "has_slot kind header \<longleftrightarrow> list_ex (\<lambda>slot. ks_kind slot = slot_kind_u8 kind) (eh_key_slots header)"

definition protection_mode_from_header :: "envelope_header \<Rightarrow> str + str" where
  "protection_mode_from_header header =
     (case (has_slot Vault header, has_slot Passphrase header) of
        (True, True) \<Rightarrow> Ok (us ''vault_and_passphrase'')
      | (True, False) \<Rightarrow> Ok (us ''vault'')
      | (False, True) \<Rightarrow> Ok (us ''passphrase'')
      | (False, False) \<Rightarrow> Err (us ''Encrypted file has no supported unlock slot''))"

text \<open>The credentials an upload takes before it starts: the vault's session and key, and the passphrase,
  whose token is consumed.\<close>

definition upload_credentials ::
  "upload_protection_mode \<Rightarrow> u64 option \<Rightarrow> nat \<Rightarrow> crypto_state \<Rightarrow>
     (str + (u64 \<times> bytes) option \<times> bytes option) \<times> crypto_state" where
  "upload_credentials mode prompt_token now cs =
     (case (if needs_vault mode
            then (case current_credential cs of
                    Inl _ \<Rightarrow> Err (us ''[VAULT_LOCKED] Unlock the vault before starting this upload'')
                  | Inr c \<Rightarrow> Ok (Some c))
            else Ok None) of
        Inl e \<Rightarrow> (Err e, cs)
      | Inr vault_credential \<Rightarrow>
          if needs_passphrase mode
          then (case prompt_token of
                  None \<Rightarrow> (Err (us ''[KEY_REQUIRED] Enter a file passphrase before starting this upload''), cs)
                | Some token \<Rightarrow>
                    (case consume_prompt_secret now token cs of
                       (Inl (Crypto_Error _ message), cs') \<Rightarrow> (Err (us message), cs')
                     | (Inr secret, cs') \<Rightarrow> (Ok (vault_credential, Some secret), cs')))
          else (Ok (vault_credential, None), cs))"

section \<open>The envelope of an interrupted upload\<close>

definition unwrap_slot_dek ::
  "prims \<Rightarrow> envelope_header \<Rightarrow> key_slot_entry \<Rightarrow> bytes option \<Rightarrow> bytes option \<Rightarrow> bytes option" where
  "unwrap_slot_dek P header slot vault_key prompt_passphrase =
     slot_data_key P vault_key prompt_passphrase (eh_core header) slot"

text \<open>Every slot has to open, and to the same key.\<close>

primrec shared_dek ::
  "prims \<Rightarrow> envelope_header \<Rightarrow> bytes option \<Rightarrow> bytes option \<Rightarrow> key_slot_entry list \<Rightarrow> bytes option \<Rightarrow> bytes option" where
  "shared_dek P header vault_key prompt_passphrase [] dek = dek"
| "shared_dek P header vault_key prompt_passphrase (slot # slots) dek =
     Option.bind (unwrap_slot_dek P header slot vault_key prompt_passphrase) (\<lambda>unwrapped.
       if (case dek of None \<Rightarrow> False | Some d \<Rightarrow> d \<noteq> unwrapped) then None
       else shared_dek P header vault_key prompt_passphrase slots (Some unwrapped))"

definition result_ok :: "'e + 'a \<Rightarrow> 'a option" where
  "result_ok r = (case r of Inl _ \<Rightarrow> None | Inr v \<Rightarrow> Some v)"

lemma result_ok_iff [simp]: "result_ok r = Some v \<longleftrightarrow> r = Ok v"
  by (auto simp: result_ok_def split: sum.splits)

definition resumed_envelope_session ::
  "prims \<Rightarrow> bytes \<Rightarrow> u64 \<Rightarrow> upload_protection_mode \<Rightarrow> bytes option \<Rightarrow> bytes option \<Rightarrow> bytes \<Rightarrow>
     encryption_session option" where
  "resumed_envelope_session P header_bytes plaintext_size mode vault_key prompt_passphrase metadata_plaintext =
     Option.bind (result_ok (EnvelopeHeader_parse header_bytes)) (\<lambda>header.
     if ch_total_plaintext_length (eh_core header) \<noteq> plaintext_size \<or>
        ch_chunk_size (eh_core header) \<noteq> DEFAULT_CHUNK_SIZE
     then None
     else Option.bind (result_ok (protection_mode_from_header header)) (\<lambda>name.
     if name \<noteq> registry_name mode then None
     else Option.bind (shared_dek P header vault_key prompt_passphrase (eh_key_slots header) None) (\<lambda>dek.
     Option.bind (result_ok (verify_and_decrypt_metadata P header dek)) (\<lambda>metadata.
     if metadata \<noteq> metadata_plaintext then None else result_ok (from_header P header_bytes dek)))))"

section \<open>A new envelope\<close>

record envelope_entropy =
  ee_dek :: bytes
  ee_file_uuid :: bytes
  ee_nonce_prefix :: bytes
  ee_vault_salt :: bytes
  ee_vault_nonce :: bytes
  ee_passphrase_salt :: bytes
  ee_passphrase_nonce :: bytes

datatype envelope_error = WrappingKeyFailed crypto_error | PassphraseKeyFailed crypto_error | WrapFailed crypto_error
  | SessionFailed crypto_error | ModeRejected str

definition map_err :: "('e \<Rightarrow> 'f) \<Rightarrow> 'e + 'a \<Rightarrow> 'f + 'a" where
  "map_err f r = (case r of Inl e \<Rightarrow> Err (f e) | Inr v \<Rightarrow> Ok v)"

lemma map_err_iff [simp]: "map_err f r = Ok v \<longleftrightarrow> r = Ok v" "map_err f (Ok v) = Ok v" "map_err f (Err e) = Err (f e)"
  by (auto simp: map_err_def split: sum.splits)

definition vault_encryption_slot ::
  "prims \<Rightarrow> envelope_entropy \<Rightarrow> bytes \<Rightarrow> bytes \<Rightarrow> bytes \<Rightarrow> envelope_error + key_slot_entry" where
  "vault_encryption_slot P R unlock_key file_uuid dek =
     (let ctx = \<lparr>ctx_file_uuid = file_uuid, ctx_format_version = FORMAT_VERSION\<rparr>;
          salt = ee_vault_salt R; slot_kind = slot_kind_u8 Vault; slot_id = 0 in
      rbind (map_err WrappingKeyFailed (derive_file_wrapping_key P unlock_key file_uuid salt slot_kind slot_id))
        (\<lambda>file_wrapping_key.
      rbind (map_err WrapFailed (wrap_dek P (ee_vault_nonce R) ctx dek file_wrapping_key slot_kind slot_id
               (kdf_algorithm_u16 HkdfSha256) 0 0 0 salt)) (\<lambda>(wrapped_dek, wrap_nonce).
      Ok \<lparr>ks_kind = slot_kind, ks_slot_id = slot_id, ks_kdf_algorithm = kdf_algorithm_u16 HkdfSha256,
          ks_argon2_memory_kib = 0, ks_argon2_iterations = 0, ks_argon2_parallelism = 0, ks_salt = salt,
          ks_wrap_nonce = wrap_nonce, ks_wrapped_dek = wrapped_dek\<rparr>)))"

definition passphrase_slot ::
  "prims \<Rightarrow> envelope_entropy \<Rightarrow> bytes \<Rightarrow> u8 \<Rightarrow> envelope_error + key_slot_entry" where
  "passphrase_slot P R passphrase slot_id =
     (let ctx = \<lparr>ctx_file_uuid = ee_file_uuid R, ctx_format_version = FORMAT_VERSION\<rparr>;
          salt = ee_passphrase_salt R; slot_kind = slot_kind_u8 Passphrase;
          memory_kib = ARGON2_MEMORY_FLOOR_KIB; iterations = ARGON2_ITERATIONS_FLOOR;
          parallelism = ARGON2_PARALLELISM_FLOOR in
      rbind (map_err PassphraseKeyFailed (derive_passphrase_key P passphrase salt memory_kib iterations parallelism))
        (\<lambda>file_wrapping_key.
      rbind (map_err WrapFailed (wrap_dek P (ee_passphrase_nonce R) ctx (ee_dek R) file_wrapping_key slot_kind slot_id
               (kdf_algorithm_u16 Argon2id) memory_kib iterations parallelism salt)) (\<lambda>(wrapped_dek, wrap_nonce).
      Ok \<lparr>ks_kind = slot_kind, ks_slot_id = slot_id, ks_kdf_algorithm = kdf_algorithm_u16 Argon2id,
          ks_argon2_memory_kib = memory_kib, ks_argon2_iterations = iterations, ks_argon2_parallelism = parallelism,
          ks_salt = salt, ks_wrap_nonce = wrap_nonce, ks_wrapped_dek = wrapped_dek\<rparr>)))"

definition new_envelope_session ::
  "prims \<Rightarrow> envelope_entropy \<Rightarrow> u64 \<Rightarrow> bytes option \<Rightarrow> bytes option \<Rightarrow> bytes \<Rightarrow> envelope_error + encryption_session" where
  "new_envelope_session P R plaintext_size vault_key prompt_passphrase metadata_plaintext =
     rbind (case vault_key of
              None \<Rightarrow> Ok []
            | Some k \<Rightarrow> rbind (vault_encryption_slot P R k (ee_file_uuid R) (ee_dek R)) (\<lambda>slot. Ok [slot])) (\<lambda>key_slots.
     rbind (case prompt_passphrase of
              None \<Rightarrow> Ok key_slots
            | Some passphrase \<Rightarrow>
                rbind (passphrase_slot P R passphrase (if key_slots = [] then 0 else 1)) (\<lambda>slot. Ok (key_slots @ [slot])))
       (\<lambda>key_slots.
     map_err SessionFailed (new_with_keys P plaintext_size key_slots metadata_plaintext (ee_dek R) (ee_file_uuid R)
       (ee_nonce_prefix R))))"

definition prepare_protected_envelope ::
  "prims \<Rightarrow> envelope_entropy \<Rightarrow> u64 \<Rightarrow> str \<Rightarrow> bytes option \<Rightarrow> bytes option \<Rightarrow> bytes \<Rightarrow> bytes option \<Rightarrow>
     envelope_error + encryption_session \<times> bool" where
  "prepare_protected_envelope P R plaintext_size mode_name vault_key prompt_passphrase metadata_plaintext recorded_header =
     rbind (map_err ModeRejected (parse_protection_mode (Some mode_name))) (\<lambda>mode.
     let continued_session = Option.bind recorded_header (\<lambda>header.
           resumed_envelope_session P header plaintext_size mode vault_key prompt_passphrase metadata_plaintext);
         continued = (continued_session \<noteq> None) in
     rbind (case continued_session of
              Some session \<Rightarrow> Ok session
            | None \<Rightarrow> new_envelope_session P R plaintext_size vault_key prompt_passphrase metadata_plaintext)
       (\<lambda>session. Ok (session, continued)))"

text \<open>\<open>base64\<close> is the URL-safe alphabet without padding.\<close>

record 'r protected_upload_stream =
  ps_reader :: "'r encrypting_reader"
  ps_header :: bytes
  ps_file_uuid :: bytes
  ps_remote_name :: str
  ps_ciphertext_size :: u64
  ps_continued :: bool

definition attach_protected_envelope ::
  "(bytes \<Rightarrow> str) \<Rightarrow> 'r \<Rightarrow> encryption_session \<Rightarrow> bool \<Rightarrow> 'r protected_upload_stream" where
  "attach_protected_envelope base64 plaintext session continued =
     \<lparr>ps_reader = EncryptingReader_new plaintext session, ps_header = es_header_bytes session,
      ps_file_uuid = es_file_uuid session,
      ps_remote_name = us ''tdrive_'' @ take 32 (base64 (es_file_uuid session)) @ us ''.tdenc'',
      ps_ciphertext_size = es_total_ciphertext_length session, ps_continued = continued\<rparr>"

section \<open>What the registry keeps\<close>

datatype registry_error = HeaderText crypto_error | LengthText crypto_error | SizeDiffers | NoUnlockSlot str

datatype encrypted_file_state = RegistryActive | RegistryVerifying | RegistryMigrating | RegistryCorrupt | RegistryOrphaned

record encrypted_file_record =
  ef_folder_key :: str
  ef_message_id :: int
  ef_file_uuid :: bytes
  ef_envelope_version :: u16
  ef_cipher_suite :: u16
  ef_ciphertext_size :: u64
  ef_plaintext_size :: "u64 option"
  ef_remote_name :: str
  ef_key_profile_id :: "str option"
  ef_protection_mode :: str
  ef_metadata_protected :: bool
  ef_header_blob :: "bytes option"
  ef_header_sha256 :: "bytes option"
  ef_record_state :: encrypted_file_state
  ef_reconciliation_state :: str
  ef_created_at :: int
  ef_last_verified_at :: "int option"

definition registry_record_from_header ::
  "prims \<Rightarrow> int \<Rightarrow> int option \<Rightarrow> int \<Rightarrow> str \<Rightarrow> u64 \<Rightarrow> bytes \<Rightarrow> str \<Rightarrow> registry_error + encrypted_file_record" where
  "registry_record_from_header P now folder_id message_id remote_name ciphertext_size header_bytes reconciliation_state =
     rbind (map_err HeaderText (EnvelopeHeader_parse header_bytes)) (\<lambda>header.
     rbind (map_err LengthText (calculate_ciphertext_length (ch_total_plaintext_length (eh_core header))
              (ch_chunk_size (eh_core header)) (ch_header_length (eh_core header)))) (\<lambda>expected_size.
     if expected_size \<noteq> ciphertext_size then Err SizeDiffers
     else rbind (map_err NoUnlockSlot (protection_mode_from_header header)) (\<lambda>mode.
     Ok \<lparr>ef_folder_key = (case folder_id of None \<Rightarrow> us ''home'' | Some i \<Rightarrow> us (show_int i)),
         ef_message_id = message_id, ef_file_uuid = ch_file_uuid (eh_core header),
         ef_envelope_version = ch_format_version (eh_core header), ef_cipher_suite = ch_cipher_suite (eh_core header),
         ef_ciphertext_size = ciphertext_size, ef_plaintext_size = Some (ch_total_plaintext_length (eh_core header)),
         ef_remote_name = remote_name, ef_key_profile_id = Some mode, ef_protection_mode = mode,
         ef_metadata_protected = (0 < ch_encrypted_metadata_length (eh_core header)),
         ef_header_blob = Some header_bytes, ef_header_sha256 = Some (sha256 P header_bytes), ef_record_state = RegistryActive,
         ef_reconciliation_state = reconciliation_state, ef_created_at = now, ef_last_verified_at = None\<rparr>)))"

end
