(* ===== verification/Protected_Download.thy ===== *)
theory Protected_Download
  imports Protected_Envelope Download_Destination
begin

text \<open>
  Downloading a protected file (\<open>cmd_download_encrypted_file\<close> in \<open>commands/fs.rs\<close>): chunks arrive from an
  iterator over the Telegram media, which is created anew behind the chunks already taken when a
  connection drops; the header is collected and opened, every record is verified before its plaintext is
  written to a partial file, and only a complete, verified file is published. What the outside answers is
  the record \<open>protected_download_env\<close>; answers that can change while the loop runs are functions of the number of
  its turn. An iterator is the list of items it yields, given how many chunks it skips. Progress events,
  logs and the Android copy are left out.
\<close>

section \<open>Inputs\<close>

datatype download_error =
    BeforeDownload str
  | HoldRefused string
  | PromptRefused crypto_error
  | NoParentDirectory
  | DirectoryNotCreated str
  | TransferCancelled
  | ChunkFailed str
  | PacingRefused str
  | SizeExceeded
  | PreambleUnreadable crypto_error
  | EnvelopeUnreadable crypto_error
  | LengthInvalid crypto_error
  | LengthMismatch u64 u64
  | RecordRefused registry_error
  | RegistryUnavailable str
  | EnvelopeNotOpened open_error
  | AccountInvalid str
  | CredentialChanged
  | MetadataInvalid
  | MetadataFields
  | PartialNotCreated str
  | HeaderNotInitialized
  | RecordRejected crypto_error
  | PartialUnavailable
  | WriteFailed str
  | EndedBeforeSize
  | HeaderIncomplete
  | FinalInvalid crypto_error
  | PlaintextLength
  | FlushFailed str
  | SyncFailed str
  | PublicationFailed str
  | ResponseFailed str

record protected_metadata =
  pm_schema_version :: u16
  pm_original_name :: str
  pm_mime_type :: str

record protected_download_env =
  dv_before :: "str + unit" \<comment> \<open>account, client, peer, message and media\<close>
  dv_folder :: "int option"
  dv_message :: int
  dv_remote_name :: str
  dv_size :: u64 \<comment> \<open>what Telegram reports\<close>
  dv_destination :: place
  dv_policy :: collision_policy
  dv_random :: str \<comment> \<open>the random part of the partial file's name\<close>
  dv_prompt :: "u64 option"
  dv_calendar :: calendar
  dv_format_bytes :: "u64 \<Rightarrow> string"
  dv_ledger :: ledger_env
  dv_ledger_end :: ledger_env
  dv_now :: nat
  dv_directory :: "str + unit"
  dv_retries :: "nat \<Rightarrow> nat"
  dv_cancelled :: "nat \<Rightarrow> bool"
  dv_waits :: "nat \<Rightarrow> str + unit"
  dv_time :: int
  dv_registry :: "str + unit"
  dv_account_opened :: "str + unit"
  dv_state_opened :: crypto_state
  dv_cancelled_opened :: bool
  dv_registry_again :: "str + unit"
  dv_metadata :: "bytes \<Rightarrow> protected_metadata option"
  dv_create :: "str + unit"
  dv_write :: "nat \<Rightarrow> str + unit"
  dv_flush :: "str + unit"
  dv_sync :: "str + unit"
  dv_account_end :: "str + unit"
  dv_lower :: "str \<Rightarrow> str"
  dv_publish :: "bytes publish_env"
  dv_now_end :: nat
  dv_state_end :: crypto_state
  dv_respond :: "download_publication \<Rightarrow> str + str"

text \<open>The credentials the download took when it began.\<close>

record download_keys =
  dk_session :: "u64 option"
  dk_vault :: "bytes option"
  dk_passphrase :: "bytes option"

section \<open>The loop\<close>

record download_run =
  dl_turn :: nat
  dl_received :: nat
  dl_budget :: nat
  dl_ciphertext :: u64
  dl_header :: bytes
  dl_expected :: "nat option"
  dl_decryptor :: "decrypt_reader option"
  dl_partial :: "bytes option"
  dl_written :: u64
  dl_registry :: "encrypted_file_record list"

definition PROBED :: str where "PROBED = us ''probed_unverified''"
definition AUTHENTICATED :: str where "AUTHENTICATED = us ''header_authenticated''"

definition check_metadata :: "protected_download_env \<Rightarrow> bytes \<Rightarrow> download_error + unit" where
  "check_metadata E metadata =
     (if metadata = [] then Ok ()
      else case dv_metadata E metadata of
        None \<Rightarrow> Err MetadataInvalid
      | Some m \<Rightarrow>
          if pm_schema_version m \<noteq> 1 \<or> pm_original_name m = [] \<or> pm_mime_type m = [] then Err MetadataFields
          else Ok ())"

definition session_lives :: "protected_download_env \<Rightarrow> download_keys \<Rightarrow> download_error + unit" where
  "session_lives E K =
     (case dk_session K of
        None \<Rightarrow> Err CredentialChanged
      | Some session \<Rightarrow> map_err (\<lambda>_. CredentialChanged) (with_current_session session (\<lambda>_. ()) (dv_state_opened E)))"

definition open_envelope ::
  "prims \<Rightarrow> protected_download_env \<Rightarrow> download_keys \<Rightarrow> download_run \<Rightarrow> (download_error + unit) \<times> download_run" where
  "open_envelope P E K st =
     (case rbind (map_err EnvelopeUnreadable (EnvelopeHeader_parse (dl_header st))) (\<lambda>parsed.
           rbind (map_err LengthInvalid (calculate_ciphertext_length (ch_total_plaintext_length (eh_core parsed))
                    (ch_chunk_size (eh_core parsed)) (ch_header_length (eh_core parsed)))) (\<lambda>expected_total.
           if expected_total \<noteq> dv_size E then Err (LengthMismatch expected_total (dv_size E))
           else map_err RecordRefused (registry_record_from_header P (dv_time E) (dv_folder E) (dv_message E)
                  (dv_remote_name E) (dv_size E) (dl_header st) PROBED))) of
        Inl e \<Rightarrow> (Err e, st)
      | Inr probed_record \<Rightarrow>
          (case dv_registry E of
             Inl e \<Rightarrow> (Err (RegistryUnavailable e), st)
           | Inr _ \<Rightarrow>
               let st = st\<lparr>dl_registry := dl_registry st @ [probed_record]\<rparr> in
               (case rbind (map_err EnvelopeNotOpened (initialize_tdenc2_decryptor_with_kind P (dl_header st)
                              (dk_vault K) (dk_passphrase K))) (\<lambda>(reader, uses_vault).
                     rbind (map_err AccountInvalid (dv_account_opened E)) (\<lambda>_.
                     rbind (if uses_vault then session_lives E K else Ok ()) (\<lambda>_.
                     if dv_cancelled_opened E then Err TransferCancelled else Ok reader))) of
                  Inl e \<Rightarrow> (Err e, st)
                | Inr reader \<Rightarrow>
                    let st = (case dv_registry_again E of
                          Inl _ \<Rightarrow> st
                        | Inr _ \<Rightarrow> st\<lparr>dl_registry := dl_registry st @
                              [probed_record\<lparr>ef_reconciliation_state := AUTHENTICATED\<rparr>]\<rparr>) in
                    (case rbind (check_metadata E (dr_metadata_plaintext reader)) (\<lambda>_.
                          map_err PartialNotCreated (dv_create E)) of
                       Inl e \<Rightarrow> (Err e, st)
                     | Inr _ \<Rightarrow> (Ok (), st\<lparr>dl_partial := Some [], dl_decryptor := Some reader\<rparr>)))))"

text \<open>One iteration of the loop that collects the header: the rest of the chunk, or an error.\<close>

definition header_step ::
  "prims \<Rightarrow> protected_download_env \<Rightarrow> download_keys \<Rightarrow> download_run \<Rightarrow> bytes \<Rightarrow> (download_error + bytes) \<times> download_run" where
  "header_step P E K st remaining =
     (let target = (case dl_expected st of None \<Rightarrow> CORE_HEADER_SIZE | Some n \<Rightarrow> n);
          needed = target - length (dl_header st);
          count = min needed (length remaining);
          st = st\<lparr>dl_header := dl_header st @ take count remaining\<rparr>;
          remaining = drop count remaining in
      case (if dl_expected st = None \<and> length (dl_header st) = CORE_HEADER_SIZE
            then (case CoreHeader_parse (dl_header st) of
                    Inl e \<Rightarrow> Err (PreambleUnreadable e)
                  | Inr core \<Rightarrow> Ok (st\<lparr>dl_expected := Some (unat (ch_header_length core))\<rparr>))
            else Ok st) of
        Inl e \<Rightarrow> (Err e, st)
      | Inr st \<Rightarrow>
          if dl_expected st = Some (length (dl_header st))
          then (case open_envelope P E K st of (Inl e, st) \<Rightarrow> (Err e, st) | (Inr _, st) \<Rightarrow> (Ok remaining, st))
          else (Ok remaining, st))"

lemma open_envelope_opens: "open_envelope P E K st = (Ok u, st') \<Longrightarrow> dl_decryptor st' \<noteq> None"
  by (auto simp: open_envelope_def Let_def split: sum.splits prod.splits)

lemma header_step_rest:
  assumes "header_step P E K st remaining = (Ok rest, st')" and "dl_decryptor st = None"
  shows "length rest < length remaining \<or> rest = remaining \<and>
    (dl_decryptor st' \<noteq> None \<or> dl_expected st = None \<and> dl_expected st' \<noteq> None \<or> st' = st)"
proof -
  let ?target = "case dl_expected st of None \<Rightarrow> CORE_HEADER_SIZE | Some n \<Rightarrow> n"
  define count where "count = min (?target - length (dl_header st)) (length remaining)"
  have r: "rest = drop count remaining"
    using assms(1) by (auto simp: header_step_def Let_def count_def split: sum.splits if_splits prod.splits)
  have c: "count \<le> length remaining" by (simp add: count_def)
  show ?thesis
  proof (cases "count = 0")
    case False
    then show ?thesis using r c by auto
  next
    case True
    then have e: "take (min (?target - length (dl_header st)) (length remaining)) remaining = []"
      by (simp add: count_def)
    show ?thesis
      using assms e r True open_envelope_opens
      by (auto simp: header_step_def Let_def split: sum.splits if_splits prod.splits)
  qed
qed

text \<open>The whole loop; \<open>None\<close> when an iteration changes nothing, so that the loop would never end.\<close>

function header_loop ::
  "prims \<Rightarrow> protected_download_env \<Rightarrow> download_keys \<Rightarrow> download_run \<Rightarrow> bytes \<Rightarrow> ((download_error + bytes) \<times> download_run) option" where
  "header_loop P E K st remaining =
     (if remaining = [] \<or> dl_decryptor st \<noteq> None then Some (Ok remaining, st)
      else case header_step P E K st remaining of
        (Inl e, st') \<Rightarrow> Some (Err e, st')
      | (Inr rest, st') \<Rightarrow>
          if rest = remaining \<and> st' = st then None else header_loop P E K st' rest)"
  by auto

termination
proof (relation "measures [\<lambda>(P, E, K, st, r). length r, \<lambda>(P, E, K, st, r). if dl_decryptor st = None then 1 else 0,
    \<lambda>(P, E, K, st, r). if dl_expected st = None then 1 else 0]", goal_cases)
  case 1
  show ?case by simp
next
  case 2
  note step = this
  show ?case using header_step_rest [OF step(2) [symmetric, unfolded step(3)]] step by auto
qed

declare header_loop.simps [simp del]

definition write_plaintext :: "protected_download_env \<Rightarrow> download_run \<Rightarrow> bytes \<Rightarrow> (download_error + unit) \<times> download_run" where
  "write_plaintext E st plaintext =
     (if plaintext = [] then (Ok (), st)
      else case dl_partial st of
        None \<Rightarrow> (Err PartialUnavailable, st)
      | Some written \<Rightarrow>
          (case dv_write E (dl_turn st) of
             Inl e \<Rightarrow> (Err (WriteFailed e), st)
           | Inr _ \<Rightarrow> (Ok (), st\<lparr>dl_partial := Some (written @ plaintext),
               dl_written := saturating_add_u64 (dl_written st) (of_nat (length plaintext))\<rparr>)))"

definition decrypt_rest ::
  "prims \<Rightarrow> protected_download_env \<Rightarrow> download_run \<Rightarrow> bytes \<Rightarrow> (download_error + unit) \<times> download_run" where
  "decrypt_rest P E st remaining =
     (if remaining = [] then (Ok (), st)
      else case dl_decryptor st of
        None \<Rightarrow> (Err HeaderNotInitialized, st)
      | Some reader \<Rightarrow>
          (case feed P reader remaining of
             (Inl e, reader) \<Rightarrow> (Err (RecordRejected e), st\<lparr>dl_decryptor := Some reader\<rparr>)
           | (Inr plaintext, reader) \<Rightarrow> write_plaintext E (st\<lparr>dl_decryptor := Some reader\<rparr>) plaintext))"

definition take_chunk ::
  "prims \<Rightarrow> protected_download_env \<Rightarrow> download_keys \<Rightarrow> download_run \<Rightarrow> bytes \<Rightarrow> ((download_error + unit) \<times> download_run) option" where
  "take_chunk P E K st bytes =
     (case dv_waits E (dl_turn st) of
        Inl e \<Rightarrow> Some (Err (PacingRefused e), st)
      | Inr _ \<Rightarrow>
          let st = st\<lparr>dl_ciphertext := saturating_add_u64 (dl_ciphertext st) (of_nat (length bytes))\<rparr> in
          if dv_size E < dl_ciphertext st then Some (Err SizeExceeded, st)
          else case header_loop P E K st bytes of
            None \<Rightarrow> None
          | Some (Inl e, st) \<Rightarrow> Some (Err e, st)
          | Some (Inr remaining, st) \<Rightarrow> Some (decrypt_rest P E st remaining))"

text \<open>\<open>iterators\<close> are the ones the download would create after the current one; when they run out, the
  download waits for the connection (\<open>None\<close>).\<close>

type_synonym media_iterator = "nat \<Rightarrow> (str + bytes) list"

function download_loop ::
  "prims \<Rightarrow> protected_download_env \<Rightarrow> download_keys \<Rightarrow> media_iterator list \<Rightarrow> (str + bytes) list \<Rightarrow> download_run \<Rightarrow>
     ((download_error + unit) \<times> download_run) option" where
  "download_loop P E K iterators [] st = Some (Ok (), st)"
| "download_loop P E K iterators (chunk # items) st =
     (if dv_cancelled E (dl_turn st) then Some (Err TransferCancelled, st)
      else case chunk of
        Inr bytes \<Rightarrow>
          (case take_chunk P E K (st\<lparr>dl_budget := dv_retries E (dl_turn st + 1), dl_received := dl_received st + 1\<rparr>) bytes of
             None \<Rightarrow> None
           | Some (Inl e, st) \<Rightarrow> Some (Err e, st)
           | Some (Inr _, st) \<Rightarrow> download_loop P E K iterators items (st\<lparr>dl_turn := dl_turn st + 1\<rparr>))
      | Inl error \<Rightarrow>
          if 0 < dl_budget st
          then (case iterators of
                  [] \<Rightarrow> None
                | iterator # iterators \<Rightarrow>
                    download_loop P E K iterators (iterator (dl_received st))
                      (st\<lparr>dl_budget := dl_budget st - 1, dl_turn := dl_turn st + 1\<rparr>))
          else Some (Err (ChunkFailed error), st))"
  by pat_completeness auto

termination
  by (relation "measures [\<lambda>(P, E, K, its, items, st). length its, \<lambda>(P, E, K, its, items, st). length items]") auto

section \<open>The command\<close>

definition verify_complete :: "protected_download_env \<Rightarrow> download_run \<Rightarrow> download_error + bytes" where
  "verify_complete E st =
     (if dl_ciphertext st \<noteq> dv_size E then Err EndedBeforeSize
      else case dl_decryptor st of
        None \<Rightarrow> Err HeaderIncomplete
      | Some reader \<Rightarrow>
          rbind (map_err FinalInvalid (finish reader)) (\<lambda>_.
          if dl_written st \<noteq> ch_total_plaintext_length (dr_core reader) then Err PlaintextLength
          else case dl_partial st of
            None \<Rightarrow> Err PartialUnavailable
          | Some content \<Rightarrow>
              rbind (map_err FlushFailed (dv_flush E)) (\<lambda>_.
              rbind (map_err SyncFailed (dv_sync E)) (\<lambda>_.
              rbind (map_err AccountInvalid (dv_account_end E)) (\<lambda>_. Ok content)))))"

definition partial_place :: "protected_download_env \<Rightarrow> place" where
  "partial_place E =
     butlast (dv_destination E) @ [Normal (us ''.'' @
       (case place_name (dv_destination E) of None \<Rightarrow> us ''download'' | Some n \<Rightarrow> n) @
       us ''.'' @ dv_random E @ us ''.tdpart'')]"

text \<open>The device while the file is published: other programs may do what they like, but the partial file
  is the one this download wrote.\<close>

definition publishing :: "protected_download_env \<Rightarrow> bytes \<Rightarrow> bytes publish_env" where
  "publishing E content =
     (dv_publish E)\<lparr>pe_disk := \<lambda>i. (pe_disk (dv_publish E) i)(partial_place E := Some content)\<rparr>"

text \<open>\<open>dd_moved\<close>: the attempt that moved the file and the device after it; \<open>dd_removed\<close>: whether the guard
  removes the partial file when the command ends.\<close>

record download_done =
  dd_result :: "download_error + str"
  dd_moved :: "(nat \<times> bytes files) option"
  dd_removed :: bool
  dd_registry :: "encrypted_file_record list"
  dd_ledger :: ledger
  dd_crypto :: "crypto_state option"

definition start_run :: "protected_download_env \<Rightarrow> download_run" where
  "start_run E =
     \<lparr>dl_turn = 0, dl_received = 0, dl_budget = dv_retries E 0, dl_ciphertext = 0, dl_header = [], dl_expected = None,
      dl_decryptor = None, dl_partial = None, dl_written = 0, dl_registry = []\<rparr>"

definition abandon :: "download_error \<Rightarrow> download_run option \<Rightarrow> reservation option \<Rightarrow> ledger \<Rightarrow> download_done" where
  "abandon e run hold L =
     \<lparr>dd_result = Err e, dd_moved = None,
      dd_removed = (case run of None \<Rightarrow> False | Some st \<Rightarrow> dl_partial st \<noteq> None),
      dd_registry = (case run of None \<Rightarrow> [] | Some st \<Rightarrow> dl_registry st),
      dd_ledger = (case hold of None \<Rightarrow> L | Some h \<Rightarrow> reservation_drop h L), dd_crypto = None\<rparr>"

definition publish_verified :: "protected_download_env \<Rightarrow> download_run \<Rightarrow> reservation \<Rightarrow> bytes \<Rightarrow> ledger \<Rightarrow> download_done" where
  "publish_verified E st hold content L =
     (case publish (dv_lower E) (publishing E content) (partial_place E) (dv_destination E) (dv_policy E) of
        (Inl e, moved) \<Rightarrow> abandon (PublicationFailed e) (Some st) (Some hold) L
      | (Inr publication, moved) \<Rightarrow>
          let (hold, L) = reservation_commit (dv_calendar E) (dv_ledger_end E) hold L in
          \<lparr>dd_result = map_err ResponseFailed (dv_respond E publication), dd_moved = moved,
           dd_removed = (dp_outcome publication \<noteq> Saved), dd_registry = dl_registry st,
           dd_ledger = reservation_drop hold L,
           dd_crypto = Some (snd (record_activity (dv_now_end E) (dv_state_end E)))\<rparr>)"

definition download_keys_of :: "protected_download_env \<Rightarrow> crypto_state \<Rightarrow> (download_error + download_keys) \<times> crypto_state" where
  "download_keys_of E cs =
     (let credential = result_ok (current_credential cs);
          K = \<lparr>dk_session = map_option fst credential, dk_vault = map_option snd credential, dk_passphrase = None\<rparr> in
      case dv_prompt E of
        None \<Rightarrow> (Ok K, cs)
      | Some token \<Rightarrow>
          (case consume_prompt_secret (dv_now E) token cs of
             (Inl e, cs) \<Rightarrow> (Err (PromptRefused e), cs)
           | (Inr secret, cs) \<Rightarrow> (Ok (K\<lparr>dk_passphrase := Some secret\<rparr>), cs)))"

definition download_encrypted_file ::
  "prims \<Rightarrow> protected_download_env \<Rightarrow> media_iterator \<Rightarrow> media_iterator list \<Rightarrow> ledger \<Rightarrow> crypto_state \<Rightarrow>
     (download_done \<times> crypto_state) option" where
  "download_encrypted_file P E iterator iterators L cs =
     (case dv_before E of
        Inl e \<Rightarrow> Some (abandon (BeforeDownload e) None None L, cs)
      | Inr _ \<Rightarrow>
          (case reserve (dv_calendar E) (dv_format_bytes E) (dv_ledger E) DownloadHold (dv_size E) L of
             (Inl e, L) \<Rightarrow> Some (abandon (HoldRefused e) None None L, cs)
           | (Inr i, L) \<Rightarrow>
               let hold = \<lparr>rv_id = i, rv_completed = False\<rparr> in
               (case download_keys_of E cs of
                  (Inl e, cs) \<Rightarrow> Some (abandon e None (Some hold) L, cs)
                | (Inr K, cs) \<Rightarrow>
                    if dv_destination E = [] \<or> dv_destination E = [RootDir]
                    then Some (abandon NoParentDirectory None (Some hold) L, cs)
                    else case dv_directory E of
                      Inl e \<Rightarrow> Some (abandon (DirectoryNotCreated e) None (Some hold) L, cs)
                    | Inr _ \<Rightarrow>
                        (case download_loop P E K iterators (iterator 0) (start_run E) of
                           None \<Rightarrow> None
                         | Some (Inl e, st) \<Rightarrow> Some (abandon e (Some st) (Some hold) L, cs)
                         | Some (Inr _, st) \<Rightarrow>
                             (case verify_complete E st of
                                Inl e \<Rightarrow> Some (abandon e (Some st) (Some hold) L, cs)
                              | Inr content \<Rightarrow> Some (publish_verified E st hold content L, cs))))))"

end
