(* ===== verification/Protected_Contract.thy ===== *)
theory Protected_Contract
  imports Protected_Envelope
begin

text \<open>
  What the envelope of a protected upload promises: new or continued, it opens with each credential the
  upload was made with, gives back the metadata and seals exactly the announced number of bytes.
\<close>

section \<open>Key slots\<close>

lemma slot_data_key_iff:
  assumes P: "prims_ok P" and dek: "length dek = 32" and k: "slot_wrapping_key P vk pp core slot = Some k" "length k = 32"
  shows "slot_data_key P vk pp core slot = Some dek \<longleftrightarrow>
    wrap_dek_with_nonce P \<lparr>ctx_file_uuid = ch_file_uuid core, ctx_format_version = ch_format_version core\<rparr> dek k
      (ks_kind slot) (ks_slot_id slot) (ks_kdf_algorithm slot) (ks_argon2_memory_kib slot) (ks_argon2_iterations slot)
      (ks_argon2_parallelism slot) (ks_salt slot) (ks_wrap_nonce slot) = Ok (ks_wrapped_dek slot)"
  unfolding unwrap_iff_wrap [OF P k(2) dek, symmetric] by (auto simp: slot_data_key_def k(1) split: sum.splits)

lemma slot_needs_credential:
  "slot_data_key P vk pp core slot = Some dek \<Longrightarrow>
     ks_kind slot = 1 \<and> vk \<noteq> None \<or> ks_kind slot = 2 \<and> pp \<noteq> None"
  by (cases vk; cases pp) (auto simp: slot_data_key_def slot_wrapping_key_def split: if_splits)

text \<open>The credentials at hand against those an envelope was made with: one of these is there, and none of
  them is there with another value; one the envelope was not made with does not matter.\<close>

definition credentials_for :: "bytes option \<Rightarrow> bytes option \<Rightarrow> bytes option \<Rightarrow> bytes option \<Rightarrow> bool" where
  "credentials_for vk pp vk' pp' \<longleftrightarrow> (vk = None \<or> vk' = None \<or> vk' = vk) \<and> (pp = None \<or> pp' = None \<or> pp' = pp) \<and>
     (vk \<noteq> None \<and> vk' = vk \<or> pp \<noteq> None \<and> pp' = pp)"

text \<open>A slot opens with the credential of its kind alone.\<close>

lemma slot_own_credential:
  assumes "slot_data_key P vk pp core slot = Some dek" and "vk = None \<or> vk' = None \<or> vk' = vk"
    and "pp = None \<or> pp' = None \<or> pp' = pp"
  shows "slot_data_key P vk' pp' core slot = (if ks_kind slot = 1 \<and> vk' = None \<or> ks_kind slot = 2 \<and> pp' = None
    then None else Some dek)"
proof -
  have k: "ks_kind slot = 1 \<and> (vk' = vk \<or> vk' = None) \<or> ks_kind slot = 2 \<and> (pp' = pp \<or> pp' = None)"
    using slot_needs_credential [OF assms(1)] assms(2,3) by blast
  have "slot_wrapping_key P vk' pp' core slot = (if ks_kind slot = 1 \<and> vk' = None \<or> ks_kind slot = 2 \<and> pp' = None
    then None else slot_wrapping_key P vk pp core slot)"
    using k assms(2,3) by (auto simp: slot_wrapping_key_def)
  then show ?thesis using assms(1) by (simp add: slot_data_key_def)
qed

definition entropy_ok :: "envelope_entropy \<Rightarrow> bool" where
  "entropy_ok R \<longleftrightarrow> length (ee_dek R) = 32 \<and> length (ee_file_uuid R) = 16 \<and> length (ee_nonce_prefix R) = 16 \<and>
     length (ee_vault_salt R) = 16 \<and> length (ee_vault_nonce R) = 24 \<and> length (ee_passphrase_salt R) = 16 \<and>
     length (ee_passphrase_nonce R) = 24"

text \<open>A slot made for a file: it has the sizes of the format and opens to the key it was made for.\<close>

definition slot_for :: "prims \<Rightarrow> bytes option \<Rightarrow> bytes option \<Rightarrow> bytes \<Rightarrow> bytes \<Rightarrow> key_slot_entry \<Rightarrow> bool" where
  "slot_for P vk pp uuid dek slot \<longleftrightarrow> slot_sized slot \<and>
     (\<forall>core. ch_file_uuid core = uuid \<and> ch_format_version core = FORMAT_VERSION \<longrightarrow>
        slot_data_key P vk pp core slot = Some dek)"

lemma wrap_dek_length:
  "wrap_dek P nonce ctx dek k kind sid kdf m i p salt = Ok (w, nonce') \<Longrightarrow>
     nonce' = nonce \<and> length w = 48 \<and> wrap_dek_with_nonce P ctx dek k kind sid kdf m i p salt nonce = Ok w"
  by (auto simp: wrap_dek_def wrap_dek_with_nonce_def Let_def split: if_splits option.splits)

lemma vault_slot_for:
  assumes P: "prims_ok P" and R: "entropy_ok R"
    and s: "vault_encryption_slot P R k (ee_file_uuid R) (ee_dek R) = Ok slot"
  shows "slot_for P (Some k) pp (ee_file_uuid R) (ee_dek R) slot \<and> ks_kind slot = 1"
proof -
  obtain wk w n where d: "derive_file_wrapping_key P k (ee_file_uuid R) (ee_vault_salt R) 1 0 = Ok wk"
    and w: "wrap_dek P (ee_vault_nonce R) \<lparr>ctx_file_uuid = ee_file_uuid R, ctx_format_version = FORMAT_VERSION\<rparr> (ee_dek R) wk
      1 0 2 0 0 0 (ee_vault_salt R) = Ok (w, n)"
    and sl: "slot = \<lparr>ks_kind = 1, ks_slot_id = 0, ks_kdf_algorithm = 2, ks_argon2_memory_kib = 0, ks_argon2_iterations = 0,
      ks_argon2_parallelism = 0, ks_salt = ee_vault_salt R, ks_wrap_nonce = n, ks_wrapped_dek = w\<rparr>"
    using s by (auto simp: vault_encryption_slot_def Let_def map_err_def split: sum.splits prod.splits)
  have k: "length wk = 32"
    using d prims_hkdf [OF P, of "Some (ee_vault_salt R)" k "file_wrap_info (ee_file_uuid R) 1 0"]
    by (auto simp: derive_file_wrapping_key_def split: sum.splits)
  note W = wrap_dek_length [OF w]
  have "slot_data_key P (Some k) pp core slot = Some (ee_dek R)"
    if "ch_file_uuid core = ee_file_uuid R" "ch_format_version core = FORMAT_VERSION" for core
    using that W d R
    by (subst slot_data_key_iff [OF P _ _ k]) (simp_all add: sl slot_wrapping_key_def entropy_ok_def)
  then show ?thesis using W R by (simp add: slot_for_def slot_sized_def sl entropy_ok_def)
qed

lemma passphrase_slot_for:
  assumes P: "prims_ok P" and R: "entropy_ok R" and l: "length pp < 2 ^ 32"
    and s: "passphrase_slot P R pp sid = Ok slot"
  shows "slot_for P vk (Some pp) (ee_file_uuid R) (ee_dek R) slot \<and> ks_kind slot = 2"
proof -
  obtain wk w n where d: "derive_passphrase_key P pp (ee_passphrase_salt R) ARGON2_MEMORY_FLOOR_KIB ARGON2_ITERATIONS_FLOOR
      ARGON2_PARALLELISM_FLOOR = Ok wk"
    and w: "wrap_dek P (ee_passphrase_nonce R) \<lparr>ctx_file_uuid = ee_file_uuid R, ctx_format_version = FORMAT_VERSION\<rparr> (ee_dek R) wk
      2 sid 1 ARGON2_MEMORY_FLOOR_KIB ARGON2_ITERATIONS_FLOOR ARGON2_PARALLELISM_FLOOR (ee_passphrase_salt R) = Ok (w, n)"
    and sl: "slot = \<lparr>ks_kind = 2, ks_slot_id = sid, ks_kdf_algorithm = 1, ks_argon2_memory_kib = ARGON2_MEMORY_FLOOR_KIB,
      ks_argon2_iterations = ARGON2_ITERATIONS_FLOOR, ks_argon2_parallelism = ARGON2_PARALLELISM_FLOOR,
      ks_salt = ee_passphrase_salt R, ks_wrap_nonce = n, ks_wrapped_dek = w\<rparr>"
    using s by (auto simp: passphrase_slot_def Let_def map_err_def split: sum.splits prod.splits)
  have k: "length wk = 32" using derive_passphrase_key_length [OF P _ l d] R by (simp add: entropy_ok_def)
  note W = wrap_dek_length [OF w]
  have "slot_data_key P vk (Some pp) core slot = Some (ee_dek R)"
    if "ch_file_uuid core = ee_file_uuid R" "ch_format_version core = FORMAT_VERSION" for core
    using that W d R
    by (subst slot_data_key_iff [OF P _ _ k]) (simp_all add: sl slot_wrapping_key_def entropy_ok_def)
  then show ?thesis using W R by (simp add: slot_for_def slot_sized_def sl entropy_ok_def)
qed

section \<open>The session of an upload\<close>

text \<open>A session for \<open>n\<close> bytes with the metadata \<open>meta\<close> whose header opens, slot by slot, with the credentials.\<close>

definition session_for ::
  "prims \<Rightarrow> encryption_session \<Rightarrow> envelope_header \<Rightarrow> bytes option \<Rightarrow> bytes option \<Rightarrow> u64 \<Rightarrow> bytes \<Rightarrow> bool" where
  "session_for P s h vk pp n meta \<longleftrightarrow>
     EnvelopeHeader_parse (es_header_bytes s) = Ok h \<and> ch_total_plaintext_length (eh_core h) = n \<and>
     verify_and_decrypt_metadata P h (es_dek s) = Ok meta \<and> from_header P (es_header_bytes s) (es_dek s) = Ok s \<and>
     (\<forall>slot\<in>set (eh_key_slots h). slot_data_key P vk pp (eh_core h) slot = Some (es_dek s)) \<and>
     (has_slot Vault h \<longleftrightarrow> vk \<noteq> None) \<and> (has_slot Passphrase h \<longleftrightarrow> pp \<noteq> None) \<and>
     length (es_header_bytes s) = unat (ch_header_length (eh_core h))"

lemma new_session_for:
  assumes P: "prims_ok P" and R: "entropy_ok R" and l: "\<forall>p. pp = Some p \<longrightarrow> length p < 2 ^ 32"
    and s: "new_envelope_session P R n vk pp meta = Ok s"
  shows "\<exists>h. session_for P s h vk pp n meta"
proof -
  obtain slots where sl: "\<forall>slot\<in>set slots. slot_for P vk pp (ee_file_uuid R) (ee_dek R) slot"
    and kinds: "(\<exists>slot\<in>set slots. ks_kind slot = 1) \<longleftrightarrow> vk \<noteq> None" "(\<exists>slot\<in>set slots. ks_kind slot = 2) \<longleftrightarrow> pp \<noteq> None"
    and n: "new_with_keys P n slots meta (ee_dek R) (ee_file_uuid R) (ee_nonce_prefix R) = Ok s"
  proof -
    obtain vslots where v: "(case vk of None \<Rightarrow> Ok [] | Some k \<Rightarrow>
        rbind (vault_encryption_slot P R k (ee_file_uuid R) (ee_dek R)) (\<lambda>slot. Ok [slot])) = Ok vslots"
      using s by (auto simp: new_envelope_session_def simp del: option.case_eq_if)
    obtain slots where q: "(case pp of None \<Rightarrow> Ok vslots | Some p \<Rightarrow>
        rbind (passphrase_slot P R p (if vslots = [] then 0 else 1)) (\<lambda>slot. Ok (vslots @ [slot]))) = Ok slots"
      and n: "new_with_keys P n slots meta (ee_dek R) (ee_file_uuid R) (ee_nonce_prefix R) = Ok s"
      using s unfolding new_envelope_session_def v by auto
    have vs: "(\<forall>slot\<in>set vslots. slot_for P vk pp (ee_file_uuid R) (ee_dek R) slot \<and> ks_kind slot = 1) \<and>
        (vslots = [] \<longleftrightarrow> vk = None)"
      using v vault_slot_for [OF P R] by (auto split: option.splits)
    have one: "(\<exists>slot\<in>set vslots. ks_kind slot = 1) \<longleftrightarrow> vk \<noteq> None" "\<not> (\<exists>slot\<in>set vslots. ks_kind slot = 2)"
      using vs by (cases vslots; force)+
    have all: "(\<forall>slot\<in>set slots. slot_for P vk pp (ee_file_uuid R) (ee_dek R) slot) \<and>
        ((\<exists>slot\<in>set slots. ks_kind slot = 1) \<longleftrightarrow> vk \<noteq> None) \<and> ((\<exists>slot\<in>set slots. ks_kind slot = 2) \<longleftrightarrow> pp \<noteq> None)"
    proof (cases pp)
      case None
      then have "slots = vslots" using q by simp
      then show ?thesis using vs one None by simp
    next
      case (Some p)
      then obtain slot where slot: "passphrase_slot P R p (if vslots = [] then 0 else 1) = Ok slot" "slots = vslots @ [slot]"
        using q by auto
      have "length p < 2 ^ 32" using l Some by blast
      then have "slot_for P vk pp (ee_file_uuid R) (ee_dek R) slot \<and> ks_kind slot = 2"
        using passphrase_slot_for [OF P R _ slot(1), of vk] Some by blast
      then show ?thesis using vs one slot(2) Some by simp
    qed
    show ?thesis
      by (rule that [OF all [THEN conjunct1] all [THEN conjunct2, THEN conjunct1] all [THEN conjunct2, THEN conjunct2] n])
  qed
  note E = R [unfolded entropy_ok_def]
  have sized: "\<forall>x\<in>set slots. slot_sized x" using sl by (simp add: slot_for_def)
  obtain hb where b: "EnvelopeHeader_build P (ee_file_uuid R) DEFAULT_CHUNK_SIZE slots meta n (ee_nonce_prefix R) (ee_dek R) = Ok hb"
    and hb: "es_header_bytes s = hb" "es_dek s = ee_dek R"
    using n by (auto simp: new_with_keys_def Let_def)
  obtain h where h: "EnvelopeHeader_parse hb = Ok h" "eh_key_slots h = slots" "ch_file_uuid (eh_core h) = ee_file_uuid R"
    "ch_total_plaintext_length (eh_core h) = n" "verify_and_decrypt_metadata P h (ee_dek R) = Ok meta"
    "unat (ch_header_length (eh_core h)) = length hb"
    using build_parses [OF P _ _ sized b, of "[]"] E by auto
  have v: "ch_format_version (eh_core h) = FORMAT_VERSION" using accepted_layout [OF h(1)] by (metis core_valid_def)
  have "from_header P hb (ee_dek R) = Ok s" using from_header_resumes [OF P _ _ sized n] E hb by simp
  then show ?thesis
    using h v sl kinds unfolding session_for_def hb
    by (auto simp: slot_for_def has_slot_def list_ex_iff)
qed

lemma shared_dek_all:
  assumes "shared_dek P h vk pp slots d = Some dek"
  shows "(\<forall>slot\<in>set slots. slot_data_key P vk pp (eh_core h) slot = Some dek) \<and> (d = None \<or> d = Some dek)"
  using assms
proof (induction slots arbitrary: d)
  case (Cons slot slots)
  obtain x where x: "slot_data_key P vk pp (eh_core h) slot = Some x" "d = None \<or> d = Some x"
    "shared_dek P h vk pp slots (Some x) = Some dek"
    using Cons.prems by (auto simp: unwrap_slot_dek_def bind_eq_Some_conv split: if_splits option.splits)
  then show ?case using Cons.IH [OF x(3)] by auto
qed simp

lemma mode_from_header:
  "protection_mode_from_header h = Ok (registry_name mode) \<Longrightarrow>
     (has_slot Vault h \<longleftrightarrow> needs_vault mode) \<and> (has_slot Passphrase h \<longleftrightarrow> needs_passphrase mode)"
  by (cases mode) (auto simp: protection_mode_from_header_def registry_name_def needs_vault_def needs_passphrase_def
      us_def split: bool.splits)

lemma resumed_session_for:
  assumes r: "resumed_envelope_session P hb n mode vk pp meta = Some s"
    and m: "needs_vault mode \<longleftrightarrow> vk \<noteq> None" "needs_passphrase mode \<longleftrightarrow> pp \<noteq> None"
    and l: "\<And>h. EnvelopeHeader_parse hb = Ok h \<Longrightarrow> length hb = unat (ch_header_length (eh_core h))"
  shows "es_header_bytes s = hb \<and> (\<exists>h. session_for P s h vk pp n meta)"
proof -
  obtain h dek where h: "EnvelopeHeader_parse hb = Ok h" "ch_total_plaintext_length (eh_core h) = n"
    "protection_mode_from_header h = Ok (registry_name mode)" "shared_dek P h vk pp (eh_key_slots h) None = Some dek"
    "verify_and_decrypt_metadata P h dek = Ok meta" "from_header P hb dek = Ok s"
    using r by (auto simp: resumed_envelope_session_def bind_eq_Some_conv split: if_splits)
  have s: "es_header_bytes s = hb" "es_dek s = dek" using h(6) by (auto simp: from_header_def Let_def)
  show ?thesis
    using h s mode_from_header [OF h(3)] m l [OF h(1)] shared_dek_all [OF h(4)]
    by (auto simp: session_for_def)
qed

lemma open_slots_all:
  assumes "\<forall>slot\<in>set slots. slot_data_key P vk pp core slot = None \<or> slot_data_key P vk pp core slot = Some dek"
    and "\<exists>slot\<in>set slots. slot_data_key P vk pp core slot = Some dek" and "DecryptReader_new P hb dek = Ok r"
  shows "\<exists>b. open_slots P vk pp core hb slots = Some (Ok (r, b)) \<and> (b \<longrightarrow> vk \<noteq> None)"
  using assms(1,2)
proof (induction slots)
  case (Cons slot slots)
  show ?case
  proof (cases "slot_data_key P vk pp core slot")
    case None
    then show ?thesis using Cons by auto
  next
    case (Some d)
    then have d: "slot_data_key P vk pp core slot = Some dek" using Cons.prems(1) by auto
    have "ks_kind slot = 1 \<longrightarrow> vk \<noteq> None" using slot_needs_credential [OF d] by auto
    then show ?thesis using d assms(3) by simp
  qed
qed simp

lemma from_header_ctx:
  assumes "from_header P hb dek = Ok s" and "DecryptReader_new P hb dek = Ok r"
  shows "reader_ctx r = session_ctx s"
  using assms by (auto simp: from_header_def Let_def DecryptReader_new_def reader_ctx_def session_ctx_def chunk_count_def)

text \<open>With each credential the session was made for, and with both, its header opens.\<close>

lemma session_opens:
  assumes P: "prims_ok P" and s: "session_for P s h vk pp n meta"
    and c: "credentials_for vk pp vk' pp'"
  shows "\<exists>r b. initialize_tdenc2_decryptor_with_kind P (es_header_bytes s) vk' pp' = Ok (r, b) \<and>
    DecryptReader_new P (es_header_bytes s) (es_dek s) = Ok r \<and> dr_header r = h \<and> dr_metadata_plaintext r = meta \<and>
    reader_ctx r = session_ctx s \<and> (b \<longrightarrow> vk' \<noteq> None)"
proof -
  note S = s [unfolded session_for_def]
  obtain ck where ck: "derive_domain_key_32 P (es_dek s) CONTENT_ENC = Ok ck"
    using derive_domain_key_32_Ok [OF P] by blast
  then obtain r where r: "DecryptReader_new P (es_header_bytes s) (es_dek s) = Ok r" "dr_header r = h"
    "dr_metadata_plaintext r = meta" "dr_content_key r = ck"
    using S by (auto simp: DecryptReader_new_def)
  have ctx: "reader_ctx r = session_ctx s"
    using from_header_ctx [OF _ r(1)] S by blast
  have all: "\<forall>slot\<in>set (eh_key_slots h). slot_data_key P vk pp (eh_core h) slot = Some (es_dek s)"
    and kinds: "has_slot Vault h \<longleftrightarrow> vk \<noteq> None" "has_slot Passphrase h \<longleftrightarrow> pp \<noteq> None" using S by blast+
  have own: "slot_data_key P vk' pp' (eh_core h) slot =
      (if ks_kind slot = 1 \<and> vk' = None \<or> ks_kind slot = 2 \<and> pp' = None then None else Some (es_dek s))"
    if "slot \<in> set (eh_key_slots h)" for slot
    using slot_own_credential c all that unfolding credentials_for_def by blast
  have "\<exists>slot\<in>set (eh_key_slots h). ks_kind slot = 1 \<and> vk' \<noteq> None \<or> ks_kind slot = 2 \<and> pp' \<noteq> None"
    using c kinds by (auto simp: has_slot_def list_ex_iff credentials_for_def)
  then have one: "\<exists>slot\<in>set (eh_key_slots h). slot_data_key P vk' pp' (eh_core h) slot = Some (es_dek s)"
    using own by force
  obtain b where "open_slots P vk' pp' (eh_core h) (es_header_bytes s) (eh_key_slots h) = Some (Ok (r, b))"
    "b \<longrightarrow> vk' \<noteq> None"
    using open_slots_all [OF _ one r(1)] own by metis
  then show ?thesis
    using S r ctx by (auto simp: initialize_tdenc2_decryptor_with_kind_def Let_def)
qed

lemma upload_credentials_mode:
  "upload_credentials mode token now cs = (Ok (vc, pp), cs') \<Longrightarrow>
     (needs_vault mode \<longleftrightarrow> vc \<noteq> None) \<and> (needs_passphrase mode \<longleftrightarrow> pp \<noteq> None)"
  by (auto simp: upload_credentials_def split: if_splits sum.splits option.splits prod.splits crypto_error.splits)

text \<open>What the recorded header of an earlier attempt is: nothing but the header.\<close>

definition recorded_exactly :: "bytes option \<Rightarrow> bool" where
  "recorded_exactly recorded \<longleftrightarrow>
     (\<forall>hb h. recorded = Some hb \<and> EnvelopeHeader_parse hb = Ok h \<longrightarrow> length hb = unat (ch_header_length (eh_core h)))"

lemma prepared_session_for:
  assumes P: "prims_ok P" and R: "entropy_ok R" and l: "\<forall>p. pp = Some p \<longrightarrow> length p < 2 ^ 32"
    and c: "upload_credentials mode token now cs = (Ok (vc, pp), cs')" and rec: "recorded_exactly recorded"
    and m: "parse_protection_mode (Some name) = Ok mode"
    and p: "prepare_protected_envelope P R n name (map_option snd vc) pp meta recorded = Ok (s, continued)"
  shows "\<exists>h. session_for P s h (map_option snd vc) pp n meta \<and> (continued \<longrightarrow> recorded = Some (es_header_bytes s))"
proof -
  note C = upload_credentials_mode [OF c]
  let ?old = "Option.bind recorded (\<lambda>header. resumed_envelope_session P header n mode (map_option snd vc) pp meta)"
  show ?thesis
  proof (cases ?old)
    case None
    then have "new_envelope_session P R n (map_option snd vc) pp meta = Ok s" "\<not> continued"
      using p m by (auto simp: prepare_protected_envelope_def Let_def)
    then show ?thesis using new_session_for [OF P R l] by blast
  next
    case (Some s')
    then have s: "s' = s" using p m by (auto simp: prepare_protected_envelope_def Let_def)
    obtain hb where hb: "recorded = Some hb"
      "resumed_envelope_session P hb n mode (map_option snd vc) pp meta = Some s"
      using Some s by (auto simp: bind_eq_Some_conv)
    show ?thesis
      using resumed_session_for [OF hb(2)] C rec hb(1) by (auto simp: recorded_exactly_def)
  qed
qed

section \<open>A new envelope can be made\<close>

lemma wrap_dek_total:
  assumes "prims_ok P" and "length k = 32" and "length dek = 32" and "length nonce = 24"
  shows "\<exists>w. wrap_dek P nonce ctx dek k kind sid kdf m i p salt = Ok (w, nonce) \<and> length w = 48"
proof -
  obtain c where "aead_seal P k nonce (build_slot_aad ctx kind sid kdf m i p salt) dek = Some c" "length c = 48"
    using prims_seal_total [OF assms(1,2,4), of dek] assms(3) by auto
  then show ?thesis
    using prims_key_ok [OF assms(1,2)] by (simp add: wrap_dek_def wrap_dek_with_nonce_def Let_def)
qed

lemma vault_slot_total:
  assumes P: "prims_ok P" and R: "entropy_ok R"
  shows "\<exists>slot. vault_encryption_slot P R k (ee_file_uuid R) (ee_dek R) = Ok slot \<and> slot_sized slot \<and>
    KeySlotEntry_validate slot = Ok () \<and> ks_slot_id slot = 0"
proof -
  note E = R [unfolded entropy_ok_def]
  obtain wk where wk: "derive_file_wrapping_key P k (ee_file_uuid R) (ee_vault_salt R) 1 0 = Ok wk" "length wk = 32"
    using prims_hkdf [OF P, of "Some (ee_vault_salt R)" k "file_wrap_info (ee_file_uuid R) 1 0"]
    by (auto simp: derive_file_wrapping_key_def)
  obtain w where w: "wrap_dek P (ee_vault_nonce R) \<lparr>ctx_file_uuid = ee_file_uuid R, ctx_format_version = FORMAT_VERSION\<rparr>
      (ee_dek R) wk 1 0 2 0 0 0 (ee_vault_salt R) = Ok (w, ee_vault_nonce R)" "length w = 48"
    using wrap_dek_total [OF P wk(2), of "ee_dek R" "ee_vault_nonce R"] E by blast
  show ?thesis
    using E wk(1) w by (simp add: vault_encryption_slot_def Let_def slot_sized_def KeySlotEntry_validate_def)
qed

lemma passphrase_slot_total:
  assumes P: "prims_ok P" and R: "entropy_ok R" and l: "length pp < 2 ^ 32"
  shows "\<exists>slot. passphrase_slot P R pp sid = Ok slot \<and> slot_sized slot \<and>
    KeySlotEntry_validate slot = Ok () \<and> ks_slot_id slot = sid"
proof -
  note E = R [unfolded entropy_ok_def]
  obtain wk where wk: "derive_passphrase_key P pp (ee_passphrase_salt R) ARGON2_MEMORY_FLOOR_KIB ARGON2_ITERATIONS_FLOOR
      ARGON2_PARALLELISM_FLOOR = Ok wk" "length wk = 32"
    using derive_passphrase_key_total [OF P _ l validate_argon2_writer_params] E by blast
  obtain w where w: "wrap_dek P (ee_passphrase_nonce R) \<lparr>ctx_file_uuid = ee_file_uuid R, ctx_format_version = FORMAT_VERSION\<rparr>
      (ee_dek R) wk 2 sid 1 ARGON2_MEMORY_FLOOR_KIB ARGON2_ITERATIONS_FLOOR ARGON2_PARALLELISM_FLOOR (ee_passphrase_salt R)
      = Ok (w, ee_passphrase_nonce R)" "length w = 48"
    using wrap_dek_total [OF P wk(2), of "ee_dek R" "ee_passphrase_nonce R"] E by blast
  show ?thesis
    using E wk(1) w
    by (simp add: passphrase_slot_def Let_def slot_sized_def KeySlotEntry_validate_def validate_argon2_writer_params)
qed

lemma new_with_keys_total:
  assumes P: "prims_ok P" and len: "length uuid = 16" "length np = 16" and sl: "\<forall>x\<in>set slots. slot_sized x"
    and v: "slots \<noteq> []" "length slots \<le> 8" "\<forall>x\<in>set slots. KeySlotEntry_validate x = Ok ()" "distinct (map ks_slot_id slots)"
    and m: "length meta \<le> 60000" and n: "unat n \<le> 1000000000"
  shows "\<exists>s. new_with_keys P n slots meta dek uuid np = Ok s"
proof -
  have "98 + 104 * length slots + (if meta = [] then 0 else length meta + 16) \<le> 65536" using v(2) m by simp
  then obtain hb where b: "EnvelopeHeader_build P uuid DEFAULT_CHUNK_SIZE slots meta n np dek = Ok hb"
    using build_total [OF P len(2) sl, of uuid DEFAULT_CHUNK_SIZE meta n dek] v by (auto simp: DEFAULT_CHUNK_SIZE_def)
  obtain h where h: "EnvelopeHeader_parse (hb @ []) = Ok h" "verify_and_decrypt_metadata P h dek = Ok meta"
      "unat (ch_header_length (eh_core h)) = length hb"
    using build_parses [OF P len sl b, of "[]"] by blast
  have "core_valid (eh_core h)" using accepted_layout [OF h(1)] by metis
  then have hl: "98 \<le> length hb" "length hb \<le> 65536" using h(3) by (simp_all add: core_valid_def)
  obtain k where k: "derive_domain_key_32 P dek CONTENT_ENC = Ok k" using derive_domain_key_32_Ok [OF P] by blast
  define c where "c = unat (calculate_chunk_count n DEFAULT_CHUNK_SIZE)"
  have "c \<le> unat n div unat DEFAULT_CHUNK_SIZE + 1"
  proof -
    have "ceil_div (unat n) (unat DEFAULT_CHUNK_SIZE) \<le> unat n div unat DEFAULT_CHUNK_SIZE + 1" by (simp add: ceil_div_def)
    moreover have "unat n div unat DEFAULT_CHUNK_SIZE + 1 \<le> 2 ^ 32 - 1" using n by (simp add: DEFAULT_CHUNK_SIZE_def)
    ultimately show ?thesis unfolding c_def
      by (subst unat_calculate_chunk_count) (auto simp: DEFAULT_CHUNK_SIZE_def)
  qed
  then have c: "c \<le> 20000" using n by (simp add: DEFAULT_CHUNK_SIZE_def)
  obtain t' :: u64 where t': "unat t' = length hb + unat n + 16 * c + 68"
    using unat_word_of_nat_u64 [of "length hb + unat n + 16 * c + 68"] hl c n by auto
  have "\<exists>t. calculate_ciphertext_length n DEFAULT_CHUNK_SIZE (word_of_nat (length hb)) = Ok t"
    unfolding calculate_ciphertext_length_cases
    by (rule exI [of _ t']) (use hl t' c n in \<open>simp add: DEFAULT_CHUNK_SIZE_def unat_word_of_nat_u32 c_def\<close>)
  then show ?thesis using b h k by (auto simp: new_with_keys_def Let_def)
qed

lemma new_envelope_total:
  assumes P: "prims_ok P" and R: "entropy_ok R" and l: "\<forall>p. pp = Some p \<longrightarrow> length p < 2 ^ 32"
    and c: "vk \<noteq> None \<or> pp \<noteq> None" and m: "length meta \<le> 60000" and n: "unat n \<le> 1000000000"
  shows "\<exists>s. new_envelope_session P R n vk pp meta = Ok s"
proof -
  have E: "length (ee_file_uuid R) = 16" "length (ee_nonce_prefix R) = 16" using R by (simp_all add: entropy_ok_def)
  obtain vs where vs: "(case vk of None \<Rightarrow> Ok [] | Some k \<Rightarrow>
      rbind (vault_encryption_slot P R k (ee_file_uuid R) (ee_dek R)) (\<lambda>slot. Ok [slot])) = Ok vs"
    "\<forall>x\<in>set vs. slot_sized x \<and> KeySlotEntry_validate x = Ok () \<and> ks_slot_id x = 0" "length vs \<le> 1" "vs = [] \<longleftrightarrow> vk = None"
    using vault_slot_total [OF P R] by (cases vk) fastforce+
  obtain ps where ps: "(case pp of None \<Rightarrow> Ok vs | Some p \<Rightarrow>
      rbind (passphrase_slot P R p (if vs = [] then 0 else 1)) (\<lambda>slot. Ok (vs @ [slot]))) = Ok (vs @ ps)"
    "\<forall>x\<in>set ps. slot_sized x \<and> KeySlotEntry_validate x = Ok () \<and> ks_slot_id x = (if vs = [] then 0 else 1)"
    "length ps \<le> 1" "ps = [] \<longleftrightarrow> pp = None"
    using passphrase_slot_total [OF P R] l by (cases pp) fastforce+
  have d: "distinct (map ks_slot_id (vs @ ps))" using vs(2,3) ps(2,3) by (cases vs; cases ps) auto
  have "\<exists>s. new_with_keys P n (vs @ ps) meta (ee_dek R) (ee_file_uuid R) (ee_nonce_prefix R) = Ok s"
    by (rule new_with_keys_total [OF P E _ _ _ _ d m n]) (use vs ps c in auto)
  then show ?thesis unfolding new_envelope_session_def vs(1) by (auto simp: ps(1))
qed

section \<open>Properties\<close>

text \<open>C5: the envelope prepared for a protected upload, whether its keys are new or it continues the one an
  interrupted upload began, opens with the vault key alone, with the passphrase alone, or with both,
  whichever of them the upload was made with: the reader has the metadata, the size and the record keys the
  upload seals under, and a continued envelope has the header that was recorded.\<close>

theorem prepared_envelope_opens:
  assumes "prims_ok P" and "entropy_ok R" and "\<forall>p. pp = Some p \<longrightarrow> length p < 2 ^ 32"
    and "upload_credentials mode token now cs = (Ok (vc, pp), cs')" and "recorded_exactly recorded"
    and "parse_protection_mode (Some name) = Ok mode"
    and "prepare_protected_envelope P R n name (map_option snd vc) pp meta recorded = Ok (s, continued)"
    and "credentials_for (map_option snd vc) pp vk' pp'"
  shows "\<exists>r b. initialize_tdenc2_decryptor_with_kind P (es_header_bytes s) vk' pp' = Ok (r, b) \<and>
    dr_metadata_plaintext r = meta \<and> ch_total_plaintext_length (dr_core r) = n \<and> reader_ctx r = session_ctx s \<and>
    (continued \<longrightarrow> recorded = Some (es_header_bytes s))"
proof -
  obtain h where h: "session_for P s h (map_option snd vc) pp n meta" "continued \<longrightarrow> recorded = Some (es_header_bytes s)"
    using prepared_session_for [OF assms(1-7)] by blast
  then show ?thesis using session_opens [OF assms(1) h(1) assms(8)] by (auto simp: session_for_def)
qed

text \<open>A vault and a passphrase, and an upload protected by both.\<close>

definition sample_entropy :: envelope_entropy where
  "sample_entropy = \<lparr>ee_dek = replicate 32 4, ee_file_uuid = replicate 16 7, ee_nonce_prefix = replicate 16 8,
     ee_vault_salt = replicate 16 3, ee_vault_nonce = replicate 24 5, ee_passphrase_salt = replicate 16 6,
     ee_passphrase_nonce = replicate 24 2\<rparr>"

definition keyed_state :: crypto_state where
  "keyed_state = (CryptoState_new FileVault_new 0)\<lparr>cs_locked := False, cs_session := Some 1,
     cs_sessions := [(1, replicate 32 9)], cs_prompts := [(5, \<lparr>ps_created_at = 0, ps_secret = [1, 2, 3]\<rparr>)]\<rparr>"

lemma sample_entropy_ok: "entropy_ok sample_entropy"
  by (simp add: entropy_ok_def sample_entropy_def)

lemma keyed_credentials:
  "upload_credentials VaultAndPassphrase (Some 5) 0 keyed_state =
     (Ok (Some (1, replicate 32 9), Some [1, 2, 3]), keyed_state\<lparr>cs_prompts := []\<rparr>)"
  by (simp add: upload_credentials_def needs_vault_def needs_passphrase_def current_credential_def keyed_state_def
      consume_prompt_secret_def)

lemma sample_prepared:
  "\<exists>s. prepare_protected_envelope demo_prims sample_entropy 20 (us ''vault_and_passphrase'') (Some (replicate 32 9))
     (Some [1, 2, 3]) [] None = Ok (s, False)"
proof -
  obtain s where "new_envelope_session demo_prims sample_entropy 20 (Some (replicate 32 9)) (Some [1, 2, 3]) [] = Ok s"
    using new_envelope_total [OF demo_prims_ok sample_entropy_ok, of "Some [1, 2, 3]" "Some (replicate 32 9)" "[]" 20] by auto
  then show ?thesis by (simp add: prepare_protected_envelope_def parse_protection_mode_def us_def)
qed

theorem prepared_envelope_opens_witness:
  "\<exists>s r b. prepare_protected_envelope demo_prims sample_entropy 20 (us ''vault_and_passphrase'') (Some (replicate 32 9))
     (Some [1, 2, 3]) [] None = Ok (s, False) \<and>
     initialize_tdenc2_decryptor_with_kind demo_prims (es_header_bytes s) None (Some [1, 2, 3]) = Ok (r, b) \<and>
     reader_ctx r = session_ctx s"
proof -
  obtain s where s: "prepare_protected_envelope demo_prims sample_entropy 20 (us ''vault_and_passphrase'')
      (Some (replicate 32 9)) (Some [1, 2, 3]) [] None = Ok (s, False)" using sample_prepared by blast
  have m: "parse_protection_mode (Some (us ''vault_and_passphrase'')) = Ok VaultAndPassphrase"
    by (simp add: parse_protection_mode_def us_def)
  show ?thesis
    using prepared_envelope_opens [OF demo_prims_ok sample_entropy_ok _ keyed_credentials _ m, of None 20 "[]" s False
        None "Some [1, 2, 3]"] s by (auto simp: recorded_exactly_def credentials_for_def)
qed

end
