(* ===== verification/Protected_Transfer.thy ===== *)
theory Protected_Transfer
  imports Protected_Download Protected_Contract Download_Contract
begin

text \<open>
  What a protected download promises: whatever arrives, in whatever chunks and over however many
  connections, only the verified plaintext of a complete envelope is published, and what a protected
  upload sent comes back as the file it was made from.
\<close>

section \<open>Collecting the header\<close>

definition opened_as :: "prims \<Rightarrow> protected_download_env \<Rightarrow> download_keys \<Rightarrow> bytes \<Rightarrow> decrypt_reader \<Rightarrow> bool" where
  "opened_as P E K hb r \<longleftrightarrow>
     (\<exists>b. initialize_tdenc2_decryptor_with_kind P hb (dk_vault K) (dk_passphrase K) = Ok (r, b)) \<and>
     calculate_ciphertext_length (ch_total_plaintext_length (dr_core r)) (ch_chunk_size (dr_core r))
       (ch_header_length (dr_core r)) = Ok (dv_size E) \<and>
     length hb = unat (ch_header_length (dr_core r))"

definition same_counts :: "download_run \<Rightarrow> download_run \<Rightarrow> bool" where
  "same_counts st st' \<longleftrightarrow> dl_ciphertext st' = dl_ciphertext st \<and> dl_received st' = dl_received st \<and>
     dl_budget st' = dl_budget st \<and> dl_turn st' = dl_turn st"

lemma same_counts_refl [simp]: "same_counts st st"
  by (simp add: same_counts_def)

lemma same_counts_trans: "same_counts a b \<Longrightarrow> same_counts b c \<Longrightarrow> same_counts a c"
  by (simp add: same_counts_def)

text \<open>The header is not complete: all that arrived is kept.\<close>

definition waiting :: "bytes \<Rightarrow> download_run \<Rightarrow> bool" where
  "waiting A st \<longleftrightarrow> dl_decryptor st = None \<and> dl_header st = A \<and> dl_partial st = None \<and> dl_written st = 0 \<and>
     (case dl_expected st of
        None \<Rightarrow> length A < 98
      | Some n \<Rightarrow> length A < n \<and> (\<exists>core. CoreHeader_parse A = Ok core \<and> n = unat (ch_header_length core)))"

text \<open>The envelope was just opened.\<close>

definition opened :: "prims \<Rightarrow> protected_download_env \<Rightarrow> download_keys \<Rightarrow> bytes \<Rightarrow> download_run \<Rightarrow> bool" where
  "opened P E K hb st \<longleftrightarrow> (\<exists>r. opened_as P E K hb r \<and> dl_decryptor st = Some r) \<and> dl_partial st = Some [] \<and>
     dl_written st = 0"

lemma open_envelope_Ok:
  assumes "open_envelope P E K st = (Ok u, st')" and "dl_written st = 0"
    and "CoreHeader_parse (dl_header st) = Ok core" and "unat (ch_header_length core) = length (dl_header st)"
  shows "opened P E K (dl_header st) st' \<and> same_counts st st'"
proof -
  obtain h tot r b where h: "EnvelopeHeader_parse (dl_header st) = Ok h"
    and l: "calculate_ciphertext_length (ch_total_plaintext_length (eh_core h)) (ch_chunk_size (eh_core h))
       (ch_header_length (eh_core h)) = Ok (dv_size E)"
    and r: "initialize_tdenc2_decryptor_with_kind P (dl_header st) (dk_vault K) (dk_passphrase K) = Ok (r, b)"
    and st: "dl_decryptor st' = Some r" "dl_partial st' = Some []" "dl_written st' = 0" "same_counts st st'"
    using assms(1,2)
    by (auto simp: open_envelope_def Let_def same_counts_def split: sum.splits prod.splits if_splits)
  have "dr_header r = h" using decryptor_opened_with_kind [OF r] h by (metis sum.inject(2))
  moreover have "eh_core h = core" using h assms(3) by (auto simp: EnvelopeHeader_parse_Ok)
  ultimately show ?thesis using l r st assms(4) by (auto simp: opened_def opened_as_def)
qed

lemma header_step_Ok:
  assumes w: "waiting A st" and ne: "remaining \<noteq> []" and s: "header_step P E K st remaining = (Ok rest, st')"
  shows "\<exists>taken. taken \<noteq> [] \<and> remaining = taken @ rest \<and> same_counts st st' \<and>
    (waiting (A @ taken) st' \<or> opened P E K (A @ taken) st')"
proof -
  note W = w [unfolded waiting_def]
  define target where "target = (case dl_expected st of None \<Rightarrow> 98 | Some n \<Rightarrow> n)"
  define count where "count = min (target - length A) (length remaining)"
  define taken where "taken = take count remaining"
  have t: "length A < target" using W by (simp add: target_def split: option.splits)
  have c: "0 < count" "length taken = count" "length A + count \<le> target"
    using t ne by (auto simp: count_def taken_def)
  let ?st = "st\<lparr>dl_header := A @ taken\<rparr>"
  have step: "header_step P E K st remaining =
     (case (if dl_expected st = None \<and> length (A @ taken) = 98
            then (case CoreHeader_parse (A @ taken) of
                    Inl e \<Rightarrow> Err (PreambleUnreadable e)
                  | Inr core \<Rightarrow> Ok (?st\<lparr>dl_expected := Some (unat (ch_header_length core))\<rparr>))
            else Ok ?st) of
        Inl e \<Rightarrow> (Err e, ?st)
      | Inr st \<Rightarrow>
          if dl_expected st = Some (length (dl_header st))
          then (case open_envelope P E K st of (Inl e, st) \<Rightarrow> (Err e, st) | (Inr _, st) \<Rightarrow> (Ok (drop count remaining), st))
          else (Ok (drop count remaining), st))"
  proof -
    have h: "dl_header st = A" using W by simp
    have u: "dl_header (st\<lparr>dl_header := y\<rparr>) = y" "dl_expected (st\<lparr>dl_header := y\<rparr>) = dl_expected st" for y
      by simp_all
    show ?thesis
      by (simp only: header_step_def Let_def h u target_def count_def taken_def CORE_HEADER_SIZE_def)
  qed
  have "rest = drop count remaining"
    using s unfolding step by (auto split: sum.splits if_splits prod.splits)
  then have r: "remaining = taken @ rest" by (simp add: taken_def)
  have "same_counts st st' \<and> (waiting (A @ taken) st' \<or> opened P E K (A @ taken) st')"
  proof (cases "dl_expected st")
    case None
    then have tg: "target = 98" by (simp add: target_def)
    show ?thesis
    proof (cases "length (A @ taken) = 98")
      case False
      then have "length (A @ taken) < 98" using c(2,3) tg by simp
      then show ?thesis using s None False W unfolding step by (auto simp: waiting_def same_counts_def)
    next
      case True
      obtain core where core: "CoreHeader_parse (A @ taken) = Ok core"
        using s None True unfolding step by (auto split: sum.splits)
      define st1 where "st1 = ?st\<lparr>dl_expected := Some (unat (ch_header_length core))\<rparr>"
      have "core_valid core" using core.enc_dec [OF core] by blast
      then have hl: "98 < unat (ch_header_length core)" by (simp add: core_valid_def)
      then have "st' = st1" using s None True core unfolding step by (auto simp: st1_def)
      then show ?thesis using W True hl core by (simp add: st1_def waiting_def same_counts_def)
    qed
  next
    case (Some n)
    then have tg: "target = n" by (simp add: target_def)
    obtain c0 where c0: "CoreHeader_parse A = Ok c0" "n = unat (ch_header_length c0)" using W Some by auto
    have "98 \<le> length A" using core.dec_width [OF c0(1)] by (simp add: policy_simps)
    then have core: "CoreHeader_parse (A @ taken) = Ok c0"
      using core.dec_prefix_only [OF c0(1), of "A @ taken"] by (simp add: policy_simps)
    show ?thesis
    proof (cases "length (A @ taken) = n")
      case False
      then have "length (A @ taken) < n" using c(2,3) tg by simp
      then show ?thesis using s Some False W core c0 unfolding step by (auto simp: waiting_def same_counts_def)
    next
      case True
      then obtain u where "open_envelope P E K ?st = (Ok u, st')"
        using s Some unfolding step by (auto split: sum.splits prod.splits)
      then have "opened P E K (A @ taken) st' \<and> same_counts ?st st'"
        using open_envelope_Ok [of P E K ?st u st' c0] W core c0(2) True by simp
      then show ?thesis by (simp add: same_counts_def)
    qed
  qed
  then show ?thesis using r c by auto
qed

lemma header_loop_ok:
  assumes "waiting A st"
  shows "\<exists>res st'. header_loop P E K st remaining = Some (res, st') \<and> (\<forall>rest. res = Ok rest \<longrightarrow> same_counts st st' \<and>
    (rest = [] \<and> waiting (A @ remaining) st' \<or>
     (\<exists>hb. A @ remaining = hb @ rest \<and> length A < length hb \<and> opened P E K hb st')))"
  using assms
proof (induction "length remaining" arbitrary: A st remaining rule: less_induct)
  case less
  show ?case
  proof (cases "remaining = []")
    case True
    then show ?thesis using less.prems by (subst header_loop.simps) simp
  next
    case False
    have d: "dl_decryptor st = None" using less.prems by (simp add: waiting_def)
    obtain res st1 where s: "header_step P E K st remaining = (res, st1)" by fastforce
    show ?thesis
    proof (cases res)
      case (Inl e)
      then show ?thesis using s d False by (subst header_loop.simps) simp
    next
      case (Inr rest)
      obtain taken where t: "taken \<noteq> []" "remaining = taken @ rest" "same_counts st st1"
        "waiting (A @ taken) st1 \<or> opened P E K (A @ taken) st1"
        using header_step_Ok [OF less.prems False] s Inr by blast
      have l: "header_loop P E K st remaining = header_loop P E K st1 rest"
        using s Inr d False t(1,2) by (subst header_loop.simps) simp
      from t(4) show ?thesis
      proof
        assume w: "waiting (A @ taken) st1"
        have "length rest < length remaining" using t(1,2) by simp
        from less.hyps [OF this w] show ?thesis unfolding l using t same_counts_trans by fastforce
      next
        assume o: "opened P E K (A @ taken) st1"
        then have "header_loop P E K st1 rest = Some (Ok rest, st1)"
          by (subst header_loop.simps) (auto simp: opened_def)
        then show ?thesis unfolding l using o t by fastforce
      qed
    qed
  qed
qed

section \<open>Taking chunks\<close>

text \<open>The envelope is open: the partial file holds what the arrived part of its body decrypts to.\<close>

definition reading :: "prims \<Rightarrow> protected_download_env \<Rightarrow> download_keys \<Rightarrow> bytes \<Rightarrow> download_run \<Rightarrow> bool" where
  "reading P E K A st \<longleftrightarrow>
     (\<exists>hb B r r' out. A = hb @ B \<and> opened_as P E K hb r \<and> feed P r B = (Ok out, r') \<and> dl_decryptor st = Some r' \<and>
        dl_partial st = Some out)"

definition fetched :: "prims \<Rightarrow> protected_download_env \<Rightarrow> download_keys \<Rightarrow> bytes \<Rightarrow> download_run \<Rightarrow> bool" where
  "fetched P E K A st \<longleftrightarrow> waiting A st \<or> reading P E K A st"

lemma opened_reader:
  assumes "opened_as P E K hb r"
  obtains h dek where "EnvelopeHeader_parse hb = Ok h" "DecryptReader_new P hb dek = Ok r" "dr_header r = h"
    "unat (ch_total_plaintext_length (dr_core r)) \<le> 2000000000"
proof -
  have t: "unat (ch_total_plaintext_length (dr_core r)) \<le> 2000000000"
    using assms by (simp add: opened_as_def calculate_ciphertext_length_cases)
  obtain b where b: "initialize_tdenc2_decryptor_with_kind P hb (dk_vault K) (dk_passphrase K) = Ok (r, b)"
    using assms by (auto simp: opened_as_def)
  show ?thesis by (rule decryptor_opened_with_kind [OF b]) (rule that [OF _ _ _ t])
qed

lemma opened_settled: "prims_ok P \<Longrightarrow> opened_as P E K hb r \<Longrightarrow> settled P r"
  by (erule opened_reader) (rule new_settled)

lemma opened_reading:
  assumes "prims_ok P" and "opened P E K hb st"
  shows "reading P E K hb st"
proof -
  obtain r where r: "opened_as P E K hb r" "dl_decryptor st = Some r" "dl_partial st = Some []"
    using assms(2) by (auto simp: opened_def)
  moreover have "feed P r [] = (Ok [], r)" using opened_settled [OF assms(1) r(1)] by (simp add: settled_def)
  ultimately show ?thesis unfolding reading_def by force
qed

lemma write_plaintext_Ok:
  assumes "write_plaintext E st plaintext = (Ok u, st')" and "dl_partial st = Some out"
  shows "dl_partial st' = Some (out @ plaintext)" "dl_decryptor st' = dl_decryptor st"
    "dl_received st' = dl_received st"
  using assms by (auto simp: write_plaintext_def split: if_splits sum.splits)

lemma decrypt_rest_Ok:
  assumes "reading P E K A st" and "decrypt_rest P E st rest = (Ok u, st')"
  shows "reading P E K (A @ rest) st' \<and> dl_received st' = dl_received st"
proof (cases "rest = []")
  case True
  then show ?thesis using assms by (simp add: decrypt_rest_def)
next
  case False
  obtain hb B r r' out where R: "A = hb @ B" "opened_as P E K hb r" "feed P r B = (Ok out, r')"
    "dl_decryptor st = Some r'" "dl_partial st = Some out" using assms(1) by (auto simp: reading_def)
  obtain plaintext r2 where f: "feed P r' rest = (Ok plaintext, r2)"
    and w: "write_plaintext E (st\<lparr>dl_decryptor := Some r2\<rparr>) plaintext = (Ok u, st')"
    using assms(2) False R(4) by (auto simp: decrypt_rest_def split: prod.splits sum.splits)
  have "feed P r (B @ rest) = (Ok (out @ plaintext), r2)" using R(3) f by (simp add: feed_append)
  moreover have "A @ rest = hb @ B @ rest" using R(1) by simp
  ultimately show ?thesis
    using R(2) write_plaintext_Ok [OF w, of out] R(5) unfolding reading_def by force
qed

lemma fetched_cong:
  assumes "dl_decryptor st' = dl_decryptor st" and "dl_header st' = dl_header st" and "dl_partial st' = dl_partial st"
    and "dl_written st' = dl_written st" and "dl_expected st' = dl_expected st"
  shows "fetched P E K A st' = fetched P E K A st"
  by (simp add: fetched_def waiting_def reading_def assms)

lemma fetched_counts:
  "fetched P E K A (st\<lparr>dl_turn := t\<rparr>) = fetched P E K A st"
  "fetched P E K A (st\<lparr>dl_budget := b\<rparr>) = fetched P E K A st"
  "fetched P E K A (st\<lparr>dl_received := n\<rparr>) = fetched P E K A st"
  by (rule fetched_cong; simp)+

lemma take_chunk_Ok:
  assumes P: "prims_ok P" and F: "fetched P E K A st" and t: "take_chunk P E K st bytes = Some (Ok u, st')"
  shows "fetched P E K (A @ bytes) st' \<and> dl_received st' = dl_received st"
proof -
  define st1 where "st1 = st\<lparr>dl_ciphertext := saturating_add_u64 (dl_ciphertext st) (of_nat (length bytes))\<rparr>"
  have s: "waiting A st1 = waiting A st" "reading P E K A st1 = reading P E K A st" "dl_received st1 = dl_received st"
    by (simp_all add: st1_def waiting_def reading_def)
  obtain rest st2 where h: "header_loop P E K st1 bytes = Some (Ok rest, st2)"
    and d: "decrypt_rest P E st2 rest = (Ok u, st')"
    using t unfolding take_chunk_def Let_def st1_def [symmetric]
    by (auto split: sum.splits if_splits option.splits prod.splits)
  show ?thesis
  proof (cases "waiting A st")
    case True
    from header_loop_ok [of A st1 P E K bytes] s True h have "same_counts st1 st2 \<and>
      (rest = [] \<and> waiting (A @ bytes) st2 \<or> (\<exists>hb. A @ bytes = hb @ rest \<and> opened P E K hb st2))" by auto
    then show ?thesis
    proof (elim conjE disjE exE)
      assume "same_counts st1 st2" "rest = []" "waiting (A @ bytes) st2"
      then show ?thesis using d s(3) by (auto simp: decrypt_rest_def fetched_def same_counts_def)
    next
      fix hb assume o: "same_counts st1 st2" "A @ bytes = hb @ rest" "opened P E K hb st2"
      show ?thesis using decrypt_rest_Ok [OF opened_reading [OF P o(3)] d] o(1,2) s(3)
        by (simp add: fetched_def same_counts_def)
    qed
  next
    case False
    then have r: "reading P E K A st1" using F s by (simp add: fetched_def)
    then have "dl_decryptor st1 \<noteq> None" by (auto simp: reading_def)
    then have "rest = bytes" "st2 = st1" using h by (simp_all add: header_loop.simps [of P E K st1 bytes])
    then show ?thesis using decrypt_rest_Ok [OF r] d s(3) by (simp add: fetched_def)
  qed
qed

text \<open>The bytes a download that is not interrupted for good takes: chunk after chunk, and after a dropped
  connection those of the next iterator, which skips the chunks already taken.\<close>

function arrivals :: "media_iterator list \<Rightarrow> (str + bytes) list \<Rightarrow> nat \<Rightarrow> bytes" where
  "arrivals iterators [] n = []"
| "arrivals iterators (Inr bytes # items) n = bytes @ arrivals iterators items (n + 1)"
| "arrivals [] (Inl e # items) n = []"
| "arrivals (iterator # iterators) (Inl e # items) n = arrivals iterators (iterator n) n"
  by pat_completeness auto

termination
  by (relation "measures [\<lambda>(its, items, n). length its, \<lambda>(its, items, n). length items]") auto

lemma download_loop_Ok:
  "prims_ok P \<Longrightarrow> fetched P E K A st \<Longrightarrow> download_loop P E K iterators items st = Some (Ok u, st') \<Longrightarrow>
   fetched P E K (A @ arrivals iterators items (dl_received st)) st'"
proof (induction P E K iterators items st arbitrary: A rule: download_loop.induct)
  case (1 P E K iterators st)
  then show ?case by simp
next
  case (2 P E K iterators chunk items st)
  have nc: "\<not> dv_cancelled E (dl_turn st)" using "2.prems"(3) by (auto split: if_splits)
  show ?case
  proof (cases chunk)
    case (Inr bytes)
    define st1 where "st1 = st\<lparr>dl_budget := dv_retries E (dl_turn st + 1), dl_received := dl_received st + 1\<rparr>"
    have f: "fetched P E K A st1" and n: "dl_received st1 = dl_received st + 1"
      using "2.prems"(2) by (simp_all add: st1_def fetched_counts)
    obtain st2 where t: "take_chunk P E K st1 bytes = Some (Ok (), st2)"
      and l: "download_loop P E K iterators items (st2\<lparr>dl_turn := dl_turn st2 + 1\<rparr>) = Some (Ok u, st')"
      using "2.prems"(3) nc Inr unfolding st1_def
      by (auto split: option.splits prod.splits sum.splits)
    note T = take_chunk_Ok [OF "2.prems"(1) f t]
    have f2: "fetched P E K (A @ bytes) (st2\<lparr>dl_turn := dl_turn st2 + 1\<rparr>)"
      using T by (simp add: fetched_counts)
    show ?thesis
      using "2.IH"(2) [OF nc Inr t [unfolded st1_def] refl refl "2.prems"(1) f2 l] T n Inr by simp
  next
    case (Inl e)
    then obtain iterator its where i: "0 < dl_budget st" "iterators = iterator # its"
      and l: "download_loop P E K its (iterator (dl_received st))
        (st\<lparr>dl_budget := dl_budget st - 1, dl_turn := dl_turn st + 1\<rparr>) = Some (Ok u, st')"
      using "2.prems"(3) nc by (auto split: if_splits list.splits)
    have f: "fetched P E K A (st\<lparr>dl_budget := dl_budget st - 1, dl_turn := dl_turn st + 1\<rparr>)"
      using "2.prems"(2) by (simp add: fetched_counts)
    show ?thesis using "2.IH"(1) [OF nc Inl i "2.prems"(1) f l] i(2) Inl by simp
  qed
qed

lemma verify_complete_Ok:
  assumes P: "prims_ok P" and F: "fetched P E K A st" and v: "verify_complete E st = Ok content"
  shows "\<exists>hb r. A = hb @ envelope_body P (reader_ctx r) content \<and> opened_as P E K hb r \<and>
    length content = unat (ch_total_plaintext_length (dr_core r))"
proof -
  obtain r' where r': "dl_decryptor st = Some r'" "finish r' = Ok ()" "dl_partial st = Some content"
    using v by (auto simp: verify_complete_def split: if_splits option.splits)
  then have "reading P E K A st" using F by (auto simp: fetched_def waiting_def)
  then obtain hb B r where R: "A = hb @ B" "opened_as P E K hb r" "feed P r B = (Ok content, r')"
    using r' by (auto simp: reading_def)
  obtain h dek where n: "DecryptReader_new P hb dek = Ok r"
    "unat (ch_total_plaintext_length (dr_core r)) \<le> 2000000000" using R(2) opened_reader by metis
  have "length content = unat (ch_total_plaintext_length (dr_core r)) \<and> B = envelope_body P (reader_ctx r) content"
    using feed_accepts_iff [OF P reader_ctx_ok [OF P n] new_reader [OF P n(1)], of B content] R(3) r'(2) by blast
  then show ?thesis using R(1,2) by blast
qed

lemma opened_length:
  assumes P: "prims_ok P" and r: "opened_as P E K hb r" and l: "length content = unat (ch_total_plaintext_length (dr_core r))"
  shows "length (hb @ envelope_body P (reader_ctx r) content) = unat (dv_size E)"
proof -
  obtain h dek where n: "DecryptReader_new P hb dek = Ok r"
    "unat (ch_total_plaintext_length (dr_core r)) \<le> 2000000000" using r opened_reader by metis
  note c = reader_ctx_ok [OF P n]
  have "calculate_ciphertext_length (ch_total_plaintext_length (dr_core r)) (ch_chunk_size (dr_core r))
       (ch_header_length (dr_core r)) = Ok (dv_size E)" "length hb = unat (ch_header_length (dr_core r))"
    using r by (simp_all add: opened_as_def)
  then show ?thesis using length_envelope_body [OF P c, of content] l
    by (simp add: ciphertext_length_exact envelope_length_def reader_ctx_def)
qed

section \<open>Publication\<close>

lemma publish_moved:
  assumes "publish lower E source destination policy = (Ok publication, moved)"
  shows "case moved of
      None \<Rightarrow> dp_outcome publication = Skipped \<and> policy = Skip
    | Some (i, disk) \<Rightarrow> dp_outcome publication = Saved \<and>
        (\<exists>c. pe_disk E i source = Some c \<and> disk = (pe_disk E i)(source := None, sibling destination i := Some c)) \<and>
        (policy \<noteq> Replace \<longrightarrow> pe_disk E i (sibling destination i) = None)"
proof -
  obtain names where "publish_from lower E source destination policy names 0 MAX_NAMES = (Ok publication, moved)"
    using assms by (auto simp: publish_def split: sum.splits)
  from publish_from_moved [OF this] show ?thesis by (auto split: option.splits)
qed

text \<open>What became of a download: where it ended and what its verified plaintext was.\<close>

lemma publish_verified_moved:
  assumes "D = publish_verified E st hold content L"
  shows "case dd_moved D of
      None \<Rightarrow> \<forall>path. dd_result D = Ok path \<longrightarrow> dv_policy E = Skip
    | Some (i, disk) \<Rightarrow> disk (sibling (dv_destination E) i) = Some content \<and>
        (dv_policy E \<noteq> Replace \<longrightarrow>
          (\<forall>q c. q \<noteq> partial_place E \<and> pe_disk (dv_publish E) i q = Some c \<longrightarrow> disk q = Some c))"
proof -
  obtain res moved where p: "publish (dv_lower E) (publishing E content) (partial_place E) (dv_destination E) (dv_policy E)
      = (res, moved)" by fastforce
  show ?thesis
  proof (cases res)
    case (Inl e)
    then have "dd_moved D = None" "dd_result D = Err (PublicationFailed e)"
      using assms p by (simp_all add: publish_verified_def abandon_def)
    then show ?thesis by simp
  next
    case (Inr publication)
    then have D: "dd_moved D = moved"
      using assms p by (simp add: publish_verified_def Let_def split: prod.splits)
    have disk: "pe_disk (publishing E content) i = (pe_disk (dv_publish E) i)(partial_place E := Some content)" for i
      by (simp add: publishing_def)
    note M = publish_moved [OF p [unfolded Inr]]
    show ?thesis
    proof (cases moved)
      case None
      then show ?thesis using M D by simp
    next
      case (Some im)
      then show ?thesis using M D by (cases im) (auto simp: disk split: if_splits)
    qed
  qed
qed

lemma download_cases:
  assumes "download_encrypted_file P E iterator iterators L cs = Some (D, cs')"
  obtains (Abandoned) e run hold L' where "D = abandon e run hold L'"
  | (Verified) K st hold content L' where "download_keys_of E cs = (Ok K, cs')"
      "download_loop P E K iterators (iterator 0) (start_run E) = Some (Ok (), st)"
      "verify_complete E st = Ok content" "D = publish_verified E st hold content L'"
proof -
  have "(\<exists>e run hold L'. D = abandon e run hold L') \<or>
      (\<exists>K st hold content L'. download_keys_of E cs = (Ok K, cs') \<and>
        download_loop P E K iterators (iterator 0) (start_run E) = Some (Ok (), st) \<and>
        verify_complete E st = Ok content \<and> D = publish_verified E st hold content L')"
    using assms unfolding download_encrypted_file_def Let_def
    by (simp split: sum.splits prod.splits option.splits if_splits) blast+
  then show ?thesis using Abandoned Verified by blast
qed

lemma start_fetched: "fetched P E K [] (start_run E)"
  by (simp add: fetched_def waiting_def start_run_def)

lemma verified_bytes:
  assumes "prims_ok P" and "download_loop P E K iterators items (start_run E) = Some (Ok (), st)"
    and "verify_complete E st = Ok content"
  shows "\<exists>hb r. arrivals iterators items 0 = hb @ envelope_body P (reader_ctx r) content \<and> opened_as P E K hb r \<and>
    length content = unat (ch_total_plaintext_length (dr_core r)) \<and>
    length (arrivals iterators items 0) = unat (dv_size E)"
proof -
  have n: "dl_received (start_run E) = 0" by (simp add: start_run_def)
  have "fetched P E K (arrivals iterators items 0) st"
    using download_loop_Ok [OF assms(1) start_fetched assms(2)] n by simp
  from verify_complete_Ok [OF assms(1) this assms(3)] opened_length [OF assms(1)] show ?thesis by metis
qed

end
