(* ===== verification/Protected_Roundtrip.thy ===== *)
theory Protected_Roundtrip
  imports Protected_Transfer Ledger_Contract
begin

text \<open>
  What a protected upload sent comes back: a download that gets every chunk of the envelope, over
  connections that drop and resume behind the chunks already taken, publishes the file it was made from.
\<close>

section \<open>The envelope that arrives\<close>

text \<open>An opened header with the body of its plaintext, and the whole of it.\<close>

definition arriving_envelope ::
  "prims \<Rightarrow> protected_download_env \<Rightarrow> download_keys \<Rightarrow> bytes \<Rightarrow> decrypt_reader \<Rightarrow> bytes \<Rightarrow> bytes \<Rightarrow> bool" where
  "arriving_envelope P E K hb r content envelope \<longleftrightarrow> prims_ok P \<and> opened_as P E K hb r \<and>
     length content = unat (ch_total_plaintext_length (dr_core r)) \<and>
     envelope = hb @ envelope_body P (reader_ctx r) content"

lemma opened_core:
  assumes "opened_as P E K hb r"
  shows "CoreHeader_parse hb = Ok (dr_core r)" "98 < length hb" "length hb = unat (ch_header_length (dr_core r))"
proof -
  obtain h dek where h: "EnvelopeHeader_parse hb = Ok h" "dr_header r = h" using assms opened_reader by metis
  have "core_valid (eh_core h)" using accepted_layout [OF h(1)] by metis
  then show "length hb = unat (ch_header_length (dr_core r))" "98 < length hb"
    using assms h(2) by (simp_all add: opened_as_def core_valid_def)
  show "CoreHeader_parse hb = Ok (dr_core r)" using h by (auto simp: EnvelopeHeader_parse_Ok)
qed

text \<open>The first 98 bytes determine the header.\<close>

lemma core_of_beginning:
  assumes "arriving_envelope P E K hb r content envelope" and "envelope = A @ ahead" and "98 \<le> length A"
  shows "CoreHeader_parse A = Ok (dr_core r)"
proof -
  have o: "opened_as P E K hb r" using assms(1) by (simp add: arriving_envelope_def)
  note O = opened_core [OF o]
  have "take 98 hb = take 98 envelope" using assms(1) O(2) by (simp add: arriving_envelope_def)
  also have "\<dots> = take 98 A" using assms(2,3) by simp
  finally show ?thesis using core.dec_prefix_only [OF O(1), of A] by (simp add: policy_simps)
qed

lemma opened_unique:
  assumes a: "arriving_envelope P E K hb r content envelope" and o: "opened_as P E K hb' r'"
    and b: "envelope = hb' @ ahead"
  shows "hb' = hb \<and> r' = r"
proof -
  have o1: "opened_as P E K hb r" using a by (simp add: arriving_envelope_def)
  have "CoreHeader_parse hb' = Ok (dr_core r)"
    using core_of_beginning [OF a b] opened_core(2) [OF o] by simp
  then have "dr_core r' = dr_core r" using opened_core(1) [OF o] by simp
  then have l: "length hb' = length hb" using opened_core(3) [OF o] opened_core(3) [OF o1] by simp
  have "hb' = take (length hb) envelope" using b l by simp
  also have "\<dots> = hb" using a by (simp add: arriving_envelope_def)
  finally have hb: "hb' = hb" .
  have "\<exists>x. initialize_tdenc2_decryptor_with_kind P hb (dk_vault K) (dk_passphrase K) = Ok (r, x)"
    "\<exists>x. initialize_tdenc2_decryptor_with_kind P hb (dk_vault K) (dk_passphrase K) = Ok (r', x)"
    using o o1 unfolding hb opened_as_def by blast+
  then show ?thesis using hb by (elim exE) simp
qed

lemma feed_header: "feed P r a = (Ok out, r') \<Longrightarrow> dr_header r' = dr_header r"
proof -
  assume f: "feed P r a = (Ok out, r')"
  have v: "verify_final_record P x ct = (res, y) \<Longrightarrow> dr_header y = dr_header x" for x ct res y
    by (auto simp: verify_final_record_def Let_def split: if_splits option.splits)
  have t: "feed_tail P x o1 = (res, y) \<Longrightarrow> dr_header y = dr_header x" for x o1 res y
    using v by (fastforce simp: feed_tail_def Let_def split: if_splits prod.splits sum.splits)
  show ?thesis
  proof (cases "dr_final_record_verified r")
    case True
    then show ?thesis using f by (auto simp: feed_def split: if_splits)
  next
    case False
    obtain c o1 r1 where l: "feed_loop P (buffered r a) [] = (Ok (c, o1), r1)"
      and "(if c then feed_tail P r1 o1 else (Ok o1, r1)) = (Ok out, r')"
      using f False by (auto simp: feed_def split: sum.splits prod.splits)
    then have "dr_header r' = dr_header r1" using t by (auto split: if_splits)
    then show ?thesis using loop_frame [OF l] by simp
  qed
qed

lemma body_decrypts:
  assumes "arriving_envelope P E K hb r content envelope"
  shows "\<exists>r'. feed P r (envelope_body P (reader_ctx r) content) = (Ok content, r') \<and> finish r' = Ok () \<and>
    dr_core r' = dr_core r" and "length content \<le> 2000000000"
proof -
  note A = assms [unfolded arriving_envelope_def]
  have o: "opened_as P E K hb r" using A by blast
  obtain h dek where n: "DecryptReader_new P hb dek = Ok r"
    "unat (ch_total_plaintext_length (dr_core r)) \<le> 2000000000" using o opened_reader by metis
  have P: "prims_ok P" using A by blast
  obtain r' where r': "feed P r (envelope_body P (reader_ctx r) content) = (Ok content, r')" "finish r' = Ok ()"
    using feed_accepts_iff [OF P reader_ctx_ok [OF P n] new_reader [OF P n(1)], of "envelope_body P (reader_ctx r) content"
        content] A by blast
  then show "\<exists>r'. feed P r (envelope_body P (reader_ctx r) content) = (Ok content, r') \<and> finish r' = Ok () \<and>
    dr_core r' = dr_core r" using feed_header [OF r'(1)] by auto
  show "length content \<le> 2000000000" using n(2) A by simp
qed

text \<open>Any further part of the body decrypts to the next part of the plaintext.\<close>

lemma body_part_decrypts:
  assumes a: "arriving_envelope P E K hb r content envelope" and e: "envelope = hb @ B @ b @ ahead"
    and f: "feed P r B = (Ok out, r1)"
  shows "\<exists>plaintext r2. feed P r1 b = (Ok plaintext, r2) \<and> length (out @ plaintext) \<le> length content \<and>
    (ahead = [] \<longrightarrow> out @ plaintext = content \<and> finish r2 = Ok () \<and> dr_core r2 = dr_core r)"
proof -
  obtain r' where r': "feed P r (envelope_body P (reader_ctx r) content) = (Ok content, r')" "finish r' = Ok ()"
    "dr_core r' = dr_core r" using body_decrypts(1) [OF a] by blast
  have "envelope_body P (reader_ctx r) content = B @ b @ ahead" using a e by (simp add: arriving_envelope_def)
  then have "feed P r (B @ b @ ahead) = (Ok content, r')" using r'(1) by simp
  then obtain y where y: "feed P r1 (b @ ahead) = (Ok y, r')" "content = out @ y" using f by (auto simp: feed_append)
  then obtain plaintext r2 z where z: "feed P r1 b = (Ok plaintext, r2)" "feed P r2 ahead = (Ok z, r')" "y = plaintext @ z"
    by (auto simp: feed_append)
  have "ahead = [] \<longrightarrow> z = [] \<and> r2 = r'"
    using z(2) feed_settled [OF z(1)] by (auto simp: settled_def)
  then show ?thesis using z(1,3) y(2) r'(2,3) by auto
qed

section \<open>Opening it\<close>

text \<open>Favourable answers of everything the download asks while it runs.\<close>

definition favourable :: "protected_download_env \<Rightarrow> download_keys \<Rightarrow> bool" where
  "favourable E K \<longleftrightarrow> (\<forall>n. \<not> dv_cancelled E n) \<and> (\<forall>n. dv_waits E n = Ok ()) \<and> dv_registry E = Ok () \<and>
     dv_account_opened E = Ok () \<and> (dk_vault K \<noteq> None \<longrightarrow> session_lives E K = Ok ()) \<and> \<not> dv_cancelled_opened E \<and>
     dv_create E = Ok () \<and> (\<forall>n. dv_write E n = Ok ()) \<and> dv_flush E = Ok () \<and> dv_sync E = Ok () \<and>
     dv_account_end E = Ok ()"

lemma open_slots_credential:
  "open_slots P vk pp core hb slots = Some x \<Longrightarrow>
     (\<exists>slot\<in>set slots. ks_kind slot = 1 \<or> ks_kind slot = 2) \<and> (\<forall>r. x = Ok (r, True) \<longrightarrow> vk \<noteq> None)"
proof (induction slots)
  case (Cons slot slots)
  show ?case
  proof (cases "slot_data_key P vk pp core slot")
    case None
    then show ?thesis using Cons by auto
  next
    case (Some dek)
    then show ?thesis using slot_needs_credential [OF Some] Cons.prems by (auto split: sum.splits)
  qed
qed simp

lemma opened_credential:
  assumes "initialize_tdenc2_decryptor_with_kind P hb vk pp = Ok (r, b)" and "EnvelopeHeader_parse hb = Ok h"
  shows "(\<exists>mode. protection_mode_from_header h = Ok mode) \<and> (b \<longrightarrow> vk \<noteq> None)"
proof -
  have "open_slots P vk pp (eh_core h) hb (eh_key_slots h) = Some (Ok (r, b))"
    using assms by (auto simp: initialize_tdenc2_decryptor_with_kind_def Let_def split: option.splits if_splits)
  note S = open_slots_credential [OF this]
  then have "has_slot Vault h \<or> has_slot Passphrase h" by (auto simp: has_slot_def list_ex_iff)
  then show ?thesis using S by (auto simp: protection_mode_from_header_def split: bool.splits)
qed

lemma open_envelope_succeeds:
  assumes o: "opened_as P E K hb r" and F: "favourable E K" and m: "check_metadata E (dr_metadata_plaintext r) = Ok ()"
    and st: "dl_header st = hb"
  shows "\<exists>st'. open_envelope P E K st = (Ok (), st')"
proof -
  obtain h dek where h: "EnvelopeHeader_parse hb = Ok h" "dr_header r = h" using o opened_reader by metis
  obtain b where b: "initialize_tdenc2_decryptor_with_kind P hb (dk_vault K) (dk_passphrase K) = Ok (r, b)"
    using o by (auto simp: opened_as_def)
  have l: "calculate_ciphertext_length (ch_total_plaintext_length (eh_core h)) (ch_chunk_size (eh_core h))
      (ch_header_length (eh_core h)) = Ok (dv_size E)" using o h(2) by (simp add: opened_as_def)
  note C = opened_credential [OF b h(1)]
  then obtain mode where mode: "protection_mode_from_header h = Ok mode" by blast
  obtain rec where rec: "registry_record_from_header P (dv_time E) (dv_folder E) (dv_message E) (dv_remote_name E)
      (dv_size E) hb PROBED = Ok rec"
    using h l mode by (simp add: registry_record_from_header_def)
  have lives: "b \<Longrightarrow> session_lives E K = Ok ()" using C F by (simp add: favourable_def)
  have registry: "dv_registry E = Ok ()" "dv_account_opened E = Ok ()" "dv_cancelled_opened E = False" "dv_create E = Ok ()"
    using F by (simp_all add: favourable_def)
  have session: "(if b then session_lives E K else Ok ()) = Ok ()" using lives by simp
  show ?thesis
    by (simp add: open_envelope_def st h l rec b registry session m Let_def del: if_split)
qed

lemma header_step_succeeds:
  assumes a: "arriving_envelope P E K hb r content envelope" and F: "favourable E K"
    and m: "check_metadata E (dr_metadata_plaintext r) = Ok ()"
    and w: "waiting A st" and e: "envelope = A @ remaining @ ahead"
  shows "\<exists>rest st'. header_step P E K st remaining = (Ok rest, st')"
proof -
  have o: "opened_as P E K hb r" using a by (simp add: arriving_envelope_def)
  note O = opened_core [OF o]
  define count where "count = min ((case dl_expected st of None \<Rightarrow> 98 | Some n \<Rightarrow> n) - length A) (length remaining)"
  define A' where "A' = A @ take count remaining"
  have e': "envelope = A' @ drop count remaining @ ahead" by (simp add: A'_def e)
  have h: "dl_header st = A" using w by (simp add: waiting_def)
  have S: "header_step P E K st remaining =
     (case (if dl_expected st = None \<and> length A' = 98
            then (case CoreHeader_parse A' of
                    Inl e \<Rightarrow> Err (PreambleUnreadable e)
                  | Inr core \<Rightarrow> Ok (st\<lparr>dl_header := A', dl_expected := Some (unat (ch_header_length core))\<rparr>))
            else Ok (st\<lparr>dl_header := A'\<rparr>)) of
        Inl e \<Rightarrow> (Err e, st\<lparr>dl_header := A'\<rparr>)
      | Inr st \<Rightarrow>
          if dl_expected st = Some (length (dl_header st))
          then (case open_envelope P E K st of (Inl e, st) \<Rightarrow> (Err e, st) | (Inr _, st) \<Rightarrow> (Ok (drop count remaining), st))
          else (Ok (drop count remaining), st))"
  proof -
    have u: "dl_header (st\<lparr>dl_header := y\<rparr>) = y" "dl_expected (st\<lparr>dl_header := y\<rparr>) = dl_expected st" for y
      by simp_all
    show ?thesis by (simp only: header_step_def Let_def h u A'_def count_def CORE_HEADER_SIZE_def)
  qed
  show ?thesis
  proof (cases "dl_expected st")
    case None
    have "CoreHeader_parse A' = Ok (dr_core r)" if "length A' = 98"
      using core_of_beginning [OF a e'] that by simp
    then show ?thesis using O(2,3) None by (auto simp: S)
  next
    case (Some n)
    obtain c0 where c0: "CoreHeader_parse A = Ok c0" "n = unat (ch_header_length c0)" using w Some by (auto simp: waiting_def)
    have "98 \<le> length A" using core.dec_width [OF c0(1)] by (simp add: policy_simps)
    then have n: "n = length hb" using core_of_beginning [OF a e] c0 O(3) by simp
    show ?thesis
    proof (cases "length A' = n")
      case True
      have "A' = take (length hb) envelope" using e' True n by simp
      also have "\<dots> = hb" using a by (simp add: arriving_envelope_def)
      finally obtain st' where "open_envelope P E K (st\<lparr>dl_header := A'\<rparr>) = (Ok (), st')"
        using open_envelope_succeeds [OF o F m, of "st\<lparr>dl_header := A'\<rparr>"] by auto
      then show ?thesis using Some True by (simp add: S)
    next
      case False
      then show ?thesis using Some by (simp add: S)
    qed
  qed
qed

lemma header_loop_succeeds:
  assumes a: "arriving_envelope P E K hb r content envelope" and F: "favourable E K"
    and m: "check_metadata E (dr_metadata_plaintext r) = Ok ()"
  shows "waiting A st \<Longrightarrow> envelope = A @ remaining @ ahead \<Longrightarrow>
    \<exists>rest st'. header_loop P E K st remaining = Some (Ok rest, st')"
proof (induction "length remaining" arbitrary: A st remaining rule: less_induct)
  case less
  show ?case
  proof (cases "remaining = []")
    case True
    then show ?thesis by (subst header_loop.simps) simp
  next
    case False
    have d: "dl_decryptor st = None" using less.prems(1) by (simp add: waiting_def)
    obtain rest st1 where s: "header_step P E K st remaining = (Ok rest, st1)"
      using header_step_succeeds [OF a F m less.prems] by blast
    obtain taken where t: "taken \<noteq> []" "remaining = taken @ rest"
      "waiting (A @ taken) st1 \<or> opened P E K (A @ taken) st1"
      using header_step_Ok [OF less.prems(1) False s] by blast
    have l: "header_loop P E K st remaining = header_loop P E K st1 rest"
      using s d False t(1,2) by (subst header_loop.simps) simp
    from t(3) show ?thesis
    proof
      assume w: "waiting (A @ taken) st1"
      have "length rest < length remaining" "envelope = (A @ taken) @ rest @ ahead" using t(1,2) less.prems(2) by simp_all
      from less.hyps [OF this(1) w this(2)] show ?thesis unfolding l .
    next
      assume "opened P E K (A @ taken) st1"
      then show ?thesis unfolding l by (subst header_loop.simps) (auto simp: opened_def)
    qed
  qed
qed

section \<open>Every chunk is taken\<close>

definition reading_it :: "prims \<Rightarrow> bytes \<Rightarrow> decrypt_reader \<Rightarrow> bytes \<Rightarrow> download_run \<Rightarrow> bool" where
  "reading_it P hb r A st \<longleftrightarrow> (\<exists>B out r'. A = hb @ B \<and> feed P r B = (Ok out, r') \<and> dl_decryptor st = Some r' \<and>
     dl_partial st = Some out \<and> unat (dl_written st) = length out)"

definition on_track :: "prims \<Rightarrow> bytes \<Rightarrow> decrypt_reader \<Rightarrow> bytes \<Rightarrow> download_run \<Rightarrow> bool" where
  "on_track P hb r A st \<longleftrightarrow> (waiting A st \<or> reading_it P hb r A st) \<and> unat (dl_ciphertext st) = length A"

lemma decrypt_rest_succeeds:
  assumes a: "arriving_envelope P E K hb r content envelope" and F: "favourable E K"
    and R: "reading_it P hb r A st" and e: "envelope = A @ rest @ ahead"
  shows "\<exists>st'. decrypt_rest P E st rest = (Ok (), st') \<and> reading_it P hb r (A @ rest) st' \<and>
    dl_received st' = dl_received st \<and> dl_budget st' = dl_budget st \<and> dl_ciphertext st' = dl_ciphertext st"
proof -
  obtain B out r1 where B: "A = hb @ B" "feed P r B = (Ok out, r1)" "dl_decryptor st = Some r1" "dl_partial st = Some out"
    "unat (dl_written st) = length out" using R by (auto simp: reading_it_def)
  have e': "envelope = hb @ B @ rest @ ahead" using e B(1) by simp
  obtain plaintext r2 where f: "feed P r1 rest = (Ok plaintext, r2)" "length (out @ plaintext) \<le> length content"
    using body_part_decrypts [OF a e' B(2)] by blast
  have "feed P r (B @ rest) = (Ok (out @ plaintext), r2)" using B(2) f(1) by (simp add: feed_append)
  moreover have "unat (saturating_add_u64 (dl_written st) (of_nat (length plaintext))) = length (out @ plaintext)"
    using B(5) f(2) body_decrypts(2) [OF a]
    by (simp add: unat_saturating_add_u64 unat_word_of_nat_u64 del: unat_u64_less)
  moreover have "dv_write E n = Ok ()" for n using F by (simp add: favourable_def)
  moreover have "rest = [] \<Longrightarrow> plaintext = [] \<and> r2 = r1"
    using f(1) feed_settled [OF B(2)] by (auto simp: settled_def)
  ultimately show ?thesis
    using B f(1) by (cases "rest = []"; cases "plaintext = []")
      (auto simp: decrypt_rest_def write_plaintext_def reading_it_def)
qed

lemma take_chunk_succeeds:
  assumes a: "arriving_envelope P E K hb r content envelope" and F: "favourable E K"
    and m: "check_metadata E (dr_metadata_plaintext r) = Ok ()"
    and T: "on_track P hb r A st" and e: "envelope = A @ bytes @ ahead"
  shows "\<exists>st'. take_chunk P E K st bytes = Some (Ok (), st') \<and> on_track P hb r (A @ bytes) st' \<and>
    dl_received st' = dl_received st \<and> dl_budget st' = dl_budget st"
proof -
  have P: "prims_ok P" and o: "opened_as P E K hb r" using a by (simp_all add: arriving_envelope_def)
  have n: "length envelope = unat (dv_size E)" using opened_length [OF P o] a by (simp add: arriving_envelope_def)
  define st1 where "st1 = st\<lparr>dl_ciphertext := saturating_add_u64 (dl_ciphertext st) (of_nat (length bytes))\<rparr>"
  have le: "length A + length bytes \<le> unat (dv_size E)" using e n by (metis append_assoc length_append le_add1)
  then have "length bytes < 18446744073709551616" using unat_u64_less [of "dv_size E"] by linarith
  then have c: "unat (dl_ciphertext st1) = length (A @ bytes)"
    using T le unat_u64_less [of "dv_size E"]
    by (simp add: st1_def on_track_def unat_saturating_add_u64 unat_word_of_nat_u64 del: unat_u64_less)
  then have ne: "\<not> dv_size E < dl_ciphertext st1" using le by (simp add: word_less_nat_alt)
  have s: "waiting A st1 = waiting A st" "reading_it P hb r A st1 = reading_it P hb r A st" "dl_received st1 = dl_received st"
    "dl_budget st1 = dl_budget st"
    by (simp_all add: st1_def waiting_def reading_it_def)
  have step: "take_chunk P E K st bytes = Some (Ok (), st')" 
    if "header_loop P E K st1 bytes = Some (Ok rest, st2)" "decrypt_rest P E st2 rest = (Ok (), st')" for rest st2 st'
    using that F ne unfolding take_chunk_def Let_def st1_def [symmetric] by (simp add: favourable_def)
  show ?thesis
  proof (cases "waiting A st")
    case True
    then have w: "waiting A st1" using s by simp
    obtain rest st2 where l: "header_loop P E K st1 bytes = Some (Ok rest, st2)"
      using header_loop_succeeds [OF a F m w e] by blast
    have "same_counts st1 st2 \<and> (rest = [] \<and> waiting (A @ bytes) st2 \<or>
        (\<exists>hb'. A @ bytes = hb' @ rest \<and> opened P E K hb' st2))"
      using header_loop_ok [OF w, of P E K bytes] l by auto
    then show ?thesis
    proof (elim conjE disjE exE)
      assume x: "same_counts st1 st2" "rest = []" "waiting (A @ bytes) st2"
      then have "decrypt_rest P E st2 rest = (Ok (), st2)" by (simp add: decrypt_rest_def)
      from step [OF l this] show ?thesis using x c s by (auto simp: on_track_def same_counts_def)
    next
      fix hb' assume x: "same_counts st1 st2" "A @ bytes = hb' @ rest" "opened P E K hb' st2"
      obtain r' where r': "opened_as P E K hb' r'" "dl_decryptor st2 = Some r'" "dl_partial st2 = Some []" "dl_written st2 = 0"
        using x(3) by (auto simp: opened_def)
      have e2: "envelope = hb' @ rest @ ahead" using e x(2) by (metis append_assoc)
      have u: "hb' = hb \<and> r' = r" using opened_unique [OF a r'(1) e2] .
      have "feed P r [] = (Ok [], r)" using opened_settled [OF P o] by (simp add: settled_def)
      then have "reading_it P hb r hb st2" using r' u by (simp add: reading_it_def)
      from decrypt_rest_succeeds [OF a F this e2 [unfolded u [THEN conjunct1]]] obtain st' where
        d: "decrypt_rest P E st2 rest = (Ok (), st')" "reading_it P hb r (hb @ rest) st'"
          "dl_received st' = dl_received st2" "dl_budget st' = dl_budget st2" "dl_ciphertext st' = dl_ciphertext st2" by blast
      show ?thesis using step [OF l d(1)] d x(1,2) u c s by (auto simp: on_track_def same_counts_def)
    qed
  next
    case False
    then have R: "reading_it P hb r A st1" using T s by (simp add: on_track_def)
    then have "dl_decryptor st1 \<noteq> None" by (auto simp: reading_it_def)
    then have l: "header_loop P E K st1 bytes = Some (Ok bytes, st1)" by (simp add: header_loop.simps [of P E K st1 bytes])
    from decrypt_rest_succeeds [OF a F R e] obtain st' where
      d: "decrypt_rest P E st1 bytes = (Ok (), st')" "reading_it P hb r (A @ bytes) st'"
        "dl_received st' = dl_received st1" "dl_budget st' = dl_budget st1" "dl_ciphertext st' = dl_ciphertext st1" by blast
    show ?thesis using step [OF l d(1)] d c s by (auto simp: on_track_def)
  qed
qed

section \<open>Over connections that drop\<close>

text \<open>The iterators give the chunks one by one; a connection that drops is followed by an iterator that
  resumes behind the chunks given so far, and at most \<open>retries\<close> connections in a row give none.\<close>

function completes :: "nat \<Rightarrow> bytes list \<Rightarrow> media_iterator list \<Rightarrow> (str + bytes) list \<Rightarrow> nat \<Rightarrow> nat \<Rightarrow> bool" where
  "completes retries chunks iterators [] n budget = (n = length chunks)"
| "completes retries chunks iterators (Inr bytes # items) n budget =
     (n < length chunks \<and> bytes = chunks ! n \<and> completes retries chunks iterators items (n + 1) retries)"
| "completes retries chunks [] (Inl e # items) n budget = False"
| "completes retries chunks (iterator # iterators) (Inl e # items) n budget =
     (0 < budget \<and> completes retries chunks iterators (iterator n) n (budget - 1))"
  by pat_completeness auto

termination
  by (relation "measures [\<lambda>(R, cs, its, items, n, b). length its, \<lambda>(R, cs, its, items, n, b). length items]") auto

lemma concat_chunk: "n < length chunks \<Longrightarrow> concat chunks = concat (take n chunks) @ chunks ! n @ concat (drop (n + 1) chunks)"
proof -
  assume n: "n < length chunks"
  have "concat chunks = concat (take n chunks @ chunks ! n # drop (Suc n) chunks)"
    by (simp only: id_take_nth_drop [OF n, symmetric])
  then show ?thesis by simp
qed

lemma on_track_counts:
  "on_track P hb r A (st\<lparr>dl_turn := t\<rparr>) = on_track P hb r A st"
  "on_track P hb r A (st\<lparr>dl_budget := b\<rparr>) = on_track P hb r A st"
  "on_track P hb r A (st\<lparr>dl_received := n\<rparr>) = on_track P hb r A st"
  by (simp_all add: on_track_def waiting_def reading_it_def)

lemma download_loop_succeeds:
  assumes F: "favourable E K" and m: "check_metadata E (dr_metadata_plaintext r) = Ok ()"
  shows "completes retries chunks iterators items n budget \<Longrightarrow>
    arriving_envelope P E K hb r content (concat chunks) \<Longrightarrow> (\<forall>t. retries \<le> dv_retries E t) \<Longrightarrow>
    on_track P hb r (concat (take n chunks)) st \<Longrightarrow> dl_received st = n \<Longrightarrow> budget \<le> dl_budget st \<Longrightarrow>
    \<exists>st'. download_loop P E K iterators items st = Some (Ok (), st') \<and> on_track P hb r (concat chunks) st'"
proof (induction retries chunks iterators items n budget arbitrary: st rule: completes.induct [case_names Done Chunk Lost Dropped])
  case (Done retries chunks iterators n budget)
  then show ?case by simp
next
  case (Chunk retries chunks iterators bytes items n budget)
  let ?st = "st\<lparr>dl_budget := dv_retries E (dl_turn st + 1), dl_received := dl_received st + 1\<rparr>"
  have n: "n < length chunks" "bytes = chunks ! n" "completes retries chunks iterators items (n + 1) retries"
    using Chunk.prems(1) by simp_all
  have e: "concat chunks = concat (take n chunks) @ bytes @ concat (drop (n + 1) chunks)"
    using concat_chunk [OF n(1)] n(2) by simp
  have T: "on_track P hb r (concat (take n chunks)) ?st" using Chunk.prems(4) by (simp add: on_track_counts)
  obtain st1 where st1: "take_chunk P E K ?st bytes = Some (Ok (), st1)"
    "on_track P hb r (concat (take n chunks) @ bytes) st1" "dl_received st1 = n + 1" "dl_budget st1 = dv_retries E (dl_turn st + 1)"
    using take_chunk_succeeds [OF Chunk.prems(2) F m T e] Chunk.prems(5) by auto
  let ?st1 = "st1\<lparr>dl_turn := dl_turn st1 + 1\<rparr>"
  have "concat (take (n + 1) chunks) = concat (take n chunks) @ bytes" using n by (simp add: take_Suc_conv_app_nth)
  then have "on_track P hb r (concat (take (n + 1) chunks)) ?st1" using st1(2) by (simp add: on_track_counts)
  from Chunk.IH [OF n(3) Chunk.prems(2,3) this] st1(3,4) Chunk.prems(3)
  have "\<exists>st'. download_loop P E K iterators items ?st1 = Some (Ok (), st') \<and> on_track P hb r (concat chunks) st'" by simp
  moreover have "download_loop P E K iterators (Inr bytes # items) st = download_loop P E K iterators items ?st1"
    using F st1(1) by (simp add: favourable_def)
  ultimately show ?case by simp
next
  case (Lost retries chunks e items n budget)
  then show ?case by simp
next
  case (Dropped retries chunks iterator iterators e items n budget)
  let ?st = "st\<lparr>dl_budget := dl_budget st - 1, dl_turn := dl_turn st + 1\<rparr>"
  have b: "0 < budget" "completes retries chunks iterators (iterator n) n (budget - 1)" using Dropped.prems(1) by simp_all
  have T: "on_track P hb r (concat (take n chunks)) ?st" using Dropped.prems(4) by (simp only: on_track_counts)
  have "dl_received ?st = n" "budget - 1 \<le> dl_budget ?st" using Dropped.prems(5,6) by simp_all
  from Dropped.IH [OF b(2) Dropped.prems(2,3) T this]
  have "\<exists>st'. download_loop P E K iterators (iterator n) ?st = Some (Ok (), st') \<and> on_track P hb r (concat chunks) st'" .
  moreover have "download_loop P E K (iterator # iterators) (Inl e # items) st = download_loop P E K iterators (iterator n) ?st"
    using F b(1) Dropped.prems(5,6) by (simp add: favourable_def)
  ultimately show ?case by simp
qed

lemma track_complete:
  assumes a: "arriving_envelope P E K hb r content envelope" and F: "favourable E K" and T: "on_track P hb r envelope st"
  shows "verify_complete E st = Ok content"
proof -
  have P: "prims_ok P" and o: "opened_as P E K hb r" using a by (simp_all add: arriving_envelope_def)
  have n: "length envelope = unat (dv_size E)" using opened_length [OF P o] a by (simp add: arriving_envelope_def)
  note O = opened_core [OF o]
  have l: "length hb \<le> length envelope" using a by (simp add: arriving_envelope_def)
  have "\<not> waiting envelope st"
  proof
    assume w: "waiting envelope st"
    show False
    proof (cases "dl_expected st")
      case None
      then show False using w l O(2) by (simp add: waiting_def)
    next
      case (Some k)
      then obtain c0 where c0: "CoreHeader_parse envelope = Ok c0" "k = unat (ch_header_length c0)" "length envelope < k"
        using w by (auto simp: waiting_def)
      then show False using core_of_beginning [OF a, of envelope "[]"] l O(2,3) by simp
    qed
  qed
  then obtain B out r' where B: "envelope = hb @ B" "feed P r B = (Ok out, r')" "dl_decryptor st = Some r'"
    "dl_partial st = Some out" "unat (dl_written st) = length out"
    using T by (auto simp: on_track_def reading_it_def)
  obtain plaintext r2 where f: "feed P r' [] = (Ok plaintext, r2)" "out @ plaintext = content" "finish r2 = Ok ()"
    "dr_core r2 = dr_core r"
    using body_part_decrypts [OF a, of B "[]" "[]" out r'] B(1,2) by auto
  have x: "plaintext = []" "r2 = r'" using f(1) feed_settled [OF B(2)] by (auto simp: settled_def)
  have "dl_ciphertext st = dv_size E" using T n by (simp add: on_track_def word_unat_eq_iff)
  moreover have "dl_written st = ch_total_plaintext_length (dr_core r')"
    using B(5) f(2,4) x a by (simp add: arriving_envelope_def word_unat_eq_iff)
  ultimately show ?thesis
    using F B(3,4) f(2,3) x by (simp add: verify_complete_def favourable_def)
qed

text \<open>The command as a whole: what it publishes.\<close>

definition admitted :: "protected_download_env \<Rightarrow> ledger \<Rightarrow> reservation \<Rightarrow> ledger \<Rightarrow> bool" where
  "admitted E L hold L' \<longleftrightarrow> dv_before E = Ok () \<and> dv_directory E = Ok () \<and> dv_destination E \<noteq> [] \<and>
     dv_destination E \<noteq> [RootDir] \<and>
     (\<exists>i. reserve (dv_calendar E) (dv_format_bytes E) (dv_ledger E) DownloadHold (dv_size E) L = (Ok i, L') \<and>
        hold = \<lparr>rv_id = i, rv_completed = False\<rparr>)"

lemma download_verified:
  assumes A: "admitted E L hold L'" and k: "download_keys_of E cs = (Ok K, cs')"
    and a: "arriving_envelope P E K hb r content (concat chunks)" and F: "favourable E K"
    and m: "check_metadata E (dr_metadata_plaintext r) = Ok ()" and R: "\<forall>t. retries \<le> dv_retries E t"
    and c: "completes retries chunks iterators (iterator 0) 0 retries"
  shows "\<exists>st. download_encrypted_file P E iterator iterators L cs = Some (publish_verified E st hold content L', cs')"
proof -
  have s: "on_track P hb r (concat (take 0 chunks)) (start_run E)" "dl_received (start_run E) = 0"
    "retries \<le> dl_budget (start_run E)"
    using R by (simp_all add: on_track_def waiting_def start_run_def)
  obtain st where st: "download_loop P E K iterators (iterator 0) (start_run E) = Some (Ok (), st)"
    "on_track P hb r (concat chunks) st"
    using download_loop_succeeds [OF F m c a R s] by blast
  show ?thesis
    using A k st(1) track_complete [OF a F st(2)]
    by (auto simp: download_encrypted_file_def admitted_def Let_def)
qed

section \<open>The envelope that was sent\<close>

lemma from_header_sized:
  "from_header P hb dek = Ok s \<Longrightarrow> EnvelopeHeader_parse hb = Ok h \<Longrightarrow>
     calculate_ciphertext_length (ch_total_plaintext_length (eh_core h)) (ch_chunk_size (eh_core h)) (of_nat (length hb)) =
     Ok (es_total_ciphertext_length s) \<and> es_total_plaintext_length s = ch_total_plaintext_length (eh_core h)"
  by (auto simp: from_header_def Let_def)

lemma session_arrives:
  assumes P: "prims_ok P" and s: "session_for P s h vk pp n meta"
    and c: "credentials_for vk pp (dk_vault K) (dk_passphrase K)" and z: "dv_size E = es_total_ciphertext_length s"
    and l: "length content = unat (es_total_plaintext_length s)"
  shows "\<exists>r. arriving_envelope P E K (es_header_bytes s) r content (session_envelope P s content) \<and>
    dr_metadata_plaintext r = meta"
proof -
  obtain r b where r: "initialize_tdenc2_decryptor_with_kind P (es_header_bytes s) (dk_vault K) (dk_passphrase K) = Ok (r, b)"
    "dr_header r = h" "dr_metadata_plaintext r = meta" "reader_ctx r = session_ctx s"
    using session_opens [OF P s c] by blast
  note S = s [unfolded session_for_def]
  have f: "from_header P (es_header_bytes s) (es_dek s) = Ok s" and p: "EnvelopeHeader_parse (es_header_bytes s) = Ok h"
    and hl: "length (es_header_bytes s) = unat (ch_header_length (eh_core h))" using S by blast+
  note tot = from_header_sized [OF f p]
  then have n: "ch_total_plaintext_length (eh_core h) = es_total_plaintext_length s" by simp
  have "(of_nat (length (es_header_bytes s)) :: u32) = ch_header_length (eh_core h)" unfolding hl by simp
  then have "opened_as P E K (es_header_bytes s) r" using r(1,2) tot z hl by (auto simp: opened_as_def)
  then show ?thesis
    using P l n r(2,3,4) by (auto simp: arriving_envelope_def session_envelope_def)
qed

lemma session_for_ok: "prims_ok P \<Longrightarrow> session_for P s h vk pp n meta \<Longrightarrow> session_ok s"
  by (rule from_header_ok [of P "es_header_bytes s" "es_dek s" s]) (simp_all add: session_for_def)

lemma upload_emits:
  assumes P: "prims_ok P" and s: "session_ok s" and src: "source_ok inner content"
    and d: "drive P inner caps (EncryptingReader_new src s) = (envelope, None, er)" and c: "completed er"
  shows "length (content src) = unat (es_total_plaintext_length s) \<and> envelope = session_envelope P s (content src)"
proof -
  have "er_inv P content (content src) er envelope \<and> er_session er = s"
    using drive_ok [OF P src er_inv_new [OF s, of P content src] d] by (simp add: EncryptingReader_new_def)
  then show ?thesis using completed_exact c by blast
qed

section \<open>A protected file that was uploaded and is fetched\<close>

abbreviation sample_content :: bytes where
  "sample_content \<equiv> [1, 2, 3, 4, 5, 6, 7, 8, 9, 10, 11, 12, 13, 14, 15, 16, 17, 18, 19, 20]"

definition roomy_ledger :: ledger where
  "roomy_ledger = \<lparr>lg_stats = week_stats\<lparr>bw_limit := 2000000000\<rparr>, lg_holds = [], lg_next_id = 0, lg_persistence_error = None,
     lg_load_error = None, lg_limit = 2000000000, lg_file = Some (Ok week_stats)\<rparr>"

definition fetch_env :: "u64 \<Rightarrow> protected_download_env" where
  "fetch_env n = \<lparr>dv_before = Ok (), dv_folder = None, dv_message = 7, dv_remote_name = [], dv_size = n,
     dv_destination = sample_place ''x'', dv_policy = KeepBoth, dv_random = us ''r'', dv_prompt = Some 5,
     dv_calendar = demo_calendar, dv_format_bytes = (\<lambda>_. []), dv_ledger = calm, dv_ledger_end = calm, dv_now = 0,
     dv_directory = Ok (), dv_retries = (\<lambda>_. 1), dv_cancelled = (\<lambda>_. False), dv_waits = (\<lambda>_. Ok ()), dv_time = 0,
     dv_registry = Ok (), dv_account_opened = Ok (), dv_state_opened = keyed_state, dv_cancelled_opened = False,
     dv_registry_again = Ok (), dv_metadata = (\<lambda>_. None), dv_create = Ok (), dv_write = (\<lambda>_. Ok ()), dv_flush = Ok (),
     dv_sync = Ok (), dv_account_end = Ok (), dv_lower = id,
     dv_publish = \<lparr>pe_view = sample_folder, pe_account = (\<lambda>_. Ok ()), pe_fault = (\<lambda>_. None), pe_disk = (\<lambda>_ _. None)\<rparr>,
     dv_now_end = 0, dv_state_end = keyed_state, dv_respond = (\<lambda>p. Ok (dp_save_path p))\<rparr>"

lemma fetch_env_simps [simp]:
  "dv_before (fetch_env n) = Ok ()" "dv_size (fetch_env n) = n" "dv_destination (fetch_env n) = sample_place ''x''"
  "dv_policy (fetch_env n) = KeepBoth" "dv_random (fetch_env n) = us ''r''" "dv_prompt (fetch_env n) = Some 5"
  "dv_calendar (fetch_env n) = demo_calendar" "dv_format_bytes (fetch_env n) = (\<lambda>_. [])" "dv_ledger (fetch_env n) = calm"
  "dv_now (fetch_env n) = 0" "dv_directory (fetch_env n) = Ok ()" "dv_retries (fetch_env n) = (\<lambda>_. 1)"
  "dv_lower (fetch_env n) = id"
  "dv_publish (fetch_env n) = \<lparr>pe_view = sample_folder, pe_account = (\<lambda>_. Ok ()), pe_fault = (\<lambda>_. None), pe_disk = (\<lambda>_ _. None)\<rparr>"
  by (simp_all add: fetch_env_def)

text \<open>The vault is locked; the passphrase of the file was entered.\<close>

definition locked_state :: crypto_state where
  "locked_state = keyed_state\<lparr>cs_session := None\<rparr>"

abbreviation sample_keys_taken :: download_keys where
  "sample_keys_taken \<equiv> \<lparr>dk_session = None, dk_vault = None, dk_passphrase = Some [1, 2, 3]\<rparr>"

lemma sample_keys_of: "download_keys_of (fetch_env n) locked_state = (Ok sample_keys_taken, locked_state\<lparr>cs_prompts := []\<rparr>)"
  by (simp add: download_keys_of_def locked_state_def keyed_state_def current_credential_def consume_prompt_secret_def
      result_ok_def Let_def)

lemma sample_favourable: "favourable (fetch_env n) sample_keys_taken"
  by (simp add: favourable_def fetch_env_def)

lemma sample_admitted:
  assumes "unat n \<le> 1000000000"
  shows "\<exists>L'. admitted (fetch_env n) roomy_ledger \<lparr>rv_id = 1, rv_completed = False\<rparr> L'"
proof -
  have p: "prepare_ledger demo_calendar calm roomy_ledger = (Ok (), roomy_ledger)"
    by (simp add: roomy_ledger_def prepare_ledger_def lbind_def recover_load_def roll_week_def retry_persist_def Let_def
      demo_calendar_def calm_def week_start_for_def week_stats_def)
  have u: "used_bytes roomy_ledger = Ok 10" by (simp add: used_bytes_Ok usage_def charged_def week_stats_def roomy_ledger_def)
  have w: "checked_add_u64 10 n = Some (10 + n)" "\<not> 2000000000 < 10 + n"
    using assms by (simp_all add: checked_add_u64_def word_less_nat_alt unat_word_ariths)
  have l: "bw_limit (lg_stats roomy_ledger) = 2000000000" "lg_holds roomy_ledger = []" "lg_next_id roomy_ledger = 0"
    "le_write calm = None" by (simp_all add: roomy_ledger_def calm_def)
  have "\<exists>L'. reserve demo_calendar (\<lambda>_. []) calm DownloadHold n roomy_ledger = (Ok 1, L')"
    using w by (simp add: reserve_def lbind_def p u l checked_add_u64_def persist_def)
  then show ?thesis by (simp add: admitted_def)
qed

text \<open>The first connection drops after one chunk, the second gives the rest.\<close>

definition two_chunks :: "bytes \<Rightarrow> bytes list" where
  "two_chunks envelope = [take 50 envelope, drop 50 envelope]"

definition first_connection :: "bytes \<Rightarrow> media_iterator" where
  "first_connection envelope k = [Ok (take 50 envelope), Err (us ''reset'')]"

definition second_connection :: "bytes \<Rightarrow> media_iterator" where
  "second_connection envelope k = map Ok (drop k (two_chunks envelope))"

lemma sample_completes: "completes 1 (two_chunks envelope) [second_connection envelope] (first_connection envelope 0) 0 1"
  by (simp add: two_chunks_def first_connection_def second_connection_def)

lemma sample_publication:
  "\<exists>disk. publish id (publishing (fetch_env n) content) (partial_place (fetch_env n)) (sample_place ''x'') KeepBoth =
     (Ok \<lparr>dp_outcome = Saved, dp_save_path = render_place (sample_place ''x'')\<rparr>, Some (0, disk))"
proof -
  have e: "pe_view (publishing (fetch_env n) content) = sample_folder" "pe_account (publishing (fetch_env n) content) = (\<lambda>_. Ok ())"
    "pe_fault (publishing (fetch_env n) content) = (\<lambda>_. None)"
    "pe_disk (publishing (fetch_env n) content) = (\<lambda>_. [partial_place (fetch_env n) \<mapsto> content])"
    by (simp_all add: publishing_def)
  have ne: "sample_place ''x'' \<noteq> partial_place (fetch_env n)" by (simp add: partial_place_def us_def)
  show ?thesis
    unfolding publish_def e sample_keys two_names publish_from.simps(2) sample_places
    using ne by (simp add: e rename_without_replace_def sample_places Let_def)
qed

lemma mode_of_sample: "parse_protection_mode (Some (us ''vault_and_passphrase'')) = Ok VaultAndPassphrase"
  by (simp add: parse_protection_mode_def us_def)

text \<open>Its upload: the envelope is prepared and read to its end.\<close>

definition sample_upload :: "encryption_session \<Rightarrow> bytes \<Rightarrow> bool" where
  "sample_upload s envelope \<longleftrightarrow>
     prepare_protected_envelope demo_prims sample_entropy 20 (us ''vault_and_passphrase'') (Some (replicate 32 9))
       (Some [1, 2, 3]) [] None = Ok (s, False) \<and>
     (\<exists>caps er. drive demo_prims piece_source caps (EncryptingReader_new sample_content s) = (envelope, None, er) \<and>
        completed er)"

lemma sample_session:
  assumes "prepare_protected_envelope demo_prims sample_entropy 20 (us ''vault_and_passphrase'') (Some (replicate 32 9))
       (Some [1, 2, 3]) [] None = Ok (s, False)"
  shows "\<exists>h. session_for demo_prims s h (Some (replicate 32 9)) (Some [1, 2, 3]) 20 []"
  using prepared_session_for [OF demo_prims_ok sample_entropy_ok _ keyed_credentials _ mode_of_sample, of None 20 "[]" s False]
    assms by (simp add: recorded_exactly_def)

lemma session_for_total: "session_for P s h vk pp n meta \<Longrightarrow> es_total_plaintext_length s = n"
  using from_header_sized [of P "es_header_bytes s" "es_dek s" s h] by (simp add: session_for_def)

lemma sample_uploaded: "\<exists>s envelope. sample_upload s envelope"
proof -
  obtain s where s: "prepare_protected_envelope demo_prims sample_entropy 20 (us ''vault_and_passphrase'')
      (Some (replicate 32 9)) (Some [1, 2, 3]) [] None = Ok (s, False)" using sample_prepared by blast
  obtain h where h: "session_for demo_prims s h (Some (replicate 32 9)) (Some [1, 2, 3]) 20 []"
    using sample_session [OF s] by blast
  have "from_header demo_prims (es_header_bytes s) (es_dek s) = Ok s \<and> length (es_header_bytes s) < 2 ^ 32"
    using h unat_u32_less [of "ch_header_length (eh_core h)"] by (simp add: session_for_def)
  then have o: "opened_session demo_prims s" unfolding opened_session_def by blast
  let ?caps = "replicate (unat (es_total_ciphertext_length s)) (5 :: nat)"
  obtain out e er where d: "drive demo_prims piece_source ?caps (EncryptingReader_new sample_content s) = (out, e, er)"
    using prod_cases3 by blast
  have "e = None \<and> completed er"
    using drive_ready [OF demo_prims_ok piece_source_ok piece_source_ready o _ _ d] session_for_total [OF h] by simp
  then show ?thesis using s d unfolding sample_upload_def by blast
qed

lemma sample_arrives:
  assumes "sample_upload s envelope"
  shows "unat (es_total_ciphertext_length s) \<le> 1000000000" 
    and "\<exists>r. arriving_envelope demo_prims (fetch_env (es_total_ciphertext_length s)) sample_keys_taken (es_header_bytes s) r
       sample_content (concat (two_chunks envelope)) \<and> dr_metadata_plaintext r = []"
proof -
  obtain h where h: "session_for demo_prims s h (Some (replicate 32 9)) (Some [1, 2, 3]) 20 []"
    using assms sample_session by (auto simp: sample_upload_def)
  note ok = session_for_ok [OF demo_prims_ok h]
  have t: "es_total_plaintext_length s = 20" by (rule session_for_total [OF h])
  have "65536 \<le> unat (es_chunk_size s)" "length (es_header_bytes s) \<le> 65536"
    "unat (es_total_ciphertext_length s) = envelope_length 20 (unat (es_chunk_size s)) (length (es_header_bytes s))"
    using ok t by (simp_all add: session_ok_def ctx_ok_def)
  then show "unat (es_total_ciphertext_length s) \<le> 1000000000"
    using ceil_div_le [of "unat (es_chunk_size s)" 20] by (simp add: envelope_length_def)
  have e: "envelope = session_envelope demo_prims s sample_content"
    using assms upload_emits [OF demo_prims_ok ok piece_source_ok] by (auto simp: sample_upload_def)
  have "concat (two_chunks envelope) = envelope" by (simp add: two_chunks_def)
  then show "\<exists>r. arriving_envelope demo_prims (fetch_env (es_total_ciphertext_length s)) sample_keys_taken (es_header_bytes s) r
       sample_content (concat (two_chunks envelope)) \<and> dr_metadata_plaintext r = []"
    using session_arrives [OF demo_prims_ok h, of sample_keys_taken "fetch_env (es_total_ciphertext_length s)" sample_content] t e
    by (simp add: credentials_for_def)
qed

lemma sample_moved:
  assumes "D = publish_verified (fetch_env n) st hold content L"
  shows "\<exists>disk. dd_moved D = Some (0, disk)"
  using sample_publication [of n content] assms by (auto simp: publish_verified_def Let_def split: prod.splits)

lemma sample_downloaded:
  assumes u: "sample_upload s envelope"
  shows "\<exists>D disk. download_encrypted_file demo_prims (fetch_env (es_total_ciphertext_length s)) (first_connection envelope)
      [second_connection envelope] roomy_ledger locked_state = Some (D, locked_state\<lparr>cs_prompts := []\<rparr>) \<and>
    dd_moved D = Some (0, disk)"
proof -
  let ?E = "fetch_env (es_total_ciphertext_length s)"
  obtain L' where A: "admitted ?E roomy_ledger \<lparr>rv_id = 1, rv_completed = False\<rparr> L'"
    using sample_admitted [OF sample_arrives(1) [OF u]] by blast
  obtain r where r: "arriving_envelope demo_prims ?E sample_keys_taken (es_header_bytes s) r sample_content
      (concat (two_chunks envelope))" "dr_metadata_plaintext r = []" using sample_arrives(2) [OF u] by blast
  have m: "check_metadata ?E (dr_metadata_plaintext r) = Ok ()" using r(2) by (simp add: check_metadata_def)
  have R: "\<forall>t. 1 \<le> dv_retries ?E t" by simp
  from download_verified [where iterator = "first_connection envelope", OF A sample_keys_of r(1) sample_favourable m R
      sample_completes] show ?thesis using sample_moved by blast
qed

section \<open>Properties\<close>

text \<open>C4: a protected download, whatever chunks arrive, over however many connections and with whatever
  answers of the device and the account: a file is moved to its destination only when the chunks that
  arrived are, together, one complete envelope of the size Telegram reports, opened with the credentials
  the download took at its start, and then the file is the verified plaintext of that envelope and,
  unless the policy is to replace, no other file is touched. Success without a moved file is a skipped
  download.\<close>

theorem download_publishes_verified:
  assumes "prims_ok P" and "download_encrypted_file P E iterator iterators L cs = Some (D, cs')"
  shows "case dd_moved D of
      None \<Rightarrow> \<forall>path. dd_result D = Ok path \<longrightarrow> dv_policy E = Skip
    | Some (i, disk) \<Rightarrow>
        (\<exists>K hb r content. download_keys_of E cs = (Ok K, cs') \<and> opened_as P E K hb r \<and>
          arrivals iterators (iterator 0) 0 = hb @ envelope_body P (reader_ctx r) content \<and>
          length content = unat (ch_total_plaintext_length (dr_core r)) \<and>
          length (arrivals iterators (iterator 0) 0) = unat (dv_size E) \<and>
          disk (sibling (dv_destination E) i) = Some content \<and>
          (dv_policy E \<noteq> Replace \<longrightarrow>
            (\<forall>q c. q \<noteq> partial_place E \<and> pe_disk (dv_publish E) i q = Some c \<longrightarrow> disk q = Some c)))"
  using assms(2)
proof (cases rule: download_cases)
  case (Abandoned e run hold L')
  then show ?thesis by (simp add: abandon_def)
next
  case (Verified K st hold content L')
  obtain hb r where b: "arrivals iterators (iterator 0) 0 = hb @ envelope_body P (reader_ctx r) content" "opened_as P E K hb r"
    "length content = unat (ch_total_plaintext_length (dr_core r))"
    "length (arrivals iterators (iterator 0) 0) = unat (dv_size E)"
    using verified_bytes [OF assms(1) Verified(2,3)] by blast
  note M = publish_verified_moved [OF Verified(4)]
  show ?thesis
  proof (cases "dd_moved D")
    case None
    then show ?thesis using M by simp
  next
    case (Some im)
    then show ?thesis using M Verified(1) b by (cases im) force
  qed
qed

theorem download_publishes_verified_witness:
  "\<exists>iterator iterators n D cs' disk hb r content.
     download_encrypted_file demo_prims (fetch_env n) iterator iterators roomy_ledger locked_state = Some (D, cs') \<and>
     dd_moved D = Some (0, disk) \<and> disk (sample_place ''x'') = Some content \<and>
     arrivals iterators (iterator 0) 0 = hb @ envelope_body demo_prims (reader_ctx r) content"
proof -
  obtain s envelope where u: "sample_upload s envelope" using sample_uploaded by blast
  obtain D disk where D: "download_encrypted_file demo_prims (fetch_env (es_total_ciphertext_length s))
      (first_connection envelope) [second_connection envelope] roomy_ledger locked_state =
      Some (D, locked_state\<lparr>cs_prompts := []\<rparr>)" "dd_moved D = Some (0, disk)" using sample_downloaded [OF u] by blast
  obtain hb r content where c: "arrivals [second_connection envelope] (first_connection envelope 0) 0 =
      hb @ envelope_body demo_prims (reader_ctx r) content" "disk (sample_place ''x'') = Some content"
    using download_publishes_verified [OF demo_prims_ok D(1)] unfolding D(2) by (auto simp: sample_places)
  show ?thesis by (intro exI conjI) (rule D(1), rule D(2), rule c(2), rule c(1))
qed

text \<open>C3: a file uploaded with protection comes back: when the upload's reader was read to its end, in
  whatever pieces, from a source of any pace, and the envelope it emitted, cut into any chunks, arrives
  over connections that drop and resume within the retry budget, then a download with one of the
  credentials of the upload, whose questions are all answered favourably, verifies every byte and
  publishes exactly the content of the source, also when the upload continued an earlier one.\<close>

theorem protected_file_comes_back:
  assumes "prims_ok P" and "entropy_ok R" and "\<forall>p. pp = Some p \<longrightarrow> length p < 2 ^ 32"
    and "upload_credentials mode token now cs = (Ok (vc, pp), cs')" and "recorded_exactly recorded"
    and "parse_protection_mode (Some name) = Ok mode"
    and "prepare_protected_envelope P R n name (map_option snd vc) pp meta recorded = Ok (s, continued)"
    and "source_ok inner content"
    and "drive P inner caps (ps_reader (attach_protected_envelope encode src s continued)) = (envelope, None, er)"
    and "completed er"
    and "admitted E L hold L'" and "download_keys_of E ds = (Ok K, ds')"
    and "credentials_for (map_option snd vc) pp (dk_vault K) (dk_passphrase K)" and "favourable E K"
    and "check_metadata E meta = Ok ()"
    and "dv_size E = ps_ciphertext_size (attach_protected_envelope encode src s continued)"
    and "concat chunks = envelope" and "\<forall>t. retries \<le> dv_retries E t"
    and "completes retries chunks iterators (iterator 0) 0 retries"
  shows "\<exists>st D. download_encrypted_file P E iterator iterators L ds = Some (D, ds') \<and>
    D = publish_verified E st hold (content src) L' \<and>
    (\<forall>i disk. dd_moved D = Some (i, disk) \<longrightarrow> disk (sibling (dv_destination E) i) = Some (content src))"
proof -
  obtain h where s: "session_for P s h (map_option snd vc) pp n meta"
    using prepared_session_for [OF assms(1-7)] by blast
  have e: "length (content src) = unat (es_total_plaintext_length s)" "envelope = session_envelope P s (content src)"
    using upload_emits [OF assms(1) session_for_ok [OF assms(1) s] assms(8) _ assms(10)] assms(9)
    by (simp_all add: attach_protected_envelope_def)
  have z: "dv_size E = es_total_ciphertext_length s" using assms(16) by (simp add: attach_protected_envelope_def)
  obtain r where r: "arriving_envelope P E K (es_header_bytes s) r (content src) (concat chunks)" "dr_metadata_plaintext r = meta"
    using session_arrives [OF assms(1) s assms(13) z e(1)] e(2) assms(17) by auto
  have m: "check_metadata E (dr_metadata_plaintext r) = Ok ()" using assms(15) r(2) by simp
  obtain st where "download_encrypted_file P E iterator iterators L ds = Some (publish_verified E st hold (content src) L', ds')"
    using download_verified [where iterator = iterator, OF assms(11,12) r(1) assms(14) m assms(18,19)] by blast
  then show ?thesis using publish_verified_moved [OF refl, of E st hold "content src" L'] by fastforce
qed

theorem protected_file_comes_back_witness:
  "\<exists>s envelope D cs' disk. sample_upload s envelope \<and>
     download_encrypted_file demo_prims (fetch_env (es_total_ciphertext_length s)) (first_connection envelope)
       [second_connection envelope] roomy_ledger locked_state = Some (D, cs') \<and>
     dd_moved D = Some (0, disk) \<and> disk (sample_place ''x'') = Some sample_content"
proof -
  obtain s envelope where u: "sample_upload s envelope" using sample_uploaded by blast
  let ?E = "fetch_env (es_total_ciphertext_length s)"
  note u' = u [unfolded sample_upload_def]
  obtain caps er where d: "drive demo_prims piece_source caps (EncryptingReader_new sample_content s) = (envelope, None, er)"
    "completed er" using u' by blast
  obtain L' where A: "admitted ?E roomy_ledger \<lparr>rv_id = 1, rv_completed = False\<rparr> L'"
    using sample_admitted [OF sample_arrives(1) [OF u]] by blast
  have at: "ps_reader (attach_protected_envelope (\<lambda>_. []) sample_content s False) = EncryptingReader_new sample_content s"
    "ps_ciphertext_size (attach_protected_envelope (\<lambda>_. []) sample_content s False) = es_total_ciphertext_length s"
    by (simp_all add: attach_protected_envelope_def)
  obtain st D where D: "download_encrypted_file demo_prims ?E (first_connection envelope) [second_connection envelope]
      roomy_ledger locked_state = Some (D, locked_state\<lparr>cs_prompts := []\<rparr>)"
    "D = publish_verified ?E st \<lparr>rv_id = 1, rv_completed = False\<rparr> sample_content L'"
    "\<forall>i disk. dd_moved D = Some (i, disk) \<longrightarrow> disk (sibling (dv_destination ?E) i) = Some sample_content"
    using protected_file_comes_back [where iterator = "first_connection envelope" and encode = "\<lambda>_. []",
        OF demo_prims_ok sample_entropy_ok _ keyed_credentials _ mode_of_sample _ piece_source_ok _ d(2) A sample_keys_of
          _ sample_favourable _ _ _ _ sample_completes, of None 20 "[]" s False caps sample_content] u' d(1) at
    by (auto simp: recorded_exactly_def credentials_for_def check_metadata_def two_chunks_def)
  obtain disk where disk: "dd_moved D = Some (0, disk)" using sample_moved [OF D(2)] by blast
  then have "disk (sample_place ''x'') = Some sample_content" using D(3) by (simp add: sample_places)
  then show ?thesis using u D(1) disk by blast
qed

end
