(* ===== verification/Spec2Isabelle.thy ===== *)
theory Spec2Isabelle
  imports Envelope_Stream Session_Contract Scan_Contract Reconcile_Contract Part_Contract Ledger_Contract
    Transfer_Contract Download_Contract Media_Protected Share_Contract Protected_Roundtrip
begin

text \<open>
  Telegram Drive: a verification development of the Rust core.

  Telegram Drive stores files in Telegram channels. The desktop program (\<open>src/app/src-tauri/src\<close>) encrypts
  files into TDENC2 envelopes, keeps their keys in a passphrase-protected vault, keeps folders and channels
  in step, queues and resumes transfers under a weekly bandwidth quota, and serves media to local players
  and share links. All names below are files under \<open>src/app/src-tauri/src\<close>.

  \<^bold>\<open>Parts and their theories.\<close> Each part has theories that translate its code, in the order of the code, and a
  theory named Contract (or the theories that build on it) that states what the part promises.

  \<^item> \<open>Prelude\<close>, \<open>Path_Text\<close>, \<open>Text_Tools\<close>, \<open>Ordered_Map\<close>, \<open>Codec\<close>: results as sums, words and little-endian
    fields, Rust strings as lists of Unicode scalar values, maps as sorted association lists, and the
    interface of a binary record.
  \<^item> Envelopes (\<open>crypto/error.rs\<close>, \<open>policy.rs\<close>, \<open>kdf.rs\<close>, \<open>crypto/envelope/*\<close>): \<open>Crypto_Policy\<close> (errors, limits,
    size arithmetic), \<open>Crypto_Prims\<close> (key derivation), \<open>Key_Slot\<close>, \<open>Envelope_Header\<close>, \<open>Envelope_Body\<close> (what the
    records of a plaintext are, as a specification), \<open>Encrypt_Reader\<close> (the poll state machine of the
    encryptor) and \<open>Decrypt_Reader\<close> (the incremental decoder). \<open>Header_Contract\<close>: the bytes of an
    accepted, authenticated header are determined by its fields: what \<open>build\<close> produces or, with empty metadata
    that still has a record, the same layout with the sealed empty record. \<open>Envelope_Layout\<close>: offsets, ranges and sizes agree
    and do not wrap. \<open>Encrypt_Contract\<close>, \<open>Encrypt_Run\<close>: whatever the source does, the encryptor emits the
    specified envelope of the bytes it read or reports an error. \<open>Decrypt_Contract\<close>, \<open>Envelope_Stream\<close>: the
    decoder accepts exactly those envelopes, in any fragments, and inverts the encryptor.
  \<^item> The vault (\<open>crypto/vault/*\<close>): \<open>Vault_Codec\<close> (formats), \<open>Vault_Disk\<close> (every file system call with a fault
    and the history of disk states), \<open>Vault_File\<close> (create, unlock, change, export, import, commit).
    \<open>Vault_Contract\<close>: a kill at any point leaves the old or the new vault, a created vault opens again, an
    unconfirmed import loses no key.
  \<^item> The encryption state (\<open>crypto/state.rs\<close>, \<open>crypto/preparation.rs\<close>): \<open>Crypto_State\<close>, with tickets for the work
    done outside the mutex. \<open>Session_Contract\<close>: over every interleaving a locked state holds and answers no key, a stale
    operation publishes nothing, a published vault is the one on disk.
  \<^item> Synchronisation (\<open>sync_engine/*\<close>): \<open>Sync_Planner\<close>, \<open>Sync_Policy\<close>, \<open>Sync_Remote\<close>, \<open>Sync_State\<close>, \<open>Sync_Scan\<close>,
    \<open>Sync_Cycle\<close>, \<open>Sync_Execute\<close>, \<open>Sync_Reconcile\<close>; \<open>Sync_Contract\<close> (no edit is lost, deletions are bounded),
    \<open>Scan_Contract\<close> (the incremental scan agrees with the full one over any files whose
    later writes changed the size or the time), \<open>Execute_Contract\<close> (destructive steps are
    justified, paths stay inside the folder), \<open>Sync_Converge\<close> and \<open>Reconcile_Contract\<close> (a reconciliation that
    succeeded leaves nothing to do).
  \<^item> Resumable uploads (\<open>resumable_upload.rs\<close>): \<open>Part_Upload\<close>, the invariant of an attempt in
    \<open>Part_Progress\<close>, and \<open>Part_Contract\<close> over any history of attempts: a finished upload is its stream, and an
    attempt sends nothing before the confirmed part of its record.
  \<^item> The bandwidth ledger (\<open>bandwidth.rs\<close>): \<open>Bandwidth\<close> and \<open>Ledger_Contract\<close> (charged and
    held bytes stay within the quotas in force).
  \<^item> The transfer queue (\<open>transfer_engine.rs\<close>): \<open>Transfer_Job\<close> (jobs and pure decisions), \<open>Transfer_Store\<close> (the
    database with a failure at any statement), \<open>Transfer_Queue\<close> (every handler), \<open>Transfer_Steps\<close> (events,
    reachable states, the invariant), \<open>Transfer_Invariant\<close> and \<open>Transfer_Frames\<close> (each event keeps it, and
    what it leaves alone), \<open>Transfer_Sample\<close> (a concrete queue). \<open>Transfer_Removal\<close>, \<open>Transfer_Rest\<close>,
    \<open>Transfer_Decisions\<close> and \<open>Transfer_Contract\<close>: removed transfers stay removed, paused ones at rest,
    answered results survive a crash, and running transfers stay within the limits.
  \<^item> Download destinations and accounts (\<open>commands/download_destination.rs\<close>, \<open>workspace/account.rs\<close>):
    \<open>Download_Destination\<close>, \<open>Account_Guard\<close>, \<open>Download_Contract\<close>.
  \<^item> Media responses (\<open>server.rs\<close>, the decryptor of \<open>commands/fs.rs\<close>): \<open>Media_Range\<close> (ranges, wrappers, plain
    media), \<open>Media_Envelope\<close> (protected media), \<open>Media_Chunks\<close> and \<open>Media_Records\<close> (lemmas), \<open>Media_Contract\<close> and
    \<open>Media_Protected\<close>: exactly the requested bytes or an error, and only bytes sealed for their place. What a
    request asks for is stated apart from the code that parses it (\<open>asks\<close>, \<open>requested\<close>).
  \<^item> Share links (\<open>share_routes.rs\<close>): \<open>Share_Limiter\<close>, \<open>Share_Contract\<close> (how many passwords a link can
    be tried with in a stretch of time).
  \<^item> Protected transfers (\<open>commands/fs.rs\<close>): \<open>Protected_Envelope\<close> (the envelope of an upload, new or continued,
    and its registry record; \<open>prepare_protected_envelope\<close>) and \<open>Protected_Download\<close>
    (\<open>cmd_download_encrypted_file\<close> as \<open>download_encrypted_file\<close>, its header, record and retry loops, the
    partial file and the publication). \<open>Protected_Contract\<close>: the envelope opens with each credential it was
    made with. \<open>Protected_Transfer\<close>: the invariant of a download over any chunks and connections.
    \<open>Protected_Roundtrip\<close>: only verified plaintext is published, and an uploaded file comes back.

  \<^bold>\<open>How the parts meet.\<close> A synchronisation cycle calls the planner, the scan and the executor; the queue reserves
  destinations through \<open>reserve_destination\<close> and validates its account through the guard; a media response
  makes its hold in the ledger, opens envelopes with the decoder and asks the encryption state for the life
  of its credential; a protected upload reads its envelope from the encryptor, a protected download feeds
  the decoder, holds bandwidth and publishes through \<open>publish\<close>. These calls are calls of the same definitions here. What is not modelled enters as an
  argument: a record of answers (\<open>ledger_env\<close>, the environments of the executor and of the queue), a
  function of the number of the question, or a fault oracle. No property restricts these answers except by
  hypotheses it states.

  \<^bold>\<open>Conventions.\<close> A Rust \<open>Result\<close> is a sum; \<open>u8\<close> to \<open>u64\<close> are words, \<open>usize\<close> is \<open>nat\<close> with the checks the code
  makes, \<open>i32\<close> and \<open>i64\<close> are \<open>int\<close> with overflow, saturation or failure written out. A method that takes
  \<open>&mut self\<close> returns its result with the new state, also when it fails. A body under a mutex is one
  function; work that releases the mutex is split where it does. \<open>HashMap\<close>s are sorted association lists;
  where the code walks one in an order it does not choose, the walk is an argument.

  \<^bold>\<open>Interfaces.\<close> \<open>framed_codec\<close> and \<open>prefix_codec\<close> (\<open>Codec\<close>) are the contracts of binary records, interpreted by the
  core header, the key slots and the vault header; \<open>fragment_decoder\<close> (\<open>Decrypt_Reader\<close>) is a decoder that may
  be fed in fragments; \<open>kv_map\<close> (\<open>Ordered_Map\<close>) is a map; \<open>body_wrapper\<close> and \<open>wrapper_pair\<close> (\<open>Media_Chunks\<close>) are
  the stages of a response body, closed under composition.

  \<^bold>\<open>Bounds and termination.\<close> Every definition is total. Loops are structural recursion or have a measure: the
  poll loop of the encryptor consumes output space or plaintext, \<open>feed\<close> its input, the upload loop the
  outcomes that arrive (at most the parts left to send), the pacer's pieces the chunk, the download loop the
  chunks of its iterators. The header loop of a download answers \<open>None\<close> where it would turn for ever;
  \<open>header_loop_ok\<close> shows that it never does. The only numeric bounds are the code's own: \<open>MAX_NAMES\<close>
  numbered names, the five retries of a failed connection, the limits of the format.

  \<^bold>\<open>Assumptions.\<close> \<open>prims_ok\<close> states lengths and that sealing and opening are inverse; it holds for
  \<open>demo_prims\<close>. Where a property says a byte was sealed under a key, it says that the record is the output
  of sealing; unforgeability of the cipher is not assumed. SHA-256, case tables, dates, JSON and base64 are
  parameters.

  \<^bold>\<open>Not modelled.\<close> The Telegram client (grammers), SQLite, serde, chrono, actix, hyper and tokio are third-party
  code: their answers are inputs. The command handlers under \<open>commands/\<close> other than those named, the routes of
  \<open>api_routes.rs\<close>, \<open>webdav.rs\<close> and \<open>socks5_bridge.rs\<close> and the caches of \<open>workspace/\<close> translate between
  these libraries and hold little state of their own. \<open>transcode.rs\<close>, \<open>heic.rs\<close> and \<open>fmp4_remux.rs\<close> drive external
  tools. The application shell, the database migrations, \<open>native_e2e.rs\<close> (test scaffolding) and the React
  interface are left out. Timing of asynchronous tasks appears only as the order of steps.
\<close>

end
